(* ===== verification/Prelude.thy ===== *)
theory Prelude
  imports Main "HOL-Library.Signed_Division"
begin

text \<open>
  Shared material of the development: the fault values that stand for the ways a C++
  operation of the library can stop (an exception of the project, an exception of the
  standard library, undefined behaviour, a null dereference), the result type over them and its
  monadic combinators, the machine integers of the source (\<open>int64_t\<close> as an \<open>int\<close> whose overflow
  is a fault, \<open>uint64_t\<close>, \<open>size_t\<close> and \<open>uint32_t\<close> as \<open>nat\<close> with the wrap-around written out), and the
  list operations on contiguous containers that several components use.
\<close>

named_theorems result_simps \<open>unfolding of the result combinators\<close>
named_theorems width_defs \<open>definitions of the fixed-width conversions\<close>

subsection \<open>Faults and results\<close>

datatype fault =
    Spider_Exception      \<comment> \<open>\<open>throwSpiderException\<close>, \<open>throwNullptrException\<close>\<close>
  | Out_Of_Range          \<comment> \<open>\<open>std::out_of_range\<close>, from \<open>at\<close>\<close>
  | Undefined_Behaviour   \<comment> \<open>signed overflow, division by zero, access out of a buffer\<close>
  | Null_Deref            \<comment> \<open>a null pointer or an empty function object is used\<close>
  | Diverges              \<comment> \<open>a loop that does not end\<close>

type_synonym 'a result = "fault + 'a"

definition bindE :: "'a result \<Rightarrow> ('a \<Rightarrow> 'b result) \<Rightarrow> 'b result" where
  "bindE m f = (case m of Inl e \<Rightarrow> Inl e | Inr x \<Rightarrow> f x)"

definition guardE :: "bool \<Rightarrow> fault \<Rightarrow> unit result" where
  "guardE b e = (if b then Inr () else Inl e)"

lemma bindE_Inl [simp]: "bindE (Inl e) f = Inl e"
  by (simp add: bindE_def)

lemma bindE_Inr [simp]: "bindE (Inr x) f = f x"
  by (simp add: bindE_def)

lemma bindE_eq_Inr: "bindE m f = Inr y \<longleftrightarrow> (\<exists>x. m = Inr x \<and> f x = Inr y)"
  by (cases m) auto

lemma bindE_eq_Inl: "bindE m f = Inl e \<longleftrightarrow> m = Inl e \<or> (\<exists>x. m = Inr x \<and> f x = Inl e)"
  by (cases m) auto

lemma bindE_InrE [elim!]:
  assumes "bindE m f = Inr y"
  obtains x where "m = Inr x" and "f x = Inr y"
  using assms by (auto simp: bindE_eq_Inr)

lemma bindE_cong [fundef_cong]:
  "m = m' \<Longrightarrow> (\<And>x. m' = Inr x \<Longrightarrow> f x = f' x) \<Longrightarrow> bindE m f = bindE m' f'"
  by (cases m') auto

lemma guardE_True [simp]: "guardE True e = Inr ()"
  by (simp add: guardE_def)

lemma guardE_False [simp]: "guardE False e = Inl e"
  by (simp add: guardE_def)

lemma guardE_eq_Inr [simp]: "guardE b e = Inr u \<longleftrightarrow> b"
  by (simp add: guardE_def)

lemmas [result_simps] = bindE_eq_Inr bindE_eq_Inl guardE_def

text \<open>A loop whose body may fail: the first fault ends it.\<close>

fun foldE :: "('s \<Rightarrow> 'a \<Rightarrow> 's result) \<Rightarrow> 's \<Rightarrow> 'a list \<Rightarrow> 's result" where
  "foldE f s [] = Inr s"
| "foldE f s (x # xs) = bindE (f s x) (\<lambda>s'. foldE f s' xs)"

fun mapE :: "('a \<Rightarrow> 'b result) \<Rightarrow> 'a list \<Rightarrow> 'b list result" where
  "mapE f [] = Inr []"
| "mapE f (x # xs) = bindE (f x) (\<lambda>y. bindE (mapE f xs) (\<lambda>ys. Inr (y # ys)))"

lemma foldE_append: "foldE f s (xs @ ys) = bindE (foldE f s xs) (\<lambda>s'. foldE f s' ys)"
  by (induction xs arbitrary: s) (auto simp: bindE_def split: sum.splits)

text \<open>An invariant kept by every step of a failing loop holds of its result.\<close>

lemma foldE_invariant:
  assumes "foldE f s xs = Inr s'" and "P s"
    and "\<And>s x s'. x \<in> set xs \<Longrightarrow> P s \<Longrightarrow> f s x = Inr s' \<Longrightarrow> P s'"
  shows "P s'"
  using assms
proof (induction xs arbitrary: s)
  case (Cons x xs)
  from Cons.prems(1) obtain t where t: "f s x = Inr t" "foldE f t xs = Inr s'" by auto
  from t(1) Cons.prems(2,3) have "P t" by auto
  with Cons.IH [OF t(2)] Cons.prems(3) show ?case by auto
qed simp

lemma foldE_succeeds:
  assumes "P s" and "\<And>s x. x \<in> set xs \<Longrightarrow> P s \<Longrightarrow> \<exists>s'. f s x = Inr s' \<and> P s'"
  shows "\<exists>s'. foldE f s xs = Inr s' \<and> P s'"
  using assms
proof (induction xs arbitrary: s)
  case (Cons x xs)
  from Cons.prems obtain t where "f s x = Inr t" "P t" by auto
  with Cons.IH [of t] Cons.prems(2) show ?case by auto
qed simp

text \<open>Congruences for evaluation: the rest of a computation is not simplified before its argument is a value.\<close>

lemma bindE_weak: "m = m' \<Longrightarrow> bindE m f = bindE m' f"
  by simp

lemma foldE_weak: "s = s' \<Longrightarrow> xs = xs' \<Longrightarrow> foldE f s xs = foldE f s' xs'"
  by simp

lemma mapE_Inr_iff: "mapE f xs = Inr ys \<longleftrightarrow> list_all2 (\<lambda>x y. f x = Inr y) xs ys"
proof (induction xs arbitrary: ys)
  case (Cons x xs)
  then show ?case by (cases ys) (auto simp: bindE_eq_Inr)
qed (auto)

subsection \<open>Machine integers\<close>

definition in_i64 :: "int \<Rightarrow> bool" where
  "in_i64 x \<longleftrightarrow> - (2 ^ 63) \<le> x \<and> x < 2 ^ 63"

text \<open>A signed 64-bit result: overflow is undefined behaviour in C++.\<close>

definition i64 :: "int \<Rightarrow> int result" where
  "i64 x = (if in_i64 x then Inr x else Inl Undefined_Behaviour)"

text \<open>Conversions \<open>static_cast<uint64_t>\<close> and back (two's complement).\<close>

definition to_u64 :: "int \<Rightarrow> nat" where
  "to_u64 x = nat (x mod 2 ^ 64)"

definition of_u64 :: "nat \<Rightarrow> int" where
  "of_u64 n = (if n < 2 ^ 63 then int n else int n - 2 ^ 64)"

definition to_u32 :: "int \<Rightarrow> nat" where
  "to_u32 x = nat (x mod 2 ^ 32)"

text \<open>Unsigned arithmetic wraps.\<close>

definition add64 :: "nat \<Rightarrow> nat \<Rightarrow> nat" where
  "add64 a b = (a + b) mod 2 ^ 64"

definition sub64 :: "nat \<Rightarrow> nat \<Rightarrow> nat" where
  "sub64 a b = (a + (2 ^ 64 - b mod 2 ^ 64)) mod 2 ^ 64"

definition mul64 :: "nat \<Rightarrow> nat \<Rightarrow> nat" where
  "mul64 a b = (a * b) mod 2 ^ 64"

definition add32 :: "nat \<Rightarrow> nat \<Rightarrow> nat" where
  "add32 a b = (a + b) mod 2 ^ 32"

definition mul32 :: "nat \<Rightarrow> nat \<Rightarrow> nat" where
  "mul32 a b = (a * b) mod 2 ^ 32"

abbreviation "size_max \<equiv> (2 ^ 64 - 1 :: nat)"
abbreviation "u64_max \<equiv> (2 ^ 64 - 1 :: nat)"
abbreviation "u32_max \<equiv> (2 ^ 32 - 1 :: nat)"

lemmas [width_defs] = in_i64_def i64_def to_u64_def of_u64_def to_u32_def
  add64_def sub64_def mul64_def add32_def mul32_def

lemma i64_eq_Inr [simp]: "i64 x = Inr y \<longleftrightarrow> in_i64 x \<and> y = x"
  by (auto simp: i64_def)

lemma i64_ok [simp]: "in_i64 x \<Longrightarrow> i64 x = Inr x"
  by (simp add: i64_def)

lemma in_i64_between: "in_i64 a \<Longrightarrow> in_i64 b \<Longrightarrow> a \<le> x \<Longrightarrow> x \<le> b \<Longrightarrow> in_i64 x"
  by (auto simp: in_i64_def)

lemma to_u64_nonneg: "0 \<le> x \<Longrightarrow> in_i64 x \<Longrightarrow> to_u64 x = nat x"
  by (simp add: to_u64_def in_i64_def)

lemma to_u64_bound: "to_u64 x < 2 ^ 64"
  by (simp add: to_u64_def nat_less_iff)

lemma of_u64_to_u64: "in_i64 x \<Longrightarrow> of_u64 (to_u64 x) = x"
proof (cases "0 \<le> x")
  case False
  assume x: "in_i64 x"
  with False have "x mod 2 ^ 64 = x + 2 ^ 64"
    using mod_pos_pos_trivial [of "x + 2 ^ 64" "2 ^ 64"] by (simp add: in_i64_def)
  with x False show ?thesis by (auto simp: of_u64_def to_u64_def in_i64_def nat_less_iff)
qed (simp add: to_u64_nonneg of_u64_def in_i64_def nat_less_iff)

lemma add64_exact: "a + b < 2 ^ 64 \<Longrightarrow> add64 a b = a + b"
  by (simp add: add64_def)

lemma add64_bound [simp]: "add64 a b < 2 ^ 64"
  by (simp add: add64_def)

lemma sub64_exact: "b \<le> a \<Longrightarrow> a < 2 ^ 64 \<Longrightarrow> sub64 a b = a - b"
proof -
  assume ba: "b \<le> a" and a: "a < 2 ^ 64"
  then have e: "a + (2 ^ 64 - b) = (a - b) + 2 ^ 64" by simp
  from ba a have "b mod 2 ^ 64 = b" by simp
  then have "sub64 a b = ((a - b) + 2 ^ 64) mod 2 ^ 64" by (simp only: sub64_def e)
  also have "\<dots> = (a - b) mod 2 ^ 64" by simp
  also have "\<dots> = a - b" using a by simp
  finally show ?thesis .
qed

lemma sub64_wraps: "a < b \<Longrightarrow> b < 2 ^ 64 \<Longrightarrow> sub64 a b = 2 ^ 64 - (b - a)"
  by (simp add: sub64_def)

lemma sub64_bound [simp]: "sub64 a b < 2 ^ 64"
  by (simp add: sub64_def)

lemma mul64_exact: "a * b < 2 ^ 64 \<Longrightarrow> mul64 a b = a * b"
  by (simp add: mul64_def)

subsection \<open>Contiguous containers\<close>

text \<open>\<open>v.at(i)\<close> raises, \<open>v[i]\<close> out of range is undefined behaviour.\<close>

definition at :: "'a list \<Rightarrow> nat \<Rightarrow> 'a result" where
  "at xs i = (if i < length xs then Inr (xs ! i) else Inl Out_Of_Range)"

definition get_at :: "'a list \<Rightarrow> nat \<Rightarrow> 'a result" where
  "get_at xs i = (if i < length xs then Inr (xs ! i) else Inl Undefined_Behaviour)"

definition set_at :: "'a list \<Rightarrow> nat \<Rightarrow> 'a \<Rightarrow> 'a list result" where
  "set_at xs i v = (if i < length xs then Inr (xs[i := v]) else Inl Undefined_Behaviour)"

lemma at_eq_Inr [simp]: "at xs i = Inr x \<longleftrightarrow> i < length xs \<and> x = xs ! i"
  by (auto simp: at_def)

lemma get_at_eq_Inr [simp]: "get_at xs i = Inr x \<longleftrightarrow> i < length xs \<and> x = xs ! i"
  by (auto simp: get_at_def)

lemma set_at_eq_Inr [simp]: "set_at xs i v = Inr ys \<longleftrightarrow> i < length xs \<and> ys = xs[i := v]"
  by (auto simp: set_at_def)

lemma get_at_ok [simp]: "i < length xs \<Longrightarrow> get_at xs i = Inr (xs ! i)"
  by simp

lemma set_at_ok [simp]: "i < length xs \<Longrightarrow> set_at xs i v = Inr (xs[i := v])"
  by simp

lemma at_ok [simp]: "i < length xs \<Longrightarrow> at xs i = Inr (xs ! i)"
  by simp

text \<open>\<open>out_of_order_erase\<close>: the last element takes the place of the erased one.\<close>

definition out_of_order_erase :: "'a list \<Rightarrow> nat \<Rightarrow> 'a list" where
  "out_of_order_erase xs i = butlast (xs[i := last xs])"

lemma length_out_of_order_erase [simp]: "length (out_of_order_erase xs i) = length xs - 1"
  by (simp add: out_of_order_erase_def)

lemma nth_out_of_order_erase:
  "j < length xs - 1 \<Longrightarrow> out_of_order_erase xs i ! j = (if j = i then last xs else xs ! j)"
  by (auto simp: out_of_order_erase_def nth_butlast nth_list_update)

lemma sum_list_update_nat:
  "i < length xs \<Longrightarrow> sum_list (xs[i := (v::nat)]) + xs ! i = sum_list xs + v"
proof (induction xs arbitrary: i)
  case (Cons x xs)
  then show ?case by (cases i) auto
qed simp

end
