(* ===== verification/PiGraph.thy ===== *)
theory PiGraph
  imports Prelude
begin

text \<open>
  A PiSDF graph as the numerical tools read it: the vertices of \<open>vertices()\<close>, the edges of \<open>edges()\<close> and the
  interfaces, each referred to by its \<open>ix()\<close>, which is its position in the vector of the graph. The port arrays
  hold an edge index or null. \<open>graph_wf\<close> is what the graph operations keep: the port arrays and the end points of
  the edges agree.
\<close>

datatype vertex_type =
    NORMAL | CONFIG | DELAY | FORK | JOIN | REPEAT | DUPLICATE | TAIL | HEAD
  | EXTERN_IN | EXTERN_OUT | INIT | END_VERTEX | GRAPH | INPUT | OUTPUT

text \<open>A \<open>Vertex *\<close> of a graph: a vertex of \<open>vertices()\<close>, an input interface or an output interface, with its \<open>ix()\<close>.\<close>

datatype vref = Actor nat | In_If nat | Out_If nat

record pi_vertex =
  v_type :: vertex_type
  v_in :: "nat option list"
  v_out :: "nat option list"

record pi_edge =
  e_source :: vref
  e_source_port :: nat
  e_sink :: vref
  e_sink_port :: nat

record pi_graph =
  g_vertices :: "pi_vertex list"
  g_edges :: "pi_edge list"
  g_in_ifs :: "nat option list"   \<comment> \<open>\<open>outputEdge(0)\<close> of each input interface\<close>
  g_out_ifs :: "nat option list"  \<comment> \<open>\<open>inputEdge(0)\<close> of each output interface\<close>

fun subtype :: "'a pi_graph_scheme \<Rightarrow> vref \<Rightarrow> vertex_type" where
  "subtype g (Actor i) = v_type (g_vertices g ! i)"
| "subtype g (In_If i) = INPUT"
| "subtype g (Out_If i) = OUTPUT"

text \<open>An actor is not an interface, and its port arrays name existing edges that end at it.\<close>

definition vertex_wf :: "pi_graph \<Rightarrow> nat \<Rightarrow> bool" where
  "vertex_wf g i \<longleftrightarrow> v_type (g_vertices g ! i) \<noteq> INPUT \<and> v_type (g_vertices g ! i) \<noteq> OUTPUT \<and>
     (\<forall>e. Some e \<in> set (v_out (g_vertices g ! i)) \<longrightarrow> e < length (g_edges g) \<and> e_source (g_edges g ! e) = Actor i) \<and>
     (\<forall>e. Some e \<in> set (v_in (g_vertices g ! i)) \<longrightarrow> e < length (g_edges g) \<and> e_sink (g_edges g ! e) = Actor i)"

text \<open>An edge leaves an actor or an input interface, enters an actor or an output interface, and is in their ports.\<close>

definition edge_wf :: "pi_graph \<Rightarrow> nat \<Rightarrow> bool" where
  "edge_wf g e \<longleftrightarrow>
     (case e_source (g_edges g ! e) of
        Actor i \<Rightarrow> i < length (g_vertices g) \<and> Some e \<in> set (v_out (g_vertices g ! i))
      | In_If i \<Rightarrow> i < length (g_in_ifs g) \<and> g_in_ifs g ! i = Some e
      | Out_If i \<Rightarrow> False) \<and>
     (case e_sink (g_edges g ! e) of
        Actor i \<Rightarrow> i < length (g_vertices g) \<and> Some e \<in> set (v_in (g_vertices g ! i))
      | Out_If i \<Rightarrow> i < length (g_out_ifs g) \<and> g_out_ifs g ! i = Some e
      | In_If i \<Rightarrow> False)"

definition graph_wf :: "pi_graph \<Rightarrow> bool" where
  "graph_wf g \<longleftrightarrow> (\<forall>i < length (g_vertices g). vertex_wf g i) \<and> (\<forall>e < length (g_edges g). edge_wf g e)"

lemma graph_wf_out:
  "graph_wf g \<Longrightarrow> i < length (g_vertices g) \<Longrightarrow> Some e \<in> set (v_out (g_vertices g ! i)) \<Longrightarrow>
   e < length (g_edges g) \<and> e_source (g_edges g ! e) = Actor i"
  by (auto simp: graph_wf_def vertex_wf_def)

lemma graph_wf_in:
  "graph_wf g \<Longrightarrow> i < length (g_vertices g) \<Longrightarrow> Some e \<in> set (v_in (g_vertices g ! i)) \<Longrightarrow>
   e < length (g_edges g) \<and> e_sink (g_edges g ! e) = Actor i"
  by (auto simp: graph_wf_def vertex_wf_def)

lemma graph_wf_source:
  "graph_wf g \<Longrightarrow> e < length (g_edges g) \<Longrightarrow> e_source (g_edges g ! e) = Actor i \<Longrightarrow>
   i < length (g_vertices g) \<and> Some e \<in> set (v_out (g_vertices g ! i))"
  by (auto simp: graph_wf_def edge_wf_def)

lemma graph_wf_sink:
  "graph_wf g \<Longrightarrow> e < length (g_edges g) \<Longrightarrow> e_sink (g_edges g ! e) = Actor i \<Longrightarrow>
   i < length (g_vertices g) \<and> Some e \<in> set (v_in (g_vertices g ! i))"
  by (fastforce simp: graph_wf_def edge_wf_def)

lemma graph_wf_subtype:
  "graph_wf g \<Longrightarrow> e < length (g_edges g) \<Longrightarrow>
   (subtype g (e_sink (g_edges g ! e)) = OUTPUT \<longleftrightarrow> (\<exists>i. e_sink (g_edges g ! e) = Out_If i)) \<and>
   (subtype g (e_source (g_edges g ! e)) = INPUT \<longleftrightarrow> (\<exists>i. e_source (g_edges g ! e) = In_If i))"
  by (cases "e_sink (g_edges g ! e)"; cases "e_source (g_edges g ! e)")
    (auto simp: graph_wf_def edge_wf_def vertex_wf_def)

end
