(* ===== verification/RPN.thy ===== *)
theory RPN
  imports Prelude
begin

text \<open>
  \<open>graphs-tools/expression-parser/RPNConverter\<close>: an infix expression, as text, is cleaned, cut into elements and
  turned into postfix order by the shunting-yard algorithm. A \<open>std::string\<close> is a \<open>string\<close>; \<open>s[s.size()]\<close> is the
  null character, as in the standard. Whether \<open>strtod\<close> reads the whole of a token, and whether what it reads is an
  integer, are arguments (\<open>number\<close>, \<open>integer\<close>), because they depend on the floating-point type.
\<close>

subsection \<open>Operators\<close>

datatype op_type =
    ADD | SUB | MUL | DIV | MOD | POW | FACT | NOT_EQUAL | EQUAL | GREATER | GEQ | LESS | LEQ | LEFT_PAR | RIGHT_PAR
  | COS | SIN | TAN | COSH | SINH | TANH | EXP | LOG | LOG2 | LOG10 | CEIL | FLOOR | ABS | SQRT | MAX_OP | MIN_OP | IF
  | LOG_AND | LOG_OR | DUMMY

definition op_types :: "op_type list" where
  "op_types =
    [ADD, SUB, MUL, DIV, MOD, POW, FACT, NOT_EQUAL, EQUAL, GREATER, GEQ, LESS, LEQ, LEFT_PAR, RIGHT_PAR,
     COS, SIN, TAN, COSH, SINH, TANH, EXP, LOG, LOG2, LOG10, CEIL, FLOOR, ABS, SQRT, MAX_OP, MIN_OP, IF, LOG_AND, LOG_OR, DUMMY]"

text \<open>The value of the enumerator, by which the code compares and indexes.\<close>

fun op_index :: "op_type \<Rightarrow> nat" where
  "op_index ADD = 0" | "op_index SUB = 1" | "op_index MUL = 2" | "op_index DIV = 3" | "op_index MOD = 4"
| "op_index POW = 5" | "op_index FACT = 6" | "op_index NOT_EQUAL = 7" | "op_index EQUAL = 8" | "op_index GREATER = 9"
| "op_index GEQ = 10" | "op_index LESS = 11" | "op_index LEQ = 12" | "op_index LEFT_PAR = 13" | "op_index RIGHT_PAR = 14"
| "op_index COS = 15" | "op_index SIN = 16" | "op_index TAN = 17" | "op_index COSH = 18" | "op_index SINH = 19"
| "op_index TANH = 20" | "op_index EXP = 21" | "op_index LOG = 22" | "op_index LOG2 = 23" | "op_index LOG10 = 24"
| "op_index CEIL = 25" | "op_index FLOOR = 26" | "op_index ABS = 27" | "op_index SQRT = 28" | "op_index MAX_OP = 29"
| "op_index MIN_OP = 30" | "op_index IF = 31" | "op_index LOG_AND = 32" | "op_index LOG_OR = 33" | "op_index DUMMY = 34"

lemma op_index_nth: "op_index t < length op_types \<and> op_types ! op_index t = t"
  by (cases t) (simp_all add: op_types_def)

lemma op_index_inj: "op_index s = op_index t \<longleftrightarrow> s = t"
  using op_index_nth by metis

instantiation op_type :: linorder
begin
definition less_eq_op_type :: "op_type \<Rightarrow> op_type \<Rightarrow> bool" where
  "less_eq_op_type s t \<longleftrightarrow> op_index s \<le> op_index t"
definition less_op_type :: "op_type \<Rightarrow> op_type \<Rightarrow> bool" where
  "less_op_type s t \<longleftrightarrow> op_index s < op_index t"
instance
  by standard (auto simp: less_eq_op_type_def less_op_type_def op_index_inj)
end

record rpn_operator =
  op_label :: string
  op_type_of :: op_type
  op_precedence :: int
  op_argCount :: nat
  op_right :: bool

definition mk_op :: "string \<Rightarrow> op_type \<Rightarrow> int \<Rightarrow> nat \<Rightarrow> bool \<Rightarrow> rpn_operator" where
  "mk_op l t p n r = \<lparr>op_label = l, op_type_of = t, op_precedence = p, op_argCount = n, op_right = r\<rparr>"

definition operatorArray :: "rpn_operator list" where
  "operatorArray =
    [mk_op ''+'' ADD 1 2 False, mk_op ''-'' SUB 1 2 False, mk_op ''*'' MUL 2 2 False, mk_op ''/'' DIV 2 2 False,
     mk_op ''%'' MOD 3 2 False, mk_op ''^'' POW 3 2 True, mk_op ''!'' FACT 4 1 True, mk_op ''!='' NOT_EQUAL 0 2 False,
     mk_op ''=='' EQUAL 0 2 False, mk_op ''>'' GREATER 0 2 False, mk_op ''>='' GEQ 0 2 False, mk_op ''<'' LESS 0 2 False,
     mk_op ''<='' LEQ 0 2 False, mk_op ''('' LEFT_PAR 1 0 False, mk_op '')'' RIGHT_PAR 1 0 False,
     mk_op ''cos'' COS 5 1 False, mk_op ''sin'' SIN 5 1 False, mk_op ''tan'' TAN 5 1 False, mk_op ''cosh'' COSH 5 1 False,
     mk_op ''sinh'' SINH 5 1 False, mk_op ''tanh'' TANH 5 1 False, mk_op ''exp'' EXP 5 1 False, mk_op ''log'' LOG 5 1 False,
     mk_op ''log2'' LOG2 5 1 False, mk_op ''log10'' LOG2 5 1 False, mk_op ''ceil'' CEIL 5 1 False,
     mk_op ''floor'' FLOOR 5 1 False, mk_op ''abs'' ABS 5 1 False, mk_op ''sqrt'' SQRT 5 1 False, mk_op ''max'' MAX_OP 5 2 False,
     mk_op ''min'' MIN_OP 5 2 False, mk_op ''if'' IF 5 3 False, mk_op ''and'' LOG_AND 5 2 False, mk_op ''or'' LOG_OR 5 2 False,
     mk_op ''dummy'' DUMMY 5 1 False]"

definition OPERATOR_COUNT :: nat where "OPERATOR_COUNT = op_index DUMMY + 1"
definition FUNCTION_OFFSET :: nat where "FUNCTION_OFFSET = op_index COS"

definition getOperator :: "nat \<Rightarrow> rpn_operator result" where
  "getOperator ix = at operatorArray ix"

definition getOperatorFromOperatorType :: "op_type \<Rightarrow> rpn_operator result" where
  "getOperatorFromOperatorType t = getOperator (op_index t)"

text \<open>The loop over the table ends at the first label that matches.\<close>

definition getOperatorTypeFromString :: "string \<Rightarrow> op_type result" where
  "getOperatorTypeFromString s =
     (case List.find (\<lambda>i. case getOperator i of Inr op \<Rightarrow> op_label op = s | Inl _ \<Rightarrow> False) [0..<OPERATOR_COUNT] of
        None \<Rightarrow> Inl Spider_Exception
      | Some i \<Rightarrow> bindE (getOperator i) (\<lambda>op. Inr (op_type_of op)))"

subsection \<open>Strings\<close>

definition char_at :: "string \<Rightarrow> nat \<Rightarrow> char" where
  "char_at s i = (if i < length s then s ! i else CHR 0x00)"

definition substr :: "string \<Rightarrow> nat \<Rightarrow> nat \<Rightarrow> string" where
  "substr s pos n = take n (drop pos s)"

text \<open>\<open>std::string::find\<close> and \<open>find_first_of\<close>, \<open>None\<close> for \<open>npos\<close>.\<close>

definition str_find :: "string \<Rightarrow> string \<Rightarrow> nat \<Rightarrow> nat option" where
  "str_find s p pos = List.find (\<lambda>i. substr s i (length p) = p) [pos..<Suc (length s)]"

definition find_first_of :: "string \<Rightarrow> string \<Rightarrow> nat \<Rightarrow> nat option" where
  "find_first_of s cs pos = List.find (\<lambda>i. s ! i \<in> set cs) [pos..<length s]"

definition find_first_not_of :: "string \<Rightarrow> string \<Rightarrow> nat \<Rightarrow> nat option" where
  "find_first_not_of s cs pos = List.find (\<lambda>i. s ! i \<notin> set cs) [pos..<length s]"

definition str_replace :: "string \<Rightarrow> nat \<Rightarrow> nat \<Rightarrow> string \<Rightarrow> string" where
  "str_replace s pos n r = take pos s @ r @ drop (pos + n) s"

definition ord :: "char \<Rightarrow> nat" where "ord c = of_char c"

definition isdigit :: "char \<Rightarrow> bool" where "isdigit c \<longleftrightarrow> 48 \<le> ord c \<and> ord c \<le> 57"
definition isupper :: "char \<Rightarrow> bool" where "isupper c \<longleftrightarrow> 65 \<le> ord c \<and> ord c \<le> 90"
definition isalpha :: "char \<Rightarrow> bool" where "isalpha c \<longleftrightarrow> isupper c \<or> 97 \<le> ord c \<and> ord c \<le> 122"
definition isalnum :: "char \<Rightarrow> bool" where "isalnum c \<longleftrightarrow> isalpha c \<or> isdigit c"
definition tolower :: "char \<Rightarrow> char" where "tolower c = (if isupper c then char_of (ord c + 32) else c)"

lemma str_find_SomeD:
  assumes "str_find s p pos = Some i"
  shows "pos \<le> i" "substr s i (length p) = p" "i + length p \<le> length s"
proof -
  from assms have i: "pos \<le> i" "i \<le> length s" "substr s i (length p) = p"
    unfolding str_find_def find_Some_iff by (auto simp: nth_append simp del: upt_Suc)
  then show "pos \<le> i" "substr s i (length p) = p" by auto
  have "length (substr s i (length p)) = length p" using i(3) by simp
  with i(2) show "i + length p \<le> length s" by (auto simp: substr_def min_def split: if_splits)
qed

definition ops :: string where "ops = ''+-*/%^!()<=>=!==''"
definition partialEqualOperators :: string where "partialEqualOperators = ''!<>=''"
definition restrictedOperators :: string where "restrictedOperators = ''*/+-%^''"
definition delimiters :: string where "delimiters = CHR 0x0A # CHR 0x09 # '' .,!?'' @ CHR 0x22 # ''()/+-*^%!=<>''"

definition isOperator :: "string \<Rightarrow> bool" where
  "isOperator s \<longleftrightarrow> list_ex (\<lambda>c. c \<in> set ops) s \<or>
     list_ex (\<lambda>i. case getOperator i of Inr op \<Rightarrow> op_label op = s | Inl _ \<Rightarrow> False) [FUNCTION_OFFSET..<OPERATOR_COUNT]"

definition isFunction :: "op_type \<Rightarrow> bool" where
  "isFunction t \<longleftrightarrow> COS \<le> t"

definition missMatchParenthesis :: "string \<Rightarrow> bool" where
  "missMatchParenthesis s \<longleftrightarrow> length (filter (\<lambda>c. c = CHR ''('') s) mod 2 ^ 32 \<noteq> length (filter (\<lambda>c. c = CHR '')'') s) mod 2 ^ 32"

definition checkInfixExpression :: "string \<Rightarrow> unit result" where
  "checkInfixExpression s =
     (if list_ex (\<lambda>i. s ! i \<in> set restrictedOperators \<and>
           (char_at s (i + 1) \<in> set restrictedOperators \<or> i = 0 \<or> i = length s - 1 \<or> char_at s (i + 1) = CHR '')''))
         [0..<length s]
      then Inl Spider_Exception else Inr ())"

definition isWord :: "string \<Rightarrow> string \<Rightarrow> nat \<Rightarrow> bool" where
  "isWord s pat pos \<longleftrightarrow>
     (pos = 0 \<or> s ! (pos - 1) \<in> set delimiters) \<and> (pos + length pat \<ge> length s \<or> s ! (pos + length pat) \<in> set delimiters)"

text \<open>The two loops over \<open>find\<close>; their patterns are not empty.\<close>

function replace_loop :: "string \<Rightarrow> string \<Rightarrow> string \<Rightarrow> nat \<Rightarrow> string" where
  "replace_loop pat r s pos =
     (case str_find s pat pos of
        None \<Rightarrow> s
      | Some i \<Rightarrow> if pat = [] then s else replace_loop pat r (str_replace s i (length pat) r) (i + length r))"
  by auto
termination
proof (relation "measure (\<lambda>(pat, r, s, pos). length s - pos)")
  fix pat r s pos i assume i: "str_find s pat pos = Some i" "pat \<noteq> []"
  from i(2) obtain n where "length pat = Suc n" by (cases pat) auto
  with str_find_SomeD [OF i(1)]
  show "((pat, r, str_replace s i (length pat) r, i + length r), pat, r, s, pos) \<in> measure (\<lambda>(pat, r, s, pos). length s - pos)"
    by (simp add: str_replace_def)
qed simp

definition stringReplace :: "string \<Rightarrow> string \<Rightarrow> string \<Rightarrow> string" where
  "stringReplace s pat r = (if pat \<noteq> [] then replace_loop pat r s 0 else s)"

function exact_loop :: "string \<Rightarrow> string \<Rightarrow> string \<Rightarrow> nat \<Rightarrow> string" where
  "exact_loop pat r s pos =
     (case str_find s pat pos of
        None \<Rightarrow> s
      | Some i \<Rightarrow>
          if pat = [] then s
          else if isWord s pat i then exact_loop pat r (str_replace s i (length pat) r) (i + length r)
          else exact_loop pat r s (i + length pat))"
  by auto
termination
proof (relation "measure (\<lambda>(pat, r, s, pos). length s - pos)")
  fix pat r s pos i assume i: "str_find s pat pos = Some i" "pat \<noteq> []"
  from i(2) obtain n where "length pat = Suc n" by (cases pat) auto
  with str_find_SomeD [OF i(1)]
  show "((pat, r, str_replace s i (length pat) r, i + length r), pat, r, s, pos) \<in> measure (\<lambda>(pat, r, s, pos). length s - pos)"
    "((pat, r, s, i + length pat), pat, r, s, pos) \<in> measure (\<lambda>(pat, r, s, pos). length s - pos)"
    by (simp_all add: str_replace_def)
qed simp

declare replace_loop.simps [simp del] exact_loop.simps [simp del]

definition replaceExactMatch :: "string \<Rightarrow> string \<Rightarrow> string \<Rightarrow> string" where
  "replaceExactMatch s pat r = exact_loop pat r s 0"

text \<open>The pass that writes the implicit multiplications; \<open>ignore\<close> is the flag of the code.\<close>

fun insert_mul :: "bool \<Rightarrow> string \<Rightarrow> string" where
  "insert_mul ignore [] = []"
| "insert_mul ignore (c # cs) =
     (let nxt = char_at cs 0 in
      c # (if \<not> ignore \<and> (isdigit c \<and> (isalpha nxt \<or> nxt = CHR ''('') \<or> c = CHR '')'' \<and> (nxt = CHR ''('' \<or> isalnum nxt))
           then ''*'' else []) @ insert_mul (isalpha c \<and> isdigit nxt) cs)"

definition cleanInfixExpression :: "string \<Rightarrow> string result" where
  "cleanInfixExpression s =
     (if s = [] then Inr []
      else
        let s1 = List.map tolower (filter (\<lambda>c. c \<noteq> CHR '' '') s);
            s2 = stringReplace s1 ''(+'' ''('';
            s3 = stringReplace s2 ''(-'' ''(0-'' in
        if char_at s3 0 = CHR ''-'' then Inl Spider_Exception
        else
          let c1 = insert_mul False s3;
              c2 = (if find_first_of c1 '','' 0 \<noteq> None
                    then stringReplace (stringReplace (stringReplace c1 '')'' ''))'') ''('' ''(('') '','' ''),(''
                    else c1)
          in Inr (replaceExactMatch (replaceExactMatch c2 ''pi'' ''3.14159265358979323846'') ''e'' ''2.7182818284590452354''))"

subsection \<open>Elements\<close>

datatype el_type = Operator | Operand
datatype el_subtype = Sub_VALUE | Sub_PARAMETER | Sub_FUNCTION | Sub_OPERATOR

record rpn_element =
  el_type :: el_type
  el_subtype :: el_subtype
  el_operation :: op_type
  el_token :: string

definition mk_element :: "el_type \<Rightarrow> el_subtype \<Rightarrow> op_type \<Rightarrow> string \<Rightarrow> rpn_element" where
  "mk_element t sub op tok = \<lparr>el_type = t, el_subtype = sub, el_operation = op, el_token = tok\<rparr>"

text \<open>What \<open>strtod\<close> tells of a token: it reads all of it, and the value is an integer.\<close>

record lexer =
  number :: "string \<Rightarrow> bool"
  integer :: "string \<Rightarrow> bool"

definition addOperandFromToken :: "lexer \<Rightarrow> rpn_element list \<Rightarrow> string \<Rightarrow> rpn_element list" where
  "addOperandFromToken L tokens tok =
     (let sub = (if number L tok then Sub_VALUE else Sub_PARAMETER) in
      if sub = Sub_VALUE \<and> integer L tok \<and> tokens \<noteq> [] \<and> el_operation (last tokens) = DIV
      then tokens @ [mk_element Operand sub DUMMY (tok @ ''.'')]
      else tokens @ [mk_element Operand sub DUMMY tok])"

function addElementFromToken :: "lexer \<Rightarrow> rpn_element list \<Rightarrow> string \<Rightarrow> rpn_element list result" where
  "addElementFromToken L tokens tok =
     (if tok = [] then Inr tokens
      else if isOperator tok then
        bindE (getOperatorTypeFromString tok) (\<lambda>t.
          Inr (tokens @ [mk_element Operator (if isFunction t then Sub_FUNCTION else Sub_OPERATOR) t tok]))
      else case find_first_of tok '','' 0 of
        Some pos \<Rightarrow> bindE (addElementFromToken L tokens (substr tok 0 pos)) (\<lambda>tokens'.
          addElementFromToken L tokens' (substr tok (pos + 1) (length tok - (pos + 1))))
      | None \<Rightarrow> Inr (addOperandFromToken L tokens tok))"
  by auto
termination
proof (relation "measure (\<lambda>(L, tokens, tok). length tok)")
  fix L :: lexer and tokens tokens' :: "rpn_element list" and tok :: string and pos
  assume "tok \<noteq> []" "find_first_of tok '','' 0 = Some pos"
  then have "pos < length tok" by (auto simp: find_first_of_def find_Some_iff)
  then show "((L, tokens, substr tok 0 pos), L, tokens, tok) \<in> measure (\<lambda>(L, tokens, tok). length tok)"
    "((L, tokens', substr tok (pos + 1) (length tok - (pos + 1))), L, tokens, tok) \<in> measure (\<lambda>(L, tokens, tok). length tok)"
    by (auto simp: substr_def)
qed simp

declare addElementFromToken.simps [simp del]

text \<open>The loop of \<open>extractInfixElements\<close>; \<open>pos\<close> is always the first operator from \<open>lastPos\<close> on.\<close>

function extract_infix_loop :: "lexer \<Rightarrow> string \<Rightarrow> nat \<Rightarrow> rpn_element list \<Rightarrow> (nat \<times> rpn_element list) result" where
  "extract_infix_loop L s lastPos tokens =
     (case find_first_of s ops lastPos of
        None \<Rightarrow> Inr (lastPos, tokens)
      | Some pos \<Rightarrow>
          bindE (addElementFromToken L tokens (substr s lastPos (pos - lastPos))) (\<lambda>tokens1.
            let one = substr s pos 1;
                two = find_first_not_of partialEqualOperators one 0 \<noteq> None \<and> char_at s (pos + 1) = CHR ''='';
                tok = (if two then one @ substr s (pos + 1) 1 else one);
                pos' = (if two then pos + 2 else pos + 1)
            in bindE (addElementFromToken L tokens1 tok) (\<lambda>tokens2. extract_infix_loop L s pos' tokens2)))"
  by auto
termination
  by (relation "measure (\<lambda>(L, s, lastPos, tokens). length s - lastPos)")
    (auto simp: find_first_of_def find_Some_iff)

declare extract_infix_loop.simps [simp del]

definition extractInfixElements :: "lexer \<Rightarrow> string \<Rightarrow> rpn_element list result" where
  "extractInfixElements L infixExpression =
     (if missMatchParenthesis infixExpression then Inl Spider_Exception
      else bindE (cleanInfixExpression infixExpression) (\<lambda>s.
        bindE (checkInfixExpression s) (\<lambda>_.
        bindE (extract_infix_loop L s 0 []) (\<lambda>(lastPos, tokens).
          if lastPos \<noteq> length s then addElementFromToken L tokens (substr s lastPos (length s - lastPos)) else Inr tokens))))"

subsection \<open>Postfix order\<close>

type_synonym op_stack = "(op_type \<times> rpn_element) list"

fun pop_to_left :: "op_stack \<Rightarrow> rpn_element list \<Rightarrow> (op_stack \<times> rpn_element list) result" where
  "pop_to_left [] out = Inl Undefined_Behaviour"
| "pop_to_left ((t, e) # st) out = (if t \<noteq> LEFT_PAR then pop_to_left st (out @ [e]) else Inr (st, out))"

fun pop_higher :: "rpn_operator \<Rightarrow> op_stack \<Rightarrow> rpn_element list \<Rightarrow> (op_stack \<times> rpn_element list) result" where
  "pop_higher cur [] out = Inr ([], out)"
| "pop_higher cur ((t, e) # st) out =
     bindE (getOperatorFromOperatorType t) (\<lambda>front.
       if t \<noteq> LEFT_PAR \<and> (op_precedence cur < op_precedence front \<or>
            op_precedence cur = op_precedence front \<and> \<not> op_right front)
       then pop_higher cur st (out @ [e]) else Inr ((t, e) # st, out))"

definition shunt_step :: "op_stack \<times> rpn_element list \<Rightarrow> rpn_element \<Rightarrow> (op_stack \<times> rpn_element list) result" where
  "shunt_step = (\<lambda>(st, out) el.
     if el_type el = Operator then
       bindE (getOperatorTypeFromString (el_token el)) (\<lambda>t.
         if el_subtype el = Sub_FUNCTION \<or> t = LEFT_PAR then Inr ((t, el) # st, out)
         else if t = RIGHT_PAR then pop_to_left st out
         else bindE (getOperatorFromOperatorType t) (\<lambda>cur. bindE (pop_higher cur st out) (\<lambda>(st', out'). Inr ((t, el) # st', out'))))
     else Inr (st, out @ [el]))"

definition to_postfix :: "rpn_element list \<Rightarrow> rpn_element list result" where
  "to_postfix tokens = bindE (foldE shunt_step ([], []) tokens) (\<lambda>(st, out). Inr (out @ List.map snd st))"

definition extractPostfixElements :: "lexer \<Rightarrow> string \<Rightarrow> rpn_element list result" where
  "extractPostfixElements L infixExpression = bindE (extractInfixElements L infixExpression) to_postfix"

subsection \<open>Printing\<close>

text \<open>\<open>top\<close> followed by \<open>pop\<close>, \<open>n\<close> times, the last one popped first.\<close>

fun pop_n :: "nat \<Rightarrow> string list \<Rightarrow> string list \<Rightarrow> (string list \<times> string list) result" where
  "pop_n n [] acc = (if n = 0 then Inr (acc, []) else Inl Undefined_Behaviour)"
| "pop_n n (x # st) acc = (if n = 0 then Inr (acc, x # st) else pop_n (n - 1) st (x # acc))"

fun join_args :: "string list \<Rightarrow> string" where
  "join_args [] = []"
| "join_args [x] = x"
| "join_args (x # y # xs) = x @ '','' @ join_args (y # xs)"

definition infix_step :: "string list \<Rightarrow> rpn_element \<Rightarrow> string list result" where
  "infix_step st el =
     (if el_type el = Operand then Inr (el_token el # st)
      else bindE (getOperatorFromOperatorType (el_operation el)) (\<lambda>op.
        if el_subtype el = Sub_FUNCTION then
          bindE (pop_n (op_argCount op) st []) (\<lambda>(args, st'). Inr ((el_token el @ ''('' @ join_args args @ '')'') # st'))
        else bindE (pop_n 2 st []) (\<lambda>(args, st'). Inr ((''('' @ args ! 0 @ el_token el @ args ! 1 @ '')'') # st'))))"

definition infixString :: "rpn_element list \<Rightarrow> string result" where
  "infixString postfixStack =
     bindE (foldE infix_step [[]] postfixStack) (\<lambda>st. case st of [] \<Rightarrow> Inl Undefined_Behaviour | x # _ \<Rightarrow> Inr x)"

definition postfixString :: "rpn_element list \<Rightarrow> string result" where
  "postfixString postfixStack =
     (let s = concat (List.map (\<lambda>t. el_token t @ '' '') postfixStack)
      in if s = [] then Inl Undefined_Behaviour else Inr (butlast s))"

end
