(* ===== verification/Params.thy ===== *)
theory Params
  imports RPN
begin

text \<open>
  \<open>graphs/pisdf/Param.h\<close>. Parameters are shared pointers: an object is an address of a heap, and an inherited
  parameter holds the address of its parent. The expressions are an argument \<open>X\<close>: \<open>dynamic()\<close>, \<open>value()\<close>,
  \<open>evaluate(params)\<close> (the parameters by name, with what \<open>value()\<close> gives) and the constructor of a constant.
\<close>

datatype param_type = STATIC | DYNAMIC | DYNAMIC_DEPENDANT | INHERITED

datatype 'e internal = Val int | Expr 'e | Ref nat   \<comment> \<open>\<open>variant<int64_t, Expression, shared_ptr<Param>>\<close>\<close>

record 'e param =
  pa_name :: string
  pa_internal :: "'e internal"
  pa_ix :: nat
  pa_type :: param_type

type_synonym 'e params = "'e param list"

record 'e expressions =
  xo_dynamic :: "'e \<Rightarrow> bool"
  xo_value :: "'e \<Rightarrow> int result"
  xo_evaluate :: "'e \<Rightarrow> (string \<times> int result) list \<Rightarrow> int result"
  xo_const :: "int \<Rightarrow> 'e"

subsection \<open>Constructors\<close>

definition param_setName :: "string \<Rightarrow> string result" where
  "param_setName name = (let n = List.map tolower name in if n = ''pi'' then Inl Spider_Exception else Inr n)"

text \<open>A new object takes the next address.\<close>

definition param_alloc :: "'e params \<Rightarrow> string \<Rightarrow> 'e internal \<Rightarrow> param_type \<Rightarrow> ('e params \<times> nat) result" where
  "param_alloc h name v t =
     bindE (param_setName name) (\<lambda>n. Inr (h @ [\<lparr>pa_name = n, pa_internal = v, pa_ix = size_max, pa_type = t\<rparr>], length h))"

definition param_new_dynamic :: "'e params \<Rightarrow> string \<Rightarrow> ('e params \<times> nat) result" where
  "param_new_dynamic h name = param_alloc h name (Val 0) DYNAMIC"

definition param_new_static :: "'e params \<Rightarrow> string \<Rightarrow> int \<Rightarrow> ('e params \<times> nat) result" where
  "param_new_static h name v = param_alloc h name (Val v) STATIC"

definition param_new_expression :: "'e expressions \<Rightarrow> 'e params \<Rightarrow> string \<Rightarrow> 'e \<Rightarrow> ('e params \<times> nat) result" where
  "param_new_expression X h name e =
     bindE (param_setName name) (\<lambda>_.
     if xo_dynamic X e then param_alloc h name (Expr e) DYNAMIC_DEPENDANT
     else bindE (xo_value X e) (\<lambda>v. param_alloc h name (Val v) STATIC))"

definition param_new_inherited :: "'e params \<Rightarrow> string \<Rightarrow> nat option \<Rightarrow> ('e params \<times> nat) result" where
  "param_new_inherited h name parent =
     bindE (param_setName name) (\<lambda>_.
     case parent of None \<Rightarrow> Inl Spider_Exception
     | Some p \<Rightarrow> if p < length h then param_alloc h name (Ref p) INHERITED else Inl Undefined_Behaviour)"

text \<open>The defaulted copy constructor: the copy shares the parent.\<close>

definition param_copy :: "'e params \<Rightarrow> nat \<Rightarrow> ('e params \<times> nat) result" where
  "param_copy h a = bindE (get_at h a) (\<lambda>p. Inr (h @ [p], length h))"

subsection \<open>Getters\<close>

text \<open>The getters follow the parents; every parent is older, so that the number of objects is enough fuel.\<close>

fun param_root :: "nat \<Rightarrow> 'e params \<Rightarrow> nat \<Rightarrow> 'e param result" where
  "param_root 0 h a = Inl Diverges"
| "param_root (Suc n) h a =
     bindE (get_at h a) (\<lambda>p. case pa_internal p of Ref b \<Rightarrow> param_root n h b | _ \<Rightarrow> Inr p)"

abbreviation root_of :: "'e params \<Rightarrow> nat \<Rightarrow> 'e param result" where
  "root_of h \<equiv> param_root (length h) h"

definition param_value :: "'e expressions \<Rightarrow> 'e params \<Rightarrow> nat \<Rightarrow> int result" where
  "param_value X h a =
     bindE (root_of h a) (\<lambda>p. case pa_internal p of Val v \<Rightarrow> Inr v | Expr e \<Rightarrow> xo_value X e | Ref _ \<Rightarrow> Inl Undefined_Behaviour)"

text \<open>The parameters as an expression reads them: by name, each with its \<open>value()\<close>.\<close>

definition param_table :: "'e expressions \<Rightarrow> 'e params \<Rightarrow> nat list \<Rightarrow> (string \<times> int result) list" where
  "param_table X h ps = List.map (\<lambda>a. (pa_name (h ! a), param_value X h a)) ps"

definition param_value_with :: "'e expressions \<Rightarrow> 'e params \<Rightarrow> nat list \<Rightarrow> nat \<Rightarrow> int result" where
  "param_value_with X h ps a =
     bindE (get_at h a) (\<lambda>p. case pa_internal p of
       Ref b \<Rightarrow> param_value X h b
     | Expr e \<Rightarrow> xo_evaluate X e (param_table X h ps)
     | Val v \<Rightarrow> Inr v)"

definition param_dynamic :: "'e params \<Rightarrow> nat \<Rightarrow> bool result" where
  "param_dynamic h a = bindE (root_of h a) (\<lambda>p. Inr (pa_type p = DYNAMIC \<or> pa_type p = DYNAMIC_DEPENDANT))"

definition param_parent :: "'e params \<Rightarrow> nat \<Rightarrow> nat option result" where
  "param_parent h a = bindE (get_at h a) (\<lambda>p. Inr (case pa_internal p of Ref b \<Rightarrow> Some b | _ \<Rightarrow> None))"

definition param_expression :: "'e expressions \<Rightarrow> 'e params \<Rightarrow> nat \<Rightarrow> 'e result" where
  "param_expression X h a =
     bindE (root_of h a) (\<lambda>p. case pa_internal p of Expr e \<Rightarrow> Inr e | Val v \<Rightarrow> Inr (xo_const X v) | Ref _ \<Rightarrow> Inl Undefined_Behaviour)"

subsection \<open>Setters\<close>

definition param_setIx :: "'e params \<Rightarrow> nat \<Rightarrow> nat \<Rightarrow> 'e params result" where
  "param_setIx h a i = bindE (get_at h a) (\<lambda>p. Inr (h[a := p\<lparr>pa_ix := i\<rparr>]))"

definition param_setValue :: "'e params \<Rightarrow> nat \<Rightarrow> int \<Rightarrow> 'e params result" where
  "param_setValue h a v =
     bindE (param_dynamic h a) (\<lambda>d. if d then bindE (get_at h a) (\<lambda>p. Inr (h[a := p\<lparr>pa_internal := Val v\<rparr>]))
       else Inl Spider_Exception)"

subsection \<open>The operations as steps\<close>

datatype 'e param_op =
    New_Dynamic string | New_Static string int | New_Expression string 'e | New_Inherited string "nat option"
  | Copy nat | Set_Ix nat nat | Set_Value nat int

fun param_step :: "'e expressions \<Rightarrow> 'e params \<Rightarrow> 'e param_op \<Rightarrow> 'e params result" where
  "param_step X h (New_Dynamic n) = bindE (param_new_dynamic h n) (\<lambda>r. Inr (fst r))"
| "param_step X h (New_Static n v) = bindE (param_new_static h n v) (\<lambda>r. Inr (fst r))"
| "param_step X h (New_Expression n e) = bindE (param_new_expression X h n e) (\<lambda>r. Inr (fst r))"
| "param_step X h (New_Inherited n p) = bindE (param_new_inherited h n p) (\<lambda>r. Inr (fst r))"
| "param_step X h (Copy a) = bindE (param_copy h a) (\<lambda>r. Inr (fst r))"
| "param_step X h (Set_Ix a i) = param_setIx h a i"
| "param_step X h (Set_Value a v) = param_setValue h a v"

text \<open>
  An expression is stored only in a dependent parameter, a parent only in an inherited one, and the parent is older. A plain value may be
  stored under any type, since \<open>setValue\<close> replaces what was there.
\<close>

definition param_ok :: "'e expressions \<Rightarrow> nat \<Rightarrow> 'e param \<Rightarrow> bool" where
  "param_ok X a p \<longleftrightarrow>
     (case pa_internal p of
        Val _ \<Rightarrow> True
      | Expr e \<Rightarrow> pa_type p = DYNAMIC_DEPENDANT \<and> xo_dynamic X e
      | Ref b \<Rightarrow> pa_type p = INHERITED \<and> b < a)"

definition params_wf :: "'e expressions \<Rightarrow> 'e params \<Rightarrow> bool" where
  "params_wf X h \<longleftrightarrow> (\<forall>a < length h. param_ok X a (h ! a) \<and> pa_name (h ! a) \<noteq> ''pi'')"

lemma params_wf_append: "params_wf X h \<Longrightarrow> param_ok X (length h) p \<Longrightarrow> pa_name p \<noteq> ''pi'' \<Longrightarrow> params_wf X (h @ [p])"
  by (auto simp: params_wf_def nth_append less_Suc_eq)

lemma params_wf_update: "params_wf X h \<Longrightarrow> param_ok X a p \<Longrightarrow> pa_name p \<noteq> ''pi'' \<Longrightarrow> params_wf X (h[a := p])"
  unfolding params_wf_def by (metis length_list_update nth_list_update_eq nth_list_update_neq)

lemma param_alloc_wf:
  "param_alloc h name v t = Inr r \<Longrightarrow> params_wf X h \<Longrightarrow>
   (\<And>n. param_ok X (length h) \<lparr>pa_name = n, pa_internal = v, pa_ix = size_max, pa_type = t\<rparr>) \<Longrightarrow> params_wf X (fst r)"
  by (auto simp: param_alloc_def param_setName_def Let_def split: if_splits intro!: params_wf_append)

lemma param_step_wf:
  assumes "param_step X h x = Inr h'" "params_wf X h"
  shows "params_wf X h'"
proof (cases x)
  case (New_Inherited n p)
  then show ?thesis using assms
    by (auto simp: param_new_inherited_def param_ok_def split: option.splits if_splits elim!: param_alloc_wf)
next
  case (Copy a)
  with assms have a: "a < length h" "h' = h @ [h ! a]" by (auto simp: param_copy_def get_at_def split: if_splits)
  with assms(2) have "param_ok X a (h ! a)" "pa_name (h ! a) \<noteq> ''pi''" by (simp_all add: params_wf_def)
  moreover from this(1) a(1) have "param_ok X (length h) (h ! a)" by (auto simp: param_ok_def split: internal.splits)
  ultimately show ?thesis using a(2) assms(2) by (simp add: params_wf_append)
next
  case (Set_Ix a i)
  with assms have a: "a < length h" "h' = h[a := (h ! a)\<lparr>pa_ix := i\<rparr>]" by (auto simp: param_setIx_def get_at_def split: if_splits)
  with assms(2) have "param_ok X a (h ! a)" "pa_name (h ! a) \<noteq> ''pi''" by (simp_all add: params_wf_def)
  then show ?thesis unfolding a(2) using assms(2) by (intro params_wf_update) (auto simp: param_ok_def split: internal.splits)
next
  case (Set_Value a v)
  with assms have a: "a < length h" "h' = h[a := (h ! a)\<lparr>pa_internal := Val v\<rparr>]"
    by (auto simp: param_setValue_def get_at_def split: if_splits)
  with assms(2) have "param_ok X a (h ! a)" "pa_name (h ! a) \<noteq> ''pi''" by (simp_all add: params_wf_def)
  then show ?thesis unfolding a(2) using assms(2) by (intro params_wf_update) (auto simp: param_ok_def split: internal.splits)
qed (use assms in \<open>auto simp: param_new_dynamic_def param_new_static_def param_new_expression_def param_ok_def
  split: if_splits elim!: param_alloc_wf\<close>)

subsection \<open>Parents\<close>

text \<open>\<open>inherits h a b\<close>: following the parents from \<open>a\<close> reaches \<open>b\<close>.\<close>

inductive inherits :: "'e params \<Rightarrow> nat \<Rightarrow> nat \<Rightarrow> bool" for h :: "'e params" where
  self: "a < length h \<Longrightarrow> inherits h a a"
| parent: "a < length h \<Longrightarrow> pa_internal (h ! a) = Ref b \<Longrightarrow> inherits h b c \<Longrightarrow> inherits h a c"

text \<open>On a well-formed heap the parents end, at an object that stores no parent.\<close>

lemma param_root_exists:
  assumes "params_wf X h"
  shows "a < length h \<Longrightarrow> a < n \<Longrightarrow>
    \<exists>r < length h. param_root n h a = Inr (h ! r) \<and> inherits h a r \<and> (\<forall>b. pa_internal (h ! r) \<noteq> Ref b)"
proof (induction n arbitrary: a)
  case (Suc n)
  have ok: "param_ok X a (h ! a)" using assms Suc.prems by (auto simp: params_wf_def)
  show ?case
  proof (cases "pa_internal (h ! a)")
    case (Ref b)
    with ok have b: "b < a" by (simp add: param_ok_def)
    with Suc.IH [of b] Suc.prems obtain r where "r < length h" "param_root n h b = Inr (h ! r)" "inherits h b r"
      "\<forall>b. pa_internal (h ! r) \<noteq> Ref b" by auto
    with Ref Suc.prems show ?thesis by (intro exI [of _ r]) (auto simp: get_at_def intro: inherits.parent)
  qed (use Suc.prems in \<open>auto simp: get_at_def intro!: exI [of _ a] inherits.self\<close>)
qed simp

lemma param_root_more: "param_root n h a = Inr r \<Longrightarrow> param_root (Suc n) h a = Inr r"
proof (induction n arbitrary: a)
  case (Suc n)
  from Suc.prems obtain p where p: "get_at h a = Inr p" by (auto simp del: get_at_eq_Inr)
  show ?case
  proof (cases "pa_internal p")
    case (Ref b)
    with Suc.prems p have "param_root n h b = Inr r" by simp
    from Suc.IH [OF this] show ?thesis using p Ref by (subst param_root.simps) simp
  qed (use Suc.prems p in \<open>auto simp del: get_at_eq_Inr\<close>)
qed simp

lemma root_exists:
  "params_wf X h \<Longrightarrow> a < length h \<Longrightarrow>
   \<exists>r < length h. root_of h a = Inr (h ! r) \<and> inherits h a r \<and> (\<forall>b. pa_internal (h ! r) \<noteq> Ref b)"
  using param_root_exists [of X h a "length h"] by simp

text \<open>Storing a value at \<open>a\<close> cuts the parents there: what reads through \<open>a\<close> now ends at \<open>a\<close>, the rest does not change.\<close>

lemma param_root_set:
  assumes "params_wf X h" "a < length h" "p = (h ! a)\<lparr>pa_internal := Val v\<rparr>"
  shows "b < length h \<Longrightarrow> b < n \<Longrightarrow> param_root n (h[a := p]) b = (if inherits h b a then Inr p else param_root n h b)"
proof (induction n arbitrary: b)
  case (Suc n)
  have ok: "param_ok X b (h ! b)" using assms(1) Suc.prems by (auto simp: params_wf_def)
  show ?case
  proof (cases "b = a")
    case True
    with assms show ?thesis by (auto simp: get_at_def intro: inherits.self)
  next
    case False
    show ?thesis
    proof (cases "pa_internal (h ! b)")
      case (Ref c)
      with ok Suc.prems have c: "c < length h" "c < n" by (simp_all add: param_ok_def)
      have i: "inherits h b a \<longleftrightarrow> inherits h c a" using False Ref Suc.prems
        by (auto intro: inherits.parent elim: inherits.cases)
      show ?thesis using Suc.IH [OF c] Suc.prems Ref False i by (simp add: get_at_def)
    qed (use False Suc.prems in \<open>auto simp: get_at_def elim: inherits.cases\<close>)
  qed
qed simp

definition demo_params :: "int params" where
  "demo_params = [\<lparr>pa_name = ''n'', pa_internal = Val 4, pa_ix = 0, pa_type = DYNAMIC\<rparr>,
     \<lparr>pa_name = ''m'', pa_internal = Ref 0, pa_ix = 0, pa_type = INHERITED\<rparr>,
     \<lparr>pa_name = ''k'', pa_internal = Val 3, pa_ix = 1, pa_type = STATIC\<rparr>]"

definition demo_expressions :: "int expressions" where
  "demo_expressions = \<lparr>xo_dynamic = (\<lambda>_. False), xo_value = Inr, xo_evaluate = (\<lambda>e _. Inr e), xo_const = (\<lambda>v. v)\<rparr>"

lemma demo_params_wf: "params_wf demo_expressions demo_params"
  by (auto simp: params_wf_def demo_params_def param_ok_def nth_Cons split: nat.splits)

subsection \<open>What a parameter stores\<close>

text \<open>The history of a parameter: the type and the alternative that its constructor chose, and the value written last, if any. A copy
  takes the history of its original.\<close>

type_synonym 'e history = "param_type \<times> 'e internal \<times> int option"

fun history_step :: "'e expressions \<Rightarrow> 'e history list \<Rightarrow> 'e param_op \<Rightarrow> 'e history list" where
  "history_step X H (New_Dynamic n) = H @ [(DYNAMIC, Val 0, None)]"
| "history_step X H (New_Static n v) = H @ [(STATIC, Val v, None)]"
| "history_step X H (New_Expression n e) =
     H @ [if xo_dynamic X e then (DYNAMIC_DEPENDANT, Expr e, None) else (STATIC, Val (projr (xo_value X e)), None)]"
| "history_step X H (New_Inherited n p) = H @ [(INHERITED, Ref (the p), None)]"
| "history_step X H (Copy a) = H @ [H ! a]"
| "history_step X H (Set_Ix a i) = H"
| "history_step X H (Set_Value a v) = H[a := (case H ! a of (t, i, _) \<Rightarrow> (t, i, Some v))]"

text \<open>The object of a parameter with a history: a constant was never written, what was written replaces what was built.\<close>

definition stores :: "'e expressions \<Rightarrow> nat \<Rightarrow> 'e history \<Rightarrow> 'e param \<Rightarrow> bool" where
  "stores X a x p \<longleftrightarrow> (case x of (t, i, w) \<Rightarrow> pa_type p = t \<and> pa_internal p = (case w of None \<Rightarrow> i | Some v \<Rightarrow> Val v) \<and>
     (case t of STATIC \<Rightarrow> w = None \<and> (\<exists>v. i = Val v) | DYNAMIC \<Rightarrow> i = Val 0
      | DYNAMIC_DEPENDANT \<Rightarrow> (\<exists>e. i = Expr e \<and> xo_dynamic X e) | INHERITED \<Rightarrow> (\<exists>b < a. i = Ref b)))"

definition all_store :: "'e expressions \<Rightarrow> 'e history list \<Rightarrow> 'e params \<Rightarrow> bool" where
  "all_store X H h \<longleftrightarrow> length H = length h \<and> (\<forall>a < length h. stores X a (H ! a) (h ! a))"

lemma all_store_append: "all_store X H h \<Longrightarrow> stores X (length h) x p \<Longrightarrow> all_store X (H @ [x]) (h @ [p])"
  by (auto simp: all_store_def nth_append less_Suc_eq)

lemma param_alloc_stores:
  assumes "param_alloc h name v t = Inr r" and "all_store X H h"
    and "\<And>n. stores X (length h) x \<lparr>pa_name = n, pa_internal = v, pa_ix = size_max, pa_type = t\<rparr>"
  shows "all_store X (H @ [x]) (fst r)"
proof -
  from assms(1) obtain n where "fst r = h @ [\<lparr>pa_name = n, pa_internal = v, pa_ix = size_max, pa_type = t\<rparr>]"
    by (auto simp: param_alloc_def)
  with all_store_append [OF assms(2,3)] show ?thesis by simp
qed

text \<open>Only a parameter whose own type is dynamic, or that still has a parent, can be written.\<close>

lemma set_value_not_static:
  assumes "param_setValue h a v = Inr h'" and "pa_internal (h ! a) = Val w"
  shows "pa_type (h ! a) = DYNAMIC \<or> pa_type (h ! a) = DYNAMIC_DEPENDANT"
proof -
  from assms(1) have "param_dynamic h a = Inr True" and a: "a < length h"
    by (auto simp: param_setValue_def get_at_def split: if_splits)
  moreover from a obtain n where "length h = Suc n" by (cases "length h") auto
  ultimately show ?thesis using assms(2) by (auto simp: param_dynamic_def)
qed

lemma history_sound:
  assumes s: "param_step X h x = Inr h'" and H: "all_store X H h"
  shows "all_store X (history_step X H x) h'"
proof (cases x)
  case (New_Expression n e)
  with s H show ?thesis
    by (auto simp: param_new_expression_def stores_def split: if_splits elim!: param_alloc_stores)
next
  case (New_Inherited n p)
  with s H show ?thesis
    by (auto simp: param_new_inherited_def stores_def split: option.splits if_splits elim!: param_alloc_stores)
next
  case (Copy a)
  with s have a: "a < length h" "h' = h @ [h ! a]" by (auto simp: param_copy_def get_at_def split: if_splits)
  with H have "stores X a (H ! a) (h ! a)" by (simp add: all_store_def)
  with a(1) have "stores X (length h) (H ! a) (h ! a)"
    by (auto simp: stores_def split: prod.splits param_type.splits intro: less_trans)
  from all_store_append [OF H this] show ?thesis using Copy a(2) by simp
next
  case (Set_Ix a i)
  with s have a: "a < length h" "h' = h[a := (h ! a)\<lparr>pa_ix := i\<rparr>]" by (auto simp: param_setIx_def get_at_def split: if_splits)
  with H Set_Ix show ?thesis by (auto simp: all_store_def nth_list_update stores_def split: prod.splits)
next
  case (Set_Value a v)
  with s have a: "a < length h" "h' = h[a := (h ! a)\<lparr>pa_internal := Val v\<rparr>]"
    by (auto simp: param_setValue_def get_at_def split: if_splits)
  obtain t i w where Ha: "H ! a = (t, i, w)" by (cases "H ! a") auto
  with H a(1) have st: "stores X a (t, i, w) (h ! a)" by (auto simp: all_store_def)
  have "t \<noteq> STATIC"
  proof
    assume "t = STATIC"
    with st set_value_not_static [OF s [unfolded Set_Value, simplified]] show False by (auto simp: stores_def)
  qed
  with st have "stores X a (t, i, Some v) ((h ! a)\<lparr>pa_internal := Val v\<rparr>)" by (auto simp: stores_def split: param_type.splits)
  with H a Ha Set_Value show ?thesis by (auto simp: all_store_def nth_list_update)
qed (use s H in \<open>auto simp: param_new_dynamic_def param_new_static_def stores_def elim!: param_alloc_stores\<close>)

lemma history_run:
  "foldE (param_step X) h xs = Inr h' \<Longrightarrow> all_store X H h \<Longrightarrow> all_store X (foldl (history_step X) H xs) h'"
  by (induction xs arbitrary: h H) (auto dest: history_sound)

text \<open>
  C40. What a parameter stores after any sequence of constructions, copies and writes that succeeds: the value written to it last, and
  as long as none was written what its constructor chose by its type, a value for \<open>STATIC\<close> and \<open>DYNAMIC\<close>, a dynamic expression for
  \<open>DYNAMIC_DEPENDANT\<close>, an older parent for \<open>INHERITED\<close>. A static parameter is never written. The type never changes, so a written
  \<open>DYNAMIC_DEPENDANT\<close> or \<open>INHERITED\<close> parameter no longer stores what its type announces; a dependent one stays dynamic, an inherited
  one is no longer dynamic and refuses every further value, while an unwritten one is dynamic exactly when its parent is.
\<close>

theorem param_stores_last_written:
  assumes run: "foldE (param_step X) [] xs = Inr h" and a: "a < length h" and H: "foldl (history_step X) [] xs ! a = (t, i, w)"
  shows "pa_type (h ! a) = t \<and> pa_internal (h ! a) = (case w of None \<Rightarrow> i | Some v \<Rightarrow> Val v) \<and>
    (case t of STATIC \<Rightarrow> w = None \<and> (\<exists>v. i = Val v) \<and> param_dynamic h a = Inr False
     | DYNAMIC \<Rightarrow> i = Val 0 \<and> param_dynamic h a = Inr True
     | DYNAMIC_DEPENDANT \<Rightarrow> (\<exists>e. i = Expr e \<and> xo_dynamic X e) \<and> param_dynamic h a = Inr True
     | INHERITED \<Rightarrow> (\<exists>b < a. i = Ref b \<and> (if w = None then param_dynamic h a = param_dynamic h b
         else param_dynamic h a = Inr False \<and> (\<forall>v. param_setValue h a v = Inl Spider_Exception))))"
proof -
  have wf: "params_wf X h" by (rule foldE_invariant [OF run]) (simp add: params_wf_def, rule param_step_wf)
  have "all_store X (foldl (history_step X) [] xs) h" by (rule history_run [OF run]) (simp add: all_store_def)
  with a H have st: "stores X a (t, i, w) (h ! a)" by (auto simp: all_store_def)
  from a obtain n where n: "length h = Suc n" by (cases "length h") auto
  have direct: "param_dynamic h a = Inr (t = DYNAMIC \<or> t = DYNAMIC_DEPENDANT)" if "\<forall>b. pa_internal (h ! a) \<noteq> Ref b"
  proof -
    from st have "pa_type (h ! a) = t" by (simp add: stores_def)
    with that a n show ?thesis by (cases "pa_internal (h ! a)") (auto simp: param_dynamic_def)
  qed
  have step: "param_dynamic h a = param_dynamic h b" if b: "pa_internal (h ! a) = Ref b" "b < a" for b
  proof -
    from root_exists [OF wf a] obtain r where "param_root (length h) h a = Inr r" by blast
    with b a n have r: "param_root n h b = Inr r" by simp
    from b a n have "b < n" "b < length h" by simp_all
    from param_root_exists [OF wf this(2,1)] root_exists [OF wf this(2)] r
    show ?thesis using b a n param_root_more [of n h b r] by (simp add: param_dynamic_def)
  qed
  show ?thesis using st direct step
    by (cases t; cases w) (auto simp: stores_def param_setValue_def)
qed

lemma param_stores_last_written_witness:
  "\<exists>h. foldE (param_step demo_expressions) [] [New_Dynamic ''N'', New_Inherited ''m'' (Some 0), New_Static ''k'' 3, Set_Value 1 7] = Inr h \<and>
     pa_type (h ! 1) = INHERITED \<and> pa_internal (h ! 1) = Val 7 \<and> param_dynamic h 1 = Inr False \<and> param_dynamic h 0 = Inr True"
proof -
  let ?ops = "[New_Dynamic ''N'', New_Inherited ''m'' (Some 0), New_Static ''k'' 3, Set_Value 1 7] :: int param_op list"
  have "\<exists>h. foldE (param_step demo_expressions) [] ?ops = Inr h \<and> length h = 3"
    by (simp add: param_new_dynamic_def param_new_inherited_def param_new_static_def param_alloc_def param_setName_def
      tolower_def isupper_def param_setValue_def param_dynamic_def get_at_def numeral_3_eq_3 numeral_2_eq_2)
  then obtain h where h: "foldE (param_step demo_expressions) [] ?ops = Inr h" "length h = 3" by blast
  have H: "foldl (history_step demo_expressions) [] ?ops ! 1 = (INHERITED, Ref 0, Some 7)"
    "foldl (history_step demo_expressions) [] ?ops ! 0 = (DYNAMIC, Val 0, None)" by simp_all
  from param_stores_last_written [OF h(1) _ H(1)] param_stores_last_written [OF h(1) _ H(2)] h show ?thesis by simp
qed

text \<open>
  C29. Setting a dynamic parameter gives the value to every parameter that inherits from it, however indirectly, and to
  no other. Setting an inherited parameter does not change its parent.
\<close>

theorem param_set_value_reaches_inheritors:
  assumes wf: "params_wf X h" and a: "a < length h" and d: "param_dynamic h a = Inr True"
  shows "\<exists>h'. param_setValue h a v = Inr h' \<and> params_wf X h' \<and> length h' = length h \<and>
    (\<forall>b < length h. param_value X h' b = (if inherits h b a then Inr v else param_value X h b))"
proof -
  let ?p = "(h ! a)\<lparr>pa_internal := Val v\<rparr>" and ?h = "h[a := (h ! a)\<lparr>pa_internal := Val v\<rparr>]"
  have s: "param_setValue h a v = Inr ?h" using a d by (simp add: param_setValue_def get_at_def)
  have w: "params_wf X ?h" using param_step_wf [of X h "Set_Value a v" ?h] s wf by simp
  have "param_value X ?h b = (if inherits h b a then Inr v else param_value X h b)" if "b < length h" for b
    using param_root_set [OF wf a refl, of b "length h" v] that by (simp add: param_value_def)
  with s w show ?thesis by (intro exI [of _ ?h]) simp
qed

lemma param_set_value_reaches_inheritors_witness:
  "\<exists>h'. param_setValue demo_params 0 9 = Inr h' \<and> param_value demo_expressions h' 1 = Inr 9 \<and>
     param_value demo_expressions h' 2 = Inr 3"
proof -
  have d: "param_dynamic demo_params 0 = Inr True" by (simp add: param_dynamic_def demo_params_def get_at_def)
  obtain h' where h: "param_setValue demo_params 0 9 = Inr h'"
    "\<forall>b < length demo_params. param_value demo_expressions h' b = (if inherits demo_params b 0 then Inr 9 else param_value demo_expressions demo_params b)"
    using param_set_value_reaches_inheritors [OF demo_params_wf _ d] by (auto simp: demo_params_def)
  have "inherits demo_params 1 0"
    by (rule inherits.parent [of 1 _ 0]) (auto simp: demo_params_def intro: inherits.self)
  moreover have "\<not> inherits demo_params 2 0"
    by (auto elim: inherits.cases simp: demo_params_def)
  moreover have "param_value demo_expressions demo_params 2 = Inr 3"
    by (simp add: param_value_def demo_params_def get_at_def)
  ultimately show ?thesis using h by (auto simp: demo_params_def)
qed

end
