(* ===== verification/PisdfStore.thy ===== *)
theory PisdfStore
  imports PiGraph Params
begin

text \<open>
  The mutable PiSDF graph: \<open>Vertex.cpp\<close>, \<open>Edge.cpp\<close>, \<open>Interface.cpp\<close> and \<open>Graph.cpp\<close>. Objects live in a store
  and a pointer is an index in it, so that an edge, its two end vertices and the graph that owns them alias as in the
  code. The operations on the source side and on the sink side of an edge mirror each other: one definition serves
  both, with the side as its argument. A rate expression is of an arbitrary type, \<open>x0\<close> stands for \<open>Expression()\<close>.
\<close>

subsection \<open>Objects\<close>

record vertex =
  vx_type :: vertex_type
  vx_in :: "nat option list"
  vx_out :: "nat option list"
  vx_graph :: "nat option"
  vx_ix :: nat
  vx_rv :: nat
  vx_inParams :: "nat list"
  vx_outParams :: "nat list"
  vx_refinementParams :: "nat list"
  vx_asGraph :: nat   \<comment> \<open>the \<open>Graph\<close> object of a \<open>GRAPH\<close> vertex\<close>

record 'x edge =
  ed_src :: "nat option"
  ed_srcPort :: nat
  ed_srcExpr :: 'x
  ed_snk :: "nat option"
  ed_snkPort :: nat
  ed_snkExpr :: 'x
  ed_delay :: "nat option"
  ed_ix :: nat

record graph =
  gr_vertices :: "nat list"
  gr_edges :: "nat list"
  gr_configs :: "nat list"
  gr_subgraphs :: "nat list"
  gr_params :: "nat list"
  gr_inputs :: "nat list"
  gr_outputs :: "nat list"
  gr_vertex :: nat    \<comment> \<open>the graph as a vertex of its container\<close>
  gr_subIx :: nat

record param_obj =
  pr_name :: string
  pr_type :: param_type
  pr_ix :: nat

record delay =
  de_value :: int
  de_edge :: nat
  de_setterPort :: nat
  de_getterPort :: nat
  de_persistent :: bool
  de_vertex :: nat     \<comment> \<open>the virtual \<open>DelayVertex\<close>\<close>
  de_address :: nat

record 'x store =
  st_vertices :: "vertex list"
  st_edges :: "'x edge list"
  st_graphs :: "graph list"
  st_params :: "param_obj list"
  st_delays :: "delay list"

definition vertex_at :: "'x store \<Rightarrow> nat \<Rightarrow> vertex result" where "vertex_at s v = get_at (st_vertices s) v"
definition edge_at :: "'x store \<Rightarrow> nat \<Rightarrow> 'x edge result" where "edge_at s e = get_at (st_edges s) e"
definition graph_at :: "'x store \<Rightarrow> nat \<Rightarrow> graph result" where "graph_at s g = get_at (st_graphs s) g"

definition set_vertex :: "'x store \<Rightarrow> nat \<Rightarrow> vertex \<Rightarrow> 'x store" where
  "set_vertex s v x = s\<lparr>st_vertices := (st_vertices s)[v := x]\<rparr>"
definition set_edge :: "'x store \<Rightarrow> nat \<Rightarrow> 'x edge \<Rightarrow> 'x store" where
  "set_edge s e x = s\<lparr>st_edges := (st_edges s)[e := x]\<rparr>"
definition set_graph :: "'x store \<Rightarrow> nat \<Rightarrow> graph \<Rightarrow> 'x store" where
  "set_graph s g x = s\<lparr>st_graphs := (st_graphs s)[g := x]\<rparr>"

subsection \<open>The two sides of an edge\<close>

datatype side = Source | Sink

fun ports :: "side \<Rightarrow> vertex \<Rightarrow> nat option list" where
  "ports Source v = vx_out v" | "ports Sink v = vx_in v"
fun set_ports :: "side \<Rightarrow> nat option list \<Rightarrow> vertex \<Rightarrow> vertex" where
  "set_ports Source ps v = v\<lparr>vx_out := ps\<rparr>" | "set_ports Sink ps v = v\<lparr>vx_in := ps\<rparr>"
fun end_of :: "side \<Rightarrow> 'x edge \<Rightarrow> nat option" where
  "end_of Source e = ed_src e" | "end_of Sink e = ed_snk e"
fun other_end :: "side \<Rightarrow> 'x edge \<Rightarrow> nat option" where
  "other_end Source e = ed_snk e" | "other_end Sink e = ed_src e"
fun port_of :: "side \<Rightarrow> 'x edge \<Rightarrow> nat" where
  "port_of Source e = ed_srcPort e" | "port_of Sink e = ed_snkPort e"
fun set_end :: "side \<Rightarrow> nat option \<Rightarrow> nat \<Rightarrow> 'x \<Rightarrow> 'x edge \<Rightarrow> 'x edge" where
  "set_end Source v p x e = e\<lparr>ed_src := v, ed_srcPort := p, ed_srcExpr := x\<rparr>"
| "set_end Sink v p x e = e\<lparr>ed_snk := v, ed_snkPort := p, ed_snkExpr := x\<rparr>"

subsection \<open>Vertex\<close>

definition checkTypeConsistency :: "vertex_type \<Rightarrow> nat \<Rightarrow> nat \<Rightarrow> unit result" where
  "checkTypeConsistency t nIn nOut =
     (case t of
        FORK \<Rightarrow> guardE (nIn = 1) Spider_Exception
      | JOIN \<Rightarrow> guardE (nOut = 1) Spider_Exception
      | TAIL \<Rightarrow> guardE (nOut = 1) Spider_Exception
      | HEAD \<Rightarrow> guardE (nOut = 1) Spider_Exception
      | DELAY \<Rightarrow> guardE (nIn = 1 \<and> nOut = 1) Spider_Exception
      | REPEAT \<Rightarrow> guardE (nIn = 1 \<and> nOut = 1) Spider_Exception
      | DUPLICATE \<Rightarrow> guardE (nIn = 1) Spider_Exception
      | INIT \<Rightarrow> guardE (nOut = 1 \<and> nIn = 0) Spider_Exception
      | END_VERTEX \<Rightarrow> guardE (nIn = 1 \<and> nOut = 0) Spider_Exception
      | _ \<Rightarrow> Inr ())"

text \<open>The constructor; the address is the next free one.\<close>

definition vertex_new :: "'x store \<Rightarrow> vertex_type \<Rightarrow> nat \<Rightarrow> nat \<Rightarrow> ('x store \<times> nat) result" where
  "vertex_new s t nIn nOut =
     bindE (checkTypeConsistency t nIn nOut) (\<lambda>_.
       Inr (s\<lparr>st_vertices := st_vertices s @
          [\<lparr>vx_type = t, vx_in = replicate nIn None, vx_out = replicate nOut None, vx_graph = None, vx_ix = size_max,
            vx_rv = 1, vx_inParams = [], vx_outParams = [], vx_refinementParams = [], vx_asGraph = length (st_graphs s)\<rparr>]\<rparr>,
          length (st_vertices s)))"

definition connectEdge :: "side \<Rightarrow> 'x store \<Rightarrow> nat \<Rightarrow> nat \<Rightarrow> nat \<Rightarrow> 'x store result" where
  "connectEdge sd s v e pos =
     bindE (vertex_at s v) (\<lambda>vx.
       if pos \<ge> length (ports sd vx) then Inl Spider_Exception
       else if ports sd vx ! pos \<noteq> None then Inl Spider_Exception
       else Inr (set_vertex s v (set_ports sd ((ports sd vx)[pos := Some e]) vx)))"

definition disconnectEdge :: "side \<Rightarrow> 'x store \<Rightarrow> nat \<Rightarrow> nat \<Rightarrow> (nat option \<times> 'x store) result" where
  "disconnectEdge sd s v ix =
     bindE (vertex_at s v) (\<lambda>vx. bindE (get_at (ports sd vx) ix) (\<lambda>old.
       Inr (old, set_vertex s v (set_ports sd ((ports sd vx)[ix := None]) vx))))"

definition setRepetitionValue :: "'x store \<Rightarrow> nat \<Rightarrow> nat \<Rightarrow> 'x store result" where
  "setRepetitionValue s v n =
     bindE (vertex_at s v) (\<lambda>vx.
       if vx_type vx \<in> {CONFIG, DELAY, EXTERN_IN, EXTERN_OUT} \<and> n > 1 then Inl Spider_Exception
       else Inr (set_vertex s v (vx\<lparr>vx_rv := n\<rparr>)))"

definition vertex_setGraph :: "'x store \<Rightarrow> nat \<Rightarrow> nat option \<Rightarrow> 'x store result" where
  "vertex_setGraph s v g =
     bindE (vertex_at s v) (\<lambda>vx. Inr (if g = None then s else set_vertex s v (vx\<lparr>vx_graph := g\<rparr>)))"

definition param_ix :: "'x store \<Rightarrow> nat \<Rightarrow> nat result" where
  "param_ix s p = bindE (get_at (st_params s) p) (\<lambda>pr. Inr (pr_ix pr mod 2 ^ 32))"

definition addInputParameter :: "'x store \<Rightarrow> nat \<Rightarrow> nat \<Rightarrow> 'x store result" where
  "addInputParameter s v p =
     bindE (vertex_at s v) (\<lambda>vx. if vx_type vx \<noteq> GRAPH
       then bindE (param_ix s p) (\<lambda>i. Inr (set_vertex s v (vx\<lparr>vx_inParams := vx_inParams vx @ [i]\<rparr>))) else Inr s)"

definition addOutputParameter :: "'x store \<Rightarrow> nat \<Rightarrow> nat \<Rightarrow> 'x store result" where
  "addOutputParameter s v p =
     bindE (vertex_at s v) (\<lambda>vx. if vx_type vx \<noteq> CONFIG then Inl Spider_Exception
       else bindE (param_ix s p) (\<lambda>i. Inr (set_vertex s v (vx\<lparr>vx_outParams := vx_outParams vx @ [i]\<rparr>))))"

definition addRefinementParameter :: "'x store \<Rightarrow> nat \<Rightarrow> nat \<Rightarrow> 'x store result" where
  "addRefinementParameter s v p =
     bindE (vertex_at s v) (\<lambda>vx. if vx_type vx \<noteq> GRAPH
       then bindE (param_ix s p) (\<lambda>i. Inr (set_vertex s v (vx\<lparr>vx_refinementParams := vx_refinementParams vx @ [i]\<rparr>))) else Inr s)"

subsection \<open>Edge\<close>

text \<open>
  \<open>setSource(nullptr, SIZE_MAX, Expression())\<close> and \<open>setSink(nullptr, ...)\<close>: the port of the current vertex is read
  and emptied by \<open>disconnectOutputEdge\<close>, which calls the same function again on the edge it found there. Every call
  empties a port that held an edge, which is the measure.
\<close>

definition connections :: "side \<Rightarrow> 'x store \<Rightarrow> nat" where
  "connections sd s = sum_list (List.map (\<lambda>v. length (filter (\<lambda>p. p \<noteq> None) (ports sd v))) (st_vertices s))"

lemma ports_set_ports [simp]: "ports sd (set_ports sd ps v) = ps"
  by (cases sd) auto

lemma filter_update_None:
  "i < length xs \<Longrightarrow> xs ! i = Some e \<Longrightarrow>
   Suc (length (filter (\<lambda>p. p \<noteq> None) (xs[i := None]))) = length (filter (\<lambda>p. p \<noteq> None) xs)"
proof (induction xs arbitrary: i)
  case (Cons x xs)
  then show ?case by (cases i) auto
qed simp

lemma disconnectEdge_less:
  assumes "disconnectEdge sd s v ix = Inr (Some e, s')"
  shows "connections sd s' < connections sd s"
proof -
  let ?c = "\<lambda>v. length (filter (\<lambda>p. p \<noteq> None) (ports sd v))"
  from assms obtain vx where v: "v < length (st_vertices s)" "vx = st_vertices s ! v" "ix < length (ports sd vx)"
    "ports sd vx ! ix = Some e" "s' = set_vertex s v (set_ports sd ((ports sd vx)[ix := None]) vx)"
    by (auto simp: disconnectEdge_def vertex_at_def)
  let ?w = "set_ports sd ((ports sd vx)[ix := None]) vx"
  have "connections sd s' + ?c vx = connections sd s + ?c ?w"
    using sum_list_update_nat [of v "List.map ?c (st_vertices s)" "?c ?w"] v
    by (simp add: connections_def set_vertex_def map_update)
  moreover have "Suc (?c ?w) = ?c vx" using filter_update_None [OF v(3,4)] by simp
  ultimately show ?thesis by simp
qed

function clearEnd :: "side \<Rightarrow> 'x \<Rightarrow> 'x store \<Rightarrow> nat \<Rightarrow> 'x store result" where
  "clearEnd sd x0 s e =
     bindE (edge_at s e) (\<lambda>ed.
     bindE (case end_of sd ed of
              None \<Rightarrow> Inr s
            | Some w \<Rightarrow> bindE (disconnectEdge sd s w (port_of sd ed)) (\<lambda>(old, s1).
                case old of None \<Rightarrow> Inr s1 | Some e' \<Rightarrow> clearEnd sd x0 s1 e')) (\<lambda>s2.
     bindE (edge_at s2 e) (\<lambda>ed2. Inr (set_edge s2 e (set_end sd None size_max x0 ed2)))))"
  by auto
termination
  by (relation "measure (\<lambda>(sd, x0, s, e). connections sd s)") (auto simp: disconnectEdge_less)

declare clearEnd.simps [simp del]

definition disconnect :: "side \<Rightarrow> 'x \<Rightarrow> 'x store \<Rightarrow> nat \<Rightarrow> nat \<Rightarrow> 'x store result" where
  "disconnect sd x0 s v ix =
     bindE (disconnectEdge sd s v ix) (\<lambda>(old, s1). case old of None \<Rightarrow> Inr s1 | Some e' \<Rightarrow> clearEnd sd x0 s1 e')"

definition same_graph :: "'x store \<Rightarrow> nat \<Rightarrow> nat option \<Rightarrow> unit result" where
  "same_graph s v other =
     (case other of None \<Rightarrow> Inr ()
      | Some w \<Rightarrow> bindE (vertex_at s v) (\<lambda>vx. bindE (vertex_at s w) (\<lambda>wx. guardE (vx_graph vx = vx_graph wx) Spider_Exception)))"

text \<open>\<open>setSource\<close> (side \<open>Source\<close>) and \<open>setSink\<close> (side \<open>Sink\<close>).\<close>

definition setEnd :: "side \<Rightarrow> 'x \<Rightarrow> 'x store \<Rightarrow> nat \<Rightarrow> nat option \<Rightarrow> nat \<Rightarrow> 'x \<Rightarrow> 'x store result" where
  "setEnd sd x0 s e vertex ix expr =
     bindE (edge_at s e) (\<lambda>ed.
     bindE (case vertex of
              None \<Rightarrow> Inr s
            | Some v \<Rightarrow> bindE (same_graph s v (other_end sd ed)) (\<lambda>_.
                bindE (disconnect sd x0 s v ix) (\<lambda>s1. connectEdge sd s1 v e ix))) (\<lambda>s2.
     bindE (edge_at s2 e) (\<lambda>ed2.
     bindE (case end_of sd ed2 of None \<Rightarrow> Inr s2 | Some w \<Rightarrow> disconnect sd x0 s2 w (port_of sd ed2)) (\<lambda>s3.
     bindE (edge_at s3 e) (\<lambda>ed3. Inr (set_edge s3 e (set_end sd vertex ix expr ed3)))))))"

definition edge_new :: "'x store \<Rightarrow> nat option \<Rightarrow> nat \<Rightarrow> 'x \<Rightarrow> nat option \<Rightarrow> nat \<Rightarrow> 'x \<Rightarrow> ('x store \<times> nat) result" where
  "edge_new s source srcIx srcExpr sink snkIx snkExpr =
     (case (source, sink) of
        (Some v, Some w) \<Rightarrow>
          bindE (same_graph s v (Some w)) (\<lambda>_.
          let e = length (st_edges s);
              s0 = s\<lparr>st_edges := st_edges s @ [\<lparr>ed_src = source, ed_srcPort = srcIx, ed_srcExpr = srcExpr, ed_snk = sink,
                     ed_snkPort = snkIx, ed_snkExpr = snkExpr, ed_delay = None, ed_ix = size_max\<rparr>]\<rparr>
          in bindE (connectEdge Source s0 v e srcIx) (\<lambda>s1. bindE (connectEdge Sink s1 w e snkIx) (\<lambda>s2. Inr (s2, e))))
      | _ \<Rightarrow> Inl Spider_Exception)"

definition setDelay :: "'x store \<Rightarrow> nat \<Rightarrow> nat option \<Rightarrow> 'x store result" where
  "setDelay s e delay =
     (case delay of None \<Rightarrow> Inr s
      | Some d \<Rightarrow> bindE (edge_at s e) (\<lambda>ed.
          if ed_delay ed \<noteq> None then Inl Spider_Exception
          else bindE (case ed_snk ed of None \<Rightarrow> Inr False | Some w \<Rightarrow> bindE (vertex_at s w) (\<lambda>x. Inr (vx_type x = DELAY))) (\<lambda>b1.
               bindE (case ed_src ed of None \<Rightarrow> Inr False | Some w \<Rightarrow> bindE (vertex_at s w) (\<lambda>x. Inr (vx_type x = DELAY))) (\<lambda>b2.
               if b1 \<or> b2 then Inl Spider_Exception else Inr (set_edge s e (ed\<lparr>ed_delay := Some d\<rparr>))))))"

subsection \<open>Graph\<close>

text \<open>\<open>addInputInterface\<close> and \<open>addOutputInterface\<close>: the port array of the graph grows when it is too short.\<close>

definition addInterface :: "side \<Rightarrow> 'x store \<Rightarrow> nat \<Rightarrow> nat \<Rightarrow> 'x store result" where
  "addInterface sd s g v =
     bindE (vertex_at s v) (\<lambda>vx. bindE (graph_at s g) (\<lambda>gr.
       if vx_type vx \<noteq> (if sd = Sink then INPUT else OUTPUT) then Inr s
       else
         let ifs = (if sd = Sink then gr_inputs gr else gr_outputs gr);
             s1 = set_vertex s v (vx\<lparr>vx_ix := length ifs, vx_graph := Some g\<rparr>);
             s2 = set_graph s1 g (if sd = Sink then gr\<lparr>gr_inputs := ifs @ [v]\<rparr> else gr\<lparr>gr_outputs := ifs @ [v]\<rparr>)
         in bindE (vertex_at s2 (gr_vertex gr)) (\<lambda>gx.
              Inr (if length (ports sd gx) < length ifs + 1 then set_vertex s2 (gr_vertex gr) (set_ports sd (ports sd gx @ [None]) gx)
                   else s2))))"

definition interface_new :: "'x store \<Rightarrow> vertex_type \<Rightarrow> ('x store \<times> nat) result" where
  "interface_new s t =
     bindE (vertex_new s t (if t = OUTPUT then 1 else 0) (if t = INPUT then 1 else 0)) (\<lambda>(s1, v).
       if t \<noteq> INPUT \<and> t \<noteq> OUTPUT then Inl Spider_Exception else Inr (s1, v))"

definition graph_new :: "'x store \<Rightarrow> nat \<Rightarrow> nat \<Rightarrow> ('x store \<times> nat) result" where
  "graph_new s nIn nOut =
     bindE (vertex_new s GRAPH nIn nOut) (\<lambda>(s1, v).
     let g = length (st_graphs s1);
         s2 = s1\<lparr>st_graphs := st_graphs s1 @ [\<lparr>gr_vertices = [], gr_edges = [], gr_configs = [], gr_subgraphs = [], gr_params = [],
                gr_inputs = [], gr_outputs = [], gr_vertex = v, gr_subIx = size_max\<rparr>]\<rparr>
     in bindE (foldE (\<lambda>s _. bindE (interface_new s INPUT) (\<lambda>(s', i). addInterface Sink s' g i)) s2 [0..<nIn]) (\<lambda>s3.
        bindE (foldE (\<lambda>s _. bindE (interface_new s OUTPUT) (\<lambda>(s', i). addInterface Source s' g i)) s3 [0..<nOut]) (\<lambda>s4.
        Inr (s4, g))))"

definition graph_clear :: "'x store \<Rightarrow> nat \<Rightarrow> 'x store result" where
  "graph_clear s g =
     bindE (graph_at s g) (\<lambda>gr. Inr (set_graph s g
       (gr\<lparr>gr_vertices := [], gr_edges := [], gr_params := [], gr_subgraphs := [], gr_configs := []\<rparr>)))"

definition addSubgraph :: "'x store \<Rightarrow> nat \<Rightarrow> nat \<Rightarrow> 'x store result" where
  "addSubgraph s g sub =
     bindE (graph_at s g) (\<lambda>gr. bindE (graph_at s sub) (\<lambda>sr.
       let s1 = set_graph s sub (sr\<lparr>gr_subIx := length (gr_subgraphs gr)\<rparr>) in
       bindE (graph_at s1 g) (\<lambda>gr1. Inr (set_graph s1 g (gr1\<lparr>gr_subgraphs := gr_subgraphs gr1 @ [sub]\<rparr>)))))"

definition removeSubgraph :: "'x store \<Rightarrow> nat \<Rightarrow> nat \<Rightarrow> 'x store result" where
  "removeSubgraph s g sub =
     bindE (graph_at s sub) (\<lambda>sr. bindE (graph_at s g) (\<lambda>gr.
       let ix = gr_subIx sr; subs = gr_subgraphs gr in
       if subs = [] then Inl Undefined_Behaviour
       else bindE (set_at subs ix (last subs)) (\<lambda>subs1.
         bindE (graph_at s (last subs)) (\<lambda>lr.
         let s1 = set_graph s (last subs) (lr\<lparr>gr_subIx := ix\<rparr>) in
         bindE (graph_at s1 g) (\<lambda>gr1. Inr (set_graph s1 g (gr1\<lparr>gr_subgraphs := butlast subs1\<rparr>)))))))"

text \<open>The loop that looks for the vertex in \<open>configVertexVector_\<close>.\<close>

definition removeConfig :: "'x store \<Rightarrow> nat \<Rightarrow> nat \<Rightarrow> 'x store result" where
  "removeConfig s g v =
     bindE (graph_at s g) (\<lambda>gr.
       case List.find (\<lambda>i. gr_configs gr ! i = v) [0..<length (gr_configs gr)] of
         None \<Rightarrow> Inr s
       | Some i \<Rightarrow> Inr (set_graph s g (gr\<lparr>gr_configs := out_of_order_erase (gr_configs gr) i\<rparr>)))"

definition addVertex :: "'x store \<Rightarrow> nat \<Rightarrow> nat \<Rightarrow> 'x store result" where
  "addVertex s g v =
     bindE (vertex_at s v) (\<lambda>vx. bindE (graph_at s g) (\<lambda>gr.
       let s1 = set_vertex s v (vx\<lparr>vx_ix := length (gr_vertices gr), vx_graph := Some g\<rparr>);
           gr1 = gr\<lparr>gr_vertices := gr_vertices gr @ [v]\<rparr>
       in if vx_type vx = CONFIG then Inr (set_graph s1 g (gr1\<lparr>gr_configs := gr_configs gr1 @ [v]\<rparr>))
          else if vx_type vx = GRAPH then addSubgraph (set_graph s1 g gr1) g (vx_asGraph vx)
          else Inr (set_graph s1 g gr1)))"

definition assertElement :: "nat list \<Rightarrow> nat \<Rightarrow> nat \<Rightarrow> unit result" where
  "assertElement vec ix elt =
     (if ix \<ge> length vec then Inl Spider_Exception else if vec ! ix \<noteq> elt then Inl Spider_Exception else Inr ())"

text \<open>\<open>swapElement\<close> on the vertices and on the edges: the last element takes the index and the place of the removed one.\<close>

definition swapVertex :: "'x store \<Rightarrow> nat \<Rightarrow> nat \<Rightarrow> 'x store result" where
  "swapVertex s g v =
     bindE (vertex_at s v) (\<lambda>vx. bindE (graph_at s g) (\<lambda>gr.
       if gr_vertices gr = [] \<or> vx_ix vx \<ge> length (gr_vertices gr) then Inl Undefined_Behaviour
       else bindE (vertex_at s (last (gr_vertices gr))) (\<lambda>lx.
         Inr (set_graph (set_vertex s (last (gr_vertices gr)) (lx\<lparr>vx_ix := vx_ix vx\<rparr>)) g
                (gr\<lparr>gr_vertices := out_of_order_erase (gr_vertices gr) (vx_ix vx)\<rparr>)))))"

definition swapEdge :: "'x store \<Rightarrow> nat \<Rightarrow> nat \<Rightarrow> 'x store result" where
  "swapEdge s g e =
     bindE (edge_at s e) (\<lambda>ed. bindE (graph_at s g) (\<lambda>gr.
       if gr_edges gr = [] \<or> ed_ix ed \<ge> length (gr_edges gr) then Inl Undefined_Behaviour
       else bindE (edge_at s (last (gr_edges gr))) (\<lambda>le.
         Inr (set_graph (set_edge s (last (gr_edges gr)) (le\<lparr>ed_ix := ed_ix ed\<rparr>)) g
                (gr\<lparr>gr_edges := out_of_order_erase (gr_edges gr) (ed_ix ed)\<rparr>)))))"

text \<open>\<open>for (auto &edge : vertex->inputEdges()) if (edge) edge->setSink(nullptr, ...)\<close> and its mirror image.\<close>

definition clear_port :: "side \<Rightarrow> 'x \<Rightarrow> nat \<Rightarrow> 'x store \<Rightarrow> nat \<Rightarrow> 'x store result" where
  "clear_port sd x0 v s k =
     bindE (vertex_at s v) (\<lambda>vx. bindE (get_at (ports sd vx) k) (\<lambda>p.
       case p of None \<Rightarrow> Inr s | Some e \<Rightarrow> setEnd sd x0 s e None size_max x0))"

definition clear_ports :: "side \<Rightarrow> 'x \<Rightarrow> 'x store \<Rightarrow> nat \<Rightarrow> 'x store result" where
  "clear_ports sd x0 s v =
     bindE (vertex_at s v) (\<lambda>vx. foldE (clear_port sd x0 v) s [0..<length (ports sd vx)])"

definition leave_viewers :: "'x store \<Rightarrow> nat \<Rightarrow> nat \<Rightarrow> 'x store result" where
  "leave_viewers s g v =
     bindE (vertex_at s v) (\<lambda>vx.
       if vx_type vx = CONFIG then removeConfig s g v
       else if vx_type vx = GRAPH then removeSubgraph s g (vx_asGraph vx) else Inr s)"

definition removeVertex :: "'x \<Rightarrow> 'x store \<Rightarrow> nat \<Rightarrow> nat \<Rightarrow> 'x store result" where
  "removeVertex x0 s g v =
     bindE (leave_viewers s g v) (\<lambda>s1.
     bindE (vertex_at s1 v) (\<lambda>vx. bindE (graph_at s1 g) (\<lambda>gr.
     bindE (assertElement (gr_vertices gr) (vx_ix vx) v) (\<lambda>_.
     bindE (clear_ports Sink x0 s1 v) (\<lambda>s2. bindE (clear_ports Source x0 s2 v) (\<lambda>s3. swapVertex s3 g v))))))"

definition moveVertex :: "'x store \<Rightarrow> nat \<Rightarrow> nat \<Rightarrow> nat option \<Rightarrow> 'x store result" where
  "moveVertex s g v target =
     (case target of None \<Rightarrow> Inr s
      | Some g' \<Rightarrow> if g' = g then Inr s
        else bindE (vertex_at s v) (\<lambda>vx. bindE (graph_at s g) (\<lambda>gr.
             bindE (assertElement (gr_vertices gr) (vx_ix vx) v) (\<lambda>_.
             bindE (swapVertex s g v) (\<lambda>s1. bindE (addVertex s1 g' v) (\<lambda>s2. leave_viewers s2 g v))))))"

definition addEdge :: "'x store \<Rightarrow> nat \<Rightarrow> nat \<Rightarrow> 'x store result" where
  "addEdge s g e =
     bindE (edge_at s e) (\<lambda>ed. bindE (graph_at s g) (\<lambda>gr.
       Inr (set_graph (set_edge s e (ed\<lparr>ed_ix := length (gr_edges gr)\<rparr>)) g (gr\<lparr>gr_edges := gr_edges gr @ [e]\<rparr>))))"

definition removeEdge :: "'x \<Rightarrow> 'x store \<Rightarrow> nat \<Rightarrow> nat \<Rightarrow> 'x store result" where
  "removeEdge x0 s g e =
     bindE (edge_at s e) (\<lambda>ed. bindE (graph_at s g) (\<lambda>gr.
     bindE (assertElement (gr_edges gr) (ed_ix ed) e) (\<lambda>_.
     bindE (setEnd Source x0 s e None size_max x0) (\<lambda>s1.
     bindE (setEnd Sink x0 s1 e None size_max x0) (\<lambda>s2. swapEdge s2 g e)))))"

definition moveEdge :: "'x store \<Rightarrow> nat \<Rightarrow> nat \<Rightarrow> nat option \<Rightarrow> 'x store result" where
  "moveEdge s g e target =
     (case target of None \<Rightarrow> Inr s
      | Some g' \<Rightarrow> if g' = g then Inr s
        else bindE (edge_at s e) (\<lambda>ed. bindE (graph_at s g) (\<lambda>gr.
             bindE (assertElement (gr_edges gr) (ed_ix ed) e) (\<lambda>_.
             bindE (swapEdge s g e) (\<lambda>s1. addEdge s1 g' e)))))"

definition param_at :: "'x store \<Rightarrow> nat \<Rightarrow> param_obj result" where "param_at s p = get_at (st_params s) p"

definition set_param_ix :: "'x store \<Rightarrow> nat \<Rightarrow> nat \<Rightarrow> 'x store result" where
  "set_param_ix s p i = bindE (param_at s p) (\<lambda>pr. Inr (s\<lparr>st_params := (st_params s)[p := pr\<lparr>pr_ix := i\<rparr>]\<rparr>))"

definition addParam :: "'x store \<Rightarrow> nat \<Rightarrow> nat \<Rightarrow> 'x store result" where
  "addParam s g p =
     bindE (param_at s p) (\<lambda>pr. bindE (graph_at s g) (\<lambda>gr.
     bindE (mapE (param_at s) (gr_params gr)) (\<lambda>prs.
       if pr_name pr \<in> set (List.map pr_name prs) then Inl Spider_Exception
       else bindE (set_param_ix s p (length (gr_params gr))) (\<lambda>s1. Inr (set_graph s1 g (gr\<lparr>gr_params := gr_params gr @ [p]\<rparr>))))))"

text \<open>After the erasure, the element now at the index is given the index, whether there is one or not.\<close>

definition removeParam :: "'x store \<Rightarrow> nat \<Rightarrow> nat \<Rightarrow> 'x store result" where
  "removeParam s g p =
     bindE (param_at s p) (\<lambda>pr. bindE (graph_at s g) (\<lambda>gr.
       if pr_ix pr \<ge> length (gr_params gr) then Inr s
       else if gr_params gr ! pr_ix pr = p then
         let ps = out_of_order_erase (gr_params gr) (pr_ix pr); s1 = set_graph s g (gr\<lparr>gr_params := ps\<rparr>)
         in bindE (get_at ps (pr_ix pr)) (\<lambda>q. set_param_ix s1 q (pr_ix pr))
       else Inr s))"

text \<open>\<open>lower\<close> stands for \<open>tolower\<close>.\<close>

definition paramFromName :: "(char \<Rightarrow> char) \<Rightarrow> 'x store \<Rightarrow> nat \<Rightarrow> string \<Rightarrow> nat option result" where
  "paramFromName lower s g name =
     bindE (graph_at s g) (\<lambda>gr. bindE (mapE (param_at s) (gr_params gr)) (\<lambda>prs.
       Inr (map_option fst (List.find (\<lambda>(p, pr). List.map lower (pr_name pr) = List.map lower name) (zip (gr_params gr) prs)))))"

definition graph_dynamic :: "'x store \<Rightarrow> nat \<Rightarrow> bool result" where
  "graph_dynamic s g =
     bindE (graph_at s g) (\<lambda>gr. bindE (mapE (param_at s) (gr_params gr)) (\<lambda>prs. Inr (list_ex (\<lambda>p. pr_type p = DYNAMIC) prs)))"

text \<open>\<open>totalActorCount\<close>, the depth of the hierarchy bounded by fuel.\<close>

primrec totalActorCount :: "nat \<Rightarrow> 'x store \<Rightarrow> nat \<Rightarrow> nat result" where
  "totalActorCount 0 s g = Inl Diverges"
| "totalActorCount (Suc n) s g =
     bindE (graph_at s g) (\<lambda>gr.
       foldE (\<lambda>total sub. bindE (totalActorCount n s sub) (\<lambda>c. Inr (add64 total c)))
         (sub64 (length (gr_vertices gr)) (length (gr_subgraphs gr))) (gr_subgraphs gr))"

text \<open>An interface seen from inside and from outside.\<close>

definition interface_inputEdge :: "'x store \<Rightarrow> nat \<Rightarrow> nat option result" where
  "interface_inputEdge s v =
     bindE (vertex_at s v) (\<lambda>vx.
       if vx_type vx = INPUT then
         (case vx_graph vx of None \<Rightarrow> Inl Null_Deref
          | Some g \<Rightarrow> bindE (graph_at s g) (\<lambda>gr. bindE (vertex_at s (gr_vertex gr)) (\<lambda>gx. get_at (vx_in gx) (vx_ix vx))))
       else get_at (vx_in vx) 0)"

definition interface_outputEdge :: "'x store \<Rightarrow> nat \<Rightarrow> nat option result" where
  "interface_outputEdge s v =
     bindE (vertex_at s v) (\<lambda>vx.
       if vx_type vx = OUTPUT then
         (case vx_graph vx of None \<Rightarrow> Inl Null_Deref
          | Some g \<Rightarrow> bindE (graph_at s g) (\<lambda>gr. bindE (vertex_at s (gr_vertex gr)) (\<lambda>gx. get_at (vx_out gx) (vx_ix vx))))
       else get_at (vx_out vx) 0)"

definition deref :: "'a option \<Rightarrow> 'a result" where
  "deref p = (case p of None \<Rightarrow> Inl Null_Deref | Some x \<Rightarrow> Inr x)"

definition interface_opposite :: "'x store \<Rightarrow> nat \<Rightarrow> nat option result" where
  "interface_opposite s v =
     bindE (vertex_at s v) (\<lambda>vx.
       if vx_type vx = INPUT
       then bindE (bindE (interface_outputEdge s v) deref) (\<lambda>e. bindE (edge_at s e) (\<lambda>ed. Inr (ed_snk ed)))
       else bindE (bindE (interface_inputEdge s v) deref) (\<lambda>e. bindE (edge_at s e) (\<lambda>ed. Inr (ed_src ed))))"

definition interface_edge :: "'x store \<Rightarrow> nat \<Rightarrow> nat option result" where
  "interface_edge s v =
     bindE (vertex_at s v) (\<lambda>vx. if vx_type vx = OUTPUT then get_at (vx_in vx) 0 else get_at (vx_out vx) 0)"

subsection \<open>Delay\<close>

text \<open>\<open>Edge::graph\<close>, and the creation of the initial and the final actors by the user interface of the library.\<close>

definition edge_graph :: "'x store \<Rightarrow> nat \<Rightarrow> nat option result" where
  "edge_graph s e =
     bindE (edge_at s e) (\<lambda>ed.
       case (ed_src ed, ed_snk ed) of
         (Some v, _) \<Rightarrow> bindE (vertex_at s v) (\<lambda>vx. Inr (vx_graph vx))
       | (None, Some w) \<Rightarrow> bindE (vertex_at s w) (\<lambda>wx. Inr (vx_graph wx))
       | (None, None) \<Rightarrow> Inr None)"

definition checkGraph :: "nat option \<Rightarrow> nat result" where
  "checkGraph g = (case g of None \<Rightarrow> Inl Spider_Exception | Some i \<Rightarrow> Inr i)"

definition createVertexOf :: "vertex_type \<Rightarrow> nat \<Rightarrow> nat \<Rightarrow> 'x store \<Rightarrow> nat option \<Rightarrow> ('x store \<times> nat) result" where
  "createVertexOf t nIn nOut s g =
     bindE (checkGraph g) (\<lambda>gi. bindE (vertex_new s t nIn nOut) (\<lambda>(s1, v). bindE (addVertex s1 gi v) (\<lambda>s2. Inr (s2, v))))"

definition createInit :: "'x store \<Rightarrow> nat option \<Rightarrow> ('x store \<times> nat) result" where
  "createInit = createVertexOf INIT 0 1"

definition createEnd :: "'x store \<Rightarrow> nat option \<Rightarrow> ('x store \<times> nat) result" where
  "createEnd = createVertexOf END_VERTEX 1 0"

text \<open>
  The constructor of \<open>Delay\<close>. \<open>of_val v\<close> is \<open>Expression(v)\<close>; the names, which dereference both ends of the edge, and the
  restriction of a persistent delay's actors to a cluster of the platform are not part of the store.
\<close>

definition delay_new :: "(int \<Rightarrow> 'x) \<Rightarrow> 'x store \<Rightarrow> int \<Rightarrow> nat option \<Rightarrow> nat option \<Rightarrow> nat \<Rightarrow> 'x \<Rightarrow> nat option \<Rightarrow> nat \<Rightarrow> 'x \<Rightarrow> bool \<Rightarrow>
    ('x store \<times> nat) result" where
  "delay_new of_val s val edge setter setterPort setterExpr getter getterPort getterExpr persistent =
     (case edge of None \<Rightarrow> Inl Spider_Exception
      | Some e \<Rightarrow> bindE (edge_at s e) (\<lambda>ed.
        if ed_delay ed \<noteq> None then Inl Spider_Exception
        else if persistent \<and> (setter \<noteq> None \<or> getter \<noteq> None) then Inl Spider_Exception
        else
          bindE (edge_graph s e) (\<lambda>g.
          bindE (case setter of Some v \<Rightarrow> Inr (s, v, setterPort)
                 | None \<Rightarrow> bindE (deref (ed_snk ed)) (\<lambda>_. bindE (createInit s g) (\<lambda>(s1, v). Inr (s1, v, 0)))) (\<lambda>(s1, v, setIx).
          bindE (case getter of Some w \<Rightarrow> Inr (s1, w, getterPort)
                 | None \<Rightarrow> bindE (deref (ed_src ed)) (\<lambda>_. bindE (createEnd s1 g) (\<lambda>(s2, w). Inr (s2, w, 0)))) (\<lambda>(s2, w, getIx).
          bindE (deref (ed_src ed)) (\<lambda>_. bindE (deref (ed_snk ed)) (\<lambda>_.
          bindE (vertex_new s2 DELAY 1 1) (\<lambda>(s3, dv).
          bindE (deref g) (\<lambda>gi. bindE (addVertex s3 gi dv) (\<lambda>s4.
          bindE (edge_new s4 (Some v) setIx setterExpr (Some dv) 0 (of_val val)) (\<lambda>(s5, e1).
          bindE (edge_new s5 (Some dv) 0 (of_val val) (Some w) getIx getterExpr) (\<lambda>(s6, e2).
          bindE (addEdge s6 gi e1) (\<lambda>s7. bindE (addEdge s7 gi e2) (\<lambda>s8.
          let d = length (st_delays s8);
              s9 = s8\<lparr>st_delays := st_delays s8 @ [\<lparr>de_value = val, de_edge = e, de_setterPort = setIx, de_getterPort = getIx,
                     de_persistent = persistent, de_vertex = dv, de_address = u64_max\<rparr>]\<rparr>
          in bindE (setDelay s9 e (Some d)) (\<lambda>s10. Inr (s10, d))))))))))))))))"

definition delay_at :: "'x store \<Rightarrow> nat \<Rightarrow> delay result" where "delay_at s d = get_at (st_delays s) d"

definition delay_setter :: "'x store \<Rightarrow> nat \<Rightarrow> nat option result" where
  "delay_setter s d =
     bindE (delay_at s d) (\<lambda>de. bindE (vertex_at s (de_vertex de)) (\<lambda>vx. bindE (get_at (vx_in vx) 0) (\<lambda>p.
     bindE (deref p) (\<lambda>e. bindE (edge_at s e) (\<lambda>ed. Inr (ed_src ed))))))"

definition delay_getter :: "'x store \<Rightarrow> nat \<Rightarrow> nat option result" where
  "delay_getter s d =
     bindE (delay_at s d) (\<lambda>de. bindE (vertex_at s (de_vertex de)) (\<lambda>vx. bindE (get_at (vx_out vx) 0) (\<lambda>p.
     bindE (deref p) (\<lambda>e. bindE (edge_at s e) (\<lambda>ed. Inr (ed_snk ed))))))"

text \<open>\<open>setMemoryAddress\<close>: without logging a second address replaces the first, with logging it is ignored.\<close>

definition delay_setMemoryAddress :: "bool \<Rightarrow> delay \<Rightarrow> nat \<Rightarrow> delay" where
  "delay_setMemoryAddress log d address =
     (if \<not> de_persistent d then d
      else if de_address d \<noteq> u64_max \<and> log then d
      else d\<lparr>de_address := address\<rparr>)"

end
