(* ===== verification/PisdfLinks.thy ===== *)
theory PisdfLinks
  imports PisdfStore
begin

text \<open>
  The links between edges and ports. Seen from outside, a side of the store is a partial map from edges to ports; the
  invariant \<open>links_ok\<close> says that the port arrays hold its inverse. Every operation of \<open>Edge.cpp\<close> refines one update of
  this map, whatever it disconnects on the way.
\<close>

abbreviation n_vertices :: "'x store \<Rightarrow> nat" where "n_vertices s \<equiv> length (st_vertices s)"
abbreviation n_edges :: "'x store \<Rightarrow> nat" where "n_edges s \<equiv> length (st_edges s)"

definition n_ports :: "side \<Rightarrow> 'x store \<Rightarrow> nat \<Rightarrow> nat" where
  "n_ports sd s v = length (ports sd (st_vertices s ! v))"

definition port :: "side \<Rightarrow> 'x store \<Rightarrow> nat \<Rightarrow> nat \<Rightarrow> nat option" where
  "port sd s v p = ports sd (st_vertices s ! v) ! p"

definition target :: "side \<Rightarrow> 'x store \<Rightarrow> nat \<Rightarrow> (nat \<times> nat) option" where
  "target sd s e = map_option (\<lambda>v. (v, port_of sd (st_edges s ! e))) (end_of sd (st_edges s ! e))"

definition put_port :: "side \<Rightarrow> 'x store \<Rightarrow> nat \<Rightarrow> nat \<Rightarrow> nat option \<Rightarrow> 'x store" where
  "put_port sd s v p x = set_vertex s v (set_ports sd ((ports sd (st_vertices s ! v))[p := x]) (st_vertices s ! v))"

definition put_end :: "side \<Rightarrow> 'x store \<Rightarrow> nat \<Rightarrow> nat option \<Rightarrow> nat \<Rightarrow> 'x \<Rightarrow> 'x store" where
  "put_end sd s e v p x = set_edge s e (set_end sd v p x (st_edges s ! e))"

definition links_ok :: "side \<Rightarrow> 'x store \<Rightarrow> bool" where
  "links_ok sd s \<longleftrightarrow>
     (\<forall>v p e. v < n_vertices s \<longrightarrow> p < n_ports sd s v \<longrightarrow> port sd s v p = Some e \<longrightarrow> e < n_edges s \<and> target sd s e = Some (v, p)) \<and>
     (\<forall>e v p. e < n_edges s \<longrightarrow> target sd s e = Some (v, p) \<longrightarrow> v < n_vertices s \<and> p < n_ports sd s v \<and> port sd s v p = Some e)"

text \<open>What the operations on links leave alone.\<close>

definition same_shape :: "'x store \<Rightarrow> 'x store \<Rightarrow> bool" where
  "same_shape s s' \<longleftrightarrow>
     n_vertices s' = n_vertices s \<and> n_edges s' = n_edges s \<and> st_graphs s' = st_graphs s \<and> st_params s' = st_params s \<and>
     (\<forall>v < n_vertices s. vx_type (st_vertices s' ! v) = vx_type (st_vertices s ! v) \<and>
        vx_graph (st_vertices s' ! v) = vx_graph (st_vertices s ! v) \<and> vx_ix (st_vertices s' ! v) = vx_ix (st_vertices s ! v) \<and>
        vx_asGraph (st_vertices s' ! v) = vx_asGraph (st_vertices s ! v) \<and> (\<forall>sd. n_ports sd s' v = n_ports sd s v)) \<and>
     (\<forall>e < n_edges s. ed_ix (st_edges s' ! e) = ed_ix (st_edges s ! e))"

lemma same_shape_refl [simp]: "same_shape s s" by (simp add: same_shape_def)

lemma same_shape_trans: "same_shape a b \<Longrightarrow> same_shape b c \<Longrightarrow> same_shape a c"
  by (simp add: same_shape_def)

subsection \<open>Observing the two updates\<close>

lemma set_ports_other [simp]: "sd' \<noteq> sd \<Longrightarrow> ports sd' (set_ports sd ps v) = ports sd' v"
  by (cases sd; cases sd') auto

lemma set_ports_frame [simp]:
  "vx_type (set_ports sd ps v) = vx_type v" "vx_graph (set_ports sd ps v) = vx_graph v" "vx_ix (set_ports sd ps v) = vx_ix v"
  "vx_asGraph (set_ports sd ps v) = vx_asGraph v"
  by (cases sd; simp)+

lemma set_end_simps [simp]:
  "end_of sd (set_end sd v p x e) = v" "port_of sd (set_end sd v p x e) = p" "ed_ix (set_end sd v p x e) = ed_ix e"
  by (cases sd; simp)+

lemma set_end_other [simp]:
  "sd' \<noteq> sd \<Longrightarrow> end_of sd' (set_end sd v p x e) = end_of sd' e" "sd' \<noteq> sd \<Longrightarrow> port_of sd' (set_end sd v p x e) = port_of sd' e"
  by (cases sd; cases sd'; simp)+

lemma put_port_shape: "same_shape s (put_port sd s v p x)"
proof (cases "v < n_vertices s")
  case True
  have "length (ports sd' (set_ports sd ((ports sd (st_vertices s ! v))[p := x]) (st_vertices s ! v))) =
      length (ports sd' (st_vertices s ! v))" for sd'
    by (cases "sd' = sd") auto
  with True show ?thesis by (auto simp: same_shape_def put_port_def set_vertex_def n_ports_def nth_list_update)
qed (simp add: put_port_def set_vertex_def list_update_beyond)

lemma put_end_shape: "same_shape s (put_end sd s e v p x)"
  by (cases "e < n_edges s") (auto simp: same_shape_def put_end_def set_edge_def n_ports_def nth_list_update list_update_beyond)

lemma n_simps [simp]:
  "n_vertices (put_port sd s v p x) = n_vertices s" "n_edges (put_port sd s v p x) = n_edges s"
  "n_vertices (put_end sd s e w p y) = n_vertices s" "n_edges (put_end sd s e w p y) = n_edges s"
  by (simp_all add: put_port_def put_end_def set_vertex_def set_edge_def)

lemma n_ports_simps [simp]:
  "n_ports sd' (put_port sd s v p x) v' = n_ports sd' s v'" "n_ports sd' (put_end sd s e w p y) v' = n_ports sd' s v'"
proof -
  show "n_ports sd' (put_port sd s v p x) v' = n_ports sd' s v'"
    by (cases "v' = v \<and> v < n_vertices s"; cases "sd' = sd") (auto simp: n_ports_def put_port_def set_vertex_def nth_list_update list_update_beyond)
qed (simp add: n_ports_def put_end_def set_edge_def)

lemma port_put_port:
  "v < n_vertices s \<Longrightarrow> p < n_ports sd s v \<Longrightarrow>
   port sd' (put_port sd s v p x) v' p' = (if sd' = sd \<and> v' = v \<and> p' = p then x else port sd' s v' p')"
  by (cases "v' = v"; cases "sd' = sd") (auto simp: port_def n_ports_def put_port_def set_vertex_def nth_list_update)

lemma port_put_end [simp]: "port sd' (put_end sd s e w p y) v' p' = port sd' s v' p'"
  by (simp add: port_def put_end_def set_edge_def)

lemma target_put_port [simp]: "target sd' (put_port sd s v p x) e = target sd' s e"
  by (simp add: target_def put_port_def set_vertex_def)

lemma target_put_end:
  "e < n_edges s \<Longrightarrow> target sd' (put_end sd s e w p y) e' = (if sd' = sd \<and> e' = e then map_option (\<lambda>v. (v, p)) w else target sd' s e')"
  by (cases "e' = e"; cases "sd' = sd") (auto simp: target_def put_end_def set_edge_def nth_list_update)

subsection \<open>The operations through the two updates\<close>

lemma disconnectEdge_eq:
  "v < n_vertices s \<Longrightarrow> p < n_ports sd s v \<Longrightarrow> disconnectEdge sd s v p = Inr (port sd s v p, put_port sd s v p None)"
  by (simp add: disconnectEdge_def vertex_at_def n_ports_def port_def put_port_def)

lemma connectEdge_eq:
  "v < n_vertices s \<Longrightarrow> connectEdge sd s v e p =
    (if p < n_ports sd s v \<and> port sd s v p = None then Inr (put_port sd s v p (Some e)) else Inl Spider_Exception)"
  by (auto simp: connectEdge_def vertex_at_def n_ports_def port_def put_port_def)

lemma target_cases:
  obtains "target sd s e = None" "end_of sd (st_edges s ! e) = None"
  | v where "target sd s e = Some (v, port_of sd (st_edges s ! e))" "end_of sd (st_edges s ! e) = Some v"
  by (cases "end_of sd (st_edges s ! e)") (auto simp: target_def)

lemma links_okD1: "links_ok sd s \<Longrightarrow> v < n_vertices s \<Longrightarrow> p < n_ports sd s v \<Longrightarrow> port sd s v p = Some e \<Longrightarrow>
    e < n_edges s \<and> target sd s e = Some (v, p)"
  unfolding links_ok_def by blast

lemma links_okD2: "links_ok sd s \<Longrightarrow> e < n_edges s \<Longrightarrow> target sd s e = Some (v, p) \<Longrightarrow>
    v < n_vertices s \<and> p < n_ports sd s v \<and> port sd s v p = Some e"
  unfolding links_ok_def by blast

text \<open>The store after the end of an edge is cleared.\<close>

definition cleared :: "side \<Rightarrow> 'x \<Rightarrow> 'x store \<Rightarrow> nat \<Rightarrow> 'x store" where
  "cleared sd x0 s e =
     put_end sd (case target sd s e of None \<Rightarrow> s | Some (v, p) \<Rightarrow> put_port sd s v p None) e None size_max x0"

lemma put_port_again: "port sd s v p = None \<Longrightarrow> v < n_vertices s \<Longrightarrow> p < n_ports sd s v \<Longrightarrow> put_port sd s v p None = s"
proof -
  assume a: "port sd s v p = None" "v < n_vertices s" "p < n_ports sd s v"
  then have "set_ports sd ((ports sd (st_vertices s ! v))[p := None]) (st_vertices s ! v) = st_vertices s ! v"
    by (cases sd) (simp_all add: port_def list_update_same_conv n_ports_def)
  then show ?thesis by (simp add: put_port_def set_vertex_def)
qed

lemma put_end_twice: "e < n_edges s \<Longrightarrow> put_end sd (put_end sd s e v p x) e w q y = put_end sd s e w q y"
  by (cases sd) (simp_all add: put_end_def set_edge_def)

text \<open>On a dangling end, whose port is already empty, no further call is made.\<close>

lemma clearEnd_dangling:
  assumes "e < n_edges s" "\<And>v p. target sd s e = Some (v, p) \<Longrightarrow> v < n_vertices s \<and> p < n_ports sd s v \<and> port sd s v p = None"
  shows "clearEnd sd x0 s e = Inr (put_end sd s e None size_max x0)"
proof (cases rule: target_cases [of sd s e])
  case 1
  with assms show ?thesis by (simp add: clearEnd.simps [of _ _ s] edge_at_def put_end_def)
next
  case (2 v)
  with assms have "v < n_vertices s" "port_of sd (st_edges s ! e) < n_ports sd s v" "port sd s v (port_of sd (st_edges s ! e)) = None"
    by auto
  with 2 assms(1) show ?thesis
    by (simp add: clearEnd.simps [of _ _ s] edge_at_def disconnectEdge_eq put_port_again put_end_def)
qed

lemma clearEnd_eq:
  assumes "links_ok sd s" "e < n_edges s"
  shows "clearEnd sd x0 s e = Inr (cleared sd x0 s e)"
proof (cases rule: target_cases [of sd s e])
  case 1
  then show ?thesis using assms by (subst clearEnd_dangling) (auto simp: cleared_def)
next
  case (2 v)
  let ?p = "port_of sd (st_edges s ! e)"
  from links_okD2 [OF assms 2(1)] have v: "v < n_vertices s" "?p < n_ports sd s v" "port sd s v ?p = Some e" by auto
  have "clearEnd sd x0 (put_port sd s v ?p None) e = Inr (cleared sd x0 s e)"
    using v 2 assms(2) by (subst clearEnd_dangling) (auto simp: port_put_port cleared_def)
  moreover have "set_edge (cleared sd x0 s e) e (set_end sd None size_max x0 (st_edges (cleared sd x0 s e) ! e)) = cleared sd x0 s e"
  proof -
    have "put_end sd (cleared sd x0 s e) e None size_max x0 = cleared sd x0 s e"
      using assms(2) 2 by (simp add: cleared_def put_end_twice)
    then show ?thesis by (simp add: put_end_def)
  qed
  moreover have "e < n_edges (cleared sd x0 s e)" using assms(2) 2 by (simp add: cleared_def)
  ultimately show ?thesis using v 2 assms(2)
    by (simp add: clearEnd.simps [of _ _ s] edge_at_def disconnectEdge_eq)
qed

lemma cleared_shape: "same_shape s (cleared sd x0 s e)"
  unfolding cleared_def
  by (auto intro: same_shape_trans put_end_shape put_port_shape split: option.splits)

lemma n_cleared [simp]: "n_vertices (cleared sd x0 s e) = n_vertices s" "n_edges (cleared sd x0 s e) = n_edges s"
  by (simp_all add: cleared_def split: option.splits prod.splits)

lemma n_ports_cleared [simp]: "n_ports sd' (cleared sd x0 s e) v = n_ports sd' s v"
  by (simp add: cleared_def split: option.splits prod.splits)

lemma port_cleared:
  assumes "links_ok sd s" "e < n_edges s"
  shows "port sd' (cleared sd x0 s e) v p = (if sd' = sd \<and> target sd s e = Some (v, p) then None else port sd' s v p)"
proof (cases "target sd s e")
  case (Some t)
  obtain w q where "t = (w, q)" by (cases t)
  with links_okD2 [OF assms, of w q] Some show ?thesis by (auto simp: cleared_def port_put_port)
qed (simp add: cleared_def)

lemma target_cleared:
  assumes "e < n_edges s"
  shows "target sd' (cleared sd x0 s e) e' = (if sd' = sd \<and> e' = e then None else target sd' s e')"
  using assms by (auto simp: cleared_def target_put_end split: option.splits prod.splits)

text \<open>Introduction and transfer of the invariant through the two observers.\<close>

lemma links_okI:
  assumes "\<And>v p e. v < n_vertices s \<Longrightarrow> p < n_ports sd s v \<Longrightarrow> port sd s v p = Some e \<Longrightarrow> e < n_edges s \<and> target sd s e = Some (v, p)"
    and "\<And>e v p. e < n_edges s \<Longrightarrow> target sd s e = Some (v, p) \<Longrightarrow> v < n_vertices s \<and> p < n_ports sd s v \<and> port sd s v p = Some e"
  shows "links_ok sd s"
  unfolding links_ok_def using assms by blast

lemma links_frame:
  assumes "links_ok sd s" "n_vertices s' = n_vertices s" "n_edges s' = n_edges s" "\<And>v. n_ports sd s' v = n_ports sd s v"
    and "\<And>v p. port sd s' v p = port sd s v p" "\<And>e. target sd s' e = target sd s e"
  shows "links_ok sd s'"
  using assms(1) unfolding links_ok_def assms(2-6) .

lemma links_cleared:
  assumes "links_ok sd s" "e < n_edges s" "links_ok sd' s"
  shows "links_ok sd' (cleared sd x0 s e)"
proof (cases "sd' = sd")
  case True
  show ?thesis unfolding True
  proof (rule links_okI)
    fix v p e' assume "v < n_vertices (cleared sd x0 s e)" "p < n_ports sd (cleared sd x0 s e) v" "port sd (cleared sd x0 s e) v p = Some e'"
    then have "v < n_vertices s" "p < n_ports sd s v" "port sd s v p = Some e'" "target sd s e \<noteq> Some (v, p)"
      by (auto simp: port_cleared [OF assms(1,2)] split: if_splits)
    with links_okD1 [OF assms(1) this(1-3)] show "e' < n_edges (cleared sd x0 s e) \<and> target sd (cleared sd x0 s e) e' = Some (v, p)"
      by (auto simp: target_cleared [OF assms(2)])
  next
    fix e' v p assume "e' < n_edges (cleared sd x0 s e)" "target sd (cleared sd x0 s e) e' = Some (v, p)"
    then have e': "e' < n_edges s" "e' \<noteq> e" "target sd s e' = Some (v, p)"
      by (auto simp: target_cleared [OF assms(2)] split: if_splits)
    note v = links_okD2 [OF assms(1) e'(1,3)]
    have "target sd s e \<noteq> Some (v, p)" using links_okD2 [OF assms(1,2)] v e'(2) by fastforce
    with v show "v < n_vertices (cleared sd x0 s e) \<and> p < n_ports sd (cleared sd x0 s e) v \<and> port sd (cleared sd x0 s e) v p = Some e'"
      by (simp add: port_cleared [OF assms(1,2)])
  qed
qed (rule links_frame [OF assms(3)], simp_all add: port_cleared [OF assms(1,2)] target_cleared [OF assms(2)])

text \<open>The store after an edge is given a new end at a free port.\<close>

definition joined :: "side \<Rightarrow> 'x \<Rightarrow> 'x store \<Rightarrow> nat \<Rightarrow> nat \<Rightarrow> nat \<Rightarrow> 'x \<Rightarrow> 'x store" where
  "joined sd x0 s e v p x =
     put_end sd (put_port sd (cleared sd x0 s e) v p (Some e)) e (Some v) p x"

lemma n_joined [simp]:
  "n_vertices (joined sd x0 s e v p x) = n_vertices s" "n_edges (joined sd x0 s e v p x) = n_edges s"
  "n_ports sd' (joined sd x0 s e v p x) v' = n_ports sd' s v'"
  by (simp_all add: joined_def)

lemma links_joined:
  assumes "links_ok sd s" "links_ok sd' s" "e < n_edges s" "v < n_vertices s" "p < n_ports sd s v"
    and "port sd s v p = None \<or> port sd s v p = Some e"
  shows "links_ok sd' (joined sd x0 s e v p x)"
proof (cases "sd' = sd")
  case True
  let ?c = "cleared sd x0 s e"
  have c: "links_ok sd ?c" by (rule links_cleared [OF assms(1,3,1)])
  have free: "port sd ?c v p = None" using assms(6) links_okD1 [OF assms(1,4,5)] by (auto simp: port_cleared [OF assms(1,3)])
  have none: "target sd ?c e = None" by (simp add: target_cleared [OF assms(3)])
  have P: "port sd (joined sd x0 s e v p x) v' p' = (if v' = v \<and> p' = p then Some e else port sd ?c v' p')" for v' p'
    using assms(4,5) by (simp add: joined_def port_put_port)
  have T: "target sd (joined sd x0 s e v p x) e' = (if e' = e then Some (v, p) else target sd ?c e')" for e'
    using assms(3) by (simp add: joined_def target_put_end)
  show ?thesis unfolding True
  proof (rule links_okI)
    fix v' p' e' assume a: "v' < n_vertices (joined sd x0 s e v p x)" "p' < n_ports sd (joined sd x0 s e v p x) v'"
      "port sd (joined sd x0 s e v p x) v' p' = Some e'"
    show "e' < n_edges (joined sd x0 s e v p x) \<and> target sd (joined sd x0 s e v p x) e' = Some (v', p')"
    proof (cases "v' = v \<and> p' = p")
      case True
      with a(3) have "e' = e" by (simp add: P)
      with T [of e] True assms(3) show ?thesis by simp
    next
      case False
      with a have "e' < n_edges ?c \<and> target sd ?c e' = Some (v', p')" by (intro links_okD1 [OF c]) (auto simp: P split: if_splits)
      with none show ?thesis by (auto simp: T)
    qed
  next
    fix e' v' p' assume a: "e' < n_edges (joined sd x0 s e v p x)" "target sd (joined sd x0 s e v p x) e' = Some (v', p')"
    show "v' < n_vertices (joined sd x0 s e v p x) \<and> p' < n_ports sd (joined sd x0 s e v p x) v' \<and> port sd (joined sd x0 s e v p x) v' p' = Some e'"
    proof (cases "e' = e")
      case True
      with a(2) have "v' = v" "p' = p" by (simp_all add: T)
      with True P [of v p] assms(4,5) show ?thesis by simp
    next
      case False
      with a have t: "e' < n_edges ?c" "target sd ?c e' = Some (v', p')" by (simp_all add: T)
      from links_okD2 [OF c t] free show ?thesis by (auto simp: P)
    qed
  qed
next
  case False
  show ?thesis
    by (rule links_frame [OF links_cleared [OF assms(1,3,2), of x0]])
      (use False assms in \<open>simp_all add: joined_def port_put_port target_put_end\<close>)
qed

lemma joined_shape: "same_shape s (joined sd x0 s e v p x)"
  unfolding joined_def by (rule same_shape_trans [OF same_shape_trans [OF cleared_shape put_port_shape] put_end_shape])

subsection \<open>setSource and setSink\<close>

lemma disconnect_eq:
  assumes "links_ok sd s" "v < n_vertices s" "p < n_ports sd s v"
  shows "disconnect sd x0 s v p = Inr (case port sd s v p of None \<Rightarrow> s | Some e' \<Rightarrow> cleared sd x0 s e')"
proof (cases "port sd s v p")
  case None
  with assms show ?thesis by (simp add: disconnect_def disconnectEdge_eq put_port_again)
next
  case (Some e')
  note t = links_okD1 [OF assms Some]
  have "clearEnd sd x0 (put_port sd s v p None) e' = Inr (cleared sd x0 s e')"
    using t assms by (subst clearEnd_dangling) (auto simp: port_put_port cleared_def)
  with Some assms show ?thesis by (simp add: disconnect_def disconnectEdge_eq)
qed

lemma setEnd_None:
  assumes "links_ok sd s" "e < n_edges s"
  shows "setEnd sd x0 s e None size_max x0 = Inr (cleared sd x0 s e)"
proof (cases rule: target_cases [of sd s e])
  case 1
  with assms show ?thesis by (simp add: setEnd_def edge_at_def cleared_def put_end_def)
next
  case (2 w)
  note w = links_okD2 [OF assms 2(1)]
  have "disconnect sd x0 s w (port_of sd (st_edges s ! e)) = Inr (cleared sd x0 s e)"
    using disconnect_eq [OF assms(1)] w by simp
  moreover have "set_edge (cleared sd x0 s e) e (set_end sd None size_max x0 (st_edges (cleared sd x0 s e) ! e)) = cleared sd x0 s e"
    using put_end_twice [of e s] assms(2) 2 by (simp add: cleared_def put_end_twice flip: put_end_def)
  ultimately show ?thesis using 2 assms(2) by (simp add: setEnd_def edge_at_def)
qed

lemma put_port_put_end: "put_port sd (put_end sd' s e w q y) v p x = put_end sd' (put_port sd s v p x) e w q y"
  by (simp add: put_port_def put_end_def set_vertex_def set_edge_def)

lemma set_ports_twice [simp]: "set_ports sd a (set_ports sd b v) = set_ports sd a v"
  by (cases sd) simp_all

lemma put_port_swap:
  "(v, p) \<noteq> (w, q) \<Longrightarrow> put_port sd (put_port sd s v p x) w q y = put_port sd (put_port sd s w q y) v p x"
proof (cases "v = w")
  case False
  then show ?thesis by (simp add: put_port_def set_vertex_def list_update_swap)
next
  case True
  moreover assume "(v, p) \<noteq> (w, q)"
  ultimately show ?thesis
    by (cases "w < n_vertices s") (auto simp: put_port_def set_vertex_def list_update_swap list_update_beyond)
qed

lemma setEnd_Some:
  fixes s :: "'x store" and x0 :: 'x
  assumes ok: "links_ok sd s" and e: "e < n_edges s" and v: "v < n_vertices s" "ix < n_ports sd s v"
    and g: "same_graph s v (other_end sd (st_edges s ! e)) = Inr ()"
  defines "s1 \<equiv> (case port sd s v ix of None \<Rightarrow> s | Some e' \<Rightarrow> cleared sd x0 s e')"
  shows "setEnd sd x0 s e (Some v) ix x = Inr (joined sd x0 s1 e v ix x)"
    and "links_ok sd s1" and "port sd s1 v ix = None"
proof -
  have e': "e' < n_edges s \<and> target sd s e' = Some (v, ix)" if "port sd s v ix = Some e'" for e'
    using links_okD1 [OF ok v that] .
  show ok1: "links_ok sd s1"
    using e' ok by (auto simp: s1_def intro: links_cleared split: option.split)
  show free: "port sd s1 v ix = None"
    using e' by (auto simp: s1_def port_cleared [OF ok] split: option.split)
  have n: "n_vertices s1 = n_vertices s" "n_edges s1 = n_edges s" "n_ports sd s1 v = n_ports sd s v"
    by (simp_all add: s1_def split: option.split)
  let ?s2 = "put_port sd s1 v ix (Some e)"
  have 1: "bindE (disconnect sd x0 s v ix) (\<lambda>s1. connectEdge sd s1 v e ix) = Inr ?s2"
    using disconnect_eq [OF ok v, of x0] v n free by (simp add: connectEdge_eq flip: s1_def)
  have same: "st_edges ?s2 = st_edges s1" by (simp add: put_port_def set_vertex_def)
  show "setEnd sd x0 s e (Some v) ix x = Inr (joined sd x0 s1 e v ix x)"
  proof (cases rule: target_cases [of sd s1 e])
    case t: 1
    with 1 e g n show ?thesis
      by (simp add: setEnd_def edge_at_def same joined_def cleared_def put_port_put_end put_end_twice) (simp add: put_end_def same)
  next
    case t: (2 w)
    let ?p = "port_of sd (st_edges s1 ! e)"
    have "e < n_edges s1" using e n by simp
    note w = links_okD2 [OF ok1 this t(1)]
    have ne: "(w, ?p) \<noteq> (v, ix)" using w free by auto
    have "disconnect sd x0 ?s2 w ?p = clearEnd sd x0 (put_port sd ?s2 w ?p None) e"
      using w ne v n by (auto simp: disconnect_def disconnectEdge_eq port_put_port)
    also have "\<dots> = Inr (put_end sd (put_port sd ?s2 w ?p None) e None size_max x0)"
      using w ne v n t e by (subst clearEnd_dangling) (auto simp: port_put_port)
    finally have d: "disconnect sd x0 ?s2 w ?p = Inr (put_end sd (put_port sd ?s2 w ?p None) e None size_max x0)" .
    have "joined sd x0 s1 e v ix x = put_end sd (put_end sd (put_port sd ?s2 w ?p None) e None size_max x0) e (Some v) ix x"
      using t ne by (simp add: joined_def cleared_def put_port_put_end put_port_swap)
    with d 1 e g n t show ?thesis by (simp add: setEnd_def edge_at_def same) (simp add: put_end_def)
  qed
qed

text \<open>The update of the map from edges to ports that \<open>setSource\<close> and \<open>setSink\<close> stand for.\<close>

definition relink :: "nat \<Rightarrow> nat \<times> nat \<Rightarrow> (nat \<Rightarrow> (nat \<times> nat) option) \<Rightarrow> nat \<Rightarrow> (nat \<times> nat) option" where
  "relink e t m = (\<lambda>e'. if e' = e then Some t else if m e' = Some t then None else m e')"

lemma setEnd_refines:
  assumes ok: "links_ok sd s" "links_ok sd' s" and e: "e < n_edges s" and v: "v < n_vertices s" "ix < n_ports sd s v"
    and g: "same_graph s v (other_end sd (st_edges s ! e)) = Inr ()"
  shows "\<exists>s'. setEnd sd x0 s e (Some v) ix x = Inr s' \<and> same_shape s s' \<and> links_ok sd' s' \<and>
    (\<forall>e' < n_edges s. target sd' s' e' = (if sd' = sd then relink e (v, ix) (target sd s) e' else target sd' s e'))"
proof -
  define s1 where "s1 = (case port sd s v ix of None \<Rightarrow> s | Some e' \<Rightarrow> cleared sd x0 s e')"
  note S = setEnd_Some(1) [OF ok(1) e v g, where ?x0.0 = x0 and x = x, folded s1_def]
    setEnd_Some(2,3) [OF ok(1) e v g, where ?x0.0 = x0, folded s1_def]
  have e': "e' < n_edges s \<and> target sd s e' = Some (v, ix)" if "port sd s v ix = Some e'" for e'
    using links_okD1 [OF ok(1) v that] .
  have n: "n_vertices s1 = n_vertices s" "n_edges s1 = n_edges s" "n_ports sd s1 v = n_ports sd s v"
    by (simp_all add: s1_def split: option.split)
  have ok1: "links_ok sd' s1" using e' ok by (auto simp: s1_def intro: links_cleared split: option.split)
  have sh: "same_shape s s1" by (simp add: s1_def cleared_shape split: option.split)
  have t1: "target sd' s1 e'' = (if sd' = sd \<and> target sd s e'' = Some (v, ix) then None else target sd' s e'')" if "e'' < n_edges s" for e''
    using e' links_okD2 [OF ok(1) that] by (cases "port sd s v ix") (auto simp: s1_def target_cleared)
  have t: "target sd' (joined sd x0 s1 e v ix x) e'' = (if sd' = sd \<and> e'' = e then Some (v, ix) else target sd' s1 e'')" for e''
    using e n by (simp add: joined_def target_put_end target_cleared)
  have "links_ok sd' (joined sd x0 s1 e v ix x)" using S n e v ok1 by (intro links_joined) auto
  moreover have "same_shape s (joined sd x0 s1 e v ix x)" by (rule same_shape_trans [OF sh joined_shape])
  moreover have "\<forall>e' < n_edges s. target sd' (joined sd x0 s1 e v ix x) e' =
      (if sd' = sd then relink e (v, ix) (target sd s) e' else target sd' s e')"
  proof (intro allI impI)
    fix e'' assume "e'' < n_edges s"
    note q = t1 [OF this] t [of e'']
    show "target sd' (joined sd x0 s1 e v ix x) e'' = (if sd' = sd then relink e (v, ix) (target sd s) e'' else target sd' s e'')"
      unfolding q relink_def by simp
  qed
  ultimately show ?thesis using S(1) by blast
qed

end
