(* ===== verification/PisdfStoreProps.thy ===== *)
theory PisdfStoreProps
  imports PisdfLinks
begin

text \<open>
  The invariant of a mutable graph, \<open>store_ok\<close>: the port arrays and the ends of the edges agree, and every vertex and
  every edge of a graph knows its index. The properties say that building, connecting and removing keep it, and what
  they change; two operations on graphs that break it or fail are shown on concrete stores.
\<close>

definition index_ok :: "'x store \<Rightarrow> nat \<Rightarrow> bool" where
  "index_ok s g \<longleftrightarrow> g < length (st_graphs s) \<and>
     (let gr = st_graphs s ! g in
      (\<forall>i < length (gr_vertices gr). gr_vertices gr ! i < n_vertices s \<and> vx_ix (st_vertices s ! (gr_vertices gr ! i)) = i) \<and>
      (\<forall>i < length (gr_edges gr). gr_edges gr ! i < n_edges s \<and> ed_ix (st_edges s ! (gr_edges gr ! i)) = i))"

definition store_ok :: "'x store \<Rightarrow> nat \<Rightarrow> bool" where
  "store_ok s g \<longleftrightarrow> (\<forall>sd. links_ok sd s) \<and> index_ok s g"

lemma index_ok_distinct:
  assumes "index_ok s g"
  shows "distinct (gr_vertices (st_graphs s ! g))" "distinct (gr_edges (st_graphs s ! g))"
  using assms by (auto simp: index_ok_def Let_def distinct_conv_nth) metis+

lemma index_ok_shape:
  assumes "index_ok s g" "same_shape s s'"
  shows "index_ok s' g"
  using assms by (simp add: index_ok_def same_shape_def Let_def)

subsection \<open>Clearing all the ports of a vertex\<close>

definition freed :: "side \<Rightarrow> nat \<Rightarrow> nat \<Rightarrow> 'x store \<Rightarrow> 'x store \<Rightarrow> bool" where
  "freed sd v k s s' \<longleftrightarrow> same_shape s s' \<and> (\<forall>sd'. links_ok sd' s') \<and>
     (\<forall>sd'. \<forall>e < n_edges s. target sd' s' e =
        (if sd' = sd \<and> (\<exists>p < k. target sd s e = Some (v, p)) then None else target sd' s e))"

lemma freed_step:
  assumes f: "freed sd v k s s'" and v: "v < n_vertices s" "k < n_ports sd s v"
  shows "\<exists>s''. clear_port sd x0 v s' k = Inr s'' \<and> freed sd v (Suc k) s s''"
proof -
  have sh: "same_shape s s'" and ok: "\<And>sd'. links_ok sd' s'" using f by (auto simp: freed_def)
  have t: "target sd' s' e = (if sd' = sd \<and> (\<exists>p < k. target sd s e = Some (v, p)) then None else target sd' s e)"
    if "e < n_edges s" for sd' e using f that by (auto simp: freed_def)
  have n: "n_vertices s' = n_vertices s" "n_edges s' = n_edges s" "n_ports sd s' v = n_ports sd s v"
    using sh v by (auto simp: same_shape_def)
  show ?thesis
  proof (cases "port sd s' v k")
    case None
    have "target sd s e \<noteq> Some (v, k)" if "e < n_edges s" for e
      using links_okD2 [OF ok, of e sd v k] None t [OF that, of sd] n that by auto
    with t have "freed sd v (Suc k) s s'" using sh ok by (simp add: freed_def less_Suc_eq) metis
    with None n v show ?thesis
      by (simp add: clear_port_def vertex_at_def n_ports_def port_def)
  next
    case (Some e)
    have e: "e < n_edges s'" "target sd s' e = Some (v, k)" using links_okD1 [OF ok _ _ Some] n v by auto
    have "clear_port sd x0 v s' k = Inr (cleared sd x0 s' e)"
      using Some n v setEnd_None [OF ok e(1), where ?x0.0 = x0] by (simp add: clear_port_def vertex_at_def n_ports_def port_def)
    moreover have "freed sd v (Suc k) s (cleared sd x0 s' e)"
      unfolding freed_def
    proof (intro conjI allI impI)
      show "same_shape s (cleared sd x0 s' e)" by (rule same_shape_trans [OF sh cleared_shape])
      show "links_ok sd' (cleared sd x0 s' e)" for sd' by (rule links_cleared [OF ok e(1) ok])
      fix sd' e' assume e': "e' < n_edges s"
      show "target sd' (cleared sd x0 s' e) e' = (if sd' = sd \<and> (\<exists>p < Suc k. target sd s e' = Some (v, p)) then None else target sd' s e')"
      proof (cases "sd' = sd")
        case True
        have "target sd s e' = Some (v, k) \<longleftrightarrow> e' = e"
        proof
          assume a: "target sd s e' = Some (v, k)"
          then have "target sd s' e' = Some (v, k)" using t [OF e', of sd] by auto
          with links_okD2 [OF ok, of e' sd v k] Some e' n show "e' = e" by auto
        next
          assume "e' = e"
          with e(2) t [OF e', of sd] show "target sd s e' = Some (v, k)" by (auto split: if_splits)
        qed
        with True t [OF e', of sd] show ?thesis by (auto simp: target_cleared [OF e(1)] less_Suc_eq)
      qed (use t [OF e', of sd'] in \<open>simp add: target_cleared [OF e(1)]\<close>)
    qed
    ultimately show ?thesis by blast
  qed
qed

lemma clear_ports_freed:
  assumes ok: "\<And>sd'. links_ok sd' s" and v: "v < n_vertices s"
  shows "\<exists>s'. clear_ports sd x0 s v = Inr s' \<and> freed sd v (n_ports sd s v) s s'"
proof -
  have "\<exists>s'. foldE (clear_port sd x0 v) s [0..<k] = Inr s' \<and> freed sd v k s s'" if "k \<le> n_ports sd s v" for k
    using that
  proof (induction k)
    case 0
    then show ?case using ok by (simp add: freed_def)
  next
    case (Suc k)
    then obtain s1 where s1: "foldE (clear_port sd x0 v) s [0..<k] = Inr s1" "freed sd v k s s1" by auto
    from freed_step [OF s1(2) v] Suc.prems obtain s2 where "clear_port sd x0 v s1 k = Inr s2" "freed sd v (Suc k) s s2"
      by (meson Suc_le_lessD)
    with s1(1) show ?case by (simp add: foldE_append)
  qed
  from this [of "n_ports sd s v"] v show ?thesis by (simp add: clear_ports_def vertex_at_def n_ports_def)
qed

lemma freed_none:
  assumes "freed sd v (n_ports sd s v) s s'" "e < n_edges s" "links_ok sd s"
  shows "target sd s' e \<noteq> Some (v, p)"
  using assms links_okD2 [OF assms(3,2)] by (auto simp: freed_def split: if_splits)

subsection \<open>Leaving the index\<close>

lemma set_out_of_order_erase:
  assumes "distinct xs" "i < length xs"
  shows "set (out_of_order_erase xs i) = set xs - {xs ! i}"
proof
  show "set (out_of_order_erase xs i) \<subseteq> set xs - {xs ! i}"
  proof
    fix x assume "x \<in> set (out_of_order_erase xs i)"
    then obtain j where j: "j < length xs - 1" "x = out_of_order_erase xs i ! j" by (auto simp: in_set_conv_nth)
    show "x \<in> set xs - {xs ! i}"
    proof (cases "j = i")
      case True
      with j have "x = xs ! (length xs - 1)" by (simp add: nth_out_of_order_erase last_conv_nth flip: length_greater_0_conv)
      with assms True j(1) show ?thesis by (auto simp: nth_eq_iff_index_eq)
    next
      case False
      with j assms show ?thesis by (auto simp: nth_out_of_order_erase nth_eq_iff_index_eq)
    qed
  qed
  show "set xs - {xs ! i} \<subseteq> set (out_of_order_erase xs i)"
  proof
    fix x assume x: "x \<in> set xs - {xs ! i}"
    then obtain j where j: "j < length xs" "x = xs ! j" "j \<noteq> i" by (auto simp: in_set_conv_nth)
    have ne: "xs \<noteq> []" using assms by auto
    show "x \<in> set (out_of_order_erase xs i)"
    proof (cases "j < length xs - 1")
      case True
      with j show ?thesis unfolding in_set_conv_nth by (intro exI [of _ j]) (simp add: nth_out_of_order_erase)
    next
      case False
      with j have "j = length xs - 1" by linarith
      with j ne assms have "x = last xs" "i < length xs - 1" by (auto simp: last_conv_nth)
      then show ?thesis unfolding in_set_conv_nth by (intro exI [of _ i]) (simp add: nth_out_of_order_erase)
    qed
  qed
qed

lemma swapVertex_ok:
  assumes ok: "store_ok s g" and i: "i < length (gr_vertices (st_graphs s ! g))" "v = gr_vertices (st_graphs s ! g) ! i"
  shows "\<exists>s'. swapVertex s g v = Inr s' \<and> store_ok s' g \<and>
    set (gr_vertices (st_graphs s' ! g)) = set (gr_vertices (st_graphs s ! g)) - {v} \<and>
    st_edges s' = st_edges s \<and> n_vertices s' = n_vertices s \<and>
    st_graphs s' = (st_graphs s)[g := (st_graphs s ! g)\<lparr>gr_vertices := gr_vertices (st_graphs s' ! g)\<rparr>]"
proof -
  let ?gr = "st_graphs s ! g" let ?l = "last (gr_vertices ?gr)"
  let ?s' = "set_graph (set_vertex s ?l ((st_vertices s ! ?l)\<lparr>vx_ix := i\<rparr>)) g (?gr\<lparr>gr_vertices := out_of_order_erase (gr_vertices ?gr) i\<rparr>)"
  have ix: "index_ok s g" and links: "\<And>sd. links_ok sd s" using ok by (auto simp: store_ok_def)
  have g: "g < length (st_graphs s)"
    and vs: "\<And>j. j < length (gr_vertices ?gr) \<Longrightarrow> gr_vertices ?gr ! j < n_vertices s \<and> vx_ix (st_vertices s ! (gr_vertices ?gr ! j)) = j"
    and es: "\<And>j. j < length (gr_edges ?gr) \<Longrightarrow> gr_edges ?gr ! j < n_edges s \<and> ed_ix (st_edges s ! (gr_edges ?gr ! j)) = j"
    using ix by (auto simp: index_ok_def Let_def)
  have ne: "gr_vertices ?gr \<noteq> []" using i by auto
  have l: "?l = gr_vertices ?gr ! (length (gr_vertices ?gr) - 1)" using ne by (rule last_conv_nth)
  have lv: "?l < n_vertices s" using vs [of "length (gr_vertices ?gr) - 1"] ne l by simp
  have run: "swapVertex s g v = Inr ?s'"
    using vs [OF i(1)] i ne g lv by (simp add: swapVertex_def vertex_at_def graph_at_def)
  have pp: "ports sd (st_vertices ?s' ! w) = ports sd (st_vertices s ! w)" for sd w
    using lv by (cases sd; cases "w = ?l") (simp_all add: set_graph_def set_vertex_def)
  have "links_ok sd ?s'" for sd
    by (rule links_frame [OF links])
       (use pp in \<open>auto simp: n_ports_def port_def target_def\<close>, simp_all add: set_graph_def set_vertex_def)
  moreover have "index_ok ?s' g"
  proof -
    have "gr_vertices (st_graphs ?s' ! g) ! j < n_vertices ?s' \<and> vx_ix (st_vertices ?s' ! (gr_vertices (st_graphs ?s' ! g) ! j)) = j"
      if "j < length (gr_vertices (st_graphs ?s' ! g))" for j
    proof -
      from that g have j: "j < length (gr_vertices ?gr) - 1" by (simp add: set_graph_def set_vertex_def)
      show ?thesis
      proof (cases "j = i")
        case True
        with j g lv show ?thesis by (simp add: set_graph_def set_vertex_def nth_out_of_order_erase)
      next
        case False
        have "gr_vertices ?gr ! j \<noteq> ?l"
        proof
          assume "gr_vertices ?gr ! j = ?l"
          then have "vx_ix (st_vertices s ! (gr_vertices ?gr ! j)) = vx_ix (st_vertices s ! (gr_vertices ?gr ! (length (gr_vertices ?gr) - 1)))"
            unfolding l by simp
          moreover have "vx_ix (st_vertices s ! (gr_vertices ?gr ! j)) = j" using vs [of j] j by linarith
          moreover have "vx_ix (st_vertices s ! (gr_vertices ?gr ! (length (gr_vertices ?gr) - 1))) = length (gr_vertices ?gr) - 1"
            using vs [of "length (gr_vertices ?gr) - 1"] ne by simp
          ultimately show False using j by linarith
        qed
        with False j g vs [of j] show ?thesis by (simp add: set_graph_def set_vertex_def nth_out_of_order_erase)
      qed
    qed
    with es g show ?thesis by (simp add: index_ok_def Let_def) (simp add: set_graph_def set_vertex_def)
  qed
  ultimately have "store_ok ?s' g" by (simp add: store_ok_def)
  moreover have "set (gr_vertices (st_graphs ?s' ! g)) = set (gr_vertices ?gr) - {v}"
    using g i set_out_of_order_erase [OF index_ok_distinct(1) [OF ix]] by (simp add: set_graph_def set_vertex_def)
  ultimately show ?thesis using run g by (intro exI [of _ ?s']) (simp add: set_graph_def set_vertex_def)
qed


subsection \<open>The configuration vertices\<close>

lemma removeConfig_eq:
  assumes "g < length (st_graphs s)"
  shows "\<exists>c. removeConfig s g v = Inr (s\<lparr>st_graphs := (st_graphs s)[g := (st_graphs s ! g)\<lparr>gr_configs := c\<rparr>]\<rparr>) \<and>
     (distinct (gr_configs (st_graphs s ! g)) \<longrightarrow> set c = set (gr_configs (st_graphs s ! g)) - {v})"
proof -
  let ?cs = "gr_configs (st_graphs s ! g)"
  show ?thesis
  proof (cases "List.find (\<lambda>i. ?cs ! i = v) [0..<length ?cs]")
    case None
    then have "v \<notin> set ?cs" by (auto simp: find_None_iff in_set_conv_nth)
    with None assms show ?thesis by (intro exI [of _ ?cs]) (auto simp: removeConfig_def graph_at_def)
  next
    case (Some i)
    then have "i < length ?cs" "?cs ! i = v" by (auto simp: find_Some_iff)
    with Some assms show ?thesis
      by (intro exI [of _ "out_of_order_erase ?cs i"])
         (auto simp: removeConfig_def graph_at_def set_graph_def set_out_of_order_erase)
  qed
qed

lemma links_graphs [simp]: "links_ok sd (s\<lparr>st_graphs := gs\<rparr>) = links_ok sd s"
  by (simp add: links_ok_def n_ports_def port_def target_def)

lemma target_graphs [simp]: "target sd (s\<lparr>st_graphs := gs\<rparr>) e = target sd s e"
  by (simp add: target_def)

text \<open>\<open>removeVertex\<close> on a vertex that is no subgraph.\<close>

lemma leave_viewers_ok:
  assumes ok: "store_ok s g" and v: "v < n_vertices s" "vx_type (st_vertices s ! v) \<noteq> GRAPH"
    and d: "distinct (gr_configs (st_graphs s ! g))" "v \<in> set (gr_configs (st_graphs s ! g)) \<longrightarrow> vx_type (st_vertices s ! v) = CONFIG"
  shows "\<exists>c. leave_viewers s g v = Inr (s\<lparr>st_graphs := (st_graphs s)[g := (st_graphs s ! g)\<lparr>gr_configs := c\<rparr>]\<rparr>) \<and>
     set c = set (gr_configs (st_graphs s ! g)) - {v}"
proof (cases "vx_type (st_vertices s ! v) = CONFIG")
  case True
  have "g < length (st_graphs s)" using ok by (simp add: store_ok_def index_ok_def)
  from removeConfig_eq [OF this, of v] d True v show ?thesis by (auto simp: leave_viewers_def vertex_at_def)
next
  case False
  with v d show ?thesis by (intro exI [of _ "gr_configs (st_graphs s ! g)"]) (auto simp: leave_viewers_def vertex_at_def)
qed

lemma store_ok_configs:
  assumes "store_ok s g"
  shows "store_ok (s\<lparr>st_graphs := (st_graphs s)[g := (st_graphs s ! g)\<lparr>gr_configs := c\<rparr>]\<rparr>) g"
  using assms by (simp add: store_ok_def index_ok_def Let_def)

lemma store_ok_shape: "store_ok s g \<Longrightarrow> same_shape s s' \<Longrightarrow> (\<And>sd. links_ok sd s') \<Longrightarrow> store_ok s' g"
  unfolding store_ok_def using index_ok_shape by blast

lemma n_ports_shape: "same_shape s s' \<Longrightarrow> v < n_vertices s \<Longrightarrow> n_ports sd s' v = n_ports sd s v"
  by (simp add: same_shape_def)

text \<open>The two loops of \<open>removeVertex\<close>: afterwards no edge is linked to the vertex, and nothing else has changed.\<close>

definition unlink :: "nat \<Rightarrow> (nat \<times> nat) option \<Rightarrow> (nat \<times> nat) option" where
  "unlink v t = (case t of None \<Rightarrow> None | Some (w, p) \<Rightarrow> if w = v then None else Some (w, p))"

lemma freed_unlink:
  assumes f: "freed sd v (n_ports sd s v) s s'" and ok: "\<And>sd. links_ok sd s" and e: "e < n_edges s"
  shows "target sd' s' e = (if sd' = sd then unlink v (target sd s e) else target sd' s e)"
  using f e links_okD2 [OF ok e, of sd]
  by (auto simp: freed_def unlink_def split: option.split)

lemma clear_both:
  assumes ok: "store_ok s g" and v: "v < n_vertices s"
  shows "\<exists>s2 s3. clear_ports Sink x0 s v = Inr s2 \<and> clear_ports Source x0 s2 v = Inr s3 \<and> same_shape s s3 \<and> store_ok s3 g \<and>
     (\<forall>sd. \<forall>e < n_edges s. target sd s3 e = unlink v (target sd s e))"
proof -
  have links: "links_ok sd s" for sd using ok by (simp add: store_ok_def)
  from clear_ports_freed [OF links v, of Sink x0] obtain s2 where
    s2: "clear_ports Sink x0 s v = Inr s2" "freed Sink v (n_ports Sink s v) s s2" by auto
  then have sh2: "same_shape s s2" and links2: "\<And>sd. links_ok sd s2" by (auto simp: freed_def)
  have n2: "n_vertices s2 = n_vertices s" "n_edges s2 = n_edges s" using sh2 by (simp_all add: same_shape_def)
  from clear_ports_freed [OF links2, of v Source x0] v n2 obtain s3 where
    s3: "clear_ports Source x0 s2 v = Inr s3" "freed Source v (n_ports Source s2 v) s2 s3" by auto
  then have sh3: "same_shape s2 s3" and links3: "\<And>sd. links_ok sd s3" by (auto simp: freed_def)
  have "target sd s3 e = unlink v (target sd s e)" if e: "e < n_edges s" for sd e
    using freed_unlink [OF s2(2) links e, of sd] freed_unlink [OF s3(2) links2, of e sd] e n2 by (cases sd) auto
  moreover have "same_shape s s3" by (rule same_shape_trans [OF sh2 sh3])
  ultimately show ?thesis using s2(1) s3(1) store_ok_shape [OF ok _ links3] by blast
qed

lemma removeVertex_ok:
  assumes ok: "store_ok s g" and v: "v \<in> set (gr_vertices (st_graphs s ! g))" "vx_type (st_vertices s ! v) \<noteq> GRAPH"
    and d: "distinct (gr_configs (st_graphs s ! g))" "v \<in> set (gr_configs (st_graphs s ! g)) \<longrightarrow> vx_type (st_vertices s ! v) = CONFIG"
  shows "\<exists>s'. removeVertex x0 s g v = Inr s' \<and> store_ok s' g \<and>
     set (gr_vertices (st_graphs s' ! g)) = set (gr_vertices (st_graphs s ! g)) - {v} \<and>
     set (gr_configs (st_graphs s' ! g)) = set (gr_configs (st_graphs s ! g)) - {v} \<and>
     gr_edges (st_graphs s' ! g) = gr_edges (st_graphs s ! g) \<and>
     (\<forall>sd. \<forall>e < n_edges s. target sd s' e = unlink v (target sd s e))"
proof -
  let ?gr = "st_graphs s ! g"
  from ok have ix: "index_ok s g" by (simp add: store_ok_def)
  from v(1) obtain i where i: "i < length (gr_vertices ?gr)" "v = gr_vertices ?gr ! i" by (auto simp: in_set_conv_nth)
  have vs: "v < n_vertices s" "vx_ix (st_vertices s ! v) = i" and g: "g < length (st_graphs s)"
    using ix i by (auto simp: index_ok_def Let_def)
  obtain c where c: "leave_viewers s g v = Inr (s\<lparr>st_graphs := (st_graphs s)[g := ?gr\<lparr>gr_configs := c\<rparr>]\<rparr>)"
      "set c = set (gr_configs ?gr) - {v}"
    using leave_viewers_ok [OF ok vs(1) v(2) d] by auto
  define s1 where "s1 = s\<lparr>st_graphs := (st_graphs s)[g := ?gr\<lparr>gr_configs := c\<rparr>]\<rparr>"
  have ok1: "store_ok s1 g" and n1: "n_vertices s1 = n_vertices s" "n_edges s1 = n_edges s" "st_vertices s1 = st_vertices s"
      "st_graphs s1 ! g = ?gr\<lparr>gr_configs := c\<rparr>" "g < length (st_graphs s1)"
    and t1: "\<And>sd e. target sd s1 e = target sd s e"
    using store_ok_configs [OF ok] g by (simp_all add: s1_def)
  obtain s2 s3 where s3: "clear_ports Sink x0 s1 v = Inr s2" "clear_ports Source x0 s2 v = Inr s3" "same_shape s1 s3" "store_ok s3 g"
      "\<And>sd e. e < n_edges s \<Longrightarrow> target sd s3 e = unlink v (target sd s e)"
    using clear_both [OF ok1, of v x0] vs(1) n1 t1 by auto
  have gr3: "st_graphs s3 = st_graphs s1" using s3(3) by (simp add: same_shape_def)
  obtain s' where s': "swapVertex s3 g v = Inr s'" "store_ok s' g"
      "set (gr_vertices (st_graphs s' ! g)) = set (gr_vertices (st_graphs s3 ! g)) - {v}" "st_edges s' = st_edges s3"
      "st_graphs s' = (st_graphs s3)[g := (st_graphs s3 ! g)\<lparr>gr_vertices := gr_vertices (st_graphs s' ! g)\<rparr>]"
    using swapVertex_ok [OF s3(4), of i v] i n1 gr3 by auto
  have g': "st_graphs s' ! g = ?gr\<lparr>gr_configs := c, gr_vertices := gr_vertices (st_graphs s' ! g)\<rparr>"
    using s'(5) gr3 n1 by (metis nth_list_update_eq)
  define vs' where "vs' = gr_vertices (st_graphs s' ! g)"
  have g2: "gr_configs (st_graphs s' ! g) = c" "gr_edges (st_graphs s' ! g) = gr_edges ?gr"
    using g' by (simp_all flip: vs'_def)
  have run: "removeVertex x0 s g v = Inr s'"
    using c(1) s3(1,2) s'(1) n1 vs i
    by (simp add: removeVertex_def vertex_at_def graph_at_def assertElement_def flip: s1_def)
  have "target sd s' e = target sd s3 e" for sd e using s'(4) by (simp add: target_def)
  with s3(5) have "\<forall>sd. \<forall>e < n_edges s. target sd s' e = unlink v (target sd s e)" by simp
  moreover have "set (gr_vertices (st_graphs s' ! g)) = set (gr_vertices ?gr) - {v}" using s'(3) gr3 n1(4) by simp
  ultimately show ?thesis using run s'(2) g2 c(2) by blast
qed

subsection \<open>Adding elements\<close>

lemma links_vertices:
  assumes "links_ok sd s" "v < n_vertices s" "\<And>sd'. ports sd' x = ports sd' (st_vertices s ! v)"
  shows "links_ok sd (set_vertex s v x)"
proof -
  have "ports sd' (st_vertices (set_vertex s v x) ! w) = ports sd' (st_vertices s ! w)" for sd' w
    using assms(2,3) by (cases "w = v") (simp_all add: set_vertex_def)
  then show ?thesis
    by (intro links_frame [OF assms(1)]) (auto simp: n_ports_def port_def target_def set_vertex_def)
qed

lemma links_set_graph [simp]: "links_ok sd (set_graph s g x) = links_ok sd s"
  by (simp add: set_graph_def)

lemma ports_ix_graph [simp]: "ports sd (v\<lparr>vx_ix := i, vx_graph := g\<rparr>) = ports sd v"
  by (cases sd) simp_all

lemma addVertex_ok:
  assumes ok: "store_ok s g" and v: "v < n_vertices s" "v \<notin> set (gr_vertices (st_graphs s ! g))" "vx_type (st_vertices s ! v) \<noteq> GRAPH"
  shows "\<exists>s'. addVertex s g v = Inr s' \<and> store_ok s' g \<and>
     gr_vertices (st_graphs s' ! g) = gr_vertices (st_graphs s ! g) @ [v] \<and> vx_graph (st_vertices s' ! v) = Some g \<and>
     gr_configs (st_graphs s' ! g) = gr_configs (st_graphs s ! g) @ (if vx_type (st_vertices s ! v) = CONFIG then [v] else []) \<and>
     st_edges s' = st_edges s"
proof -
  let ?gr = "st_graphs s ! g" let ?c = "gr_configs ?gr @ (if vx_type (st_vertices s ! v) = CONFIG then [v] else [])"
  let ?s' = "set_graph (set_vertex s v ((st_vertices s ! v)\<lparr>vx_ix := length (gr_vertices ?gr), vx_graph := Some g\<rparr>)) g
    (?gr\<lparr>gr_vertices := gr_vertices ?gr @ [v], gr_configs := ?c\<rparr>)"
  have g: "g < length (st_graphs s)"
    and vs: "\<And>j. j < length (gr_vertices ?gr) \<Longrightarrow> gr_vertices ?gr ! j < n_vertices s \<and> vx_ix (st_vertices s ! (gr_vertices ?gr ! j)) = j"
    and es: "\<And>j. j < length (gr_edges ?gr) \<Longrightarrow> gr_edges ?gr ! j < n_edges s \<and> ed_ix (st_edges s ! (gr_edges ?gr ! j)) = j"
    and links: "\<And>sd. links_ok sd s"
    using ok by (auto simp: store_ok_def index_ok_def Let_def)
  have run: "addVertex s g v = Inr ?s'"
    using v g by (auto simp: addVertex_def vertex_at_def graph_at_def set_graph_def set_vertex_def)
  have "v \<noteq> gr_vertices ?gr ! j" if "j < length (gr_vertices ?gr)" for j using v(2) that by auto
  then have "index_ok ?s' g"
    using g v(1) vs es by (auto simp: index_ok_def Let_def set_graph_def set_vertex_def nth_append less_Suc_eq)
  moreover have "links_ok sd ?s'" for sd
    unfolding links_set_graph by (rule links_vertices [OF links v(1)]) simp
  ultimately have "store_ok ?s' g" by (simp add: store_ok_def)
  with run g v(1) show ?thesis by (intro exI [of _ ?s']) (simp add: set_graph_def set_vertex_def)
qed

text \<open>The constructor of an edge between two free ports, and its insertion.\<close>

lemma links_new_edge:
  assumes ok: "links_ok sd s" and n: "n_vertices s' = n_vertices s" "n_edges s' = Suc (n_edges s)" "\<And>v. n_ports sd s' v = n_ports sd s v"
    and p: "\<And>v p. port sd s' v p = (if (v, p) = t then Some (n_edges s) else port sd s v p)"
    and t: "\<And>e. e < n_edges s' \<Longrightarrow> target sd s' e = (if e = n_edges s then Some t else target sd s e)"
    and free: "fst t < n_vertices s" "snd t < n_ports sd s (fst t)" "port sd s (fst t) (snd t) = None"
  shows "links_ok sd s'"
proof (rule links_okI)
  fix v q e assume a: "v < n_vertices s'" "q < n_ports sd s' v" "port sd s' v q = Some e"
  show "e < n_edges s' \<and> target sd s' e = Some (v, q)"
  proof (cases "(v, q) = t")
    case False
    with a p have "e < n_edges s \<and> target sd s e = Some (v, q)" using n by (intro links_okD1 [OF ok]) auto
    with t [of e] n show ?thesis by simp
  qed (use a p t n in simp)
next
  fix e v q assume a: "e < n_edges s'" "target sd s' e = Some (v, q)"
  show "v < n_vertices s' \<and> q < n_ports sd s' v \<and> port sd s' v q = Some e"
  proof (cases "e = n_edges s")
    case True
    with a t [of e] have "t = (v, q)" by simp
    with free n p True show ?thesis by simp
  next
    case False
    with a t [of e] n have "e < n_edges s" "target sd s e = Some (v, q)" by auto
    from links_okD2 [OF ok this] free n p show ?thesis by auto
  qed
qed

lemma ports_edges [simp]:
  "n_ports sd (s\<lparr>st_edges := es\<rparr>) u = n_ports sd s u" "port sd (s\<lparr>st_edges := es\<rparr>) u p = port sd s u p"
  by (simp_all add: n_ports_def port_def)

lemma edge_new_ok:
  fixes s :: "'x store"
  assumes ok: "store_ok s g" and v: "v < n_vertices s" "i < n_ports Source s v" and w: "w < n_vertices s" "j < n_ports Sink s w"
    and gr: "vx_graph (st_vertices s ! v) = vx_graph (st_vertices s ! w)"
  shows "if port Source s v i = None \<and> port Sink s w j = None
    then \<exists>s'. edge_new s (Some v) i x (Some w) j y = Inr (s', n_edges s) \<and> store_ok s' g \<and> n_edges s' = Suc (n_edges s) \<and>
      st_graphs s' = st_graphs s \<and> target Source s' (n_edges s) = Some (v, i) \<and> target Sink s' (n_edges s) = Some (w, j) \<and>
      (\<forall>sd. \<forall>e < n_edges s. target sd s' e = target sd s e)
    else edge_new s (Some v) i x (Some w) j y = Inl Spider_Exception"
proof -
  let ?e = "n_edges s"
  let ?s0 = "s\<lparr>st_edges := st_edges s @ [\<lparr>ed_src = Some v, ed_srcPort = i, ed_srcExpr = x, ed_snk = Some w, ed_snkPort = j,
     ed_snkExpr = y, ed_delay = None, ed_ix = size_max\<rparr>]\<rparr>"
  let ?s' = "put_port Sink (put_port Source ?s0 v i (Some ?e)) w j (Some ?e)"
  have t0: "target sd ?s0 e = (if e = ?e then Some (if sd = Source then (v, i) else (w, j)) else target sd s e)" if "e < Suc ?e" for sd e
    using that by (cases sd) (auto simp: target_def nth_append)
  have run: "edge_new s (Some v) i x (Some w) j y =
      (if port Source s v i = None \<and> port Sink s w j = None then Inr (?s', ?e) else Inl Spider_Exception)"
    using v w gr by (auto simp: edge_new_def same_graph_def vertex_at_def Let_def connectEdge_eq port_put_port)
  show ?thesis
  proof (cases "port Source s v i = None \<and> port Sink s w j = None")
    case True
    have n': "n_vertices ?s' = n_vertices s" "n_edges ?s' = Suc ?e" "n_ports sd ?s' u = n_ports sd s u" for sd u by simp_all
    have p': "port sd ?s' u p = (if (u, p) = (if sd = Source then (v, i) else (w, j)) then Some ?e else port sd s u p)" for sd u p
      using v w by (cases sd) (simp_all add: port_put_port)
    have t': "target sd ?s' e = (if e = ?e then Some (if sd = Source then (v, i) else (w, j)) else target sd s e)" if "e < n_edges ?s'" for sd e
      using t0 [of e sd] that by simp
    have links: "links_ok sd s" for sd using ok by (simp add: store_ok_def)
    have "links_ok Source ?s'"
      by (rule links_new_edge [OF links n' p' t']) (simp_all only: if_True refl fst_conv snd_conv v True)
    moreover have "links_ok Sink ?s'"
      by (rule links_new_edge [OF links n' p' t']) (simp_all only: side.distinct if_False fst_conv snd_conv w True)
    ultimately have "links_ok sd ?s'" for sd by (cases sd) simp_all
    moreover have "index_ok ?s' g"
    proof -
      have "index_ok ?s0 g" using ok by (auto simp: store_ok_def index_ok_def Let_def nth_append)
      from index_ok_shape [OF this same_shape_trans [OF put_port_shape put_port_shape]] show ?thesis .
    qed
    ultimately have "store_ok ?s' g" by (simp add: store_ok_def)
    moreover have "st_graphs ?s' = st_graphs s" by (simp add: put_port_def set_vertex_def)
    moreover have "target Source ?s' ?e = Some (v, i)" using t' [of ?e Source] n'(2) by simp
    moreover have "target Sink ?s' ?e = Some (w, j)" using t' [of ?e Sink] n'(2) by simp
    moreover have "\<forall>sd. \<forall>e < n_edges s. target sd ?s' e = target sd s e"
    proof (intro allI impI)
      fix sd e assume "e < n_edges s"
      then show "target sd ?s' e = target sd s e" using t' [of e sd] n'(2) by (simp only:) simp
    qed
    moreover have "edge_new s (Some v) i x (Some w) j y = Inr (?s', ?e)" using run True by (simp only:) simp
    ultimately show ?thesis unfolding if_P [OF True] using n'(2) by blast
  qed (use run in auto)
qed

lemma addEdge_ok:
  assumes ok: "store_ok s g" and e: "e < n_edges s" "e \<notin> set (gr_edges (st_graphs s ! g))"
  shows "\<exists>s'. addEdge s g e = Inr s' \<and> store_ok s' g \<and> gr_edges (st_graphs s' ! g) = gr_edges (st_graphs s ! g) @ [e] \<and>
     st_vertices s' = st_vertices s \<and> n_edges s' = n_edges s \<and> (\<forall>sd e'. target sd s' e' = target sd s e')"
proof -
  let ?gr = "st_graphs s ! g"
  let ?s' = "set_graph (set_edge s e ((st_edges s ! e)\<lparr>ed_ix := length (gr_edges ?gr)\<rparr>)) g (?gr\<lparr>gr_edges := gr_edges ?gr @ [e]\<rparr>)"
  have g: "g < length (st_graphs s)"
    and vs: "\<And>j. j < length (gr_vertices ?gr) \<Longrightarrow> gr_vertices ?gr ! j < n_vertices s \<and> vx_ix (st_vertices s ! (gr_vertices ?gr ! j)) = j"
    and es: "\<And>j. j < length (gr_edges ?gr) \<Longrightarrow> gr_edges ?gr ! j < n_edges s \<and> ed_ix (st_edges s ! (gr_edges ?gr ! j)) = j"
    and links: "\<And>sd. links_ok sd s"
    using ok by (auto simp: store_ok_def index_ok_def Let_def)
  have run: "addEdge s g e = Inr ?s'" using e g by (simp add: addEdge_def edge_at_def graph_at_def)
  have t: "target sd ?s' e' = target sd s e'" for sd e'
    using e by (cases sd; cases "e' = e") (simp_all add: target_def set_graph_def set_edge_def)
  have "links_ok sd ?s'" for sd
    by (rule links_frame [OF links _ _ _ _ t]) (simp_all add: set_graph_def set_edge_def n_ports_def port_def)
  moreover have "e \<noteq> gr_edges ?gr ! j" if "j < length (gr_edges ?gr)" for j using e(2) that by auto
  then have "index_ok ?s' g"
    using g e(1) vs es by (auto simp: index_ok_def Let_def set_graph_def set_edge_def nth_append less_Suc_eq)
  ultimately have "store_ok ?s' g" by (simp add: store_ok_def)
  with run t g show ?thesis by (intro exI [of _ ?s']) (simp add: set_graph_def set_edge_def)
qed

subsection \<open>Parameters and subgraphs\<close>

definition params_ok :: "'x store \<Rightarrow> nat \<Rightarrow> bool" where
  "params_ok s g \<longleftrightarrow> g < length (st_graphs s) \<and>
     (\<forall>i < length (gr_params (st_graphs s ! g)). gr_params (st_graphs s ! g) ! i < length (st_params s) \<and>
        pr_ix (st_params s ! (gr_params (st_graphs s ! g) ! i)) = i)"

lemma removeParam_cases:
  assumes ok: "params_ok s g" and i: "i < length (gr_params (st_graphs s ! g))" "p = gr_params (st_graphs s ! g) ! i"
  shows "if Suc i = length (gr_params (st_graphs s ! g)) then removeParam s g p = Inl Undefined_Behaviour
    else \<exists>s'. removeParam s g p = Inr s' \<and> params_ok s' g \<and>
           set (gr_params (st_graphs s' ! g)) = set (gr_params (st_graphs s ! g)) - {p}"
proof -
  let ?gr = "st_graphs s ! g" let ?ps = "gr_params ?gr" let ?q = "last ?ps"
  have g: "g < length (st_graphs s)" and ps: "\<And>j. j < length ?ps \<Longrightarrow> ?ps ! j < length (st_params s) \<and> pr_ix (st_params s ! (?ps ! j)) = j"
    using ok by (auto simp: params_ok_def)
  have ne: "?ps \<noteq> []" using i by auto
  have d: "distinct ?ps" unfolding distinct_conv_nth using ps by metis
  have run: "removeParam s g p = bindE (get_at (out_of_order_erase ?ps i) i)
      (\<lambda>q. set_param_ix (set_graph s g (?gr\<lparr>gr_params := out_of_order_erase ?ps i\<rparr>)) q i)"
    using ps [OF i(1)] i g by (simp add: removeParam_def param_at_def graph_at_def Let_def)
  show ?thesis
  proof (cases "Suc i = length ?ps")
    case True
    then have "\<not> i < length ?ps - 1" by linarith
    with True show ?thesis using run by (simp add: get_at_def)
  next
    case False
    with i have lt: "i < length ?ps - 1" by linarith
    let ?s' = "(set_graph s g (?gr\<lparr>gr_params := out_of_order_erase ?ps i\<rparr>))\<lparr>st_params := (st_params s)[?q := (st_params s ! ?q)\<lparr>pr_ix := i\<rparr>]\<rparr>"
    have q: "?q = ?ps ! (length ?ps - 1)" "?q < length (st_params s)" "pr_ix (st_params s ! ?q) = length ?ps - 1"
      using last_conv_nth [OF ne] ps [of "length ?ps - 1"] ne by simp_all
    have "removeParam s g p = Inr ?s'"
      using run lt q by (simp add: nth_out_of_order_erase set_param_ix_def param_at_def) (simp add: set_graph_def)
    moreover have "params_ok ?s' g"
    proof -
      have "out_of_order_erase ?ps i ! j < length (st_params s) \<and> pr_ix ((st_params s)[?q := (st_params s ! ?q)\<lparr>pr_ix := i\<rparr>] ! (out_of_order_erase ?ps i ! j)) = j"
        if j: "j < length ?ps - 1" for j
      proof (cases "j = i")
        case True
        with j q show ?thesis by (simp add: nth_out_of_order_erase)
      next
        case False
        have "?ps ! j \<noteq> ?q" using d j unfolding q(1) by (simp add: nth_eq_iff_index_eq)
        with False j ps [of j] show ?thesis by (simp add: nth_out_of_order_erase)
      qed
      with g show ?thesis by (simp add: params_ok_def set_graph_def)
    qed
    moreover have "set (gr_params (st_graphs ?s' ! g)) = set ?ps - {p}"
      using g i set_out_of_order_erase [OF d i(1)] by (simp add: set_graph_def)
    ultimately show ?thesis using False by auto
  qed
qed

text \<open>\<open>moveVertex\<close> on a subgraph: \<open>addVertex\<close> has already replaced \<open>subIx_\<close> when \<open>removeSubgraph\<close> reads it.\<close>

lemma moveVertex_subgraph:
  assumes ok: "store_ok s g" and v: "v \<in> set (gr_vertices (st_graphs s ! g))" "vx_type (st_vertices s ! v) = GRAPH"
    and g': "g' < length (st_graphs s)" "g' \<noteq> g" "sub < length (st_graphs s)" "sub \<noteq> g" "sub \<noteq> g'"
    and sub: "vx_asGraph (st_vertices s ! v) = sub" "gr_subgraphs (st_graphs s ! g) \<noteq> []"
      "\<forall>x \<in> set (gr_subgraphs (st_graphs s ! g)). x < length (st_graphs s) \<and> x \<noteq> g"
  shows "if length (gr_subgraphs (st_graphs s ! g)) \<le> length (gr_subgraphs (st_graphs s ! g'))
    then moveVertex s g v (Some g') = Inl Undefined_Behaviour
    else \<exists>s'. moveVertex s g v (Some g') = Inr s' \<and> gr_subgraphs (st_graphs s' ! g) =
           out_of_order_erase (gr_subgraphs (st_graphs s ! g)) (length (gr_subgraphs (st_graphs s ! g')))"
proof -
  let ?gr = "st_graphs s ! g" let ?subs = "gr_subgraphs ?gr" let ?n = "length (gr_subgraphs (st_graphs s ! g'))"
  from ok have ix: "index_ok s g" by (simp add: store_ok_def)
  from v(1) obtain i where i: "i < length (gr_vertices ?gr)" "v = gr_vertices ?gr ! i" by (auto simp: in_set_conv_nth)
  have vs: "v < n_vertices s" "vx_ix (st_vertices s ! v) = i" and g: "g < length (st_graphs s)"
    using ix i by (auto simp: index_ok_def Let_def)
  let ?l = "last (gr_vertices ?gr)"
  have "?l \<in> set (gr_vertices ?gr)" using i by (intro last_in_set) auto
  then have l: "?l < n_vertices s" using ix by (auto simp: index_ok_def Let_def in_set_conv_nth)
  define s1 where "s1 = set_graph (set_vertex s ?l ((st_vertices s ! ?l)\<lparr>vx_ix := i\<rparr>)) g (?gr\<lparr>gr_vertices := out_of_order_erase (gr_vertices ?gr) i\<rparr>)"
  have s1: "swapVertex s g v = Inr s1" using vs i l g by (auto simp: swapVertex_def vertex_at_def graph_at_def s1_def)
  have k1: "length (st_graphs s1) = length (st_graphs s)" "n_vertices s1 = n_vertices s" "vx_type (st_vertices s1 ! v) = GRAPH"
      "vx_asGraph (st_vertices s1 ! v) = sub" "gr_subgraphs (st_graphs s1 ! g) = ?subs" "st_graphs s1 ! g' = st_graphs s ! g'"
    using v sub l g g' vs by (auto simp: s1_def set_graph_def set_vertex_def nth_list_update)
  obtain s2 where s2: "addVertex s1 g' v = Inr s2" "gr_subIx (st_graphs s2 ! sub) = ?n" "length (st_graphs s2) = length (st_graphs s)"
      "n_vertices s2 = n_vertices s" "vx_type (st_vertices s2 ! v) = GRAPH" "vx_asGraph (st_vertices s2 ! v) = sub"
      "gr_subgraphs (st_graphs s2 ! g) = ?subs"
    using k1 g g' vs
    by (auto simp: addVertex_def addSubgraph_def vertex_at_def graph_at_def set_graph_def set_vertex_def Let_def)
  have lg: "last ?subs < length (st_graphs s)" "last ?subs \<noteq> g" using sub(2,3) by auto
  have run: "moveVertex s g v (Some g') = removeSubgraph s2 g sub"
    using g' g vs i s1 s2 by (simp add: moveVertex_def vertex_at_def graph_at_def assertElement_def leave_viewers_def)
  show ?thesis
    unfolding run using s2 sub(2) lg g g' by (auto simp: removeSubgraph_def graph_at_def Let_def set_at_def out_of_order_erase_def set_graph_def)
qed

subsection \<open>The properties\<close>

text \<open>
  The store of the witnesses: graph 0 holds \<open>A\<close> (vertex 0, one output), \<open>B\<close> (vertex 1, one input), \<open>C\<close> (vertex 2, one
  output) and the edge 0 from \<open>A\<close> to \<open>B\<close>; graph 1 is a subgraph of graph 0 (vertex 3), graph 2 another graph that holds graph 3.
\<close>

definition demo_vertex :: "vertex_type \<Rightarrow> nat option list \<Rightarrow> nat option list \<Rightarrow> nat \<Rightarrow> nat \<Rightarrow> nat \<Rightarrow> vertex" where
  "demo_vertex t ins outs g i sub = \<lparr>vx_type = t, vx_in = ins, vx_out = outs, vx_graph = Some g, vx_ix = i, vx_rv = 1,
     vx_inParams = [], vx_outParams = [], vx_refinementParams = [], vx_asGraph = sub\<rparr>"

definition demo_graph :: "nat list \<Rightarrow> nat list \<Rightarrow> nat list \<Rightarrow> nat list \<Rightarrow> nat \<Rightarrow> graph" where
  "demo_graph vs es subs ps i = \<lparr>gr_vertices = vs, gr_edges = es, gr_configs = [], gr_subgraphs = subs, gr_params = ps,
     gr_inputs = [], gr_outputs = [], gr_vertex = 4, gr_subIx = i\<rparr>"

definition demo_store :: "nat store" where
  "demo_store = \<lparr>st_vertices = [demo_vertex NORMAL [] [Some 0] 0 0 0, demo_vertex NORMAL [Some 0] [] 0 1 0, demo_vertex NORMAL [] [None] 0 2 0,
      demo_vertex GRAPH [None] [] 0 3 1],
    st_edges = [\<lparr>ed_src = Some 0, ed_srcPort = 0, ed_srcExpr = 2, ed_snk = Some 1, ed_snkPort = 0, ed_snkExpr = 3, ed_delay = None, ed_ix = 0\<rparr>],
    st_graphs = [demo_graph [0, 1, 2, 3] [0] [1] [0, 1] 0, demo_graph [] [] [] [] 0, demo_graph [] [] [3] [] 0, demo_graph [] [] [] [] 0],
    st_params = [\<lparr>pr_name = ''a'', pr_type = STATIC, pr_ix = 0\<rparr>, \<lparr>pr_name = ''b'', pr_type = DYNAMIC, pr_ix = 1\<rparr>],
    st_delays = []\<rparr>"

lemmas demo_defs = demo_store_def demo_vertex_def demo_graph_def

lemma demo_links: "links_ok sd demo_store"
  by (cases sd) (auto simp: links_ok_def n_ports_def port_def target_def demo_defs nth_Cons' numeral_eq_Suc less_Suc_eq split: if_splits)

lemma demo_ok: "store_ok demo_store 0"
  using demo_links by (auto simp: store_ok_def index_ok_def Let_def demo_defs less_Suc_eq numeral_eq_Suc)

text \<open>
  C18. \<open>Edge::setSource\<close> and \<open>Edge::setSink\<close> on well linked objects: connecting an edge to a port of the same graph succeeds
  and amounts to one update of the map from edges to ports. The edge that was there, if any, loses that end, the other
  side of every edge and the shape of the graph are untouched, and the port arrays stay the inverse of the edges' ends.
\<close>

theorem edge_set_end_correct:
  assumes "\<forall>sd. links_ok sd s" "e < n_edges s" "v < n_vertices s" "ix < n_ports sd s v"
    and "same_graph s v (other_end sd (st_edges s ! e)) = Inr ()"
  shows "\<exists>s'. setEnd sd x0 s e (Some v) ix x = Inr s' \<and> same_shape s s' \<and> (\<forall>sd'. links_ok sd' s') \<and>
    (\<forall>e' < n_edges s. \<forall>sd'. target sd' s' e' = (if sd' = sd then relink e (v, ix) (target sd s) e' else target sd' s e'))"
proof -
  have links: "links_ok sd' s" for sd' using assms(1) by simp
  note R = setEnd_refines [OF links links assms(2-5), where ?x0.0 = x0 and x = x]
  from R [of sd] obtain s' where s': "setEnd sd x0 s e (Some v) ix x = Inr s'" by blast
  from R s' show ?thesis by auto
qed

text \<open>The witness moves the source of the edge from \<open>A\<close> to \<open>C\<close>.\<close>

lemma edge_set_end_correct_witness:
  "\<exists>s'. setEnd Source 0 demo_store 0 (Some 2) 0 7 = Inr s' \<and> same_shape demo_store s' \<and> (\<forall>sd'. links_ok sd' s') \<and>
    (\<forall>e' < n_edges demo_store. \<forall>sd'. target sd' s' e' =
       (if sd' = Source then relink 0 (2, 0) (target Source demo_store) e' else target sd' demo_store e'))"
  by (rule edge_set_end_correct)
     (simp_all add: demo_links, simp_all add: demo_defs n_ports_def same_graph_def vertex_at_def)

text \<open>
  C28. Building a connection, \<open>Edge\<close>'s constructor followed by \<open>Graph::addEdge\<close>: between two existing ports of vertices of the
  same graph it succeeds exactly when both ports are free; then the graph owns the new edge, the edge has the two ends asked
  for, every other edge keeps its ends, and the invariant of the graph (links and indices) is kept. Otherwise it throws.
\<close>

theorem graph_connect_correct:
  assumes "store_ok s g" "v < n_vertices s" "i < n_ports Source s v" "w < n_vertices s" "j < n_ports Sink s w"
    and "vx_graph (st_vertices s ! v) = vx_graph (st_vertices s ! w)"
  shows "if port Source s v i = None \<and> port Sink s w j = None
    then \<exists>s1 s2. edge_new s (Some v) i x (Some w) j y = Inr (s1, n_edges s) \<and> addEdge s1 g (n_edges s) = Inr s2 \<and> store_ok s2 g \<and>
      gr_edges (st_graphs s2 ! g) = gr_edges (st_graphs s ! g) @ [n_edges s] \<and>
      target Source s2 (n_edges s) = Some (v, i) \<and> target Sink s2 (n_edges s) = Some (w, j) \<and>
      (\<forall>sd. \<forall>e < n_edges s. target sd s2 e = target sd s e)
    else edge_new s (Some v) i x (Some w) j y = Inl Spider_Exception"
proof (cases "port Source s v i = None \<and> port Sink s w j = None")
  case True
  with edge_new_ok [OF assms, of x y] obtain s1 where s1: "edge_new s (Some v) i x (Some w) j y = Inr (s1, n_edges s)" "store_ok s1 g"
      "n_edges s1 = Suc (n_edges s)" "st_graphs s1 = st_graphs s" "target Source s1 (n_edges s) = Some (v, i)" "target Sink s1 (n_edges s) = Some (w, j)"
      "\<forall>sd. \<forall>e < n_edges s. target sd s1 e = target sd s e" by auto
  have "n_edges s \<notin> set (gr_edges (st_graphs s1 ! g))"
    using assms(1) s1(4) by (fastforce simp: store_ok_def index_ok_def Let_def in_set_conv_nth)
  with addEdge_ok [OF s1(2), of "n_edges s"] s1 True show ?thesis by auto
qed (use edge_new_ok [OF assms, of x y] in auto)

lemma graph_connect_correct_witness:
  "\<exists>s1 s2. edge_new demo_store (Some 2) 0 5 (Some 3) 0 6 = Inr (s1, n_edges demo_store) \<and> addEdge s1 0 (n_edges demo_store) = Inr s2 \<and>
     store_ok s2 0 \<and> target Source s2 (n_edges demo_store) = Some (2, 0) \<and> target Sink s2 (n_edges demo_store) = Some (3, 0)"
proof -
  have "2 < n_vertices demo_store" "0 < n_ports Source demo_store 2" "3 < n_vertices demo_store" "0 < n_ports Sink demo_store 3"
    "vx_graph (st_vertices demo_store ! 2) = vx_graph (st_vertices demo_store ! 3)"
    "port Source demo_store 2 0 = None \<and> port Sink demo_store 3 0 = None"
    by (simp_all add: demo_defs n_ports_def port_def)
  with graph_connect_correct [OF demo_ok this(1-5), of 5 6] show ?thesis by auto
qed

text \<open>
  C27. \<open>Graph::removeVertex\<close> on a vertex that is no subgraph: it succeeds, the vertex leaves the graph and the list of
  configuration actors, every edge linked to it loses that end and only that one, and the invariant of the graph is kept, so
  the indices still locate every remaining vertex and edge.
\<close>

theorem graph_remove_vertex_correct:
  assumes "store_ok s g" "v \<in> set (gr_vertices (st_graphs s ! g))" "vx_type (st_vertices s ! v) \<noteq> GRAPH"
    and "distinct (gr_configs (st_graphs s ! g))" "v \<in> set (gr_configs (st_graphs s ! g)) \<longrightarrow> vx_type (st_vertices s ! v) = CONFIG"
  shows "\<exists>s'. removeVertex x0 s g v = Inr s' \<and> store_ok s' g \<and>
     set (gr_vertices (st_graphs s' ! g)) = set (gr_vertices (st_graphs s ! g)) - {v} \<and>
     set (gr_configs (st_graphs s' ! g)) = set (gr_configs (st_graphs s ! g)) - {v} \<and>
     gr_edges (st_graphs s' ! g) = gr_edges (st_graphs s ! g) \<and>
     (\<forall>sd. \<forall>e < n_edges s. target sd s' e = unlink v (target sd s e))"
  using assms by (rule removeVertex_ok)

lemma graph_remove_vertex_correct_witness:
  "\<exists>s'. removeVertex 0 demo_store 0 0 = Inr s' \<and> store_ok s' 0 \<and>
     set (gr_vertices (st_graphs s' ! 0)) = {1, 2, 3} \<and> target Source s' 0 = None \<and> target Sink s' 0 = Some (1, 0)"
proof -
  have "0 \<in> set (gr_vertices (st_graphs demo_store ! 0))" "vx_type (st_vertices demo_store ! 0) \<noteq> GRAPH"
    "distinct (gr_configs (st_graphs demo_store ! 0))"
    "0 \<in> set (gr_configs (st_graphs demo_store ! 0)) \<longrightarrow> vx_type (st_vertices demo_store ! 0) = CONFIG"
    by (simp_all add: demo_defs)
  from graph_remove_vertex_correct [OF demo_ok this, of 0] obtain s' where
    s': "removeVertex 0 demo_store 0 0 = Inr s'" "store_ok s' 0"
      "set (gr_vertices (st_graphs s' ! 0)) = set (gr_vertices (st_graphs demo_store ! 0)) - {0}"
      "\<forall>sd. \<forall>e < n_edges demo_store. target sd s' e = unlink 0 (target sd demo_store e)" by auto
  have "0 < n_edges demo_store" "unlink 0 (target Source demo_store 0) = None" "unlink 0 (target Sink demo_store 0) = Some (1, 0)"
    by (simp_all add: demo_defs unlink_def target_def)
  with s'(4) have "target Source s' 0 = None" "target Sink s' 0 = Some (1, 0)" by simp_all
  moreover have "set (gr_vertices (st_graphs s' ! 0)) = {1, 2, 3}" unfolding s'(3) by (auto simp: demo_defs)
  ultimately show ?thesis using s'(1,2) by blast
qed

text \<open>
  \<open>Graph::removeParam\<close> keeps the indices of the parameters consistent, except when the parameter removed is the last
  one of the graph: the element read at its old index is then beyond the end of the vector.
\<close>

theorem graph_remove_param_last_faults:
  assumes "params_ok s g" "i < length (gr_params (st_graphs s ! g))" "p = gr_params (st_graphs s ! g) ! i"
  shows "if Suc i = length (gr_params (st_graphs s ! g)) then removeParam s g p = Inl Undefined_Behaviour
    else \<exists>s'. removeParam s g p = Inr s' \<and> params_ok s' g \<and>
           set (gr_params (st_graphs s' ! g)) = set (gr_params (st_graphs s ! g)) - {p}"
  using assms by (rule removeParam_cases)

lemma graph_remove_param_last_faults_witness:
  "removeParam demo_store 0 1 = Inl Undefined_Behaviour \<and>
   (\<exists>s'. removeParam demo_store 0 0 = Inr s' \<and> params_ok s' 0 \<and> set (gr_params (st_graphs s' ! 0)) = {1})"
proof -
  have ok: "params_ok demo_store 0" by (auto simp: params_ok_def demo_defs less_Suc_eq numeral_eq_Suc)
  have p: "gr_params (st_graphs demo_store ! 0) = [0, 1]" by (simp add: demo_defs)
  show ?thesis
    using graph_remove_param_last_faults [OF ok, of 1 1] graph_remove_param_last_faults [OF ok, of 0 0] by (auto simp: p)
qed

text \<open>
  \<open>Graph::moveVertex\<close> on a subgraph: the new owner overwrites the index that the old owner then uses to forget it. The
  call is undefined behaviour as soon as the new owner has at least as many subgraphs as the old one; otherwise the old owner
  drops the entry at the position the subgraph has in its new owner, whichever subgraph is there.
\<close>

theorem graph_move_subgraph_index:
  assumes "store_ok s g" "v \<in> set (gr_vertices (st_graphs s ! g))" "vx_type (st_vertices s ! v) = GRAPH"
    and "g' < length (st_graphs s)" "g' \<noteq> g" "sub < length (st_graphs s)" "sub \<noteq> g" "sub \<noteq> g'"
    and "vx_asGraph (st_vertices s ! v) = sub" "gr_subgraphs (st_graphs s ! g) \<noteq> []"
    and "\<forall>x \<in> set (gr_subgraphs (st_graphs s ! g)). x < length (st_graphs s) \<and> x \<noteq> g"
  shows "if length (gr_subgraphs (st_graphs s ! g)) \<le> length (gr_subgraphs (st_graphs s ! g'))
    then moveVertex s g v (Some g') = Inl Undefined_Behaviour
    else \<exists>s'. moveVertex s g v (Some g') = Inr s' \<and> gr_subgraphs (st_graphs s' ! g) =
           out_of_order_erase (gr_subgraphs (st_graphs s ! g)) (length (gr_subgraphs (st_graphs s ! g')))"
  using assms by (rule moveVertex_subgraph)

lemma graph_move_subgraph_index_witness: "moveVertex demo_store 0 3 (Some 2) = Inl Undefined_Behaviour"
proof -
  have "3 \<in> set (gr_vertices (st_graphs demo_store ! 0))" "vx_type (st_vertices demo_store ! 3) = GRAPH"
    "2 < length (st_graphs demo_store)" "(2::nat) \<noteq> 0" "1 < length (st_graphs demo_store)" "(1::nat) \<noteq> 0" "(1::nat) \<noteq> 2"
    "vx_asGraph (st_vertices demo_store ! 3) = 1" "gr_subgraphs (st_graphs demo_store ! 0) \<noteq> []"
    "\<forall>x \<in> set (gr_subgraphs (st_graphs demo_store ! 0)). x < length (st_graphs demo_store) \<and> x \<noteq> 0"
    by (simp_all add: demo_defs)
  note * = graph_move_subgraph_index [OF demo_ok this]
  show ?thesis using * by (simp add: demo_defs)
qed

end
