(* ===== verification/SRGraph.thy ===== *)
theory SRGraph
  imports PisdfStoreProps Params
begin

text \<open>
  The single-rate graph, \<open>graphs/srdag\<close>. Its vertices and edges are linked like those of a PiSDF graph, without rate
  expressions: the links are a store of \<open>PisdfStore\<close> in which the graph is object 0. A single-rate edge has one rate and
  a FIFO allocation; a vertex refers to a PiSDF vertex, of the application or made by the graph for its own special actors.
\<close>

datatype sr_ref = Application nat | Special nat   \<comment> \<open>a position in \<open>specialVertexVector_\<close>\<close>

record sr_vertex =
  sv_reference :: sr_ref
  sv_type :: vertex_type        \<comment> \<open>\<open>reference_->subtype()\<close>\<close>
  sv_instance :: nat
  sv_executable :: bool
  sv_inParams :: "nat list"
  sv_refParams :: "nat list"
  sv_outParams :: "nat list"
  sv_taskIx :: nat

record sr_edge =
  se_rate :: int
  se_address :: nat
  se_offset :: nat

record srdag =
  sg_store :: "unit store"
  sg_vs :: "sr_vertex list"     \<comment> \<open>by vertex address\<close>
  sg_es :: "sr_edge list"       \<comment> \<open>by edge address\<close>
  sg_specials :: "(vertex_type \<times> nat option) list"  \<comment> \<open>subtype and kernel of the special PiSDF vertices\<close>

definition srdag_new :: srdag where
  "srdag_new = \<lparr>sg_store = \<lparr>st_vertices = [], st_edges = [],
       st_graphs = [\<lparr>gr_vertices = [], gr_edges = [], gr_configs = [], gr_subgraphs = [], gr_params = [], gr_inputs = [],
         gr_outputs = [], gr_vertex = 0, gr_subIx = size_max\<rparr>], st_params = [], st_delays = []\<rparr>,
     sg_vs = [], sg_es = [], sg_specials = []\<rparr>"

definition sr_at :: "srdag \<Rightarrow> nat \<Rightarrow> sr_vertex result" where "sr_at G v = get_at (sg_vs G) v"

text \<open>\<open>vertices()\<close> and \<open>edges()\<close> of the graph.\<close>

definition sr_vertices :: "srdag \<Rightarrow> nat list" where "sr_vertices G = gr_vertices (st_graphs (sg_store G) ! 0)"
definition sr_edges :: "srdag \<Rightarrow> nat list" where "sr_edges G = gr_edges (st_graphs (sg_store G) ! 0)"

definition on_store :: "srdag \<Rightarrow> unit store result \<Rightarrow> srdag result" where
  "on_store G r = bindE r (\<lambda>s. Inr (G\<lparr>sg_store := s\<rparr>))"

subsection \<open>Vertex\<close>

text \<open>The constructor; \<open>rv\<close> is the repetition value of the reference. \<open>subtype()\<close> hides the hierarchy.\<close>

definition sr_subtype :: "vertex_type \<Rightarrow> vertex_type" where
  "sr_subtype t = (if t = GRAPH then NORMAL else t)"

definition sr_vertex_new :: "srdag \<Rightarrow> sr_ref \<Rightarrow> vertex_type \<Rightarrow> nat \<Rightarrow> nat \<Rightarrow> nat \<Rightarrow> nat \<Rightarrow> (srdag \<times> nat) result" where
  "sr_vertex_new G reference t rv instanceValue edgeINCount edgeOUTCount =
     (if instanceValue \<ge> rv then Inl Spider_Exception
      else let s = sg_store G in
        Inr (G\<lparr>sg_store := s\<lparr>st_vertices := st_vertices s @
                 [\<lparr>vx_type = sr_subtype t, vx_in = replicate edgeINCount None, vx_out = replicate edgeOUTCount None, vx_graph = None,
                   vx_ix = size_max, vx_rv = 1, vx_inParams = [], vx_outParams = [], vx_refinementParams = [], vx_asGraph = 0\<rparr>]\<rparr>,
               sg_vs := sg_vs G @ [\<lparr>sv_reference = reference, sv_type = t, sv_instance = instanceValue, sv_executable = True,
                 sv_inParams = [], sv_refParams = [], sv_outParams = [], sv_taskIx = size_max\<rparr>]\<rparr>,
             length (st_vertices s)))"

definition sr_setExecutable :: "bool \<Rightarrow> srdag \<Rightarrow> nat \<Rightarrow> srdag result" where
  "sr_setExecutable b G v = bindE (sr_at G v) (\<lambda>x. Inr (G\<lparr>sg_vs := (sg_vs G)[v := x\<lparr>sv_executable := b\<rparr>]\<rparr>))"

definition sr_setScheduleTaskIx :: "srdag \<Rightarrow> nat \<Rightarrow> nat \<Rightarrow> srdag result" where
  "sr_setScheduleTaskIx G v i = bindE (sr_at G v) (\<lambda>x. Inr (G\<lparr>sg_vs := (sg_vs G)[v := x\<lparr>sv_taskIx := i\<rparr>]\<rparr>))"

definition sr_addInputParameter :: "srdag \<Rightarrow> nat \<Rightarrow> nat \<Rightarrow> srdag result" where
  "sr_addInputParameter G v p = bindE (sr_at G v) (\<lambda>x.
     Inr (if sv_type x \<noteq> GRAPH then G\<lparr>sg_vs := (sg_vs G)[v := x\<lparr>sv_inParams := sv_inParams x @ [p]\<rparr>]\<rparr> else G))"

definition sr_addRefinementParameter :: "srdag \<Rightarrow> nat \<Rightarrow> nat \<Rightarrow> srdag result" where
  "sr_addRefinementParameter G v p = bindE (sr_at G v) (\<lambda>x.
     Inr (if sv_type x \<noteq> GRAPH then G\<lparr>sg_vs := (sg_vs G)[v := x\<lparr>sv_refParams := sv_refParams x @ [p]\<rparr>]\<rparr> else G))"

definition sr_addOutputParameter :: "srdag \<Rightarrow> nat \<Rightarrow> nat \<Rightarrow> srdag result" where
  "sr_addOutputParameter G v p = bindE (sr_at G v) (\<lambda>x.
     if sv_type x \<noteq> CONFIG then Inl Spider_Exception
     else Inr (G\<lparr>sg_vs := (sg_vs G)[v := x\<lparr>sv_outParams := sv_outParams x @ [p]\<rparr>]\<rparr>))"

text \<open>\<open>outputEdge(ix)\<close> (side \<open>Source\<close>) and \<open>inputEdge(ix)\<close> (side \<open>Sink\<close>), without the check of the debug build.\<close>

definition sr_edge_at :: "side \<Rightarrow> srdag \<Rightarrow> nat \<Rightarrow> nat \<Rightarrow> nat option result" where
  "sr_edge_at sd G v ix = bindE (vertex_at (sg_store G) v) (\<lambda>x. get_at (ports sd x) ix)"

text \<open>\<open>inputEdgeCount()\<close> and \<open>outputEdgeCount()\<close>: stored on 32 bits.\<close>

definition sr_edge_count :: "side \<Rightarrow> srdag \<Rightarrow> nat \<Rightarrow> nat result" where
  "sr_edge_count sd G v = bindE (vertex_at (sg_store G) v) (\<lambda>x. Inr (length (ports sd x) mod 2 ^ 32))"

text \<open>No bound is checked on the port.\<close>

definition sr_connectEdge :: "side \<Rightarrow> unit store \<Rightarrow> nat \<Rightarrow> nat \<Rightarrow> nat \<Rightarrow> unit store result" where
  "sr_connectEdge sd s v e ix =
     bindE (vertex_at s v) (\<lambda>vx. bindE (get_at (ports sd vx) ix) (\<lambda>current.
       if current \<noteq> None then Inl Spider_Exception
       else Inr (set_vertex s v (set_ports sd ((ports sd vx)[ix := Some e]) vx))))"

subsection \<open>Edge\<close>

definition sr_edge_new :: "srdag \<Rightarrow> nat option \<Rightarrow> nat \<Rightarrow> nat option \<Rightarrow> nat \<Rightarrow> int \<Rightarrow> (srdag \<times> nat) result" where
  "sr_edge_new G source srcIx sink snkIx rate =
     (case (source, sink) of
        (Some v, Some w) \<Rightarrow>
          let s = sg_store G; e = length (st_edges s) in
          bindE (same_graph s v (Some w)) (\<lambda>_.
          let s0 = s\<lparr>st_edges := st_edges s @ [\<lparr>ed_src = source, ed_srcPort = srcIx, ed_srcExpr = (), ed_snk = sink,
                     ed_snkPort = snkIx, ed_snkExpr = (), ed_delay = None, ed_ix = size_max\<rparr>]\<rparr>
          in bindE (sr_connectEdge Source s0 v e srcIx) (\<lambda>s1. bindE (sr_connectEdge Sink s1 w e snkIx) (\<lambda>s2.
             Inr (G\<lparr>sg_store := s2, sg_es := sg_es G @ [\<lparr>se_rate = rate, se_address = 0, se_offset = 0\<rparr>]\<rparr>, e))))
      | _ \<Rightarrow> Inl Spider_Exception)"

text \<open>\<open>setSource\<close> and \<open>setSink\<close> are those of the PiSDF edge, the rate apart.\<close>

definition sr_setEnd :: "side \<Rightarrow> srdag \<Rightarrow> nat \<Rightarrow> nat option \<Rightarrow> nat \<Rightarrow> srdag result" where
  "sr_setEnd sd G e vertex ix = on_store G (setEnd sd () (sg_store G) e vertex ix ())"

definition sr_edge_data :: "srdag \<Rightarrow> nat \<Rightarrow> sr_edge result" where "sr_edge_data G e = get_at (sg_es G) e"

definition sr_update_edge :: "(sr_edge \<Rightarrow> sr_edge) \<Rightarrow> srdag \<Rightarrow> nat \<Rightarrow> srdag result" where
  "sr_update_edge f G e = bindE (sr_edge_data G e) (\<lambda>x. Inr (G\<lparr>sg_es := (sg_es G)[e := f x]\<rparr>))"

definition sr_setRate :: "srdag \<Rightarrow> nat \<Rightarrow> int \<Rightarrow> srdag result" where
  "sr_setRate G e rate = sr_update_edge (\<lambda>x. x\<lparr>se_rate := rate\<rparr>) G e"
definition sr_setAddress :: "srdag \<Rightarrow> nat \<Rightarrow> nat \<Rightarrow> srdag result" where
  "sr_setAddress G e address = sr_update_edge (\<lambda>x. x\<lparr>se_address := address\<rparr>) G e"
definition sr_setOffset :: "srdag \<Rightarrow> nat \<Rightarrow> nat \<Rightarrow> srdag result" where
  "sr_setOffset G e offset = sr_update_edge (\<lambda>x. x\<lparr>se_offset := offset\<rparr>) G e"

subsection \<open>Graph\<close>

definition sr_clear :: "srdag \<Rightarrow> srdag" where
  "sr_clear G = G\<lparr>sg_store := (sg_store G)\<lparr>st_graphs := (st_graphs (sg_store G))
     [0 := (st_graphs (sg_store G) ! 0)\<lparr>gr_vertices := [], gr_edges := []\<rparr>]\<rparr>, sg_specials := []\<rparr>"

definition sr_addVertex :: "srdag \<Rightarrow> nat \<Rightarrow> srdag result" where
  "sr_addVertex G v =
     on_store G (bindE (vertex_at (sg_store G) v) (\<lambda>vx. bindE (graph_at (sg_store G) 0) (\<lambda>gr.
       Inr (set_graph (set_vertex (sg_store G) v (vx\<lparr>vx_ix := length (gr_vertices gr), vx_graph := Some 0\<rparr>)) 0
         (gr\<lparr>gr_vertices := gr_vertices gr @ [v]\<rparr>)))))"

definition sr_removeVertex :: "srdag \<Rightarrow> nat option \<Rightarrow> srdag result" where
  "sr_removeVertex G vertex =
     (case vertex of None \<Rightarrow> Inr G
      | Some v \<Rightarrow> let s = sg_store G in
          on_store G (bindE (vertex_at s v) (\<lambda>vx. bindE (graph_at s 0) (\<lambda>gr.
            bindE (assertElement (gr_vertices gr) (vx_ix vx) v) (\<lambda>_.
            bindE (clear_ports Sink () s v) (\<lambda>s1. bindE (clear_ports Source () s1 v) (\<lambda>s2. swapVertex s2 0 v)))))))"

definition sr_addEdge :: "srdag \<Rightarrow> nat \<Rightarrow> srdag result" where
  "sr_addEdge G e = on_store G (addEdge (sg_store G) 0 e)"

definition sr_removeEdge :: "srdag \<Rightarrow> nat \<Rightarrow> srdag result" where
  "sr_removeEdge G e = on_store G (removeEdge () (sg_store G) 0 e)"

text \<open>An edge already at one of the two ports is redirected, and keeps its rate.\<close>

definition sr_createEdge :: "srdag \<Rightarrow> nat option \<Rightarrow> nat \<Rightarrow> nat option \<Rightarrow> nat \<Rightarrow> int \<Rightarrow> (srdag \<times> nat) result" where
  "sr_createEdge G source srcIx sink snkIx rate =
     bindE (case source of None \<Rightarrow> Inr None | Some v \<Rightarrow> sr_edge_at Source G v srcIx) (\<lambda>atSource.
     case atSource of
       Some e \<Rightarrow> bindE (sr_setEnd Sink G e sink snkIx) (\<lambda>G1. Inr (G1, e))
     | None \<Rightarrow>
         bindE (case sink of None \<Rightarrow> Inr None | Some w \<Rightarrow> sr_edge_at Sink G w snkIx) (\<lambda>atSink.
         case atSink of
           Some e \<Rightarrow> bindE (sr_setEnd Source G e source srcIx) (\<lambda>G1. Inr (G1, e))
         | None \<Rightarrow> bindE (sr_edge_new G source srcIx sink snkIx rate) (\<lambda>(G1, e). bindE (sr_addEdge G1 e) (\<lambda>G2. Inr (G2, e)))))"

text \<open>The enumeration of the special kernels.\<close>

fun kernel_ix :: "vertex_type \<Rightarrow> nat option" where
  "kernel_ix FORK = Some 0" | "kernel_ix JOIN = Some 1" | "kernel_ix HEAD = Some 2" | "kernel_ix TAIL = Some 3"
| "kernel_ix REPEAT = Some 4" | "kernel_ix DUPLICATE = Some 5" | "kernel_ix INIT = Some 6" | "kernel_ix END_VERTEX = Some 7"
| "kernel_ix EXTERN_IN = Some 8" | "kernel_ix EXTERN_OUT = Some 9" | "kernel_ix _ = None"

text \<open>
  A special PiSDF vertex with its type check, the single-rate vertex that refers to it (its repetition value is 1), added to
  the graph. Names are not modelled.
\<close>

definition createSpecial :: "vertex_type \<Rightarrow> nat \<Rightarrow> nat \<Rightarrow> nat \<Rightarrow> nat \<Rightarrow> srdag \<Rightarrow> (srdag \<times> nat) result" where
  "createSpecial t piIn piOut nIn nOut G =
     bindE (checkTypeConsistency t piIn piOut) (\<lambda>_.
     bindE (sr_vertex_new (G\<lparr>sg_specials := sg_specials G @ [(t, kernel_ix t)]\<rparr>) (Special (length (sg_specials G))) t 1 0 nIn nOut)
       (\<lambda>(G1, v). bindE (sr_addVertex G1 v) (\<lambda>G2. Inr (G2, v))))"

definition createDuplicateVertex :: "srdag \<Rightarrow> nat \<Rightarrow> (srdag \<times> nat) result" where
  "createDuplicateVertex G n = createSpecial DUPLICATE 1 0 1 n G"
definition createForkVertex :: "srdag \<Rightarrow> nat \<Rightarrow> (srdag \<times> nat) result" where
  "createForkVertex G n = createSpecial FORK 1 0 1 n G"
definition createJoinVertex :: "srdag \<Rightarrow> nat \<Rightarrow> (srdag \<times> nat) result" where
  "createJoinVertex G n = createSpecial JOIN 0 1 n 1 G"
definition createVertex :: "srdag \<Rightarrow> nat \<Rightarrow> nat \<Rightarrow> (srdag \<times> nat) result" where
  "createVertex G nIn nOut = createSpecial NORMAL 0 0 nIn nOut G"
definition createRepeatVertex :: "srdag \<Rightarrow> (srdag \<times> nat) result" where
  "createRepeatVertex G = createSpecial REPEAT 1 1 1 1 G"
definition createTailVertex :: "srdag \<Rightarrow> nat \<Rightarrow> (srdag \<times> nat) result" where
  "createTailVertex G n = createSpecial TAIL 0 1 n 1 G"
definition createHeadVertex :: "srdag \<Rightarrow> nat \<Rightarrow> (srdag \<times> nat) result" where
  "createHeadVertex G n = createSpecial HEAD 0 1 n 1 G"
definition createInitVertex :: "srdag \<Rightarrow> (srdag \<times> nat) result" where
  "createInitVertex G = createSpecial INIT 0 1 0 1 G"
definition createEndVertex :: "srdag \<Rightarrow> (srdag \<times> nat) result" where
  "createEndVertex G = createSpecial END_VERTEX 1 0 1 0 G"

definition createVoidVertex :: "srdag \<Rightarrow> nat \<Rightarrow> nat \<Rightarrow> (srdag \<times> nat) result" where
  "createVoidVertex G nIn nOut =
     bindE (createSpecial NORMAL 0 0 nIn nOut G) (\<lambda>(G1, v). bindE (sr_setExecutable False G1 v) (\<lambda>G2. Inr (G2, v)))"

end
