(* ===== verification/CMath.thy ===== *)
theory CMath
  imports Prelude
begin

text \<open>
  \<open>common/Math.h\<close> at the type the library uses it (\<open>int64_t\<close> for \<open>abs\<close>, \<open>ceilDiv\<close>, \<open>floorDiv\<close>,
  \<open>gcd\<close>, \<open>lcm\<close>; \<open>uint64_t\<close> for \<open>saturateAdd\<close>). \<open>/\<close> and \<open>%\<close> truncate towards zero
  (\<open>sdiv\<close>, \<open>smod\<close>). \<open>gcd\<close> converts its operands to the unsigned type first, so that a negative
  operand enters the Euclidean loop as \<open>2^64\<close> minus its magnitude.
\<close>

definition c_abs :: "int \<Rightarrow> int result" where
  "c_abs x = (if x < 0 then i64 (- x) else Inr x)"

definition ceilDiv :: "int \<Rightarrow> int \<Rightarrow> int result" where
  "ceilDiv x y =
     (if y = 0 then Inl Undefined_Behaviour
      else bindE (i64 (x sdiv y)) (\<lambda>d.
        let r = x smod y in
        Inr (if r \<noteq> 0 then d + of_bool (\<not> ((x < 0) \<noteq> (y < 0))) else d)))"

definition floorDiv :: "int \<Rightarrow> int \<Rightarrow> int result" where
  "floorDiv x y =
     (if y = 0 then Inl Undefined_Behaviour
      else bindE (i64 (x sdiv y)) (\<lambda>d.
        let r = x smod y in
        Inr (if r \<noteq> 0 then d - of_bool ((x < 0) \<noteq> (y < 0)) else d)))"

fun gcd_loop :: "nat \<Rightarrow> nat \<Rightarrow> nat" where
  "gcd_loop a b = (if b \<noteq> 0 then gcd_loop b (a mod b) else a)"

declare gcd_loop.simps [simp del]

definition c_gcd :: "int \<Rightarrow> int \<Rightarrow> int" where
  "c_gcd x y = of_u64 (gcd_loop (to_u64 x) (to_u64 y))"

definition c_lcm :: "int \<Rightarrow> int \<Rightarrow> int result" where
  "c_lcm a b =
     bindE (i64 (a * b)) (\<lambda>p. bindE (c_abs p) (\<lambda>q.
       if c_gcd a b = 0 then Inl Undefined_Behaviour else i64 (q sdiv c_gcd a b)))"

definition saturateAdd :: "nat \<Rightarrow> nat \<Rightarrow> nat" where
  "saturateAdd a b = (if b > sub64 u64_max a then u64_max else add64 a b)"

subsection \<open>What the routines compute\<close>

lemma smod_zero_iff: "y \<noteq> 0 \<Longrightarrow> x smod y = 0 \<longleftrightarrow> y dvd x" for x y :: int
proof -
  assume "y \<noteq> 0"
  have "x smod y = 0 \<longleftrightarrow> \<bar>x\<bar> mod \<bar>y\<bar> = 0" by (auto simp: smod_int_alt_def sgn_if)
  then show ?thesis by (simp add: mod_eq_0_iff_dvd)
qed

lemma sgn_neq_iff:
  fixes x y :: int
  assumes "\<not> y dvd x" "y \<noteq> 0"
  shows "sgn x \<noteq> sgn y \<longleftrightarrow> (x < 0) \<noteq> (y < 0)"
proof -
  from assms have "x \<noteq> 0" by auto
  then show ?thesis using assms by (auto simp: sgn_if)
qed

lemma floorDiv_eq:
  assumes "y \<noteq> 0" and "in_i64 (x sdiv y)"
  shows "floorDiv x y = Inr (x div y)"
  using assms sgn_neq_iff [of y x]
  by (auto simp: floorDiv_def divide_int_eq_signed_divide_int smod_zero_iff)

lemma ceilDiv_eq:
  assumes "y \<noteq> 0" and "in_i64 (x sdiv y)"
  shows "ceilDiv x y = Inr (- (- x div y))"
proof (cases "y dvd x")
  case True
  then show ?thesis using assms
    by (auto simp: ceilDiv_def smod_zero_iff signed_divide_int_eq_divide_int dvd_neg_div)
next
  case False
  then have "x \<noteq> 0" by auto
  have "- x div y = - (x sdiv y) - of_bool ((- x < 0) \<noteq> (y < 0))"
    using False assms sgn_neq_iff [of y "- x"]
    by (simp add: divide_int_eq_signed_divide_int)
  moreover have "(- x < 0) \<noteq> (y < 0) \<longleftrightarrow> \<not> ((x < 0) \<noteq> (y < 0))"
    using \<open>x \<noteq> 0\<close> by auto
  ultimately show ?thesis using False assms by (simp add: ceilDiv_def smod_zero_iff)
qed

lemma div_le_self_int: "0 \<le> n \<Longrightarrow> 0 < g \<Longrightarrow> n div g \<le> n" for n g :: int
  using zdiv_mono2 [of n 1 g] by simp

lemma in_i64_div: "0 \<le> n \<Longrightarrow> 0 < g \<Longrightarrow> in_i64 n \<Longrightarrow> in_i64 (n div g)"
  using div_le_self_int [of n g] by (auto simp: in_i64_def pos_imp_zdiv_nonneg_iff intro: order_trans [of _ 0])

lemma in_i64_sdiv: "in_i64 x \<Longrightarrow> x \<noteq> - (2 ^ 63) \<or> y \<noteq> -1 \<Longrightarrow> in_i64 (x sdiv y)"
proof -
  assume x: "in_i64 x" and nm: "x \<noteq> - (2 ^ 63) \<or> y \<noteq> -1"
  have r: "- \<bar>x\<bar> \<le> x sdiv y" "x sdiv y \<le> \<bar>x\<bar>" using sdiv_int_range [of x y] by auto
  show ?thesis
  proof (cases "x = - (2 ^ 63)")
    case False
    with r x show ?thesis by (auto simp: in_i64_def)
  next
    case True
    with nm have "y \<noteq> -1" by simp
    with True have "x sdiv y \<noteq> - x" using int_sdiv_negated_is_minus1 [of x y] by simp
    with r True show ?thesis by (simp add: in_i64_def)
  qed
qed

lemma gcd_loop_gcd: "gcd_loop a b = gcd a b"
proof (induction a b rule: gcd_loop.induct)
  case (1 a b)
  show ?case
  proof (cases "b = 0")
    case False
    have "gcd_loop a b = gcd_loop b (a mod b)" using False by (simp add: gcd_loop.simps [of a b])
    also have "\<dots> = gcd b (a mod b)" using 1 False by simp
    also have "\<dots> = gcd a b" by (rule gcd_red_nat [symmetric])
    finally show ?thesis .
  qed (simp add: gcd_loop.simps [of a 0])
qed

lemma c_gcd_nonneg:
  assumes "0 \<le> x" "0 \<le> y" "in_i64 x" "in_i64 y"
  shows "c_gcd x y = gcd x y"
proof -
  have g: "gcd (nat x) (nat y) < 2 ^ 63"
  proof (cases "x = 0")
    case True
    then show ?thesis using assms by (simp add: in_i64_def nat_less_iff)
  next
    case False
    then have "gcd (nat x) (nat y) \<le> nat x" using assms by (intro gcd_le1_nat) simp
    then show ?thesis using assms by (auto simp: in_i64_def nat_less_iff elim!: le_less_trans)
  qed
  have "int (gcd (nat x) (nat y)) = gcd x y" using assms by (simp add: gcd_int_def)
  with g assms show ?thesis by (simp add: c_gcd_def gcd_loop_gcd to_u64_nonneg of_u64_def)
qed

lemma c_lcm_pos:
  assumes "0 < a" "0 < b" "in_i64 (a * b)"
  shows "c_lcm a b = Inr (lcm a b)"
proof -
  have ab: "a \<le> a * b" "b \<le> a * b" using assms by auto
  have i: "in_i64 a" "in_i64 b"
    using in_i64_between [of 0 "a * b"] ab assms by (simp_all add: in_i64_def [of 0])
  have g: "c_gcd a b = gcd a b" using assms i by (intro c_gcd_nonneg) auto
  have gpos: "gcd a b > 0" using assms by simp
  have "a * b sdiv gcd a b = a * b div gcd a b"
    using assms gpos by (simp add: signed_divide_int_def sgn_mult)
  moreover have "a * b div gcd a b = lcm a b" using assms by (simp add: lcm_altdef_int)
  moreover have "in_i64 (lcm a b)"
  proof -
    have "lcm a b dvd a * b" by simp
    then have "lcm a b \<le> a * b" using assms by (intro zdvd_imp_le) auto
    moreover have "0 \<le> lcm a b" by simp
    ultimately show ?thesis using in_i64_between [of 0 "a * b"] assms by (simp add: in_i64_def [of 0])
  qed
  moreover have "\<not> a * b < 0" using assms by (simp add: not_less)
  ultimately show ?thesis using assms g gpos by (simp add: c_lcm_def c_abs_def)
qed

lemma saturateAdd_eq:
  assumes "a < 2 ^ 64" "b < 2 ^ 64"
  shows "saturateAdd a b = min u64_max (a + b)"
proof -
  have "sub64 u64_max a = u64_max - a" using assms by (intro sub64_exact) auto
  then show ?thesis using assms by (auto simp: saturateAdd_def add64_def)
qed

lemma saturateAdd_bound [simp]: "a < 2 ^ 64 \<Longrightarrow> b < 2 ^ 64 \<Longrightarrow> saturateAdd a b < 2 ^ 64"
  by (simp add: saturateAdd_eq)

end
