(* ===== verification/RationalNum.thy ===== *)
theory RationalNum
  imports CMath Complex_Main
begin

text \<open>
  \<open>common/Rational.h\<close>: fractions of two \<open>int64_t\<close>, normalised by \<open>reduce\<close> after every operation.
  The fields \<open>n_\<close> and \<open>d_\<close> are \<open>nom\<close> and \<open>den\<close>. Every product and sum is an \<open>int64_t\<close> operation, so
  its overflow is a fault. The lemmas show that on non-negative fractions the class computes the
  reduced fraction of the exact rational value; on negative numerators it does not, because
  \<open>math::gcd\<close> casts the numerator to an unsigned integer.
\<close>

record rational =
  nom :: int
  den :: int

definition reduce :: "int \<Rightarrow> int \<Rightarrow> rational result" where
  "reduce n d =
     bindE (if d < 0 then bindE (i64 (- n)) (\<lambda>n'. bindE (i64 (- d)) (\<lambda>d'. Inr (n', d')))
            else Inr (n, d)) (\<lambda>(n', d').
       let g = c_gcd n' d' in
       if g = 0 then Inl Undefined_Behaviour
       else bindE (i64 (n' sdiv g)) (\<lambda>n''. bindE (i64 (d' sdiv g)) (\<lambda>d''.
         Inr \<lparr>nom = n'', den = d''\<rparr>)))"

definition mk_rational :: "int \<Rightarrow> int \<Rightarrow> rational result" where
  "mk_rational n d = (if d = 0 then Inl Spider_Exception else reduce n d)"

definition rat_add_assign :: "rational \<Rightarrow> rational \<Rightarrow> rational result" where
  "rat_add_assign a b =
     bindE (i64 (nom a * den b)) (\<lambda>x. bindE (i64 (nom b * den a)) (\<lambda>y.
     bindE (i64 (x + y)) (\<lambda>n. bindE (i64 (den a * den b)) (\<lambda>d. reduce n d))))"

definition rat_sub_assign :: "rational \<Rightarrow> rational \<Rightarrow> rational result" where
  "rat_sub_assign a b =
     bindE (i64 (nom a * den b)) (\<lambda>x. bindE (i64 (nom b * den a)) (\<lambda>y.
     bindE (i64 (x - y)) (\<lambda>n. bindE (i64 (den a * den b)) (\<lambda>d. reduce n d))))"

definition rat_mul_assign :: "rational \<Rightarrow> rational \<Rightarrow> rational result" where
  "rat_mul_assign a b =
     bindE (i64 (nom a * nom b)) (\<lambda>n. bindE (i64 (den a * den b)) (\<lambda>d. reduce n d))"

definition rat_div_assign :: "rational \<Rightarrow> rational \<Rightarrow> rational result" where
  "rat_div_assign a b =
     (if nom b = 0 then Inl Spider_Exception
      else bindE (i64 (nom a * den b)) (\<lambda>n. bindE (i64 (den a * nom b)) (\<lambda>d. reduce n d)))"

text \<open>\<open>a /= a\<close>: the argument is the object itself, its numerator has changed when the denominator is multiplied by it. The other
  assignments read nothing that they have written.\<close>

definition rat_div_assign_self :: "rational \<Rightarrow> rational result" where
  "rat_div_assign_self a =
     (if nom a = 0 then Inl Spider_Exception
      else bindE (i64 (nom a * den a)) (\<lambda>n. bindE (i64 (den a * n)) (\<lambda>d. reduce n d)))"

definition rat_eq :: "rational \<Rightarrow> rational \<Rightarrow> bool" where
  "rat_eq a b \<longleftrightarrow> nom a = nom b \<and> den a = den b"

definition rat_not :: "rational \<Rightarrow> bool" where
  "rat_not a \<longleftrightarrow> nom a = 0"

definition rat_gt :: "rational \<Rightarrow> rational \<Rightarrow> bool result" where
  "rat_gt a b = bindE (rat_sub_assign a b) (\<lambda>diff. Inr (nom diff > 0))"

definition rat_lt :: "rational \<Rightarrow> rational \<Rightarrow> bool result" where
  "rat_lt a b = bindE (rat_sub_assign a b) (\<lambda>diff. Inr (nom diff < 0))"

definition rat_ge :: "rational \<Rightarrow> rational \<Rightarrow> bool result" where
  "rat_ge a b = bindE (rat_lt a b) (\<lambda>r. Inr (\<not> r))"

definition rat_le :: "rational \<Rightarrow> rational \<Rightarrow> bool result" where
  "rat_le a b = bindE (rat_gt a b) (\<lambda>r. Inr (\<not> r))"

text \<open>The overloads on \<open>int64_t\<close>: the value-returning ones construct, the assigning ones reduce.\<close>

definition rat_add_int :: "rational \<Rightarrow> int \<Rightarrow> rational result" where
  "rat_add_int a b = bindE (i64 (b * den a)) (\<lambda>x. bindE (i64 (nom a + x)) (\<lambda>n. mk_rational n (den a)))"

definition rat_sub_int :: "rational \<Rightarrow> int \<Rightarrow> rational result" where
  "rat_sub_int a b = bindE (i64 (b * den a)) (\<lambda>x. bindE (i64 (nom a - x)) (\<lambda>n. mk_rational n (den a)))"

definition rat_mul_int :: "rational \<Rightarrow> int \<Rightarrow> rational result" where
  "rat_mul_int a b = bindE (i64 (nom a * b)) (\<lambda>n. mk_rational n (den a))"

definition rat_div_int :: "rational \<Rightarrow> int \<Rightarrow> rational result" where
  "rat_div_int a b = bindE (i64 (den a * b)) (\<lambda>d. mk_rational (nom a) d)"

definition rat_add_assign_int :: "rational \<Rightarrow> int \<Rightarrow> rational result" where
  "rat_add_assign_int a b = bindE (i64 (b * den a)) (\<lambda>x. bindE (i64 (nom a + x)) (\<lambda>n. reduce n (den a)))"

definition rat_sub_assign_int :: "rational \<Rightarrow> int \<Rightarrow> rational result" where
  "rat_sub_assign_int a b = bindE (i64 (b * den a)) (\<lambda>x. bindE (i64 (nom a - x)) (\<lambda>n. reduce n (den a)))"

definition rat_mul_assign_int :: "rational \<Rightarrow> int \<Rightarrow> rational result" where
  "rat_mul_assign_int a b = bindE (i64 (nom a * b)) (\<lambda>n. reduce n (den a))"

definition rat_div_assign_int :: "rational \<Rightarrow> int \<Rightarrow> rational result" where
  "rat_div_assign_int a b =
     (if b = 0 then Inl Spider_Exception else bindE (i64 (den a * b)) (\<lambda>d. reduce (nom a) d))"

definition rat_abs :: "rational \<Rightarrow> rational result" where
  "rat_abs a = bindE (c_abs (nom a)) (\<lambda>n. bindE (c_abs (den a)) (\<lambda>d. mk_rational n d))"

definition rat_to_int64 :: "rational \<Rightarrow> int result" where
  "rat_to_int64 a = (if den a = 0 then Inl Undefined_Behaviour else i64 (nom a sdiv den a))"

definition rat_to_uint64 :: "rational \<Rightarrow> nat result" where
  "rat_to_uint64 a = bindE (rat_to_int64 a) (\<lambda>x. Inr (to_u64 x))"

subsection \<open>The abstract value and the representation invariant\<close>

definition rat_of :: "rational \<Rightarrow> rat" where
  "rat_of a = Fract (nom a) (den a)"

text \<open>A non-negative reduced fraction: what \<open>reduce\<close> returns on the operands of the BRV.\<close>

definition rat_wf :: "rational \<Rightarrow> bool" where
  "rat_wf a \<longleftrightarrow> 0 \<le> nom a \<and> 0 < den a \<and> coprime (nom a) (den a) \<and> in_i64 (nom a) \<and> in_i64 (den a)"

lemma reduce_nonneg:
  assumes "0 \<le> n" "0 < d" "in_i64 n" "in_i64 d"
  shows "reduce n d = Inr \<lparr>nom = n div gcd n d, den = d div gcd n d\<rparr>"
proof -
  have g: "c_gcd n d = gcd n d" using assms by (intro c_gcd_nonneg) auto
  have gpos: "0 < gcd n d" using assms by simp
  have nd: "n sdiv gcd n d = n div gcd n d" "d sdiv gcd n d = d div gcd n d"
    using assms gpos by (auto simp: signed_divide_int_def sgn_if)
  have "in_i64 (n div gcd n d)" "in_i64 (d div gcd n d)"
    using assms gpos by (auto intro: in_i64_div)
  then show ?thesis using assms g gpos nd by (simp add: reduce_def Let_def)
qed

lemma reduce_exact:
  assumes "0 \<le> n" "0 < d" "in_i64 n" "in_i64 d" and r: "reduce n d = Inr r"
  shows "rat_wf r \<and> rat_of r = Fract n d"
proof -
  have eq: "r = \<lparr>nom = n div gcd n d, den = d div gcd n d\<rparr>"
    using reduce_nonneg [OF assms(1-4)] r by simp
  have gpos: "0 < gcd n d" using assms by simp
  have cop: "coprime (n div gcd n d) (d div gcd n d)"
    using assms by (intro div_gcd_coprime) auto
  have dpos: "0 < d div gcd n d" using assms gpos by (simp add: pos_imp_zdiv_pos_iff zdvd_imp_le)
  have "Fract (n div gcd n d) (d div gcd n d) = Fract n d"
    using assms dpos gpos by (subst eq_rat) (auto simp: div_mult_swap mult.commute)
  then show ?thesis using eq cop dpos assms gpos
    by (simp add: rat_wf_def rat_of_def in_i64_div pos_imp_zdiv_nonneg_iff)
qed

lemma mk_rational_exact:
  assumes "0 \<le> n" "0 < d" "mk_rational n d = Inr r" "in_i64 n" "in_i64 d"
  shows "rat_wf r \<and> rat_of r = Fract n d"
  using assms reduce_exact by (auto simp: mk_rational_def)

lemma rat_add_exact:
  assumes "rat_wf a" "rat_wf b" "rat_add_assign a b = Inr r"
  shows "rat_wf r \<and> rat_of r = rat_of a + rat_of b"
proof -
  from assms have "rat_wf r \<and> rat_of r = Fract (nom a * den b + nom b * den a) (den a * den b)"
    by (intro reduce_exact) (auto simp: rat_add_assign_def bindE_eq_Inr rat_wf_def)
  with assms show ?thesis by (simp add: rat_of_def rat_wf_def)
qed

lemma rat_mul_exact:
  assumes "rat_wf a" "rat_wf b" "rat_mul_assign a b = Inr r"
  shows "rat_wf r \<and> rat_of r = rat_of a * rat_of b"
proof -
  from assms have "rat_wf r \<and> rat_of r = Fract (nom a * nom b) (den a * den b)"
    by (intro reduce_exact) (auto simp: rat_mul_assign_def bindE_eq_Inr rat_wf_def)
  then show ?thesis by (simp add: rat_of_def)
qed

lemma rat_div_exact:
  assumes "rat_wf a" "rat_wf b" "rat_div_assign a b = Inr r"
  shows "rat_wf r \<and> rat_of r = rat_of a / rat_of b"
proof -
  from assms have "nom b \<noteq> 0" by (auto simp: rat_div_assign_def split: if_splits)
  with assms have "rat_wf r \<and> rat_of r = Fract (nom a * den b) (den a * nom b)"
    by (intro reduce_exact) (auto simp: rat_div_assign_def bindE_eq_Inr rat_wf_def)
  then show ?thesis by (simp add: rat_of_def)
qed

lemma rat_div_self_wrong:
  assumes "rat_wf a" "0 < nom a" "rat_div_assign_self a = Inr r"
  shows "rat_of r = 1 / of_int (den a)"
proof -
  from assms have d: "0 < den a" by (simp add: rat_wf_def)
  from assms have "rat_of r = Fract (nom a * den a) (den a * (nom a * den a))"
    using d by (intro reduce_exact [THEN conjunct2]) (auto simp: rat_div_assign_self_def bindE_eq_Inr)
  also have "\<dots> = Fract 1 (den a)" using d assms(2) by (simp add: eq_rat)
  finally show ?thesis by (simp add: Fract_of_int_quotient)
qed

lemma rat_mul_int_exact:
  assumes "rat_wf a" "0 \<le> b" "rat_mul_assign_int a b = Inr r"
  shows "rat_wf r \<and> rat_of r = rat_of a * of_int b"
proof -
  from assms have "rat_wf r \<and> rat_of r = Fract (nom a * b) (den a)"
    by (intro reduce_exact) (auto simp: rat_mul_assign_int_def bindE_eq_Inr rat_wf_def)
  then show ?thesis by (simp add: rat_of_def of_int_rat)
qed

text \<open>Equality of well-formed fractions is equality of the values they stand for.\<close>

lemma rat_eq_iff:
  assumes "rat_wf a" "rat_wf b"
  shows "rat_eq a b \<longleftrightarrow> rat_of a = rat_of b"
proof
  assume e: "rat_of a = rat_of b"
  then have "nom a * den b = nom b * den a"
    using assms by (simp add: rat_of_def rat_wf_def eq_rat)
  then have "\<bar>nom a\<bar> * \<bar>den b\<bar> = \<bar>nom b\<bar> * \<bar>den a\<bar>" by (simp flip: abs_mult)
  then have "\<bar>nom a\<bar> = \<bar>nom b\<bar> \<and> \<bar>den b\<bar> = \<bar>den a\<bar>"
    using assms coprime_crossproduct_int [of "nom a" "den a" "nom b" "den b"]
    by (simp add: rat_wf_def coprime_commute)
  then show "rat_eq a b" using assms by (simp add: rat_eq_def rat_wf_def)
qed (simp add: rat_eq_def rat_of_def)

end
