(* ===== verification/BRV.thy ===== *)
theory BRV
  imports PiGraph RationalNum
begin

text \<open>
  \<open>graphs-tools/numerical/brv.cpp\<close>: the repetition vector of a graph, component by component. The rates are
  the values of the rate expressions (\<open>preComputeEdgeRates\<close>), an edge index to a pair. The handler keeps the
  queue of visited vertices, one rational per vertex and the visited marks; a loop over the growing queue is a
  recursive function whose termination follows from the marks.
\<close>

type_synonym rates = "(int \<times> int) list"

record brv_handler =
  vertexVector :: "nat list"
  rationalVector :: "rational list"
  visitedVertices :: "bool list"
  visitedEdges :: "bool list"

record component =
  c_inputs :: "nat list"   \<comment> \<open>edge of each input interface met\<close>
  c_outputs :: "nat list"  \<comment> \<open>edge of each output interface met\<close>
  c_configs :: "nat list"
  c_edgeCount :: nat

definition brv_handler_new :: "nat \<Rightarrow> nat \<Rightarrow> brv_handler result" where
  "brv_handler_new vertexCount edgeCount =
     bindE (mk_rational 0 1) (\<lambda>zero.
       Inr \<lparr>vertexVector = [], rationalVector = replicate vertexCount zero,
            visitedVertices = replicate vertexCount False, visitedEdges = replicate edgeCount False\<rparr>)"

definition preComputeEdgeRates ::
  "(nat \<Rightarrow> int result) \<Rightarrow> (nat \<Rightarrow> int result) \<Rightarrow> pi_graph \<Rightarrow> rates result" where
  "preComputeEdgeRates srcExpr snkExpr g =
     mapE (\<lambda>e. bindE (srcExpr e) (\<lambda>p. bindE (snkExpr e) (\<lambda>c. Inr (p, c)))) [0..<length (g_edges g)]"

subsection \<open>updateRational\<close>

text \<open>
  The references \<open>sourceRational\<close> and \<open>sinkRational\<close>: the local \<open>dummyRational\<close> for an interface, an element of
  the vector otherwise. Both may name the same element (a self-loop), so every use reads it again.
\<close>

datatype rref = Dummy | Slot nat

definition source_ref :: "vref \<Rightarrow> rref result" where
  "source_ref v = (case v of In_If _ \<Rightarrow> Inr Dummy | Actor i \<Rightarrow> Inr (Slot i) | Out_If i \<Rightarrow> Inr (Slot i))"

definition sink_ref :: "vref \<Rightarrow> rref result" where
  "sink_ref v = (case v of Out_If _ \<Rightarrow> Inr Dummy | Actor i \<Rightarrow> Inr (Slot i) | In_If i \<Rightarrow> Inr (Slot i))"

fun get_ref :: "rref \<Rightarrow> rational \<times> rational list \<Rightarrow> rational result" where
  "get_ref Dummy (d, rv) = Inr d"
| "get_ref (Slot i) (d, rv) = get_at rv i"

fun put_ref :: "rref \<Rightarrow> rational \<Rightarrow> rational \<times> rational list \<Rightarrow> (rational \<times> rational list) result" where
  "put_ref Dummy r (d, rv) = Inr (r, rv)"
| "put_ref (Slot i) r (d, rv) = bindE (set_at rv i r) (\<lambda>rv'. Inr (d, rv'))"

text \<open>\<open>if (rate && !dst.nominator()) { dst = Rational{ num, rate }; if (other.nominator()) dst *= other; }\<close>\<close>

definition propagate ::
  "int \<Rightarrow> int \<Rightarrow> rref \<Rightarrow> rref \<Rightarrow> rational \<times> rational list \<Rightarrow> (rational \<times> rational list) result" where
  "propagate num rate dst other st =
     bindE (get_ref dst st) (\<lambda>d.
       if rate \<noteq> 0 \<and> nom d = 0 then
         bindE (mk_rational num rate) (\<lambda>r. bindE (put_ref dst r st) (\<lambda>st1.
         bindE (get_ref other st1) (\<lambda>r2.
           if nom r2 \<noteq> 0 then
             bindE (get_ref dst st1) (\<lambda>d1. bindE (rat_mul_assign d1 r2) (\<lambda>d2. put_ref dst d2 st1))
           else Inr st1)))
       else Inr st)"

definition updateRational :: "pi_graph \<Rightarrow> rates \<Rightarrow> nat \<Rightarrow> rational list \<Rightarrow> rational list result" where
  "updateRational g rates e rv =
     bindE (mk_rational 1 1) (\<lambda>dummyRational.
     bindE (get_at (g_edges g) e) (\<lambda>edge. bindE (get_at rates e) (\<lambda>(sourceRate, sinkRate).
       if (sinkRate = 0 \<and> sourceRate \<noteq> 0) \<or> (sinkRate \<noteq> 0 \<and> sourceRate = 0) then Inl Spider_Exception
       else bindE (source_ref (e_source edge)) (\<lambda>src. bindE (sink_ref (e_sink edge)) (\<lambda>snk.
            bindE (propagate sourceRate sinkRate snk src (dummyRational, rv)) (\<lambda>st.
            bindE (propagate sinkRate sourceRate src snk st) (\<lambda>st. Inr (snd st))))))))"

subsection \<open>extractConnectedComponent\<close>

text \<open>Registering the vertex at the other end of an edge.\<close>

definition register_vertex :: "nat \<Rightarrow> brv_handler \<Rightarrow> brv_handler result" where
  "register_vertex i h =
     bindE (get_at (visitedVertices h) i) (\<lambda>v.
       if v then Inr h
       else Inr (h\<lparr>vertexVector := vertexVector h @ [i], visitedVertices := (visitedVertices h)[i := True]\<rparr>))"

definition visit_output_edge ::
  "pi_graph \<Rightarrow> rates \<Rightarrow> brv_handler \<times> component \<Rightarrow> nat option \<Rightarrow> (brv_handler \<times> component) result" where
  "visit_output_edge g rates hc edge =
     (case hc of (h, c) \<Rightarrow>
       case edge of None \<Rightarrow> Inl Spider_Exception
       | Some e \<Rightarrow>
           bindE (get_at (visitedEdges h) e) (\<lambda>v.
             if v then Inr (h, c)
             else bindE (get_at (g_edges g) e) (\<lambda>ed.
                  bindE (updateRational g rates e (rationalVector h)) (\<lambda>rv.
                  let h1 = h\<lparr>visitedEdges := (visitedEdges h)[e := True], rationalVector := rv\<rparr> in
                  if subtype g (e_sink ed) = OUTPUT then Inr (h1, c\<lparr>c_outputs := c_outputs c @ [e]\<rparr>)
                  else case e_sink ed of
                         Actor i \<Rightarrow> bindE (register_vertex i h1) (\<lambda>h2. Inr (h2, c))
                       | _ \<Rightarrow> Inl Undefined_Behaviour))))"

definition visit_input_edge ::
  "pi_graph \<Rightarrow> rates \<Rightarrow> brv_handler \<times> component \<Rightarrow> nat option \<Rightarrow> (brv_handler \<times> component) result" where
  "visit_input_edge g rates hc edge =
     (case hc of (h, c) \<Rightarrow>
       case edge of None \<Rightarrow> Inl Spider_Exception
       | Some e \<Rightarrow>
           bindE (get_at (visitedEdges h) e) (\<lambda>v.
             if v then Inr (h, c)
             else bindE (get_at (g_edges g) e) (\<lambda>ed.
                  bindE (updateRational g rates e (rationalVector h)) (\<lambda>rv.
                  let h1 = h\<lparr>visitedEdges := (visitedEdges h)[e := True], rationalVector := rv\<rparr> in
                  if subtype g (e_source ed) = INPUT
                  then Inr (h1, c\<lparr>c_edgeCount := c_edgeCount c + 1, c_inputs := c_inputs c @ [e]\<rparr>)
                  else case e_source ed of
                         Actor i \<Rightarrow> bindE (register_vertex i h1) (\<lambda>h2. Inr (h2, c))
                       | _ \<Rightarrow> Inl Undefined_Behaviour))))"

text \<open>
  One iteration of the loop: the vertex at \<open>visitedIndex\<close>. \<open>seed\<close> is the vertex the component started from:
  the code registers it, not the current vertex, for every configuration vertex.
\<close>

definition visit_vertex ::
  "pi_graph \<Rightarrow> rates \<Rightarrow> nat \<Rightarrow> nat \<Rightarrow> brv_handler \<times> component \<Rightarrow> (brv_handler \<times> component) result" where
  "visit_vertex g rates seed i hc =
     bindE (get_at (g_vertices g) i) (\<lambda>v.
       let c1 = (snd hc)\<lparr>c_edgeCount := c_edgeCount (snd hc) + length (v_out v)\<rparr>;
           c2 = (if v_type v = CONFIG then c1\<lparr>c_configs := c_configs c1 @ [seed]\<rparr> else c1)
       in bindE (foldE (visit_output_edge g rates) (fst hc, c2) (v_out v)) (\<lambda>hc1.
          foldE (visit_input_edge g rates) hc1 (v_in v)))"

text \<open>What is left: the vertices not yet visited and the part of the queue not yet processed.\<close>

definition unvisited :: "brv_handler \<Rightarrow> nat" where
  "unvisited h = length (filter Not (visitedVertices h)) + length (vertexVector h)"

lemma filter_Not_update:
  "i < length xs \<Longrightarrow> \<not> xs ! i \<Longrightarrow> length (filter Not (xs[i := True])) + 1 = length (filter Not xs)"
proof (induction xs arbitrary: i)
  case (Cons x xs)
  then show ?case by (cases i) auto
qed simp

lemma register_vertex_unvisited:
  "register_vertex i h = Inr h' \<Longrightarrow>
   unvisited h' = unvisited h \<and> length (vertexVector h) \<le> length (vertexVector h') \<and> visitedEdges h' = visitedEdges h"
  using filter_Not_update [of i "visitedVertices h"]
  by (auto simp: register_vertex_def unvisited_def split: if_splits)

lemma visit_output_edge_unvisited:
  "visit_output_edge g rates hc e = Inr hc' \<Longrightarrow>
   unvisited (fst hc') = unvisited (fst hc) \<and> length (vertexVector (fst hc)) \<le> length (vertexVector (fst hc'))"
  by (cases hc) (auto simp: visit_output_edge_def Let_def unvisited_def split: option.splits if_splits vref.splits
      dest!: register_vertex_unvisited)

lemma visit_input_edge_unvisited:
  "visit_input_edge g rates hc e = Inr hc' \<Longrightarrow>
   unvisited (fst hc') = unvisited (fst hc) \<and> length (vertexVector (fst hc)) \<le> length (vertexVector (fst hc'))"
  by (cases hc) (auto simp: visit_input_edge_def Let_def unvisited_def split: option.splits if_splits vref.splits
      dest!: register_vertex_unvisited)

lemma visit_vertex_unvisited:
  assumes "visit_vertex g rates seed i hc = Inr hc'"
  shows "unvisited (fst hc') = unvisited (fst hc) \<and> length (vertexVector (fst hc)) \<le> length (vertexVector (fst hc'))"
proof -
  let ?P = "\<lambda>x y. unvisited (fst y) = unvisited (fst x) \<and> length (vertexVector (fst x)) \<le> length (vertexVector (fst y))"
  from assms obtain v :: pi_vertex and c hc1 where
    f: "foldE (visit_output_edge g rates) (fst hc, c) (v_out v) = Inr hc1"
       "foldE (visit_input_edge g rates) hc1 (v_in v) = Inr hc'"
    unfolding visit_vertex_def Let_def by (elim bindE_InrE) blast
  have "?P (fst hc, c) hc1"
    by (rule foldE_invariant [OF f(1)]) (auto dest: visit_output_edge_unvisited)
  moreover have "?P hc1 hc'"
    by (rule foldE_invariant [OF f(2)]) (auto dest: visit_input_edge_unvisited)
  ultimately show ?thesis by auto
qed

function extract_loop ::
  "pi_graph \<Rightarrow> rates \<Rightarrow> nat \<Rightarrow> nat \<Rightarrow> brv_handler \<times> component \<Rightarrow> (brv_handler \<times> component) result" where
  "extract_loop g rates seed visitedIndex hc =
     (if visitedIndex < length (vertexVector (fst hc)) then
        bindE (visit_vertex g rates seed (vertexVector (fst hc) ! visitedIndex) hc)
          (\<lambda>hc'. extract_loop g rates seed (Suc visitedIndex) hc')
      else Inr hc)"
  by pat_completeness auto

termination
  by (relation "measure (\<lambda>(g, rates, seed, ix, hc). unvisited (fst hc) - ix)")
    (auto simp: unvisited_def dest!: visit_vertex_unvisited)

declare extract_loop.simps [simp del]

definition extractConnectedComponent ::
  "pi_graph \<Rightarrow> rates \<Rightarrow> nat \<Rightarrow> brv_handler \<Rightarrow> (brv_handler \<times> component) result" where
  "extractConnectedComponent g rates vertex h =
     bindE (set_at (visitedVertices h) vertex True) (\<lambda>vis.
       extract_loop g rates vertex (length (vertexVector h))
         (h\<lparr>vertexVector := vertexVector h @ [vertex], visitedVertices := vis\<rparr>,
          \<lparr>c_inputs = [], c_outputs = [], c_configs = [], c_edgeCount = 0\<rparr>))"

subsection \<open>The repetition values\<close>

definition setRepetitionValue :: "pi_graph \<Rightarrow> nat \<Rightarrow> nat \<Rightarrow> nat list \<Rightarrow> nat list result" where
  "setRepetitionValue g i value rv =
     bindE (get_at (g_vertices g) i) (\<lambda>v.
       if v_type v \<in> {CONFIG, DELAY, EXTERN_IN, EXTERN_OUT} \<and> value > 1 then Inl Spider_Exception
       else set_at rv i value)"

text \<open>\<open>repetitionValue()\<close> of an end of an edge: an interface keeps the initial value 1.\<close>

definition repetitionValue :: "nat list \<Rightarrow> vref \<Rightarrow> nat result" where
  "repetitionValue rv v = (case v of Actor i \<Rightarrow> get_at rv i | _ \<Rightarrow> Inr 1)"

definition scale_vertex :: "pi_graph \<Rightarrow> int \<Rightarrow> brv_handler \<times> nat list \<Rightarrow> nat \<Rightarrow> (brv_handler \<times> nat list) result" where
  "scale_vertex g lcmFactor hr i =
     bindE (get_at (rationalVector (fst hr)) i) (\<lambda>r.
     bindE (rat_mul_assign_int r lcmFactor) (\<lambda>r'.
     bindE (rat_to_uint64 r') (\<lambda>x.
     bindE (setRepetitionValue g i (x mod 2 ^ 32) (snd hr)) (\<lambda>rv'.
       Inr ((fst hr)\<lparr>rationalVector := (rationalVector (fst hr))[i := r']\<rparr>, rv')))))"

definition computeRepetitionValues ::
  "pi_graph \<Rightarrow> nat list \<Rightarrow> brv_handler \<times> nat list \<Rightarrow> (brv_handler \<times> nat list) result" where
  "computeRepetitionValues g vs hr =
     bindE (foldE (\<lambda>l i. bindE (get_at (rationalVector (fst hr)) i) (\<lambda>r. c_lcm l (den r))) 1 vs) (\<lambda>lcmFactor.
     foldE (scale_vertex g lcmFactor) hr vs)"

text \<open>\<open>rate * repetitionValue * scaleRVFactor\<close>, on \<open>int64_t\<close>.\<close>

definition total_rate :: "int \<Rightarrow> nat \<Rightarrow> nat \<Rightarrow> int result" where
  "total_rate rate rv scaleRVFactor = bindE (i64 (rate * int rv)) (\<lambda>x. i64 (x * int scaleRVFactor))"

definition scale_by :: "int \<Rightarrow> int \<Rightarrow> nat \<Rightarrow> nat result" where
  "scale_by bound tot scaleRVFactor =
     (if tot \<noteq> 0 \<and> tot < bound
      then bindE (ceilDiv bound tot) (\<lambda>k. Inr (mul32 scaleRVFactor (to_u32 k)))
      else Inr scaleRVFactor)"

definition updateInput :: "pi_graph \<Rightarrow> rates \<Rightarrow> nat list \<Rightarrow> nat \<Rightarrow> nat \<Rightarrow> nat result" where
  "updateInput g rates rv scaleRVFactor e =
     bindE (get_at (g_edges g) e) (\<lambda>ed. bindE (get_at rates e) (\<lambda>(sourceRate, sinkRate).
     bindE (repetitionValue rv (e_sink ed)) (\<lambda>r.
     bindE (total_rate sinkRate r scaleRVFactor) (\<lambda>totalCons. scale_by sourceRate totalCons scaleRVFactor))))"

definition updateOutput :: "pi_graph \<Rightarrow> rates \<Rightarrow> nat list \<Rightarrow> nat \<Rightarrow> nat \<Rightarrow> nat result" where
  "updateOutput g rates rv scaleRVFactor e =
     bindE (get_at (g_edges g) e) (\<lambda>ed. bindE (get_at rates e) (\<lambda>(sourceRate, sinkRate).
     bindE (repetitionValue rv (e_source ed)) (\<lambda>r.
     bindE (total_rate sourceRate r scaleRVFactor) (\<lambda>totalProd. scale_by sinkRate totalProd scaleRVFactor))))"

definition some_edge :: "nat option \<Rightarrow> nat result" where
  "some_edge e = (case e of None \<Rightarrow> Inl Null_Deref | Some e \<Rightarrow> Inr e)"

definition updateComponentBRV ::
  "pi_graph \<Rightarrow> rates \<Rightarrow> component \<Rightarrow> nat list \<Rightarrow> nat list \<Rightarrow> nat list result" where
  "updateComponentBRV g rates c vs rv =
     bindE (foldE (\<lambda>k cfg. bindE (get_at (g_vertices g) cfg) (\<lambda>v.
              foldE (\<lambda>k oe. bindE (some_edge oe) (\<lambda>e. updateInput g rates rv k e)) k (v_out v))) 1 (c_configs c)) (\<lambda>k1.
     bindE (foldE (updateInput g rates rv) k1 (c_inputs c)) (\<lambda>k2.
     bindE (foldE (updateOutput g rates rv) k2 (c_outputs c)) (\<lambda>scaleRVFactor.
       if scaleRVFactor > 1
       then foldE (\<lambda>rv i. bindE (get_at rv i) (\<lambda>r. setRepetitionValue g i (mul32 r scaleRVFactor) rv)) rv vs
       else Inr rv)))"

definition check_edge :: "pi_graph \<Rightarrow> rates \<Rightarrow> nat list \<Rightarrow> nat option \<Rightarrow> unit result" where
  "check_edge g rates rv oe =
     bindE (some_edge oe) (\<lambda>e. bindE (get_at (g_edges g) e) (\<lambda>ed.
       if subtype g (e_sink ed) = OUTPUT then Inr ()
       else bindE (get_at rates e) (\<lambda>(sourceRate, sinkRate).
            bindE (repetitionValue rv (e_source ed)) (\<lambda>rs. bindE (repetitionValue rv (e_sink ed)) (\<lambda>rk.
            bindE (i64 (sourceRate * int rs)) (\<lambda>p. bindE (i64 (sinkRate * int rk)) (\<lambda>q.
              if p \<noteq> q then Inl Spider_Exception else Inr ())))))))"

definition checkConsistency :: "pi_graph \<Rightarrow> rates \<Rightarrow> nat list \<Rightarrow> nat list \<Rightarrow> unit result" where
  "checkConsistency g rates vs rv =
     foldE (\<lambda>_ i. bindE (get_at (g_vertices g) i) (\<lambda>v. foldE (\<lambda>_ oe. check_edge g rates rv oe) () (v_out v))) () vs"

text \<open>The loop over the edges stops at the first rate that is not null.\<close>

fun all_null :: "rates \<Rightarrow> (int \<times> int \<Rightarrow> int) \<Rightarrow> nat option list \<Rightarrow> bool result" where
  "all_null rates f [] = Inr True"
| "all_null rates f (oe # es) =
     bindE (some_edge oe) (\<lambda>e. bindE (get_at rates e) (\<lambda>r. if f r \<noteq> 0 then Inr False else all_null rates f es))"

definition checkAloneVertexInSubgraph :: "pi_graph \<Rightarrow> rates \<Rightarrow> nat \<Rightarrow> nat list \<Rightarrow> nat list result" where
  "checkAloneVertexInSubgraph g rates i rv =
     bindE (get_at (g_vertices g) i) (\<lambda>v.
     bindE (all_null rates snd (v_in v)) (\<lambda>allInputNull.
       if allInputNull then
         bindE (all_null rates fst (v_out v)) (\<lambda>allOutputNull.
           if allOutputNull then setRepetitionValue g i 0 rv else Inr rv)
       else Inr rv))"

definition set_alone ::
  "pi_graph \<Rightarrow> rates \<Rightarrow> component \<Rightarrow> nat list \<Rightarrow> nat list \<Rightarrow> nat list result" where
  "set_alone g rates c vs rv =
     (if length vs = 1 \<and> (c_inputs c \<noteq> [] \<or> c_outputs c \<noteq> [] \<or> c_configs c \<noteq> []) then
        bindE (checkAloneVertexInSubgraph g rates (hd vs) rv) (\<lambda>rv1.
        bindE (get_at rv1 (hd vs)) (\<lambda>r. if r > 1 then setRepetitionValue g (hd vs) 1 rv1 else Inr rv1))
      else Inr rv)"

definition compute_component ::
  "pi_graph \<Rightarrow> rates \<Rightarrow> brv_handler \<times> nat list \<Rightarrow> nat \<Rightarrow> (brv_handler \<times> nat list) result" where
  "compute_component g rates hr vertex =
     bindE (get_at (visitedVertices (fst hr)) vertex) (\<lambda>visited.
       if visited then Inr hr
       else bindE (extractConnectedComponent g rates vertex (fst hr)) (\<lambda>(h, c).
         let vs = drop (length (vertexVector (fst hr))) (vertexVector h) in
         if c_edgeCount c = 0 then Inr (h, snd hr)
         else bindE (computeRepetitionValues g vs (h, snd hr)) (\<lambda>(h1, rv1).
              bindE (set_alone g rates c vs rv1) (\<lambda>rv2.
              bindE (updateComponentBRV g rates c vs rv2) (\<lambda>rv3.
              bindE (checkConsistency g rates vs rv3) (\<lambda>_. Inr (h1, rv3)))))))"

definition brv_compute :: "pi_graph \<Rightarrow> rates \<Rightarrow> nat list \<Rightarrow> nat list result" where
  "brv_compute g rates rv =
     bindE (brv_handler_new (length (g_vertices g)) (length (g_edges g))) (\<lambda>h.
     bindE (foldE (compute_component g rates) (h, rv) [0..<length (g_vertices g)]) (\<lambda>hr. Inr (snd hr)))"

end
