(* ===== verification/Dependencies.thy ===== *)
theory Dependencies
  imports PiGraph CMath
begin

text \<open>
  \<open>graphs-tools/numerical\<close>: which firings a firing needs (\<open>computeExecDependency\<close>) and which firings need it
  (\<open>computeConsDependency\<close>), through delays, interfaces and subgraphs. A \<open>GraphFiring\<close> is an index into the firings
  of a \<open>world\<close>, which also holds the graphs; the functor applied to each dependency is the one that collects them.
  The recursion through the hierarchy is bounded by fuel (\<open>None\<close> when it runs out); \<open>int64_t\<close> values are
  unbounded here, the 32-bit fields of a \<open>DependencyInfo\<close> are truncated as in the code.
\<close>

record delay =
  d_value :: int
  d_setter :: nat
  d_setterPort :: nat
  d_getter :: nat
  d_getterPort :: nat

record dep_graph = pi_graph +
  g_delays :: "delay option list"  \<comment> \<open>per edge\<close>
  g_delayEdge :: "nat list"        \<comment> \<open>per vertex: the edge of the delay of a \<open>DelayVertex\<close>\<close>
  g_subgraph :: "nat list"         \<comment> \<open>per vertex: the graph a \<open>GRAPH\<close> vertex is\<close>
  g_self :: nat                    \<comment> \<open>its index in the containing graph\<close>

record graph_firing =
  gf_graph :: nat
  gf_srcRates :: "int list"
  gf_snkRates :: "int list"
  gf_brv :: "nat list"
  gf_firing :: nat
  gf_base :: nat  \<comment> \<open>\<open>getParent()->base()\<close>\<close>
  gf_resolved :: bool
  gf_subs :: "nat \<Rightarrow> nat \<Rightarrow> nat option"  \<comment> \<open>\<open>getSubgraphGraphFiring\<close>: subgraph vertex and firing\<close>

record world =
  w_graphs :: "dep_graph list"
  w_firings :: "graph_firing list"

record dep_info =
  dep_vertex :: "vref option"
  dep_handler :: "nat option"
  dep_rate :: int
  dep_edgeIx :: nat
  dep_memoryStart :: nat
  dep_memoryEnd :: nat
  dep_firingStart :: nat
  dep_firingEnd :: nat

definition null_dep :: dep_info where
  "null_dep = \<lparr>dep_vertex = None, dep_handler = None, dep_rate = 0, dep_edgeIx = 0, dep_memoryStart = 0,
     dep_memoryEnd = 0, dep_firingStart = 0, dep_firingEnd = 0\<rparr>"

definition unresolved_dep :: dep_info where
  "unresolved_dep = \<lparr>dep_vertex = None, dep_handler = None, dep_rate = -1, dep_edgeIx = u32_max,
     dep_memoryStart = u32_max, dep_memoryEnd = u32_max, dep_firingStart = u32_max, dep_firingEnd = u32_max\<rparr>"

subsection \<open>Results\<close>

type_synonym deps = "(int \<times> dep_info list) result option"

definition ret_deps :: "int \<Rightarrow> dep_info list \<Rightarrow> deps" where
  "ret_deps n ds = Some (Inr (n, ds))"

definition withE :: "'a result \<Rightarrow> ('a \<Rightarrow> deps) \<Rightarrow> deps" where
  "withE m f = (case m of Inl e \<Rightarrow> Some (Inl e) | Inr x \<Rightarrow> f x)"

text \<open>The sum of two calls, the left one first.\<close>

definition plus_deps :: "deps \<Rightarrow> deps \<Rightarrow> deps" where
  "plus_deps a b =
     (case a of None \<Rightarrow> None | Some (Inl e) \<Rightarrow> Some (Inl e)
      | Some (Inr (n, ds)) \<Rightarrow>
          (case b of None \<Rightarrow> None | Some (Inl e) \<Rightarrow> Some (Inl e) | Some (Inr (m, es)) \<Rightarrow> Some (Inr (n + m, ds @ es))))"

fun sum_deps :: "(nat \<Rightarrow> deps) \<Rightarrow> nat list \<Rightarrow> deps" where
  "sum_deps f [] = ret_deps 0 []"
| "sum_deps f (k # ks) = plus_deps (f k) (sum_deps f ks)"

text \<open>\<open>for (k = first; k <= last; ++k)\<close> on \<open>u32\<close>: it does not end when \<open>last\<close> is \<open>UINT32_MAX\<close>.\<close>

definition sum_firings :: "(nat \<Rightarrow> deps) \<Rightarrow> nat \<Rightarrow> nat \<Rightarrow> deps" where
  "sum_firings f first lst =
     (if lst = u32_max then plus_deps (sum_deps f [first..<2 ^ 32]) None else sum_deps f [first..<Suc lst])"

lemma withE_Inr [simp]: "withE (Inr x) f = f x"
  by (simp add: withE_def)

lemma withE_Inl [simp]: "withE (Inl e) f = Some (Inl e)"
  by (simp add: withE_def)

lemma plus_deps_ret [simp]: "plus_deps (ret_deps n ds) (ret_deps m es) = ret_deps (n + m) (ds @ es)"
  by (simp add: plus_deps_def ret_deps_def)

subsection \<open>Reading the world\<close>

definition firing_of :: "world \<Rightarrow> nat \<Rightarrow> graph_firing result" where
  "firing_of W h = get_at (w_firings W) h"

definition graph_of :: "world \<Rightarrow> nat \<Rightarrow> dep_graph result" where
  "graph_of W h = bindE (firing_of W h) (\<lambda>f. get_at (w_graphs W) (gf_graph f))"

definition edge_of :: "world \<Rightarrow> nat \<Rightarrow> nat \<Rightarrow> pi_edge result" where
  "edge_of W h e = bindE (graph_of W h) (\<lambda>g. get_at (g_edges g) e)"

definition getSrcRate :: "world \<Rightarrow> nat \<Rightarrow> nat \<Rightarrow> int result" where
  "getSrcRate W h e = bindE (firing_of W h) (\<lambda>f. get_at (gf_srcRates f) e)"

definition getSnkRate :: "world \<Rightarrow> nat \<Rightarrow> nat \<Rightarrow> int result" where
  "getSnkRate W h e = bindE (firing_of W h) (\<lambda>f. get_at (gf_snkRates f) e)"

definition getRV :: "world \<Rightarrow> nat \<Rightarrow> vref \<Rightarrow> nat result" where
  "getRV W h v = (case v of Actor i \<Rightarrow> bindE (firing_of W h) (\<lambda>f. get_at (gf_brv f) i) | _ \<Rightarrow> Inr 1)"

definition delay_of :: "world \<Rightarrow> nat \<Rightarrow> nat \<Rightarrow> delay option result" where
  "delay_of W h e = bindE (graph_of W h) (\<lambda>g. get_at (g_delays g) e)"

definition delayValue :: "delay option \<Rightarrow> int" where
  "delayValue d = (case d of None \<Rightarrow> 0 | Some d \<Rightarrow> d_value d)"

definition subtype_of :: "world \<Rightarrow> nat \<Rightarrow> vref \<Rightarrow> vertex_type result" where
  "subtype_of W h v =
     (case v of Actor i \<Rightarrow> bindE (graph_of W h) (\<lambda>g. bindE (get_at (g_vertices g) i) (\<lambda>x. Inr (v_type x)))
      | In_If _ \<Rightarrow> Inr INPUT | Out_If _ \<Rightarrow> Inr OUTPUT)"

text \<open>\<open>delay->setter()->outputEdge(setterPortIx())\<close> and its counterpart for the getter.\<close>

definition port_edge :: "nat option list \<Rightarrow> nat \<Rightarrow> nat result" where
  "port_edge ports p = bindE (get_at ports p) (\<lambda>oe. case oe of None \<Rightarrow> Inl Null_Deref | Some e \<Rightarrow> Inr e)"

definition setterEdge :: "world \<Rightarrow> nat \<Rightarrow> delay \<Rightarrow> nat result" where
  "setterEdge W h d =
     bindE (graph_of W h) (\<lambda>g. bindE (get_at (g_vertices g) (d_setter d)) (\<lambda>v. port_edge (v_out v) (d_setterPort d)))"

definition getterEdge :: "world \<Rightarrow> nat \<Rightarrow> delay \<Rightarrow> nat result" where
  "getterEdge W h d =
     bindE (graph_of W h) (\<lambda>g. bindE (get_at (g_vertices g) (d_getter d)) (\<lambda>v. port_edge (v_in v) (d_getterPort d)))"

text \<open>\<open>convertTo<DelayVertex>()->delay()->edge()\<close>.\<close>

definition delayVertexEdge :: "world \<Rightarrow> nat \<Rightarrow> vref \<Rightarrow> nat result" where
  "delayVertexEdge W h v =
     (case v of Actor i \<Rightarrow> bindE (graph_of W h) (\<lambda>g. get_at (g_delayEdge g) i) | _ \<Rightarrow> Inl Undefined_Behaviour)"

text \<open>The edge above an interface: the port of the graph seen from the containing graph.\<close>

definition upperInputEdge :: "world \<Rightarrow> nat \<Rightarrow> nat \<Rightarrow> (nat \<times> nat) result" where
  "upperInputEdge W h port =
     bindE (firing_of W h) (\<lambda>f. bindE (graph_of W h) (\<lambda>g. bindE (graph_of W (gf_base f)) (\<lambda>up.
     bindE (get_at (g_vertices up) (g_self g)) (\<lambda>v. bindE (port_edge (v_in v) port) (\<lambda>e. Inr (e, gf_base f))))))"

definition upperOutputEdge :: "world \<Rightarrow> nat \<Rightarrow> nat \<Rightarrow> (nat \<times> nat) result" where
  "upperOutputEdge W h port =
     bindE (firing_of W h) (\<lambda>f. bindE (graph_of W h) (\<lambda>g. bindE (graph_of W (gf_base f)) (\<lambda>up.
     bindE (get_at (g_vertices up) (g_self g)) (\<lambda>v. bindE (port_edge (v_out v) port) (\<lambda>e. Inr (e, gf_base f))))))"

text \<open>The edge below a port of a subgraph, and the firings of the subgraph.\<close>

definition innerGraph :: "world \<Rightarrow> nat \<Rightarrow> vref \<Rightarrow> dep_graph result" where
  "innerGraph W h v =
     (case v of Actor i \<Rightarrow> bindE (graph_of W h) (\<lambda>g. bindE (get_at (g_subgraph g) i) (\<lambda>s. get_at (w_graphs W) s))
      | _ \<Rightarrow> Inl Undefined_Behaviour)"

definition subgraphFiring :: "world \<Rightarrow> nat \<Rightarrow> vref \<Rightarrow> nat \<Rightarrow> nat result" where
  "subgraphFiring W h v k =
     (case v of Actor i \<Rightarrow> bindE (firing_of W h) (\<lambda>f. case gf_subs f i k of None \<Rightarrow> Inl Undefined_Behaviour | Some s \<Rightarrow> Inr s)
      | _ \<Rightarrow> Inl Undefined_Behaviour)"

definition sdivE :: "int \<Rightarrow> int \<Rightarrow> int result" where
  "sdivE x y = (if y = 0 then Inl Undefined_Behaviour else Inr (x sdiv y))"

definition smodE :: "int \<Rightarrow> int \<Rightarrow> int result" where
  "smodE x y = (if y = 0 then Inl Undefined_Behaviour else Inr (x smod y))"

subsection \<open>Execution dependencies\<close>

definition createExecDependency :: "pi_edge \<Rightarrow> int \<Rightarrow> int \<Rightarrow> int \<Rightarrow> int \<Rightarrow> nat \<Rightarrow> dep_info" where
  "createExecDependency edge lowerCons upperCons srcRate delay h =
     (if srcRate = 0 then null_dep
      else let delayedLowerCons = lowerCons - delay; delayedUpperCons = upperCons - delay in
        \<lparr>dep_vertex = Some (e_source edge), dep_handler = Some h, dep_rate = srcRate,
         dep_edgeIx = e_source_port edge mod 2 ^ 32,
         dep_memoryStart = to_u32 (delayedLowerCons smod srcRate), dep_memoryEnd = to_u32 (delayedUpperCons smod srcRate),
         dep_firingStart = to_u32 (delayedLowerCons sdiv srcRate), dep_firingEnd = to_u32 (delayedUpperCons sdiv srcRate)\<rparr>)"

text \<open>The number of firings, \<open>firingEnd_ - firingStart_ + 1\<close> on \<open>u32\<close>, cast to \<open>i32\<close>.\<close>

definition firing_count :: "dep_info \<Rightarrow> int" where
  "firing_count d =
     (let n = (dep_firingEnd d + (2 ^ 32 - dep_firingStart d) + 1) mod 2 ^ 32
      in if n < 2 ^ 31 then int n else int n - 2 ^ 32)"

text \<open>
  The recursive call is the argument \<open>rec\<close> of each routine; \<open>execDep\<close> ties the knot on fuel, one unit per call of
  \<open>computeExecDependency\<close>.
\<close>

definition execDepInput :: "(nat \<Rightarrow> int \<Rightarrow> int \<Rightarrow> nat \<Rightarrow> deps) \<Rightarrow> world \<Rightarrow> nat \<Rightarrow> pi_edge \<Rightarrow> int \<Rightarrow> int \<Rightarrow> int \<Rightarrow> nat \<Rightarrow> deps" where
  "execDepInput rec W e edge lowerCons upperCons dv h =
     withE (getSrcRate W h e) (\<lambda>srcRate. withE (firing_of W h) (\<lambda>f.
     withE (case e_source edge of In_If p \<Rightarrow> upperInputEdge W h p | _ \<Rightarrow> Inl Undefined_Behaviour) (\<lambda>(upperEdge, base).
     withE (sdivE (lowerCons - dv) srcRate) (\<lambda>fs. withE (sdivE (upperCons - dv) srcRate) (\<lambda>fe.
     withE (smodE (lowerCons - dv) srcRate) (\<lambda>lowerConsMod. withE (smodE (upperCons - dv) srcRate) (\<lambda>upperConsMod.
     let upperLCons = srcRate * int (gf_firing f); firingStart = to_u32 fs; firingEnd = to_u32 fe in
     sum_firings (\<lambda>k.
       rec upperEdge (upperLCons + (if k = firingStart then lowerConsMod else 0))
         (upperLCons + (if k = firingEnd then upperConsMod else srcRate - 1)) base)
       firingStart firingEnd)))))))"

definition execDepGraph :: "(nat \<Rightarrow> int \<Rightarrow> int \<Rightarrow> nat \<Rightarrow> deps) \<Rightarrow> world \<Rightarrow> nat \<Rightarrow> pi_edge \<Rightarrow> int \<Rightarrow> int \<Rightarrow> int \<Rightarrow> nat \<Rightarrow> deps" where
  "execDepGraph rec W e edge lowerCons upperCons dv h =
     withE (getSrcRate W h e) (\<lambda>srcRate. withE (innerGraph W h (e_source edge)) (\<lambda>sub.
     withE (port_edge (g_out_ifs sub) (e_source_port edge)) (\<lambda>innerEdge.
     withE (get_at (g_delays sub) innerEdge) (\<lambda>innerDelay.
     withE (get_at (g_edges sub) innerEdge) (\<lambda>inner.
     withE (sdivE (lowerCons - dv) srcRate) (\<lambda>fs. withE (sdivE (upperCons - dv) srcRate) (\<lambda>fe.
     withE (smodE (lowerCons - dv) srcRate) (\<lambda>lm. withE (smodE (upperCons - dv) srcRate) (\<lambda>um.
     let ifDelay = delayValue innerDelay;
         firingStart = to_u32 fs; firingEnd = to_u32 fe;
         lowerConsMod = lm + ifDelay; upperConsMod = um + ifDelay - srcRate in
     sum_firings (\<lambda>k.
       withE (subgraphFiring W h (e_source edge) k) (\<lambda>gh. withE (firing_of W gh) (\<lambda>f.
         if gf_resolved f then
           withE (getSrcRate W gh innerEdge) (\<lambda>r. withE (getRV W gh (e_source inner)) (\<lambda>rv.
           let ifSrcRate = r * int rv;
               start = (if k = firingStart then lowerConsMod else ifDelay);
               endv = (if k = firingEnd then upperConsMod else ifDelay - 1)
           in rec innerEdge (ifSrcRate - srcRate + start) (ifSrcRate + endv) gh))
         else ret_deps 0 [unresolved_dep])))
       firingStart firingEnd)))))))))"

definition execDep_step :: "(nat \<Rightarrow> int \<Rightarrow> int \<Rightarrow> nat \<Rightarrow> deps) \<Rightarrow> world \<Rightarrow> nat \<Rightarrow> int \<Rightarrow> int \<Rightarrow> nat \<Rightarrow> deps" where
  "execDep_step rec W e lowerCons upperCons h =
     withE (getSnkRate W h e) (\<lambda>snkRate0.
     if snkRate0 = 0 then ret_deps 0 [null_dep]
     else
     withE (edge_of W h e) (\<lambda>edge0. withE (subtype_of W h (e_source edge0)) (\<lambda>type0.
     withE (if type0 = DELAY then
              bindE (delayVertexEdge W h (e_source edge0)) (\<lambda>de. bindE (edge_of W h de) (\<lambda>delayEdge.
              bindE (getSrcRate W h e) (\<lambda>srcRate. bindE (getSnkRate W h de) (\<lambda>snkRate.
              bindE (getRV W h (e_source delayEdge)) (\<lambda>srcRV. bindE (getRV W h (e_sink delayEdge)) (\<lambda>snkRV.
              bindE (subtype_of W h (e_sink delayEdge)) (\<lambda>snkType.
              let offset = (if snkType = OUTPUT then srcRate * int srcRV - snkRate else snkRate * int snkRV)
              in Inr (de, lowerCons + offset, upperCons + offset))))))))
            else Inr (e, lowerCons, upperCons)) (\<lambda>(e1, lower, upper).
     withE (delay_of W h e1) (\<lambda>delay1.
     withE (case delay1 of
              Some d \<Rightarrow> if upper < d_value d then bindE (setterEdge W h d) (\<lambda>se. Inr (se, None)) else Inr (e1, delay1)
            | None \<Rightarrow> Inr (e1, delay1)) (\<lambda>(e2, delay2).
     withE (edge_of W h e2) (\<lambda>edge. withE (subtype_of W h (e_source edge)) (\<lambda>sourceType.
     let dv = delayValue delay2 in
     if lower \<ge> dv then
       (if sourceType = INPUT then execDepInput rec W e2 edge lower upper dv h
        else if sourceType = GRAPH then execDepGraph rec W e2 edge lower upper dv h
        else withE (getSrcRate W h e2) (\<lambda>srcRate.
               let dep = createExecDependency edge lower upper srcRate dv h in ret_deps (firing_count dep) [dep]))
     else (case delay2 of
             Some d \<Rightarrow> withE (setterEdge W h d) (\<lambda>se.
                plus_deps (rec se lower (dv - 1) h) (rec e2 dv upper h))
           | None \<Rightarrow> Some (Inl Spider_Exception))))))))))"

primrec execDep :: "nat \<Rightarrow> world \<Rightarrow> nat \<Rightarrow> int \<Rightarrow> int \<Rightarrow> nat \<Rightarrow> deps" where
  "execDep 0 W = (\<lambda>_ _ _ _. None)"
| "execDep (Suc fuel) W = execDep_step (execDep fuel W) W"

subsection \<open>Consumer dependencies\<close>

definition createConsDependency :: "pi_edge \<Rightarrow> int \<Rightarrow> int \<Rightarrow> int \<Rightarrow> int \<Rightarrow> nat \<Rightarrow> dep_info" where
  "createConsDependency edge lowerProd upperProd snkRate delay h =
     (if snkRate = 0 then null_dep
      else let delayedLowerProd = lowerProd + delay; delayedUpperProd = upperProd + delay;
               startDiv = delayedLowerProd sdiv snkRate; memStart = delayedLowerProd smod snkRate;
               endDiv = delayedUpperProd sdiv snkRate; memEnd = delayedUpperProd smod snkRate in
        \<lparr>dep_vertex = Some (e_sink edge), dep_handler = Some h, dep_rate = snkRate,
         dep_edgeIx = e_sink_port edge mod 2 ^ 32,
         dep_memoryStart = to_u32 memStart, dep_memoryEnd = to_u32 memEnd,
         dep_firingStart = to_u32 (if memStart \<noteq> 0 then startDiv - of_bool (delayedLowerProd < 0) else startDiv),
         dep_firingEnd = to_u32 (if memEnd \<noteq> 0 then endDiv - of_bool (delayedUpperProd < 0) else endDiv)\<rparr>)"

definition consDepOutput :: "(nat \<Rightarrow> int \<Rightarrow> int \<Rightarrow> nat \<Rightarrow> deps) \<Rightarrow> world \<Rightarrow> nat \<Rightarrow> pi_edge \<Rightarrow> int \<Rightarrow> int \<Rightarrow> int \<Rightarrow> nat \<Rightarrow> deps" where
  "consDepOutput rec W e edge lowerProd upperProd totalRate h =
     withE (getSrcRate W h e) (\<lambda>srcRate. withE (getRV W h (e_source edge)) (\<lambda>srcRV.
     withE (getSnkRate W h e) (\<lambda>snkRate. withE (delay_of W h e) (\<lambda>delay. withE (firing_of W h) (\<lambda>f.
     withE (case e_sink edge of Out_If p \<Rightarrow> upperOutputEdge W h p | _ \<Rightarrow> Inl Undefined_Behaviour) (\<lambda>(upperEdge, gh).
     let dv = delayValue delay;
         dep = createConsDependency edge lowerProd upperProd totalRate dv h;
         memStart = int (dep_memoryStart dep); memEnd = int (dep_memoryEnd dep);
         minValidMemWDelay = srcRate * int srcRV - snkRate;
         minValidMemWODelay = minValidMemWDelay + dv;
         parentLProd = snkRate * int (gf_firing f);
         upperLProd = parentLProd + max 0 (memStart - minValidMemWODelay);
         upperUProd = parentLProd + (memEnd - minValidMemWODelay) in
     if memEnd < minValidMemWDelay then ret_deps (-1) []
     else if memStart \<ge> minValidMemWODelay \<or> dv = 0 \<and> memEnd \<ge> minValidMemWODelay then
       rec upperEdge upperLProd upperUProd gh
     else if delay \<noteq> None \<and> memEnd < minValidMemWODelay then
       withE (getterEdge W h (the delay)) (\<lambda>ge.
         rec ge (max 0 (memStart - minValidMemWDelay)) (memEnd - minValidMemWDelay) h)
     else if delay \<noteq> None then
       withE (getterEdge W h (the delay)) (\<lambda>ge.
         plus_deps (rec ge (memStart - minValidMemWDelay) (dv - 1) h)
           (rec upperEdge upperLProd upperUProd gh))
     else Some (Inl Spider_Exception)))))))"

definition consDepGraph :: "(nat \<Rightarrow> int \<Rightarrow> int \<Rightarrow> nat \<Rightarrow> deps) \<Rightarrow> world \<Rightarrow> nat \<Rightarrow> pi_edge \<Rightarrow> int \<Rightarrow> int \<Rightarrow> int \<Rightarrow> nat \<Rightarrow> deps" where
  "consDepGraph rec W e edge lowerProd upperProd dv h =
     withE (getSnkRate W h e) (\<lambda>snkRate.
     withE (smodE (lowerProd + dv) snkRate) (\<lambda>lowerProdMod. withE (smodE (upperProd + dv) snkRate) (\<lambda>upperProdMod.
     withE (floorDiv (lowerProd + dv) snkRate) (\<lambda>fs. withE (floorDiv (upperProd + dv) snkRate) (\<lambda>fe.
     withE (innerGraph W h (e_sink edge)) (\<lambda>sub.
     withE (port_edge (g_in_ifs sub) (e_sink_port edge)) (\<lambda>innerEdge.
     withE (get_at (g_edges sub) innerEdge) (\<lambda>inner.
     let firingStart = to_u32 fs; firingEnd = to_u32 fe in
     sum_firings (\<lambda>k.
       withE (subgraphFiring W h (e_sink edge) k) (\<lambda>gh. withE (firing_of W gh) (\<lambda>f.
         if gf_resolved f then
           withE (getSnkRate W gh innerEdge) (\<lambda>r. withE (getRV W gh (e_sink inner)) (\<lambda>rv.
           let adjustedSnkRate = r * int rv;
               fullRepCount = adjustedSnkRate sdiv snkRate;
               fullRepRest = adjustedSnkRate smod snkRate;
               lProd = (if k = firingStart then lowerProdMod smod snkRate else 0);
               uProd = (if k = firingEnd then upperProdMod else snkRate - 1);
               lp = lProd + fullRepCount * snkRate;
               up = min (uProd + fullRepCount * snkRate) (adjustedSnkRate - 1)
           in plus_deps
                (sum_deps (\<lambda>i. rec innerEdge (lProd + int i * snkRate) (uProd + int i * snkRate) gh)
                   [0..<nat fullRepCount])
                (if fullRepRest \<noteq> 0 \<and> lp < adjustedSnkRate then rec innerEdge lp up gh else ret_deps 0 [])))
         else ret_deps 0 [unresolved_dep])))
       firingStart firingEnd))))))))"

definition consDep_step :: "(nat \<Rightarrow> int \<Rightarrow> int \<Rightarrow> nat \<Rightarrow> deps) \<Rightarrow> world \<Rightarrow> nat \<Rightarrow> int \<Rightarrow> int \<Rightarrow> nat \<Rightarrow> deps" where
  "consDep_step rec W e lowerProd upperProd h =
     withE (edge_of W h e) (\<lambda>edge. withE (subtype_of W h (e_sink edge)) (\<lambda>sinkType.
     withE (getSnkRate W h e) (\<lambda>snkRate. withE (getSrcRate W h e) (\<lambda>srcRate.
     withE (getRV W h (e_source edge)) (\<lambda>srcRV. withE (getRV W h (e_sink edge)) (\<lambda>snkRV.
     withE (delay_of W h e) (\<lambda>delay.
     let dv = delayValue delay;
         totalRate = (if sinkType = OUTPUT then srcRate * int srcRV + dv else snkRate * int snkRV);
         delayedTotalRate = (if sinkType = OUTPUT then totalRate else totalRate - dv) in
     if srcRate = 0 then ret_deps 0 [null_dep]
     else if sinkType = DELAY then
       withE (delayVertexEdge W h (e_sink edge)) (\<lambda>de. withE (delay_of W h de) (\<lambda>nextDelay.
         let offset = delayValue nextDelay - dv in rec de (lowerProd - offset) (upperProd - offset) h))
     else if delay \<noteq> None \<and> lowerProd \<ge> delayedTotalRate then
       withE (getterEdge W h (the delay)) (\<lambda>ge.
         rec ge (lowerProd - delayedTotalRate) (upperProd - delayedTotalRate) h)
     else if upperProd < delayedTotalRate then
       (if sinkType = OUTPUT then consDepOutput rec W e edge lowerProd upperProd totalRate h
        else if sinkType = GRAPH then consDepGraph rec W e edge lowerProd upperProd dv h
        else let dep = createConsDependency edge lowerProd upperProd snkRate dv h in ret_deps (firing_count dep) [dep])
     else if delay \<noteq> None then
       withE (getterEdge W h (the delay)) (\<lambda>ge.
         plus_deps (rec e lowerProd (totalRate - dv - 1) h)
           (rec ge 0 (upperProd - delayedTotalRate) h))
     else Some (Inl Spider_Exception))))))))"

primrec consDep :: "nat \<Rightarrow> world \<Rightarrow> nat \<Rightarrow> int \<Rightarrow> int \<Rightarrow> nat \<Rightarrow> deps" where
  "consDep 0 W = (\<lambda>_ _ _ _. None)"
| "consDep (Suc fuel) W = consDep_step (consDep fuel W) W"

subsection \<open>The entry points\<close>

definition computeExecDependency :: "nat \<Rightarrow> world \<Rightarrow> nat \<Rightarrow> nat \<Rightarrow> nat \<Rightarrow> deps" where
  "computeExecDependency fuel W h e firing =
     withE (getSnkRate W h e) (\<lambda>snkRate.
       execDep fuel W e (snkRate * int firing) (snkRate * int (add32 firing 1) - 1) h)"

definition computeConsDependency :: "nat \<Rightarrow> world \<Rightarrow> nat \<Rightarrow> nat \<Rightarrow> nat \<Rightarrow> deps" where
  "computeConsDependency fuel W h e firing =
     withE (getSrcRate W h e) (\<lambda>srcRate.
       consDep fuel W e (srcRate * int firing) (srcRate * int (add32 firing 1) - 1) h)"

text \<open>\<open>computeExecDependencies\<close>: one iterator per input edge of the vertex.\<close>

definition computeExecDependencies :: "nat \<Rightarrow> world \<Rightarrow> nat \<Rightarrow> pi_vertex \<Rightarrow> nat \<Rightarrow> deps list" where
  "computeExecDependencies fuel W h v firing =
     List.map (\<lambda>p. withE (port_edge (v_in v) p) (\<lambda>e. computeExecDependency fuel W h e firing)) [0..<length (v_in v)]"

definition computeConsDependencies :: "nat \<Rightarrow> world \<Rightarrow> nat \<Rightarrow> pi_vertex \<Rightarrow> nat \<Rightarrow> deps list" where
  "computeConsDependencies fuel W h v firing =
     List.map (\<lambda>p. withE (port_edge (v_out v) p) (\<lambda>e. computeConsDependency fuel W h e firing)) [0..<length (v_out v)]"

definition computeConsLowerDep :: "int \<Rightarrow> int \<Rightarrow> int \<Rightarrow> int \<Rightarrow> int result" where
  "computeConsLowerDep consumption production firing delay =
     bindE (floorDiv (firing * consumption - delay) production) (\<lambda>d. Inr (max (-1) d))"

definition computeConsUpperDep :: "int \<Rightarrow> int \<Rightarrow> int \<Rightarrow> int \<Rightarrow> int result" where
  "computeConsUpperDep consumption production firing delay =
     bindE (floorDiv ((firing + 1) * consumption - delay - 1) production) (\<lambda>d. Inr (max (-1) d))"

text \<open>\<open>DependencyIterator::total\<close>; the test on an empty iterator reads its first element, which does not exist.\<close>

definition dep_total :: "dep_info list \<Rightarrow> nat result" where
  "dep_total ds =
     (if ds = [] then Inl Undefined_Behaviour
      else Inr (sum_list (List.map (\<lambda>d. if dep_rate d \<ge> 0
        then (dep_firingEnd d + (2 ^ 32 - dep_firingStart d) + 1) mod 2 ^ 32 else 0) ds) mod 2 ^ 64))"

end
