(* ===== verification/SRTransform.thy ===== *)
theory SRTransform
  imports SRGraph BRV Dependencies
begin

text \<open>
  \<open>graphs-tools/transformation/srdag/singleRateTransformation.cpp\<close>: every firing of an actor becomes a vertex of the
  single-rate graph, and every edge becomes a network of edges, forks and joins between the firings. The vectors of linkers
  are used from the back: they are lists whose head is the back of the vector. Names are not modelled.
\<close>

subsection \<open>The reference graph and the job\<close>

record 'e sr_graph = dep_graph +
  rg_delayVertex :: "nat list"      \<comment> \<open>per edge: the index of the vertex of its delay\<close>
  rg_inParams :: "nat list list"    \<comment> \<open>per vertex\<close>
  rg_refParams :: "nat list list"
  rg_outParams :: "nat list list"
  rg_executable :: "bool list"
  rg_configs :: "nat list"
  rg_subgraphs :: "nat list"        \<comment> \<open>vertex indices, in the order of \<open>subgraphs()\<close>\<close>
  rg_params :: "nat list"
  rg_dynamic :: bool
  rg_srcExpr :: "'e list"           \<comment> \<open>per edge\<close>
  rg_snkExpr :: "'e list"
  rg_contained :: bool              \<comment> \<open>\<open>graph()\<close> is not null\<close>

record transfo_job =
  tj_params :: "nat list"
  tj_reference :: nat
  tj_instance :: "nat option"
  tj_firing :: nat

definition transfo_job_new :: "nat \<Rightarrow> nat option \<Rightarrow> nat \<Rightarrow> transfo_job" where
  "transfo_job_new graph inst firing = \<lparr>tj_params = [], tj_reference = graph, tj_instance = inst, tj_firing = firing\<rparr>"

text \<open>What the linkage reads of the job: the rates are its expressions on its parameters, which do not change meanwhile.\<close>

record 'e job_ctx =
  jc_graph :: "'e sr_graph"
  jc_rv :: "nat list"
  jc_rates :: rates
  jc_instance :: "nat option"
  jc_clones :: "nat list"           \<comment> \<open>\<open>ref2CloneVector\<close>\<close>

record transfo_vertex =
  tv_vertex :: "nat option"
  tv_rate :: int
  tv_portIx :: nat
  tv_lowerDep :: nat
  tv_upperDep :: nat

definition transfo_vertex_new :: "int \<Rightarrow> nat \<Rightarrow> nat option \<Rightarrow> transfo_vertex" where
  "transfo_vertex_new rate portIx vertex =
     \<lparr>tv_vertex = vertex, tv_rate = rate, tv_portIx = portIx mod 2 ^ 32, tv_lowerDep = u32_max, tv_upperDep = 0\<rparr>"

definition getIx :: "'e sr_graph \<Rightarrow> vref \<Rightarrow> nat" where
  "getIx g v = (case v of
       Actor i \<Rightarrow> i
     | In_If i \<Rightarrow> i + length (g_vertices g)
     | Out_If i \<Rightarrow> i + length (g_vertices g) + length (g_in_ifs g))"

definition rv_at :: "'e job_ctx \<Rightarrow> vref \<Rightarrow> nat result" where
  "rv_at c v = (case v of Actor i \<Rightarrow> get_at (jc_rv c) i | _ \<Rightarrow> Inr 1)"

definition type_at :: "'e job_ctx \<Rightarrow> vref \<Rightarrow> vertex_type result" where
  "type_at c v = (case v of Actor i \<Rightarrow> bindE (get_at (g_vertices (jc_graph c)) i) (\<lambda>x. Inr (v_type x))
     | In_If _ \<Rightarrow> Inr INPUT | Out_If _ \<Rightarrow> Inr OUTPUT)"

definition vertex_by_ix :: "srdag \<Rightarrow> nat \<Rightarrow> nat result" where
  "vertex_by_ix G i = get_at (sr_vertices G) i"

text \<open>\<open>srdag->vertex(ref2CloneVector[getIx(...)])\<close>.\<close>

definition first_clone :: "'e job_ctx \<Rightarrow> srdag \<Rightarrow> vref \<Rightarrow> nat result" where
  "first_clone c G v = bindE (get_at (jc_clones c) (getIx (jc_graph c) v)) (vertex_by_ix G)"

subsection \<open>Linkers\<close>

definition populateTransfoVertexVector ::
  "'e job_ctx \<Rightarrow> srdag \<Rightarrow> transfo_vertex list \<Rightarrow> vref \<Rightarrow> int \<Rightarrow> nat \<Rightarrow> transfo_vertex list result" where
  "populateTransfoVertexVector c G vector reference rate portIx =
     bindE (first_clone c G reference) (\<lambda>clone. bindE (vertex_at (sg_store G) clone) (\<lambda>x. bindE (rv_at c reference) (\<lambda>rv.
     foldE (\<lambda>vec i. bindE (vertex_by_ix G i) (\<lambda>v. Inr (transfo_vertex_new rate portIx (Some v) # vec)))
       vector (rev [vx_ix x..<vx_ix x + rv]))))"

definition populateFromDelayVertex :: "srdag \<Rightarrow> transfo_vertex list \<Rightarrow> nat \<Rightarrow> bool \<Rightarrow> transfo_vertex list result" where
  "populateFromDelayVertex G vector e isSink =
     bindE (edge_at (sg_store G) e) (\<lambda>ed. bindE (sr_edge_data G e) (\<lambda>x.
       Inr ((if isSink then transfo_vertex_new (se_rate x) (ed_snkPort ed) (ed_snk ed)
             else transfo_vertex_new (se_rate x) (ed_srcPort ed) (ed_src ed)) # vector)))"

text \<open>The product of a rate and of a repetition value, on \<open>int64_t\<close>.\<close>

definition rate_times :: "int \<Rightarrow> nat \<Rightarrow> int result" where "rate_times rate rv = i64 (rate * int rv)"

text \<open>\<open>edge()\<close> and \<open>opposite()\<close> of the interface of the job's graph.\<close>

definition isInterfaceTransparent :: "'e job_ctx \<Rightarrow> vref \<Rightarrow> bool result" where
  "isInterfaceTransparent c interface =
     (case interface of
        In_If i \<Rightarrow> bindE (get_at (g_in_ifs (jc_graph c)) i) (\<lambda>oe. case oe of None \<Rightarrow> Inl Null_Deref | Some e \<Rightarrow>
          bindE (get_at (g_edges (jc_graph c)) e) (\<lambda>edge. bindE (get_at (jc_rates c) e) (\<lambda>(sourceRate, sinkRate).
          bindE (rv_at c (e_sink edge)) (\<lambda>rv. bindE (rate_times sinkRate rv) (\<lambda>r. Inr (r = sourceRate))))))
      | Out_If i \<Rightarrow> bindE (get_at (g_out_ifs (jc_graph c)) i) (\<lambda>oe. case oe of None \<Rightarrow> Inl Null_Deref | Some e \<Rightarrow>
          bindE (get_at (g_edges (jc_graph c)) e) (\<lambda>edge. bindE (get_at (jc_rates c) e) (\<lambda>(sourceRate, sinkRate).
          bindE (rv_at c (e_source edge)) (\<lambda>rv. bindE (rate_times sourceRate rv) (\<lambda>r. Inr (r = sinkRate))))))
      | Actor _ \<Rightarrow> Inl Undefined_Behaviour)"

text \<open>The port of the instance of the graph at an interface: \<open>inputEdge(ix)\<close> (\<open>Sink\<close>) or \<open>outputEdge(ix)\<close> (\<open>Source\<close>).\<close>

definition instance_edge :: "side \<Rightarrow> 'e job_ctx \<Rightarrow> srdag \<Rightarrow> nat \<Rightarrow> nat result" where
  "instance_edge sd c G i =
     (case jc_instance c of None \<Rightarrow> Inl Null_Deref
      | Some v \<Rightarrow> bindE (sr_edge_at sd G v i) (\<lambda>oe. case oe of None \<Rightarrow> Inl Null_Deref | Some e \<Rightarrow> Inr e))"

text \<open>Both rates of the edge of a delay vertex are null.\<close>

definition delay_edge_null :: "'e job_ctx \<Rightarrow> nat \<Rightarrow> bool result" where
  "delay_edge_null c v =
     bindE (get_at (g_delayEdge (jc_graph c)) v) (\<lambda>e. bindE (get_at (jc_rates c) e) (\<lambda>(s, k). Inr (s = 0 \<and> k = 0)))"

text \<open>
  A linker for the delay vertex \<open>v\<close> as the end of an edge: through the port 1 of its clone when it is linked, through its
  port 0 when the delayed edge is null, otherwise the clone itself. \<open>sd\<close> is \<open>Source\<close> for a sink, \<open>Sink\<close> for a source.
\<close>

definition link_delay_end :: "side \<Rightarrow> 'e job_ctx \<Rightarrow> srdag \<Rightarrow> transfo_vertex list \<Rightarrow> nat \<Rightarrow> int \<Rightarrow> nat \<Rightarrow> transfo_vertex list result" where
  "link_delay_end sd c G vec v rate portIx =
     bindE (first_clone c G (Actor v)) (\<lambda>clone. bindE (sr_edge_at sd G clone 1) (\<lambda>e1. case e1 of
       Some e \<Rightarrow> populateFromDelayVertex G vec e (sd = Source)
     | None \<Rightarrow>
         bindE (delay_edge_null c v) (\<lambda>isNullEdge.
         bindE (if isNullEdge then sr_edge_at sd G clone 0 else Inr None) (\<lambda>e0. case e0 of
           Some e \<Rightarrow> populateFromDelayVertex G vec e (sd = Source)
         | None \<Rightarrow> populateTransfoVertexVector c G vec (Actor v) rate portIx))))"

text \<open>The setter (\<open>Sink\<close>) or the getter (\<open>Source\<close>) of the delay of edge \<open>e\<close>, with its value as rate.\<close>

definition link_delay_memory :: "side \<Rightarrow> 'e job_ctx \<Rightarrow> srdag \<Rightarrow> transfo_vertex list \<Rightarrow> nat \<Rightarrow> Dependencies.delay \<Rightarrow> transfo_vertex list result" where
  "link_delay_memory sd c G vec e d =
     bindE (get_at (rg_delayVertex (jc_graph c)) e) (\<lambda>dv. bindE (first_clone c G (Actor dv)) (\<lambda>clone.
     bindE (sr_edge_at sd G clone 0) (\<lambda>oe. case oe of
       Some e' \<Rightarrow> populateFromDelayVertex G vec e' (sd = Source)
     | None \<Rightarrow> populateTransfoVertexVector c G vec (Actor dv) (d_value d) 1)))"

definition buildSinkLinkerVector :: "'e job_ctx \<Rightarrow> srdag \<Rightarrow> nat \<Rightarrow> (srdag \<times> transfo_vertex list) result" where
  "buildSinkLinkerVector c G e =
     bindE (get_at (g_edges (jc_graph c)) e) (\<lambda>edge. bindE (get_at (g_delays (jc_graph c)) e) (\<lambda>delay.
     bindE (get_at (jc_rates c) e) (\<lambda>(sourceRate, sinkRate).
     bindE (case delay of None \<Rightarrow> Inr []
            | Some d \<Rightarrow> if e_sink edge = e_source edge \<and> d_value d < sinkRate then Inl Spider_Exception
                        else link_delay_memory Source c G [] e d) (\<lambda>vec.
     bindE (type_at c (e_sink edge)) (\<lambda>t. case (e_sink edge, t) of
       (Out_If i, _) \<Rightarrow>
         bindE (instance_edge Source c G i) (\<lambda>srEdge. bindE (isInterfaceTransparent c (Out_If i)) (\<lambda>transparent.
         if transparent then bindE (populateFromDelayVertex G vec srEdge True) (\<lambda>vec'. Inr (G, vec'))
         else bindE (createTailVertex G 1) (\<lambda>(G1, tail). bindE (sr_setEnd Source G1 srEdge (Some tail) 0) (\<lambda>G2.
              bindE (rv_at c (e_source edge)) (\<lambda>rv. bindE (rate_times sourceRate rv) (\<lambda>rate.
              Inr (G2, transfo_vertex_new rate 0 (Some tail) # vec)))))))
     | (Actor v, DELAY) \<Rightarrow> bindE (link_delay_end Source c G vec v sinkRate (e_sink_port edge)) (\<lambda>vec'. Inr (G, vec'))
     | (w, _) \<Rightarrow> bindE (populateTransfoVertexVector c G vec w sinkRate (e_sink_port edge)) (\<lambda>vec'. Inr (G, vec')))))))"

definition buildSourceLinkerVector :: "'e job_ctx \<Rightarrow> srdag \<Rightarrow> nat \<Rightarrow> (srdag \<times> transfo_vertex list) result" where
  "buildSourceLinkerVector c G e =
     bindE (get_at (g_edges (jc_graph c)) e) (\<lambda>edge. bindE (get_at (g_delays (jc_graph c)) e) (\<lambda>delay.
     bindE (get_at (jc_rates c) e) (\<lambda>(sourceRate, sinkRate).
     bindE (type_at c (e_source edge)) (\<lambda>t.
     bindE (case (e_source edge, t) of
       (In_If i, _) \<Rightarrow>
         bindE (instance_edge Sink c G i) (\<lambda>srEdge. bindE (isInterfaceTransparent c (In_If i)) (\<lambda>transparent.
         if transparent then bindE (populateFromDelayVertex G [] srEdge False) (\<lambda>vec. Inr (G, vec))
         else bindE (createRepeatVertex G) (\<lambda>(G1, rep). bindE (sr_setEnd Sink G1 srEdge (Some rep) 0) (\<lambda>G2.
              bindE (rv_at c (e_sink edge)) (\<lambda>rv. bindE (rate_times sinkRate rv) (\<lambda>rate.
              Inr (G2, [transfo_vertex_new rate 0 (Some rep)])))))))
     | (Actor v, DELAY) \<Rightarrow> bindE (link_delay_end Sink c G [] v sourceRate (e_source_port edge)) (\<lambda>vec. Inr (G, vec))
     | (w, _) \<Rightarrow> bindE (populateTransfoVertexVector c G [] w sourceRate (e_source_port edge)) (\<lambda>vec. Inr (G, vec))) (\<lambda>(G1, vec).
     bindE (case delay of None \<Rightarrow> Inr vec | Some d \<Rightarrow> link_delay_memory Sink c G1 vec e d) (\<lambda>vec'. Inr (G1, vec')))))))"

subsection \<open>Dependencies between the linkers\<close>

text \<open>\<open>computeWorker\<close>: the sinks at the indices \<open>start\<close> to \<open>stop - 1\<close>, whose firings count from 0.\<close>

definition compute_worker :: "int \<Rightarrow> int \<Rightarrow> nat \<Rightarrow> nat \<Rightarrow> int \<Rightarrow> int \<Rightarrow> transfo_vertex list \<Rightarrow> transfo_vertex list result" where
  "compute_worker setterOffset srcRate start stop sinkRate delay snks =
     foldE (\<lambda>vec i. bindE (get_at vec i) (\<lambda>x. let firing = int (i - start) in
       bindE (computeConsLowerDep sinkRate srcRate firing delay) (\<lambda>lo. bindE (computeConsUpperDep sinkRate srcRate firing delay) (\<lambda>up.
       Inr (vec[i := x\<lparr>tv_lowerDep := to_u32 (setterOffset + lo), tv_upperDep := to_u32 (setterOffset + up)\<rparr>])))))
       snks [start..<stop]"

definition touch_source :: "nat \<Rightarrow> transfo_vertex list \<Rightarrow> nat \<Rightarrow> transfo_vertex list result" where
  "touch_source firing srcs i =
     bindE (get_at srcs i) (\<lambda>x. Inr (srcs[i := x\<lparr>tv_lowerDep := min (tv_lowerDep x) firing, tv_upperDep := max (tv_upperDep x) firing\<rparr>]))"

definition computeDependencies ::
  "nat \<Rightarrow> Dependencies.delay option \<Rightarrow> transfo_vertex list \<Rightarrow> transfo_vertex list \<Rightarrow> (transfo_vertex list \<times> transfo_vertex list) result" where
  "computeDependencies sinkRepetitionValue edgeDelay srcVector snkVector =
     (if srcVector = [] \<or> snkVector = [] then Inl Undefined_Behaviour
      else
        let srcRate = tv_rate (last srcVector); snkRate = tv_rate (hd snkVector);
            setterOffset = (if edgeDelay = None then 0 else 1);
            delay = (case edgeDelay of None \<Rightarrow> 0 | Some d \<Rightarrow> d_value d);
            getterRate = (if edgeDelay = None then 0 else tv_rate (last snkVector)) in
        bindE (compute_worker setterOffset srcRate 0 sinkRepetitionValue snkRate delay snkVector) (\<lambda>snks1.
        bindE (rate_times snkRate sinkRepetitionValue) (\<lambda>used.
        bindE (compute_worker setterOffset srcRate sinkRepetitionValue (length snks1) getterRate (delay - used) snks1) (\<lambda>snks2.
        bindE (foldE (\<lambda>srcs j. bindE (get_at snks2 j) (\<lambda>x.
             bindE (touch_source j srcs (tv_lowerDep x)) (\<lambda>srcs1. touch_source j srcs1 (tv_upperDep x)))) srcVector [0..<length snks2]) (\<lambda>srcs.
        Inr (srcs, snks2))))))"

subsection \<open>The linkage\<close>

text \<open>
  \<open>connectForkOrJoin\<close>. \<open>last\<close> is a reference to the element that is popped: its rate is read after, and once
  \<open>emplace_back\<close> has built the new element in its place the reference designates that one, whose \<open>upperDep_\<close> is 0.
\<close>

definition connect_step :: "(srdag \<Rightarrow> nat \<Rightarrow> transfo_vertex \<Rightarrow> srdag result) \<Rightarrow>
    srdag \<times> int \<times> transfo_vertex list \<Rightarrow> nat \<Rightarrow> (srdag \<times> int \<times> transfo_vertex list) result" where
  "connect_step edgeConnector = (\<lambda>(G, rate, working) i.
     case working of [] \<Rightarrow> Inl Undefined_Behaviour
     | x # rest \<Rightarrow> bindE (i64 (rate - tv_rate x)) (\<lambda>rate'. bindE (edgeConnector G i x) (\<lambda>G'. Inr (G', rate', rest))))"

definition connectForkOrJoin :: "(srdag \<Rightarrow> nat \<Rightarrow> transfo_vertex \<Rightarrow> srdag result) \<Rightarrow> srdag \<Rightarrow> nat \<Rightarrow>
    transfo_vertex list \<Rightarrow> transfo_vertex list \<Rightarrow> (srdag \<times> transfo_vertex list \<times> transfo_vertex list) result" where
  "connectForkOrJoin edgeConnector G vertex working opposite =
     (case opposite of [] \<Rightarrow> Inl Undefined_Behaviour
      | x # rest \<Rightarrow>
          bindE (sr_edge_count Sink G vertex) (\<lambda>nIn. bindE (sr_edge_count Source G vertex) (\<lambda>nOut.
          let count = max nIn nOut in
          bindE (foldE (connect_step edgeConnector) (G, tv_rate x, working) [0..<count - 1]) (\<lambda>(G', rate, working').
          Inr (G', working', transfo_vertex_new rate (count - 1) (Some vertex) \<lparr>tv_lowerDep := 0, tv_upperDep := 0\<rparr> # rest)))))"

text \<open>\<open>(upperDep_ - lowerDep_) + 1\<close> on \<open>u32\<close>.\<close>

definition dep_count :: "transfo_vertex \<Rightarrow> nat" where
  "dep_count x = (tv_upperDep x + (2 ^ 32 - tv_lowerDep x) + 1) mod 2 ^ 32"

definition fork_connector :: "nat \<Rightarrow> srdag \<Rightarrow> nat \<Rightarrow> transfo_vertex \<Rightarrow> srdag result" where
  "fork_connector fork G i x = bindE (sr_createEdge G (Some fork) i (tv_vertex x) (tv_portIx x) (tv_rate x)) (\<lambda>r. Inr (fst r))"

definition join_connector :: "nat \<Rightarrow> srdag \<Rightarrow> nat \<Rightarrow> transfo_vertex \<Rightarrow> srdag result" where
  "join_connector join G i x =
     (if tv_vertex x = None then Inl Null_Deref
      else bindE (sr_createEdge G (tv_vertex x) (tv_portIx x) (Some join) i (tv_rate x)) (\<lambda>r. Inr (fst r)))"

type_synonym linkage = "srdag \<times> transfo_vertex list \<times> transfo_vertex list"   \<comment> \<open>graph, sources, sinks\<close>

definition addForkVertex :: "srdag \<Rightarrow> transfo_vertex list \<Rightarrow> transfo_vertex list \<Rightarrow> linkage result" where
  "addForkVertex G srcs snks =
     (case srcs of [] \<Rightarrow> Inl Undefined_Behaviour
      | x # _ \<Rightarrow> if tv_vertex x = None then Inl Null_Deref else
          bindE (createForkVertex G (dep_count x)) (\<lambda>(G1, fork).
          bindE (sr_createEdge G1 (tv_vertex x) (tv_portIx x) (Some fork) 0 (tv_rate x)) (\<lambda>(G2, _).
          bindE (connectForkOrJoin (fork_connector fork) G2 fork snks srcs) (\<lambda>(G3, snks', srcs'). Inr (G3, srcs', snks')))))"

definition addJoinVertex :: "srdag \<Rightarrow> transfo_vertex list \<Rightarrow> transfo_vertex list \<Rightarrow> linkage result" where
  "addJoinVertex G srcs snks =
     (case snks of [] \<Rightarrow> Inl Undefined_Behaviour
      | x # _ \<Rightarrow> if tv_vertex x = None then Inl Null_Deref else
          bindE (createJoinVertex G (dep_count x)) (\<lambda>(G1, join).
          bindE (sr_createEdge G1 (Some join) 0 (tv_vertex x) (tv_portIx x) (tv_rate x)) (\<lambda>(G2, _).
          connectForkOrJoin (join_connector join) G2 join srcs snks)))"

text \<open>One round of the loop.\<close>

definition link_step :: "srdag \<Rightarrow> transfo_vertex list \<Rightarrow> transfo_vertex list \<Rightarrow> linkage result" where
  "link_step G srcs snks =
     (case (srcs, snks) of
        (src # srcs', snk # snks') \<Rightarrow>
          if tv_lowerDep snk = tv_upperDep snk then
            (if tv_lowerDep src = tv_upperDep src then
               bindE (sr_createEdge G (tv_vertex src) (tv_portIx src) (tv_vertex snk) (tv_portIx snk) (tv_rate snk))
                 (\<lambda>(G1, _). Inr (G1, srcs', snks'))
             else addForkVertex G srcs snks)
          else addJoinVertex G srcs snks
      | _ \<Rightarrow> Inl Undefined_Behaviour)"

text \<open>The linkers left, those that need a fork or a join counted twice: a round always removes some.\<close>

definition link_weight :: "transfo_vertex list \<Rightarrow> nat" where
  "link_weight xs = sum_list (List.map (\<lambda>x. if tv_lowerDep x = tv_upperDep x then 1 else 2) xs)"

lemma link_weight_simps [simp]:
  "link_weight [] = 0"
  "link_weight (x # xs) = (if tv_lowerDep x = tv_upperDep x then 1 else 2) + link_weight xs"
  by (simp_all add: link_weight_def)

lemma connect_steps_weight:
  "foldE (connect_step f) (G, r, ws) xs = Inr (G', r', ws') \<Longrightarrow> link_weight ws' \<le> link_weight ws"
proof (induction xs arbitrary: G r ws)
  case (Cons y ys)
  then show ?case by (fastforce simp: connect_step_def split: list.splits)
qed simp

lemma connectForkOrJoin_weight:
  "connectForkOrJoin f G v ws (x # xs) = Inr (G', ws', os') \<Longrightarrow>
   link_weight ws' \<le> link_weight ws \<and> link_weight os' = Suc (link_weight xs)"
  by (auto simp: connectForkOrJoin_def Let_def dest: connect_steps_weight)

lemma link_step_less:
  assumes "link_step G srcs snks = Inr (G', srcs', snks')"
  shows "link_weight srcs' + link_weight snks' < link_weight srcs + link_weight snks"
proof -
  from assms obtain s ss k ks where l: "srcs = s # ss" "snks = k # ks" by (auto simp: link_step_def split: list.splits)
  show ?thesis
    using assms unfolding l link_step_def addForkVertex_def addJoinVertex_def
    by (auto split: if_splits dest!: connectForkOrJoin_weight)
qed

function link_loop :: "srdag \<Rightarrow> transfo_vertex list \<Rightarrow> transfo_vertex list \<Rightarrow> linkage result" where
  "link_loop G srcs snks =
     (if snks = [] then Inr (G, srcs, snks)
      else bindE (link_step G srcs snks) (\<lambda>(G', srcs', snks'). link_loop G' srcs' snks'))"
  by auto
termination
  by (relation "measure (\<lambda>(G, srcs, snks). link_weight srcs + link_weight snks)") (auto dest: link_step_less)

declare link_loop.simps [simp del]

definition link_all :: "srdag \<Rightarrow> transfo_vertex list \<Rightarrow> transfo_vertex list \<Rightarrow> srdag result" where
  "link_all G srcs snks =
     bindE (link_loop G srcs snks) (\<lambda>(G', srcs', _). if srcs' \<noteq> [] then Inl Spider_Exception else Inr G')"

text \<open>The empty actors put at both ends of an edge without tokens; an interface has no clone.\<close>

definition void_ends :: "side \<Rightarrow> 'e job_ctx \<Rightarrow> vref \<Rightarrow> nat \<Rightarrow> srdag \<Rightarrow> srdag result" where
  "void_ends sd c v portIx G =
     bindE (rv_at c v) (\<lambda>rv. if rv = 0 then Inr G
       else bindE (get_at (jc_clones c) (getIx (jc_graph c) v)) (\<lambda>start.
         foldE (\<lambda>G i. bindE (vertex_by_ix G i) (\<lambda>clone.
           if sd = Sink then bindE (createVoidVertex G 0 1) (\<lambda>(G1, ini). bindE (sr_createEdge G1 (Some ini) 0 (Some clone) portIx 0) (\<lambda>r. Inr (fst r)))
           else bindE (createVoidVertex G 1 0) (\<lambda>(G1, en). bindE (sr_createEdge G1 (Some clone) portIx (Some en) 0 0) (\<lambda>r. Inr (fst r)))))
           G [start..<add64 start rv]))"

definition checkForNullEdge :: "'e job_ctx \<Rightarrow> srdag \<Rightarrow> nat \<Rightarrow> (srdag \<times> bool) result" where
  "checkForNullEdge c G e =
     bindE (get_at (jc_rates c) e) (\<lambda>(sourceRate, sinkRate).
       if sourceRate = 0 \<and> sinkRate = 0 then
         bindE (get_at (g_edges (jc_graph c)) e) (\<lambda>edge.
         bindE (void_ends Sink c (e_sink edge) (e_sink_port edge) G) (\<lambda>G1.
         bindE (void_ends Source c (e_source edge) (e_source_port edge) G1) (\<lambda>G2. Inr (G2, True))))
       else Inr (G, False))"

definition singleRateLinkage :: "'e job_ctx \<Rightarrow> srdag \<Rightarrow> nat \<Rightarrow> srdag result" where
  "singleRateLinkage c G e =
     bindE (get_at (g_edges (jc_graph c)) e) (\<lambda>edge. bindE (get_at (g_delays (jc_graph c)) e) (\<lambda>delay.
       if e_source edge = e_sink edge \<and> delay = None then Inl Spider_Exception
       else bindE (checkForNullEdge c G e) (\<lambda>(G1, null).
         if null then Inr G1
         else bindE (buildSourceLinkerVector c G1 e) (\<lambda>(G2, srcs).
              bindE (buildSinkLinkerVector c G2 e) (\<lambda>(G3, snks).
              bindE (rv_at c (e_sink edge)) (\<lambda>rv.
              bindE (computeDependencies rv delay srcs snks) (\<lambda>(srcs', snks'). link_all G3 srcs' snks')))))))"

end
