(* ===== verification/SRJob.thy ===== *)
theory SRJob
  imports SRTransform
begin

text \<open>
  The whole transformation of one job: parameters, repetition vector, clones of the vertices, jobs of the subgraphs,
  linkage of the edges, and the removal of the instance of the graph, of the delay vertices and of the edges left loose.
\<close>

subsection \<open>Parameters\<close>

definition job_param :: "nat list \<Rightarrow> nat \<Rightarrow> nat result" where "job_param ps i = get_at ps i"

text \<open>A graph without configuration actors: its inherited and dependent parameters become static, in order.\<close>

definition update_param :: "'e expressions \<Rightarrow> 'e params \<times> nat list \<Rightarrow> nat \<Rightarrow> ('e params \<times> nat list) result" where
  "update_param X = (\<lambda>(h, ps) i.
     bindE (get_at ps i) (\<lambda>a. bindE (get_at h a) (\<lambda>p.
       if pa_type p = INHERITED then
         bindE (param_parent h a) (\<lambda>parent. case parent of None \<Rightarrow> Inl Null_Deref
         | Some b \<Rightarrow> bindE (param_value_with X h ps b) (\<lambda>v. bindE (param_new_static h (pa_name p) v) (\<lambda>(h1, a1).
             bindE (param_setIx h1 a1 (pa_ix p)) (\<lambda>h2. Inr (h2, ps[i := a1])))))
       else if pa_type p = DYNAMIC_DEPENDANT then
         bindE (param_value_with X h ps a) (\<lambda>v. bindE (param_new_static h (pa_name p) v) (\<lambda>(h1, a1). Inr (h1, ps[i := a1])))
       else Inr (h, ps))))"

definition updateParams :: "'e expressions \<Rightarrow> 'e sr_graph \<Rightarrow> 'e params \<Rightarrow> nat list \<Rightarrow> ('e params \<times> nat list) result" where
  "updateParams X g h ps =
     (if rg_configs g \<noteq> [] then Inr (h, ps) else foldE (update_param X) (h, ps) [0..<length ps])"

definition copyParameter :: "'e params \<Rightarrow> nat \<Rightarrow> nat list \<Rightarrow> ('e params \<times> nat) result" where
  "copyParameter h a jobParams =
     bindE (param_dynamic h a) (\<lambda>dyn.
     if \<not> dyn then Inr (h, a)
     else bindE (get_at h a) (\<lambda>p.
       bindE (if pa_type p = INHERITED then
                bindE (param_parent h a) (\<lambda>parent. case parent of None \<Rightarrow> Inl Spider_Exception
                | Some b \<Rightarrow> bindE (get_at h b) (\<lambda>q. bindE (get_at jobParams (pa_ix q)) (\<lambda>parentParam.
                    param_new_inherited h (pa_name p) (Some parentParam))))
              else param_copy h a) (\<lambda>(h1, a1).
       bindE (param_setIx h1 a1 (pa_ix p)) (\<lambda>h2. Inr (h2, a1)))))"

text \<open>The rates of every edge on the parameters of the job.\<close>

definition edge_rates :: "'e expressions \<Rightarrow> 'e sr_graph \<Rightarrow> 'e params \<Rightarrow> nat list \<Rightarrow> rates result" where
  "edge_rates X g h ps =
     mapE (\<lambda>(s, k). bindE (xo_evaluate X s (param_table X h ps)) (\<lambda>sr. bindE (xo_evaluate X k (param_table X h ps)) (\<lambda>kr. Inr (sr, kr))))
       (zip (rg_srcExpr g) (rg_snkExpr g))"

subsection \<open>Clones\<close>

definition cloneVertex :: "'e sr_graph \<Rightarrow> nat list \<Rightarrow> nat list \<Rightarrow> nat \<Rightarrow> srdag \<Rightarrow> nat \<Rightarrow> srdag result" where
  "cloneVertex g rv ps i G firing =
     bindE (get_at (g_vertices g) i) (\<lambda>x. bindE (get_at rv i) (\<lambda>n.
     if v_type x = DELAY then
       bindE (sr_vertex_new G (Application i) (v_type x) n firing 2 2) (\<lambda>(G1, clone).
       bindE (sr_setExecutable False G1 clone) (\<lambda>G2. sr_addVertex G2 clone))
     else
       bindE (sr_vertex_new G (Application i) (v_type x) n firing (length (v_in x)) (length (v_out x))) (\<lambda>(G1, clone).
       bindE (get_at (rg_executable g) i) (\<lambda>b.
       bindE (sr_setExecutable b G1 clone) (\<lambda>G2.
       bindE (sr_addVertex G2 clone) (\<lambda>G3.
       bindE (get_at (rg_inParams g) i) (\<lambda>ins. bindE (get_at (rg_refParams g) i) (\<lambda>refs.
       bindE (foldE (\<lambda>G k. bindE (job_param ps k) (\<lambda>a. sr_addInputParameter G clone a)) G3 ins) (\<lambda>G4.
       foldE (\<lambda>G k. bindE (job_param ps k) (\<lambda>a. sr_addRefinementParameter G clone a)) G4 refs))))))))) "

text \<open>The clones of a vertex, the index of the first one, and the clone of a delay vertex to remove at the end.\<close>

definition clone_firings :: "'e sr_graph \<Rightarrow> nat list \<Rightarrow> nat list \<Rightarrow> srdag \<times> nat list \<times> nat list \<Rightarrow> nat \<Rightarrow> (srdag \<times> nat list \<times> nat list) result" where
  "clone_firings g rv ps = (\<lambda>(G, clones, delays) i.
     bindE (get_at (g_vertices g) i) (\<lambda>x. bindE (get_at rv i) (\<lambda>n.
     bindE (foldE (cloneVertex g rv ps i) G [0..<n]) (\<lambda>G1.
     bindE (set_at clones i (sub64 (length (sr_vertices G1)) n)) (\<lambda>clones1.
     if v_type x = DELAY then
       (if sr_vertices G1 = [] then Inl Undefined_Behaviour else Inr (G1, clones1, delays @ [last (sr_vertices G1)]))
     else Inr (G1, clones1, delays))))))"

definition future_job :: "'e sr_graph list \<Rightarrow> srdag \<Rightarrow> nat list \<Rightarrow> nat \<Rightarrow> nat \<Rightarrow> nat \<Rightarrow>
    'e params \<times> transfo_job list \<Rightarrow> ('e params \<times> transfo_job list) result" where
  "future_job graphs G jobParams sub first ix = (\<lambda>(h, stack).
     bindE (get_at graphs sub) (\<lambda>sg. bindE (vertex_by_ix G ix) (\<lambda>inst.
     bindE (foldE (\<lambda>(h, ps) a. bindE (copyParameter h a jobParams) (\<lambda>(h1, a1). Inr (h1, ps @ [a1]))) (h, []) (rg_params sg)) (\<lambda>(h1, ps).
     Inr (h1, stack @ [(transfo_job_new sub (Some inst) ((ix - first) mod 2 ^ 32))\<lparr>tj_params := ps\<rparr>])))))"

definition makeFutureJobs :: "'e sr_graph list \<Rightarrow> 'e sr_graph \<Rightarrow> nat list \<Rightarrow> nat list \<Rightarrow> nat list \<Rightarrow> 'e params \<Rightarrow> srdag \<Rightarrow>
    ('e params \<times> srdag \<times> transfo_job list \<times> transfo_job list) result" where
  "makeFutureJobs graphs g rv clones jobParams h G =
     bindE (foldE (\<lambda>(h, stack) v.
       bindE (get_at (g_subgraph g) v) (\<lambda>sub. bindE (get_at clones v) (\<lambda>first. bindE (get_at rv v) (\<lambda>n.
       foldE (\<lambda>hs ix. future_job graphs G jobParams sub first ix hs) (h, stack) [first..<first + n])))) (h, []) (rg_subgraphs g)) (\<lambda>(h1, stack).
     bindE (foldE (\<lambda>G v.
       bindE (bindE (get_at clones v) (vertex_by_ix G)) (\<lambda>clone. bindE (get_at (rg_outParams g) v) (\<lambda>outs.
       foldE (\<lambda>G k. bindE (job_param jobParams k) (\<lambda>a. sr_addOutputParameter G clone a)) G outs))) G (rg_configs g)) (\<lambda>G1.
     Inr (if rg_dynamic g then (h1, G1, [], stack) else (h1, G1, stack, []))))"

subsection \<open>The edges left without ends\<close>

text \<open>One turn of the loop at position \<open>i\<close>; as many turns as there are edges reach the end.\<close>

definition prune_step :: "srdag \<times> nat \<Rightarrow> nat \<Rightarrow> (srdag \<times> nat) result" where
  "prune_step = (\<lambda>(G, i) _.
     if i \<ge> length (sr_edges G) then Inr (G, i)
     else let e = sr_edges G ! i in
       bindE (edge_at (sg_store G) e) (\<lambda>ed.
       if ed_src ed = None \<and> ed_snk ed = None then bindE (sr_removeEdge G e) (\<lambda>G1. Inr (G1, i)) else Inr (G, i + 1)))"

definition prune_edges :: "srdag \<Rightarrow> srdag result" where
  "prune_edges G = bindE (foldE prune_step (G, 0) [0..<length (sr_edges G)]) (\<lambda>(G1, _). Inr G1)"

subsection \<open>The transformation\<close>

text \<open>
  \<open>separate\<close> is \<open>pisdf::separateRunGraphFromInit\<close> on the graph \<open>g\<close>; \<open>rvs\<close> holds the repetition values stored in the
  vertices of each graph.
\<close>

definition needs_separation :: "'e sr_graph \<Rightarrow> bool" where
  "needs_separation g \<longleftrightarrow> rg_configs g \<noteq> [] \<and> length (rg_subgraphs g) \<noteq> 1 \<and> length (g_vertices g) \<noteq> length (rg_configs g)"

definition singleRateTransformation ::
  "'e expressions \<Rightarrow> ('e sr_graph list \<Rightarrow> nat list list \<Rightarrow> nat \<Rightarrow> ('e sr_graph list \<times> nat list list) result) \<Rightarrow> 'e sr_graph list \<Rightarrow> nat list list \<Rightarrow> transfo_job \<Rightarrow>
   'e params \<Rightarrow> srdag \<Rightarrow> ('e sr_graph list \<times> nat list list \<times> 'e params \<times> srdag \<times> transfo_job list \<times> transfo_job list) result" where
  "singleRateTransformation X separate graphs rvs job h G =
     bindE (get_at graphs (tj_reference job)) (\<lambda>g0.
     if rg_contained g0 \<and> tj_instance job = None then Inl Spider_Exception
     else
       bindE (if needs_separation g0 then separate graphs rvs (tj_reference job) else Inr (graphs, rvs)) (\<lambda>(graphs1, rvs1).
       bindE (get_at graphs1 (tj_reference job)) (\<lambda>g.
       bindE (updateParams X g h (tj_params job)) (\<lambda>(h1, ps).
       bindE (edge_rates X g h1 ps) (\<lambda>rates.
       bindE (get_at rvs1 (tj_reference job)) (\<lambda>rv0.
       bindE (if tj_firing job = 0 then brv_compute (pi_graph.truncate g) rates rv0 else Inr rv0) (\<lambda>rv.
       bindE (foldE (clone_firings g rv ps) (G, replicate (length (g_vertices g) + length (g_in_ifs g) + length (g_out_ifs g)) size_max, [])
         [0..<length (g_vertices g)]) (\<lambda>(G1, clones, delays).
       bindE (makeFutureJobs graphs1 g rv clones ps h1 G1) (\<lambda>(h2, G2, static, dynamic).
       let c = \<lparr>jc_graph = g, jc_rv = rv, jc_rates = rates, jc_instance = tj_instance job, jc_clones = clones\<rparr> in
       bindE (foldE (singleRateLinkage c) G2 [0..<length (g_edges g)]) (\<lambda>G3.
       bindE (sr_removeVertex G3 (tj_instance job)) (\<lambda>G4.
       bindE (foldE (\<lambda>G v. sr_removeVertex G (Some v)) G4 delays) (\<lambda>G5.
       bindE (prune_edges G5) (\<lambda>G6.
       Inr (graphs1, rvs1[tj_reference job := rv], h2, G6, static, dynamic))))))))))))))"

end
