(* ===== verification/SRFlow.thy ===== *)
theory SRFlow
  imports SRJob
begin

text \<open>
  What the single-rate graph means. Its invariant \<open>sr_ok\<close>; extension of a graph by new vertices, new edges and filled
  ports; and the flow of tokens: \<open>trace\<close> follows a token from an output port back through the forks and joins that the
  transformation inserts, as their kernels distribute and gather the tokens, to the actor that wrote it.
\<close>

subsection \<open>Invariant and observations\<close>

definition sr_ok :: "srdag \<Rightarrow> bool" where
  "sr_ok G \<longleftrightarrow> store_ok (sg_store G) 0 \<and> length (sg_vs G) = n_vertices (sg_store G) \<and> length (sg_es G) = n_edges (sg_store G) \<and>
     (\<forall>v < n_vertices (sg_store G). vx_graph (st_vertices (sg_store G) ! v) = Some 0)"

abbreviation nV :: "srdag \<Rightarrow> nat" where "nV G \<equiv> n_vertices (sg_store G)"
abbreviation nE :: "srdag \<Rightarrow> nat" where "nE G \<equiv> n_edges (sg_store G)"
abbreviation nP :: "side \<Rightarrow> srdag \<Rightarrow> nat \<Rightarrow> nat" where "nP sd G v \<equiv> n_ports sd (sg_store G) v"

definition prt :: "side \<Rightarrow> srdag \<Rightarrow> nat \<Rightarrow> nat \<Rightarrow> nat option" where
  "prt sd G v p = (if v < nV G \<and> p < nP sd G v then port sd (sg_store G) v p else None)"

definition tgt :: "side \<Rightarrow> srdag \<Rightarrow> nat \<Rightarrow> (nat \<times> nat) option" where
  "tgt sd G e = (if e < nE G then target sd (sg_store G) e else None)"

definition rate_of :: "srdag \<Rightarrow> nat \<Rightarrow> int" where "rate_of G e = se_rate (sg_es G ! e)"

lemma sr_okD:
  assumes "sr_ok G"
  shows "store_ok (sg_store G) 0" "links_ok sd (sg_store G)" "length (sg_vs G) = nV G" "length (sg_es G) = nE G"
    "v < nV G \<Longrightarrow> vx_graph (st_vertices (sg_store G) ! v) = Some 0"
  using assms by (auto simp: sr_ok_def store_ok_def)

lemma prt_tgt:
  assumes "sr_ok G"
  shows "prt sd G v p = Some e \<longleftrightarrow> tgt sd G e = Some (v, p)"
proof
  assume "prt sd G v p = Some e"
  then show "tgt sd G e = Some (v, p)"
    using links_okD1 [OF sr_okD(2) [OF assms], of v p sd e] by (auto simp: prt_def tgt_def split: if_splits)
next
  assume "tgt sd G e = Some (v, p)"
  then show "prt sd G v p = Some e"
    using links_okD2 [OF sr_okD(2) [OF assms], of e sd v p] by (auto simp: prt_def tgt_def split: if_splits)
qed

lemma prt_bounds: "sr_ok G \<Longrightarrow> prt sd G v p = Some e \<Longrightarrow> v < nV G \<and> p < nP sd G v \<and> e < nE G"
  using prt_tgt [of G sd v p e] by (auto simp: prt_def tgt_def split: if_splits)

lemma tgt_bounds: "sr_ok G \<Longrightarrow> tgt sd G e = Some (v, p) \<Longrightarrow> v < nV G \<and> p < nP sd G v \<and> e < nE G"
  by (meson prt_bounds prt_tgt)

text \<open>Vertices and edges are only added, ports only filled.\<close>

definition sr_extends :: "srdag \<Rightarrow> srdag \<Rightarrow> bool" where
  "sr_extends G G' \<longleftrightarrow> nV G \<le> nV G' \<and> nE G \<le> nE G' \<and>
     (\<forall>v < nV G. sg_vs G' ! v = sg_vs G ! v \<and> (\<forall>sd. nP sd G' v = nP sd G v)) \<and>
     (\<forall>sd v p e. prt sd G v p = Some e \<longrightarrow> prt sd G' v p = Some e) \<and>
     (\<forall>e < nE G. rate_of G' e = rate_of G e)"

lemma sr_extends_refl [simp]: "sr_extends G G" by (simp add: sr_extends_def)

lemma sr_extends_trans: "sr_extends G G' \<Longrightarrow> sr_extends G' G'' \<Longrightarrow> sr_extends G G''"
  by (auto simp: sr_extends_def)

lemma extendsD:
  assumes "sr_extends G G'"
  shows "nV G \<le> nV G'" "nE G \<le> nE G'" "v < nV G \<Longrightarrow> sg_vs G' ! v = sg_vs G ! v" "v < nV G \<Longrightarrow> nP sd G' v = nP sd G v"
    "prt sd G v p = Some e \<Longrightarrow> prt sd G' v p = Some e" "e < nE G \<Longrightarrow> rate_of G' e = rate_of G e"
  using assms by (auto simp: sr_extends_def)

text \<open>The ports of old vertices that the extension fills are in \<open>A\<close> (output ports) or \<open>B\<close> (input ports).\<close>

definition fills :: "srdag \<Rightarrow> srdag \<Rightarrow> (nat \<times> nat) set \<Rightarrow> (nat \<times> nat) set \<Rightarrow> bool" where
  "fills G G' A B \<longleftrightarrow> (\<forall>v < nV G. \<forall>p. ((v, p) \<notin> A \<longrightarrow> prt Source G' v p = prt Source G v p) \<and> ((v, p) \<notin> B \<longrightarrow> prt Sink G' v p = prt Sink G v p))"

lemma fills_trans: "sr_extends G G' \<Longrightarrow> fills G G' A B \<Longrightarrow> fills G' G'' A B \<Longrightarrow> fills G G'' A B"
  using extendsD(1) [of G G'] by (auto simp: fills_def)

lemma fills_mono: "fills G G' A B \<Longrightarrow> {x \<in> A. fst x < nV G} \<subseteq> A' \<Longrightarrow> {x \<in> B. fst x < nV G} \<subseteq> B' \<Longrightarrow> fills G G' A' B'"
  unfolding fills_def by (intro allI impI conjI; erule allE, erule impE, assumption, erule allE, elim conjE) auto

subsection \<open>A new edge\<close>

lemma sr_edge_at_eq: "v < nV G \<Longrightarrow> p < nP sd G v \<Longrightarrow> sr_edge_at sd G v p = Inr (prt sd G v p)"
  by (simp add: sr_edge_at_def vertex_at_def prt_def port_def n_ports_def)

lemma sr_connectEdge_eq:
  "v < n_vertices s \<Longrightarrow> p < n_ports sd s v \<Longrightarrow> port sd s v p = None \<Longrightarrow> sr_connectEdge sd s v e p = Inr (put_port sd s v p (Some e))"
  by (simp add: sr_connectEdge_def vertex_at_def n_ports_def port_def put_port_def)

lemma sr_edge_new_ok:
  assumes ok: "sr_ok G" and v: "v < nV G" "i < nP Source G v" "prt Source G v i = None"
    and w: "w < nV G" "j < nP Sink G w" "prt Sink G w j = None"
  shows "\<exists>G'. sr_createEdge G (Some v) i (Some w) j r = Inr (G', nE G) \<and> sr_ok G' \<and> nV G' = nV G \<and> nE G' = Suc (nE G) \<and>
    sg_vs G' = sg_vs G \<and> (\<forall>sd u. nP sd G' u = nP sd G u) \<and>
    (\<forall>sd u p. prt sd G' u p = (if (u, p) = (if sd = Source then (v, i) else (w, j)) then Some (nE G) else prt sd G u p)) \<and>
    (\<forall>sd e. tgt sd G' e = (if e = nE G then Some (if sd = Source then (v, i) else (w, j)) else tgt sd G e)) \<and>
    (\<forall>e \<le> nE G. rate_of G' e = (if e = nE G then r else rate_of G e)) \<and> sr_vertices G' = sr_vertices G"
proof -
  let ?s = "sg_store G" let ?e = "nE G"
  let ?sa = "?s\<lparr>st_edges := st_edges ?s @ [\<lparr>ed_src = Some v, ed_srcPort = i, ed_srcExpr = (), ed_snk = Some w, ed_snkPort = j,
     ed_snkExpr = (), ed_delay = None, ed_ix = size_max\<rparr>]\<rparr>"
  let ?sb = "put_port Sink (put_port Source ?sa v i (Some ?e)) w j (Some ?e)"
  let ?Ga = "G\<lparr>sg_store := ?sb, sg_es := sg_es G @ [\<lparr>se_rate = r, se_address = 0, se_offset = 0\<rparr>]\<rparr>"
  have free: "port Source ?s v i = None" "port Sink ?s w j = None" using v w by (simp_all add: prt_def)
  have gr: "vx_graph (st_vertices ?s ! v) = vx_graph (st_vertices ?s ! w)" using sr_okD(5) [OF ok] v(1) w(1) by simp
  have new: "sr_edge_new G (Some v) i (Some w) j r = Inr (?Ga, ?e)"
    using v w gr free by (simp add: sr_edge_new_def same_graph_def vertex_at_def Let_def sr_connectEdge_eq port_put_port)
  have t0: "target sd ?sa e = (if e = ?e then Some (if sd = Source then (v, i) else (w, j)) else target sd ?s e)" if "e < Suc ?e" for sd e
    using that by (cases sd) (auto simp: target_def nth_append)
  have n1: "n_vertices ?sb = nV G" "n_edges ?sb = Suc ?e" "n_ports sd ?sb u = nP sd G u" for sd u by simp_all
  have p1: "port sd ?sb u p = (if (u, p) = (if sd = Source then (v, i) else (w, j)) then Some ?e else port sd ?s u p)" for sd u p
    using v w by (cases sd) (simp_all add: port_put_port)
  have t1: "target sd ?sb e = (if e = ?e then Some (if sd = Source then (v, i) else (w, j)) else target sd ?s e)" if "e < n_edges ?sb" for sd e
    using t0 [of e sd] that by simp
  have ls: "links_ok Source ?sb"
    by (rule links_new_edge [OF sr_okD(2) [OF ok] n1 p1 t1]) (simp_all only: if_True refl fst_conv snd_conv v free)
  have lk: "links_ok Sink ?sb"
    by (rule links_new_edge [OF sr_okD(2) [OF ok] n1 p1 t1]) (simp_all only: side.distinct if_False fst_conv snd_conv w free)
  have links: "links_ok sd ?sb" for sd using ls lk by (cases sd) simp_all
  have shape: "same_shape ?sa ?sb" by (rule same_shape_trans [OF put_port_shape put_port_shape])
  have index: "index_ok ?sb 0"
  proof -
    have "index_ok ?sa 0" using sr_okD(1) [OF ok] by (auto simp: store_ok_def index_ok_def Let_def nth_append)
    from index_ok_shape [OF this shape] show ?thesis .
  qed
  have sok: "store_ok ?sb 0" using links index by (simp add: store_ok_def)
  have graphs: "st_graphs ?sb = st_graphs ?s" using shape by (simp add: same_shape_def)
  have "?e \<notin> set (gr_edges (st_graphs ?sb ! 0))"
    using sr_okD(1) [OF ok] unfolding graphs by (auto simp: store_ok_def index_ok_def Let_def in_set_conv_nth)
  with addEdge_ok [OF sok, of ?e] n1(2) obtain s2 where s2: "addEdge ?sb 0 ?e = Inr s2" "store_ok s2 0"
    "st_vertices s2 = st_vertices ?sb" "n_edges s2 = n_edges ?sb" "\<forall>sd e'. target sd s2 e' = target sd ?sb e'" by auto
  let ?Gb = "?Ga\<lparr>sg_store := s2\<rparr>"
  have run: "sr_createEdge G (Some v) i (Some w) j r = Inr (?Gb, ?e)"
    using v w new s2(1) by (simp add: sr_createEdge_def sr_edge_at_eq sr_addEdge_def on_store_def)
  have np: "n_ports sd s2 u = nP sd G u" "port sd s2 u p = port sd ?sb u p" for sd u p
    using s2(3) n1(3) by (simp_all add: n_ports_def port_def)
  have vg: "vx_graph (st_vertices s2 ! u) = Some 0" if "u < nV G" for u
    using shape sr_okD(5) [OF ok that] that s2(3) by (simp add: same_shape_def)
  have vs: "gr_vertices (st_graphs s2 ! 0) = gr_vertices (st_graphs ?s ! 0)"
    using s2(1) graphs index by (auto simp: addEdge_def edge_at_def graph_at_def set_graph_def set_edge_def index_ok_def Let_def)
  have ok2: "sr_ok ?Gb" unfolding sr_ok_def using s2 n1 sr_okD(3,4) [OF ok] vg by simp
  have prts: "prt sd ?Gb u p = (if (u, p) = (if sd = Source then (v, i) else (w, j)) then Some ?e else prt sd G u p)" for sd u p
    using np p1 v w s2(3) n1(1) by (cases sd) (auto simp: prt_def)
  have tgts: "tgt sd ?Gb e = (if e = ?e then Some (if sd = Source then (v, i) else (w, j)) else tgt sd G e)" for sd e
    using s2(4,5) t1 [of e sd] n1(2) by (auto simp: tgt_def)
  have rates: "rate_of ?Gb e = (if e = ?e then r else rate_of G e)" if "e \<le> ?e" for e
    using that sr_okD(4) [OF ok] by (auto simp: rate_of_def nth_append)
  show ?thesis
    using run ok2 prts tgts rates s2(3,4) n1 np vs by (intro exI [of _ ?Gb]) (simp add: sr_vertices_def)
qed

lemma createEdge_extends:
  assumes ok: "sr_ok G" and v: "v < nV G" "i < nP Source G v" "prt Source G v i = None"
    and w: "w < nV G" "j < nP Sink G w" "prt Sink G w j = None"
  obtains G' where "sr_createEdge G (Some v) i (Some w) j r = Inr (G', nE G)" "sr_ok G'" "sr_extends G G'" "nV G' = nV G"
    "fills G G' {(v, i)} {(w, j)}" "prt Source G' v i = Some (nE G)" "prt Sink G' w j = Some (nE G)"
    "tgt Source G' (nE G) = Some (v, i)" "rate_of G' (nE G) = r" "sr_vertices G' = sr_vertices G"
proof -
  obtain G' where G': "sr_createEdge G (Some v) i (Some w) j r = Inr (G', nE G)" "sr_ok G'" "nV G' = nV G" "nE G' = Suc (nE G)"
    "sg_vs G' = sg_vs G" "\<forall>sd u. nP sd G' u = nP sd G u"
    and p: "\<forall>sd u p. prt sd G' u p = (if (u, p) = (if sd = Source then (v, i) else (w, j)) then Some (nE G) else prt sd G u p)"
    and t: "\<forall>sd e. tgt sd G' e = (if e = nE G then Some (if sd = Source then (v, i) else (w, j)) else tgt sd G e)"
    and r: "\<forall>e \<le> nE G. rate_of G' e = (if e = nE G then r else rate_of G e)" "sr_vertices G' = sr_vertices G"
    using sr_edge_new_ok [OF assms, of r] by blast
  have "prt sd G u q = Some e \<Longrightarrow> prt sd G' u q = Some e" for sd u q e using p v(3) w(3) by (cases sd) auto
  then have "sr_extends G G'" using G' r by (auto simp: sr_extends_def)
  moreover have "fills G G' {(v, i)} {(w, j)}" using p by (auto simp: fills_def)
  ultimately show thesis using G' p t r by (intro that [of G']) auto
qed

subsection \<open>A new special vertex\<close>

lemma createSpecial_extends:
  assumes ok: "sr_ok G" and c: "checkTypeConsistency t a b = Inr ()" and t: "t \<noteq> GRAPH"
  obtains G' where "createSpecial t a b nIn nOut G = Inr (G', nV G)" "sr_ok G'" "sr_extends G G'" "nV G' = Suc (nV G)" "nE G' = nE G"
    "fills G G' {} {}" "nP Sink G' (nV G) = nIn" "nP Source G' (nV G) = nOut" "\<And>sd p. prt sd G' (nV G) p = None"
    "sv_type (sg_vs G' ! nV G) = t" "sv_reference (sg_vs G' ! nV G) = Special (length (sg_specials G))"
    "sr_vertices G' = sr_vertices G @ [nV G]"
proof -
  let ?s = "sg_store G"
  let ?x = "\<lparr>vx_type = t, vx_in = replicate nIn None, vx_out = replicate nOut None, vx_graph = None,
     vx_ix = size_max, vx_rv = 1, vx_inParams = [], vx_outParams = [], vx_refinementParams = [], vx_asGraph = 0\<rparr>"
  let ?gr = "st_graphs ?s ! 0"
  let ?y = "?x\<lparr>vx_ix := length (gr_vertices ?gr), vx_graph := Some 0\<rparr>"
  let ?d = "\<lparr>sv_reference = Special (length (sg_specials G)), sv_type = t, sv_instance = 0, sv_executable = True,
     sv_inParams = [], sv_refParams = [], sv_outParams = [], sv_taskIx = size_max\<rparr>"
  let ?s' = "?s\<lparr>st_vertices := st_vertices ?s @ [?y], st_graphs := (st_graphs ?s)[0 := ?gr\<lparr>gr_vertices := gr_vertices ?gr @ [nV G]\<rparr>]\<rparr>"
  let ?G' = "G\<lparr>sg_specials := sg_specials G @ [(t, kernel_ix t)], sg_store := ?s', sg_vs := sg_vs G @ [?d]\<rparr>"
  have g: "0 < length (st_graphs ?s)" using sr_okD(1) [OF ok] by (simp add: store_ok_def index_ok_def)
  have run: "createSpecial t a b nIn nOut G = Inr (?G', nV G)"
    using c t g by (simp add: createSpecial_def sr_vertex_new_def Let_def sr_addVertex_def on_store_def vertex_at_def graph_at_def
      set_graph_def set_vertex_def sr_subtype_def list_update_append)
  have np: "n_ports sd ?s' u = (if u = nV G then (if sd = Source then nOut else nIn) else nP sd G u)" if "u \<le> nV G" for sd u
    using that by (cases sd) (auto simp: n_ports_def nth_append)
  have po: "port sd ?s' u p = (if u = nV G then None else port sd ?s u p)" if "u \<le> nV G" "p < n_ports sd ?s' u" for sd u p
    using that by (cases sd) (auto simp: port_def nth_append n_ports_def)
  have tg: "target sd ?s' e = target sd ?s e" for sd e by (simp add: target_def)
  have links: "links_ok sd ?s'" for sd
  proof (rule links_okI)
    fix v p e assume a: "v < n_vertices ?s'" "p < n_ports sd ?s' v" "port sd ?s' v p = Some e"
    then have "v \<le> nV G" by simp
    from po [OF this a(2)] np [OF this, of sd] a have v: "v < nV G" "p < nP sd G v" "port sd ?s v p = Some e" by (auto split: if_splits)
    from links_okD1 [OF sr_okD(2) [OF ok] v] tg show "e < n_edges ?s' \<and> target sd ?s' e = Some (v, p)" by simp
  next
    fix e v p assume a: "e < n_edges ?s'" "target sd ?s' e = Some (v, p)"
    then have "v < nV G \<and> p < nP sd G v \<and> port sd ?s v p = Some e" using tg by (intro links_okD2 [OF sr_okD(2) [OF ok]]) simp_all
    then show "v < n_vertices ?s' \<and> p < n_ports sd ?s' v \<and> port sd ?s' v p = Some e" using po [of v p sd] np [of v sd] by simp
  qed
  have index: "index_ok ?s' 0" using sr_okD(1) [OF ok] g
    by (auto simp: store_ok_def index_ok_def Let_def nth_append less_Suc_eq)
  have ok': "sr_ok ?G'" using links index sr_okD(3-5) [OF ok] by (auto simp: sr_ok_def store_ok_def nth_append less_Suc_eq)
  have pr: "prt sd ?G' u p = prt sd G u p" if "u < nV G" for sd u p
    using that np [of u sd] po [of u p sd] by (auto simp: prt_def)
  have new: "prt sd ?G' (nV G) p = None" for sd p using po [of "nV G" p sd] by (auto simp: prt_def)
  have "sr_extends G ?G'" using pr np sr_okD(3) [OF ok]
    by (auto simp: sr_extends_def nth_append rate_of_def) (metis option.distinct(1) prt_def pr)
  moreover have "fills G ?G' {} {}" using pr by (simp add: fills_def)
  ultimately show thesis
    using run ok' new np [of "nV G"] sr_okD(3) [OF ok] g by (intro that [of ?G']) (auto simp: sr_vertices_def nth_append)
qed

subsection \<open>Tokens\<close>

text \<open>A fork or a join that the transformation has inserted.\<close>

definition forks :: "srdag \<Rightarrow> nat \<Rightarrow> bool" where
  "forks G v \<longleftrightarrow> v < nV G \<and> sv_type (sg_vs G ! v) = FORK \<and> (\<exists>k. sv_reference (sg_vs G ! v) = Special k)"

definition joins :: "srdag \<Rightarrow> nat \<Rightarrow> bool" where
  "joins G v \<longleftrightarrow> v < nV G \<and> sv_type (sg_vs G ! v) = JOIN \<and> (\<exists>k. sv_reference (sg_vs G ! v) = Special k)"

text \<open>The sum of the rates at the first \<open>k\<close> ports, when they are all connected.\<close>

fun port_sum :: "side \<Rightarrow> srdag \<Rightarrow> nat \<Rightarrow> nat \<Rightarrow> int option" where
  "port_sum sd G v 0 = Some 0"
| "port_sum sd G v (Suc k) =
     (case prt sd G v k of None \<Rightarrow> None | Some e \<Rightarrow> map_option (\<lambda>r. r + rate_of G e) (port_sum sd G v k))"

text \<open>
  The token \<open>t\<close> that leaves the port \<open>p\<close> of \<open>v\<close> is the token \<open>t'\<close> of the port \<open>p'\<close> of the actor \<open>v'\<close>: a fork writes its
  input in slices, one per output; a join writes its inputs one after the other.
\<close>

inductive trace :: "srdag \<Rightarrow> nat \<Rightarrow> nat \<Rightarrow> int \<Rightarrow> nat \<times> nat \<times> int \<Rightarrow> bool" for G :: srdag where
  actor: "v < nV G \<Longrightarrow> \<not> forks G v \<Longrightarrow> \<not> joins G v \<Longrightarrow> trace G v p t (v, p, t)"
| fork: "forks G v \<Longrightarrow> prt Sink G v 0 = Some e \<Longrightarrow> tgt Source G e = Some (u, q) \<Longrightarrow> port_sum Source G v p = Some r \<Longrightarrow>
    trace G u q (r + t) x \<Longrightarrow> trace G v p t x"
| join: "joins G v \<Longrightarrow> port_sum Sink G v k = Some r \<Longrightarrow> prt Sink G v k = Some e \<Longrightarrow> r \<le> t \<Longrightarrow> t < r + rate_of G e \<Longrightarrow>
    tgt Source G e = Some (u, q) \<Longrightarrow> trace G u q (t - r) x \<Longrightarrow> trace G v 0 t x"

lemma port_sum_mono:
  assumes "sr_ok G" "sr_extends G G'"
  shows "port_sum sd G v k = Some r \<Longrightarrow> port_sum sd G' v k = Some r"
proof (induction k arbitrary: r)
  case (Suc k)
  then obtain e q where e: "prt sd G v k = Some e" "port_sum sd G v k = Some q" "r = q + rate_of G e" by (auto split: option.splits)
  with prt_bounds [OF assms(1) e(1)] extendsD(5,6) [OF assms(2)] Suc.IH [OF e(2)] show ?case by simp
qed simp

lemma forks_mono: "sr_extends G G' \<Longrightarrow> v < nV G \<Longrightarrow> forks G' v = forks G v \<and> joins G' v = joins G v"
  by (auto simp: forks_def joins_def sr_extends_def)

lemma tgt_mono: "sr_ok G \<Longrightarrow> sr_ok G' \<Longrightarrow> sr_extends G G' \<Longrightarrow> tgt sd G e = Some x \<Longrightarrow> tgt sd G' e = Some x"
  by (cases x) (metis prt_tgt extendsD(5))

lemma trace_mono:
  assumes "trace G v p t x" and ok: "sr_ok G" "sr_ok G'" "sr_extends G G'"
  shows "trace G' v p t x"
  using assms(1)
proof induction
  case (actor v p t)
  then show ?case using forks_mono [OF ok(3)] extendsD(1) [OF ok(3)] by (auto intro: trace.actor)
next
  case (fork v e u q p r t x)
  have "forks G' v" using fork(1) forks_mono [OF ok(3)] by (auto simp: forks_def)
  with fork show ?case
    using extendsD(5) [OF ok(3)] tgt_mono [OF ok] port_sum_mono [OF ok(1,3)] by (blast intro: trace.fork)
next
  case (join v k r e t u q x)
  have "joins G' v" using join(1) forks_mono [OF ok(3)] by (auto simp: joins_def)
  moreover have "rate_of G' e = rate_of G e" using prt_bounds [OF ok(1) join(3)] extendsD(6) [OF ok(3)] by simp
  then have "t < r + rate_of G' e" using join(5) by simp
  ultimately show ?case
    by (rule trace.join [OF _ port_sum_mono [OF ok(1,3) join(2)] extendsD(5) [OF ok(3) join(3)] join(4) _ tgt_mono [OF ok join(6)] join(8)])
qed

lemma port_sum_le:
  assumes "\<And>e. 0 \<le> rate_of G e"
  shows "port_sum sd G v k = Some r \<Longrightarrow> j < k \<Longrightarrow> \<exists>q e. port_sum sd G v j = Some q \<and> prt sd G v j = Some e \<and> q + rate_of G e \<le> r"
proof (induction k arbitrary: r)
  case (Suc k)
  then obtain e q where e: "prt sd G v k = Some e" "port_sum sd G v k = Some q" "r = q + rate_of G e" by (auto split: option.splits)
  show ?case
  proof (cases "j = k")
    case False
    with Suc.prems(2) Suc.IH [OF e(2)] obtain q' e' where "port_sum sd G v j = Some q'" "prt sd G v j = Some e'" "q' + rate_of G e' \<le> q" by auto
    with assms [of e] e(3) show ?thesis by auto
  qed (use e in auto)
qed simp

text \<open>A token comes from one place.\<close>

lemma trace_functional:
  assumes "trace G v p t x" "\<And>e. 0 \<le> rate_of G e"
  shows "trace G v p t y \<Longrightarrow> x = y"
  using assms(1)
proof (induction arbitrary: y)
  case (actor v p t)
  from actor.prems actor.hyps show ?case by (cases rule: trace.cases) auto
next
  case (fork v e u q p r t x)
  then have j: "\<not> joins G v" by (auto simp: forks_def joins_def)
  from fork.prems show ?case
  proof (cases rule: trace.cases)
    case (fork e' u' q' r')
    then have "u' = u" "q' = q" "r' = r" using fork.hyps(2-4) by simp_all
    with fork(5) have "trace G u q (r + t) y" by (simp only:)
    then show ?thesis by (rule fork.IH)
  qed (use fork.hyps(1) j in simp_all)
next
  case (join v k r e t u q x)
  then have f: "\<not> forks G v" by (auto simp: forks_def joins_def)
  from join.prems show ?case
  proof (cases rule: trace.cases)
    case (join k' r' e' u' q')
    have "\<not> k < k'" using port_sum_le [OF assms(2) join(2), of k] join.hyps join(4) by fastforce
    moreover have "\<not> k' < k" using port_sum_le [OF assms(2) join.hyps(2), of k'] join(2-5) join.hyps(4) by fastforce
    ultimately have "k' = k" by simp
    then have same: "e' = e" "r' = r" using join join.hyps(2,3) by simp_all
    then have "u' = u" "q' = q" using join join.hyps(6) by simp_all
    with same join have "trace G u q (t - r) y" by (simp only:)
    then show ?thesis by (rule join.IH)
  qed (use join.hyps(1) f in simp_all)
qed

end
