(* ===== verification/SRLinkage.thy ===== *)
theory SRLinkage
  imports SRFlow
begin

text \<open>
  The loop of \<open>singleRateLinkage\<close> on arbitrary linkers: when the dependencies of the linkers say how the intervals of
  tokens of the sources and of the sinks overlap, the loop ends, uses up both vectors, and the tokens read by the sinks
  are the tokens written by the sources, in order.
\<close>

subsection \<open>Intervals of tokens\<close>

text \<open>A predicate on every linker and its interval of tokens, the first one starting at \<open>b\<close>.\<close>

fun each :: "(transfo_vertex \<Rightarrow> int \<Rightarrow> int \<Rightarrow> bool) \<Rightarrow> int \<Rightarrow> transfo_vertex list \<Rightarrow> bool" where
  "each P b [] = True"
| "each P b (x # xs) = (P x b (b + tv_rate x) \<and> each P (b + tv_rate x) xs)"

fun ivs :: "int \<Rightarrow> transfo_vertex list \<Rightarrow> (int \<times> int) list" where
  "ivs b [] = []"
| "ivs b (x # xs) = (b, b + tv_rate x) # ivs (b + tv_rate x) xs"

definition tokens :: "transfo_vertex list \<Rightarrow> int" where "tokens xs = sum_list (List.map tv_rate xs)"

abbreviation positive :: "transfo_vertex list \<Rightarrow> bool" where "positive xs \<equiv> \<forall>x \<in> set xs. 0 < tv_rate x"

lemma tokens_simps [simp]: "tokens [] = 0" "tokens (x # xs) = tv_rate x + tokens xs" "tokens (xs @ ys) = tokens xs + tokens ys"
  by (simp_all add: tokens_def)

lemma tokens_nonneg: "positive xs \<Longrightarrow> 0 \<le> tokens xs"
  by (induction xs) simp_all

lemma tokens_pos: "positive xs \<Longrightarrow> xs \<noteq> [] \<Longrightarrow> 0 < tokens xs"
  by (cases xs) (auto dest: tokens_nonneg)

lemma each_append: "each P b (xs @ ys) \<longleftrightarrow> each P b xs \<and> each P (b + tokens xs) ys"
  by (induction xs arbitrary: b) (auto simp: algebra_simps)

lemma ivs_append: "ivs b (xs @ ys) = ivs b xs @ ivs (b + tokens xs) ys"
  by (induction xs arbitrary: b) (auto simp: algebra_simps)

lemma each_mono:
  assumes "\<And>x c d. x \<in> set xs \<Longrightarrow> b \<le> c \<Longrightarrow> c < d \<Longrightarrow> P x c d \<Longrightarrow> Q x c d"
  shows "positive xs \<Longrightarrow> each P b xs \<Longrightarrow> each Q b xs"
  using assms
proof (induction xs arbitrary: b)
  case (Cons x xs)
  from Cons.prems(1) have "0 < tv_rate x" "positive xs" by auto
  with Cons.IH [of "b + tv_rate x"] Cons.prems show ?case by auto
qed simp

lemma ivs_bounds: "positive xs \<Longrightarrow> (c, d) \<in> set (ivs b xs) \<Longrightarrow> b \<le> c \<and> c < d \<and> d \<le> b + tokens xs"
proof (induction xs arbitrary: b)
  case (Cons x xs)
  from Cons.prems(1) have "0 < tv_rate x" "positive xs" by auto
  with Cons.IH [of "b + tv_rate x"] tokens_nonneg [of xs] Cons.prems(2) show ?case by auto
qed simp

text \<open>The number of intervals that meet \<open>[a, d)\<close>.\<close>

definition met :: "int \<Rightarrow> int \<Rightarrow> (int \<times> int) list \<Rightarrow> nat" where
  "met a d L = length (filter (\<lambda>(p, q). a < q \<and> p < d) L)"

lemma met_simps [simp]:
  "met a d [] = 0" "met a d ((p, q) # L) = (if a < q \<and> p < d then 1 else 0) + met a d L" "met a d (L @ M) = met a d L + met a d M"
  by (simp_all add: met_def)

lemma met_before: "positive xs \<Longrightarrow> b + tokens xs \<le> a \<Longrightarrow> met a d (ivs b xs) = 0"
  using ivs_bounds by (force simp: met_def filter_empty_conv)

lemma met_after: "positive xs \<Longrightarrow> d \<le> b \<Longrightarrow> met a d (ivs b xs) = 0"
  using ivs_bounds by (force simp: met_def filter_empty_conv)

text \<open>The intervals met from the start: all but the last one end before \<open>d\<close>.\<close>

lemma met_split:
  assumes "positive xs" "a \<le> b" "b < d" "d \<le> b + tokens xs"
  shows "\<exists>ys y zs. xs = ys @ y # zs \<and> met a d (ivs b xs) = Suc (length ys) \<and> b + tokens ys < d \<and> d \<le> b + tokens ys + tv_rate y"
  using assms
proof (induction xs arbitrary: b)
  case (Cons x xs)
  from Cons.prems(1) have p: "0 < tv_rate x" "positive xs" by auto
  show ?case
  proof (cases "d \<le> b + tv_rate x")
    case True
    with met_after [OF p(2) True] Cons.prems p show ?thesis by (intro exI [of _ "[]"] exI [of _ x] exI [of _ xs]) auto
  next
    case False
    with Cons.prems p obtain ys y zs where "xs = ys @ y # zs" "met a d (ivs (b + tv_rate x) xs) = Suc (length ys)"
      "b + tv_rate x + tokens ys < d" "d \<le> b + tv_rate x + tokens ys + tv_rate y"
      using Cons.IH [of "b + tv_rate x"] by auto
    with False Cons.prems p show ?thesis by (intro exI [of _ "x # ys"] exI [of _ y] exI [of _ zs]) auto
  qed
qed simp

subsection \<open>Dependencies that describe the overlaps\<close>

definition dep_ok :: "transfo_vertex \<Rightarrow> nat \<Rightarrow> bool" where
  "dep_ok x n \<longleftrightarrow> (tv_lowerDep x = tv_upperDep x \<longleftrightarrow> n = 1) \<and> (n \<noteq> 1 \<longrightarrow> dep_count x = n)"

definition sinks_ok :: "int \<Rightarrow> transfo_vertex list \<Rightarrow> transfo_vertex list \<Rightarrow> bool" where
  "sinks_ok b srcs snks \<longleftrightarrow> each (\<lambda>x c d. dep_ok x (met c d (ivs b srcs))) b snks"

definition covered :: "int \<Rightarrow> int \<Rightarrow> (int \<times> int) list \<Rightarrow> bool" where
  "covered c d L \<longleftrightarrow> (\<exists>(p, q) \<in> set L. p < c \<and> d < q)"

lemma covered_simps [simp]: "\<not> covered c d []" "covered c d ((p, q) # L) \<longleftrightarrow> p < c \<and> d < q \<or> covered c d L"
  by (auto simp: covered_def)

text \<open>Nothing is required of a source inside the interval of one sink: a join takes it as it is.\<close>

definition sources_ok :: "int \<Rightarrow> transfo_vertex list \<Rightarrow> transfo_vertex list \<Rightarrow> bool" where
  "sources_ok b srcs snks \<longleftrightarrow>
     each (\<lambda>x c d. covered c d (ivs b snks) \<or> dep_ok x (met c d (ivs b snks))) b srcs"

lemma sinks_ok_cut:
  assumes "each (\<lambda>x c d. dep_ok x (met c d (ivs b srcs))) e snks" "positive snks"
    and "\<And>c d. e \<le> c \<Longrightarrow> c < d \<Longrightarrow> met c d (ivs b' srcs') = met c d (ivs b srcs)"
  shows "each (\<lambda>x c d. dep_ok x (met c d (ivs b' srcs'))) e snks"
  using assms by (intro each_mono [OF _ assms(2,1)]) simp

lemma sources_ok_cut:
  assumes "each (\<lambda>x c d. covered c d (ivs b snks) \<or> dep_ok x (met c d (ivs b snks))) e srcs" "positive srcs"
    and "\<And>c d. e \<le> c \<Longrightarrow> c < d \<Longrightarrow> met c d (ivs b' snks') = met c d (ivs b snks)"
    and "\<And>c d. e \<le> c \<Longrightarrow> c < d \<Longrightarrow> covered c d (ivs b snks) \<Longrightarrow> covered c d (ivs b' snks')"
  shows "each (\<lambda>x c d. covered c d (ivs b' snks') \<or> dep_ok x (met c d (ivs b' snks'))) e srcs"
  by (rule each_mono [OF _ assms(2,1)]) (use assms(3,4) in auto)

text \<open>What is left after a fork or a join: one linker on the last port, with no dependency to satisfy.\<close>

definition rest_of :: "nat \<Rightarrow> nat \<Rightarrow> int \<Rightarrow> transfo_vertex" where
  "rest_of v q rate = transfo_vertex_new rate q (Some v) \<lparr>tv_lowerDep := 0, tv_upperDep := 0\<rparr>"

lemma rest_of_simps [simp]: "tv_rate (rest_of v p r) = r" "tv_vertex (rest_of v p r) = Some v" "tv_portIx (rest_of v p r) = p mod 2 ^ 32"
  "tv_lowerDep (rest_of v p r) = tv_upperDep (rest_of v p r)" "dep_ok (rest_of v p r) (Suc 0)"
  by (simp_all add: rest_of_def transfo_vertex_new_def dep_ok_def)

lemma forward_state:
  assumes p: "positive (x # ss)" "positive (k # ks)" and t: "tokens (x # ss) = tokens (k # ks)"
    and sk: "sinks_ok b (x # ss) (k # ks)" and so: "sources_ok b (x # ss) (k # ks)"
    and d: "tv_lowerDep k = tv_upperDep k" "tv_lowerDep x = tv_upperDep x"
  shows "tv_rate x = tv_rate k \<and> sinks_ok (b + tv_rate k) ss ks \<and> sources_ok (b + tv_rate k) ss ks"
proof -
  have pp: "0 < tv_rate x" "0 < tv_rate k" "positive ss" "positive ks" using p by auto
  have "met b (b + tv_rate k) (ivs b (x # ss)) = 1" using sk d(1) by (simp add: sinks_ok_def dep_ok_def)
  with met_split [OF p(1), of b b "b + tv_rate k"] pp t tokens_nonneg [OF pp(4)]
  have le: "tv_rate k \<le> tv_rate x" by (auto simp: Cons_eq_append_conv)
  have "\<not> covered b (b + tv_rate x) (ivs b (k # ks))"
    using ivs_bounds [OF p(2)] by (fastforce simp: covered_def)
  then have "met b (b + tv_rate x) (ivs b (k # ks)) = 1" using so d(2) by (auto simp: sources_ok_def dep_ok_def)
  with met_split [OF p(2), of b b "b + tv_rate x"] pp t tokens_nonneg [OF pp(3)]
  have "tv_rate x \<le> tv_rate k" by (auto simp: Cons_eq_append_conv)
  with le have eq: "tv_rate x = tv_rate k" by simp
  have "sinks_ok (b + tv_rate k) ss ks"
    unfolding sinks_ok_def by (rule sinks_ok_cut [OF _ pp(4), of b "x # ss"]) (use sk eq in \<open>auto simp: sinks_ok_def\<close>)
  moreover have "sources_ok (b + tv_rate k) ss ks"
    unfolding sources_ok_def by (rule sources_ok_cut [OF _ pp(3), of b "k # ks"]) (use so eq in \<open>auto simp: sources_ok_def\<close>)
  ultimately show ?thesis using eq by simp
qed

lemma fork_state:
  assumes p: "positive (x # ss)" "positive snks" and t: "tokens (x # ss) = tokens snks"
    and sk: "sinks_ok b (x # ss) snks" and so: "sources_ok b (x # ss) snks"
    and d: "tv_lowerDep x \<noteq> tv_upperDep x"
  shows "\<exists>js k ks. snks = js @ k # ks \<and> js \<noteq> [] \<and> dep_count x = Suc (length js) \<and> tokens js < tv_rate x \<and> tv_rate x \<le> tokens js + tv_rate k \<and>
    (\<forall>v q. sinks_ok (b + tokens js) (rest_of v q (tv_rate x - tokens js) # ss) (k # ks) \<and>
           sources_ok (b + tokens js) (rest_of v q (tv_rate x - tokens js) # ss) (k # ks))"
proof -
  have pp: "0 < tv_rate x" "positive ss" using p by auto
  have "\<not> covered b (b + tv_rate x) (ivs b snks)" using ivs_bounds [OF p(2)] by (fastforce simp: covered_def)
  then have m: "dep_ok x (met b (b + tv_rate x) (ivs b snks))" using so by (auto simp: sources_ok_def)
  obtain js k ks where s: "snks = js @ k # ks" "met b (b + tv_rate x) (ivs b snks) = Suc (length js)"
    "b + tokens js < b + tv_rate x" "b + tv_rate x \<le> b + tokens js + tv_rate k"
    using met_split [OF p(2), of b b "b + tv_rate x"] pp t tokens_nonneg [OF pp(2)] by auto
  from m d s(2) have n: "js \<noteq> []" "dep_count x = Suc (length js)" by (auto simp: dep_ok_def)
  have q: "positive js" "positive (k # ks)" "0 < tv_rate k" "positive ks" using p(2) s(1) by auto
  have "sinks_ok (b + tokens js) (rest_of v r (tv_rate x - tokens js) # ss) (k # ks)" for v r
    unfolding sinks_ok_def
  proof (rule sinks_ok_cut [OF _ q(2), of b "x # ss"])
    show "each (\<lambda>y c d. dep_ok y (met c d (ivs b (x # ss)))) (b + tokens js) (k # ks)"
      using sk unfolding s(1) sinks_ok_def each_append by simp
  qed (use s(3) tokens_nonneg [OF q(1)] in auto)
  moreover have "sources_ok (b + tokens js) (rest_of v r (tv_rate x - tokens js) # ss) (k # ks)" for v r
  proof -
    have "each (\<lambda>y c d. covered c d (ivs (b + tokens js) (k # ks)) \<or> dep_ok y (met c d (ivs (b + tokens js) (k # ks)))) (b + tv_rate x) ss"
    proof (rule sources_ok_cut [OF _ pp(2), of b snks])
      show "each (\<lambda>y c d. covered c d (ivs b snks) \<or> dep_ok y (met c d (ivs b snks))) (b + tv_rate x) ss"
        using so by (simp add: sources_ok_def)
      show "met c d (ivs (b + tokens js) (k # ks)) = met c d (ivs b snks)" if "b + tv_rate x \<le> c" for c d
        using met_before [OF q(1), of b c d] that s(1,3) by (simp add: ivs_append del: ivs.simps)
      show "covered c d (ivs (b + tokens js) (k # ks))"
        if "b + tv_rate x \<le> c" "c < d" "covered c d (ivs b snks)" for c d
        using that ivs_bounds [OF q(1), of _ _ b] s(1,3) by (fastforce simp: covered_def ivs_append simp del: ivs.simps)
    qed
    moreover have "met (b + tokens js) (b + tv_rate x) (ivs (b + tokens js) (k # ks)) = 1"
      using met_after [OF q(4), of "b + tv_rate x" "b + tokens js + tv_rate k"] s(3,4) q(3) by simp
    ultimately show ?thesis unfolding sources_ok_def each.simps by simp
  qed
  ultimately show ?thesis using s n by (intro exI [of _ js] exI [of _ k] exI [of _ ks]) auto
qed

lemma join_state:
  assumes p: "positive srcs" "positive (k # ks)" and t: "tokens srcs = tokens (k # ks)"
    and sk: "sinks_ok b srcs (k # ks)" and so: "sources_ok b srcs (k # ks)"
    and d: "tv_lowerDep k \<noteq> tv_upperDep k"
  shows "\<exists>js x ss. srcs = js @ x # ss \<and> js \<noteq> [] \<and> dep_count k = Suc (length js) \<and> tokens js < tv_rate k \<and> tv_rate k \<le> tokens js + tv_rate x \<and>
    (\<forall>v q. sinks_ok (b + tokens js) (x # ss) (rest_of v q (tv_rate k - tokens js) # ks) \<and>
           sources_ok (b + tokens js) (x # ss) (rest_of v q (tv_rate k - tokens js) # ks))"
proof -
  have pp: "0 < tv_rate k" "positive ks" using p by auto
  have m: "dep_ok k (met b (b + tv_rate k) (ivs b srcs))" using sk by (simp add: sinks_ok_def)
  obtain js x ss where s: "srcs = js @ x # ss" "met b (b + tv_rate k) (ivs b srcs) = Suc (length js)"
    "b + tokens js < b + tv_rate k" "b + tv_rate k \<le> b + tokens js + tv_rate x"
    using met_split [OF p(1), of b b "b + tv_rate k"] pp t tokens_nonneg [OF pp(2)] by auto
  from m d s(2) have n: "js \<noteq> []" "dep_count k = Suc (length js)" by (auto simp: dep_ok_def)
  have q: "positive js" "positive (x # ss)" "0 < tv_rate x" "positive ss" using p(1) s(1) by auto
  have "sinks_ok (b + tokens js) (x # ss) (rest_of v r (tv_rate k - tokens js) # ks)" for v r
  proof -
    have "each (\<lambda>y c d. dep_ok y (met c d (ivs (b + tokens js) (x # ss)))) (b + tv_rate k) ks"
    proof (rule sinks_ok_cut [OF _ pp(2), of b srcs])
      show "each (\<lambda>y c d. dep_ok y (met c d (ivs b srcs))) (b + tv_rate k) ks" using sk by (simp add: sinks_ok_def)
      show "met c d (ivs (b + tokens js) (x # ss)) = met c d (ivs b srcs)" if "b + tv_rate k \<le> c" for c d
        using met_before [OF q(1), of b c d] that s(1,3) by (simp add: ivs_append del: ivs.simps)
    qed
    moreover have "met (b + tokens js) (b + tv_rate k) (ivs (b + tokens js) (x # ss)) = 1"
      using met_after [OF q(4), of "b + tv_rate k" "b + tokens js + tv_rate x"] s(3,4) q(3) by simp
    ultimately show ?thesis unfolding sinks_ok_def each.simps by simp
  qed
  moreover have "sources_ok (b + tokens js) (x # ss) (rest_of v r (tv_rate k - tokens js) # ks)" for v r
  proof -
    let ?K = "rest_of v r (tv_rate k - tokens js) # ks"
    have met: "met c d (ivs (b + tokens js) ?K) = met c d (ivs b (k # ks))" if "b + tokens js \<le> c" "c < d" for c d
      using that s(3) tokens_nonneg [OF q(1)] by auto
    have old: "each (\<lambda>y c d. covered c d (ivs b (k # ks)) \<or> dep_ok y (met c d (ivs b (k # ks)))) (b + tokens js) (x # ss)"
      using so unfolding s(1) sources_ok_def each_append by simp
    have "\<not> covered (b + tokens js) (b + tokens js + tv_rate x) (ivs b (k # ks))"
      using ivs_bounds [OF pp(2), of _ _ "b + tv_rate k"] s(3,4) by (fastforce simp: covered_def)
    then have "dep_ok x (met (b + tokens js) (b + tokens js + tv_rate x) (ivs (b + tokens js) ?K))"
      using old met [of "b + tokens js" "b + tokens js + tv_rate x"] q(3) by (simp del: ivs.simps)
    moreover have "each (\<lambda>y c d. covered c d (ivs (b + tokens js) ?K) \<or> dep_ok y (met c d (ivs (b + tokens js) ?K)))
       (b + tokens js + tv_rate x) ss"
    proof (rule sources_ok_cut [OF _ q(4), of b "k # ks"])
      show "each (\<lambda>y c d. covered c d (ivs b (k # ks)) \<or> dep_ok y (met c d (ivs b (k # ks)))) (b + tokens js + tv_rate x) ss"
        using old by simp
    qed (use met q(3) in \<open>simp del: ivs.simps\<close>, use s(3,4) in auto)
    ultimately show ?thesis unfolding sources_ok_def each.simps by simp
  qed
  ultimately show ?thesis using s n by (intro exI [of _ js] exI [of _ x] exI [of _ ss]) auto
qed

subsection \<open>Linkers in the graph\<close>

definition key :: "transfo_vertex \<Rightarrow> nat \<times> nat" where "key x = (the (tv_vertex x), tv_portIx x)"

abbreviation keys :: "transfo_vertex list \<Rightarrow> (nat \<times> nat) set" where "keys xs \<equiv> key ` set xs"

text \<open>The ports of the linkers exist, are free, and differ.\<close>

definition free_port :: "side \<Rightarrow> srdag \<Rightarrow> transfo_vertex \<Rightarrow> bool" where
  "free_port sd G x \<longleftrightarrow> tv_vertex x = Some (fst (key x)) \<and> fst (key x) < nV G \<and> snd (key x) < nP sd G (fst (key x)) \<and>
     prt sd G (fst (key x)) (snd (key x)) = None"

definition free_ports :: "side \<Rightarrow> srdag \<Rightarrow> transfo_vertex list \<Rightarrow> bool" where
  "free_ports sd G xs \<longleftrightarrow> (\<forall>x \<in> set xs. free_port sd G x) \<and> distinct (List.map key xs)"

text \<open>The tokens of the interval \<open>[c, d)\<close> of the stream \<open>f\<close> leave the port of a source, or enter the port of a sink.\<close>

definition supplied :: "srdag \<Rightarrow> (int \<Rightarrow> nat \<times> nat \<times> int) \<Rightarrow> transfo_vertex \<Rightarrow> int \<Rightarrow> int \<Rightarrow> bool" where
  "supplied G f x c d \<longleftrightarrow> (\<forall>t. c \<le> t \<and> t < d \<longrightarrow> trace G (fst (key x)) (snd (key x)) (t - c) (f t))"

definition fed :: "srdag \<Rightarrow> (int \<Rightarrow> nat \<times> nat \<times> int) \<Rightarrow> transfo_vertex \<Rightarrow> int \<Rightarrow> int \<Rightarrow> bool" where
  "fed G f x c d \<longleftrightarrow> (\<exists>e u q. prt Sink G (fst (key x)) (snd (key x)) = Some e \<and> rate_of G e = tv_rate x \<and> tgt Source G e = Some (u, q) \<and>
     (\<forall>t. c \<le> t \<and> t < d \<longrightarrow> trace G u q (t - c) (f t)))"

definition drained :: "srdag \<Rightarrow> transfo_vertex \<Rightarrow> bool" where
  "drained G x \<longleftrightarrow> (\<exists>e. prt Source G (fst (key x)) (snd (key x)) = Some e \<and> rate_of G e = tv_rate x)"

lemma supplied_mono: "supplied G f x c d \<Longrightarrow> sr_ok G \<Longrightarrow> sr_ok G' \<Longrightarrow> sr_extends G G' \<Longrightarrow> supplied G' f x c d"
  by (auto simp: supplied_def intro: trace_mono)

lemma fed_mono:
  assumes "fed G f x c d" and ok: "sr_ok G" "sr_ok G'" "sr_extends G G'"
  shows "fed G' f x c d"
proof -
  from assms(1) obtain e u q where e: "prt Sink G (fst (key x)) (snd (key x)) = Some e" "rate_of G e = tv_rate x" "tgt Source G e = Some (u, q)"
    "\<forall>t. c \<le> t \<and> t < d \<longrightarrow> trace G u q (t - c) (f t)" by (auto simp: fed_def)
  moreover have "rate_of G' e = rate_of G e" using prt_bounds [OF ok(1) e(1)] extendsD(6) [OF ok(3)] by simp
  ultimately show ?thesis
    using extendsD(5) [OF ok(3) e(1)] tgt_mono [OF ok e(3)] trace_mono [OF _ ok] by (auto simp: fed_def)
qed

lemma drained_mono: "drained G x \<Longrightarrow> sr_ok G \<Longrightarrow> sr_extends G G' \<Longrightarrow> drained G' x"
  using prt_bounds extendsD(5,6) by (fastforce simp: drained_def)

lemma each_supplied_mono: "each (supplied G f) b xs \<Longrightarrow> sr_ok G \<Longrightarrow> sr_ok G' \<Longrightarrow> sr_extends G G' \<Longrightarrow> each (supplied G' f) b xs"
  by (induction xs arbitrary: b) (auto intro: supplied_mono)

lemma each_fed_mono: "each (fed G f) b xs \<Longrightarrow> sr_ok G \<Longrightarrow> sr_ok G' \<Longrightarrow> sr_extends G G' \<Longrightarrow> each (fed G' f) b xs"
  by (induction xs arbitrary: b) (auto intro: fed_mono)

text \<open>A port stays free when the extension fills others.\<close>

lemma free_port_fills:
  assumes "free_port sd G x" "sr_extends G G'" "fills G G' A B" "key x \<notin> (if sd = Source then A else B)"
  shows "free_port sd G' x"
  using assms extendsD(1,4) [OF assms(2)] by (cases sd) (auto simp: free_port_def fills_def less_le_trans)

lemma free_ports_fills:
  assumes "free_ports sd G xs" "sr_extends G G'" "fills G G' A B" "keys xs \<inter> (if sd = Source then A else B) = {}"
  shows "free_ports sd G' xs"
  using assms free_port_fills [OF _ assms(2,3)] by (fastforce simp: free_ports_def)

lemma free_ports_append: "free_ports sd G (xs @ ys) \<longleftrightarrow> free_ports sd G xs \<and> free_ports sd G ys \<and> keys xs \<inter> keys ys = {}"
  by (auto simp: free_ports_def)

lemma free_ports_Cons: "free_ports sd G (x # xs) \<longleftrightarrow> free_port sd G x \<and> free_ports sd G xs \<and> key x \<notin> keys xs"
  by (auto simp: free_ports_def)

lemma key_old: "free_ports sd G xs \<Longrightarrow> k \<in> keys xs \<Longrightarrow> fst k < nV G"
  by (auto simp: free_ports_def free_port_def)

subsection \<open>The outputs of a fork\<close>

lemma fork_outputs:
  assumes "sr_ok G" "forks G w" "prt Sink G w 0 = Some e0" "tgt Source G e0 = Some (v, p)"
    and "port_sum Source G w i = Some (b - a)" "\<forall>j \<ge> i. prt Source G w j = None" "i + length js < nP Source G w"
    and "free_ports Sink G js" "positive js" "\<forall>t. a \<le> t \<and> t < d \<longrightarrow> trace G v p (t - a) (f t)" "a \<le> b" "b + tokens js \<le> d"
    and "tokens js \<le> R" "R < 2 ^ 63"
  shows "\<exists>G'. foldE (connect_step (fork_connector w)) (G, R, js @ ks) [i..<i + length js] = Inr (G', R - tokens js, ks) \<and> sr_ok G' \<and>
    sr_extends G G' \<and> nV G' = nV G \<and> fills G G' ({w} \<times> {i..<i + length js}) (keys js) \<and> each (fed G' f) b js \<and>
    port_sum Source G' w (i + length js) = Some (b + tokens js - a)"
  using assms
proof (induction js arbitrary: G i b R)
  case Nil
  then show ?case by (auto simp: fills_def)
next
  case (Cons y js)
  have y: "free_port Sink G y" "free_ports Sink G js" "key y \<notin> keys js" using Cons.prems(8) by (simp_all add: free_ports_Cons)
  have pos: "0 < tv_rate y" "positive js" using Cons.prems(9) by auto
  have w: "w < nV G" using Cons.prems(2) by (simp add: forks_def)
  have yv: "fst (key y) < nV G" "snd (key y) < nP Sink G (fst (key y))" "prt Sink G (fst (key y)) (snd (key y)) = None"
    "tv_vertex y = Some (fst (key y))" "snd (key y) = tv_portIx y"
    using y(1) by (auto simp: free_port_def key_def)
  have "i < nP Source G w" "prt Source G w i = None" using Cons.prems(6,7) by auto
  then obtain G1 where G1: "sr_createEdge G (Some w) i (Some (fst (key y))) (snd (key y)) (tv_rate y) = Inr (G1, nE G)" "sr_ok G1" "sr_extends G G1"
    "nV G1 = nV G" "fills G G1 {(w, i)} {(fst (key y), snd (key y))}" "prt Source G1 w i = Some (nE G)"
    "prt Sink G1 (fst (key y)) (snd (key y)) = Some (nE G)" "tgt Source G1 (nE G) = Some (w, i)" "rate_of G1 (nE G) = tv_rate y"
    using createEdge_extends [OF Cons.prems(1) w _ _ yv(1-3), of i "tv_rate y"] by metis
  have f1: "forks G1 w" using forks_mono [OF G1(3) w] Cons.prems(2) by simp
  have e0: "prt Sink G1 w 0 = Some e0" "tgt Source G1 e0 = Some (v, p)"
    using extendsD(5) [OF G1(3) Cons.prems(3)] tgt_mono [OF Cons.prems(1) G1(2,3) Cons.prems(4)] by auto
  have sum0: "port_sum Source G1 w i = Some (b - a)" using port_sum_mono [OF Cons.prems(1) G1(3) Cons.prems(5)] .
  then have sum1: "port_sum Source G1 w (Suc i) = Some (b + tv_rate y - a)" using G1(6,9) by simp
  have tr: "\<forall>t. a \<le> t \<and> t < d \<longrightarrow> trace G1 v p (t - a) (f t)" using Cons.prems(10) trace_mono [OF _ Cons.prems(1) G1(2,3)] by blast
  have fed: "fed G1 f y b (b + tv_rate y)"
    unfolding fed_def
  proof (intro exI conjI allI impI)
    fix t assume t: "b \<le> t \<and> t < b + tv_rate y"
    then have "trace G1 v p (t - a) (f t)" using tr Cons.prems(11,12) tokens_nonneg [OF pos(2)] by auto
    then have "trace G1 v p ((b - a) + (t - b)) (f t)" by simp
    from trace.fork [OF f1 e0 sum0 this] show "trace G1 w i (t - b) (f t)" .
  qed (use G1 in auto)
  have rest: "\<forall>j \<ge> Suc i. prt Source G1 w j = None"
    using G1(5) w Cons.prems(6) by (auto simp: fills_def)
  have "keys js \<inter> {(fst (key y), snd (key y))} = {}" using y(3) by auto
  then have free1: "free_ports Sink G1 js" by (intro free_ports_fills [OF y(2) G1(3,5)]) simp
  have np: "Suc i + length js < nP Source G1 w" using Cons.prems(7) extendsD(4) [OF G1(3) w] by simp
  from Cons.IH [OF G1(2) f1 e0 sum1 rest np free1 pos(2) tr, of "R - tv_rate y"] pos Cons.prems(11-14)
  obtain G' where G': "foldE (connect_step (fork_connector w)) (G1, R - tv_rate y, js @ ks) [Suc i..<Suc i + length js] = Inr (G', R - tv_rate y - tokens js, ks)"
    "sr_ok G'" "sr_extends G1 G'" "nV G' = nV G1" "fills G1 G' ({w} \<times> {Suc i..<Suc i + length js}) (keys js)" "each (fed G' f) (b + tv_rate y) js"
    "port_sum Source G' w (Suc i + length js) = Some (b + tv_rate y + tokens js - a)" by auto
  have R: "in_i64 (R - tv_rate y)" using pos Cons.prems(13,14) tokens_nonneg [OF pos(2)] by (simp add: in_i64_def)
  have "foldE (connect_step (fork_connector w)) (G, R, (y # js) @ ks) [i..<i + length (y # js)] = Inr (G', R - tokens (y # js), ks)"
    using G1(1) G'(1) yv R by (simp add: upt_conv_Cons connect_step_def fork_connector_def algebra_simps del: upt_Suc)
  moreover have "fills G G' ({w} \<times> {i..<i + length (y # js)}) (keys (y # js))"
    by (rule fills_trans [OF G1(3) fills_mono [OF G1(5)] fills_mono [OF G'(5)]]) auto
  moreover have "fed G' f y b (b + tv_rate y)" by (rule fed_mono [OF fed G1(2) G'(2,3)])
  ultimately show ?case using G' G1(4) sr_extends_trans [OF G1(3) G'(3)] by (intro exI [of _ G']) (simp add: algebra_simps)
qed

subsection \<open>The inputs of a join\<close>

text \<open>What the join has gathered so far: the tokens of \<open>[a, b)\<close>.\<close>

definition gathered :: "srdag \<Rightarrow> (int \<Rightarrow> nat \<times> nat \<times> int) \<Rightarrow> nat \<Rightarrow> int \<Rightarrow> int \<Rightarrow> bool" where
  "gathered G f w a b \<longleftrightarrow> (\<forall>t. a \<le> t \<and> t < b \<longrightarrow> trace G w 0 (t - a) (f t))"

text \<open>One more input.\<close>

lemma join_input:
  assumes ok: "sr_ok G" "joins G w" "port_sum Sink G w i = Some (b - a)" "prt Sink G w i = None" "i < nP Sink G w"
    and y: "free_port Source G y" "supplied G f y b (b + tv_rate y)" "gathered G f w a b" "a \<le> b"
  obtains G1 where "sr_createEdge G (tv_vertex y) (tv_portIx y) (Some w) i (tv_rate y) = Inr (G1, nE G)" "sr_ok G1" "sr_extends G G1" "nV G1 = nV G"
    "fills G G1 {key y} {(w, i)}" "port_sum Sink G1 w (Suc i) = Some (b + tv_rate y - a)" "gathered G1 f w a (b + tv_rate y)" "drained G1 y"
proof -
  have w: "w < nV G" using ok(2) by (simp add: joins_def)
  have yv: "fst (key y) < nV G" "snd (key y) < nP Source G (fst (key y))" "prt Source G (fst (key y)) (snd (key y)) = None"
    "tv_vertex y = Some (fst (key y))" "snd (key y) = tv_portIx y"
    using y(1) by (auto simp: free_port_def key_def)
  obtain G1 where G1: "sr_createEdge G (Some (fst (key y))) (snd (key y)) (Some w) i (tv_rate y) = Inr (G1, nE G)" "sr_ok G1" "sr_extends G G1"
    "nV G1 = nV G" "fills G G1 {key y} {(w, i)}" "prt Source G1 (fst (key y)) (snd (key y)) = Some (nE G)"
    "prt Sink G1 w i = Some (nE G)" "tgt Source G1 (nE G) = Some (fst (key y), snd (key y))" "rate_of G1 (nE G) = tv_rate y"
    using createEdge_extends [OF ok(1) yv(1-3) w ok(5,4), of "tv_rate y"] by (metis prod.collapse)
  have j1: "joins G1 w" using forks_mono [OF G1(3) w] ok(2) by simp
  have sum0: "port_sum Sink G1 w i = Some (b - a)" using port_sum_mono [OF ok(1) G1(3) ok(3)] .
  have "trace G1 w 0 (t - a) (f t)" if "a \<le> t" "t < b + tv_rate y" for t
  proof (cases "t < b")
    case True
    with y(3) that have "trace G w 0 (t - a) (f t)" by (simp add: gathered_def)
    then show ?thesis by (rule trace_mono [OF _ ok(1) G1(2,3)])
  next
    case False
    with y(2) that have "trace G (fst (key y)) (snd (key y)) (t - b) (f t)" by (simp add: supplied_def)
    then have "trace G1 (fst (key y)) (snd (key y)) ((t - a) - (b - a)) (f t)"
      using trace_mono [OF _ ok(1) G1(2,3)] by simp
    with False that G1(9) show ?thesis by (intro trace.join [OF j1 sum0 G1(7) _ _ G1(8)]) auto
  qed
  then have "gathered G1 f w a (b + tv_rate y)" by (simp add: gathered_def)
  moreover have "port_sum Sink G1 w (Suc i) = Some (b + tv_rate y - a)" using sum0 G1(7,9) by simp
  moreover have "drained G1 y" using G1(6,9) by (auto simp: drained_def)
  ultimately show thesis using G1 yv by (intro that [of G1]) auto
qed

lemma join_inputs:
  assumes "sr_ok G" "joins G w" "port_sum Sink G w i = Some (b - a)" "\<forall>j \<ge> i. prt Sink G w j = None" "i + length js < nP Sink G w"
    and "free_ports Source G js" "positive js" "each (supplied G f) b js" "gathered G f w a b" "a \<le> b" "tokens js \<le> R" "R < 2 ^ 63"
  shows "\<exists>G'. foldE (connect_step (join_connector w)) (G, R, js @ ks) [i..<i + length js] = Inr (G', R - tokens js, ks) \<and> sr_ok G' \<and>
    sr_extends G G' \<and> nV G' = nV G \<and> fills G G' (keys js) ({w} \<times> {i..<i + length js}) \<and> (\<forall>y \<in> set js. drained G' y) \<and>
    port_sum Sink G' w (i + length js) = Some (b + tokens js - a) \<and> gathered G' f w a (b + tokens js)"
  using assms
proof (induction js arbitrary: G i b R)
  case Nil
  then show ?case by (auto simp: fills_def)
next
  case (Cons y js)
  have y: "free_port Source G y" "free_ports Source G js" "key y \<notin> keys js" using Cons.prems(6) by (simp_all add: free_ports_Cons)
  have sup: "supplied G f y b (b + tv_rate y)" "each (supplied G f) (b + tv_rate y) js" using Cons.prems(8) by simp_all
  have pos: "0 < tv_rate y" "positive js" using Cons.prems(7) by auto
  have w: "w < nV G" using Cons.prems(2) by (simp add: joins_def)
  have "i < nP Sink G w" "prt Sink G w i = None" using Cons.prems(4,5) by auto
  then obtain G1 where G1: "sr_createEdge G (tv_vertex y) (tv_portIx y) (Some w) i (tv_rate y) = Inr (G1, nE G)" "sr_ok G1" "sr_extends G G1" "nV G1 = nV G"
    "fills G G1 {key y} {(w, i)}" "port_sum Sink G1 w (Suc i) = Some (b + tv_rate y - a)" "gathered G1 f w a (b + tv_rate y)" "drained G1 y"
    using join_input [OF Cons.prems(1-3) _ _ y(1) sup(1) Cons.prems(9,10)] by metis
  have j1: "joins G1 w" using forks_mono [OF G1(3) w] Cons.prems(2) by simp
  have rest: "\<forall>j \<ge> Suc i. prt Sink G1 w j = None" using G1(5) w Cons.prems(4) by (auto simp: fills_def)
  have "keys js \<inter> {key y} = {}" using y(3) by auto
  then have free1: "free_ports Source G1 js" by (intro free_ports_fills [OF y(2) G1(3,5)]) simp
  have np: "Suc i + length js < nP Sink G1 w" using Cons.prems(5) extendsD(4) [OF G1(3) w] by simp
  have sup1: "each (supplied G1 f) (b + tv_rate y) js" by (rule each_supplied_mono [OF sup(2) Cons.prems(1) G1(2,3)])
  from Cons.IH [OF G1(2) j1 G1(6) rest np free1 pos(2) sup1 G1(7), of "R - tv_rate y"] pos Cons.prems(10-12)
  obtain G' where G': "foldE (connect_step (join_connector w)) (G1, R - tv_rate y, js @ ks) [Suc i..<Suc i + length js] = Inr (G', R - tv_rate y - tokens js, ks)"
    "sr_ok G'" "sr_extends G1 G'" "nV G' = nV G1" "fills G1 G' (keys js) ({w} \<times> {Suc i..<Suc i + length js})" "\<forall>y \<in> set js. drained G' y"
    "port_sum Sink G' w (Suc i + length js) = Some (b + tv_rate y + tokens js - a)" "gathered G' f w a (b + tv_rate y + tokens js)" by auto
  have R: "in_i64 (R - tv_rate y)" using pos Cons.prems(11,12) tokens_nonneg [OF pos(2)] by (simp add: in_i64_def)
  have "tv_vertex y \<noteq> None" using y(1) by (auto simp: free_port_def)
  then have "foldE (connect_step (join_connector w)) (G, R, (y # js) @ ks) [i..<i + length (y # js)] = Inr (G', R - tokens (y # js), ks)"
    using G1(1) G'(1) R by (simp add: upt_conv_Cons connect_step_def join_connector_def algebra_simps del: upt_Suc)
  moreover have "fills G G' (keys (y # js)) ({w} \<times> {i..<i + length (y # js)})"
    by (rule fills_trans [OF G1(3) fills_mono [OF G1(5)] fills_mono [OF G'(5)]]) auto
  moreover have "drained G' y" by (rule drained_mono [OF G1(8,2) G'(3)])
  ultimately show ?case using G' G1(4) sr_extends_trans [OF G1(3) G'(3)] by (intro exI [of _ G']) (simp add: algebra_simps)
qed

lemma fills_trans2:
  assumes "sr_extends G G'" "fills G G' A B" "fills G' G'' A' B'"
    and "{x \<in> A \<union> A'. fst x < nV G} \<subseteq> C" "{x \<in> B \<union> B'. fst x < nV G} \<subseteq> D"
  shows "fills G G'' C D"
  by (rule fills_mono [OF fills_trans [OF assms(1) fills_mono [OF assms(2), of "A \<union> A'" "B \<union> B'"] fills_mono [OF assms(3)]] assms(4,5)]) auto

subsection \<open>The rounds of the loop\<close>

definition link_inv :: "srdag \<Rightarrow> (int \<Rightarrow> nat \<times> nat \<times> int) \<Rightarrow> int \<Rightarrow> transfo_vertex list \<Rightarrow> transfo_vertex list \<Rightarrow> bool" where
  "link_inv G f b srcs snks \<longleftrightarrow> sr_ok G \<and> positive srcs \<and> positive snks \<and> tokens srcs = tokens snks \<and> tokens srcs < 2 ^ 63 \<and>
     sinks_ok b srcs snks \<and> sources_ok b srcs snks \<and> free_ports Source G srcs \<and> free_ports Sink G snks \<and> each (supplied G f) b srcs"

text \<open>What a round owes to the rounds that follow.\<close>

definition link_goal :: "srdag \<Rightarrow> (int \<Rightarrow> nat \<times> nat \<times> int) \<Rightarrow> int \<Rightarrow> transfo_vertex list \<Rightarrow> transfo_vertex list \<Rightarrow> bool" where
  "link_goal G f b srcs snks \<longleftrightarrow> each (fed G f) b snks \<and> (\<forall>x \<in> set srcs. drained G x)"

definition round_ok :: "srdag \<Rightarrow> (int \<Rightarrow> nat \<times> nat \<times> int) \<Rightarrow> int \<Rightarrow> transfo_vertex list \<Rightarrow> transfo_vertex list \<Rightarrow>
    srdag \<Rightarrow> int \<Rightarrow> transfo_vertex list \<Rightarrow> transfo_vertex list \<Rightarrow> bool" where
  "round_ok G f b srcs snks G' b' srcs' snks' \<longleftrightarrow>
     link_inv G' f b' srcs' snks' \<and> sr_extends G G' \<and> fills G G' (keys srcs) (keys snks) \<and>
     {x \<in> keys srcs'. fst x < nV G} \<subseteq> keys srcs \<and> {x \<in> keys snks'. fst x < nV G} \<subseteq> keys snks \<and>
     (\<forall>H. sr_ok H \<longrightarrow> sr_extends G' H \<longrightarrow> link_goal H f b' srcs' snks' \<longrightarrow> link_goal H f b srcs snks)"

lemma round_forward:
  assumes inv: "link_inv G f b (x # ss) (k # ks)" and d: "tv_lowerDep k = tv_upperDep k" "tv_lowerDep x = tv_upperDep x"
  shows "\<exists>G'. link_step G (x # ss) (k # ks) = Inr (G', ss, ks) \<and> round_ok G f b (x # ss) (k # ks) G' (b + tv_rate k) ss ks"
proof -
  note i = inv [unfolded link_inv_def]
  have st: "tv_rate x = tv_rate k" "sinks_ok (b + tv_rate k) ss ks" "sources_ok (b + tv_rate k) ss ks"
    using forward_state [of x ss k ks b] i d by auto
  have fx: "free_port Source G x" "free_ports Source G ss" "key x \<notin> keys ss"
    and fk: "free_port Sink G k" "free_ports Sink G ks" "key k \<notin> keys ks" using i by (simp_all add: free_ports_Cons)
  have xv: "fst (key x) < nV G" "snd (key x) < nP Source G (fst (key x))" "prt Source G (fst (key x)) (snd (key x)) = None"
    "tv_vertex x = Some (fst (key x))" "snd (key x) = tv_portIx x"
    using fx(1) by (auto simp: free_port_def key_def)
  have kv: "fst (key k) < nV G" "snd (key k) < nP Sink G (fst (key k))" "prt Sink G (fst (key k)) (snd (key k)) = None"
    "tv_vertex k = Some (fst (key k))" "snd (key k) = tv_portIx k"
    using fk(1) by (auto simp: free_port_def key_def)
  have ok: "sr_ok G" using i by simp
  obtain G1 where G1: "sr_createEdge G (Some (fst (key x))) (snd (key x)) (Some (fst (key k))) (snd (key k)) (tv_rate k) = Inr (G1, nE G)"
    "sr_ok G1" "sr_extends G G1" "nV G1 = nV G" "fills G G1 {key x} {key k}" "prt Source G1 (fst (key x)) (snd (key x)) = Some (nE G)"
    "prt Sink G1 (fst (key k)) (snd (key k)) = Some (nE G)" "tgt Source G1 (nE G) = Some (key x)" "rate_of G1 (nE G) = tv_rate k"
    using createEdge_extends [OF ok xv(1-3) kv(1-3), of "tv_rate k"] by (metis prod.collapse)
  have run: "link_step G (x # ss) (k # ks) = Inr (G1, ss, ks)"
    using d G1(1) xv kv by (simp add: link_step_def)
  have "supplied G f x b (b + tv_rate k)" using i st(1) by simp
  then have "supplied G1 f x b (b + tv_rate k)" by (rule supplied_mono [OF _ ok G1(2,3)])
  then have fed: "fed G1 f k b (b + tv_rate k)" using G1(7-9) by (cases "key x") (auto simp: fed_def supplied_def)
  have dr: "drained G1 x" using G1(6,9) st(1) by (auto simp: drained_def)
  have fs: "free_ports Source G1 ss" by (rule free_ports_fills [OF fx(2) G1(3,5)]) (use fx(3) in auto)
  have fk1: "free_ports Sink G1 ks" by (rule free_ports_fills [OF fk(2) G1(3,5)]) (use fk(3) in auto)
  have sup: "each (supplied G1 f) (b + tv_rate k) ss" using i st(1) each_supplied_mono [OF _ ok G1(2,3)] by simp
  have "0 < tv_rate x" using i by simp
  then have "link_inv G1 f (b + tv_rate k) ss ks" using i G1(2) st fs fk1 sup by (simp add: link_inv_def)
  moreover have "link_goal H f b (x # ss) (k # ks)" if "sr_ok H" "sr_extends G1 H" "link_goal H f (b + tv_rate k) ss ks" for H
    using that fed_mono [OF fed G1(2) that(1,2)] drained_mono [OF dr G1(2) that(2)] by (simp add: link_goal_def)
  moreover have "fills G G1 (keys (x # ss)) (keys (k # ks))" by (rule fills_mono [OF G1(5)]) auto
  ultimately have "round_ok G f b (x # ss) (k # ks) G1 (b + tv_rate k) ss ks" using G1(3) by (auto simp: round_ok_def)
  with run show ?thesis by blast
qed

lemma dep_count_bound: "dep_count x < 2 ^ 32"
  by (simp add: dep_count_def)

lemma sr_edge_count_eq: "v < nV G \<Longrightarrow> nP sd G v < 2 ^ 32 \<Longrightarrow> sr_edge_count sd G v = Inr (nP sd G v)"
  by (simp add: sr_edge_count_def vertex_at_def n_ports_def)

lemma key_rest [simp]: "q < 2 ^ 32 \<Longrightarrow> key (rest_of w q r) = (w, q)"
  by (simp add: key_def)

lemma createForkVertex_extends:
  assumes "sr_ok G"
  obtains G' where "createForkVertex G n = Inr (G', nV G)" "sr_ok G'" "sr_extends G G'" "nV G' = Suc (nV G)" "nE G' = nE G" "fills G G' {} {}"
    "nP Sink G' (nV G) = 1" "nP Source G' (nV G) = n" "\<And>sd p. prt sd G' (nV G) p = None" "forks G' (nV G)"
proof -
  have c: "checkTypeConsistency FORK 1 0 = Inr ()" by (simp add: checkTypeConsistency_def)
  show thesis by (rule createSpecial_extends [OF assms c, of 1 n]) (simp_all add: that createForkVertex_def forks_def)
qed

lemma createJoinVertex_extends:
  assumes "sr_ok G"
  obtains G' where "createJoinVertex G n = Inr (G', nV G)" "sr_ok G'" "sr_extends G G'" "nV G' = Suc (nV G)" "nE G' = nE G" "fills G G' {} {}"
    "nP Sink G' (nV G) = n" "nP Source G' (nV G) = 1" "\<And>sd p. prt sd G' (nV G) p = None" "joins G' (nV G)"
proof -
  have c: "checkTypeConsistency JOIN 0 1 = Inr ()" by (simp add: checkTypeConsistency_def)
  show thesis by (rule createSpecial_extends [OF assms c, of n 1]) (simp_all add: that createJoinVertex_def joins_def)
qed

lemma round_fork:
  assumes inv: "link_inv G f b (x # ss) (k0 # ks0)" and d: "tv_lowerDep k0 = tv_upperDep k0" "tv_lowerDep x \<noteq> tv_upperDep x"
  shows "\<exists>G' b' srcs' snks'. link_step G (x # ss) (k0 # ks0) = Inr (G', srcs', snks') \<and>
    round_ok G f b (x # ss) (k0 # ks0) G' b' srcs' snks'"
proof -
  note i = inv [unfolded link_inv_def]
  have ok: "sr_ok G" using i by simp
  obtain js k ks where s: "k0 # ks0 = js @ k # ks" "js \<noteq> []" "dep_count x = Suc (length js)" "tokens js < tv_rate x" "tv_rate x \<le> tokens js + tv_rate k"
    and st: "\<And>v q. sinks_ok (b + tokens js) (rest_of v q (tv_rate x - tokens js) # ss) (k # ks)"
      "\<And>v q. sources_ok (b + tokens js) (rest_of v q (tv_rate x - tokens js) # ss) (k # ks)"
    using fork_state [of x ss "k0 # ks0" b] i d(2) by auto
  let ?n = "length js" let ?w = "nV G"
  have n: "Suc ?n < 2 ^ 32" using dep_count_bound [of x] s(3) by simp
  have pos: "positive js" "positive (k # ks)" "0 < tv_rate x" "positive ss" using i unfolding s(1) by auto
  have tok: "tokens (x # ss) = tokens (js @ k # ks)" "tokens (x # ss) < 2 ^ 63" using i s(1) by simp_all
  have fx: "free_port Source G x" "free_ports Source G ss" "key x \<notin> keys ss" using i by (simp_all add: free_ports_Cons)
  have fk: "free_ports Sink G js" "free_ports Sink G (k # ks)" "keys js \<inter> keys (k # ks) = {}"
    using i unfolding s(1) by (simp_all only: free_ports_append)
  have xv: "fst (key x) < nV G" "snd (key x) < nP Source G (fst (key x))" "prt Source G (fst (key x)) (snd (key x)) = None"
    "tv_vertex x = Some (fst (key x))" "snd (key x) = tv_portIx x"
    using fx(1) by (auto simp: free_port_def key_def)
  obtain G1 where G1: "createForkVertex G (Suc ?n) = Inr (G1, ?w)" "sr_ok G1" "sr_extends G G1" "nV G1 = Suc ?w" "nE G1 = nE G" "fills G G1 {} {}"
    "nP Sink G1 ?w = 1" "nP Source G1 ?w = Suc ?n" "\<And>sd p. prt sd G1 ?w p = None" "forks G1 ?w"
    using createForkVertex_extends [OF ok, of "Suc ?n"] by metis
  have x1: "free_port Source G1 x" by (rule free_port_fills [OF fx(1) G1(3,6)]) simp
  then have xv1: "fst (key x) < nV G1" "snd (key x) < nP Source G1 (fst (key x))" "prt Source G1 (fst (key x)) (snd (key x)) = None"
    by (auto simp: free_port_def)
  have w1: "?w < nV G1" "0 < nP Sink G1 ?w" "prt Sink G1 ?w 0 = None" using G1(4,7,9) by simp_all
  obtain G2 where G2: "sr_createEdge G1 (Some (fst (key x))) (snd (key x)) (Some ?w) 0 (tv_rate x) = Inr (G2, nE G1)" "sr_ok G2" "sr_extends G1 G2"
    "nV G2 = nV G1" "fills G1 G2 {key x} {(?w, 0)}" "prt Source G2 (fst (key x)) (snd (key x)) = Some (nE G1)"
    "prt Sink G2 ?w 0 = Some (nE G1)" "tgt Source G2 (nE G1) = Some (key x)" "rate_of G2 (nE G1) = tv_rate x"
    using createEdge_extends [OF G1(2) xv1 w1, of "tv_rate x"] by (metis prod.collapse)
  have ex2: "sr_extends G G2" by (rule sr_extends_trans [OF G1(3) G2(3)])
  have fi2: "fills G G2 {key x} {}"
    by (rule fills_mono [OF fills_trans [OF G1(3) fills_mono [OF G1(6)] G2(5)]]) auto
  have f2: "forks G2 ?w" using forks_mono [OF G2(3) w1(1)] G1(10) by simp
  have "(?w, j) \<noteq> key x" for j using xv(1) by (metis fst_conv less_irrefl)
  then have out: "\<forall>j \<ge> 0. prt Source G2 ?w j = None" using G2(5) w1(1) G1(9) by (simp add: fills_def)
  have np: "nP Source G2 ?w = Suc ?n" "nP Sink G2 ?w = 1" using extendsD(4) [OF G2(3) w1(1)] G1(7,8) by simp_all
  have fj2: "free_ports Sink G2 js" by (rule free_ports_fills [OF fk(1) ex2 fi2]) simp
  have fk2: "free_ports Sink G2 (k # ks)" by (rule free_ports_fills [OF fk(2) ex2 fi2]) simp
  have fs2: "free_ports Source G2 ss" by (rule free_ports_fills [OF fx(2) ex2 fi2]) (use fx(3) in auto)
  have sup: "supplied G2 f x b (b + tv_rate x)" using i supplied_mono [OF _ ok G2(2) ex2] by simp
  then have tr: "\<forall>t. b \<le> t \<and> t < b + tv_rate x \<longrightarrow> trace G2 (fst (key x)) (snd (key x)) (t - b) (f t)" by (simp add: supplied_def)
  have dr: "drained G2 x" using G2(6,9) by (auto simp: drained_def)
  have tgt2: "tgt Source G2 (nE G1) = Some (fst (key x), snd (key x))" using G2(8) by simp
  obtain G3 where G3: "foldE (connect_step (fork_connector ?w)) (G2, tv_rate x, js @ k # ks) [0..<?n] = Inr (G3, tv_rate x - tokens js, k # ks)"
    "sr_ok G3" "sr_extends G2 G3" "nV G3 = nV G2" "fills G2 G3 ({?w} \<times> {0..<?n}) (keys js)" "each (fed G3 f) b js"
    "port_sum Source G3 ?w ?n = Some (tokens js)"
    using fork_outputs [OF G2(2) f2 G2(7) tgt2 _ out, where b = b and a = b and js = js and d = "b + tv_rate x" and f = f and R = "tv_rate x" and ks = "k # ks"]
      np fj2 pos tr s(4) tok tokens_nonneg [OF pos(4)] by auto
  let ?r = "rest_of ?w ?n (tv_rate x - tokens js)"
  have "link_step G (x # ss) (k0 # ks0) = addForkVertex G (x # ss) (js @ k # ks)"
    unfolding s(1) [symmetric] using d by (simp add: link_step_def)
  also have "\<dots> = Inr (G3, ?r # ss, k # ks)"
    using xv G1(1) G2(1) G3(1) s(3) np n w1(1) G2(4)
    by (simp add: addForkVertex_def connectForkOrJoin_def sr_edge_count_eq rest_of_def Let_def)
  finally have run: "link_step G (x # ss) (k0 # ks0) = Inr (G3, ?r # ss, k # ks)" .
  have ex3: "sr_extends G G3" by (rule sr_extends_trans [OF ex2 G3(3)])
  have w3: "?w < nV G3" using G3(4) G2(4) w1(1) by simp
  have f3: "forks G3 ?w" using forks_mono [OF G3(3), of ?w] f2 G2(4) w1(1) by simp
  have fr: "free_ports Source G3 (?r # ss)"
  proof -
    have "prt Source G3 ?w ?n = None" using G3(5) out w1(1) G2(4) by (auto simp: fills_def)
    then have "free_port Source G3 ?r" using n w3 np extendsD(4) [OF G3(3), of ?w] G2(4) w1(1) by (simp add: free_port_def)
    moreover have "free_ports Source G3 ss"
      by (rule free_ports_fills [OF fs2 G3(3,5)]) (use key_old [OF fx(2)] in force)
    moreover have "key ?r \<notin> keys ss" using key_old [OF fx(2)] n by fastforce
    ultimately show ?thesis by (simp add: free_ports_Cons)
  qed
  have fk3: "free_ports Sink G3 (k # ks)" by (rule free_ports_fills [OF fk2 G3(3,5)]) (use fk(3) in auto)
  have supr: "supplied G3 f ?r (b + tokens js) (b + tv_rate x)"
    unfolding supplied_def
  proof (intro allI impI)
    fix t assume t: "b + tokens js \<le> t \<and> t < b + tv_rate x"
    then have "trace G2 (fst (key x)) (snd (key x)) (t - b) (f t)" using tr tokens_nonneg [OF pos(1)] by simp
    then have "trace G3 (fst (key x)) (snd (key x)) (tokens js + (t - (b + tokens js))) (f t)"
      using trace_mono [OF _ G2(2) G3(2,3)] by simp
    from trace.fork [OF f3 extendsD(5) [OF G3(3) G2(7)] tgt_mono [OF G2(2) G3(2,3) tgt2] G3(7) this]
    show "trace G3 (fst (key ?r)) (snd (key ?r)) (t - (b + tokens js)) (f t)" using n by simp
  qed
  have "each (supplied G f) (b + tv_rate x) ss" using i by simp
  then have sups: "each (supplied G3 f) (b + tv_rate x) ss" by (rule each_supplied_mono [OF _ ok G3(2) ex3])
  have "link_inv G3 f (b + tokens js) (?r # ss) (k # ks)"
    using G3(2) pos s(4) tok st fr fk3 supr sups tokens_nonneg [OF pos(1)] by (simp add: link_inv_def)
  moreover have "fills G G3 (keys (x # ss)) (keys (k0 # ks0))"
    unfolding s(1) by (rule fills_trans2 [OF ex2 fi2 G3(5)]) auto
  moreover have "link_goal H f b (x # ss) (k0 # ks0)" if H: "sr_ok H" "sr_extends G3 H" "link_goal H f (b + tokens js) (?r # ss) (k # ks)" for H
  proof -
    have "each (fed H f) b js" by (rule each_fed_mono [OF G3(6,2) H(1,2)])
    moreover have "drained H x" by (rule drained_mono [OF dr G2(2) sr_extends_trans [OF G3(3) H(2)]])
    ultimately show ?thesis using H(3) unfolding s(1) link_goal_def each_append by simp
  qed
  moreover have "{y \<in> keys (?r # ss). fst y < nV G} \<subseteq> keys (x # ss)" using n by auto
  moreover have "keys (k # ks) \<subseteq> keys (k0 # ks0)" unfolding s(1) by auto
  ultimately have "round_ok G f b (x # ss) (k0 # ks0) G3 (b + tokens js) (?r # ss) (k # ks)"
    using ex3 unfolding round_ok_def by blast
  with run show ?thesis by blast
qed

lemma round_join:
  assumes inv: "link_inv G f b (x0 # ss0) (k # ks)" and d: "tv_lowerDep k \<noteq> tv_upperDep k"
  shows "\<exists>G' b' srcs' snks'. link_step G (x0 # ss0) (k # ks) = Inr (G', srcs', snks') \<and>
    round_ok G f b (x0 # ss0) (k # ks) G' b' srcs' snks'"
proof -
  note i = inv [unfolded link_inv_def]
  have ok: "sr_ok G" using i by simp
  obtain js x ss where s: "x0 # ss0 = js @ x # ss" "js \<noteq> []" "dep_count k = Suc (length js)" "tokens js < tv_rate k" "tv_rate k \<le> tokens js + tv_rate x"
    and st: "\<And>v q. sinks_ok (b + tokens js) (x # ss) (rest_of v q (tv_rate k - tokens js) # ks)"
      "\<And>v q. sources_ok (b + tokens js) (x # ss) (rest_of v q (tv_rate k - tokens js) # ks)"
    using join_state [of "x0 # ss0" k ks b] i d by auto
  let ?n = "length js" let ?w = "nV G"
  have n: "Suc ?n < 2 ^ 32" using dep_count_bound [of k] s(3) by simp
  have pos: "positive js" "positive (x # ss)" "0 < tv_rate k" "positive ks" using i unfolding s(1) by auto
  have tok: "tokens (js @ x # ss) = tokens (k # ks)" "tokens (k # ks) < 2 ^ 63" using i unfolding s(1) by simp_all
  have fk: "free_port Sink G k" "free_ports Sink G ks" "key k \<notin> keys ks" using i by (simp_all add: free_ports_Cons)
  have fx: "free_ports Source G js" "free_ports Source G (x # ss)" "keys js \<inter> keys (x # ss) = {}"
    using i unfolding s(1) by (simp_all only: free_ports_append)
  have kv: "fst (key k) < nV G" "snd (key k) < nP Sink G (fst (key k))" "prt Sink G (fst (key k)) (snd (key k)) = None"
    "tv_vertex k = Some (fst (key k))" "snd (key k) = tv_portIx k"
    using fk(1) by (auto simp: free_port_def key_def)
  obtain G1 where G1: "createJoinVertex G (Suc ?n) = Inr (G1, ?w)" "sr_ok G1" "sr_extends G G1" "nV G1 = Suc ?w" "nE G1 = nE G" "fills G G1 {} {}"
    "nP Sink G1 ?w = Suc ?n" "nP Source G1 ?w = 1" "\<And>sd p. prt sd G1 ?w p = None" "joins G1 ?w"
    using createJoinVertex_extends [OF ok, of "Suc ?n"] by metis
  have k1: "free_port Sink G1 k" by (rule free_port_fills [OF fk(1) G1(3,6)]) simp
  then have kv1: "fst (key k) < nV G1" "snd (key k) < nP Sink G1 (fst (key k))" "prt Sink G1 (fst (key k)) (snd (key k)) = None"
    by (auto simp: free_port_def)
  have w1: "?w < nV G1" "0 < nP Source G1 ?w" "prt Source G1 ?w 0 = None" using G1(4,8,9) by simp_all
  obtain G2 where G2: "sr_createEdge G1 (Some ?w) 0 (Some (fst (key k))) (snd (key k)) (tv_rate k) = Inr (G2, nE G1)" "sr_ok G2" "sr_extends G1 G2"
    "nV G2 = nV G1" "fills G1 G2 {(?w, 0)} {key k}" "prt Sink G2 (fst (key k)) (snd (key k)) = Some (nE G1)"
    "tgt Source G2 (nE G1) = Some (?w, 0)" "rate_of G2 (nE G1) = tv_rate k"
    using createEdge_extends [OF G1(2) w1 kv1, of "tv_rate k"] by (metis prod.collapse)
  have ex2: "sr_extends G G2" by (rule sr_extends_trans [OF G1(3) G2(3)])
  have fi2: "fills G G2 {} {key k}"
    by (rule fills_mono [OF fills_trans [OF G1(3) fills_mono [OF G1(6)] G2(5)]]) auto
  have j2: "joins G2 ?w" using forks_mono [OF G2(3) w1(1)] G1(10) by simp
  have "(?w, j) \<noteq> key k" for j using kv(1) by (metis fst_conv less_irrefl)
  then have inp: "\<forall>j \<ge> 0. prt Sink G2 ?w j = None" using G2(5) w1(1) G1(9) by (simp add: fills_def)
  have np: "nP Sink G2 ?w = Suc ?n" "nP Source G2 ?w = 1" using extendsD(4) [OF G2(3) w1(1)] G1(7,8) by simp_all
  have fj2: "free_ports Source G2 js" by (rule free_ports_fills [OF fx(1) ex2 fi2]) simp
  have fx2: "free_ports Source G2 (x # ss)" by (rule free_ports_fills [OF fx(2) ex2 fi2]) simp
  have fk2: "free_ports Sink G2 ks" by (rule free_ports_fills [OF fk(2) ex2 fi2]) (use fk(3) in auto)
  have "each (supplied G f) b (js @ x # ss)" using i unfolding s(1) by simp
  then have sup: "each (supplied G2 f) b js" "each (supplied G f) (b + tokens js) (x # ss)"
    using each_supplied_mono [OF _ ok G2(2) ex2] unfolding each_append by blast+
  have ga: "gathered G2 f ?w b b" by (auto simp: gathered_def)
  obtain G3 where G3: "foldE (connect_step (join_connector ?w)) (G2, tv_rate k, js @ x # ss) [0..<?n] = Inr (G3, tv_rate k - tokens js, x # ss)"
    "sr_ok G3" "sr_extends G2 G3" "nV G3 = nV G2" "fills G2 G3 (keys js) ({?w} \<times> {0..<?n})" "\<forall>y \<in> set js. drained G3 y"
    "port_sum Sink G3 ?w ?n = Some (tokens js)" "gathered G3 f ?w b (b + tokens js)"
    using join_inputs [OF G2(2) j2 _ inp, where b = b and a = b and js = js and f = f and R = "tv_rate k" and ks = "x # ss"]
      np fj2 pos sup(1) ga s(4) tok tokens_nonneg [OF pos(4)] by auto
  let ?r = "rest_of ?w ?n (tv_rate k - tokens js)"
  have "link_step G (x0 # ss0) (k # ks) = addJoinVertex G (js @ x # ss) (k # ks)"
    unfolding s(1) [symmetric] using d by (simp add: link_step_def)
  also have "\<dots> = Inr (G3, x # ss, ?r # ks)"
    using kv G1(1) G2(1) G3(1) s(3) np n w1(1) G2(4)
    by (simp add: addJoinVertex_def connectForkOrJoin_def sr_edge_count_eq rest_of_def Let_def)
  finally have run: "link_step G (x0 # ss0) (k # ks) = Inr (G3, x # ss, ?r # ks)" .
  have ex3: "sr_extends G G3" by (rule sr_extends_trans [OF ex2 G3(3)])
  have w3: "?w < nV G3" using G3(4) G2(4) w1(1) by simp
  have fr: "free_ports Sink G3 (?r # ks)"
  proof -
    have "prt Sink G3 ?w ?n = None" using G3(5) inp w1(1) G2(4) by (auto simp: fills_def)
    then have "free_port Sink G3 ?r" using n w3 np extendsD(4) [OF G3(3), of ?w] G2(4) w1(1) by (simp add: free_port_def)
    moreover have "free_ports Sink G3 ks"
      by (rule free_ports_fills [OF fk2 G3(3,5)]) (use key_old [OF fk(2)] in force)
    moreover have "key ?r \<notin> keys ks" using key_old [OF fk(2)] n by fastforce
    ultimately show ?thesis by (simp add: free_ports_Cons)
  qed
  have fx3: "free_ports Source G3 (x # ss)" by (rule free_ports_fills [OF fx2 G3(3,5)]) (use fx(3) in auto)
  have sup3: "each (supplied G3 f) (b + tokens js) (x # ss)" by (rule each_supplied_mono [OF sup(2) ok G3(2) ex3])
  have "link_inv G3 f (b + tokens js) (x # ss) (?r # ks)"
    using G3(2) pos s(4) tok st fr fx3 sup3 tokens_nonneg [OF pos(1)] by (simp add: link_inv_def)
  moreover have "fills G G3 (keys (x0 # ss0)) (keys (k # ks))"
    unfolding s(1) by (rule fills_trans2 [OF ex2 fi2 G3(5)]) auto
  moreover have "link_goal H f b (x0 # ss0) (k # ks)" if H: "sr_ok H" "sr_extends G3 H" "link_goal H f (b + tokens js) (x # ss) (?r # ks)" for H
  proof -
    have dr: "\<forall>y \<in> set js. drained H y" using G3(6) drained_mono [OF _ G3(2) H(2)] by blast
    have "fed H f ?r (b + tokens js) (b + tv_rate k)" "each (fed H f) (b + tv_rate k) ks" using H(3) by (simp_all add: link_goal_def)
    then obtain e u q where e: "prt Sink H ?w ?n = Some e" "rate_of H e = tv_rate k - tokens js" "tgt Source H e = Some (u, q)"
      "\<forall>t. b + tokens js \<le> t \<and> t < b + tv_rate k \<longrightarrow> trace H u q (t - (b + tokens js)) (f t)" using n by (auto simp: fed_def)
    have jH: "joins H ?w" using forks_mono [OF G3(3), of ?w] forks_mono [OF H(2) w3] j2 G2(4) w1(1) by simp
    have "trace H ?w 0 (t - b) (f t)" if "b \<le> t" "t < b + tv_rate k" for t
    proof (cases "t < b + tokens js")
      case True
      with G3(8) that(1) have "trace G3 ?w 0 (t - b) (f t)" by (simp add: gathered_def)
      then show ?thesis by (rule trace_mono [OF _ G3(2) H(1,2)])
    next
      case False
      with e(4) that(2) have "trace H u q ((t - b) - tokens js) (f t)" by (simp add: algebra_simps)
      with False that(2) e(2) show ?thesis
        by (intro trace.join [OF jH port_sum_mono [OF G3(2) H(2) G3(7)] e(1) _ _ e(3)]) auto
    qed
    moreover have "prt Sink H (fst (key k)) (snd (key k)) = Some (nE G1)" "tgt Source H (nE G1) = Some (?w, 0)"
      using extendsD(5) [OF sr_extends_trans [OF G3(3) H(2)] G2(6)] tgt_mono [OF G2(2) H(1) sr_extends_trans [OF G3(3) H(2)] G2(7)] by simp_all
    moreover have "rate_of H (nE G1) = tv_rate k"
      using extendsD(6) [OF sr_extends_trans [OF G3(3) H(2)]] prt_bounds [OF G2(2,6)] G2(8) by simp
    ultimately have "fed H f k b (b + tv_rate k)" by (auto simp: fed_def)
    with H(3) dr show ?thesis unfolding s(1) link_goal_def by auto
  qed
  moreover have "{y \<in> keys (?r # ks). fst y < nV G} \<subseteq> keys (k # ks)" using n by auto
  moreover have "keys (x # ss) \<subseteq> keys (x0 # ss0)" unfolding s(1) by auto
  ultimately have "round_ok G f b (x0 # ss0) (k # ks) G3 (b + tokens js) (x # ss) (?r # ks)"
    using ex3 unfolding round_ok_def by blast
  with run show ?thesis by blast
qed

subsection \<open>The whole loop\<close>

lemma round_exists:
  assumes "link_inv G f b (x # ss) (k # ks)"
  shows "\<exists>G' b' srcs' snks'. link_step G (x # ss) (k # ks) = Inr (G', srcs', snks') \<and> round_ok G f b (x # ss) (k # ks) G' b' srcs' snks'"
proof (cases "tv_lowerDep k = tv_upperDep k")
  case True
  show ?thesis
  proof (cases "tv_lowerDep x = tv_upperDep x")
    case eq: True
    show ?thesis using round_forward [OF assms True eq] by blast
  next
    case False
    show ?thesis by (rule round_fork [OF assms True False])
  qed
next
  case False
  show ?thesis by (rule round_join [OF assms False])
qed

lemma link_loop_ok:
  assumes "link_inv G f b srcs snks"
  shows "\<exists>G'. link_loop G srcs snks = Inr (G', [], []) \<and> sr_ok G' \<and> sr_extends G G' \<and> fills G G' (keys srcs) (keys snks) \<and>
    link_goal G' f b srcs snks"
  using assms
proof (induction "link_weight srcs + link_weight snks" arbitrary: G b srcs snks rule: less_induct)
  case less
  note i = less.prems [unfolded link_inv_def]
  show ?case
  proof (cases snks)
    case Nil
    with i have "srcs = []" using tokens_pos [of srcs] by auto
    with Nil i show ?thesis by (intro exI [of _ G]) (simp add: link_loop.simps [of G "[]" "[]"] link_goal_def fills_def)
  next
    case (Cons k ks)
    with i have "tokens srcs > 0" using tokens_pos [of snks] by simp
    then obtain x ss where x: "srcs = x # ss" by (cases srcs) auto
    obtain G1 b1 srcs1 snks1 where r: "link_step G srcs snks = Inr (G1, srcs1, snks1)" "round_ok G f b srcs snks G1 b1 srcs1 snks1"
      using round_exists [OF less.prems [unfolded x Cons]] unfolding x Cons by auto
    have o: "link_inv G1 f b1 srcs1 snks1" "sr_extends G G1" "fills G G1 (keys srcs) (keys snks)"
      "{x \<in> keys srcs1. fst x < nV G} \<subseteq> keys srcs" "{x \<in> keys snks1. fst x < nV G} \<subseteq> keys snks"
      "\<And>H. sr_ok H \<Longrightarrow> sr_extends G1 H \<Longrightarrow> link_goal H f b1 srcs1 snks1 \<Longrightarrow> link_goal H f b srcs snks"
      using r(2) by (simp_all add: round_ok_def)
    obtain G' where
      G': "link_loop G1 srcs1 snks1 = Inr (G', [], [])" "sr_ok G'" "sr_extends G1 G'" "fills G1 G' (keys srcs1) (keys snks1)" "link_goal G' f b1 srcs1 snks1"
      using less.hyps [OF link_step_less [OF r(1)] o(1)] by blast
    have "link_loop G srcs snks = Inr (G', [], [])" using r(1) G'(1) Cons by (subst link_loop.simps) simp
    moreover have "fills G G' (keys srcs) (keys snks)"
      by (rule fills_trans2 [OF o(2,3) G'(4)]) (use o(4,5) in blast)+
    moreover have "link_goal G' f b srcs snks" by (rule o(6) [OF G'(2,3,5)])
    moreover have "sr_extends G G'" by (rule sr_extends_trans [OF o(2) G'(3)])
    ultimately show ?thesis using G'(2) by blast
  qed
qed

end
