(* ===== verification/SRDeps.thy ===== *)
theory SRDeps
  imports SRLinkage
begin

text \<open>
  \<open>computeDependencies\<close> gives the loop what it needs: the bounds of a sink are the positions of the sources of its first
  and last tokens, and a source that no sink contains is bounded by the first and the last sink that reads it.
\<close>

subsection \<open>Positions\<close>

abbreviation starts :: "transfo_vertex list \<Rightarrow> nat \<Rightarrow> int" where "starts xs i \<equiv> tokens (take i xs)"

text \<open>The position of the linker that holds the token \<open>t\<close>.\<close>

fun idx :: "transfo_vertex list \<Rightarrow> int \<Rightarrow> nat" where
  "idx [] t = 0"
| "idx (x # xs) t = (if t < tv_rate x then 0 else Suc (idx xs (t - tv_rate x)))"

lemma idx_bounds: "positive xs \<Longrightarrow> 0 \<le> t \<Longrightarrow> t < tokens xs \<Longrightarrow>
    idx xs t < length xs \<and> starts xs (idx xs t) \<le> t \<and> t < starts xs (Suc (idx xs t))"
proof (induction xs arbitrary: t)
  case (Cons x xs)
  show ?case
  proof (cases "t < tv_rate x")
    case False
    with Cons.prems have "idx xs (t - tv_rate x) < length xs \<and> starts xs (idx xs (t - tv_rate x)) \<le> t - tv_rate x \<and>
        t - tv_rate x < starts xs (Suc (idx xs (t - tv_rate x)))" by (intro Cons.IH) auto
    with False show ?thesis by simp
  qed (use Cons.prems in simp)
qed simp

lemma idx_unique: "positive xs \<Longrightarrow> i < length xs \<Longrightarrow> starts xs i \<le> t \<Longrightarrow> t < starts xs (Suc i) \<Longrightarrow> idx xs t = i"
proof (induction xs arbitrary: t i)
  case (Cons x xs)
  have p: "0 < tv_rate x" "positive xs" using Cons.prems(1) by auto
  show ?case
  proof (cases i)
    case (Suc j)
    have "0 \<le> starts xs j" by (rule tokens_nonneg) (use p(2) in \<open>auto dest: in_set_takeD\<close>)
    with Suc Cons.prems Cons.IH [of j "t - tv_rate x"] p show ?thesis by auto
  qed (use Cons.prems in simp)
qed simp

lemma idx_mono: "positive xs \<Longrightarrow> s \<le> t \<Longrightarrow> idx xs s \<le> idx xs t"
  by (induction xs arbitrary: s t) auto

lemma met_idx:
  "positive xs \<Longrightarrow> b \<le> c \<Longrightarrow> c < d \<Longrightarrow> d \<le> b + tokens xs \<Longrightarrow>
   met c d (ivs b xs) + idx xs (c - b) = Suc (idx xs (d - 1 - b)) \<and> idx xs (c - b) \<le> idx xs (d - 1 - b)"
proof (induction xs arbitrary: b c)
  case (Cons x xs)
  have p: "0 < tv_rate x" "positive xs" using Cons.prems(1) by auto
  note m = idx_mono [OF Cons.prems(1), of "c - b" "d - 1 - b"]
  show ?case
  proof (cases "d \<le> b + tv_rate x")
    case True
    with met_after [OF p(2) True, of c] Cons.prems p show ?thesis by simp
  next
    case False
    show ?thesis
    proof (cases "c < b + tv_rate x")
      case True
      let ?b = "b + tv_rate x"
      have "met c d (ivs ?b xs) = met ?b d (ivs ?b xs)"
        using True ivs_bounds [OF p(2), of _ _ ?b] unfolding met_def by (intro arg_cong [where f = length] filter_cong) fastforce+
      moreover have "met ?b d (ivs ?b xs) + idx xs (?b - ?b) = Suc (idx xs (d - 1 - ?b))"
        using Cons.IH [OF p(2), of ?b ?b] False Cons.prems by simp
      moreover have "idx xs 0 = 0" using p False Cons.prems by (cases xs) auto
      ultimately show ?thesis using True False Cons.prems m by (simp add: algebra_simps)
    next
      case F: False
      with Cons.IH [OF p(2), of "b + tv_rate x" c] Cons.prems False m show ?thesis by (simp add: algebra_simps)
    qed
  qed
qed simp

lemma each_nth: "each P b xs \<longleftrightarrow> (\<forall>i < length xs. P (xs ! i) (b + starts xs i) (b + starts xs (Suc i)))"
proof (induction xs arbitrary: b)
  case (Cons x xs)
  then show ?case by (auto simp: nth_Cons less_Suc_eq_0_disj algebra_simps split: nat.splits)
qed simp

lemma starts_Suc: "i < length xs \<Longrightarrow> starts xs (Suc i) = starts xs i + tv_rate (xs ! i)"
  by (simp add: take_Suc_conv_app_nth)

lemma starts_bounds:
  assumes "positive xs" "i < length xs"
  shows "0 \<le> starts xs i" "starts xs i < starts xs (Suc i)" "starts xs (Suc i) \<le> tokens xs"
proof -
  show "0 \<le> starts xs i" by (rule tokens_nonneg) (use assms(1) in \<open>auto dest: in_set_takeD\<close>)
  show "starts xs i < starts xs (Suc i)" using assms by (simp add: starts_Suc)
  have "tokens xs = starts xs (Suc i) + tokens (drop (Suc i) xs)" by (metis append_take_drop_id tokens_simps(3))
  moreover have "0 \<le> tokens (drop (Suc i) xs)" by (rule tokens_nonneg) (use assms(1) in \<open>auto dest: in_set_dropD\<close>)
  ultimately show "starts xs (Suc i) \<le> tokens xs" by simp
qed

lemma ivs_nth: "i < length xs \<Longrightarrow> (b + starts xs i, b + starts xs (Suc i)) \<in> set (ivs b xs)"
proof (induction xs arbitrary: b i)
  case (Cons x xs)
  show ?case
  proof (cases i)
    case (Suc j)
    with Cons.IH [of j "b + tv_rate x"] Cons.prems show ?thesis by (simp add: add.assoc)
  qed simp
qed simp

text \<open>Only the rates matter for the intervals.\<close>

lemma ivs_rates: "List.map tv_rate xs = List.map tv_rate ys \<Longrightarrow> ivs b xs = ivs b ys"
proof (induction xs arbitrary: ys b)
  case (Cons x xs)
  then obtain y zs where "ys = y # zs" "tv_rate x = tv_rate y" "List.map tv_rate xs = List.map tv_rate zs" by (cases ys) auto
  with Cons.IH [of zs] show ?case by simp
qed simp

lemma tokens_rates: "List.map tv_rate xs = List.map tv_rate ys \<Longrightarrow> tokens xs = tokens ys"
  by (simp add: tokens_def)

subsection \<open>Sinks\<close>

definition bounded_sinks :: "transfo_vertex list \<Rightarrow> transfo_vertex list \<Rightarrow> bool" where
  "bounded_sinks srcs snks \<longleftrightarrow> (\<forall>j < length snks. tv_lowerDep (snks ! j) = idx srcs (starts snks j) \<and>
     tv_upperDep (snks ! j) = idx srcs (starts snks (Suc j) - 1))"

lemma dep_ok_range: "tv_lowerDep x \<le> tv_upperDep x \<Longrightarrow> tv_upperDep x < 2 ^ 32 - 1 \<Longrightarrow> dep_ok x (Suc (tv_upperDep x - tv_lowerDep x))"
proof -
  assume a: "tv_lowerDep x \<le> tv_upperDep x" "tv_upperDep x < 2 ^ 32 - 1"
  have "tv_upperDep x + (2 ^ 32 - tv_lowerDep x) + 1 = Suc (tv_upperDep x - tv_lowerDep x) + 2 ^ 32" using a by simp
  then have "dep_count x = Suc (tv_upperDep x - tv_lowerDep x) mod 2 ^ 32" unfolding dep_count_def by (simp only: mod_add_self2)
  also have "\<dots> = Suc (tv_upperDep x - tv_lowerDep x)" using a by simp
  finally show ?thesis using a by (auto simp: dep_ok_def)
qed

lemma bounded_sinks_ok:
  assumes p: "positive srcs" "positive snks" "tokens srcs = tokens snks" "length srcs < 2 ^ 32" and s: "bounded_sinks srcs snks"
  shows "sinks_ok 0 srcs snks"
  unfolding sinks_ok_def each_nth
proof (intro allI impI)
  fix j assume j: "j < length snks"
  let ?x = "snks ! j" let ?c = "starts snks j" let ?d = "starts snks (Suc j)"
  note b = starts_bounds [OF p(2) j]
  have l: "tv_lowerDep ?x = idx srcs ?c" "tv_upperDep ?x = idx srcs (?d - 1)" using s j by (simp_all add: bounded_sinks_def)
  have m: "met ?c ?d (ivs 0 srcs) + idx srcs ?c = Suc (idx srcs (?d - 1))" "idx srcs ?c \<le> idx srcs (?d - 1)"
    using met_idx [OF p(1), of 0 ?c ?d] b p(3) by simp_all
  have "idx srcs (?d - 1) < length srcs" using idx_bounds [OF p(1), of "?d - 1"] b p(3) by simp
  then have "dep_ok ?x (Suc (tv_upperDep ?x - tv_lowerDep ?x))" using p(4) l m by (intro dep_ok_range) auto
  moreover have "Suc (tv_upperDep ?x - tv_lowerDep ?x) = met ?c ?d (ivs 0 srcs)" using l m by simp
  ultimately show "dep_ok ?x (met (0 + ?c) (0 + ?d) (ivs 0 srcs))" by simp
qed

subsection \<open>Sources\<close>

text \<open>The sinks that start or end in the source \<open>i\<close>.\<close>

definition touching :: "transfo_vertex list \<Rightarrow> nat \<Rightarrow> nat set" where
  "touching snks i = {j. j < length snks \<and> (tv_lowerDep (snks ! j) = i \<or> tv_upperDep (snks ! j) = i)}"

definition touched :: "nat set \<Rightarrow> transfo_vertex \<Rightarrow> transfo_vertex \<Rightarrow> bool" where
  "touched T x x' \<longleftrightarrow> x' = x\<lparr>tv_lowerDep := tv_lowerDep x', tv_upperDep := tv_upperDep x'\<rparr> \<and>
     (T \<noteq> {} \<longrightarrow> tv_lowerDep x' \<in> T \<and> tv_upperDep x' \<in> T \<and> (\<forall>j \<in> T. tv_lowerDep x' \<le> j \<and> j \<le> tv_upperDep x'))"

lemma touchedI:
  "x' = x\<lparr>tv_lowerDep := tv_lowerDep x', tv_upperDep := tv_upperDep x'\<rparr> \<Longrightarrow>
   tv_lowerDep x' \<in> T \<and> tv_upperDep x' \<in> T \<and> (\<forall>j \<in> T. tv_lowerDep x' \<le> j \<and> j \<le> tv_upperDep x') \<Longrightarrow> touched T x x'"
  by (simp add: touched_def)

lemma touching_sources_ok:
  assumes p: "positive srcs" "positive snks" "tokens srcs = tokens snks" "length snks < 2 ^ 32" and s: "bounded_sinks srcs snks"
    and t: "length srcs' = length srcs" "\<And>i. i < length srcs \<Longrightarrow> touched (touching snks i) (srcs ! i) (srcs' ! i)"
  shows "sources_ok 0 srcs' snks"
  unfolding sources_ok_def each_nth
proof (intro allI impI)
  fix i assume "i < length srcs'"
  then have i: "i < length srcs" using t(1) by simp
  have "tv_rate (srcs' ! i) = tv_rate (srcs ! i)" if "i < length srcs" for i
    using t(2) [OF that] unfolding touched_def by (metis (no_types, lifting) transfo_vertex.select_convs(2) transfo_vertex.surjective transfo_vertex.update_convs(4,5))
  then have rates: "List.map tv_rate srcs' = List.map tv_rate srcs" using t(1) by (intro nth_equalityI) simp_all
  have st: "starts srcs' k = starts srcs k" for k by (intro tokens_rates) (simp add: take_map [symmetric] rates)
  let ?c = "starts srcs i" let ?d = "starts srcs (Suc i)"
  let ?T = "touching snks i" let ?lo = "idx snks ?c" let ?up = "idx snks (?d - 1)"
  note b = starts_bounds [OF p(1) i]
  have m: "met ?c ?d (ivs 0 snks) + ?lo = Suc ?up" "?lo \<le> ?up" using met_idx [OF p(2), of 0 ?c ?d] b p(3) by simp_all
  have lo: "?lo < length snks" "starts snks ?lo \<le> ?c" "?c < starts snks (Suc ?lo)" using idx_bounds [OF p(2), of ?c] b p(3) by simp_all
  have up: "?up < length snks" "starts snks ?up \<le> ?d - 1" "?d - 1 < starts snks (Suc ?up)" using idx_bounds [OF p(2), of "?d - 1"] b p(3) by simp_all
  have own: "idx srcs u = i \<longleftrightarrow> ?c \<le> u \<and> u < ?d" if "0 \<le> u" "u < tokens srcs" for u
    using idx_unique [OF p(1) i, of u] idx_bounds [OF p(1) that] by metis
  have bnd: "tv_lowerDep (snks ! j) = idx srcs (starts snks j)" "tv_upperDep (snks ! j) = idx srcs (starts snks (Suc j) - 1)"
    if "j < length snks" for j using s that by (simp_all add: bounded_sinks_def)
  have T: "j \<in> ?T \<longleftrightarrow> j < length snks \<and> (?c \<le> starts snks j \<and> starts snks j < ?d \<or> ?c < starts snks (Suc j) \<and> starts snks (Suc j) \<le> ?d)" for j
    using bnd [of j] own [of "starts snks j"] own [of "starts snks (Suc j) - 1"] starts_bounds [OF p(2), of j] p(3)
    by (cases "j < length snks") (auto simp: touching_def)
  have range: "?lo \<le> j \<and> j \<le> ?up" if "j \<in> ?T" for j
  proof -
    note sj = starts_bounds [OF p(2), of j]
    from that T have j: "j < length snks" by blast
    have "idx snks (starts snks j) = j" "idx snks (starts snks (Suc j) - 1) = j"
      by (rule idx_unique [OF p(2) j]; use sj [OF j] in linarith)+
    moreover have "?c \<le> starts snks (Suc j) - 1" "starts snks j \<le> ?d - 1" using that T [of j] sj [OF j] by linarith+
    ultimately show ?thesis using idx_mono [OF p(2), of ?c] idx_mono [OF p(2), of "starts snks j" "?d - 1"] by metis
  qed
  show "covered (0 + starts srcs' i) (0 + starts srcs' (Suc i)) (ivs 0 snks) \<or>
    dep_ok (srcs' ! i) (met (0 + starts srcs' i) (0 + starts srcs' (Suc i)) (ivs 0 snks))"
  proof (cases "covered ?c ?d (ivs 0 snks)")
    case False
    have nc: "\<not> (starts snks j < ?c \<and> ?d < starts snks (Suc j))" if "j < length snks" for j
    proof
      assume "starts snks j < ?c \<and> ?d < starts snks (Suc j)"
      then have "covered ?c ?d (ivs 0 snks)" unfolding covered_def by (intro bexI [OF _ ivs_nth [OF that, of 0]]) simp
      with False show False by simp
    qed
    have "?lo \<in> ?T" unfolding T using nc [OF lo(1)] lo b by linarith
    moreover have "?up \<in> ?T" unfolding T using nc [OF up(1)] up b by linarith
    ultimately have "tv_lowerDep (srcs' ! i) \<in> ?T" "tv_upperDep (srcs' ! i) \<in> ?T" "tv_lowerDep (srcs' ! i) \<le> ?lo" "?up \<le> tv_upperDep (srcs' ! i)"
      using t(2) [OF i] unfolding touched_def by blast+
    with range [of "tv_lowerDep (srcs' ! i)"] range [of "tv_upperDep (srcs' ! i)"]
    have "tv_lowerDep (srcs' ! i) = ?lo" "tv_upperDep (srcs' ! i) = ?up" by simp_all
    moreover from this have "dep_ok (srcs' ! i) (Suc (?up - ?lo))" using dep_ok_range [of "srcs' ! i"] m up(1) p(4) by simp
    moreover have "Suc (?up - ?lo) = met ?c ?d (ivs 0 snks)" using m by simp
    ultimately show ?thesis by (simp add: st)
  qed (simp add: st)
qed

subsection \<open>The computation\<close>

definition with_deps :: "transfo_vertex \<Rightarrow> nat \<Rightarrow> nat \<Rightarrow> transfo_vertex" where
  "with_deps x l u = x\<lparr>tv_lowerDep := l, tv_upperDep := u\<rparr>"

lemma with_deps_simps [simp]:
  "tv_rate (with_deps x l u) = tv_rate x" "tv_vertex (with_deps x l u) = tv_vertex x" "tv_portIx (with_deps x l u) = tv_portIx x"
  "tv_lowerDep (with_deps x l u) = l" "tv_upperDep (with_deps x l u) = u" "key (with_deps x l u) = key x"
  by (simp_all add: with_deps_def key_def)

lemma cons_deps_value:
  assumes "0 < p" "- (2 ^ 63) < f * c - delay" "(f + 1) * c - delay < 2 ^ 63" "0 < c"
  shows "computeConsLowerDep c p f delay = Inr (max (-1) ((f * c - delay) div p))"
    "computeConsUpperDep c p f delay = Inr (max (-1) (((f + 1) * c - delay - 1) div p))"
proof -
  have "f * c < (f + 1) * c" using assms(4) by (simp add: algebra_simps)
  then have "in_i64 (f * c - delay)" "in_i64 ((f + 1) * c - delay - 1)" using assms(2,3) by (simp_all add: in_i64_def)
  then show "computeConsLowerDep c p f delay = Inr (max (-1) ((f * c - delay) div p))"
    "computeConsUpperDep c p f delay = Inr (max (-1) (((f + 1) * c - delay - 1) div p))"
    using assms(1) by (simp_all add: computeConsLowerDep_def computeConsUpperDep_def floorDiv_eq in_i64_sdiv)
qed

lemma compute_worker_ok:
  assumes p: "0 < srcRate" "0 < c" and r: "start \<le> stop" "stop \<le> length snks"
    and b: "\<And>f. 0 \<le> f \<Longrightarrow> f < int (stop - start) \<Longrightarrow> - (2 ^ 63) < f * c - delay \<and> (f + 1) * c - delay < 2 ^ 63"
  shows "\<exists>snks'. compute_worker off srcRate start stop c delay snks = Inr snks' \<and> length snks' = length snks \<and>
    (\<forall>i < length snks. snks' ! i = (if start \<le> i \<and> i < stop then with_deps (snks ! i)
        (to_u32 (off + max (-1) ((int (i - start) * c - delay) div srcRate)))
        (to_u32 (off + max (-1) (((int (i - start) + 1) * c - delay - 1) div srcRate))) else snks ! i))"
proof -
  let ?g = "\<lambda>i. with_deps (snks ! i) (to_u32 (off + max (-1) ((int (i - start) * c - delay) div srcRate)))
        (to_u32 (off + max (-1) (((int (i - start) + 1) * c - delay - 1) div srcRate)))"
  let ?st = "\<lambda>vec i. bindE (get_at vec i) (\<lambda>x. let firing = int (i - start) in
       bindE (computeConsLowerDep c srcRate firing delay) (\<lambda>lo. bindE (computeConsUpperDep c srcRate firing delay) (\<lambda>up.
       Inr (vec[i := x\<lparr>tv_lowerDep := to_u32 (off + lo), tv_upperDep := to_u32 (off + up)\<rparr>]))))"
  have "\<exists>v. foldE ?st snks [start..<start + k] = Inr v \<and> length v = length snks \<and>
      (\<forall>i < length snks. v ! i = (if start \<le> i \<and> i < start + k then ?g i else snks ! i))" if "start + k \<le> stop" for k
    using that
  proof (induction k)
    case (Suc k)
    then obtain v where v: "foldE ?st snks [start..<start + k] = Inr v" "length v = length snks"
      "\<forall>i < length snks. v ! i = (if start \<le> i \<and> i < start + k then ?g i else snks ! i)" by auto
    have k: "start + k < length snks" using Suc.prems r by simp
    have "?st v (start + k) = Inr (v[start + k := ?g (start + k)])"
      using v(2,3) k cons_deps_value [of srcRate "int k" c delay] b [of "int k"] p Suc.prems by (simp add: with_deps_def Let_def)
    then have "foldE ?st snks [start..<start + Suc k] = Inr (v[start + k := ?g (start + k)])"
      using v(1) by (simp add: foldE_append del: foldE.simps(2)) simp
    with v k show ?case by (auto simp: nth_list_update)
  qed auto
  from this [of "stop - start"] r obtain v where v: "foldE ?st snks [start..<stop] = Inr v" "length v = length snks"
      "\<forall>i < length snks. v ! i = (if start \<le> i \<and> i < stop then ?g i else snks ! i)" by auto
  show ?thesis by (rule exI [of _ v]) (use v in \<open>simp add: compute_worker_def\<close>)
qed

text \<open>The fold over the sinks keeps, for every source, the bounds of the sinks seen so far that touch it.\<close>

lemma touch_twice:
  assumes "lo < length srcs" "up < length srcs" "\<And>i. i < length srcs \<Longrightarrow> touched (T i) (fresh ! i) (srcs ! i)"
    and fresh: "\<And>i. i < length srcs \<Longrightarrow> T i = {} \<Longrightarrow> tv_lowerDep (srcs ! i) = u32_max \<and> tv_upperDep (srcs ! i) = 0"
    and j: "j < 2 ^ 32" and new: "\<And>i. i < length srcs \<Longrightarrow> T' i = (if lo = i \<or> up = i then insert j (T i) else T i)"
  shows "\<exists>srcs'. bindE (touch_source j srcs lo) (\<lambda>s. touch_source j s up) = Inr srcs' \<and> length srcs' = length srcs \<and>
    (\<forall>i < length srcs. touched (T' i) (fresh ! i) (srcs' ! i) \<and>
       (T' i = {} \<longrightarrow> tv_lowerDep (srcs' ! i) = u32_max \<and> tv_upperDep (srcs' ! i) = 0))"
proof -
  let ?h = "\<lambda>x. x\<lparr>tv_lowerDep := min (tv_lowerDep x) j, tv_upperDep := max (tv_upperDep x) j\<rparr>"
  let ?s = "srcs[lo := ?h (srcs ! lo)]" let ?s' = "?s[up := ?h (?s ! up)]"
  have run: "bindE (touch_source j srcs lo) (\<lambda>s. touch_source j s up) = Inr ?s'" using assms(1,2) by (simp add: touch_source_def)
  have twice: "?h (?h x) = ?h x" for x by simp
  have nth: "?s' ! i = (if lo = i \<or> up = i then ?h (srcs ! i) else srcs ! i)" if "i < length srcs" for i
    using that assms(1,2) by (auto simp: nth_list_update)
  have "touched (T' i) (fresh ! i) (?s' ! i) \<and> (T' i = {} \<longrightarrow> tv_lowerDep (?s' ! i) = u32_max \<and> tv_upperDep (?s' ! i) = 0)" if i: "i < length srcs" for i
  proof (cases "lo = i \<or> up = i")
    case True
    have "srcs ! i = (fresh ! i)\<lparr>tv_lowerDep := tv_lowerDep (srcs ! i), tv_upperDep := tv_upperDep (srcs ! i)\<rparr>"
      using assms(3) [OF i] unfolding touched_def by (rule conjunct1)
    then have "?h (srcs ! i) = (fresh ! i)\<lparr>tv_lowerDep := tv_lowerDep (?h (srcs ! i)), tv_upperDep := tv_upperDep (?h (srcs ! i))\<rparr>"
      by (cases "srcs ! i"; cases "fresh ! i") simp
    moreover have "tv_lowerDep (?h (srcs ! i)) \<in> insert j (T i) \<and> tv_upperDep (?h (srcs ! i)) \<in> insert j (T i) \<and>
        (\<forall>k \<in> insert j (T i). tv_lowerDep (?h (srcs ! i)) \<le> k \<and> k \<le> tv_upperDep (?h (srcs ! i)))"
    proof (cases "T i = {}")
      case True
      with fresh [OF i] j show ?thesis by simp
    next
      case False
      then have "tv_lowerDep (srcs ! i) \<in> T i" "tv_upperDep (srcs ! i) \<in> T i" "\<forall>k \<in> T i. tv_lowerDep (srcs ! i) \<le> k \<and> k \<le> tv_upperDep (srcs ! i)"
        using assms(3) [OF i] unfolding touched_def by blast+
      then show ?thesis by (auto simp: min_def max_def)
    qed
    ultimately have "touched (insert j (T i)) (fresh ! i) (?h (srcs ! i))" by (rule touchedI)
    with True nth [OF i] new [OF i] show ?thesis by simp
  next
    case False
    with nth [OF i] new [OF i] assms(3) [OF i] fresh [OF i] show ?thesis by simp
  qed
  with run show ?thesis by (intro exI [of _ ?s']) simp
qed

lemma touch_all:
  assumes "bounded_sinks srcs snks" "positive srcs" "positive snks" "tokens srcs = tokens snks" "length snks < 2 ^ 32"
    and fresh: "\<forall>x \<in> set srcs. tv_lowerDep x = u32_max \<and> tv_upperDep x = 0"
  shows "\<exists>srcs'. foldE (\<lambda>ss j. bindE (get_at snks j) (\<lambda>x. bindE (touch_source j ss (tv_lowerDep x)) (\<lambda>s1. touch_source j s1 (tv_upperDep x))))
      srcs [0..<length snks] = Inr srcs' \<and> length srcs' = length srcs \<and>
    (\<forall>i < length srcs. touched (touching snks i) (srcs ! i) (srcs' ! i))"
proof -
  let ?st = "\<lambda>ss j. bindE (get_at snks j) (\<lambda>x. bindE (touch_source j ss (tv_lowerDep x)) (\<lambda>s1. touch_source j s1 (tv_upperDep x)))"
  let ?T = "\<lambda>k i. {j. j < k \<and> (tv_lowerDep (snks ! j) = i \<or> tv_upperDep (snks ! j) = i)}"
  have "\<exists>v. foldE ?st srcs [0..<k] = Inr v \<and> length v = length srcs \<and> (\<forall>i < length srcs. touched (?T k i) (srcs ! i) (v ! i) \<and>
      (?T k i = {} \<longrightarrow> tv_lowerDep (v ! i) = u32_max \<and> tv_upperDep (v ! i) = 0))" if "k \<le> length snks" for k
    using that
  proof (induction k)
    case 0
    then show ?case using fresh by (auto simp: touched_def)
  next
    case (Suc k)
    then obtain v where v: "foldE ?st srcs [0..<k] = Inr v" "length v = length srcs"
      "\<And>i. i < length v \<Longrightarrow> touched (?T k i) (srcs ! i) (v ! i)"
      "\<And>i. i < length v \<Longrightarrow> ?T k i = {} \<Longrightarrow> tv_lowerDep (v ! i) = u32_max \<and> tv_upperDep (v ! i) = 0" by auto
    have k: "k < length snks" using Suc.prems by simp
    note b = starts_bounds [OF assms(3) k]
    have l: "tv_lowerDep (snks ! k) = idx srcs (starts snks k)" "tv_upperDep (snks ! k) = idx srcs (starts snks (Suc k) - 1)"
      using assms(1) k by (simp_all add: bounded_sinks_def)
    have lt: "tv_lowerDep (snks ! k) < length v" "tv_upperDep (snks ! k) < length v"
      unfolding l v(2) using idx_bounds [OF assms(2), of "starts snks k"] idx_bounds [OF assms(2), of "starts snks (Suc k) - 1"] b assms(4) by auto
    have kk: "k < 2 ^ 32" using k assms(5) by simp
    have T: "?T (Suc k) i = (if tv_lowerDep (snks ! k) = i \<or> tv_upperDep (snks ! k) = i then insert k (?T k i) else ?T k i)" for i
      by (auto simp: less_Suc_eq)
    have st: "?st v k = bindE (touch_source k v (tv_lowerDep (snks ! k))) (\<lambda>s1. touch_source k s1 (tv_upperDep (snks ! k)))" using k by simp
    have "\<exists>v'. ?st v k = Inr v' \<and> length v' = length v \<and> (\<forall>i < length v. touched (?T (Suc k) i) (srcs ! i) (v' ! i) \<and>
       (?T (Suc k) i = {} \<longrightarrow> tv_lowerDep (v' ! i) = u32_max \<and> tv_upperDep (v' ! i) = 0))"
      unfolding st by (rule touch_twice [OF lt v(3,4) kk T])
    then obtain v' where v': "?st v k = Inr v'" "length v' = length v" "\<forall>i < length v. touched (?T (Suc k) i) (srcs ! i) (v' ! i) \<and>
       (?T (Suc k) i = {} \<longrightarrow> tv_lowerDep (v' ! i) = u32_max \<and> tv_upperDep (v' ! i) = 0)" by (elim exE conjE) (rule that)
    have "foldE ?st srcs [0..<Suc k] = Inr v'" using v(1) v'(1) by (simp add: foldE_append del: foldE.simps(2)) simp
    with v' v(2) show ?case by (intro exI [of _ v']) simp
  qed
  from this [of "length snks"] show ?thesis by (auto simp: touching_def)
qed

subsection \<open>Sources of one rate, after a delay or not\<close>

lemma idx_uniform:
  assumes "\<forall>x \<in> set xs. tv_rate x = a" "0 < a" "0 \<le> t" "t < tokens xs"
  shows "int (idx xs t) = t div a"
  using assms
proof (induction xs arbitrary: t)
  case (Cons x xs)
  show ?case
  proof (cases "t < a")
    case False
    with Cons have "int (idx xs (t - a)) = (t - a) div a" by auto
    moreover have "(t - a) div a = t div a - 1" using Cons.prems(2) div_add_self2 [of a "t - a"] by simp
    ultimately show ?thesis using False Cons.prems by simp
  qed (use Cons.prems in simp)
qed simp

lemma tokens_uniform: "\<forall>x \<in> set xs. tv_rate x = a \<Longrightarrow> tokens xs = int (length xs) * a"
  by (induction xs) (auto simp: algebra_simps)

text \<open>A list of linkers of one rate, preceded by the setter (sources) or followed by the getter (sinks) of a delay.\<close>

definition delay_list :: "Dependencies.delay option \<Rightarrow> transfo_vertex list \<Rightarrow> bool" where
  "delay_list delay xs \<longleftrightarrow> (case delay of None \<Rightarrow> xs = [] | Some d \<Rightarrow> 0 < d_value d \<and> (\<exists>x. xs = [x] \<and> tv_rate x = d_value d))"

definition delay_tokens :: "Dependencies.delay option \<Rightarrow> int" where
  "delay_tokens delay = (case delay of None \<Rightarrow> 0 | Some d \<Rightarrow> d_value d)"

lemma delay_listD:
  assumes "delay_list delay pre"
  shows "tokens pre = delay_tokens delay" "0 \<le> delay_tokens delay" "length pre = of_bool (delay \<noteq> None)" "positive pre"
    "delay \<noteq> None \<Longrightarrow> 0 < delay_tokens delay"
  using assms by (auto simp: delay_list_def delay_tokens_def split: option.splits)

lemma idx_delayed:
  assumes d: "delay_list delay pre" and a: "\<forall>x \<in> set ss. tv_rate x = a" "0 < a" and t: "0 \<le> t" "t < tokens (pre @ ss)"
  shows "int (idx (pre @ ss) t) = of_bool (delay \<noteq> None) + max (-1) ((t - delay_tokens delay) div a)"
proof (cases delay)
  case None
  moreover have "0 \<le> t div a" using a(2) t(1) by (simp add: pos_imp_zdiv_nonneg_iff)
  ultimately show ?thesis using d idx_uniform [OF a t(1)] t(2) by (simp add: delay_list_def delay_tokens_def)
next
  case (Some dl)
  then obtain x where x: "pre = [x]" "tv_rate x = d_value dl" using d by (auto simp: delay_list_def)
  show ?thesis
  proof (cases "t < d_value dl")
    case True
    then have "(t - d_value dl) div a \<le> -1" using a(2) div_nonpos_pos_le0 pos_imp_zdiv_neg_iff [of a "t - d_value dl"] by force
    then show ?thesis using True x Some by (simp add: delay_tokens_def)
  next
    case False
    have "int (idx ss (t - d_value dl)) = (t - d_value dl) div a" using False t x by (intro idx_uniform [OF a]) auto
    moreover have "0 \<le> (t - d_value dl) div a" using a(2) False by (simp add: pos_imp_zdiv_nonneg_iff)
    ultimately show ?thesis using False x Some by (simp add: delay_tokens_def)
  qed
qed

lemma to_u32_int: "n < 2 ^ 32 \<Longrightarrow> to_u32 (int n) = n"
  by (simp add: to_u32_def)

lemma starts_append: "starts (xs @ ys) (length xs + k) = tokens xs + starts ys k"
  by simp

lemma starts_uniform: "\<forall>x \<in> set xs. tv_rate x = c \<Longrightarrow> k \<le> length xs \<Longrightarrow> starts (xs @ ys) k = int k * c"
  using tokens_uniform [of "take k xs" c] by (auto dest: in_set_takeD)

lemma same_rates_nth:
  assumes "length ys = length xs" "\<And>i. i < length xs \<Longrightarrow> tv_rate (ys ! i) = tv_rate (xs ! i)"
  shows "tokens ys = tokens xs" "starts ys k = starts xs k" "positive xs \<Longrightarrow> positive ys"
proof -
  have r: "List.map tv_rate ys = List.map tv_rate xs" using assms by (intro nth_equalityI) simp_all
  show "tokens ys = tokens xs" by (rule tokens_rates [OF r])
  show "starts ys k = starts xs k" by (intro tokens_rates) (simp add: take_map [symmetric] r)
  show "positive xs \<Longrightarrow> positive ys" using assms by (metis in_set_conv_nth)
qed

lemma workers_ok:
  assumes src: "delay_list delay pre" "\<forall>x \<in> set ss. tv_rate x = a" "0 < a" "length (pre @ ss) < 2 ^ 32"
    and snk: "delay_list delay post" "\<forall>x \<in> set ks. tv_rate x = c" "0 < c" "ks \<noteq> []"
    and t: "tokens (pre @ ss) = tokens (ks @ post)" "tokens (ks @ post) < 2 ^ 63" and off: "off = of_bool (delay \<noteq> None)"
  shows "\<exists>s1 s2. compute_worker off a 0 (length ks) c (delay_tokens delay) (ks @ post) = Inr s1 \<and>
    compute_worker off a (length ks) (length s1) (if delay = None then 0 else tv_rate (last (ks @ post)))
       (delay_tokens delay - c * int (length ks)) s1 = Inr s2 \<and>
    bounded_sinks (pre @ ss) s2 \<and> length s2 = length (ks @ post) \<and>
    (\<forall>i < length s2. \<exists>l u. s2 ! i = with_deps ((ks @ post) ! i) l u)"
proof -
  let ?m = "length ks" let ?d = "delay_tokens delay" let ?A = "pre @ ss" let ?B = "ks @ post"
  note dl = delay_listD [OF snk(1)]
  have tk: "tokens ks = int ?m * c" by (rule tokens_uniform [OF snk(2)])
  then have total: "tokens ?A = int ?m * c + ?d" "int ?m * c + ?d < 2 ^ 63" using t dl(1) by simp_all
  have posA: "positive ?A" using delay_listD(4) [OF src(1)] src(2,3) by auto
  have bound: "idx ?A u < 2 ^ 32" if "0 \<le> u" "u < tokens ?A" for u using idx_bounds [OF posA that] src(4) by simp
  have dep: "to_u32 (off + max (-1) ((u - ?d) div a)) = idx ?A u" if "0 \<le> u" "u < tokens ?A" for u
    using to_u32_int [OF bound [OF that]] idx_delayed [OF src(1-3) that] off by simp
  have le: "int f * c + c \<le> int ?m * c" if "f < ?m" for f
  proof -
    from that have "(int f + 1) * c \<le> int ?m * c" using snk(3) by (intro mult_right_mono) simp_all
    then show ?thesis by (simp add: algebra_simps)
  qed
  have "\<exists>s1. compute_worker off a 0 ?m c ?d ?B = Inr s1 \<and> length s1 = length ?B \<and>
    (\<forall>i < length ?B. s1 ! i = (if 0 \<le> i \<and> i < ?m then with_deps (?B ! i)
        (to_u32 (off + max (-1) ((int (i - 0) * c - ?d) div a)))
        (to_u32 (off + max (-1) (((int (i - 0) + 1) * c - ?d - 1) div a))) else ?B ! i))"
  proof (rule compute_worker_ok)
    fix f assume f: "0 \<le> f" "f < int (?m - 0)"
    have "0 \<le> f * c" "0 \<le> int ?m * c" "(f + 1) * c = f * c + c" using f(1) snk(3) by (simp_all add: algebra_simps)
    moreover have "f * c + c \<le> int ?m * c" using le [of "nat f"] f by (simp add: nat_less_iff)
    ultimately show "- (2 ^ 63) < f * c - ?d \<and> (f + 1) * c - ?d < 2 ^ 63" using dl(2) total(2) by linarith
  qed (use src snk in auto)
  then obtain s1 where s1: "compute_worker off a 0 ?m c ?d ?B = Inr s1" "length s1 = length ?B"
    "\<And>i. i < length ?B \<Longrightarrow> s1 ! i = (if i < ?m then with_deps (?B ! i) (to_u32 (off + max (-1) ((int i * c - ?d) div a)))
        (to_u32 (off + max (-1) (((int i + 1) * c - ?d - 1) div a))) else ?B ! i)" by auto
  have st: "starts ?B i = int i * c" if "i \<le> ?m" for i by (rule starts_uniform [OF snk(2) that])
  have b1: "s1 ! i = with_deps (?B ! i) (idx ?A (starts ?B i)) (idx ?A (starts ?B (Suc i) - 1))" if i: "i < ?m" for i
  proof -
    have "0 \<le> int i * c" using snk(3) by simp
    moreover have "1 \<le> c + c * int i" using mult_nonneg_nonneg [of c "int i"] snk(3) by linarith
    moreover have "int i * c + c \<le> tokens ?A" using le [OF i] total dl(2) by simp
    moreover have "(int i + 1) * c - ?d - 1 = (int i * c + c - 1) - ?d" by (simp add: algebra_simps)
    ultimately show ?thesis using s1(3) [of i] dep [of "int i * c"] dep [of "int i * c + c - 1"] i st [of i] st [of "Suc i"] snk(3)
      by (simp add: algebra_simps)
  qed
  show ?thesis
  proof (cases delay)
    case None
    then have "post = []" using snk(1) by (simp add: delay_list_def)
    then have "bounded_sinks ?A s1" using b1 s1(2) same_rates_nth(2) [of s1 ?B] by (simp add: bounded_sinks_def)
    moreover have "\<forall>i < length s1. \<exists>l u. s1 ! i = with_deps (?B ! i) l u" using b1 s1(2) \<open>post = []\<close> by simp blast
    ultimately show ?thesis using s1(1,2) None \<open>post = []\<close> by (intro exI [of _ s1]) (simp add: compute_worker_def)
  next
    case (Some dd)
    then obtain g where g: "post = [g]" "tv_rate g = ?d" "0 < ?d" using snk(1) by (auto simp: delay_list_def delay_tokens_def)
    have z: "0 \<le> c * int ?m" "int ?m * c = c * int ?m" using snk(3) mult_nonneg_nonneg [of c "int ?m"] by simp_all
    have "\<exists>s2. compute_worker off a ?m (length s1) ?d (?d - c * int ?m) s1 = Inr s2 \<and> length s2 = length s1 \<and>
      (\<forall>i < length s1. s2 ! i = (if ?m \<le> i \<and> i < length s1 then with_deps (s1 ! i)
        (to_u32 (off + max (-1) ((int (i - ?m) * ?d - (?d - c * int ?m)) div a)))
        (to_u32 (off + max (-1) (((int (i - ?m) + 1) * ?d - (?d - c * int ?m) - 1) div a))) else s1 ! i))"
    proof (rule compute_worker_ok)
      fix f assume "0 \<le> f" "f < int (length s1 - ?m)"
      then have "f = 0" using s1(2) g(1) by simp
      then show "- (2 ^ 63) < f * ?d - (?d - c * int ?m) \<and> (f + 1) * ?d - (?d - c * int ?m) < 2 ^ 63"
        using total(2) g(3) z by simp
    qed (use src(3) g s1(2) in auto)
    then obtain s2 where s2: "compute_worker off a ?m (length s1) ?d (?d - c * int ?m) s1 = Inr s2" "length s2 = length s1"
      "\<And>i. i < ?m \<Longrightarrow> s2 ! i = s1 ! i"
      "s2 ! ?m = with_deps (s1 ! ?m) (to_u32 (off + max (-1) ((c * int ?m - ?d) div a))) (to_u32 (off + max (-1) ((c * int ?m - 1) div a)))"
      using s1(2) g(1) by (auto simp: algebra_simps)
    have "(c * int ?m - 1) div a = ((c * int ?m + ?d - 1) - ?d) div a" by simp
    then have last: "s2 ! ?m = with_deps g (idx ?A (starts ?B ?m)) (idx ?A (starts ?B (Suc ?m) - 1))"
      using s2(4) s1(3) [of ?m] dep [of "c * int ?m"] dep [of "c * int ?m + ?d - 1"] z g total(1) st [of ?m] tk
      by (simp add: nth_append algebra_simps)
    have all: "s2 ! i = with_deps (?B ! i) (idx ?A (starts ?B i)) (idx ?A (starts ?B (Suc i) - 1))" if "i < length ?B" for i
      using that b1 [of i] s2(3) [of i] last g(1) by (cases "i < ?m") (auto simp: nth_append less_Suc_eq)
    then have "bounded_sinks ?A s2" using s2(2) s1(2) same_rates_nth(2) [of s2 ?B] by (simp add: bounded_sinks_def del: take_append)
    moreover have "\<forall>i < length s2. \<exists>l u. s2 ! i = with_deps (?B ! i) l u" using all s2(2) s1(2) by auto
    ultimately show ?thesis using s1 s2(1,2) Some g by (intro exI [of _ s1] exI [of _ s2]) simp
  qed
qed

lemma computeDependencies_ok:
  assumes src: "delay_list delay pre" "\<forall>x \<in> set ss. tv_rate x = a" "0 < a" "ss \<noteq> []" "length (pre @ ss) < 2 ^ 32"
    and fresh: "\<forall>x \<in> set (pre @ ss). tv_lowerDep x = u32_max \<and> tv_upperDep x = 0"
    and snk: "delay_list delay post" "\<forall>x \<in> set ks. tv_rate x = c" "0 < c" "ks \<noteq> []" "length (ks @ post) < 2 ^ 32"
    and t: "tokens (pre @ ss) = tokens (ks @ post)" "tokens (ks @ post) < 2 ^ 63"
  shows "\<exists>srcs snks. computeDependencies (length ks) delay (pre @ ss) (ks @ post) = Inr (srcs, snks) \<and> length srcs = length (pre @ ss) \<and>
    length snks = length (ks @ post) \<and> (\<forall>i < length srcs. \<exists>l u. srcs ! i = with_deps ((pre @ ss) ! i) l u) \<and>
    (\<forall>i < length snks. \<exists>l u. snks ! i = with_deps ((ks @ post) ! i) l u) \<and> sinks_ok 0 srcs snks \<and> sources_ok 0 srcs snks"
proof -
  let ?A = "pre @ ss" let ?B = "ks @ post" let ?off = "if delay = None then 0 else 1 :: int"
  obtain s1 s2 where w: "compute_worker ?off a 0 (length ks) c (delay_tokens delay) ?B = Inr s1"
    "compute_worker ?off a (length ks) (length s1) (if delay = None then 0 else tv_rate (last ?B)) (delay_tokens delay - c * int (length ks)) s1 = Inr s2"
    "bounded_sinks ?A s2" "length s2 = length ?B" "\<forall>i < length s2. \<exists>l u. s2 ! i = with_deps (?B ! i) l u"
    using workers_ok [OF src(1-3,5) snk(1-4) t, of ?off] by (cases delay) auto
  have posA: "positive ?A" using delay_listD(4) [OF src(1)] src(2,3) by auto
  have posB: "positive ?B" using delay_listD(4) [OF snk(1)] snk(2,3) by auto
  have rB: "tv_rate (s2 ! i) = tv_rate (?B ! i)" if "i < length ?B" for i using w(4,5) that by fastforce
  have pos2: "positive s2" and tok2: "tokens s2 = tokens ?B"
    using same_rates_nth(3) [OF w(4) rB posB] same_rates_nth(1) [OF w(4) rB] by auto
  obtain srcs where s: "foldE (\<lambda>ss j. bindE (get_at s2 j) (\<lambda>x. bindE (touch_source j ss (tv_lowerDep x)) (\<lambda>s1. touch_source j s1 (tv_upperDep x))))
      ?A [0..<length s2] = Inr srcs" "length srcs = length ?A" "\<And>i. i < length ?A \<Longrightarrow> touched (touching s2 i) (?A ! i) (srcs ! i)"
    using touch_all [OF w(3) posA pos2 _ _ fresh] t(1) tok2 w(4) snk(5) by auto
  have "sources_ok 0 srcs s2" by (rule touching_sources_ok [OF posA pos2 _ _ w(3) s(2,3)]) (use t(1) tok2 w(4) snk(5) in auto)
  moreover have e: "\<exists>l u. srcs ! i = with_deps (?A ! i) l u" if "i < length ?A" for i
    using s(3) [OF that] unfolding touched_def with_deps_def by blast
  moreover have "sinks_ok 0 srcs s2"
  proof -
    have "List.map tv_rate srcs = List.map tv_rate ?A"
    proof (rule nth_equalityI)
      fix i assume "i < length (List.map tv_rate srcs)"
      then have "i < length ?A" using s(2) by simp
      with e [of i] s(2) show "List.map tv_rate srcs ! i = List.map tv_rate ?A ! i" by (metis nth_map with_deps_simps(1))
    qed (use s(2) in simp)
    from ivs_rates [OF this] bounded_sinks_ok [OF posA pos2 _ src(5) w(3)] t(1) tok2 show ?thesis by (simp add: sinks_ok_def)
  qed
  moreover have "computeDependencies (length ks) delay ?A ?B = Inr (srcs, s2)"
  proof -
    have "tv_rate (last ?A) = a" "tv_rate (hd ?B) = c" using src(2,4) snk(2,4) by auto
    moreover have "c * int (length ks) < 2 ^ 63" "0 \<le> c * int (length ks)"
      using t(2) tokens_uniform [OF snk(2)] delay_listD(1,2) [OF snk(1)] snk(3) by (simp_all add: algebra_simps)
    then have "rate_times c (length ks) = Inr (c * int (length ks))" by (simp add: rate_times_def in_i64_def)
    moreover have "(case delay of None \<Rightarrow> 0 | Some d \<Rightarrow> d_value d) = delay_tokens delay" by (simp add: delay_tokens_def)
    ultimately show ?thesis using w(1,2) s(1) src(4) snk(4) by (simp add: computeDependencies_def Let_def)
  qed
  ultimately show ?thesis using w(4,5) s(2) by (intro exI [of _ srcs] exI [of _ s2]) simp
qed

text \<open>The stream of tokens that the sources write, one source after the other.\<close>

definition stream_of :: "transfo_vertex list \<Rightarrow> int \<Rightarrow> nat \<times> nat \<times> int" where
  "stream_of srcs t = (let x = srcs ! idx srcs t in (fst (key x), snd (key x), t - starts srcs (idx srcs t)))"

lemma supplied_stream:
  assumes p: "positive srcs" and k: "\<forall>x \<in> set srcs. fst (key x) < nV G \<and> \<not> forks G (fst (key x)) \<and> \<not> joins G (fst (key x))"
  shows "each (supplied G (stream_of srcs)) 0 srcs"
  unfolding each_nth supplied_def
proof (intro allI impI)
  fix i t assume i: "i < length srcs" and t: "0 + starts srcs i \<le> t \<and> t < 0 + starts srcs (Suc i)"
  then have "idx srcs t = i" by (intro idx_unique [OF p i]) auto
  with k nth_mem [OF i] show "trace G (fst (key (srcs ! i))) (snd (key (srcs ! i))) (t - (0 + starts srcs i)) (stream_of srcs t)"
    by (auto simp: stream_of_def Let_def intro: trace.actor)
qed

lemma with_deps_list:
  assumes "length ys = length xs" "\<And>i. i < length xs \<Longrightarrow> \<exists>l u. ys ! i = with_deps (xs ! i) l u"
  shows "List.map tv_rate ys = List.map tv_rate xs" "List.map key ys = List.map key xs" "free_ports sd G ys = free_ports sd G xs"
    "\<And>P. (\<And>x l u. P (with_deps x l u) = P x) \<Longrightarrow> (\<forall>y \<in> set ys. P y) = (\<forall>x \<in> set xs. P x)"
proof -
  have n: "f (ys ! i) = f (xs ! i)" if "\<And>x l u. f (with_deps x l u) = f x" "i < length xs" for f :: "transfo_vertex \<Rightarrow> 'z" and i
    using assms(2) [OF that(2)] that(1) by metis
  have m: "List.map f ys = List.map f xs" if "\<And>x l u. f (with_deps x l u) = f x" for f :: "transfo_vertex \<Rightarrow> 'z"
    using n [of f] that assms(1) by (intro nth_equalityI) auto
  show "List.map tv_rate ys = List.map tv_rate xs"
    using assms by (intro nth_equalityI) (auto, metis with_deps_simps(1))
  show k: "List.map key ys = List.map key xs"
    using assms by (intro nth_equalityI) (auto, metis with_deps_simps(6))
  show P: "(\<forall>y \<in> set ys. P y) = (\<forall>x \<in> set xs. P x)" if "\<And>x l u. P (with_deps x l u) = P x" for P
    using assms that by (metis in_set_conv_nth)
  have "free_port sd G (with_deps x l u) = free_port sd G x" for x l u by (simp add: free_port_def)
  with P [of "free_port sd G"] k show "free_ports sd G ys = free_ports sd G xs" by (simp add: free_ports_def)
qed

end
