(* ===== verification/SRLinkProps.thy ===== *)
theory SRLinkProps
  imports SRDeps
begin

text \<open>
  The properties of the single-rate linkage: on the linkers of an edge, with a delay or not, and on a whole edge of the
  reference graph between two actors.
\<close>

lemma each_key:
  "List.map key xs = List.map key ys \<Longrightarrow> List.map tv_rate xs = List.map tv_rate ys \<Longrightarrow> each (fed G f) b xs = each (fed G f) b ys"
proof (induction xs arbitrary: ys b)
  case (Cons x xs)
  then obtain y zs where y: "ys = y # zs" "key x = key y" "tv_rate x = tv_rate y" "List.map key xs = List.map key zs" "List.map tv_rate xs = List.map tv_rate zs"
    by (cases ys) auto
  then show ?case using Cons.IH [OF y(4,5)] by (simp add: fed_def)
qed simp

lemma each_supplied_key:
  "List.map key xs = List.map key ys \<Longrightarrow> List.map tv_rate xs = List.map tv_rate ys \<Longrightarrow> each (supplied G f) b xs = each (supplied G f) b ys"
proof (induction xs arbitrary: ys b)
  case (Cons x xs)
  then obtain y zs where y: "ys = y # zs" "key x = key y" "tv_rate x = tv_rate y" "List.map key xs = List.map key zs" "List.map tv_rate xs = List.map tv_rate zs"
    by (cases ys) auto
  then show ?case using Cons.IH [OF y(4,5)] by (simp add: supplied_def)
qed simp

lemma linkers_linked:
  assumes ok: "sr_ok G"
    and src: "delay_list delay pre" "\<forall>x \<in> set ss. tv_rate x = a" "0 < a" "ss \<noteq> []" "length (pre @ ss) < 2 ^ 32"
    and fresh: "\<forall>x \<in> set (pre @ ss). tv_lowerDep x = u32_max \<and> tv_upperDep x = 0"
    and snk: "delay_list delay post" "\<forall>x \<in> set ks. tv_rate x = c" "0 < c" "ks \<noteq> []" "length (ks @ post) < 2 ^ 32"
    and t: "tokens (pre @ ss) = tokens (ks @ post)" "tokens (ks @ post) < 2 ^ 63"
    and free: "free_ports Source G (pre @ ss)" "free_ports Sink G (ks @ post)"
    and act: "\<forall>x \<in> set (pre @ ss). \<not> forks G (fst (key x)) \<and> \<not> joins G (fst (key x))"
  shows "\<exists>srcs snks G'. computeDependencies (length ks) delay (pre @ ss) (ks @ post) = Inr (srcs, snks) \<and> link_all G srcs snks = Inr G' \<and>
    sr_ok G' \<and> sr_extends G G' \<and> fills G G' (keys (pre @ ss)) (keys (ks @ post)) \<and>
    each (fed G' (stream_of (pre @ ss))) 0 (ks @ post) \<and> (\<forall>x \<in> set (pre @ ss). drained G' x)"
proof -
  let ?A = "pre @ ss" let ?B = "ks @ post" let ?f = "stream_of (pre @ ss)"
  obtain srcs snks where d: "computeDependencies (length ks) delay ?A ?B = Inr (srcs, snks)" "length srcs = length ?A" "length snks = length ?B"
    "\<And>i. i < length ?A \<Longrightarrow> \<exists>l u. srcs ! i = with_deps (?A ! i) l u" "\<And>i. i < length ?B \<Longrightarrow> \<exists>l u. snks ! i = with_deps (?B ! i) l u"
    "sinks_ok 0 srcs snks" "sources_ok 0 srcs snks"
    using computeDependencies_ok [OF src fresh snk t] by auto
  note A = with_deps_list [OF d(2,4)] and B = with_deps_list [OF d(3,5)]
  have pA: "positive ?A" using delay_listD(4) [OF src(1)] src(2,3) by auto
  have pB: "positive ?B" using delay_listD(4) [OF snk(1)] snk(2,3) by auto
  have pos: "positive srcs" "positive snks" using A(4) [of "\<lambda>x. 0 < tv_rate x"] B(4) [of "\<lambda>x. 0 < tv_rate x"] pA pB by simp_all
  have keysA: "key ` set srcs = keys ?A" and keysB: "key ` set snks = keys ?B" using A(2) B(2) by (metis image_set)+
  have "\<forall>x \<in> set ?A. fst (key x) < nV G \<and> \<not> forks G (fst (key x)) \<and> \<not> joins G (fst (key x))"
    using free(1) act by (auto simp: free_ports_def free_port_def)
  from supplied_stream [OF pA this] have "each (supplied G ?f) 0 srcs" using each_supplied_key [OF A(2,1)] by simp
  then have "link_inv G ?f 0 srcs snks"
    using ok pos d(6,7) t tokens_rates [OF A(1)] tokens_rates [OF B(1)] A(3) [of Source G] B(3) [of Sink G] free by (simp add: link_inv_def)
  from link_loop_ok [OF this] obtain G' where G': "link_loop G srcs snks = Inr (G', [], [])" "sr_ok G'" "sr_extends G G'"
    "fills G G' (key ` set srcs) (key ` set snks)" "link_goal G' ?f 0 srcs snks" by auto
  have "link_all G srcs snks = Inr G'" using G'(1) by (simp add: link_all_def)
  moreover have "each (fed G' ?f) 0 ?B" using G'(5) each_key [OF B(2,1)] by (simp add: link_goal_def)
  moreover have "\<forall>x \<in> set ?A. drained G' x" using G'(5) A(4) [of "drained G'"] by (simp add: link_goal_def drained_def)
  ultimately show ?thesis using d(1) G' keysA keysB by (intro exI [of _ srcs] exI [of _ snks] exI [of _ G']) simp
qed

subsection \<open>The linkers of the clones\<close>

text \<open>The clones of a vertex, from the index \<open>s\<close>, have a free port \<open>p\<close>.\<close>

definition clones_ready :: "side \<Rightarrow> srdag \<Rightarrow> nat \<Rightarrow> nat \<Rightarrow> nat \<Rightarrow> bool" where
  "clones_ready sd G s n p \<longleftrightarrow> s + n \<le> length (sr_vertices G) \<and> p < 2 ^ 32 \<and> 0 < n \<and> n < 2 ^ 32 \<and>
     (\<forall>i < n. let v = sr_vertices G ! (s + i) in p < nP sd G v \<and> prt sd G v p = None \<and> \<not> forks G v \<and> \<not> joins G v)"

definition linkers :: "srdag \<Rightarrow> nat \<Rightarrow> nat \<Rightarrow> int \<Rightarrow> nat \<Rightarrow> transfo_vertex list" where
  "linkers G s n rate p = List.map (\<lambda>i. transfo_vertex_new rate p (Some (sr_vertices G ! i))) [s..<s + n]"

lemma sr_vertices_ok:
  assumes "sr_ok G" "i < length (sr_vertices G)"
  shows "sr_vertices G ! i < nV G" "vx_ix (st_vertices (sg_store G) ! (sr_vertices G ! i)) = i"
  using sr_okD(1) [OF assms(1)] assms(2) by (simp_all add: store_ok_def index_ok_def Let_def sr_vertices_def)

lemma sr_vertices_distinct: "sr_ok G \<Longrightarrow> distinct (sr_vertices G)"
  using sr_okD(1) index_ok_distinct(1) by (auto simp: store_ok_def sr_vertices_def)

lemma populate_eq:
  assumes "sr_ok G" "jc_clones c ! v = s" "v < length (jc_clones c)" "jc_rv c ! v = n" "v < length (jc_rv c)" "clones_ready sd G s n p"
  shows "populateTransfoVertexVector c G vec (Actor v) rate p = Inr (linkers G s n rate p @ vec)"
proof -
  have s: "s + n \<le> length (sr_vertices G)" "0 < n" using assms(6) by (simp_all add: clones_ready_def)
  have "foldE (\<lambda>vec i. bindE (vertex_by_ix G i) (\<lambda>v. Inr (transfo_vertex_new rate p (Some v) # vec))) vec (rev [s..<s + k]) =
      Inr (linkers G s k rate p @ vec)" if "k \<le> n" for k vec
    using that
  proof (induction k arbitrary: vec)
    case (Suc k)
    then have "s + k < length (sr_vertices G)" using s by simp
    with Suc show ?case by (simp add: vertex_by_ix_def linkers_def)
  qed (simp add: linkers_def)
  moreover have "s < length (sr_vertices G)" using s by simp
  ultimately show ?thesis
    using assms(2-5) sr_vertices_ok [OF assms(1), of s]
    by (simp add: populateTransfoVertexVector_def first_clone_def getIx_def vertex_by_ix_def vertex_at_def rv_at_def)
qed

lemma linkers_simps:
  "x \<in> set (linkers G s n rate p) \<Longrightarrow> tv_rate x = rate \<and> tv_lowerDep x = u32_max \<and> tv_upperDep x = 0"
  "length (linkers G s n rate p) = n"
  by (auto simp: linkers_def transfo_vertex_new_def)

lemma linkers_nth:
  "i < n \<Longrightarrow> p < 2 ^ 32 \<Longrightarrow> key (linkers G s n rate p ! i) = (sr_vertices G ! (s + i), p)"
  by (simp add: linkers_def transfo_vertex_new_def key_def)

lemma linkers_free:
  assumes "sr_ok G" "clones_ready sd G s n p"
  shows "free_ports sd G (linkers G s n rate p)"
    "\<forall>x \<in> set (linkers G s n rate p). \<not> forks G (fst (key x)) \<and> \<not> joins G (fst (key x))"
proof -
  have c: "s + n \<le> length (sr_vertices G)" "p < 2 ^ 32"
    "\<And>i. i < n \<Longrightarrow> p < nP sd G (sr_vertices G ! (s + i)) \<and> prt sd G (sr_vertices G ! (s + i)) p = None \<and>
      \<not> forks G (sr_vertices G ! (s + i)) \<and> \<not> joins G (sr_vertices G ! (s + i))"
    using assms(2) by (simp_all add: clones_ready_def Let_def)
  have k: "List.map key (linkers G s n rate p) = List.map (\<lambda>i. (sr_vertices G ! i, p)) [s..<s + n]"
    using c(2) by (simp add: linkers_def transfo_vertex_new_def key_def)
  have "distinct (List.map (\<lambda>i. (sr_vertices G ! i, p)) [s..<s + n])"
    using sr_vertices_distinct [OF assms(1)] c(1) by (auto simp: distinct_map inj_on_def nth_eq_iff_index_eq)
  moreover have "free_port sd G x" if "x \<in> set (linkers G s n rate p)" for x
  proof -
    from that obtain i where i: "i < n" "x = linkers G s n rate p ! i" by (metis in_set_conv_nth linkers_simps(2))
    with c sr_vertices_ok(1) [OF assms(1), of "s + i"] show ?thesis
      by (simp add: free_port_def linkers_nth) (simp add: linkers_def transfo_vertex_new_def)
  qed
  ultimately show "free_ports sd G (linkers G s n rate p)" unfolding free_ports_def k by blast
  show "\<forall>x \<in> set (linkers G s n rate p). \<not> forks G (fst (key x)) \<and> \<not> joins G (fst (key x))"
    using c by (metis fst_conv in_set_conv_nth linkers_nth linkers_simps(2))
qed

lemma linkers_tokens: "tokens (linkers G s n rate p) = int n * rate"
  using tokens_uniform [of "linkers G s n rate p" rate] linkers_simps by metis

lemma linkers_starts: "i \<le> n \<Longrightarrow> starts (linkers G s n rate p) i = int i * rate"
  using starts_uniform [of "linkers G s n rate p" rate i "[]"] linkers_simps by fastforce

lemma linkers_stream:
  assumes "0 < a" "0 \<le> t" "t < int n * a" "p < 2 ^ 32"
  shows "stream_of (linkers G s n a p) t = (sr_vertices G ! (s + nat (t div a)), p, t mod a)"
proof -
  let ?L = "linkers G s n a p"
  have "int (idx ?L t) = t div a" by (rule idx_uniform) (use assms linkers_simps linkers_tokens in auto)
  then have i: "idx ?L t = nat (t div a)" by simp
  have n: "nat (t div a) < n" using idx_bounds [of ?L t] assms(1-3) linkers_simps linkers_tokens unfolding i [symmetric] by metis
  then have "starts ?L (nat (t div a)) = t div a * a" using linkers_starts [of "nat (t div a)" n G s a p] assms(1,2) by (simp add: pos_imp_zdiv_nonneg_iff)
  then show ?thesis using linkers_nth [OF n assms(4)] by (simp add: stream_of_def Let_def i minus_div_mult_eq_mod)
qed

text \<open>An edge of the reference graph from the actor \<open>A\<close>, port \<open>p\<close>, to the actor \<open>B\<close>, port \<open>q\<close>, without delay.\<close>

definition plain_edge :: "'e job_ctx \<Rightarrow> nat \<Rightarrow> nat \<Rightarrow> nat \<Rightarrow> nat \<Rightarrow> nat \<Rightarrow> int \<Rightarrow> int \<Rightarrow> bool" where
  "plain_edge c e A p B q a b \<longleftrightarrow>
     e < length (g_edges (jc_graph c)) \<and> g_edges (jc_graph c) ! e = \<lparr>e_source = Actor A, e_source_port = p, e_sink = Actor B, e_sink_port = q\<rparr> \<and>
     A \<noteq> B \<and> e < length (g_delays (jc_graph c)) \<and> g_delays (jc_graph c) ! e = None \<and>
     A < length (g_vertices (jc_graph c)) \<and> B < length (g_vertices (jc_graph c)) \<and>
     v_type (g_vertices (jc_graph c) ! A) \<noteq> DELAY \<and> v_type (g_vertices (jc_graph c) ! B) \<noteq> DELAY \<and>
     e < length (jc_rates c) \<and> jc_rates c ! e = (a, b) \<and> 0 < a \<and> 0 < b \<and>
     A < length (jc_clones c) \<and> B < length (jc_clones c) \<and> A < length (jc_rv c) \<and> B < length (jc_rv c)"

text \<open>
  C1. The single-rate graph computes the same streams as the multi-rate edge, for a plain edge: between two different actors that are
  no delays, without a delay (C25 is about delays). When the edge is balanced and the ports of the clones are free, \<open>singleRateLinkage\<close> ends without error; the input port of the firing \<open>j\<close> of the sink gets an edge of
  the sink rate, and the token \<open>t\<close> that it reads, followed back through the forks and the joins put in, is the token
  \<open>(j * b + t) mod a\<close> written by the firing \<open>(j * b + t) div a\<close> of the source. Every output port of the source is connected
  with its own rate.
\<close>

theorem single_rate_edge_flow:
  assumes ok: "sr_ok G" and e: "plain_edge c e A p B q a b"
    and src: "clones_ready Source G (jc_clones c ! A) (jc_rv c ! A) p" and snk: "clones_ready Sink G (jc_clones c ! B) (jc_rv c ! B) q"
    and bal: "int (jc_rv c ! A) * a = int (jc_rv c ! B) * b" "int (jc_rv c ! B) * b < 2 ^ 63"
  shows "\<exists>G'. singleRateLinkage c G e = Inr G' \<and> sr_ok G' \<and> sr_extends G G' \<and>
    (\<forall>j < jc_rv c ! B. \<exists>f u r. prt Sink G' (sr_vertices G ! (jc_clones c ! B + j)) q = Some f \<and> rate_of G' f = b \<and> tgt Source G' f = Some (u, r) \<and>
       (\<forall>t. 0 \<le> t \<and> t < b \<longrightarrow> trace G' u r t
          (sr_vertices G ! (jc_clones c ! A + nat ((int j * b + t) div a)), p, (int j * b + t) mod a))) \<and>
    (\<forall>i < jc_rv c ! A. \<exists>f. prt Source G' (sr_vertices G ! (jc_clones c ! A + i)) p = Some f \<and> rate_of G' f = a)"
proof -
  let ?n = "jc_rv c ! A" let ?m = "jc_rv c ! B" let ?s = "jc_clones c ! A" let ?k = "jc_clones c ! B"
  let ?S = "linkers G ?s ?n a p" let ?K = "linkers G ?k ?m b q"
  note pe = e [unfolded plain_edge_def]
  have nm: "0 < ?n" "?n < 2 ^ 32" "0 < ?m" "?m < 2 ^ 32" "p < 2 ^ 32" "q < 2 ^ 32" using src snk by (simp_all add: clones_ready_def)
  have ne: "?S \<noteq> []" "?K \<noteq> []" using nm by (simp_all add: linkers_def)
  obtain srcs snks G' where l: "computeDependencies ?m None ?S ?K = Inr (srcs, snks)" "link_all G srcs snks = Inr G'" "sr_ok G'" "sr_extends G G'"
    "each (fed G' (stream_of ?S)) 0 ?K" "\<forall>x \<in> set ?S. drained G' x"
    using linkers_linked [OF ok, of None "[]" ?S a "[]" ?K b] linkers_free [OF ok src, of a] linkers_free(1) [OF ok snk, of b]
      linkers_simps(1) linkers_simps(2) linkers_tokens ne nm pe bal by (auto simp: delay_list_def)
  have bs: "buildSourceLinkerVector c G e = Inr (G, ?S)" using pe populate_eq [OF ok refl _ refl _ src, of "[]" a]
    by (simp add: buildSourceLinkerVector_def type_at_def split: vertex_type.splits)
  have bk: "buildSinkLinkerVector c G e = Inr (G, ?K)" using pe populate_eq [OF ok refl _ refl _ snk, of "[]" b]
    by (simp add: buildSinkLinkerVector_def type_at_def split: vertex_type.splits)
  have run: "singleRateLinkage c G e = Inr G'"
    using pe bs bk l(1,2) by (simp add: singleRateLinkage_def checkForNullEdge_def rv_at_def)
  have sink: "\<exists>f u r. prt Sink G' (sr_vertices G ! (?k + j)) q = Some f \<and> rate_of G' f = b \<and> tgt Source G' f = Some (u, r) \<and>
       (\<forall>t. 0 \<le> t \<and> t < b \<longrightarrow> trace G' u r t (sr_vertices G ! (?s + nat ((int j * b + t) div a)), p, (int j * b + t) mod a))" if j: "j < ?m" for j
  proof -
    have "fed G' (stream_of ?S) (?K ! j) (0 + starts ?K j) (0 + starts ?K (Suc j))" using l(5) j linkers_simps(2) unfolding each_nth by metis
    then obtain f u r where f: "prt Sink G' (sr_vertices G ! (?k + j)) q = Some f" "rate_of G' f = b" "tgt Source G' f = Some (u, r)"
      "\<And>t. int j * b \<le> t \<Longrightarrow> t < int j * b + b \<Longrightarrow> trace G' u r (t - int j * b) (stream_of ?S t)"
      using j nm linkers_nth [OF j nm(6), of G ?k b] linkers_simps(1) [OF nth_mem, of j G ?k ?m b q] linkers_simps(2) [of G ?k ?m b q]
        linkers_starts [of j ?m G ?k b q] linkers_starts [of "Suc j" ?m G ?k b q] by (auto simp: fed_def algebra_simps)
    have "trace G' u r t (sr_vertices G ! (?s + nat ((int j * b + t) div a)), p, (int j * b + t) mod a)" if t: "0 \<le> t" "t < b" for t
    proof -
      have "(int j + 1) * b \<le> int ?m * b" using j pe by (intro mult_right_mono) simp_all
      then have "int j * b + b \<le> int ?n * a" using bal(1) by (simp add: algebra_simps)
      moreover have "0 \<le> int j * b" using pe by simp
      ultimately show ?thesis using f(4) [of "int j * b + t"] t linkers_stream [of a "int j * b + t" ?n p G ?s] nm(5) pe by simp
    qed
    with f(1-3) show ?thesis by blast
  qed
  have "\<exists>f. prt Source G' (sr_vertices G ! (?s + i)) p = Some f \<and> rate_of G' f = a" if i: "i < ?n" for i
  proof -
    have "?S ! i \<in> set ?S" using i linkers_simps(2) by (metis nth_mem)
    with l(6) linkers_simps(1) [OF this] linkers_nth [OF i nm(5), of G ?s a] show ?thesis by (auto simp: drained_def)
  qed
  with run l(3,4) sink show ?thesis by blast
qed

lemma vertices_exist:
  "\<exists>G. sr_ok G \<and> sr_vertices G = [0..<k] \<and> nV G = k \<and> (\<forall>v < k. \<forall>sd. nP sd G v = 1 \<and> prt sd G v 0 = None \<and> \<not> forks G v \<and> \<not> joins G v)"
proof (induction k)
  case 0
  have "sr_ok srdag_new" by (simp add: sr_ok_def srdag_new_def store_ok_def index_ok_def links_ok_def)
  then show ?case by (intro exI [of _ srdag_new]) (simp add: srdag_new_def sr_vertices_def)
next
  case (Suc k)
  then obtain G where G: "sr_ok G" "sr_vertices G = [0..<k]" "nV G = k"
    "\<And>v sd. v < k \<Longrightarrow> nP sd G v = 1 \<and> prt sd G v 0 = None \<and> \<not> forks G v \<and> \<not> joins G v" by blast
  have c: "checkTypeConsistency NORMAL 0 0 = Inr ()" by (simp add: checkTypeConsistency_def)
  show ?case
  proof (rule createSpecial_extends [OF G(1) c, of 1 1])
    fix G' assume G': "sr_ok G'" "sr_extends G G'" "nV G' = Suc (nV G)" "fills G G' {} {}" "nP Sink G' (nV G) = 1" "nP Source G' (nV G) = 1"
      "\<And>sd p. prt sd G' (nV G) p = None" "sv_type (sg_vs G' ! nV G) = NORMAL" "sr_vertices G' = sr_vertices G @ [nV G]"
    have old: "nP sd G' v = 1 \<and> prt sd G' v 0 = None \<and> \<not> forks G' v \<and> \<not> joins G' v" if "v < k" for v sd
      using G(3,4) that G'(4) extendsD(4) [OF G'(2)] forks_mono [OF G'(2)] by (cases sd) (simp_all add: fills_def)
    have new: "nP sd G' k = 1 \<and> prt sd G' k 0 = None \<and> \<not> forks G' k \<and> \<not> joins G' k" for sd
      using G' G(3) by (cases sd) (simp_all add: forks_def joins_def)
    show ?thesis using G' G(2,3) old new by (intro exI [of _ G']) (auto simp: less_Suc_eq)
  qed simp
qed

definition demo_ctx :: "unit job_ctx" where
  "demo_ctx = \<lparr>jc_graph = \<lparr>g_vertices = [\<lparr>v_type = NORMAL, v_in = [], v_out = [Some 0]\<rparr>, \<lparr>v_type = NORMAL, v_in = [Some 0], v_out = []\<rparr>],
       g_edges = [\<lparr>e_source = Actor 0, e_source_port = 0, e_sink = Actor 1, e_sink_port = 0\<rparr>], g_in_ifs = [], g_out_ifs = [],
       g_delays = [None], g_delayEdge = [], g_subgraph = [], g_self = 0, rg_delayVertex = [0], rg_inParams = [], rg_refParams = [],
       rg_outParams = [], rg_executable = [], rg_configs = [], rg_subgraphs = [], rg_params = [], rg_dynamic = False, rg_srcExpr = [],
       rg_snkExpr = [], rg_contained = False\<rparr>,
     jc_rv = [1, 2], jc_rates = [(2, 1)], jc_instance = None, jc_clones = [0, 1]\<rparr>"

text \<open>One firing writes two tokens, each read by one firing: the second reader gets the second token, through a fork.\<close>

lemma single_rate_edge_flow_witness:
  "\<exists>G G' f u r. singleRateLinkage demo_ctx G 0 = Inr G' \<and> prt Sink G' 2 0 = Some f \<and> rate_of G' f = 1 \<and> tgt Source G' f = Some (u, r) \<and>
     trace G' u r 0 (0, 0, 1)"
proof -
  obtain G where G: "sr_ok G" "sr_vertices G = [0..<3]" "\<And>v sd. v < 3 \<Longrightarrow> nP sd G v = 1 \<and> prt sd G v 0 = None \<and> \<not> forks G v \<and> \<not> joins G v"
    using vertices_exist [of 3] by blast
  have e: "plain_edge demo_ctx 0 0 0 1 0 2 1" by (simp add: plain_edge_def demo_ctx_def)
  have s: "clones_ready Source G (jc_clones demo_ctx ! 0) (jc_rv demo_ctx ! 0) 0"
    using G by (simp add: clones_ready_def demo_ctx_def Let_def)
  have k: "clones_ready Sink G (jc_clones demo_ctx ! 1) (jc_rv demo_ctx ! 1) 0"
    using G by (simp add: clones_ready_def demo_ctx_def Let_def)
  have b: "int (jc_rv demo_ctx ! 0) * 2 = int (jc_rv demo_ctx ! 1) * 1" "int (jc_rv demo_ctx ! 1) * 1 < 2 ^ 63"
    by (simp_all add: demo_ctx_def)
  have c: "1 < jc_rv demo_ctx ! 1" "jc_clones demo_ctx ! 1 = 1" "jc_clones demo_ctx ! 0 = 0" by (simp_all add: demo_ctx_def)
  obtain G' h u r where "singleRateLinkage demo_ctx G 0 = Inr G'"
    "prt Sink G' (sr_vertices G ! (jc_clones demo_ctx ! 1 + 1)) 0 = Some h" "rate_of G' h = 1" "tgt Source G' h = Some (u, r)"
    "\<forall>t. 0 \<le> t \<and> t < 1 \<longrightarrow> trace G' u r t (sr_vertices G ! (jc_clones demo_ctx ! 0 + nat ((int 1 * 1 + t) div 2)), 0, (int 1 * 1 + t) mod 2)"
    using single_rate_edge_flow [OF G(1) e s k b] c(1) by meson
  moreover from this(5) [rule_format, of 0] have "trace G' u r 0 (0, 0, 1)" using c G(2) by simp
  ultimately show ?thesis using c(2) G(2)
    by (rule_tac x = G in exI, rule_tac x = G' in exI, rule_tac x = h in exI, rule_tac x = u in exI, rule_tac x = r in exI) (simp add: numeral_2_eq_2)
qed

subsection \<open>Delays\<close>

text \<open>
  C25. An edge with a delay of \<open>d\<close> tokens. The linkers of the sources are the setter, of rate \<open>d\<close>, and the firings of the
  source, of rate \<open>a\<close>; those of the sinks are the firings of the sink, of rate \<open>c\<close>, and the getter, of rate \<open>d\<close>. With the
  dependencies that \<open>computeDependencies\<close> gives them the linkage ends without error, and the stream that the sinks then the
  getter read is the \<open>d\<close> tokens of the setter followed by the tokens of the source in order.
\<close>

theorem delayed_linkage_flow:
  assumes ok: "sr_ok G" and d: "0 < d" "tv_rate setter = d" "tv_rate getter = d"
    and src: "\<forall>x \<in> set ss. tv_rate x = a" "0 < a" "ss \<noteq> []" "length ss < 2 ^ 32 - 1"
    and fresh: "\<forall>x \<in> set (setter # ss). tv_lowerDep x = u32_max \<and> tv_upperDep x = 0"
    and snk: "\<forall>x \<in> set ks. tv_rate x = c" "0 < c" "ks \<noteq> []" "length ks < 2 ^ 32 - 1"
    and t: "int (length ss) * a = int (length ks) * c" "int (length ks) * c + d < 2 ^ 63"
    and free: "free_ports Source G (setter # ss)" "free_ports Sink G (ks @ [getter])"
    and act: "\<forall>x \<in> set (setter # ss). \<not> forks G (fst (key x)) \<and> \<not> joins G (fst (key x))"
    and delay: "d_value delay = d"
  shows "\<exists>srcs snks G'. computeDependencies (length ks) (Some delay) (setter # ss) (ks @ [getter]) = Inr (srcs, snks) \<and>
    link_all G srcs snks = Inr G' \<and> sr_ok G' \<and> sr_extends G G' \<and>
    (\<forall>j \<le> length ks. let x = (ks @ [getter]) ! j in \<exists>e u q. prt Sink G' (fst (key x)) (snd (key x)) = Some e \<and> rate_of G' e = tv_rate x \<and>
       tgt Source G' e = Some (u, q) \<and>
       (\<forall>t. 0 \<le> t \<and> t < tv_rate x \<longrightarrow> (let T = int j * c + t; y = ss ! nat ((T - d) div a) in
          trace G' u q t (if T < d then (fst (key setter), snd (key setter), T) else (fst (key y), snd (key y), (T - d) mod a)))))"
proof -
  let ?A = "[setter] @ ss" let ?B = "ks @ [getter]"
  have tk: "tokens ss = int (length ss) * a" "tokens ks = int (length ks) * c" by (rule tokens_uniform [OF src(1)], rule tokens_uniform [OF snk(1)])
  obtain srcs snks G' where l: "computeDependencies (length ks) (Some delay) ?A ?B = Inr (srcs, snks)" "link_all G srcs snks = Inr G'"
    "sr_ok G'" "sr_extends G G'" "each (fed G' (stream_of ?A)) 0 ?B"
    using linkers_linked [OF ok, of "Some delay" "[setter]" ss a "[getter]" ks c] assms tk by (auto simp: delay_list_def)
  have pos: "positive ss" "positive ?A" using src d by auto
  have stream: "stream_of ?A T = (if T < d then (fst (key setter), snd (key setter), T)
      else (fst (key (ss ! nat ((T - d) div a))), snd (key (ss ! nat ((T - d) div a))), (T - d) mod a))" if T: "0 \<le> T" "T < tokens ?A" for T
  proof (cases "T < d")
    case False
    have i: "int (idx ss (T - d)) = (T - d) div a" using False T d by (intro idx_uniform [OF src(1,2)]) simp_all
    then have i': "idx ss (T - d) = nat ((T - d) div a)" by simp
    have "idx ss (T - d) < length ss" using idx_bounds [OF pos(1), of "T - d"] False T d by simp
    then have "starts ss (idx ss (T - d)) = (T - d) div a * a" using starts_uniform [OF src(1), of "idx ss (T - d)" "[]"] i by simp
    then show ?thesis using False d by (simp add: stream_of_def Let_def i' minus_div_mult_eq_mod [symmetric] algebra_simps)
  qed (use d in \<open>simp add: stream_of_def Let_def\<close>)
  have "let x = ?B ! j in \<exists>e u q. prt Sink G' (fst (key x)) (snd (key x)) = Some e \<and> rate_of G' e = tv_rate x \<and> tgt Source G' e = Some (u, q) \<and>
       (\<forall>t. 0 \<le> t \<and> t < tv_rate x \<longrightarrow> (let T = int j * c + t; y = ss ! nat ((T - d) div a) in
          trace G' u q t (if T < d then (fst (key setter), snd (key setter), T) else (fst (key y), snd (key y), (T - d) mod a))))"
    if j: "j \<le> length ks" for j
  proof -
    let ?x = "?B ! j"
    have pB: "positive ?B" using snk d by auto
    have jB: "j < length ?B" using j by simp
    have st: "starts ?B j = int j * c" by (rule starts_uniform [OF snk(1) j])
    have "fed G' (stream_of ?A) ?x (0 + starts ?B j) (0 + starts ?B (Suc j))" using l(5) jB unfolding each_nth by blast
    then obtain e u q where e: "prt Sink G' (fst (key ?x)) (snd (key ?x)) = Some e" "rate_of G' e = tv_rate ?x" "tgt Source G' e = Some (u, q)"
      "\<And>t. int j * c \<le> t \<Longrightarrow> t < int j * c + tv_rate ?x \<Longrightarrow> trace G' u q (t - int j * c) (stream_of ?A t)"
      unfolding fed_def starts_Suc [OF jB] st by auto
    have "trace G' u q t (if int j * c + t < d then (fst (key setter), snd (key setter), int j * c + t)
      else (fst (key (ss ! nat ((int j * c + t - d) div a))), snd (key (ss ! nat ((int j * c + t - d) div a))), (int j * c + t - d) mod a))"
      if "0 \<le> t" "t < tv_rate ?x" for t
    proof -
      have tr: "trace G' u q t (stream_of ?A (int j * c + t))" "0 \<le> int j * c + t" "int j * c + t < tokens ?A"
        using e(4) [of "int j * c + t"] that starts_bounds [OF pB jB] st starts_Suc [OF jB] tk t(1) d by simp_all
      from tr(1) show ?thesis unfolding stream [OF tr(2,3)] .
    qed
    then show ?thesis unfolding Let_def
      by (rule_tac x = e in exI, rule_tac x = u in exI, rule_tac x = q in exI) (use e(1-3) in \<open>simp split del: if_split\<close>)
  qed
  with l show ?thesis by (intro exI [of _ srcs] exI [of _ snks] exI [of _ G']) simp
qed

text \<open>A delay of one token between two actors of rate 1: the reader gets the token of the setter, the getter the one written.\<close>

lemma delayed_linkage_flow_witness:
  "\<exists>G G' e u q. sr_ok G' \<and> sr_extends G G' \<and> prt Sink G' 2 0 = Some e \<and> tgt Source G' e = Some (u, q) \<and> trace G' u q 0 (0, 0, 0)"
proof -
  obtain G where G: "sr_ok G" "nV G = 4" "\<And>v sd. v < 4 \<Longrightarrow> nP sd G v = 1 \<and> prt sd G v 0 = None \<and> \<not> forks G v \<and> \<not> joins G v"
    using vertices_exist [of 4] by blast
  let ?l = "\<lambda>v. transfo_vertex_new 1 0 (Some v)"
  let ?d = "\<lparr>d_value = 1, d_setter = 0, d_setterPort = 0, d_getter = 0, d_getterPort = 0\<rparr>"
  have k: "key (?l v) = (v, 0)" "tv_rate (?l v) = 1" "tv_lowerDep (?l v) = u32_max" "tv_upperDep (?l v) = 0" "tv_vertex (?l v) = Some v" for v
    by (simp_all add: transfo_vertex_new_def key_def)
  have fs: "free_ports Source G [?l 0, ?l 1]" using G by (simp add: free_ports_def free_port_def k)
  have fk: "free_ports Sink G ([?l 2] @ [?l 3])" using G by (simp add: free_ports_def free_port_def k)
  obtain srcs snks G' where G': "sr_ok G'" "sr_extends G G'" and f: "\<forall>j \<le> length [?l 2]. let x = ([?l 2] @ [?l 3]) ! j in \<exists>e u q. prt Sink G' (fst (key x)) (snd (key x)) = Some e \<and> rate_of G' e = tv_rate x \<and>
       tgt Source G' e = Some (u, q) \<and>
       (\<forall>t. 0 \<le> t \<and> t < tv_rate x \<longrightarrow> (let T = int j * 1 + t; y = [?l 1] ! nat ((T - 1) div 1) in
          trace G' u q t (if T < 1 then (fst (key (?l 0)), snd (key (?l 0)), T) else (fst (key y), snd (key y), (T - 1) mod 1))))"
    using delayed_linkage_flow [of G 1 "?l 0" "?l 3" "[?l 1]" 1 "[?l 2]" 1 ?d] fs fk G by (auto simp: k)
  from f [rule_format, of 0] obtain e u q where "prt Sink G' 2 0 = Some e" "tgt Source G' e = Some (u, q)"
    "\<forall>t. 0 \<le> t \<and> t < 1 \<longrightarrow> trace G' u q t (if t < 1 then (0, 0, t) else (1, 0, (t - 1) mod 1))" by (auto simp: k Let_def)
  then have "prt Sink G' 2 0 = Some e" "tgt Source G' e = Some (u, q)" "trace G' u q 0 (0, 0, 0)" by force+
  with G' show ?thesis by blast
qed

end
