(* ===== verification/MemHeap.thy ===== *)
theory MemHeap
  imports Prelude
begin

text \<open>
  The byte-addressed memory the allocator policies write their headers and free-list nodes into.
  A pointer is a \<open>nat\<close>, the null pointer is 0, a byte is a \<open>nat\<close> below 256, and a 64-bit access is
  eight little-endian byte accesses, so that overlapping accesses behave as they do in the program.
\<close>

type_synonym heap = "nat \<Rightarrow> nat"

fun read_bytes :: "nat \<Rightarrow> heap \<Rightarrow> nat \<Rightarrow> nat" where
  "read_bytes 0 h a = 0"
| "read_bytes (Suc k) h a = h a mod 256 + 256 * read_bytes k h (Suc a)"

fun write_bytes :: "nat \<Rightarrow> heap \<Rightarrow> nat \<Rightarrow> nat \<Rightarrow> heap" where
  "write_bytes 0 h a v = h"
| "write_bytes (Suc k) h a v = write_bytes k (h(a := v mod 256)) (Suc a) (v div 256)"

definition read64 :: "heap \<Rightarrow> nat \<Rightarrow> nat" where
  "read64 h a = read_bytes 8 h a"

definition write64 :: "heap \<Rightarrow> nat \<Rightarrow> nat \<Rightarrow> heap" where
  "write64 h a v = write_bytes 8 h a v"

text \<open>\<open>memcpy\<close>, \<open>memset\<close> on byte ranges: used by the runtime kernels.\<close>

definition memcpy :: "heap \<Rightarrow> nat \<Rightarrow> nat \<Rightarrow> nat \<Rightarrow> heap" where
  "memcpy h dst src n = (\<lambda>x. if dst \<le> x \<and> x < dst + n then h (src + (x - dst)) else h x)"

definition memset :: "heap \<Rightarrow> nat \<Rightarrow> nat \<Rightarrow> nat \<Rightarrow> heap" where
  "memset h dst v n = (\<lambda>x. if dst \<le> x \<and> x < dst + n then v mod 256 else h x)"

definition load :: "heap \<Rightarrow> nat \<Rightarrow> nat \<Rightarrow> nat list" where
  "load h a n = map (\<lambda>i. h (a + i)) [0..<n]"

lemma write_bytes_outside [simp]: "x < a \<or> a + k \<le> x \<Longrightarrow> write_bytes k h a v x = h x"
  by (induction k h a v rule: write_bytes.induct) auto

lemma read_bytes_cong: "(\<And>x. a \<le> x \<Longrightarrow> x < a + k \<Longrightarrow> h x = h' x) \<Longrightarrow> read_bytes k h a = read_bytes k h' a"
  by (induction k h a arbitrary: h' rule: read_bytes.induct) auto

lemma read_write_bytes_same: "read_bytes k (write_bytes k h a v) a = v mod 256 ^ k"
proof (induction k arbitrary: h a v)
  case (Suc k)
  have "write_bytes k (h(a := v mod 256)) (Suc a) (v div 256) a = v mod 256" by simp
  moreover have "read_bytes k (write_bytes k (h(a := v mod 256)) (Suc a) (v div 256)) (Suc a) =
      (v div 256) mod 256 ^ k" by (rule Suc.IH)
  ultimately show ?case by (simp add: mod_mult2_eq [of v 256])
qed simp

lemma read_bytes_bound: "read_bytes k h a < 256 ^ k"
proof (induction k h a rule: read_bytes.induct)
  case (2 k h a)
  have "h a mod 256 < 256" by simp
  with 2 show ?case by simp
qed simp

lemma read64_write64_same: "read64 (write64 h a v) a = v mod 2 ^ 64"
  unfolding read64_def write64_def using read_write_bytes_same [of 8 h a v] by simp

lemma read64_write64_same_small [simp]: "v < 2 ^ 64 \<Longrightarrow> read64 (write64 h a v) a = v"
  by (simp add: read64_write64_same)

lemma read64_write64_other [simp]:
  "b + 8 \<le> a \<or> a + 8 \<le> b \<Longrightarrow> read64 (write64 h a v) b = read64 h b"
  unfolding read64_def write64_def by (rule read_bytes_cong) auto

lemma write64_outside: "x < a \<or> a + 8 \<le> x \<Longrightarrow> write64 h a v x = h x"
  by (simp add: write64_def)

lemma read64_bound: "read64 h a < 2 ^ 64"
  unfolding read64_def using read_bytes_bound [of 8 h a] by simp

lemma read64_cong: "(\<And>x. a \<le> x \<Longrightarrow> x < a + 8 \<Longrightarrow> h x = h' x) \<Longrightarrow> read64 h a = read64 h' a"
  unfolding read64_def by (rule read_bytes_cong) auto

lemma length_load [simp]: "length (load h a n) = n"
  by (simp add: load_def)

lemma load_cong: "(\<And>x. a \<le> x \<Longrightarrow> x < a + n \<Longrightarrow> h x = h' x) \<Longrightarrow> load h a n = load h' a n"
  by (simp add: load_def)

lemma load_memcpy:
  "src + n \<le> dst \<or> dst + n \<le> src \<or> src = dst \<Longrightarrow> load (memcpy h dst src n) dst n = load h src n"
  by (auto simp: load_def memcpy_def)

lemma load_memcpy_other:
  "b + m \<le> dst \<or> dst + n \<le> b \<Longrightarrow> load (memcpy h dst src n) b m = load h b m"
  by (rule load_cong) (auto simp: memcpy_def)

lemma load_append: "load h a (m + n) = load h a m @ load h (a + m) n"
proof -
  have "[0..<m + n] = [0..<m] @ [m..<m + n]" by (rule upt_add_eq_append) simp
  moreover have "[m..<m + n] = map (\<lambda>i. i + m) [0..<n]" by (simp add: map_add_upt add.commute)
  ultimately show ?thesis by (simp add: load_def ac_simps o_def del: upt_conv_Nil)
qed

subsection \<open>Blocks\<close>

text \<open>The bytes of a block, and disjointness of two blocks.\<close>

definition block :: "nat \<Rightarrow> nat \<Rightarrow> nat set" where
  "block a n = {a..<a + n}"

lemma block_split: "n \<le> m \<Longrightarrow> block a m = block a n \<union> block (a + n) (m - n)"
  by (auto simp: block_def)

lemma block_disjoint_iff:
  "0 < n \<Longrightarrow> 0 < m \<Longrightarrow> block a n \<inter> block b m = {} \<longleftrightarrow> a + n \<le> b \<or> b + m \<le> a"
proof
  assume nm: "0 < n" "0 < m" and d: "block a n \<inter> block b m = {}"
  show "a + n \<le> b \<or> b + m \<le> a"
  proof (rule ccontr)
    assume "\<not> ?thesis"
    with nm have "max a b \<in> block a n \<inter> block b m" by (auto simp: block_def max_def)
    with d show False by auto
  qed
qed (auto simp: block_def)

lemma card_block [simp]: "card (block a n) = n"
  by (simp add: block_def)

lemma finite_block [simp]: "finite (block a n)"
  by (simp add: block_def)

end
