(* ===== verification/Kernels.thy ===== *)
theory Kernels
  imports MemHeap PiGraph
begin

text \<open>
  The special kernels of \<open>runtime/special-kernels/specialKernels.cpp\<close>, over the byte heap, and the run-time parameters that
  \<open>graphs-tools/helper/srdag-helper.cpp\<close> builds for them. \<open>paramsIn\<close>, \<open>in\<close> and \<open>out\<close> are arrays of known size: an access
  beyond their end is undefined behaviour.
\<close>

text \<open>\<open>std::memcpy\<close>: undefined when the two ranges overlap.\<close>

definition memcpyE :: "heap \<Rightarrow> nat \<Rightarrow> nat \<Rightarrow> nat \<Rightarrow> heap result" where
  "memcpyE h dst src n =
     (if n = 0 \<or> dst + n \<le> src \<or> src + n \<le> dst then Inr (memcpy h dst src n) else Inl Undefined_Behaviour)"

definition param :: "int list \<Rightarrow> nat \<Rightarrow> int result" where
  "param ps i = get_at ps i"

subsection \<open>fork and join\<close>

definition fork_step :: "int list \<Rightarrow> nat list \<Rightarrow> nat list \<Rightarrow> heap \<times> nat \<Rightarrow> nat \<Rightarrow> (heap \<times> nat) result" where
  "fork_step ps ins outs st i =
     (case st of (h, offset) \<Rightarrow>
       bindE (param ps (i + 2)) (\<lambda>p. bindE (get_at ins 0) (\<lambda>in0.
       let outputSize = to_u64 p; input = add64 in0 offset in
       bindE (if outputSize \<noteq> 0
              then bindE (get_at outs i) (\<lambda>dst. if input \<noteq> dst then memcpyE h dst input outputSize else Inr h)
              else Inr h) (\<lambda>h'. Inr (h', add64 offset outputSize)))))"

definition rt_fork :: "int list \<Rightarrow> nat list \<Rightarrow> nat list \<Rightarrow> heap \<Rightarrow> heap result" where
  "rt_fork ps ins outs h =
     bindE (param ps 0) (\<lambda>inputRate. bindE (param ps 1) (\<lambda>outputCount.
     bindE (foldE (fork_step ps ins outs) (h, 0) [0..<nat outputCount]) (\<lambda>(h', offset).
       if offset \<noteq> to_u64 inputRate then Inl Spider_Exception else Inr h')))"

definition join_step :: "int list \<Rightarrow> nat list \<Rightarrow> nat list \<Rightarrow> heap \<times> nat \<Rightarrow> nat \<Rightarrow> (heap \<times> nat) result" where
  "join_step ps ins outs st i =
     (case st of (h, offset) \<Rightarrow>
       bindE (param ps (i + 2)) (\<lambda>p. bindE (get_at outs 0) (\<lambda>out0. bindE (get_at ins i) (\<lambda>src.
       let inputSize = to_u64 p; output = add64 out0 offset in
       bindE (if output \<noteq> src then memcpyE h output src inputSize else Inr h) (\<lambda>h'. Inr (h', add64 offset inputSize))))))"

definition rt_join :: "int list \<Rightarrow> nat list \<Rightarrow> nat list \<Rightarrow> heap \<Rightarrow> heap result" where
  "rt_join ps ins outs h =
     bindE (param ps 0) (\<lambda>outputRate. bindE (param ps 1) (\<lambda>inputCount.
     bindE (foldE (join_step ps ins outs) (h, 0) [0..<nat inputCount]) (\<lambda>(h', offset).
       if offset \<noteq> to_u64 outputRate then Inl Spider_Exception else Inr h')))"

subsection \<open>head and tail\<close>

text \<open>\<open>head\<close> addresses the output buffer of the current input, \<open>out[i]\<close>.\<close>

definition head_step :: "int list \<Rightarrow> nat list \<Rightarrow> nat list \<Rightarrow> heap \<times> nat \<Rightarrow> nat \<Rightarrow> (heap \<times> nat) result" where
  "head_step ps ins outs st i =
     (case st of (h, offset) \<Rightarrow>
       bindE (param ps (i + 1)) (\<lambda>p. bindE (get_at outs i) (\<lambda>oi. bindE (get_at ins i) (\<lambda>src.
       let inputSize = to_u64 p; output = add64 oi offset in
       bindE (if output \<noteq> src then memcpyE h output src inputSize else Inr h) (\<lambda>h'. Inr (h', add64 offset inputSize))))))"

definition rt_head :: "int list \<Rightarrow> nat list \<Rightarrow> nat list \<Rightarrow> heap \<Rightarrow> heap result" where
  "rt_head ps ins outs h =
     bindE (param ps 0) (\<lambda>inputEnd.
     bindE (foldE (head_step ps ins outs) (h, 0) [0..<nat inputEnd]) (\<lambda>(h', _). Inr h'))"

definition tail_step :: "int list \<Rightarrow> nat list \<Rightarrow> nat list \<Rightarrow> heap \<times> nat \<Rightarrow> nat \<Rightarrow> (heap \<times> nat) result" where
  "tail_step ps ins outs st i =
     (case st of (h, offset) \<Rightarrow>
       bindE (param ps (i + 4)) (\<lambda>p. bindE (get_at outs 0) (\<lambda>out0. bindE (get_at ins i) (\<lambda>src.
       let inputSize = to_u64 p; output = add64 out0 offset in
       bindE (if output \<noteq> src then memcpyE h output src inputSize else Inr h) (\<lambda>h'. Inr (h', add64 offset inputSize))))))"

definition rt_tail :: "int list \<Rightarrow> nat list \<Rightarrow> nat list \<Rightarrow> heap \<Rightarrow> heap result" where
  "rt_tail ps ins outs h =
     bindE (param ps 0) (\<lambda>p0. bindE (param ps 1) (\<lambda>p1. bindE (param ps 2) (\<lambda>p2. bindE (param ps 3) (\<lambda>p3.
     let inputCount = to_u64 p0; inputStart = to_u64 p1; inputOffset = to_u64 p2; sizeFirst = to_u64 p3 in
     bindE (get_at ins inputStart) (\<lambda>src. bindE (get_at outs 0) (\<lambda>out0.
     bindE (memcpyE h out0 (add64 src inputOffset) sizeFirst) (\<lambda>h1.
     bindE (foldE (tail_step ps ins outs) (h1, add64 inputOffset sizeFirst) [inputStart + 1..<inputCount]) (\<lambda>(h', _). Inr h'))))))))"

subsection \<open>repeat and duplicate\<close>

definition repeat_step :: "nat \<Rightarrow> nat \<Rightarrow> nat \<Rightarrow> heap \<Rightarrow> nat \<Rightarrow> heap result" where
  "repeat_step out0 in0 inputSize h i = memcpyE h (add64 out0 (mul64 i inputSize)) in0 inputSize"

definition rt_repeat :: "int list \<Rightarrow> nat list \<Rightarrow> nat list \<Rightarrow> heap \<Rightarrow> heap result" where
  "rt_repeat ps ins outs h =
     bindE (get_at ins 0) (\<lambda>in0. bindE (get_at outs 0) (\<lambda>out0.
       if in0 = out0 then Inr h
       else bindE (param ps 0) (\<lambda>p0. bindE (param ps 1) (\<lambda>p1.
         let inputSize = to_u64 p0; outputSize = to_u64 p1 in
         if outputSize \<le> inputSize then memcpyE h out0 in0 outputSize
         else if inputSize = 0 then Inl Undefined_Behaviour
         else bindE (foldE (repeat_step out0 in0 inputSize) h [0..<outputSize div inputSize]) (\<lambda>h1.
           if outputSize mod inputSize \<noteq> 0
           then memcpyE h1 (add64 out0 (mul64 inputSize (outputSize div inputSize))) in0 (outputSize mod inputSize)
           else Inr h1)))))"

definition duplicate_step :: "nat \<Rightarrow> nat list \<Rightarrow> nat \<Rightarrow> heap \<Rightarrow> nat \<Rightarrow> heap result" where
  "duplicate_step in0 outs inputSize h i =
     bindE (get_at outs i) (\<lambda>dst. if in0 \<noteq> dst then memcpyE h dst in0 inputSize else Inr h)"

definition rt_duplicate :: "int list \<Rightarrow> nat list \<Rightarrow> nat list \<Rightarrow> heap \<Rightarrow> heap result" where
  "rt_duplicate ps ins outs h =
     bindE (param ps 0) (\<lambda>outputCount. bindE (param ps 1) (\<lambda>inputSize. bindE (get_at ins 0) (\<lambda>in0.
       foldE (duplicate_step in0 outs (to_u64 inputSize)) h [0..<nat outputCount])))"

subsection \<open>init, end and the external output\<close>

text \<open>
  \<open>lookup\<close> is \<open>MemoryInterface::read\<close> of the memory of the global runtime, \<open>extern\<close> the buffers registered by the user.
\<close>

definition rt_init :: "(nat \<Rightarrow> nat result) \<Rightarrow> int list \<Rightarrow> nat list \<Rightarrow> heap \<Rightarrow> heap result" where
  "rt_init lookup ps outs h =
     bindE (param ps 0) (\<lambda>persistent. bindE (param ps 1) (\<lambda>n.
       if n = 0 then Inr h
       else if persistent = 0 then bindE (get_at outs 0) (\<lambda>dst. Inr (memset h dst 0 (to_u64 n)))
       else bindE (param ps 2) (\<lambda>address. bindE (lookup (to_u64 address)) (\<lambda>buffer. bindE (get_at outs 0) (\<lambda>dst.
         if dst \<noteq> buffer then memcpyE h dst buffer (to_u64 n) else Inr h)))))"

definition rt_end :: "(nat \<Rightarrow> nat result) \<Rightarrow> int list option \<Rightarrow> nat list \<Rightarrow> heap \<Rightarrow> heap result" where
  "rt_end lookup params ins h =
     (case params of None \<Rightarrow> Inr h
      | Some ps \<Rightarrow> bindE (param ps 0) (\<lambda>persistent.
          if persistent = 0 then Inr h
          else bindE (param ps 1) (\<lambda>n. bindE (param ps 2) (\<lambda>address. bindE (lookup (to_u64 address)) (\<lambda>buffer.
            bindE (get_at ins 0) (\<lambda>src. if src \<noteq> buffer then memcpyE h buffer src (to_u64 n) else Inr h))))))"

definition rt_externOut :: "(nat \<Rightarrow> nat result) \<Rightarrow> int list \<Rightarrow> nat list \<Rightarrow> heap \<Rightarrow> heap result" where
  "rt_externOut extern ps ins h =
     bindE (param ps 0) (\<lambda>ix. bindE (param ps 1) (\<lambda>n. bindE (extern (to_u64 ix)) (\<lambda>buffer. bindE (get_at ins 0) (\<lambda>src.
       if src \<noteq> buffer then memcpyE h buffer src (to_u64 n) else Inr h))))"

subsection \<open>The parameters of the kernels\<close>

text \<open>What the builders read of a single-rate vertex: the rates of its edges, and of its reference its delay.\<close>

record task_rates =
  tr_in :: "int list"            \<comment> \<open>\<open>sinkRateValue\<close> of the input edges\<close>
  tr_out :: "int list"           \<comment> \<open>\<open>sourceRateValue\<close> of the output edges\<close>
  tr_params :: "int list"        \<comment> \<open>values of the refinement parameters\<close>
  tr_delay :: "(bool \<times> int \<times> nat) option"   \<comment> \<open>persistence, value and address of the delay next to an INIT or END actor\<close>
  tr_extern :: nat               \<comment> \<open>index of the external buffer\<close>

definition buildForkParameters :: "task_rates \<Rightarrow> int list result" where
  "buildForkParameters t = bindE (get_at (tr_in t) 0) (\<lambda>r. Inr (r # int (length (tr_out t)) # tr_out t))"

definition buildJoinParameters :: "task_rates \<Rightarrow> int list result" where
  "buildJoinParameters t = bindE (get_at (tr_out t) 0) (\<lambda>r. Inr (r # int (length (tr_in t)) # tr_in t))"

text \<open>The search of \<open>head\<close> and, from the last edge, of \<open>tail\<close>: how many inputs are needed for the output rate, and what
  the last one of them contributes.\<close>

fun inputs_needed :: "int list \<Rightarrow> int \<Rightarrow> nat \<Rightarrow> int \<times> nat" where
  "inputs_needed [] rate n = (rate, n)"
| "inputs_needed (r # rs) rate n = (if rate \<le> r then (rate, n) else inputs_needed rs (rate - r) (n + 1))"

fun head_sizes :: "int list \<Rightarrow> int \<Rightarrow> nat \<Rightarrow> int list result" where
  "head_sizes rs rate 0 = Inr []"
| "head_sizes [] rate (Suc n) = Inl Undefined_Behaviour"
| "head_sizes (r # rs) rate (Suc n) = bindE (head_sizes rs (rate - r) n) (\<lambda>xs. Inr (min r rate # xs))"

definition buildHeadParameters :: "task_rates \<Rightarrow> int list result" where
  "buildHeadParameters t =
     bindE (get_at (tr_out t) 0) (\<lambda>rate.
     let n = snd (inputs_needed (tr_in t) rate 1) in
     bindE (head_sizes (tr_in t) rate n) (\<lambda>sizes. Inr (int n # sizes)))"

text \<open>
  The copy loop of \<open>tail\<close> runs from the last input down to the position \<open>- inputCount\<close> of the array, excluded: it writes
  one entry per input, and \<open>inputCount - 1\<close> more, in an array that has room for \<open>inputCount\<close>.
\<close>

definition buildTailParameters :: "task_rates \<Rightarrow> int list result" where
  "buildTailParameters t =
     bindE (get_at (tr_out t) 0) (\<lambda>rate0.
     let ins = tr_in t; (rate, n) = inputs_needed (rev ins) rate0 1 in
     if ins = [] then Inl Undefined_Behaviour
     else bindE (get_at ins (sub64 (length ins) n)) (\<lambda>first.
       let steps = length ins + n - 1 in
       if steps > n \<or> steps > length ins then Inl Undefined_Behaviour
       else Inr (int (length ins) # int (length ins - n) # (first - rate) # rate # take steps (rev ins))))"

definition buildRepeatParameters :: "task_rates \<Rightarrow> int list result" where
  "buildRepeatParameters t = bindE (get_at (tr_in t) 0) (\<lambda>i. bindE (get_at (tr_out t) 0) (\<lambda>dst. Inr [i, dst]))"

definition buildDuplicateParameters :: "task_rates \<Rightarrow> int list result" where
  "buildDuplicateParameters t = bindE (get_at (tr_in t) 0) (\<lambda>i. Inr [int (length (tr_out t)), i])"

definition buildDelayParameters :: "task_rates \<Rightarrow> int list" where
  "buildDelayParameters t =
     (case tr_delay t of None \<Rightarrow> [0, 0, 0] | Some (persistent, val, address) \<Rightarrow> [of_bool persistent, val, of_u64 address])"

definition buildExternOutParameters :: "task_rates \<Rightarrow> int list result" where
  "buildExternOutParameters t = bindE (get_at (tr_in t) 0) (\<lambda>i. Inr [of_u64 (tr_extern t), i])"

definition buildDefaultParameters :: "task_rates \<Rightarrow> int list" where
  "buildDefaultParameters t = tr_params t"

definition buildVertexRuntimeInputParameters :: "vertex_type \<Rightarrow> task_rates \<Rightarrow> int list result" where
  "buildVertexRuntimeInputParameters kind t =
     (case kind of
        FORK \<Rightarrow> buildForkParameters t
      | JOIN \<Rightarrow> buildJoinParameters t
      | TAIL \<Rightarrow> buildTailParameters t
      | HEAD \<Rightarrow> buildHeadParameters t
      | REPEAT \<Rightarrow> buildRepeatParameters t
      | DUPLICATE \<Rightarrow> buildDuplicateParameters t
      | INIT \<Rightarrow> Inr (buildDelayParameters t)
      | END_VERTEX \<Rightarrow> Inr (buildDelayParameters t)
      | EXTERN_OUT \<Rightarrow> buildExternOutParameters t
      | _ \<Rightarrow> Inr (buildDefaultParameters t))"

end
