(* ===== verification/MemoryInterface.thy ===== *)
theory MemoryInterface
  imports MemHeap "HOL-Library.AList"
begin

text \<open>
  \<open>archi/MemoryInterface.cpp\<close>: the reference-counted buffers of a cluster, a map from virtual addresses to physical
  buffers. \<open>debug\<close> is the build without \<open>NDEBUG\<close>; \<open>phys\<close> is what the allocation routine returns.
\<close>

definition in_i32 :: "int \<Rightarrow> bool" where
  "in_i32 x \<longleftrightarrow> - (2 ^ 31) \<le> x \<and> x < 2 ^ 31"

definition i32 :: "int \<Rightarrow> int result" where
  "i32 x = (if in_i32 x then Inr x else Inl Undefined_Behaviour)"

record buffer =
  bf_ptr :: nat
  bf_size :: nat
  bf_count :: int

record memory_interface =
  mi_map :: "(nat \<times> buffer) list"
  mi_size :: nat
  mi_used :: nat

definition memory_interface_new :: "nat \<Rightarrow> memory_interface" where
  "memory_interface_new n = \<lparr>mi_map = [], mi_size = n, mi_used = 0\<rparr>"

definition mi_available :: "memory_interface \<Rightarrow> nat" where
  "mi_available mi = sub64 (mi_size mi) (mi_used mi)"

text \<open>Without the debug checks, an unknown address is given an empty buffer.\<close>

definition retrieveBuffer :: "bool \<Rightarrow> memory_interface \<Rightarrow> nat \<Rightarrow> buffer result" where
  "retrieveBuffer debug mi a =
     (case map_of (mi_map mi) a of
        Some b \<Rightarrow> Inr b
      | None \<Rightarrow> if debug then Inl Out_Of_Range else Inr \<lparr>bf_ptr = 0, bf_size = 0, bf_count = 0\<rparr>)"

definition registerPhysicalAddress :: "memory_interface \<Rightarrow> nat \<Rightarrow> buffer \<Rightarrow> memory_interface" where
  "registerPhysicalAddress mi a b = mi\<lparr>mi_map := AList.update a b (mi_map mi)\<rparr>"

definition mi_read :: "bool \<Rightarrow> memory_interface \<Rightarrow> nat \<Rightarrow> int \<Rightarrow> (nat \<times> memory_interface) result" where
  "mi_read debug mi a count =
     bindE (retrieveBuffer debug mi a) (\<lambda>b. bindE (i32 (bf_count b + count)) (\<lambda>c.
       Inr (bf_ptr b, registerPhysicalAddress mi a (b\<lparr>bf_count := c\<rparr>))))"

definition mi_update :: "bool \<Rightarrow> memory_interface \<Rightarrow> nat \<Rightarrow> int \<Rightarrow> memory_interface result" where
  "mi_update debug mi a count =
     bindE (retrieveBuffer debug mi a) (\<lambda>b. bindE (i32 (bf_count b + count)) (\<lambda>c.
       Inr (registerPhysicalAddress mi a (b\<lparr>bf_count := c\<rparr>))))"

definition mi_allocate :: "memory_interface \<Rightarrow> nat \<Rightarrow> nat \<Rightarrow> int \<Rightarrow> nat \<Rightarrow> (nat \<times> memory_interface) result" where
  "mi_allocate mi a n count phys =
     (if n = 0 then Inr (0, mi)
      else
        let mi1 = (if n \<le> mi_available mi then mi\<lparr>mi_used := add64 (mi_used mi) n\<rparr> else mi);
            res = (if n \<le> mi_available mi then n else u64_max)
        in if res \<noteq> n then Inl Spider_Exception
           else if phys = 0 then Inr (0, mi1)
           else Inr (phys, registerPhysicalAddress mi1 a \<lparr>bf_ptr = phys, bf_size = n, bf_count = count\<rparr>))"

definition mi_deallocate :: "bool \<Rightarrow> memory_interface \<Rightarrow> nat \<Rightarrow> nat \<Rightarrow> memory_interface result" where
  "mi_deallocate debug mi a n =
     (if n = 0 then Inr mi
      else bindE (retrieveBuffer debug mi a) (\<lambda>b. bindE (i32 (bf_count b - 1)) (\<lambda>c.
        if debug \<and> bf_size b > mi_used mi then Inl Spider_Exception
        else if debug \<and> c < 0 then Inl Spider_Exception
        else
          let mi1 = registerPhysicalAddress mi a (b\<lparr>bf_count := c\<rparr>)
          in Inr (if c = 0 then mi1\<lparr>mi_used := sub64 (mi_used mi1) (bf_size b)\<rparr> else mi1))))"

definition mi_clear :: "memory_interface \<Rightarrow> memory_interface" where
  "mi_clear mi = mi\<lparr>mi_map := []\<rparr>"

definition mi_collect :: "memory_interface \<Rightarrow> memory_interface" where
  "mi_collect mi =
     mi\<lparr>mi_map := List.map (\<lambda>(a, b). (a, if bf_count b < 0 then b\<lparr>bf_count := 0, bf_ptr := 0\<rparr> else b)) (mi_map mi),
        mi_used := foldl (\<lambda>u (a, b). if bf_count b < 0 then sub64 u (bf_size b) else u) (mi_used mi) (mi_map mi)\<rparr>"

subsection \<open>Accounting\<close>

text \<open>The bytes of the buffers somebody still counts on.\<close>

definition live_bytes :: "memory_interface \<Rightarrow> nat" where
  "live_bytes mi = sum_list (List.map (\<lambda>(a, b). if 0 < bf_count b then bf_size b else 0) (mi_map mi))"

definition mi_ok :: "memory_interface \<Rightarrow> bool" where
  "mi_ok mi \<longleftrightarrow> distinct (List.map fst (mi_map mi)) \<and> mi_size mi < 2 ^ 64 \<and> mi_used mi \<le> mi_size mi \<and>
     mi_used mi = live_bytes mi \<and> (\<forall>(a, b) \<in> set (mi_map mi). 0 \<le> bf_count b)"

definition cost :: "buffer \<Rightarrow> nat" where
  "cost b = (if 0 < bf_count b then bf_size b else 0)"

lemma live_bytes_alt: "live_bytes mi = sum_list (List.map (cost \<circ> snd) (mi_map mi))"
  by (simp add: live_bytes_def cost_def case_prod_unfold comp_def)

lemma sum_list_AList_update:
  "distinct (List.map fst xs) \<Longrightarrow>
   sum_list (List.map (cost \<circ> snd) (AList.update a b xs)) + (case map_of xs a of None \<Rightarrow> 0 | Some b' \<Rightarrow> cost b') =
   sum_list (List.map (cost \<circ> snd) xs) + cost b"
proof (induction xs)
  case (Cons x xs)
  obtain k v where x: "x = (k, v)" by (cases x)
  show ?case
  proof (cases "k = a")
    case True
    then show ?thesis using x by simp
  next
    case False
    with Cons show ?thesis by (simp add: x)
  qed
qed simp

lemma live_register:
  assumes "distinct (List.map fst (mi_map mi))"
  shows "live_bytes (registerPhysicalAddress mi a b) + (case map_of (mi_map mi) a of None \<Rightarrow> 0 | Some b' \<Rightarrow> cost b') = live_bytes mi + cost b"
  using sum_list_AList_update [OF assms, of a b] by (simp add: live_bytes_alt registerPhysicalAddress_def)

lemma set_AList_update: "set (AList.update a b xs) \<subseteq> insert (a, b) (set xs)"
  by (induction xs) auto

lemma counts_register:
  assumes "\<forall>(a, b) \<in> set (mi_map mi). 0 \<le> bf_count b" "0 \<le> bf_count b"
  shows "\<forall>(a, b) \<in> set (mi_map (registerPhysicalAddress mi a b)). 0 \<le> bf_count b"
proof
  fix p assume "p \<in> set (mi_map (registerPhysicalAddress mi a b))"
  then have "p = (a, b) \<or> p \<in> set (mi_map mi)" using set_AList_update [of a b "mi_map mi"] by (auto simp: registerPhysicalAddress_def)
  with assms show "case p of (a, b) \<Rightarrow> 0 \<le> bf_count b" by auto
qed

lemma register_simps [simp]:
  "mi_used (registerPhysicalAddress mi a b) = mi_used mi" "mi_size (registerPhysicalAddress mi a b) = mi_size mi"
  "map_of (mi_map (registerPhysicalAddress mi a b)) = (map_of (mi_map mi))(a \<mapsto> b)"
  "distinct (List.map fst (mi_map mi)) \<Longrightarrow> distinct (List.map fst (mi_map (registerPhysicalAddress mi a b)))"
  by (simp_all add: registerPhysicalAddress_def update_conv' distinct_update)

text \<open>Allocation on an address nobody counts on, and deallocation of a buffer somebody counts on.\<close>

lemma mi_allocate_ok:
  assumes ok: "mi_ok mi" and n: "0 < n" "n < u64_max" "0 < count" "phys \<noteq> 0"
    and dead: "\<forall>b. map_of (mi_map mi) a = Some b \<longrightarrow> bf_count b = 0"
  shows "if n \<le> mi_size mi - mi_used mi
    then \<exists>mi'. mi_allocate mi a n count phys = Inr (phys, mi') \<and> mi_ok mi' \<and> mi_used mi' = mi_used mi + n \<and> mi_size mi' = mi_size mi \<and>
           map_of (mi_map mi') = (map_of (mi_map mi))(a \<mapsto> \<lparr>bf_ptr = phys, bf_size = n, bf_count = count\<rparr>)
    else mi_allocate mi a n count phys = Inl Spider_Exception"
proof -
  have k: "distinct (List.map fst (mi_map mi))" "mi_size mi < 2 ^ 64" "mi_used mi \<le> mi_size mi" "mi_used mi = live_bytes mi"
    "\<forall>(a, b) \<in> set (mi_map mi). 0 \<le> bf_count b" using ok by (auto simp: mi_ok_def)
  have av: "mi_available mi = mi_size mi - mi_used mi" using k by (simp add: mi_available_def sub64_exact)
  show ?thesis
  proof (cases "n \<le> mi_size mi - mi_used mi")
    case True
    let ?b = "\<lparr>bf_ptr = phys, bf_size = n, bf_count = count\<rparr>"
    let ?mi1 = "mi\<lparr>mi_used := mi_used mi + n\<rparr>" let ?mi' = "registerPhysicalAddress ?mi1 a ?b"
    have le: "mi_used mi + n \<le> mi_size mi" using True k(3) by linarith
    then have "add64 (mi_used mi) n = mi_used mi + n" using k(2) by (intro add64_exact) linarith
    with True n av have run: "mi_allocate mi a n count phys = Inr (phys, ?mi')"
      by (simp add: mi_allocate_def Let_def)
    have "(case map_of (mi_map mi) a of None \<Rightarrow> 0 | Some b' \<Rightarrow> cost b') = 0"
      using dead by (auto simp: cost_def split: option.split)
    then have "live_bytes ?mi' = live_bytes mi + n"
      using live_register [of ?mi1 a ?b] k(1) n by (simp add: cost_def live_bytes_alt)
    then have "mi_ok ?mi'" unfolding mi_ok_def using k le counts_register [of ?mi1 ?b a] n(3) by simp
    with run True show ?thesis by simp
  next
    case False
    with av n show ?thesis by (simp add: mi_allocate_def Let_def)
  qed
qed

lemma mi_deallocate_ok:
  assumes ok: "mi_ok mi" and b: "map_of (mi_map mi) a = Some b" "0 < bf_count b" "in_i32 (bf_count b)" and n: "0 < n"
  shows "\<exists>mi'. mi_deallocate debug mi a n = Inr mi' \<and> mi_ok mi' \<and> mi_size mi' = mi_size mi \<and>
     mi_used mi' = mi_used mi - (if bf_count b = 1 then bf_size b else 0) \<and>
     map_of (mi_map mi') = (map_of (mi_map mi))(a \<mapsto> b\<lparr>bf_count := bf_count b - 1\<rparr>)"
proof -
  have k: "distinct (List.map fst (mi_map mi))" "mi_size mi < 2 ^ 64" "mi_used mi \<le> mi_size mi" "mi_used mi = live_bytes mi"
    "\<forall>(a, b) \<in> set (mi_map mi). 0 \<le> bf_count b" using ok by (auto simp: mi_ok_def)
  let ?b = "b\<lparr>bf_count := bf_count b - 1\<rparr>" let ?mi1 = "registerPhysicalAddress mi a ?b"
  let ?d = "if bf_count b = 1 then bf_size b else 0" let ?mi' = "?mi1\<lparr>mi_used := mi_used mi - ?d\<rparr>"
  have l: "live_bytes ?mi1 + bf_size b = live_bytes mi + cost ?b"
    using live_register [OF k(1), of a ?b] b(1,2) by (simp add: cost_def)
  have le: "bf_size b \<le> mi_used mi"
    using live_register [OF k(1), of a "b\<lparr>bf_count := 0\<rparr>"] b(1,2) k(4) by (simp add: cost_def)
  have i: "i32 (bf_count b - 1) = Inr (bf_count b - 1)" using b(2,3) by (simp add: i32_def in_i32_def)
  have "sub64 (mi_used mi) (bf_size b) = mi_used mi - bf_size b" using le k by (intro sub64_exact) linarith+
  then have run: "mi_deallocate debug mi a n = Inr ?mi'"
    using b i le n by (simp add: mi_deallocate_def retrieveBuffer_def Let_def registerPhysicalAddress_def)
  have "live_bytes ?mi1 = mi_used mi - ?d"
  proof (cases "bf_count b = 1")
    case True
    then have "cost ?b = 0" by (simp add: cost_def)
    with l k(4) have "live_bytes ?mi1 = mi_used mi - bf_size b" by linarith
    with True show ?thesis by (simp only: if_True refl)
  next
    case False
    with b(2) have "cost ?b = bf_size b" by (simp add: cost_def)
    with l k(4) have "live_bytes ?mi1 = mi_used mi" by linarith
    with False show ?thesis by (simp only: if_False diff_zero)
  qed
  then have "live_bytes ?mi' = mi_used mi - ?d" by (simp add: live_bytes_alt)
  then have "mi_ok ?mi'"
    unfolding mi_ok_def using k counts_register [OF k(5), of ?b a] b(2) by simp
  with run show ?thesis by (intro exI [of _ ?mi']) simp
qed

end
