(* ===== verification/RuntimeFifo.thy ===== *)
theory RuntimeFifo
  imports Kernels MemoryInterface
begin

text \<open>
  \<open>runtime/common/Fifo.cpp\<close>: before a job runs, the descriptors of its FIFOs are turned into buffers, by tables of
  functions indexed by their attribute. An iterator over the descriptors is the list of those still to be read; the
  recursion of \<open>readMergedBuffer\<close> and \<open>readRepeatBuffer\<close> through the table is bounded by fuel, and one more than the number
  of descriptors is always enough since every call consumes one.
\<close>

datatype fifo_attribute = RW_ONLY | RW_OWN | RW_EXT | R_MERGE | R_REPEAT | W_SINK | RW_AUTO | DUMMY

record fifo =
  ff_address :: nat
  ff_size :: nat
  ff_offset :: nat
  ff_count :: int
  ff_attribute :: fifo_attribute

definition fifo_default :: fifo where
  "fifo_default = \<lparr>ff_address = size_max, ff_size = 0, ff_offset = 0, ff_count = 0, ff_attribute = RW_OWN\<rparr>"

text \<open>The memory a job sees; \<open>fe_phys\<close> are the addresses the allocation routine will return.\<close>

record fifo_env =
  fe_mi :: memory_interface
  fe_heap :: heap
  fe_phys :: "nat list"

record fifo_ctx =
  fc_debug :: bool
  fc_extern :: "nat \<Rightarrow> nat result"   \<comment> \<open>\<open>Platform::getExternalBuffer\<close>\<close>

definition fifo_allocate :: "fifo \<Rightarrow> fifo_env \<Rightarrow> (nat \<times> fifo_env) result" where
  "fifo_allocate f e =
     (let phys = (case fe_phys e of [] \<Rightarrow> 0 | p # _ \<Rightarrow> p) in
      bindE (mi_allocate (fe_mi e) (ff_address f) (ff_size f) (ff_count f) phys) (\<lambda>(p, mi).
        Inr (p, e\<lparr>fe_mi := mi, fe_phys := (if ff_size f = 0 then fe_phys e else tl (fe_phys e))\<rparr>)))"

definition copy :: "nat \<Rightarrow> nat \<Rightarrow> nat \<Rightarrow> fifo_env \<Rightarrow> fifo_env result" where
  "copy dst src n e =
     (if n \<noteq> 0 \<and> (dst = 0 \<or> src = 0) then Inl Null_Deref
      else bindE (memcpyE (fe_heap e) dst src n) (\<lambda>h. Inr (e\<lparr>fe_heap := h\<rparr>)))"

type_synonym reader = "fifo list \<Rightarrow> fifo_env \<Rightarrow> (nat \<times> fifo list \<times> fifo_env) result"

definition readDummy :: reader where
  "readDummy fs e = (case fs of [] \<Rightarrow> Inl Undefined_Behaviour | f # rest \<Rightarrow> Inr (0, rest, e))"

definition readExternBuffer :: "fifo_ctx \<Rightarrow> reader" where
  "readExternBuffer c fs e =
     (case fs of [] \<Rightarrow> Inl Undefined_Behaviour
      | f # rest \<Rightarrow> if ff_size f = 0 then Inr (0, rest, e)
          else bindE (fc_extern c (ff_address f)) (\<lambda>p. Inr (add64 p (ff_offset f), rest, e)))"

definition readBuffer :: "fifo_ctx \<Rightarrow> reader" where
  "readBuffer c fs e =
     (case fs of [] \<Rightarrow> Inl Undefined_Behaviour
      | f # rest \<Rightarrow> if ff_size f = 0 then Inr (0, rest, e)
          else bindE (mi_read (fc_debug c) (fe_mi e) (ff_address f) (ff_count f)) (\<lambda>(p, mi).
                 Inr (add64 p (ff_offset f), rest, e\<lparr>fe_mi := mi\<rparr>)))"

text \<open>The loop of \<open>readMergedBuffer\<close>: it ends when exactly \<open>offset_\<close> descriptors have been passed; \<open>todo\<close> is the distance to
  \<open>lastIt\<close>. A part that is itself a merge or a repetition may jump over \<open>lastIt\<close>: the distance becomes negative and the loop runs
  on, up to a read behind the last descriptor.\<close>

fun merge_loop :: "nat \<Rightarrow> reader \<Rightarrow> int \<Rightarrow> nat \<Rightarrow> fifo list \<Rightarrow> fifo_env \<Rightarrow> (fifo list \<times> fifo_env) result" where
  "merge_loop 0 rd todo dst fs e = Inl Diverges"
| "merge_loop (Suc k) rd todo dst fs e =
     (if todo = 0 then Inr (fs, e)
      else case fs of [] \<Rightarrow> Inl Undefined_Behaviour
        | f # _ \<Rightarrow> bindE (rd fs e) (\<lambda>(buffer, rest, e1). bindE (copy dst buffer (ff_size f) e1) (\<lambda>e2.
            merge_loop k rd (todo - int (length fs - length rest)) (add64 dst (ff_size f)) rest e2)))"

fun read_fifo :: "nat \<Rightarrow> fifo_ctx \<Rightarrow> reader" where
  "read_fifo 0 c fs e = Inl Diverges"
| "read_fifo (Suc k) c fs e =
     (case fs of [] \<Rightarrow> Inl Undefined_Behaviour
      | f # rest \<Rightarrow>
         (case ff_attribute f of
            RW_ONLY \<Rightarrow> readBuffer c fs e
          | RW_OWN \<Rightarrow> readBuffer c fs e
          | RW_EXT \<Rightarrow> readExternBuffer c fs e
          | R_MERGE \<Rightarrow>
              bindE (fifo_allocate f e) (\<lambda>(merged, e1).
              if fc_debug c \<and> merged = 0 then Inl Spider_Exception
              else bindE (merge_loop k (read_fifo k c) (int (ff_offset f)) merged rest e1) (\<lambda>(rest2, e2). Inr (merged, rest2, e2)))
          | R_REPEAT \<Rightarrow>
              bindE (fifo_allocate f e) (\<lambda>(out, e1).
              if fc_debug c \<and> out = 0 then Inl Spider_Exception
              else (case rest of [] \<Rightarrow> Inl Undefined_Behaviour
                | g # _ \<Rightarrow> bindE (read_fifo k c rest e1) (\<lambda>(input, rest2, e2).
                    bindE (if input = 0 then Inr e2
                           else if ff_size f \<le> ff_size g then copy out input (ff_size f) e2
                           else if ff_size g = 0 then Inl Undefined_Behaviour
                           else bindE (foldE (\<lambda>e i. copy (add64 out (mul64 i (ff_size g))) input (ff_size g) e) e2 [0..<ff_size f div ff_size g]) (\<lambda>e3.
                                if ff_size f mod ff_size g \<noteq> 0
                                then copy (add64 out (mul64 (ff_size f div ff_size g) (ff_size g))) input (ff_size f mod ff_size g) e3
                                else Inr e3)) (\<lambda>e4. Inr (out, rest2, e4)))))
          | W_SINK \<Rightarrow> readDummy fs e
          | RW_AUTO \<Rightarrow> readBuffer c fs e
          | DUMMY \<Rightarrow> readDummy fs e))"

definition alloc_fifo :: "fifo_ctx \<Rightarrow> reader" where
  "alloc_fifo c fs e =
     (case fs of [] \<Rightarrow> Inl Undefined_Behaviour
      | f # rest \<Rightarrow>
         (case ff_attribute f of
            RW_ONLY \<Rightarrow> readBuffer c fs e
          | RW_EXT \<Rightarrow> readExternBuffer c fs e
          | R_MERGE \<Rightarrow> readDummy fs e
          | R_REPEAT \<Rightarrow> readDummy fs e
          | DUMMY \<Rightarrow> readDummy fs e
          | _ \<Rightarrow> bindE (fifo_allocate f e) (\<lambda>(p, e1). Inr (p, rest, e1))))"

text \<open>The first loop of \<open>getInputBuffers\<close> counts the buffers.\<close>

fun count_buffers :: "nat \<Rightarrow> fifo list \<Rightarrow> nat \<Rightarrow> nat result" where
  "count_buffers 0 fs n = Inl Diverges"
| "count_buffers (Suc k) [] n = Inr n"
| "count_buffers (Suc k) (f # fs) n =
     (let n' = (if ff_attribute f \<noteq> DUMMY then n + 1 else n) in
      if ff_attribute f = R_MERGE
      then (if ff_offset f \<le> length fs then count_buffers k (drop (ff_offset f) fs) n' else Inl Undefined_Behaviour)
      else count_buffers k fs n')"

fun fill_inputs :: "nat \<Rightarrow> fifo_ctx \<Rightarrow> nat \<Rightarrow> fifo list \<Rightarrow> fifo_env \<Rightarrow> (nat list \<times> fifo_env) result" where
  "fill_inputs k c 0 fs e = Inr ([], e)"
| "fill_inputs 0 c (Suc n) fs e = Inl Diverges"
| "fill_inputs (Suc k) c (Suc n) fs e =
     (case fs of [] \<Rightarrow> Inl Undefined_Behaviour
      | f # rest \<Rightarrow>
          if ff_attribute f = DUMMY then fill_inputs k c (Suc n) rest e
          else bindE (read_fifo (Suc (length fs)) c fs e) (\<lambda>(p, rest2, e1).
               bindE (fill_inputs k c n rest2 e1) (\<lambda>(ps, e2). Inr (p # ps, e2))))"

definition getInputBuffers :: "fifo_ctx \<Rightarrow> fifo list \<Rightarrow> fifo_env \<Rightarrow> (nat list \<times> fifo_env) result" where
  "getInputBuffers c fs e =
     bindE (count_buffers (Suc (length fs)) fs 0) (\<lambda>n. fill_inputs (Suc (length fs)) c n fs e)"

fun fill_outputs :: "fifo_ctx \<Rightarrow> nat \<Rightarrow> fifo list \<Rightarrow> fifo_env \<Rightarrow> (nat list \<times> fifo_env) result" where
  "fill_outputs c 0 fs e = Inr ([], e)"
| "fill_outputs c (Suc n) fs e =
     bindE (alloc_fifo c fs e) (\<lambda>(p, rest, e1). bindE (fill_outputs c n rest e1) (\<lambda>(ps, e2). Inr (p # ps, e2)))"

definition getOutputBuffers :: "fifo_ctx \<Rightarrow> fifo list \<Rightarrow> fifo_env \<Rightarrow> (nat list \<times> fifo_env) result" where
  "getOutputBuffers c fs e = fill_outputs c (length fs) fs e"

end
