(* ===== verification/FifoAlloc.thy ===== *)
theory FifoAlloc
  imports SRFlow RuntimeFifo
begin

text \<open>
  The allocation of the FIFOs of the jobs, \<open>scheduling/memory\<close>: the descriptors of a job (\<open>JobFifos\<close>), the allocator of
  virtual addresses (\<open>FifoAllocator\<close>) and its single-rate version (\<open>SRDAGFifoAllocator\<close>), which keeps the allocation of
  a FIFO in the edge of the graph, so that a fork or a duplicate hands parts of its own input on to its successors.
\<close>

subsection \<open>Descriptors of a job\<close>

text \<open>The two arrays are allocated and not initialised: \<open>None\<close> is a descriptor that was never written.\<close>

record job_fifos =
  jf_inputs :: "fifo option list"
  jf_outputs :: "fifo option list"

definition job_fifos_new :: "nat \<Rightarrow> nat \<Rightarrow> job_fifos" where
  "job_fifos_new nIn nOut = \<lparr>jf_inputs = replicate nIn None, jf_outputs = replicate nOut None\<rparr>"

definition fifo_read :: "bool \<Rightarrow> fifo option list \<Rightarrow> nat \<Rightarrow> fifo result" where
  "fifo_read debug fs ix =
     (if ix < length fs then (case fs ! ix of Some f \<Rightarrow> Inr f | None \<Rightarrow> Inl Undefined_Behaviour)
      else Inl (if debug then Spider_Exception else Undefined_Behaviour))"

definition inputFifo :: "bool \<Rightarrow> job_fifos \<Rightarrow> nat \<Rightarrow> fifo result" where
  "inputFifo debug jf ix = fifo_read debug (jf_inputs jf) ix"
definition outputFifo :: "bool \<Rightarrow> job_fifos \<Rightarrow> nat \<Rightarrow> fifo result" where
  "outputFifo debug jf ix = fifo_read debug (jf_outputs jf) ix"

definition setInputFifo :: "nat \<Rightarrow> fifo \<Rightarrow> job_fifos \<Rightarrow> job_fifos" where
  "setInputFifo ix f jf = (if ix < length (jf_inputs jf) then jf\<lparr>jf_inputs := (jf_inputs jf)[ix := Some f]\<rparr> else jf)"
definition setOutputFifo :: "nat \<Rightarrow> fifo \<Rightarrow> job_fifos \<Rightarrow> job_fifos" where
  "setOutputFifo ix f jf = (if ix < length (jf_outputs jf) then jf\<lparr>jf_outputs := (jf_outputs jf)[ix := Some f]\<rparr> else jf)"

subsection \<open>Virtual addresses\<close>

record fifo_alloc =
  fa_reserved :: nat
  fa_virtual :: nat

definition fifo_alloc_new :: fifo_alloc where "fifo_alloc_new = \<lparr>fa_reserved = 0, fa_virtual = 0\<rparr>"

definition fa_clear :: "fifo_alloc \<Rightarrow> fifo_alloc" where
  "fa_clear a = a\<lparr>fa_virtual := fa_reserved a\<rparr>"

definition fa_allocate :: "nat \<Rightarrow> fifo_alloc \<Rightarrow> nat \<times> fifo_alloc" where
  "fa_allocate n a = (fa_virtual a, a\<lparr>fa_virtual := add64 (fa_virtual a) n\<rparr>)"

text \<open>
  \<open>allocatePersistentDelays\<close>: the memory interface is the one of the cluster of the GRT; \<open>pd_owned\<close> lists the delays that
  \<open>setMemoryInterface\<close> makes owners of their buffer.
\<close>

record 'x delay_state =
  pd_alloc :: fifo_alloc
  pd_env :: fifo_env
  pd_store :: "'x store"
  pd_owned :: "nat list"

definition persistent_delay_step :: "bool \<Rightarrow> 'x delay_state \<Rightarrow> nat \<Rightarrow> 'x delay_state result" where
  "persistent_delay_step logging s e =
     bindE (edge_at (pd_store s) e) (\<lambda>ed. case ed_delay ed of None \<Rightarrow> Inr s
       | Some d \<Rightarrow> bindE (get_at (st_delays (pd_store s)) d) (\<lambda>dl.
           if \<not> de_persistent dl then Inr s
           else
             let a = fa_reserved (pd_alloc s); n = to_u64 (de_value dl); env = pd_env s;
                 phys = (case fe_phys env of [] \<Rightarrow> 0 | p # _ \<Rightarrow> p)
             in bindE (mi_allocate (fe_mi env) a n 1 phys) (\<lambda>(p, mi).
                if n \<noteq> 0 \<and> p = 0 then Inl Null_Deref
                else Inr (s\<lparr>pd_alloc := (pd_alloc s)\<lparr>fa_reserved := add64 a n\<rparr>,
                       pd_env := env\<lparr>fe_mi := mi, fe_heap := memset (fe_heap env) p 0 n,
                                     fe_phys := (if n = 0 then fe_phys env else tl (fe_phys env))\<rparr>,
                       pd_store := (pd_store s)\<lparr>st_delays := (st_delays (pd_store s))[d := delay_setMemoryAddress logging dl a]\<rparr>,
                       pd_owned := pd_owned s @ [d]\<rparr>))))"

definition allocatePersistentDelays :: "bool \<Rightarrow> nat \<Rightarrow> 'x delay_state \<Rightarrow> 'x delay_state result" where
  "allocatePersistentDelays logging g s =
     bindE (graph_at (pd_store s) g) (\<lambda>gr.
     bindE (foldE (persistent_delay_step logging) s (gr_edges gr)) (\<lambda>s'.
       Inr (s'\<lparr>pd_alloc := fa_clear (pd_alloc s')\<rparr>)))"

subsection \<open>FIFOs of a single-rate task\<close>

text \<open>The edges at the ports of a vertex; a port without an edge is dereferenced by the loops over them.\<close>

definition sr_port_edges :: "side \<Rightarrow> srdag \<Rightarrow> nat \<Rightarrow> nat list result" where
  "sr_port_edges sd G v =
     bindE (vertex_at (sg_store G) v) (\<lambda>x. mapE (\<lambda>e. case e of None \<Rightarrow> Inl Null_Deref | Some e \<Rightarrow> Inr e) (ports sd x))"

definition sr_end :: "side \<Rightarrow> srdag \<Rightarrow> nat \<Rightarrow> nat result" where
  "sr_end sd G e =
     bindE (edge_at (sg_store G) e) (\<lambda>x. case end_of sd x of None \<Rightarrow> Inl Null_Deref | Some v \<Rightarrow> Inr v)"

definition sr_type :: "srdag \<Rightarrow> nat \<Rightarrow> vertex_type result" where
  "sr_type G v = bindE (vertex_at (sg_store G) v) (\<lambda>x. Inr (vx_type x))"

definition sr_place :: "nat \<Rightarrow> nat \<Rightarrow> srdag \<Rightarrow> nat \<Rightarrow> srdag result" where
  "sr_place address offset G e = bindE (sr_setAddress G e address) (\<lambda>G'. sr_setOffset G' e offset)"

text \<open>\<open>ext\<close> gives the buffer index of the external interface a vertex refers to.\<close>

definition fifo_fork_step :: "nat \<Rightarrow> srdag \<times> nat \<Rightarrow> nat \<Rightarrow> (srdag \<times> nat) result" where
  "fifo_fork_step inEdge = (\<lambda>(G, offset) e.
     bindE (sr_edge_data G inEdge) (\<lambda>i.
     bindE (sr_place (se_address i) (add32 (se_offset i) offset) G e) (\<lambda>G'.
     bindE (sr_edge_data G' e) (\<lambda>d. Inr (G', add32 offset (to_u32 (se_rate d)))))))"

definition fifo_duplicate_step :: "nat \<Rightarrow> srdag \<Rightarrow> nat \<Rightarrow> srdag result" where
  "fifo_duplicate_step inEdge G e =
     bindE (sr_edge_data G inEdge) (\<lambda>i. sr_place (se_address i) (se_offset i) G e)"

definition fifo_default_step :: "(nat \<Rightarrow> nat) \<Rightarrow> fifo_alloc \<times> srdag \<Rightarrow> nat \<Rightarrow> (fifo_alloc \<times> srdag) result" where
  "fifo_default_step ext = (\<lambda>(a, G) e.
     bindE (sr_end Sink G e) (\<lambda>w. bindE (sr_type G w) (\<lambda>t.
       if t = EXTERN_OUT then bindE (sr_setAddress G e (ext w)) (\<lambda>G'. Inr (a, G'))
       else bindE (sr_edge_data G e) (\<lambda>d.
         let (address, a') = fa_allocate (to_u64 (se_rate d)) a
         in bindE (sr_place address 0 G e) (\<lambda>G'. Inr (a', G'))))))"

definition first_edge :: "side \<Rightarrow> srdag \<Rightarrow> nat \<Rightarrow> nat result" where
  "first_edge sd G v = bindE (sr_edge_at sd G v 0) (\<lambda>e. case e of None \<Rightarrow> Inl Null_Deref | Some e \<Rightarrow> Inr e)"

definition srdag_fifo_allocate :: "(nat \<Rightarrow> nat) \<Rightarrow> nat \<Rightarrow> fifo_alloc \<times> srdag \<Rightarrow> (fifo_alloc \<times> srdag) result" where
  "srdag_fifo_allocate ext v = (\<lambda>(a, G).
     bindE (sr_type G v) (\<lambda>t.
     if t = EXTERN_IN then bindE (first_edge Source G v) (\<lambda>e. bindE (sr_setAddress G e (ext v)) (\<lambda>G'. Inr (a, G')))
     else bindE (sr_port_edges Source G v) (\<lambda>outs.
       if outs = [] then Inr (a, G)
       else if t = FORK then bindE (first_edge Sink G v) (\<lambda>i. bindE (foldE (fifo_fork_step i) (G, 0) outs) (\<lambda>(G', _). Inr (a, G')))
       else if t = DUPLICATE then bindE (first_edge Sink G v) (\<lambda>i. bindE (foldE (fifo_duplicate_step i) G outs) (\<lambda>G'. Inr (a, G')))
       else foldE (fifo_default_step ext) (a, G) outs)))"

definition edge_fifo :: "srdag \<Rightarrow> nat \<Rightarrow> int \<Rightarrow> (vertex_type \<Rightarrow> vertex_type \<Rightarrow> fifo_attribute) \<Rightarrow> fifo result" where
  "edge_fifo G e count attribute =
     bindE (sr_edge_data G e) (\<lambda>d.
     bindE (sr_end Source G e) (\<lambda>u. bindE (sr_type G u) (\<lambda>tu.
     bindE (sr_end Sink G e) (\<lambda>w. bindE (sr_type G w) (\<lambda>tw.
       Inr \<lparr>ff_address = se_address d, ff_size = to_u32 (se_rate d), ff_offset = se_offset d, ff_count = count,
            ff_attribute = attribute tu tw\<rparr>)))))"

definition srdag_buildInputFifo :: "srdag \<Rightarrow> nat \<Rightarrow> fifo result" where
  "srdag_buildInputFifo G e = edge_fifo G e 0 (\<lambda>tu tw. if tu = EXTERN_IN \<or> tw = EXTERN_OUT then RW_EXT else RW_OWN)"

definition srdag_buildOutputFifo :: "srdag \<Rightarrow> nat \<Rightarrow> fifo result" where
  "srdag_buildOutputFifo G e = edge_fifo G e 1 (\<lambda>tu tw.
     if tu = EXTERN_IN \<or> tw = EXTERN_OUT then RW_EXT else if tu = FORK \<or> tu = DUPLICATE then RW_ONLY else RW_OWN)"

definition edge_port :: "side \<Rightarrow> srdag \<Rightarrow> nat \<Rightarrow> nat result" where
  "edge_port sd G e = bindE (edge_at (sg_store G) e) (\<lambda>x. Inr (port_of sd x))"

definition srdag_buildJobFifos :: "(nat \<Rightarrow> nat) \<Rightarrow> nat \<Rightarrow> fifo_alloc \<times> srdag \<Rightarrow> (job_fifos \<times> fifo_alloc \<times> srdag) result" where
  "srdag_buildJobFifos ext v = (\<lambda>(a, G).
     bindE (sr_edge_count Sink G v) (\<lambda>nIn. bindE (sr_edge_count Source G v) (\<lambda>nOut.
     bindE (sr_port_edges Sink G v) (\<lambda>ins.
     bindE (foldE (\<lambda>jf e. bindE (edge_port Sink G e) (\<lambda>ix. bindE (srdag_buildInputFifo G e) (\<lambda>f. Inr (setInputFifo ix f jf))))
       (job_fifos_new nIn nOut) ins) (\<lambda>jf.
     bindE (srdag_fifo_allocate ext v (a, G)) (\<lambda>(a', G').
     bindE (sr_port_edges Source G' v) (\<lambda>outs.
     bindE (foldE (\<lambda>jf e. bindE (edge_port Source G' e) (\<lambda>ix. bindE (srdag_buildOutputFifo G' e) (\<lambda>f. Inr (setOutputFifo ix f jf))))
       jf outs) (\<lambda>jf'. Inr (jf', a', G')))))))))"

end
