(* ===== verification/FifoProps.thy ===== *)
theory FifoProps
  imports FifoAlloc
begin

text \<open>
  What the single-rate FIFO allocator guarantees when the tasks of a graph are launched one after the other: only the output edges
  of the launched vertex change, and only in their place; the edges written by ordinary actors get regions of their own; the
  descriptor a consumer gets is the one its producer got; a fork cuts its input in slices.
\<close>

definition launch_step :: "(nat \<Rightarrow> nat) \<Rightarrow> (nat \<Rightarrow> job_fifos option) \<times> fifo_alloc \<times> srdag \<Rightarrow> nat \<Rightarrow>
    ((nat \<Rightarrow> job_fifos option) \<times> fifo_alloc \<times> srdag) result" where
  "launch_step ext = (\<lambda>(jfs, a, G) v. bindE (srdag_buildJobFifos ext v (a, G)) (\<lambda>(jf, a', G'). Inr (jfs(v \<mapsto> jf), a', G')))"

definition sr_launch :: "(nat \<Rightarrow> nat) \<Rightarrow> nat list \<Rightarrow> fifo_alloc \<times> srdag \<Rightarrow> ((nat \<Rightarrow> job_fifos option) \<times> fifo_alloc \<times> srdag) result" where
  "sr_launch ext vs = (\<lambda>(a, G). foldE (launch_step ext) (Map.empty, a, G) vs)"

definition addr_of :: "srdag \<Rightarrow> nat \<Rightarrow> nat" where "addr_of G e = se_address (sg_es G ! e)"
definition off_of :: "srdag \<Rightarrow> nat \<Rightarrow> nat" where "off_of G e = se_offset (sg_es G ! e)"
definition len_of :: "srdag \<Rightarrow> nat \<Rightarrow> nat" where "len_of G e = to_u64 (rate_of G e)"
definition region :: "srdag \<Rightarrow> nat \<Rightarrow> nat set" where "region G e = {addr_of G e ..< addr_of G e + len_of G e}"

definition end_type :: "side \<Rightarrow> srdag \<Rightarrow> nat \<Rightarrow> vertex_type option" where
  "end_type sd G e = map_option (\<lambda>(v, _). vx_type (st_vertices (sg_store G) ! v)) (tgt sd G e)"

definition owned :: "srdag \<Rightarrow> nat \<Rightarrow> bool" where
  "owned G e \<longleftrightarrow> end_type Sink G e \<noteq> Some EXTERN_OUT \<and>
     end_type Source G e \<noteq> Some FORK \<and> end_type Source G e \<noteq> Some DUPLICATE \<and> end_type Source G e \<noteq> Some EXTERN_IN"

definition outs :: "srdag \<Rightarrow> nat \<Rightarrow> nat set" where "outs G v = {e. \<exists>p. prt Source G v p = Some e}"

subsection \<open>Frames\<close>

text \<open>Only the places of the edges in \<open>E\<close> differ.\<close>

definition frame :: "nat set \<Rightarrow> srdag \<Rightarrow> srdag \<Rightarrow> bool" where
  "frame E G G' \<longleftrightarrow> (\<exists>es. G' = G\<lparr>sg_es := es\<rparr> \<and> length es = length (sg_es G) \<and>
     (\<forall>e. se_rate (es ! e) = se_rate (sg_es G ! e)) \<and> (\<forall>e. e \<notin> E \<longrightarrow> es ! e = sg_es G ! e))"

lemma frame_refl [simp]: "frame E G G" by (auto simp: frame_def intro: exI [of _ "sg_es G"])

lemma frame_trans: "frame E G G' \<Longrightarrow> frame E G' G'' \<Longrightarrow> frame E G G''"
  by (auto simp: frame_def)

lemma frame_mono: "frame E G G' \<Longrightarrow> E \<subseteq> F \<Longrightarrow> frame F G G'" by (auto simp: frame_def)

lemma frame_Un: "frame A G G1 \<Longrightarrow> frame B G1 G2 \<Longrightarrow> frame (A \<union> B) G G2"
  by (meson frame_mono frame_trans Un_upper1 Un_upper2)

lemma frame_Cons: "frame {e} G G1 \<Longrightarrow> frame (set es) G1 G2 \<Longrightarrow> frame (set (e # es)) G G2"
  using frame_Un [of "{e}" G G1 "set es" G2] by simp

lemma frameD:
  assumes "frame E G G'"
  shows "sg_store G' = sg_store G" "sg_vs G' = sg_vs G" "length (sg_es G') = length (sg_es G)" "rate_of G' e = rate_of G e"
    "e \<notin> E \<Longrightarrow> addr_of G' e = addr_of G e" "e \<notin> E \<Longrightarrow> off_of G' e = off_of G e"
    "prt sd G' = prt sd G" "tgt sd G' = tgt sd G" "len_of G' = len_of G" "end_type sd G' = end_type sd G"
    "owned G' = owned G" "outs G' = outs G" "sr_ok G \<Longrightarrow> sr_ok G'"
    "sr_port_edges sd G' = sr_port_edges sd G" "sr_end sd G' = sr_end sd G" "sr_type G' = sr_type G" "edge_port sd G' = edge_port sd G"
    "sr_edge_at sd G' = sr_edge_at sd G"
  using assms by (auto simp: frame_def rate_of_def addr_of_def off_of_def fun_eq_iff prt_def [abs_def] tgt_def [abs_def] len_of_def [abs_def]
    end_type_def [abs_def] owned_def [abs_def] outs_def [abs_def] sr_ok_def sr_port_edges_def [abs_def] sr_end_def [abs_def]
    sr_type_def [abs_def] edge_port_def [abs_def] sr_edge_at_def [abs_def])

lemma frame_region: "frame E G G' \<Longrightarrow> e \<notin> E \<Longrightarrow> region G' e = region G e"
  by (simp add: region_def frameD(5,9))

lemma setAddress_frame:
  "sr_setAddress G e x = Inr G' \<Longrightarrow> e < length (sg_es G) \<and> frame {e} G G' \<and> addr_of G' e = x \<and> off_of G' e = off_of G e"
  by (auto simp: sr_setAddress_def sr_update_edge_def sr_edge_data_def frame_def addr_of_def off_of_def nth_list_update
    bindE_eq_Inr split: if_splits)

lemma place_frame:
  "sr_place x y G e = Inr G' \<Longrightarrow> e < length (sg_es G) \<and> frame {e} G G' \<and> addr_of G' e = x \<and> off_of G' e = y"
  by (auto simp: sr_place_def sr_setOffset_def sr_setAddress_def sr_update_edge_def sr_edge_data_def frame_def addr_of_def off_of_def
    nth_list_update bindE_eq_Inr split: if_splits)

lemma edge_data_eq: "sr_edge_data G e = Inr d \<Longrightarrow> e < length (sg_es G) \<and> se_address d = addr_of G e \<and> se_offset d = off_of G e \<and> se_rate d = rate_of G e"
  by (simp add: sr_edge_data_def addr_of_def off_of_def rate_of_def)

subsection \<open>The loops over the output edges\<close>

lemma port_edges_outs:
  assumes "sr_port_edges Source G v = Inr es" "sr_ok G"
  shows "set es = outs G v" "distinct es" "v < nV G" "length es = nP Source G v" "p < length es \<Longrightarrow> prt Source G v p = Some (es ! p)"
proof -
  from assms(1) have v: "v < nV G" and all: "list_all2 (\<lambda>x e. x = Some e) (vx_out (st_vertices (sg_store G) ! v)) es"
    by (auto simp: sr_port_edges_def vertex_at_def bindE_eq_Inr mapE_Inr_iff elim!: list_all2_mono split: option.splits)
  have out: "vx_out (st_vertices (sg_store G) ! v) = map Some es"
    using all by (induction rule: list_all2_induct) auto
  show 2: "v < nV G" by (rule v)
  show 3: "length es = nP Source G v" by (simp add: n_ports_def out)
  show nth: "prt Source G v p = Some (es ! p)" if "p < length es" for p
    using that v by (simp add: prt_def port_def out 3 [symmetric])
  show "set es = outs G v"
    using nth v by (fastforce simp: outs_def in_set_conv_nth prt_def 3 split: if_splits)
  show "distinct es"
    unfolding distinct_conv_nth
  proof (intro allI impI notI)
    fix p q assume p: "p < length es" and q: "q < length es" and "p \<noteq> q" and eq: "es ! p = es ! q"
    have "tgt Source G (es ! p) = Some (v, p)" "tgt Source G (es ! p) = Some (v, q)"
      using nth [OF p] nth [OF q] prt_tgt [OF assms(2)] eq by metis+
    then show False using \<open>p \<noteq> q\<close> by simp
  qed
qed

lemma fork_fold:
  assumes "foldE (fifo_fork_step i) (G, k) es = Inr (G', k')" "i \<notin> set es" "distinct es"
  shows "frame (set es) G G' \<and> (\<forall>p < length es. addr_of G' (es ! p) = addr_of G i \<and>
    off_of G' (es ! p) = add32 (off_of G i) (foldl add32 k (map (\<lambda>e. to_u32 (rate_of G e)) (take p es))))"
  using assms
proof (induction es arbitrary: G k)
  case (Cons e es)
  from Cons.prems(1) obtain d G1 d1 where d: "sr_edge_data G i = Inr d"
    and pl: "sr_place (se_address d) (add32 (se_offset d) k) G e = Inr G1" and d1: "sr_edge_data G1 e = Inr d1"
    and r: "foldE (fifo_fork_step i) (G1, add32 k (to_u32 (se_rate d1))) es = Inr (G', k')"
    by (auto simp: fifo_fork_step_def bindE_eq_Inr)
  note pf = place_frame [OF pl]
  have rate: "se_rate d1 = rate_of G e" using edge_data_eq [OF d1] frameD(4) [of "{e}" G G1 e] pf by simp
  have ie: "i \<noteq> e" using Cons.prems(2) by auto
  have IH: "frame (set es) G1 G' \<and> (\<forall>p < length es. addr_of G' (es ! p) = addr_of G1 i \<and>
    off_of G' (es ! p) = add32 (off_of G1 i) (foldl add32 (add32 k (to_u32 (se_rate d1))) (map (\<lambda>e. to_u32 (rate_of G1 e)) (take p es))))"
    using Cons.IH [OF r] Cons.prems by simp
  have f1: "frame {e} G G1" using pf by simp
  have fr: "frame (set (e # es)) G G'"
    using frame_Cons [OF f1] IH by blast
  have e: "addr_of G' e = addr_of G i" "off_of G' e = add32 (off_of G i) k"
    using frameD(5,6) [of "set es" G1 G' e] IH Cons.prems(3) pf edge_data_eq [OF d] by auto
  have keep: "addr_of G1 i = addr_of G i" "off_of G1 i = off_of G i" "rate_of G1 = rate_of G"
    using frameD(4-6) [OF f1] ie by auto
  show ?case
  proof (intro conjI fr allI impI)
    fix p assume "p < length (e # es)"
    then show "addr_of G' ((e # es) ! p) = addr_of G i" using e IH keep by (cases p) auto
    show "off_of G' ((e # es) ! p) = add32 (off_of G i) (foldl add32 k (map (\<lambda>e. to_u32 (rate_of G e)) (take p (e # es))))"
      using e IH keep rate \<open>p < length (e # es)\<close> by (cases p) auto
  qed
qed simp

lemma duplicate_fold:
  assumes "foldE (fifo_duplicate_step i) G es = Inr G'" "i \<notin> set es" "distinct es"
  shows "frame (set es) G G' \<and> (\<forall>e \<in> set es. addr_of G' e = addr_of G i \<and> off_of G' e = off_of G i)"
  using assms
proof (induction es arbitrary: G)
  case (Cons e es)
  from Cons.prems(1) obtain G1 where st: "fifo_duplicate_step i G e = Inr G1" and r: "foldE (fifo_duplicate_step i) G1 es = Inr G'"
    by (auto simp: bindE_eq_Inr)
  from st obtain d where d: "sr_edge_data G i = Inr d" and pl: "sr_place (se_address d) (se_offset d) G e = Inr G1"
    by (auto simp: fifo_duplicate_step_def bindE_eq_Inr)
  note pf = place_frame [OF pl]
  have f1: "frame {e} G G1" using pf by simp
  have IH: "frame (set es) G1 G' \<and> (\<forall>e \<in> set es. addr_of G' e = addr_of G1 i \<and> off_of G' e = off_of G1 i)"
    using Cons.IH [OF r] Cons.prems by simp
  have fr: "frame (set (e # es)) G G'"
    using frame_Cons [OF f1] IH by blast
  have "addr_of G' e = addr_of G i \<and> off_of G' e = off_of G i"
    using frameD(5,6) [of "set es" G1 G' e] IH Cons.prems(3) pf edge_data_eq [OF d] by auto
  moreover have "addr_of G1 i = addr_of G i" "off_of G1 i = off_of G i"
    using frameD(5,6) [OF f1] Cons.prems(2) by auto
  ultimately show ?case using fr IH by auto
qed simp

subsection \<open>Regions of their own\<close>

text \<open>The regions of the edges in \<open>S\<close> tile the addresses from \<open>b\<close> on.\<close>

definition tiled :: "nat \<Rightarrow> nat set \<Rightarrow> fifo_alloc \<times> srdag \<Rightarrow> bool" where
  "tiled b S = (\<lambda>(a, G). S \<subseteq> {..<length (sg_es G)} \<and> fa_virtual a = b + sum (len_of G) S \<and>
     (\<forall>e \<in> S. b \<le> addr_of G e \<and> addr_of G e + len_of G e \<le> fa_virtual a \<and> off_of G e = 0) \<and>
     (\<forall>e \<in> S. \<forall>f \<in> S. e \<noteq> f \<longrightarrow> region G e \<inter> region G f = {}))"

lemma tiled_frame:
  assumes "tiled b S (a, G)" "frame E G G'" "S \<inter> E = {}"
  shows "tiled b S (a, G')"
proof -
  have "addr_of G' e = addr_of G e" "off_of G' e = off_of G e" "region G' e = region G e" if "e \<in> S" for e
    using that assms(3) frameD(5,6) [OF assms(2), of e] frame_region [OF assms(2), of e] by blast+
  with assms(1) frameD(3,9) [OF assms(2)] show ?thesis by (auto simp: tiled_def)
qed

lemma default_fold:
  assumes "foldE (fifo_default_step ext) (a, G) es = Inr (a', G')" "distinct es" "S \<inter> set es = {}" "tiled b S (a, G)"
    and room: "b + sum (len_of G) {..<length (sg_es G)} < 2 ^ 64" and len: "length (sg_es G) = nE G"
  shows "frame (set es) G G' \<and> tiled b (S \<union> {e \<in> set es. end_type Sink G e \<noteq> Some EXTERN_OUT}) (a', G')"
  using assms
proof (induction es arbitrary: a G S)
  case (Cons e es)
  from Cons.prems(1) obtain w t where w: "sr_end Sink G e = Inr w" and t: "sr_type G w = Inr t"
    by (auto simp: fifo_default_step_def bindE_eq_Inr)
  have et: "end_type Sink G e = Some t"
    using w t by (auto simp: sr_end_def sr_type_def end_type_def tgt_def target_def edge_at_def vertex_at_def bindE_eq_Inr split: option.splits)
  obtain a1 G1 where step: "fifo_default_step ext (a, G) e = Inr (a1, G1)" and rest: "foldE (fifo_default_step ext) (a1, G1) es = Inr (a', G')"
    using Cons.prems(1) by (auto simp: bindE_eq_Inr)
  let ?S = "S \<union> (if t = EXTERN_OUT then {} else {e})"
  have one: "frame {e} G G1 \<and> tiled b ?S (a1, G1)"
  proof (cases "t = EXTERN_OUT")
    case True
    then have "frame {e} G G1" "a1 = a" using step w t setAddress_frame by (auto simp: fifo_default_step_def bindE_eq_Inr)
    with tiled_frame [OF Cons.prems(4), of "{e}" G1] Cons.prems(3) True show ?thesis by simp
  next
    case False
    then obtain d where d: "sr_edge_data G e = Inr d" and pl: "sr_place (fa_virtual a) 0 G e = Inr G1"
      and a1: "a1 = a\<lparr>fa_virtual := add64 (fa_virtual a) (to_u64 (se_rate d))\<rparr>"
      using step w t by (auto simp: fifo_default_step_def fa_allocate_def bindE_eq_Inr)
    note pf = place_frame [OF pl]
    have f1: "frame {e} G G1" using pf by simp
    have l: "to_u64 (se_rate d) = len_of G e" using edge_data_eq [OF d] by (simp add: len_of_def)
    have eS: "e \<notin> S" "insert e S \<subseteq> {..<length (sg_es G)}" "finite S"
      using Cons.prems(3,4) pf by (auto simp: tiled_def intro: finite_subset)
    have "sum (len_of G) (insert e S) \<le> sum (len_of G) {..<length (sg_es G)}" by (rule sum_mono2) (use eS in auto)
    then have v: "fa_virtual a1 = b + sum (len_of G) (insert e S)" "fa_virtual a1 = fa_virtual a + len_of G e"
      using Cons.prems(4,5) eS by (simp_all add: a1 l tiled_def add64_exact)
    have old: "addr_of G1 f = addr_of G f" "off_of G1 f = off_of G f" "region G1 f = region G f" if "f \<in> S" for f
      using that eS frameD(5,6) [OF f1, of f] frame_region [OF f1, of f] by blast+
    have new: "region G1 e = {fa_virtual a ..< fa_virtual a1}" "addr_of G1 e = fa_virtual a" "off_of G1 e = 0"
      using pf v frameD(9) [OF f1] by (simp_all add: region_def)
    have below: "region G f \<subseteq> {..<fa_virtual a}" if "f \<in> S" for f using Cons.prems(4) that by (auto simp: tiled_def region_def)
    have disj: "region G1 e \<inter> region G1 f = {}" "region G1 f \<inter> region G1 e = {}" if "f \<in> S" for f
      using below [OF that] new old(3) [OF that] by auto
    have "tiled b (insert e S) (a1, G1)"
      unfolding tiled_def prod.case
    proof (intro conjI ballI impI)
      show "insert e S \<subseteq> {..<length (sg_es G1)}" using eS frameD(3) [OF f1] by simp
      show "fa_virtual a1 = b + sum (len_of G1) (insert e S)" using v frameD(9) [OF f1] by simp
    next
      fix f assume "f \<in> insert e S"
      then show "b \<le> addr_of G1 f" "addr_of G1 f + len_of G1 f \<le> fa_virtual a1" "off_of G1 f = 0"
        using new v old Cons.prems(4) frameD(9) [OF f1] by (auto simp: tiled_def)
    next
      fix f g assume "f \<in> insert e S" "g \<in> insert e S" "f \<noteq> g"
      then show "region G1 f \<inter> region G1 g = {}" using disj old(3) Cons.prems(4) unfolding tiled_def by (elim insertE) simp_all
    qed
    then show ?thesis using f1 False by simp
  qed
  have f1: "frame {e} G G1" using one by simp
  have IH: "frame (set es) G1 G' \<and> tiled b (?S \<union> {f \<in> set es. end_type Sink G1 f \<noteq> Some EXTERN_OUT}) (a', G')"
    using Cons.IH [OF rest, of ?S] Cons.prems one frameD(1,3,9) [OF f1] by (simp split: if_splits)
  have "frame (set (e # es)) G G'"
    using frame_Cons [OF f1] IH by blast
  moreover have "?S \<union> {f \<in> set es. end_type Sink G1 f \<noteq> Some EXTERN_OUT} = S \<union> {f \<in> set (e # es). end_type Sink G f \<noteq> Some EXTERN_OUT}"
    using et frameD(10) [OF f1] by auto
  ultimately show ?case using IH by simp
qed simp

lemma fork_frame: "foldE (fifo_fork_step i) (G, k) es = Inr (G', k') \<Longrightarrow> frame (set es) G G'"
proof (induction es arbitrary: G k)
  case (Cons e es)
  from Cons.prems obtain G1 k1 where st: "fifo_fork_step i (G, k) e = Inr (G1, k1)" and r: "foldE (fifo_fork_step i) (G1, k1) es = Inr (G', k')"
    by (auto simp: bindE_eq_Inr)
  have "frame {e} G G1" using st place_frame by (auto simp: fifo_fork_step_def bindE_eq_Inr)
  with Cons.IH [OF r] show ?case by (rule frame_Cons [rotated])
qed simp

lemma duplicate_frame: "foldE (fifo_duplicate_step i) G es = Inr G' \<Longrightarrow> frame (set es) G G'"
proof (induction es arbitrary: G)
  case (Cons e es)
  from Cons.prems obtain G1 where st: "fifo_duplicate_step i G e = Inr G1" and r: "foldE (fifo_duplicate_step i) G1 es = Inr G'"
    by (auto simp: bindE_eq_Inr)
  have "frame {e} G G1" using st place_frame by (auto simp: fifo_duplicate_step_def bindE_eq_Inr)
  with Cons.IH [OF r] show ?case by (rule frame_Cons [rotated])
qed simp

lemma default_frame: "foldE (fifo_default_step ext) (a, G) es = Inr (a', G') \<Longrightarrow> frame (set es) G G'"
proof (induction es arbitrary: a G)
  case (Cons e es)
  from Cons.prems obtain a1 G1 where st: "fifo_default_step ext (a, G) e = Inr (a1, G1)" and r: "foldE (fifo_default_step ext) (a1, G1) es = Inr (a', G')"
    by (auto simp: bindE_eq_Inr)
  have "frame {e} G G1" using st place_frame setAddress_frame
    by (auto simp: fifo_default_step_def fa_allocate_def bindE_eq_Inr split: if_splits)
  with Cons.IH [OF r] show ?case by (rule frame_Cons [rotated])
qed simp

subsection \<open>The launch of a task\<close>

lemma first_edgeD:
  assumes "first_edge sd G v = Inr e" "sr_ok G"
  shows "prt sd G v 0 = Some e"
  using assms by (auto simp: first_edge_def sr_edge_at_def vertex_at_def prt_def port_def n_ports_def bindE_eq_Inr split: option.splits)

lemma outs_type: "sr_ok G \<Longrightarrow> e \<in> outs G v \<Longrightarrow> sr_type G v = Inr t \<Longrightarrow> end_type Source G e = Some t"
  using prt_tgt [of G Source v _ e] by (auto simp: outs_def end_type_def sr_type_def vertex_at_def bindE_eq_Inr)

lemma alloc_frame:
  assumes "srdag_fifo_allocate ext v (a, G) = Inr (a', G')" "sr_ok G"
  shows "frame (outs G v) G G'"
proof -
  from assms(1) obtain t where t: "sr_type G v = Inr t" by (auto simp: srdag_fifo_allocate_def bindE_eq_Inr)
  show ?thesis
  proof (cases "t = EXTERN_IN")
    case True
    then obtain e where "first_edge Source G v = Inr e" "sr_setAddress G e (ext v) = Inr G'"
      using assms(1) t by (auto simp: srdag_fifo_allocate_def bindE_eq_Inr)
    with first_edgeD [OF _ assms(2)] setAddress_frame have "frame {e} G G'" "e \<in> outs G v" by (auto simp: outs_def)
    then show ?thesis by (auto intro: frame_mono)
  next
    case False
    then obtain es where es: "sr_port_edges Source G v = Inr es" using assms(1) t by (auto simp: srdag_fifo_allocate_def bindE_eq_Inr)
    have "frame (set es) G G'" using assms(1) t False es fork_frame duplicate_frame default_frame
      by (auto simp: srdag_fifo_allocate_def bindE_eq_Inr split: if_splits)
    then show ?thesis using port_edges_outs(1) [OF es assms(2)] by simp
  qed
qed

lemma alloc_tiled:
  assumes al: "srdag_fifo_allocate ext v (a, G) = Inr (a', G')" and ok: "sr_ok G" and S: "S \<inter> outs G v = {}" "tiled b S (a, G)"
    and room: "b + sum (len_of G) {..<nE G} < 2 ^ 64"
  shows "tiled b (S \<union> {e \<in> outs G v. owned G e}) (a', G')"
proof -
  from al obtain t where t: "sr_type G v = Inr t" by (auto simp: srdag_fifo_allocate_def bindE_eq_Inr)
  note ty = outs_type [OF ok _ t]
  show ?thesis
  proof (cases "t \<in> {EXTERN_IN, FORK, DUPLICATE}")
    case True
    then have "a' = a" using al t by (auto simp: srdag_fifo_allocate_def bindE_eq_Inr split: if_splits)
    moreover have "{e \<in> outs G v. owned G e} = {}" using True ty by (auto simp: owned_def)
    ultimately show ?thesis using tiled_frame [OF S(2) alloc_frame [OF al ok] S(1)] by (simp only: Un_empty_right)
  next
    case False
    then obtain es where es: "sr_port_edges Source G v = Inr es" and f: "foldE (fifo_default_step ext) (a, G) es = Inr (a', G')"
      using al t by (auto simp: srdag_fifo_allocate_def bindE_eq_Inr split: if_splits)
    note o = port_edges_outs [OF es ok]
    have "{e \<in> set es. end_type Sink G e \<noteq> Some EXTERN_OUT} = {e \<in> outs G v. owned G e}"
      using False ty o(1) by (auto simp: owned_def)
    then show ?thesis using default_fold [OF f o(2) _ S(2)] S(1) room sr_okD(4) [OF ok] o(1) by simp
  qed
qed

lemma fill_fold:
  assumes "foldE (\<lambda>jf e. bindE (pt e) (\<lambda>ix. bindE (bf e) (\<lambda>f. Inr (upd ix f jf)))) jf es = Inr jf'"
    and pt: "\<And>p. p < length es \<Longrightarrow> pt (es ! p) = Inr p" and len: "length es \<le> length (fs jf)"
    and upd: "\<And>ix f jf. fs (upd ix f jf) = (if ix < length (fs jf) then (fs jf)[ix := Some f] else fs jf)"
  shows "length (fs jf') = length (fs jf) \<and> (\<forall>p < length es. \<exists>f. bf (es ! p) = Inr f \<and> fs jf' ! p = Some f)"
  using assms(1-3)
proof (induction "es" arbitrary: jf' rule: rev_induct)
  case (snoc e es)
  from snoc.prems(1) obtain jf1 ix f where r: "foldE (\<lambda>jf e. bindE (pt e) (\<lambda>ix. bindE (bf e) (\<lambda>f. Inr (upd ix f jf)))) jf es = Inr jf1"
    and ix: "pt e = Inr ix" and f: "bf e = Inr f" and jf': "jf' = upd ix f jf1"
    by (auto simp: foldE_append bindE_eq_Inr)
  have pt': "pt (es ! p) = Inr p" if "p < length es" for p using snoc.prems(2) [of p] that by (simp add: nth_append)
  have "ix = length es" using snoc.prems(2) [of "length es"] ix by simp
  with snoc.IH [OF r pt'] snoc.prems(3) f show ?case by (auto simp: jf' upd nth_append nth_list_update less_Suc_eq)
qed simp

lemma fill_other:
  assumes "foldE (\<lambda>jf e. bindE (pt e) (\<lambda>ix. bindE (bf e) (\<lambda>f. Inr (upd ix f jf)))) jf es = Inr jf'"
    and "\<And>ix f jf. gs (upd ix f jf) = gs jf"
  shows "gs jf' = gs jf"
  by (rule foldE_invariant [OF assms(1), of "\<lambda>x. gs x = gs jf"]) (auto simp: assms(2) bindE_eq_Inr)

lemma edge_port_of: "sr_ok G \<Longrightarrow> prt sd G v p = Some e \<Longrightarrow> edge_port sd G e = Inr p"
  using prt_tgt [of G sd v p e] by (auto simp: edge_port_def edge_at_def tgt_def target_def bindE_eq_Inr split: if_splits)

lemma port_edges_nth:
  assumes "sr_port_edges sd G v = Inr es" "sr_ok G"
  shows "length es = nP sd G v" "p < length es \<Longrightarrow> prt sd G v p = Some (es ! p)" "v < nV G"
proof -
  from assms(1) have v: "v < nV G" and all: "list_all2 (\<lambda>x e. x = Some e) (ports sd (st_vertices (sg_store G) ! v)) es"
    by (auto simp: sr_port_edges_def vertex_at_def bindE_eq_Inr mapE_Inr_iff elim!: list_all2_mono split: option.splits)
  have out: "ports sd (st_vertices (sg_store G) ! v) = map Some es"
    using all by (induction rule: list_all2_induct) auto
  show "v < nV G" by (rule v)
  show l: "length es = nP sd G v" by (simp add: n_ports_def out)
  show "p < length es \<Longrightarrow> prt sd G v p = Some (es ! p)" using v by (simp add: prt_def port_def out l [symmetric])
qed

lemma build_fifos:
  assumes b: "srdag_buildJobFifos ext v (a, G) = Inr (jf, a', G')" and ok: "sr_ok G" and small: "\<And>sd. nP sd G v < 2 ^ 32"
  shows "srdag_fifo_allocate ext v (a, G) = Inr (a', G')" "v < nV G"
    "prt Sink G v p = Some e \<Longrightarrow> \<exists>f. srdag_buildInputFifo G e = Inr f \<and> inputFifo debug jf p = Inr f"
    "prt Source G v p = Some e \<Longrightarrow> \<exists>f. srdag_buildOutputFifo G' e = Inr f \<and> outputFifo debug jf p = Inr f"
proof -
  from b obtain ins es jf1 where ins: "sr_port_edges Sink G v = Inr ins" and al: "srdag_fifo_allocate ext v (a, G) = Inr (a', G')"
    and es: "sr_port_edges Source G' v = Inr es"
    and f1: "foldE (\<lambda>jf e. bindE (edge_port Sink G e) (\<lambda>ix. bindE (srdag_buildInputFifo G e) (\<lambda>f. Inr (setInputFifo ix f jf))))
       (job_fifos_new (nP Sink G v mod 2 ^ 32) (nP Source G v mod 2 ^ 32)) ins = Inr jf1"
    and f2: "foldE (\<lambda>jf e. bindE (edge_port Source G' e) (\<lambda>ix. bindE (srdag_buildOutputFifo G' e) (\<lambda>f. Inr (setOutputFifo ix f jf)))) jf1 es = Inr jf"
    by (auto simp: srdag_buildJobFifos_def bindE_eq_Inr sr_edge_count_def vertex_at_def n_ports_def)
  show "srdag_fifo_allocate ext v (a, G) = Inr (a', G')" by (rule al)
  note fr = alloc_frame [OF al ok] note ok' = frameD(13) [OF fr ok]
  note i = port_edges_nth [OF ins ok] and o' = port_edges_nth [OF es ok']
  show v: "v < nV G" by (rule i(3))
  have same: "nP Source G' v = nP Source G v" "prt Source G' v = prt Source G v" using frameD(1,7) [OF fr] by simp_all
  have I: "length (jf_inputs jf1) = length ins \<and> (\<forall>p < length ins. \<exists>f. srdag_buildInputFifo G (ins ! p) = Inr f \<and> jf_inputs jf1 ! p = Some f)"
    using fill_fold [OF f1, of jf_inputs] edge_port_of [OF ok i(2)] i(1) small by (simp add: setInputFifo_def job_fifos_new_def)
  have "jf_outputs jf1 = replicate (nP Source G v) None"
    using fill_other [OF f1, of jf_outputs] small by (simp add: setInputFifo_def job_fifos_new_def)
  then have O: "length (jf_outputs jf) = length es \<and> (\<forall>p < length es. \<exists>f. srdag_buildOutputFifo G' (es ! p) = Inr f \<and> jf_outputs jf ! p = Some f)"
    using fill_fold [OF f2, of jf_outputs] edge_port_of [OF ok' o'(2)] o'(1) same by (simp add: setOutputFifo_def)
  have keep: "jf_inputs jf = jf_inputs jf1" using fill_other [OF f2, of jf_inputs] by (simp add: setOutputFifo_def)
  show "\<exists>f. srdag_buildInputFifo G e = Inr f \<and> inputFifo debug jf p = Inr f" if "prt Sink G v p = Some e"
  proof -
    have "p < length ins" using prt_bounds [OF ok that] i(1) by simp
    with I i(2) [of p] that show ?thesis by (auto simp: inputFifo_def fifo_read_def keep)
  qed
  show "\<exists>f. srdag_buildOutputFifo G' e = Inr f \<and> outputFifo debug jf p = Inr f" if "prt Source G v p = Some e"
  proof -
    have "p < length es" using prt_bounds [OF ok that] o'(1) same by simp
    with O o'(2) [of p] that same show ?thesis by (auto simp: outputFifo_def fifo_read_def)
  qed
qed

subsection \<open>A sequence of launches\<close>

definition narrow :: "srdag \<Rightarrow> bool" where "narrow G \<longleftrightarrow> (\<forall>v < nV G. \<forall>sd. nP sd G v < 2 ^ 32)"

lemma build_ok:
  assumes "srdag_buildJobFifos ext v (a, G) = Inr (jf, a', G')" "sr_ok G" "narrow G"
  shows "srdag_fifo_allocate ext v (a, G) = Inr (a', G')"
    "prt Sink G v p = Some e \<Longrightarrow> \<exists>f. srdag_buildInputFifo G e = Inr f \<and> inputFifo debug jf p = Inr f"
    "prt Source G v p = Some e \<Longrightarrow> \<exists>f. srdag_buildOutputFifo G' e = Inr f \<and> outputFifo debug jf p = Inr f"
proof -
  have "v < nV G" using assms(1) by (auto simp: srdag_buildJobFifos_def bindE_eq_Inr sr_edge_count_def vertex_at_def)
  then have small: "nP sd G v < 2 ^ 32" for sd using assms(3) by (simp add: narrow_def)
  note b = build_fifos [OF assms(1,2) small]
  show "srdag_fifo_allocate ext v (a, G) = Inr (a', G')" by (rule b)
  show "prt Sink G v p = Some e \<Longrightarrow> \<exists>f. srdag_buildInputFifo G e = Inr f \<and> inputFifo debug jf p = Inr f" by (rule b)
  show "prt Source G v p = Some e \<Longrightarrow> \<exists>f. srdag_buildOutputFifo G' e = Inr f \<and> outputFifo debug jf p = Inr f" by (rule b)
qed

lemma launch_ConsE:
  assumes "foldE (launch_step ext) (m, a, G) (v # vs) = Inr (m', a', G')"
  obtains jf a1 G1 where "srdag_buildJobFifos ext v (a, G) = Inr (jf, a1, G1)"
    and "foldE (launch_step ext) (m(v \<mapsto> jf), a1, G1) vs = Inr (m', a', G')"
proof -
  from assms obtain x where x: "launch_step ext (m, a, G) v = Inr x" and r: "foldE (launch_step ext) x vs = Inr (m', a', G')"
    by (auto simp: bindE_eq_Inr)
  from x obtain jf a1 G1 where "srdag_buildJobFifos ext v (a, G) = Inr (jf, a1, G1)" "x = (m(v \<mapsto> jf), a1, G1)"
    by (auto simp: launch_step_def bindE_eq_Inr)
  with r that show thesis by blast
qed

lemma launch_frame:
  assumes "foldE (launch_step ext) (m, a, G) vs = Inr (m', a', G')" "sr_ok G" "narrow G"
  shows "frame (\<Union>v \<in> set vs. outs G v) G G' \<and> (\<forall>v. v \<notin> set vs \<longrightarrow> m' v = m v)"
  using assms
proof (induction vs arbitrary: m a G)
  case (Cons v vs)
  from Cons.prems(1) obtain jf a1 G1 where b: "srdag_buildJobFifos ext v (a, G) = Inr (jf, a1, G1)"
    and r: "foldE (launch_step ext) (m(v \<mapsto> jf), a1, G1) vs = Inr (m', a', G')"
    by (rule launch_ConsE)
  note fr = alloc_frame [OF build_ok(1) [OF b Cons.prems(2,3)] Cons.prems(2)]
  have "narrow G1" using Cons.prems(3) frameD(1) [OF fr] by (simp add: narrow_def)
  with Cons.IH [OF r frameD(13) [OF fr Cons.prems(2)]] frameD(12) [OF fr]
  have "frame (\<Union>v \<in> set vs. outs G v) G1 G' \<and> (\<forall>w. w \<notin> set vs \<longrightarrow> m' w = (m(v \<mapsto> jf)) w)" by simp
  with frame_Un [OF fr, of "\<Union>v \<in> set vs. outs G v" G'] show ?case by auto
qed simp

lemma outs_disjoint: "sr_ok G \<Longrightarrow> v \<noteq> w \<Longrightarrow> outs G v \<inter> outs G w = {}"
  using prt_tgt [of G Source] by (auto simp: outs_def)

lemma outs_unique: "sr_ok G \<Longrightarrow> prt Source G u i = Some e \<Longrightarrow> e \<in> outs G v \<Longrightarrow> v = u"
  using prt_tgt [of G Source] by (auto simp: outs_def)

lemma launch_tiled:
  assumes "foldE (launch_step ext) (m, a, G) vs = Inr (m', a', G')" "sr_ok G" "narrow G" "distinct vs"
    and "tiled b S (a, G)" "S \<inter> (\<Union>v \<in> set vs. outs G v) = {}" and "b + sum (len_of G) {..<nE G} < 2 ^ 64"
  shows "tiled b (S \<union> {e. owned G e \<and> (\<exists>v \<in> set vs. e \<in> outs G v)}) (a', G')"
  using assms
proof (induction vs arbitrary: m a G S)
  case (Cons v vs)
  from Cons.prems(1) obtain jf a1 G1 where b: "srdag_buildJobFifos ext v (a, G) = Inr (jf, a1, G1)"
    and r: "foldE (launch_step ext) (m(v \<mapsto> jf), a1, G1) vs = Inr (m', a', G')"
    by (rule launch_ConsE)
  note al = build_ok(1) [OF b Cons.prems(2,3)]
  note fr = alloc_frame [OF al Cons.prems(2)]
  let ?S = "S \<union> {e \<in> outs G v. owned G e}"
  have t: "tiled b ?S (a1, G1)" using alloc_tiled [OF al Cons.prems(2) _ Cons.prems(5)] Cons.prems(6,7) by auto
  have "?S \<inter> (\<Union>w \<in> set vs. outs G1 w) = {}"
  proof -
    have "outs G v \<inter> outs G w = {}" if "w \<in> set vs" for w
      using that Cons.prems(4) by (intro outs_disjoint [OF Cons.prems(2)]) auto
    then show ?thesis using Cons.prems(6) frameD(12) [OF fr] by auto
  qed
  then have "tiled b (?S \<union> {e. owned G e \<and> (\<exists>v \<in> set vs. e \<in> outs G v)}) (a', G')"
    using Cons.IH [OF r frameD(13) [OF fr Cons.prems(2)] _ _ t] Cons.prems frameD(1,9,11,12) [OF fr] by (simp add: narrow_def)
  moreover have "?S \<union> {e. owned G e \<and> (\<exists>v \<in> set vs. e \<in> outs G v)} = S \<union> {e. owned G e \<and> (\<exists>w \<in> set (v # vs). e \<in> outs G w)}"
    by auto
  ultimately show ?case by simp
qed simp

lemma alloc_fork:
  assumes al: "srdag_fifo_allocate ext v (a, G) = Inr (a', G')" and ok: "sr_ok G" and t: "sr_type G v = Inr FORK"
    and i: "prt Sink G v 0 = Some i" "i \<notin> outs G v" and e: "prt Source G v p = Some e"
  shows "addr_of G' e = addr_of G i \<and>
    off_of G' e = add32 (off_of G i) (foldl add32 0 (map (\<lambda>q. to_u32 (rate_of G (the (prt Source G v q)))) [0..<p]))"
proof -
  from al t obtain es where es: "sr_port_edges Source G v = Inr es" by (auto simp: srdag_fifo_allocate_def bindE_eq_Inr)
  note o = port_edges_outs [OF es ok]
  have p: "p < length es" "es ! p = e" using prt_bounds [OF ok e] o(4,5) e by auto
  then have "es \<noteq> []" by auto
  then obtain k where f: "foldE (fifo_fork_step i) (G, 0) es = Inr (G', k)"
    using al t es i(1) first_edgeD [OF _ ok] by (fastforce simp: srdag_fifo_allocate_def bindE_eq_Inr)
  have "map (\<lambda>e. to_u32 (rate_of G e)) (take p es) = map (\<lambda>q. to_u32 (rate_of G (the (prt Source G v q)))) [0..<p]"
    using p o(5) by (intro nth_equalityI) auto
  with fork_fold [OF f _ o(2)] p i(2) o(1) show ?thesis by auto
qed

subsection \<open>Properties\<close>

definition sample_vertex :: "vertex_type \<Rightarrow> nat option list \<Rightarrow> nat option list \<Rightarrow> nat \<Rightarrow> vertex" where
  "sample_vertex t ins os ix = \<lparr>vx_type = t, vx_in = ins, vx_out = os, vx_graph = Some 0, vx_ix = ix, vx_rv = 1, vx_inParams = [],
     vx_outParams = [], vx_refinementParams = [], vx_asGraph = 0\<rparr>"

definition sample_edge :: "nat \<Rightarrow> nat \<Rightarrow> nat \<Rightarrow> nat \<Rightarrow> nat \<Rightarrow> unit edge" where
  "sample_edge u i w j x = \<lparr>ed_src = Some u, ed_srcPort = i, ed_srcExpr = (), ed_snk = Some w, ed_snkPort = j, ed_snkExpr = (),
     ed_delay = None, ed_ix = x\<rparr>"

definition sample_store :: "unit store" where
  "sample_store = \<lparr>st_vertices = [sample_vertex NORMAL [] [Some 0, Some 3] 0, sample_vertex FORK [Some 0] [Some 1, Some 2] 1,
       sample_vertex NORMAL [Some 1, Some 2, Some 3] [] 2],
     st_edges = [sample_edge 0 0 1 0 0, sample_edge 1 0 2 0 1, sample_edge 1 1 2 1 2, sample_edge 0 1 2 2 3],
     st_graphs = [\<lparr>gr_vertices = [0, 1, 2], gr_edges = [0, 1, 2, 3], gr_configs = [], gr_subgraphs = [], gr_params = [],
        gr_inputs = [], gr_outputs = [], gr_vertex = 0, gr_subIx = 0\<rparr>], st_params = [], st_delays = []\<rparr>"

definition sample_fifo_graph :: srdag where
  "sample_fifo_graph = \<lparr>sg_store = sample_store,
     sg_vs = replicate 3 \<lparr>sv_reference = Application 0, sv_type = NORMAL, sv_instance = 0, sv_executable = True, sv_inParams = [],
        sv_refParams = [], sv_outParams = [], sv_taskIx = 0\<rparr>,
     sg_es = map (\<lambda>r. \<lparr>se_rate = r, se_address = 0, se_offset = 0\<rparr>) [6, 2, 4, 5], sg_specials = []\<rparr>"

definition sample_alloc :: fifo_alloc where "sample_alloc = \<lparr>fa_reserved = 8, fa_virtual = 8\<rparr>"

lemma all_side: "(\<forall>sd. P sd) \<longleftrightarrow> P Source \<and> P Sink" by (metis side.exhaust)

lemma links_ok_code:
  "links_ok sd s \<longleftrightarrow>
     (\<forall>v < n_vertices s. \<forall>p < n_ports sd s v. case port sd s v p of None \<Rightarrow> True | Some e \<Rightarrow> e < n_edges s \<and> target sd s e = Some (v, p)) \<and>
     (\<forall>e < n_edges s. case target sd s e of None \<Rightarrow> True | Some (v, p) \<Rightarrow> v < n_vertices s \<and> p < n_ports sd s v \<and> port sd s v p = Some e)"
proof -
  have a: "(case x of None \<Rightarrow> True | Some e \<Rightarrow> P e) = (\<forall>e. x = Some e \<longrightarrow> P e)" for x :: "nat option" and P by (cases x) auto
  have b: "(case x of None \<Rightarrow> True | Some (v, p) \<Rightarrow> Q v p) = (\<forall>v p. x = Some (v, p) \<longrightarrow> Q v p)" for x :: "(nat \<times> nat) option" and Q
    by (cases x) auto
  show ?thesis unfolding links_ok_def a b by blast
qed

lemma sample_vertex_sel [simp]: "vx_type (sample_vertex t ins os ix) = t" "vx_in (sample_vertex t ins os ix) = ins"
  "vx_out (sample_vertex t ins os ix) = os" "vx_ix (sample_vertex t ins os ix) = ix" "vx_graph (sample_vertex t ins os ix) = Some 0"
  by (simp_all add: sample_vertex_def)

lemma sample_edge_sel [simp]: "ed_src (sample_edge u i w j x) = Some u" "ed_srcPort (sample_edge u i w j x) = i"
  "ed_snk (sample_edge u i w j x) = Some w" "ed_snkPort (sample_edge u i w j x) = j" "ed_ix (sample_edge u i w j x) = x"
  by (simp_all add: sample_edge_def)

lemma sample_store_sel [simp]:
  "sg_store sample_fifo_graph = sample_store"
  "st_vertices sample_store = [sample_vertex NORMAL [] [Some 0, Some 3] 0, sample_vertex FORK [Some 0] [Some 1, Some 2] 1,
     sample_vertex NORMAL [Some 1, Some 2, Some 3] [] 2]"
  "st_edges sample_store = [sample_edge 0 0 1 0 0, sample_edge 1 0 2 0 1, sample_edge 1 1 2 1 2, sample_edge 0 1 2 2 3]"
  "sg_es sample_fifo_graph = map (\<lambda>r. \<lparr>se_rate = r, se_address = 0, se_offset = 0\<rparr>) [6, 2, 4, 5]"
  by (simp_all add: sample_fifo_graph_def sample_store_def)

lemma sample_fifo_graph_ok: "sr_ok sample_fifo_graph" "narrow sample_fifo_graph"
proof -
  have "links_ok sd (sg_store sample_fifo_graph)" for sd
    unfolding links_ok_code by (cases sd) (auto simp: All_less_Suc n_ports_def port_def target_def)
  moreover have "index_ok (sg_store sample_fifo_graph) 0"
    by (simp add: index_ok_def All_less_Suc) (simp add: sample_store_def All_less_Suc)
  ultimately show "sr_ok sample_fifo_graph" by (simp add: sr_ok_def store_ok_def All_less_Suc) (simp add: sample_fifo_graph_def)
  show "narrow sample_fifo_graph" by (simp add: narrow_def all_side All_less_Suc n_ports_def)
qed

text \<open>Three launches on the sample: an actor, a fork and the actor that reads both.\<close>

lemma sample_launch:
  obtains jfs a' G' where "sr_launch (\<lambda>v. 0) [0, 1, 2] (sample_alloc, sample_fifo_graph) = Inr (jfs, a', G')"
proof -
  let ?r = "sr_launch (\<lambda>v. 0) [0, 1, 2] (sample_alloc, sample_fifo_graph)"
  have "\<not> isl ?r"
    by (simp add: sr_launch_def launch_step_def sample_alloc_def srdag_buildJobFifos_def sr_edge_count_def vertex_at_def
      sr_port_edges_def edge_port_def edge_at_def job_fifos_new_def srdag_buildInputFifo_def srdag_buildOutputFifo_def edge_fifo_def
      sr_edge_data_def sr_end_def sr_type_def srdag_fifo_allocate_def fifo_default_step_def fifo_fork_step_def fa_allocate_def sr_place_def
      sr_setAddress_def sr_setOffset_def sr_update_edge_def first_edge_def sr_edge_at_def cong: bindE_weak foldE_weak)
  then obtain jfs a' G' where "?r = Inr (jfs, a', G')" by (cases ?r) auto
  then show thesis by (rule that)
qed

text \<open>
  C21. Buffers do not overlap. The tasks of a single-rate graph are launched in any order, each vertex once, and the sizes of all
  edges together do not exceed the address space above the reserved memory. Then every edge written by an ordinary actor (not a
  fork, a duplicate or an external interface) gets its own region, as long as its rate, inside the addresses handed out by
  these launches, with offset 0, and the regions of two such edges are disjoint.
\<close>

theorem fifo_regions_disjoint:
  assumes ok: "sr_ok G" "narrow G" and vs: "distinct vs" and l: "sr_launch ext vs (a, G) = Inr (jfs, a', G')"
    and room: "fa_virtual a + sum (len_of G) {..<nE G} < 2 ^ 64"
    and e: "owned G e" "u \<in> set vs" "prt Source G u p = Some e"
    and f: "owned G f" "w \<in> set vs" "prt Source G w q = Some f"
  shows "region G' e \<subseteq> {fa_virtual a ..< fa_virtual a'} \<and> card (region G' e) = to_u64 (rate_of G e) \<and> off_of G' e = 0 \<and>
    (e = f \<or> region G' e \<inter> region G' f = {})"
proof -
  let ?m = "Map.empty :: nat \<Rightarrow> job_fifos option"
  have run: "foldE (launch_step ext) (?m, a, G) vs = Inr (jfs, a', G')" using l by (simp add: sr_launch_def)
  note fr = conjunct1 [OF launch_frame [OF run ok]]
  define S where "S = {} \<union> {e. owned G e \<and> (\<exists>v \<in> set vs. e \<in> outs G v)}"
  have "tiled (fa_virtual a) S (a', G')"
    unfolding S_def by (rule launch_tiled [OF run ok vs _ _ room]) (simp_all add: tiled_def)
  then have t: "\<forall>e \<in> S. fa_virtual a \<le> addr_of G' e \<and> addr_of G' e + len_of G' e \<le> fa_virtual a' \<and> off_of G' e = 0"
    "\<forall>e \<in> S. \<forall>f \<in> S. e \<noteq> f \<longrightarrow> region G' e \<inter> region G' f = {}"
    unfolding tiled_def prod.case by blast+
  have m: "e \<in> S" "f \<in> S" using e f by (auto simp: outs_def S_def)
  have "len_of G' e = to_u64 (rate_of G e)" using frameD(9) [OF fr] by (simp add: len_of_def)
  moreover have "card (region G' e) = len_of G' e" by (simp add: region_def)
  moreover have "region G' e \<subseteq> {fa_virtual a ..< fa_virtual a'}" using t(1) m(1) by (auto simp: region_def)
  ultimately show ?thesis using t m by (metis frameD(4) fr)
qed

lemma fifo_regions_disjoint_witness:
  "\<exists>jfs a' G'. sr_launch (\<lambda>v. 0) [0, 1, 2] (sample_alloc, sample_fifo_graph) = Inr (jfs, a', G') \<and>
     region G' 0 \<inter> region G' 3 = {} \<and> card (region G' 0) = 6"
proof -
  obtain jfs a' G' where r: "sr_launch (\<lambda>v. 0) [0, 1, 2] (sample_alloc, sample_fifo_graph) = Inr (jfs, a', G')" by (rule sample_launch)
  have "owned sample_fifo_graph 0" "owned sample_fifo_graph 3" "prt Source sample_fifo_graph 0 0 = Some 0"
    "prt Source sample_fifo_graph 0 1 = Some 3" "rate_of sample_fifo_graph 0 = 6"
    "fa_virtual sample_alloc + sum (len_of sample_fifo_graph) {..<nE sample_fifo_graph} < 2 ^ 64"
    by (simp_all add: owned_def end_type_def tgt_def target_def prt_def n_ports_def port_def sample_alloc_def rate_of_def
      len_of_def to_u64_def lessThan_Suc)
  then show ?thesis
    using fifo_regions_disjoint [OF sample_fifo_graph_ok, of "[0, 1, 2]" "\<lambda>v. 0" sample_alloc jfs a' G' 0 0 0 3 0 1] r
    by (auto simp: to_u64_def)
qed

text \<open>
  C12. What a job is told to write is what its successor is told to read. If the tasks are launched one after the other, each
  vertex once, and the producer \<open>u\<close> of an edge is launched before its consumer \<open>w\<close>, then the output descriptor of \<open>u\<close> and the
  input descriptor of \<open>w\<close> for that edge have the same address, offset and size, the first with one use and the second with none
  to add. If \<open>w\<close> is a fork read by its port 0, the descriptor of its output \<open>k\<close> is a slice of the same buffer: the same
  address, at the offset of the input plus the sizes of the outputs before it.
\<close>

theorem fifo_hand_over:
  assumes ok: "sr_ok G" "narrow G" and d: "distinct (xs @ u # ys @ w # zs)"
    and l: "sr_launch ext (xs @ u # ys @ w # zs) (a, G) = Inr (jfs, a', G')"
    and e: "prt Source G u i = Some e" "prt Sink G w j = Some e"
  shows "\<exists>ju jw f g. jfs u = Some ju \<and> jfs w = Some jw \<and> outputFifo debug ju i = Inr f \<and> inputFifo debug jw j = Inr g \<and>
    ff_address f = ff_address g \<and> ff_offset f = ff_offset g \<and> ff_size f = to_u32 (rate_of G e) \<and> ff_size g = ff_size f \<and>
    ff_count f = 1 \<and> ff_count g = 0 \<and>
    (\<forall>k h. sr_type G w = Inr FORK \<and> j = 0 \<and> prt Source G w k = Some h \<longrightarrow>
       (\<exists>s. outputFifo debug jw k = Inr s \<and> ff_address s = ff_address g \<and>
          ff_offset s = add32 (ff_offset g) (foldl add32 0 (map (\<lambda>q. to_u32 (rate_of G (the (prt Source G w q)))) [0..<k]))))"
proof -
  let ?m = "Map.empty :: nat \<Rightarrow> job_fifos option"
  obtain m0 a0 G0 where r0: "foldE (launch_step ext) (?m, a, G) xs = Inr (m0, a0, G0)"
    and r1: "foldE (launch_step ext) (m0, a0, G0) (u # ys @ w # zs) = Inr (jfs, a', G')"
    using l by (auto simp: sr_launch_def foldE_append bindE_eq_Inr)
  from r1 obtain ju a1 G1 where b1: "srdag_buildJobFifos ext u (a0, G0) = Inr (ju, a1, G1)"
    and r2: "foldE (launch_step ext) (m0(u \<mapsto> ju), a1, G1) (ys @ w # zs) = Inr (jfs, a', G')"
    by (rule launch_ConsE)
  from r2 obtain m2 a2 G2 where r2': "foldE (launch_step ext) (m0(u \<mapsto> ju), a1, G1) ys = Inr (m2, a2, G2)"
    and r3: "foldE (launch_step ext) (m2, a2, G2) (w # zs) = Inr (jfs, a', G')"
    by (auto simp: foldE_append bindE_eq_Inr)
  from r3 obtain jw a3 G3 where b3: "srdag_buildJobFifos ext w (a2, G2) = Inr (jw, a3, G3)"
    and r4: "foldE (launch_step ext) (m2(w \<mapsto> jw), a3, G3) zs = Inr (jfs, a', G')"
    by (rule launch_ConsE)
  have keep: "sr_ok H' \<and> narrow H'" if "sr_ok H" "narrow H" "frame E H H'" for H H' E
    using that frameD(1,13) [OF that(3)] by (simp add: narrow_def)
  note f0 = launch_frame [OF r0 ok] note ok0 = keep [OF ok conjunct1 [OF f0]]
  note al1 = build_ok(1) [OF b1 conjunct1 [OF ok0] conjunct2 [OF ok0]]
  note f1 = alloc_frame [OF al1 conjunct1 [OF ok0]] note ok1 = keep [OF conjunct1 [OF ok0] conjunct2 [OF ok0] f1]
  note f2 = launch_frame [OF r2' conjunct1 [OF ok1] conjunct2 [OF ok1]]
  note ok2 = keep [OF conjunct1 [OF ok1] conjunct2 [OF ok1] conjunct1 [OF f2]]
  note al3 = build_ok(1) [OF b3 conjunct1 [OF ok2] conjunct2 [OF ok2]]
  note f3 = alloc_frame [OF al3 conjunct1 [OF ok2]] note ok3 = keep [OF conjunct1 [OF ok2] conjunct2 [OF ok2] f3]
  note f4 = launch_frame [OF r4 conjunct1 [OF ok3] conjunct2 [OF ok3]]
  note all = conjunct1 [OF f0] f1 conjunct1 [OF f2] f3
  have prts: "prt sd G0 = prt sd G" "prt sd G1 = prt sd G" "prt sd G2 = prt sd G" "prt sd G3 = prt sd G" for sd
    using all [THEN frameD(7)] by metis+
  have rates: "rate_of G1 = rate_of G" "rate_of G2 = rate_of G" using all [THEN frameD(4)] by (metis ext)+
  have types: "sr_type G2 = sr_type G" using all [THEN frameD(16)] by metis
  have jfs: "jfs w = Some jw" "jfs u = Some ju"
    using d conjunct2 [OF f4] conjunct2 [OF f2] by auto
  have out1: "outs G1 v = outs G v" "outs G2 v = outs G v" for v using prts by (simp_all add: outs_def)
  have "e \<notin> (\<Union>v \<in> set ys. outs G1 v)" using d out1 outs_unique [OF ok(1) e(1)] by auto
  then have same: "addr_of G2 e = addr_of G1 e" "off_of G2 e = off_of G1 e" using frameD(5,6) [OF conjunct1 [OF f2]] by auto
  obtain f where f: "srdag_buildOutputFifo G1 e = Inr f" "outputFifo debug ju i = Inr f"
    using build_ok(3) [OF b1 conjunct1 [OF ok0] conjunct2 [OF ok0]] e(1) prts by metis
  obtain g where g: "srdag_buildInputFifo G2 e = Inr g" "inputFifo debug jw j = Inr g"
    using build_ok(2) [OF b3 conjunct1 [OF ok2] conjunct2 [OF ok2]] e(2) prts by metis
  have fifo: "ff_address x = addr_of H h \<and> ff_offset x = off_of H h \<and> ff_size x = to_u32 (rate_of H h) \<and> ff_count x = c"
    if "edge_fifo H h c b = Inr x" for H h c b x
    using that edge_data_eq by (fastforce simp: edge_fifo_def bindE_eq_Inr)
  note F = fifo [OF f(1) [unfolded srdag_buildOutputFifo_def]] and H = fifo [OF g(1) [unfolded srdag_buildInputFifo_def]]
  have slice: "\<exists>s. outputFifo debug jw k = Inr s \<and> ff_address s = ff_address g \<and>
      ff_offset s = add32 (ff_offset g) (foldl add32 0 (map (\<lambda>q. to_u32 (rate_of G (the (prt Source G w q)))) [0..<k]))"
    if t: "sr_type G w = Inr FORK" and j: "j = 0" and h: "prt Source G w k = Some h" for k h
  proof -
    obtain s where s: "srdag_buildOutputFifo G3 h = Inr s" "outputFifo debug jw k = Inr s"
      using build_ok(3) [OF b3 conjunct1 [OF ok2] conjunct2 [OF ok2]] h prts by metis
    have "e \<notin> outs G2 w" using d out1 outs_unique [OF ok(1) e(1), of w] by auto
    then have "addr_of G3 h = addr_of G2 e \<and> off_of G3 h = add32 (off_of G2 e)
        (foldl add32 0 (map (\<lambda>q. to_u32 (rate_of G (the (prt Source G w q)))) [0..<k]))"
      using alloc_fork [OF al3 conjunct1 [OF ok2], of e k h] t j e(2) h prts rates types by simp
    with fifo [OF s(1) [unfolded srdag_buildOutputFifo_def]] H s(2) show ?thesis by auto
  qed
  have "ff_address f = ff_address g" "ff_offset f = ff_offset g" "ff_size f = to_u32 (rate_of G e)" "ff_size g = ff_size f" "ff_count f = 1" "ff_count g = 0"
    using F H same rates by auto
  with jfs f(2) g(2) slice show ?thesis by blast
qed

lemma fifo_hand_over_witness:
  "\<exists>jfs a' G' ju jw f g. sr_launch (\<lambda>v. 0) [0, 1, 2] (sample_alloc, sample_fifo_graph) = Inr (jfs, a', G') \<and>
     jfs 0 = Some ju \<and> jfs 1 = Some jw \<and> outputFifo True ju 0 = Inr f \<and> inputFifo True jw 0 = Inr g \<and>
     ff_address f = ff_address g \<and> ff_offset f = ff_offset g \<and> ff_size g = 6"
proof -
  obtain jfs a' G' where r: "sr_launch (\<lambda>v. 0) [0, 1, 2] (sample_alloc, sample_fifo_graph) = Inr (jfs, a', G')" by (rule sample_launch)
  have "prt Source sample_fifo_graph 0 0 = Some 0" "prt Sink sample_fifo_graph 1 0 = Some 0" "to_u32 (rate_of sample_fifo_graph 0) = 6"
    by (simp_all add: prt_def n_ports_def port_def rate_of_def to_u32_def)
  with r fifo_hand_over [OF sample_fifo_graph_ok, of "[]" 0 "[]" 1 "[2]" "\<lambda>v. 0" sample_alloc jfs a' G' 0 0 0 True] show ?thesis
    by auto
qed

end
