(* ===== verification/Archi.thy ===== *)
theory Archi
  imports CMath MemoryInterface
begin

text \<open>
  The physical platform: \<open>archi/PE.h\<close>, \<open>archi/Cluster.cpp\<close>, \<open>archi/MemoryBus.cpp\<close>, \<open>archi/InterMemoryBus.cpp\<close>,
  \<open>archi/Platform.cpp\<close>, the kernels of \<open>runtime/platform/RTPlatform.cpp\<close> and the functions of
  \<open>api/archi-api.cpp\<close>. The objects live in the lists of one store, a pointer is the position of its object,
  a pointer that may be null is an option. Array accesses with \<open>at\<close> raise (the build without \<open>NDEBUG\<close>).
\<close>

subsection \<open>Processing elements\<close>

datatype pe_type = LRT | PE

record pe =
  hardwareType :: nat
  hardwareIx :: nat
  affinity :: int
  virtualIx :: nat
  pe_name :: string
  spiderPEType :: pe_type
  pe_cluster :: nat
  attachedLRT :: nat
  pe_enabled :: bool

text \<open>\<open>this\<close> is the first argument: a processing element is attached to itself.\<close>

definition pe_new :: "nat \<Rightarrow> nat \<Rightarrow> nat \<Rightarrow> nat \<Rightarrow> string \<Rightarrow> pe_type \<Rightarrow> int \<Rightarrow> pe" where
  "pe_new this hwType hwIx cl name type aff =
     \<lparr>hardwareType = hwType, hardwareIx = hwIx, affinity = aff, virtualIx = size_max, pe_name = name,
      spiderPEType = type, pe_cluster = cl, attachedLRT = this, pe_enabled = True\<rparr>"

definition isLRT :: "pe \<Rightarrow> bool" where
  "isLRT p \<longleftrightarrow> spiderPEType p = LRT"

definition setAttachedLRT :: "nat option \<Rightarrow> pe \<Rightarrow> pe" where
  "setAttachedLRT lrt p = (case lrt of None \<Rightarrow> p | Some l \<Rightarrow> p\<lparr>attachedLRT := l\<rparr>)"

subsection \<open>Clusters\<close>

text \<open>\<open>cl_array\<close> is the allocated array, \<open>PECount\<close> says how much of it is used.\<close>

record cluster =
  cl_array :: "nat option list"
  cl_memory :: nat
  LRTCount :: nat
  PECount :: nat
  cl_ix :: nat

definition cluster_new :: "nat \<Rightarrow> nat option \<Rightarrow> cluster result" where
  "cluster_new n mem =
     (case mem of None \<Rightarrow> Inl Spider_Exception
      | Some m \<Rightarrow> Inr \<lparr>cl_array = replicate n None, cl_memory = m, LRTCount = 0, PECount = 0, cl_ix = 0\<rparr>)"

text \<open>\<open>peArray()\<close>: the handle on the first \<open>PECount_\<close> entries.\<close>

definition cl_peArray :: "cluster \<Rightarrow> nat option list" where
  "cl_peArray c = take (PECount c) (cl_array c)"

text \<open>The head of \<open>addPE\<close>: its handle has the size \<open>PECount_ + 1\<close>, so its bound check never fails and the write itself
  is out of the array when the cluster is full.\<close>

definition cluster_store_pe :: "nat \<Rightarrow> bool \<Rightarrow> cluster \<Rightarrow> cluster result" where
  "cluster_store_pe p lrt c =
     (if PECount c \<ge> PECount c + 1 then Inl Out_Of_Range
      else bindE (set_at (cl_array c) (PECount c) (Some p)) (\<lambda>xs.
        Inr (c\<lparr>cl_array := xs, PECount := PECount c + 1, LRTCount := LRTCount c + of_bool lrt\<rparr>)))"

definition cl_PEType :: "pe list \<Rightarrow> cluster \<Rightarrow> nat result" where
  "cl_PEType ps c =
     bindE (get_at (cl_array c) 0) (\<lambda>r. case r of None \<Rightarrow> Inl Null_Deref
       | Some p \<Rightarrow> bindE (get_at ps p) (\<lambda>x. Inr (hardwareType x)))"

subsection \<open>Runtime kernels\<close>

text \<open>The objects of class \<open>RTKernel\<close>, by what they call, with the index the platform gave them; \<open>reg_vector\<close> is
  \<open>runtimeKernelVector_\<close>.\<close>

datatype kernel_fun =
    K_fork | K_join | K_head | K_tail | K_repeat | K_duplicate | K_init | K_end | K_externIn | K_externOut
  | K_send | K_receive | K_user nat

record registry =
  reg_kernels :: "(kernel_fun \<times> nat) list"
  reg_vector :: "nat list"

definition registry_new :: registry where
  "registry_new = \<lparr>reg_kernels = [], reg_vector = []\<rparr>"

definition make_kernel :: "kernel_fun \<Rightarrow> registry \<Rightarrow> nat \<times> registry" where
  "make_kernel k r = (length (reg_kernels r), r\<lparr>reg_kernels := reg_kernels r @ [(k, size_max)]\<rparr>)"

definition addKernel :: "nat option \<Rightarrow> registry \<Rightarrow> (nat \<times> registry) result" where
  "addKernel krn r =
     (case krn of
        None \<Rightarrow> Inr (size_max, r)
      | Some k \<Rightarrow>
          let r' = (if k \<in> set (reg_vector r) then r
                    else r\<lparr>reg_kernels := (reg_kernels r)[k := (fst (reg_kernels r ! k), length (reg_vector r))],
                           reg_vector := reg_vector r @ [k]\<rparr>)
          in bindE (get_at (reg_kernels r') k) (\<lambda>x. Inr (snd x, r')))"

definition getKernel :: "registry \<Rightarrow> nat \<Rightarrow> nat option" where
  "getKernel r ix = (if ix \<ge> length (reg_vector r) then None else Some (reg_vector r ! ix))"

definition createSpecialRTKernels :: "registry \<Rightarrow> registry result" where
  "createSpecialRTKernels r0 =
     foldE (\<lambda>r k. let (x, r1) = make_kernel k r in bindE (addKernel (Some x) r1) (\<lambda>(_, r2). Inr r2)) r0
       [K_fork, K_join, K_head, K_tail, K_repeat, K_duplicate, K_init, K_end, K_externIn, K_externOut]"

subsection \<open>Memory buses\<close>

record bus =
  sendCostRoutine :: "nat \<Rightarrow> nat"
  receiveCostRoutine :: "nat \<Rightarrow> nat"
  sendRoutine :: "int \<Rightarrow> nat \<Rightarrow> nat \<Rightarrow> heap \<Rightarrow> heap"
  receiveRoutine :: "int \<Rightarrow> nat \<Rightarrow> nat \<Rightarrow> heap \<Rightarrow> heap"
  writeSpeed :: nat
  readSpeed :: nat
  sendKernelIx :: nat
  recvKernelIx :: nat

definition bus_new :: bus where
  "bus_new =
     \<lparr>sendCostRoutine = (\<lambda>_. 0), receiveCostRoutine = (\<lambda>_. 0), sendRoutine = (\<lambda>_ _ _ h. h), receiveRoutine = (\<lambda>_ _ _ h. h),
      writeSpeed = 0, readSpeed = 0, sendKernelIx = size_max, recvKernelIx = size_max\<rparr>"

definition sendCost :: "bus \<Rightarrow> nat \<Rightarrow> nat" where
  "sendCost b n = sendCostRoutine b n"

definition receiveCost :: "bus \<Rightarrow> nat \<Rightarrow> nat" where
  "receiveCost b n = receiveCostRoutine b n"

definition dataSend :: "bus \<Rightarrow> int \<Rightarrow> nat \<Rightarrow> nat \<Rightarrow> heap \<Rightarrow> heap" where
  "dataSend b n src dst h = sendRoutine b n src dst h"

definition dataReceive :: "bus \<Rightarrow> int \<Rightarrow> nat \<Rightarrow> nat \<Rightarrow> heap \<Rightarrow> heap" where
  "dataReceive b n src dst h = receiveRoutine b n src dst h"

text \<open>The registry is absent while no runtime platform exists. \<open>sendKernel\<close> gives the kernel, creating it first when it has
  no index.\<close>

definition sendKernel :: "bus \<Rightarrow> registry option \<Rightarrow> (nat option \<times> bus \<times> registry option) result" where
  "sendKernel b reg =
     (case reg of
        None \<Rightarrow> Inr (None, b, None)
      | Some r \<Rightarrow>
          if sendKernelIx b = size_max then
            let (k, r1) = make_kernel K_send r
            in bindE (addKernel (Some k) r1) (\<lambda>(ix, r2). Inr (Some k, b\<lparr>sendKernelIx := ix\<rparr>, Some r2))
          else Inr (getKernel r (sendKernelIx b), b, reg))"

definition receiveKernel :: "bus \<Rightarrow> registry option \<Rightarrow> (nat option \<times> bus \<times> registry option) result" where
  "receiveKernel b reg =
     (case reg of
        None \<Rightarrow> Inr (None, b, None)
      | Some r \<Rightarrow>
          if recvKernelIx b = size_max then
            let (k, r1) = make_kernel K_receive r
            in bindE (addKernel (Some k) r1) (\<lambda>(ix, r2). Inr (Some k, b\<lparr>recvKernelIx := ix\<rparr>, Some r2))
          else Inr (getKernel r (recvKernelIx b), b, reg))"

definition setSendRoutine ::
  "(int \<Rightarrow> nat \<Rightarrow> nat \<Rightarrow> heap \<Rightarrow> heap) \<Rightarrow> bus \<Rightarrow> registry option \<Rightarrow> (bus \<times> registry option) result" where
  "setSendRoutine f b reg =
     (let b1 = b\<lparr>sendRoutine := f\<rparr> in
      case reg of
        None \<Rightarrow> Inr (b1, None)
      | Some r \<Rightarrow>
          let (k, r1) = make_kernel K_send r
          in bindE (addKernel (Some k) r1) (\<lambda>(ix, r2). Inr (b1\<lparr>sendKernelIx := ix\<rparr>, Some r2)))"

definition setReceiveRoutine ::
  "(int \<Rightarrow> nat \<Rightarrow> nat \<Rightarrow> heap \<Rightarrow> heap) \<Rightarrow> bus \<Rightarrow> registry option \<Rightarrow> (bus \<times> registry option) result" where
  "setReceiveRoutine f b reg =
     (let b1 = b\<lparr>receiveRoutine := f\<rparr> in
      case reg of
        None \<Rightarrow> Inr (b1, None)
      | Some r \<Rightarrow>
          let (k, r1) = make_kernel K_receive r
          in bindE (addKernel (Some k) r1) (\<lambda>(ix, r2). Inr (b1\<lparr>recvKernelIx := ix\<rparr>, Some r2)))"

definition createMemoryBus ::
  "(int \<Rightarrow> nat \<Rightarrow> nat \<Rightarrow> heap \<Rightarrow> heap) \<Rightarrow> (int \<Rightarrow> nat \<Rightarrow> nat \<Rightarrow> heap \<Rightarrow> heap) \<Rightarrow> registry option \<Rightarrow> (bus \<times> registry option) result" where
  "createMemoryBus send recv reg =
     bindE (setSendRoutine send bus_new reg) (\<lambda>(b, reg1). setReceiveRoutine recv b reg1)"

record inter_bus =
  ib_clusterA :: nat
  ib_clusterB :: nat
  busAToB :: "nat option"
  busBToA :: "nat option"

definition inter_bus_new :: "nat option \<Rightarrow> nat option \<Rightarrow> nat option \<Rightarrow> nat option \<Rightarrow> inter_bus result" where
  "inter_bus_new a b ab ba =
     (case (a, b) of
        (Some x, Some y) \<Rightarrow> Inr \<lparr>ib_clusterA = x, ib_clusterB = y, busAToB = ab, busBToA = ba\<rparr>
      | _ \<Rightarrow> Inl Spider_Exception)"

definition inter_bus_get :: "inter_bus \<Rightarrow> nat option \<Rightarrow> nat option \<Rightarrow> nat option result" where
  "inter_bus_get ib a b =
     (case (a, b) of
        (Some x, Some y) \<Rightarrow>
          Inr (if x = ib_clusterA ib \<and> y = ib_clusterB ib then busAToB ib
               else if x = ib_clusterB ib \<and> y = ib_clusterA ib then busBToA ib
               else None)
      | _ \<Rightarrow> Inl Spider_Exception)"

subsection \<open>The platform\<close>

record platform =
  clusterArray :: "nat option list"
  peArray :: "nat option list"
  interClusterMemoryBusArray :: "nat option list"
  preComputedClusterIx :: "nat list"
  lrtVector :: "nat list"
  externBuffersVector :: "nat list"
  clusterCount :: nat
  peCount :: nat
  hwTypeCount :: nat
  grt :: "nat option"

definition getClusterMemoryInterfaceCount :: "nat \<Rightarrow> nat" where
  "getClusterMemoryInterfaceCount n = mul64 n (sub64 n 1) div 2"

text \<open>The loop that fills \<open>preComputedClusterIx_\<close>; \<open>j\<close> is declared before it.\<close>

fun precompute_ix :: "nat \<Rightarrow> nat \<Rightarrow> nat list \<Rightarrow> nat list" where
  "precompute_ix n j [] = []"
| "precompute_ix n j (ix # rest) =
     sub64 (add64 (mul64 j n) (mul64 j (add64 j 1) div 2)) (add64 j 1) # precompute_ix n j rest"

definition platform_new :: "nat \<Rightarrow> nat \<Rightarrow> platform" where
  "platform_new clusters pes =
     \<lparr>clusterArray = replicate clusters None, peArray = replicate pes None,
      interClusterMemoryBusArray = replicate (getClusterMemoryInterfaceCount clusters) None,
      preComputedClusterIx = precompute_ix clusters 0 (replicate clusters size_max),
      lrtVector = [], externBuffersVector = [], clusterCount = 0, peCount = 0, hwTypeCount = 0, grt = None\<rparr>"

text \<open>The store of the architecture.\<close>

record archi =
  ar_pes :: "pe list"
  ar_clusters :: "cluster list"
  ar_buses :: "bus list"
  ar_inters :: "inter_bus list"
  ar_platform :: "platform option"

definition archi_empty :: archi where
  "archi_empty = \<lparr>ar_pes = [], ar_clusters = [], ar_buses = [], ar_inters = [], ar_platform = None\<rparr>"

abbreviation pe_at :: "archi \<Rightarrow> nat \<Rightarrow> pe" where
  "pe_at a i \<equiv> ar_pes a ! i"

abbreviation cluster_at :: "archi \<Rightarrow> nat \<Rightarrow> cluster" where
  "cluster_at a i \<equiv> ar_clusters a ! i"

definition setPE :: "nat option \<Rightarrow> archi \<Rightarrow> platform \<Rightarrow> (archi \<times> platform) result" where
  "setPE pe a p =
     (case pe of
        None \<Rightarrow> Inr (a, p)
      | Some x \<Rightarrow>
          let found = list_ex (\<lambda>q. case q of None \<Rightarrow> False | Some y \<Rightarrow> hardwareType (pe_at a y) = hardwareType (pe_at a x)) (peArray p);
              p1 = p\<lparr>hwTypeCount := hwTypeCount p + of_bool (\<not> found)\<rparr>
          in if peCount p1 \<ge> length (peArray p1) then Inl Out_Of_Range
             else
               let p2 = p1\<lparr>peArray := (peArray p1)[peCount p1 := Some x], peCount := peCount p1 + 1\<rparr>;
                   a2 = a\<lparr>ar_pes := (ar_pes a)[x := (pe_at a x)\<lparr>virtualIx := peCount p1\<rparr>]\<rparr>
               in Inr (a2, if isLRT (pe_at a2 x) then p2\<lparr>lrtVector := lrtVector p2 @ [x]\<rparr> else p2))"

definition addCluster :: "nat \<Rightarrow> archi \<Rightarrow> platform \<Rightarrow> (archi \<times> platform) result" where
  "addCluster c a p =
     (if clusterCount p \<ge> length (clusterArray p) then Inl Out_Of_Range
      else
        let p1 = p\<lparr>clusterArray := (clusterArray p)[clusterCount p := Some c], clusterCount := clusterCount p + 1\<rparr>;
            a1 = a\<lparr>ar_clusters := (ar_clusters a)[c := (cluster_at a c)\<lparr>cl_ix := clusterCount p\<rparr>]\<rparr>
        in foldE (\<lambda>(b, q) pe. setPE pe b q) (a1, p1) (cl_peArray (cluster_at a1 c)))"

definition addPE :: "nat option \<Rightarrow> nat \<Rightarrow> archi \<Rightarrow> archi result" where
  "addPE pe c a =
     (case pe of
        None \<Rightarrow> Inr a
      | Some x \<Rightarrow>
          bindE (cluster_store_pe x (isLRT (pe_at a x)) (cluster_at a c)) (\<lambda>cl.
            let a1 = a\<lparr>ar_clusters := (ar_clusters a)[c := cl]\<rparr> in
            case ar_platform a1 of
              None \<Rightarrow> Inr a1
            | Some p \<Rightarrow> bindE (setPE pe a1 p) (\<lambda>(a2, p2). Inr (a2\<lparr>ar_platform := Some p2\<rparr>))))"

text \<open>The handle of \<open>setPEStatus\<close> is bounded by the number of elements.\<close>

definition setPEStatus :: "nat \<Rightarrow> nat \<Rightarrow> bool \<Rightarrow> archi \<Rightarrow> archi result" where
  "setPEStatus c ix status a =
     bindE (at (cl_peArray (cluster_at a c)) ix) (\<lambda>r. case r of None \<Rightarrow> Inl Null_Deref
       | Some x \<Rightarrow> Inr (a\<lparr>ar_pes := (ar_pes a)[x := (pe_at a x)\<lparr>pe_enabled := status\<rparr>]\<rparr>))"

definition registerExternalBuffer :: "nat option \<Rightarrow> platform \<Rightarrow> nat \<times> platform" where
  "registerExternalBuffer buffer p =
     (case buffer of None \<Rightarrow> (size_max, p)
      | Some b \<Rightarrow> (length (externBuffersVector p), p\<lparr>externBuffersVector := externBuffersVector p @ [b]\<rparr>))"

definition getExternalBuffer :: "platform \<Rightarrow> nat \<Rightarrow> nat result" where
  "getExternalBuffer p ix = at (externBuffersVector p) ix"

definition processingElement :: "platform \<Rightarrow> nat \<Rightarrow> nat option result" where
  "processingElement p ix = at (peArray p) ix"

definition getGRTIx :: "archi \<Rightarrow> platform \<Rightarrow> nat" where
  "getGRTIx a p = (case grt p of None \<Rightarrow> size_max | Some g \<Rightarrow> virtualIx (pe_at a (attachedLRT (pe_at a g))))"

definition setSpiderGRTPE :: "nat option \<Rightarrow> platform \<Rightarrow> platform" where
  "setSpiderGRTPE pe p = (case pe of None \<Rightarrow> p | Some g \<Rightarrow> p\<lparr>grt := Some g\<rparr>)"

subsection \<open>Communications between clusters\<close>

definition getCluster2ClusterIndex :: "platform \<Rightarrow> nat \<Rightarrow> nat \<Rightarrow> nat result" where
  "getCluster2ClusterIndex p a b =
     (if a > b then bindE (get_at (preComputedClusterIx p) b) (\<lambda>i. Inr (add64 i a))
      else bindE (get_at (preComputedClusterIx p) a) (\<lambda>i. Inr (add64 i b)))"

definition getClusterToClusterMemoryBus :: "archi \<Rightarrow> platform \<Rightarrow> nat \<Rightarrow> nat \<Rightarrow> nat option result" where
  "getClusterToClusterMemoryBus ar p a b =
     (if a = b then Inr None
      else bindE (getCluster2ClusterIndex p (cl_ix (cluster_at ar a)) (cl_ix (cluster_at ar b))) (\<lambda>ix.
        bindE (at (interClusterMemoryBusArray p) ix) (\<lambda>r. case r of None \<Rightarrow> Inl Null_Deref
          | Some ib \<Rightarrow> bindE (get_at (ar_inters ar) ib) (\<lambda>x. inter_bus_get x (Some a) (Some b)))))"

definition setClusterToClusterMemoryBus :: "archi \<Rightarrow> platform \<Rightarrow> nat \<Rightarrow> nat \<Rightarrow> nat option \<Rightarrow> platform result" where
  "setClusterToClusterMemoryBus ar p a b ib =
     (if a = b \<or> ib = None then Inr p
      else bindE (getCluster2ClusterIndex p (cl_ix (cluster_at ar a)) (cl_ix (cluster_at ar b))) (\<lambda>ix.
        bindE (at (interClusterMemoryBusArray p) ix) (\<lambda>_.
          Inr (p\<lparr>interClusterMemoryBusArray := (interClusterMemoryBusArray p)[ix := ib]\<rparr>))))"

definition bus_deref :: "archi \<Rightarrow> nat option \<Rightarrow> bus result" where
  "bus_deref ar r = (case r of None \<Rightarrow> Inl Null_Deref | Some b \<Rightarrow> get_at (ar_buses ar) b)"

definition dataCommunicationCostPEToPE :: "archi \<Rightarrow> platform \<Rightarrow> nat option \<Rightarrow> nat option \<Rightarrow> nat \<Rightarrow> nat result" where
  "dataCommunicationCostPEToPE ar p src snk dataSize =
     (case (src, snk) of
        (Some s, Some t) \<Rightarrow>
          let a = pe_cluster (pe_at ar s); b = pe_cluster (pe_at ar t) in
          if s = t then Inr 0
          else if a = b then Inr 10
          else bindE (getClusterToClusterMemoryBus ar p a b) (\<lambda>r1. bindE (bus_deref ar r1) (\<lambda>bus1.
            let c = sendCost bus1 dataSize in
            bindE (getClusterToClusterMemoryBus ar p b a) (\<lambda>r2. bindE (bus_deref ar r2) (\<lambda>bus2.
              Inr (saturateAdd c (receiveCost bus2 dataSize))))))
      | _ \<Rightarrow> Inl Spider_Exception)"

text \<open>The kernels that the runtime calls for a send and a receive task, over the memory interfaces of the clusters.\<close>

definition bus_send :: "archi \<Rightarrow> platform \<Rightarrow> int list \<Rightarrow> nat list \<Rightarrow> nat list \<Rightarrow> heap \<Rightarrow> heap result" where
  "bus_send ar p ps ins outs h =
     bindE (get_at ps 0) (\<lambda>p0. bindE (at (clusterArray p) (to_u64 p0)) (\<lambda>ca.
     bindE (get_at ps 1) (\<lambda>p1. bindE (at (clusterArray p) (to_u64 p1)) (\<lambda>cb.
     case (ca, cb) of
       (Some a, Some b) \<Rightarrow>
         bindE (getClusterToClusterMemoryBus ar p a b) (\<lambda>r. bindE (get_at ps 2) (\<lambda>n.
         bindE (get_at ins 0) (\<lambda>src. bindE (get_at outs 0) (\<lambda>dst.
         bindE (bus_deref ar r) (\<lambda>bus. Inr (dataSend bus n src dst h))))))
     | _ \<Rightarrow> Inl Null_Deref))))"

definition bus_receive ::
  "bool \<Rightarrow> archi \<Rightarrow> platform \<Rightarrow> int list \<Rightarrow> nat list \<Rightarrow> memory_interface list \<times> heap \<Rightarrow> (memory_interface list \<times> heap) result" where
  "bus_receive debug ar p ps outs st =
     bindE (get_at ps 0) (\<lambda>p0. bindE (at (clusterArray p) (to_u64 p0)) (\<lambda>ca.
     bindE (get_at ps 1) (\<lambda>p1. bindE (at (clusterArray p) (to_u64 p1)) (\<lambda>cb.
     bindE (get_at ps 3) (\<lambda>p3. bindE (get_at ps 2) (\<lambda>n.
     case (ca, cb) of
       (Some a, Some b) \<Rightarrow>
         bindE (get_at (fst st) (cl_memory (cluster_at ar a))) (\<lambda>mi.
         bindE (mi_read debug mi (to_u64 p3) 0) (\<lambda>(input, mi1).
         bindE (getClusterToClusterMemoryBus ar p a b) (\<lambda>r.
         bindE (get_at outs 0) (\<lambda>dst. bindE (bus_deref ar r) (\<lambda>bus.
         bindE (mi_deallocate debug mi1 (to_u64 p3) (to_u64 n)) (\<lambda>mi2.
           Inr ((fst st)[cl_memory (cluster_at ar a) := mi2], dataReceive bus n input dst (snd st))))))))
     | _ \<Rightarrow> Inl Null_Deref))))))"

subsection \<open>The functions of the interface\<close>

definition createPlatform :: "nat \<Rightarrow> nat \<Rightarrow> archi \<Rightarrow> archi result" where
  "createPlatform clusters pes a =
     (case ar_platform a of None \<Rightarrow> Inr (a\<lparr>ar_platform := Some (platform_new clusters pes)\<rparr>) | Some _ \<Rightarrow> Inl Spider_Exception)"

definition createCluster :: "nat \<Rightarrow> nat option \<Rightarrow> archi \<Rightarrow> (nat \<times> archi) result" where
  "createCluster n mem a =
     (case ar_platform a of
        None \<Rightarrow> Inl Spider_Exception
      | Some p \<Rightarrow>
          bindE (cluster_new n mem) (\<lambda>cl.
            let c = length (ar_clusters a); a1 = a\<lparr>ar_clusters := ar_clusters a @ [cl]\<rparr> in
            bindE (addCluster c a1 p) (\<lambda>(a2, p2). Inr (c, a2\<lparr>ar_platform := Some p2\<rparr>))))"

definition createProcessingElement ::
  "nat \<Rightarrow> nat \<Rightarrow> nat option \<Rightarrow> string \<Rightarrow> pe_type \<Rightarrow> int \<Rightarrow> archi \<Rightarrow> (nat \<times> archi) result" where
  "createProcessingElement hwType hwID cl name type aff a =
     (case cl of
        None \<Rightarrow> Inl Spider_Exception
      | Some c \<Rightarrow>
          let x = length (ar_pes a); a1 = a\<lparr>ar_pes := ar_pes a @ [pe_new x hwType hwID c name type aff]\<rparr> in
          bindE (addPE (Some x) c a1) (\<lambda>a2. Inr (x, a2)))"

definition createInterClusterMemoryBus ::
  "nat option \<Rightarrow> nat option \<Rightarrow> nat option \<Rightarrow> nat option \<Rightarrow> archi \<Rightarrow> (nat \<times> archi) result" where
  "createInterClusterMemoryBus ca cb ab ba a =
     (case (ca, cb) of
        (Some x, Some y) \<Rightarrow>
          (case ar_platform a of
             None \<Rightarrow> Inl Spider_Exception
           | Some p \<Rightarrow>
               bindE (inter_bus_new ca cb ab ba) (\<lambda>ib.
                 let i = length (ar_inters a); a1 = a\<lparr>ar_inters := ar_inters a @ [ib]\<rparr> in
                 bindE (setClusterToClusterMemoryBus a1 p x y (Some i)) (\<lambda>p1. Inr (i, a1\<lparr>ar_platform := Some p1\<rparr>))))
      | _ \<Rightarrow> Inl Spider_Exception)"

definition attachPEToLRT :: "nat option \<Rightarrow> nat option \<Rightarrow> archi \<Rightarrow> archi result" where
  "attachPEToLRT pe lrt a =
     (case (pe, lrt) of
        (Some x, Some l) \<Rightarrow>
          if attachedLRT (pe_at a x) = x \<or> isLRT (pe_at a x) then Inr a
          else if \<not> isLRT (pe_at a l) then Inl Spider_Exception
          else Inr (a\<lparr>ar_pes := (ar_pes a)[x := setAttachedLRT lrt (pe_at a x)]\<rparr>)
      | _ \<Rightarrow> Inr a)"

definition setPESpiderPEType :: "nat \<Rightarrow> pe_type \<Rightarrow> archi \<Rightarrow> archi" where
  "setPESpiderPEType x type a = a\<lparr>ar_pes := (ar_pes a)[x := (pe_at a x)\<lparr>spiderPEType := type\<rparr>]\<rparr>"

definition setPEName :: "nat option \<Rightarrow> string \<Rightarrow> archi \<Rightarrow> archi" where
  "setPEName pe name a =
     (case pe of None \<Rightarrow> a | Some x \<Rightarrow> a\<lparr>ar_pes := (ar_pes a)[x := (pe_at a x)\<lparr>pe_name := name\<rparr>]\<rparr>)"

definition enablePE :: "nat option \<Rightarrow> bool \<Rightarrow> archi \<Rightarrow> archi" where
  "enablePE pe status a =
     (case pe of None \<Rightarrow> a | Some x \<Rightarrow> a\<lparr>ar_pes := (ar_pes a)[x := (pe_at a x)\<lparr>pe_enabled := status\<rparr>]\<rparr>)"

end
