(* ===== verification/ArchiProps.thy ===== *)
theory ArchiProps
  imports Archi
begin

text \<open>
  The numbering of processing elements and clusters that the rest of the library relies on, as an invariant of every
  architecture built through \<open>api/archi-api.cpp\<close>; the slots of the buses between clusters; the cost of a
  communication.
\<close>

subsection \<open>Architectures built through the interface\<close>

inductive archi_built :: "archi \<Rightarrow> bool" where
  built_empty: "archi_built archi_empty"
| built_platform: "archi_built a \<Longrightarrow> createPlatform n m a = Inr a' \<Longrightarrow> archi_built a'"
| built_cluster: "archi_built a \<Longrightarrow> createCluster n mem a = Inr (c, a') \<Longrightarrow> archi_built a'"
| built_pe: "archi_built a \<Longrightarrow> c < length (ar_clusters a) \<Longrightarrow>
    createProcessingElement hw ix (Some c) name type aff a = Inr (x, a') \<Longrightarrow> archi_built a'"
| built_buses: "archi_built a \<Longrightarrow> archi_built (a\<lparr>ar_buses := bs\<rparr>)"   \<comment> \<open>creating and configuring memory buses\<close>
| built_bus: "archi_built a \<Longrightarrow> createInterClusterMemoryBus ca cb ab ba a = Inr (i, a') \<Longrightarrow> archi_built a'"
| built_attach: "archi_built a \<Longrightarrow> x < length (ar_pes a) \<Longrightarrow> attachPEToLRT (Some x) lrt a = Inr a' \<Longrightarrow> archi_built a'"
| built_name: "archi_built a \<Longrightarrow> archi_built (setPEName pe name a)"
| built_enable: "archi_built a \<Longrightarrow> archi_built (enablePE pe status a)"

text \<open>What the mapper and the runtime assume: dense indices in creation order, each cluster holding exactly its own
  elements, and exact counts.\<close>

definition pe_ok :: "archi \<Rightarrow> nat \<Rightarrow> bool" where
  "pe_ok a x \<longleftrightarrow> virtualIx (pe_at a x) = x \<and> attachedLRT (pe_at a x) = x \<and> pe_cluster (pe_at a x) < length (ar_clusters a)"

definition members :: "archi \<Rightarrow> nat \<Rightarrow> nat list" where
  "members a c = List.filter (\<lambda>x. pe_cluster (pe_at a x) = c) [0..<length (ar_pes a)]"

definition cluster_ok :: "archi \<Rightarrow> nat \<Rightarrow> bool" where
  "cluster_ok a c \<longleftrightarrow> cl_ix (cluster_at a c) = c \<and> cl_peArray (cluster_at a c) = List.map Some (members a c) \<and>
     PECount (cluster_at a c) = length (members a c) \<and>
     (\<forall>i. PECount (cluster_at a c) \<le> i \<longrightarrow> i < length (cl_array (cluster_at a c)) \<longrightarrow> cl_array (cluster_at a c) ! i = None) \<and>
     LRTCount (cluster_at a c) = length (List.filter (\<lambda>x. isLRT (pe_at a x)) (members a c))"

text \<open>An array whose first slots name the objects in creation order, the others being null.\<close>

definition filled :: "nat \<Rightarrow> nat option list \<Rightarrow> bool" where
  "filled n xs \<longleftrightarrow> n \<le> length xs \<and> (\<forall>i < length xs. xs ! i = (if i < n then Some i else None))"

lemma filled_store: "filled n xs \<Longrightarrow> n < length xs \<Longrightarrow> filled (Suc n) (xs[n := Some n])"
  by (auto simp: filled_def nth_list_update)

lemma filled_empty: "filled 0 (replicate n None)"
  by (simp add: filled_def)

lemma filled_nth: "filled n xs \<Longrightarrow> i < length xs \<Longrightarrow> xs ! i = (if i < n then Some i else None)"
  by (simp add: filled_def)

lemma filled_ex: "filled n xs \<Longrightarrow> list_ex (\<lambda>q. case q of None \<Rightarrow> False | Some y \<Rightarrow> P y) xs \<longleftrightarrow> (\<exists>y < n. P y)"
proof
  assume f: "filled n xs" and e: "list_ex (\<lambda>q. case q of None \<Rightarrow> False | Some y \<Rightarrow> P y) xs"
  then obtain i where i: "i < length xs" "case xs ! i of None \<Rightarrow> False | Some y \<Rightarrow> P y" by (auto simp: list_ex_length)
  with filled_nth [OF f i(1)] show "\<exists>y < n. P y" by (auto split: if_splits)
next
  assume f: "filled n xs" and "\<exists>y < n. P y"
  then obtain y where y: "y < n" "P y" by blast
  with f have "y < length xs" "xs ! y = Some y" by (auto simp: filled_def)
  with y(2) show "list_ex (\<lambda>q. case q of None \<Rightarrow> False | Some y \<Rightarrow> P y) xs"
    by (auto simp: list_ex_length intro!: exI [of _ y])
qed

definition platform_ok :: "archi \<Rightarrow> platform \<Rightarrow> bool" where
  "platform_ok a p \<longleftrightarrow>
     peCount p = length (ar_pes a) \<and> filled (length (ar_pes a)) (peArray p) \<and>
     clusterCount p = length (ar_clusters a) \<and> filled (length (ar_clusters a)) (clusterArray p) \<and>
     lrtVector p = List.filter (\<lambda>x. isLRT (pe_at a x)) [0..<length (ar_pes a)] \<and>
     hwTypeCount p = card (hardwareType ` set (ar_pes a))"

definition archi_ok :: "archi \<Rightarrow> bool" where
  "archi_ok a \<longleftrightarrow>
     (\<forall>x < length (ar_pes a). pe_ok a x) \<and> (\<forall>c < length (ar_clusters a). cluster_ok a c) \<and>
     (case ar_platform a of None \<Rightarrow> ar_pes a = [] \<and> ar_clusters a = [] | Some p \<Rightarrow> platform_ok a p)"

lemma archi_ok_empty: "archi_ok archi_empty"
  by (simp add: archi_ok_def archi_empty_def)

lemma archi_ok_createPlatform:
  assumes "archi_ok a" and "createPlatform n m a = Inr a'"
  shows "archi_ok a'"
  using assms by (auto simp: createPlatform_def archi_ok_def platform_ok_def platform_new_def filled_empty split: option.splits)

lemma archi_ok_pe_update:
  assumes "archi_ok a"
    and f: "\<And>p. virtualIx (f p) = virtualIx p" "\<And>p. attachedLRT (f p) = attachedLRT p" "\<And>p. pe_cluster (f p) = pe_cluster p"
      "\<And>p. spiderPEType (f p) = spiderPEType p" "\<And>p. hardwareType (f p) = hardwareType p"
  shows "archi_ok (a\<lparr>ar_pes := (ar_pes a)[x := f (pe_at a x)]\<rparr>)"
proof (cases "x < length (ar_pes a)")
  case True
  define ps where "ps = (ar_pes a)[x := f (pe_at a x)]"
  have sel: "virtualIx (ps ! y) = virtualIx (pe_at a y)" "attachedLRT (ps ! y) = attachedLRT (pe_at a y)"
    "pe_cluster (ps ! y) = pe_cluster (pe_at a y)" "isLRT (ps ! y) = isLRT (pe_at a y)"
    "hardwareType (ps ! y) = hardwareType (pe_at a y)" for y
    by (cases "y = x"; simp add: f isLRT_def True ps_def)+
  have len: "length ps = length (ar_pes a)" by (simp add: ps_def)
  have "List.map hardwareType ps = List.map hardwareType (ar_pes a)"
    by (rule nth_equalityI) (use sel len in auto)
  then have hw: "hardwareType ` set ps = hardwareType ` set (ar_pes a)" by (metis list.set_map)
  from assms(1) have "archi_ok (a\<lparr>ar_pes := ps\<rparr>)"
    unfolding archi_ok_def pe_ok_def cluster_ok_def members_def platform_ok_def
    by (simp add: sel hw len split: option.splits) (auto simp: ps_def)
  then show ?thesis by (simp add: ps_def)
next
  case False
  then have "a\<lparr>ar_pes := (ar_pes a)[x := f (pe_at a x)]\<rparr> = a" by (cases a) (simp add: list_update_beyond)
  with assms(1) show ?thesis by simp
qed


lemma archi_ok_attach:
  assumes "archi_ok a" and "x < length (ar_pes a)"
  shows "attachPEToLRT (Some x) lrt a = Inr a"
  using assms by (auto simp: archi_ok_def pe_ok_def attachPEToLRT_def split: option.splits)

lemma archi_ok_bus:
  assumes "archi_ok a" and "createInterClusterMemoryBus ca cb ab ba a = Inr (i, a')"
  shows "archi_ok a'"
proof -
  from assms(2) obtain x y p ib p1 where p: "ar_platform a = Some p" and
    p1: "setClusterToClusterMemoryBus (a\<lparr>ar_inters := ar_inters a @ [ib]\<rparr>) p x y (Some i) = Inr p1" and
    a': "a' = a\<lparr>ar_inters := ar_inters a @ [ib], ar_platform := Some p1\<rparr>"
    by (auto simp: createInterClusterMemoryBus_def Let_def split: option.splits)
  from p1 obtain xs where "p1 = p\<lparr>interClusterMemoryBusArray := xs\<rparr>"
    by (auto simp: setClusterToClusterMemoryBus_def split: if_splits) (metis platform.surjective platform.update_convs(3))
  with assms(1) p show ?thesis
    by (auto simp: archi_ok_def platform_ok_def pe_ok_def cluster_ok_def members_def cl_peArray_def a')
qed

lemma archi_ok_cluster:
  assumes ok: "archi_ok a" and c: "createCluster n mem a = Inr (c, a')"
  shows "archi_ok a'"
proof -
  from c obtain p m where p: "ar_platform a = Some p" and m: "mem = Some m"
    by (auto simp: createCluster_def cluster_new_def split: option.splits)
  let ?n = "length (ar_clusters a)"
  let ?cl = "\<lparr>cl_array = replicate n None, cl_memory = m, LRTCount = 0, PECount = 0, cl_ix = clusterCount p\<rparr>"
  let ?p = "p\<lparr>clusterArray := (clusterArray p)[clusterCount p := Some ?n], clusterCount := clusterCount p + 1\<rparr>"
  from c p m have room: "clusterCount p < length (clusterArray p)"
    and a': "a' = a\<lparr>ar_clusters := ar_clusters a @ [?cl], ar_platform := Some ?p\<rparr>"
    by (auto simp: createCluster_def cluster_new_def addCluster_def Let_def cl_peArray_def list_update_append
        split: if_splits)
  from ok p have P: "platform_ok a p" by (simp add: archi_ok_def)
  have none: "members a ?n = []"
    using ok by (auto simp: members_def archi_ok_def pe_ok_def filter_empty_conv)
  have mem: "members a' k = members a k" for k by (simp add: members_def a')
  have cl: "cluster_ok a' k" if "k < length (ar_clusters a')" for k
  proof (cases "k < ?n")
    case True
    with ok have "cluster_ok a k" by (simp add: archi_ok_def)
    moreover have "cluster_at a' k = cluster_at a k" using True by (simp add: a' nth_append)
    ultimately show ?thesis by (simp add: cluster_ok_def mem) (simp add: a')
  next
    case False
    with that have "k = ?n" by (simp add: a')
    then show ?thesis using P none by (simp add: cluster_ok_def mem a' cl_peArray_def platform_ok_def) (simp add: members_def)
  qed
  have pes: "pe_ok a' x" if "x < length (ar_pes a')" for x
    using ok that by (fastforce simp: archi_ok_def pe_ok_def a')
  have "platform_ok a' ?p"
    using P room filled_store [of ?n "clusterArray p"] by (simp add: platform_ok_def a')
  with pes cl show ?thesis by (simp add: archi_ok_def) (simp add: a')
qed


text \<open>A processing element enters the platform when its cluster has room and the platform has room.\<close>

lemma createProcessingElement_eq:
  assumes ok: "archi_ok a" and c: "c < length (ar_clusters a)" and p: "ar_platform a = Some p"
  defines "x \<equiv> length (ar_pes a)" and "cl \<equiv> cluster_at a c"
  shows "createProcessingElement hw ix (Some c) name type aff a =
    (if PECount cl \<ge> length (cl_array cl) then Inl Undefined_Behaviour
     else if x \<ge> length (peArray p) then Inl Out_Of_Range
     else Inr (x, a\<lparr>ar_pes := ar_pes a @ [(pe_new x hw ix c name type aff)\<lparr>virtualIx := x\<rparr>],
            ar_clusters := (ar_clusters a)[c := cl\<lparr>cl_array := (cl_array cl)[PECount cl := Some x],
                PECount := PECount cl + 1, LRTCount := LRTCount cl + of_bool (type = LRT)\<rparr>],
            ar_platform := Some (p\<lparr>hwTypeCount := hwTypeCount p + of_bool (hw \<notin> hardwareType ` set (ar_pes a)),
                peArray := (peArray p)[x := Some x], peCount := Suc x,
                lrtVector := lrtVector p @ (if type = LRT then [x] else [])\<rparr>)\<rparr>))"
proof -
  have P: "platform_ok a p" using ok p by (simp add: archi_ok_def)
  define ps where "ps = ar_pes a @ [pe_new x hw ix c name type aff]"
  have len: "length (ar_pes a) = x" by (simp add: x_def)
  have lrt: "isLRT (ps ! x) \<longleftrightarrow> type = LRT" "isLRT ((ps ! x)\<lparr>virtualIx := x\<rparr>) \<longleftrightarrow> type = LRT"
    and hwx: "hardwareType (ps ! x) = hw" by (simp_all add: ps_def isLRT_def pe_new_def nth_append x_def)
  have "ps ! y = pe_at a y" if "y < x" for y using that by (simp add: ps_def nth_append x_def)
  then have found: "list_ex (\<lambda>q. case q of None \<Rightarrow> False | Some y \<Rightarrow> hardwareType (ps ! y) = hw) (peArray p) \<longleftrightarrow>
        hw \<in> hardwareType ` set (ar_pes a)"
    using P by (fastforce simp: filled_ex platform_ok_def in_set_conv_nth image_iff x_def)
  have n: "peCount p = x" using P by (simp add: platform_ok_def x_def)
  have upd: "ps[x := (ps ! x)\<lparr>virtualIx := x\<rparr>] = ar_pes a @ [(pe_new x hw ix c name type aff)\<lparr>virtualIx := x\<rparr>]"
    and lps: "x < length ps" by (simp_all add: ps_def nth_append x_def)
  show ?thesis
    unfolding createProcessingElement_def addPE_def setPE_def cluster_store_pe_def Let_def option.case len ps_def [symmetric]
      cl_def [symmetric]
    by (simp add: hwx found n lrt lps p set_at_def flip: upd cl_def)
qed


lemma archi_ok_pe:
  assumes ok: "archi_ok a" and c: "c < length (ar_clusters a)"
    and r: "createProcessingElement hw ix (Some c) name type aff a = Inr (x, a')"
  shows "archi_ok a'"
proof -
  from ok c obtain p where p: "ar_platform a = Some p" by (auto simp: archi_ok_def split: option.splits)
  have x: "x = length (ar_pes a)" using r by (simp add: createProcessingElement_eq [OF ok c p] split: if_splits)
  define cl where "cl = cluster_at a c"
  define e where "e = (pe_new x hw ix c name type aff)\<lparr>virtualIx := x\<rparr>"
  define cl2 where "cl2 = cl\<lparr>cl_array := (cl_array cl)[PECount cl := Some x],
     PECount := PECount cl + 1, LRTCount := LRTCount cl + of_bool (type = LRT)\<rparr>"
  define p2 where "p2 = p\<lparr>hwTypeCount := hwTypeCount p + of_bool (hw \<notin> hardwareType ` set (ar_pes a)),
     peArray := (peArray p)[x := Some x], peCount := Suc x, lrtVector := lrtVector p @ (if type = LRT then [x] else [])\<rparr>"
  have room: "PECount cl < length (cl_array cl)" "x < length (peArray p)"
    and a': "a' = a\<lparr>ar_pes := ar_pes a @ [e], ar_clusters := (ar_clusters a)[c := cl2], ar_platform := Some p2\<rparr>"
    using r by (auto simp: createProcessingElement_eq [OF ok c p] x cl_def cl2_def p2_def e_def split: if_splits)
  have e: "virtualIx e = x" "attachedLRT e = x" "pe_cluster e = c" "isLRT e \<longleftrightarrow> type = LRT" "hardwareType e = hw"
    by (simp_all add: e_def pe_new_def isLRT_def)
  have P: "platform_ok a p" using ok p by (simp add: archi_ok_def)
  have at_x: "pe_at a' x = e" and at_old: "\<And>y. y < x \<Longrightarrow> pe_at a' y = pe_at a y" and len: "length (ar_pes a') = Suc x"
    by (simp_all add: a' x nth_append)
  have mem: "members a' k = members a k @ (if k = c then [x] else [])" for k
  proof -
    have "List.filter (\<lambda>y. pe_cluster (pe_at a' y) = k) [0..<x] = members a k"
      unfolding members_def x [symmetric] by (rule filter_cong) (auto simp: at_old)
    then show ?thesis by (simp add: members_def len at_x e)
  qed
  have lrts: "List.filter (\<lambda>y. isLRT (pe_at a' y)) (members a k) = List.filter (\<lambda>y. isLRT (pe_at a y)) (members a k)" for k
    by (rule filter_cong) (auto simp: members_def at_old x)
  have pes: "pe_ok a' y" if "y < length (ar_pes a')" for y
  proof (cases "y = x")
    case True
    then show ?thesis using c by (simp add: pe_ok_def at_x e) (simp add: a')
  next
    case False
    with that have y: "y < x" by (simp add: len)
    with ok have "pe_ok a y" by (simp add: archi_ok_def x)
    then show ?thesis using y by (simp add: pe_ok_def at_old) (simp add: a')
  qed
  have cls: "cluster_ok a' k" if "k < length (ar_clusters a')" for k
  proof -
    from that have k: "k < length (ar_clusters a)" by (simp add: a')
    with ok have K: "cluster_ok a k" by (simp add: archi_ok_def)
    show ?thesis
    proof (cases "k = c")
      case False
      then have "cluster_at a' k = cluster_at a k" by (simp add: a')
      with K False show ?thesis by (simp add: cluster_ok_def mem lrts)
    next
      case True
      have at: "cluster_at a' c = cl2" using c by (simp add: a')
      have "take (Suc (PECount cl)) ((cl_array cl)[PECount cl := Some x]) = cl_peArray cl @ [Some x]"
        using room by (simp add: cl_peArray_def take_Suc_conv_app_nth)
      with K True show ?thesis
        by (simp add: cluster_ok_def mem lrts at at_x e cl_def [symmetric]) (simp add: cl2_def cl_peArray_def)
    qed
  qed
  have "filled (Suc x) ((peArray p)[x := Some x])"
    using P room by (simp add: platform_ok_def filled_store x)
  moreover have "List.filter (\<lambda>y. isLRT (pe_at a' y)) [0..<x] = List.filter (\<lambda>y. isLRT (pe_at a y)) [0..<x]"
    by (rule filter_cong) (auto simp: at_old)
  moreover have "hardwareType ` set (ar_pes a') = insert hw (hardwareType ` set (ar_pes a))" by (simp add: a' e)
  moreover have "card (insert hw (hardwareType ` set (ar_pes a))) =
      card (hardwareType ` set (ar_pes a)) + of_bool (hw \<notin> hardwareType ` set (ar_pes a))"
    by (simp add: card_insert_if)
  ultimately have "platform_ok a' p2"
    using P by (simp add: platform_ok_def p2_def len at_x e(4) x [symmetric]) (simp add: a')
  with pes cls show ?thesis by (simp add: archi_ok_def) (simp add: a')
qed

lemma archi_built_ok: "archi_built a \<Longrightarrow> archi_ok a"
proof (induction rule: archi_built.induct)
  case (built_attach a x lrt a')
  then show ?case by (simp add: archi_ok_attach)
next
  case (built_buses a bs)
  then show ?case by (auto simp: archi_ok_def platform_ok_def pe_ok_def cluster_ok_def members_def split: option.splits)
next
  case (built_name a pe name)
  then show ?case by (cases pe) (simp_all add: setPEName_def archi_ok_pe_update)
next
  case (built_enable a pe status)
  then show ?case by (cases pe) (simp_all add: enablePE_def archi_ok_pe_update)
qed (blast intro: archi_ok_empty archi_ok_createPlatform archi_ok_cluster archi_ok_pe archi_ok_bus)+


text \<open>An element stored in the array of a cluster is one of its own.\<close>

lemma cluster_array_member:
  assumes ok: "archi_ok a" and c: "c < length (ar_clusters a)" and pe: "Some x \<in> set (cl_array (cluster_at a c))"
  shows "x < length (ar_pes a) \<and> pe_cluster (pe_at a x) = c \<and> virtualIx (pe_at a x) = x"
proof -
  have C: "cluster_ok a c" using ok c by (simp add: archi_ok_def)
  from pe obtain i where i: "i < length (cl_array (cluster_at a c))" "cl_array (cluster_at a c) ! i = Some x"
    by (auto simp: in_set_conv_nth)
  with C have "i < PECount (cluster_at a c)" by (force simp: cluster_ok_def not_le [symmetric])
  with i have "Some x \<in> set (cl_peArray (cluster_at a c))" by (auto simp: cl_peArray_def in_set_conv_nth intro!: exI [of _ i])
  with C have "x \<in> set (members a c)" by (auto simp: cluster_ok_def)
  with ok show ?thesis by (auto simp: members_def archi_ok_def pe_ok_def)
qed

subsection \<open>The slots of the buses between clusters\<close>

lemma precompute_ix_zero: "length (precompute_ix n 0 xs) = length xs \<and> (\<forall>i < length xs. precompute_ix n 0 xs ! i = size_max)"
proof (induction xs)
  case (Cons x xs)
  have "sub64 0 1 = size_max" by (simp add: sub64_def)
  with Cons show ?case by (auto simp: nth_Cons add64_def mul64_def split: nat.splits)
qed simp

text \<open>The tables an architecture never changes after its creation: every base index is the wrapped \<open>- 1\<close>.\<close>

definition slots_ok :: "archi \<Rightarrow> platform \<Rightarrow> bool" where
  "slots_ok a p \<longleftrightarrow> preComputedClusterIx p = replicate (length (clusterArray p)) size_max \<and>
     length (interClusterMemoryBusArray p) = getClusterMemoryInterfaceCount (length (clusterArray p)) \<and>
     (\<forall>ib. Some ib \<in> set (interClusterMemoryBusArray p) \<longrightarrow> ib < length (ar_inters a))"

lemma slots_ok_new: "slots_ok a (platform_new n m)"
proof -
  have "precompute_ix n 0 (replicate n size_max) = replicate n size_max"
    using precompute_ix_zero [of n "replicate n size_max"] by (intro nth_equalityI) auto
  then show ?thesis by (simp add: platform_new_def slots_ok_def)
qed

lemma archi_built_slots:
  "archi_built a \<Longrightarrow> ar_platform a = Some p \<Longrightarrow> slots_ok a p"
proof (induction arbitrary: p rule: archi_built.induct)
  case (built_platform a n m a')
  then have "p = platform_new n m" by (auto simp: createPlatform_def split: option.splits)
  then show ?case by (simp add: slots_ok_new)
next
  case (built_cluster a n mem c a')
  then show ?case
    by (auto simp: createCluster_def cluster_new_def addCluster_def Let_def cl_peArray_def list_update_append
        slots_ok_def split: if_splits option.splits)
next
  case (built_pe a c hw ix name type aff x a')
  note ok = archi_built_ok [OF built_pe.hyps(1)]
  with built_pe.hyps(2) obtain q where q: "ar_platform a = Some q" by (auto simp: archi_ok_def split: option.splits)
  from built_pe.hyps(3) built_pe.prems built_pe.IH [OF q] show ?case
    by (auto simp: createProcessingElement_eq [OF ok built_pe.hyps(2) q] slots_ok_def split: if_splits)
next
  case (built_bus a ca cb ab ba i a')
  from built_bus.hyps(2) built_bus.prems obtain x y q ib where q: "ar_platform a = Some q"
    and p: "setClusterToClusterMemoryBus (a\<lparr>ar_inters := ar_inters a @ [ib]\<rparr>) q x y (Some (length (ar_inters a))) = Inr p"
    and a': "ar_inters a' = ar_inters a @ [ib]"
    by (auto simp: createInterClusterMemoryBus_def Let_def split: option.splits)
  from p consider "p = q" | k where "p = q\<lparr>interClusterMemoryBusArray :=
      (interClusterMemoryBusArray q)[k := Some (length (ar_inters a))]\<rparr>"
    by (auto simp: setClusterToClusterMemoryBus_def split: if_splits)
  then show ?case
    by cases (use built_bus.IH [OF q] in \<open>auto simp: slots_ok_def a' less_Suc_eq dest!: set_update_subset_insert [THEN subsetD]\<close>)
qed (auto simp: archi_empty_def attachPEToLRT_def setPEName_def enablePE_def slots_ok_def split: option.splits if_splits)

lemma bus_count_enough:
  assumes "x < N" "y < N" "x \<noteq> y" "N < 2 ^ 32"
  shows "max x y - 1 < getClusterMemoryInterfaceCount N"
proof -
  have N: "2 \<le> N" using assms by auto
  have "N * (N - 1) < 2 ^ 32 * 2 ^ 32" using assms(4) N by (intro mult_strict_mono) auto
  then have "N * (N - 1) < 2 ^ 64" by simp
  moreover have "sub64 N 1 = N - 1" using N assms(4) by (intro sub64_exact) auto
  ultimately have "getClusterMemoryInterfaceCount N = N * (N - 1) div 2"
    by (simp add: getClusterMemoryInterfaceCount_def mul64_exact)
  moreover have "2 * (N - 1) \<le> N * (N - 1)" using N by (intro mult_right_mono) auto
  ultimately have "N - 1 \<le> getClusterMemoryInterfaceCount N" by linarith
  with assms show ?thesis by (auto simp: max_def)
qed

text \<open>The slot of a pair only depends on its larger index.\<close>

lemma slot_index:
  assumes "slots_ok a p" "x < length (clusterArray p)" "y < length (clusterArray p)" "x \<noteq> y" "length (clusterArray p) < 2 ^ 32"
  shows "getCluster2ClusterIndex p x y = Inr (max x y - 1)"
proof -
  have wrap: "add64 18446744073709551615 k = k - Suc 0" if "0 < k" "k < 2 ^ 32" for k :: nat
  proof -
    from that(1) obtain m where m: "k = Suc m" by (cases k) auto
    have "add64 18446744073709551615 k = (m + 2 ^ 64) mod 2 ^ 64" by (simp add: add64_def m)
    also have "\<dots> = m mod 2 ^ 64" by (rule mod_add_self2)
    also have "\<dots> = k - Suc 0" using that m by simp
    finally show ?thesis .
  qed
  from assms show ?thesis
    by (auto simp: getCluster2ClusterIndex_def slots_ok_def wrap max_def)
qed


text \<open>Reading and writing a slot.\<close>

lemma bus_lookup_eq:
  assumes ok: "archi_ok a" and slots: "slots_ok a p" and p: "ar_platform a = Some p"
    and u: "u < length (ar_clusters a)" and v: "v < length (ar_clusters a)" and uv: "u \<noteq> v"
    and N: "length (clusterArray p) < 2 ^ 32"
  shows "getClusterToClusterMemoryBus a p u v =
    (case interClusterMemoryBusArray p ! (max u v - 1) of None \<Rightarrow> Inl Null_Deref
     | Some ib \<Rightarrow> inter_bus_get (ar_inters a ! ib) (Some u) (Some v))"
proof -
  have ix: "cl_ix (cluster_at a u) = u" "cl_ix (cluster_at a v) = v"
    using ok u v by (simp_all add: archi_ok_def cluster_ok_def)
  have n: "u < length (clusterArray p)" "v < length (clusterArray p)"
    using ok u v p by (auto simp: archi_ok_def platform_ok_def filled_def)
  have k: "max u v - 1 < length (interClusterMemoryBusArray p)"
    using bus_count_enough [OF n uv N] slots by (simp add: slots_ok_def)
  have "ib < length (ar_inters a)" if "interClusterMemoryBusArray p ! (max u v - 1) = Some ib" for ib
    using slots k that by (metis nth_mem slots_ok_def)
  then show ?thesis
    using uv k by (auto simp: getClusterToClusterMemoryBus_def ix slot_index [OF slots n uv N] split: option.splits)
qed

lemma createInterClusterMemoryBus_eq:
  assumes ok: "archi_ok a" and slots: "slots_ok a p" and p: "ar_platform a = Some p"
    and u: "x < length (ar_clusters a)" and v: "y < length (ar_clusters a)" and uv: "x \<noteq> y"
    and N: "length (clusterArray p) < 2 ^ 32"
  shows "createInterClusterMemoryBus (Some x) (Some y) ab ba a =
    Inr (length (ar_inters a), a\<lparr>ar_inters := ar_inters a @ [\<lparr>ib_clusterA = x, ib_clusterB = y, busAToB = ab, busBToA = ba\<rparr>],
      ar_platform := Some (p\<lparr>interClusterMemoryBusArray :=
        (interClusterMemoryBusArray p)[max x y - 1 := Some (length (ar_inters a))]\<rparr>)\<rparr>)"
proof -
  have ix: "cl_ix (cluster_at a x) = x" "cl_ix (cluster_at a y) = y"
    using ok u v by (simp_all add: archi_ok_def cluster_ok_def)
  have n: "x < length (clusterArray p)" "y < length (clusterArray p)"
    using ok u v p by (auto simp: archi_ok_def platform_ok_def filled_def)
  have k: "max x y - 1 < length (interClusterMemoryBusArray p)"
    using bus_count_enough [OF n uv N] slots by (simp add: slots_ok_def)
  show ?thesis
    using uv k by (simp add: createInterClusterMemoryBus_def setClusterToClusterMemoryBus_def inter_bus_new_def p ix Let_def
        slot_index [OF slots n uv N])
qed

text \<open>The lookup after a registration: the pair itself, the pairs with another larger index, and those that share the slot.\<close>

lemma bus_lookup_after_create:
  assumes built: "archi_built a" and p: "ar_platform a = Some p" and N: "length (clusterArray p) < 2 ^ 32"
    and xy: "x < length (ar_clusters a)" "y < length (ar_clusters a)" "x \<noteq> y"
    and uv: "u < length (ar_clusters a)" "v < length (ar_clusters a)" "u \<noteq> v"
  obtains i a' p' where "createInterClusterMemoryBus (Some x) (Some y) ab ba a = Inr (i, a')" "ar_platform a' = Some p'"
    "ar_buses a' = ar_buses a" "ar_pes a' = ar_pes a" "ar_clusters a' = ar_clusters a"
    "getClusterToClusterMemoryBus a' p' u v =
       (if u = x \<and> v = y then Inr ab else if u = y \<and> v = x then Inr ba
        else if max u v = max x y then Inr None
        else getClusterToClusterMemoryBus a p u v)"
proof -
  note ok = archi_built_ok [OF built] and slots = archi_built_slots [OF built p]
  define p' where "p' = p\<lparr>interClusterMemoryBusArray :=
        (interClusterMemoryBusArray p)[max x y - 1 := Some (length (ar_inters a))]\<rparr>"
  define a' where "a' = a\<lparr>ar_inters := ar_inters a @ [\<lparr>ib_clusterA = x, ib_clusterB = y, busAToB = ab, busBToA = ba\<rparr>],
      ar_platform := Some p'\<rparr>"
  have c: "createInterClusterMemoryBus (Some x) (Some y) ab ba a = Inr (length (ar_inters a), a')"
    by (simp add: createInterClusterMemoryBus_eq [OF ok slots p xy N] a'_def p'_def)
  have built': "archi_built a'" by (rule built_bus [OF built c])
  have p'a: "ar_platform a' = Some p'" by (simp add: a'_def)
  have ok': "archi_ok a'" and slots': "slots_ok a' p'"
    using archi_built_ok [OF built'] archi_built_slots [OF built' p'a] by auto
  have n: "x < length (clusterArray p)" "y < length (clusterArray p)" "u < length (clusterArray p)" "v < length (clusterArray p)"
    using ok xy uv p by (auto simp: archi_ok_def platform_ok_def filled_def)
  have k: "max x y - 1 < length (interClusterMemoryBusArray p)" "max u v - 1 < length (interClusterMemoryBusArray p)"
    using bus_count_enough [OF n(1,2) xy(3) N] bus_count_enough [OF n(3,4) uv(3) N] slots by (simp_all add: slots_ok_def)
  have old: "ib < length (ar_inters a)" if "interClusterMemoryBusArray p ! (max u v - 1) = Some ib" for ib
    using slots k that by (metis nth_mem slots_ok_def)
  have "getClusterToClusterMemoryBus a' p' u v =
    (case interClusterMemoryBusArray p' ! (max u v - 1) of None \<Rightarrow> Inl Null_Deref
     | Some ib \<Rightarrow> inter_bus_get (ar_inters a' ! ib) (Some u) (Some v))"
    by (rule bus_lookup_eq [OF ok' slots' p'a]) (use uv N in \<open>auto simp: a'_def p'_def\<close>)
  also have "\<dots> = (if u = x \<and> v = y then Inr ab else if u = y \<and> v = x then Inr ba
        else if max u v = max x y then Inr None else getClusterToClusterMemoryBus a p u v)"
  proof (cases "max u v = max x y")
    case True
    have "interClusterMemoryBusArray p' ! (max u v - 1) = Some (length (ar_inters a))"
      unfolding p'_def True using k(1) by simp
    then have "(case interClusterMemoryBusArray p' ! (max u v - 1) of None \<Rightarrow> Inl Null_Deref
        | Some ib \<Rightarrow> inter_bus_get (ar_inters a' ! ib) (Some u) (Some v)) =
      inter_bus_get \<lparr>ib_clusterA = x, ib_clusterB = y, busAToB = ab, busBToA = ba\<rparr> (Some u) (Some v)"
      by (simp add: a'_def)
    with True show ?thesis by (simp add: inter_bus_get_def)
  next
    case False
    then have ne: "max x y - 1 \<noteq> max u v - 1" using xy(3) uv(3) by (simp add: max_def split: if_splits)
    have at: "interClusterMemoryBusArray p' ! (max u v - 1) = interClusterMemoryBusArray p ! (max u v - 1)"
      unfolding p'_def by (simp add: nth_list_update_neq [OF ne] del: One_nat_def)
    have "(case interClusterMemoryBusArray p' ! (max u v - 1) of None \<Rightarrow> Inl Null_Deref
        | Some ib \<Rightarrow> inter_bus_get (ar_inters a' ! ib) (Some u) (Some v)) = getClusterToClusterMemoryBus a p u v"
    proof (cases "interClusterMemoryBusArray p ! (max u v - 1)")
      case None
      then show ?thesis unfolding bus_lookup_eq [OF ok slots p uv N] at by simp
    next
      case (Some ib)
      have "ar_inters a' ! ib = ar_inters a ! ib" using old [OF Some] by (simp add: a'_def nth_append)
      with Some show ?thesis unfolding bus_lookup_eq [OF ok slots p uv N] at by simp
    qed
    moreover have "\<not> (u = x \<and> v = y)" "\<not> (u = y \<and> v = x)" using False by (metis max.commute)+
    ultimately show ?thesis by (simp only: False if_False)
  qed
  finally show thesis using that [OF c p'a] by (simp add: a'_def)
qed


lemma inter_cluster_bus_lookup_aux:
  assumes "archi_built a" and "ar_platform a = Some p" and "length (clusterArray p) < 2 ^ 32"
    and "x < length (ar_clusters a)" and "y < length (ar_clusters a)" and "x \<noteq> y"
    and "u < length (ar_clusters a)" and "v < length (ar_clusters a)" and "u \<noteq> v"
  shows "\<exists>i a' p'. createInterClusterMemoryBus (Some x) (Some y) ab ba a = Inr (i, a') \<and> ar_platform a' = Some p' \<and>
    getClusterToClusterMemoryBus a' p' u v =
      (if u = x \<and> v = y then Inr ab else if u = y \<and> v = x then Inr ba
       else if max u v = max x y then Inr None
       else getClusterToClusterMemoryBus a p u v)"
  by (rule bus_lookup_after_create [OF assms, of ab ba]) blast

subsection \<open>Properties\<close>

text \<open>A small platform for the examples: three clusters of one element each, the second one not a local runtime.\<close>

definition sample_built :: "archi result" where
  "sample_built =
     bindE (createPlatform 3 3 archi_empty) (\<lambda>a.
     bindE (createCluster 1 (Some 0) a) (\<lambda>(c0, a). bindE (createCluster 1 (Some 1) a) (\<lambda>(c1, a).
     bindE (createCluster 1 (Some 2) a) (\<lambda>(c2, a).
     bindE (createProcessingElement 0 0 (Some c0) ''pe0'' LRT 0 a) (\<lambda>(_, a).
     bindE (createProcessingElement 1 0 (Some c1) ''pe1'' PE 0 a) (\<lambda>(_, a).
     bindE (createProcessingElement 0 1 (Some c2) ''pe2'' LRT 0 a) (\<lambda>(_, a). Inr a)))))))"

definition sample_archi :: archi where
  "sample_archi =
     \<lparr>ar_pes =
        [\<lparr>hardwareType = 0, hardwareIx = 0, affinity = 0, virtualIx = 0, pe_name = ''pe0'', spiderPEType = LRT, pe_cluster = 0,
           attachedLRT = 0, pe_enabled = True\<rparr>,
         \<lparr>hardwareType = 1, hardwareIx = 0, affinity = 0, virtualIx = 1, pe_name = ''pe1'', spiderPEType = PE, pe_cluster = 1,
           attachedLRT = 1, pe_enabled = True\<rparr>,
         \<lparr>hardwareType = 0, hardwareIx = 1, affinity = 0, virtualIx = 2, pe_name = ''pe2'', spiderPEType = LRT, pe_cluster = 2,
           attachedLRT = 2, pe_enabled = True\<rparr>],
      ar_clusters =
        [\<lparr>cl_array = [Some 0], cl_memory = 0, LRTCount = 1, PECount = 1, cl_ix = 0\<rparr>,
         \<lparr>cl_array = [Some 1], cl_memory = 1, LRTCount = 0, PECount = 1, cl_ix = 1\<rparr>,
         \<lparr>cl_array = [Some 2], cl_memory = 2, LRTCount = 1, PECount = 1, cl_ix = 2\<rparr>],
      ar_buses = [], ar_inters = [],
      ar_platform = Some
        \<lparr>clusterArray = [Some 0, Some 1, Some 2], peArray = [Some 0, Some 1, Some 2],
         interClusterMemoryBusArray = [None, None, None], preComputedClusterIx = [size_max, size_max, size_max],
         lrtVector = [0, 2], externBuffersVector = [], clusterCount = 3, peCount = 3, hwTypeCount = 2, grt = None\<rparr>\<rparr>"

text \<open>A bus with linear costs.\<close>

definition sample_bus :: "nat \<Rightarrow> nat \<Rightarrow> bus" where
  "sample_bus x y = bus_new\<lparr>sendCostRoutine := (\<lambda>n. x * n), receiveCostRoutine := (\<lambda>n. y * n)\<rparr>"


lemma replicate_three: "replicate 3 v = [v, v, v]"
  by (simp add: numeral_3_eq_3)

lemma sample_eval: "sample_built = Inr sample_archi"
  by (simp add: sample_built_def sample_archi_def createPlatform_def createCluster_def createProcessingElement_def platform_new_def
      getClusterMemoryInterfaceCount_def mul64_def sub64_def add64_def archi_empty_def cluster_new_def addCluster_def cl_peArray_def
      addPE_def cluster_store_pe_def setPE_def pe_new_def isLRT_def Let_def replicate_three)

lemma createCluster_ref:
  "createCluster n mem a = Inr (c, a') \<Longrightarrow> c = length (ar_clusters a) \<and> length (ar_clusters a') = Suc (length (ar_clusters a))"
  by (auto simp: createCluster_def cluster_new_def addCluster_def Let_def cl_peArray_def split: if_splits option.splits)

lemma createProcessingElement_clusters:
  "createProcessingElement hw ix cl name type aff a = Inr (x, a') \<Longrightarrow> length (ar_clusters a') = length (ar_clusters a)"
  by (auto simp: createProcessingElement_def addPE_def setPE_def Let_def split: if_splits option.splits)

lemma sample_archi_built: "archi_built sample_archi"
proof -
  have "archi_built a" if "sample_built = Inr a" for a
    using that unfolding sample_built_def
    by (elim bindE_InrE; clarsimp; elim bindE_InrE; clarsimp)
      (smt (verit) archi_built.intros createCluster_ref createProcessingElement_clusters lessI less_SucI)
  then show ?thesis using sample_eval by simp
qed


text \<open>
  An architecture built through the interface numbers processing elements and clusters in creation order, without
  holes: \<open>virtualIx\<close> is the position in the array of the platform, each cluster lists exactly its elements, the local
  runtimes and the hardware types are counted exactly, and every element is still attached to itself.
\<close>

theorem platform_numbering:
  assumes "archi_built a" and "ar_platform a = Some p"
  shows "(\<forall>x < length (ar_pes a). virtualIx (pe_at a x) = x \<and> processingElement p x = Inr (Some x) \<and>
      attachedLRT (pe_at a x) = x) \<and> peCount p = length (ar_pes a) \<and>
    lrtVector p = List.filter (\<lambda>x. isLRT (pe_at a x)) [0..<length (ar_pes a)] \<and>
    hwTypeCount p = card (hardwareType ` set (ar_pes a)) \<and>
    (\<forall>c < length (ar_clusters a). cl_ix (cluster_at a c) = c \<and> cl_peArray (cluster_at a c) = List.map Some (members a c) \<and>
      LRTCount (cluster_at a c) = length (List.filter (\<lambda>x. isLRT (pe_at a x)) (members a c)))"
proof -
  from archi_built_ok [OF assms(1)] assms(2) have ok: "archi_ok a" and P: "platform_ok a p" by (auto simp: archi_ok_def)
  from P have "processingElement p x = Inr (Some x)" if "x < length (ar_pes a)" for x
    using that filled_nth [of "length (ar_pes a)" "peArray p" x]
    by (auto simp: processingElement_def platform_ok_def filled_def)
  with ok P show ?thesis by (simp add: archi_ok_def pe_ok_def cluster_ok_def platform_ok_def)
qed

lemma platform_numbering_witness:
  "lrtVector (the (ar_platform sample_archi)) = [0, 2] \<and> hwTypeCount (the (ar_platform sample_archi)) = 2 \<and>
   virtualIx (pe_at sample_archi 2) = 2"
  using platform_numbering [OF sample_archi_built, of "the (ar_platform sample_archi)"]
  by (simp add: sample_archi_def isLRT_def)

text \<open>\<open>attachPEToLRT\<close> never attaches anything: it gives up on an element attached to itself, as all are.\<close>

lemma attach_pe_to_lrt_is_noop:
  "archi_built a \<Longrightarrow> x < length (ar_pes a) \<Longrightarrow> attachPEToLRT (Some x) lrt a = Inr a"
  by (blast intro: archi_ok_attach archi_built_ok)

text \<open>
  Registering the buses of a pair of clusters succeeds, and looking them up gives each direction its own bus. The
  lookup of another pair is unchanged unless its larger index is the same: then the pair shares the slot and its bus
  is gone.
\<close>

theorem inter_cluster_bus_lookup:
  assumes "archi_built a" and "ar_platform a = Some p" and "length (clusterArray p) < 2 ^ 32"
    and "x < length (ar_clusters a)" and "y < length (ar_clusters a)" and "x \<noteq> y"
    and "u < length (ar_clusters a)" and "v < length (ar_clusters a)" and "u \<noteq> v"
  shows "\<exists>i a' p'. createInterClusterMemoryBus (Some x) (Some y) ab ba a = Inr (i, a') \<and> ar_platform a' = Some p' \<and>
    getClusterToClusterMemoryBus a' p' u v =
      (if u = x \<and> v = y then Inr ab else if u = y \<and> v = x then Inr ba
       else if max u v = max x y then Inr None
       else getClusterToClusterMemoryBus a p u v)"
  using assms by (rule inter_cluster_bus_lookup_aux)

lemma inter_cluster_bus_lookup_witness:
  "\<exists>i a' p'. createInterClusterMemoryBus (Some 1) (Some 2) (Some 7) (Some 8) sample_archi = Inr (i, a') \<and>
     ar_platform a' = Some p' \<and> getClusterToClusterMemoryBus a' p' 0 2 = Inr None"
  using inter_cluster_bus_lookup [OF sample_archi_built, of "the (ar_platform sample_archi)" 1 2 0 2 "Some 7" "Some 8"]
  by (simp add: sample_archi_def)

text \<open>
  Once the two buses of a pair of clusters are registered, sending data between their elements costs the sum of
  the sending and receiving costs, saturated at \<open>UINT64_MAX\<close>; an element of a third cluster that shares the slot is
  out of reach: computing its cost dereferences null.
\<close>

theorem communication_cost:
  assumes built: "archi_built a" and p: "ar_platform a = Some p" and N: "length (clusterArray p) < 2 ^ 32"
    and s: "s < length (ar_pes a)" and t: "t < length (ar_pes a)"
    and st: "pe_cluster (pe_at a s) \<noteq> pe_cluster (pe_at a t)"
    and buses: "i < length (ar_buses a)" "j < length (ar_buses a)"
    and c: "createInterClusterMemoryBus (Some (pe_cluster (pe_at a s))) (Some (pe_cluster (pe_at a t))) (Some i) (Some j) a = Inr (k, a')"
    and p': "ar_platform a' = Some p'"
  shows "dataCommunicationCostPEToPE a' p' (Some s) (Some t) n =
           Inr (saturateAdd (sendCost (ar_buses a ! i) n) (receiveCost (ar_buses a ! j) n)) \<and>
         (\<forall>r < length (ar_pes a). pe_cluster (pe_at a r) < pe_cluster (pe_at a t) \<longrightarrow>
            pe_cluster (pe_at a s) < pe_cluster (pe_at a t) \<longrightarrow> pe_cluster (pe_at a r) \<noteq> pe_cluster (pe_at a s) \<longrightarrow>
            dataCommunicationCostPEToPE a' p' (Some r) (Some t) n = Inl Null_Deref)"
proof -
  let ?x = "pe_cluster (pe_at a s)" and ?y = "pe_cluster (pe_at a t)"
  have cl: "pe_cluster (pe_at a r) < length (ar_clusters a)" if "r < length (ar_pes a)" for r
    using archi_built_ok [OF built] that by (auto simp: archi_ok_def pe_ok_def)
  note xy = cl [OF s] cl [OF t] st
  have lookup: "getClusterToClusterMemoryBus a' p' u v =
       (if u = ?x \<and> v = ?y then Inr (Some i) else if u = ?y \<and> v = ?x then Inr (Some j)
        else if max u v = max ?x ?y then Inr None else getClusterToClusterMemoryBus a p u v)"
    and same: "ar_buses a' = ar_buses a" "ar_pes a' = ar_pes a"
    if uv: "u < length (ar_clusters a)" "v < length (ar_clusters a)" "u \<noteq> v" for u v
  proof -
    obtain i2 a2 p2 where 1: "createInterClusterMemoryBus (Some ?x) (Some ?y) (Some i) (Some j) a = Inr (i2, a2)"
      "ar_platform a2 = Some p2" "ar_buses a2 = ar_buses a" "ar_pes a2 = ar_pes a"
      and 2: "getClusterToClusterMemoryBus a2 p2 u v = (if u = ?x \<and> v = ?y then Inr (Some i)
        else if u = ?y \<and> v = ?x then Inr (Some j)
        else if max u v = max ?x ?y then Inr None else getClusterToClusterMemoryBus a p u v)"
      by (rule bus_lookup_after_create [OF built p N xy uv, of "Some i" "Some j"])
    from 1(1) c have "a2 = a'" by simp
    with 1(2) p' have "p2 = p'" by simp
    with 1 2 \<open>a2 = a'\<close> show "getClusterToClusterMemoryBus a' p' u v = (if u = ?x \<and> v = ?y then Inr (Some i)
        else if u = ?y \<and> v = ?x then Inr (Some j)
        else if max u v = max ?x ?y then Inr None else getClusterToClusterMemoryBus a p u v)"
      "ar_buses a' = ar_buses a" "ar_pes a' = ar_pes a" by (simp_all only:)
  qed
  have one: "getClusterToClusterMemoryBus a' p' ?x ?y = Inr (Some i)" using lookup [OF xy] by (simp only: simp_thms if_True)
  have two: "getClusterToClusterMemoryBus a' p' ?y ?x = Inr (Some j)"
    using lookup [OF xy(2,1) not_sym [OF st]] st by (simp only: simp_thms if_True if_False not_sym [OF st])
  have "dataCommunicationCostPEToPE a' p' (Some s) (Some t) n =
      Inr (saturateAdd (sendCost (ar_buses a ! i) n) (receiveCost (ar_buses a ! j) n))"
    using st buses one two same [OF xy] by (auto simp: dataCommunicationCostPEToPE_def bus_deref_def Let_def)
  moreover have "dataCommunicationCostPEToPE a' p' (Some r) (Some t) n = Inl Null_Deref"
    if r: "r < length (ar_pes a)" "pe_cluster (pe_at a r) < ?y" "?x < ?y" "pe_cluster (pe_at a r) \<noteq> ?x" for r
  proof -
    have "getClusterToClusterMemoryBus a' p' (pe_cluster (pe_at a r)) ?y = Inr None"
    proof -
      have "max (pe_cluster (pe_at a r)) ?y = max ?x ?y" and "pe_cluster (pe_at a r) \<noteq> ?y" using r by auto
      with lookup [OF cl [OF r(1)] cl [OF t]] r(4) show ?thesis by (simp only: simp_thms if_True if_False)
    qed
    then show ?thesis using r same [OF xy] by (auto simp: dataCommunicationCostPEToPE_def bus_deref_def Let_def)
  qed
  ultimately show ?thesis by blast
qed


lemma communication_cost_witness:
  "\<exists>k a' p'. createInterClusterMemoryBus (Some 0) (Some 2) (Some 0) (Some 1)
       (sample_archi\<lparr>ar_buses := [sample_bus 3 4, sample_bus 5 6]\<rparr>) = Inr (k, a') \<and> ar_platform a' = Some p' \<and>
     dataCommunicationCostPEToPE a' p' (Some 0) (Some 2) 10 = Inr 90 \<and>
     dataCommunicationCostPEToPE a' p' (Some 1) (Some 2) 10 = Inl Null_Deref"
proof -
  let ?a = "sample_archi\<lparr>ar_buses := [sample_bus 3 4, sample_bus 5 6]\<rparr>"
  have built: "archi_built ?a" by (rule built_buses [OF sample_archi_built])
  obtain k a' p' where c: "createInterClusterMemoryBus (Some 0) (Some 2) (Some 0) (Some 1) ?a = Inr (k, a')"
    and p': "ar_platform a' = Some p'"
    using inter_cluster_bus_lookup_aux [OF built, of "the (ar_platform ?a)" 0 2 0 2 "Some 0" "Some 1"]
    by (auto simp: sample_archi_def)
  have "dataCommunicationCostPEToPE a' p' (Some 0) (Some 2) 10 = Inr 90 \<and>
     dataCommunicationCostPEToPE a' p' (Some 1) (Some 2) 10 = Inl Null_Deref"
    using communication_cost [OF built _ _ _ _ _ _ _ _ p', of "the (ar_platform ?a)" 0 2 0 1 k 10] c
    by (simp add: sample_archi_def sample_bus_def sendCost_def receiveCost_def saturateAdd_def All_less_Suc add64_def sub64_def)
  with c p' show ?thesis by blast
qed

end
