(* ===== verification/RTInfo.thy ===== *)
theory RTInfo
  imports ArchiProps
begin

text \<open>
  \<open>runtime/common/RTInfo.h\<close>: the mapping constraints and the timings of a vertex, in arrays sized by the platform at
  construction. The expressions of the timings are a type parameter with their evaluation as an argument.
\<close>

record 'e rtinfo =
  peMappableArray :: "bool list"
  clusterMappableArray :: "bool list"
  timingArray :: "'e list"
  kernelIx :: nat

text \<open>\<open>expr_of_int\<close> is the constructor of \<open>Expression\<close> from a value.\<close>

definition rtinfo_new :: "(int \<Rightarrow> 'e) \<Rightarrow> archi \<Rightarrow> 'e rtinfo" where
  "rtinfo_new expr_of_int a =
     (case ar_platform a of
        None \<Rightarrow> \<lparr>peMappableArray = [], clusterMappableArray = [], timingArray = [], kernelIx = size_max\<rparr>
      | Some p \<Rightarrow> \<lparr>peMappableArray = replicate (peCount p) True, clusterMappableArray = replicate (length (clusterArray p)) True,
          timingArray = replicate (hwTypeCount p) (expr_of_int 100), kernelIx = size_max\<rparr>)"

definition isPEMappable :: "archi \<Rightarrow> 'e rtinfo \<Rightarrow> nat option \<Rightarrow> bool result" where
  "isPEMappable a info pe =
     (case pe of None \<Rightarrow> Inr False | Some x \<Rightarrow> get_at (peMappableArray info) (virtualIx (pe_at a x)))"

definition isPEMappableIx :: "bool \<Rightarrow> platform \<Rightarrow> 'e rtinfo \<Rightarrow> nat \<Rightarrow> bool result" where
  "isPEMappableIx debug p info ix =
     (if debug \<and> ix \<ge> peCount p then Inl Spider_Exception else get_at (peMappableArray info) ix)"

definition isClusterMappable :: "archi \<Rightarrow> 'e rtinfo \<Rightarrow> nat option \<Rightarrow> bool result" where
  "isClusterMappable a info c =
     (case c of None \<Rightarrow> Inr False | Some x \<Rightarrow> get_at (clusterMappableArray info) (cl_ix (cluster_at a x)))"

definition isClusterMappableIx :: "'e rtinfo \<Rightarrow> nat \<Rightarrow> bool result" where
  "isClusterMappableIx info ix = get_at (clusterMappableArray info) ix"

text \<open>The timings are indexed by the hardware type itself.\<close>

definition timingOnPE :: "('e \<Rightarrow> int result) \<Rightarrow> archi \<Rightarrow> 'e rtinfo \<Rightarrow> nat option \<Rightarrow> int result" where
  "timingOnPE eval a info pe =
     (case pe of None \<Rightarrow> Inr (2 ^ 63 - 1) | Some x \<Rightarrow> bindE (get_at (timingArray info) (hardwareType (pe_at a x))) eval)"

definition timingOnPEIx :: "('e \<Rightarrow> int result) \<Rightarrow> archi \<Rightarrow> platform \<Rightarrow> 'e rtinfo \<Rightarrow> nat \<Rightarrow> int result" where
  "timingOnPEIx eval a p info ix =
     bindE (processingElement p ix) (\<lambda>pe. case pe of None \<Rightarrow> Inl Null_Deref
       | Some x \<Rightarrow> bindE (get_at (timingArray info) (hardwareType (pe_at a x))) eval)"

definition setMappableConstraintOnPE :: "archi \<Rightarrow> nat \<Rightarrow> bool \<Rightarrow> 'e rtinfo \<Rightarrow> 'e rtinfo result" where
  "setMappableConstraintOnPE a pe mappable info =
     (let c = cluster_at a (pe_cluster (pe_at a pe)) in
      bindE (set_at (peMappableArray info) (virtualIx (pe_at a pe)) mappable) (\<lambda>ms.
      bindE (if \<not> mappable
             then foldE (\<lambda>b elt. case elt of None \<Rightarrow> Inl Null_Deref
                         | Some y \<Rightarrow> bindE (get_at ms (virtualIx (pe_at a y))) (\<lambda>m. Inr (b \<or> m))) False (cl_peArray c)
             else Inr mappable) (\<lambda>clusterMappable.
      bindE (set_at (clusterMappableArray info) (cl_ix c) clusterMappable) (\<lambda>cs.
        Inr (info\<lparr>peMappableArray := ms, clusterMappableArray := cs\<rparr>)))))"

definition setMappableConstraintOnAllPE :: "archi \<Rightarrow> bool \<Rightarrow> 'e rtinfo \<Rightarrow> 'e rtinfo result" where
  "setMappableConstraintOnAllPE a mappable info =
     (case ar_platform a of
        None \<Rightarrow> Inr info
      | Some p \<Rightarrow>
          if peCount p > length (peMappableArray info) \<or> length (clusterArray p) > length (clusterMappableArray info)
          then Inl Undefined_Behaviour
          else Inr (info\<lparr>peMappableArray := replicate (peCount p) mappable @ drop (peCount p) (peMappableArray info),
            clusterMappableArray := replicate (length (clusterArray p)) mappable @
              drop (length (clusterArray p)) (clusterMappableArray info)\<rparr>))"

definition setTimingOnHWType :: "bool \<Rightarrow> platform \<Rightarrow> nat \<Rightarrow> 'e \<Rightarrow> 'e rtinfo \<Rightarrow> 'e rtinfo result" where
  "setTimingOnHWType debug p hwType e info =
     (if debug \<and> hwType \<ge> hwTypeCount p then Inl Spider_Exception
      else bindE (set_at (timingArray info) hwType e) (\<lambda>ts. Inr (info\<lparr>timingArray := ts\<rparr>)))"

text \<open>\<open>setTimingOnCluster\<close> does the same with its index.\<close>

definition setTimingOnCluster :: "bool \<Rightarrow> platform \<Rightarrow> nat \<Rightarrow> 'e \<Rightarrow> 'e rtinfo \<Rightarrow> 'e rtinfo result" where
  "setTimingOnCluster debug p ix e info =
     (if debug \<and> ix \<ge> hwTypeCount p then Inl Spider_Exception
      else bindE (set_at (timingArray info) ix e) (\<lambda>ts. Inr (info\<lparr>timingArray := ts\<rparr>)))"

definition setTimingOnAllHWTypes :: "archi \<Rightarrow> 'e \<Rightarrow> 'e rtinfo \<Rightarrow> 'e rtinfo result" where
  "setTimingOnAllHWTypes a e info =
     (case ar_platform a of
        None \<Rightarrow> Inr info
      | Some p \<Rightarrow> if hwTypeCount p > length (timingArray info) then Inl Undefined_Behaviour
          else Inr (info\<lparr>timingArray := replicate (hwTypeCount p) e @ drop (hwTypeCount p) (timingArray info)\<rparr>))"

definition setKernelIx :: "nat \<Rightarrow> 'e rtinfo \<Rightarrow> 'e rtinfo" where
  "setKernelIx ix info = info\<lparr>kernelIx := ix\<rparr>"

text \<open>\<open>api/runtime-api.cpp\<close>: constraints on a whole cluster.\<close>

definition setVertexMappableOnCluster :: "archi \<Rightarrow> nat option \<Rightarrow> bool \<Rightarrow> bool \<Rightarrow> 'e rtinfo \<Rightarrow> 'e rtinfo result" where
  "setVertexMappableOnCluster a c executable v info =
     (if \<not> executable then Inr info
      else case c of None \<Rightarrow> Inl Spider_Exception
        | Some k \<Rightarrow> foldE (\<lambda>i elt. case elt of None \<Rightarrow> Inl Null_Deref | Some x \<Rightarrow> setMappableConstraintOnPE a x v i) info
            (cl_peArray (cluster_at a k)))"

subsection \<open>A cluster is mappable exactly when one of its elements is\<close>

datatype constraint_op = On_PE nat bool | On_All bool

fun constraint_step :: "archi \<Rightarrow> 'e rtinfo \<Rightarrow> constraint_op \<Rightarrow> 'e rtinfo result" where
  "constraint_step a info (On_PE x v) = setMappableConstraintOnPE a x v info"
| "constraint_step a info (On_All v) = setMappableConstraintOnAllPE a v info"

definition constraints_ok :: "archi \<Rightarrow> 'e rtinfo \<Rightarrow> bool" where
  "constraints_ok a info \<longleftrightarrow>
     length (peMappableArray info) = length (ar_pes a) \<and> length (ar_clusters a) \<le> length (clusterMappableArray info) \<and>
     (case ar_platform a of None \<Rightarrow> True | Some p \<Rightarrow> length (clusterMappableArray info) = length (clusterArray p)) \<and>
     (\<forall>c < length (ar_clusters a). members a c \<noteq> [] \<longrightarrow>
        clusterMappableArray info ! c = (\<exists>x \<in> set (members a c). peMappableArray info ! x))"

lemma members_bound: "x \<in> set (members a c) \<Longrightarrow> x < length (ar_pes a) \<and> pe_cluster (pe_at a x) = c"
  by (auto simp: members_def)

lemma members_all:
  assumes "members a c \<noteq> []"
  shows "(\<exists>x \<in> set (members a c). (replicate (length (ar_pes a)) v @ vs) ! x) = v"
proof -
  have "(replicate (length (ar_pes a)) v @ vs) ! x = v" if "x \<in> set (members a c)" for x
    using members_bound [OF that] by (simp add: nth_append)
  moreover obtain x where "x \<in> set (members a c)" using assms by (cases "members a c") auto
  ultimately show ?thesis by blast
qed

lemma constraints_ok_new: "archi_ok a \<Longrightarrow> constraints_ok a (rtinfo_new f a)"
  using members_all [where v = True and vs = "[]"]
  by (auto simp: constraints_ok_def rtinfo_new_def archi_ok_def platform_ok_def filled_def split: option.splits)

lemma foldE_any:
  assumes "\<forall>x \<in> set xs. x < length ms \<and> virtualIx (pe_at a x) = x"
  shows "foldE (\<lambda>b elt. case elt of None \<Rightarrow> Inl Null_Deref
      | Some y \<Rightarrow> bindE (get_at ms (virtualIx (pe_at a y))) (\<lambda>m. Inr (b \<or> m))) b (List.map Some xs) =
    Inr (b \<or> (\<exists>x \<in> set xs. ms ! x))"
  using assms by (induction xs arbitrary: b) auto

lemma setMappable_effect:
  assumes ok: "archi_ok a" and I: "constraints_ok a info" and x: "x < length (ar_pes a)"
  shows "\<exists>info'. setMappableConstraintOnPE a x v info = Inr info' \<and> constraints_ok a info'"
proof -
  define c where "c = pe_cluster (pe_at a x)"
  define ms where "ms = (peMappableArray info)[x := v]"
  have c: "c < length (ar_clusters a)" and vx: "virtualIx (pe_at a x) = x"
    using ok x by (auto simp: archi_ok_def pe_ok_def c_def)
  then have C: "cl_ix (cluster_at a c) = c" "cl_peArray (cluster_at a c) = List.map Some (members a c)"
    using ok by (auto simp: archi_ok_def cluster_ok_def)
  have len: "length (peMappableArray info) = length (ar_pes a)" "c < length (clusterMappableArray info)"
    using I c by (auto simp: constraints_ok_def)
  have "\<forall>y \<in> set (members a c). y < length ms \<and> virtualIx (pe_at a y) = y"
    using ok len by (auto simp: ms_def archi_ok_def pe_ok_def dest: members_bound)
  note any = foldE_any [OF this]
  have xin: "x \<in> set (members a c)" using x by (simp add: members_def c_def)
  have nth: "ms ! y = (if y = x then v else peMappableArray info ! y)" if "y < length (ar_pes a)" for y
    using that len by (simp add: ms_def nth_list_update)
  define info' where "info' = info\<lparr>peMappableArray := ms,
     clusterMappableArray := (clusterMappableArray info)[c := (\<exists>y \<in> set (members a c). ms ! y)]\<rparr>"
  have "v \<Longrightarrow> \<exists>y \<in> set (members a c). ms ! y" using xin nth [OF x] by (intro bexI [of _ x]) auto
  then have "setMappableConstraintOnPE a x v info = Inr info'"
    using len x by (auto simp: setMappableConstraintOnPE_def vx c_def [symmetric] ms_def [symmetric] C any info'_def Let_def)
  moreover have "constraints_ok a info'"
  proof -
    have "(\<exists>y \<in> set (members a k). ms ! y) = (\<exists>y \<in> set (members a k). peMappableArray info ! y)" if "k \<noteq> c" for k
      using that nth by (metis c_def members_bound)
    with I len show ?thesis
      by (auto simp: constraints_ok_def info'_def nth_list_update ms_def [symmetric] split: option.splits) (auto simp: ms_def)
  qed
  ultimately show ?thesis by blast
qed

lemma setAll_effect:
  assumes ok: "archi_ok a" and I: "constraints_ok a info"
  shows "\<exists>info'. setMappableConstraintOnAllPE a v info = Inr info' \<and> constraints_ok a info'"
proof (cases "ar_platform a")
  case None
  with I show ?thesis by (simp add: setMappableConstraintOnAllPE_def)
next
  case (Some p)
  with ok have P: "platform_ok a p" by (simp add: archi_ok_def)
  then have n: "peCount p = length (ar_pes a)" "length (ar_clusters a) \<le> length (clusterArray p)"
    by (auto simp: platform_ok_def filled_def)
  show ?thesis using n I Some members_all [where v = v and vs = "[]"]
    by (auto simp: setMappableConstraintOnAllPE_def constraints_ok_def)
qed

text \<open>
  Whatever constraints are set on elements or on all of them, the calls succeed and a cluster that has elements is
  mappable exactly when one of its elements is.
\<close>

theorem cluster_mappable_iff_pe:
  assumes "archi_built a" and "c < length (ar_clusters a)" and "members a c \<noteq> []"
    and "\<forall>x v. On_PE x v \<in> set ops \<longrightarrow> x < length (ar_pes a)"
  shows "\<exists>info. foldE (constraint_step a) (rtinfo_new f a) ops = Inr info \<and>
    isClusterMappable a info (Some c) = Inr (\<exists>x \<in> set (members a c). isPEMappable a info (Some x) = Inr True)"
proof -
  have ok: "archi_ok a" by (rule archi_built_ok [OF assms(1)])
  have "\<exists>info. foldE (constraint_step a) (rtinfo_new f a) ops = Inr info \<and> constraints_ok a info"
  proof (rule foldE_succeeds)
    show "constraints_ok a (rtinfo_new f a)" by (rule constraints_ok_new [OF ok])
    fix info opn
    assume "opn \<in> set ops" "constraints_ok a info"
    with assms(4) show "\<exists>s'. constraint_step a info opn = Inr s' \<and> constraints_ok a s'"
      by (cases opn) (auto intro: setMappable_effect [OF ok] setAll_effect [OF ok])
  qed
  then obtain info where info: "foldE (constraint_step a) (rtinfo_new f a) ops = Inr info" and I: "constraints_ok a info"
    by blast
  have "isPEMappable a info (Some x) = Inr (peMappableArray info ! x)" if "x \<in> set (members a c)" for x
    using members_bound [OF that] ok I by (simp add: isPEMappable_def archi_ok_def pe_ok_def constraints_ok_def)
  moreover have "isClusterMappable a info (Some c) = Inr (clusterMappableArray info ! c)"
    using ok I assms(2) by (simp add: isClusterMappable_def archi_ok_def cluster_ok_def constraints_ok_def)
  ultimately show ?thesis using info I assms(2,3) by (auto simp: constraints_ok_def)
qed

lemma cluster_mappable_iff_pe_witness:
  "\<exists>info. foldE (constraint_step sample_archi) (rtinfo_new id sample_archi) [On_All True, On_PE 2 False] = Inr info \<and>
     isClusterMappable sample_archi info (Some 2) = Inr False"
proof -
  have m: "members sample_archi 2 = [2]" by (simp add: members_def sample_archi_def)
  from cluster_mappable_iff_pe [OF sample_archi_built, of 2 "[On_All True, On_PE 2 False]" id]
  obtain info where i: "foldE (constraint_step sample_archi) (rtinfo_new id sample_archi) [On_All True, On_PE 2 False] = Inr info"
    and c: "isClusterMappable sample_archi info (Some 2) =
      Inr (\<exists>x \<in> set (members sample_archi 2). isPEMappable sample_archi info (Some x) = Inr True)"
    by (auto simp: m) (auto simp: sample_archi_def)
  from i have "isPEMappable sample_archi info (Some 2) = Inr False"
    by (auto simp: isPEMappable_def setMappableConstraintOnPE_def setMappableConstraintOnAllPE_def rtinfo_new_def sample_archi_def
        Let_def)
  with i c show ?thesis by (simp add: m)
qed

end
