(* ===== verification/Tasks.thy ===== *)
theory Tasks
  imports RTInfo Dependencies
begin

text \<open>
  The tasks of \<open>scheduling/task\<close>: a \<open>Task *\<close> is an index into a list of task objects. A task object of the source keeps
  its mapping in its own fields, one set per firing for a \<open>VectPiSDFTask\<close>; here every object has a list of slots and the
  slot in use is the current firing, or 0. What the tasks read of the graphs and of the platform, and does not change
  while tasks are mapped, is in an environment; the indices they write there (\<open>scheduleTaskIx_\<close> of a single-rate
  vertex, \<open>taskIxArray_\<close> of a \<open>GraphAlloc\<close>) are part of the state. The checks of the build without \<open>NDEBUG\<close> are on.
\<close>

datatype task_state = NOT_SCHEDULABLE | NOT_RUNNABLE | PENDING | READY | RUNNING | SKIPPED

datatype sync_type = SEND | RECEIVE

datatype task_kind =
    SRDAG_Task nat                     \<comment> \<open>its vertex\<close>
  | Sync_Task sync_type "nat option"   \<comment> \<open>its bus\<close>
  | Uni_Task nat nat                   \<comment> \<open>graph firing and vertex\<close>
  | Vect_Task nat nat

record slot =
  sl_startTime :: nat
  sl_endTime :: nat
  sl_mappedPE :: nat
  sl_jobExecIx :: nat
  sl_state :: task_state

record task =
  tk_kind :: task_kind
  tk_firing :: nat
  tk_slots :: "slot list"
  tk_sync :: "nat list"          \<comment> \<open>\<open>syncInfoArray_\<close>; of a \<open>SyncTask\<close> its single value\<close>
  tk_ix :: nat                   \<comment> \<open>of a \<open>SyncTask\<close>\<close>
  tk_successor :: "nat option"
  tk_dependency :: "nat option"
  tk_depIx :: nat

text \<open>A single-rate vertex as its task sees it: sources and rates of its input edges, sinks of its output edges, its
  timings (expressions already evaluated with its parameters) and mapping constraints.\<close>

record srdag_info =
  si_inputs :: "(nat \<times> int) list"
  si_outputs :: "nat list"
  si_rtinfo :: "int result rtinfo"

record sched_env =
  se_archi :: archi
  se_platform :: platform
  se_srdag :: "srdag_info list"
  se_world :: world
  se_fuel :: nat
  se_pisdf :: "nat \<Rightarrow> nat \<Rightarrow> int result rtinfo"

record task_store =
  ts_tasks :: "task list"
  ts_vertexIx :: "nat list"
  ts_taskIx :: "nat \<Rightarrow> nat \<Rightarrow> nat list"

abbreviation LRT_count :: "sched_env \<Rightarrow> nat" where
  "LRT_count env \<equiv> length (lrtVector (se_platform env))"

definition slot_new :: "nat \<Rightarrow> slot" where
  "slot_new et = \<lparr>sl_startTime = u64_max, sl_endTime = et, sl_mappedPE = u32_max, sl_jobExecIx = u32_max,
     sl_state = NOT_SCHEDULABLE\<rparr>"

definition task_new :: "task_kind \<Rightarrow> slot list \<Rightarrow> nat list \<Rightarrow> task" where
  "task_new k slots sync = \<lparr>tk_kind = k, tk_firing = 0, tk_slots = slots, tk_sync = sync, tk_ix = u32_max,
     tk_successor = None, tk_dependency = None, tk_depIx = u32_max\<rparr>"

definition srdag_task_new :: "sched_env \<Rightarrow> nat option \<Rightarrow> task result" where
  "srdag_task_new env vertex =
     (case vertex of None \<Rightarrow> Inl Spider_Exception
      | Some v \<Rightarrow> Inr (task_new (SRDAG_Task v) [slot_new u64_max] (replicate (LRT_count env) u32_max)))"

definition sync_task_new :: "sync_type \<Rightarrow> nat option \<Rightarrow> task" where
  "sync_task_new type bus = task_new (Sync_Task type bus) [slot_new u64_max] [u32_max]"

definition uni_task_new :: "sched_env \<Rightarrow> nat \<Rightarrow> nat option \<Rightarrow> task result" where
  "uni_task_new env h vertex =
     (case vertex of None \<Rightarrow> Inl Spider_Exception
      | Some v \<Rightarrow> Inr (task_new (Uni_Task h v) [slot_new 0] (replicate (LRT_count env) u32_max)))"

definition vect_task_new :: "sched_env \<Rightarrow> nat \<Rightarrow> nat option \<Rightarrow> task result" where
  "vect_task_new env h vertex =
     (case vertex of None \<Rightarrow> Inl Spider_Exception
      | Some v \<Rightarrow> bindE (getRV (se_world env) h (Actor v)) (\<lambda>rv.
          Inr (task_new (Vect_Task h v) (replicate rv (slot_new 0)) (replicate (mul32 (LRT_count env) rv) u32_max))))"

text \<open>\<open>reset\<close> of the two PiSDF tasks.\<close>

definition task_reset :: "sched_env \<Rightarrow> task \<Rightarrow> task result" where
  "task_reset env t =
     (case tk_kind t of
        Uni_Task _ _ \<Rightarrow> Inr (t\<lparr>tk_slots := [slot_new 0], tk_sync := replicate (LRT_count env) u32_max\<rparr>)
      | Vect_Task h v \<Rightarrow> bindE (getRV (se_world env) h (Actor v)) (\<lambda>rv.
          Inr (t\<lparr>tk_slots := replicate rv (slot_new 0), tk_sync := replicate (mul32 rv (LRT_count env)) u32_max\<rparr>))
      | _ \<Rightarrow> Inr t)"

subsection \<open>The fields of the current firing\<close>

definition slot_ix :: "task \<Rightarrow> nat" where
  "slot_ix t = (case tk_kind t of Vect_Task _ _ \<Rightarrow> tk_firing t | _ \<Rightarrow> 0)"

definition task_slot :: "task \<Rightarrow> slot result" where
  "task_slot t = get_at (tk_slots t) (slot_ix t)"

definition task_set_slot :: "(slot \<Rightarrow> slot) \<Rightarrow> task \<Rightarrow> task result" where
  "task_set_slot f t =
     bindE (task_slot t) (\<lambda>s. Inr (t\<lparr>tk_slots := (tk_slots t)[slot_ix t := f s]\<rparr>))"

definition task_at :: "task_store \<Rightarrow> nat \<Rightarrow> task result" where
  "task_at s x = get_at (ts_tasks s) x"

definition task_put :: "nat \<Rightarrow> task \<Rightarrow> task_store \<Rightarrow> task_store" where
  "task_put x t s = s\<lparr>ts_tasks := (ts_tasks s)[x := t]\<rparr>"

definition task_update :: "nat \<Rightarrow> (task \<Rightarrow> task result) \<Rightarrow> task_store \<Rightarrow> task_store result" where
  "task_update x f s = bindE (task_at s x) (\<lambda>t. bindE (f t) (\<lambda>t'. Inr (task_put x t' s)))"

definition task_endTime :: "task_store \<Rightarrow> nat \<Rightarrow> nat result" where
  "task_endTime s x = bindE (task_at s x) (\<lambda>t. bindE (task_slot t) (\<lambda>sl. Inr (sl_endTime sl)))"

definition task_getState :: "task_store \<Rightarrow> nat \<Rightarrow> task_state result" where
  "task_getState s x = bindE (task_at s x) (\<lambda>t. bindE (task_slot t) (\<lambda>sl. Inr (sl_state sl)))"

definition task_jobExecIx :: "task_store \<Rightarrow> nat \<Rightarrow> nat result" where
  "task_jobExecIx s x = bindE (task_at s x) (\<lambda>t. bindE (task_slot t) (\<lambda>sl. Inr (sl_jobExecIx sl)))"

definition task_setState :: "task_state \<Rightarrow> nat \<Rightarrow> task_store \<Rightarrow> task_store result" where
  "task_setState v x = task_update x (task_set_slot (\<lambda>sl. sl\<lparr>sl_state := v\<rparr>))"

definition task_setEndTime :: "nat \<Rightarrow> nat \<Rightarrow> task_store \<Rightarrow> task_store result" where
  "task_setEndTime v x = task_update x (task_set_slot (\<lambda>sl. sl\<lparr>sl_endTime := v\<rparr>))"

definition task_setJobExecIx :: "nat \<Rightarrow> nat \<Rightarrow> task_store \<Rightarrow> task_store result" where
  "task_setJobExecIx v x = task_update x (task_set_slot (\<lambda>sl. sl\<lparr>sl_jobExecIx := v\<rparr>))"

text \<open>Only a \<open>SyncTask\<close> keeps its start time.\<close>

definition task_setStartTime :: "nat \<Rightarrow> nat \<Rightarrow> task_store \<Rightarrow> task_store result" where
  "task_setStartTime v x =
     task_update x (\<lambda>t. case tk_kind t of Sync_Task _ _ \<Rightarrow> task_set_slot (\<lambda>sl. sl\<lparr>sl_startTime := v\<rparr>) t | _ \<Rightarrow> Inr t)"

text \<open>\<open>mappedPe()\<close>: the entry of the platform, which may be null.\<close>

definition task_mappedPe :: "sched_env \<Rightarrow> task_store \<Rightarrow> nat \<Rightarrow> nat option result" where
  "task_mappedPe env s x =
     bindE (task_at s x) (\<lambda>t. bindE (task_slot t) (\<lambda>sl. processingElement (se_platform env) (sl_mappedPE sl)))"

definition task_mappedLRT :: "sched_env \<Rightarrow> task_store \<Rightarrow> nat \<Rightarrow> nat result" where
  "task_mappedLRT env s x =
     bindE (task_mappedPe env s x) (\<lambda>pe. case pe of None \<Rightarrow> Inl Null_Deref
       | Some p \<Rightarrow> Inr (attachedLRT (pe_at (se_archi env) p)))"

definition task_setMappedPE :: "sched_env \<Rightarrow> nat \<Rightarrow> nat \<Rightarrow> task_store \<Rightarrow> task_store result" where
  "task_setMappedPE env pe x =
     task_update x (\<lambda>t.
       bindE (task_set_slot (\<lambda>sl. sl\<lparr>sl_mappedPE := virtualIx (pe_at (se_archi env) pe) mod 2 ^ 32\<rparr>) t) (\<lambda>t1.
       case tk_kind t of
         SRDAG_Task _ \<Rightarrow>
           bindE (set_at (tk_sync t1) (virtualIx (pe_at (se_archi env) (attachedLRT (pe_at (se_archi env) pe)))) u32_max) (\<lambda>sync.
             Inr (t1\<lparr>tk_sync := sync\<rparr>))
       | _ \<Rightarrow> Inr t1))"

subsection \<open>Synchronization indices\<close>

definition sync_pos :: "sched_env \<Rightarrow> task \<Rightarrow> nat \<Rightarrow> nat" where
  "sync_pos env t lrt =
     (case tk_kind t of Sync_Task _ _ \<Rightarrow> 0
      | Vect_Task _ _ \<Rightarrow> lrt + mul32 (tk_firing t) (LRT_count env)
      | _ \<Rightarrow> lrt)"

definition task_syncExecIxOnLRT :: "sched_env \<Rightarrow> task_store \<Rightarrow> nat \<Rightarrow> nat \<Rightarrow> nat result" where
  "task_syncExecIxOnLRT env s x lrt = bindE (task_at s x) (\<lambda>t. get_at (tk_sync t) (sync_pos env t lrt))"

definition task_setSyncExecIxOnLRT :: "sched_env \<Rightarrow> nat \<Rightarrow> nat \<Rightarrow> nat \<Rightarrow> task_store \<Rightarrow> task_store result" where
  "task_setSyncExecIxOnLRT env lrt v x =
     task_update x (\<lambda>t.
       bindE (get_at (tk_sync t) (sync_pos env t lrt)) (\<lambda>old.
         let new = (case tk_kind t of Sync_Task _ _ \<Rightarrow> if old = u32_max \<or> v > old then v else old | _ \<Rightarrow> v) in
         Inr (t\<lparr>tk_sync := (tk_sync t)[sync_pos env t lrt := new]\<rparr>)))"

subsection \<open>Firings and indices\<close>

definition task_setOnFiring :: "sched_env \<Rightarrow> nat \<Rightarrow> nat \<Rightarrow> task_store \<Rightarrow> task_store result" where
  "task_setOnFiring env k x =
     task_update x (\<lambda>t. case tk_kind t of
       SRDAG_Task _ \<Rightarrow> Inr t
     | Sync_Task _ _ \<Rightarrow> Inr t
     | Uni_Task h v \<Rightarrow> bindE (getRV (se_world env) h (Actor v)) (\<lambda>rv.
         if k \<ge> rv then Inl Spider_Exception else Inr (t\<lparr>tk_firing := k\<rparr>))
     | Vect_Task h v \<Rightarrow>
         if k = tk_firing t then Inr t
         else bindE (getRV (se_world env) h (Actor v)) (\<lambda>rv.
           if k \<ge> rv then Inl Spider_Exception else Inr (t\<lparr>tk_firing := k\<rparr>)))"

definition task_getFiring :: "task_store \<Rightarrow> nat \<Rightarrow> nat result" where
  "task_getFiring s x = bindE (task_at s x) (\<lambda>t. Inr (case tk_kind t of Uni_Task _ _ \<Rightarrow> tk_firing t | Vect_Task _ _ \<Rightarrow> tk_firing t | _ \<Rightarrow> 0))"

definition task_getIx :: "task_store \<Rightarrow> nat \<Rightarrow> nat result" where
  "task_getIx s x =
     bindE (task_at s x) (\<lambda>t. case tk_kind t of
       SRDAG_Task v \<Rightarrow> bindE (get_at (ts_vertexIx s) v) (\<lambda>i. Inr (i mod 2 ^ 32))
     | Sync_Task _ _ \<Rightarrow> Inr (tk_ix t)
     | Uni_Task h v \<Rightarrow> get_at (ts_taskIx s h v) (tk_firing t)
     | Vect_Task h v \<Rightarrow> get_at (ts_taskIx s h v) (tk_firing t))"

definition task_setIx :: "nat \<Rightarrow> nat \<Rightarrow> task_store \<Rightarrow> task_store result" where
  "task_setIx i x s =
     bindE (task_at s x) (\<lambda>t. case tk_kind t of
       SRDAG_Task v \<Rightarrow> bindE (set_at (ts_vertexIx s) v i) (\<lambda>is. Inr (s\<lparr>ts_vertexIx := is\<rparr>))
     | Sync_Task _ _ \<Rightarrow> Inr (task_put x (t\<lparr>tk_ix := i\<rparr>) s)
     | Uni_Task h v \<Rightarrow> bindE (set_at (ts_taskIx s h v) (tk_firing t) i) (\<lambda>is.
         Inr (s\<lparr>ts_taskIx := (ts_taskIx s)(h := (ts_taskIx s h)(v := is))\<rparr>))
     | Vect_Task h v \<Rightarrow> bindE (set_at (ts_taskIx s h v) (tk_firing t) i) (\<lambda>is.
         Inr (s\<lparr>ts_taskIx := (ts_taskIx s)(h := (ts_taskIx s h)(v := is))\<rparr>)))"

subsection \<open>Timings and constraints\<close>

definition task_rtinfo :: "sched_env \<Rightarrow> task_kind \<Rightarrow> int result rtinfo result" where
  "task_rtinfo env k =
     (case k of SRDAG_Task v \<Rightarrow> bindE (get_at (se_srdag env) v) (\<lambda>i. Inr (si_rtinfo i))
      | Uni_Task h v \<Rightarrow> Inr (se_pisdf env h v) | Vect_Task h v \<Rightarrow> Inr (se_pisdf env h v)
      | Sync_Task _ _ \<Rightarrow> Inl Undefined_Behaviour)"

definition task_isMappableOnPE :: "sched_env \<Rightarrow> task_store \<Rightarrow> nat \<Rightarrow> nat option \<Rightarrow> bool result" where
  "task_isMappableOnPE env s x pe =
     bindE (task_at s x) (\<lambda>t. case tk_kind t of
       Sync_Task _ _ \<Rightarrow> Inr True
     | k \<Rightarrow> bindE (task_rtinfo env k) (\<lambda>i. isPEMappable (se_archi env) i pe))"

definition task_timingOnPE :: "sched_env \<Rightarrow> task_store \<Rightarrow> nat \<Rightarrow> nat option \<Rightarrow> nat result" where
  "task_timingOnPE env s x pe =
     bindE (task_at s x) (\<lambda>t. case tk_kind t of
       Sync_Task type bus \<Rightarrow>
         (case bus of None \<Rightarrow> Inr u64_max
          | Some b \<Rightarrow> bindE (get_at (ar_buses (se_archi env)) b) (\<lambda>b. Inr (if type = SEND then writeSpeed b else readSpeed b)))
     | k \<Rightarrow> bindE (task_rtinfo env k) (\<lambda>i. bindE (timingOnPE id (se_archi env) i pe) (\<lambda>x. Inr (to_u64 x))))"

definition task_startTime :: "sched_env \<Rightarrow> task_store \<Rightarrow> nat \<Rightarrow> nat result" where
  "task_startTime env s x =
     bindE (task_at s x) (\<lambda>t. case tk_kind t of
       Sync_Task _ _ \<Rightarrow> bindE (task_slot t) (\<lambda>sl. Inr (sl_startTime sl))
     | _ \<Rightarrow> bindE (task_endTime s x) (\<lambda>et. bindE (task_mappedPe env s x) (\<lambda>pe.
         bindE (task_timingOnPE env s x pe) (\<lambda>d. Inr (sub64 et d)))))"

text \<open>\<open>setPredecessor\<close>, \<open>setSuccessor\<close> and \<open>setDepIx\<close> of a \<open>SyncTask\<close>.\<close>

definition sync_connect :: "nat option \<Rightarrow> nat option \<Rightarrow> nat \<Rightarrow> nat \<Rightarrow> task_store \<Rightarrow> task_store result" where
  "sync_connect pred succ depIx x =
     task_update x (\<lambda>t. Inr (t\<lparr>tk_dependency := (case pred of None \<Rightarrow> tk_dependency t | p \<Rightarrow> p),
       tk_successor := (case succ of None \<Rightarrow> tk_successor t | p \<Rightarrow> p), tk_depIx := depIx mod 2 ^ 32\<rparr>))"

end
