(* ===== verification/Schedule.thy ===== *)
theory Schedule
  imports Tasks
begin

text \<open>
  \<open>scheduling/schedule/ScheduleStats.h\<close> and \<open>Schedule.cpp\<close>: the times and counts per processing element, in arrays
  without bound checks, and the list of scheduled tasks with their firings.
\<close>

subsection \<open>Statistics\<close>

record stats =
  startTimeArray :: "nat list"
  endTimeArray :: "nat list"
  loadTimeArray :: "nat list"
  idleTimeArray :: "nat list"
  jobCountArray :: "nat list"
  minStartTime :: nat
  maxEndTime :: nat

definition stats_new :: "platform \<Rightarrow> stats" where
  "stats_new p = (let z = replicate (peCount p) 0 in
     \<lparr>startTimeArray = z, endTimeArray = z, loadTimeArray = z, idleTimeArray = z, jobCountArray = z,
      minStartTime = u64_max, maxEndTime = 0\<rparr>)"

text \<open>\<open>reset\<close> fills the arrays made for the platform.\<close>

definition stats_reset :: "platform \<Rightarrow> stats \<Rightarrow> stats result" where
  "stats_reset p st =
     (let n = peCount p; fill = (\<lambda>xs. replicate n 0 @ drop n xs) in
      if n > length (startTimeArray st) then Inl Undefined_Behaviour
      else Inr \<lparr>startTimeArray = fill (startTimeArray st), endTimeArray = fill (endTimeArray st),
        loadTimeArray = fill (loadTimeArray st), idleTimeArray = fill (idleTimeArray st),
        jobCountArray = fill (jobCountArray st), minStartTime = u64_max, maxEndTime = 0\<rparr>)"

definition st_startTime :: "stats \<Rightarrow> nat \<Rightarrow> nat result" where
  "st_startTime st ix = get_at (startTimeArray st) ix"

definition st_endTime :: "stats \<Rightarrow> nat \<Rightarrow> nat result" where
  "st_endTime st ix = get_at (endTimeArray st) ix"

definition st_loadTime :: "stats \<Rightarrow> nat \<Rightarrow> nat result" where
  "st_loadTime st ix = get_at (loadTimeArray st) ix"

definition st_idleTime :: "stats \<Rightarrow> nat \<Rightarrow> nat result" where
  "st_idleTime st ix = get_at (idleTimeArray st) ix"

definition st_jobCount :: "stats \<Rightarrow> nat \<Rightarrow> nat result" where
  "st_jobCount st ix = get_at (jobCountArray st) ix"

definition makespan :: "stats \<Rightarrow> nat" where
  "makespan st = sub64 (maxEndTime st) (minStartTime st)"

definition makespan_of :: "stats \<Rightarrow> nat \<Rightarrow> nat result" where
  "makespan_of st ix =
     bindE (get_at (startTimeArray st) ix) (\<lambda>s. bindE (get_at (endTimeArray st) ix) (\<lambda>e. Inr (sub64 s e)))"

definition updateStartTime :: "nat \<Rightarrow> nat \<Rightarrow> stats \<Rightarrow> stats result" where
  "updateStartTime ix time st =
     bindE (set_at (startTimeArray st) ix time) (\<lambda>xs.
       Inr (st\<lparr>startTimeArray := xs, minStartTime := min time (minStartTime st)\<rparr>))"

definition updateEndTime :: "nat \<Rightarrow> nat \<Rightarrow> stats \<Rightarrow> stats result" where
  "updateEndTime ix time st =
     bindE (set_at (endTimeArray st) ix time) (\<lambda>xs.
       Inr (st\<lparr>endTimeArray := xs, maxEndTime := max time (maxEndTime st)\<rparr>))"

definition updateLoadTime :: "nat \<Rightarrow> nat \<Rightarrow> stats \<Rightarrow> stats result" where
  "updateLoadTime ix time st =
     bindE (get_at (loadTimeArray st) ix) (\<lambda>v. Inr (st\<lparr>loadTimeArray := (loadTimeArray st)[ix := add64 v time]\<rparr>))"

definition updateIDLETime :: "nat \<Rightarrow> nat \<Rightarrow> stats \<Rightarrow> stats result" where
  "updateIDLETime ix time st =
     bindE (get_at (idleTimeArray st) ix) (\<lambda>v. Inr (st\<lparr>idleTimeArray := (idleTimeArray st)[ix := add64 v time]\<rparr>))"

definition updateJobCount :: "nat \<Rightarrow> nat \<Rightarrow> stats \<Rightarrow> stats result" where
  "updateJobCount ix inc st =
     bindE (get_at (jobCountArray st) ix) (\<lambda>v. Inr (st\<lparr>jobCountArray := (jobCountArray st)[ix := add64 v inc]\<rparr>))"

subsection \<open>The schedule\<close>

record schedule =
  sc_store :: task_store
  sc_tasks :: "(nat \<times> nat) list"
  sc_stats :: stats

definition schedule_new :: "platform \<Rightarrow> task_store \<Rightarrow> schedule" where
  "schedule_new p s = \<lparr>sc_store = s, sc_tasks = [], sc_stats = stats_new p\<rparr>"

definition schedule_clear :: "platform \<Rightarrow> schedule \<Rightarrow> schedule result" where
  "schedule_clear p sc = bindE (stats_reset p (sc_stats sc)) (\<lambda>st. Inr (sc\<lparr>sc_stats := st, sc_tasks := []\<rparr>))"

definition on_store :: "(task_store \<Rightarrow> task_store result) \<Rightarrow> schedule \<Rightarrow> schedule result" where
  "on_store f sc = bindE (f (sc_store sc)) (\<lambda>s. Inr (sc\<lparr>sc_store := s\<rparr>))"

text \<open>\<open>task(ix)\<close>: the task is left on the firing of the entry.\<close>

definition schedule_task :: "sched_env \<Rightarrow> nat \<Rightarrow> schedule \<Rightarrow> (nat option \<times> schedule) result" where
  "schedule_task env ix sc =
     (if ix \<ge> length (sc_tasks sc) then Inr (None, sc)
      else let (x, k) = sc_tasks sc ! ix in
        bindE (on_store (task_setOnFiring env k x) sc) (\<lambda>sc1. Inr (Some x, sc1)))"

definition schedule_reset :: "sched_env \<Rightarrow> schedule \<Rightarrow> schedule result" where
  "schedule_reset env sc =
     foldE (\<lambda>c (x, k). bindE (on_store (task_setOnFiring env k x) c) (on_store (task_setState READY x))) sc (sc_tasks sc)"

definition updateTaskAndSetReady :: "sched_env \<Rightarrow> nat \<Rightarrow> nat \<Rightarrow> nat \<Rightarrow> nat \<Rightarrow> schedule \<Rightarrow> schedule result" where
  "updateTaskAndSetReady env x slave startT endT sc =
     bindE (task_getState (sc_store sc) x) (\<lambda>state.
     if state = READY then Inr sc
     else
       let peIx = virtualIx (pe_at (se_archi env) slave) in
       bindE (on_store (task_setMappedPE env slave x) sc) (\<lambda>c. bindE (on_store (task_setStartTime startT x) c) (\<lambda>c.
       bindE (on_store (task_setEndTime endT x) c) (\<lambda>c.
       bindE (st_jobCount (sc_stats c) peIx) (\<lambda>jobs. bindE (on_store (task_setJobExecIx (jobs mod 2 ^ 32) x) c) (\<lambda>c.
       bindE (updateStartTime peIx startT (sc_stats c)) (\<lambda>st. bindE (st_endTime st peIx) (\<lambda>old.
       bindE (updateIDLETime peIx (sub64 startT old) st) (\<lambda>st. bindE (updateEndTime peIx endT st) (\<lambda>st.
       bindE (updateLoadTime peIx (sub64 endT startT) st) (\<lambda>st. bindE (updateJobCount peIx 1 st) (\<lambda>st.
       on_store (task_setState READY x) (c\<lparr>sc_stats := st\<rparr>)))))))))))))"

definition addTask :: "sched_env \<Rightarrow> nat option \<Rightarrow> nat \<Rightarrow> schedule \<Rightarrow> schedule result" where
  "addTask env task k sc =
     (case task of None \<Rightarrow> Inr sc
      | Some x \<Rightarrow> bindE (on_store (task_setOnFiring env k x) sc) (\<lambda>c.
          bindE (on_store (task_setIx (length (sc_tasks c) mod 2 ^ 32) x) c) (\<lambda>c.
            Inr (c\<lparr>sc_tasks := sc_tasks c @ [(x, k)]\<rparr>))))"

definition insertTasks :: "sched_env \<Rightarrow> nat \<Rightarrow> (nat \<times> nat) list \<Rightarrow> schedule \<Rightarrow> schedule result" where
  "insertTasks env pos xs sc =
     (if pos > length (sc_tasks sc) then Inl Undefined_Behaviour
      else
        let c0 = sc\<lparr>sc_tasks := take pos (sc_tasks sc) @ xs @ drop pos (sc_tasks sc)\<rparr> in
        foldE (\<lambda>c i. bindE (schedule_task env i c) (\<lambda>(t, c1). case t of None \<Rightarrow> Inl Null_Deref
            | Some x \<Rightarrow> on_store (task_setIx i x) c1)) c0 [pos..<length (sc_tasks c0)])"

end
