(* ===== verification/Mapper.thy ===== *)
theory Mapper
  imports Schedule
begin

text \<open>
  \<open>scheduling/mapper\<close>: the mapping of a task on a processing element, with the communications between clusters, and
  the two searches of an element in a cluster. \<open>findPE\<close> is virtual, so the mapping takes the search as an argument;
  a search may change the state of its mapper.
\<close>

type_synonym 'm finder = "nat \<Rightarrow> schedule \<Rightarrow> nat \<Rightarrow> nat \<Rightarrow> 'm \<Rightarrow> (nat option \<times> 'm) result"

subsection \<open>Best fit\<close>

record best =
  bf_found :: "nat option"
  bf_idle :: nat
  bf_end :: nat

definition best_fit_step :: "sched_env \<Rightarrow> schedule \<Rightarrow> nat \<Rightarrow> nat \<Rightarrow> best \<Rightarrow> nat option \<Rightarrow> best result" where
  "best_fit_step env sc x minStart b pe =
     (case pe of None \<Rightarrow> Inl Null_Deref
      | Some p \<Rightarrow>
          bindE (if pe_enabled (pe_at (se_archi env) p) then task_isMappableOnPE env (sc_store sc) x (Some p) else Inr False) (\<lambda>ok.
          if \<not> ok then Inr b
          else bindE (st_endTime (sc_stats sc) (virtualIx (pe_at (se_archi env) p))) (\<lambda>e.
            let readyTime = add64 e (if grt (se_platform env) = Some p then 10 else 0);
                startT = max readyTime minStart; idleTime = sub64 startT readyTime in
            bindE (task_timingOnPE env (sc_store sc) x (Some p)) (\<lambda>d.
            let endT = add64 startT d in
            Inr (if endT < bf_end b then \<lparr>bf_found = Some p, bf_idle = min idleTime (bf_idle b), bf_end = endT\<rparr>
                 else if endT = bf_end b \<and> idleTime < bf_idle b then \<lparr>bf_found = Some p, bf_idle = idleTime, bf_end = endT\<rparr>
                 else b)))))"

definition best_fit_findPE :: "sched_env \<Rightarrow> unit finder" where
  "best_fit_findPE env c sc x minStart m =
     bindE (foldE (best_fit_step env sc x minStart) \<lparr>bf_found = None, bf_idle = u64_max, bf_end = u64_max\<rparr>
       (cl_peArray (cluster_at (se_archi env) c))) (\<lambda>b. Inr (bf_found b, m))"

subsection \<open>Round robin\<close>

definition round_robin_new :: "platform \<Rightarrow> nat list" where
  "round_robin_new p = replicate (length (clusterArray p)) 0"

definition rr_usable :: "sched_env \<Rightarrow> schedule \<Rightarrow> nat \<Rightarrow> nat \<Rightarrow> bool result" where
  "rr_usable env sc x p =
     (if pe_enabled (pe_at (se_archi env) p) then task_isMappableOnPE env (sc_store sc) x (Some p) else Inr False)"

text \<open>The element at the current index of the cluster.\<close>

definition rr_pe :: "cluster \<Rightarrow> nat \<Rightarrow> nat result" where
  "rr_pe cl i = bindE (get_at (cl_array cl) i) (\<lambda>r. case r of None \<Rightarrow> Inl Null_Deref | Some p \<Rightarrow> Inr p)"

fun rr_loop :: "sched_env \<Rightarrow> schedule \<Rightarrow> nat \<Rightarrow> cluster \<Rightarrow> nat \<Rightarrow> nat \<Rightarrow> nat \<Rightarrow> (nat \<times> nat) result" where
  "rr_loop env sc x cl 0 i p = Inr (i, p)"
| "rr_loop env sc x cl (Suc count) i p =
     bindE (rr_usable env sc x p) (\<lambda>ok.
       if ok then Inr (i, p)
       else let i' = (i + 1) mod PECount cl in bindE (rr_pe cl i') (\<lambda>p'. rr_loop env sc x cl count i' p'))"

definition round_robin_findPE :: "sched_env \<Rightarrow> nat list finder" where
  "round_robin_findPE env c sc x minStart cur =
     (let cl = cluster_at (se_archi env) c in
      bindE (get_at cur (cl_ix cl)) (\<lambda>i. bindE (rr_pe cl i) (\<lambda>p.
      bindE (rr_loop env sc x cl (PECount cl) i p) (\<lambda>(i1, p1).
      bindE (rr_usable env sc x p1) (\<lambda>ok.
        if \<not> ok then Inr (None, cur[cl_ix cl := i1])
        else Inr (Some p1, cur[cl_ix cl := (i1 + 1) mod PECount cl]))))))"

subsection \<open>Dependencies of a task\<close>

text \<open>One source task found by its index in the schedule: its local runtime, its end time, the rate it sends.\<close>

definition depend_on :: "sched_env \<Rightarrow> nat \<Rightarrow> nat \<Rightarrow> nat \<Rightarrow> nat \<Rightarrow> nat \<Rightarrow> schedule \<times> nat list \<times> nat \<Rightarrow> (schedule \<times> nat list \<times> nat) result" where
  "depend_on env x k src srcJobIx rate st =
     (case st of (sc, comRates, minTime) \<Rightarrow>
        bindE (task_mappedLRT env (sc_store sc) src) (\<lambda>lrt. let l = virtualIx (pe_at (se_archi env) lrt) in
        bindE (task_endTime (sc_store sc) src) (\<lambda>srcEnd.
        bindE (on_store (task_setOnFiring env k x) sc) (\<lambda>sc1.
        bindE (task_syncExecIxOnLRT env (sc_store sc1) x l) (\<lambda>currentJob.
        bindE (if currentJob = u32_max \<or> srcJobIx > currentJob
               then on_store (task_setSyncExecIxOnLRT env l srcJobIx x) sc1 else Inr sc1) (\<lambda>sc2.
        bindE (get_at comRates l) (\<lambda>r.
          Inr (sc2, comRates[l := add32 r rate], max minTime srcEnd))))))))"

text \<open>A task of the single-rate graph: one source per input edge.\<close>

definition srdag_dep :: "sched_env \<Rightarrow> nat \<Rightarrow> schedule \<times> nat list \<times> nat \<Rightarrow> nat \<times> int \<Rightarrow> (schedule \<times> nat list \<times> nat) result" where
  "srdag_dep env x st inp =
     (case st of (sc, comRates, minTime) \<Rightarrow> case inp of (v, rate) \<Rightarrow>
        bindE (get_at (ts_vertexIx (sc_store sc)) v) (\<lambda>i. bindE (schedule_task env i sc) (\<lambda>(src, sc1).
        case src of None \<Rightarrow> Inr (sc1, comRates, minTime)
        | Some s \<Rightarrow> bindE (task_getIx (sc_store sc1) s) (\<lambda>j.
            depend_on env x 0 s j (to_u32 rate) (sc1, comRates, minTime)))))"

text \<open>A task of the PiSDF graph: the firings of every dependency of every input edge, with the bytes each one gives.\<close>

definition dep_bytes :: "dep_info \<Rightarrow> nat \<Rightarrow> nat" where
  "dep_bytes d k =
     (let memoryStart = (if k = dep_firingStart d then dep_memoryStart d else 0);
          memoryEnd = (if k = dep_firingEnd d then dep_memoryEnd d else to_u32 (dep_rate d - 1))
      in if dep_rate d > 0 then add32 (memoryEnd + (2 ^ 32 - memoryStart)) 1 else 0)"

fun vref_ix :: "vref \<Rightarrow> nat" where
  "vref_ix (Actor i) = i"
| "vref_ix (In_If i) = i"
| "vref_ix (Out_If i) = i"

definition firings_of :: "dep_info \<Rightarrow> nat list result" where
  "firings_of d = (if dep_firingEnd d = u32_max then Inl Undefined_Behaviour else Inr [dep_firingStart d..<Suc (dep_firingEnd d)])"

definition pisdf_dep :: "sched_env \<Rightarrow> nat \<Rightarrow> schedule \<times> nat list \<times> nat \<Rightarrow> dep_info \<Rightarrow> (schedule \<times> nat list \<times> nat) result" where
  "pisdf_dep env x st d =
     (case (dep_vertex d, dep_handler d) of
        (Some v, Some h) \<Rightarrow>
          bindE (task_getFiring (sc_store (fst st)) x) (\<lambda>firing. bindE (firings_of d) (\<lambda>ks.
          foldE (\<lambda>(sc, comRates, minTime) k.
            bindE (get_at (ts_taskIx (sc_store sc) h (vref_ix v)) k) (\<lambda>i. bindE (schedule_task env i sc) (\<lambda>(src, sc1).
            case src of None \<Rightarrow> Inr (sc1, comRates, minTime)
            | Some s \<Rightarrow> depend_on env x firing s i (dep_bytes d k) (sc1, comRates, minTime)))) st ks))
      | _ \<Rightarrow> Inr st)"

text \<open>The dependencies of the input edges of a vertex, in order.\<close>

definition pisdf_deps :: "sched_env \<Rightarrow> nat \<Rightarrow> nat \<Rightarrow> nat \<Rightarrow> dep_info list result" where
  "pisdf_deps env h v firing =
     bindE (graph_of (se_world env) h) (\<lambda>g. bindE (get_at (g_vertices g) v) (\<lambda>vx.
     bindE (mapE (\<lambda>p. bindE (port_edge (v_in vx) p) (\<lambda>e.
       case computeExecDependency (se_fuel env) (se_world env) h e firing of
         None \<Rightarrow> Inl Diverges | Some r \<Rightarrow> bindE r (\<lambda>(_, ds). Inr ds))) [0..<length (v_in vx)]) (\<lambda>dss. Inr (concat dss))))"

definition computeStartTime ::
  "sched_env \<Rightarrow> nat \<Rightarrow> nat \<Rightarrow> nat list \<Rightarrow> schedule \<Rightarrow> (schedule \<times> nat list \<times> nat) result" where
  "computeStartTime env startT x comRates sc =
     bindE (task_at (sc_store sc) x) (\<lambda>t. case tk_kind t of
       SRDAG_Task v \<Rightarrow> bindE (get_at (se_srdag env) v) (\<lambda>i.
         foldE (srdag_dep env x) (sc, comRates, startT) (si_inputs i))
     | Sync_Task _ _ \<Rightarrow> Inl Undefined_Behaviour
     | Uni_Task h v \<Rightarrow> bindE (pisdf_deps env h v (tk_firing t)) (\<lambda>ds. foldE (pisdf_dep env x) (sc, comRates, startT) ds)
     | Vect_Task h v \<Rightarrow> bindE (pisdf_deps env h v (tk_firing t)) (\<lambda>ds. foldE (pisdf_dep env x) (sc, comRates, startT) ds))"

subsection \<open>The cost of the communications\<close>

definition com_cost_step ::
  "sched_env \<Rightarrow> nat \<Rightarrow> nat \<Rightarrow> nat \<Rightarrow> nat list \<Rightarrow> schedule \<times> nat \<times> nat \<Rightarrow> nat \<Rightarrow> (schedule \<times> nat \<times> nat) result" where
  "com_cost_step env x firing pe comRates st i =
     (case st of (sc, c, ext) \<Rightarrow>
        bindE (task_syncExecIxOnLRT env (sc_store sc) x i) (\<lambda>srcIx. bindE (get_at comRates i) (\<lambda>rate.
        if srcIx = u32_max then Inr st
        else bindE (schedule_task env srcIx sc) (\<lambda>(src, sc1).
          bindE (case src of None \<Rightarrow> Inr (c, ext)
            | Some s \<Rightarrow> bindE (task_getState (sc_store sc1) s) (\<lambda>state.
                if state = NOT_RUNNABLE then Inr (c, ext)
                else bindE (task_mappedPe env (sc_store sc1) s) (\<lambda>pSrc.
                  bindE (dataCommunicationCostPEToPE (se_archi env) (se_platform env) pSrc (Some pe) rate) (\<lambda>d.
                  case pSrc of None \<Rightarrow> Inl Null_Deref
                  | Some q \<Rightarrow> Inr (add64 c d,
                      if pe_cluster (pe_at (se_archi env) pe) \<noteq> pe_cluster (pe_at (se_archi env) q) then add64 ext rate else ext)))))
            (\<lambda>(c1, ext1). bindE (on_store (task_setOnFiring env firing x) sc1) (\<lambda>sc2. Inr (sc2, c1, ext1)))))))"

definition computeCommunicationCost ::
  "sched_env \<Rightarrow> nat \<Rightarrow> nat \<Rightarrow> nat list \<Rightarrow> schedule \<Rightarrow> (schedule \<times> nat \<times> nat) result" where
  "computeCommunicationCost env x pe comRates sc =
     bindE (task_getFiring (sc_store sc) x) (\<lambda>firing.
       foldE (com_cost_step env x firing pe comRates) (sc, 0, 0) [0..<LRT_count env])"

subsection \<open>The choice of a processing element\<close>

record mapping_result =
  mr_pe :: "nat option"
  mr_startTime :: nat
  mr_endTime :: nat
  mr_cost :: nat
  mr_communication :: bool

definition mapping_result_new :: mapping_result where
  "mapping_result_new = \<lparr>mr_pe = None, mr_startTime = u64_max, mr_endTime = u64_max, mr_cost = u64_max, mr_communication = False\<rparr>"

definition cluster_step ::
  "'m finder \<Rightarrow> sched_env \<Rightarrow> nat \<Rightarrow> nat \<Rightarrow> nat list \<Rightarrow> schedule \<times> 'm \<times> mapping_result \<Rightarrow> nat option \<Rightarrow>
   (schedule \<times> 'm \<times> mapping_result) result" where
  "cluster_step fnd env x minStart comRates st cl =
     (case st of (sc, m, r) \<Rightarrow> case cl of None \<Rightarrow> Inl Null_Deref
      | Some c \<Rightarrow>
          bindE (fnd c sc x minStart m) (\<lambda>(found, m1). case found of
            None \<Rightarrow> Inr (sc, m1, r)
          | Some pe \<Rightarrow>
              bindE (computeCommunicationCost env x pe comRates sc) (\<lambda>(sc1, comCost, ext).
              bindE (st_endTime (sc_stats sc1) (virtualIx (pe_at (se_archi env) pe))) (\<lambda>e.
              bindE (task_timingOnPE env (sc_store sc1) x (Some pe)) (\<lambda>d.
              let r1 = r\<lparr>mr_communication := mr_communication r \<or> ext \<noteq> 0\<rparr>;
                  startT = max e minStart; endT = add64 startT d; scheduleCost = saturateAdd endT comCost in
              Inr (sc1, m1, if scheduleCost < mr_cost r1
                then r1\<lparr>mr_pe := Some pe, mr_startTime := startT, mr_endTime := endT, mr_cost := scheduleCost\<rparr> else r1))))))"

subsection \<open>Communication tasks\<close>

definition make_task :: "task \<Rightarrow> schedule \<Rightarrow> nat \<times> schedule" where
  "make_task t sc = (length (ts_tasks (sc_store sc)),
     sc\<lparr>sc_store := (sc_store sc)\<lparr>ts_tasks := ts_tasks (sc_store sc) @ [t]\<rparr>\<rparr>)"

text \<open>One half of a communication: the task is placed on an element of its cluster.\<close>

definition place_sync ::
  "'m finder \<Rightarrow> sched_env \<Rightarrow> nat \<Rightarrow> nat \<Rightarrow> nat \<Rightarrow> schedule \<times> 'm \<Rightarrow> (schedule \<times> 'm) result" where
  "place_sync fnd env c x minStart st =
     (case st of (sc, m) \<Rightarrow>
        bindE (fnd c sc x minStart m) (\<lambda>(found, m1). case found of
          None \<Rightarrow> Inl Spider_Exception
        | Some pe \<Rightarrow>
            bindE (st_endTime (sc_stats sc) (virtualIx (pe_at (se_archi env) pe))) (\<lambda>e.
            bindE (task_timingOnPE env (sc_store sc) x None) (\<lambda>d.
            let startT = max e minStart in
            bindE (updateTaskAndSetReady env x pe startT (add64 startT d) sc) (\<lambda>sc1. Inr (sc1, m1))))))"

text \<open>A send and a receive task before the task, and the task delayed until the data is there.\<close>

definition insert_communication ::
  "'m finder \<Rightarrow> sched_env \<Rightarrow> nat \<Rightarrow> nat \<Rightarrow> nat \<Rightarrow> nat \<Rightarrow> nat \<Rightarrow> schedule \<times> 'm \<times> mapping_result \<Rightarrow>
   (schedule \<times> 'm \<times> mapping_result) result" where
  "insert_communication fnd env x src depIx prevCluster mappedCluster st =
     (case st of (sc, m, r) \<Rightarrow>
        bindE (getClusterToClusterMemoryBus (se_archi env) (se_platform env) prevCluster mappedCluster) (\<lambda>sndBus.
        let (sndTask, sc1) = make_task (sync_task_new SEND sndBus) sc in
        bindE (task_endTime (sc_store sc1) src) (\<lambda>srcEnd.
        bindE (place_sync fnd env prevCluster sndTask srcEnd (sc1, m)) (\<lambda>(sc2, m2).
        bindE (getClusterToClusterMemoryBus (se_archi env) (se_platform env) mappedCluster prevCluster) (\<lambda>rcvBus.
        let (rcvTask, sc3) = make_task (sync_task_new RECEIVE rcvBus) sc2 in
        bindE (task_endTime (sc_store sc3) sndTask) (\<lambda>sndEnd.
        bindE (place_sync fnd env mappedCluster rcvTask sndEnd (sc3, m2)) (\<lambda>(sc4, m4).
        bindE (task_getIx (sc_store sc4) x) (\<lambda>pos.
        bindE (insertTasks env pos [(sndTask, 0), (rcvTask, 0)] sc4) (\<lambda>sc5.
        bindE (task_endTime (sc_store sc5) rcvTask) (\<lambda>rcvEnd.
        let r1 = (if rcvEnd > mr_startTime r
                  then let offset = sub64 rcvEnd (mr_startTime r) in
                    r\<lparr>mr_startTime := add64 (mr_startTime r) offset, mr_endTime := add64 (mr_endTime r) offset\<rparr>
                  else r) in
        bindE (on_store (sync_connect (Some src) (Some rcvTask) depIx sndTask) sc5) (\<lambda>sc6.
        bindE (on_store (sync_connect (Some sndTask) (Some x) depIx rcvTask) sc6) (\<lambda>sc7. Inr (sc7, m4, r1)))))))))))))"

definition mapCommunication ::
  "'m finder \<Rightarrow> sched_env \<Rightarrow> nat \<Rightarrow> nat option \<Rightarrow> nat \<Rightarrow> schedule \<times> 'm \<times> mapping_result \<Rightarrow> (schedule \<times> 'm \<times> mapping_result) result" where
  "mapCommunication fnd env x srcTask depIx st =
     (case st of (sc, m, r) \<Rightarrow> case srcTask of None \<Rightarrow> Inr st
      | Some src \<Rightarrow>
          (case mr_pe r of None \<Rightarrow> Inl Null_Deref
           | Some pe \<Rightarrow>
               bindE (task_mappedPe env (sc_store sc) src) (\<lambda>ps. case ps of None \<Rightarrow> Inl Null_Deref
                | Some p \<Rightarrow>
                    let mappedCluster = pe_cluster (pe_at (se_archi env) pe); prevCluster = pe_cluster (pe_at (se_archi env) p) in
                    if prevCluster = mappedCluster then Inr st
                    else insert_communication fnd env x src depIx prevCluster mappedCluster st)))"

text \<open>The sources again, in the order of the dependencies, with the index of each one.\<close>

definition srdag_communication ::
  "'m finder \<Rightarrow> sched_env \<Rightarrow> nat \<Rightarrow> schedule \<times> 'm \<times> mapping_result \<Rightarrow> nat \<times> nat \<times> int \<Rightarrow> (schedule \<times> 'm \<times> mapping_result) result" where
  "srdag_communication fnd env x st inp =
     (case st of (sc, m, r) \<Rightarrow> case inp of (ix, v, _) \<Rightarrow>
        bindE (get_at (ts_vertexIx (sc_store sc)) v) (\<lambda>i. bindE (schedule_task env i sc) (\<lambda>(src, sc1).
          mapCommunication fnd env x src ix (sc1, m, r))))"

definition pisdf_communication ::
  "'m finder \<Rightarrow> sched_env \<Rightarrow> nat \<Rightarrow> nat \<times> schedule \<times> 'm \<times> mapping_result \<Rightarrow> dep_info \<Rightarrow>
   (nat \<times> schedule \<times> 'm \<times> mapping_result) result" where
  "pisdf_communication fnd env x st d =
     (case (dep_vertex d, dep_handler d) of
        (Some v, Some h) \<Rightarrow> bindE (firings_of d) (\<lambda>ks.
          foldE (\<lambda>(depIx, sc, m, r) k.
            bindE (get_at (ts_taskIx (sc_store sc) h (vref_ix v)) k) (\<lambda>i. bindE (schedule_task env i sc) (\<lambda>(src, sc1).
            bindE (mapCommunication fnd env x src depIx (sc1, m, r)) (\<lambda>st1. Inr (depIx + 1, st1))))) st ks)
      | _ \<Rightarrow> Inr st)"

definition mapCommunications ::
  "'m finder \<Rightarrow> sched_env \<Rightarrow> nat \<Rightarrow> schedule \<times> 'm \<times> mapping_result \<Rightarrow> (schedule \<times> 'm \<times> mapping_result) result" where
  "mapCommunications fnd env x st =
     bindE (task_at (sc_store (fst st)) x) (\<lambda>t. case tk_kind t of
       SRDAG_Task v \<Rightarrow> bindE (get_at (se_srdag env) v) (\<lambda>i.
         foldE (srdag_communication fnd env x) st (enumerate 0 (si_inputs i)))
     | Sync_Task _ _ \<Rightarrow> Inl Undefined_Behaviour
     | Uni_Task h v \<Rightarrow> bindE (pisdf_deps env h v (tk_firing t)) (\<lambda>ds.
         bindE (foldE (pisdf_communication fnd env x) (0, st) ds) (\<lambda>(_, st1). Inr st1))
     | Vect_Task h v \<Rightarrow> bindE (pisdf_deps env h v (tk_firing t)) (\<lambda>ds.
         bindE (foldE (pisdf_communication fnd env x) (0, st) ds) (\<lambda>(_, st1). Inr st1)))"

subsection \<open>The mapper\<close>

definition mapImpl :: "'m finder \<Rightarrow> sched_env \<Rightarrow> nat \<Rightarrow> nat \<Rightarrow> schedule \<times> 'm \<Rightarrow> (schedule \<times> 'm) result" where
  "mapImpl fnd env startT x st =
     (case st of (sc, m) \<Rightarrow>
        bindE (computeStartTime env startT x (replicate (LRT_count env) 0) sc) (\<lambda>(sc1, comRates, minStart).
        bindE (foldE (cluster_step fnd env x minStart comRates) (sc1, m, mapping_result_new) (clusterArray (se_platform env)))
          (\<lambda>(sc2, m2, r).
        case mr_pe r of None \<Rightarrow> Inl Spider_Exception
        | Some _ \<Rightarrow>
            bindE (if mr_communication r then mapCommunications fnd env x (sc2, m2, r) else Inr (sc2, m2, r)) (\<lambda>(sc3, m3, r3).
            case mr_pe r3 of None \<Rightarrow> Inl Null_Deref
            | Some pe \<Rightarrow> bindE (updateTaskAndSetReady env x pe (mr_startTime r3) (mr_endTime r3) sc3) (\<lambda>sc4. Inr (sc4, m3))))))"

definition map_task :: "'m finder \<Rightarrow> sched_env \<Rightarrow> nat \<Rightarrow> nat option \<Rightarrow> schedule \<times> 'm \<Rightarrow> (schedule \<times> 'm) result" where
  "map_task fnd env startT task st =
     (case task of None \<Rightarrow> Inl Spider_Exception
      | Some x \<Rightarrow>
          bindE (task_getState (sc_store (fst st)) x) (\<lambda>state.
          if state = SKIPPED then Inr st
          else bindE (on_store (task_setState PENDING x) (fst st)) (\<lambda>sc. mapImpl fnd env startT x (sc, snd st))))"

end
