(* ===== verification/SchedProps.thy ===== *)
theory SchedProps
  imports Mapper ArchiProps
begin

text \<open>
  What the mapping of a task guarantees, for any search of a processing element that returns usable ones: the interface
  \<open>pe_finder\<close>, interpreted for both mappers. Frame lemmas say what the small operations leave alone.
\<close>

lemma foldE_prefix:
  assumes "foldE f s xs = Inr s'" and "P [] s"
    and "\<And>ys x s t. P ys s \<Longrightarrow> x \<in> set xs \<Longrightarrow> f s x = Inr t \<Longrightarrow> P (ys @ [x]) t"
  shows "P xs s'"
proof -
  have "P (ys @ xs) s'" if "foldE f s xs = Inr s'" "P ys s"
      "\<And>ys x s t. P ys s \<Longrightarrow> x \<in> set xs \<Longrightarrow> f s x = Inr t \<Longrightarrow> P (ys @ [x]) t" for ys s xs
    using that
  proof (induction xs arbitrary: ys s)
    case (Cons x xs)
    from Cons.prems(1) obtain t where t: "f s x = Inr t" "foldE f t xs = Inr s'" by auto
    from Cons.IH [OF t(2), of "ys @ [x]"] Cons.prems(2,3) t(1) show ?case by auto
  qed simp
  from this [OF assms(1,2)] assms(3) show ?thesis by simp
qed

subsection \<open>Frames\<close>

lemma on_store_frame:
  "on_store f sc = Inr sc' \<Longrightarrow> sc_stats sc' = sc_stats sc \<and> sc_tasks sc' = sc_tasks sc"
  by (auto simp: on_store_def)

lemma schedule_task_frame:
  "schedule_task env ix sc = Inr (t, sc') \<Longrightarrow> sc_stats sc' = sc_stats sc \<and> sc_tasks sc' = sc_tasks sc"
  by (auto simp: schedule_task_def split: if_splits prod.splits dest: on_store_frame)

text \<open>The task objects stay the same up to their current firing, their synchronization indices and their links.\<close>

definition same_slots :: "task_store \<Rightarrow> task_store \<Rightarrow> bool" where
  "same_slots s s' \<longleftrightarrow> length (ts_tasks s') = length (ts_tasks s) \<and>
     (\<forall>y < length (ts_tasks s). tk_kind (ts_tasks s' ! y) = tk_kind (ts_tasks s ! y) \<and>
        tk_slots (ts_tasks s' ! y) = tk_slots (ts_tasks s ! y))"

lemma same_slots_refl [simp]: "same_slots s s"
  by (simp add: same_slots_def)

lemma same_slots_trans: "same_slots s t \<Longrightarrow> same_slots t u \<Longrightarrow> same_slots s u"
  by (simp add: same_slots_def)

lemma task_update_slots:
  assumes "task_update x f s = Inr s'" and "\<And>t t'. f t = Inr t' \<Longrightarrow> tk_kind t' = tk_kind t \<and> tk_slots t' = tk_slots t"
  shows "same_slots s s'"
  using assms by (auto simp: task_update_def task_at_def task_put_def same_slots_def nth_list_update)

lemma setOnFiring_slots: "task_setOnFiring env k x s = Inr s' \<Longrightarrow> same_slots s s'"
  unfolding task_setOnFiring_def
  by (erule task_update_slots) (auto split: task_kind.splits if_splits)

lemma sync_connect_slots: "sync_connect p q d x s = Inr s' \<Longrightarrow> same_slots s s'"
  unfolding sync_connect_def by (erule task_update_slots) auto

lemma setSync_slots: "task_setSyncExecIxOnLRT env l v x s = Inr s' \<Longrightarrow> same_slots s s'"
  unfolding task_setSyncExecIxOnLRT_def by (erule task_update_slots) (auto simp: Let_def)

lemma setIx_slots: "task_setIx i x s = Inr s' \<Longrightarrow> same_slots s s'"
  by (auto simp: task_setIx_def task_at_def task_put_def same_slots_def nth_list_update split: task_kind.splits)

lemma on_store_slots:
  "on_store f sc = Inr sc' \<Longrightarrow> (\<And>s s'. f s = Inr s' \<Longrightarrow> same_slots s s') \<Longrightarrow> same_slots (sc_store sc) (sc_store sc')"
  by (auto simp: on_store_def)

lemma schedule_task_slots:
  "schedule_task env ix sc = Inr (t, sc') \<Longrightarrow> same_slots (sc_store sc) (sc_store sc')"
  by (auto simp: schedule_task_def split: if_splits prod.splits dest!: on_store_slots [OF _ setOnFiring_slots])

lemma insertTasks_frame:
  assumes "insertTasks env pos xs sc = Inr sc'"
  shows "sc_stats sc' = sc_stats sc \<and> same_slots (sc_store sc) (sc_store sc') \<and>
    sc_tasks sc' = take pos (sc_tasks sc) @ xs @ drop pos (sc_tasks sc)"
proof -
  let ?c0 = "sc\<lparr>sc_tasks := take pos (sc_tasks sc) @ xs @ drop pos (sc_tasks sc)\<rparr>"
  let ?P = "\<lambda>c. sc_stats c = sc_stats sc \<and> same_slots (sc_store sc) (sc_store c) \<and> sc_tasks c = sc_tasks ?c0"
  from assms have "foldE (\<lambda>c i. bindE (schedule_task env i c) (\<lambda>(t, c1). case t of None \<Rightarrow> Inl Null_Deref
            | Some x \<Rightarrow> on_store (task_setIx i x) c1)) ?c0 [pos..<length (sc_tasks ?c0)] = Inr sc'"
    by (simp add: insertTasks_def Let_def split: if_splits)
  then have "?P sc'"
  proof (rule foldE_invariant)
    show "?P ?c0" by simp
    fix c i c'
    assume P: "?P c" and step: "bindE (schedule_task env i c) (\<lambda>(t, c1). case t of None \<Rightarrow> Inl Null_Deref
            | Some x \<Rightarrow> on_store (task_setIx i x) c1) = Inr c'"
    then obtain t c1 where 1: "schedule_task env i c = Inr (Some t, c1)" "on_store (task_setIx i t) c1 = Inr c'"
      by (auto split: option.splits)
    from schedule_task_frame [OF 1(1)] schedule_task_slots [OF 1(1)] on_store_frame [OF 1(2)]
      on_store_slots [OF 1(2) setIx_slots] P show "?P c'"
      by (auto intro: same_slots_trans)
  qed
  then show ?thesis by simp
qed

subsection \<open>Accounting\<close>

text \<open>Per processing element the load and the idle time add up to its end time, modulo the wrap-around.\<close>

definition stats_ok :: "stats \<Rightarrow> bool" where
  "stats_ok st \<longleftrightarrow>
     length (loadTimeArray st) = length (endTimeArray st) \<and> length (idleTimeArray st) = length (endTimeArray st) \<and>
     length (startTimeArray st) = length (endTimeArray st) \<and> length (jobCountArray st) = length (endTimeArray st) \<and>
     (\<forall>ix < length (endTimeArray st). endTimeArray st ! ix < 2 ^ 64 \<and>
        add64 (loadTimeArray st ! ix) (idleTimeArray st ! ix) = endTimeArray st ! ix)"

lemma stats_ok_new: "stats_ok (stats_new p)"
  by (simp add: stats_ok_def stats_new_def Let_def add64_def)

text \<open>The statistics after one job.\<close>

definition stats_add_job :: "nat \<Rightarrow> nat \<Rightarrow> nat \<Rightarrow> stats \<Rightarrow> stats" where
  "stats_add_job ix a b st = st\<lparr>startTimeArray := (startTimeArray st)[ix := a], minStartTime := min a (minStartTime st),
     idleTimeArray := (idleTimeArray st)[ix := add64 (idleTimeArray st ! ix) (sub64 a (endTimeArray st ! ix))],
     endTimeArray := (endTimeArray st)[ix := b], maxEndTime := max b (maxEndTime st),
     loadTimeArray := (loadTimeArray st)[ix := add64 (loadTimeArray st ! ix) (sub64 b a)],
     jobCountArray := (jobCountArray st)[ix := add64 (jobCountArray st ! ix) 1]\<rparr>"

lemma int_add64: "int (add64 a b) = (int a + int b) mod 2 ^ 64"
  by (simp add: add64_def zmod_int)

lemma int_sub64: "int (sub64 a b) = (int a - int b) mod 2 ^ 64"
proof -
  have "b mod 2 ^ 64 \<le> 2 ^ 64" by (simp add: less_imp_le)
  then have "int (sub64 a b) = (int a + (2 ^ 64 - int b mod 2 ^ 64)) mod 2 ^ 64"
    by (simp add: sub64_def zmod_int of_nat_diff add_diff_eq)
  also have "\<dots> = ((int a - int b mod 2 ^ 64) + 2 ^ 64) mod 2 ^ 64"
    by (rule arg_cong [where f = "\<lambda>x. x mod 2 ^ 64"]) simp
  also have "\<dots> = (int a - int b mod 2 ^ 64) mod 2 ^ 64" by (rule mod_add_self2)
  also have "\<dots> = (int a - int b) mod 2 ^ 64" by (rule mod_diff_right_eq)
  finally show ?thesis .
qed

lemma int_add_sub64: "int (add64 l (sub64 b a)) = (int l + (int b - int a)) mod 2 ^ 64"
  unfolding int_add64 int_sub64 by (rule mod_add_right_eq)

lemma stats_add_job_ok:
  assumes ok: "stats_ok st" and "ix < length (endTimeArray st)" and b: "b < 2 ^ 64"
  shows "stats_ok (stats_add_job ix a b st)"
proof -
  define l i e where lie: "l = loadTimeArray st ! ix" "i = idleTimeArray st ! ix" "e = endTimeArray st ! ix"
  have e: "e < 2 ^ 64" "(l + i) mod 2 ^ 64 = e" using ok assms(2) by (auto simp: stats_ok_def lie add64_def)
  have "int (add64 (add64 l (sub64 b a)) (add64 i (sub64 a e))) = (int l + int i + (int b - int e)) mod 2 ^ 64"
    unfolding int_add64 [of "add64 l (sub64 b a)"] int_add_sub64 mod_add_eq
    by (rule arg_cong [where f = "\<lambda>x. x mod 2 ^ 64"]) simp
  also have "\<dots> = ((int l + int i) mod 2 ^ 64 + (int b - int e)) mod 2 ^ 64" by (rule mod_add_left_eq [symmetric])
  also have "(int l + int i) mod 2 ^ 64 = int e" using e(2) by (metis of_nat_add of_nat_mod of_nat_numeral of_nat_power)
  also have "(int e + (int b - int e)) mod 2 ^ 64 = int b" using b by simp
  finally have "add64 (add64 l (sub64 b a)) (add64 i (sub64 a e)) = b" by simp
  then show ?thesis
    using ok assms(2) b by (auto simp: stats_ok_def stats_add_job_def nth_list_update lie)
qed


lemma updateTask_stats:
  assumes "updateTaskAndSetReady env x pe a b sc = Inr sc'"
  defines "ix \<equiv> virtualIx (pe_at (se_archi env) pe)"
  shows "(task_getState (sc_store sc) x = Inr READY \<and> sc' = sc) \<or>
    (ix < length (endTimeArray (sc_stats sc)) \<and> sc_stats sc' = stats_add_job ix a b (sc_stats sc) \<and> sc_tasks sc' = sc_tasks sc)"
proof -
  from assms(1) obtain state where st: "task_getState (sc_store sc) x = Inr state"
    by (auto simp: updateTaskAndSetReady_def)
  show ?thesis
  proof (cases "state = READY")
    case True
    with assms(1) st show ?thesis by (simp add: updateTaskAndSetReady_def)
  next
    case False
    with assms(1) st show ?thesis
      unfolding updateTaskAndSetReady_def Let_def ix_def [symmetric]
      by (auto simp: updateStartTime_def updateIDLETime_def updateEndTime_def updateLoadTime_def updateJobCount_def
          st_jobCount_def st_endTime_def stats_add_job_def dest!: on_store_frame)
  qed
qed

text \<open>The slot in use of a task and what a job leaves in it.\<close>

definition slot_of :: "task_store \<Rightarrow> nat \<Rightarrow> slot result" where
  "slot_of s x = bindE (task_at s x) task_slot"

lemma slot_of_simps:
  "task_endTime s x = bindE (slot_of s x) (\<lambda>sl. Inr (sl_endTime sl))"
  "task_getState s x = bindE (slot_of s x) (\<lambda>sl. Inr (sl_state sl))"
  "task_jobExecIx s x = bindE (slot_of s x) (\<lambda>sl. Inr (sl_jobExecIx sl))"
  "task_mappedPe env s x = bindE (slot_of s x) (\<lambda>sl. processingElement (se_platform env) (sl_mappedPE sl))"
  by (auto simp: task_endTime_def task_getState_def task_jobExecIx_def task_mappedPe_def slot_of_def bindE_def split: sum.splits)

lemma slot_ix_cong: "tk_kind t' = tk_kind t \<Longrightarrow> tk_firing t' = tk_firing t \<Longrightarrow> slot_ix t' = slot_ix t"
  by (simp add: slot_ix_def split: task_kind.split)

lemma slot_ix_slots [simp]: "slot_ix (t\<lparr>tk_slots := xs\<rparr>) = slot_ix t"
  by (rule slot_ix_cong) simp_all

lemma set_slot_effect:
  assumes "task_set_slot f t = Inr t'"
  shows "\<exists>sl. task_slot t = Inr sl \<and> task_slot t' = Inr (f sl) \<and> tk_kind t' = tk_kind t"
  using assms by (auto simp: task_set_slot_def task_slot_def)

lemma update_slot_effect:
  assumes "task_update x g s = Inr s'"
    and g: "\<And>t t'. g t = Inr t' \<Longrightarrow> \<exists>sl. task_slot t = Inr sl \<and> task_slot t' = Inr (f sl) \<and> tk_kind t' = tk_kind t"
  shows "\<exists>sl. slot_of s x = Inr sl \<and> slot_of s' x = Inr (f sl)"
proof -
  from assms(1) obtain t t' where t: "task_at s x = Inr t" "g t = Inr t'" "s' = task_put x t' s"
    by (auto simp: task_update_def)
  with g [OF t(2)] show ?thesis by (auto simp: slot_of_def task_at_def task_put_def)
qed

lemma setMappedPE_slot:
  assumes "task_setMappedPE env pe x s = Inr s'"
  shows "\<exists>sl. slot_of s x = Inr sl \<and> slot_of s' x = Inr (sl\<lparr>sl_mappedPE := virtualIx (pe_at (se_archi env) pe) mod 2 ^ 32\<rparr>)"
  using assms unfolding task_setMappedPE_def
proof (rule update_slot_effect)
  fix t t'
  assume "bindE (task_set_slot (\<lambda>sl. sl\<lparr>sl_mappedPE := virtualIx (pe_at (se_archi env) pe) mod 2 ^ 32\<rparr>) t) (\<lambda>t1.
       case tk_kind t of
         SRDAG_Task _ \<Rightarrow>
           bindE (set_at (tk_sync t1) (virtualIx (pe_at (se_archi env) (attachedLRT (pe_at (se_archi env) pe)))) u32_max) (\<lambda>sync.
             Inr (t1\<lparr>tk_sync := sync\<rparr>))
       | _ \<Rightarrow> Inr t1) = Inr t'"
  then obtain t1 where t1: "task_set_slot (\<lambda>sl. sl\<lparr>sl_mappedPE := virtualIx (pe_at (se_archi env) pe) mod 2 ^ 32\<rparr>) t = Inr t1"
    and same: "tk_kind t' = tk_kind t1 \<and> tk_slots t' = tk_slots t1 \<and> tk_firing t' = tk_firing t1"
    by (auto split: task_kind.splits)
  from same have "task_slot t' = task_slot t1" by (simp add: task_slot_def slot_ix_cong [of t' t1])
  with set_slot_effect [OF t1] same
  show "\<exists>sl. task_slot t = Inr sl \<and>
      task_slot t' = Inr (sl\<lparr>sl_mappedPE := virtualIx (pe_at (se_archi env) pe) mod 2 ^ 32\<rparr>) \<and> tk_kind t' = tk_kind t"
    by auto
qed

lemma setStartTime_slot:
  assumes "task_setStartTime v x s = Inr s'" and "slot_of s x = Inr sl"
  shows "\<exists>v'. slot_of s' x = Inr (sl\<lparr>sl_startTime := v'\<rparr>)"
proof -
  from assms obtain t t' where t: "task_at s x = Inr t" "s' = task_put x t' s" "task_slot t = Inr sl" and
    r: "(case tk_kind t of Sync_Task _ _ \<Rightarrow> task_set_slot (\<lambda>sl. sl\<lparr>sl_startTime := v\<rparr>) t | _ \<Rightarrow> Inr t) = Inr t'"
    by (auto simp: task_setStartTime_def task_update_def slot_of_def)
  from r have "t' = t \<or> task_set_slot (\<lambda>sl. sl\<lparr>sl_startTime := v\<rparr>) t = Inr t'" by (auto split: task_kind.splits)
  then show ?thesis
  proof
    assume "t' = t"
    with t have "slot_of s' x = Inr (sl\<lparr>sl_startTime := sl_startTime sl\<rparr>)"
      by (auto simp: slot_of_def task_at_def task_put_def)
    then show ?thesis by blast
  next
    assume "task_set_slot (\<lambda>sl. sl\<lparr>sl_startTime := v\<rparr>) t = Inr t'"
    from set_slot_effect [OF this] t show ?thesis by (auto simp: slot_of_def task_at_def task_put_def)
  qed
qed

lemma updateTask_slot:
  assumes u: "updateTaskAndSetReady env x pe a b sc = Inr sc'" and nr: "task_getState (sc_store sc) x \<noteq> Inr READY"
  defines "ix \<equiv> virtualIx (pe_at (se_archi env) pe)"
  shows "\<exists>v. slot_of (sc_store sc') x = Inr \<lparr>sl_startTime = v, sl_endTime = b, sl_mappedPE = ix mod 2 ^ 32,
     sl_jobExecIx = jobCountArray (sc_stats sc) ! ix mod 2 ^ 32, sl_state = READY\<rparr>"
proof -
  from u nr obtain c1 c2 c3 c4 st jc where
    1: "on_store (task_setMappedPE env pe x) sc = Inr c1" and 2: "on_store (task_setStartTime a x) c1 = Inr c2" and
    3: "on_store (task_setEndTime b x) c2 = Inr c3" and jc: "st_jobCount (sc_stats c3) ix = Inr jc" and
    4: "on_store (task_setJobExecIx (jc mod 2 ^ 32) x) c3 = Inr c4" and
    5: "on_store (task_setState READY x) (c4\<lparr>sc_stats := st\<rparr>) = Inr sc'"
    unfolding updateTaskAndSetReady_def Let_def ix_def [symmetric] by (auto split: if_splits)
  from on_store_frame [OF 1] on_store_frame [OF 2] on_store_frame [OF 3] jc
  have jobs: "jc = jobCountArray (sc_stats sc) ! ix" by (auto simp: st_jobCount_def)
  from 1 obtain sl where sl: "slot_of (sc_store c1) x = Inr (sl\<lparr>sl_mappedPE := ix mod 2 ^ 32\<rparr>)"
    using setMappedPE_slot [of env pe x "sc_store sc"] by (auto simp: on_store_def ix_def)
  from 2 have "task_setStartTime a x (sc_store c1) = Inr (sc_store c2)" by (auto simp: on_store_def)
  from setStartTime_slot [OF this sl] obtain v where
    v: "slot_of (sc_store c2) x = Inr (sl\<lparr>sl_mappedPE := ix mod 2 ^ 32, sl_startTime := v\<rparr>)" by auto
  note upd = update_slot_effect [OF _ set_slot_effect]
  from 3 have "slot_of (sc_store c3) x = Inr (sl\<lparr>sl_mappedPE := ix mod 2 ^ 32, sl_startTime := v, sl_endTime := b\<rparr>)"
    using upd [of x _ "sc_store c2" "sc_store c3"] v by (fastforce simp: on_store_def task_setEndTime_def)
  moreover from 4 obtain s4 where "task_setJobExecIx (jc mod 2 ^ 32) x (sc_store c3) = Inr s4" "sc_store c4 = s4"
    by (auto simp: on_store_def)
  ultimately have "slot_of (sc_store c4) x =
      Inr (sl\<lparr>sl_mappedPE := ix mod 2 ^ 32, sl_startTime := v, sl_endTime := b, sl_jobExecIx := jc mod 2 ^ 32\<rparr>)"
    using upd [of x _ "sc_store c3" s4] by (fastforce simp: task_setJobExecIx_def)
  moreover from 5 have "task_setState READY x (sc_store c4) = Inr (sc_store sc')" by (auto simp: on_store_def)
  ultimately have "slot_of (sc_store sc') x = Inr (sl\<lparr>sl_mappedPE := ix mod 2 ^ 32, sl_startTime := v, sl_endTime := b,
      sl_jobExecIx := jc mod 2 ^ 32, sl_state := READY\<rparr>)"
    using upd [of x _ "sc_store c4" "sc_store sc'"] by (fastforce simp: task_setState_def)
  then show ?thesis by (cases sl) (simp add: jobs)
qed


text \<open>One task object is left as it is.\<close>

definition keeps :: "nat \<Rightarrow> task_store \<Rightarrow> task_store \<Rightarrow> bool" where
  "keeps y s s' \<longleftrightarrow> (y < length (ts_tasks s) \<longrightarrow> y < length (ts_tasks s') \<and>
     tk_kind (ts_tasks s' ! y) = tk_kind (ts_tasks s ! y) \<and> tk_slots (ts_tasks s' ! y) = tk_slots (ts_tasks s ! y))"

lemma keeps_refl [simp]: "keeps y s s"
  by (simp add: keeps_def)

lemma keeps_trans: "keeps y s t \<Longrightarrow> keeps y t u \<Longrightarrow> keeps y s u"
  by (auto simp: keeps_def)

lemma same_slots_keeps: "same_slots s s' \<Longrightarrow> keeps y s s'"
  by (simp add: keeps_def same_slots_def)

lemma update_keeps: "task_update x f s = Inr s' \<Longrightarrow> x \<noteq> y \<Longrightarrow> keeps y s s'"
  by (auto simp: task_update_def task_at_def task_put_def keeps_def)

lemma updateTask_keeps:
  assumes "updateTaskAndSetReady env x pe a b sc = Inr sc'" and "x \<noteq> y"
  shows "keeps y (sc_store sc) (sc_store sc') \<and> length (ts_tasks (sc_store sc')) = length (ts_tasks (sc_store sc))"
proof -
  have upd: "keeps y (sc_store c) (sc_store c') \<and> length (ts_tasks (sc_store c')) = length (ts_tasks (sc_store c))"
    if "on_store (task_update x f) c = Inr c'" for f c c'
  proof -
    from that have u: "task_update x f (sc_store c) = Inr (sc_store c')" by (auto simp: on_store_def)
    from u obtain t where "sc_store c' = task_put x t (sc_store c)" unfolding task_update_def by (auto) metis
    then have "length (ts_tasks (sc_store c')) = length (ts_tasks (sc_store c))"
      by (simp add: task_put_def)
    with update_keeps [OF u assms(2)] show ?thesis by simp
  qed
  have upd2: "keeps y (sc_store c) (sc_store c') \<and> length (ts_tasks (sc_store c')) = length (ts_tasks (sc_store c))"
    if "on_store (task_update x f) (c\<lparr>sc_stats := st\<rparr>) = Inr c'" for f c c' st
    using upd [OF that] by simp
  from assms(1) show ?thesis
    unfolding updateTaskAndSetReady_def Let_def task_setMappedPE_def task_setStartTime_def task_setEndTime_def
      task_setJobExecIx_def task_setState_def
    by (auto split: if_splits dest!: upd upd2 elim!: keeps_trans)
qed

lemma keeps_slot: "keeps y s s' \<Longrightarrow> task_at s y = Inr t \<Longrightarrow> (\<And>h v. tk_kind t \<noteq> Vect_Task h v) \<Longrightarrow> slot_of s' y = slot_of s y"
  by (auto simp: keeps_def task_at_def slot_of_def task_slot_def slot_ix_def split: task_kind.splits)

lemma same_slots_mappable:
  "keeps x s s' \<Longrightarrow> task_at s x = Inr t \<Longrightarrow> task_isMappableOnPE env s' x pe = task_isMappableOnPE env s x pe"
  by (auto simp: keeps_def task_isMappableOnPE_def task_at_def)

subsection \<open>Dependencies and costs change no mapping\<close>

definition quiet :: "schedule \<Rightarrow> schedule \<Rightarrow> bool" where
  "quiet sc sc' \<longleftrightarrow> sc_stats sc' = sc_stats sc \<and> sc_tasks sc' = sc_tasks sc \<and> same_slots (sc_store sc) (sc_store sc') \<and>
     ts_vertexIx (sc_store sc') = ts_vertexIx (sc_store sc) \<and> ts_taskIx (sc_store sc') = ts_taskIx (sc_store sc)"

lemma quiet_refl [simp]: "quiet sc sc"
  by (simp add: quiet_def)

lemma quiet_trans: "quiet a b \<Longrightarrow> quiet b c \<Longrightarrow> quiet a c"
  by (auto simp: quiet_def intro: same_slots_trans)

lemma on_store_quiet:
  "on_store f sc = Inr sc' \<Longrightarrow> (\<And>s s'. f s = Inr s' \<Longrightarrow> same_slots s s' \<and> ts_vertexIx s' = ts_vertexIx s \<and> ts_taskIx s' = ts_taskIx s) \<Longrightarrow> quiet sc sc'"
  by (auto simp: quiet_def on_store_def)

lemma task_update_ix: "task_update x f s = Inr s' \<Longrightarrow> ts_vertexIx s' = ts_vertexIx s \<and> ts_taskIx s' = ts_taskIx s"
  by (auto simp: task_update_def task_put_def)

lemma setOnFiring_quiet: "task_setOnFiring env k x s = Inr s' \<Longrightarrow> same_slots s s' \<and> ts_vertexIx s' = ts_vertexIx s \<and> ts_taskIx s' = ts_taskIx s"
  by (simp add: setOnFiring_slots task_setOnFiring_def task_update_ix)

lemma setSync_quiet: "task_setSyncExecIxOnLRT env l v x s = Inr s' \<Longrightarrow> same_slots s s' \<and> ts_vertexIx s' = ts_vertexIx s \<and> ts_taskIx s' = ts_taskIx s"
  using setSync_slots task_update_ix unfolding task_setSyncExecIxOnLRT_def by blast

lemma schedule_task_quiet: "schedule_task env ix sc = Inr (t, sc') \<Longrightarrow> quiet sc sc'"
  by (auto simp: schedule_task_def split: if_splits prod.splits dest!: on_store_quiet [OF _ setOnFiring_quiet])

lemma depend_on_quiet:
  assumes "depend_on env x k src j rate (sc, cr, mt) = Inr (sc', cr', mt')"
  shows "quiet sc sc' \<and> mt \<le> mt'"
proof -
  from assms obtain sc1 where 1: "on_store (task_setOnFiring env k x) sc = Inr sc1" and
    2: "quiet sc1 sc'" and "mt \<le> mt'"
  proof -
    from assms obtain l sc1 cj where a: "on_store (task_setOnFiring env k x) sc = Inr sc1" "mt \<le> mt'" and
      b: "(if cj = u32_max \<or> j > cj then on_store (task_setSyncExecIxOnLRT env l j x) sc1 else Inr sc1) = Inr sc'"
      unfolding depend_on_def Let_def by auto
    from b have "quiet sc1 sc'"
      using on_store_quiet [OF _ setSync_quiet] by (cases "cj = u32_max \<or> j > cj") (simp_all only: if_True if_False, auto)
    from that [OF a(1) this a(2)] show ?thesis .
  qed
  from quiet_trans [OF on_store_quiet [OF 1 setOnFiring_quiet] 2] \<open>mt \<le> mt'\<close> show ?thesis by simp
qed

lemma srdag_dep_quiet:
  assumes "srdag_dep env x (sc, cr, mt) inp = Inr (sc', cr', mt')"
  shows "quiet sc sc' \<and> mt \<le> mt'"
  using assms by (auto simp: srdag_dep_def split: prod.splits option.splits
      dest!: schedule_task_quiet depend_on_quiet intro: quiet_trans)

lemma pisdf_dep_quiet:
  assumes "pisdf_dep env x (sc, cr, mt) d = Inr (sc', cr', mt')"
  shows "quiet sc sc' \<and> mt \<le> mt'"
proof (cases "dep_vertex d = None \<or> dep_handler d = None")
  case True
  with assms show ?thesis by (auto simp: pisdf_dep_def split: option.splits)
next
  case False
  then obtain v h where vh: "dep_vertex d = Some v" "dep_handler d = Some h" by auto
  let ?body = "\<lambda>f (sc, cr, mt) k.
            bindE (get_at (ts_taskIx (sc_store sc) h (vref_ix v)) k) (\<lambda>i. bindE (schedule_task env i sc) (\<lambda>(src, sc1).
            case src of None \<Rightarrow> Inr (sc1, cr, mt)
            | Some s \<Rightarrow> depend_on env x f s i (dep_bytes d k) (sc1, cr, mt)))"
  from assms vh obtain f ks where "foldE (?body f) (sc, cr, mt) ks = Inr (sc', cr', mt')"
    by (auto simp: pisdf_dep_def)
  then have "case (sc', cr', mt') of (c, _, t) \<Rightarrow> quiet sc c \<and> mt \<le> t"
  proof (rule foldE_invariant)
    fix s k s'
    assume I: "case s of (c, _, t) \<Rightarrow> quiet sc c \<and> mt \<le> t" and st: "?body f s k = Inr s'"
    obtain c cr t where s: "s = (c, cr, t)" by (cases s)
    obtain c' cr' t' where s': "s' = (c', cr', t')" by (cases s')
    from st s s' have "quiet c c' \<and> t \<le> t'"
      by (auto split: option.splits dest!: schedule_task_quiet depend_on_quiet intro: quiet_trans)
    with I s s' show "case s' of (c, _, t) \<Rightarrow> quiet sc c \<and> mt \<le> t" by (auto intro: quiet_trans)
  qed simp
  then show ?thesis by simp
qed

lemma fold_quiet:
  assumes "foldE f (sc, cr, mt) xs = Inr (sc', cr', mt')"
    and "\<And>sc cr mt x sc' cr' mt'. f (sc, cr, mt) x = Inr (sc', cr', mt') \<Longrightarrow> quiet sc sc' \<and> mt \<le> (mt' :: nat)"
  shows "quiet sc sc' \<and> mt \<le> mt'"
proof -
  have "case (sc', cr', mt') of (c, _, t) \<Rightarrow> quiet sc c \<and> mt \<le> t"
    using assms(1)
  proof (rule foldE_invariant)
    fix s x s'
    assume "case s of (c, _, t) \<Rightarrow> quiet sc c \<and> mt \<le> t" "f s x = Inr s'"
    then show "case s' of (c, _, t) \<Rightarrow> quiet sc c \<and> mt \<le> t"
      using assms(2) by (cases s; cases s') (auto intro: quiet_trans, meson le_trans)
  qed simp
  then show ?thesis by simp
qed

lemma computeStartTime_quiet:
  assumes "computeStartTime env startT x cr sc = Inr (sc', cr', mt)"
  shows "quiet sc sc' \<and> startT \<le> mt"
proof -
  have "quiet sc sc' \<and> startT \<le> mt" if "foldE (srdag_dep env x) (sc, cr, startT) xs = Inr (sc', cr', mt)" for xs
    using that by (rule fold_quiet) (rule srdag_dep_quiet)
  moreover have "quiet sc sc' \<and> startT \<le> mt" if "foldE (pisdf_dep env x) (sc, cr, startT) xs = Inr (sc', cr', mt)" for xs
    using that by (rule fold_quiet) (rule pisdf_dep_quiet)
  ultimately show ?thesis using assms unfolding computeStartTime_def by (auto split: task_kind.splits)
qed

lemma com_cost_quiet:
  assumes "computeCommunicationCost env x pe cr sc = Inr (sc', c, e)"
  shows "quiet sc sc'"
proof -
  from assms obtain f where "foldE (com_cost_step env x f pe cr) (sc, 0, 0) [0..<LRT_count env] = Inr (sc', c, e)"
    by (auto simp: computeCommunicationCost_def)
  then have "quiet sc (fst (sc', c, e))"
  proof (rule foldE_invariant)
    fix s i s'
    assume I: "quiet sc (fst s)" and st: "com_cost_step env x f pe cr s i = Inr s'"
    obtain c1 b1 e1 where s: "s = (c1, b1, e1)" by (cases s)
    from st s have "quiet c1 (fst s')"
      by (auto simp: com_cost_step_def split: if_splits prod.splits dest!: schedule_task_quiet on_store_quiet [OF _ setOnFiring_quiet]
          elim!: quiet_trans)
    with I s show "quiet sc (fst s')" by (auto intro: quiet_trans)
  qed simp
  then show ?thesis by simp
qed

subsection \<open>Communications between clusters\<close>

text \<open>The time a send or receive task takes on the bus between two clusters; without a bus it is the largest value.\<close>

definition bus_time :: "sched_env \<Rightarrow> sync_type \<Rightarrow> nat \<Rightarrow> nat \<Rightarrow> nat \<Rightarrow> bool" where
  "bus_time env ty c c' d \<longleftrightarrow> (\<exists>bus. getClusterToClusterMemoryBus (se_archi env) (se_platform env) c c' = Inr bus \<and>
     (case bus of None \<Rightarrow> d = u64_max
      | Some b \<Rightarrow> \<exists>bu. get_at (ar_buses (se_archi env)) b = Inr bu \<and> d = (case ty of SEND \<Rightarrow> writeSpeed bu | RECEIVE \<Rightarrow> readSpeed bu)))"

definition enabled_in :: "sched_env \<Rightarrow> nat \<Rightarrow> nat \<Rightarrow> bool" where
  "enabled_in env c pe \<longleftrightarrow> Some pe \<in> set (cl_array (cluster_at (se_archi env) c)) \<and> pe_enabled (pe_at (se_archi env) pe)"

text \<open>Any number of pairs of jobs, a send on an element of another cluster and a receive on an element of the cluster \<open>c\<close>. Each job
  takes the time of its bus, starts when the job before it on its element has ended, the receive not before the end of its
  send. All receives have ended at \<open>t\<close>.\<close>

inductive comms :: "sched_env \<Rightarrow> nat \<Rightarrow> stats \<Rightarrow> nat \<Rightarrow> stats \<Rightarrow> bool" for env c st t where
  no_comm: "comms env c st t st"
| comm: "comms env c st t st1 \<Longrightarrow> c' \<noteq> c \<Longrightarrow> enabled_in env c' p1 \<Longrightarrow> enabled_in env c p2 \<Longrightarrow>
    bus_time env SEND c' c d1 \<Longrightarrow> bus_time env RECEIVE c c' d2 \<Longrightarrow>
    p1 < length (endTimeArray st1) \<Longrightarrow> endTimeArray st1 ! p1 \<le> a1 \<Longrightarrow> st2 = stats_add_job p1 a1 (add64 a1 d1) st1 \<Longrightarrow>
    p2 < length (endTimeArray st2) \<Longrightarrow> endTimeArray st2 ! p2 \<le> a2 \<Longrightarrow> add64 a1 d1 \<le> a2 \<Longrightarrow>
    add64 a2 d2 \<le> t \<Longrightarrow> comms env c st t (stats_add_job p2 a2 (add64 a2 d2) st2)"

lemma comms_later: "comms env c st t st' \<Longrightarrow> t \<le> t' \<Longrightarrow> comms env c st t' st'"
  by (induction rule: comms.induct) (auto intro: comms.intros order_trans)

lemma comms_trans: "comms env c st2 t st3 \<Longrightarrow> comms env c st1 t st2 \<Longrightarrow> comms env c st1 t st3"
  by (induction rule: comms.induct) (auto intro: comms.comm)

lemma add64_less [simp]: "add64 a b < 2 ^ 64"
  by (simp add: add64_def)

lemma length_add_job: "length (endTimeArray (stats_add_job ix a b st)) = length (endTimeArray st)"
  by (simp add: stats_add_job_def)

lemma comms_ok: "comms env c st t st' \<Longrightarrow> stats_ok st \<Longrightarrow> stats_ok st'"
  by (induction rule: comms.induct) (auto simp: length_add_job simp del: power_numeral intro!: stats_add_job_ok)

subsection \<open>The search of a processing element\<close>

text \<open>A processing element of the cluster that is enabled and on which the task may run.\<close>

definition usable :: "sched_env \<Rightarrow> schedule \<Rightarrow> nat \<Rightarrow> nat \<Rightarrow> nat \<Rightarrow> bool" where
  "usable env sc x c pe \<longleftrightarrow> Some pe \<in> set (cl_array (cluster_at (se_archi env) c)) \<and>
     pe_enabled (pe_at (se_archi env) pe) \<and> task_isMappableOnPE env (sc_store sc) x (Some pe) = Inr True"

locale pe_finder =
  fixes fnd :: "sched_env \<Rightarrow> 'm finder"
  assumes found: "fnd env c sc x minStart m = Inr (Some pe, m') \<Longrightarrow> usable env sc x c pe"

lemma rr_loop_member:
  "rr_loop env sc x cl n i p = Inr (i', p') \<Longrightarrow> Some p \<in> set (cl_array cl) \<Longrightarrow> Some p' \<in> set (cl_array cl)"
proof (induction n arbitrary: i p)
  case (Suc n)
  show ?case
  proof (cases "rr_usable env sc x p = Inr True")
    case True
    with Suc.prems show ?thesis by simp
  next
    case False
    with Suc.prems(1) obtain q where q: "rr_pe cl ((i + 1) mod PECount cl) = Inr q"
      "rr_loop env sc x cl n ((i + 1) mod PECount cl) q = Inr (i', p')"
      by (auto simp: Let_def split: if_splits)
    from q(1) have "Some q \<in> set (cl_array cl)" by (auto simp: rr_pe_def split: option.splits) (metis nth_mem)
    from Suc.IH [OF q(2) this] show ?thesis .
  qed
qed simp

lemma round_robin_found: "round_robin_findPE env c sc x minStart m = Inr (Some pe, m') \<Longrightarrow> usable env sc x c pe"
  by (auto simp: round_robin_findPE_def Let_def rr_usable_def usable_def rr_pe_def split: if_splits option.splits
      dest!: rr_loop_member) (metis nth_mem)+

interpretation round_robin: pe_finder round_robin_findPE
  by unfold_locales (rule round_robin_found)

lemma best_fit_found: "best_fit_findPE env c sc x minStart m = Inr (Some pe, m') \<Longrightarrow> usable env sc x c pe"
proof -
  assume "best_fit_findPE env c sc x minStart m = Inr (Some pe, m')"
  then obtain b where f: "foldE (best_fit_step env sc x minStart) \<lparr>bf_found = None, bf_idle = u64_max, bf_end = u64_max\<rparr>
       (cl_peArray (cluster_at (se_archi env) c)) = Inr b" and b: "bf_found b = Some pe"
    by (auto simp: best_fit_findPE_def)
  from f have "\<forall>p. bf_found b = Some p \<longrightarrow> usable env sc x c p"
  proof (rule foldE_invariant)
    fix s q s'
    assume q: "q \<in> set (cl_peArray (cluster_at (se_archi env) c))" and I: "\<forall>p. bf_found s = Some p \<longrightarrow> usable env sc x c p"
      and st: "best_fit_step env sc x minStart s q = Inr s'"
    from q have "q \<in> set (cl_array (cluster_at (se_archi env) c))" by (auto simp: cl_peArray_def dest: in_set_takeD)
    with I st show "\<forall>p. bf_found s' = Some p \<longrightarrow> usable env sc x c p"
      by (auto simp: best_fit_step_def usable_def Let_def split: option.splits if_splits)
  qed simp
  with b show ?thesis by simp
qed

interpretation best_fit: pe_finder best_fit_findPE
  by unfold_locales (rule best_fit_found)

end
