(* ===== verification/MapperProps.thy ===== *)
theory MapperProps
  imports SchedProps
begin

text \<open>
  The mapping of a task, communications included: the chosen element can run it, nothing on an element overlaps, the
  task starts after its sources.
\<close>

subsection \<open>Kinds\<close>

definition kinds :: "task_store \<Rightarrow> task_kind list" where
  "kinds s = List.map tk_kind (ts_tasks s)"

lemma update_kinds:
  assumes "on_store (task_update x f) sc = Inr sc'" and "\<And>t t'. f t = Inr t' \<Longrightarrow> tk_kind t' = tk_kind t"
  shows "kinds (sc_store sc') = kinds (sc_store sc)"
  using assms by (auto simp: on_store_def task_update_def task_put_def task_at_def kinds_def map_update list_update_same_conv)

lemma set_slot_kind: "task_set_slot f t = Inr t' \<Longrightarrow> tk_kind t' = tk_kind t"
  by (auto simp: task_set_slot_def)

lemma updateTask_kinds:
  assumes "updateTaskAndSetReady env x pe a b sc = Inr sc'"
  shows "kinds (sc_store sc') = kinds (sc_store sc)"
proof -
  have 1: "kinds (sc_store c') = kinds (sc_store c)" if "on_store (task_setMappedPE env pe x) c = Inr c'" for c c'
    using that unfolding task_setMappedPE_def
    by (rule update_kinds) (auto split: task_kind.splits dest!: set_slot_kind)
  have 2: "kinds (sc_store c') = kinds (sc_store c)" if "on_store (task_setStartTime a x) c = Inr c'" for c c'
    using that unfolding task_setStartTime_def
    by (rule update_kinds) (auto split: task_kind.splits dest!: set_slot_kind)
  have 3: "kinds (sc_store c') = kinds (sc_store c)" if "on_store (task_update x (task_set_slot f)) c = Inr c'" for f c c'
    using that by (rule update_kinds) (rule set_slot_kind)
  have 4: "kinds (sc_store c') = kinds (sc_store c)" if "on_store (task_update x (task_set_slot f)) (c\<lparr>sc_stats := st\<rparr>) = Inr c'" for f c c' st
    using 3 [OF that] by simp
  from assms show ?thesis
    unfolding updateTaskAndSetReady_def Let_def task_setEndTime_def task_setJobExecIx_def task_setState_def
    by (auto split: if_splits dest!: 1 2 3 4)
qed

subsection \<open>Communications\<close>

text \<open>What the mapping has decided when communications are added: the chosen element is free at the start time, the end time is the
  time of the task on the element later.\<close>

definition chosen_ok :: "sched_env \<Rightarrow> nat \<Rightarrow> nat \<Rightarrow> schedule \<Rightarrow> mapping_result \<Rightarrow> bool" where
  "chosen_ok env x pe sc r \<longleftrightarrow> mr_pe r = Some pe \<and>
     endTimeArray (sc_stats sc) ! virtualIx (pe_at (se_archi env) pe) \<le> mr_startTime r \<and>
     (\<exists>d. task_timingOnPE env (sc_store sc) x (Some pe) = Inr d \<and> mr_endTime r = add64 (mr_startTime r) d)"

definition env_ok :: "sched_env \<Rightarrow> bool" where
  "env_ok env \<longleftrightarrow> archi_ok (se_archi env) \<and> ar_platform (se_archi env) = Some (se_platform env)"

lemma add64_swap: "add64 (add64 a b) c = add64 (add64 a c) b"
  by (simp add: add64_def mod_simps ac_simps)

lemma add64_sub64: "b < 2 ^ 64 \<Longrightarrow> add64 a (sub64 b a) = b"
proof -
  assume b: "b < 2 ^ 64"
  have "int (add64 a (sub64 b a)) = int b mod 2 ^ 64" unfolding int_add_sub64 by simp
  with b show ?thesis by simp
qed

lemma platform_cluster:
  assumes "env_ok env" and "Some c \<in> set (clusterArray (se_platform env))"
  shows "c < length (ar_clusters (se_archi env))"
proof -
  from assms(1) have f: "filled (length (ar_clusters (se_archi env))) (clusterArray (se_platform env))"
    by (auto simp: env_ok_def archi_ok_def platform_ok_def)
  from assms(2) obtain i where i: "i < length (clusterArray (se_platform env))" "clusterArray (se_platform env) ! i = Some c"
    by (auto simp: in_set_conv_nth)
  from filled_nth [OF f i(1)] i(2) show ?thesis by (auto split: if_splits)
qed

lemma usable_ix:
  assumes "env_ok env" and "c < length (ar_clusters (se_archi env))" and "usable env sc x c pe"
  shows "virtualIx (pe_at (se_archi env) pe) = pe \<and> pe_cluster (pe_at (se_archi env) pe) = c"
  using assms cluster_array_member by (auto simp: env_ok_def usable_def)

lemma stats_add_job_end:
  "endTimeArray (stats_add_job ix a b st) = (endTimeArray st)[ix := b]"
  by (simp add: stats_add_job_def)

context pe_finder
begin

lemma place_sync_job:
  assumes p: "place_sync (fnd env) env c x minStart (sc, m) = Inr (sc', m')" and state: "task_getState (sc_store sc) x \<noteq> Inr READY"
  shows "\<exists>pe a d. usable env sc x c pe \<and> virtualIx (pe_at (se_archi env) pe) < length (endTimeArray (sc_stats sc)) \<and>
    endTimeArray (sc_stats sc) ! virtualIx (pe_at (se_archi env) pe) \<le> a \<and> minStart \<le> a \<and>
    task_timingOnPE env (sc_store sc) x None = Inr d \<and>
    sc_stats sc' = stats_add_job (virtualIx (pe_at (se_archi env) pe)) a (add64 a d) (sc_stats sc) \<and>
    task_endTime (sc_store sc') x = Inr (add64 a d) \<and> kinds (sc_store sc') = kinds (sc_store sc) \<and> (\<forall>y. y \<noteq> x \<longrightarrow> keeps y (sc_store sc) (sc_store sc')) \<and>
    length (ts_tasks (sc_store sc')) = length (ts_tasks (sc_store sc))"
proof -
  from p obtain pe m1 e d where f: "fnd env c sc x minStart m = Inr (Some pe, m1)" and
    e: "st_endTime (sc_stats sc) (virtualIx (pe_at (se_archi env) pe)) = Inr e" and
    d: "task_timingOnPE env (sc_store sc) x None = Inr d" and
    u: "updateTaskAndSetReady env x pe (max e minStart) (add64 (max e minStart) d) sc = Inr sc'"
    by (auto simp: place_sync_def Let_def split: option.splits)
  from e have e': "e = endTimeArray (sc_stats sc) ! virtualIx (pe_at (se_archi env) pe)" by (auto simp: st_endTime_def)
  from updateTask_stats [OF u] state have
    st: "virtualIx (pe_at (se_archi env) pe) < length (endTimeArray (sc_stats sc)) \<and>
      sc_stats sc' = stats_add_job (virtualIx (pe_at (se_archi env) pe)) (max e minStart) (add64 (max e minStart) d) (sc_stats sc)"
    by auto
  from updateTask_slot [OF u state] have "task_endTime (sc_store sc') x = Inr (add64 (max e minStart) d)"
    by (auto simp: slot_of_simps)
  moreover have "keeps y (sc_store sc) (sc_store sc') \<and> length (ts_tasks (sc_store sc')) = length (ts_tasks (sc_store sc))"
    if "y \<noteq> x" for y using updateTask_keeps [OF u that [symmetric]] .
  moreover from this [of "Suc x"] have "length (ts_tasks (sc_store sc')) = length (ts_tasks (sc_store sc))" by simp
  ultimately show ?thesis using found [OF f] st e' d updateTask_kinds [OF u]
    by (intro exI [of _ pe] exI [of _ "max e minStart"] exI [of _ d]) simp
qed

end

lemma make_task_facts:
  assumes "make_task t sc = (x, sc')"
  shows "x = length (ts_tasks (sc_store sc)) \<and> sc_stats sc' = sc_stats sc \<and> sc_tasks sc' = sc_tasks sc \<and>
    task_at (sc_store sc') x = Inr t \<and> keeps y (sc_store sc) (sc_store sc') \<and>
    length (ts_tasks (sc_store sc')) = Suc (length (ts_tasks (sc_store sc)))"
  using assms by (auto simp: make_task_def task_at_def keeps_def nth_append)

lemma sync_timing:
  "task_at s x = Inr (sync_task_new ty bus) \<Longrightarrow> task_timingOnPE env s x None = Inr d \<Longrightarrow>
     getClusterToClusterMemoryBus (se_archi env) (se_platform env) c c' = Inr bus \<Longrightarrow> bus_time env ty c c' d"
  by (auto simp: task_timingOnPE_def sync_task_new_def task_new_def bus_time_def split: option.splits sync_type.split if_splits)

lemma usable_enabled: "usable env sc x c pe \<Longrightarrow> enabled_in env c pe"
  by (simp add: usable_def enabled_in_def)

lemma keeps_timing:
  "keeps x s s' \<Longrightarrow> task_at s x = Inr t \<Longrightarrow> task_timingOnPE env s' x pe = task_timingOnPE env s x pe"
  by (auto simp: keeps_def task_timingOnPE_def task_at_def)

lemma sync_task_state: "task_at s x = Inr (sync_task_new ty bus) \<Longrightarrow> task_getState s x = Inr NOT_SCHEDULABLE"
  by (simp add: task_getState_def sync_task_new_def task_new_def task_slot_def slot_ix_def slot_new_def)

lemma sync_connect_frame:
  "on_store (sync_connect p q d x) sc = Inr sc' \<Longrightarrow> sc_stats sc' = sc_stats sc \<and> keeps y (sc_store sc) (sc_store sc') \<and>
     length (ts_tasks (sc_store sc')) = length (ts_tasks (sc_store sc))"
  using on_store_slots [OF _ sync_connect_slots] on_store_frame [of "sync_connect p q d x" sc sc']
    same_slots_keeps [of "sc_store sc" "sc_store sc'" y] by (auto simp: same_slots_def)

context pe_finder
begin

lemma insert_communication_ok:
  assumes i: "insert_communication (fnd env) env x src depIx prev mapped (sc, m, r) = Inr (sc', m', r')"
    and env: "env_ok env" and cl: "prev < length (ar_clusters (se_archi env))" "mapped < length (ar_clusters (se_archi env))"
    and ne: "prev \<noteq> mapped" and pe: "pe_cluster (pe_at (se_archi env) pe) = mapped" "virtualIx (pe_at (se_archi env) pe) = pe"
    and ch: "chosen_ok env x pe sc r" and x: "x < length (ts_tasks (sc_store sc))"
  shows "comms env mapped (sc_stats sc) (mr_startTime r') (sc_stats sc') \<and> chosen_ok env x pe sc' r' \<and>
    mr_startTime r \<le> mr_startTime r' \<and> keeps x (sc_store sc) (sc_store sc')"
proof -
  from i obtain b1 b2 snd_t rcv_t sc1 sc2 m2 sc3 sc4 sc5 sc6 se sne re pos where
    bus1: "getClusterToClusterMemoryBus (se_archi env) (se_platform env) prev mapped = Inr b1" and
    1: "make_task (sync_task_new SEND b1) sc = (snd_t, sc1)" and
    2: "place_sync (fnd env) env prev snd_t se (sc1, m) = Inr (sc2, m2)" and
    bus2: "getClusterToClusterMemoryBus (se_archi env) (se_platform env) mapped prev = Inr b2" and
    3: "make_task (sync_task_new RECEIVE b2) sc2 = (rcv_t, sc3)" and
    sne: "task_endTime (sc_store sc3) snd_t = Inr sne" and
    4: "place_sync (fnd env) env mapped rcv_t sne (sc3, m2) = Inr (sc4, m')" and
    5: "insertTasks env pos [(snd_t, 0), (rcv_t, 0)] sc4 = Inr sc5" and
    re: "task_endTime (sc_store sc5) rcv_t = Inr re" and
    r': "r' = (if re > mr_startTime r then let offset = sub64 re (mr_startTime r) in
        r\<lparr>mr_startTime := add64 (mr_startTime r) offset, mr_endTime := add64 (mr_endTime r) offset\<rparr> else r)" and
    6: "on_store (sync_connect (Some src) (Some rcv_t) depIx snd_t) sc5 = Inr sc6" and
    7: "on_store (sync_connect (Some snd_t) (Some x) depIx rcv_t) sc6 = Inr sc'"
    by (auto simp: insert_communication_def split: prod.splits)
  note f1 = make_task_facts [OF 1, of x] and f3 = make_task_facts [OF 3, of x] and f5 = insertTasks_frame [OF 5]
    and f6 = sync_connect_frame [OF 6, of x] and f7 = sync_connect_frame [OF 7, of x]
  from f1 x have x1: "x \<noteq> snd_t" by simp
  from place_sync_job [OF 2] sync_task_state f1 obtain p1 a1 d1 where
    p1: "usable env sc1 snd_t prev p1" "virtualIx (pe_at (se_archi env) p1) < length (endTimeArray (sc_stats sc))"
      "endTimeArray (sc_stats sc) ! virtualIx (pe_at (se_archi env) p1) \<le> a1" "task_timingOnPE env (sc_store sc1) snd_t None = Inr d1"
      "sc_stats sc2 = stats_add_job (virtualIx (pe_at (se_archi env) p1)) a1 (add64 a1 d1) (sc_stats sc)"
      "task_endTime (sc_store sc2) snd_t = Inr (add64 a1 d1)" "kinds (sc_store sc2) = kinds (sc_store sc1)"
      "keeps x (sc_store sc1) (sc_store sc2)" "length (ts_tasks (sc_store sc2)) = length (ts_tasks (sc_store sc1))"
    using x1 by auto
  from usable_ix [OF env cl(1) p1(1)] have v1: "virtualIx (pe_at (se_archi env) p1) = p1" "p1 \<noteq> pe" using pe ne by auto
  have sne': "sne = add64 a1 d1"
  proof -
    from f1 have n: "snd_t < length (ts_tasks (sc_store sc2))" using p1(9) by simp
    from f1 have "tk_kind (ts_tasks (sc_store sc1) ! snd_t) = Sync_Task SEND b1" "snd_t < length (ts_tasks (sc_store sc1))"
      by (auto simp: task_at_def sync_task_new_def task_new_def dest!: arg_cong [of _ _ tk_kind])
    with p1(7,9) have k: "tk_kind (ts_tasks (sc_store sc2) ! snd_t) = Sync_Task SEND b1" unfolding kinds_def by (metis nth_map)
    have "slot_of (sc_store sc3) snd_t = slot_of (sc_store sc2) snd_t"
      using make_task_facts [OF 3, of snd_t] n k by (intro keeps_slot) (auto simp: task_at_def)
    with sne p1(6) show ?thesis by (simp add: slot_of_simps)
  qed
  from f1 f3 p1(9) x have x3: "x \<noteq> rcv_t" by simp
  from place_sync_job [OF 4] sync_task_state f3 obtain p2 a2 d2 where
    p2: "usable env sc3 rcv_t mapped p2" "virtualIx (pe_at (se_archi env) p2) < length (endTimeArray (sc_stats sc2))"
      "endTimeArray (sc_stats sc2) ! virtualIx (pe_at (se_archi env) p2) \<le> a2" "sne \<le> a2"
      "task_timingOnPE env (sc_store sc3) rcv_t None = Inr d2"
      "sc_stats sc4 = stats_add_job (virtualIx (pe_at (se_archi env) p2)) a2 (add64 a2 d2) (sc_stats sc2)"
      "task_endTime (sc_store sc4) rcv_t = Inr (add64 a2 d2)"
      "keeps x (sc_store sc3) (sc_store sc4)" "length (ts_tasks (sc_store sc4)) = length (ts_tasks (sc_store sc3))"
      "kinds (sc_store sc4) = kinds (sc_store sc3)"
    using x3 by auto
  from usable_ix [OF env cl(2) p2(1)] have v2: "virtualIx (pe_at (se_archi env) p2) = p2" by simp
  have re': "re = add64 a2 d2"
  proof -
    from f3 p2(8,9) have "rcv_t < length (ts_tasks (sc_store sc4))" by simp
    moreover have "tk_kind (ts_tasks (sc_store sc4) ! rcv_t) = Sync_Task RECEIVE b2"
    proof -
      from f3 have "tk_kind (ts_tasks (sc_store sc3) ! rcv_t) = Sync_Task RECEIVE b2" "rcv_t < length (ts_tasks (sc_store sc3))"
        by (auto simp: task_at_def sync_task_new_def task_new_def dest!: arg_cong [of _ _ tk_kind])
      with p2(9,10) show ?thesis unfolding kinds_def by (metis nth_map)
    qed
    ultimately have "slot_of (sc_store sc5) rcv_t = slot_of (sc_store sc4) rcv_t"
      using f5 by (intro keeps_slot [OF same_slots_keeps]) (auto simp: task_at_def)
    with re p2(7) show ?thesis by (simp add: slot_of_simps)
  qed
  have st: "sc_stats sc' = stats_add_job p2 a2 (add64 a2 d2) (stats_add_job p1 a1 (add64 a1 d1) (sc_stats sc))"
    using f5 f6 f7 p1 p2 v1 v2 by simp
  have start: "mr_startTime r' = max (mr_startTime r) (add64 a2 d2)"
    using add64_sub64 [OF add64_less] by (simp add: r' re' Let_def)
  have bt: "bus_time env SEND prev mapped d1" "bus_time env RECEIVE mapped prev d2"
    using sync_timing [OF _ p1(4) bus1] f1 sync_timing [OF _ p2(5) bus2] f3 by auto
  have jobs: "comms env mapped (sc_stats sc) (mr_startTime r') (sc_stats sc')"
    unfolding st by (rule comm [OF no_comm ne usable_enabled [OF p1(1)] usable_enabled [OF p2(1)] bt _ _ refl])
      (use p1(2,3) p2(2,3,4) p1(5) v1 v2 sne' start in simp_all)
  have keep: "keeps x (sc_store sc) (sc_store sc')"
    using f1 p1(8) f3 p2(8) f5 f6 f7 same_slots_keeps keeps_trans by metis
  have old: "endTimeArray (sc_stats sc) ! pe \<le> mr_startTime r" "mr_pe r = Some pe" using ch pe by (auto simp: chosen_ok_def)
  from ch obtain d where d: "task_timingOnPE env (sc_store sc) x (Some pe) = Inr d" "mr_endTime r = add64 (mr_startTime r) d"
    by (auto simp: chosen_ok_def)
  from x have "task_at (sc_store sc) x = Inr (ts_tasks (sc_store sc) ! x)" by (simp add: task_at_def)
  from keeps_timing [OF keep this] d(1) have "task_timingOnPE env (sc_store sc') x (Some pe) = Inr d" by simp
  moreover have "mr_endTime r' = add64 (mr_startTime r') d"
    using d(2) by (simp add: r' Let_def add64_swap)
  moreover have "endTimeArray (sc_stats sc') ! pe = (if p2 = pe then add64 a2 d2 else endTimeArray (sc_stats sc) ! pe)"
    using p2(2) v1 v2 p1(5) by (auto simp: st stats_add_job_end)
  moreover have "mr_pe r' = Some pe" using old(2) by (simp add: r' Let_def)
  ultimately show ?thesis using jobs keep old pe start by (auto simp: chosen_ok_def)
qed

end

text \<open>What the communications keep: nothing overlaps, the chosen element stays free at the start time, which only grows.\<close>

definition comm_inv :: "sched_env \<Rightarrow> nat \<Rightarrow> nat \<Rightarrow> schedule \<Rightarrow> mapping_result \<Rightarrow> schedule \<Rightarrow> mapping_result \<Rightarrow> bool" where
  "comm_inv env x pe sc0 r0 sc r \<longleftrightarrow> comms env (pe_cluster (pe_at (se_archi env) pe)) (sc_stats sc0) (mr_startTime r) (sc_stats sc) \<and>
     chosen_ok env x pe sc r \<and>
     mr_startTime r0 \<le> mr_startTime r \<and> keeps x (sc_store sc0) (sc_store sc)"

lemma comm_inv_trans:
  "comm_inv env x pe sc0 r0 sc1 r1 \<Longrightarrow> comm_inv env x pe sc1 r1 sc2 r2 \<Longrightarrow> comm_inv env x pe sc0 r0 sc2 r2"
  by (auto simp: comm_inv_def intro: comms_trans comms_later keeps_trans)

lemma chosen_ok_quiet:
  assumes ch: "chosen_ok env x pe sc r" and q: "quiet sc sc'" and x: "x < length (ts_tasks (sc_store sc))"
  shows "chosen_ok env x pe sc' r"
proof -
  from q have "keeps x (sc_store sc) (sc_store sc')" by (simp add: quiet_def same_slots_keeps)
  from keeps_timing [OF this] x ch q show ?thesis by (auto simp: chosen_ok_def quiet_def task_at_def)
qed

lemma comm_inv_quiet:
  "chosen_ok env x pe sc r \<Longrightarrow> quiet sc sc' \<Longrightarrow> x < length (ts_tasks (sc_store sc)) \<Longrightarrow> comm_inv env x pe sc r sc' r"
  using chosen_ok_quiet [of env x pe sc r sc'] no_comm by (simp add: comm_inv_def quiet_def same_slots_keeps)

lemma comm_inv_chosen: "comm_inv env x pe sc0 r0 sc r \<Longrightarrow> chosen_ok env x pe sc r"
  by (simp add: comm_inv_def)

lemma comm_inv_length: "comm_inv env x pe sc0 r0 sc r \<Longrightarrow> x < length (ts_tasks (sc_store sc0)) \<Longrightarrow> x < length (ts_tasks (sc_store sc))"
  by (simp add: comm_inv_def keeps_def)

lemma mapped_cluster:
  assumes "env_ok env" and "processingElement (se_platform env) i = Inr (Some p)"
  shows "p < length (ar_pes (se_archi env)) \<and> pe_cluster (pe_at (se_archi env) p) < length (ar_clusters (se_archi env))"
proof -
  from assms have P: "platform_ok (se_archi env) (se_platform env)" and ok: "archi_ok (se_archi env)"
    by (auto simp: env_ok_def archi_ok_def)
  from assms(2) have "i < length (peArray (se_platform env))" "peArray (se_platform env) ! i = Some p"
    by (auto simp: processingElement_def)
  with P have "p < length (ar_pes (se_archi env))" by (auto simp: platform_ok_def dest: filled_nth split: if_splits)
  with ok show ?thesis by (simp add: archi_ok_def pe_ok_def)
qed

context pe_finder
begin

lemma mapCommunication_ok:
  assumes m: "mapCommunication (fnd env) env x src depIx (sc, m, r) = Inr (sc', m', r')"
    and env: "env_ok env" and pe: "virtualIx (pe_at (se_archi env) pe) = pe" "pe_cluster (pe_at (se_archi env) pe) < length (ar_clusters (se_archi env))"
    and ch: "chosen_ok env x pe sc r" and x: "x < length (ts_tasks (sc_store sc))"
  shows "comm_inv env x pe sc r sc' r'"
proof -
  have same: "comm_inv env x pe sc r sc r" using ch by (simp add: comm_inv_def no_comm)
  show ?thesis
  proof (cases src)
    case None
    with m same show ?thesis by (simp add: mapCommunication_def)
  next
    case (Some y)
    from ch have r: "mr_pe r = Some pe" by (simp add: chosen_ok_def)
    from m Some r obtain p where p: "task_mappedPe env (sc_store sc) y = Inr (Some p)"
      by (auto simp: mapCommunication_def split: option.splits)
    then obtain i where "processingElement (se_platform env) i = Inr (Some p)" by (auto simp: slot_of_simps)
    from mapped_cluster [OF env this] have pc: "pe_cluster (pe_at (se_archi env) p) < length (ar_clusters (se_archi env))" by simp
    show ?thesis
    proof (cases "pe_cluster (pe_at (se_archi env) p) = pe_cluster (pe_at (se_archi env) pe)")
      case True
      with m Some r p same show ?thesis by (simp add: mapCommunication_def)
    next
      case False
      with m Some r p have "insert_communication (fnd env) env x y depIx (pe_cluster (pe_at (se_archi env) p))
          (pe_cluster (pe_at (se_archi env) pe)) (sc, m, r) = Inr (sc', m', r')"
        by (simp add: mapCommunication_def)
      from insert_communication_ok [OF this env pc pe(2) False refl pe(1) ch x] show ?thesis by (simp add: comm_inv_def)
    qed
  qed
qed

text \<open>Each source is first looked up in the schedule.\<close>

lemma lookup_communication_ok:
  assumes l: "schedule_task env i sc = Inr (src, sc1)" and m: "mapCommunication (fnd env) env x src depIx (sc1, m, r) = Inr (sc', m', r')"
    and env: "env_ok env" and pe: "virtualIx (pe_at (se_archi env) pe) = pe" "pe_cluster (pe_at (se_archi env) pe) < length (ar_clusters (se_archi env))"
    and I: "comm_inv env x pe sc0 r0 sc r" and x: "x < length (ts_tasks (sc_store sc0))"
  shows "comm_inv env x pe sc0 r0 sc' r'"
proof -
  from comm_inv_quiet [OF comm_inv_chosen [OF I] schedule_task_quiet [OF l] comm_inv_length [OF I x]] have q: "comm_inv env x pe sc r sc1 r" .
  from comm_inv_trans [OF I q] have I1: "comm_inv env x pe sc0 r0 sc1 r" .
  from mapCommunication_ok [OF m env pe comm_inv_chosen [OF I1] comm_inv_length [OF I1 x]]
  show ?thesis by (rule comm_inv_trans [OF I1])
qed

lemma mapCommunications_ok:
  assumes m: "mapCommunications (fnd env) env x (sc, m, r) = Inr (sc', m', r')"
    and env: "env_ok env" and pe: "virtualIx (pe_at (se_archi env) pe) = pe" "pe_cluster (pe_at (se_archi env) pe) < length (ar_clusters (se_archi env))"
    and ch: "chosen_ok env x pe sc r" and x: "x < length (ts_tasks (sc_store sc))"
  shows "comm_inv env x pe sc r sc' r'"
proof -
  let ?I = "\<lambda>(c, m, s). comm_inv env x pe sc r c s"
  have init: "comm_inv env x pe sc r sc r" using ch by (simp add: comm_inv_def no_comm)
  have srdag: "comm_inv env x pe sc r sc' r'" if "foldE (srdag_communication (fnd env) env x) (sc, m, r) xs = Inr (sc', m', r')" for xs
  proof -
    from that have "?I (sc', m', r')"
    proof (rule foldE_invariant)
      fix s inp s'
      assume I: "?I s" and st: "srdag_communication (fnd env) env x s inp = Inr s'"
      from st I show "?I s'"
        by (cases s; cases s'; cases inp) (auto simp: srdag_communication_def split: prod.splits intro: lookup_communication_ok [OF _ _ env pe _ x])
    qed (simp add: init)
    then show ?thesis by simp
  qed
  have pisdf: "comm_inv env x pe sc r sc' r'" if "foldE (pisdf_communication (fnd env) env x) (0, sc, m, r) xs = Inr (d, sc', m', r')" for xs d
  proof -
    let ?J = "\<lambda>(d :: nat, c, m :: 'm, s). comm_inv env x pe sc r c s"
    from that have "?J (d, sc', m', r')"
    proof (rule foldE_invariant)
      fix s dep s'
      assume J: "?J s" and st: "pisdf_communication (fnd env) env x s dep = Inr s'"
      show "?J s'"
      proof (cases "dep_vertex dep = None \<or> dep_handler dep = None")
        case True
        with st J show ?thesis by (auto simp: pisdf_communication_def split: option.splits)
      next
        case False
        with st obtain ks v h where f: "foldE (\<lambda>(depIx, sc, m, r) k.
            bindE (get_at (ts_taskIx (sc_store sc) h (vref_ix v)) k) (\<lambda>i. bindE (schedule_task env i sc) (\<lambda>(src, sc1).
            bindE (mapCommunication (fnd env) env x src depIx (sc1, m, r)) (\<lambda>st1. Inr (depIx + 1, st1))))) s ks = Inr s'"
          by (auto simp: pisdf_communication_def)
        from f J show ?thesis
          by (rule foldE_invariant) (auto split: prod.splits intro: lookup_communication_ok [OF _ _ env pe _ x])
      qed
    qed (simp add: init)
    then show ?thesis by simp
  qed
  from m srdag pisdf show ?thesis
    by (auto simp: mapCommunications_def split: task_kind.splits)
qed

lemma cluster_fold_ok:
  assumes f: "foldE (cluster_step (fnd env) env x minStart cr) (sc, m, mapping_result_new) cls = Inr (sc', m', r)"
    and t: "task_at (sc_store sc) x = Inr t"
  shows "quiet sc sc' \<and> (\<forall>pe. mr_pe r = Some pe \<longrightarrow> (\<exists>c. Some c \<in> set cls \<and> usable env sc x c pe) \<and>
    chosen_ok env x pe sc r \<and> minStart \<le> mr_startTime r)"
proof -
  let ?I = "\<lambda>(c', m :: 'm, r). quiet sc c' \<and> (\<forall>pe. mr_pe r = Some pe \<longrightarrow> (\<exists>c. Some c \<in> set cls \<and> usable env sc x c pe) \<and>
    chosen_ok env x pe sc r \<and> minStart \<le> mr_startTime r)"
  from f have "?I (sc', m', r)"
  proof (rule foldE_invariant)
    show "?I (sc, m, mapping_result_new)" by (simp add: mapping_result_new_def)
    fix s cl s'
    assume cl: "cl \<in> set cls" and I: "?I s" and st: "cluster_step (fnd env) env x minStart cr s cl = Inr s'"
    obtain c1 m1 r1 where s: "s = (c1, m1, r1)" by (cases s)
    from st s obtain c fo m2 where c: "cl = Some c" and fo: "fnd env c c1 x minStart m1 = Inr (fo, m2)"
      by (auto simp: cluster_step_def split: option.splits)
    show "?I s'"
    proof (cases fo)
      case None
      with st s c fo have "s' = (c1, m2, r1)" by (simp add: cluster_step_def)
      with I s show ?thesis by simp
    next
      case (Some pe)
      with st s c fo obtain c2 cost ext e d where
        2: "computeCommunicationCost env x pe cr c1 = Inr (c2, cost, ext)" and
        e: "st_endTime (sc_stats c2) (virtualIx (pe_at (se_archi env) pe)) = Inr e" and
        d: "task_timingOnPE env (sc_store c2) x (Some pe) = Inr d" and
        s': "s' = (c2, m2, if saturateAdd (add64 (max e minStart) d) cost < mr_cost r1
                then r1\<lparr>mr_communication := mr_communication r1 \<or> ext > 0, mr_pe := Some pe, mr_startTime := max e minStart,
                  mr_endTime := add64 (max e minStart) d, mr_cost := saturateAdd (add64 (max e minStart) d) cost\<rparr>
                else r1\<lparr>mr_communication := mr_communication r1 \<or> ext > 0\<rparr>)"
        by (auto simp: cluster_step_def Let_def)
      from I s com_cost_quiet [OF 2] have q: "quiet sc c2" by (auto intro: quiet_trans)
      from found [OF fo [unfolded Some]] I s t have "usable env sc x c pe"
        by (auto simp: usable_def quiet_def same_slots_mappable [OF same_slots_keeps])
      moreover from q have "keeps x (sc_store sc) (sc_store c2)" by (simp add: quiet_def same_slots_keeps)
      from keeps_timing [OF this t] d have "task_timingOnPE env (sc_store sc) x (Some pe) = Inr d" by simp
      ultimately show ?thesis using q e I s s' c cl
        by (auto simp: chosen_ok_def quiet_def st_endTime_def)
    qed
  qed
  then show ?thesis by simp
qed

end

subsection \<open>Sources\<close>

text \<open>Entry \<open>i\<close> of the schedule ends at \<open>e\<close>: the end time its task holds for the firing of the entry.\<close>

definition ended :: "schedule \<Rightarrow> nat \<Rightarrow> nat \<Rightarrow> bool" where
  "ended sc i e \<longleftrightarrow> (\<exists>y k t sl. i < length (sc_tasks sc) \<and> sc_tasks sc ! i = (y, k) \<and> task_at (sc_store sc) y = Inr t \<and>
     get_at (tk_slots t) (case tk_kind t of Vect_Task _ _ \<Rightarrow> k | _ \<Rightarrow> 0) = Inr sl \<and> sl_endTime sl = e)"

text \<open>Entry \<open>i\<close> of the schedule is a source of the task \<open>x\<close>: it fires the source of one of the input edges of a single-rate vertex, or one
  of the firings an input edge of a vertex of the PiSDF graph depends on.\<close>

definition pisdf_source :: "sched_env \<Rightarrow> schedule \<Rightarrow> nat \<Rightarrow> nat \<Rightarrow> nat \<Rightarrow> nat \<Rightarrow> bool" where
  "pisdf_source env sc h v firing i \<longleftrightarrow> (\<exists>ds d w g ks k. pisdf_deps env h v firing = Inr ds \<and> d \<in> set ds \<and> dep_vertex d = Some w \<and>
     dep_handler d = Some g \<and> firings_of d = Inr ks \<and> k \<in> set ks \<and> get_at (ts_taskIx (sc_store sc) g (vref_ix w)) k = Inr i)"

definition source_of :: "sched_env \<Rightarrow> schedule \<Rightarrow> nat \<Rightarrow> nat \<Rightarrow> bool" where
  "source_of env sc x i \<longleftrightarrow> (\<exists>t. task_at (sc_store sc) x = Inr t \<and>
     (case tk_kind t of
        SRDAG_Task u \<Rightarrow> \<exists>info w rate. get_at (se_srdag env) u = Inr info \<and> (w, rate) \<in> set (si_inputs info) \<and>
          get_at (ts_vertexIx (sc_store sc)) w = Inr i
      | Sync_Task _ _ \<Rightarrow> False
      | Uni_Task h v \<Rightarrow> pisdf_source env sc h v (tk_firing t) i
      | Vect_Task h v \<Rightarrow> pisdf_source env sc h v (tk_firing t) i))"

lemma quiet_ended: "quiet sc sc' \<Longrightarrow> ended sc i e \<Longrightarrow> ended sc' i e"
  unfolding ended_def quiet_def
  by (elim exE conjE) (rename_tac y k t sl, rule_tac x = y in exI, rule_tac x = k in exI,
      rule_tac x = "ts_tasks (sc_store sc') ! y" in exI, rule_tac x = sl in exI, auto simp: same_slots_def task_at_def)

text \<open>The entry is looked up, which sets its task on the firing of the entry, and its end time is taken into account.\<close>

lemma looked_up_end:
  assumes l: "schedule_task env i sc = Inr (src, sc1)" and e: "ended sc i e"
  shows "\<exists>y. src = Some y \<and> task_endTime (sc_store sc1) y = Inr e"
proof -
  from e obtain y k t sl where y: "i < length (sc_tasks sc)" "sc_tasks sc ! i = (y, k)" "task_at (sc_store sc) y = Inr t"
    and sl: "get_at (tk_slots t) (case tk_kind t of Vect_Task _ _ \<Rightarrow> k | _ \<Rightarrow> 0) = Inr sl" "sl_endTime sl = e" by (auto simp: ended_def)
  from l y(1,2) have src: "src = Some y" and f: "task_setOnFiring env k y (sc_store sc) = Inr (sc_store sc1)"
    by (auto simp: schedule_task_def on_store_def)
  from f y(3) obtain t1 where "sc_store sc1 = task_put y t1 (sc_store sc)" "tk_kind t1 = tk_kind t" "tk_slots t1 = tk_slots t"
    "(\<exists>h v. tk_kind t = Vect_Task h v) \<longrightarrow> tk_firing t1 = k"
    unfolding task_setOnFiring_def task_update_def
    by (cases "tk_kind t") (auto split: if_splits dest!: sym [of "task_put _ _ _"])
  moreover from this(1) y(3) have "task_at (sc_store sc1) y = Inr t1" by (auto simp: task_at_def task_put_def)
  ultimately have "task_endTime (sc_store sc1) y = Inr e"
    using sl by (auto simp: task_endTime_def task_slot_def slot_ix_def split: task_kind.splits)
  with src show ?thesis by simp
qed

lemma depend_on_end: "depend_on env x k src j rate (sc, cr, mt) = Inr (sc', cr', mt') \<Longrightarrow> task_endTime (sc_store sc) src = Inr e \<Longrightarrow> e \<le> mt'"
  by (auto simp: depend_on_def Let_def)

text \<open>The sources taken into account so far.\<close>

definition awaited :: "schedule \<Rightarrow> (nat \<Rightarrow> bool) \<Rightarrow> schedule \<times> nat list \<times> nat \<Rightarrow> bool" where
  "awaited sc S st \<longleftrightarrow> quiet sc (fst st) \<and> (\<forall>i e. S i \<longrightarrow> ended sc i e \<longrightarrow> e \<le> snd (snd st))"

lemma awaited_start: "awaited sc (\<lambda>_. False) (sc, cr, mt)"
  by (simp add: awaited_def)

lemma awaited_more:
  assumes "awaited sc S (c, cr, mt)" and "quiet c c'" and "mt \<le> mt'" and "\<And>i e. T i \<Longrightarrow> S i \<or> (ended c i e \<longrightarrow> e \<le> mt')"
  shows "awaited sc T (c', cr', mt')"
  using assms quiet_ended by (fastforce simp: awaited_def intro: quiet_trans)

lemma awaited_fold:
  assumes f: "foldE f st xs = Inr st'" and a: "awaited sc S st"
    and step: "\<And>S st x st'. awaited sc S st \<Longrightarrow> f st x = Inr st' \<Longrightarrow> awaited sc (\<lambda>i. S i \<or> R x i) st'"
  shows "awaited sc (\<lambda>i. S i \<or> (\<exists>x \<in> set xs. R x i)) st'"
  using f
proof (rule foldE_prefix [where P = "\<lambda>ys. awaited sc (\<lambda>i. S i \<or> (\<exists>x \<in> set ys. R x i))"])
  show "awaited sc (\<lambda>i. S i \<or> (\<exists>x \<in> set []. R x i)) st" using a by simp
  fix ys x s t
  assume "awaited sc (\<lambda>i. S i \<or> (\<exists>x \<in> set ys. R x i)) s" and "x \<in> set xs" and "f s x = Inr t"
  from step [OF this(1,3)] show "awaited sc (\<lambda>i. S i \<or> (\<exists>x \<in> set (ys @ [x]). R x i)) t"
    by (rule back_subst [of "\<lambda>S. awaited sc S t"]) auto
qed

text \<open>One source of either graph: look up, then depend.\<close>

lemma awaited_lookup:
  assumes a: "awaited sc S (c, cr, mt)" and l: "schedule_task env j c = Inr (src, c1)"
    and d: "(case src of None \<Rightarrow> Inr (c1, cr, mt) | Some y \<Rightarrow> bindE (g c1 y) (\<lambda>k. depend_on env x f y k rate (c1, cr, mt))) = Inr st'"
  shows "awaited sc (\<lambda>i. S i \<or> i = j) st'"
proof -
  obtain c' cr' mt' where st': "st' = (c', cr', mt')" by (cases st')
  have q: "quiet c c1" using schedule_task_quiet [OF l] .
  show ?thesis
  proof (cases src)
    case None
    with d st' have "c' = c1" "cr' = cr" "mt' = mt" by auto
    with None st' looked_up_end [OF l] show ?thesis unfolding st' by (auto intro!: awaited_more [OF a] q)
  next
    case (Some y)
    with d st' obtain k where dep: "depend_on env x f y k rate (c1, cr, mt) = Inr (c', cr', mt')" by auto
    from depend_on_quiet [OF dep] q have "quiet c c'" "mt \<le> mt'" by (auto intro: quiet_trans)
    moreover have "e \<le> mt'" if "ended c j e" for e
      using looked_up_end [OF l that] Some depend_on_end [OF dep] by simp
    ultimately show ?thesis unfolding st' by (auto intro!: awaited_more [OF a])
  qed
qed

lemma srdag_dep_awaited:
  assumes "awaited sc S st" and "srdag_dep env x st inp = Inr st'"
  shows "awaited sc (\<lambda>i. S i \<or> get_at (ts_vertexIx (sc_store sc)) (fst inp) = Inr i) st'"
proof -
  obtain c cr mt where st: "st = (c, cr, mt)" by (cases st)
  obtain w rate where inp: "inp = (w, rate)" by (cases inp)
  from assms st obtain j src c1 where j: "get_at (ts_vertexIx (sc_store c)) w = Inr j" and l: "schedule_task env j c = Inr (src, c1)"
    and d: "(case src of None \<Rightarrow> Inr (c1, cr, mt) | Some y \<Rightarrow> bindE (task_getIx (sc_store c1) y) (\<lambda>k. depend_on env x 0 y k (to_u32 rate) (c1, cr, mt))) = Inr st'"
    unfolding srdag_dep_def st inp by (auto simp del: get_at_eq_Inr)
  from assms(1) st j have "(get_at (ts_vertexIx (sc_store sc)) (fst inp) = Inr i) = (i = j)" for i by (auto simp: awaited_def quiet_def inp)
  with awaited_lookup [OF assms(1) [unfolded st] l, of "\<lambda>c. task_getIx (sc_store c)"] d show ?thesis by simp
qed

lemma pisdf_dep_awaited:
  assumes a: "awaited sc S st" and d: "pisdf_dep env x st dep = Inr st'"
  shows "awaited sc (\<lambda>i. S i \<or> (\<exists>w g ks k. dep_vertex dep = Some w \<and> dep_handler dep = Some g \<and> firings_of dep = Inr ks \<and> k \<in> set ks \<and>
    get_at (ts_taskIx (sc_store sc) g (vref_ix w)) k = Inr i)) st'"
proof (cases "dep_vertex dep = None \<or> dep_handler dep = None")
  case True
  with d have "st' = st" by (auto simp: pisdf_dep_def split: option.splits)
  with a True show ?thesis by auto
next
  case False
  then obtain w g where wg: "dep_vertex dep = Some w" "dep_handler dep = Some g" by auto
  let ?body = "\<lambda>f (sc, cr, mt) k.
            bindE (get_at (ts_taskIx (sc_store sc) g (vref_ix w)) k) (\<lambda>i. bindE (schedule_task env i sc) (\<lambda>(src, sc1).
            case src of None \<Rightarrow> Inr (sc1, cr, mt)
            | Some s \<Rightarrow> depend_on env x f s i (dep_bytes dep k) (sc1, cr, mt)))"
  from d wg obtain f ks where ks: "firings_of dep = Inr ks" and fold: "foldE (?body f) st ks = Inr st'" by (auto simp: pisdf_dep_def)
  from fold a have "awaited sc (\<lambda>i. S i \<or> (\<exists>k \<in> set ks. get_at (ts_taskIx (sc_store sc) g (vref_ix w)) k = Inr i)) st'"
  proof (rule awaited_fold)
    fix S st k st'
    assume a: "awaited sc S st" and b: "?body f st k = Inr st'"
    obtain c cr mt where st: "st = (c, cr, mt)" by (cases st)
    from b st obtain j src c1 where j: "get_at (ts_taskIx (sc_store c) g (vref_ix w)) k = Inr j" and l: "schedule_task env j c = Inr (src, c1)"
      and dd: "(case src of None \<Rightarrow> Inr (c1, cr, mt) | Some y \<Rightarrow> bindE (Inr j) (\<lambda>i. depend_on env x f y i (dep_bytes dep k) (c1, cr, mt))) = Inr st'"
      by (auto split: option.splits)
    from a st j have ix: "(get_at (ts_taskIx (sc_store sc) g (vref_ix w)) k = Inr i) = (i = j)" for i by (auto simp: awaited_def quiet_def)
    from awaited_lookup [OF a [unfolded st] l dd]
    show "awaited sc (\<lambda>i. S i \<or> get_at (ts_taskIx (sc_store sc) g (vref_ix w)) k = Inr i) st'" unfolding ix .
  qed
  with wg ks show ?thesis by (simp add: Bex_def)
qed

lemma start_after_sources:
  assumes c: "computeStartTime env startT x cr sc = Inr (sc', cr', mt)" and i: "source_of env sc x i" "ended sc i e"
  shows "e \<le> mt"
proof -
  from i(1) obtain t where t: "task_at (sc_store sc) x = Inr t" by (auto simp: source_of_def)
  have le: "e \<le> mt" if "awaited sc S (sc', cr', mt)" "S i" for S
    using that i(2) by (simp add: awaited_def)
  have srdag: "e \<le> mt" if f: "foldE (srdag_dep env x) (sc, cr, startT) xs = Inr (sc', cr', mt)" and w: "(w, rate) \<in> set xs"
      "get_at (ts_vertexIx (sc_store sc)) w = Inr i" for xs w rate
  proof -
    have "awaited sc (\<lambda>i. False \<or> (\<exists>inp \<in> set xs. get_at (ts_vertexIx (sc_store sc)) (fst inp) = Inr i)) (sc', cr', mt)"
      by (rule awaited_fold [OF f awaited_start]) (erule (1) srdag_dep_awaited)
    from le [OF this] w show ?thesis by fastforce
  qed
  let ?R = "\<lambda>d i. \<exists>w g ks k. dep_vertex d = Some w \<and> dep_handler d = Some g \<and> firings_of d = Inr ks \<and> k \<in> set ks \<and>
    get_at (ts_taskIx (sc_store sc) g (vref_ix w)) k = Inr i"
  have pisdf: "e \<le> mt" if f: "foldE (pisdf_dep env x) (sc, cr, startT) ds = Inr (sc', cr', mt)" and d: "d \<in> set ds" "?R d i" for ds d
  proof -
    have "awaited sc (\<lambda>i. False \<or> (\<exists>d \<in> set ds. ?R d i)) (sc', cr', mt)"
      by (rule awaited_fold [OF f awaited_start]) (erule (1) pisdf_dep_awaited)
    from le [OF this] d show ?thesis by blast
  qed
  have pisdf_case: "e \<le> mt" if "pisdf_source env sc h v k i"
      "bindE (pisdf_deps env h v k) (foldE (pisdf_dep env x) (sc, cr, startT)) = Inr (sc', cr', mt)" for h v k
    using that pisdf unfolding pisdf_source_def by (elim exE conjE) (simp, blast)
  from c t i(1) srdag pisdf_case show ?thesis
    by (cases "tk_kind t") (auto simp: computeStartTime_def source_of_def simp del: get_at_eq_Inr)
qed

subsection \<open>The mapping of a task\<close>

text \<open>The outcome of mapping the task \<open>x\<close> from the schedule \<open>sc\<close> to \<open>sc'\<close>: after the communications (\<open>st1\<close>) a last job from
  \<open>a\<close>, as long as the task takes on the element (\<open>d\<close>), on an element that can run the task.\<close>

definition placed :: "sched_env \<Rightarrow> nat \<Rightarrow> nat \<Rightarrow> schedule \<Rightarrow> schedule \<Rightarrow> bool" where
  "placed env startT x sc sc' \<longleftrightarrow> (\<exists>c pe a d st1 v.
     Some c \<in> set (clusterArray (se_platform env)) \<and> usable env sc x c pe \<and> task_timingOnPE env (sc_store sc) x (Some pe) = Inr d \<and>
     comms env c (sc_stats sc) a st1 \<and> pe < length (endTimeArray st1) \<and> endTimeArray st1 ! pe \<le> a \<and> startT \<le> a \<and>
     (\<forall>i e. source_of env sc x i \<longrightarrow> ended sc i e \<longrightarrow> e \<le> a) \<and>
     sc_stats sc' = stats_add_job pe a (add64 a d) st1 \<and>
     slot_of (sc_store sc') x = Inr \<lparr>sl_startTime = v, sl_endTime = add64 a d, sl_mappedPE = pe mod 2 ^ 32,
       sl_jobExecIx = jobCountArray st1 ! pe mod 2 ^ 32, sl_state = READY\<rparr>)"

text \<open>Before that the state of the task becomes pending.\<close>

lemma setState_pending:
  assumes s: "on_store (task_setState PENDING x) sc = Inr sc1" and t: "task_at (sc_store sc) x = Inr t"
  shows "sc_stats sc1 = sc_stats sc \<and> kinds (sc_store sc1) = kinds (sc_store sc) \<and> task_getState (sc_store sc1) x = Inr PENDING \<and>
    (\<forall>i e. ended sc i e \<longrightarrow> ended sc1 i e) \<and> (\<forall>i. source_of env sc x i \<longrightarrow> source_of env sc1 x i)"
proof -
  from s have u: "task_update x (task_set_slot (\<lambda>sl. sl\<lparr>sl_state := PENDING\<rparr>)) (sc_store sc) = Inr (sc_store sc1)"
    by (auto simp: on_store_def task_setState_def)
  from update_slot_effect [OF u set_slot_effect] obtain sl where "slot_of (sc_store sc1) x = Inr (sl\<lparr>sl_state := PENDING\<rparr>)" by auto
  then have st: "task_getState (sc_store sc1) x = Inr PENDING" by (simp add: slot_of_simps)
  have k: "kinds (sc_store sc1) = kinds (sc_store sc)"
    using s unfolding task_setState_def by (rule update_kinds) (rule set_slot_kind)
  from u t obtain sl where sl: "task_slot t = Inr sl" and
    put: "sc_store sc1 = task_put x (t\<lparr>tk_slots := (tk_slots t)[slot_ix t := sl\<lparr>sl_state := PENDING\<rparr>]\<rparr>) (sc_store sc)"
    by (auto simp: task_update_def task_set_slot_def)
  from sl have sl': "slot_ix t < length (tk_slots t)" "tk_slots t ! slot_ix t = sl" by (auto simp: task_slot_def)
  have "ended sc1 i e" if "ended sc i e" for i e
  proof -
    from that obtain y k ty sy where y: "i < length (sc_tasks sc)" "sc_tasks sc ! i = (y, k)" "task_at (sc_store sc) y = Inr ty"
      "get_at (tk_slots ty) (case tk_kind ty of Vect_Task _ _ \<Rightarrow> k | _ \<Rightarrow> 0) = Inr sy" "sl_endTime sy = e" by (auto simp: ended_def)
    show ?thesis
    proof (cases "y = x")
      case True
      with y t put sl' on_store_frame [OF s] show ?thesis
        by (auto simp: ended_def task_at_def task_put_def nth_list_update)
    next
      case False
      with y put on_store_frame [OF s] show ?thesis by (auto simp: ended_def task_at_def task_put_def)
    qed
  qed
  moreover have "source_of env sc1 x i" if "source_of env sc x i" for i
    using that t put by (auto simp: source_of_def pisdf_source_def task_at_def task_put_def split: task_kind.splits)
  ultimately show ?thesis using on_store_frame [OF s] st k by simp
qed

lemma kinds_at: "kinds s' = kinds s \<Longrightarrow> task_at s x = Inr t \<Longrightarrow> \<exists>t'. task_at s' x = Inr t' \<and> tk_kind t' = tk_kind t"
  unfolding kinds_def task_at_def by (auto dest: map_eq_imp_length_eq) (metis length_map nth_map)

lemma kinds_mappable: "kinds s' = kinds s \<Longrightarrow> task_at s x = Inr t \<Longrightarrow> task_isMappableOnPE env s' x pe = task_isMappableOnPE env s x pe"
  by (frule (1) kinds_at) (auto simp: task_isMappableOnPE_def)

lemma kinds_timing: "kinds s' = kinds s \<Longrightarrow> task_at s x = Inr t \<Longrightarrow> task_timingOnPE env s' x pe = task_timingOnPE env s x pe"
  by (frule (1) kinds_at) (auto simp: task_timingOnPE_def)

context pe_finder
begin

lemma mapImpl_placed:
  assumes m: "mapImpl (fnd env) env startT x (sc, m) = Inr (sc', m')"
    and env: "env_ok env" and t: "task_at (sc_store sc) x = Inr t" "\<And>h v. tk_kind t \<noteq> Vect_Task h v"
    and nr: "task_getState (sc_store sc) x \<noteq> Inr READY"
  shows "placed env startT x sc sc'"
proof -
  from m obtain sc1 cr mt sc2 m2 r pe0 sc3 m3 r3 pe where
    1: "computeStartTime env startT x (replicate (LRT_count env) 0) sc = Inr (sc1, cr, mt)" and
    2: "foldE (cluster_step (fnd env) env x mt cr) (sc1, m, mapping_result_new) (clusterArray (se_platform env)) = Inr (sc2, m2, r)" and
    r: "mr_pe r = Some pe0" and
    3: "(if mr_communication r then mapCommunications (fnd env) env x (sc2, m2, r) else Inr (sc2, m2, r)) = Inr (sc3, m3, r3)" and
    pe: "mr_pe r3 = Some pe" and
    4: "updateTaskAndSetReady env x pe (mr_startTime r3) (mr_endTime r3) sc3 = Inr sc'"
    by (auto simp: mapImpl_def split: option.splits)
  from computeStartTime_quiet [OF 1] have q1: "quiet sc sc1" and mt: "startT \<le> mt" by auto
  from t q1 have x1: "x < length (ts_tasks (sc_store sc1))" and
    t1: "task_at (sc_store sc1) x = Inr (ts_tasks (sc_store sc1) ! x)"
    by (auto simp: quiet_def same_slots_def task_at_def)
  from cluster_fold_ok [OF 2 t1] r obtain c where q2: "quiet sc1 sc2" and c: "Some c \<in> set (clusterArray (se_platform env))"
    "usable env sc1 x c pe0" "chosen_ok env x pe0 sc1 r" "mt \<le> mr_startTime r" by auto
  from q1 have k1: "keeps x (sc_store sc) (sc_store sc1)" by (simp add: quiet_def same_slots_keeps)
  from c(2) same_slots_mappable [OF this t(1)] have us: "usable env sc x c pe0"
    by (simp add: usable_def)
  note cl = platform_cluster [OF env c(1)]
  from usable_ix [OF env cl us] cl have ix: "virtualIx (pe_at (se_archi env) pe0) = pe0"
    "pe_cluster (pe_at (se_archi env) pe0) < length (ar_clusters (se_archi env))" "pe_cluster (pe_at (se_archi env) pe0) = c" by simp_all
  note ch2 = chosen_ok_quiet [OF c(3) q2 x1]
  from q2 x1 have x2: "x < length (ts_tasks (sc_store sc2))" by (simp add: quiet_def same_slots_def)
  have I: "comm_inv env x pe0 sc2 r sc3 r3"
  proof (cases "mr_communication r")
    case True
    with 3 show ?thesis using mapCommunications_ok [OF _ env ix(1,2) ch2 x2] by simp
  next
    case False
    with 3 ch2 show ?thesis by (simp add: comm_inv_def no_comm)
  qed
  then have pe0: "pe = pe0" and fin: "endTimeArray (sc_stats sc3) ! pe0 \<le> mr_startTime r3"
      "mr_startTime r \<le> mr_startTime r3" "comms env c (sc_stats sc2) (mr_startTime r3) (sc_stats sc3)" "keeps x (sc_store sc2) (sc_store sc3)"
    using pe ix by (auto simp: comm_inv_def chosen_ok_def)
  from q1 q2 have st2: "sc_stats sc2 = sc_stats sc" by (simp add: quiet_def)
  from q1 q2 fin(4) have k: "keeps x (sc_store sc) (sc_store sc3)"
    by (meson quiet_def same_slots_keeps keeps_trans)
  from I pe0 pe obtain d where "task_timingOnPE env (sc_store sc3) x (Some pe0) = Inr d" and d2: "mr_endTime r3 = add64 (mr_startTime r3) d"
    by (auto simp: comm_inv_def chosen_ok_def)
  with keeps_timing [OF k t(1)] have d: "task_timingOnPE env (sc_store sc) x (Some pe0) = Inr d" by simp
  from keeps_slot [OF k t] nr have nr3: "task_getState (sc_store sc3) x \<noteq> Inr READY" by (simp add: slot_of_simps)
  from updateTask_slot [OF 4 nr3] obtain v where v: "slot_of (sc_store sc') x = Inr \<lparr>sl_startTime = v, sl_endTime = mr_endTime r3,
      sl_mappedPE = pe0 mod 2 ^ 32, sl_jobExecIx = jobCountArray (sc_stats sc3) ! pe0 mod 2 ^ 32, sl_state = READY\<rparr>"
    using ix pe0 by auto
  from updateTask_stats [OF 4] nr3 ix pe0 have st: "pe0 < length (endTimeArray (sc_stats sc3))"
    "sc_stats sc' = stats_add_job pe0 (mr_startTime r3) (mr_endTime r3) (sc_stats sc3)" by auto
  have src: "e \<le> mr_startTime r3" if "source_of env sc x i" "ended sc i e" for i e
    using start_after_sources [OF 1 that] c(4) fin(2) by simp
  show ?thesis unfolding placed_def
    by (rule exI [of _ c], rule exI [of _ pe0], rule exI [of _ "mr_startTime r3"], rule exI [of _ d],
        rule exI [of _ "sc_stats sc3"], rule exI [of _ v])
      (use c(1,4) us d d2 fin st st2 v src mt in auto)
qed

lemma map_task_placed:
  assumes m: "map_task (fnd env) env startT (Some x) (sc, m) = Inr (sc', m')"
    and env: "env_ok env" and t: "task_at (sc_store sc) x = Inr t" "\<And>h v. tk_kind t \<noteq> Vect_Task h v"
    and ns: "task_getState (sc_store sc) x \<noteq> Inr SKIPPED"
  shows "placed env startT x sc sc'"
proof -
  from m ns obtain sc1 where 1: "on_store (task_setState PENDING x) sc = Inr sc1" and
    2: "mapImpl (fnd env) env startT x (sc1, m) = Inr (sc', m')"
    by (auto simp: map_task_def)
  note p = setState_pending [OF 1 t(1), of env]
  from p have k: "kinds (sc_store sc1) = kinds (sc_store sc)" by simp
  from kinds_at [OF k t(1)] obtain t1 where t1: "task_at (sc_store sc1) x = Inr t1" "tk_kind t1 = tk_kind t" by auto
  have "placed env startT x sc1 sc'"
    by (rule mapImpl_placed [OF 2 env t1(1)]) (use p t t1 in auto)
  moreover have "usable env sc1 x c pe = usable env sc x c pe" for c pe
    by (simp add: usable_def kinds_mappable [OF k t(1)])
  ultimately show ?thesis unfolding placed_def kinds_timing [OF k t(1)] using p by simp blast
qed

end

subsection \<open>Best fit picks the earliest end\<close>

text \<open>The end time a task would have on an element, the ready time of the global runtime being ten later.\<close>

definition best_fit_end :: "sched_env \<Rightarrow> schedule \<Rightarrow> nat \<Rightarrow> nat \<Rightarrow> nat \<Rightarrow> nat result" where
  "best_fit_end env sc x minStart p =
     bindE (st_endTime (sc_stats sc) (virtualIx (pe_at (se_archi env) p))) (\<lambda>e.
     bindE (task_timingOnPE env (sc_store sc) x (Some p)) (\<lambda>d.
       Inr (add64 (max (add64 e (if grt (se_platform env) = Some p then 10 else 0)) minStart) d)))"

lemma best_fit_step_end:
  assumes st: "best_fit_step env sc x minStart b (Some p) = Inr b'"
  shows "bf_end b' \<le> bf_end b \<and>
    (if rr_usable env sc x p = Inr True
     then (\<exists>et. best_fit_end env sc x minStart p = Inr et \<and> bf_end b' \<le> et \<and> (bf_found b' = bf_found b \<and> bf_end b' = bf_end b \<or> bf_found b' = Some p \<and> bf_end b' = et))
     else b' = b)"
  using assms by (auto simp: best_fit_step_def best_fit_end_def rr_usable_def Let_def split: if_splits)

lemma best_fit_minimal:
  assumes f: "best_fit_findPE env c sc x minStart () = Inr (found, u)"
  shows "(case found of None \<Rightarrow> \<forall>p et. Some p \<in> set (cl_peArray (cluster_at (se_archi env) c)) \<longrightarrow>
            rr_usable env sc x p = Inr True \<longrightarrow> best_fit_end env sc x minStart p = Inr et \<longrightarrow> et \<ge> u64_max
          | Some q \<Rightarrow> Some q \<in> set (cl_peArray (cluster_at (se_archi env) c)) \<and> rr_usable env sc x q = Inr True \<and>
            (\<exists>eq. best_fit_end env sc x minStart q = Inr eq \<and>
              (\<forall>p et. Some p \<in> set (cl_peArray (cluster_at (se_archi env) c)) \<longrightarrow>
                rr_usable env sc x p = Inr True \<longrightarrow> best_fit_end env sc x minStart p = Inr et \<longrightarrow> eq \<le> et)))"
proof -
  let ?b0 = "\<lparr>bf_found = None, bf_idle = u64_max, bf_end = u64_max\<rparr>"
  let ?xs = "cl_peArray (cluster_at (se_archi env) c)"
  let ?P = "\<lambda>ys b. (\<forall>p et. Some p \<in> set ys \<longrightarrow> rr_usable env sc x p = Inr True \<longrightarrow>
       best_fit_end env sc x minStart p = Inr et \<longrightarrow> bf_end b \<le> et) \<and>
     (case bf_found b of None \<Rightarrow> bf_end b = u64_max
      | Some q \<Rightarrow> Some q \<in> set ys \<and> rr_usable env sc x q = Inr True \<and> best_fit_end env sc x minStart q = Inr (bf_end b))"
  from f obtain b where b: "foldE (best_fit_step env sc x minStart) ?b0 ?xs = Inr b" "bf_found b = found"
    by (auto simp: best_fit_findPE_def)
  from b(1) have "?P ?xs b"
  proof (rule foldE_prefix [where P = ?P])
    fix ys pe s s'
    assume P: "?P ys s" and st: "best_fit_step env sc x minStart s pe = Inr s'"
    from st obtain p where p: "pe = Some p" by (auto simp: best_fit_step_def split: option.splits)
    from best_fit_step_end [OF st [unfolded p]]
    have le: "bf_end s' \<le> bf_end s" and
      r: "(\<exists>et. rr_usable env sc x p = Inr True \<and> best_fit_end env sc x minStart p = Inr et \<and> bf_end s' \<le> et \<and>
           (bf_found s' = bf_found s \<and> bf_end s' = bf_end s \<or> bf_found s' = Some p \<and> bf_end s' = et)) \<or>
          (rr_usable env sc x p \<noteq> Inr True \<and> s' = s)"
      by (auto split: if_splits)
    from r show "?P (ys @ [pe]) s'"
    proof (elim disjE exE conjE)
      fix et
      assume a: "rr_usable env sc x p = Inr True" "best_fit_end env sc x minStart p = Inr et" "bf_end s' \<le> et"
        and b: "bf_found s' = bf_found s" "bf_end s' = bf_end s"
      from P a b p show ?thesis by (auto split: option.splits)
    next
      fix et
      assume a: "rr_usable env sc x p = Inr True" "best_fit_end env sc x minStart p = Inr et" "bf_end s' \<le> et"
        and b: "bf_found s' = Some p" "bf_end s' = et"
      from P have "bf_end s \<le> e2" if "Some p2 \<in> set ys" "rr_usable env sc x p2 = Inr True" "best_fit_end env sc x minStart p2 = Inr e2" for p2 e2
        using that by blast
      with le a b p show ?thesis by (auto intro: order_trans)
    next
      assume "rr_usable env sc x p \<noteq> Inr True" "s' = s"
      with P p show ?thesis by (auto split: option.splits)
    qed
  qed simp
  with b(2) show ?thesis by (auto split: option.splits)
qed

subsection \<open>Round robin takes the next usable element\<close>

lemma rr_usable_total: "rr_usable env sc x p = Inr True \<or> rr_usable env sc x p = Inr False \<or> (\<exists>e. rr_usable env sc x p = Inl e)"
  by (cases "rr_usable env sc x p") auto

text \<open>\<open>count\<close> steps of the search from index \<open>i\<close>: all elements before the result are unusable.\<close>

lemma rr_loop_result:
  assumes "rr_loop env sc x cl n i p = Inr (i', p')" and "rr_pe cl i = Inr p" and "i < PECount cl"
  shows "\<exists>k \<le> n. i' = (i + k) mod PECount cl \<and> rr_pe cl i' = Inr p' \<and>
    (\<forall>j < k. \<exists>q. rr_pe cl ((i + j) mod PECount cl) = Inr q \<and> rr_usable env sc x q = Inr False) \<and>
    (k < n \<longrightarrow> rr_usable env sc x p' = Inr True)"
  using assms
proof (induction n arbitrary: i p)
  case 0
  then show ?case by simp
next
  case (Suc n)
  show ?case
  proof (cases "rr_usable env sc x p = Inr True")
    case True
    with Suc.prems show ?thesis by (intro exI [of _ 0]) auto
  next
    case False
    define i1 where "i1 = (i + 1) mod PECount cl"
    from False Suc.prems(1) obtain q where q: "rr_usable env sc x p = Inr False" "rr_pe cl i1 = Inr q"
      "rr_loop env sc x cl n i1 q = Inr (i', p')"
      by (auto simp: Let_def i1_def split: if_splits)
    have "i1 < PECount cl" using Suc.prems(3) by (simp add: i1_def)
    from Suc.IH [OF q(3,2) this] obtain k where k: "k \<le> n" "i' = (i1 + k) mod PECount cl" "rr_pe cl i' = Inr p'"
      "\<And>j. j < k \<Longrightarrow> \<exists>q. rr_pe cl ((i1 + j) mod PECount cl) = Inr q \<and> rr_usable env sc x q = Inr False"
      "k < n \<longrightarrow> rr_usable env sc x p' = Inr True" by blast
    have shift: "(i1 + j) mod PECount cl = (i + Suc j) mod PECount cl" for j
      by (simp add: i1_def mod_simps)
    have "\<exists>q. rr_pe cl ((i + j) mod PECount cl) = Inr q \<and> rr_usable env sc x q = Inr False" if "j < Suc k" for j
      using that k(4) q(1) Suc.prems(2,3) shift by (cases j) auto
    with k shift show ?thesis by (intro exI [of _ "Suc k"]) auto
  qed
qed

lemma round_robin_next:
  assumes f: "round_robin_findPE env c sc x minStart cur = Inr (found, cur')"
  defines "cl \<equiv> cluster_at (se_archi env) c"
  assumes i: "cur ! cl_ix cl < PECount cl"
  shows "case found of
      Some q \<Rightarrow> \<exists>k. rr_pe cl ((cur ! cl_ix cl + k) mod PECount cl) = Inr q \<and> rr_usable env sc x q = Inr True \<and>
        (\<forall>j < k. \<exists>p. rr_pe cl ((cur ! cl_ix cl + j) mod PECount cl) = Inr p \<and> rr_usable env sc x p = Inr False) \<and>
        cur' = cur[cl_ix cl := (cur ! cl_ix cl + k + 1) mod PECount cl]
    | None \<Rightarrow> \<forall>p. Some p \<in> set (cl_peArray cl) \<longrightarrow> rr_usable env sc x p = Inr False"
proof -
  let ?i = "cur ! cl_ix cl" and ?n = "PECount cl"
  from f obtain p i1 p1 ok where p: "rr_pe cl ?i = Inr p" and l: "rr_loop env sc x cl ?n ?i p = Inr (i1, p1)" and
    ok: "rr_usable env sc x p1 = Inr ok" and
    res: "(found, cur') = (if \<not> ok then (None, cur[cl_ix cl := i1]) else (Some p1, cur[cl_ix cl := (i1 + 1) mod ?n]))"
    unfolding round_robin_findPE_def Let_def cl_def [symmetric] by (auto split: if_splits)
  from rr_loop_result [OF l p i] obtain k where k: "k \<le> ?n" "i1 = (?i + k) mod ?n" "rr_pe cl i1 = Inr p1"
    "\<And>j. j < k \<Longrightarrow> \<exists>q. rr_pe cl ((?i + j) mod ?n) = Inr q \<and> rr_usable env sc x q = Inr False"
    "k < ?n \<longrightarrow> rr_usable env sc x p1 = Inr True" by blast
  show ?thesis
  proof (cases ok)
    case True
    with res k ok show ?thesis by (auto simp: mod_simps)
  next
    case False
    with k ok have "k = ?n" by auto
    have "rr_usable env sc x q = Inr False" if "Some q \<in> set (cl_peArray cl)" for q
    proof -
      from that obtain m where m: "m < ?n" "m < length (cl_array cl)" "cl_array cl ! m = Some q"
        by (auto simp: cl_peArray_def in_set_conv_nth)
      define j where "j = (if ?i \<le> m then m - ?i else m + ?n - ?i)"
      have j: "j < ?n" "(?i + j) mod ?n = m" using m(1) i by (auto simp: j_def)
      from k(4) [of j] j \<open>k = ?n\<close> m show ?thesis by (auto simp: rr_pe_def)
    qed
    with False res show ?thesis by simp
  qed
qed

end
