(* ===== verification/ResourcesAllocator.thy ===== *)
theory ResourcesAllocator
  imports MapperProps
begin

text \<open>
  \<open>scheduling/ResourcesAllocator.cpp\<close>: mapping and launching the tasks of a schedule, one by one (\<open>JIT\<close>) or in two
  passes (\<open>DELAYED\<close>). The launcher (\<open>visit\<close>) is an argument, with the state it changes; the scheduler has filled the
  schedule before.
\<close>

datatype execution_policy = JIT | DELAYED

type_synonym 'l launcher = "nat \<Rightarrow> schedule \<times> 'l \<Rightarrow> (schedule \<times> 'l) result"

definition computeMinStartTime :: "sched_env \<Rightarrow> schedule \<Rightarrow> nat result" where
  "computeMinStartTime env sc =
     foldE (\<lambda>t pe. case pe of None \<Rightarrow> Inl Null_Deref
       | Some p \<Rightarrow> bindE (st_endTime (sc_stats sc) (virtualIx (pe_at (se_archi env) p))) (\<lambda>e. Inr (min t e)))
       u64_max (peArray (se_platform env))"

text \<open>The checks of the traits of the allocator.\<close>

definition checkFifoAllocatorTraits :: "bool \<Rightarrow> bool \<Rightarrow> execution_policy \<Rightarrow> unit result" where
  "checkFifoAllocatorTraits jitAllocator postSchedulingAllocator policy =
     guardE (case policy of JIT \<Rightarrow> jitAllocator | DELAYED \<Rightarrow> postSchedulingAllocator) Spider_Exception"

text \<open>\<open>schedule_->task(i)\<close> and \<open>visit\<close>.\<close>

definition launch_at :: "sched_env \<Rightarrow> 'l launcher \<Rightarrow> nat \<Rightarrow> schedule \<times> 'l \<Rightarrow> (schedule \<times> 'l) result" where
  "launch_at env launch i s =
     bindE (schedule_task env i (fst s)) (\<lambda>(t, sc). case t of None \<Rightarrow> Inl Null_Deref | Some x \<Rightarrow> launch x (sc, snd s))"

text \<open>\<open>for (auto j = i; j < i + delta; ++i)\<close>: the counter \<open>j\<close> of the condition never changes and \<open>i\<close> grows, so the loop
  only ends at the end of the schedule, where there is no task. The fuel is the number of tasks left, and one.\<close>

fun sync_loop :: "sched_env \<Rightarrow> 'l launcher \<Rightarrow> nat \<Rightarrow> nat \<Rightarrow> nat \<Rightarrow> nat \<Rightarrow> schedule \<times> 'l \<Rightarrow> (nat \<times> schedule \<times> 'l) result" where
  "sync_loop env launch 0 j delta i s = Inl Diverges"
| "sync_loop env launch (Suc n) j delta i s =
     (if j < i + delta then bindE (launch_at env launch i s) (sync_loop env launch n j delta (i + 1)) else Inr (i, s))"

lemma sync_loop_fails: "sync_loop env launch n j delta i s = Inr r \<Longrightarrow> j < i + delta \<Longrightarrow> False"
proof (induction n arbitrary: i s)
  case (Suc n)
  then obtain s' where "sync_loop env launch n j delta (Suc i) s' = Inr r" by auto
  from Suc.IH [OF this] Suc.prems(2) show ?case by simp
qed simp

text \<open>One pass over the tasks from \<open>i\<close>; \<open>size\<close> is the number of tasks when the pass began, adjusted in \<open>JIT\<close> mode.\<close>

function jit_loop ::
  "'m finder \<Rightarrow> sched_env \<Rightarrow> 'l launcher \<Rightarrow> nat \<Rightarrow> nat \<Rightarrow> nat \<Rightarrow> schedule \<times> 'm \<times> 'l \<Rightarrow> (schedule \<times> 'm \<times> 'l) result" where
  "jit_loop fnd env launch startT i sz (sc, m, l) =
     (if i < sz then
        bindE (schedule_task env i sc) (\<lambda>(task, sc1).
        bindE (map_task fnd env startT task (sc1, m)) (\<lambda>(sc2, m2).
        let delta = sub64 (length (sc_tasks sc2)) sz in
        bindE (if delta \<noteq> 0 then bindE (sync_loop env launch (Suc (length (sc_tasks sc2) - i)) i delta i (sc2, l))
                 (\<lambda>(i1, s). Inr (i1 + delta, sz + delta, s)) else Inr (i, sz, sc2, l)) (\<lambda>(i2, sz2, s).
        case task of None \<Rightarrow> Inl Null_Deref
        | Some x \<Rightarrow> bindE (launch x s) (\<lambda>(sc3, l3).
            bindE (computeMinStartTime env sc3) (\<lambda>t. jit_loop fnd env launch t (i2 + 1) sz2 (sc3, m2, l3))))))
      else Inr (sc, m, l))"
  by pat_completeness auto
termination
  by (relation "measure (\<lambda>(fnd, env, launch, startT, i, sz, s). sz - i)") (auto split: if_splits dest!: sync_loop_fails)

declare jit_loop.simps [simp del]

definition delayed_map ::
  "'m finder \<Rightarrow> sched_env \<Rightarrow> nat \<times> schedule \<times> 'm \<Rightarrow> nat \<Rightarrow> (nat \<times> schedule \<times> 'm) result" where
  "delayed_map fnd env st i =
     (case st of (startT, sc, m) \<Rightarrow>
        bindE (schedule_task env i sc) (\<lambda>(task, sc1). bindE (map_task fnd env startT task (sc1, m)) (\<lambda>(sc2, m2).
        bindE (computeMinStartTime env sc2) (\<lambda>t. Inr (t, sc2, m2)))))"

definition execute_tasks ::
  "execution_policy \<Rightarrow> 'm finder \<Rightarrow> sched_env \<Rightarrow> 'l launcher \<Rightarrow> nat \<Rightarrow> schedule \<times> 'm \<times> 'l \<Rightarrow> (schedule \<times> 'm \<times> 'l) result" where
  "execute_tasks policy fnd env launch offset st =
     (case st of (sc, m, l) \<Rightarrow>
        bindE (computeMinStartTime env sc) (\<lambda>t.
        case policy of
          JIT \<Rightarrow> jit_loop fnd env launch t offset (length (sc_tasks sc)) (sc, m, l)
        | DELAYED \<Rightarrow>
            bindE (foldE (delayed_map fnd env) (t, sc, m) [offset..<length (sc_tasks sc)]) (\<lambda>(_, sc1, m1).
            bindE (foldE (\<lambda>s i. launch_at env launch i s) (sc1, l) [offset..<length (sc_tasks sc1)]) (\<lambda>(sc2, l2).
              Inr (sc2, m1, l2)))))"

subsection \<open>What an execution guarantees\<close>

text \<open>Map one task, launch it, look for the earliest time a processing element is free.\<close>

definition map_and_launch ::
  "'m finder \<Rightarrow> sched_env \<Rightarrow> 'l launcher \<Rightarrow> nat \<times> schedule \<times> 'm \<times> 'l \<Rightarrow> nat \<Rightarrow> (nat \<times> schedule \<times> 'm \<times> 'l) result" where
  "map_and_launch fnd env launch st i =
     (case st of (startT, sc, m, l) \<Rightarrow>
        bindE (schedule_task env i sc) (\<lambda>(task, sc1). bindE (map_task fnd env startT task (sc1, m)) (\<lambda>(sc2, m2).
        case task of None \<Rightarrow> Inl Null_Deref
        | Some x \<Rightarrow> bindE (launch x (sc2, l)) (\<lambda>(sc3, l3).
            bindE (computeMinStartTime env sc3) (\<lambda>t. Inr (t, sc3, m2, l3))))))"

lemma sub64_add: "k < 2 ^ 64 \<Longrightarrow> sub64 (n + k) n = k"
proof -
  assume k: "k < 2 ^ 64"
  have "int (sub64 (n + k) n) = int k mod 2 ^ 64" unfolding int_sub64 by simp
  also have "\<dots> = int k" using k by simp
  finally show ?thesis by simp
qed

lemma jit_loop_runs:
  "jit_loop fnd env launch startT i sz (sc, m, l) = Inr (sc', m', l') \<Longrightarrow>
    \<exists>t. foldE (map_and_launch fnd env launch) (startT, sc, m, l) [i..<sz] = Inr (t, sc', m', l')"
proof (induction "sz - i" arbitrary: startT i sc m l)
  case 0
  then show ?case by (subst (asm) jit_loop.simps) simp
next
  case (Suc n)
  then have i: "i < sz" "n = sz - Suc i" by auto
  from Suc.prems i obtain task sc1 sc2 m2 i2 sz2 s where
    1: "schedule_task env i sc = Inr (task, sc1)" and 2: "map_task fnd env startT task (sc1, m) = Inr (sc2, m2)" and
    3: "(if sub64 (length (sc_tasks sc2)) sz \<noteq> 0
         then bindE (sync_loop env launch (Suc (length (sc_tasks sc2) - i)) i (sub64 (length (sc_tasks sc2)) sz) i (sc2, l))
                 (\<lambda>(i1, s). Inr (i1 + sub64 (length (sc_tasks sc2)) sz, sz + sub64 (length (sc_tasks sc2)) sz, s)) else Inr (i, sz, sc2, l)) =
        Inr (i2, sz2, s)" and
    4: "(case task of None \<Rightarrow> Inl Null_Deref
        | Some x \<Rightarrow> bindE (launch x s) (\<lambda>(sc3, l3).
            bindE (computeMinStartTime env sc3) (\<lambda>t. jit_loop fnd env launch t (i2 + 1) sz2 (sc3, m2, l3)))) = Inr (sc', m', l')"
    by (subst (asm) jit_loop.simps) (auto simp: Let_def)
  from 3 have d: "i2 = i" "sz2 = sz" "s = (sc2, l)"
    by (auto split: if_splits simp del: sync_loop.simps dest!: sync_loop_fails)
  from 4 d obtain x sc3 l3 t where x: "task = Some x" "launch x (sc2, l) = Inr (sc3, l3)" "computeMinStartTime env sc3 = Inr t"
    "jit_loop fnd env launch t (Suc i) sz (sc3, m2, l3) = Inr (sc', m', l')"
    by (auto split: option.splits)
  from Suc.hyps(1) [OF i(2) x(4)] obtain t2 where
    "foldE (map_and_launch fnd env launch) (t, sc3, m2, l3) [Suc i..<sz] = Inr (t2, sc', m', l')" by blast
  with 1 2 x i show ?case by (simp add: upt_conv_Cons map_and_launch_def)
qed

lemma jit_loop_fails:
  assumes "i < sz" and "schedule_task env i sc = Inr (task, sc1)" and "map_task fnd env startT task (sc1, m) = Inr (sc2, m2)"
    and "length (sc_tasks sc2) = sz + k" and "0 < k" and "k < 2 ^ 64"
  shows "\<exists>e. jit_loop fnd env launch startT i sz (sc, m, l) = Inl e"
proof -
  have "\<exists>e. sync_loop env launch n i k i s = Inl e" for n and s :: "schedule \<times> 'b"
    using sync_loop_fails [of env launch n i k i s] assms(5) by (cases "sync_loop env launch n i k i s") auto
  then obtain e where "sync_loop env launch (Suc (length (sc_tasks sc2) - i)) i k i (sc2, l) = Inl e" by blast
  then show ?thesis
    using assms sub64_add [OF assms(6)] by (subst jit_loop.simps) (simp add: Let_def del: sync_loop.simps)
qed

subsection \<open>Properties\<close>

text \<open>Two tasks without dependencies on the sample platform, faster on its second element.\<close>

definition sample_env :: sched_env where
  "sample_env = \<lparr>se_archi = sample_archi, se_platform = the (ar_platform sample_archi),
     se_srdag = replicate 2 \<lparr>si_inputs = [], si_outputs = [],
       si_rtinfo = \<lparr>peMappableArray = [True, True, False], clusterMappableArray = [True, True, False],
         timingArray = [Inr 5, Inr 3], kernelIx = 0\<rparr>\<rparr>,
     se_world = \<lparr>w_graphs = [], w_firings = []\<rparr>, se_fuel = 0, se_pisdf = (\<lambda>_ _. rtinfo_new (\<lambda>_. Inr 0) sample_archi)\<rparr>"

definition sample_task :: "nat \<Rightarrow> task" where
  "sample_task v = task_new (SRDAG_Task v) [slot_new u64_max] [u32_max, u32_max]"

definition sample_schedule :: schedule where
  "sample_schedule = \<lparr>sc_store = \<lparr>ts_tasks = [sample_task 0, sample_task 1], ts_vertexIx = [0, 1], ts_taskIx = (\<lambda>_ _. [])\<rparr>,
     sc_tasks = [(0, 0), (1, 0)], sc_stats = stats_new (the (ar_platform sample_archi))\<rparr>"

lemma sample_env_ok: "env_ok sample_env"
  using archi_built_ok [OF sample_archi_built] by (simp add: env_ok_def sample_env_def sample_archi_def)

lemma replicate_two: "replicate 2 v = [v, v]"
  by (simp add: numeral_2_eq_2)

lemmas mapper_evals = sample_env_def sample_schedule_def sample_task_def sample_archi_def map_task_def mapImpl_def task_getState_def
  task_at_def task_slot_def slot_ix_def task_new_def slot_new_def on_store_def task_setState_def task_update_def task_set_slot_def
  task_put_def computeStartTime_def replicate_two replicate_three cluster_step_def best_fit_findPE_def best_fit_step_def cl_peArray_def
  computeCommunicationCost_def com_cost_step_def task_getFiring_def upt_rec task_syncExecIxOnLRT_def sync_pos_def
  mapping_result_new_def stats_new_def task_isMappableOnPE_def task_timingOnPE_def task_rtinfo_def isPEMappable_def timingOnPE_def
  st_endTime_def Let_def updateTaskAndSetReady_def task_setMappedPE_def task_setStartTime_def task_setEndTime_def
  task_setJobExecIx_def st_jobCount_def updateStartTime_def updateIDLETime_def updateEndTime_def updateLoadTime_def updateJobCount_def
  add64_def sub64_def saturateAdd_def to_u64_def round_robin_findPE_def rr_pe_def rr_usable_def round_robin_new_def

lemma placed_stats_ok: "placed env startT x sc sc' \<Longrightarrow> stats_ok (sc_stats sc) \<Longrightarrow> stats_ok (sc_stats sc')"
  by (auto simp: placed_def simp del: power_numeral intro!: stats_add_job_ok intro: comms_ok)

text \<open>
  C14. Both mappers map a task that is not skipped (a single-rate task, or a PiSDF task of one firing) onto an enabled element that its
  constraints allow, of a cluster of the platform. For data of other clusters, pairs of a send and a receive job come first: each takes
  the time of its bus and starts when the element it is on is free, the receive not before its send has ended, and the task not before
  its receives. The job of the task lasts exactly the time the task takes on the element (modulo \<open>2 ^ 64\<close>), it starts when the
  element is free, not before the time given and not before the end of any entry of the schedule that is a source of the task, in the
  single-rate graph or by the dependencies of the PiSDF graph. The record of the task holds the end time, the element, the rank of the
  job and the state ready, and load and idle time of every element still add up to its end time. Left out are the tasks that
  stand for all firings of a vertex (\<open>Vect_Task\<close>): inserting communications moves such a task to another firing.
\<close>

theorem mapped_task_is_placed:
  assumes "env_ok env" and "task_at (sc_store sc) x = Inr t" and "\<And>h v. tk_kind t \<noteq> Vect_Task h v"
    and "task_getState (sc_store sc) x \<noteq> Inr SKIPPED"
    and "map_task (best_fit_findPE env) env startT (Some x) (sc, ()) = Inr (sc1, u) \<or>
      map_task (round_robin_findPE env) env startT (Some x) (sc, cur) = Inr (sc1, cur1)"
  shows "placed env startT x sc sc1 \<and> (stats_ok (sc_stats sc) \<longrightarrow> stats_ok (sc_stats sc1))"
  using best_fit.map_task_placed [OF _ assms(1,2)] round_robin.map_task_placed [OF _ assms(1,2)] assms(3-5) placed_stats_ok
  by blast

text \<open>The second task reads four bytes of the first, which ran from 5 to 8 on the second element, the only one that can run both.\<close>

definition chain_env :: sched_env where
  "chain_env = sample_env\<lparr>se_srdag := map (\<lambda>inp. \<lparr>si_inputs = inp, si_outputs = [],
     si_rtinfo = \<lparr>peMappableArray = [False, True, False], clusterMappableArray = [False, True, False],
       timingArray = [Inr 5, Inr 3], kernelIx = 0\<rparr>\<rparr>) [[], [(0, 4)]]\<rparr>"

definition chain_schedule :: schedule where
  "chain_schedule = sample_schedule\<lparr>sc_store := (sc_store sample_schedule)\<lparr>ts_tasks :=
       [(sample_task 0)\<lparr>tk_slots := [\<lparr>sl_startTime = u64_max, sl_endTime = 8, sl_mappedPE = 1, sl_jobExecIx = 0, sl_state = READY\<rparr>]\<rparr>,
        sample_task 1]\<rparr>,
     sc_stats := stats_add_job 1 5 8 (sc_stats sample_schedule)\<rparr>"

lemma chain_maps:
  "\<exists>sc. map_task (best_fit_findPE chain_env) chain_env 0 (Some 1) (chain_schedule, ()) = Inr (sc, ()) \<and> task_endTime (sc_store sc) 1 = Inr 11"
  by (simp add: chain_env_def chain_schedule_def stats_add_job_def srdag_dep_def depend_on_def schedule_task_def task_setOnFiring_def
      task_getIx_def task_mappedLRT_def task_mappedPe_def processingElement_def task_setSyncExecIxOnLRT_def add32_def to_u32_def
      dataCommunicationCostPEToPE_def task_endTime_def mapper_evals cong: bindE_weak foldE_weak)

lemma mapped_task_is_placed_witness:
  "\<exists>sc. map_task (best_fit_findPE chain_env) chain_env 0 (Some 1) (chain_schedule, ()) = Inr (sc, ()) \<and>
     placed chain_env 0 1 chain_schedule sc \<and> source_of chain_env chain_schedule 1 0 \<and> ended chain_schedule 0 8 \<and>
     task_endTime (sc_store sc) 1 = Inr 11"
proof -
  from chain_maps obtain sc where sc: "map_task (best_fit_findPE chain_env) chain_env 0 (Some 1) (chain_schedule, ()) = Inr (sc, ())"
    "task_endTime (sc_store sc) 1 = Inr 11" by auto
  have env: "env_ok chain_env" using sample_env_ok by (simp add: env_ok_def chain_env_def)
  have t: "task_at (sc_store chain_schedule) 1 = Inr (sample_task 1)" by (simp add: chain_schedule_def task_at_def)
  have s: "source_of chain_env chain_schedule 1 0" "ended chain_schedule 0 8"
    by (simp_all add: source_of_def ended_def task_at_def chain_env_def chain_schedule_def sample_schedule_def sample_task_def task_new_def)
  have "task_getState (sc_store chain_schedule) 1 \<noteq> Inr SKIPPED"
    by (simp add: chain_schedule_def sample_task_def task_getState_def task_at_def task_slot_def task_new_def slot_ix_def slot_new_def)
  with mapped_task_is_placed [OF env t] sc s show ?thesis by (force simp: sample_task_def task_new_def)
qed

text \<open>
  The best fit search returns an element of the cluster on which the task ends earliest among the enabled elements
  that may run it (the global runtime counts as ready ten units later); it returns none only when no such end time is below the
  largest 64-bit value.
\<close>

theorem best_fit_is_minimal:
  assumes "best_fit_findPE env c sc x minStart () = Inr (found, u)"
  shows "(case found of None \<Rightarrow> \<forall>p et. Some p \<in> set (cl_peArray (cluster_at (se_archi env) c)) \<longrightarrow>
            rr_usable env sc x p = Inr True \<longrightarrow> best_fit_end env sc x minStart p = Inr et \<longrightarrow> et \<ge> u64_max
          | Some q \<Rightarrow> Some q \<in> set (cl_peArray (cluster_at (se_archi env) c)) \<and> rr_usable env sc x q = Inr True \<and>
            (\<exists>eq. best_fit_end env sc x minStart q = Inr eq \<and>
              (\<forall>p et. Some p \<in> set (cl_peArray (cluster_at (se_archi env) c)) \<longrightarrow>
                rr_usable env sc x p = Inr True \<longrightarrow> best_fit_end env sc x minStart p = Inr et \<longrightarrow> eq \<le> et)))"
  using best_fit_minimal [OF assms] .

lemma best_fit_is_minimal_witness:
  "best_fit_findPE sample_env 1 sample_schedule 0 5 () = Inr (Some 1, ()) \<and> rr_usable sample_env sample_schedule 0 1 = Inr True \<and>
   (\<exists>e. best_fit_end sample_env sample_schedule 0 5 1 = Inr e)"
proof -
  have f: "best_fit_findPE sample_env 1 sample_schedule 0 5 () = Inr (Some 1, ())"
    by (simp add: mapper_evals cong: bindE_weak foldE_weak)
  from best_fit_is_minimal [OF f] f show ?thesis by auto
qed

text \<open>
  The round robin search takes the first usable element of the cluster in cyclic order from the cursor of the cluster,
  and leaves the cursor just behind it; it returns none exactly when no element of the cluster is usable.
\<close>

theorem round_robin_is_cyclic:
  assumes "round_robin_findPE env c sc x minStart cur = Inr (found, cur')"
    and "cur ! cl_ix (cluster_at (se_archi env) c) < PECount (cluster_at (se_archi env) c)"
  shows "case found of
      Some q \<Rightarrow> \<exists>k. rr_pe (cluster_at (se_archi env) c) ((cur ! cl_ix (cluster_at (se_archi env) c) + k) mod PECount (cluster_at (se_archi env) c)) = Inr q \<and>
        rr_usable env sc x q = Inr True \<and>
        (\<forall>j < k. \<exists>p. rr_pe (cluster_at (se_archi env) c)
            ((cur ! cl_ix (cluster_at (se_archi env) c) + j) mod PECount (cluster_at (se_archi env) c)) = Inr p \<and> rr_usable env sc x p = Inr False) \<and>
        cur' = cur[cl_ix (cluster_at (se_archi env) c) :=
          (cur ! cl_ix (cluster_at (se_archi env) c) + k + 1) mod PECount (cluster_at (se_archi env) c)]
    | None \<Rightarrow> \<forall>p. Some p \<in> set (cl_peArray (cluster_at (se_archi env) c)) \<longrightarrow> rr_usable env sc x p = Inr False"
  using round_robin_next [OF assms] .

lemma round_robin_is_cyclic_witness:
  "round_robin_findPE sample_env 2 sample_schedule 0 5 [0, 0, 0] = Inr (None, [0, 0, 0]) \<and>
   rr_usable sample_env sample_schedule 0 2 = Inr False"
proof -
  have f: "round_robin_findPE sample_env 2 sample_schedule 0 5 [0, 0, 0] = Inr (None, [0, 0, 0])"
    by (simp add: mapper_evals cong: bindE_weak foldE_weak)
  have "[0, 0, 0 :: nat] ! cl_ix (cluster_at (se_archi sample_env) 2) < PECount (cluster_at (se_archi sample_env) 2)"
    by (simp add: sample_env_def sample_archi_def)
  from round_robin_is_cyclic [OF f this] f show ?thesis by (simp add: sample_env_def sample_archi_def cl_peArray_def)
qed

text \<open>
  C24. Just-in-time execution that returns has mapped and launched the tasks of the schedule one after the other, in
  schedule order, each mapped with the earliest free time found after the launch before it. It never returns once the mapping
  of a task has inserted communication tasks: their loop has no exit before the end of the schedule, where it fails.
\<close>

theorem jit_execution_in_order:
  shows "(execute_tasks JIT fnd env launch offset (sc, m, l) = Inr (sc', m', l') \<longrightarrow>
      (\<exists>t t'. computeMinStartTime env sc = Inr t \<and>
        foldE (map_and_launch fnd env launch) (t, sc, m, l) [offset..<length (sc_tasks sc)] = Inr (t', sc', m', l'))) \<and>
    (\<forall>t i sz sc m l task sc1 sc2 m2 k. i < sz \<longrightarrow> schedule_task env i sc = Inr (task, sc1) \<longrightarrow>
      map_task fnd env t task (sc1, m) = Inr (sc2, m2) \<longrightarrow> length (sc_tasks sc2) = sz + k \<longrightarrow> 0 < k \<longrightarrow> k < 2 ^ 64 \<longrightarrow>
      (\<exists>e. jit_loop fnd env launch t i sz (sc, m, l) = Inl e))"
proof (intro conjI impI allI)
  assume "execute_tasks JIT fnd env launch offset (sc, m, l) = Inr (sc', m', l')"
  then show "\<exists>t t'. computeMinStartTime env sc = Inr t \<and>
        foldE (map_and_launch fnd env launch) (t, sc, m, l) [offset..<length (sc_tasks sc)] = Inr (t', sc', m', l')"
    by (auto simp: execute_tasks_def dest!: jit_loop_runs)
qed (rule jit_loop_fails)

lemma jit_execution_in_order_witness:
  "\<exists>s t'. execute_tasks JIT (best_fit_findPE sample_env) sample_env (\<lambda>x (sc, l). Inr (sc, l @ [x])) 0 (sample_schedule, (), []) = Inr s \<and>
     foldE (map_and_launch (best_fit_findPE sample_env) sample_env (\<lambda>x (sc, l). Inr (sc, l @ [x]))) (0, sample_schedule, (), []) [0..<2] =
       Inr (t', s) \<and> snd (snd s) = [0, 1]"
proof -
  let ?e = "execute_tasks JIT (best_fit_findPE sample_env) sample_env (\<lambda>x (sc, l). Inr (sc, l @ [x])) 0 (sample_schedule, (), [])"
  have "\<exists>s. ?e = Inr s \<and> snd (snd s) = [0, 1]"
    by (simp add: execute_tasks_def computeMinStartTime_def jit_loop.simps schedule_task_def task_setOnFiring_def mapper_evals
        cong: bindE_weak foldE_weak)
  then obtain sc u l where e: "?e = Inr (sc, u, l)" "l = [0, 1]" by auto
  have t: "computeMinStartTime sample_env sample_schedule = Inr 0" "length (sc_tasks sample_schedule) = 2"
    by (simp_all add: computeMinStartTime_def mapper_evals)
  from jit_execution_in_order [of "best_fit_findPE sample_env" sample_env "\<lambda>x (sc, l). Inr (sc, l @ [x])" 0 sample_schedule "()" "[]" sc u l]
    e t show ?thesis by auto
qed

end
