(* ===== verification/MathProps.thy ===== *)
theory MathProps
  imports RationalNum
begin

text \<open>
  The properties of \<open>common/Math.h\<close> and \<open>common/Rational.h\<close>: what the integer helpers compute over the
  whole range of \<open>int64_t\<close>, on which fractions \<open>Rational\<close> is exact, and what it does on negative ones.
\<close>

text \<open>
  Over the whole range of \<open>int64_t\<close>, with the one quotient that overflows excluded, \<open>floorDiv\<close> and \<open>ceilDiv\<close>
  return the quotient rounded down and up; a zero divisor is undefined behaviour.
\<close>

theorem math_div_rounding:
  "floorDiv x 0 = Inl Undefined_Behaviour \<and> ceilDiv x 0 = Inl Undefined_Behaviour \<and>
   (in_i64 x \<and> in_i64 y \<and> y \<noteq> 0 \<and> \<not> (x = - (2 ^ 63) \<and> y = -1) \<longrightarrow>
     floorDiv x y = Inr \<lfloor>rat_of_int x / rat_of_int y\<rfloor> \<and> ceilDiv x y = Inr \<lceil>rat_of_int x / rat_of_int y\<rceil>)"
proof -
  have "floorDiv x y = Inr (x div y) \<and> ceilDiv x y = Inr (- (- x div y))"
    if "in_i64 x" "y \<noteq> 0" "\<not> (x = - (2 ^ 63) \<and> y = -1)"
    using that in_i64_sdiv [of x y] by (auto intro: floorDiv_eq ceilDiv_eq)
  moreover have "\<lceil>rat_of_int x / rat_of_int y\<rceil> = - (- x div y)"
  proof -
    have "- (rat_of_int x / rat_of_int y) = rat_of_int (- x) / rat_of_int y" by simp
    then show ?thesis by (simp only: ceiling_def floor_divide_of_int_eq)
  qed
  ultimately show ?thesis by (simp add: floorDiv_def ceilDiv_def floor_divide_of_int_eq)
qed

theorem math_div_rounding_witness:
  "floorDiv (- 7) 2 = Inr (- 4) \<and> ceilDiv (- 7) 2 = Inr (- 3)"
proof -
  have "\<lfloor>rat_of_int (- 7) / rat_of_int 2\<rfloor> = - 4" "\<lceil>rat_of_int (- 7) / rat_of_int 2\<rceil> = - 3"
    by (simp_all add: floor_eq_iff ceiling_eq_iff)
  with math_div_rounding [of "- 7" 2] show ?thesis by (simp add: in_i64_def)
qed

text \<open>
  C34. On non-negative reduced fractions every arithmetic operation of \<open>Rational\<close> that does not overflow is exact:
  the result is again reduced and stands for the exact rational value, and \<open>==\<close> decides equality of values.
\<close>

theorem rational_exact_on_nonnegative:
  assumes "rat_wf a" "rat_wf b"
  shows "(\<forall>r. rat_add_assign a b = Inr r \<longrightarrow> rat_wf r \<and> rat_of r = rat_of a + rat_of b) \<and>
    (\<forall>r. rat_mul_assign a b = Inr r \<longrightarrow> rat_wf r \<and> rat_of r = rat_of a * rat_of b) \<and>
    (\<forall>r. rat_div_assign a b = Inr r \<longrightarrow> rat_wf r \<and> rat_of r = rat_of a / rat_of b) \<and>
    (rat_eq a b \<longleftrightarrow> rat_of a = rat_of b) \<and>
    (\<forall>k. in_i64 (nom a * den b) \<and> in_i64 (nom b * den a) \<and> in_i64 (den a * den b) \<and>
         in_i64 (nom a * den b + nom b * den a) \<longrightarrow> (\<exists>r. rat_add_assign a b = Inr r))"
proof -
  have "\<exists>r. rat_add_assign a b = Inr r"
    if "in_i64 (nom a * den b)" "in_i64 (nom b * den a)" "in_i64 (den a * den b)"
      "in_i64 (nom a * den b + nom b * den a)"
    using that assms by (simp add: rat_add_assign_def reduce_nonneg rat_wf_def)
  then show ?thesis
    using rat_add_exact [OF assms] rat_mul_exact [OF assms] rat_div_exact [OF assms] rat_eq_iff [OF assms] by blast
qed

theorem rational_exact_on_nonnegative_witness:
  "\<exists>r. rat_add_assign \<lparr>nom = 1, den = 6\<rparr> \<lparr>nom = 1, den = 3\<rparr> = Inr r \<and> rat_of r = Fract 1 2"
proof -
  have w: "rat_wf \<lparr>nom = 1, den = 6\<rparr>" "rat_wf \<lparr>nom = 1, den = 3\<rparr>" by (simp_all add: rat_wf_def in_i64_def)
  from rational_exact_on_nonnegative [OF w] obtain r where
    r: "rat_add_assign \<lparr>nom = 1, den = 6\<rparr> \<lparr>nom = 1, den = 3\<rparr> = Inr r"
       "rat_of r = rat_of \<lparr>nom = 1, den = 6\<rparr> + rat_of \<lparr>nom = 1, den = 3\<rparr>"
    by (auto simp: in_i64_def)
  have "Fract 1 6 + Fract 1 3 = Fract 1 2" by (simp add: eq_rat)
  with r show ?thesis by (simp add: rat_of_def)
qed

text \<open>
  A negative numerator reaches \<open>math::gcd\<close> as \<open>2^64\<close> minus its magnitude. So the fractions below are not reduced
  correctly: \<open>-6/5\<close> becomes \<open>-1\<close>, \<open>-6/3\<close> is left as it is, and, since the comparisons look at the sign of a
  difference, \<open>2/3 < 1\<close> and \<open>1/3 > 0\<close> agree with the rationals or not depending on which side is subtracted.
\<close>

theorem rational_negative_wrong:
  "mk_rational (- 6) 5 = Inr \<lparr>nom = - 1, den = 1\<rparr> \<and>
   mk_rational (- 6) 3 \<noteq> Inr \<lparr>nom = - 2, den = 1\<rparr> \<and>
   rat_lt \<lparr>nom = 2, den = 3\<rparr> \<lparr>nom = 1, den = 1\<rparr> = Inr False \<and>
   rat_gt \<lparr>nom = 1, den = 1\<rparr> \<lparr>nom = 2, den = 3\<rparr> = Inr True"
proof -
  have u: "to_u64 (- 6) = 18446744073709551610" "to_u64 (- 1) = 18446744073709551615"
    "to_u64 1 = 1" "to_u64 3 = 3" "to_u64 5 = 5"
    by (simp_all add: to_u64_def)
  have g: "c_gcd (- 6) 5 = 5" "c_gcd (- 6) 3 = 1" "c_gcd (- 1) 3 = 3" "c_gcd 1 3 = 1"
    by (simp_all add: c_gcd_def u gcd_loop.simps of_u64_def)
  show ?thesis
    by (simp add: mk_rational_def reduce_def g rat_lt_def rat_gt_def rat_sub_assign_def in_i64_def signed_divide_int_def)
qed

end
