(* ===== verification/AllocPolicy.thy ===== *)
theory AllocPolicy
  imports MemHeap
begin

text \<open>
  The allocation policies under \<open>memory/\<close> and the \<open>Stack\<close> that accounts for them:
  \<open>AbstractAllocatorPolicy\<close> (the record \<open>alloc_policy\<close>), \<open>GenericAllocatorPolicy\<close>,
  \<open>LinearStaticAllocator\<close>, and \<open>spider::Stack\<close>, which owns one policy and calls it through its
  virtual methods. The virtual interface is the locale \<open>block_policy\<close>: its laws say that a policy
  tracks a finite map from live pointers to block sizes. The accounting of the stack is proved once
  over the locale; the policies are its interpretations. The result of \<open>std::malloc\<close> is an argument.
\<close>

subsection \<open>AbstractAllocatorPolicy\<close>

record alloc_policy =
  ap_usage :: nat
  ap_alignment :: nat
  ap_last :: nat

definition setAllocationAlignment :: "nat \<Rightarrow> 'a alloc_policy_scheme \<Rightarrow> 'a alloc_policy_scheme" where
  "setAllocationAlignment a p = p\<lparr>ap_alignment := a\<rparr>"

definition computePadding :: "nat \<Rightarrow> nat \<Rightarrow> nat result" where
  "computePadding n alignment =
     (if alignment = 0 then Inl Undefined_Behaviour
      else let byteAlignment = n mod alignment
           in Inr (if byteAlignment \<noteq> 0 then alignment - byteAlignment else 0))"

definition computeAlignedSize :: "nat \<Rightarrow> nat \<Rightarrow> nat result" where
  "computeAlignedSize n alignment = bindE (computePadding n alignment) (\<lambda>pad. Inr (add64 n pad))"

definition computePaddingWithHeader :: "nat \<Rightarrow> nat \<Rightarrow> nat \<Rightarrow> nat result" where
  "computePaddingWithHeader n alignment headerSize = computePadding (add64 n headerSize) alignment"

lemma computePadding_bound: "computePadding n a = Inr p \<Longrightarrow> p < a"
  by (cases "a = 0") (auto simp: computePadding_def Let_def split: if_splits)

lemma computePadding_dvd: "computePadding n a = Inr p \<Longrightarrow> a dvd n + p"
proof -
  assume p: "computePadding n a = Inr p"
  then have a: "a \<noteq> 0" by (cases "a = 0") (auto simp: computePadding_def)
  show "a dvd n + p"
  proof (cases "n mod a = 0")
    case True
    with p a show ?thesis by (simp add: computePadding_def dvd_eq_mod_eq_0)
  next
    case False
    with p a have "p = a - n mod a" by (simp add: computePadding_def)
    then have "n + p = (n div a) * a + a"
      using a mod_less_divisor [of a n] div_mult_mod_eq [of n a] by linarith
    then show ?thesis by simp
  qed
qed

lemma computePadding_total: "a \<noteq> 0 \<Longrightarrow> \<exists>p. computePadding n a = Inr p"
  by (simp add: computePadding_def Let_def)

subsection \<open>GenericAllocatorPolicy\<close>

record generic_policy = alloc_policy +
  gp_heap :: heap

definition generic_new :: "nat \<Rightarrow> heap \<Rightarrow> generic_policy" where
  "generic_new alignment h = \<lparr>ap_usage = 0, ap_alignment = alignment, ap_last = 0, gp_heap = h\<rparr>"

definition generic_allocate :: "generic_policy \<Rightarrow> nat \<Rightarrow> nat \<Rightarrow> (generic_policy \<times> nat) result" where
  "generic_allocate p n m =
     (if n = 0 then Inr (p\<lparr>ap_last := 0\<rparr>, 0)
      else bindE (computeAlignedSize (add64 n 8) (ap_alignment p)) (\<lambda>sz.
        if m = 0 then Inl Spider_Exception
        else Inr (p\<lparr>gp_heap := write64 (gp_heap p) m sz,
                    ap_usage := add64 (ap_usage p) sz, ap_last := sz\<rparr>, m + 8)))"

definition generic_deallocate :: "generic_policy \<Rightarrow> nat \<Rightarrow> (generic_policy \<times> nat) result" where
  "generic_deallocate p ptr =
     (if ptr = 0 then Inr (p, 0)
      else let sz = read64 (gp_heap p) (ptr - 8)
           in Inr (p\<lparr>ap_usage := sub64 (ap_usage p) sz\<rparr>, sz))"

subsection \<open>LinearStaticAllocator\<close>

record linear_policy = alloc_policy +
  lp_heap :: heap
  lp_total :: nat
  lp_external :: bool
  lp_buffer :: nat

text \<open>The constructor; \<open>ext\<close> is \<open>externalBase\<close> (0 for null), \<open>m\<close> the result of \<open>malloc\<close>.\<close>

definition linear_new :: "nat \<Rightarrow> nat \<Rightarrow> nat \<Rightarrow> nat \<Rightarrow> heap \<Rightarrow> linear_policy result" where
  "linear_new totalSize ext alignment m h =
     (if alignment < 8 then Inl Spider_Exception
      else if ext \<noteq> 0 then
        (if totalSize = 0 then Inl Spider_Exception
         else Inr \<lparr>ap_usage = 0, ap_alignment = alignment, ap_last = 0, lp_heap = h,
                   lp_total = totalSize, lp_external = True, lp_buffer = ext\<rparr>)
      else Inr \<lparr>ap_usage = 0, ap_alignment = alignment, ap_last = 0, lp_heap = h,
                lp_total = totalSize, lp_external = False, lp_buffer = m\<rparr>)"

definition linear_allocate :: "linear_policy \<Rightarrow> nat \<Rightarrow> (linear_policy \<times> nat) result" where
  "linear_allocate p n =
     (if n = 0 then Inr (p\<lparr>ap_last := n\<rparr>, 0)
      else let size1 = add64 n 8
           in bindE (if ap_alignment p \<noteq> 0 \<and> size1 mod ap_alignment p \<noteq> 0
                     then computePadding size1 (ap_alignment p) else Inr 0) (\<lambda>padding.
        let sz = add64 size1 padding in
        if sz > lp_total p then Inl Spider_Exception
        else let hdr = lp_buffer p + ap_usage p
             in Inr (p\<lparr>lp_heap := write64 (lp_heap p) hdr sz,
                       ap_usage := add64 (ap_usage p) sz, ap_last := sz\<rparr>, hdr + 8)))"

definition checkPointerAddress :: "linear_policy \<Rightarrow> nat \<Rightarrow> unit result" where
  "checkPointerAddress p ptr =
     (if ptr < lp_buffer p then Inl Spider_Exception
      else if ptr > lp_buffer p + lp_total p then Inl Spider_Exception
      else Inr ())"

definition linear_deallocate :: "linear_policy \<Rightarrow> nat \<Rightarrow> (linear_policy \<times> nat) result" where
  "linear_deallocate p ptr =
     (if ptr = 0 then Inr (p, 0)
      else bindE (checkPointerAddress p ptr) (\<lambda>_. Inr (p, read64 (lp_heap p) (ptr - 8))))"

subsection \<open>Stack: the accounting client\<close>

record 'p stack =
  st_policy :: 'p
  st_usage :: nat
  st_peak :: nat
  st_total :: nat
  st_samples :: nat

definition stack_new :: "'p \<Rightarrow> 'p stack" where
  "stack_new p = \<lparr>st_policy = p, st_usage = 0, st_peak = 0, st_total = 0, st_samples = 0\<rparr>"

definition increaseUsage :: "nat \<Rightarrow> 'p stack \<Rightarrow> 'p stack" where
  "increaseUsage n s =
     (let u = add64 (st_usage s) n
      in s\<lparr>st_usage := u, st_peak := max (st_peak s) u,
           st_total := add64 (st_total s) u, st_samples := add64 (st_samples s) 1\<rparr>)"

definition decreaseUsage :: "nat \<Rightarrow> 'p stack \<Rightarrow> 'p stack" where
  "decreaseUsage n s = s\<lparr>st_usage := sub64 (st_usage s) n\<rparr>"

definition stack_average :: "'p stack \<Rightarrow> nat" where
  "stack_average s = (if st_samples s \<noteq> 0 then st_total s div st_samples s else 0)"

text \<open>\<open>Stack::allocate\<close> and \<open>Stack::deallocate\<close> over the virtual methods of the policy.\<close>

definition stack_allocate ::
  "('p \<Rightarrow> nat \<Rightarrow> nat \<Rightarrow> ('p \<times> nat) result) \<Rightarrow> ('p \<Rightarrow> nat) \<Rightarrow> 'p stack \<Rightarrow> nat \<Rightarrow> nat \<Rightarrow> ('p stack \<times> nat) result" where
  "stack_allocate alloc lastsize s n m =
     bindE (alloc (st_policy s) n m) (\<lambda>(p, buffer).
       Inr (increaseUsage (lastsize p) (s\<lparr>st_policy := p\<rparr>), buffer))"

definition stack_deallocate ::
  "('p \<Rightarrow> nat \<Rightarrow> ('p \<times> nat) result) \<Rightarrow> 'p stack \<Rightarrow> nat \<Rightarrow> 'p stack result" where
  "stack_deallocate dealloc s ptr =
     bindE (dealloc (st_policy s) ptr) (\<lambda>(p, freed). Inr (decreaseUsage freed (s\<lparr>st_policy := p\<rparr>)))"

text \<open>\<open>Stack::setPolicy\<close>: refused for a null policy or while the current one is in use.\<close>

definition stack_setPolicy :: "('p \<Rightarrow> nat) \<Rightarrow> 'p stack \<Rightarrow> 'p option \<Rightarrow> 'p stack \<times> bool" where
  "stack_setPolicy usage s newp =
     (case newp of None \<Rightarrow> (s, False)
      | Some p \<Rightarrow> if usage (st_policy s) \<noteq> 0 then (s, False) else (s\<lparr>st_policy := p\<rparr>, True))"

subsection \<open>The policy interface\<close>

text \<open>
  \<open>rep p L\<close>: the policy \<open>p\<close> holds exactly the live blocks \<open>L\<close> (pointer to size). \<open>fresh p L n m\<close> is what
  the environment grants to an allocation of \<open>n\<close> bytes: that the memory \<open>m\<close> it gets from the system is
  unused, or that the policy's own buffer still has the room.
\<close>

locale block_policy =
  fixes alloc :: "'p \<Rightarrow> nat \<Rightarrow> nat \<Rightarrow> ('p \<times> nat) result"
    and dealloc :: "'p \<Rightarrow> nat \<Rightarrow> ('p \<times> nat) result"
    and lastsize :: "'p \<Rightarrow> nat"
    and rep :: "'p \<Rightarrow> (nat \<rightharpoonup> nat) \<Rightarrow> bool"
    and fresh :: "'p \<Rightarrow> (nat \<rightharpoonup> nat) \<Rightarrow> nat \<Rightarrow> nat \<Rightarrow> bool"
  assumes rep_finite: "rep p L \<Longrightarrow> finite (dom L)"
    and alloc_zero: "rep p L \<Longrightarrow> alloc p 0 m = Inr (p', ptr) \<Longrightarrow> ptr = 0 \<and> lastsize p' = 0 \<and> rep p' L"
    and alloc_block: "rep p L \<Longrightarrow> 0 < n \<Longrightarrow> fresh p L n m \<Longrightarrow> alloc p n m = Inr (p', ptr) \<Longrightarrow>
      ptr \<noteq> 0 \<and> L ptr = None \<and> rep p' (L(ptr \<mapsto> lastsize p'))"
    and dealloc_null: "dealloc p 0 = Inr (p, 0)"
    and dealloc_block: "rep p L \<Longrightarrow> L ptr = Some sz \<Longrightarrow>
      \<exists>p'. dealloc p ptr = Inr (p', sz) \<and> rep p' (L(ptr := None))"

text \<open>The bytes of the live blocks.\<close>

definition live_bytes :: "(nat \<rightharpoonup> nat) \<Rightarrow> nat" where
  "live_bytes L = (\<Sum>ptr \<in> dom L. the (L ptr))"

lemma live_bytes_insert:
  "finite (dom L) \<Longrightarrow> L ptr = None \<Longrightarrow> live_bytes (L(ptr \<mapsto> sz)) = live_bytes L + sz"
proof -
  assume f: "finite (dom L)" and n: "L ptr = None"
  then have nd: "ptr \<notin> dom L" by auto
  have "(\<Sum>p \<in> dom L. the ((L(ptr \<mapsto> sz)) p)) = live_bytes L"
    unfolding live_bytes_def using nd by (intro sum.cong) auto
  then show ?thesis using f nd by (simp add: live_bytes_def)
qed

lemma live_bytes_remove:
  "finite (dom L) \<Longrightarrow> L ptr = Some sz \<Longrightarrow> live_bytes (L(ptr := None)) + sz = live_bytes L"
proof -
  assume f: "finite (dom L)" and s: "L ptr = Some sz"
  have "(L(ptr := None))(ptr \<mapsto> sz) = L" using s by auto
  with live_bytes_insert [of "L(ptr := None)" ptr sz] f show ?thesis by simp
qed

context block_policy
begin

definition stack_inv :: "'p stack \<Rightarrow> (nat \<rightharpoonup> nat) \<Rightarrow> bool" where
  "stack_inv s L \<longleftrightarrow> rep (st_policy s) L \<and> live_bytes L < 2 ^ 64 \<and> st_usage s = live_bytes L \<and>
     st_usage s \<le> st_peak s"

lemma stack_inv_new: "rep p Map.empty \<Longrightarrow> stack_inv (stack_new p) Map.empty"
  by (simp add: stack_inv_def stack_new_def live_bytes_def)

lemma stack_allocate_inv:
  assumes inv: "stack_inv s L" and n: "0 < n" and fr: "fresh (st_policy s) L n m"
    and a: "stack_allocate alloc lastsize s n m = Inr (s', ptr)"
    and room: "live_bytes L + lastsize (st_policy s') < 2 ^ 64"
  shows "L ptr = None \<and> stack_inv s' (L(ptr \<mapsto> lastsize (st_policy s')))"
proof -
  from a obtain p' where al: "alloc (st_policy s) n m = Inr (p', ptr)"
    and s': "s' = increaseUsage (lastsize p') (s\<lparr>st_policy := p'\<rparr>)"
    by (auto simp: stack_allocate_def)
  from inv have rep: "rep (st_policy s) L" by (simp add: stack_inv_def)
  from alloc_block [OF rep n fr al] have l: "L ptr = None" "rep p' (L(ptr \<mapsto> lastsize p'))" by auto
  have pol: "st_policy s' = p'" by (simp add: s' increaseUsage_def Let_def)
  have "st_usage s' = live_bytes L + lastsize p'" "st_usage s' \<le> st_peak s'"
    using inv room pol by (simp_all add: s' increaseUsage_def Let_def stack_inv_def add64_exact)
  then show ?thesis
    using l pol room live_bytes_insert [OF rep_finite [OF rep] l(1)] by (simp add: stack_inv_def)
qed

lemma stack_deallocate_inv:
  assumes inv: "stack_inv s L" and p: "L ptr = Some sz"
  shows "\<exists>s'. stack_deallocate dealloc s ptr = Inr s' \<and> stack_inv s' (L(ptr := None))"
proof -
  from inv have rep: "rep (st_policy s) L" by (simp add: stack_inv_def)
  from dealloc_block [OF rep p] obtain p' where
    d: "dealloc (st_policy s) ptr = Inr (p', sz)" "rep p' (L(ptr := None))" by auto
  have b: "live_bytes (L(ptr := None)) + sz = live_bytes L"
    using rep_finite [OF rep] p by (rule live_bytes_remove)
  then have "sub64 (st_usage s) sz = live_bytes (L(ptr := None))"
    using inv by (subst sub64_exact) (auto simp: stack_inv_def)
  then show ?thesis
    using d b inv by (auto simp: stack_deallocate_def stack_inv_def decreaseUsage_def)
qed

end

subsection \<open>The header layout both policies keep\<close>

text \<open>
  Each live pointer sits 8 bytes into its block, the block starts with its own size, and distinct
  blocks are disjoint.
\<close>

definition headers_ok :: "heap \<Rightarrow> (nat \<rightharpoonup> nat) \<Rightarrow> bool" where
  "headers_ok h L \<longleftrightarrow> finite (dom L) \<and>
     (\<forall>ptr sz. L ptr = Some sz \<longrightarrow> 8 < ptr \<and> 8 \<le> sz \<and> sz < 2 ^ 64 \<and> read64 h (ptr - 8) = sz) \<and>
     (\<forall>p q sp sq. L p = Some sp \<longrightarrow> L q = Some sq \<longrightarrow> p \<noteq> q \<longrightarrow> block (p - 8) sp \<inter> block (q - 8) sq = {})"

text \<open>A block at \<open>m\<close> of size \<open>sz\<close> meets no live block.\<close>

definition unused :: "(nat \<rightharpoonup> nat) \<Rightarrow> nat \<Rightarrow> nat \<Rightarrow> bool" where
  "unused L m sz \<longleftrightarrow> (\<forall>p sp. L p = Some sp \<longrightarrow> block m sz \<inter> block (p - 8) sp = {})"

lemma headers_ok_empty: "headers_ok h Map.empty"
  by (simp add: headers_ok_def)

lemma headers_ok_insert:
  assumes ok: "headers_ok h L" and u: "unused L m sz" and sz: "8 \<le> sz" "sz < 2 ^ 64" and m: "0 < m"
  shows "L (m + 8) = None \<and> headers_ok (write64 h m sz) (L(m + 8 \<mapsto> sz))"
proof -
  have hd: "read64 (write64 h m sz) (p - 8) = read64 h (p - 8)" if "L p = Some sp" for p sp
  proof -
    from ok u that sz have "block m sz \<inter> block (p - 8) sp = {}" "8 \<le> sp"
      by (auto simp: unused_def headers_ok_def)
    then show ?thesis using sz by (intro read64_write64_other) (auto simp: block_disjoint_iff)
  qed
  have none: "L (m + 8) = None"
  proof (rule ccontr)
    assume "L (m + 8) \<noteq> None"
    then obtain sp where sp: "L (m + 8) = Some sp" by auto
    with u have "block m sz \<inter> block (m + 8 - 8) sp = {}" unfolding unused_def by blast
    moreover from sp ok have "8 \<le> sp" by (auto simp: headers_ok_def)
    ultimately show False using sz by (simp add: block_disjoint_iff)
  qed
  show ?thesis
  proof (intro conjI)
    show "headers_ok (write64 h m sz) (L(m + 8 \<mapsto> sz))"
      unfolding headers_ok_def
    proof (intro conjI allI impI)
      show "finite (dom (L(m + 8 \<mapsto> sz)))" using ok by (simp add: headers_ok_def)
      fix p sp
      assume p: "(L(m + 8 \<mapsto> sz)) p = Some sp"
      show "8 < p" "8 \<le> sp" "sp < 2 ^ 64" "read64 (write64 h m sz) (p - 8) = sp"
        using ok p sz m hd by (auto simp: headers_ok_def split: if_splits)
      fix q sq
      assume "(L(m + 8 \<mapsto> sz)) q = Some sq" "p \<noteq> q"
      with p ok u show "block (p - 8) sp \<inter> block (q - 8) sq = {}"
        by (auto simp: headers_ok_def unused_def Int_commute split: if_splits)
    qed
  qed (rule none)
qed

lemma headers_ok_remove: "headers_ok h L \<Longrightarrow> headers_ok h (L(ptr := None))"
  by (auto simp: headers_ok_def split: if_splits)

lemma headers_ok_read: "headers_ok h L \<Longrightarrow> L ptr = Some sz \<Longrightarrow> ptr \<noteq> 0 \<and> read64 h (ptr - 8) = sz"
  by (fastforce simp: headers_ok_def)

subsection \<open>The generic policy implements the interface\<close>

definition generic_rep :: "generic_policy \<Rightarrow> (nat \<rightharpoonup> nat) \<Rightarrow> bool" where
  "generic_rep p L \<longleftrightarrow> ap_alignment p \<noteq> 0 \<and> headers_ok (gp_heap p) L"

text \<open>What \<open>malloc\<close> guarantees: the block it returns, once rounded up, meets no live one.\<close>

definition generic_fresh :: "generic_policy \<Rightarrow> (nat \<rightharpoonup> nat) \<Rightarrow> nat \<Rightarrow> nat \<Rightarrow> bool" where
  "generic_fresh p L n m \<longleftrightarrow> n + 8 + ap_alignment p < 2 ^ 64 \<and>
     (\<forall>sz. computeAlignedSize (add64 n 8) (ap_alignment p) = Inr sz \<longrightarrow> unused L m sz)"

lemma computeAlignedSize_bounds:
  assumes "computeAlignedSize n a = Inr sz" "n + a < 2 ^ 64"
  shows "n \<le> sz \<and> sz < 2 ^ 64 \<and> sz < n + a \<and> a dvd sz"
proof -
  from assms(1) obtain pad where pad: "computePadding n a = Inr pad" "sz = add64 n pad"
    by (auto simp: computeAlignedSize_def)
  from pad computePadding_bound [OF pad(1)] computePadding_dvd [OF pad(1)] assms(2)
  show ?thesis by (simp add: add64_exact)
qed

lemma generic_allocate_block:
  assumes rep: "generic_rep p L" and n: "0 < n" and fr: "generic_fresh p L n m"
    and a: "generic_allocate p n m = Inr (p', ptr)"
  shows "ptr \<noteq> 0 \<and> L ptr = None \<and> generic_rep p' (L(ptr \<mapsto> ap_last p')) \<and> n + 8 \<le> ap_last p'"
proof -
  from a n obtain sz where sz: "computeAlignedSize (add64 n 8) (ap_alignment p) = Inr sz"
    and m: "0 < m" and ptr: "ptr = m + 8"
    and p': "p' = p\<lparr>gp_heap := write64 (gp_heap p) m sz, ap_usage := add64 (ap_usage p) sz, ap_last := sz\<rparr>"
    by (auto simp: generic_allocate_def split: if_splits)
  from fr have room: "n + 8 + ap_alignment p < 2 ^ 64" and u: "unused L m sz"
    using sz by (auto simp: generic_fresh_def)
  then have b: "n + 8 \<le> sz" "sz < 2 ^ 64"
    using computeAlignedSize_bounds [OF sz] by (auto simp: add64_exact)
  with headers_ok_insert [of "gp_heap p" L m sz] rep u m
  have "L (m + 8) = None \<and> headers_ok (write64 (gp_heap p) m sz) (L(m + 8 \<mapsto> sz))"
    by (simp add: generic_rep_def)
  then show ?thesis using rep b by (simp add: ptr p' generic_rep_def)
qed

interpretation generic: block_policy generic_allocate generic_deallocate ap_last generic_rep generic_fresh
proof
  fix p L assume "generic_rep p L" then show "finite (dom L)" by (simp add: generic_rep_def headers_ok_def)
next
  fix p L m p' ptr
  assume "generic_rep p L" "generic_allocate p 0 m = Inr (p', ptr)"
  then show "ptr = 0 \<and> ap_last p' = 0 \<and> generic_rep p' L"
    by (auto simp: generic_allocate_def generic_rep_def)
next
  fix p L n m p' ptr
  assume "generic_rep p L" "0 < n" "generic_fresh p L n m" "generic_allocate p n m = Inr (p', ptr)"
  then show "ptr \<noteq> 0 \<and> L ptr = None \<and> generic_rep p' (L(ptr \<mapsto> ap_last p'))"
    using generic_allocate_block by blast
next
  fix p show "generic_deallocate p 0 = Inr (p, 0)" by (simp add: generic_deallocate_def)
next
  fix p L ptr sz
  assume rep: "generic_rep p L" and l: "L ptr = Some sz"
  then have "ptr \<noteq> 0" "read64 (gp_heap p) (ptr - 8) = sz"
    using headers_ok_read by (auto simp: generic_rep_def)
  then show "\<exists>p'. generic_deallocate p ptr = Inr (p', sz) \<and> generic_rep p' (L(ptr := None))"
    using rep by (simp add: generic_deallocate_def Let_def generic_rep_def headers_ok_remove)
qed

subsection \<open>The linear policy implements it while the buffer has room\<close>

definition linear_rep :: "linear_policy \<Rightarrow> (nat \<rightharpoonup> nat) \<Rightarrow> bool" where
  "linear_rep p L \<longleftrightarrow> 8 \<le> ap_alignment p \<and> 0 < lp_buffer p \<and> ap_usage p \<le> lp_total p \<and> lp_total p < 2 ^ 64 \<and>
     headers_ok (lp_heap p) L \<and>
     (\<forall>ptr sz. L ptr = Some sz \<longrightarrow> lp_buffer p + 8 \<le> ptr \<and> ptr - 8 + sz \<le> lp_buffer p + ap_usage p)"

text \<open>The room \<open>LinearStaticAllocator::allocate\<close> should check for (it compares with the total size only).\<close>

definition linear_fresh :: "linear_policy \<Rightarrow> (nat \<rightharpoonup> nat) \<Rightarrow> nat \<Rightarrow> nat \<Rightarrow> bool" where
  "linear_fresh p L n m \<longleftrightarrow> n + 8 + ap_alignment p < 2 ^ 64 \<and>
     (\<forall>sz. computeAlignedSize (n + 8) (ap_alignment p) = Inr sz \<longrightarrow> ap_usage p + sz \<le> lp_total p)"

lemma linear_padding:
  "a \<noteq> 0 \<Longrightarrow> (if a \<noteq> 0 \<and> n mod a \<noteq> 0 then computePadding n a else Inr 0) = computePadding n a"
  by (simp add: computePadding_def)

lemma linear_allocate_block:
  assumes rep: "linear_rep p L" and n: "0 < n" and fr: "linear_fresh p L n m"
    and a: "linear_allocate p n = Inr (p', ptr)"
  shows "ptr \<noteq> 0 \<and> L ptr = None \<and> linear_rep p' (L(ptr \<mapsto> ap_last p')) \<and>
         ptr = lp_buffer p + ap_usage p + 8 \<and> ap_usage p' = ap_usage p + ap_last p'"
proof -
  from rep have al: "ap_alignment p \<noteq> 0" by (simp add: linear_rep_def)
  from fr have n8: "add64 n 8 = n + 8" by (simp add: linear_fresh_def add64_exact)
  from a n n8 al obtain sz where sz: "computeAlignedSize (n + 8) (ap_alignment p) = Inr sz"
    and ptr: "ptr = lp_buffer p + ap_usage p + 8"
    and p': "p' = p\<lparr>lp_heap := write64 (lp_heap p) (lp_buffer p + ap_usage p) sz,
                    ap_usage := add64 (ap_usage p) sz, ap_last := sz\<rparr>"
    unfolding linear_allocate_def linear_padding [OF al]
    by (auto simp: Let_def computeAlignedSize_def linear_padding split: if_splits)
  from fr sz have room: "ap_usage p + sz \<le> lp_total p" by (auto simp: linear_fresh_def)
  have b: "n + 8 \<le> sz" "sz < 2 ^ 64"
    using computeAlignedSize_bounds [OF sz] fr by (auto simp: linear_fresh_def)
  have u: "unused L (lp_buffer p + ap_usage p) sz"
    using rep unfolding unused_def linear_rep_def block_def by (fastforce simp: disjoint_iff)
  have us: "add64 (ap_usage p) sz = ap_usage p + sz"
    using room rep by (intro add64_exact) (auto simp: linear_rep_def)
  have h: "L ptr = None \<and> headers_ok (write64 (lp_heap p) (lp_buffer p + ap_usage p) sz) (L(ptr \<mapsto> sz))"
    using headers_ok_insert [of "lp_heap p" L "lp_buffer p + ap_usage p" sz] rep u b
    by (simp add: linear_rep_def ptr)
  then show ?thesis
    using rep room us by (fastforce simp: p' ptr linear_rep_def split: if_splits)
qed

interpretation linear: block_policy "\<lambda>p n m. linear_allocate p n" linear_deallocate ap_last linear_rep linear_fresh
proof
  fix p L assume "linear_rep p L" then show "finite (dom L)" by (simp add: linear_rep_def headers_ok_def)
next
  fix p L m p' ptr
  assume "linear_rep p L" "linear_allocate p 0 = Inr (p', ptr)"
  then show "ptr = 0 \<and> ap_last p' = 0 \<and> linear_rep p' L"
    by (auto simp: linear_allocate_def linear_rep_def)
next
  fix p L n m p' ptr
  assume "linear_rep p L" "0 < n" "linear_fresh p L n m" "linear_allocate p n = Inr (p', ptr)"
  then show "ptr \<noteq> 0 \<and> L ptr = None \<and> linear_rep p' (L(ptr \<mapsto> ap_last p'))"
    using linear_allocate_block by blast
next
  fix p show "linear_deallocate p 0 = Inr (p, 0)" by (simp add: linear_deallocate_def)
next
  fix p L ptr sz
  assume rep: "linear_rep p L" and l: "L ptr = Some sz"
  from headers_ok_read [of "lp_heap p" L ptr sz] l rep have hd: "ptr \<noteq> 0" "read64 (lp_heap p) (ptr - 8) = sz"
    by (auto simp: linear_rep_def)
  from rep l have lay: "lp_buffer p + 8 \<le> ptr" "ptr - 8 + sz \<le> lp_buffer p + ap_usage p" "8 \<le> sz"
      "ap_usage p \<le> lp_total p" by (auto simp: linear_rep_def headers_ok_def)
  then have "checkPointerAddress p ptr = Inr ()" by (simp add: checkPointerAddress_def)
  then show "\<exists>p'. linear_deallocate p ptr = Inr (p', sz) \<and> linear_rep p' (L(ptr := None))"
    using rep hd headers_ok_remove by (auto simp: linear_deallocate_def linear_rep_def split: if_splits)
qed

end
