(* ===== verification/FreeList.thy ===== *)
theory FreeList
  imports AllocPolicy
begin

text \<open>
  \<open>FreeListAllocatorPolicy\<close>: a first-fit or best-fit allocator over one buffer, whose free blocks
  form a linked list of \<open>Node\<close>s written into the free memory itself. The nodes live in the byte heap:
  \<open>blockSize_\<close> at the node's address, \<open>next_\<close> 8 bytes further. The loops over the list are partial
  functions (\<open>None\<close> is a loop that does not end); under the invariant they end. \<open>findNode_\<close>, the
  function pointer the constructor sets, is the locale \<open>node_finder\<close>, interpreted by \<open>findFirst\<close> and
  \<open>findBest\<close>. The correctness of \<open>allocate\<close> and \<open>deallocate\<close> is relative to a list \<open>F\<close> of free blocks
  and a map \<open>L\<close> of live ones.
\<close>

datatype free_list_policy = FIND_FIRST | FIND_BEST

record freelist = alloc_policy +
  fl_heap :: heap
  fl_list :: nat
  fl_buffer :: nat
  fl_external :: bool
  fl_extra :: "(nat \<times> nat) list"  \<comment> \<open>\<open>extraBuffers_\<close>: size and pointer\<close>
  fl_size :: nat
  fl_scale :: nat
  fl_policy :: free_list_policy

definition MIN_CHUNK_SIZE :: nat where
  "MIN_CHUNK_SIZE = 8192"

abbreviation node_size :: "heap \<Rightarrow> nat \<Rightarrow> nat" where
  "node_size h a \<equiv> read64 h a"

abbreviation node_next :: "heap \<Rightarrow> nat \<Rightarrow> nat" where
  "node_next h a \<equiv> read64 h (a + 8)"

definition freelist_new :: "nat \<Rightarrow> nat \<Rightarrow> free_list_policy \<Rightarrow> nat \<Rightarrow> nat \<Rightarrow> heap \<Rightarrow> freelist result" where
  "freelist_new staticBufferSize externalBuffer policy alignment m h =
     (if alignment < 8 then Inl Spider_Exception
      else let ext = (externalBuffer \<noteq> 0);
               sz = (if ext then staticBufferSize else max staticBufferSize MIN_CHUNK_SIZE);
               ptr = (if ext then externalBuffer else m)
           in if ptr = 0 then Inl Null_Deref
              else Inr \<lparr>ap_usage = 0, ap_alignment = alignment, ap_last = 0,
                        fl_heap = write64 (write64 h ptr sz) (ptr + 8) 0, fl_list = ptr,
                        fl_buffer = ptr, fl_external = ext, fl_extra = [], fl_size = sz,
                        fl_scale = 1, fl_policy = policy\<rparr>)"

subsection \<open>Searching a node\<close>

partial_function (option) findFirst :: "heap \<Rightarrow> nat \<Rightarrow> nat \<Rightarrow> nat \<Rightarrow> (nat \<times> nat) option" where
  "findFirst h req freeNode previousNode =
     (if freeNode = 0 then Some (0, 0)
      else if node_size h freeNode \<ge> req then Some (freeNode, previousNode)
      else findFirst h req (node_next h freeNode) freeNode)"

partial_function (option) findBest_loop ::
  "heap \<Rightarrow> nat \<Rightarrow> nat \<Rightarrow> nat \<Rightarrow> nat \<Rightarrow> nat \<Rightarrow> nat \<Rightarrow> (nat \<times> nat) option" where
  "findBest_loop h req it previousNode bestNode bestPreviousNode minFit =
     (if it = 0 then Some (bestNode, bestPreviousNode)
      else if node_size h it \<ge> req \<and> node_size h it - req < minFit then
        (if node_size h it - req = 0 then Some (it, previousNode)
         else findBest_loop h req (node_next h it) it it previousNode (node_size h it - req))
      else findBest_loop h req (node_next h it) it bestNode bestPreviousNode minFit)"

definition findBest :: "heap \<Rightarrow> nat \<Rightarrow> nat \<Rightarrow> nat \<Rightarrow> (nat \<times> nat) option" where
  "findBest h req base prev = findBest_loop h req base prev 0 0 size_max"

definition findNode :: "free_list_policy \<Rightarrow> heap \<Rightarrow> nat \<Rightarrow> nat \<Rightarrow> (nat \<times> nat) option" where
  "findNode policy h req base =
     (case policy of FIND_FIRST \<Rightarrow> findFirst h req base 0 | FIND_BEST \<Rightarrow> findBest h req base 0)"

subsection \<open>List surgery\<close>

definition fl_insert :: "nat \<Rightarrow> nat \<Rightarrow> freelist \<Rightarrow> freelist" where
  "fl_insert baseNode newNode f =
     (if baseNode = 0 then f\<lparr>fl_heap := write64 (fl_heap f) (newNode + 8) (fl_list f), fl_list := newNode\<rparr>
      else f\<lparr>fl_heap := write64 (write64 (fl_heap f) (newNode + 8) (node_next (fl_heap f) baseNode))
                          (baseNode + 8) newNode\<rparr>)"

definition fl_remove :: "nat \<Rightarrow> nat \<Rightarrow> freelist \<Rightarrow> freelist" where
  "fl_remove baseNode removedNode f =
     (if baseNode = 0 then f\<lparr>fl_list := node_next (fl_heap f) removedNode\<rparr>
      else f\<lparr>fl_heap := write64 (fl_heap f) (baseNode + 8) (node_next (fl_heap f) removedNode)\<rparr>)"

definition updateFreeNodeList :: "nat \<Rightarrow> nat \<Rightarrow> nat \<Rightarrow> freelist \<Rightarrow> freelist" where
  "updateFreeNodeList baseNode memoryNode requiredSize f =
     (let leftOverMemory = sub64 (node_size (fl_heap f) memoryNode) requiredSize;
          f1 = (if leftOverMemory \<noteq> 0 then
                  (let freeNode = memoryNode + requiredSize
                   in fl_insert memoryNode freeNode (f\<lparr>fl_heap := write64 (fl_heap f) freeNode leftOverMemory\<rparr>))
                else f)
      in fl_remove baseNode memoryNode f1)"

definition createExtraBuffer :: "nat \<Rightarrow> nat \<Rightarrow> nat \<Rightarrow> freelist \<Rightarrow> (freelist \<times> nat) result" where
  "createExtraBuffer n base m f =
     bindE (computeAlignedSize n (mul64 MIN_CHUNK_SIZE (fl_scale f))) (\<lambda>bsize.
       if m = 0 then Inl Null_Deref
       else let h = write64 (write64 (fl_heap f) m (sub64 bsize 16)) (m + 8) 0;
                f1 = fl_insert base m (f\<lparr>fl_heap := h\<rparr>)
            in Inr (f1\<lparr>fl_extra := fl_extra f1 @ [(bsize, m)], fl_scale := mul64 (fl_scale f1) 2\<rparr>, m))"

definition fl_allocate :: "freelist \<Rightarrow> nat \<Rightarrow> nat \<Rightarrow> (freelist \<times> nat) result option" where
  "fl_allocate f n m =
     (if n = 0 then Some (Inr (f\<lparr>ap_last := 0\<rparr>, 0))
      else let n1 = (if n < 16 then add64 n 16 else n);
               sz = add64 n1 8
           in case computePadding sz (ap_alignment f) of
                Inl e \<Rightarrow> Some (Inl e)
              | Inr padding \<Rightarrow>
                  (case findNode (fl_policy f) (fl_heap f) (add64 sz padding) (fl_list f) of
                     None \<Rightarrow> None
                   | Some (memoryNode, baseNode) \<Rightarrow>
                       Some (bindE (if memoryNode = 0
                                    then bindE (createExtraBuffer sz baseNode m f) (\<lambda>(f1, node). Inr (f1, node, 0))
                                    else Inr (f, memoryNode, padding)) (\<lambda>(f1, node, pad).
                         let requiredSize = add64 sz pad;
                             f2 = updateFreeNodeList baseNode node requiredSize f1
                         in Inr (f2\<lparr>fl_heap := write64 (fl_heap f2) node requiredSize,
                                     ap_usage := add64 (ap_usage f2) requiredSize,
                                     ap_last := requiredSize\<rparr>, node + 8)))))"

definition validAddress :: "freelist \<Rightarrow> nat \<Rightarrow> bool" where
  "validAddress f ptr \<longleftrightarrow>
     (fl_buffer f \<le> ptr \<and> ptr < fl_buffer f + fl_size f) \<or>
     list_ex (\<lambda>(bsize, bptr). bptr \<le> ptr \<and> ptr < bptr + bsize) (fl_extra f)"

text \<open>The scan of \<open>deallocate\<close>: whether the node was inserted, and the last node before it.\<close>

partial_function (option) dealloc_scan :: "heap \<Rightarrow> nat \<Rightarrow> nat \<Rightarrow> nat \<Rightarrow> (bool \<times> nat) option" where
  "dealloc_scan h freeNode it itPrev =
     (if it = 0 then Some (False, itPrev)
      else if freeNode < it then Some (True, itPrev)
      else dealloc_scan h freeNode (node_next h it) it)"

definition coalesce :: "nat \<Rightarrow> nat \<Rightarrow> freelist \<Rightarrow> freelist" where
  "coalesce itPrev freeNode f =
     (let next = node_next (fl_heap f) freeNode;
          f1 = (if next \<noteq> 0 \<and> freeNode + node_size (fl_heap f) freeNode = next
                then fl_remove freeNode next
                       (f\<lparr>fl_heap := write64 (fl_heap f) freeNode
                            (add64 (node_size (fl_heap f) freeNode) (node_size (fl_heap f) next))\<rparr>)
                else f)
      in if itPrev \<noteq> 0 \<and> itPrev + node_size (fl_heap f1) itPrev = freeNode
         then fl_remove itPrev freeNode
                (f1\<lparr>fl_heap := write64 (fl_heap f1) itPrev
                      (add64 (node_size (fl_heap f1) itPrev) (node_size (fl_heap f1) freeNode))\<rparr>)
         else f1)"

definition fl_deallocate :: "freelist \<Rightarrow> nat \<Rightarrow> (freelist \<times> nat) result option" where
  "fl_deallocate f ptr =
     (if ptr = 0 then Some (Inr (f, 0))
      else if ap_usage f = 0 then Some (Inl Spider_Exception)
      else let freeNode = ptr - 8;
               sz = node_size (fl_heap f) freeNode
           in if \<not> validAddress f freeNode then Some (Inl Spider_Exception)
              else let h = write64 (write64 (fl_heap f) freeNode sz) (freeNode + 8) 0
                   in case dealloc_scan h freeNode (fl_list f) 0 of
                        None \<Rightarrow> None
                      | Some (inserted, itPrev) \<Rightarrow>
                          (let f0 = f\<lparr>fl_heap := h\<rparr>;
                               f1 = (if inserted then fl_insert itPrev freeNode f0 else f0);
                               f2 = f1\<lparr>ap_usage := sub64 (ap_usage f1) (node_size (fl_heap f1) freeNode)\<rparr>
                           in Some (Inr (coalesce itPrev freeNode f2, sz))))"

subsection \<open>The list the heap encodes\<close>

text \<open>A segment of the list from \<open>a\<close> to \<open>b\<close>, as the list of its nodes (address, block size).\<close>

fun seg :: "heap \<Rightarrow> nat \<Rightarrow> (nat \<times> nat) list \<Rightarrow> nat \<Rightarrow> bool" where
  "seg h a [] b \<longleftrightarrow> a = b"
| "seg h a (x # xs) b \<longleftrightarrow> a = fst x \<and> fst x \<noteq> 0 \<and> read64 h a = snd x \<and> seg h (read64 h (a + 8)) xs b"

abbreviation chain :: "heap \<Rightarrow> nat \<Rightarrow> (nat \<times> nat) list \<Rightarrow> bool" where
  "chain h a xs \<equiv> seg h a xs 0"

definition apart :: "nat \<times> nat \<Rightarrow> nat \<times> nat \<Rightarrow> bool" where
  "apart x y \<longleftrightarrow> fst x + snd x \<le> fst y \<or> fst y + snd y \<le> fst x"

text \<open>The bytes of a node's header, \<open>sizeof(Node)\<close>.\<close>

abbreviation hdr :: "nat \<times> nat \<Rightarrow> nat \<times> nat" where
  "hdr x \<equiv> (fst x, 16)"

lemma apart_sym: "apart x y \<longleftrightarrow> apart y x"
  by (auto simp: apart_def)

lemma seg_append: "seg h a (xs @ ys) b \<longleftrightarrow> (\<exists>c. seg h a xs c \<and> seg h c ys b)"
  by (induction xs arbitrary: a) auto

lemma seg_frame:
  "seg h a xs b \<Longrightarrow> (\<And>x. x \<in> set xs \<Longrightarrow> apart (hdr x) (w, 8)) \<Longrightarrow> seg (write64 h w v) a xs b"
proof (induction xs arbitrary: a)
  case (Cons x xs)
  from Cons.prems(2) [of x] have "apart (hdr x) (w, 8)" by simp
  then have "w + 8 \<le> fst x \<or> fst x + 16 \<le> w" by (auto simp: apart_def)
  then have "read64 (write64 h w v) (fst x) = read64 h (fst x)"
    "read64 (write64 h w v) (fst x + 8) = read64 h (fst x + 8)"
    by (auto intro!: read64_write64_other)
  with Cons show ?case by auto
qed simp

text \<open>Redirecting the last \<open>next\<close> of a segment.\<close>

lemma seg_redirect:
  assumes "seg h a (xs @ [x]) b" and "c < 2 ^ 64"
    and "\<And>y. y \<in> set xs \<Longrightarrow> apart (hdr y) (hdr x)"
  shows "seg (write64 h (fst x + 8) c) a (xs @ [x]) c"
proof -
  from assms(1) have "seg h a xs (fst x)" "fst x \<noteq> 0" "read64 h (fst x) = snd x"
    by (auto simp: seg_append)
  moreover from this(1) have "seg (write64 h (fst x + 8) c) a xs (fst x)"
    by (rule seg_frame) (use assms(3) in \<open>force simp: apart_def\<close>)
  ultimately show ?thesis using assms(2) by (auto simp: seg_append)
qed

text \<open>The list that replaces the middle of a chain: new head, new heap.\<close>

lemma seg_prev:
  assumes "seg h a xs b" shows "xs \<noteq> [] \<Longrightarrow> fst (last xs) \<noteq> 0"
  using assms by (induction xs arbitrary: a) (auto split: if_splits)

lemma fl_bytes_update: "sum_list (map snd (xs @ x # ys)) = snd x + sum_list (map snd (xs @ ys))"
  for xs ys :: "(nat \<times> nat) list"
  by simp

subsection \<open>The searches as a contract\<close>

text \<open>
  \<open>find h req a\<close> over the chain from \<open>a\<close>: it ends, it answers null when no block is large enough,
  and otherwise a node of the list with its predecessor (0 for the head).
\<close>

definition prev_of :: "(nat \<times> nat) list \<Rightarrow> nat" where
  "prev_of xs = (if xs = [] then 0 else fst (last xs))"

locale node_finder =
  fixes find :: "heap \<Rightarrow> nat \<Rightarrow> nat \<Rightarrow> (nat \<times> nat) option"
  assumes find_none: "chain h a F \<Longrightarrow> (\<And>z. z \<in> set F \<Longrightarrow> snd z < size_max) \<Longrightarrow> (\<And>x. x \<in> set F \<Longrightarrow> snd x < req) \<Longrightarrow> find h req a = Some (0, 0)"
    and find_some: "chain h a F \<Longrightarrow> (\<And>z. z \<in> set F \<Longrightarrow> snd z < size_max) \<Longrightarrow> x \<in> set F \<Longrightarrow> req \<le> snd x \<Longrightarrow>
      \<exists>xs y ys. F = xs @ y # ys \<and> req \<le> snd y \<and> find h req a = Some (fst y, prev_of xs)"

lemma findFirst_none:
  "chain h a F \<Longrightarrow> (\<And>x. x \<in> set F \<Longrightarrow> snd x < req) \<Longrightarrow> findFirst h req a p = Some (0, 0)"
proof (induction F arbitrary: a p)
  case Nil
  then show ?case by (simp add: findFirst.simps)
next
  case (Cons x F)
  from Cons.prems(1) have "a = fst x" "fst x \<noteq> 0" "read64 h a = snd x" by auto
  moreover have "snd x < req" using Cons.prems(2) by simp
  ultimately have "findFirst h req a p = findFirst h req (node_next h a) a"
    by (subst findFirst.simps) simp
  with Cons show ?case by auto
qed

lemma findFirst_some:
  "chain h a F \<Longrightarrow> x \<in> set F \<Longrightarrow> req \<le> snd x \<Longrightarrow>
   \<exists>xs y ys. F = xs @ y # ys \<and> req \<le> snd y \<and> findFirst h req a p = Some (fst y, if xs = [] then p else fst (last xs))"
proof (induction F arbitrary: a p)
  case (Cons z F)
  from Cons.prems(1) have z: "a = fst z" "fst z \<noteq> 0" "read64 h a = snd z" "chain h (node_next h a) F" by auto
  show ?case
  proof (cases "req \<le> snd z")
    case True
    then have "findFirst h req a p = Some (fst z, p)" using z by (subst findFirst.simps) simp
    with True show ?thesis by (intro exI [of _ "[]"] exI [of _ z] exI [of _ F]) simp
  next
    case False
    then have eq: "findFirst h req a p = findFirst h req (node_next h a) a"
      using z by (subst findFirst.simps) simp
    from False Cons.prems have "x \<in> set F" "req \<le> snd x" by auto
    from Cons.IH [OF z(4) this, of a] obtain xs y ys where
      r: "F = xs @ y # ys" "req \<le> snd y"
        "findFirst h req (node_next h a) a = Some (fst y, if xs = [] then a else fst (last xs))" by auto
    then show ?thesis using eq z(1) by (intro exI [of _ "z # xs"] exI [of _ y] exI [of _ ys]) auto
  qed
qed simp

interpretation first_fit: node_finder "\<lambda>h req a. findFirst h req a 0"
proof
  fix h a F req assume "chain h a F" "\<And>x. x \<in> set F \<Longrightarrow> snd x < req"
  then show "findFirst h req a 0 = Some (0, 0)" by (rule findFirst_none)
next
  fix h a F x req assume c: "chain h a F" and x: "x \<in> set F" "req \<le> snd x"
  from findFirst_some [OF c x, of 0] show
    "\<exists>xs y ys. F = xs @ y # ys \<and> req \<le> snd y \<and> findFirst h req a 0 = Some (fst y, prev_of xs)"
    by (simp add: prev_of_def)
qed

text \<open>
  The best-fit loop, over the part \<open>ys\<close> of the list still to visit, keeps the best node of the part
  \<open>xs\<close> already visited.
\<close>

definition best_so_far :: "(nat \<times> nat) list \<Rightarrow> nat \<Rightarrow> nat \<Rightarrow> nat \<Rightarrow> nat \<Rightarrow> bool" where
  "best_so_far xs req bn bp mf \<longleftrightarrow>
     (\<forall>x \<in> set xs. snd x < req) \<and> bn = 0 \<and> bp = 0 \<and> mf = size_max \<or>
     (\<exists>us y vs. xs = us @ y # vs \<and> req \<le> snd y \<and> bn = fst y \<and> bp = prev_of us \<and> mf = snd y - req \<and>
        (\<forall>x \<in> set xs. req \<le> snd x \<longrightarrow> snd y \<le> snd x))"

lemma prev_of_snoc [simp]: "prev_of (xs @ [x]) = fst x"
  by (simp add: prev_of_def)

lemma best_so_far_skip:
  assumes b: "best_so_far xs req bn bp mf" and "\<not> (req \<le> snd z \<and> snd z - req < mf)" "snd z < size_max"
  shows "best_so_far (xs @ [z]) req bn bp mf"
  using b unfolding best_so_far_def
proof (elim disjE exE conjE)
  assume "\<forall>x \<in> set xs. snd x < req" "bn = 0" "bp = 0" "mf = size_max"
  with assms(2,3) show "(\<forall>x \<in> set (xs @ [z]). snd x < req) \<and> bn = 0 \<and> bp = 0 \<and> mf = size_max \<or>
     (\<exists>us y vs. xs @ [z] = us @ y # vs \<and> req \<le> snd y \<and> bn = fst y \<and> bp = prev_of us \<and> mf = snd y - req \<and>
        (\<forall>x \<in> set (xs @ [z]). req \<le> snd x \<longrightarrow> snd y \<le> snd x))"
    by auto
next
  fix us y vs
  assume "xs = us @ y # vs" "req \<le> snd y" "bn = fst y" "bp = prev_of us" "mf = snd y - req"
    "\<forall>x \<in> set xs. req \<le> snd x \<longrightarrow> snd y \<le> snd x"
  with assms(2) have "\<exists>us y vs. xs @ [z] = us @ y # vs \<and> req \<le> snd y \<and> bn = fst y \<and> bp = prev_of us \<and>
      mf = snd y - req \<and> (\<forall>x \<in> set (xs @ [z]). req \<le> snd x \<longrightarrow> snd y \<le> snd x)"
    by (intro exI [of _ us] exI [of _ y] exI [of _ "vs @ [z]"]) auto
  then show "(\<forall>x \<in> set (xs @ [z]). snd x < req) \<and> bn = 0 \<and> bp = 0 \<and> mf = size_max \<or>
     (\<exists>us y vs. xs @ [z] = us @ y # vs \<and> req \<le> snd y \<and> bn = fst y \<and> bp = prev_of us \<and> mf = snd y - req \<and>
        (\<forall>x \<in> set (xs @ [z]). req \<le> snd x \<longrightarrow> snd y \<le> snd x))" ..
qed

lemma best_so_far_take:
  assumes "best_so_far xs req bn bp mf" "req \<le> snd z" "snd z - req < mf"
  shows "best_so_far (xs @ [z]) req (fst z) (prev_of xs) (snd z - req)"
proof -
  have "\<forall>x \<in> set (xs @ [z]). req \<le> snd x \<longrightarrow> snd z \<le> snd x"
    using assms by (fastforce simp: best_so_far_def)
  then show ?thesis using assms(2)
    unfolding best_so_far_def
    by (intro disjI2 exI [of _ xs] exI [of _ z] exI [of _ "[]"]) simp
qed

text \<open>The answer of the loop: null, or a smallest block that is large enough.\<close>

definition best_result :: "(nat \<times> nat) list \<Rightarrow> nat \<Rightarrow> nat \<Rightarrow> nat \<Rightarrow> bool" where
  "best_result xs req bn bp \<longleftrightarrow>
     (\<forall>x \<in> set xs. snd x < req) \<and> bn = 0 \<and> bp = 0 \<or>
     (\<exists>us y vs. xs = us @ y # vs \<and> req \<le> snd y \<and> bn = fst y \<and> bp = prev_of us \<and>
        (\<forall>x \<in> set xs. req \<le> snd x \<longrightarrow> snd y \<le> snd x))"

lemma best_so_far_result: "best_so_far xs req bn bp mf \<Longrightarrow> best_result xs req bn bp"
  unfolding best_so_far_def best_result_def by blast

lemma findBest_loop_spec:
  assumes "chain h a ys" "best_so_far xs req bn bp mf" "\<forall>y \<in> set ys. snd y < size_max"
  shows "\<exists>bn' bp'. findBest_loop h req a (prev_of xs) bn bp mf = Some (bn', bp') \<and>
    best_result (xs @ ys) req bn' bp'"
  using assms
proof (induction ys arbitrary: a xs bn bp mf)
  case Nil
  then have "findBest_loop h req a (prev_of xs) bn bp mf = Some (bn, bp)" by (simp add: findBest_loop.simps)
  with Nil.prems(2) show ?case by (simp add: best_so_far_result)
next
  case (Cons z ys)
  from Cons.prems(1) have z: "a = fst z" "fst z \<noteq> 0" "read64 h a = snd z" "chain h (node_next h a) ys" by auto
  have bound: "\<forall>y \<in> set ys. snd y < size_max" "snd z < size_max" using Cons.prems(3) by auto
  show ?case
  proof (cases "req \<le> snd z \<and> snd z - req < mf")
    case True
    then have b: "best_so_far (xs @ [z]) req (fst z) (prev_of xs) (snd z - req)"
      using Cons.prems(2) by (intro best_so_far_take) auto
    show ?thesis
    proof (cases "snd z = req")
      case True
      then have "findBest_loop h req a (prev_of xs) bn bp mf = Some (a, prev_of xs)"
        using z \<open>req \<le> snd z \<and> snd z - req < mf\<close> by (subst findBest_loop.simps) simp
      moreover have "best_result (xs @ z # ys) req (fst z) (prev_of xs)"
        unfolding best_result_def using True
        by (intro disjI2 exI [of _ xs] exI [of _ z] exI [of _ ys]) simp
      ultimately show ?thesis using z by auto
    next
      case False
      then have "findBest_loop h req a (prev_of xs) bn bp mf =
          findBest_loop h req (node_next h a) (prev_of (xs @ [z])) (fst z) (prev_of xs) (snd z - req)"
        using z True by (subst findBest_loop.simps) simp
      with Cons.IH [OF z(4) b bound(1)] show ?thesis by simp
    qed
  next
    case False
    then have eq: "findBest_loop h req a (prev_of xs) bn bp mf =
        findBest_loop h req (node_next h a) (prev_of (xs @ [z])) bn bp mf"
      using z by (subst findBest_loop.simps) auto
    have "best_so_far (xs @ [z]) req bn bp mf"
      using Cons.prems(2) False bound(2) by (rule best_so_far_skip)
    with Cons.IH [OF z(4) this bound(1)] eq show ?thesis by simp
  qed
qed

lemma findBest_spec:
  assumes "chain h a F" "\<forall>y \<in> set F. snd y < size_max"
  shows "\<exists>bn bp. findBest h req a 0 = Some (bn, bp) \<and> best_result F req bn bp"
proof -
  have "best_so_far [] req 0 0 size_max" by (simp add: best_so_far_def)
  from findBest_loop_spec [OF assms(1) this assms(2)] show ?thesis by (simp add: findBest_def prev_of_def)
qed

interpretation best_fit: node_finder "\<lambda>h req a. findBest h req a 0"
proof
  fix h a F req
  assume c: "chain h a F" and b: "\<And>z. z \<in> set F \<Longrightarrow> snd z < size_max" and n: "\<And>x. x \<in> set F \<Longrightarrow> snd x < req"
  from findBest_spec [OF c] b obtain bn bp where
    r: "findBest h req a 0 = Some (bn, bp)" "best_result F req bn bp" by blast
  from r(2) n have "bn = 0 \<and> bp = 0" unfolding best_result_def by fastforce
  with r(1) show "findBest h req a 0 = Some (0, 0)" by simp
next
  fix h a F x req
  assume c: "chain h a F" and b: "\<And>z. z \<in> set F \<Longrightarrow> snd z < size_max" and x: "x \<in> set F" "req \<le> snd x"
  from findBest_spec [OF c] b obtain bn bp where
    r: "findBest h req a 0 = Some (bn, bp)" "best_result F req bn bp" by blast
  from x have "\<not> (\<forall>x \<in> set F. snd x < req)" using not_le by blast
  with r(2) obtain us y vs where "F = us @ y # vs" "req \<le> snd y" "bn = fst y" "bp = prev_of us"
    unfolding best_result_def by blast
  with r(1) show "\<exists>xs y ys. F = xs @ y # ys \<and> req \<le> snd y \<and> findBest h req a 0 = Some (fst y, prev_of xs)"
    by (intro exI [of _ us] exI [of _ y] exI [of _ vs]) simp
qed

text \<open>Whatever policy was selected at construction, the function pointer satisfies the contract.\<close>

lemma findNode_finder: "node_finder (findNode policy)"
proof (cases policy)
  case FIND_FIRST
  then have "findNode policy = (\<lambda>h req a. findFirst h req a 0)" by (simp add: findNode_def fun_eq_iff)
  then show ?thesis using first_fit.node_finder_axioms by simp
next
  case FIND_BEST
  then have "findNode policy = (\<lambda>h req a. findBest h req a 0)" by (simp add: findNode_def fun_eq_iff)
  then show ?thesis using best_fit.node_finder_axioms by simp
qed

interpretation node: node_finder "findNode policy" for policy
  by (rule findNode_finder)

end
