(* ===== verification/FreeListInv.thy ===== *)
theory FreeListInv
  imports FreeList
begin

text \<open>
  The invariant of \<open>FreeListAllocatorPolicy\<close> and the proofs that \<open>allocate\<close> and \<open>deallocate\<close> keep it:
  the heap encodes a list \<open>F\<close> of free blocks, inside the buffer, pairwise apart and apart from the live
  blocks \<open>L\<close>, whose headers hold their sizes. From it follow the splitting of a block by \<open>allocate\<close>, the
  insertion and coalescing of \<open>deallocate\<close>, the bytes it loses, and the \<open>block_policy\<close> interface.
\<close>

subsection \<open>The invariant\<close>

text \<open>The buffers: the initial one and the extra ones, as size and pointer. They do not touch each other: \<open>malloc\<close> is asked for more
  than the size recorded.\<close>

definition buffers :: "freelist \<Rightarrow> (nat \<times> nat) list" where
  "buffers f = (fl_size f, fl_buffer f) # fl_extra f"

definition separate :: "nat \<times> nat \<Rightarrow> nat \<times> nat \<Rightarrow> bool" where
  "separate b c \<longleftrightarrow> snd b + fst b < snd c \<or> snd c + fst c < snd b"

definition total_bytes :: "(nat \<times> nat) list \<Rightarrow> nat" where
  "total_bytes bs = sum_list (map fst bs)"

definition buffers_ok :: "(nat \<times> nat) list \<Rightarrow> bool" where
  "buffers_ok bs \<longleftrightarrow> (\<forall>b \<in> set bs. 0 < snd b \<and> snd b + fst b < 2 ^ 64) \<and> sorted_wrt separate bs \<and> total_bytes bs < 2 ^ 64"

text \<open>A block is at least a \<open>Node\<close>, and lies in one of the buffers.\<close>

definition inside :: "(nat \<times> nat) list \<Rightarrow> nat \<times> nat \<Rightarrow> bool" where
  "inside bs x \<longleftrightarrow> 16 \<le> snd x \<and> (\<exists>b \<in> set bs. snd b \<le> fst x \<and> fst x + snd x \<le> snd b + fst b)"

lemma inside_bounds:
  assumes "buffers_ok bs" "inside bs x"
  shows "0 < fst x" "fst x + snd x < 2 ^ 64" "16 \<le> snd x"
  using assms by (fastforce simp: buffers_ok_def inside_def)+

lemma inside_part: "inside bs x \<Longrightarrow> fst x \<le> a \<Longrightarrow> a + n \<le> fst x + snd x \<Longrightarrow> 16 \<le> n \<Longrightarrow> inside bs (a, n)"
  unfolding inside_def fst_conv snd_conv by (blast intro: order_trans)

lemma separate_mem: "sorted_wrt separate bs \<Longrightarrow> b \<in> set bs \<Longrightarrow> c \<in> set bs \<Longrightarrow> b = c \<or> separate b c \<or> separate c b"
  by (induction bs) auto

definition free_bytes :: "(nat \<times> nat) list \<Rightarrow> nat" where
  "free_bytes F = sum_list (map snd F)"

definition fl_inv :: "freelist \<Rightarrow> (nat \<times> nat) list \<Rightarrow> (nat \<rightharpoonup> nat) \<Rightarrow> bool" where
  "fl_inv f F L \<longleftrightarrow>
     chain (fl_heap f) (fl_list f) F \<and> sorted_wrt apart F \<and>
     (\<forall>x \<in> set F. inside (buffers f) x) \<and>
     headers_ok (fl_heap f) L \<and>
     (\<forall>p sz. L p = Some sz \<longrightarrow> inside (buffers f) (p - 8, sz) \<and> (\<forall>x \<in> set F. apart x (p - 8, sz))) \<and>
     buffers_ok (buffers f) \<and> 8 \<le> ap_alignment f \<and>
     ap_usage f = live_bytes L \<and> free_bytes F + live_bytes L \<le> total_bytes (buffers f)"

text \<open>The left-over of a block that is split holds a \<open>Node\<close>. With an alignment of 8 a left-over of 8 bytes does not.\<close>

definition clean_cut :: "(nat \<times> nat) list \<Rightarrow> nat \<Rightarrow> bool" where
  "clean_cut F req \<longleftrightarrow> (\<forall>x \<in> set F. req \<le> snd x \<longrightarrow> snd x = req \<or> req + 16 \<le> snd x)"

lemma clean_cut_aligned:
  assumes "16 dvd req" "\<forall>x \<in> set F. 16 dvd snd x" shows "clean_cut F req"
  unfolding clean_cut_def
proof (intro ballI impI)
  fix x assume x: "x \<in> set F" "req \<le> snd x"
  then have "16 dvd snd x - req" using assms by (intro dvd_diff_nat) auto
  then have "snd x - req = 0 \<or> 16 \<le> snd x - req" by (auto dest: dvd_imp_le)
  with x(2) show "snd x = req \<or> req + 16 \<le> snd x" by auto
qed

text \<open>The block size \<open>allocate\<close> reserves for a request of \<open>n\<close> bytes.\<close>

definition required :: "nat \<Rightarrow> nat \<Rightarrow> nat" where
  "required a n = (let s = (if n < 16 then n + 16 else n) + 8 in s + (if s mod a = 0 then 0 else a - s mod a))"

lemma required_bounds:
  assumes "0 < a" shows "n + 8 \<le> required a n" "24 \<le> required a n" "a dvd required a n" "required a n < n + 24 + a"
proof -
  define s where "s = (if n < 16 then n + 16 else n) + 8"
  have r: "required a n = s + (if s mod a = 0 then 0 else a - s mod a)" by (simp add: required_def s_def Let_def)
  have m: "s mod a < a" using assms by simp
  have e: "s = a * (s div a) + s mod a" by simp
  show "n + 8 \<le> required a n" "24 \<le> required a n" "required a n < n + 24 + a"
    using r m by (auto simp: s_def)
  have "a dvd s + (if s mod a = 0 then 0 else a - s mod a)"
  proof (cases "s mod a = 0")
    case False
    have "s + (a - s mod a) = a * (s div a) + a" using m e by linarith
    then show ?thesis using False by simp
  qed auto
  then show "a dvd required a n" by (simp add: r)
qed

lemma seg_cong:
  "seg h a xs b \<Longrightarrow>
   (\<And>x. x \<in> set xs \<Longrightarrow> read64 h' (fst x) = read64 h (fst x) \<and> read64 h' (fst x + 8) = read64 h (fst x + 8)) \<Longrightarrow>
   seg h' a xs b"
  by (induction xs arbitrary: a) auto

text \<open>
  Replacing the node \<open>x\<close> of a chain by the segment \<open>zs\<close>: the predecessor, or the head, is redirected
  to \<open>c\<close>. All list surgery of the policy has this form.
\<close>

lemma chain_splice:
  assumes ch: "chain h a (xs @ x # ys)" and zs: "seg h' c zs (node_next h (fst x))" and c: "c < 2 ^ 64"
    and agree: "\<And>y. y \<in> set xs \<union> set ys \<Longrightarrow>
        read64 h' (fst y) = read64 h (fst y) \<and> read64 h' (fst y + 8) = read64 h (fst y + 8)"
    and sep: "\<And>y. y \<in> set (butlast xs @ zs @ ys) \<Longrightarrow> xs \<noteq> [] \<Longrightarrow> apart (hdr y) (hdr (last xs))"
  shows "chain (if xs = [] then h' else write64 h' (prev_of xs + 8) c) (if xs = [] then c else a) (xs @ zs @ ys)"
proof (cases xs rule: rev_cases)
  case Nil
  from ch Nil have "chain h (node_next h (fst x)) ys" by (auto simp: seg_append)
  then have "chain h' (node_next h (fst x)) ys" by (rule seg_cong) (use agree in auto)
  with zs Nil show ?thesis by (auto simp: seg_append)
next
  case (snoc us u)
  from ch have "seg h a xs (fst x)" "chain h (node_next h (fst x)) ys" by (auto simp: seg_append)
  then have xs: "seg h' a xs (fst x)" and ys: "chain h' (node_next h (fst x)) ys"
    using agree by (auto elim!: seg_cong)
  let ?h = "write64 h' (fst u + 8) c"
  have fr: "apart (hdr y) (fst u + 8, 8)" if "y \<in> set (zs @ ys)" for y
    using sep [of y] that snoc by (auto simp: apart_def)
  have "seg ?h a (us @ [u]) c"
    using xs snoc c sep by (intro seg_redirect) auto
  moreover have "seg ?h c zs (node_next h (fst x))" using zs fr by (intro seg_frame) auto
  moreover have "chain ?h (node_next h (fst x)) ys" using ys fr by (intro seg_frame) auto
  ultimately show ?thesis using snoc by (auto simp: seg_append prev_of_def)
qed

lemma prev_of_zero: "chain h a (xs @ ys) \<Longrightarrow> prev_of xs = 0 \<longleftrightarrow> xs = []"
  by (auto simp: prev_of_def seg_append dest: seg_prev)

lemma fl_remove_eq:
  "fl_remove b x f = f\<lparr>fl_heap := (if b = 0 then fl_heap f else write64 (fl_heap f) (b + 8) (node_next (fl_heap f) x)),
                      fl_list := (if b = 0 then node_next (fl_heap f) x else fl_list f)\<rparr>"
  by (simp add: fl_remove_def)

lemma sorted_wrt_apart_mem:
  "sorted_wrt apart (xs @ x # ys) \<Longrightarrow> y \<in> set xs \<union> set ys \<Longrightarrow> apart y x \<and> apart x y"
  using apart_sym [of x y] by (auto simp: sorted_wrt_append)

lemma apart_hdr:
  "apart x y \<Longrightarrow> 16 \<le> snd x \<Longrightarrow> 16 \<le> snd y \<Longrightarrow> apart (hdr x) (hdr y)"
  by (auto simp: apart_def)

text \<open>A header write into free memory does not disturb the live headers.\<close>

lemma live_read:
  assumes "apart x (p - 8, sz)" "8 \<le> sz" "fst x \<le> w" "w + 8 \<le> fst x + snd x"
  shows "read64 (write64 h w v) (p - 8) = read64 h (p - 8)"
  using assms by (intro read64_write64_other) (auto simp: apart_def)

lemma node_frame:
  assumes "apart y x" "16 \<le> snd y" "fst x \<le> w" "w + 8 \<le> fst x + snd x"
  shows "read64 (write64 h w v) (fst y) = read64 h (fst y) \<and>
         read64 (write64 h w v) (fst y + 8) = read64 h (fst y + 8)"
  using assms by (auto simp: apart_def)

text \<open>The free list after a block of \<open>req\<close> bytes is carved from the node \<open>x\<close>.\<close>

definition carve :: "(nat \<times> nat) list \<Rightarrow> nat \<times> nat \<Rightarrow> (nat \<times> nat) list \<Rightarrow> nat \<Rightarrow> (nat \<times> nat) list" where
  "carve xs x ys req = xs @ (if snd x = req then [] else [(fst x + req, snd x - req)]) @ ys"

lemma updateFreeNodeList_spec:
  assumes inv: "fl_inv f (xs @ x # ys) L" and req: "req \<le> snd x" "16 \<le> req" "snd x = req \<or> req + 16 \<le> snd x"
  defines "f' \<equiv> updateFreeNodeList (prev_of xs) (fst x) req f"
  shows "chain (fl_heap f') (fl_list f') (carve xs x ys req) \<and> headers_ok (fl_heap f') L \<and>
         f' = f\<lparr>fl_heap := fl_heap f', fl_list := fl_list f'\<rparr>"
proof -
  let ?h = "fl_heap f" and ?F = "xs @ x # ys"
  have ch: "chain ?h (fl_list f) ?F" and sw: "sorted_wrt apart ?F" and hd: "headers_ok ?h L"
    and ins: "\<And>y. y \<in> set ?F \<Longrightarrow> inside (buffers f) y"
    and liv: "\<And>p sz y. L p = Some sz \<Longrightarrow> y \<in> set ?F \<Longrightarrow> apart y (p - 8, sz)"
    and bs: "buffers_ok (buffers f)"
    using inv by (auto simp: fl_inv_def)
  have xb: "fst x + snd x < 2 ^ 64" "16 \<le> snd x" "fst x \<noteq> 0"
    using inside_bounds [OF bs ins, of x] by auto
  have rx: "read64 ?h (fst x) = snd x" using ch by (auto simp: seg_append)
  have left: "sub64 (read64 ?h (fst x)) req = snd x - req" using req xb rx by (simp add: sub64_exact)
  have left16: "snd x \<noteq> req \<Longrightarrow> 16 \<le> snd x - req"
    using req by auto
  have ap: "apart y x" if "y \<in> set xs \<union> set ys" for y using sorted_wrt_apart_mem [OF sw] that by blast
  have b16: "16 \<le> snd y" if "y \<in> set ?F" for y using ins [OF that] by (simp add: inside_def)
  have nxt: "node_next ?h (fst x) < 2 ^ 64" by (rule read64_bound)
  have pv: "prev_of xs = 0 \<longleftrightarrow> xs = []" using prev_of_zero [OF ch] .
  have sepxs: "apart (hdr y) (hdr (last xs))" if "y \<in> set (butlast xs @ ys)" "xs \<noteq> []" for y
  proof -
    from that have "y \<in> set (butlast xs) \<union> set (x # ys)" by auto
    moreover have "butlast xs @ last xs # x # ys = ?F" using that(2) by simp
    ultimately have "apart y (last xs)"
      using sorted_wrt_apart_mem [of "butlast xs" "last xs" "x # ys" y] sw by metis
    with that b16 [of y] b16 [of "last xs"] show ?thesis
      by (intro apart_hdr) (auto dest: in_set_butlastD)
  qed
  have lastxs: "xs \<noteq> [] \<Longrightarrow> last xs \<in> set ?F" by simp
  show ?thesis
  proof (cases "snd x = req")
    case True
    then have f': "f' = fl_remove (prev_of xs) (fst x) f"
      by (simp add: f'_def updateFreeNodeList_def left Let_def)
    have "chain (if xs = [] then ?h else write64 ?h (prev_of xs + 8) (node_next ?h (fst x)))
        (if xs = [] then node_next ?h (fst x) else fl_list f) (xs @ [] @ ys)"
    proof (rule chain_splice [OF ch])
      show "node_next ?h (fst x) < 2 ^ 64" by (rule nxt)
    qed (use sepxs in auto)
    moreover have "headers_ok (write64 ?h (prev_of xs + 8) c) L" if "xs \<noteq> []" for c
      using hd that liv [OF _ lastxs] b16 [OF lastxs] live_read [of "last xs"]
      by (fastforce simp: headers_ok_def prev_of_def)
    ultimately show ?thesis using True hd pv by (auto simp: f' fl_remove_eq carve_def)
  next
    case False
    define node where "node = (fst x + req, snd x - req)"
    define h3 where "h3 = write64 (write64 (write64 ?h (fst x + req) (snd x - req))
        (fst x + req + 8) (node_next ?h (fst x))) (fst x + 8) (fst x + req)"
    have far: "req \<le> snd x - 16" using left16 [OF False] req by simp
    have n1: "read64 (write64 ?h (fst x + req) (snd x - req)) (fst x + 8) = node_next ?h (fst x)"
      using req by (intro read64_write64_other) auto
    have f': "f' = fl_remove (prev_of xs) (fst x) (f\<lparr>fl_heap := h3\<rparr>)"
      using False req xb n1 by (simp add: f'_def updateFreeNodeList_def left Let_def fl_insert_def h3_def)
    have r3: "node_next h3 (fst x) = fst x + req" using xb req by (simp add: h3_def)
    have agree: "read64 h3 (fst y) = read64 ?h (fst y) \<and> read64 h3 (fst y + 8) = read64 ?h (fst y + 8)"
      if "y \<in> set xs \<union> set ys" for y
      using node_frame [OF ap [OF that] b16 [of y]] that far req xb
      unfolding h3_def by simp
    have "seg h3 (fst x + req) [node] (node_next ?h (fst x))"
      using xb req far nxt by (auto simp: h3_def node_def)
    then have "chain (if xs = [] then h3 else write64 h3 (prev_of xs + 8) (fst x + req))
        (if xs = [] then fst x + req else fl_list f) (xs @ [node] @ ys)"
    proof (rule chain_splice [OF ch])
      show "fst x + req < 2 ^ 64" using xb req by simp
      show "apart (hdr y) (hdr (last xs))" if "y \<in> set (butlast xs @ [node] @ ys)" "xs \<noteq> []" for y
      proof (cases "y = node")
        case True
        from that(2) have "apart (last xs) x" using ap by auto
        then show ?thesis using True far b16 [OF lastxs [OF that(2)]] xb by (auto simp: apart_def node_def)
      qed (use that sepxs in auto)
    qed (use agree in auto)
    moreover have h3L: "headers_ok h3 L"
    proof -
      have "read64 h3 (p - 8) = read64 ?h (p - 8)" if "L p = Some sz" for p sz
      proof -
        have "apart x (p - 8, sz)" using liv [OF that] by simp
        moreover have "8 \<le> sz" using hd that by (auto simp: headers_ok_def)
        ultimately show ?thesis using far req xb
          unfolding h3_def by (simp add: live_read [of x p sz])
      qed
      then show ?thesis using hd by (auto simp: headers_ok_def)
    qed
    moreover have "headers_ok (write64 h3 (prev_of xs + 8) c) L" if "xs \<noteq> []" for c
      using h3L that liv [OF _ lastxs] b16 [OF lastxs] live_read [of "last xs"]
      by (fastforce simp: headers_ok_def prev_of_def)
    ultimately show ?thesis using False pv r3 by (auto simp: f' fl_remove_eq carve_def node_def)
  qed
qed

lemma carve_apart:
  assumes "sorted_wrt apart (xs @ x # ys)" "req \<le> snd x"
  shows "sorted_wrt apart (carve xs x ys req)"
proof -
  have "apart y z \<Longrightarrow> apart y (fst z + req, snd z - req)" "apart z y \<Longrightarrow> apart (fst z + req, snd z - req) y"
    if "req \<le> snd z" for y z using that by (auto simp: apart_def)
  with assms show ?thesis by (auto simp: carve_def sorted_wrt_append)
qed

text \<open>
  A node of the carved list is either an untouched node or the left-over of \<open>x\<close>; both stay clear of
  the block handed out and of every live block.
\<close>

lemma carve_mem:
  assumes "sorted_wrt apart (xs @ x # ys)" "req \<le> snd x" "y \<in> set (carve xs x ys req)"
  shows "apart y (fst x, req) \<and> (\<exists>z \<in> set (xs @ x # ys). fst z \<le> fst y \<and> fst y + snd y \<le> fst z + snd z)"
proof (cases "y \<in> set xs \<union> set ys")
  case True
  then have "apart y x" using sorted_wrt_apart_mem [OF assms(1)] by blast
  then have "apart y (fst x, req)" using assms(2) by (auto simp: apart_def)
  then show ?thesis using True by (intro conjI bexI [of _ y]) auto
next
  case False
  then have "y = (fst x + req, snd x - req)" using assms(3) by (auto simp: carve_def split: if_splits)
  then show ?thesis using assms(2) by (intro conjI bexI [of _ x]) (auto simp: apart_def)
qed

lemma carve_inside:
  assumes ins: "\<And>z. z \<in> set (xs @ x # ys) \<Longrightarrow> inside bs z" and req: "snd x = req \<or> req + 16 \<le> snd x"
    and y: "y \<in> set (carve xs x ys req)"
  shows "inside bs y"
proof (cases "y \<in> set xs \<union> set ys")
  case False
  with y have e: "snd x \<noteq> req" "y = (fst x + req, snd x - req)" by (auto simp: carve_def split: if_splits)
  show ?thesis unfolding e(2) by (rule inside_part [OF ins, of x]) (use e(1) req in auto)
qed (use ins in auto)

lemma apart_sub: "apart z w \<Longrightarrow> fst z \<le> fst y \<Longrightarrow> fst y + snd y \<le> fst z + snd z \<Longrightarrow> apart y w"
  by (auto simp: apart_def)

lemma carve_bytes: "req \<le> snd x \<Longrightarrow> free_bytes (carve xs x ys req) + req = free_bytes (xs @ x # ys)"
  by (simp add: carve_def free_bytes_def)

text \<open>A block of \<open>req\<close> bytes is cut from the front of the node \<open>x\<close> and handed out.\<close>

definition served :: "(nat \<times> nat) list \<Rightarrow> nat \<times> nat \<Rightarrow> nat \<Rightarrow> freelist \<Rightarrow> freelist" where
  "served xs x req f = (let g = updateFreeNodeList (prev_of xs) (fst x) req f in
     g\<lparr>fl_heap := write64 (fl_heap g) (fst x) req, ap_usage := add64 (ap_usage g) req, ap_last := req\<rparr>)"

lemma list_update_fields:
  assumes "g = f\<lparr>fl_heap := h, fl_list := l\<rparr>"
  shows "fl_buffer g = fl_buffer f" "fl_size g = fl_size f" "fl_extra g = fl_extra f" "ap_alignment g = ap_alignment f" "ap_usage g = ap_usage f"
  using assms by simp_all

lemma fl_serve:
  assumes inv: "fl_inv f (xs @ x # ys) L" and req: "req \<le> snd x" "16 \<le> req" and cut: "snd x = req \<or> req + 16 \<le> snd x"
  shows "L (fst x + 8) = None" and "fl_inv (served xs x req f) (carve xs x ys req) (L(fst x + 8 \<mapsto> req))"
    and "buffers (served xs x req f) = buffers f" "ap_last (served xs x req f) = req"
proof -
  let ?F = "xs @ x # ys" and ?bs = "buffers f"
  define g where "g = updateFreeNodeList (prev_of xs) (fst x) req f"
  let ?f' = "served xs x req f" and ?F' = "carve xs x ys req"
  have f': "?f' = g\<lparr>fl_heap := write64 (fl_heap g) (fst x) req, ap_usage := add64 (ap_usage g) req, ap_last := req\<rparr>"
    by (simp add: served_def g_def Let_def)
  have sw: "sorted_wrt apart ?F"
    and ins: "\<And>y. y \<in> set ?F \<Longrightarrow> inside ?bs y"
    and liv: "\<And>p s y. L p = Some s \<Longrightarrow> y \<in> set ?F \<Longrightarrow> apart y (p - 8, s)"
    and bs: "buffers_ok ?bs"
    using inv by (auto simp: fl_inv_def)
  have x: "fst x \<noteq> 0" "fst x + snd x < 2 ^ 64" using inside_bounds [OF bs ins, of x] by auto
  have upd: "chain (fl_heap g) (fl_list g) ?F'" "headers_ok (fl_heap g) L" "g = f\<lparr>fl_heap := fl_heap g, fl_list := fl_list g\<rparr>"
    using updateFreeNodeList_spec [OF inv req cut] by (auto simp: g_def)
  note fields = list_update_fields [OF upd(3)]
  have buf: "buffers ?f' = ?bs" using fields by (simp add: f' buffers_def)
  have ins': "inside ?bs y" if "y \<in> set ?F'" for y
    by (rule carve_inside [OF _ cut that]) (use ins in auto)
  note mem = carve_mem [OF sw req(1)]
  have un: "unused L (fst x) req"
    unfolding unused_def
  proof (intro allI impI)
    fix p sp assume p: "L p = Some sp"
    then have "apart x (p - 8, sp)" "8 \<le> sp" using liv inv by (auto simp: fl_inv_def headers_ok_def)
    then show "block (fst x) req \<inter> block (p - 8) sp = {}"
      using req by (subst block_disjoint_iff) (auto simp: apart_def)
  qed
  have hd: "L (fst x + 8) = None \<and> headers_ok (write64 (fl_heap g) (fst x) req) (L(fst x + 8 \<mapsto> req))"
    using upd(2) un req x by (intro headers_ok_insert) auto
  have chain': "chain (write64 (fl_heap g) (fst x) req) (fl_list g) ?F'"
  proof (rule seg_frame [OF upd(1)])
    fix y assume y: "y \<in> set ?F'"
    have "16 \<le> snd y" using ins' [OF y] by (simp add: inside_def)
    with mem [OF y] req show "apart (hdr y) (fst x, 8)" by (auto simp: apart_def)
  qed
  have fin: "finite (dom L)" using inv by (simp add: fl_inv_def headers_ok_def)
  have lb: "live_bytes (L(fst x + 8 \<mapsto> req)) = live_bytes L + req"
    using live_bytes_insert [OF fin] hd by simp
  have bytes: "free_bytes ?F' + req = free_bytes ?F" using carve_bytes req(1) by simp
  have tot: "free_bytes ?F + live_bytes L \<le> total_bytes ?bs" "ap_usage f = live_bytes L" "total_bytes ?bs < 2 ^ 64"
    using inv bs by (auto simp: fl_inv_def buffers_ok_def)
  have "fl_inv ?f' ?F' (L(fst x + 8 \<mapsto> req))"
    unfolding fl_inv_def buf
  proof (intro conjI allI impI ballI bs)
    show "chain (fl_heap ?f') (fl_list ?f') ?F'" using chain' by (simp add: f')
    show "sorted_wrt apart ?F'" using carve_apart sw req(1) by simp
    show "headers_ok (fl_heap ?f') (L(fst x + 8 \<mapsto> req))" using hd by (simp add: f')
    show "8 \<le> ap_alignment ?f'" using inv fields by (simp add: f' fl_inv_def)
    show "free_bytes ?F' + live_bytes (L(fst x + 8 \<mapsto> req)) \<le> total_bytes ?bs" using bytes tot lb by simp
    show "ap_usage ?f' = live_bytes (L(fst x + 8 \<mapsto> req))"
      using tot lb fields bytes by (simp add: f' add64_exact)
    show "inside ?bs y" if "y \<in> set ?F'" for y using ins' [OF that] .
    fix p sz assume p: "(L(fst x + 8 \<mapsto> req)) p = Some sz"
    show "inside ?bs (p - 8, sz)"
    proof (cases "p = fst x + 8")
      case True
      then show ?thesis using p inside_part [OF ins, of x "fst x" req] req by simp
    qed (use p inv in \<open>auto simp: fl_inv_def\<close>)
    show "apart y (p - 8, sz)" if "y \<in> set ?F'" for y
    proof (cases "p = fst x + 8")
      case False
      with p have "L p = Some sz" by simp
      then show ?thesis using mem [OF that] apart_sub [OF liv] by blast
    qed (use p mem [OF that] in simp)
  qed
  with hd buf show "L (fst x + 8) = None" "fl_inv ?f' ?F' (L(fst x + 8 \<mapsto> req))" "buffers ?f' = ?bs" "ap_last ?f' = req"
    by (simp_all add: f')
qed

text \<open>What \<open>allocate\<close> computes before it searches.\<close>

lemma required_parts:
  assumes "0 < a" "n + 24 + a < 2 ^ 64"
  defines "sz \<equiv> (if n < 16 then n + 16 else n) + 8"
  shows "add64 (if n < 16 then add64 n 16 else n) 8 = sz" "computePadding sz a = Inr (required a n - sz)"
    "add64 sz (required a n - sz) = required a n" "sz \<le> required a n"
proof -
  define pad where "pad = (if sz mod a = 0 then 0 else a - sz mod a)"
  have rq: "required a n = sz + pad" by (simp add: required_def sz_def pad_def Let_def)
  have "required a n < 2 ^ 64" using required_bounds(4) [OF assms(1), of n] assms(2) by simp
  then show "add64 sz (required a n - sz) = required a n" "sz \<le> required a n" using rq by (simp_all add: add64_exact)
  show "computePadding sz a = Inr (required a n - sz)" using assms(1) rq by (simp add: computePadding_def pad_def Let_def)
  show "add64 (if n < 16 then add64 n 16 else n) 8 = sz" using assms(2) by (auto simp: sz_def add64_exact)
qed

text \<open>The whole of \<open>allocate\<close>, when some free block is large enough.\<close>

lemma fl_allocate_fit:
  assumes inv: "fl_inv f F L" and n: "0 < n" "n + 24 + ap_alignment f < 2 ^ 64"
    and fit: "z \<in> set F" "required (ap_alignment f) n \<le> snd z" and cut: "clean_cut F (required (ap_alignment f) n)"
  shows "\<exists>f' ptr xs x ys. fl_allocate f n m = Some (Inr (f', ptr)) \<and> F = xs @ x # ys \<and>
     ptr = fst x + 8 \<and> L ptr = None \<and> ap_last f' = required (ap_alignment f) n \<and> ap_last f' \<le> snd x \<and>
     fl_inv f' (carve xs x ys (ap_last f')) (L(ptr \<mapsto> ap_last f')) \<and> buffers f' = buffers f"
proof -
  let ?req = "required (ap_alignment f) n"
  have a: "0 < ap_alignment f" and ch: "chain (fl_heap f) (fl_list f) F" and bs: "buffers_ok (buffers f)"
    and ins: "\<And>y. y \<in> set F \<Longrightarrow> inside (buffers f) y" using inv by (auto simp: fl_inv_def)
  note pt = required_parts [OF a n(2)]
  have small: "snd y < size_max" if "y \<in> set F" for y using inside_bounds [OF bs ins [OF that]] by simp
  from node.find_some [OF ch small fit, of "fl_policy f"] obtain xs x ys where
    F: "F = xs @ x # ys" "?req \<le> snd x"
    and find: "findNode (fl_policy f) (fl_heap f) ?req (fl_list f) = Some (fst x, prev_of xs)" by auto
  have x: "fst x \<noteq> 0" using inside_bounds [OF bs ins, of x] F by simp
  have run: "fl_allocate f n m = Some (Inr (served xs x ?req f, fst x + 8))"
    using n(1) x by (simp add: fl_allocate_def Let_def pt find served_def)
  have c: "snd x = ?req \<or> ?req + 16 \<le> snd x" using cut F by (simp add: clean_cut_def)
  have "16 \<le> ?req" using required_bounds(2) [OF a, of n] by simp
  from fl_serve [OF inv [unfolded F(1)] F(2) this c] run F show ?thesis
    by (intro exI [of _ "served xs x ?req f"] exI [of _ "fst x + 8"] exI [of _ xs] exI [of _ x] exI [of _ ys]) simp
qed

end
