(* ===== verification/FreeListRelease.thy ===== *)
theory FreeListRelease
  imports FreeListInv
begin

text \<open>
  \<open>FreeListAllocatorPolicy::deallocate\<close>: the block given back is inserted at its place in the list and
  merged with its neighbours (\<open>release\<close>), the invariant is kept, and the bytes it loses when no free
  node has a higher address are stated (\<open>lost\<close>). With it the free list implements \<open>block_policy\<close>.
\<close>

subsection \<open>What \<open>deallocate\<close> makes of the list of free blocks\<close>

definition adjacent :: "nat \<times> nat \<Rightarrow> nat \<times> nat \<Rightarrow> bool" where
  "adjacent x y \<longleftrightarrow> fst x + snd x = fst y"

definition join :: "nat \<times> nat \<Rightarrow> nat \<times> nat \<Rightarrow> nat \<times> nat" where
  "join x y = (fst x, snd x + snd y)"

fun join_next :: "nat \<times> nat \<Rightarrow> (nat \<times> nat) list \<Rightarrow> (nat \<times> nat) list" where
  "join_next y [] = [y]"
| "join_next y (b # B) = (if adjacent y b then join y b # B else y # b # B)"

definition join_prev :: "(nat \<times> nat) list \<Rightarrow> (nat \<times> nat) list \<Rightarrow> (nat \<times> nat) list" where
  "join_prev A C = (if A \<noteq> [] \<and> C \<noteq> [] \<and> adjacent (last A) (hd C)
                    then butlast A @ join (last A) (hd C) # tl C else A @ C)"

definition below :: "nat \<times> nat \<Rightarrow> nat \<times> nat \<Rightarrow> bool" where
  "below y x \<longleftrightarrow> fst x \<le> fst y"

text \<open>
  The block \<open>y\<close> given back to the list \<open>F\<close>: inserted before the first node of a higher address and
  merged with its neighbours. With no such node it is not inserted, and only survives when the last
  node of the list happens to be its neighbour.
\<close>

definition lost :: "(nat \<times> nat) list \<Rightarrow> nat \<times> nat \<Rightarrow> bool" where
  "lost F y \<longleftrightarrow> dropWhile (below y) F = [] \<and> \<not> (F \<noteq> [] \<and> adjacent (last F) y)"

definition release :: "(nat \<times> nat) list \<Rightarrow> nat \<times> nat \<Rightarrow> (nat \<times> nat) list" where
  "release F y = (if lost F y then F
                  else join_prev (takeWhile (below y) F) (join_next y (dropWhile (below y) F)))"

lemma release_at:
  "F = A @ B \<Longrightarrow> (\<And>x. x \<in> set A \<Longrightarrow> below y x) \<Longrightarrow> (B \<noteq> [] \<Longrightarrow> \<not> below y (hd B)) \<Longrightarrow>
   takeWhile (below y) F = A \<and> dropWhile (below y) F = B"
  by (cases B) (auto simp: takeWhile_append dropWhile_append)

subsection \<open>Blocks that stay apart\<close>

definition blocks_ok :: "(nat \<times> nat) list \<Rightarrow> (nat \<times> nat) list \<Rightarrow> (nat \<rightharpoonup> nat) \<Rightarrow> bool" where
  "blocks_ok bs F L \<longleftrightarrow> sorted_wrt apart F \<and> (\<forall>x \<in> set F. inside bs x) \<and>
     (\<forall>p sz. L p = Some sz \<longrightarrow> inside bs (p - 8, sz) \<and> (\<forall>x \<in> set F. apart x (p - 8, sz)))"

lemma apart_symI: "apart x y \<Longrightarrow> apart y x"
  by (auto simp: apart_def)

lemma apart_join:
  "apart z x \<Longrightarrow> apart z y \<Longrightarrow> adjacent x y \<Longrightarrow> 0 < snd z \<Longrightarrow> 0 < snd x \<Longrightarrow> 0 < snd y \<Longrightarrow>
   apart z (join x y) \<and> apart (join x y) z"
  by (auto simp: apart_def join_def adjacent_def)

lemma inside_join:
  assumes bs: "buffers_ok bs" and "inside bs x" "inside bs y" and adj: "adjacent x y"
  shows "inside bs (join x y)"
proof -
  from assms obtain b c where b: "b \<in> set bs" "snd b \<le> fst x" "fst x + snd x \<le> snd b + fst b" "16 \<le> snd x"
    and c: "c \<in> set bs" "snd c \<le> fst y" "fst y + snd y \<le> snd c + fst c" "16 \<le> snd y"
    by (auto simp: inside_def)
  have "\<not> separate b c" "\<not> separate c b" using b c adj by (auto simp: separate_def adjacent_def)
  then have "b = c" using separate_mem [of bs b c] bs b(1) c(1) by (auto simp: buffers_ok_def)
  with b c adj show ?thesis by (auto simp: inside_def join_def adjacent_def)
qed

lemma blocks_ok_join:
  assumes ok: "blocks_ok bs (A @ x # y # B) L" and bs: "buffers_ok bs" and adj: "adjacent x y"
  shows "blocks_ok bs (A @ join x y # B) L"
proof -
  have ins: "inside bs z" if "z \<in> set (A @ x # y # B)" for z using ok that by (auto simp: blocks_ok_def)
  then have pos: "0 < snd z" if "z \<in> set (A @ x # y # B)" for z using that by (fastforce simp: inside_def)
  have ap: "apart z x" "apart z y" if "z \<in> set A \<union> set B" for z
    using ok that by (auto simp: blocks_ok_def sorted_wrt_append intro: apart_symI)
  have j: "apart z (join x y) \<and> apart (join x y) z" if "z \<in> set A \<union> set B" for z
    using that by (intro apart_join ap adj pos) auto
  have live: "apart (join x y) (p - 8, sz)" if "L p = Some sz" for p sz
  proof -
    have "inside bs (p - 8, sz)" "apart x (p - 8, sz)" "apart y (p - 8, sz)"
      using ok that by (auto simp: blocks_ok_def)
    then show ?thesis
      using apart_join [of "(p - 8, sz)" x y] adj pos by (auto simp: inside_def intro: apart_symI)
  qed
  have "sorted_wrt apart (A @ join x y # B)"
    using ok j by (auto simp: blocks_ok_def sorted_wrt_append)
  then show ?thesis using ok live inside_join [OF bs ins ins adj] by (auto simp: blocks_ok_def)
qed

lemma blocks_ok_insert:
  assumes "blocks_ok bs (A @ B) L" "L ptr = Some sz"
    and dj: "\<And>q sq. L q = Some sq \<Longrightarrow> q \<noteq> ptr \<Longrightarrow> apart (ptr - 8, sz) (q - 8, sq)"
  shows "blocks_ok bs (A @ (ptr - 8, sz) # B) (L(ptr := None))"
  using assms by (auto simp: blocks_ok_def sorted_wrt_append split: if_splits intro: apart_symI)

lemma blocks_ok_drop: "blocks_ok bs F L \<Longrightarrow> blocks_ok bs F (L(ptr := None))"
  by (auto simp: blocks_ok_def split: if_splits)

lemma blocks_ok_join_next:
  "blocks_ok bs (A @ y # B) L \<Longrightarrow> buffers_ok bs \<Longrightarrow> blocks_ok bs (A @ join_next y B) L"
  by (cases B) (auto intro: blocks_ok_join)

lemma blocks_ok_join_prev:
  assumes "blocks_ok bs (A @ C) L" "buffers_ok bs"
  shows "blocks_ok bs (join_prev A C) L"
proof (cases "A \<noteq> [] \<and> C \<noteq> [] \<and> adjacent (last A) (hd C)")
  case True
  then have "A @ C = butlast A @ last A # hd C # tl C" by simp
  with assms True show ?thesis by (auto simp: join_prev_def intro: blocks_ok_join)
qed (use assms in \<open>auto simp: join_prev_def\<close>)

lemma blocks_ok_release:
  assumes ok: "blocks_ok bs F L" and bs: "buffers_ok bs" and p: "L ptr = Some sz"
    and dj: "\<And>q sq. L q = Some sq \<Longrightarrow> q \<noteq> ptr \<Longrightarrow> apart (ptr - 8, sz) (q - 8, sq)"
  shows "blocks_ok bs (release F (ptr - 8, sz)) (L(ptr := None))"
proof -
  let ?y = "(ptr - 8, sz)"
  have "blocks_ok bs (takeWhile (below ?y) F @ dropWhile (below ?y) F) L" using ok by simp
  then have "blocks_ok bs (takeWhile (below ?y) F @ ?y # dropWhile (below ?y) F) (L(ptr := None))"
    by (rule blocks_ok_insert) (use p dj in auto)
  then show ?thesis
    using blocks_ok_drop [OF ok] bs by (auto simp: release_def intro!: blocks_ok_join_prev blocks_ok_join_next)
qed

lemma free_bytes_simps [simp]:
  "free_bytes [] = 0" "free_bytes (x # B) = snd x + free_bytes B" "free_bytes (A @ B) = free_bytes A + free_bytes B"
  by (simp_all add: free_bytes_def)

lemma free_bytes_join_prev: "free_bytes (join_prev A C) = free_bytes A + free_bytes C"
proof (cases "A \<noteq> [] \<and> C \<noteq> [] \<and> adjacent (last A) (hd C)")
  case True
  then obtain A' a c C' where "A = A' @ [a]" "C = c # C'" by (metis list.exhaust rev_exhaust)
  then show ?thesis using True by (simp add: join_prev_def join_def)
qed (auto simp: join_prev_def)

lemma free_bytes_join_next: "free_bytes (join_next y B) = snd y + free_bytes B"
  by (cases B) (auto simp: join_def)

lemma free_bytes_release: "free_bytes (release F y) = (if lost F y then free_bytes F else free_bytes F + snd y)"
proof -
  have "free_bytes (takeWhile (below y) F @ dropWhile (below y) F) = free_bytes F" by simp
  then show ?thesis
    by (simp add: release_def free_bytes_join_prev free_bytes_join_next del: takeWhile_dropWhile_id)
qed

subsection \<open>The heap operations of \<open>deallocate\<close>\<close>

lemma dealloc_scan_spec:
  "chain h a F \<Longrightarrow> dealloc_scan h (fst y) a p =
     Some (dropWhile (below y) F \<noteq> [], if takeWhile (below y) F = [] then p else fst (last (takeWhile (below y) F)))"
proof (induction F arbitrary: a p)
  case Nil
  then show ?case by (simp add: dealloc_scan.simps)
next
  case (Cons x F)
  have b: "fst y < fst x \<longleftrightarrow> \<not> below y x" by (auto simp: below_def)
  from Cons.prems have x: "a = fst x" "fst x \<noteq> 0" "chain h (node_next h a) F" by auto
  show ?case
    using Cons.IH [OF x(3), of a] x(1,2) by (subst dealloc_scan.simps) (simp add: b)
qed

lemma headers_ok_frame:
  assumes ok: "headers_ok h L" and ap: "\<And>p sz. L p = Some sz \<Longrightarrow> apart (w, 8) (p - 8, sz)"
  shows "headers_ok (write64 h w v) L"
proof -
  have "read64 (write64 h w v) (p - 8) = read64 h (p - 8)" if "L p = Some sz" for p sz
    by (rule live_read [OF ap [OF that]]) (use ok that in \<open>auto simp: headers_ok_def\<close>)
  then show ?thesis using ok by (auto simp: headers_ok_def)
qed

text \<open>Overwriting a node in place: its size becomes \<open>s\<close>, its successor \<open>c\<close>.\<close>

lemma chain_set:
  assumes "seg h a A (fst y)" "chain h c B" "fst y \<noteq> 0" "s < 2 ^ 64" "c < 2 ^ 64"
    and ap: "\<And>z. z \<in> set A \<union> set B \<Longrightarrow> apart (hdr z) (hdr y)"
  shows "chain (write64 (write64 h (fst y) s) (fst y + 8) c) a (A @ (fst y, s) # B)"
proof -
  have fr: "apart (hdr z) (fst y, 8)" "apart (hdr z) (fst y + 8, 8)" if "z \<in> set A \<union> set B" for z
    using ap [OF that] by (auto simp: apart_def)
  let ?h = "write64 (write64 h (fst y) s) (fst y + 8) c"
  have "seg ?h a A (fst y)" using assms(1) fr by (intro seg_frame) auto
  moreover have "chain ?h c B" using assms(2) fr by (intro seg_frame) auto
  ultimately show ?thesis using assms(3-5) by (auto simp: seg_append)
qed

lemma blocks_ok_hdr:
  assumes "blocks_ok bs (A @ y # B) L" "z \<in> set A \<union> set B"
  shows "apart (hdr z) (hdr y)"
  using assms by (intro apart_hdr) (auto simp: blocks_ok_def sorted_wrt_append inside_def intro: apart_symI)

lemma blocks_ok_live:
  assumes "blocks_ok bs F L" "z \<in> set F" "fst z \<le> w" "w + 8 \<le> fst z + snd z" "L p = Some sz"
  shows "apart (w, 8) (p - 8, sz)"
proof -
  have "apart z (p - 8, sz)" using assms by (auto simp: blocks_ok_def)
  then show ?thesis using assms(3,4) by (auto simp: apart_def)
qed

lemma blocks_ok_node:
  "buffers_ok bs \<Longrightarrow> blocks_ok bs F L \<Longrightarrow> z \<in> set F \<Longrightarrow> 0 < fst z \<and> fst z + snd z < 2 ^ 64 \<and> 16 \<le> snd z"
  using inside_bounds [of bs z] by (auto simp: blocks_ok_def)

text \<open>Merging a node with its successor, as both halves of the coalescing do.\<close>

lemma chain_merge:
  assumes ch: "chain h a (A @ x # y # B)" and ok: "blocks_ok bs (A @ x # y # B) L" and adj: "adjacent x y"
    and hd: "headers_ok h L" and bs: "buffers_ok bs"
  defines "h' \<equiv> write64 (write64 h (fst x) (add64 (node_size h (fst x)) (node_size h (fst y)))) (fst x + 8)
      (node_next (write64 h (fst x) (add64 (node_size h (fst x)) (node_size h (fst y)))) (fst y))"
  shows "chain h' a (A @ join x y # B) \<and> headers_ok h' L"
proof -
  have x: "0 < fst x" "16 \<le> snd x" and y: "fst y + snd y < 2 ^ 64" "16 \<le> snd y"
    using blocks_ok_node [OF bs ok, of x] blocks_ok_node [OF bs ok, of y] by auto
  have s: "add64 (node_size h (fst x)) (node_size h (fst y)) = snd x + snd y"
    using ch x y adj by (auto simp: seg_append add64_exact adjacent_def)
  have nx: "node_next (write64 h (fst x) (snd x + snd y)) (fst y) = node_next h (fst y)"
    using adj x by (intro read64_write64_other) (simp add: adjacent_def)
  have h': "h' = write64 (write64 h (fst x) (snd x + snd y)) (fst x + 8) (node_next h (fst y))"
    unfolding h'_def s nx ..
  have "chain h' a (A @ (fst x, snd x + snd y) # B)" unfolding h'
  proof (rule chain_set)
    show "apart (hdr z) (hdr x)" if "z \<in> set A \<union> set B" for z
      by (rule blocks_ok_hdr [OF ok]) (use that in auto)
    show "snd x + snd y < 2 ^ 64" using x y adj by (simp add: adjacent_def)
  qed (use ch read64_bound in \<open>auto simp: seg_append\<close>)
  moreover have "headers_ok h' L" unfolding h'
    using blocks_ok_live [OF ok, of x] x(2) by (intro headers_ok_frame hd) auto
  ultimately show ?thesis by (simp add: join_def)
qed

text \<open>Linking a block between the part \<open>A\<close> already scanned and the rest.\<close>

lemma fl_insert_spec:
  assumes ch: "chain (fl_heap f) (fl_list f) (A @ B)" and ok: "blocks_ok bs (A @ y # B) L"
    and hd: "headers_ok (fl_heap f) L" and y: "read64 (fl_heap f) (fst y) = snd y" and bs: "buffers_ok bs"
  defines "g \<equiv> fl_insert (prev_of A) (fst y) f"
  shows "chain (fl_heap g) (fl_list g) (A @ y # B) \<and> headers_ok (fl_heap g) L \<and>
         g = f\<lparr>fl_heap := fl_heap g, fl_list := fl_list g\<rparr>"
proof -
  let ?h = "fl_heap f"
  have yb: "0 < fst y" "fst y + snd y < 2 ^ 64" "16 \<le> snd y"
    using blocks_ok_node [OF bs ok, of y] by auto
  have fr: "apart (hdr z) (fst y + 8, 8)" if "z \<in> set A \<union> set B" for z
    using blocks_ok_hdr [OF ok that] by (auto simp: apart_def)
  have live: "headers_ok (write64 ?h (fst y + 8) c) L" for c
    using blocks_ok_live [OF ok, of y] yb(3) by (intro headers_ok_frame hd) auto
  show ?thesis
  proof (cases A rule: rev_cases)
    case Nil
    have "chain (write64 ?h (fst y + 8) (fl_list f)) (fl_list f) B"
      using ch Nil fr by (intro seg_frame) auto
    moreover have "fl_list f < 2 ^ 64"
    proof (cases B)
      case (Cons b B')
      then show ?thesis using ch Nil blocks_ok_node [OF bs ok, of b] by auto
    qed (use ch Nil in auto)
    ultimately show ?thesis
      using Nil y yb live by (simp add: g_def fl_insert_def prev_of_def)
  next
    case (snoc A' u)
    from ch obtain b where A: "seg ?h (fl_list f) A b" and B: "chain ?h b B" by (auto simp: seg_append)
    from A snoc have u: "read64 ?h (fst u + 8) = b" "fst u \<noteq> 0" by (auto simp: seg_append)
    have b: "b < 2 ^ 64" using u(1) read64_bound by blast
    let ?k = "write64 ?h (fst y + 8) b"
    have "seg ?k (fl_list f) A b" by (rule seg_frame [OF A]) (use fr in simp)
    have "chain ?k b B" by (rule seg_frame [OF B]) (use fr in simp)
    have ok': "blocks_ok bs (A' @ u # (y # B)) L" using ok snoc by simp
    have "seg (write64 ?k (fst u + 8) (fst y)) (fl_list f) (A' @ [u]) (fst y)"
      using \<open>seg ?k (fl_list f) A b\<close> snoc blocks_ok_hdr [OF ok'] yb
      by (intro seg_redirect [where b = b]) auto
    moreover have fu: "apart (hdr z) (fst u + 8, 8)" if "z \<in> set (y # B)" for z
      using blocks_ok_hdr [OF ok', of z] that by (auto simp: apart_def)
    have "chain (write64 ?k (fst u + 8) (fst y)) (fst y) (y # B)"
    proof (rule seg_frame [OF _ fu])
      show "chain ?k (fst y) (y # B)" using \<open>chain ?k b B\<close> y yb b by simp
    qed
    ultimately have "chain (write64 ?k (fst u + 8) (fst y)) (fl_list f) (A @ y # B)"
      using snoc by (auto simp: seg_append)
    moreover have "headers_ok (write64 ?k (fst u + 8) (fst y)) L"
      using blocks_ok_live [OF ok, of u] blocks_ok_node [OF bs ok, of u] snoc by (intro headers_ok_frame live) auto
    ultimately show ?thesis using snoc u by (simp add: g_def fl_insert_def)
  qed
qed

lemma fl_inv_blocks:
  "fl_inv f F L \<longleftrightarrow> chain (fl_heap f) (fl_list f) F \<and> headers_ok (fl_heap f) L \<and>
     blocks_ok (buffers f) F L \<and> buffers_ok (buffers f) \<and> 8 \<le> ap_alignment f \<and>
     ap_usage f = live_bytes L \<and> free_bytes F + live_bytes L \<le> total_bytes (buffers f)"
  by (auto simp: fl_inv_def blocks_ok_def)

lemma heap_update_list: "g = f\<lparr>fl_heap := h\<rparr> \<Longrightarrow> fl_list g = fl_list f"
  by simp

lemma heap_update_fields:
  "g = f\<lparr>fl_heap := h\<rparr> \<Longrightarrow> fl_list g = fl_list f \<and> buffers g = buffers f \<and> ap_alignment g = ap_alignment f \<and> ap_usage g = ap_usage f"
  by (simp add: buffers_def)

lemma heap_list_update_fields:
  "g = f\<lparr>fl_heap := h, fl_list := l\<rparr> \<Longrightarrow> buffers g = buffers f \<and> ap_alignment g = ap_alignment f \<and> ap_usage g = ap_usage f"
  by (simp add: buffers_def)

lemma coalesce_next_spec:
  assumes ch: "chain (fl_heap f) (fl_list f) (A @ y # B)" and ok: "blocks_ok bs (A @ y # B) L"
    and hd: "headers_ok (fl_heap f) L" and bs: "buffers_ok bs"
  defines "h \<equiv> fl_heap f"
  defines "g \<equiv> (if node_next h (fst y) \<noteq> 0 \<and> fst y + node_size h (fst y) = node_next h (fst y)
                then fl_remove (fst y) (node_next h (fst y))
                       (f\<lparr>fl_heap := write64 h (fst y)
                            (add64 (node_size h (fst y)) (node_size h (node_next h (fst y))))\<rparr>)
                else f)"
  shows "chain (fl_heap g) (fl_list g) (A @ join_next y B) \<and> headers_ok (fl_heap g) L \<and>
         g = f\<lparr>fl_heap := fl_heap g\<rparr> \<and> blocks_ok bs (A @ join_next y B) L"
proof -
  have y: "fst y \<noteq> 0" "node_size h (fst y) = snd y" and nx: "chain h (node_next h (fst y)) B"
    using ch by (auto simp: seg_append h_def)
  show ?thesis
  proof (cases B)
    case Nil
    then show ?thesis using nx ch hd ok by (simp add: g_def h_def)
  next
    case (Cons b B')
    then have b: "node_next h (fst y) = fst b" "fst b \<noteq> 0" using nx by auto
    show ?thesis
    proof (cases "adjacent y b")
      case True
      then have "g = f\<lparr>fl_heap := fl_heap g\<rparr>" "chain (fl_heap g) (fl_list f) (A @ join y b # B') \<and> headers_ok (fl_heap g) L"
        using chain_merge [of h "fl_list f" A y b B' bs L] ch ok hd bs y b Cons
        by (auto simp: g_def h_def fl_remove_eq adjacent_def)
      moreover from this(1) have "fl_list g = fl_list f" by (rule heap_update_list)
      ultimately show ?thesis using True Cons ok bs by (auto intro: blocks_ok_join)
    next
      case False
      then have "g = f" using y b by (simp add: g_def adjacent_def)
      then show ?thesis using False Cons ch hd ok by (simp add: h_def)
    qed
  qed
qed

lemma hd_join_next: "join_next y B = hd (join_next y B) # tl (join_next y B) \<and> fst (hd (join_next y B)) = fst y"
  by (cases B) (auto simp: join_def)

lemma coalesce_spec:
  assumes ch: "chain (fl_heap f) (fl_list f) (A @ y # B)" and ok: "blocks_ok bs (A @ y # B) L"
    and hd: "headers_ok (fl_heap f) L" and bs: "buffers_ok bs"
  defines "g \<equiv> coalesce (prev_of A) (fst y) f"
  shows "chain (fl_heap g) (fl_list g) (join_prev A (join_next y B)) \<and> headers_ok (fl_heap g) L \<and>
         g = f\<lparr>fl_heap := fl_heap g\<rparr>"
proof -
  let ?h = "fl_heap f"
  define k where "k = (if node_next ?h (fst y) \<noteq> 0 \<and> fst y + node_size ?h (fst y) = node_next ?h (fst y)
      then fl_remove (fst y) (node_next ?h (fst y))
             (f\<lparr>fl_heap := write64 ?h (fst y) (add64 (node_size ?h (fst y)) (node_size ?h (node_next ?h (fst y))))\<rparr>)
      else f)"
  note next' = coalesce_next_spec [OF ch ok hd bs, folded k_def]
  obtain c C where C: "join_next y B = c # C" "fst c = fst y" using hd_join_next [of y B] by metis
  have k: "chain (fl_heap k) (fl_list k) (A @ c # C)" "headers_ok (fl_heap k) L" "blocks_ok bs (A @ c # C) L"
    and kf: "k = f\<lparr>fl_heap := fl_heap k\<rparr>"
    using next' C by auto
  have g: "g = (if prev_of A \<noteq> 0 \<and> prev_of A + node_size (fl_heap k) (prev_of A) = fst y
      then fl_remove (prev_of A) (fst y) (k\<lparr>fl_heap := write64 (fl_heap k) (prev_of A)
             (add64 (node_size (fl_heap k) (prev_of A)) (node_size (fl_heap k) (fst y)))\<rparr>)
      else k)"
    by (simp add: g_def coalesce_def k_def Let_def)
  have fields: "fl_list k = fl_list f" using kf by (rule heap_update_list)
  show ?thesis
  proof (cases A rule: rev_cases)
    case Nil
    then show ?thesis using k kf C by (auto simp: g prev_of_def join_prev_def)
  next
    case (snoc A' a)
    then have a: "fst a \<noteq> 0" "node_size (fl_heap k) (fst a) = snd a" using k(1) by (auto simp: seg_append)
    show ?thesis
    proof (cases "adjacent a c")
      case True
      then have g': "g = fl_remove (fst a) (fst c) (k\<lparr>fl_heap := write64 (fl_heap k) (fst a)
             (add64 (node_size (fl_heap k) (fst a)) (node_size (fl_heap k) (fst c)))\<rparr>)"
        using a snoc C by (simp add: g adjacent_def)
      have "chain (fl_heap g) (fl_list k) (A' @ join a c # C) \<and> headers_ok (fl_heap g) L"
        using chain_merge [of "fl_heap k" "fl_list k" A' a c C bs L] k bs True a snoc
        by (simp add: g' fl_remove_eq)
      moreover have gk: "g = k\<lparr>fl_heap := fl_heap g\<rparr>" using a by (simp add: g' fl_remove_eq)
      moreover have "k\<lparr>fl_heap := fl_heap g\<rparr> = f\<lparr>fl_heap := fl_heap g\<rparr>" by (subst kf) simp
      ultimately show ?thesis
        using snoc True C heap_update_list [OF gk] by (simp add: join_prev_def)
    next
      case False
      then have "g = k" using a snoc C by (simp add: g adjacent_def)
      then show ?thesis using False snoc C k kf by (simp add: join_prev_def)
    qed
  qed
qed

text \<open>
  The block was not inserted: its \<open>next_\<close> is null and only the last node can absorb it.
\<close>

lemma coalesce_not_inserted:
  assumes ch: "chain (fl_heap f) (fl_list f) F" and y: "read64 (fl_heap f) (fst y) = snd y" "read64 (fl_heap f) (fst y + 8) = 0"
    and ok: "blocks_ok bs (F @ [y]) L" and hd: "headers_ok (fl_heap f) L" and bs: "buffers_ok bs"
    and all: "dropWhile (below y) F = []"
  defines "g \<equiv> coalesce (prev_of F) (fst y) f"
  shows "chain (fl_heap g) (fl_list g) (release F y) \<and> headers_ok (fl_heap g) L \<and> g = f\<lparr>fl_heap := fl_heap g\<rparr>"
proof (cases F rule: rev_cases)
  case Nil
  then show ?thesis using ch hd y by (simp add: g_def coalesce_def release_def lost_def prev_of_def)
next
  case (snoc A a)
  have tw: "takeWhile (below y) F = F" using all takeWhile_dropWhile_id [of "below y" F] by simp
  have a: "fst a \<noteq> 0" "node_size (fl_heap f) (fst a) = snd a" "seg (fl_heap f) (fl_list f) A (fst a)"
    using ch snoc by (auto simp: seg_append)
  show ?thesis
  proof (cases "adjacent a y")
    case True
    have ab: "0 < fst a" "16 \<le> snd a" and yb: "fst y + snd y < 2 ^ 64" "16 \<le> snd y"
      using blocks_ok_node [OF bs ok, of a] blocks_ok_node [OF bs ok, of y] snoc by auto
    have s: "add64 (snd a) (snd y) = snd a + snd y"
      using True ab yb by (simp add: add64_exact adjacent_def)
    have far: "node_next (write64 (fl_heap f) (fst a) v) (fst y) = 0" for v
      using True ab y by (subst read64_write64_other) (auto simp: adjacent_def)
    let ?h = "write64 (write64 (fl_heap f) (fst a) (snd a + snd y)) (fst a + 8) 0"
    have g: "g = f\<lparr>fl_heap := ?h\<rparr>"
      using True a y snoc far by (simp add: g_def coalesce_def adjacent_def fl_remove_eq s)
    have ok': "blocks_ok bs (A @ a # [y]) L" using ok snoc by simp
    have "chain ?h (fl_list f) (A @ (fst a, snd a + snd y) # [])"
      using a True ab yb blocks_ok_hdr [OF ok'] by (intro chain_set) (auto simp: adjacent_def)
    moreover have "release F y = A @ [join a y]"
      using snoc True all tw by (simp add: release_def lost_def join_prev_def)
    moreover have "headers_ok ?h L"
      using blocks_ok_live [OF ok', of a] ab by (intro headers_ok_frame hd) auto
    ultimately show ?thesis by (simp add: g join_def)
  next
    case False
    then show ?thesis
      using ch hd y a all snoc by (simp add: g_def coalesce_def release_def lost_def adjacent_def)
  qed
qed

text \<open>A block of a buffer starts at a valid address.\<close>

lemma valid_inside: "inside (buffers f) (a, n) \<Longrightarrow> validAddress f a"
  by (fastforce simp: validAddress_def inside_def buffers_def list_ex_iff)

text \<open>The whole of \<open>deallocate\<close> on a live pointer.\<close>

lemma fl_deallocate_release:
  assumes inv: "fl_inv f F L" and p: "L ptr = Some sz"
  shows "\<exists>f'. fl_deallocate f ptr = Some (Inr (f', sz)) \<and>
     fl_inv f' (release F (ptr - 8, sz)) (L(ptr := None))"
proof -
  let ?y = "(ptr - 8, sz)" and ?bs = "buffers f" and ?L = "L(ptr := None)"
  let ?A = "takeWhile (below ?y) F" and ?B = "dropWhile (below ?y) F"
  have ch: "chain (fl_heap f) (fl_list f) F" and hd: "headers_ok (fl_heap f) L"
    and ok: "blocks_ok ?bs F L" and bs: "buffers_ok ?bs"
    and tot: "ap_usage f = live_bytes L" "free_bytes F + live_bytes L \<le> total_bytes ?bs" "total_bytes ?bs < 2 ^ 64"
    using inv by (auto simp: fl_inv_blocks buffers_ok_def)
  have y: "inside ?bs ?y" using ok p by (auto simp: blocks_ok_def)
  have sz: "read64 (fl_heap f) (ptr - 8) = sz" "8 < ptr" "16 \<le> sz" "sz < 2 ^ 64" "0 < ptr - 8"
      "ptr - 8 + sz < 2 ^ 64"
    using hd p inside_bounds [OF bs y] by (auto simp: headers_ok_def)
  have dj: "apart ?y (q - 8, sq)" if "L q = Some sq" "q \<noteq> ptr" for q sq
  proof -
    have "block (ptr - 8) sz \<inter> block (q - 8) sq = {}" "8 \<le> sq" using hd p that by (auto simp: headers_ok_def)
    then show ?thesis using sz by (subst (asm) block_disjoint_iff) (auto simp: apart_def)
  qed
  have bytes: "live_bytes ?L + sz = live_bytes L"
    using live_bytes_remove p hd by (auto simp: headers_ok_def)
  define h where "h = write64 (write64 (fl_heap f) (ptr - 8) sz) (ptr - 8 + 8) 0"
  have ok_ins: "blocks_ok ?bs (?A @ ?y # ?B) ?L"
    using blocks_ok_insert [of ?bs ?A ?B L ptr sz] ok p dj by simp
  have fr: "apart (hdr z) (ptr - 8, 8)" "apart (hdr z) (ptr, 8)" if "z \<in> set F" for z
  proof -
    have "z \<in> set ?A \<union> set ?B" using that takeWhile_dropWhile_id [of "below ?y" F] by (metis set_append)
    from blocks_ok_hdr [OF ok_ins this] show "apart (hdr z) (ptr - 8, 8)" "apart (hdr z) (ptr, 8)"
      using sz by (auto simp: apart_def)
  qed
  have chh: "chain h (fl_list f) F"
    unfolding h_def using sz fr by (intro seg_frame [OF seg_frame [OF ch]]) auto
  have hdh: "headers_ok h ?L"
    unfolding h_def using blocks_ok_live [OF ok_ins, of ?y] sz
    by (intro headers_ok_frame headers_ok_remove hd) auto
  have hy: "read64 h (ptr - 8) = sz" "read64 h ptr = 0" using sz by (simp_all add: h_def)
  have pv: "(if ?A = [] then 0 else fst (last ?A)) = prev_of ?A" by (simp add: prev_of_def)
  have scan: "dealloc_scan h (ptr - 8) (fl_list f) 0 = Some (?B \<noteq> [], prev_of ?A)"
    using dealloc_scan_spec [OF chh, of ?y 0] by (simp add: pv)
  define f0 where "f0 = f\<lparr>fl_heap := h\<rparr>"
  define f1 where "f1 = (if ?B \<noteq> [] then fl_insert (prev_of ?A) (ptr - 8) f0 else f0)"
  define f2 where "f2 = f1\<lparr>ap_usage := sub64 (ap_usage f1) (node_size (fl_heap f1) (ptr - 8))\<rparr>"
  define f3 where "f3 = coalesce (prev_of ?A) (ptr - 8) f2"
  have "ptr \<noteq> 0" "validAddress f (ptr - 8)" "ap_usage f \<noteq> 0"
    using sz tot bytes valid_inside [OF y] by auto
  then have run: "fl_deallocate f ptr = Some (Inr (f3, sz))"
    using sz(1) scan by (simp add: fl_deallocate_def Let_def h_def f0_def f1_def f2_def f3_def)
  have main: "chain (fl_heap f3) (fl_list f3) (release F ?y) \<and> headers_ok (fl_heap f3) ?L \<and>
      buffers f3 = ?bs \<and> ap_alignment f3 = ap_alignment f \<and> ap_usage f3 = sub64 (ap_usage f) sz"
  proof (cases "?B = []")
    case False
    have "chain (fl_heap f0) (fl_list f0) (?A @ ?B)" "headers_ok (fl_heap f0) ?L" "read64 (fl_heap f0) (fst ?y) = snd ?y"
      using chh hdh hy by (simp_all add: f0_def)
    from fl_insert_spec [OF this(1) ok_ins this(2,3) bs] False
    have f1: "chain (fl_heap f1) (fl_list f1) (?A @ ?y # ?B)" "headers_ok (fl_heap f1) ?L"
        "f1 = f0\<lparr>fl_heap := fl_heap f1, fl_list := fl_list f1\<rparr>"
      by (simp_all add: f1_def)
    have s1: "node_size (fl_heap f1) (ptr - 8) = sz" using f1(1) by (auto simp: seg_append)
    have f3: "chain (fl_heap f3) (fl_list f3) (join_prev ?A (join_next ?y ?B)) \<and> headers_ok (fl_heap f3) ?L"
      and eq: "f3 = f2\<lparr>fl_heap := fl_heap f3\<rparr>"
      using coalesce_spec [of f2 ?A ?y ?B ?bs ?L] f1 ok_ins bs by (simp_all add: f3_def f2_def)
    moreover have "release F ?y = join_prev ?A (join_next ?y ?B)" using False by (auto simp: release_def lost_def)
    ultimately show ?thesis
      using heap_update_fields [OF eq] heap_list_update_fields [OF f1(3)] s1 f3
      by (simp add: f2_def f0_def buffers_def)
  next
    case True
    then have F: "?A = F" using takeWhile_dropWhile_id [of "below ?y" F] by simp
    have f2: "f2 = f\<lparr>fl_heap := h, ap_usage := sub64 (ap_usage f) sz\<rparr>"
      using True hy by (simp add: f2_def f1_def f0_def)
    have g: "chain (fl_heap f2) (fl_list f2) F" "read64 (fl_heap f2) (fst ?y) = snd ?y"
        "read64 (fl_heap f2) (fst ?y + 8) = 0" "blocks_ok ?bs (F @ [?y]) ?L" "headers_ok (fl_heap f2) ?L"
      using chh hdh hy sz ok_ins True F by (simp_all add: f2)
    have f3: "chain (fl_heap f3) (fl_list f3) (release F ?y) \<and> headers_ok (fl_heap f3) ?L"
      and eq: "f3 = f2\<lparr>fl_heap := fl_heap f3\<rparr>"
      using coalesce_not_inserted [OF g bs True] unfolding f3_def F by simp_all
    then show ?thesis using heap_update_fields [OF eq] by (simp add: f2 buffers_def)
  qed
  have ok': "blocks_ok ?bs (release F ?y) ?L" using blocks_ok_release [OF ok bs p dj] .
  have "sub64 (ap_usage f) sz = live_bytes ?L" using tot bytes by (subst sub64_exact) auto
  moreover have "free_bytes (release F ?y) + live_bytes ?L \<le> total_bytes ?bs"
    using tot bytes by (simp add: free_bytes_release)
  ultimately have "fl_inv f3 (release F ?y) ?L"
    using main ok' bs inv by (auto simp: fl_inv_blocks)
  with run show ?thesis by blast
qed

subsection \<open>A new buffer\<close>

text \<open>\<open>createExtraBuffer\<close> for the buffer \<open>(bsize, m)\<close>: one free block that leaves out \<open>sizeof(Node)\<close> bytes, at the head of the list.\<close>

definition with_buffer :: "nat \<Rightarrow> nat \<Rightarrow> freelist \<Rightarrow> freelist" where
  "with_buffer bsize m f = f\<lparr>fl_heap := write64 (write64 (write64 (fl_heap f) m (bsize - 16)) (m + 8) 0) (m + 8) (fl_list f), fl_list := m,
     fl_extra := fl_extra f @ [(bsize, m)], fl_scale := mul64 (fl_scale f) 2\<rparr>"

lemma with_buffer_fields: "buffers (with_buffer bsize m f) = buffers f @ [(bsize, m)]" "ap_alignment (with_buffer bsize m f) = ap_alignment f"
  "ap_usage (with_buffer bsize m f) = ap_usage f" "fl_list (with_buffer bsize m f) = m"
  by (simp_all add: with_buffer_def buffers_def)

lemma with_buffer_heap: "m + 16 \<le> a \<or> a + 8 \<le> m \<Longrightarrow> read64 (fl_heap (with_buffer bsize m f)) a = read64 (fl_heap f) a"
  by (auto simp: with_buffer_def)

lemma inside_append: "inside bs x \<Longrightarrow> inside (bs @ cs) x"
  by (auto simp: inside_def)

lemma with_buffer_inv:
  assumes inv: "fl_inv f F L" and m: "0 < m" "m + bsize < 2 ^ 64" "32 \<le> bsize" "\<forall>b \<in> set (buffers f). separate b (bsize, m)"
    and tot: "total_bytes (buffers f) + bsize < 2 ^ 64"
  shows "fl_inv (with_buffer bsize m f) ((m, bsize - 16) # F) L"
proof -
  let ?g = "with_buffer bsize m f"
  note i = inv [unfolded fl_inv_def]
  have far: "fst x + snd x \<le> m \<or> m + bsize \<le> fst x" "16 \<le> snd x" if "inside (buffers f) x" for x
    using that m(4) by (fastforce simp: inside_def separate_def)+
  have ap: "apart (m, bsize - 16) x \<and> apart x (m, bsize - 16)" if "inside (buffers f) x" for x
    using far [OF that] m(3) by (auto simp: apart_def)
  have list: "fl_list f < 2 ^ 64"
  proof (cases F)
    case (Cons x F')
    then have "fl_list f = fst x" "fst x + snd x < 2 ^ 64" using i inside_bounds [of "buffers f" x] by auto
    then show ?thesis by simp
  qed (use i in auto)
  have "chain (fl_heap ?g) (fl_list f) F"
  proof (rule seg_cong)
    show "chain (fl_heap f) (fl_list f) F" using i by blast
    fix x assume "x \<in> set F"
    then have "inside (buffers f) x" using i by blast
    from far [OF this] m(3) show "read64 (fl_heap ?g) (fst x) = read64 (fl_heap f) (fst x) \<and>
        read64 (fl_heap ?g) (fst x + 8) = read64 (fl_heap f) (fst x + 8)"
      by (intro conjI with_buffer_heap) auto
  qed
  moreover have "read64 (fl_heap ?g) m = bsize - 16" "read64 (fl_heap ?g) (m + 8) = fl_list f"
    using m list by (simp_all add: with_buffer_def)
  ultimately have "chain (fl_heap ?g) (fl_list ?g) ((m, bsize - 16) # F)" using m(1) by (simp add: with_buffer_fields)
  moreover have "headers_ok (fl_heap ?g) L"
  proof -
    have "read64 (fl_heap ?g) (p - 8) = read64 (fl_heap f) (p - 8)" if "L p = Some sz" for p sz
    proof -
      have "inside (buffers f) (p - 8, sz)" using i that by blast
      from far [OF this] m(3) show ?thesis by (intro with_buffer_heap) auto
    qed
    with i show ?thesis by (auto simp: headers_ok_def)
  qed
  moreover have "buffers_ok (buffers f @ [(bsize, m)])"
    using i m tot by (auto simp: buffers_ok_def sorted_wrt_append total_bytes_def)
  moreover have "inside (buffers f @ [(bsize, m)]) (m, bsize - 16)" using m(3) by (auto simp: inside_def)
  moreover have "free_bytes ((m, bsize - 16) # F) + live_bytes L \<le> total_bytes (buffers f @ [(bsize, m)])"
  proof -
    have "free_bytes F + live_bytes L \<le> total_bytes (buffers f)" using i by blast
    then show ?thesis by (simp add: total_bytes_def free_bytes_def)
  qed
  ultimately show ?thesis using i ap inside_append unfolding fl_inv_def with_buffer_fields by auto
qed

text \<open>The whole of \<open>allocate\<close> when no free block is large enough.\<close>

lemma fl_allocate_new_buffer:
  assumes inv: "fl_inv f F L" and n: "0 < n" "n + 24 + ap_alignment f < 2 ^ 64" and none: "\<forall>x \<in> set F. snd x < required (ap_alignment f) n"
  defines "sz \<equiv> (if n < 16 then n + 16 else n) + 8"
  assumes b: "computeAlignedSize sz (mul64 MIN_CHUNK_SIZE (fl_scale f)) = Inr bsize"
    and m: "0 < m" "m + bsize < 2 ^ 64" "\<forall>b \<in> set (buffers f). separate b (bsize, m)" "total_bytes (buffers f) + bsize < 2 ^ 64"
    and room: "bsize = sz + 16 \<or> sz + 32 \<le> bsize"
  shows "\<exists>f'. fl_allocate f n m = Some (Inr (f', m + 8)) \<and> L (m + 8) = None \<and> ap_last f' = sz \<and>
    fl_inv f' (carve [] (m, bsize - 16) F sz) (L(m + 8 \<mapsto> sz)) \<and> buffers f' = buffers f @ [(bsize, m)]"
proof -
  have a: "0 < ap_alignment f" and ch: "chain (fl_heap f) (fl_list f) F" and bs: "buffers_ok (buffers f)"
    and ins: "\<And>y. y \<in> set F \<Longrightarrow> inside (buffers f) y" using inv by (auto simp: fl_inv_def)
  note pt = required_parts [OF a n(2), folded sz_def]
  have small: "snd y < size_max" if "y \<in> set F" for y using inside_bounds [OF bs ins [OF that]] by simp
  have lt: "snd x < required (ap_alignment f) n" if "x \<in> set F" for x using none that by blast
  from node.find_none [OF ch small lt] have
    find: "findNode (fl_policy f) (fl_heap f) (required (ap_alignment f) n) (fl_list f) = Some (0, 0)" .
  have sz: "24 \<le> sz" by (simp add: sz_def)
  then have "32 \<le> bsize" using room by auto
  from with_buffer_inv [OF inv m(1,2) this m(3,4)] have inv1: "fl_inv (with_buffer bsize m f) ([] @ (m, bsize - 16) # F) L" by simp
  have new: "createExtraBuffer sz 0 m f = Inr (with_buffer bsize m f, m)"
    using b m(1,2) \<open>32 \<le> bsize\<close> by (simp add: createExtraBuffer_def fl_insert_def with_buffer_def Let_def sub64_exact)
  have "sz < 2 ^ 64" using n(2) by (simp add: sz_def)
  then have run: "fl_allocate f n m = Some (Inr (served [] (m, bsize - 16) sz (with_buffer bsize m f), m + 8))"
    using n(1) by (simp add: fl_allocate_def Let_def pt find new served_def prev_of_def add64_exact)
  have c: "sz \<le> snd (m, bsize - 16)" "16 \<le> sz" "snd (m, bsize - 16) = sz \<or> sz + 16 \<le> snd (m, bsize - 16)"
    using sz room by auto
  from fl_serve [OF inv1 c] run show ?thesis
    by (intro exI [of _ "served [] (m, bsize - 16) sz (with_buffer bsize m f)"]) (simp add: with_buffer_fields)
qed

subsection \<open>The free list implements the policy interface\<close>

text \<open>A loop that does not end would show as a fault here; under the invariant there is none.\<close>

definition run_policy :: "'a result option \<Rightarrow> 'a result" where
  "run_policy r = (case r of None \<Rightarrow> Inl Undefined_Behaviour | Some x \<Rightarrow> x)"

definition freelist_rep :: "freelist \<Rightarrow> (nat \<rightharpoonup> nat) \<Rightarrow> bool" where
  "freelist_rep f L \<longleftrightarrow> (\<exists>F. fl_inv f F L)"

text \<open>Some free block fits the request, so that no extra buffer is needed, and no left-over is too small for a node.\<close>

definition freelist_fresh :: "freelist \<Rightarrow> (nat \<rightharpoonup> nat) \<Rightarrow> nat \<Rightarrow> nat \<Rightarrow> bool" where
  "freelist_fresh f L n m \<longleftrightarrow> n + 24 + ap_alignment f < 2 ^ 64 \<and>
     (\<exists>F x. fl_inv f F L \<and> x \<in> set F \<and> required (ap_alignment f) n \<le> snd x \<and> clean_cut F (required (ap_alignment f) n))"

interpretation freelist: block_policy "\<lambda>f n m. run_policy (fl_allocate f n m)" "\<lambda>f ptr. run_policy (fl_deallocate f ptr)"
  ap_last freelist_rep freelist_fresh
proof
  fix f L assume "freelist_rep f L" then show "finite (dom L)"
    by (auto simp: freelist_rep_def fl_inv_def headers_ok_def)
next
  fix f L m f' ptr
  assume "freelist_rep f L" "run_policy (fl_allocate f 0 m) = Inr (f', ptr)"
  then show "ptr = 0 \<and> ap_last f' = 0 \<and> freelist_rep f' L"
    by (auto simp: fl_allocate_def run_policy_def freelist_rep_def fl_inv_def buffers_def)
next
  fix f L n m f' ptr
  assume n: "0 < n" and fr: "freelist_fresh f L n m" and a: "run_policy (fl_allocate f n m) = Inr (f', ptr)"
  from fr obtain F x where fit: "fl_inv f F L" "n + 24 + ap_alignment f < 2 ^ 64" "x \<in> set F"
      "required (ap_alignment f) n \<le> snd x" "clean_cut F (required (ap_alignment f) n)"
    by (auto simp: freelist_fresh_def)
  from fl_allocate_fit [OF fit(1) n fit(2-5), of m] a
  show "ptr \<noteq> 0 \<and> L ptr = None \<and> freelist_rep f' (L(ptr \<mapsto> ap_last f'))"
    by (auto simp: run_policy_def freelist_rep_def)
next
  fix f show "run_policy (fl_deallocate f 0) = Inr (f, 0)" by (simp add: fl_deallocate_def run_policy_def)
next
  fix f L ptr sz assume "freelist_rep f L" "L ptr = Some sz"
  then show "\<exists>f'. run_policy (fl_deallocate f ptr) = Inr (f', sz) \<and> freelist_rep f' (L(ptr := None))"
    using fl_deallocate_release by (fastforce simp: run_policy_def freelist_rep_def)
qed

end
