(* ===== verification/MemoryProps.thy ===== *)
theory MemoryProps
  imports FreeListRelease
begin

text \<open>
  The properties of the allocators: what a request and a release do to the free list, the accounting
  of \<open>spider::Stack\<close> over it, and the three places where the code does not protect its buffers.
\<close>

subsection \<open>A fresh free list\<close>

lemma freelist_new_inv:
  assumes "freelist_new n ext policy a m h = Inr f" "fl_buffer f + fl_size f < 2 ^ 64" "ext \<noteq> 0 \<Longrightarrow> 16 \<le> n"
  shows "fl_inv f [(fl_buffer f, fl_size f)] Map.empty"
proof -
  have r: "read64 (write64 h p k) p = k" if "p + k < 2 ^ 64" for p k using that by simp
  have "16 \<le> max n MIN_CHUNK_SIZE" by (simp add: MIN_CHUNK_SIZE_def)
  then show ?thesis using assms
    by (auto simp: r freelist_new_def Let_def fl_inv_def buffers_ok_def buffers_def total_bytes_def free_bytes_def inside_def headers_ok_empty
      live_bytes_def split: if_splits)
qed

text \<open>The free list of the witnesses: an external buffer of 256 bytes at address 4096, with the alignment that is the default.\<close>

definition sample_freelist :: freelist where
  "sample_freelist = \<lparr>ap_usage = 0, ap_alignment = 8, ap_last = 0,
     fl_heap = write64 (write64 (\<lambda>_. 0) 4096 256) 4104 0, fl_list = 4096, fl_buffer = 4096,
     fl_external = True, fl_extra = [], fl_size = 256, fl_scale = 1, fl_policy = FIND_BEST\<rparr>"

lemma sample_freelist_new: "freelist_new 256 4096 FIND_BEST 8 0 (\<lambda>_. 0) = Inr sample_freelist"
  by (simp add: freelist_new_def sample_freelist_def)

lemma sample_freelist_inv: "fl_inv sample_freelist [(4096, 256)] Map.empty"
  using freelist_new_inv [OF sample_freelist_new] by (simp add: sample_freelist_def)

lemma sample_required: "required (ap_alignment sample_freelist) 40 = 48"
  by (simp add: sample_freelist_def required_def Let_def)

lemma sample_cut: "clean_cut [(4096, 256)] 48"
  by (simp add: clean_cut_def)

lemma sample_freelist_fits: "freelist_fresh sample_freelist Map.empty 40 0"
  unfolding freelist_fresh_def sample_required
  using sample_freelist_inv sample_cut by (intro conjI exI [of _ "[(4096, 256)]"] exI [of _ "(4096, 256)"]) (simp_all add: sample_freelist_def)

text \<open>
  C15. A request that some free block can hold succeeds, for every alignment that the constructor accepts (8 is the default) and whatever
  the search policy: the block handed out is the front of a free block of one of the buffers, it is large enough, its size is a multiple of the
  alignment and is in its header, no live block is touched, and the rest of that free block stays in the list, unless it was used up.
  The left-over of a block that could be chosen must hold a node of 16 bytes (\<open>clean_cut\<close>). With an alignment of 16 and block sizes that are
  multiples of it this is always so; with the default it is not, and the code does not test it.
\<close>

theorem free_list_allocate_correct:
  assumes "fl_inv f F L" "0 < n" "n + 24 + ap_alignment f < 2 ^ 64"
    and "z \<in> set F" "required (ap_alignment f) n \<le> snd z" "clean_cut F (required (ap_alignment f) n)"
  shows "\<exists>f' ptr xs x ys. fl_allocate f n m = Some (Inr (f', ptr)) \<and> F = xs @ x # ys \<and> ptr = fst x + 8 \<and>
    fl_inv f' (carve xs x ys (ap_last f')) (L(ptr \<mapsto> ap_last f')) \<and> buffers f' = buffers f \<and> L ptr = None \<and>
    ap_last f' = required (ap_alignment f) n \<and> n + 8 \<le> ap_last f' \<and> ap_alignment f dvd ap_last f' \<and>
    read64 (fl_heap f') (ptr - 8) = ap_last f' \<and> free_bytes (carve xs x ys (ap_last f')) + ap_last f' = free_bytes F"
proof -
  from fl_allocate_fit [OF assms, of m] obtain f' ptr xs x ys where
    a: "fl_allocate f n m = Some (Inr (f', ptr))" "F = xs @ x # ys" "ptr = fst x + 8" "L ptr = None"
      "ap_last f' = required (ap_alignment f) n" "fl_inv f' (carve xs x ys (ap_last f')) (L(ptr \<mapsto> ap_last f'))"
      "ap_last f' \<le> snd x" "buffers f' = buffers f"
    by blast
  have al: "0 < ap_alignment f" using assms(1) by (simp add: fl_inv_def)
  have "headers_ok (fl_heap f') (L(ptr \<mapsto> ap_last f'))" using a(6) by (simp add: fl_inv_def)
  from headers_ok_read [OF this, of ptr] have "read64 (fl_heap f') (ptr - 8) = ap_last f'" by simp
  with required_bounds [OF al, of n] a carve_bytes [OF a(7), of xs ys]
  show ?thesis
    by (intro exI [of _ f'] exI [of _ ptr] exI [of _ xs] exI [of _ x] exI [of _ ys]) simp
qed

theorem free_list_allocate_correct_witness:
  "\<exists>f' ptr. fl_allocate sample_freelist 40 0 = Some (Inr (f', ptr)) \<and> ap_last f' = 48"
proof -
  have "40 + 24 + ap_alignment sample_freelist < 2 ^ 64" by (simp add: sample_freelist_def)
  from free_list_allocate_correct [OF sample_freelist_inv _ this, of "(4096, 256)" 0] show ?thesis
    unfolding sample_required using sample_cut by fastforce
qed

text \<open>
  What happens without that condition: a free block of 40 bytes in front of a live one, and a request of 24 bytes, which takes 32 at the default
  alignment. The node written over the 8 bytes that are left covers the header of the live block, whose size is lost.
\<close>

theorem free_list_small_leftover_corrupts:
  assumes "fl_inv f [(a, 40)] L" "ap_alignment f = 8" "L (a + 48) = Some sz"
  shows "\<exists>f'. fl_allocate f 24 m = Some (Inr (f', a + 8)) \<and> read64 (fl_heap f') (a + 48 - 8) = 0 \<and> 0 < sz"
proof -
  let ?h = "fl_heap f"
  have i: "fl_list f = a" "a \<noteq> 0" "read64 ?h a = 40" "read64 ?h (a + 8) = 0" and ok: "headers_ok ?h L"
    and bs: "buffers_ok (buffers f)" "inside (buffers f) (a, 40)"
    using assms(1) by (auto simp: fl_inv_def)
  have "8 \<le> sz" using ok assms(3) unfolding headers_ok_def by blast
  then have sz: "0 < sz" by simp
  have lo: "a + 40 < 2 ^ 64" using inside_bounds(2) [OF bs] by simp
  have "findNode (fl_policy f) ?h 32 a = Some (a, 0)"
    using i by (cases "fl_policy f") (simp_all add: findNode_def findFirst.simps findBest_def findBest_loop.simps)
  moreover have "add64 24 8 = 32" "computePadding 32 8 = Inr 0" "add64 32 0 = 32" "sub64 40 32 = 8"
    by (simp_all add: add64_def computePadding_def sub64_def)
  moreover have "read64 (write64 (write64 (write64 (write64 ?h (a + 32) 8) (a + 40) 0) (a + 8) (a + 32)) a 32) (a + 40) = 0"
    by simp
  ultimately show ?thesis
    using i lo sz assms(2) by (simp add: fl_allocate_def Let_def updateFreeNodeList_def fl_insert_def fl_remove_def)
qed

text \<open>A buffer of 256 bytes at 4096: a free block of 40 bytes, and a live one in the rest.\<close>

definition sample_tight :: freelist where
  "sample_tight = \<lparr>ap_usage = 216, ap_alignment = 8, ap_last = 216,
     fl_heap = write64 (write64 (write64 (\<lambda>_. 0) 4096 40) 4104 0) 4136 216, fl_list = 4096, fl_buffer = 4096,
     fl_external = True, fl_extra = [], fl_size = 256, fl_scale = 1, fl_policy = FIND_FIRST\<rparr>"

lemma sample_tight_inv: "fl_inv sample_tight [(4096, 40)] (Map.empty(4144 \<mapsto> 216))"
  by (auto simp: sample_tight_def fl_inv_def buffers_ok_def buffers_def total_bytes_def free_bytes_def inside_def headers_ok_def
    live_bytes_def apart_def)

theorem free_list_small_leftover_corrupts_witness:
  "\<exists>f'. fl_allocate sample_tight 24 0 = Some (Inr (f', 4104)) \<and> read64 (fl_heap f') 4136 = 0"
  using free_list_small_leftover_corrupts [OF sample_tight_inv] by (auto simp: sample_tight_def)

text \<open>
  C16. Releasing a live pointer, of any of the buffers and for every alignment, returns the size in its header, keeps the free list well formed,
  forgets exactly that pointer, and gives its bytes back to the list, merged with the neighbours, except when no free block has a higher
  address and the last one is not its neighbour: then the bytes are lost.
\<close>

theorem free_list_deallocate_correct:
  assumes "fl_inv f F L" "L ptr = Some sz"
  shows "\<exists>f' F'. fl_deallocate f ptr = Some (Inr (f', sz)) \<and> fl_inv f' F' (L(ptr := None)) \<and>
    F' = release F (ptr - 8, sz) \<and>
    free_bytes F' = (if (\<forall>x \<in> set F. fst x \<le> ptr - 8) \<and> (F = [] \<or> fst (last F) + snd (last F) \<noteq> ptr - 8)
                     then free_bytes F else free_bytes F + sz)"
proof -
  have l: "lost F (ptr - 8, sz) \<longleftrightarrow>
      (\<forall>x \<in> set F. fst x \<le> ptr - 8) \<and> (F = [] \<or> fst (last F) + snd (last F) \<noteq> ptr - 8)"
    by (auto simp: lost_def below_def adjacent_def)
  from fl_deallocate_release [OF assms] show ?thesis
    using free_bytes_release [of F "(ptr - 8, sz)"] by (auto simp: l)
qed

text \<open>The witness: the first of two adjacent blocks is given back, and the second one after it.\<close>

theorem free_list_deallocate_correct_witness:
  "\<exists>f ptr sz f'. fl_deallocate f ptr = Some (Inr (f', sz)) \<and> sz = 48 \<and> fl_inv f' [(4096, 256)] Map.empty"
proof -
  have "40 + 24 + ap_alignment sample_freelist < 2 ^ 64" by (simp add: sample_freelist_def)
  from fl_allocate_fit [OF sample_freelist_inv _ this, of "(4096, 256)" 0] obtain f' ptr xs x ys where
    a: "[(4096, 256)] = xs @ x # ys" "ptr = fst x + 8" "ap_last f' = 48"
       "fl_inv f' (carve xs x ys (ap_last f')) (Map.empty(ptr \<mapsto> ap_last f'))"
    unfolding sample_required using sample_cut by fastforce
  from a(1) have x: "xs = []" "x = (4096, 256)" "ys = []" by (auto simp: Cons_eq_append_conv)
  with a have inv: "fl_inv f' [(4144, 208)] (Map.empty(4104 \<mapsto> 48))" by (simp add: carve_def)
  have "release [(4144, 208)] (4104 - 8, 48) = [(4096, 256)]"
    by (simp add: release_def lost_def below_def adjacent_def join_prev_def join_def)
  with free_list_deallocate_correct [OF inv, of 4104 48] show ?thesis by fastforce
qed

text \<open>
  Releasing the block of a fully used buffer loses it: with an empty free list \<open>deallocate\<close> succeeds and
  reduces the usage but the list stays empty, so no later request can be served from the buffer.
\<close>

theorem free_list_deallocate_leaks:
  assumes "fl_inv f [] L" "L ptr = Some sz"
  shows "\<exists>f'. fl_deallocate f ptr = Some (Inr (f', sz)) \<and> fl_list f' = 0 \<and> ap_usage f' = ap_usage f - sz \<and>
    fl_inv f' [] (L(ptr := None))"
proof -
  have r: "release [] (ptr - 8, sz) = []" by (simp add: release_def lost_def)
  from fl_deallocate_release [OF assms] r obtain f' where
    f': "fl_deallocate f ptr = Some (Inr (f', sz))" "fl_inv f' [] (L(ptr := None))" by auto
  have "finite (dom L)" using assms(1) by (simp add: fl_inv_def headers_ok_def)
  from live_bytes_remove [OF this assms(2)] have "ap_usage f' = ap_usage f - sz"
    using assms(1) f'(2) by (simp add: fl_inv_def)
  with f' show ?thesis by (auto simp: fl_inv_def)
qed

text \<open>A buffer of 256 bytes whose only block is live.\<close>

definition sample_full :: freelist where
  "sample_full = sample_freelist\<lparr>fl_list := 0, ap_usage := 256\<rparr>"

lemma sample_full_inv: "fl_inv sample_full [] (Map.empty(4104 \<mapsto> 256))"
  by (auto simp: sample_full_def sample_freelist_def fl_inv_def buffers_ok_def buffers_def total_bytes_def free_bytes_def headers_ok_def
    inside_def live_bytes_def)

theorem free_list_deallocate_leaks_witness:
  "\<exists>f'. fl_deallocate sample_full 4104 = Some (Inr (f', 256)) \<and> fl_list f' = 0 \<and> ap_usage f' = 0"
  using free_list_deallocate_leaks [OF sample_full_inv, of 4104 256]
  by (auto simp: sample_full_def)

text \<open>
  The block size \<open>createExtraBuffer\<close> writes for a new buffer excludes its node, but the request may need those
  bytes: a request of 8184 bytes on an exhausted free list rounds to one chunk of 8192 bytes, of which the node
  claims 8176, and the left-over recorded after it is \<open>2 ^ 64 - 16\<close> bytes at the end of the buffer.
\<close>

theorem free_list_extra_buffer_underflow:
  assumes "fl_list f = 0" "fl_scale f = 1" "ap_alignment f = 8" "0 < m" "m + 8208 < 2 ^ 64"
  shows "\<exists>f'. fl_allocate f 8184 m = Some (Inr (f', m + 8)) \<and> fl_extra f' = fl_extra f @ [(8192, m)] \<and>
    fl_list f' = m + 8192 \<and> node_size (fl_heap f') (m + 8192) = 2 ^ 64 - 16"
proof -
  have find: "findNode (fl_policy f) (fl_heap f) r 0 = Some (0, 0)" for r
    by (cases "fl_policy f") (simp_all add: findNode_def findFirst.simps findBest_def findBest_loop.simps)
  define h where "h = write64 (write64 (write64 (fl_heap f) m 8176) (m + 8) 0) (m + 8) 0"
  define g where "g = f\<lparr>fl_heap := h, fl_list := m, fl_extra := fl_extra f @ [(8192, m)], fl_scale := 2\<rparr>"
  define k where "k = write64 (write64 (write64 h (m + 8192) (2 ^ 64 - 16)) (m + 8192 + 8) 0) (m + 8) (m + 8192)"
  have n: "add64 8184 8 = 8192" "add64 8192 0 = 8192"
    by (simp_all add: add64_def)
  have pad: "computePadding 8192 8 = Inr 0" "computeAlignedSize 8192 (mul64 MIN_CHUNK_SIZE (Suc 0)) = Inr 8192"
    by (simp_all add: computePadding_def computeAlignedSize_def MIN_CHUNK_SIZE_def mul64_def add64_def)
  have u: "sub64 8192 16 = 8176" "sub64 8176 8192 = 2 ^ 64 - 16" "mul64 (Suc 0) 2 = 2"
    by (simp_all add: sub64_def mul64_def)
  have new: "createExtraBuffer 8192 0 m f = Inr (g, m)"
    using assms by (simp add: createExtraBuffer_def pad u fl_insert_def g_def h_def Let_def)
  have h: "read64 h m = 8176" "read64 h (m + 8) = 0" by (simp_all add: h_def)
  have "updateFreeNodeList 0 m 8192 g = g\<lparr>fl_heap := k, fl_list := m + 8192\<rparr>"
    using assms h by (simp add: updateFreeNodeList_def u fl_insert_def fl_remove_def g_def k_def Let_def)
  then have "fl_allocate f 8184 m = Some (Inr (g\<lparr>fl_heap := write64 k m 8192, fl_list := m + 8192,
      ap_usage := add64 (ap_usage f) 8192, ap_last := 8192\<rparr>, m + 8))"
    using assms by (simp add: fl_allocate_def find n pad new Let_def) (simp add: g_def)
  moreover have "node_size (write64 k m 8192) (m + 8192) = 2 ^ 64 - 16" by (simp add: k_def)
  ultimately show ?thesis by (simp add: g_def)
qed

theorem free_list_extra_buffer_underflow_witness:
  "\<exists>f'. fl_allocate sample_full 8184 65536 = Some (Inr (f', 65544)) \<and>
    node_size (fl_heap f') 73728 = 2 ^ 64 - 16"
  using free_list_extra_buffer_underflow [of sample_full 65536]
  by (auto simp: sample_full_def sample_freelist_def)

subsection \<open>Stack over the free list\<close>

text \<open>
  C33. \<open>Stack\<close> over the free-list policy, with any alignment that its constructor accepts, accounts exactly: after an allocation that a free
  block can serve (\<open>freelist_fresh\<close>: without a new buffer, and with no left-over too small for a node) the usage is the live bytes of the policy
  and the peak covers it; releasing the pointer just obtained succeeds and restores the usage.
\<close>

theorem stack_free_list_accounting:
  assumes "freelist_rep (st_policy s) L" "live_bytes L < 2 ^ 64" "st_usage s = live_bytes L" "st_usage s \<le> st_peak s"
    and "0 < n" "freelist_fresh (st_policy s) L n m"
    and "stack_allocate (\<lambda>f n m. run_policy (fl_allocate f n m)) ap_last s n m = Inr (s', ptr)"
    and "live_bytes L + ap_last (st_policy s') < 2 ^ 64"
  shows "st_usage s' = live_bytes (L(ptr \<mapsto> ap_last (st_policy s'))) \<and> st_usage s' \<le> st_peak s' \<and>
    (\<exists>s''. stack_deallocate (\<lambda>f ptr. run_policy (fl_deallocate f ptr)) s' ptr = Inr s'' \<and>
       st_usage s'' = st_usage s)"
proof -
  let ?L = "L(ptr \<mapsto> ap_last (st_policy s'))"
  have inv: "freelist.stack_inv s L" using assms(1-4) by (simp add: freelist.stack_inv_def)
  from freelist.stack_allocate_inv [OF inv assms(5-8)] have n: "L ptr = None" and inv': "freelist.stack_inv s' ?L" by auto
  from freelist.stack_deallocate_inv [OF inv', of ptr] obtain s'' where
    d: "stack_deallocate (\<lambda>f ptr. run_policy (fl_deallocate f ptr)) s' ptr = Inr s''"
       "freelist.stack_inv s'' (?L(ptr := None))" by auto
  have "?L(ptr := None) = L" using n by auto
  with d inv inv' show ?thesis by (auto simp: freelist.stack_inv_def simp del: fun_upd_upd)
qed

theorem stack_free_list_accounting_witness:
  "\<exists>s' s'' ptr. stack_allocate (\<lambda>f n m. run_policy (fl_allocate f n m)) ap_last (stack_new sample_freelist) 40 0 = Inr (s', ptr) \<and>
     stack_deallocate (\<lambda>f ptr. run_policy (fl_deallocate f ptr)) s' ptr = Inr s'' \<and> st_usage s'' = 0"
proof -
  have "40 + 24 + ap_alignment sample_freelist < 2 ^ 64" by (simp add: sample_freelist_def)
  from fl_allocate_fit [OF sample_freelist_inv _ this, of "(4096, 256)" 0] obtain f' ptr where
    a: "fl_allocate sample_freelist 40 0 = Some (Inr (f', ptr))" "ap_last f' \<le> 256"
    unfolding sample_required using sample_cut by fastforce
  then have s: "stack_allocate (\<lambda>f n m. run_policy (fl_allocate f n m)) ap_last (stack_new sample_freelist) 40 0 =
      Inr (increaseUsage (ap_last f') ((stack_new sample_freelist)\<lparr>st_policy := f'\<rparr>), ptr)"
    by (simp add: stack_allocate_def run_policy_def stack_new_def)
  have "freelist_rep sample_freelist Map.empty" using sample_freelist_inv by (auto simp: freelist_rep_def)
  with stack_free_list_accounting [OF _ _ _ _ _ _ s, of Map.empty] sample_freelist_fits a(2) s
  show ?thesis by (auto simp: stack_new_def live_bytes_def increaseUsage_def Let_def)
qed

subsection \<open>The linear allocator\<close>

text \<open>
  C35. While the buffer has room, \<open>LinearStaticAllocator\<close> hands out consecutive blocks: the new block starts where
  the previous ones end, stays inside the buffer, meets no live block, and the pointer can be given back.
\<close>

theorem linear_allocate_in_buffer:
  assumes "linear_rep p L" "0 < n" "linear_fresh p L n 0"
  shows "\<exists>p' ptr. linear_allocate p n = Inr (p', ptr) \<and> linear_rep p' (L(ptr \<mapsto> ap_last p')) \<and> L ptr = None \<and>
    ptr = lp_buffer p + ap_usage p + 8 \<and> ptr + n \<le> lp_buffer p + lp_total p \<and>
    linear_deallocate p' ptr = Inr (p', ap_last p')"
proof -
  from assms have al: "ap_alignment p \<noteq> 0" and n8: "add64 n 8 = n + 8"
    by (auto simp: linear_rep_def linear_fresh_def add64_exact)
  obtain pad where pad: "computePadding (n + 8) (ap_alignment p) = Inr pad" using computePadding_total [OF al] by blast
  then have sz: "computeAlignedSize (n + 8) (ap_alignment p) = Inr (add64 (n + 8) pad)" by (simp add: computeAlignedSize_def)
  with assms(3) have room: "ap_usage p + add64 (n + 8) pad \<le> lp_total p" by (simp add: linear_fresh_def)
  from computeAlignedSize_bounds [OF sz] assms(3) have b: "n + 8 \<le> add64 (n + 8) pad" by (simp add: linear_fresh_def)
  obtain p' ptr where a: "linear_allocate p n = Inr (p', ptr)"
    and p': "ap_last p' = add64 (n + 8) pad" "lp_buffer p' = lp_buffer p"
    using assms(2) room unfolding linear_allocate_def linear_padding [OF al]
    by (simp add: n8 pad Let_def)
  from linear_allocate_block [OF assms a]
  have r: "ptr \<noteq> 0" "L ptr = None" "linear_rep p' (L(ptr \<mapsto> ap_last p'))" "ptr = lp_buffer p + ap_usage p + 8" by auto
  from linear.dealloc_block [OF r(3), of ptr] have "\<exists>q. linear_deallocate p' ptr = Inr (q, ap_last p')" by auto
  then have "linear_deallocate p' ptr = Inr (p', ap_last p')"
    by (auto simp: linear_deallocate_def split: if_splits)
  with a r b room p'(1) show ?thesis by auto
qed

definition sample_linear :: linear_policy where
  "sample_linear = \<lparr>ap_usage = 0, ap_alignment = 8, ap_last = 0, lp_heap = (\<lambda>_. 0), lp_total = 128,
     lp_external = True, lp_buffer = 4096\<rparr>"

lemma sample_linear_rep: "linear_rep sample_linear Map.empty"
  by (simp add: linear_rep_def sample_linear_def headers_ok_empty)

theorem linear_allocate_in_buffer_witness:
  "\<exists>p' ptr. linear_allocate sample_linear 56 = Inr (p', ptr) \<and> ptr = 4104 \<and> linear_deallocate p' ptr = Inr (p', ap_last p')"
proof -
  have "linear_fresh sample_linear Map.empty 56 0"
    by (simp add: linear_fresh_def sample_linear_def computeAlignedSize_def computePadding_def add64_def)
  from linear_allocate_in_buffer [OF sample_linear_rep _ this] show ?thesis
    by (auto simp: sample_linear_def)
qed

text \<open>
  The check of \<open>LinearStaticAllocator::allocate\<close> ignores what is already used: a request that fits the total
  size is granted even when the rest of the buffer is too small, and its block ends beyond the buffer.
\<close>

theorem linear_allocate_overflows:
  assumes "0 < n" "ap_alignment p \<noteq> 0" "n + 8 + ap_alignment p < 2 ^ 64"
    and "computeAlignedSize (n + 8) (ap_alignment p) = Inr sz" "sz \<le> lp_total p" "lp_total p < ap_usage p + sz"
  shows "\<exists>p'. linear_allocate p n = Inr (p', lp_buffer p + ap_usage p + 8) \<and> ap_last p' = sz \<and>
    lp_buffer p + lp_total p < lp_buffer p + ap_usage p + ap_last p'"
proof -
  from assms(3) have n8: "add64 n 8 = n + 8" by (simp add: add64_exact)
  from assms(4) obtain pad where "computePadding (n + 8) (ap_alignment p) = Inr pad" "sz = add64 (n + 8) pad"
    by (auto simp: computeAlignedSize_def)
  with assms show ?thesis unfolding linear_allocate_def linear_padding [OF assms(2)] by (simp add: n8 Let_def)
qed

theorem linear_allocate_overflows_witness:
  "\<exists>p'. linear_allocate (sample_linear\<lparr>ap_usage := 64\<rparr>) 100 = Inr (p', 4168) \<and> 4096 + 128 < 4160 + ap_last p'"
  using linear_allocate_overflows [of 100 "sample_linear\<lparr>ap_usage := 64\<rparr>" 112]
  by (auto simp: sample_linear_def computeAlignedSize_def computePadding_def add64_def)

end
