(* ===== verification/BRVSound.thy ===== *)
theory BRVSound
  imports BRV
begin

text \<open>
  Soundness of the repetition vector: a run that returns has balanced every edge between two actors. The traversal
  invariant says that the queue holds exactly the visited vertices and that a visited edge has visited ends; a
  finished component is closed under its edges, and the later components do not touch its values.
\<close>

subsection \<open>The traversal\<close>

definition ends_in :: "pi_graph \<Rightarrow> nat set \<Rightarrow> nat \<Rightarrow> bool" where
  "ends_in g S e \<longleftrightarrow> (\<forall>i. e_source (g_edges g ! e) = Actor i \<longrightarrow> i \<in> S) \<and> (\<forall>i. e_sink (g_edges g ! e) = Actor i \<longrightarrow> i \<in> S)"

definition handler_inv :: "pi_graph \<Rightarrow> brv_handler \<Rightarrow> bool" where
  "handler_inv g h \<longleftrightarrow> length (visitedVertices h) = length (g_vertices g) \<and> length (visitedEdges h) = length (g_edges g) \<and>
     length (rationalVector h) = length (g_vertices g) \<and> distinct (vertexVector h) \<and>
     set (vertexVector h) = {i. i < length (g_vertices g) \<and> visitedVertices h ! i} \<and>
     (\<forall>e < length (g_edges g). visitedEdges h ! e \<longrightarrow> ends_in g (set (vertexVector h)) e)"

text \<open>What only grows.\<close>

definition extends :: "brv_handler \<Rightarrow> brv_handler \<Rightarrow> bool" where
  "extends h h' \<longleftrightarrow> (\<exists>vs. vertexVector h' = vertexVector h @ vs) \<and> (\<forall>e. visitedEdges h ! e \<longrightarrow> visitedEdges h' ! e)"

lemma extends_refl [simp]: "extends h h"
  by (simp add: extends_def)

lemma extends_trans: "extends a b \<Longrightarrow> extends b c \<Longrightarrow> extends a c"
  by (fastforce simp: extends_def)

lemma extends_set: "extends h h' \<Longrightarrow> set (vertexVector h) \<subseteq> set (vertexVector h')"
  by (auto simp: extends_def)

lemma put_ref_length: "put_ref d r st = Inr st' \<Longrightarrow> length (snd st') = length (snd st)"
  by (cases d; cases st) auto

lemma propagate_length: "propagate num rate dst other st = Inr st' \<Longrightarrow> length (snd st') = length (snd st)"
  by (auto simp: propagate_def split: if_splits dest!: put_ref_length)

lemma updateRational_length: "updateRational g rates e rv = Inr rv' \<Longrightarrow> length rv' = length rv"
  by (auto simp: updateRational_def split: if_splits prod.splits dest!: propagate_length)

text \<open>The other end of an edge just marked is registered: the invariant is back, and its vertex is in the queue.\<close>

lemma register_vertex_inv:
  assumes r: "register_vertex i h1 = Inr h2" and inv: "handler_inv g h" and e: "e < length (g_edges g)"
    and h1: "h1 = h\<lparr>visitedEdges := (visitedEdges h)[e := True], rationalVector := rv\<rparr>" and rv: "length rv = length (rationalVector h)"
    and ends: "ends_in g (insert i (set (vertexVector h))) e"
  shows "handler_inv g h2 \<and> extends h h2 \<and> visitedEdges h2 ! e"
proof -
  from r inv h1 have i: "i < length (g_vertices g)" by (auto simp: register_vertex_def handler_inv_def)
  have mono: "ends_in g S k \<Longrightarrow> S \<subseteq> T \<Longrightarrow> ends_in g T k" for S T k by (auto simp: ends_in_def)
  show ?thesis
  proof (cases "visitedVertices h ! i")
    case True
    then have h2: "h2 = h1" and "i \<in> set (vertexVector h)" using r inv h1 i by (auto simp: register_vertex_def handler_inv_def)
    then have "ends_in g (set (vertexVector h)) e" using ends by (simp add: insert_absorb)
    then show ?thesis using inv e rv h1 h2
      by (auto simp: handler_inv_def extends_def nth_list_update)
  next
    case False
    then have h2: "h2 = h1\<lparr>vertexVector := vertexVector h1 @ [i], visitedVertices := (visitedVertices h1)[i := True]\<rparr>"
      using r inv h1 i by (auto simp: register_vertex_def handler_inv_def)
    have "i \<notin> set (vertexVector h)" using inv False by (auto simp: handler_inv_def)
    moreover have "ends_in g (insert i (set (vertexVector h))) k"
      if "k < length (g_edges g)" "(visitedEdges h)[e := True] ! k" for k
    proof (cases "k = e")
      case False
      with that have "visitedEdges h ! k" by simp
      with that inv have "ends_in g (set (vertexVector h)) k" unfolding handler_inv_def by blast
      then show ?thesis by (rule mono) blast
    qed (use ends in simp)
    ultimately show ?thesis using inv e rv h1 h2 i
      by (auto simp: handler_inv_def extends_def nth_list_update)
  qed
qed

lemma mark_edge_inv:
  assumes inv: "handler_inv g h" and e: "e < length (g_edges g)" and rv: "length rv = length (rationalVector h)"
    and ends: "ends_in g (set (vertexVector h)) e"
  shows "handler_inv g (h\<lparr>visitedEdges := (visitedEdges h)[e := True], rationalVector := rv\<rparr>) \<and>
    extends h (h\<lparr>visitedEdges := (visitedEdges h)[e := True], rationalVector := rv\<rparr>)"
  using assms by (auto simp: handler_inv_def extends_def nth_list_update)

lemma visit_output_edge_inv:
  assumes v: "visit_output_edge g rates (h, c) oe = Inr (h', c')" and wf: "graph_wf g" and inv: "handler_inv g h"
    and i: "i \<in> set (vertexVector h)" "oe \<in> set (v_out (g_vertices g ! i))"
  shows "handler_inv g h' \<and> extends h h' \<and> (\<exists>e. oe = Some e \<and> e < length (g_edges g) \<and> visitedEdges h' ! e)"
proof -
  from v obtain e where oe: "oe = Some e" by (cases oe) (auto simp: visit_output_edge_def)
  from i inv have "i < length (g_vertices g)" by (auto simp: handler_inv_def)
  with wf i oe have e: "e < length (g_edges g)" and src: "e_source (g_edges g ! e) = Actor i"
    using graph_wf_out by blast+
  show ?thesis
  proof (cases "visitedEdges h ! e")
    case True
    then show ?thesis using v inv e oe by (auto simp: visit_output_edge_def handler_inv_def)
  next
    case False
    then obtain rv where rv: "updateRational g rates e (rationalVector h) = Inr rv"
      using v oe e inv by (auto simp: visit_output_edge_def handler_inv_def)
    let ?h1 = "h\<lparr>visitedEdges := (visitedEdges h)[e := True], rationalVector := rv\<rparr>"
    note len = updateRational_length [OF rv]
    have lenE: "e < length (visitedEdges h)" using inv e by (simp add: handler_inv_def)
    show ?thesis
    proof (cases "e_sink (g_edges g ! e)")
      case (Actor j)
      have "subtype g (Actor j) \<noteq> OUTPUT" using graph_wf_subtype [OF wf e] Actor by auto
      then have r: "register_vertex j ?h1 = Inr h'"
        using v oe e lenE False rv Actor by (auto simp: visit_output_edge_def Let_def)
      have "ends_in g (insert j (set (vertexVector h))) e" using src Actor i by (simp add: ends_in_def)
      from register_vertex_inv [OF r inv e refl len this] show ?thesis using oe e by simp
    next
      case (Out_If k)
      then have h': "h' = ?h1" using v oe e lenE False rv by (auto simp: visit_output_edge_def Let_def)
      have "ends_in g (set (vertexVector h)) e" using src Out_If i by (simp add: ends_in_def)
      from mark_edge_inv [OF inv e len this] show ?thesis using oe e lenE h' by simp
    next
      case (In_If k)
      then show ?thesis using v oe e lenE False rv by (auto simp: visit_output_edge_def Let_def)
    qed
  qed
qed

lemma visit_input_edge_inv:
  assumes v: "visit_input_edge g rates (h, c) oe = Inr (h', c')" and wf: "graph_wf g" and inv: "handler_inv g h"
    and i: "i \<in> set (vertexVector h)" "oe \<in> set (v_in (g_vertices g ! i))"
  shows "handler_inv g h' \<and> extends h h' \<and> (\<exists>e. oe = Some e \<and> e < length (g_edges g) \<and> visitedEdges h' ! e)"
proof -
  from v obtain e where oe: "oe = Some e" by (cases oe) (auto simp: visit_input_edge_def)
  from i inv have "i < length (g_vertices g)" by (auto simp: handler_inv_def)
  with wf i oe have e: "e < length (g_edges g)" and snk: "e_sink (g_edges g ! e) = Actor i"
    using graph_wf_in by blast+
  show ?thesis
  proof (cases "visitedEdges h ! e")
    case True
    then show ?thesis using v inv e oe by (auto simp: visit_input_edge_def handler_inv_def)
  next
    case False
    then obtain rv where rv: "updateRational g rates e (rationalVector h) = Inr rv"
      using v oe e inv by (auto simp: visit_input_edge_def handler_inv_def)
    let ?h1 = "h\<lparr>visitedEdges := (visitedEdges h)[e := True], rationalVector := rv\<rparr>"
    note len = updateRational_length [OF rv]
    have lenE: "e < length (visitedEdges h)" using inv e by (simp add: handler_inv_def)
    show ?thesis
    proof (cases "e_source (g_edges g ! e)")
      case (Actor j)
      have "subtype g (Actor j) \<noteq> INPUT" using graph_wf_subtype [OF wf e] Actor by auto
      then have r: "register_vertex j ?h1 = Inr h'"
        using v oe e lenE False rv Actor by (auto simp: visit_input_edge_def Let_def)
      have "ends_in g (insert j (set (vertexVector h))) e" using snk Actor i by (simp add: ends_in_def)
      from register_vertex_inv [OF r inv e refl len this] show ?thesis using oe e by simp
    next
      case (In_If k)
      then have h': "h' = ?h1" using v oe e lenE False rv by (auto simp: visit_input_edge_def Let_def)
      have "ends_in g (set (vertexVector h)) e" using snk In_If i by (simp add: ends_in_def)
      from mark_edge_inv [OF inv e len this] show ?thesis using oe e lenE h' by simp
    next
      case (Out_If k)
      then show ?thesis using v oe e lenE False rv by (auto simp: visit_input_edge_def Let_def)
    qed
  qed
qed

text \<open>Every port of a processed vertex carries a visited edge.\<close>

definition processed :: "pi_graph \<Rightarrow> brv_handler \<Rightarrow> nat \<Rightarrow> bool" where
  "processed g h i \<longleftrightarrow> (\<forall>oe \<in> set (v_out (g_vertices g ! i)) \<union> set (v_in (g_vertices g ! i)).
     \<exists>e. oe = Some e \<and> e < length (g_edges g) \<and> visitedEdges h ! e)"

lemma processed_extends: "processed g h i \<Longrightarrow> extends h h' \<Longrightarrow> processed g h' i"
  unfolding processed_def extends_def by blast

lemma visit_edges_inv:
  assumes "foldE f (h, c) oes = Inr (h', c')" "handler_inv g h" "i \<in> set (vertexVector h)"
    and step: "\<And>h c oe h' c'. f (h, c) oe = Inr (h', c') \<Longrightarrow> oe \<in> set oes \<Longrightarrow> handler_inv g h \<Longrightarrow>
      i \<in> set (vertexVector h) \<Longrightarrow> handler_inv g h' \<and> extends h h' \<and> (\<exists>e. oe = Some e \<and> e < m \<and> visitedEdges h' ! e)"
  shows "handler_inv g h' \<and> extends h h' \<and> (\<forall>oe \<in> set oes. \<exists>e. oe = Some e \<and> e < m \<and> visitedEdges h' ! e)"
  using assms
proof (induction oes arbitrary: h c)
  case (Cons oe oes)
  from Cons.prems(1) obtain h1 c1 where s: "f (h, c) oe = Inr (h1, c1)" "foldE f (h1, c1) oes = Inr (h', c')"
    by (auto simp: bindE_eq_Inr)
  from Cons.prems(4) [OF s(1) _ Cons.prems(2,3)] have h1: "handler_inv g h1" "extends h h1"
    and e: "\<exists>e. oe = Some e \<and> e < m \<and> visitedEdges h1 ! e" by auto
  have "i \<in> set (vertexVector h1)" using Cons.prems(3) extends_set [OF h1(2)] by auto
  from Cons.IH [OF s(2) h1(1) this] Cons.prems(4) have r: "handler_inv g h'" "extends h1 h'"
      "\<forall>oe \<in> set oes. \<exists>e. oe = Some e \<and> e < m \<and> visitedEdges h' ! e" by auto
  with h1 e show ?case by (auto intro: extends_trans simp: extends_def)
qed simp

lemma visit_vertex_inv:
  assumes v: "visit_vertex g rates seed i (h, c) = Inr (h', c')" and wf: "graph_wf g" and inv: "handler_inv g h"
    and i: "i \<in> set (vertexVector h)"
  shows "handler_inv g h' \<and> extends h h' \<and> processed g h' i"
proof -
  from i inv have il: "i < length (g_vertices g)" by (auto simp: handler_inv_def)
  let ?v = "g_vertices g ! i"
  from v il obtain c2 h1 c1 where
    f: "foldE (visit_output_edge g rates) (h, c2) (v_out ?v) = Inr (h1, c1)"
       "foldE (visit_input_edge g rates) (h1, c1) (v_in ?v) = Inr (h', c')"
    by (auto simp: visit_vertex_def Let_def)
  have o: "handler_inv g h1 \<and> extends h h1 \<and>
      (\<forall>oe \<in> set (v_out ?v). \<exists>e. oe = Some e \<and> e < length (g_edges g) \<and> visitedEdges h1 ! e)"
    by (rule visit_edges_inv [OF f(1) inv i]) (rule visit_output_edge_inv [OF _ wf])
  then have h1: "handler_inv g h1" and "i \<in> set (vertexVector h1)" using i extends_set by blast+
  have n: "handler_inv g h' \<and> extends h1 h' \<and>
      (\<forall>oe \<in> set (v_in ?v). \<exists>e. oe = Some e \<and> e < length (g_edges g) \<and> visitedEdges h' ! e)"
    by (rule visit_edges_inv [OF f(2) h1 \<open>i \<in> set (vertexVector h1)\<close>]) (rule visit_input_edge_inv [OF _ wf])
  have "\<exists>e. oe = Some e \<and> e < length (g_edges g) \<and> visitedEdges h' ! e" if "oe \<in> set (v_out ?v)" for oe
  proof -
    from that o obtain e where "oe = Some e" "e < length (g_edges g)" "visitedEdges h1 ! e" by blast
    with n show ?thesis by (auto simp: extends_def)
  qed
  with n have "processed g h' i" by (auto simp: processed_def)
  with o n show ?thesis using extends_trans by blast
qed

lemma extract_loop_inv:
  assumes "extract_loop g rates seed ix (h, c) = Inr (h', c')" "graph_wf g" "handler_inv g h"
    and "\<forall>j < ix. j < length (vertexVector h) \<longrightarrow> processed g h (vertexVector h ! j)"
  shows "handler_inv g h' \<and> extends h h' \<and> (\<forall>i \<in> set (vertexVector h'). processed g h' i)"
  using assms
proof (induction g rates seed ix "(h, c)" arbitrary: h c rule: extract_loop.induct)
  case (1 g rates seed ix)
  show ?case
  proof (cases "ix < length (vertexVector h)")
    case True
    with 1(2) obtain h1 c1 where v: "visit_vertex g rates seed (vertexVector h ! ix) (h, c) = Inr (h1, c1)"
        and l: "extract_loop g rates seed (Suc ix) (h1, c1) = Inr (h', c')"
      by (subst (asm) extract_loop.simps) (auto simp: bindE_eq_Inr)
    from visit_vertex_inv [OF v 1(3,4)] True
    have h1: "handler_inv g h1" "extends h h1" "processed g h1 (vertexVector h ! ix)" by auto
    have nth: "vertexVector h1 ! j = vertexVector h ! j" if "j < length (vertexVector h)" for j
      using h1(2) that by (auto simp: extends_def nth_append)
    have "\<forall>j < Suc ix. j < length (vertexVector h1) \<longrightarrow> processed g h1 (vertexVector h1 ! j)"
      using 1(5) h1 nth True processed_extends [OF _ h1(2)] by (auto simp: less_Suc_eq)
    with 1(1) [of h1 c1] True v l 1(3) h1(1)
    have "handler_inv g h' \<and> extends h1 h' \<and> (\<forall>i \<in> set (vertexVector h'). processed g h' i)" by simp
    then show ?thesis using h1(2) extends_trans by blast
  next
    case False
    with 1(2) have "h' = h" by (subst (asm) extract_loop.simps) simp
    with False 1(4,5) show ?thesis by (fastforce simp: in_set_conv_nth)
  qed
qed

lemma seed_inv:
  assumes inv: "handler_inv g h" and s: "s < length (visitedVertices h)" and new: "\<not> visitedVertices h ! s"
  shows "handler_inv g (h\<lparr>vertexVector := vertexVector h @ [s], visitedVertices := (visitedVertices h)[s := True]\<rparr>)"
proof -
  have "s \<notin> set (vertexVector h)" using inv new by (auto simp: handler_inv_def)
  then show ?thesis using assms by (fastforce simp: handler_inv_def nth_list_update ends_in_def)
qed

lemma extractConnectedComponent_inv:
  assumes x: "extractConnectedComponent g rates s h = Inr (h', c)" and wf: "graph_wf g" and inv: "handler_inv g h"
    and old: "\<forall>i \<in> set (vertexVector h). processed g h i" and new: "\<not> visitedVertices h ! s"
  shows "handler_inv g h' \<and> extends h h' \<and> (\<forall>i \<in> set (vertexVector h'). processed g h' i) \<and> s \<in> set (vertexVector h')"
proof -
  let ?h = "h\<lparr>vertexVector := vertexVector h @ [s], visitedVertices := (visitedVertices h)[s := True]\<rparr>"
  let ?c = "\<lparr>c_inputs = [], c_outputs = [], c_configs = [], c_edgeCount = 0\<rparr>"
  from x have s: "s < length (visitedVertices h)" and l: "extract_loop g rates s (length (vertexVector h)) (?h, ?c) = Inr (h', c)"
    by (auto simp: extractConnectedComponent_def)
  have hinv: "handler_inv g ?h" using seed_inv [OF inv s new] .
  have "\<forall>j < length (vertexVector h). j < length (vertexVector ?h) \<longrightarrow> processed g ?h (vertexVector ?h ! j)"
    using old processed_extends [of g h _ ?h] by (simp add: extends_def nth_append)
  from extract_loop_inv [OF l wf hinv this] show ?thesis
    by (auto simp: extends_def)
qed

subsection \<open>The edge count\<close>

lemma visit_edges_count:
  "foldE f hc oes = Inr hc' \<Longrightarrow> (\<And>hc oe hc'. f hc oe = Inr hc' \<Longrightarrow> c_edgeCount (snd hc) \<le> c_edgeCount (snd hc')) \<Longrightarrow>
   c_edgeCount (snd hc) \<le> c_edgeCount (snd hc')"
  by (rule foldE_invariant [where P = "\<lambda>x. c_edgeCount (snd hc) \<le> c_edgeCount (snd x)"]) (auto intro: order_trans)

lemma visit_output_edge_count: "visit_output_edge g rates hc oe = Inr hc' \<Longrightarrow> c_edgeCount (snd hc) \<le> c_edgeCount (snd hc')"
  by (cases hc) (auto simp: visit_output_edge_def Let_def split: option.splits if_splits vref.splits)

lemma visit_input_edge_count: "visit_input_edge g rates hc oe = Inr hc' \<Longrightarrow> c_edgeCount (snd hc) \<le> c_edgeCount (snd hc')"
  by (cases hc) (auto simp: visit_input_edge_def Let_def split: option.splits if_splits vref.splits)

lemma visit_vertex_count:
  assumes "visit_vertex g rates seed i hc = Inr hc'"
  shows "c_edgeCount (snd hc) + length (v_out (g_vertices g ! i)) \<le> c_edgeCount (snd hc')"
proof -
  let ?c1 = "(snd hc)\<lparr>c_edgeCount := c_edgeCount (snd hc) + length (v_out (g_vertices g ! i))\<rparr>"
  define c2 where "c2 = (if v_type (g_vertices g ! i) = CONFIG then ?c1\<lparr>c_configs := c_configs ?c1 @ [seed]\<rparr> else ?c1)"
  from assms obtain hc1 where
    f: "foldE (visit_output_edge g rates) (fst hc, c2) (v_out (g_vertices g ! i)) = Inr hc1"
       "foldE (visit_input_edge g rates) hc1 (v_in (g_vertices g ! i)) = Inr hc'"
    unfolding visit_vertex_def Let_def c2_def by (elim bindE_InrE) simp
  have c: "c_edgeCount c2 = c_edgeCount (snd hc) + length (v_out (g_vertices g ! i))" by (simp add: c2_def)
  have "c_edgeCount (snd (fst hc, c2)) \<le> c_edgeCount (snd hc1)"
    by (rule visit_edges_count [OF f(1)]) (rule visit_output_edge_count)
  moreover have "c_edgeCount (snd hc1) \<le> c_edgeCount (snd hc')"
    by (rule visit_edges_count [OF f(2)]) (rule visit_input_edge_count)
  ultimately show ?thesis using c by simp
qed

text \<open>So a component of no edge has only vertices without output ports.\<close>

lemma extract_loop_count:
  assumes "extract_loop g rates seed ix (h, c) = Inr (h', c')" "graph_wf g" "handler_inv g h"
  shows "c_edgeCount c \<le> c_edgeCount c' \<and> extends h h' \<and>
    (\<forall>j. ix \<le> j \<longrightarrow> j < length (vertexVector h') \<longrightarrow> length (v_out (g_vertices g ! (vertexVector h' ! j))) \<le> c_edgeCount c')"
  using assms
proof (induction g rates seed ix "(h, c)" arbitrary: h c rule: extract_loop.induct)
  case (1 g rates seed ix)
  show ?case
  proof (cases "ix < length (vertexVector h)")
    case True
    with 1(2) obtain h1 c1 where v: "visit_vertex g rates seed (vertexVector h ! ix) (h, c) = Inr (h1, c1)"
        and l: "extract_loop g rates seed (Suc ix) (h1, c1) = Inr (h', c')"
      by (subst (asm) extract_loop.simps) (auto simp: bindE_eq_Inr)
    from visit_vertex_inv [OF v 1(3,4)] True have h1: "handler_inv g h1" "extends h h1" by auto
    with 1(1) [of h1 c1] True v l 1(3) have IH: "c_edgeCount c1 \<le> c_edgeCount c'" "extends h1 h'"
        "\<And>j. Suc ix \<le> j \<Longrightarrow> j < length (vertexVector h') \<Longrightarrow> length (v_out (g_vertices g ! (vertexVector h' ! j))) \<le> c_edgeCount c'"
      by simp_all
    have ext: "extends h h'" using h1(2) IH(2) extends_trans by blast
    then have "vertexVector h' ! ix = vertexVector h ! ix" using True by (auto simp: extends_def nth_append)
    with visit_vertex_count [OF v] IH(1)
    have "length (v_out (g_vertices g ! (vertexVector h' ! ix))) \<le> c_edgeCount c'" "c_edgeCount c \<le> c_edgeCount c'"
      by simp_all
    then show ?thesis using IH(3) ext by (metis le_antisym not_less_eq_eq)
  next
    case False
    with 1(2) have "h' = h" "c' = c" by (subst (asm) extract_loop.simps, simp)+
    with False show ?thesis by auto
  qed
qed

subsection \<open>What the later components leave alone\<close>

definition agree_off :: "nat list \<Rightarrow> nat list \<Rightarrow> nat list \<Rightarrow> bool" where
  "agree_off vs rv rv' \<longleftrightarrow> length rv' = length rv \<and> (\<forall>k. k \<notin> set vs \<longrightarrow> rv' ! k = rv ! k)"

lemma agree_off_refl [simp]: "agree_off vs rv rv"
  by (simp add: agree_off_def)

lemma agree_off_trans: "agree_off vs a b \<Longrightarrow> agree_off vs b c \<Longrightarrow> agree_off vs a c"
  by (simp add: agree_off_def)

lemma setRepetitionValue_agree: "setRepetitionValue g i x rv = Inr rv' \<Longrightarrow> i \<in> set vs \<Longrightarrow> agree_off vs rv rv'"
  by (auto simp: setRepetitionValue_def agree_off_def nth_list_update split: if_splits)

lemma scale_vertex_agree:
  assumes "scale_vertex g k (h, rv) i = Inr (h', rv')" "i \<in> set vs"
  shows "agree_off vs rv rv' \<and> vertexVector h' = vertexVector h \<and> visitedVertices h' = visitedVertices h \<and>
    visitedEdges h' = visitedEdges h \<and> length (rationalVector h') = length (rationalVector h)"
proof -
  from assms obtain x where "setRepetitionValue g i x rv = Inr rv'" by (auto simp: scale_vertex_def)
  from setRepetitionValue_agree [OF this assms(2)] assms(1) show ?thesis by (auto simp: scale_vertex_def)
qed

lemma computeRepetitionValues_agree:
  assumes "computeRepetitionValues g vs (h, rv) = Inr (h', rv')"
  shows "agree_off vs rv rv' \<and> vertexVector h' = vertexVector h \<and> visitedVertices h' = visitedVertices h \<and>
    visitedEdges h' = visitedEdges h \<and> length (rationalVector h') = length (rationalVector h)"
proof -
  let ?P = "\<lambda>(h1, rv1). agree_off vs rv rv1 \<and> vertexVector h1 = vertexVector h \<and> visitedVertices h1 = visitedVertices h \<and>
    visitedEdges h1 = visitedEdges h \<and> length (rationalVector h1) = length (rationalVector h)"
  from assms obtain k where "foldE (scale_vertex g k) (h, rv) vs = Inr (h', rv')"
    by (auto simp: computeRepetitionValues_def)
  then have "?P (h', rv')"
    by (rule foldE_invariant) (auto dest!: scale_vertex_agree [where vs = vs] intro: agree_off_trans)
  then show ?thesis by simp
qed

lemma checkAlone_agree: "checkAloneVertexInSubgraph g rates i rv = Inr rv' \<Longrightarrow> i \<in> set vs \<Longrightarrow> agree_off vs rv rv'"
  unfolding checkAloneVertexInSubgraph_def
  by (elim bindE_InrE, split if_split_asm) (auto split: if_splits dest: setRepetitionValue_agree)

lemma set_alone_agree:
  assumes "set_alone g rates c vs rv = Inr rv'"
  shows "agree_off vs rv rv'"
proof (cases "length vs = 1 \<and> (c_inputs c \<noteq> [] \<or> c_outputs c \<noteq> [] \<or> c_configs c \<noteq> [])")
  case True
  then have "hd vs \<in> set vs" by (cases vs) auto
  from True assms obtain rv1 where a: "checkAloneVertexInSubgraph g rates (hd vs) rv = Inr rv1"
      and b: "rv' = rv1 \<or> setRepetitionValue g (hd vs) 1 rv1 = Inr rv'"
    by (auto simp: set_alone_def split: if_splits)
  from checkAlone_agree [OF a \<open>hd vs \<in> set vs\<close>] b \<open>hd vs \<in> set vs\<close> show ?thesis
    using agree_off_trans setRepetitionValue_agree by blast
qed (use assms in \<open>auto simp: set_alone_def split: if_splits\<close>)

lemma updateComponentBRV_agree:
  assumes "updateComponentBRV g rates c vs rv = Inr rv'"
  shows "agree_off vs rv rv'"
proof -
  from assms obtain k where "rv' = rv \<or>
      foldE (\<lambda>rv i. bindE (get_at rv i) (\<lambda>r. setRepetitionValue g i (mul32 r k) rv)) rv vs = Inr rv'"
    unfolding updateComponentBRV_def by (elim bindE_InrE, split if_split_asm) blast+
  then show ?thesis
  proof
    assume "foldE (\<lambda>rv i. bindE (get_at rv i) (\<lambda>r. setRepetitionValue g i (mul32 r k) rv)) rv vs = Inr rv'"
    then show ?thesis
      by (rule foldE_invariant) (auto intro: agree_off_trans setRepetitionValue_agree)
  qed simp
qed

subsection \<open>The consistency check and the balance equations\<close>

definition balanced :: "pi_graph \<Rightarrow> rates \<Rightarrow> nat list \<Rightarrow> nat \<Rightarrow> bool" where
  "balanced g rates rv i \<longleftrightarrow> (\<forall>e j. Some e \<in> set (v_out (g_vertices g ! i)) \<longrightarrow> e_sink (g_edges g ! e) = Actor j \<longrightarrow>
     fst (rates ! e) * int (rv ! i) = snd (rates ! e) * int (rv ! j))"

lemma foldE_unit: "foldE (\<lambda>_ x. f x) () xs = Inr () \<Longrightarrow> x \<in> set xs \<Longrightarrow> f x = Inr ()"
  by (induction xs) auto

lemma checkConsistency_balanced:
  assumes c: "checkConsistency g rates vs rv = Inr u" and wf: "graph_wf g" and i: "i \<in> set vs"
  shows "balanced g rates rv i"
  unfolding balanced_def
proof (intro allI impI)
  fix e j assume e: "Some e \<in> set (v_out (g_vertices g ! i))" and j: "e_sink (g_edges g ! e) = Actor j"
  from foldE_unit [of _ vs, OF _ i] c have
    "bindE (get_at (g_vertices g) i) (\<lambda>v. foldE (\<lambda>_ oe. check_edge g rates rv oe) () (v_out v)) = Inr ()"
    by (auto simp: checkConsistency_def)
  then have il: "i < length (g_vertices g)" and f: "foldE (\<lambda>_ oe. check_edge g rates rv oe) () (v_out (g_vertices g ! i)) = Inr ()"
    by auto
  from graph_wf_out [OF wf il e] have el: "e < length (g_edges g)" and src: "e_source (g_edges g ! e) = Actor i" by auto
  from graph_wf_subtype [OF wf el] j have "subtype g (Actor j) \<noteq> OUTPUT" by auto
  moreover obtain a b where "rates ! e = (a, b)" by (cases "rates ! e")
  ultimately show "fst (rates ! e) * int (rv ! i) = snd (rates ! e) * int (rv ! j)"
    using foldE_unit [OF f e] el src j
    by (auto simp: check_edge_def some_edge_def repetitionValue_def split: if_splits)
qed

text \<open>A processed vertex has the sink of each of its edges in the queue, so frames keep it balanced.\<close>

lemma balanced_frame:
  assumes b: "balanced g rates rv i" and p: "processed g h i" and inv: "handler_inv g h" and i: "i \<in> set (vertexVector h)"
    and wf: "graph_wf g" and off: "\<And>k. k \<in> set (vertexVector h) \<Longrightarrow> rv' ! k = rv ! k"
  shows "balanced g rates rv' i"
  unfolding balanced_def
proof (intro allI impI)
  fix e j assume e: "Some e \<in> set (v_out (g_vertices g ! i))" and j: "e_sink (g_edges g ! e) = Actor j"
  from p e have "e < length (g_edges g)" "visitedEdges h ! e" by (auto simp: processed_def)
  with inv have "ends_in g (set (vertexVector h)) e" by (auto simp: handler_inv_def)
  with j have "j \<in> set (vertexVector h)" by (auto simp: ends_in_def)
  with b e j off i show "fst (rates ! e) * int (rv' ! i) = snd (rates ! e) * int (rv' ! j)"
    by (simp add: balanced_def)
qed

definition brv_inv :: "pi_graph \<Rightarrow> rates \<Rightarrow> brv_handler \<times> nat list \<Rightarrow> bool" where
  "brv_inv g rates hr \<longleftrightarrow> handler_inv g (fst hr) \<and>
     (\<forall>i \<in> set (vertexVector (fst hr)). processed g (fst hr) i \<and> balanced g rates (snd hr) i)"

lemma handler_inv_rationals:
  assumes "handler_inv g h" "vertexVector h' = vertexVector h" "visitedVertices h' = visitedVertices h"
    "visitedEdges h' = visitedEdges h" "length (rationalVector h') = length (rationalVector h)"
  shows "handler_inv g h'" "processed g h' i \<longleftrightarrow> processed g h i"
proof -
  show "handler_inv g h'" using assms(1) unfolding handler_inv_def assms(2-5) .
  show "processed g h' i \<longleftrightarrow> processed g h i" unfolding processed_def assms(4) ..
qed

lemma compute_component_inv:
  assumes c: "compute_component g rates (h, rv) s = Inr (h', rv')" and wf: "graph_wf g" and inv: "brv_inv g rates (h, rv)"
  shows "brv_inv g rates (h', rv') \<and> s \<in> set (vertexVector h') \<and> set (vertexVector h) \<subseteq> set (vertexVector h')"
proof (cases "visitedVertices h ! s")
  case True
  with c inv have "h' = h" "rv' = rv" "s < length (g_vertices g)"
    by (auto simp: compute_component_def brv_inv_def handler_inv_def)
  with inv True show ?thesis by (auto simp: brv_inv_def handler_inv_def)
next
  case False
  have hinv: "handler_inv g h" and old: "\<forall>i \<in> set (vertexVector h). processed g h i"
    using inv by (auto simp: brv_inv_def)
  from c False obtain h1 cc where x: "extractConnectedComponent g rates s h = Inr (h1, cc)"
    by (auto simp: compute_component_def)
  from extractConnectedComponent_inv [OF x wf hinv old False]
  have h1: "handler_inv g h1" "extends h h1" "\<forall>i \<in> set (vertexVector h1). processed g h1 i" "s \<in> set (vertexVector h1)" by auto
  define vs where "vs = drop (length (vertexVector h)) (vertexVector h1)"
  have vec: "vertexVector h1 = vertexVector h @ vs" using h1(2) by (auto simp: extends_def vs_def)
  have disj: "k \<notin> set vs" if "k \<in> set (vertexVector h)" for k
    using h1(1) vec that by (auto simp: handler_inv_def)
  have keep: "balanced g rates rv2 i" if "agree_off vs rv rv2" "i \<in> set (vertexVector h)" for rv2 i
    using balanced_frame [of g rates rv i h rv2] that inv hinv wf disj by (auto simp: brv_inv_def agree_off_def)
  show ?thesis
  proof (cases "c_edgeCount cc = 0")
    case True
    then have r: "h' = h1" "rv' = rv" using c False x by (auto simp: compute_component_def Let_def)
    have "v_out (g_vertices g ! i) = []" if "i \<in> set vs" for i
    proof -
      from that obtain j where j: "j < length vs" "i = vs ! j" by (auto simp: in_set_conv_nth)
      from x obtain hh where l: "extract_loop g rates s (length (vertexVector h)) (hh, \<lparr>c_inputs = [], c_outputs = [], c_configs = [], c_edgeCount = 0\<rparr>) = Inr (h1, cc)"
          and "hh = h\<lparr>vertexVector := vertexVector h @ [s], visitedVertices := (visitedVertices h)[s := True]\<rparr>"
          and "s < length (visitedVertices h)"
        by (auto simp: extractConnectedComponent_def)
      then have "handler_inv g hh" using seed_inv [OF hinv] \<open>\<not> visitedVertices h ! s\<close> by simp
      from extract_loop_count [OF l wf this] j vec True show ?thesis
        by (auto dest: spec [of _ "length (vertexVector h) + j"])
    qed
    then have "balanced g rates rv i" if "i \<in> set vs" for i using that by (simp add: balanced_def)
    with keep [of rv] vec h1 r show ?thesis by (auto simp: brv_inv_def)
  next
    case False
    with c \<open>\<not> visitedVertices h ! s\<close> x obtain h2 rv1 rv2 rv3 u where
      s1: "computeRepetitionValues g vs (h1, rv) = Inr (h2, rv1)" and s2: "set_alone g rates cc vs rv1 = Inr rv2"
      and s3: "updateComponentBRV g rates cc vs rv2 = Inr rv3" and s4: "checkConsistency g rates vs rv3 = Inr u"
      and r: "h' = h2" "rv' = rv3"
      by (auto simp: compute_component_def Let_def vs_def)
    note a = computeRepetitionValues_agree [OF s1]
    have off: "agree_off vs rv rv3"
      using a set_alone_agree [OF s2] updateComponentBRV_agree [OF s3] agree_off_trans by blast
    have "handler_inv g h2" "\<And>i. processed g h2 i \<longleftrightarrow> processed g h1 i"
      using handler_inv_rationals [OF h1(1), of h2] a by blast+
    moreover have "balanced g rates rv3 i" if "i \<in> set vs" for i
      using checkConsistency_balanced [OF s4 wf that] .
    moreover have "balanced g rates rv3 i" if "i \<in> set (vertexVector h)" for i
      using keep [OF off that] .
    ultimately have "\<forall>i \<in> set (vertexVector h1). processed g h2 i \<and> balanced g rates rv3 i"
      using h1(3) unfolding vec by auto
    with \<open>handler_inv g h2\<close> a h1(4) vec show ?thesis by (simp add: brv_inv_def r)
  qed
qed

subsection \<open>The whole vector\<close>

lemma brv_handler_new_eq:
  "brv_handler_new n m = Inr \<lparr>vertexVector = [], rationalVector = replicate n \<lparr>nom = 0, den = 1\<rparr>,
     visitedVertices = replicate n False, visitedEdges = replicate m False\<rparr>"
  by (simp add: brv_handler_new_def mk_rational_def reduce_nonneg in_i64_def)

lemma compute_all_inv:
  assumes "foldE (compute_component g rates) (h, rv) is = Inr (h', rv')" "graph_wf g" "brv_inv g rates (h, rv)"
  shows "brv_inv g rates (h', rv') \<and> set is \<subseteq> set (vertexVector h') \<and> set (vertexVector h) \<subseteq> set (vertexVector h')"
  using assms
proof (induction "is" arbitrary: h rv)
  case (Cons i "is")
  from Cons.prems(1) obtain h1 rv1 where s: "compute_component g rates (h, rv) i = Inr (h1, rv1)"
      "foldE (compute_component g rates) (h1, rv1) is = Inr (h', rv')"
    by (auto simp: bindE_eq_Inr)
  from compute_component_inv [OF s(1) Cons.prems(2,3)]
  have "brv_inv g rates (h1, rv1)" "i \<in> set (vertexVector h1)" "set (vertexVector h) \<subseteq> set (vertexVector h1)" by auto
  with Cons.IH [OF s(2) Cons.prems(2)] show ?case by auto
qed simp

lemma brv_compute_balanced:
  assumes "brv_compute g rates rv0 = Inr rv" "graph_wf g" "i < length (g_vertices g)"
  shows "balanced g rates rv i"
proof -
  let ?h = "\<lparr>vertexVector = [], rationalVector = replicate (length (g_vertices g)) \<lparr>nom = 0, den = 1\<rparr>,
     visitedVertices = replicate (length (g_vertices g)) False, visitedEdges = replicate (length (g_edges g)) False\<rparr>"
  from assms(1) obtain h where f: "foldE (compute_component g rates) (?h, rv0) [0..<length (g_vertices g)] = Inr (h, rv)"
    by (auto simp: brv_compute_def brv_handler_new_eq)
  have "brv_inv g rates (?h, rv0)" by (auto simp: brv_inv_def handler_inv_def)
  from compute_all_inv [OF f assms(2) this] assms(3) show ?thesis by (auto simp: brv_inv_def)
qed

end
