(* ===== verification/BRVComplete.thy ===== *)
theory BRVComplete
  imports BRVSound
begin

text \<open>
  Completeness of the repetition vector: on a graph without interfaces whose balance equations have a positive
  solution, \<open>compute\<close> returns, and what it returns is the smallest positive solution. During the traversal of a
  component the rational of every vertex reached is its value in the solution divided by that of a base vertex;
  the least common multiple of the denominators then divides the value of the base.
\<close>

abbreviation "Q_MAX \<equiv> (2 ^ 31 :: int)"

definition solution :: "pi_graph \<Rightarrow> rates \<Rightarrow> (nat \<Rightarrow> int) \<Rightarrow> bool" where
  "solution g rates q \<longleftrightarrow> (\<forall>i < length (g_vertices g). 0 < q i \<and> q i < Q_MAX) \<and>
     (\<forall>e i j. e < length (g_edges g) \<longrightarrow> e_source (g_edges g ! e) = Actor i \<longrightarrow> e_sink (g_edges g ! e) = Actor j \<longrightarrow>
        fst (rates ! e) * q i = snd (rates ! e) * q j)"

text \<open>Actors only, every port connected, every rate positive.\<close>

definition plain_graph :: "pi_graph \<Rightarrow> rates \<Rightarrow> bool" where
  "plain_graph g rates \<longleftrightarrow> graph_wf g \<and> length rates = length (g_edges g) \<and>
     (\<forall>i < length (g_vertices g). v_type (g_vertices g ! i) \<notin> {CONFIG, DELAY, EXTERN_IN, EXTERN_OUT} \<and>
        None \<notin> set (v_in (g_vertices g ! i)) \<and> None \<notin> set (v_out (g_vertices g ! i))) \<and>
     (\<forall>e < length (g_edges g). (\<exists>i j. e_source (g_edges g ! e) = Actor i \<and> e_sink (g_edges g ! e) = Actor j) \<and>
        0 < fst (rates ! e) \<and> fst (rates ! e) < Q_MAX \<and> 0 < snd (rates ! e) \<and> snd (rates ! e) < Q_MAX)"

subsection \<open>Ratios of a solution\<close>

definition known :: "(nat \<Rightarrow> int) \<Rightarrow> nat \<Rightarrow> rational \<Rightarrow> nat \<Rightarrow> bool" where
  "known q b r i \<longleftrightarrow> rat_wf r \<and> rat_of r = of_int (q i) / of_int (q b)"

lemma rat_wf_ratio:
  assumes "rat_wf r" "rat_of r = of_int a / of_int b" "0 < b"
  shows "nom r * b = a * den r" "nom r dvd a" "den r dvd b"
proof -
  have "den r \<noteq> 0" using assms(1) by (simp add: rat_wf_def)
  then have "rat_of_int (nom r * b) = rat_of_int (a * den r)"
    using assms(2,3) by (simp add: rat_of_def Fract_of_int_quotient field_simps)
  then show e: "nom r * b = a * den r" by (simp only: of_int_eq_iff)
  have c: "coprime (nom r) (den r)" using assms(1) by (simp add: rat_wf_def)
  from e have "nom r dvd a * den r" "den r dvd nom r * b" by (metis dvd_triv_left, metis dvd_triv_right)
  with c show "nom r dvd a" "den r dvd b"
    by (simp_all add: coprime_dvd_mult_left_iff coprime_dvd_mult_right_iff coprime_commute)
qed

lemma known_bounds:
  assumes "known q b r i" "0 < q i" "0 < q b"
  shows "0 < nom r" "nom r \<le> q i" "0 < den r" "den r \<le> q b" "den r dvd q b" "nom r * q b = q i * den r"
proof -
  note w = rat_wf_ratio [of r "q i" "q b"]
  from assms have r: "rat_wf r" "rat_of r = of_int (q i) / of_int (q b)" by (auto simp: known_def)
  show e: "nom r * q b = q i * den r" and "den r dvd q b" using w r assms(3) by auto
  show d: "0 < den r" using r by (simp add: rat_wf_def)
  then show "0 < nom r" using e assms by (metis mult_pos_pos zero_less_mult_pos2)
  show "nom r \<le> q i" "den r \<le> q b" using w r assms by (auto intro: zdvd_imp_le)
qed

lemma known_nonzero: "known q b r i \<Longrightarrow> 0 < q i \<Longrightarrow> 0 < q b \<Longrightarrow> nom r \<noteq> 0"
  using known_bounds by fastforce

lemma in_i64_small: "0 \<le> x \<Longrightarrow> x < Q_MAX \<Longrightarrow> in_i64 x"
  by (simp add: in_i64_def)

lemma in_i64_mult: "0 \<le> x \<Longrightarrow> x \<le> Q_MAX \<Longrightarrow> 0 \<le> y \<Longrightarrow> y \<le> Q_MAX \<Longrightarrow> in_i64 (x * y)"
proof -
  assume "0 \<le> x" "x \<le> Q_MAX" "0 \<le> y" "y \<le> Q_MAX"
  then have "0 \<le> x * y" "x * y \<le> Q_MAX * Q_MAX" by (simp, intro mult_mono) auto
  then show ?thesis by (rule in_i64_between [rotated 2]) (simp_all add: in_i64_def)
qed

lemma mk_rational_small:
  assumes "0 < n" "n < Q_MAX" "0 < d" "d < Q_MAX"
  shows "\<exists>r. mk_rational n d = Inr r \<and> rat_wf r \<and> rat_of r = of_int n / of_int d \<and> nom r \<le> n \<and> den r \<le> d"
proof -
  have i: "in_i64 n" "in_i64 d" using assms by (auto intro: in_i64_small)
  obtain r where r: "mk_rational n d = Inr r"
    using assms i by (simp add: mk_rational_def reduce_nonneg)
  from mk_rational_exact [OF _ _ r] assms i have e: "rat_wf r" "rat_of r = of_int n / of_int d"
    by (auto simp: Fract_of_int_quotient)
  with rat_wf_ratio [OF e] assms r show ?thesis by (auto intro!: zdvd_imp_le)
qed

lemma rat_mul_small:
  assumes "rat_wf a" "rat_wf b" "nom a \<le> Q_MAX" "den a \<le> Q_MAX" "nom b \<le> Q_MAX" "den b \<le> Q_MAX"
  shows "\<exists>r. rat_mul_assign a b = Inr r \<and> rat_wf r \<and> rat_of r = rat_of a * rat_of b"
proof -
  have i: "in_i64 (nom a * nom b)" "in_i64 (den a * den b)"
    using assms by (auto simp: rat_wf_def intro: in_i64_mult)
  then obtain r where r: "rat_mul_assign a b = Inr r"
    using assms by (simp add: rat_mul_assign_def reduce_nonneg rat_wf_def)
  with rat_mul_exact [OF assms(1,2) r] show ?thesis by auto
qed

text \<open>One half of \<open>updateRational\<close>: the destination becomes known relative to the base.\<close>

lemma propagate_known:
  assumes num: "0 < num" "num < Q_MAX" and rate: "0 < rate" "rate < Q_MAX" and len: "d < length rv" "k < length rv"
    and q: "0 < q d" "q d < Q_MAX" "0 < q k" "q k < Q_MAX" "0 < q b" "q b < Q_MAX" and bal: "num * q k = rate * q d"
    and dst: "known q b (rv ! d) d \<or> nom (rv ! d) = 0"
    and oth: "known q b (rv ! k) k \<or> nom (rv ! k) = 0 \<and> b = k"
  shows "\<exists>rv'. propagate num rate (Slot d) (Slot k) (x, rv) = Inr (x, rv') \<and> length rv' = length rv \<and>
    known q b (rv' ! d) d \<and> (\<forall>l. l \<noteq> d \<longrightarrow> rv' ! l = rv ! l)"
proof (cases "nom (rv ! d) = 0")
  case False
  then have "propagate num rate (Slot d) (Slot k) (x, rv) = Inr (x, rv)" using len by (simp add: propagate_def)
  then show ?thesis using False dst by auto
next
  case True
  from mk_rational_small [OF num rate] obtain r where
    r: "mk_rational num rate = Inr r" "rat_wf r" "rat_of r = of_int num / of_int rate" "nom r \<le> num" "den r \<le> rate" by auto
  have ratio: "of_int num / of_int rate * (of_int (q k) / of_int (q b)) = rat_of_int (q d) / of_int (q b)"
  proof -
    have "rat_of_int num * of_int (q k) = of_int rate * of_int (q d)" using bal by (simp flip: of_int_mult)
    then show ?thesis using rate q by (simp add: field_simps)
  qed
  let ?rv1 = "rv[d := r]"
  show ?thesis
  proof (cases "nom (?rv1 ! k) = 0")
    case True
    then have kd: "k \<noteq> d" using r(2,3) num rate len by (auto simp: rat_of_def rat_wf_def Fract_of_int_quotient)
    with True have "\<not> known q b (rv ! k) k" using known_nonzero q by force
    with oth have "b = k" by simp
    then have "known q b r d" using r ratio q by (simp add: known_def)
    then show ?thesis using \<open>nom (rv ! d) = 0\<close> True rate len r by (simp add: propagate_def)
  next
    case False
    have k: "rat_wf (?rv1 ! k) \<and> rat_of (?rv1 ! k) = of_int (q k) / of_int (q b) \<and>
        nom (?rv1 ! k) \<le> Q_MAX \<and> den (?rv1 ! k) \<le> Q_MAX"
    proof (cases "k = d")
      case True
      with oth \<open>nom (rv ! d) = 0\<close> known_nonzero [of q b "rv ! d" d] q have "b = d" by auto
      with True bal q have "num = rate" by simp
      with True \<open>b = d\<close> r len num rate q show ?thesis by simp
    next
      case kd: False
      with False have "nom (rv ! k) \<noteq> 0" by simp
      with oth have kn: "known q b (rv ! k) k" by simp
      with known_bounds [OF kn] q kd show ?thesis by (simp add: known_def)
    qed
    with rat_mul_small [of r "?rv1 ! k"] r num rate obtain r2 where
      r2: "rat_mul_assign r (?rv1 ! k) = Inr r2" "rat_wf r2" "rat_of r2 = rat_of r * rat_of (?rv1 ! k)" by auto
    then have "known q b r2 d" using r(3) k ratio by (simp add: known_def)
    then show ?thesis using \<open>nom (rv ! d) = 0\<close> False rate len r r2 by (simp add: propagate_def)
  qed
qed

lemma updateRational_known:
  assumes g: "plain_graph g rates" and s: "solution g rates q" and e: "e < length (g_edges g)"
    and ij: "e_source (g_edges g ! e) = Actor i" "e_sink (g_edges g ! e) = Actor j"
    and len: "length rv = length (g_vertices g)" and b: "b < length (g_vertices g)"
    and ki: "known q b (rv ! i) i \<or> nom (rv ! i) = 0" and kj: "known q b (rv ! j) j \<or> nom (rv ! j) = 0"
    and base: "nom (rv ! i) = 0 \<Longrightarrow> nom (rv ! j) = 0 \<Longrightarrow> b = i"
  shows "\<exists>rv'. updateRational g rates e rv = Inr rv' \<and> length rv' = length rv \<and>
    known q b (rv' ! i) i \<and> known q b (rv' ! j) j \<and> (\<forall>l. l \<noteq> i \<longrightarrow> l \<noteq> j \<longrightarrow> rv' ! l = rv ! l)"
proof -
  have wf: "graph_wf g" using g by (simp add: plain_graph_def)
  have il: "i < length (g_vertices g)" "j < length (g_vertices g)"
    using graph_wf_source [OF wf e ij(1)] graph_wf_sink [OF wf e ij(2)] by auto
  obtain p c where pc: "rates ! e = (p, c)" by (cases "rates ! e")
  have r: "0 < p" "p < Q_MAX" "0 < c" "c < Q_MAX" "e < length rates"
    using g e pc by (auto simp: plain_graph_def)
  have bal: "p * q i = c * q j" using s e ij pc by (fastforce simp: solution_def)
  have q: "0 < q l" "q l < Q_MAX" if "l < length (g_vertices g)" for l using s that by (auto simp: solution_def)
  have one: "mk_rational 1 1 = Inr \<lparr>nom = 1, den = 1\<rparr>" by (simp add: mk_rational_def reduce_nonneg in_i64_def)
  let ?d = "\<lparr>nom = 1, den = 1\<rparr>"
  have oth: "known q b (rv ! i) i \<or> nom (rv ! i) = 0 \<and> b = i" if "nom (rv ! j) = 0" using that ki base by auto
  have "\<exists>rv1. propagate p c (Slot j) (Slot i) (?d, rv) = Inr (?d, rv1) \<and> length rv1 = length rv \<and>
      known q b (rv1 ! j) j \<and> (\<forall>l. l \<noteq> j \<longrightarrow> rv1 ! l = rv ! l)"
  proof (cases "nom (rv ! j) = 0")
    case True
    show ?thesis by (rule propagate_known) (use r len il q b bal kj oth [OF True] in auto)
  next
    case False
    then have "propagate p c (Slot j) (Slot i) (?d, rv) = Inr (?d, rv)" using len il by (simp add: propagate_def)
    then show ?thesis using False kj by auto
  qed
  then obtain rv1 where rv1: "propagate p c (Slot j) (Slot i) (?d, rv) = Inr (?d, rv1)" "length rv1 = length rv"
      "known q b (rv1 ! j) j" "\<forall>l. l \<noteq> j \<longrightarrow> rv1 ! l = rv ! l" by auto
  have k1: "known q b (rv1 ! i) i \<or> nom (rv1 ! i) = 0" using rv1 ki by (cases "i = j") auto
  have "\<exists>rv2. propagate c p (Slot i) (Slot j) (?d, rv1) = Inr (?d, rv2) \<and> length rv2 = length rv1 \<and>
      known q b (rv2 ! i) i \<and> (\<forall>l. l \<noteq> i \<longrightarrow> rv2 ! l = rv1 ! l)"
    by (rule propagate_known) (use r len il q b bal k1 rv1 in auto)
  then obtain rv2 where rv2: "propagate c p (Slot i) (Slot j) (?d, rv1) = Inr (?d, rv2)" "length rv2 = length rv1"
      "known q b (rv2 ! i) i" "\<forall>l. l \<noteq> i \<longrightarrow> rv2 ! l = rv1 ! l" by auto
  have "updateRational g rates e rv = Inr rv2"
    using e r ij rv1(1) rv2(1) by (simp add: updateRational_def one pc source_ref_def sink_ref_def)
  moreover have "known q b (rv2 ! j) j" using rv1 rv2 by (cases "i = j") auto
  ultimately show ?thesis using rv1 rv2 by auto
qed

subsection \<open>The traversal never fails\<close>

text \<open>
  The vertices of the component so far: only the seed, whose rational is not set, or all relative to a base.
  \<open>off\<close> is where the component starts in the queue; the vertices before it are processed.
\<close>

definition traversal :: "pi_graph \<Rightarrow> (nat \<Rightarrow> int) \<Rightarrow> nat \<Rightarrow> brv_handler \<times> component \<Rightarrow> bool" where
  "traversal g q off hc \<longleftrightarrow> handler_inv g (fst hc) \<and> off < length (vertexVector (fst hc)) \<and>
     c_inputs (snd hc) = [] \<and> c_outputs (snd hc) = [] \<and> c_configs (snd hc) = [] \<and>
     (\<forall>k \<in> set (take off (vertexVector (fst hc))). processed g (fst hc) k) \<and>
     (\<forall>i < length (g_vertices g). i \<notin> set (vertexVector (fst hc)) \<longrightarrow> nom (rationalVector (fst hc) ! i) = 0) \<and>
     (c_edgeCount (snd hc) \<noteq> 0 \<longrightarrow> (\<exists>i \<in> set (drop off (vertexVector (fst hc))). v_out (g_vertices g ! i) \<noteq> [])) \<and>
     (\<exists>b < length (g_vertices g).
        drop off (vertexVector (fst hc)) = [b] \<and> nom (rationalVector (fst hc) ! b) = 0 \<and>
          (\<forall>e < length (g_edges g). visitedEdges (fst hc) ! e \<longrightarrow> e_source (g_edges g ! e) \<noteq> Actor b) \<or>
        (\<forall>i \<in> set (drop off (vertexVector (fst hc))). known q b (rationalVector (fst hc) ! i) i))"

text \<open>The end of an edge not yet visited is in the current component or not visited.\<close>

lemma unvisited_edge_ends:
  assumes t: "traversal g q off (h, c)" and wf: "graph_wf g" and e: "e < length (g_edges g)" "\<not> visitedEdges h ! e"
    and k: "e_source (g_edges g ! e) = Actor k \<or> e_sink (g_edges g ! e) = Actor k"
  shows "k < length (g_vertices g) \<and> (k \<in> set (drop off (vertexVector h)) \<or> k \<notin> set (vertexVector h))"
proof -
  from k have kl: "k < length (g_vertices g)" and
    p: "Some e \<in> set (v_out (g_vertices g ! k)) \<union> set (v_in (g_vertices g ! k))"
    using graph_wf_source [OF wf e(1)] graph_wf_sink [OF wf e(1)] by auto
  have "k \<notin> set (take off (vertexVector h))"
  proof
    assume "k \<in> set (take off (vertexVector h))"
    then have "processed g h k" using t by (simp add: traversal_def)
    with p e(2) show False by (auto simp: processed_def)
  qed
  moreover have "set (vertexVector h) = set (take off (vertexVector h)) \<union> set (drop off (vertexVector h))"
    by (metis append_take_drop_id set_append)
  ultimately show ?thesis using kl by auto
qed

text \<open>Visiting an edge with one end in the component: the rationals are computed and the other end joins it.\<close>

lemma visit_edge_known:
  assumes g: "plain_graph g rates" and s: "solution g rates q" and t: "traversal g q off (h, c)"
    and e: "e < length (g_edges g)" "\<not> visitedEdges h ! e"
    and ij: "e_source (g_edges g ! e) = Actor i" "e_sink (g_edges g ! e) = Actor j"
    and cur: "i \<in> set (drop off (vertexVector h)) \<or> j \<in> set (drop off (vertexVector h))"
  shows "\<exists>rv b. updateRational g rates e (rationalVector h) = Inr rv \<and> length rv = length (rationalVector h) \<and>
    b < length (g_vertices g) \<and>
    (\<forall>k \<in> insert i (insert j (set (drop off (vertexVector h)))). known q b (rv ! k) k) \<and>
    (\<forall>k. k \<noteq> i \<longrightarrow> k \<noteq> j \<longrightarrow> rv ! k = rationalVector h ! k)"
proof -
  have wf: "graph_wf g" using g by (simp add: plain_graph_def)
  let ?comp = "set (drop off (vertexVector h))" and ?r = "rationalVector h"
  have len: "length ?r = length (g_vertices g)" using t by (simp add: traversal_def handler_inv_def)
  have ends: "k < length (g_vertices g) \<and> (k \<in> ?comp \<or> nom (?r ! k) = 0)" if "k = i \<or> k = j" for k
    using unvisited_edge_ends [OF t wf e, of k] ij that t by (auto simp: traversal_def)
  from t obtain b where b: "b < length (g_vertices g)" and
    st: "drop off (vertexVector h) = [b] \<and> nom (?r ! b) = 0 \<or> (\<forall>i \<in> ?comp. known q b (?r ! i) i)"
    by (auto simp: traversal_def)
  from st show ?thesis
  proof
    assume one: "drop off (vertexVector h) = [b] \<and> nom (?r ! b) = 0"
    then have z: "nom (?r ! i) = 0" "nom (?r ! j) = 0" using ends by auto
    from updateRational_known [OF g s e(1) ij len, of i] z ends obtain rv where
      rv: "updateRational g rates e ?r = Inr rv" "length rv = length ?r" "known q i (rv ! i) i" "known q i (rv ! j) j"
        "\<forall>l. l \<noteq> i \<longrightarrow> l \<noteq> j \<longrightarrow> rv ! l = ?r ! l" by auto
    then show ?thesis using ends cur one by (intro exI [of _ rv] exI [of _ i]) auto
  next
    assume all: "\<forall>i \<in> ?comp. known q b (?r ! i) i"
    have nz: "nom (?r ! k) \<noteq> 0" if "k \<in> ?comp" "k = i \<or> k = j" for k
      using known_nonzero [of q b "?r ! k" k] all that ends s b by (auto simp: solution_def)
    have kn: "known q b (?r ! k) k \<or> nom (?r ! k) = 0" if "k = i \<or> k = j" for k
      using ends [OF that] all by auto
    from updateRational_known [OF g s e(1) ij len b] kn nz cur obtain rv where
      rv: "updateRational g rates e ?r = Inr rv" "length rv = length ?r" "known q b (rv ! i) i" "known q b (rv ! j) j"
        "\<forall>l. l \<noteq> i \<longrightarrow> l \<noteq> j \<longrightarrow> rv ! l = ?r ! l" by blast
    then have "known q b (rv ! k) k" if "k \<in> ?comp" for k using all that by (cases "k = i \<or> k = j") auto
    with rv b show ?thesis by (intro exI [of _ rv] exI [of _ b]) auto
  qed
qed

lemma register_vertex_traversal:
  assumes t: "traversal g q off (h, c)" and e: "e < length (g_edges g)" and i: "i < length (g_vertices g)"
    and h1: "h1 = h\<lparr>visitedEdges := (visitedEdges h)[e := True], rationalVector := rv\<rparr>" and len: "length rv = length (rationalVector h)"
    and ends: "ends_in g (insert i (set (vertexVector h))) e"
    and new: "i \<in> set (drop off (vertexVector h)) \<or> i \<notin> set (vertexVector h)"
    and b: "b < length (g_vertices g)" "\<And>k. k = i \<or> k \<in> set (drop off (vertexVector h)) \<Longrightarrow> known q b (rv ! k) k"
    and off: "\<And>k. k \<noteq> i \<Longrightarrow> k \<notin> set (drop off (vertexVector h)) \<Longrightarrow> rv ! k = rationalVector h ! k"
  shows "\<exists>h2. register_vertex i h1 = Inr h2 \<and> traversal g q off (h2, c) \<and> extends h h2 \<and> visitedEdges h2 ! e"
proof -
  have inv: "handler_inv g h" and off': "off < length (vertexVector h)" using t by (simp_all add: traversal_def)
  have il: "i < length (visitedVertices h1)" using inv i h1 by (simp add: handler_inv_def)
  then obtain h2 where r: "register_vertex i h1 = Inr h2"
    by (cases "visitedVertices h1 ! i") (auto simp: register_vertex_def)
  note inv2 = register_vertex_inv [OF r inv e h1 len ends]
  have vv: "vertexVector h2 = (if visitedVertices h ! i then vertexVector h else vertexVector h @ [i])"
    and rr: "rationalVector h2 = rv"
    using r h1 il by (auto simp: register_vertex_def split: if_splits)
  have vis: "visitedVertices h ! i \<longleftrightarrow> i \<in> set (vertexVector h)" using inv i by (auto simp: handler_inv_def)
  have comp: "set (drop off (vertexVector h2)) = insert i (set (drop off (vertexVector h)))"
    using new off' vis by (auto simp: vv)
  have tk: "take off (vertexVector h2) = take off (vertexVector h)" using off' by (simp add: vv)
  have sub: "nom (rv ! k) = 0" if "k < length (g_vertices g)" "k \<notin> set (vertexVector h2)" for k
  proof -
    from that have "k \<noteq> i" "k \<notin> set (vertexVector h)" using vis by (auto simp: vv split: if_splits)
    moreover have "set (drop off (vertexVector h)) \<subseteq> set (vertexVector h)" by (rule set_drop_subset)
    ultimately have "rv ! k = rationalVector h ! k" by (intro off) auto
    then show ?thesis using t that(1) \<open>k \<notin> set (vertexVector h)\<close> by (simp add: traversal_def)
  qed
  have "traversal g q off (h2, c)"
    using t inv2 comp tk sub b off' vv processed_extends [of g h _ h2]
    by (auto simp: traversal_def rr)
  then show ?thesis using r inv2 by blast
qed

lemma visit_output_edge_ok:
  assumes g: "plain_graph g rates" and s: "solution g rates q" and t: "traversal g q off (h, c)"
    and i: "i \<in> set (drop off (vertexVector h))" and oe: "oe \<in> set (v_out (g_vertices g ! i))"
  shows "\<exists>h'. visit_output_edge g rates (h, c) oe = Inr (h', c) \<and> traversal g q off (h', c) \<and> extends h h'"
proof -
  have wf: "graph_wf g" using g by (simp add: plain_graph_def)
  have inv: "handler_inv g h" using t by (simp add: traversal_def)
  have iv: "i \<in> set (vertexVector h)" using i by (rule in_set_dropD)
  then have il: "i < length (g_vertices g)" using inv by (auto simp: handler_inv_def)
  with g oe obtain e where e: "oe = Some e" by (cases oe) (auto simp: plain_graph_def)
  from graph_wf_out [OF wf il] oe e have el: "e < length (g_edges g)" and src: "e_source (g_edges g ! e) = Actor i" by auto
  from g el obtain j where snk: "e_sink (g_edges g ! e) = Actor j" by (auto simp: plain_graph_def)
  have elv: "e < length (visitedEdges h)" using inv el by (simp add: handler_inv_def)
  show ?thesis
  proof (cases "visitedEdges h ! e")
    case True
    then show ?thesis using e elv t by (simp add: visit_output_edge_def)
  next
    case False
    from visit_edge_known [OF g s t el False src snk] i obtain rv b where
      rv: "updateRational g rates e (rationalVector h) = Inr rv" "length rv = length (rationalVector h)"
        "b < length (g_vertices g)" "\<forall>k \<in> insert i (insert j (set (drop off (vertexVector h)))). known q b (rv ! k) k"
        "\<forall>k. k \<noteq> i \<longrightarrow> k \<noteq> j \<longrightarrow> rv ! k = rationalVector h ! k" by blast
    have ends: "ends_in g (insert j (set (vertexVector h))) e" using src snk iv by (simp add: ends_in_def)
    from unvisited_edge_ends [OF t wf el False, of j] snk have jl: "j < length (g_vertices g)"
      "j \<in> set (drop off (vertexVector h)) \<or> j \<notin> set (vertexVector h)" by auto
    have "\<exists>h2. register_vertex j (h\<lparr>visitedEdges := (visitedEdges h)[e := True], rationalVector := rv\<rparr>) = Inr h2 \<and>
        traversal g q off (h2, c) \<and> extends h h2 \<and> visitedEdges h2 ! e"
      by (rule register_vertex_traversal [OF t el jl(1) refl rv(2) ends jl(2) rv(3)]) (use rv i in auto)
    moreover have "subtype g (Actor j) \<noteq> OUTPUT" using graph_wf_subtype [OF wf el] snk by auto
    ultimately show ?thesis using e elv False el rv(1) snk by (auto simp: visit_output_edge_def Let_def)
  qed
qed

lemma visit_input_edge_ok:
  assumes g: "plain_graph g rates" and s: "solution g rates q" and t: "traversal g q off (h, c)"
    and i: "i \<in> set (drop off (vertexVector h))" and oe: "oe \<in> set (v_in (g_vertices g ! i))"
  shows "\<exists>h'. visit_input_edge g rates (h, c) oe = Inr (h', c) \<and> traversal g q off (h', c) \<and> extends h h'"
proof -
  have wf: "graph_wf g" using g by (simp add: plain_graph_def)
  have inv: "handler_inv g h" using t by (simp add: traversal_def)
  have iv: "i \<in> set (vertexVector h)" using i by (rule in_set_dropD)
  then have il: "i < length (g_vertices g)" using inv by (auto simp: handler_inv_def)
  with g oe obtain e where e: "oe = Some e" by (cases oe) (auto simp: plain_graph_def)
  from graph_wf_in [OF wf il] oe e have el: "e < length (g_edges g)" and snk: "e_sink (g_edges g ! e) = Actor i" by auto
  from g el obtain j where src: "e_source (g_edges g ! e) = Actor j" by (auto simp: plain_graph_def)
  have elv: "e < length (visitedEdges h)" using inv el by (simp add: handler_inv_def)
  show ?thesis
  proof (cases "visitedEdges h ! e")
    case True
    then show ?thesis using e elv t by (simp add: visit_input_edge_def)
  next
    case False
    from visit_edge_known [OF g s t el False src snk] i obtain rv b where
      rv: "updateRational g rates e (rationalVector h) = Inr rv" "length rv = length (rationalVector h)"
        "b < length (g_vertices g)" "\<forall>k \<in> insert j (insert i (set (drop off (vertexVector h)))). known q b (rv ! k) k"
        "\<forall>k. k \<noteq> j \<longrightarrow> k \<noteq> i \<longrightarrow> rv ! k = rationalVector h ! k" by blast
    have ends: "ends_in g (insert j (set (vertexVector h))) e" using src snk iv by (simp add: ends_in_def)
    from unvisited_edge_ends [OF t wf el False, of j] src have jl: "j < length (g_vertices g)"
      "j \<in> set (drop off (vertexVector h)) \<or> j \<notin> set (vertexVector h)" by auto
    have "\<exists>h2. register_vertex j (h\<lparr>visitedEdges := (visitedEdges h)[e := True], rationalVector := rv\<rparr>) = Inr h2 \<and>
        traversal g q off (h2, c) \<and> extends h h2 \<and> visitedEdges h2 ! e"
      by (rule register_vertex_traversal [OF t el jl(1) refl rv(2) ends jl(2) rv(3)]) (use rv i in auto)
    moreover have "subtype g (Actor j) \<noteq> INPUT" using graph_wf_subtype [OF wf el] src by auto
    ultimately show ?thesis using e elv False el rv(1) src by (auto simp: visit_input_edge_def Let_def)
  qed
qed

lemma extends_drop:
  "extends h h1 \<Longrightarrow> off \<le> length (vertexVector h) \<Longrightarrow> i \<in> set (drop off (vertexVector h)) \<Longrightarrow> i \<in> set (drop off (vertexVector h1))"
  by (auto simp: extends_def)

lemma traversal_off: "traversal g q off (h, c) \<Longrightarrow> off \<le> length (vertexVector h)"
  by (simp add: traversal_def)

lemma visit_edges_ok:
  assumes "traversal g q off (h, c)" "i \<in> set (drop off (vertexVector h))"
    and step: "\<And>h oe. traversal g q off (h, c) \<Longrightarrow> i \<in> set (drop off (vertexVector h)) \<Longrightarrow> oe \<in> set oes \<Longrightarrow>
      \<exists>h'. f (h, c) oe = Inr (h', c) \<and> traversal g q off (h', c) \<and> extends h h'"
  shows "\<exists>h'. foldE f (h, c) oes = Inr (h', c) \<and> traversal g q off (h', c) \<and> extends h h'"
  using assms
proof (induction oes arbitrary: h)
  case (Cons oe oes)
  from Cons.prems(3) [OF Cons.prems(1,2)] obtain h1 where
    h1: "f (h, c) oe = Inr (h1, c)" "traversal g q off (h1, c)" "extends h h1" by auto
  have "i \<in> set (drop off (vertexVector h1))" using extends_drop [OF h1(3) traversal_off] Cons.prems(1,2) by simp
  with Cons.IH [OF h1(2)] Cons.prems(3) obtain h' where
    "foldE f (h1, c) oes = Inr (h', c)" "traversal g q off (h', c)" "extends h1 h'" by auto
  with h1 show ?case using extends_trans by auto
qed simp

lemma traversal_count:
  assumes "traversal g q off (h, c)" "i \<in> set (drop off (vertexVector h))"
  shows "traversal g q off (h, c\<lparr>c_edgeCount := c_edgeCount c + length (v_out (g_vertices g ! i))\<rparr>)"
proof (cases "v_out (g_vertices g ! i) = []")
  case False
  with assms(2) have "\<exists>i \<in> set (drop off (vertexVector h)). v_out (g_vertices g ! i) \<noteq> []" by blast
  with assms(1) show ?thesis by (simp add: traversal_def)
qed (use assms in \<open>simp add: traversal_def\<close>)

lemma visit_vertex_ok:
  assumes g: "plain_graph g rates" and s: "solution g rates q" and t: "traversal g q off (h, c)"
    and i: "i \<in> set (drop off (vertexVector h))"
  shows "\<exists>h' c'. visit_vertex g rates seed i (h, c) = Inr (h', c') \<and> traversal g q off (h', c') \<and> extends h h'"
proof -
  have "i \<in> set (vertexVector h)" using i by (rule in_set_dropD)
  then have il: "i < length (g_vertices g)" using t by (auto simp: traversal_def handler_inv_def)
  then have ty: "v_type (g_vertices g ! i) \<noteq> CONFIG" using g by (auto simp: plain_graph_def)
  define c1 where "c1 = c\<lparr>c_edgeCount := c_edgeCount c + length (v_out (g_vertices g ! i))\<rparr>"
  have t1: "traversal g q off (h, c1)" using traversal_count [OF t i] by (simp add: c1_def)
  have "\<exists>h1. foldE (visit_output_edge g rates) (h, c1) (v_out (g_vertices g ! i)) = Inr (h1, c1) \<and>
      traversal g q off (h1, c1) \<and> extends h h1"
    by (rule visit_edges_ok [OF t1 i]) (rule visit_output_edge_ok [OF g s])
  then obtain h1 where o: "foldE (visit_output_edge g rates) (h, c1) (v_out (g_vertices g ! i)) = Inr (h1, c1)"
      "traversal g q off (h1, c1)" "extends h h1" by auto
  have i1: "i \<in> set (drop off (vertexVector h1))" using extends_drop [OF o(3) traversal_off [OF t] i] .
  have "\<exists>h'. foldE (visit_input_edge g rates) (h1, c1) (v_in (g_vertices g ! i)) = Inr (h', c1) \<and>
      traversal g q off (h', c1) \<and> extends h1 h'"
    by (rule visit_edges_ok [OF o(2) i1]) (rule visit_input_edge_ok [OF g s])
  then obtain h' where n: "foldE (visit_input_edge g rates) (h1, c1) (v_in (g_vertices g ! i)) = Inr (h', c1)"
      "traversal g q off (h', c1)" "extends h1 h'" by auto
  have "visit_vertex g rates seed i (h, c) = Inr (h', c1)"
    using il ty o(1) n(1) by (simp add: visit_vertex_def Let_def c1_def)
  with n o extends_trans show ?thesis by blast
qed

lemma extract_loop_ok:
  assumes "plain_graph g rates" "solution g rates q" "traversal g q off (h, c)" "off \<le> ix"
  shows "\<exists>h' c'. extract_loop g rates seed ix (h, c) = Inr (h', c') \<and> traversal g q off (h', c')"
  using assms
proof (induction g rates seed ix "(h, c)" arbitrary: h c rule: extract_loop.induct)
  case (1 g rates seed ix)
  show ?case
  proof (cases "ix < length (vertexVector h)")
    case True
    then have "vertexVector h ! ix \<in> set (drop off (vertexVector h))"
      using 1(5) by (intro in_set_conv_nth [THEN iffD2] exI [of _ "ix - off"]) auto
    from visit_vertex_ok [OF 1(2,3,4) this, of seed] obtain h1 c1 where
      v: "visit_vertex g rates seed (vertexVector h ! ix) (h, c) = Inr (h1, c1)" "traversal g q off (h1, c1)" by auto
    with 1(1) [of h1 c1] True 1(2,3,5) show ?thesis by (subst extract_loop.simps) simp
  next
    case False
    then show ?thesis using 1(4) by (subst extract_loop.simps) simp
  qed
qed

lemma extract_ok:
  assumes g: "plain_graph g rates" and s: "solution g rates q" and inv: "handler_inv g h"
    and old: "\<forall>i \<in> set (vertexVector h). processed g h i"
    and zero: "\<forall>i < length (g_vertices g). i \<notin> set (vertexVector h) \<longrightarrow> nom (rationalVector h ! i) = 0"
    and v: "v < length (g_vertices g)" "\<not> visitedVertices h ! v"
  shows "\<exists>h' c. extractConnectedComponent g rates v h = Inr (h', c) \<and> traversal g q (length (vertexVector h)) (h', c)"
proof -
  let ?h = "h\<lparr>vertexVector := vertexVector h @ [v], visitedVertices := (visitedVertices h)[v := True]\<rparr>"
  let ?c = "\<lparr>c_inputs = [], c_outputs = [], c_configs = [], c_edgeCount = 0\<rparr>"
  have vl: "v < length (visitedVertices h)" using inv v by (simp add: handler_inv_def)
  have "v \<notin> set (vertexVector h)" using inv v by (auto simp: handler_inv_def)
  moreover from this have "\<forall>e < length (g_edges g). visitedEdges h ! e \<longrightarrow> e_source (g_edges g ! e) \<noteq> Actor v"
    using inv by (auto simp: handler_inv_def ends_in_def)
  moreover have "\<forall>k \<in> set (vertexVector h). processed g ?h k" using old by (simp add: processed_def)
  ultimately have "traversal g q (length (vertexVector h)) (?h, ?c)"
    using seed_inv [OF inv vl v(2)] zero v(1) by (auto simp: traversal_def)
  from extract_loop_ok [OF g s this order_refl, of v] show ?thesis
    using vl by (simp add: extractConnectedComponent_def)
qed

subsection \<open>The values of a component\<close>

lemma lcm_fold_ok:
  assumes "\<forall>i \<in> set vs. i < length rv \<and> 0 < den (rv ! i) \<and> den (rv ! i) dvd Q" "0 < Q" "Q < Q_MAX" "0 < l" "l dvd Q"
  shows "\<exists>L. foldE (\<lambda>l i. bindE (get_at rv i) (\<lambda>r. c_lcm l (den r))) l vs = Inr L \<and> 0 < L \<and> L dvd Q \<and> l dvd L \<and>
    (\<forall>i \<in> set vs. den (rv ! i) dvd L) \<and> (\<forall>M. l dvd M \<and> (\<forall>i \<in> set vs. den (rv ! i) dvd M) \<longrightarrow> L dvd M)"
  using assms
proof (induction vs arbitrary: l)
  case (Cons i vs)
  from Cons.prems have d: "i < length rv" "0 < den (rv ! i)" "den (rv ! i) dvd Q" by auto
  have "den (rv ! i) \<le> Q_MAX" "l \<le> Q_MAX" using d Cons.prems by (auto dest!: zdvd_imp_le)
  then have "in_i64 (l * den (rv ! i))" using d Cons.prems by (intro in_i64_mult) auto
  with c_lcm_pos d Cons.prems have c: "c_lcm l (den (rv ! i)) = Inr (lcm l (den (rv ! i)))" by simp
  have "0 < lcm l (den (rv ! i))" using d Cons.prems by (simp add: lcm_pos_int)
  with Cons.IH [of "lcm l (den (rv ! i))"] Cons.prems d obtain L where
    "foldE (\<lambda>l i. bindE (get_at rv i) (\<lambda>r. c_lcm l (den r))) (lcm l (den (rv ! i))) vs = Inr L" "0 < L" "L dvd Q"
    "lcm l (den (rv ! i)) dvd L" "\<forall>i \<in> set vs. den (rv ! i) dvd L"
    "\<forall>M. lcm l (den (rv ! i)) dvd M \<and> (\<forall>i \<in> set vs. den (rv ! i) dvd M) \<longrightarrow> L dvd M" by auto
  with c d show ?case by (auto intro: dvd_trans)
qed auto

lemma rat_scale_ok:
  assumes "known q b r i" "0 < q i" "q i < Q_MAX" "0 < q b" "q b < Q_MAX" "0 < L" "L dvd q b" "den r dvd L"
  shows "\<exists>r'. rat_mul_assign_int r L = Inr r' \<and> rat_to_uint64 r' = Inr (nat (nom r * (L div den r))) \<and>
    0 < nom r * (L div den r) \<and> nom r * (L div den r) \<le> q i \<and> nom r * (L div den r) * q b = q i * L"
proof -
  note b = known_bounds [OF assms(1,2,4)]
  let ?v = "nom r * (L div den r)"
  have L: "L \<le> q b" using assms by (auto intro: zdvd_imp_le)
  have Ld: "L = den r * (L div den r)" using assms(8) by simp
  have k: "0 < L div den r" using assms(6) b(3) Ld by (metis zero_less_mult_pos)
  have in1: "in_i64 (nom r * L)" using b assms L by (intro in_i64_mult) auto
  then obtain r' where r': "rat_mul_assign_int r L = Inr r'"
    using b assms by (simp add: rat_mul_assign_int_def reduce_nonneg known_def rat_wf_def)
  have "rat_wf r" using assms(1) by (simp add: known_def)
  with rat_mul_int_exact [OF _ _ r'] assms(6) have e: "rat_wf r'" "rat_of r' = rat_of r * of_int L" by auto
  have "rat_of r * of_int L = of_int ?v"
  proof -
    have "rat_of r = of_int (nom r) / of_int (den r)" by (simp add: rat_of_def Fract_of_int_quotient)
    then show ?thesis using b(3) by (subst Ld) (simp add: field_simps)
  qed
  with e have v: "rat_of r' = of_int ?v / of_int 1" by simp
  have vpos: "0 < ?v" using b(1) k by simp
  from rat_wf_ratio [OF e(1) v] e(1) have "den r' = 1" "nom r' = ?v" by (auto simp: rat_wf_def)
  moreover have vq: "?v * q b = q i * L"
  proof -
    have "?v * q b = (nom r * q b) * (L div den r)" by simp
    also have "\<dots> = q i * (den r * (L div den r))" using b(6) by simp
    finally show ?thesis using Ld by simp
  qed
  moreover have "?v \<le> q i"
  proof -
    have "?v * q b \<le> q i * q b" using vq L assms(2) by (simp add: mult_left_mono)
    then show ?thesis using assms(4) by simp
  qed
  moreover have "in_i64 ?v" using \<open>?v \<le> q i\<close> vpos assms(3) by (intro in_i64_small) auto
  ultimately show ?thesis using r' vpos
    by (simp add: rat_to_uint64_def rat_to_int64_def to_u64_nonneg)
qed

lemma setRepetitionValue_ok:
  "plain_graph g rates \<Longrightarrow> i < length (g_vertices g) \<Longrightarrow> length rv = length (g_vertices g) \<Longrightarrow>
   setRepetitionValue g i x rv = Inr (rv[i := x])"
  by (auto simp: setRepetitionValue_def plain_graph_def)

lemma scale_fold_ok:
  assumes "plain_graph g rates" "solution g rates q" "distinct vs" "length rv = length (g_vertices g)"
    and "length (rationalVector h) = length (g_vertices g)" "b < length (g_vertices g)" "0 < L" "L dvd q b"
    and "\<forall>i \<in> set vs. i < length (g_vertices g) \<and> known q b (rationalVector h ! i) i \<and> den (rationalVector h ! i) dvd L"
  shows "\<exists>h' rv'. foldE (scale_vertex g L) (h, rv) vs = Inr (h', rv') \<and> length rv' = length rv \<and>
    (\<forall>k. k \<notin> set vs \<longrightarrow> rv' ! k = rv ! k \<and> rationalVector h' ! k = rationalVector h ! k) \<and>
    vertexVector h' = vertexVector h \<and> visitedVertices h' = visitedVertices h \<and> visitedEdges h' = visitedEdges h \<and>
    length (rationalVector h') = length (rationalVector h) \<and>
    (\<forall>i \<in> set vs. 0 < rv' ! i \<and> int (rv' ! i) \<le> q i \<and> int (rv' ! i) * q b = q i * L)"
  using assms
proof (induction vs arbitrary: h rv)
  case (Cons i vs)
  from Cons.prems have i: "i < length (g_vertices g)" "known q b (rationalVector h ! i) i" "den (rationalVector h ! i) dvd L"
    "i \<notin> set vs" by auto
  have q: "0 < q k" "q k < Q_MAX" if "k < length (g_vertices g)" for k using Cons.prems(2) that by (auto simp: solution_def)
  let ?r = "rationalVector h ! i"
  let ?v = "nom ?r * (L div den ?r)"
  from rat_scale_ok [OF i(2) q(1) q(2) q(1) q(2) Cons.prems(7,8) i(3)] i(1) Cons.prems(6) obtain r' where
    r': "rat_mul_assign_int ?r L = Inr r'" "rat_to_uint64 r' = Inr (nat ?v)" "0 < ?v" "?v \<le> q i" "?v * q b = q i * L" by auto
  let ?h = "h\<lparr>rationalVector := (rationalVector h)[i := r']\<rparr>" and ?rv = "rv[i := nat ?v]"
  have "?v < 2 ^ 32" using r'(4) q(2) [OF i(1)] by simp
  then have "nat ?v mod 2 ^ 32 = nat ?v" by simp
  with setRepetitionValue_ok [OF Cons.prems(1) i(1) Cons.prems(4)] have "scale_vertex g L (h, rv) i = Inr (?h, ?rv)"
    using r' i Cons.prems(5) by (simp add: scale_vertex_def)
  moreover have "k < length (g_vertices g) \<and> known q b (rationalVector ?h ! k) k \<and> den (rationalVector ?h ! k) dvd L"
    if "k \<in> set vs" for k
    using Cons.prems(9) i(4) that by (cases "k = i") auto
  with Cons.IH [of ?rv ?h] Cons.prems obtain h' rv' where
    IH: "foldE (scale_vertex g L) (?h, ?rv) vs = Inr (h', rv')" "length rv' = length rv"
      "\<forall>k. k \<notin> set vs \<longrightarrow> rv' ! k = ?rv ! k \<and> rationalVector h' ! k = rationalVector ?h ! k"
      "vertexVector h' = vertexVector h" "visitedVertices h' = visitedVertices h" "visitedEdges h' = visitedEdges h"
      "length (rationalVector h') = length (rationalVector h)"
      "\<forall>i \<in> set vs. 0 < rv' ! i \<and> int (rv' ! i) \<le> q i \<and> int (rv' ! i) * q b = q i * L"
    by auto
  moreover have "rv' ! i = nat ?v" using IH(3) i Cons.prems(4) by simp
  ultimately show ?case using r' by (intro exI [of _ h'] exI [of _ rv']) auto
qed simp

lemma no_interfaces_ok:
  assumes "c_inputs c = []" "c_outputs c = []" "c_configs c = []"
  shows "set_alone g rates c vs rv = Inr rv" "updateComponentBRV g rates c vs rv = Inr rv"
  using assms by (simp_all add: set_alone_def updateComponentBRV_def)

lemma foldE_unit_ok: "(\<And>x. x \<in> set xs \<Longrightarrow> f x = Inr ()) \<Longrightarrow> foldE (\<lambda>_ x. f x) () xs = Inr ()"
  by (induction xs) auto

text \<open>Values proportional to a solution pass the check.\<close>

lemma checkConsistency_ok:
  assumes g: "plain_graph g rates" and s: "solution g rates q" and b: "b < length (g_vertices g)"
    and len: "length rv = length (g_vertices g)" and vs: "\<forall>i \<in> set vs. i < length (g_vertices g)"
    and val: "\<forall>i \<in> set vs. int (rv ! i) \<le> q i \<and> int (rv ! i) * q b = q i * L"
    and closed: "\<And>i e j. i \<in> set vs \<Longrightarrow> Some e \<in> set (v_out (g_vertices g ! i)) \<Longrightarrow> e_sink (g_edges g ! e) = Actor j \<Longrightarrow> j \<in> set vs"
  shows "checkConsistency g rates vs rv = Inr ()"
  unfolding checkConsistency_def
proof (rule foldE_unit_ok)
  fix i assume i: "i \<in> set vs"
  then have il: "i < length (g_vertices g)" using vs by blast
  have wf: "graph_wf g" using g by (simp add: plain_graph_def)
  have "foldE (\<lambda>_ oe. check_edge g rates rv oe) () (v_out (g_vertices g ! i)) = Inr ()"
  proof (rule foldE_unit_ok)
    fix oe assume oe: "oe \<in> set (v_out (g_vertices g ! i))"
    with g il obtain e where e: "oe = Some e" by (cases oe) (auto simp: plain_graph_def)
    from graph_wf_out [OF wf il] oe e have el: "e < length (g_edges g)" "e_source (g_edges g ! e) = Actor i" by auto
    from g el obtain j where j: "e_sink (g_edges g ! e) = Actor j" by (auto simp: plain_graph_def)
    from closed [OF i _ j] oe e have jv: "j \<in> set vs" by simp
    then have jl: "j < length (g_vertices g)" using vs by blast
    obtain p c where pc: "rates ! e = (p, c)" by (cases "rates ! e")
    have r: "0 < p" "p < Q_MAX" "0 < c" "c < Q_MAX" "e < length rates" using g el pc by (auto simp: plain_graph_def)
    have q: "0 < q k" "q k < Q_MAX" if "k < length (g_vertices g)" for k using s that by (auto simp: solution_def)
    have "p * q i = c * q j" using s el j pc by (fastforce simp: solution_def)
    then have "(p * int (rv ! i)) * q b = (c * int (rv ! j)) * q b"
      using val i jv by (metis (no_types, opaque_lifting) mult.assoc)
    then have eq: "p * int (rv ! i) = c * int (rv ! j)" using q(1) [OF b] by simp
    have "int (rv ! i) \<le> Q_MAX" "int (rv ! j) \<le> Q_MAX" using val i jv q(2) [OF il] q(2) [OF jl] by force+
    then have "in_i64 (p * int (rv ! i))" "in_i64 (c * int (rv ! j))" using r by (auto intro: in_i64_mult)
    moreover have "subtype g (Actor j) \<noteq> OUTPUT" using graph_wf_subtype [OF wf el(1)] j by auto
    ultimately show "check_edge g rates rv oe = Inr ()"
      using e el j pc r il jl len eq by (simp add: check_edge_def some_edge_def repetitionValue_def)
  qed
  then show "bindE (get_at (g_vertices g) i) (\<lambda>v. foldE (\<lambda>_ oe. check_edge g rates rv oe) () (v_out v)) = Inr ()"
    using il by simp
qed

subsection \<open>A component, then all of them\<close>

definition fresh_zero :: "pi_graph \<Rightarrow> brv_handler \<Rightarrow> bool" where
  "fresh_zero g h \<longleftrightarrow> (\<forall>i < length (g_vertices g). i \<notin> set (vertexVector h) \<longrightarrow> nom (rationalVector h ! i) = 0)"

definition below_solution :: "pi_graph \<Rightarrow> (nat \<Rightarrow> int) \<Rightarrow> nat list \<Rightarrow> bool" where
  "below_solution g q rv \<longleftrightarrow> length rv = length (g_vertices g) \<and>
     (\<forall>i < length (g_vertices g). 0 < rv ! i \<and> int (rv ! i) \<le> q i)"

text \<open>A component with edges has a base: the case of a lone seed without rational is the component of no edge.\<close>

lemma component_known:
  assumes g: "plain_graph g rates" and t: "traversal g q off (h1, c)" and n: "c_edgeCount c \<noteq> 0"
    and p: "\<forall>i \<in> set (vertexVector h1). processed g h1 i"
  shows "\<exists>b < length (g_vertices g). \<forall>i \<in> set (drop off (vertexVector h1)). known q b (rationalVector h1 ! i) i"
proof -
  let ?vs = "drop off (vertexVector h1)"
  have sub: "set ?vs \<subseteq> set (vertexVector h1)" by (rule set_drop_subset)
  from t n obtain i where i: "i \<in> set ?vs" "v_out (g_vertices g ! i) \<noteq> []" by (auto simp: traversal_def)
  then obtain oe where oe: "oe \<in> set (v_out (g_vertices g ! i))" by (meson last_in_set)
  from p i(1) sub oe obtain e where e: "oe = Some e" "e < length (g_edges g)" "visitedEdges h1 ! e"
    unfolding processed_def by blast
  have "i < length (g_vertices g)" using t i(1) sub by (auto simp: traversal_def handler_inv_def)
  with graph_wf_out [of g i e] g oe e have src: "e_source (g_edges g ! e) = Actor i" by (simp add: plain_graph_def)
  from t obtain b where b: "b < length (g_vertices g)" and
    "?vs = [b] \<and> (\<forall>e < length (g_edges g). visitedEdges h1 ! e \<longrightarrow> e_source (g_edges g ! e) \<noteq> Actor b) \<or>
     (\<forall>i \<in> set ?vs. known q b (rationalVector h1 ! i) i)"
    unfolding traversal_def by auto
  then show ?thesis
  proof (elim disjE)
    assume "?vs = [b] \<and> (\<forall>e < length (g_edges g). visitedEdges h1 ! e \<longrightarrow> e_source (g_edges g ! e) \<noteq> Actor b)"
    with i(1) e src have False by auto
    then show ?thesis ..
  qed (use b in blast)
qed

lemma component_closed:
  assumes wf: "graph_wf g" and inv: "handler_inv g h" "handler_inv g h1" and ext: "vertexVector h1 = vertexVector h @ vs"
    and p: "\<forall>i \<in> set (vertexVector h). processed g h i" "\<forall>i \<in> set (vertexVector h1). processed g h1 i"
    and i: "i \<in> set vs" and e: "Some e \<in> set (v_out (g_vertices g ! i))" and j: "e_sink (g_edges g ! e) = Actor j"
  shows "j \<in> set vs"
proof -
  from i ext inv(2) have il: "i < length (g_vertices g)" "i \<notin> set (vertexVector h)" by (auto simp: handler_inv_def)
  from graph_wf_out [OF wf il(1) e] have el: "e < length (g_edges g)" and src: "e_source (g_edges g ! e) = Actor i" by auto
  have "visitedEdges h1 ! e" using p(2) i ext e by (force simp: processed_def)
  with inv(2) el have "ends_in g (set (vertexVector h1)) e" by (auto simp: handler_inv_def)
  with j have jv: "j \<in> set (vertexVector h1)" by (auto simp: ends_in_def)
  have "j \<notin> set (vertexVector h)"
  proof
    assume "j \<in> set (vertexVector h)"
    moreover have "Some e \<in> set (v_in (g_vertices g ! j))" using graph_wf_sink [OF wf el j] by simp
    ultimately have "visitedEdges h ! e" using p(1) by (force simp: processed_def)
    with inv(1) el have "ends_in g (set (vertexVector h)) e" by (auto simp: handler_inv_def)
    with src il(2) show False by (simp add: ends_in_def)
  qed
  with jv ext show ?thesis by auto
qed

lemma compute_component_ok:
  assumes g: "plain_graph g rates" and s: "solution g rates q" and inv: "brv_inv g rates (h, rv)"
    and z: "fresh_zero g h" and bs: "below_solution g q rv" and v: "v < length (g_vertices g)"
  shows "\<exists>h' rv'. compute_component g rates (h, rv) v = Inr (h', rv') \<and> fresh_zero g h' \<and> below_solution g q rv'"
proof (cases "visitedVertices h ! v")
  case True
  then show ?thesis using v inv z bs by (simp add: compute_component_def brv_inv_def handler_inv_def)
next
  case False
  have wf: "graph_wf g" using g by (simp add: plain_graph_def)
  have hinv: "handler_inv g h" and old: "\<forall>i \<in> set (vertexVector h). processed g h i"
    using inv by (auto simp: brv_inv_def)
  from extract_ok [OF g s hinv old _ v False] z obtain h1 c where
    x: "extractConnectedComponent g rates v h = Inr (h1, c)" and t: "traversal g q (length (vertexVector h)) (h1, c)"
    by (auto simp: fresh_zero_def)
  from extractConnectedComponent_inv [OF x wf hinv old False] have h1: "handler_inv g h1" "extends h h1"
    "\<forall>i \<in> set (vertexVector h1). processed g h1 i" by auto
  define vs where "vs = drop (length (vertexVector h)) (vertexVector h1)"
  have vec: "vertexVector h1 = vertexVector h @ vs" using h1(2) by (auto simp: extends_def vs_def)
  have vis: "v < length (visitedVertices h)" using hinv v by (simp add: handler_inv_def)
  have z1: "fresh_zero g h1" using t by (simp add: traversal_def fresh_zero_def)
  show ?thesis
  proof (cases "c_edgeCount c = 0")
    case True
    then show ?thesis using x False vis z1 bs by (simp add: compute_component_def Let_def)
  next
    case nz: False
    have q: "0 < q k" "q k < Q_MAX" if "k < length (g_vertices g)" for k using s that by (auto simp: solution_def)
    from component_known [OF g t nz h1(3)] obtain b where
      b: "b < length (g_vertices g)" "\<forall>i \<in> set vs. known q b (rationalVector h1 ! i) i"
      by (auto simp: vs_def)
    have len1: "length (rationalVector h1) = length (g_vertices g)" using h1(1) by (simp add: handler_inv_def)
    have vl: "\<forall>i \<in> set vs. i < length (g_vertices g)" using h1(1) vec by (auto simp: handler_inv_def)
    have den: "\<forall>i \<in> set vs. i < length (rationalVector h1) \<and> 0 < den (rationalVector h1 ! i) \<and> den (rationalVector h1 ! i) dvd q b"
    proof
      fix i assume i: "i \<in> set vs"
      then have k: "known q b (rationalVector h1 ! i) i" "i < length (g_vertices g)" using b(2) vl by blast+
      from known_bounds [OF k(1) q(1) [OF k(2)] q(1) [OF b(1)]] k(2) len1
      show "i < length (rationalVector h1) \<and> 0 < den (rationalVector h1 ! i) \<and> den (rationalVector h1 ! i) dvd q b"
        by simp
    qed
    from lcm_fold_ok [OF den q(1) q(2), of 1] b(1) obtain L where
      L: "foldE (\<lambda>l i. bindE (get_at (rationalVector h1) i) (\<lambda>r. c_lcm l (den r))) 1 vs = Inr L" "0 < L" "L dvd q b"
        "\<forall>i \<in> set vs. den (rationalVector h1 ! i) dvd L" by auto
    have dist: "distinct vs" using h1(1) vec by (simp add: handler_inv_def)
    have lrv: "length rv = length (g_vertices g)" using bs by (simp add: below_solution_def)
    have all: "\<forall>i \<in> set vs. i < length (g_vertices g) \<and> known q b (rationalVector h1 ! i) i \<and> den (rationalVector h1 ! i) dvd L"
      using vl b(2) L(4) by blast
    from scale_fold_ok [OF g s dist lrv len1 b(1) L(2,3) all] obtain h2 rv2 where
      f: "foldE (scale_vertex g L) (h1, rv) vs = Inr (h2, rv2)" and l2: "length rv2 = length rv"
      and fr: "\<forall>k. k \<notin> set vs \<longrightarrow> rv2 ! k = rv ! k \<and> rationalVector h2 ! k = rationalVector h1 ! k"
      and h2: "vertexVector h2 = vertexVector h1"
      and val: "\<forall>i \<in> set vs. 0 < rv2 ! i \<and> int (rv2 ! i) \<le> q i \<and> int (rv2 ! i) * q b = q i * L" by blast
    have chk: "checkConsistency g rates vs rv2 = Inr ()"
      by (rule checkConsistency_ok [OF g s b(1), of _ _ L])
        (use lrv l2 vl val component_closed [OF wf hinv h1(1) vec old h1(3)] in auto)
    have "compute_component g rates (h, rv) v = Inr (h2, rv2)"
      using x False vis nz L(1) f chk no_interfaces_ok [of c] t
      by (simp add: compute_component_def Let_def vs_def [symmetric] computeRepetitionValues_def traversal_def)
    moreover have "fresh_zero g h2" using z1 fr h2 vec by (auto simp: fresh_zero_def)
    moreover have "below_solution g q rv2"
      unfolding below_solution_def
    proof (intro conjI allI impI)
      fix i assume "i < length (g_vertices g)"
      then show "0 < rv2 ! i" "int (rv2 ! i) \<le> q i"
        using val fr bs by (cases "i \<in> set vs"; simp add: below_solution_def)+
    qed (use lrv l2 in simp)
    ultimately show ?thesis by blast
  qed
qed

lemma compute_all_ok:
  assumes "plain_graph g rates" "solution g rates q" "brv_inv g rates (h, rv)" "fresh_zero g h" "below_solution g q rv"
    and "\<forall>i \<in> set is. i < length (g_vertices g)"
  shows "\<exists>h' rv'. foldE (compute_component g rates) (h, rv) is = Inr (h', rv') \<and> below_solution g q rv'"
  using assms
proof (induction "is" arbitrary: h rv)
  case (Cons i "is")
  from compute_component_ok [OF Cons.prems(1-5), of i] Cons.prems(6) obtain h1 rv1 where
    s: "compute_component g rates (h, rv) i = Inr (h1, rv1)" "fresh_zero g h1" "below_solution g q rv1" by auto
  from compute_component_inv [OF s(1) _ Cons.prems(3)] Cons.prems(1) have "brv_inv g rates (h1, rv1)"
    by (simp add: plain_graph_def)
  with Cons.IH [OF Cons.prems(1,2) _ s(2,3)] Cons.prems(6) s(1) show ?case by auto
qed auto

lemma brv_compute_complete:
  assumes "plain_graph g rates" "solution g rates q"
  shows "\<exists>rv. brv_compute g rates (replicate (length (g_vertices g)) 1) = Inr rv \<and> below_solution g q rv"
proof -
  let ?n = "length (g_vertices g)"
  let ?h = "\<lparr>vertexVector = [], rationalVector = replicate ?n \<lparr>nom = 0, den = 1\<rparr>,
     visitedVertices = replicate ?n False, visitedEdges = replicate (length (g_edges g)) False\<rparr>"
  have "brv_inv g rates (?h, replicate ?n 1)" by (auto simp: brv_inv_def handler_inv_def)
  moreover have "fresh_zero g ?h" by (simp add: fresh_zero_def)
  moreover have "below_solution g q (replicate ?n 1)" using assms(2) by (auto simp: below_solution_def solution_def)
  ultimately obtain h' rv' where
    "foldE (compute_component g rates) (?h, replicate ?n 1) [0..<?n] = Inr (h', rv')" "below_solution g q rv'"
    using compute_all_ok [OF assms, of ?h "replicate ?n 1" "[0..<?n]"] by auto
  then show ?thesis by (simp add: brv_compute_def brv_handler_new_eq)
qed

end
