(* ===== verification/BRVProps.thy ===== *)
theory BRVProps
  imports BRVComplete
begin

text \<open>
  The properties of the repetition vector, over \<open>BRVSound\<close> and \<open>BRVComplete\<close>, with a producer and a consumer of
  rates 2 and 3 as their instance.
\<close>

definition two_actors :: "vertex_type \<Rightarrow> vertex_type \<Rightarrow> pi_graph" where
  "two_actors t0 t1 =
     \<lparr>g_vertices = [\<lparr>v_type = t0, v_in = [], v_out = [Some 0]\<rparr>, \<lparr>v_type = t1, v_in = [Some 0], v_out = []\<rparr>],
      g_edges = [\<lparr>e_source = Actor 0, e_source_port = 0, e_sink = Actor 1, e_sink_port = 0\<rparr>],
      g_in_ifs = [], g_out_ifs = []\<rparr>"

lemma two_actors_wf: "graph_wf (two_actors NORMAL NORMAL)"
  by (auto simp: graph_wf_def vertex_wf_def edge_wf_def two_actors_def nth_Cons split: nat.splits)

lemma two_actors_plain: "plain_graph (two_actors NORMAL NORMAL) [(2, 3)]"
  using two_actors_wf by (auto simp: plain_graph_def two_actors_def nth_Cons split: nat.splits)

lemma two_actors_solution: "solution (two_actors NORMAL NORMAL) [(2, 3)] (\<lambda>i. if i = 0 then 3 else 2)"
  by (auto simp: solution_def two_actors_def nth_Cons split: nat.splits)

text \<open>
  C4. Whatever the rates, the interfaces and the initial values: when \<open>brv::compute\<close> returns, every edge between two
  actors is balanced, production times firings of the source being consumption times firings of the sink.
\<close>

theorem brv_balances_every_edge:
  assumes "brv_compute g rates rv0 = Inr rv" "graph_wf g"
    and "e < length (g_edges g)" "e_source (g_edges g ! e) = Actor i" "e_sink (g_edges g ! e) = Actor j"
  shows "fst (rates ! e) * int (rv ! i) = snd (rates ! e) * int (rv ! j)"
proof -
  from graph_wf_source [OF assms(2-4)] have "i < length (g_vertices g)" "Some e \<in> set (v_out (g_vertices g ! i))" by auto
  with brv_compute_balanced [OF assms(1,2)] assms(5) show ?thesis by (simp add: balanced_def)
qed

theorem brv_balances_every_edge_witness:
  "\<exists>rv. brv_compute (two_actors NORMAL NORMAL) [(2, 3)] [1, 1] = Inr rv \<and> 2 * int (rv ! 0) = 3 * int (rv ! 1)"
proof -
  have n: "length (g_vertices (two_actors NORMAL NORMAL)) = 2" by (simp add: two_actors_def)
  from brv_compute_complete [OF two_actors_plain two_actors_solution] obtain rv where
    rv: "brv_compute (two_actors NORMAL NORMAL) [(2, 3)] [1, 1] = Inr rv"
    by (auto simp: n numeral_2_eq_2)
  from brv_balances_every_edge [OF rv two_actors_wf, of 0 0 1] rv show ?thesis by (simp add: two_actors_def)
qed

text \<open>
  C6. The repetition vector is complete and minimal: on a graph of actors with positive rates whose balance
  equations have a positive solution, \<open>compute\<close> returns a positive vector that balances every edge and is below
  every positive solution. The bound is \<open>2 ^ 31\<close> on rates and values, which keeps every product on 64 bits.
\<close>

theorem brv_is_minimal_solution:
  assumes "plain_graph g rates" "solution g rates q"
  shows "\<exists>rv. brv_compute g rates (replicate (length (g_vertices g)) 1) = Inr rv \<and>
    solution g rates (\<lambda>i. int (rv ! i)) \<and>
    (\<forall>q' i. solution g rates q' \<longrightarrow> i < length (g_vertices g) \<longrightarrow> int (rv ! i) \<le> q' i)"
proof -
  from brv_compute_complete [OF assms] obtain rv where
    rv: "brv_compute g rates (replicate (length (g_vertices g)) 1) = Inr rv" "below_solution g q rv" by auto
  have wf: "graph_wf g" using assms(1) by (simp add: plain_graph_def)
  have "solution g rates (\<lambda>i. int (rv ! i))"
    unfolding solution_def
  proof (intro conjI allI impI)
    fix i assume "i < length (g_vertices g)"
    then have "0 < rv ! i" "int (rv ! i) \<le> q i" "q i < Q_MAX"
      using rv(2) assms(2) by (auto simp: below_solution_def solution_def)
    then show "0 < int (rv ! i)" "int (rv ! i) < Q_MAX" by linarith+
  next
    fix e i j
    assume e: "e < length (g_edges g)" "e_source (g_edges g ! e) = Actor i" "e_sink (g_edges g ! e) = Actor j"
    from graph_wf_source [OF wf e(1,2)] brv_compute_balanced [OF rv(1) wf] e(3)
    show "fst (rates ! e) * int (rv ! i) = snd (rates ! e) * int (rv ! j)" by (simp add: balanced_def)
  qed
  moreover have "int (rv ! i) \<le> q' i" if "solution g rates q'" "i < length (g_vertices g)" for q' i
  proof -
    from brv_compute_complete [OF assms(1) that(1)] rv(1) have "below_solution g q' rv" by auto
    with that(2) show ?thesis by (simp add: below_solution_def)
  qed
  ultimately show ?thesis using rv(1) by blast
qed

theorem brv_is_minimal_solution_witness:
  "\<exists>rv. brv_compute (two_actors NORMAL NORMAL) [(2, 3)] [1, 1] = Inr rv \<and> int (rv ! 0) \<le> 3 \<and> int (rv ! 1) \<le> 2"
proof -
  have n: "length (g_vertices (two_actors NORMAL NORMAL)) = 2" by (simp add: two_actors_def)
  from brv_is_minimal_solution [OF two_actors_plain two_actors_solution] obtain rv where
    "brv_compute (two_actors NORMAL NORMAL) [(2, 3)] [1, 1] = Inr rv"
    "\<forall>q' i. solution (two_actors NORMAL NORMAL) [(2, 3)] q' \<longrightarrow> i < 2 \<longrightarrow> int (rv ! i) \<le> q' i"
    by (auto simp: n numeral_2_eq_2)
  moreover from this(2) two_actors_solution have "\<forall>i < 2. int (rv ! i) \<le> (if i = 0 then 3 else 2)" by blast
  ultimately show ?thesis by (auto dest: spec [of _ 0] spec [of _ 1])
qed

text \<open>
  The list of configuration actors of a component is wrong: for each configuration actor met, the code registers
  the seed of the component. Here the seed is an ordinary actor, and it is the one whose output edges
  \<open>updateComponentBRV\<close> will read.
\<close>

theorem brv_registers_seed_as_config:
  "\<exists>h h' c. brv_handler_new 2 1 = Inr h \<and> extractConnectedComponent (two_actors NORMAL CONFIG) [(1, 1)] 0 h = Inr (h', c) \<and>
     c_configs c = [0] \<and> v_type (g_vertices (two_actors NORMAL CONFIG) ! 0) = NORMAL"
  by (simp add: brv_handler_new_eq extractConnectedComponent_def extract_loop.simps visit_vertex_def two_actors_def
      visit_output_edge_def visit_input_edge_def updateRational_def mk_rational_def reduce_nonneg in_i64_def
      source_ref_def sink_ref_def propagate_def rat_mul_assign_def register_vertex_def numeral_2_eq_2 Let_def)

end
