(* ===== verification/DependenciesProps.thy ===== *)
theory DependenciesProps
  imports Dependencies
begin

text \<open>
  What the dependency computations return: the tokens a \<open>DependencyInfo\<close> stands for, the flat edge (between two
  ordinary actors of one graph), where execution and consumer dependencies are dual, and the crossing of a delay and of
  an input interface.
\<close>

text \<open>The tokens a dependency covers, numbered from the first firing of its producer (or consumer).\<close>

definition dep_tokens :: "dep_info \<Rightarrow> int set" where
  "dep_tokens d =
     {int (dep_firingStart d) * dep_rate d + int (dep_memoryStart d)..int (dep_firingEnd d) * dep_rate d + int (dep_memoryEnd d)}"

definition depends_on :: "dep_info \<Rightarrow> vref \<Rightarrow> nat \<Rightarrow> int \<Rightarrow> int set \<Rightarrow> bool" where
  "depends_on d v h rate T \<longleftrightarrow>
     dep_vertex d = Some v \<and> dep_handler d = Some h \<and> dep_rate d = rate \<and>
     int (dep_memoryStart d) < rate \<and> int (dep_memoryEnd d) < rate \<and> dep_firingStart d \<le> dep_firingEnd d \<and> dep_tokens d = T"

text \<open>The range of firings alone, as the count is returned.\<close>

definition dep_firings :: "dep_info \<Rightarrow> nat set" where
  "dep_firings d = {dep_firingStart d..dep_firingEnd d}"

subsection \<open>Division on the 32-bit fields\<close>

lemma to_u32_small: "0 \<le> x \<Longrightarrow> x < 2 ^ 32 \<Longrightarrow> int (to_u32 x) = x"
  by (simp add: to_u32_def)

lemma sdiv_nonneg: "0 \<le> x \<Longrightarrow> 0 < y \<Longrightarrow> x sdiv y = x div y" for x y :: int
  by (auto simp: signed_divide_int_def sgn_if)

lemma smod_nonneg: "0 \<le> x \<Longrightarrow> 0 < y \<Longrightarrow> x smod y = x mod y" for x y :: int
  by (auto simp: smod_int_alt_def sgn_if)

lemma to_u32_nat: "0 \<le> x \<Longrightarrow> x < 2 ^ 32 \<Longrightarrow> to_u32 x = nat x"
  by (simp add: to_u32_def)

lemma u32_fields:
  fixes x r :: int
  assumes "0 \<le> x" "x < 2 ^ 32" "0 < r"
  shows "to_u32 (x div r) = nat (x div r)" "to_u32 (x mod r) = nat (x mod r)"
proof -
  have "x div r \<le> x" "x mod r \<le> x" using assms by (auto intro: div_le_self_int zmod_le_nonneg_dividend)
  with assms show "to_u32 (x div r) = nat (x div r)" "to_u32 (x mod r) = nat (x mod r)"
    by (auto intro!: to_u32_nat simp: pos_imp_zdiv_nonneg_iff)
qed

text \<open>A range of tokens, as the fields of a dependency on a producer (or consumer) of rate \<open>r\<close>.\<close>

definition range_dep :: "vref \<Rightarrow> nat \<Rightarrow> nat \<Rightarrow> int \<Rightarrow> int \<Rightarrow> int \<Rightarrow> dep_info" where
  "range_dep v h p r a b =
     \<lparr>dep_vertex = Some v, dep_handler = Some h, dep_rate = r, dep_edgeIx = p mod 2 ^ 32,
      dep_memoryStart = nat (a mod r), dep_memoryEnd = nat (b mod r),
      dep_firingStart = nat (a div r), dep_firingEnd = nat (b div r)\<rparr>"

lemma range_dep_depends_on:
  assumes "0 \<le> a" "a \<le> b" "0 < r"
  shows "depends_on (range_dep v h p r a b) v h r {a..b}"
  using assms zdiv_mono1 [of a b r] pos_mod_bound [of r a] pos_mod_bound [of r b]
  by (auto simp: depends_on_def dep_tokens_def range_dep_def pos_imp_zdiv_nonneg_iff nat_le_eq_zle)

lemma div_range:
  fixes a b r j :: int
  assumes "a \<le> b" "0 < r"
  shows "a div r \<le> j \<and> j \<le> b div r \<longleftrightarrow> (\<exists>t. a \<le> t \<and> t \<le> b \<and> t div r = j)"
proof
  assume j: "a div r \<le> j \<and> j \<le> b div r"
  show "\<exists>t. a \<le> t \<and> t \<le> b \<and> t div r = j"
  proof (cases "a div r = j")
    case True then show ?thesis using assms by auto
  next
    case False
    with j have "a div r < j" by simp
    then have "r * (a div r + 1) \<le> r * j" using assms(2) by (intro mult_left_mono) auto
    then have "r * (a div r) + r \<le> r * j" by (simp add: distrib_left)
    then have "a < r * j" using mult_div_mod_eq [of r a] pos_mod_bound [of r a] assms(2) by linarith
    moreover have "r * j \<le> b"
    proof -
      have "r * j \<le> r * (b div r)" using j assms(2) by simp
      also have "\<dots> \<le> b" using mult_div_mod_eq [of r b] pos_mod_sign [of r b] assms(2) by linarith
      finally show ?thesis .
    qed
    ultimately show ?thesis using assms(2) by (intro exI [of _ "r * j"]) auto
  qed
next
  assume "\<exists>t. a \<le> t \<and> t \<le> b \<and> t div r = j"
  then obtain t where "a \<le> t" "t \<le> b" "t div r = j" by auto
  with zdiv_mono1 [of a t r] zdiv_mono1 [of t b r] assms(2) show "a div r \<le> j \<and> j \<le> b div r" by simp
qed

lemma div_iff:
  fixes t r q :: int
  assumes "0 < r"
  shows "t div r = q \<longleftrightarrow> r * q \<le> t \<and> t \<le> r * (q + 1) - 1"
proof
  assume "t div r = q"
  with mult_div_mod_eq [of r t] pos_mod_bound [OF assms, of t] pos_mod_sign [OF assms, of t]
  show "r * q \<le> t \<and> t \<le> r * (q + 1) - 1" by (simp add: distrib_left)
next
  assume "r * q \<le> t \<and> t \<le> r * (q + 1) - 1"
  then show "t div r = q" by (intro int_div_pos_eq [of t r q "t - r * q"]) (auto simp: distrib_left)
qed

lemma range_dep_firings:
  assumes "0 \<le> a" "a \<le> b" "0 < r"
  shows "k \<in> dep_firings (range_dep v h p r a b) \<longleftrightarrow> (\<exists>t. a \<le> t \<and> t \<le> b \<and> t div r = int k)"
  using assms div_range [of a b r "int k"]
  by (simp add: dep_firings_def range_dep_def nat_le_iff le_nat_iff pos_imp_zdiv_nonneg_iff)

lemma to_u32_0 [simp]: "to_u32 0 = 0"
  by (simp add: to_u32_def)

lemma createExecDependency_eq:
  assumes "dv \<le> lower" "lower \<le> upper" "upper - dv < 2 ^ 32" "0 < r"
  shows "createExecDependency edge lower upper r dv h = range_dep (e_source edge) h (e_source_port edge) r (lower - dv) (upper - dv)"
  using assms
  by (simp add: createExecDependency_def range_dep_def sdiv_nonneg smod_nonneg Let_def u32_fields)

lemma createConsDependency_eq:
  assumes "0 \<le> lower + dv" "lower \<le> upper" "upper + dv < 2 ^ 32" "0 < r"
  shows "createConsDependency edge lower upper r dv h = range_dep (e_sink edge) h (e_sink_port edge) r (lower + dv) (upper + dv)"
  using assms
  by (simp add: createConsDependency_def range_dep_def sdiv_nonneg smod_nonneg Let_def u32_fields)

subsection \<open>Flat edges\<close>

definition plain_source :: "world \<Rightarrow> nat \<Rightarrow> nat \<Rightarrow> pi_edge \<Rightarrow> int \<Rightarrow> bool" where
  "plain_source W h e edge rate \<longleftrightarrow>
     edge_of W h e = Inr edge \<and> (\<exists>t. subtype_of W h (e_source edge) = Inr t \<and> t \<notin> {DELAY, INPUT, GRAPH}) \<and>
     getSrcRate W h e = Inr rate \<and> 0 < rate \<and> (\<exists>c. getSnkRate W h e = Inr c \<and> c \<noteq> 0)"

definition plain_sink :: "world \<Rightarrow> nat \<Rightarrow> nat \<Rightarrow> pi_edge \<Rightarrow> int \<Rightarrow> nat \<Rightarrow> bool" where
  "plain_sink W h e edge rate rv \<longleftrightarrow>
     edge_of W h e = Inr edge \<and> (\<exists>t. subtype_of W h (e_sink edge) = Inr t \<and> t \<notin> {DELAY, OUTPUT, GRAPH}) \<and>
     getSnkRate W h e = Inr rate \<and> getRV W h (e_sink edge) = Inr rv \<and> (\<exists>n. getRV W h (e_source edge) = Inr n) \<and>
     0 < rate \<and> (\<exists>c. getSrcRate W h e = Inr c \<and> c \<noteq> 0)"

lemma execDep_source:
  assumes "plain_source W h e edge rate" "delay_of W h e = Inr delay"
    and "delayValue delay \<le> lower" "lower \<le> upper" "upper - delayValue delay < 2 ^ 32"
  shows "execDep (Suc fuel) W e lower upper h =
    (let d = range_dep (e_source edge) h (e_source_port edge) rate (lower - delayValue delay) (upper - delayValue delay)
     in ret_deps (firing_count d) [d])"
proof -
  from assms(1) obtain t c where t: "edge_of W h e = Inr edge" "subtype_of W h (e_source edge) = Inr t"
    "t \<noteq> DELAY" "t \<noteq> INPUT" "t \<noteq> GRAPH" "getSrcRate W h e = Inr rate" "0 < rate" "getSnkRate W h e = Inr c" "c \<noteq> 0"
    by (auto simp: plain_source_def)
  have "\<not> upper < delayValue delay" using assms(3,4) by simp
  with t assms(2-5) show ?thesis
    by (cases delay) (simp_all add: execDep_step_def createExecDependency_eq delayValue_def Let_def)
qed

lemma execDep_setter:
  assumes "plain_source W h se edge rate" "delay_of W h e = Inr (Some d)" "setterEdge W h d = Inr se"
    and "plain_source W h e edge' rate'" "0 \<le> lower" "lower \<le> upper" "upper < d_value d" "d_value d \<le> 2 ^ 32"
  shows "execDep (Suc fuel) W e lower upper h =
    (let d = range_dep (e_source edge) h (e_source_port edge) rate lower upper in ret_deps (firing_count d) [d])"
proof -
  from assms(1) obtain t where t: "edge_of W h se = Inr edge" "subtype_of W h (e_source edge) = Inr t"
    "t \<noteq> DELAY" "t \<noteq> INPUT" "t \<noteq> GRAPH" "getSrcRate W h se = Inr rate" "0 < rate"
    by (auto simp: plain_source_def)
  from assms(4) obtain t' c where "edge_of W h e = Inr edge'" "subtype_of W h (e_source edge') = Inr t'" "t' \<noteq> DELAY"
    "getSnkRate W h e = Inr c" "c \<noteq> 0"
    by (auto simp: plain_source_def)
  with t assms(2,3,5-8) show ?thesis
    by (simp add: execDep_step_def createExecDependency_eq delayValue_def Let_def)
qed

lemma execDep_split:
  assumes "plain_source W h e edge rate" "delay_of W h e = Inr (Some d)" "setterEdge W h d = Inr se"
    and "lower < d_value d" "d_value d \<le> upper"
  shows "execDep (Suc fuel) W e lower upper h =
    plus_deps (execDep fuel W se lower (d_value d - 1) h) (execDep fuel W e (d_value d) upper h)"
proof -
  from assms(1) obtain t c where "edge_of W h e = Inr edge" "subtype_of W h (e_source edge) = Inr t"
    "t \<noteq> DELAY" "getSnkRate W h e = Inr c" "c \<noteq> 0"
    by (auto simp: plain_source_def)
  with assms(2-5) show ?thesis by (simp add: execDep_step_def delayValue_def Let_def)
qed

lemma consDep_sink:
  assumes "plain_sink W h e edge rate rv" "delay_of W h e = Inr delay"
    and "0 \<le> lower" "lower \<le> upper" "0 \<le> delayValue delay" "upper + delayValue delay < rate * int rv" "rate * int rv \<le> 2 ^ 32"
  shows "consDep (Suc fuel) W e lower upper h =
    (let d = range_dep (e_sink edge) h (e_sink_port edge) rate (lower + delayValue delay) (upper + delayValue delay)
     in ret_deps (firing_count d) [d])"
proof -
  from assms(1) obtain t c n where t: "edge_of W h e = Inr edge" "subtype_of W h (e_sink edge) = Inr t"
    "t \<noteq> DELAY" "t \<noteq> OUTPUT" "t \<noteq> GRAPH" "getSnkRate W h e = Inr rate" "0 < rate" "getSrcRate W h e = Inr c" "c \<noteq> 0"
    "getRV W h (e_sink edge) = Inr rv" "getRV W h (e_source edge) = Inr n"
    by (auto simp: plain_sink_def)
  have "\<not> rate * int rv - delayValue delay \<le> lower" "upper < rate * int rv - delayValue delay" using assms(3-7) by linarith+
  with t assms(2-7) show ?thesis
    by (simp add: consDep_step_def createConsDependency_eq Let_def)
qed

subsection \<open>The ring of an input interface\<close>

lemma sum_deps_single:
  "(\<And>k. k \<in> set ks \<Longrightarrow> f k = ret_deps (n k) [d k]) \<Longrightarrow> sum_deps f ks = ret_deps (\<Sum>k\<leftarrow>ks. n k) (List.map d ks)"
  by (induction ks) auto

lemma interface_bounds:
  fixes a b r :: int
  assumes "0 \<le> a" "a \<le> b" "0 < r" "k \<in> set [nat (a div r)..<Suc (nat (b div r))]"
  shows "(if k = nat (a div r) then a mod r else 0) \<le> (if k = nat (b div r) then b mod r else r - 1)"
    "0 \<le> (if k = nat (a div r) then a mod r else 0)" "(if k = nat (b div r) then b mod r else r - 1) < r"
proof -
  have "a mod r \<le> b mod r" if "nat (a div r) = nat (b div r)"
  proof -
    from that assms have "a div r = b div r" by (simp add: nat_eq_iff pos_imp_zdiv_nonneg_iff)
    then have "a div r * r = b div r * r" by simp
    with div_mult_mod_eq [of a r] div_mult_mod_eq [of b r] assms(2) show ?thesis by linarith
  qed
  then show "(if k = nat (a div r) then a mod r else 0) \<le> (if k = nat (b div r) then b mod r else r - 1)"
    "0 \<le> (if k = nat (a div r) then a mod r else 0)" "(if k = nat (b div r) then b mod r else r - 1) < r"
    using assms(3) pos_mod_bound [of r a] by auto
qed

lemma interface_image:
  fixes a b r B dv :: int
  assumes "0 \<le> a" "a \<le> b" "0 < r"
  shows "(\<Union>k \<in> set [nat (a div r)..<Suc (nat (b div r))].
      {B + (if k = nat (a div r) then a mod r else 0)..B + (if k = nat (b div r) then b mod r else r - 1)})
    = (\<lambda>t. B + (t - dv) mod r) ` {a + dv..b + dv}" (is "?L = ?R")
proof
  have nn: "0 \<le> a div r" "0 \<le> b div r" using assms by (auto simp: pos_imp_zdiv_nonneg_iff)
  show "?L \<subseteq> ?R"
  proof
    fix x assume "x \<in> ?L"
    then obtain k where k: "k \<in> set [nat (a div r)..<Suc (nat (b div r))]"
      and x: "B + (if k = nat (a div r) then a mod r else 0) \<le> x" "x \<le> B + (if k = nat (b div r) then b mod r else r - 1)"
      by auto
    define m where "m = x - B"
    have m: "0 \<le> m" "m < r" using interface_bounds(2,3) [OF assms k] x by (auto simp: m_def)
    have ka: "a div r \<le> int k" "int k \<le> b div r" using k nn by (auto simp: nat_le_iff le_nat_iff less_Suc_eq_le)
    have "a \<le> int k * r + m"
    proof (cases "k = nat (a div r)")
      case True
      then have "a mod r \<le> m" "int k = a div r" using nn x(1) by (auto simp: m_def)
      with div_mult_mod_eq [of a r] show ?thesis by (metis add_left_mono)
    next
      case False
      with ka nn have "a div r + 1 \<le> int k" by linarith
      then have "(a div r + 1) * r \<le> int k * r" using assms(3) by (intro mult_right_mono) auto
      then have "a div r * r + r \<le> int k * r" by (simp add: algebra_simps)
      with m div_mult_mod_eq [of a r] pos_mod_bound [OF assms(3), of a] show ?thesis by linarith
    qed
    moreover have "int k * r + m \<le> b"
    proof (cases "k = nat (b div r)")
      case True
      then have "m \<le> b mod r" "int k = b div r" using nn x(2) by (auto simp: m_def)
      with div_mult_mod_eq [of b r] show ?thesis by (metis add_left_mono)
    next
      case False
      with ka nn have "int k + 1 \<le> b div r" by linarith
      then have "(int k + 1) * r \<le> b div r * r" using assms(3) by (intro mult_right_mono) auto
      then have "int k * r + r \<le> b div r * r" by (simp add: algebra_simps)
      with m div_mult_mod_eq [of b r] pos_mod_sign [OF assms(3), of b] show ?thesis by linarith
    qed
    moreover have "x = B + (int k * r + m + dv - dv) mod r" using m by (simp add: m_def)
    ultimately show "x \<in> ?R" by (intro image_eqI [of _ _ "int k * r + m + dv"]) auto
  qed
  show "?R \<subseteq> ?L"
  proof
    fix x assume "x \<in> ?R"
    then obtain u where u: "a \<le> u" "u \<le> b" "x = B + u mod r" by (auto simp: image_iff) (metis add_diff_cancel_right' diff_add_cancel le_diff_eq diff_le_eq)
    let ?k = "nat (u div r)"
    have d: "a div r \<le> u div r" "u div r \<le> b div r" using u assms(3) by (auto intro: zdiv_mono1)
    have "(if ?k = nat (a div r) then a mod r else 0) \<le> u mod r"
    proof (cases "u div r = a div r")
      case True
      then have "u div r * r = a div r * r" "?k = nat (a div r)" by simp_all
      then show ?thesis using u(1) div_mult_mod_eq [of a r] div_mult_mod_eq [of u r] unfolding if_P [OF \<open>?k = nat (a div r)\<close>] by linarith
    next
      case False
      with d nn have "?k \<noteq> nat (a div r)" by (simp add: nat_eq_iff)
      then show ?thesis using assms(3) by simp
    qed
    moreover have "u mod r \<le> (if ?k = nat (b div r) then b mod r else r - 1)"
    proof (cases "u div r = b div r")
      case True
      then have "u div r * r = b div r * r" "?k = nat (b div r)" by simp_all
      then show ?thesis using u(2) div_mult_mod_eq [of b r] div_mult_mod_eq [of u r] unfolding if_P [OF \<open>?k = nat (b div r)\<close>] by linarith
    next
      case False
      with d nn have "?k \<noteq> nat (b div r)" by (simp add: nat_eq_iff)
      then show ?thesis using assms(3) pos_mod_bound [of r u] by simp
    qed
    moreover have "?k \<in> set [nat (a div r)..<Suc (nat (b div r))]" using d by (auto simp: less_Suc_eq_le nat_mono)
    ultimately show "x \<in> ?L" using u(3) by (intro UN_I [of ?k]) auto
  qed
qed

subsection \<open>A world with two actors\<close>

text \<open>Rates 2 and 3, repetition values 3 and 2, a delay of 2 tokens set by a third actor of rate 2.\<close>

definition dep_world :: world where
  "dep_world =
     \<lparr>w_graphs = [\<lparr>
        g_vertices = [\<lparr>v_type = NORMAL, v_in = [], v_out = [Some 0]\<rparr>, \<lparr>v_type = NORMAL, v_in = [Some 0], v_out = []\<rparr>,
                      \<lparr>v_type = NORMAL, v_in = [], v_out = [Some 1]\<rparr>, \<lparr>v_type = DELAY, v_in = [Some 1], v_out = []\<rparr>],
        g_edges = [\<lparr>e_source = Actor 0, e_source_port = 0, e_sink = Actor 1, e_sink_port = 0\<rparr>,
                   \<lparr>e_source = Actor 2, e_source_port = 0, e_sink = Actor 3, e_sink_port = 0\<rparr>],
        g_in_ifs = [], g_out_ifs = [],
        g_delays = [Some \<lparr>d_value = 2, d_setter = 2, d_setterPort = 0, d_getter = 3, d_getterPort = 0\<rparr>, None],
        g_delayEdge = [0, 0, 0, 0], g_subgraph = [0, 0, 0, 0], g_self = 0\<rparr>],
      w_firings = [\<lparr>gf_graph = 0, gf_srcRates = [2, 2], gf_snkRates = [3, 2], gf_brv = [3, 2, 1, 1], gf_firing = 0,
        gf_base = 0, gf_resolved = True, gf_subs = (\<lambda>_ _. None)\<rparr>]\<rparr>"

lemmas dep_world_simps = dep_world_def edge_of_def subtype_of_def graph_of_def firing_of_def getSrcRate_def getSnkRate_def
  delay_of_def setterEdge_def getRV_def port_edge_def get_at_def

lemma dep_world_source:
  "plain_source dep_world 0 0 \<lparr>e_source = Actor 0, e_source_port = 0, e_sink = Actor 1, e_sink_port = 0\<rparr> 2"
  by (simp add: plain_source_def dep_world_simps)

lemma dep_world_setter:
  "plain_source dep_world 0 1 \<lparr>e_source = Actor 2, e_source_port = 0, e_sink = Actor 3, e_sink_port = 0\<rparr> 2"
  by (simp add: plain_source_def dep_world_simps)

lemma dep_world_sink:
  "plain_sink dep_world 0 0 \<lparr>e_source = Actor 0, e_source_port = 0, e_sink = Actor 1, e_sink_port = 0\<rparr> 3 2"
  by (simp add: plain_sink_def dep_world_simps)

subsection \<open>Properties\<close>

text \<open>
  C10. Execution dependencies are exact on an edge between two actors, with a delay: the tokens after the
  initial ones come from the producer, shifted by the delay; the initial ones come from the setter of the delay; a range
  across the two is split in one dependency on each. No token is asked twice and none is forgotten.
\<close>

theorem exec_dependency_exact:
  assumes "plain_source W h e edge rate" "delay_of W h e = Inr (Some d)"
    and "setterEdge W h d = Inr se" "plain_source W h se sedge srate" "delay_of W h se = Inr None"
    and "0 \<le> lower" "lower \<le> upper" "upper < 2 ^ 32" "0 \<le> d_value d" "d_value d < 2 ^ 32"
  shows "(d_value d \<le> lower \<longrightarrow> (\<exists>n x. execDep (Suc (Suc fuel)) W e lower upper h = ret_deps n [x] \<and>
            depends_on x (e_source edge) h rate {lower - d_value d..upper - d_value d}))
       \<and> (upper < d_value d \<longrightarrow> (\<exists>n x. execDep (Suc (Suc fuel)) W e lower upper h = ret_deps n [x] \<and>
            depends_on x (e_source sedge) h srate {lower..upper}))
       \<and> (lower < d_value d \<and> d_value d \<le> upper \<longrightarrow> (\<exists>n x y. execDep (Suc (Suc fuel)) W e lower upper h = ret_deps n [x, y] \<and>
            depends_on x (e_source sedge) h srate {lower..d_value d - 1} \<and>
            depends_on y (e_source edge) h rate {0..upper - d_value d}))"
proof (intro conjI impI)
  have pos: "0 < rate" "0 < srate" using assms(1,4) by (auto simp: plain_source_def)
  show "\<exists>n x. execDep (Suc (Suc fuel)) W e lower upper h = ret_deps n [x] \<and>
      depends_on x (e_source edge) h rate {lower - d_value d..upper - d_value d}" if "d_value d \<le> lower"
    using execDep_source [OF assms(1,2), of lower upper "Suc fuel"] assms that pos
    by (intro exI conjI) (simp add: delayValue_def Let_def del: execDep.simps, intro range_dep_depends_on, auto)
  show "\<exists>n x. execDep (Suc (Suc fuel)) W e lower upper h = ret_deps n [x] \<and>
      depends_on x (e_source sedge) h srate {lower..upper}" if "upper < d_value d"
    using execDep_setter [OF assms(4,2,3,1,6,7) that, of "Suc fuel"] assms pos
    by (intro exI conjI) (simp add: Let_def del: execDep.simps, intro range_dep_depends_on, auto)
  show "\<exists>n x y. execDep (Suc (Suc fuel)) W e lower upper h = ret_deps n [x, y] \<and>
      depends_on x (e_source sedge) h srate {lower..d_value d - 1} \<and> depends_on y (e_source edge) h rate {0..upper - d_value d}"
    if "lower < d_value d \<and> d_value d \<le> upper"
    using execDep_split [OF assms(1-3), of lower upper "Suc fuel"] that assms pos
      execDep_source [OF assms(4,5), of lower "d_value d - 1" fuel] execDep_source [OF assms(1,2), of "d_value d" upper fuel]
    by (intro exI conjI)
      (simp add: delayValue_def Let_def del: execDep.simps, simp_all, (rule range_dep_depends_on; simp)+)
qed

theorem exec_dependency_exact_witness:
  "\<exists>n x y. execDep 2 dep_world 0 0 2 0 = ret_deps n [x, y] \<and> depends_on x (Actor 2) 0 2 {0..1} \<and> depends_on y (Actor 0) 0 2 {0..0}"
  using exec_dependency_exact [OF dep_world_source _ _ dep_world_setter,
      where d = "\<lparr>d_value = 2, d_setter = 2, d_setterPort = 0, d_getter = 3, d_getterPort = 0\<rparr>" and lower = 0 and upper = 2 and fuel = 0]
  by (simp add: dep_world_simps numeral_2_eq_2 del: execDep.simps)

text \<open>
  C22. The two computations are dual: on an edge between two actors with balanced rates, a consumer firing that
  reads no initial token depends on a producer firing exactly when that firing, when all it writes is read in the same
  iteration, has the consumer firing among its consumers.
\<close>

theorem exec_cons_dual:
  assumes "plain_source W h e edge p" "plain_sink W h e edge c rv" "delay_of W h e = Inr delay" "0 \<le> delayValue delay"
    and "c * int rv < 2 ^ 32" "k < rv" "delayValue delay \<le> c * int k" "p * (int j + 1) \<le> c * int rv - delayValue delay"
  shows "\<exists>n x m y. computeExecDependency (Suc fuel) W h e k = ret_deps n [x] \<and>
      computeConsDependency (Suc fuel) W h e j = ret_deps m [y] \<and> (j \<in> dep_firings x \<longleftrightarrow> k \<in> dep_firings y)"
proof -
  let ?dv = "delayValue delay"
  have rates: "0 < p" "0 < c" "getSrcRate W h e = Inr p" "getSnkRate W h e = Inr c"
    using assms(1,2) by (auto simp: plain_source_def plain_sink_def)
  have k: "c * (int k + 1) \<le> c * int rv" using assms(6) rates(2) by (intro mult_left_mono) auto
  have "int k + 1 \<le> c * (int k + 1)" "int j + 1 \<le> p * (int j + 1)" using rates(1,2) by auto
  then have "int k + 1 < 2 ^ 32" "int j + 1 < 2 ^ 32" using k assms(4,5,8) by linarith+
  then have add: "int (add32 k 1) = int k + 1" "int (add32 j 1) = int j + 1" by (auto simp: add32_def)
  have l: "c * int k \<le> c * (int k + 1) - 1" "p * int j \<le> p * (int j + 1) - 1" using rates(1,2) by (auto simp: algebra_simps)
  have b: "c * (int k + 1) - 1 - ?dv < 2 ^ 32" "p * (int j + 1) - 1 + ?dv < c * int rv" using k assms(4,5,8) by linarith+
  let ?x = "range_dep (e_source edge) h (e_source_port edge) p (c * int k - ?dv) (c * (int k + 1) - 1 - ?dv)"
  let ?y = "range_dep (e_sink edge) h (e_sink_port edge) c (p * int j + ?dv) (p * (int j + 1) - 1 + ?dv)"
  have x: "computeExecDependency (Suc fuel) W h e k = ret_deps (firing_count ?x) [?x]"
    using execDep_source [OF assms(1,3) assms(7) l(1) b(1), of fuel] rates
    by (simp add: computeExecDependency_def add Let_def del: execDep.simps One_nat_def)
  have y: "computeConsDependency (Suc fuel) W h e j = ret_deps (firing_count ?y) [?y]"
    using consDep_sink [OF assms(2,3) _ l(2) assms(4) b(2), of fuel] assms(5) rates
    by (simp add: computeConsDependency_def add Let_def del: consDep.simps One_nat_def)
  have "j \<in> dep_firings ?x \<longleftrightarrow> (\<exists>t. c * int k \<le> t + ?dv \<and> t + ?dv \<le> c * (int k + 1) - 1 \<and> p * int j \<le> t \<and> t \<le> p * (int j + 1) - 1)"
    using l(1) assms(7) rates(1) by (subst range_dep_firings) (auto simp: div_iff algebra_simps)
  also have "\<dots> \<longleftrightarrow> (\<exists>t. c * int k \<le> t \<and> t \<le> c * (int k + 1) - 1 \<and> p * int j + ?dv \<le> t \<and> t \<le> p * (int j + 1) - 1 + ?dv)"
    by (rule iffI; elim exE) (rule_tac x = "t + ?dv" in exI, simp, rule_tac x = "t - ?dv" in exI, simp)
  also have "\<dots> \<longleftrightarrow> k \<in> dep_firings ?y"
    using l(2) assms(4) rates(1,2) by (subst range_dep_firings) (auto simp: div_iff)
  finally show ?thesis using x y by blast
qed

theorem exec_cons_dual_witness:
  "\<exists>n x m y. computeExecDependency 1 dep_world 0 0 1 = ret_deps n [x] \<and>
     computeConsDependency 1 dep_world 0 0 1 = ret_deps m [y] \<and> (1 \<in> dep_firings x \<longleftrightarrow> 1 \<in> dep_firings y)"
  using exec_cons_dual [OF dep_world_source dep_world_sink, where k = 1 and j = 1 and fuel = 0 and
      delay = "Some \<lparr>d_value = 2, d_setter = 2, d_setterPort = 0, d_getter = 3, d_getterPort = 0\<rparr>"]
  by (simp add: dep_world_simps delayValue_def)

text \<open>
  C37. The bounds that the schedulers use: for a firing of the consumer, \<open>computeConsLowerDep\<close> and
  \<open>computeConsUpperDep\<close> enclose exactly the producer firings that write one of its tokens, and are -1 exactly when
  the delay gives the first token, respectively all of them.
\<close>

theorem cons_dep_bounds:
  assumes "0 < c" "0 < p" "0 \<le> f" "0 \<le> delay" "(f + 1) * c < 2 ^ 63" "delay < 2 ^ 63"
  shows "\<exists>lo up. computeConsLowerDep c p f delay = Inr lo \<and> computeConsUpperDep c p f delay = Inr up \<and>
    (\<forall>j \<ge> 0. lo \<le> j \<and> j \<le> up \<longleftrightarrow> (\<exists>t. f * c \<le> t \<and> t < (f + 1) * c \<and> (t - delay) div p = j)) \<and>
    (lo = -1 \<longleftrightarrow> f * c < delay) \<and> (up = -1 \<longleftrightarrow> (f + 1) * c \<le> delay)"
proof -
  let ?a = "f * c - delay" and ?b = "(f + 1) * c - delay - 1"
  have fc: "0 \<le> f * c" "f * c + c = (f + 1) * c" using assms(1,3) by (auto simp: algebra_simps)
  have ab: "?a \<le> ?b" using assms(1) by (simp add: algebra_simps)
  have i: "in_i64 ?a" "in_i64 ?b" unfolding in_i64_def using fc assms(1,4-6) by linarith+
  have lo: "computeConsLowerDep c p f delay = Inr (max (-1) (?a div p))"
    using i assms(2) by (simp add: computeConsLowerDep_def floorDiv_eq in_i64_sdiv)
  have up: "computeConsUpperDep c p f delay = Inr (max (-1) (?b div p))"
    using i assms(2) by (simp add: computeConsUpperDep_def floorDiv_eq in_i64_sdiv)
  have neg: "max (-1) (x div p) = -1 \<longleftrightarrow> x < 0" for x
    using pos_imp_zdiv_neg_iff [OF assms(2), of x] by (auto simp: max_def)
  have "max (-1) (?a div p) \<le> j \<and> j \<le> max (-1) (?b div p) \<longleftrightarrow> (\<exists>t. f * c \<le> t \<and> t < (f + 1) * c \<and> (t - delay) div p = j)"
    if "0 \<le> j" for j
  proof -
    have "max (-1) (?a div p) \<le> j \<and> j \<le> max (-1) (?b div p) \<longleftrightarrow> ?a div p \<le> j \<and> j \<le> ?b div p" using that by auto
    also have "\<dots> \<longleftrightarrow> (\<exists>t. ?a \<le> t \<and> t \<le> ?b \<and> t div p = j)" by (rule div_range [OF ab assms(2)])
    also have "\<dots> \<longleftrightarrow> (\<exists>t. f * c \<le> t \<and> t < (f + 1) * c \<and> (t - delay) div p = j)"
      by (rule iffI; elim exE) (rule_tac x = "t + delay" in exI, simp, rule_tac x = "t - delay" in exI, simp)
    finally show ?thesis .
  qed
  with lo up neg [of ?a] neg [of ?b] show ?thesis by (intro exI conjI) (assumption+, auto)
qed

theorem cons_dep_bounds_witness:
  "\<exists>lo up. computeConsLowerDep 3 2 1 2 = Inr lo \<and> computeConsUpperDep 3 2 1 2 = Inr up \<and> lo \<noteq> -1 \<and> up \<noteq> -1"
  using cons_dep_bounds [of 3 2 1 2] by auto

text \<open>
  C36. Crossing an input interface whose upper edge is a plain one, from an actor and without a delay: the interface repeats its \<open>r\<close> tokens as often as the subgraph reads them, so the
  token \<open>t\<close> read inside is the token \<open>r * firing + (t - delay) mod r\<close> of the containing graph. The dependencies returned
  are all on the producer above, and cover exactly the image of the range read.
\<close>

theorem exec_input_interface:
  assumes "edge_of W h e = Inr edge" "e_source edge = In_If q" "upperInputEdge W h q = Inr (ue, base)"
    and "getSnkRate W h e = Inr c" "c \<noteq> 0" "getSrcRate W h e = Inr r" "0 < r" "firing_of W h = Inr f"
    and "delay_of W h e = Inr delay" "delayValue delay \<le> lower" "lower \<le> upper" "upper - delayValue delay < 2 ^ 32 - 1"
    and "plain_source W base ue uedge p" "delay_of W base ue = Inr None" "r * (int (gf_firing f) + 1) \<le> 2 ^ 32"
  shows "\<exists>n ds. execDep (Suc (Suc fuel)) W e lower upper h = ret_deps n ds \<and>
    (\<forall>d \<in> set ds. dep_vertex d = Some (e_source uedge) \<and> dep_handler d = Some base \<and> dep_rate d = p) \<and>
    (\<Union>d \<in> set ds. dep_tokens d) = (\<lambda>t. r * int (gf_firing f) + (t - delayValue delay) mod r) ` {lower..upper}"
proof -
  let ?B = "r * int (gf_firing f)" and ?a = "lower - delayValue delay" and ?b = "upper - delayValue delay"
  let ?s = "nat (?a div r)" and ?e = "nat (?b div r)"
  define lo where "lo k = ?B + (if k = ?s then ?a mod r else 0)" for k
  define hi where "hi k = ?B + (if k = ?e then ?b mod r else r - 1)" for k
  define dp where "dp k = range_dep (e_source uedge) base (e_source_port uedge) p (lo k) (hi k)" for k
  have ab: "0 \<le> ?a" "?a \<le> ?b" using assms by auto
  have p: "0 < p" using assms(13) by (simp add: plain_source_def)
  have step: "execDep (Suc (Suc fuel)) W e lower upper h = sum_firings (\<lambda>k. execDep (Suc fuel) W ue (lo k) (hi k) base) ?s ?e"
    using assms ab unfolding lo_def hi_def
    by (cases delay) (simp_all add: execDep_step_def execDepInput_def subtype_of_def delayValue_def sdivE_def smodE_def
        sdiv_nonneg smod_nonneg u32_fields Let_def cong: if_cong)
  have "?b div r < 2 ^ 32 - 1" using assms(12) ab div_le_self_int [of ?b r] assms(7) by linarith
  then have ne: "?e \<noteq> u32_max" by simp
  have rng: "0 \<le> lo k \<and> lo k \<le> hi k \<and> hi k < 2 ^ 32" if "k \<in> set [?s..<Suc ?e]" for k
    using interface_bounds [OF ab assms(7) that] assms(7,15) by (auto simp: lo_def hi_def algebra_simps)
  have one: "execDep (Suc fuel) W ue (lo k) (hi k) base = ret_deps (firing_count (dp k)) [dp k]" if "k \<in> set [?s..<Suc ?e]" for k
    using execDep_source [OF assms(13,14), of "lo k" "hi k" fuel] rng [OF that]
    by (simp add: dp_def delayValue_def Let_def del: execDep.simps)
  have res: "execDep (Suc (Suc fuel)) W e lower upper h =
      ret_deps (\<Sum>k\<leftarrow>[?s..<Suc ?e]. firing_count (dp k)) (List.map dp [?s..<Suc ?e])"
    using ne sum_deps_single [OF one] by (simp only: step sum_firings_def if_False)
  have dep: "depends_on (dp k) (e_source uedge) base p {lo k..hi k}" if "k \<in> set [?s..<Suc ?e]" for k
    unfolding dp_def using rng [OF that] p by (intro range_dep_depends_on) auto
  have "(\<Union>d \<in> set (List.map dp [?s..<Suc ?e]). dep_tokens d) = (\<Union>k \<in> set [?s..<Suc ?e]. {lo k..hi k})"
    using dep by (simp add: depends_on_def del: upt_Suc)
  also have "\<dots> = (\<lambda>t. ?B + (t - delayValue delay) mod r) ` {lower..upper}"
    using interface_image [OF ab assms(7), of ?B "delayValue delay"] by (simp add: lo_def hi_def del: upt_Suc)
  finally have cover: "(\<Union>d \<in> set (List.map dp [?s..<Suc ?e]). dep_tokens d) =
    (\<lambda>t. ?B + (t - delayValue delay) mod r) ` {lower..upper}" .
  have "\<forall>d \<in> set (List.map dp [?s..<Suc ?e]). dep_vertex d = Some (e_source uedge) \<and> dep_handler d = Some base \<and> dep_rate d = p"
    using dep by (auto simp: depends_on_def simp del: upt_Suc)
  with res cover show ?thesis by blast
qed

text \<open>A subgraph whose input interface of rate 2 feeds an actor of rate 3, repeated twice above.\<close>

definition if_world :: world where
  "if_world =
     \<lparr>w_graphs = [\<lparr>
        g_vertices = [\<lparr>v_type = NORMAL, v_in = [], v_out = [Some 0]\<rparr>, \<lparr>v_type = GRAPH, v_in = [Some 0], v_out = []\<rparr>],
        g_edges = [\<lparr>e_source = Actor 0, e_source_port = 0, e_sink = Actor 1, e_sink_port = 0\<rparr>],
        g_in_ifs = [], g_out_ifs = [], g_delays = [None], g_delayEdge = [0, 0], g_subgraph = [0, 1], g_self = 0\<rparr>, \<lparr>
        g_vertices = [\<lparr>v_type = NORMAL, v_in = [Some 0], v_out = []\<rparr>],
        g_edges = [\<lparr>e_source = In_If 0, e_source_port = 0, e_sink = Actor 0, e_sink_port = 0\<rparr>],
        g_in_ifs = [Some 0], g_out_ifs = [], g_delays = [None], g_delayEdge = [0], g_subgraph = [0], g_self = 1\<rparr>],
      w_firings = [\<lparr>gf_graph = 0, gf_srcRates = [4], gf_snkRates = [2], gf_brv = [1, 2], gf_firing = 0,
          gf_base = 0, gf_resolved = True, gf_subs = (\<lambda>_ _. None)\<rparr>,
        \<lparr>gf_graph = 1, gf_srcRates = [2], gf_snkRates = [3], gf_brv = [2], gf_firing = 1,
          gf_base = 0, gf_resolved = True, gf_subs = (\<lambda>_ _. None)\<rparr>]\<rparr>"

lemma if_world_source:
  "plain_source if_world 0 0 \<lparr>e_source = Actor 0, e_source_port = 0, e_sink = Actor 1, e_sink_port = 0\<rparr> 4"
  by (simp add: plain_source_def dep_world_simps if_world_def)

theorem exec_input_interface_witness:
  "\<exists>n ds. execDep 2 if_world 0 3 5 1 = ret_deps n ds \<and> (\<Union>d \<in> set ds. dep_tokens d) = (\<lambda>t. 2 + t mod 2) ` {3..5}"
proof -
  let ?e = "\<lparr>e_source = In_If 0, e_source_port = 0, e_sink = Actor 0, e_sink_port = 0\<rparr>"
  have "edge_of if_world 1 0 = Inr ?e" "e_source ?e = In_If 0" "upperInputEdge if_world 1 0 = Inr (0, 0)"
    "getSnkRate if_world 1 0 = Inr 3" "(3::int) \<noteq> 0" "getSrcRate if_world 1 0 = Inr 2" "(0::int) < 2"
    "firing_of if_world 1 = Inr (w_firings if_world ! 1)" "delay_of if_world 1 0 = Inr None"
    by (simp_all add: if_world_def dep_world_simps upperInputEdge_def)
  from exec_input_interface [OF this _ _ _ if_world_source, of 3 5 0]
  show ?thesis by (auto simp: if_world_def dep_world_simps delayValue_def numeral_2_eq_2 simp del: execDep.simps)
qed

end
