(* ===== verification/Expression.thy ===== *)
theory Expression
  imports RPN
begin

text \<open>
  \<open>ExpressionNumeric.h\<close>, \<open>ExpressionToken.h\<close> and \<open>ExpressionRuntime\<close>: the postfix elements are compiled into one
  function object over the symbol table, with every constant sub-expression folded. The type \<open>double\<close> is a parameter,
  given by its operations in the record \<open>fpu\<close>, so that nothing below depends on rounding; a \<open>std::function\<close> is an
  optional HOL function, \<open>None\<close> being the empty one.
\<close>

record 'd fpu =
  fp_of_int :: "int \<Rightarrow> 'd"
  fp_to_int :: "'d \<Rightarrow> int result"   \<comment> \<open>\<open>static_cast<int64_t>\<close>\<close>
  fp_strtod :: "string \<Rightarrow> 'd"
  fp_nan :: 'd
  fp_add :: "'d \<Rightarrow> 'd \<Rightarrow> 'd"
  fp_sub :: "'d \<Rightarrow> 'd \<Rightarrow> 'd"
  fp_mul :: "'d \<Rightarrow> 'd \<Rightarrow> 'd"
  fp_div :: "'d \<Rightarrow> 'd \<Rightarrow> 'd"
  fp_neg :: "'d \<Rightarrow> 'd"
  fp_fmod :: "'d \<Rightarrow> 'd \<Rightarrow> 'd"
  fp_pow :: "'d \<Rightarrow> 'd \<Rightarrow> 'd"
  fp_trunc :: "'d \<Rightarrow> 'd"
  fp_lt :: "'d \<Rightarrow> 'd \<Rightarrow> bool"
  fp_le :: "'d \<Rightarrow> 'd \<Rightarrow> bool"
  fp_eq :: "'d \<Rightarrow> 'd \<Rightarrow> bool"
  fp_cmath :: "op_type \<Rightarrow> 'd \<Rightarrow> 'd"  \<comment> \<open>\<open>std::cos\<close> to \<open>std::floor\<close> and \<open>std::sqrt\<close>\<close>

abbreviation fp_0 :: "'d fpu \<Rightarrow> 'd" where "fp_0 F \<equiv> fp_of_int F 0"
abbreviation fp_1 :: "'d fpu \<Rightarrow> 'd" where "fp_1 F \<equiv> fp_of_int F 1"

definition fp_bool :: "'d fpu \<Rightarrow> bool \<Rightarrow> 'd" where
  "fp_bool F b = (if b then fp_1 F else fp_0 F)"

definition isTrue :: "'d fpu \<Rightarrow> 'd \<Rightarrow> bool" where
  "isTrue F v \<longleftrightarrow> \<not> fp_eq F (fp_0 F) v"

subsection \<open>ExpressionNumeric\<close>

text \<open>\<open>math::factorial\<close> and the loop of \<open>pow\<close>: \<open>None\<close> when they do not end.\<close>

partial_function (option) factorial_loop :: "'d fpu \<Rightarrow> 'd \<Rightarrow> 'd \<Rightarrow> 'd \<Rightarrow> 'd option" where
  "factorial_loop F x i res =
     (if fp_le F i x then factorial_loop F x (fp_add F i (fp_1 F)) (fp_mul F res i) else Some res)"

definition factorial :: "'d fpu \<Rightarrow> 'd \<Rightarrow> 'd result" where
  "factorial F x = (case factorial_loop F x (fp_1 F) (fp_1 F) of Some r \<Rightarrow> Inr r | None \<Rightarrow> Inl Diverges)"

partial_function (option) pow_loop :: "'d fpu \<Rightarrow> 'd \<Rightarrow> 'd \<Rightarrow> 'd \<Rightarrow> 'd option" where
  "pow_loop F v0 n res =
     (if fp_lt F (fp_1 F) n then pow_loop F v0 (fp_sub F n (fp_1 F)) (fp_mul F res v0) else Some res)"

definition power_op :: "'d fpu \<Rightarrow> 'd \<Rightarrow> 'd \<Rightarrow> 'd result" where
  "power_op F v0 v1 =
     (if fp_lt F v1 (fp_of_int F 100) \<and> fp_eq F (fp_trunc F v1) v1
      then (case pow_loop F v0 v1 v0 of Some r \<Rightarrow> Inr r | None \<Rightarrow> Inl Diverges)
      else Inr (fp_pow F v0 v1))"

text \<open>\<open>std::max\<close> and \<open>std::min\<close>: the first argument when neither is smaller.\<close>

definition fp_max :: "'d fpu \<Rightarrow> 'd \<Rightarrow> 'd \<Rightarrow> 'd" where "fp_max F a b = (if fp_lt F a b then b else a)"
definition fp_min :: "'d fpu \<Rightarrow> 'd \<Rightarrow> 'd \<Rightarrow> 'd" where "fp_min F a b = (if fp_lt F b a then b else a)"
definition fp_abs :: "'d fpu \<Rightarrow> 'd \<Rightarrow> 'd" where "fp_abs F v = (if fp_lt F v (fp_0 F) then fp_neg F v else v)"

definition cmath_ops :: "op_type list" where
  "cmath_ops = [COS, SIN, TAN, COSH, SINH, TANH, EXP, LOG, LOG2, LOG10, CEIL, FLOOR, SQRT]"

definition apply1 :: "'d fpu \<Rightarrow> op_type \<Rightarrow> 'd \<Rightarrow> 'd result" where
  "apply1 F t arg0 =
     (if t = FACT then factorial F arg0
      else if t \<in> set cmath_ops then Inr (fp_cmath F t arg0)
      else if t = ABS then Inr (fp_abs F arg0)
      else Inr (fp_nan F))"

definition apply2 :: "'d fpu \<Rightarrow> op_type \<Rightarrow> 'd \<Rightarrow> 'd \<Rightarrow> 'd result" where
  "apply2 F t arg0 arg1 =
     (case t of
        ADD \<Rightarrow> Inr (fp_add F arg0 arg1) | SUB \<Rightarrow> Inr (fp_sub F arg0 arg1) | MUL \<Rightarrow> Inr (fp_mul F arg0 arg1)
      | DIV \<Rightarrow> Inr (fp_div F arg0 arg1) | MOD \<Rightarrow> Inr (fp_fmod F arg0 arg1) | POW \<Rightarrow> power_op F arg0 arg1
      | MAX_OP \<Rightarrow> Inr (fp_max F arg0 arg1) | MIN_OP \<Rightarrow> Inr (fp_min F arg0 arg1)
      | LOG_AND \<Rightarrow> Inr (fp_bool F (isTrue F arg0 \<and> isTrue F arg1)) | LOG_OR \<Rightarrow> Inr (fp_bool F (isTrue F arg0 \<or> isTrue F arg1))
      | NOT_EQUAL \<Rightarrow> Inr (fp_bool F (\<not> fp_eq F arg0 arg1)) | EQUAL \<Rightarrow> Inr (fp_bool F (fp_eq F arg0 arg1))
      | GREATER \<Rightarrow> Inr (fp_bool F (fp_lt F arg1 arg0)) | GEQ \<Rightarrow> Inr (fp_bool F (fp_le F arg1 arg0))
      | LESS \<Rightarrow> Inr (fp_bool F (fp_lt F arg0 arg1)) | LEQ \<Rightarrow> Inr (fp_bool F (fp_le F arg0 arg1))
      | _ \<Rightarrow> Inr (fp_nan F))"

definition apply3 :: "'d fpu \<Rightarrow> op_type \<Rightarrow> 'd \<Rightarrow> 'd \<Rightarrow> 'd \<Rightarrow> 'd result" where
  "apply3 F t arg0 arg1 arg2 = (if t = IF then Inr (if fp_le F (fp_1 F) arg0 then arg1 else arg2) else Inr (fp_nan F))"

subsection \<open>Tokens\<close>

datatype token_type = CONSTANT | VARIABLE | FUNCTION

type_synonym 'd symbols = "(string \<times> 'd) list"
type_synonym 'd functor_t = "('d symbols \<Rightarrow> 'd result) option"

record 'd token =
  tok_f :: "'d functor_t"
  tok_value :: "'d option"   \<comment> \<open>set by the constructor from a \<open>double\<close>\<close>
  tok_index :: nat
  tok_type :: token_type

text \<open>The three constructors, and a call of a function object.\<close>

definition const_token :: "'d \<Rightarrow> 'd token" where
  "const_token v = \<lparr>tok_f = Some (\<lambda>t. Inr v), tok_value = Some v, tok_index = 0, tok_type = CONSTANT\<rparr>"

definition symbol :: "'d symbols \<Rightarrow> nat \<Rightarrow> 'd result" where
  "symbol t i = bindE (get_at t i) (\<lambda>s. Inr (snd s))"

definition var_token :: "nat \<Rightarrow> 'd token" where
  "var_token i = \<lparr>tok_f = Some (\<lambda>t. symbol t i), tok_value = None, tok_index = i, tok_type = VARIABLE\<rparr>"

definition function_token :: "'d functor_t \<Rightarrow> 'd token" where
  "function_token f = \<lparr>tok_f = f, tok_value = None, tok_index = 0, tok_type = FUNCTION\<rparr>"

definition call :: "'d functor_t \<Rightarrow> 'd symbols \<Rightarrow> 'd result" where
  "call f t = (case f of None \<Rightarrow> Inl Null_Deref | Some g \<Rightarrow> g t)"

definition value_of :: "'d fpu \<Rightarrow> 'd token \<Rightarrow> 'd" where
  "value_of F k = (case tok_value k of None \<Rightarrow> fp_0 F | Some v \<Rightarrow> v)"

subsection \<open>Function objects\<close>

text \<open>
  The structures of \<open>numeric::details\<close> by operator, \<open>None\<close> where \<open>makeUnaryFunction\<close> and
  \<open>makeBinaryFunction\<close> fall in their default case and return an empty function object.
\<close>

definition unary_details :: "'d fpu \<Rightarrow> op_type \<Rightarrow> ('d \<Rightarrow> 'd result) option" where
  "unary_details F t =
     (if t = FACT then Some (factorial F)
      else if t \<in> set cmath_ops then Some (\<lambda>v. Inr (fp_cmath F t v))
      else if t = ABS then Some (\<lambda>v. Inr (fp_abs F v))
      else None)"

definition binary_details :: "'d fpu \<Rightarrow> op_type \<Rightarrow> ('d \<Rightarrow> 'd \<Rightarrow> 'd result) option" where
  "binary_details F t =
     (case t of
        ADD \<Rightarrow> Some (\<lambda>a b. Inr (fp_add F a b)) | MUL \<Rightarrow> Some (\<lambda>a b. Inr (fp_mul F a b))
      | SUB \<Rightarrow> Some (\<lambda>a b. Inr (fp_sub F a b)) | DIV \<Rightarrow> Some (\<lambda>a b. Inr (fp_div F a b))
      | MOD \<Rightarrow> Some (\<lambda>a b. Inr (fp_fmod F a b)) | POW \<Rightarrow> Some (power_op F)
      | MAX_OP \<Rightarrow> Some (\<lambda>a b. Inr (fp_max F a b)) | MIN_OP \<Rightarrow> Some (\<lambda>a b. Inr (fp_min F a b))
      | LOG_AND \<Rightarrow> Some (\<lambda>a b. Inr (fp_bool F (isTrue F a \<and> isTrue F b)))
      | LOG_OR \<Rightarrow> Some (\<lambda>a b. Inr (fp_bool F (isTrue F a \<or> isTrue F b)))
      | NOT_EQUAL \<Rightarrow> Some (\<lambda>a b. Inr (fp_bool F (\<not> fp_eq F a b))) | EQUAL \<Rightarrow> Some (\<lambda>a b. Inr (fp_bool F (fp_eq F a b)))
      | GREATER \<Rightarrow> Some (\<lambda>a b. Inr (fp_bool F (fp_lt F b a))) | GEQ \<Rightarrow> Some (\<lambda>a b. Inr (fp_bool F (fp_le F b a)))
      | LESS \<Rightarrow> Some (\<lambda>a b. Inr (fp_bool F (fp_lt F a b))) | LEQ \<Rightarrow> Some (\<lambda>a b. Inr (fp_bool F (fp_le F a b)))
      | _ \<Rightarrow> None)"

text \<open>The operand of a function object: the constant, the symbol or the function object of a token.\<close>

definition operand :: "'d fpu \<Rightarrow> 'd token \<Rightarrow> 'd symbols \<Rightarrow> 'd result" where
  "operand F k t =
     (case tok_type k of CONSTANT \<Rightarrow> Inr (value_of F k) | VARIABLE \<Rightarrow> symbol t (tok_index k) | FUNCTION \<Rightarrow> call (tok_f k) t)"

definition makeUnaryFunction :: "'d fpu \<Rightarrow> op_type \<Rightarrow> 'd token \<Rightarrow> 'd functor_t" where
  "makeUnaryFunction F t arg =
     (case unary_details F t of None \<Rightarrow> None | Some g \<Rightarrow> Some (\<lambda>tab. bindE (operand F arg tab) g))"

definition makeBinaryFunction :: "'d fpu \<Rightarrow> op_type \<Rightarrow> 'd token \<Rightarrow> 'd token \<Rightarrow> 'd functor_t" where
  "makeBinaryFunction F t left right =
     (case binary_details F t of None \<Rightarrow> None
      | Some g \<Rightarrow> Some (\<lambda>tab. bindE (operand F left tab) (\<lambda>a. bindE (operand F right tab) (\<lambda>b. g a b))))"

definition generate1 :: "'d fpu \<Rightarrow> op_type \<Rightarrow> 'd token \<Rightarrow> 'd token result" where
  "generate1 F t arg =
     (if tok_type arg = CONSTANT then bindE (apply1 F t (value_of F arg)) (\<lambda>v. Inr (const_token v))
      else Inr (function_token (makeUnaryFunction F t arg)))"

definition generate2 :: "'d fpu \<Rightarrow> op_type \<Rightarrow> 'd token \<Rightarrow> 'd token \<Rightarrow> 'd token result" where
  "generate2 F t left right =
     (if tok_type left = CONSTANT \<and> tok_type right = CONSTANT
      then bindE (apply2 F t (value_of F left) (value_of F right)) (\<lambda>v. Inr (const_token v))
      else Inr (function_token (makeBinaryFunction F t left right)))"

definition generate3 :: "'d fpu \<Rightarrow> op_type \<Rightarrow> 'd token \<Rightarrow> 'd token \<Rightarrow> 'd token \<Rightarrow> 'd token result" where
  "generate3 F t arg0 arg1 arg2 =
     (if tok_type arg0 = CONSTANT \<and> tok_type arg1 = CONSTANT \<and> tok_type arg2 = CONSTANT
      then bindE (apply3 F t (value_of F arg0) (value_of F arg1) (value_of F arg2)) (\<lambda>v. Inr (const_token v))
      else Inr (function_token (Some (\<lambda>tab. bindE (call (tok_f arg0) tab) (\<lambda>a. bindE (call (tok_f arg1) tab) (\<lambda>b.
        bindE (call (tok_f arg2) tab) (\<lambda>c. apply3 F t a b c)))))))"

subsection \<open>Compilation\<close>

text \<open>What an expression reads of a \<open>Param\<close>.\<close>

record param =
  p_name :: string
  p_dynamic :: bool
  p_value :: "int result"

fun findParameter :: "param list \<Rightarrow> string \<Rightarrow> param result" where
  "findParameter [] name = Inl Spider_Exception"
| "findParameter (p # ps) name = (if p_name p = name then Inr p else findParameter ps name)"

fun find_symbol :: "'d symbols \<Rightarrow> string \<Rightarrow> nat \<Rightarrow> nat option" where
  "find_symbol [] name i = None"
| "find_symbol (s # ss) name i = (if fst s = name then Some i else find_symbol ss name (Suc i))"

definition registerSymbol :: "'d fpu \<Rightarrow> 'd symbols \<Rightarrow> string \<Rightarrow> nat \<times> 'd symbols" where
  "registerSymbol F tab name =
     (case find_symbol tab name 0 of Some i \<Rightarrow> (i, tab) | None \<Rightarrow> (length tab, tab @ [(name, fp_0 F)]))"

text \<open>
  The recursive \<open>compile\<close>, over the elements from the last to the first. Every call reads one element, so that fuel
  above the number of elements is never used up.
\<close>

type_synonym 'd compiled = "'d token \<times> rpn_element list \<times> 'd symbols"

primrec compile_el :: "nat \<Rightarrow> 'd fpu \<Rightarrow> param list \<Rightarrow> rpn_element list \<Rightarrow> 'd symbols \<Rightarrow> 'd compiled result" where
  "compile_el 0 F params it tab = Inl Diverges"
| "compile_el (Suc n) F params it tab =
     (case it of [] \<Rightarrow> Inl Spider_Exception
      | elt # it0 \<Rightarrow>
        if el_type elt = Operator then
          bindE (getOperatorTypeFromString (el_token elt)) (\<lambda>t. bindE (getOperatorFromOperatorType t) (\<lambda>op.
          if op_argCount op = 1 then
            bindE (compile_el n F params it0 tab) (\<lambda>(arg, it1, tab1). bindE (generate1 F t arg) (\<lambda>k. Inr (k, it1, tab1)))
          else if op_argCount op = 2 then
            bindE (compile_el n F params it0 tab) (\<lambda>(right, it1, tab1).
            bindE (compile_el n F params it1 tab1) (\<lambda>(left, it2, tab2).
            bindE (generate2 F t left right) (\<lambda>k. Inr (k, it2, tab2))))
          else if op_argCount op = 3 then
            bindE (compile_el n F params it0 tab) (\<lambda>(arg2, it1, tab1).
            bindE (compile_el n F params it1 tab1) (\<lambda>(arg1, it2, tab2).
            bindE (compile_el n F params it2 tab2) (\<lambda>(arg0, it3, tab3).
            bindE (generate3 F t arg0 arg1 arg2) (\<lambda>k. Inr (k, it3, tab3)))))
          else Inl Spider_Exception))
        else if el_subtype elt = Sub_PARAMETER then
          bindE (findParameter params (el_token elt)) (\<lambda>p.
            if p_dynamic p then let (i, tab') = registerSymbol F tab (p_name p) in Inr (var_token i, it0, tab')
            else bindE (p_value p) (\<lambda>v. Inr (const_token (fp_of_int F v), it0, tab)))
        else Inr (const_token (fp_strtod F (el_token elt)), it0, tab))"

subsection \<open>Expression\<close>

text \<open>\<open>std::hash\<close> of the printed constant or of the postfix string is an argument.\<close>

record 'd expression =
  ex_expr :: "'d token"
  ex_symbols :: "'d symbols option"
  ex_hash :: nat

definition expression_of_int :: "'d fpu \<Rightarrow> int \<Rightarrow> 'd expression" where
  "expression_of_int F v = \<lparr>ex_expr = const_token (fp_of_int F v), ex_symbols = None, ex_hash = size_max\<rparr>"

definition compile :: "'d fpu \<Rightarrow> ('d token \<Rightarrow> nat) \<Rightarrow> (rpn_element list \<Rightarrow> nat) \<Rightarrow> param list \<Rightarrow> rpn_element list \<Rightarrow> 'd expression result" where
  "compile F hashValue hashPostfix params postfixStack =
     bindE (if postfixStack = [] then Inr (const_token (fp_0 F), [], [])
            else compile_el (Suc (length postfixStack)) F params (rev postfixStack) []) (\<lambda>(k, rest, tab).
       Inr (if tok_type k = CONSTANT then \<lparr>ex_expr = k, ex_symbols = None, ex_hash = hashValue k\<rparr>
            else \<lparr>ex_expr = k, ex_symbols = Some tab, ex_hash = hashPostfix postfixStack\<rparr>))"

definition expression_of_string ::
  "'d fpu \<Rightarrow> ('d token \<Rightarrow> nat) \<Rightarrow> (rpn_element list \<Rightarrow> nat) \<Rightarrow> lexer \<Rightarrow> param list \<Rightarrow> string \<Rightarrow> 'd expression result" where
  "expression_of_string F hashValue hashPostfix L params s =
     bindE (extractPostfixElements L s) (compile F hashValue hashPostfix params)"

text \<open>The copy constructor; \<open>operator=\<close> copies and then swaps all but the hash.\<close>

definition expression_copy :: "'d expression \<Rightarrow> 'd expression" where
  "expression_copy rhs = \<lparr>ex_expr = ex_expr rhs, ex_symbols = ex_symbols rhs, ex_hash = size_max\<rparr>"

definition expression_assign :: "'d expression \<Rightarrow> 'd expression \<Rightarrow> 'd expression" where
  "expression_assign self temp = \<lparr>ex_expr = ex_expr temp, ex_symbols = ex_symbols temp, ex_hash = ex_hash self\<rparr>"

definition expression_eq :: "'d expression \<Rightarrow> 'd expression \<Rightarrow> bool" where
  "expression_eq lhs rhs \<longleftrightarrow> ex_hash lhs = ex_hash rhs"

definition ex_dynamic :: "'d expression \<Rightarrow> bool" where
  "ex_dynamic e \<longleftrightarrow> ex_symbols e \<noteq> None"

text \<open>For each symbol, the first parameter of its name gives the value; a symbol without one keeps its last value.\<close>

fun update_symbol :: "'d fpu \<Rightarrow> param list \<Rightarrow> string \<times> 'd \<Rightarrow> (string \<times> 'd) result" where
  "update_symbol F [] smb = Inr smb"
| "update_symbol F (p # ps) smb =
     (if fst smb = p_name p then bindE (p_value p) (\<lambda>v. Inr (fst smb, fp_of_int F v)) else update_symbol F ps smb)"

definition updateSymbolTable :: "'d fpu \<Rightarrow> param list \<Rightarrow> 'd symbols \<Rightarrow> 'd symbols result" where
  "updateSymbolTable F params tab = mapE (update_symbol F params) tab"

definition evaluateDBL :: "'d fpu \<Rightarrow> param list \<Rightarrow> 'd expression \<Rightarrow> ('d \<times> 'd expression) result" where
  "evaluateDBL F params e =
     (case ex_symbols e of
        None \<Rightarrow> Inr (value_of F (ex_expr e), e)
      | Some tab \<Rightarrow>
          bindE (updateSymbolTable F params tab) (\<lambda>tab'. bindE (call (tok_f (ex_expr e)) tab') (\<lambda>v.
            Inr (v, e\<lparr>ex_symbols := Some tab', ex_expr := (ex_expr e)\<lparr>tok_value := Some v\<rparr>\<rparr>))))"

definition evaluate :: "'d fpu \<Rightarrow> param list \<Rightarrow> 'd expression \<Rightarrow> (int \<times> 'd expression) result" where
  "evaluate F params e = bindE (evaluateDBL F params e) (\<lambda>(v, e'). bindE (fp_to_int F v) (\<lambda>n. Inr (n, e')))"

text \<open>\<open>value\<close>: the last evaluation.\<close>

definition last_value :: "'d fpu \<Rightarrow> 'd expression \<Rightarrow> int result" where
  "last_value F e = fp_to_int F (value_of F (ex_expr e))"

end
