(* ===== verification/ExpressionProps.thy ===== *)
theory ExpressionProps
  imports Expression
begin

text \<open>
  Correctness of the expression parser and compiler. An expression tree is rendered as infix elements in every way the
  precedences allow (\<open>renders\<close>, with the operators left open to the outside); the shunting-yard gives back its
  postfix order, and the compiled token evaluates to its value, whatever the floating-point type.
\<close>

datatype tree =
    Atom rpn_element
  | Fun rpn_element "tree list"
  | Bin rpn_element tree tree
  | Post rpn_element tree

fun postfix :: "tree \<Rightarrow> rpn_element list" where
  "postfix (Atom e) = [e]"
| "postfix (Fun e args) = concat (List.map postfix args) @ [e]"
| "postfix (Bin e a b) = postfix a @ postfix b @ [e]"
| "postfix (Post e a) = postfix a @ [e]"

subsection \<open>Rendering\<close>

definition op_of :: "op_type \<Rightarrow> rpn_operator" where
  "op_of t = operatorArray ! op_index t"

definition pops :: "op_type \<Rightarrow> op_type \<Rightarrow> bool" where
  "pops cur front \<longleftrightarrow> op_precedence (op_of cur) < op_precedence (op_of front) \<or>
     op_precedence (op_of cur) = op_precedence (op_of front) \<and> \<not> op_right (op_of front)"

definition operator_el :: "rpn_element \<Rightarrow> op_type \<Rightarrow> bool" where
  "operator_el e t \<longleftrightarrow> el_type e = Operator \<and> getOperatorTypeFromString (el_token e) = Inr t"

definition plain_op :: "rpn_element \<Rightarrow> op_type \<Rightarrow> bool" where
  "plain_op e t \<longleftrightarrow> operator_el e t \<and> el_subtype e \<noteq> Sub_FUNCTION \<and> t \<noteq> LEFT_PAR \<and> t \<noteq> RIGHT_PAR"

definition function_el :: "rpn_element \<Rightarrow> op_type \<Rightarrow> bool" where
  "function_el e t \<longleftrightarrow> operator_el e t \<and> el_subtype e = Sub_FUNCTION \<and> t \<noteq> LEFT_PAR"

definition left_par :: "rpn_element \<Rightarrow> bool" where
  "left_par e \<longleftrightarrow> operator_el e LEFT_PAR"

definition right_par :: "rpn_element \<Rightarrow> bool" where
  "right_par e \<longleftrightarrow> operator_el e RIGHT_PAR \<and> el_subtype e \<noteq> Sub_FUNCTION"

inductive renders :: "tree \<Rightarrow> rpn_element list \<Rightarrow> op_type set \<Rightarrow> bool"
  and renders_args :: "tree list \<Rightarrow> rpn_element list \<Rightarrow> bool" where
  atom: "el_type e = Operand \<Longrightarrow> renders (Atom e) [e] {}"
| paren: "renders t ts X \<Longrightarrow> left_par l \<Longrightarrow> right_par r \<Longrightarrow> renders t (l # ts @ [r]) {}"
| bin: "renders a as X \<Longrightarrow> renders b bs Y \<Longrightarrow> plain_op e p \<Longrightarrow> \<forall>x \<in> X. pops p x \<Longrightarrow> \<forall>y \<in> Y. \<not> pops y p \<Longrightarrow>
    renders (Bin e a b) (as @ e # bs) (X \<union> Y \<union> {p})"
| post: "renders a as X \<Longrightarrow> plain_op e p \<Longrightarrow> \<forall>x \<in> X. pops p x \<Longrightarrow> renders (Post e a) (as @ [e]) (X \<union> {p})"
| func: "renders_args args ts \<Longrightarrow> function_el e p \<Longrightarrow> renders (Fun e args) (e # ts) {p}"
| no_args: "renders_args [] []"
| more_args: "renders a as {} \<Longrightarrow> renders_args args ts \<Longrightarrow> renders_args (a # args) (as @ ts)"
| paren_args: "renders_args args ts \<Longrightarrow> left_par l \<Longrightarrow> right_par r \<Longrightarrow> renders_args args (l # ts @ [r])"

subsection \<open>The shunting-yard algorithm\<close>

lemma get_op_of: "getOperatorFromOperatorType t = Inr (op_of t)"
proof -
  have "length operatorArray = 35" by (simp add: operatorArray_def)
  moreover have "op_index t < 35" by (cases t) simp_all
  ultimately show ?thesis by (simp add: getOperatorFromOperatorType_def getOperator_def op_of_def)
qed

definition blocked :: "op_stack \<Rightarrow> op_type set \<Rightarrow> bool" where
  "blocked st X \<longleftrightarrow> (case st of [] \<Rightarrow> True | (t, _) # _ \<Rightarrow> t = LEFT_PAR \<or> (\<forall>x \<in> X. \<not> pops x t))"

lemma blocked_Nil [simp]: "blocked [] X" by (simp add: blocked_def)
lemma blocked_empty [simp]: "blocked st {}" by (simp add: blocked_def split: list.splits)
lemma blocked_left [simp]: "blocked ((LEFT_PAR, e) # st) X" by (simp add: blocked_def)
lemma blocked_mono: "blocked st X \<Longrightarrow> Y \<subseteq> X \<Longrightarrow> blocked st Y" by (auto simp: blocked_def split: list.splits)

lemma pop_higher_all:
  assumes "\<forall>x \<in> fst ` set st1. x \<noteq> LEFT_PAR \<and> pops p x" "blocked st {p}"
  shows "pop_higher (op_of p) (st1 @ st) out = Inr (st, out @ List.map snd st1)"
  using assms(1)
proof (induction st1 arbitrary: out)
  case Nil
  show ?case using assms(2)
    by (cases st) (auto simp: blocked_def get_op_of pops_def)
next
  case (Cons x st1)
  then show ?case by (cases x) (auto simp: get_op_of pops_def)
qed

lemma pop_to_left_all:
  "\<forall>x \<in> fst ` set st1. x \<noteq> LEFT_PAR \<Longrightarrow>
   pop_to_left (st1 @ (LEFT_PAR, l) # st) out = Inr (st, out @ List.map snd st1)"
  by (induction st1 arbitrary: out) auto

definition shunts :: "rpn_element list \<Rightarrow> rpn_element list \<Rightarrow> op_type set \<Rightarrow> bool" where
  "shunts ts po X \<longleftrightarrow> (\<forall>st out. blocked st X \<longrightarrow>
     (\<exists>st1 out1. foldE shunt_step (st, out) ts = Inr (st1 @ st, out1) \<and> out1 @ List.map snd st1 = out @ po \<and>
        fst ` set st1 \<subseteq> X - {LEFT_PAR}))"

lemma shuntsE:
  assumes "shunts ts po X" "blocked st X"
  obtains st1 out1 where "foldE shunt_step (st, out) ts = Inr (st1 @ st, out1)" "out1 @ List.map snd st1 = out @ po"
    "fst ` set st1 \<subseteq> X - {LEFT_PAR}"
  using assms unfolding shunts_def by blast

lemma shunt_left [simp]: "left_par l \<Longrightarrow> shunt_step (st, out) l = Inr ((LEFT_PAR, l) # st, out)"
  by (simp add: shunt_step_def left_par_def operator_el_def)

lemma shunt_right [simp]: "right_par r \<Longrightarrow> shunt_step (st, out) r = pop_to_left st out"
  by (simp add: shunt_step_def right_par_def operator_el_def)

lemma shunt_op:
  "plain_op e p \<Longrightarrow> shunt_step (st, out) e = bindE (pop_higher (op_of p) st out) (\<lambda>(st', out'). Inr ((p, e) # st', out'))"
  by (simp add: shunt_step_def plain_op_def operator_el_def get_op_of)

lemma shunt_fun: "function_el e p \<Longrightarrow> shunt_step (st, out) e = Inr ((p, e) # st, out)"
  by (simp add: shunt_step_def function_el_def operator_el_def)

lemma shunts_paren:
  assumes "shunts ts po X" "left_par l" "right_par r"
  shows "shunts (l # ts @ [r]) po {}"
  unfolding shunts_def
proof (intro allI impI)
  fix st out
  from assms(1) obtain st1 out1 where 1: "foldE shunt_step ((LEFT_PAR, l) # st, out) ts = Inr (st1 @ (LEFT_PAR, l) # st, out1)"
    "out1 @ List.map snd st1 = out @ po" "fst ` set st1 \<subseteq> X - {LEFT_PAR}"
    by (rule shuntsE [where st = "(LEFT_PAR, l) # st" and out = out]) auto
  from 1(3) have "pop_to_left (st1 @ (LEFT_PAR, l) # st) out1 = Inr (st, out1 @ List.map snd st1)"
    by (intro pop_to_left_all) auto
  with 1 assms(2,3) show "\<exists>st1 out1. foldE shunt_step (st, out) (l # ts @ [r]) = Inr (st1 @ st, out1) \<and>
      out1 @ List.map snd st1 = out @ po \<and> fst ` set st1 \<subseteq> {} - {LEFT_PAR}"
    by (simp add: foldE_append)
qed

lemma shunts_reduce:
  assumes "shunts ts po X" "\<forall>x \<in> X. pops p x" "plain_op e p" "blocked st (X \<union> {p})"
  shows "foldE shunt_step (st, out) (ts @ [e]) = Inr ((p, e) # st, out @ po)"
proof -
  have b: "blocked st X" "blocked st {p}" using assms(4) by (auto elim: blocked_mono)
  from assms(1) b(1) obtain st1 out1 where 1: "foldE shunt_step (st, out) ts = Inr (st1 @ st, out1)"
    "out1 @ List.map snd st1 = out @ po" "fst ` set st1 \<subseteq> X - {LEFT_PAR}"
    by (rule shuntsE)
  from 1(3) assms(2) have "\<forall>x \<in> fst ` set st1. x \<noteq> LEFT_PAR \<and> pops p x" by blast
  from pop_higher_all [OF this b(2)] 1(2) have "pop_higher (op_of p) (st1 @ st) out1 = Inr (st, out @ po)" by simp
  with 1(1) assms(3) show ?thesis by (simp add: foldE_append shunt_op)
qed

lemma plain_op_not_left: "plain_op e p \<Longrightarrow> p \<noteq> LEFT_PAR"
  by (simp add: plain_op_def)

lemma shunts_bin:
  assumes "shunts as pa X" "shunts bs pb Y" "plain_op e p" "\<forall>x \<in> X. pops p x" "\<forall>y \<in> Y. \<not> pops y p"
  shows "shunts (as @ e # bs) (pa @ pb @ [e]) (X \<union> Y \<union> {p})"
  unfolding shunts_def
proof (intro allI impI)
  fix st out assume "blocked st (X \<union> Y \<union> {p})"
  then have "blocked st (X \<union> {p})" by (rule blocked_mono) auto
  from shunts_reduce [OF assms(1,4,3) this] have a: "foldE shunt_step (st, out) (as @ [e]) = Inr ((p, e) # st, out @ pa)" .
  have "blocked ((p, e) # st) Y" using assms(5) by (simp add: blocked_def)
  from shuntsE [OF assms(2) this, of "out @ pa"] obtain st2 out2 where
    b: "foldE shunt_step ((p, e) # st, out @ pa) bs = Inr (st2 @ (p, e) # st, out2)"
      "out2 @ List.map snd st2 = (out @ pa) @ pb" "fst ` set st2 \<subseteq> Y - {LEFT_PAR}" .
  have "foldE shunt_step (st, out) (as @ e # bs) = Inr ((st2 @ [(p, e)]) @ st, out2)"
    using a b(1) foldE_append [of shunt_step "(st, out)" "as @ [e]" bs] by simp
  moreover have "fst ` set (st2 @ [(p, e)]) \<subseteq> X \<union> Y \<union> {p} - {LEFT_PAR}"
    using b(3) plain_op_not_left [OF assms(3)] by auto
  moreover have "out2 @ List.map snd (st2 @ [(p, e)]) = out @ (pa @ pb @ [e])" using b(2) by simp
  ultimately show "\<exists>st1 out1. foldE shunt_step (st, out) (as @ e # bs) = Inr (st1 @ st, out1) \<and>
      out1 @ List.map snd st1 = out @ (pa @ pb @ [e]) \<and> fst ` set st1 \<subseteq> X \<union> Y \<union> {p} - {LEFT_PAR}" by blast
qed

lemma shunts_post:
  assumes "shunts as pa X" "plain_op e p" "\<forall>x \<in> X. pops p x"
  shows "shunts (as @ [e]) (pa @ [e]) (X \<union> {p})"
  unfolding shunts_def
proof (intro allI impI)
  fix st out assume "blocked st (X \<union> {p})"
  from shunts_reduce [OF assms(1,3,2) this, of out] plain_op_not_left [OF assms(2)]
  show "\<exists>st1 out1. foldE shunt_step (st, out) (as @ [e]) = Inr (st1 @ st, out1) \<and>
      out1 @ List.map snd st1 = out @ (pa @ [e]) \<and> fst ` set st1 \<subseteq> X \<union> {p} - {LEFT_PAR}"
    by (intro exI [of _ "[(p, e)]"] exI [of _ "out @ pa"]) simp
qed

lemma shunts_fun:
  assumes "shunts ts po {}" "function_el e p"
  shows "shunts (e # ts) (po @ [e]) {p}"
  unfolding shunts_def
proof (intro allI impI)
  fix st out
  have "blocked ((p, e) # st) {}" by simp
  from shuntsE [OF assms(1) this, of out] obtain st1 out1 where "foldE shunt_step ((p, e) # st, out) ts = Inr (st1 @ (p, e) # st, out1)"
    "out1 @ List.map snd st1 = out @ po" "fst ` set st1 \<subseteq> {} - {LEFT_PAR}" .
  with assms(2) show "\<exists>st1 out1. foldE shunt_step (st, out) (e # ts) = Inr (st1 @ st, out1) \<and>
      out1 @ List.map snd st1 = out @ (po @ [e]) \<and> fst ` set st1 \<subseteq> {p} - {LEFT_PAR}"
    by (intro exI [of _ "[(p, e)]"] exI [of _ "out @ po"]) (auto simp: shunt_fun function_el_def)
qed

lemma shunts_append:
  assumes "shunts as pa {}" "shunts ts po {}"
  shows "shunts (as @ ts) (pa @ po) {}"
  unfolding shunts_def
proof (intro allI impI)
  fix st out
  from shuntsE [OF assms(1) blocked_empty, of st out] obtain st1 out1 where
    1: "foldE shunt_step (st, out) as = Inr (st1 @ st, out1)" "out1 @ List.map snd st1 = out @ pa" "fst ` set st1 \<subseteq> {} - {LEFT_PAR}" .
  from shuntsE [OF assms(2) blocked_empty, of st out1] obtain st2 out2 where
    2: "foldE shunt_step (st, out1) ts = Inr (st2 @ st, out2)" "out2 @ List.map snd st2 = out1 @ po" "fst ` set st2 \<subseteq> {} - {LEFT_PAR}" .
  show "\<exists>st1 out1. foldE shunt_step (st, out) (as @ ts) = Inr (st1 @ st, out1) \<and>
      out1 @ List.map snd st1 = out @ (pa @ po) \<and> fst ` set st1 \<subseteq> {} - {LEFT_PAR}"
    using 1 2 by (intro exI [of _ "[]"] exI [of _ out2]) (auto simp: foldE_append)
qed

lemma renders_shunts:
  "(renders t ts X \<longrightarrow> shunts ts (postfix t) X) \<and> (renders_args args ts' \<longrightarrow> shunts ts' (concat (List.map postfix args)) {})"
proof -
  have "(renders t ts X \<Longrightarrow> shunts ts (postfix t) X)" "(renders_args args ts' \<Longrightarrow> shunts ts' (concat (List.map postfix args)) {})"
    for t ts X args ts'
  proof (induction t ts X and args ts' rule: renders_renders_args.inducts)
    case (atom e)
    then show ?case by (auto simp: shunts_def shunt_step_def)
  next
    case no_args
    show ?case by (auto simp: shunts_def)
  qed (auto simp del: Un_insert_right intro: shunts_paren shunts_bin shunts_post shunts_fun shunts_append)
  then show ?thesis by blast
qed

lemma to_postfix_renders:
  assumes "renders t ts X"
  shows "to_postfix ts = Inr (postfix t)"
proof -
  from renders_shunts assms have "shunts ts (postfix t) X" by blast
  from shuntsE [OF this blocked_Nil, of "[]"] obtain st1 out1 where
    "foldE shunt_step ([], []) ts = Inr (st1 @ [], out1)" "out1 @ List.map snd st1 = [] @ postfix t" .
  then show ?thesis by (simp add: to_postfix_def)
qed

subsection \<open>Compilation\<close>

fun apply_op :: "'d fpu \<Rightarrow> op_type \<Rightarrow> 'd list \<Rightarrow> 'd result" where
  "apply_op F t [a] = apply1 F t a"
| "apply_op F t [a, b] = apply2 F t a b"
| "apply_op F t [a, b, c] = apply3 F t a b c"
| "apply_op F t _ = Inl Spider_Exception"

definition apply_el :: "'d fpu \<Rightarrow> rpn_element \<Rightarrow> 'd list \<Rightarrow> 'd result" where
  "apply_el F e vs = bindE (getOperatorTypeFromString (el_token e)) (\<lambda>t. apply_op F t vs)"

lemma mapE_cong [fundef_cong]: "xs = ys \<Longrightarrow> (\<And>x. x \<in> set ys \<Longrightarrow> f x = g x) \<Longrightarrow> mapE f xs = mapE g ys"
  by (induction xs arbitrary: ys) auto

fun eval :: "'d fpu \<Rightarrow> (string \<Rightarrow> 'd result) \<Rightarrow> tree \<Rightarrow> 'd result" where
  "eval F env (Atom e) = (if el_subtype e = Sub_PARAMETER then env (el_token e) else Inr (fp_strtod F (el_token e)))"
| "eval F env (Fun e args) = bindE (mapE (\<lambda>t. eval F env t) args) (apply_el F e)"
| "eval F env (Bin e a b) = bindE (eval F env a) (\<lambda>x. bindE (eval F env b) (\<lambda>y. apply_el F e [x, y]))"
| "eval F env (Post e a) = bindE (eval F env a) (\<lambda>x. apply_el F e [x])"

definition valid_op :: "op_type \<Rightarrow> nat \<Rightarrow> bool" where
  "valid_op t n \<longleftrightarrow> op_argCount (op_of t) = n \<and> n \<in> {1, 2, 3} \<and> t \<noteq> DUMMY"

lemma valid_unary: "valid_op t 1 \<Longrightarrow> t = FACT \<or> t \<in> set cmath_ops \<or> t = ABS"
  by (cases t) (auto simp: valid_op_def op_of_def operatorArray_def mk_op_def cmath_ops_def)

lemma valid_binary: "valid_op t 2 \<Longrightarrow> binary_details F t = Some (apply2 F t)"
  by (cases t) (auto simp: valid_op_def op_of_def operatorArray_def mk_op_def binary_details_def apply2_def fun_eq_iff)

lemma unary_details_apply1: "valid_op t 1 \<Longrightarrow> unary_details F t = Some (apply1 F t)"
  using valid_unary [of t] by (auto simp: unary_details_def apply1_def fun_eq_iff)

fun valid_tree :: "tree \<Rightarrow> bool" where
  "valid_tree (Atom e) \<longleftrightarrow> el_type e = Operand"
| "valid_tree (Fun e args) \<longleftrightarrow> (\<exists>t. operator_el e t \<and> valid_op t (length args)) \<and> list_all (\<lambda>t. valid_tree t) args"
| "valid_tree (Bin e a b) \<longleftrightarrow> (\<exists>t. operator_el e t \<and> valid_op t 2) \<and> valid_tree a \<and> valid_tree b"
| "valid_tree (Post e a) \<longleftrightarrow> (\<exists>t. operator_el e t \<and> valid_op t 1) \<and> valid_tree a"

text \<open>The value a parameter name stands for: \<open>dyn\<close> gives the run-time values of the dynamic ones.\<close>

definition env_of :: "'d fpu \<Rightarrow> param list \<Rightarrow> (string \<Rightarrow> 'd) \<Rightarrow> string \<Rightarrow> 'd result" where
  "env_of F params dyn name =
     bindE (findParameter params name) (\<lambda>p. if p_dynamic p then Inr (dyn name) else bindE (p_value p) (\<lambda>v. Inr (fp_of_int F v)))"

definition runs :: "(string \<Rightarrow> 'd) \<Rightarrow> 'd symbols \<Rightarrow> 'd symbols \<Rightarrow> bool" where
  "runs dyn tab rt \<longleftrightarrow> length tab \<le> length rt \<and> (\<forall>j < length tab. rt ! j = (fst (tab ! j), dyn (fst (tab ! j))))"

definition good :: "'d fpu \<Rightarrow> (string \<Rightarrow> 'd) \<Rightarrow> 'd symbols \<Rightarrow> 'd token \<Rightarrow> 'd \<Rightarrow> bool" where
  "good F dyn tab k v \<longleftrightarrow> (\<forall>rt. runs dyn tab rt \<longrightarrow> call (tok_f k) rt = Inr v \<and> operand F k rt = Inr v) \<and>
     (tok_type k = CONSTANT \<longrightarrow> value_of F k = v)"

definition grows :: "param list \<Rightarrow> 'd symbols \<Rightarrow> 'd symbols \<Rightarrow> bool" where
  "grows params tab tab' \<longleftrightarrow> (\<exists>new. tab' = tab @ new \<and> (\<forall>s \<in> set new. \<exists>p \<in> set params. p_dynamic p \<and> p_name p = fst s))"

lemma grows_refl [simp]: "grows params tab tab" by (simp add: grows_def)

lemma grows_trans:
  assumes "grows params a b" "grows params b c"
  shows "grows params a c"
proof -
  let ?P = "\<lambda>new. \<forall>s \<in> set new. \<exists>p \<in> set params. p_dynamic p \<and> p_name p = fst s"
  from assms obtain x y where "b = a @ x" "?P x" "c = b @ y" "?P y" unfolding grows_def by blast
  then have "c = a @ (x @ y)" "?P (x @ y)" by auto
  then show ?thesis unfolding grows_def by blast
qed

lemma runs_grows: "runs dyn tab' rt \<Longrightarrow> grows params tab tab' \<Longrightarrow> runs dyn tab rt"
  unfolding runs_def grows_def
proof (elim conjE exE)
  fix new assume rt: "length tab' \<le> length rt" "\<forall>j < length tab'. rt ! j = (fst (tab' ! j), dyn (fst (tab' ! j)))" and t: "tab' = tab @ new"
  have "rt ! j = (fst (tab ! j), dyn (fst (tab ! j)))" if "j < length tab" for j
    using rt(2) t that by (auto simp: nth_append dest!: spec [of _ j])
  then show "length tab \<le> length rt \<and> (\<forall>j < length tab. rt ! j = (fst (tab ! j), dyn (fst (tab ! j))))"
    using rt(1) t by simp
qed

lemma good_grows: "good F dyn tab k v \<Longrightarrow> grows params tab tab' \<Longrightarrow> good F dyn tab' k v"
  unfolding good_def by (blast intro: runs_grows)

lemma good_const [simp]: "good F dyn tab (const_token v) v"
  by (simp add: good_def const_token_def call_def operand_def value_of_def)

lemma findParameter_Inr: "findParameter params name = Inr p \<Longrightarrow> p \<in> set params \<and> p_name p = name"
  by (induction params) (auto split: if_splits)

lemma find_symbol_Some: "find_symbol tab name i = Some j \<Longrightarrow> i \<le> j \<and> j - i < length tab \<and> fst (tab ! (j - i)) = name"
proof (induction tab arbitrary: i)
  case (Cons s tab)
  show ?case
  proof (cases "fst s = name")
    case False
    with Cons have "Suc i \<le> j \<and> j - Suc i < length tab \<and> fst (tab ! (j - Suc i)) = name" by auto
    moreover from this have "j - i = Suc (j - Suc i)" by auto
    ultimately show ?thesis by auto
  qed (use Cons in auto)
qed simp

lemma registerSymbol_good:
  assumes "registerSymbol F tab name = (i, tab')" "p \<in> set params" "p_dynamic p" "p_name p = name"
  shows "grows params tab tab' \<and> good F dyn tab' (var_token i) (dyn name)"
proof -
  have "i < length tab' \<and> fst (tab' ! i) = name \<and> grows params tab tab'"
    using assms find_symbol_Some [of tab name 0]
    by (auto simp: registerSymbol_def grows_def split: option.splits)
  then show ?thesis by (auto simp: good_def var_token_def call_def operand_def symbol_def runs_def)
qed

definition compiles :: "'d fpu \<Rightarrow> param list \<Rightarrow> (string \<Rightarrow> 'd) \<Rightarrow> nat \<Rightarrow> rpn_element list \<Rightarrow> rpn_element list \<Rightarrow> 'd symbols \<Rightarrow> 'd \<Rightarrow> bool" where
  "compiles F params dyn n it rest tab v \<longleftrightarrow>
     (\<exists>k tab'. compile_el n F params it tab = Inr (k, rest, tab') \<and> grows params tab tab' \<and> good F dyn tab' k v)"

lemma good_unary:
  assumes "good F dyn tab k a" "valid_op t 1" "apply1 F t a = Inr v"
  shows "\<exists>k'. generate1 F t k = Inr k' \<and> good F dyn tab k' v"
proof (cases "tok_type k = CONSTANT")
  case True
  with assms show ?thesis by (auto simp: generate1_def good_def [of _ _ _ k])
next
  case False
  with assms show ?thesis
    by (auto simp: generate1_def good_def function_token_def operand_def [of _ "\<lparr>tok_f = _, tok_value = _, tok_index = _, tok_type = _\<rparr>"]
        makeUnaryFunction_def unary_details_apply1 call_def [of "Some _"])
qed

lemma good_binary:
  assumes "good F dyn tab k a" "good F dyn tab l b" "valid_op t 2" "apply2 F t a b = Inr v"
  shows "\<exists>k'. generate2 F t k l = Inr k' \<and> good F dyn tab k' v"
proof (cases "tok_type k = CONSTANT \<and> tok_type l = CONSTANT")
  case True
  with assms show ?thesis by (auto simp: generate2_def good_def [of _ _ _ k] good_def [of _ _ _ l])
next
  case False
  then show ?thesis using assms
    by (auto simp: generate2_def good_def function_token_def operand_def [of _ "\<lparr>tok_f = _, tok_value = _, tok_index = _, tok_type = _\<rparr>"]
        makeBinaryFunction_def valid_binary call_def [of "Some _"])
qed

lemma good_ternary:
  assumes "good F dyn tab k a" "good F dyn tab l b" "good F dyn tab m c" "apply3 F t a b c = Inr v"
  shows "\<exists>k'. generate3 F t k l m = Inr k' \<and> good F dyn tab k' v"
proof (cases "tok_type k = CONSTANT \<and> tok_type l = CONSTANT \<and> tok_type m = CONSTANT")
  case True
  with assms show ?thesis by (auto simp: generate3_def good_def [of _ _ _ k] good_def [of _ _ _ l] good_def [of _ _ _ m])
next
  case False
  then show ?thesis using assms
    by (auto simp: generate3_def good_def function_token_def operand_def [of _ "\<lparr>tok_f = _, tok_value = _, tok_index = _, tok_type = _\<rparr>"]
        call_def [of "Some _"])
qed

text \<open>One node of the tree, from its compiled arguments.\<close>

lemma compiles_mono: "compiles F params dyn n it rest tab v \<Longrightarrow> grows params tab0 tab \<Longrightarrow>
   \<exists>k tab'. compile_el n F params it tab = Inr (k, rest, tab') \<and> grows params tab0 tab' \<and> good F dyn tab' k v"
  unfolding compiles_def by (blast intro: grows_trans)

lemma compile_op:
  assumes "operator_el e t" "valid_op t m"
  shows "compile_el (Suc n) F params (e # it) tab =
    (if m = 1 then bindE (compile_el n F params it tab) (\<lambda>(arg, it1, tab1). bindE (generate1 F t arg) (\<lambda>k. Inr (k, it1, tab1)))
     else if m = 2 then
       bindE (compile_el n F params it tab) (\<lambda>(right, it1, tab1). bindE (compile_el n F params it1 tab1) (\<lambda>(left, it2, tab2).
         bindE (generate2 F t left right) (\<lambda>k. Inr (k, it2, tab2))))
     else
       bindE (compile_el n F params it tab) (\<lambda>(arg2, it1, tab1). bindE (compile_el n F params it1 tab1) (\<lambda>(arg1, it2, tab2).
         bindE (compile_el n F params it2 tab2) (\<lambda>(arg0, it3, tab3). bindE (generate3 F t arg0 arg1 arg2) (\<lambda>k. Inr (k, it3, tab3))))))"
  using assms by (auto simp: operator_el_def valid_op_def get_op_of)

lemma compiles_node1:
  assumes "operator_el e t" "valid_op t 1" "apply1 F t a = Inr v"
    and "compiles F params dyn n it rest tab a"
  shows "compiles F params dyn (Suc n) (e # it) rest tab v"
proof -
  from assms(4) obtain k tab1 where k: "compile_el n F params it tab = Inr (k, rest, tab1)" "grows params tab tab1" "good F dyn tab1 k a"
    by (auto simp: compiles_def)
  from good_unary [OF k(3) assms(2,3)] obtain k' where "generate1 F t k = Inr k'" "good F dyn tab1 k' v" by blast
  with k compile_op [OF assms(1,2), of n F params it tab] show ?thesis by (simp add: compiles_def del: compile_el.simps)
qed

lemma compiles_node2:
  assumes "operator_el e t" "valid_op t 2" "apply2 F t a b = Inr v"
    and "compiles F params dyn n it it1 tab b" "\<And>tab. compiles F params dyn n it1 rest tab a"
  shows "compiles F params dyn (Suc n) (e # it) rest tab v"
proof -
  from assms(4) obtain l tab1 where l: "compile_el n F params it tab = Inr (l, it1, tab1)" "grows params tab tab1" "good F dyn tab1 l b"
    by (auto simp: compiles_def)
  from assms(5) [of tab1] obtain k tab2 where k: "compile_el n F params it1 tab1 = Inr (k, rest, tab2)" "grows params tab1 tab2" "good F dyn tab2 k a"
    by (auto simp: compiles_def)
  from good_binary [OF k(3) good_grows [OF l(3) k(2)] assms(2,3)] obtain k' where "generate2 F t k l = Inr k'" "good F dyn tab2 k' v" by blast
  with k l compile_op [OF assms(1,2), of n F params it tab] grows_trans [OF l(2) k(2)] show ?thesis
    by (simp add: compiles_def del: compile_el.simps)
qed

lemma compiles_node3:
  assumes "operator_el e t" "valid_op t 3" "apply3 F t a b c = Inr v"
    and "compiles F params dyn n it it1 tab c" "\<And>tab. compiles F params dyn n it1 it2 tab b" "\<And>tab. compiles F params dyn n it2 rest tab a"
  shows "compiles F params dyn (Suc n) (e # it) rest tab v"
proof -
  from assms(4) obtain m tab1 where m: "compile_el n F params it tab = Inr (m, it1, tab1)" "grows params tab tab1" "good F dyn tab1 m c"
    by (auto simp: compiles_def)
  from assms(5) [of tab1] obtain l tab2 where l: "compile_el n F params it1 tab1 = Inr (l, it2, tab2)" "grows params tab1 tab2" "good F dyn tab2 l b"
    by (auto simp: compiles_def)
  from assms(6) [of tab2] obtain k tab3 where k: "compile_el n F params it2 tab2 = Inr (k, rest, tab3)" "grows params tab2 tab3" "good F dyn tab3 k a"
    by (auto simp: compiles_def)
  from good_ternary [OF k(3) good_grows [OF l(3) k(2)] good_grows [OF m(3) grows_trans [OF l(2) k(2)]] assms(3)]
  obtain k' where "generate3 F t k l m = Inr k'" "good F dyn tab3 k' v" by blast
  with k l m compile_op [OF assms(1,2), of n F params it tab] grows_trans [OF m(2) grows_trans [OF l(2) k(2)]] show ?thesis
    by (simp add: compiles_def del: compile_el.simps)
qed

lemma compiles_atom:
  assumes "el_type e = Operand" "eval F (env_of F params dyn) (Atom e) = Inr v"
  shows "compiles F params dyn (Suc n) (e # rest) rest tab v"
proof (cases "el_subtype e = Sub_PARAMETER")
  case True
  with assms(2) obtain p where p: "findParameter params (el_token e) = Inr p"
    "(if p_dynamic p then Inr (dyn (el_token e)) else bindE (p_value p) (\<lambda>v. Inr (fp_of_int F v))) = Inr v"
    by (auto simp: env_of_def)
  from findParameter_Inr [OF p(1)] have pn: "p \<in> set params" "p_name p = el_token e" by auto
  obtain i tab' where reg: "registerSymbol F tab (p_name p) = (i, tab')" by (cases "registerSymbol F tab (p_name p)")
  show ?thesis
  proof (cases "p_dynamic p")
    case d: True
    with registerSymbol_good [OF reg pn(1) d refl, of dyn] p assms(1) True reg pn show ?thesis by (simp add: compiles_def)
  next
    case False
    with p obtain n where "p_value p = Inr n" "v = fp_of_int F n" by auto
    with False p assms(1) True show ?thesis by (simp add: compiles_def)
  qed
qed (use assms in \<open>simp add: compiles_def\<close>)

lemma length_concat_le: "x \<in> set xs \<Longrightarrow> length (f x) \<le> length (concat (List.map f xs))"
  by (induction xs) auto

lemma compile_tree:
  assumes "valid_tree t" "eval F (env_of F params dyn) t = Inr v" "length (postfix t) \<le> n"
  shows "compiles F params dyn n (rev (postfix t) @ rest) rest tab v"
  using assms
proof (induction t arbitrary: v n rest tab)
  case (Atom e)
  then obtain m where "n = Suc m" by (cases n) auto
  with Atom compiles_atom show ?case by simp
next
  case (Fun e args)
  from Fun.prems(1) obtain t where t: "operator_el e t" "valid_op t (length args)" "\<forall>a \<in> set args. valid_tree a" by (auto simp: list_all_iff)
  from Fun.prems(2) obtain vs where vs: "list_all2 (\<lambda>a v. eval F (env_of F params dyn) a = Inr v) args vs" "apply_op F t vs = Inr v"
    using t(1) by (auto simp: mapE_Inr_iff apply_el_def operator_el_def)
  from Fun.prems(3) obtain m where m: "n = Suc m" "length (concat (List.map postfix args)) \<le> m" by (cases n) auto
  have ih: "compiles F params dyn m (rev (postfix a) @ rest') rest' tab' w"
    if "a \<in> set args" "eval F (env_of F params dyn) a = Inr w" for a w rest' tab'
    using Fun.IH [OF that(1) _ that(2)] t(3) that(1) m(2) length_concat_le [OF that(1), of postfix] by (meson le_trans)
  from t(2) consider "length args = 1" | "length args = 2" | "length args = 3" by (auto simp: valid_op_def)
  then show ?case
  proof cases
    case 1
    then obtain a where a: "args = [a]" by (auto simp: length_Suc_conv)
    with vs obtain x where x: "eval F (env_of F params dyn) a = Inr x" "apply1 F t x = Inr v" by (auto simp: list_all2_Cons1)
    from a have "a \<in> set args" "valid_op t 1" using t(2) by auto
    from compiles_node1 [OF t(1) this(2) x(2) ih [OF this(1) x(1)]] a m show ?thesis by simp
  next
    case 2
    then obtain a b where a: "args = [a, b]" by (auto simp: length_Suc_conv numeral_2_eq_2)
    with vs obtain x y where "eval F (env_of F params dyn) a = Inr x" "eval F (env_of F params dyn) b = Inr y" "apply2 F t x y = Inr v"
      by (auto simp: list_all2_Cons1)
    note x = this
    from a have "a \<in> set args" "b \<in> set args" "valid_op t 2" using t(2) by (simp_all add: numeral_2_eq_2)
    from compiles_node2 [OF t(1) this(3) x(3) ih [OF this(2) x(2)] ih [OF this(1) x(1)]] a m show ?thesis by simp
  next
    case 3
    then obtain a b c where a: "args = [a, b, c]" by (auto simp: length_Suc_conv numeral_3_eq_3)
    with vs obtain x y z where "eval F (env_of F params dyn) a = Inr x" "eval F (env_of F params dyn) b = Inr y"
      "eval F (env_of F params dyn) c = Inr z" "apply3 F t x y z = Inr v"
      by (auto simp: list_all2_Cons1)
    note x = this
    from a have "a \<in> set args" "b \<in> set args" "c \<in> set args" "valid_op t 3" using t(2) by (simp_all add: numeral_3_eq_3)
    from compiles_node3 [OF t(1) this(4) x(4) ih [OF this(3) x(3)] ih [OF this(2) x(2)] ih [OF this(1) x(1)]] a m
    show ?thesis by simp
  qed
next
  case (Bin e a b)
  from Bin.prems obtain t x y where t: "operator_el e t" "valid_op t 2" "eval F (env_of F params dyn) a = Inr x"
    "eval F (env_of F params dyn) b = Inr y" "apply2 F t x y = Inr v"
    by (auto simp: apply_el_def operator_el_def)
  from Bin.prems(3) obtain m where "n = Suc m" "length (postfix a) \<le> m" "length (postfix b) \<le> m" by (cases n) auto
  with compiles_node2 [OF t(1,2,5) Bin.IH(2) [OF _ t(4)] Bin.IH(1) [OF _ t(3)]] Bin.prems(1) show ?case by simp
next
  case (Post e a)
  from Post.prems obtain t x where t: "operator_el e t" "valid_op t 1" "eval F (env_of F params dyn) a = Inr x" "apply1 F t x = Inr v"
    by (auto simp: apply_el_def operator_el_def)
  from Post.prems(3) obtain m where "n = Suc m" "length (postfix a) \<le> m" by (cases n) auto
  with compiles_node1 [OF t(1,2,4) Post.IH [OF _ t(3)]] Post.prems(1) show ?case by simp
qed

subsection \<open>Evaluation\<close>

text \<open>The parameters at run time: the dynamic ones have the values \<open>dyn\<close>.\<close>

definition run_time :: "'d fpu \<Rightarrow> param list \<Rightarrow> (string \<Rightarrow> 'd) \<Rightarrow> param list \<Rightarrow> bool" where
  "run_time F params dyn now \<longleftrightarrow> (\<forall>p \<in> set params. p_dynamic p \<longrightarrow>
     (\<exists>q n. findParameter now (p_name p) = Inr q \<and> p_value q = Inr n \<and> dyn (p_name p) = fp_of_int F n))"

lemma update_symbol_found:
  "findParameter now (fst smb) = Inr q \<Longrightarrow> p_value q = Inr n \<Longrightarrow> update_symbol F now smb = Inr (fst smb, fp_of_int F n)"
  by (induction now) (auto split: if_splits)

lemma updateSymbolTable_runs:
  assumes "run_time F params dyn now" "\<forall>s \<in> set tab. \<exists>p \<in> set params. p_dynamic p \<and> p_name p = fst s"
  shows "updateSymbolTable F now tab = Inr (List.map (\<lambda>s. (fst s, dyn (fst s))) tab)"
proof -
  have "update_symbol F now s = Inr (fst s, dyn (fst s))" if s: "s \<in> set tab" for s
  proof -
    from s assms obtain p where p: "p \<in> set params" "p_dynamic p" "p_name p = fst s" by blast
    with assms(1) obtain q n where "findParameter now (fst s) = Inr q" "p_value q = Inr n" "dyn (fst s) = fp_of_int F n"
      unfolding run_time_def by metis
    then show ?thesis by (simp add: update_symbol_found)
  qed
  then show ?thesis by (simp add: updateSymbolTable_def mapE_Inr_iff list_all2_conv_all_nth)
qed

lemma compile_evaluates:
  assumes "valid_tree t" "eval F (env_of F params dyn) t = Inr v"
  shows "\<exists>e. compile F hv hp params (postfix t) = Inr e \<and> (\<not> ex_dynamic e \<longrightarrow> value_of F (ex_expr e) = v) \<and>
    (\<forall>now. run_time F params dyn now \<longrightarrow> (\<exists>e'. evaluateDBL F now e = Inr (v, e')))"
proof -
  have ne: "postfix t \<noteq> []" by (cases t) auto
  have "compiles F params dyn (Suc (length (postfix t))) (rev (postfix t) @ []) [] [] v"
    using assms by (intro compile_tree) auto
  then obtain k tab where k: "compile_el (Suc (length (postfix t))) F params (rev (postfix t)) [] = Inr (k, [], tab)"
    "grows params [] tab" "good F dyn tab k v"
    by (auto simp: compiles_def)
  let ?e = "if tok_type k = CONSTANT then \<lparr>ex_expr = k, ex_symbols = None, ex_hash = hv k\<rparr>
    else \<lparr>ex_expr = k, ex_symbols = Some tab, ex_hash = hp (postfix t)\<rparr>"
  have e: "compile F hv hp params (postfix t) = Inr ?e"
    using k(1) ne by (simp add: compile_def del: compile_el.simps)
  have "\<exists>e'. evaluateDBL F now ?e = Inr (v, e')" if now: "run_time F params dyn now" for now
  proof (cases "tok_type k = CONSTANT")
    case True
    with k(3) show ?thesis by (simp add: evaluateDBL_def good_def)
  next
    case False
    have "\<forall>s \<in> set tab. \<exists>p \<in> set params. p_dynamic p \<and> p_name p = fst s" using k(2) by (simp add: grows_def)
    from updateSymbolTable_runs [OF now this] have u: "updateSymbolTable F now tab = Inr (List.map (\<lambda>s. (fst s, dyn (fst s))) tab)" .
    have "runs dyn tab (List.map (\<lambda>s. (fst s, dyn (fst s))) tab)" by (simp add: runs_def)
    with k(3) have "call (tok_f k) (List.map (\<lambda>s. (fst s, dyn (fst s))) tab) = Inr v" by (simp add: good_def)
    with False u show ?thesis by (simp add: evaluateDBL_def)
  qed
  moreover have "\<not> ex_dynamic ?e \<longrightarrow> value_of F (ex_expr ?e) = v" using k(3) by (simp add: ex_dynamic_def good_def)
  ultimately show ?thesis using e by blast
qed

subsection \<open>Properties\<close>

text \<open>
  C17. Parsing and compiling an expression is correct: take any tree of operators and functions, rendered as infix
  elements with the parentheses its precedences need (and any more), whose value \<open>v\<close> is defined; then the postfix
  conversion and the compilation succeed, a fully static expression has the value \<open>v\<close> at once, and evaluating the
  others with the run-time values of the dynamic parameters returns \<open>v\<close>.
\<close>

theorem expression_compiles_correctly:
  assumes "renders t ts X" "valid_tree t" "eval F (env_of F params dyn) t = Inr v"
  shows "\<exists>po e. to_postfix ts = Inr po \<and> compile F hv hp params po = Inr e \<and>
    (\<not> ex_dynamic e \<longrightarrow> value_of F (ex_expr e) = v) \<and>
    (\<forall>now. run_time F params dyn now \<longrightarrow> (\<exists>e'. evaluateDBL F now e = Inr (v, e')))"
  using to_postfix_renders [OF assms(1)] compile_evaluates [OF assms(2,3), of hv hp] by auto

text \<open>An instance over the integers, with decimal tokens.\<close>

definition int_fpu :: "int fpu" where
  "int_fpu = \<lparr>fp_of_int = id, fp_to_int = i64, fp_strtod = foldl (\<lambda>n c. 10 * n + (int (ord c) - 48)) 0, fp_nan = 0,
     fp_add = (+), fp_sub = (-), fp_mul = (*), fp_div = (div), fp_neg = uminus, fp_fmod = (mod), fp_pow = (\<lambda>a b. a ^ nat b),
     fp_trunc = id, fp_lt = (<), fp_le = (\<le>), fp_eq = (=), fp_cmath = (\<lambda>_ v. v)\<rparr>"

definition digits_lexer :: lexer where
  "digits_lexer = \<lparr>number = list_all isdigit, integer = list_all isdigit\<rparr>"

abbreviation param_x :: "bool \<Rightarrow> param" where
  "param_x dynamic \<equiv> \<lparr>p_name = ''x'', p_dynamic = dynamic, p_value = Inr 5\<rparr>"

abbreviation el_x :: rpn_element where "el_x \<equiv> mk_element Operand Sub_PARAMETER DUMMY ''x''"
abbreviation el_2 :: rpn_element where "el_2 \<equiv> mk_element Operand Sub_VALUE DUMMY ''2''"
abbreviation el_mul :: rpn_element where "el_mul \<equiv> mk_element Operator Sub_OPERATOR MUL ''*''"

lemma el_mul_plain: "plain_op el_mul MUL"
  by (simp add: plain_op_def operator_el_def mk_element_def) code_simp

lemma mul_valid: "valid_op MUL 2"
  by (simp add: valid_op_def op_of_def operatorArray_def mk_op_def)

theorem expression_compiles_correctly_witness:
  "\<exists>po e. to_postfix [el_2, el_mul, el_x] = Inr po \<and> compile int_fpu (\<lambda>_. 0) (\<lambda>_. 1) [param_x True] po = Inr e \<and>
     (\<exists>e'. evaluateDBL int_fpu [param_x True] e = Inr (10, e'))"
proof -
  have r: "renders (Bin el_mul (Atom el_2) (Atom el_x)) ([el_2] @ el_mul # [el_x]) ({} \<union> {} \<union> {MUL})"
    by (intro renders_renders_args.bin renders_renders_args.atom el_mul_plain) (simp_all add: mk_element_def)
  have v: "valid_tree (Bin el_mul (Atom el_2) (Atom el_x))"
    using el_mul_plain mul_valid by (auto simp: plain_op_def mk_element_def)
  have "apply_el int_fpu el_mul [2, 5] = Inr 10"
    using el_mul_plain by (simp add: apply_el_def plain_op_def operator_el_def apply2_def int_fpu_def)
  then have e: "eval int_fpu (env_of int_fpu [param_x True] (\<lambda>_. 5)) (Bin el_mul (Atom el_2) (Atom el_x)) = Inr 10"
    by (simp add: mk_element_def env_of_def int_fpu_def ord_def)
  have "run_time int_fpu [param_x True] (\<lambda>_. 5) [param_x True]" by (simp add: run_time_def int_fpu_def)
  with expression_compiles_correctly [OF r v e, of "\<lambda>_. 0" "\<lambda>_. 1"] show ?thesis by auto
qed

lemma tolower_par: "tolower c = CHR ''('' \<longleftrightarrow> c = CHR ''(''" "tolower c = CHR '')'' \<longleftrightarrow> c = CHR '')''"
proof -
  have "ord (tolower c) = (if isupper c then ord c + 32 else ord c)" by (simp add: tolower_def ord_def isupper_def)
  then have "isupper c \<Longrightarrow> ord (tolower c) \<ge> 97" "\<not> isupper c \<Longrightarrow> tolower c = c"
    by (auto simp: isupper_def tolower_def)
  moreover have "ord (CHR ''('') = 40" "ord (CHR '')'') = 41" by (simp_all add: ord_def)
  ultimately show "tolower c = CHR ''('' \<longleftrightarrow> c = CHR ''(''" "tolower c = CHR '')'' \<longleftrightarrow> c = CHR '')''"
    by (cases "isupper c"; auto simp: isupper_def)+
qed

definition normal_text :: "string \<Rightarrow> string" where
  "normal_text s = List.map tolower (filter (\<lambda>c. c \<noteq> CHR '' '') s)"

lemma count_par:
  "length (filter (\<lambda>c. c = CHR ''('') (normal_text s)) = length (filter (\<lambda>c. c = CHR ''('') s)"
  "length (filter (\<lambda>c. c = CHR '')'') (normal_text s)) = length (filter (\<lambda>c. c = CHR '')'') s)"
  by (induction s) (auto simp: normal_text_def tolower_par)

lemma missMatch_normal: "missMatchParenthesis (normal_text s) = missMatchParenthesis s"
  by (simp add: missMatchParenthesis_def count_par)

lemma str_find_empty: "p \<noteq> [] \<Longrightarrow> str_find [] p 0 = None"
  by (simp add: str_find_def substr_def)

lemma clean_normal: "normal_text s = normal_text s' \<Longrightarrow> cleanInfixExpression s = cleanInfixExpression s'"
proof -
  have empty: "cleanInfixExpression s = Inr []" if "normal_text s = []" for s
    using that str_find_empty
    by (simp add: cleanInfixExpression_def normal_text_def stringReplace_def replace_loop.simps replaceExactMatch_def
        exact_loop.simps char_at_def find_first_of_def Let_def)
  assume eq: "normal_text s = normal_text s'"
  show ?thesis
  proof (cases "normal_text s = []")
    case True
    with eq empty show ?thesis by metis
  next
    case False
    then have "s \<noteq> []" "s' \<noteq> []" using eq by (auto simp: normal_text_def)
    with eq show ?thesis by (simp add: cleanInfixExpression_def normal_text_def)
  qed
qed

text \<open>
  C38. Spaces and letter case do not matter: two texts that differ only by them have the same elements, or the same
  error.
\<close>

theorem spaces_and_case_insignificant:
  assumes "normal_text s = normal_text s'"
  shows "extractPostfixElements L s = extractPostfixElements L s'"
proof -
  have "missMatchParenthesis s = missMatchParenthesis s'" using assms missMatch_normal by metis
  with clean_normal [OF assms] show ?thesis by (simp add: extractPostfixElements_def extractInfixElements_def)
qed

theorem spaces_and_case_insignificant_witness:
  "extractPostfixElements digits_lexer ''2 * X'' = extractPostfixElements digits_lexer ''2*x''"
  by (rule spaces_and_case_insignificant) code_simp

lemma map_sum_Inr:
  assumes "map_sum f g m = Inr y"
  obtains x where "m = Inr x" "g x = y"
  using assms by (cases m) auto

text \<open>The steps of \<open>cleanInfixExpression\<close> on a text without comma, to evaluate it one by one.\<close>

lemma clean_text:
  assumes "normal_text s = sa" "stringReplace sa ''(+'' ''('' = sb" "stringReplace sb ''(-'' ''(0-'' = sc"
    and "insert_mul False sc = ca" "s \<noteq> []" "char_at sc 0 \<noteq> CHR ''-''" "find_first_of ca '','' 0 = None"
    and "replaceExactMatch ca ''pi'' ''3.14159265358979323846'' = cb" "replaceExactMatch cb ''e'' ''2.7182818284590452354'' = cc"
  shows "cleanInfixExpression s = Inr cc"
  using assms by (simp add: cleanInfixExpression_def normal_text_def Let_def)

lemma infix_text:
  assumes "cleanInfixExpression s = Inr c" "\<not> missMatchParenthesis s" "checkInfixExpression c = Inr ()"
  shows "extractInfixElements L s = bindE (extract_infix_loop L c 0 [])
      (\<lambda>(n, els). if n \<noteq> length c then addElementFromToken L els (substr c n (length c - n)) else Inr els)"
  using assms by (simp add: extractInfixElements_def)

lemma log10_elements:
  obtains e1 e2 e3 where "extractPostfixElements digits_lexer ''log10(x)'' = Inr [e1, e2, e3]"
    "el_type e1 = Operator" "el_token e1 = ''log10''" "el_type e2 = Operand" "el_subtype e2 = Sub_PARAMETER" "el_token e2 = ''x''"
    "el_type e3 = Operator" "el_token e3 = ''*''"
proof -
  let ?f = "\<lambda>e. (el_type e, el_subtype e, el_token e)"
  have "cleanInfixExpression ''log10(x)'' = Inr ''log10*(x)''"
    by (rule clean_text [where sa = "''log10(x)''" and sb = "''log10(x)''" and sc = "''log10(x)''" and ca = "''log10*(x)''" and cb = "''log10*(x)''"]) code_simp+
  moreover have "\<not> missMatchParenthesis ''log10(x)''" by (simp add: missMatchParenthesis_def)
  moreover have "checkInfixExpression ''log10*(x)'' = Inr ()" by code_simp+
  ultimately have i: "extractInfixElements digits_lexer ''log10(x)'' = bindE (extract_infix_loop digits_lexer ''log10*(x)'' 0 [])
      (\<lambda>(n, els). if n \<noteq> length ''log10*(x)'' then addElementFromToken digits_lexer els (substr ''log10*(x)'' n (length ''log10*(x)'' - n)) else Inr els)"
    by (intro infix_text)
  have "map_sum id (List.map ?f) (bindE (bindE (extract_infix_loop digits_lexer ''log10*(x)'' 0 [])
      (\<lambda>(n, els). if n \<noteq> length ''log10*(x)'' then addElementFromToken digits_lexer els (substr ''log10*(x)'' n (length ''log10*(x)'' - n)) else Inr els)) to_postfix) =
    Inr [(Operator, Sub_FUNCTION, ''log10''), (Operand, Sub_PARAMETER, ''x''), (Operator, Sub_OPERATOR, ''*'')]" by code_simp
  then have "map_sum id (List.map ?f) (extractPostfixElements digits_lexer ''log10(x)'') =
    Inr [(Operator, Sub_FUNCTION, ''log10''), (Operand, Sub_PARAMETER, ''x''), (Operator, Sub_OPERATOR, ''*'')]"
    by (simp only: extractPostfixElements_def i)
  then obtain els where x: "extractPostfixElements digits_lexer ''log10(x)'' = Inr els"
    and els: "List.map (\<lambda>e. (el_type e, el_subtype e, el_token e)) els =
      [(Operator, Sub_FUNCTION, ''log10''), (Operand, Sub_PARAMETER, ''x''), (Operator, Sub_OPERATOR, ''*'')]"
    by (rule map_sum_Inr)
  from els obtain e1 e2 e3 where e: "els = [e1, e2, e3]" by (auto simp: map_eq_Cons_conv)
  from els show thesis unfolding e by (intro that [OF x [unfolded e]]) simp_all
qed

lemma mul_log_ops: "getOperatorTypeFromString ''*'' = Inr MUL" "getOperatorTypeFromString ''log10'' = Inr LOG2"
  "op_argCount (op_of MUL) = 2" "op_argCount (op_of LOG2) = 1"
  by code_simp+

lemma succeeds: "\<not> isl m \<Longrightarrow> \<exists>x. m = Inr x"
  by (cases m) auto

text \<open>
  Three defects of the parser: \<open>log10\<close> is the operator \<open>LOG2\<close> and its text is cut by an implicit
  multiplication, so that no expression can use it; a comparison whose left side ends with a parenthesis is rejected,
  because \<open>)=\<close> is taken for an operator, while \<open>!=\<close> there is accepted.
\<close>

theorem parser_defects:
  "getOperatorTypeFromString ''log10'' = Inr LOG2 \<and>
   expression_of_string int_fpu (\<lambda>_. 0) (\<lambda>_. 1) digits_lexer [param_x False] ''log10(x)'' = Inl Spider_Exception \<and>
   extractInfixElements digits_lexer ''(x)==1'' = Inl Spider_Exception \<and>
   (\<exists>els. extractInfixElements digits_lexer ''(x)!=1'' = Inr els)"
proof (intro conjI)
  show "getOperatorTypeFromString ''log10'' = Inr LOG2" by code_simp
  show "expression_of_string int_fpu (\<lambda>_. 0) (\<lambda>_. 1) digits_lexer [param_x False] ''log10(x)'' = Inl Spider_Exception"
    by (rule log10_elements) (simp add: expression_of_string_def compile_def mul_log_ops get_op_of)
  have "cleanInfixExpression ''(x)==1'' = Inr ''(x)==1''"
    by (rule clean_text [where sa = "''(x)==1''" and sb = "''(x)==1''" and sc = "''(x)==1''" and ca = "''(x)==1''" and cb = "''(x)==1''"]) code_simp+
  moreover have "\<not> missMatchParenthesis ''(x)==1''" by (simp add: missMatchParenthesis_def)
  moreover have "checkInfixExpression ''(x)==1'' = Inr ()" by code_simp+
  moreover have "extract_infix_loop digits_lexer ''(x)==1'' 0 [] = Inl Spider_Exception" by code_simp
  ultimately show "extractInfixElements digits_lexer ''(x)==1'' = Inl Spider_Exception" by (simp add: infix_text)
  have "cleanInfixExpression ''(x)!=1'' = Inr ''(x)!=1''"
    by (rule clean_text [where sa = "''(x)!=1''" and sb = "''(x)!=1''" and sc = "''(x)!=1''" and ca = "''(x)!=1''" and cb = "''(x)!=1''"]) code_simp+
  moreover have "\<not> missMatchParenthesis ''(x)!=1''" by (simp add: missMatchParenthesis_def)
  moreover have "checkInfixExpression ''(x)!=1'' = Inr ()" by code_simp+
  ultimately have e: "extractInfixElements digits_lexer ''(x)!=1'' = bindE (extract_infix_loop digits_lexer ''(x)!=1'' 0 [])
      (\<lambda>(n, els). if n \<noteq> length ''(x)!=1'' then addElementFromToken digits_lexer els (substr ''(x)!=1'' n (length ''(x)!=1'' - n)) else Inr els)"
    by (intro infix_text)
  show "\<exists>els. extractInfixElements digits_lexer ''(x)!=1'' = Inr els" unfolding e by (rule succeeds) code_simp
qed

text \<open>
  The equality of expressions is that of their hashes, which the constructor from an integer, the copy and the
  assignment leave at its initial value: all integer expressions are equal, and so are all copies.
\<close>

lemma expression_equality_is_trivial:
  "expression_eq (expression_of_int F m) (expression_of_int F n)" "expression_eq (expression_copy e) (expression_copy e')"
  by (simp_all add: expression_eq_def expression_of_int_def expression_copy_def)

text \<open>
  The operator \<open>^\<close> returns its base when the exponent is zero or a negative integer, whatever the floating-point
  type, because its loop starts from the base and counts the exponent down to 1.
\<close>

theorem power_of_nonpositive_exponent:
  assumes "fp_lt F v1 (fp_of_int F 100)" "fp_eq F (fp_trunc F v1) v1" "\<not> fp_lt F (fp_1 F) v1"
  shows "apply2 F POW v0 v1 = Inr v0"
  using assms by (simp add: apply2_def power_op_def pow_loop.simps)

theorem power_of_nonpositive_exponent_witness: "apply2 int_fpu POW 7 0 = Inr 7"
  by (rule power_of_nonpositive_exponent) (simp_all add: int_fpu_def)

end
