(* ===== verification/Monitors.thy ===== *)
theory Monitors
  imports Prelude
begin

text \<open>
  The blocking containers of \<open>thread/\<close>: \<open>Queue\<close> and \<open>basic_semaphore\<close>, monitors made of a mutex and a condition
  variable. A critical section is one step of a transition system over the program counters of the threads. Both
  implement the abstract monitor of the first section, whose locale \<open>monitor_client\<close> proves once that a signal is never
  lost.
\<close>

subsection \<open>The abstract monitor\<close>

record monitor =
  mo_avail :: nat      \<comment> \<open>items or permits at hand\<close>
  mo_blocked :: nat    \<comment> \<open>threads asleep on the condition variable\<close>
  mo_woken :: nat      \<comment> \<open>threads awake again that have not yet re-evaluated their predicate\<close>
  mo_pending :: nat    \<comment> \<open>calls of \<open>notify_one\<close> still to come\<close>

inductive monitor_step :: "monitor \<Rightarrow> monitor \<Rightarrow> bool" where
  offer: "monitor_step \<lparr>mo_avail = a, mo_blocked = b, mo_woken = w, mo_pending = p\<rparr>
             \<lparr>mo_avail = Suc a, mo_blocked = b, mo_woken = w, mo_pending = Suc p\<rparr>"
| signal: "monitor_step \<lparr>mo_avail = a, mo_blocked = Suc b, mo_woken = w, mo_pending = Suc p\<rparr>
             \<lparr>mo_avail = a, mo_blocked = b, mo_woken = Suc w, mo_pending = p\<rparr>"
| signal_none: "monitor_step \<lparr>mo_avail = a, mo_blocked = 0, mo_woken = w, mo_pending = Suc p\<rparr>
             \<lparr>mo_avail = a, mo_blocked = 0, mo_woken = w, mo_pending = p\<rparr>"
| take_woken: "monitor_step \<lparr>mo_avail = Suc a, mo_blocked = b, mo_woken = Suc w, mo_pending = p\<rparr>
             \<lparr>mo_avail = a, mo_blocked = b, mo_woken = w, mo_pending = p\<rparr>"
| take_direct: "monitor_step \<lparr>mo_avail = Suc a, mo_blocked = b, mo_woken = w, mo_pending = p\<rparr>
             \<lparr>mo_avail = a, mo_blocked = b, mo_woken = w, mo_pending = p\<rparr>"
| sleep: "monitor_step \<lparr>mo_avail = 0, mo_blocked = b, mo_woken = w, mo_pending = p\<rparr>
             \<lparr>mo_avail = 0, mo_blocked = Suc b, mo_woken = w, mo_pending = p\<rparr>"
| wake: "monitor_step \<lparr>mo_avail = a, mo_blocked = Suc b, mo_woken = w, mo_pending = p\<rparr>
             \<lparr>mo_avail = a, mo_blocked = b, mo_woken = Suc w, mo_pending = p\<rparr>"
| give_up: "monitor_step \<lparr>mo_avail = 0, mo_blocked = b, mo_woken = Suc w, mo_pending = p\<rparr>
             \<lparr>mo_avail = 0, mo_blocked = b, mo_woken = w, mo_pending = p\<rparr>"
| drain: "monitor_step \<lparr>mo_avail = a, mo_blocked = b, mo_woken = w, mo_pending = p\<rparr>
             \<lparr>mo_avail = 0, mo_blocked = b, mo_woken = w, mo_pending = p\<rparr>"

definition no_lost_signal :: "monitor \<Rightarrow> bool" where
  "no_lost_signal m \<longleftrightarrow> (0 < mo_blocked m \<longrightarrow> mo_avail m \<le> mo_woken m + mo_pending m)"

lemma monitor_step_keeps: "monitor_step m m' \<Longrightarrow> no_lost_signal m \<Longrightarrow> no_lost_signal m'"
  by (induction rule: monitor_step.induct) (auto simp: no_lost_signal_def)

lemma monitor_steps_keep: "monitor_step\<^sup>*\<^sup>* m m' \<Longrightarrow> no_lost_signal m \<Longrightarrow> no_lost_signal m'"
  by (induction rule: rtranclp_induct) (auto intro: monitor_step_keeps)

text \<open>A transition system whose view is such a monitor.\<close>

locale monitor_client =
  fixes view :: "'s \<Rightarrow> monitor" and step :: "'s \<Rightarrow> 's \<Rightarrow> bool" and init :: "'s \<Rightarrow> bool"
  assumes view_init: "init s \<Longrightarrow> mo_blocked (view s) = 0"
    and view_step: "step s s' \<Longrightarrow> monitor_step\<^sup>*\<^sup>* (view s) (view s')"
begin

lemma no_lost_wakeup:
  assumes "init s0" "step\<^sup>*\<^sup>* s0 s"
  shows "no_lost_signal (view s)"
  using assms(2)
proof (induction rule: rtranclp_induct)
  case base
  then show ?case using view_init [OF assms(1)] by (simp add: no_lost_signal_def)
next
  case (step y z)
  then show ?case using monitor_steps_keep [OF view_step] by blast
qed

lemma waiting_is_served:
  assumes "init s0" "step\<^sup>*\<^sup>* s0 s" "0 < mo_avail (view s)" "0 < mo_blocked (view s)"
  shows "0 < mo_woken (view s) \<or> 0 < mo_pending (view s)"
  using no_lost_wakeup [OF assms(1,2)] assms(3,4) by (auto simp: no_lost_signal_def)

end

subsection \<open>Threads and their program counters\<close>

datatype pc = Idle | Notifying | Blocked | Woken | Checked

lemma count_list_update:
  "t < length xs \<Longrightarrow> count_list (xs[t := x]) y + (if xs ! t = y then 1 else 0) = count_list xs y + (if x = y then 1 else 0)"
proof (induction xs arbitrary: t)
  case (Cons z zs)
  show ?case
  proof (cases t)
    case (Suc n)
    with Cons.prems Cons.IH [of n] show ?thesis by (cases "z = y") (simp_all split del: if_split)
  qed simp
qed simp

lemma count_list_pos: "0 < count_list xs y \<longleftrightarrow> (\<exists>t < length xs. xs ! t = y)"
  by (metis count_list_0_iff gr0I in_set_conv_nth less_irrefl)

lemma count_list_change:
  assumes "t < length xs"
  shows "count_list (xs[t := x]) y = (if x = y then (if xs ! t = y then count_list xs y else Suc (count_list xs y))
           else if xs ! t = y then count_list xs y - 1 else count_list xs y)"
  using count_list_update [OF assms, of x y] by (auto split: if_splits)

subsection \<open>Queue\<close>

record 'a queue =
  q_items :: "'a list"
  q_pc :: "pc list"
  q_sent :: "'a list"     \<comment> \<open>history: everything pushed\<close>
  q_out :: "'a list"      \<comment> \<open>history: everything popped or cleared\<close>
  q_fault :: bool         \<comment> \<open>\<open>front()\<close> of an empty queue\<close>

definition queue_init :: "nat \<Rightarrow> 'a queue" where
  "queue_init n = \<lparr>q_items = [], q_pc = replicate n Idle, q_sent = [], q_out = [], q_fault = False\<rparr>"

datatype queue_op = Qpush | Qnotify | Qpop | Qspurious | Qtry | Qclear

text \<open>
  \<open>try_pop\<close> tests the queue without the lock, then enters its critical section: \<open>try_check\<close> and \<open>try_take\<close> are two steps,
  and \<open>try_fault\<close> is the second one on a queue emptied in between.
\<close>

inductive queue_step :: "'a queue \<Rightarrow> nat \<times> queue_op \<Rightarrow> 'a queue \<Rightarrow> bool" where
  push: "t < length (q_pc s) \<Longrightarrow> q_pc s ! t = Idle \<Longrightarrow> \<not> q_fault s \<Longrightarrow>
    queue_step s (t, Qpush) (s\<lparr>q_items := q_items s @ [x], q_sent := q_sent s @ [x], q_pc := (q_pc s)[t := Notifying]\<rparr>)"
| notify_none: "t < length (q_pc s) \<Longrightarrow> q_pc s ! t = Notifying \<Longrightarrow> \<not> q_fault s \<Longrightarrow> Blocked \<notin> set (q_pc s) \<Longrightarrow>
    queue_step s (t, Qnotify) (s\<lparr>q_pc := (q_pc s)[t := Idle]\<rparr>)"
| notify_one: "t < length (q_pc s) \<Longrightarrow> q_pc s ! t = Notifying \<Longrightarrow> \<not> q_fault s \<Longrightarrow> u < length (q_pc s) \<Longrightarrow> q_pc s ! u = Blocked \<Longrightarrow>
    queue_step s (t, Qnotify) (s\<lparr>q_pc := (q_pc s)[t := Idle, u := Woken]\<rparr>)"
| pop_take: "t < length (q_pc s) \<Longrightarrow> q_pc s ! t \<in> {Idle, Woken} \<Longrightarrow> \<not> q_fault s \<Longrightarrow> q_items s = x # xs \<Longrightarrow>
    queue_step s (t, Qpop) (s\<lparr>q_items := xs, q_out := q_out s @ [x], q_pc := (q_pc s)[t := Idle]\<rparr>)"
| pop_wait: "t < length (q_pc s) \<Longrightarrow> q_pc s ! t \<in> {Idle, Woken} \<Longrightarrow> \<not> q_fault s \<Longrightarrow> q_items s = [] \<Longrightarrow>
    queue_step s (t, Qpop) (s\<lparr>q_pc := (q_pc s)[t := Blocked]\<rparr>)"
| spurious: "t < length (q_pc s) \<Longrightarrow> q_pc s ! t = Blocked \<Longrightarrow> \<not> q_fault s \<Longrightarrow>
    queue_step s (t, Qspurious) (s\<lparr>q_pc := (q_pc s)[t := Woken]\<rparr>)"
| try_fail: "t < length (q_pc s) \<Longrightarrow> q_pc s ! t = Idle \<Longrightarrow> \<not> q_fault s \<Longrightarrow> q_items s = [] \<Longrightarrow> queue_step s (t, Qtry) s"
| try_check: "t < length (q_pc s) \<Longrightarrow> q_pc s ! t = Idle \<Longrightarrow> \<not> q_fault s \<Longrightarrow> q_items s \<noteq> [] \<Longrightarrow>
    queue_step s (t, Qtry) (s\<lparr>q_pc := (q_pc s)[t := Checked]\<rparr>)"
| try_take: "t < length (q_pc s) \<Longrightarrow> q_pc s ! t = Checked \<Longrightarrow> \<not> q_fault s \<Longrightarrow> q_items s = x # xs \<Longrightarrow>
    queue_step s (t, Qtry) (s\<lparr>q_items := xs, q_out := q_out s @ [x], q_pc := (q_pc s)[t := Idle]\<rparr>)"
| try_fault: "t < length (q_pc s) \<Longrightarrow> q_pc s ! t = Checked \<Longrightarrow> \<not> q_fault s \<Longrightarrow> q_items s = [] \<Longrightarrow>
    queue_step s (t, Qtry) (s\<lparr>q_fault := True\<rparr>)"
| clear: "t < length (q_pc s) \<Longrightarrow> q_pc s ! t = Idle \<Longrightarrow> \<not> q_fault s \<Longrightarrow>
    queue_step s (t, Qclear) (s\<lparr>q_items := [], q_out := q_out s @ q_items s\<rparr>)"

inductive_cases queue_stepE: "queue_step s (t, op) s'"

definition queue_next :: "'a queue \<Rightarrow> 'a queue \<Rightarrow> bool" where
  "queue_next s s' \<longleftrightarrow> (\<exists>e. queue_step s e s')"

definition queue_view :: "'a queue \<Rightarrow> monitor" where
  "queue_view s = \<lparr>mo_avail = length (q_items s), mo_blocked = count_list (q_pc s) Blocked,
     mo_woken = count_list (q_pc s) Woken, mo_pending = count_list (q_pc s) Notifying\<rparr>"

lemma queue_view_step: "queue_step s e s' \<Longrightarrow> monitor_step\<^sup>*\<^sup>* (queue_view s) (queue_view s')"
proof (induction rule: queue_step.induct)
  case (push t s x)
  then show ?case by (auto simp: queue_view_def count_list_change intro!: r_into_rtranclp monitor_step.offer)
next
  case (notify_none t s)
  then have "count_list (q_pc s) Blocked = 0" "0 < count_list (q_pc s) Notifying"
    by (auto simp: count_list_0_iff count_list_pos)
  with notify_none show ?case
    using monitor_step.signal_none [of "length (q_items s)" "count_list (q_pc s) Woken" "count_list (q_pc s) Notifying - 1"]
    by (auto simp: queue_view_def count_list_change)
next
  case (notify_one t s u)
  then have "0 < count_list (q_pc s) Blocked" "0 < count_list (q_pc s) Notifying" "t \<noteq> u"
    by (auto simp: count_list_pos)
  with notify_one show ?case
    using monitor_step.signal [of "length (q_items s)" "count_list (q_pc s) Blocked - 1" "count_list (q_pc s) Woken" "count_list (q_pc s) Notifying - 1"]
    by (auto simp: queue_view_def count_list_change nth_list_update)
next
  case (pop_take t s x xs)
  show ?case
  proof (cases "q_pc s ! t = Woken")
    case True
    with pop_take have "0 < count_list (q_pc s) Woken" by (auto simp: count_list_pos)
    with True pop_take show ?thesis
      using monitor_step.take_woken [of "length xs" "count_list (q_pc s) Blocked" "count_list (q_pc s) Woken - 1" "count_list (q_pc s) Notifying"]
      by (auto simp: queue_view_def count_list_change)
  next
    case False
    with pop_take show ?thesis by (auto simp: queue_view_def count_list_change intro!: r_into_rtranclp monitor_step.take_direct)
  qed
next
  case (pop_wait t s)
  show ?case
  proof (cases "q_pc s ! t = Woken")
    case True
    with pop_wait have "0 < count_list (q_pc s) Woken" by (auto simp: count_list_pos)
    with True pop_wait show ?thesis
      using monitor_step.give_up [of "count_list (q_pc s) Blocked" "count_list (q_pc s) Woken - 1" "count_list (q_pc s) Notifying"]
        monitor_step.sleep [of "count_list (q_pc s) Blocked" "count_list (q_pc s) Woken - 1" "count_list (q_pc s) Notifying"]
      by (auto simp: queue_view_def count_list_change intro: converse_rtranclp_into_rtranclp)
  next
    case False
    with pop_wait show ?thesis by (auto simp: queue_view_def count_list_change intro!: r_into_rtranclp monitor_step.sleep)
  qed
next
  case (spurious t s)
  then have "0 < count_list (q_pc s) Blocked" by (auto simp: count_list_pos)
  with spurious show ?case
    using monitor_step.wake [of "length (q_items s)" "count_list (q_pc s) Blocked - 1" "count_list (q_pc s) Woken" "count_list (q_pc s) Notifying"]
    by (auto simp: queue_view_def count_list_change)
next
  case (try_take t s x xs)
  then show ?case by (auto simp: queue_view_def count_list_change intro!: r_into_rtranclp monitor_step.take_direct)
next
  case (clear t s)
  then show ?case by (auto simp: queue_view_def intro!: r_into_rtranclp monitor_step.drain)
qed (auto simp: queue_view_def count_list_change)

interpretation queue: monitor_client queue_view queue_next "\<lambda>s. \<exists>n. s = queue_init n"
proof unfold_locales
  show "\<exists>n. s = queue_init n \<Longrightarrow> mo_blocked (queue_view s) = 0" for s :: "'a queue"
    by (auto simp: queue_view_def queue_init_def count_list_0_iff)
  show "queue_next s s' \<Longrightarrow> monitor_step\<^sup>*\<^sup>* (queue_view s) (queue_view s')" for s s' :: "'a queue"
    using queue_view_step by (auto simp: queue_next_def)
qed

text \<open>Which threads take items out, and what the histories say.\<close>

definition consumes :: "queue_op \<Rightarrow> bool" where
  "consumes op \<longleftrightarrow> op \<in> {Qpop, Qtry, Qclear}"

inductive queue_run :: "(nat \<Rightarrow> bool) \<Rightarrow> 'a queue \<Rightarrow> 'a queue \<Rightarrow> bool" for consumer :: "nat \<Rightarrow> bool" and s0 :: "'a queue" where
  run_start: "queue_run consumer s0 s0"
| run_step: "queue_run consumer s0 s \<Longrightarrow> queue_step s (t, op) s' \<Longrightarrow> consumes op \<longrightarrow> consumer t \<Longrightarrow> queue_run consumer s0 s'"

definition fifo_ok :: "'a queue \<Rightarrow> bool" where
  "fifo_ok s \<longleftrightarrow> q_out s @ q_items s = q_sent s"

lemma fifo_step: "queue_step s e s' \<Longrightarrow> fifo_ok s \<Longrightarrow> fifo_ok s'"
  by (induction rule: queue_step.induct) (auto simp: fifo_ok_def)

lemma fifo_run: "queue_run c s0 s \<Longrightarrow> fifo_ok s0 \<Longrightarrow> fifo_ok s"
  by (induction rule: queue_run.induct) (auto intro: fifo_step)

lemma run_next: "queue_run c s0 s \<Longrightarrow> queue_next\<^sup>*\<^sup>* s0 s"
proof (induction rule: queue_run.induct)
  case (run_step s t op s')
  then have "queue_next s s'" by (auto simp: queue_next_def)
  with run_step.IH show ?case by (rule rtranclp.rtrancl_into_rtrancl)
qed simp

text \<open>With one consumer, whoever pushes, the test of \<open>try_pop\<close> still holds when its critical section starts.\<close>

definition test_holds :: "nat \<Rightarrow> 'a queue \<Rightarrow> bool" where
  "test_holds c s \<longleftrightarrow> \<not> q_fault s \<and> (\<forall>t < length (q_pc s). q_pc s ! t = Checked \<longrightarrow> t = c \<and> q_items s \<noteq> [])"

lemma test_consumed:
  assumes "test_holds c s" "q_pc s ! c \<noteq> Checked \<or> p = Idle" "\<not> q_fault s'" "q_pc s' = (q_pc s)[c := p]" "p \<noteq> Checked"
  shows "test_holds c s'"
proof -
  have "q_pc s' ! u \<noteq> Checked" if "u < length (q_pc s')" for u
    using assms that by (cases "u = c") (auto simp: test_holds_def)
  with assms(3) show ?thesis by (simp add: test_holds_def)
qed

lemma test_step:
  "queue_step s e s' \<Longrightarrow> consumes (snd e) \<longrightarrow> fst e = c \<Longrightarrow> test_holds c s \<Longrightarrow> test_holds c s'"
proof (induction rule: queue_step.induct)
  case (pop_take t s x xs)
  then have "t = c" by (simp add: consumes_def)
  with pop_take show ?case by - (rule test_consumed [where s = s and p = Idle], auto)
next
  case (try_take t s x xs)
  then have "t = c" by (simp add: consumes_def)
  with try_take show ?case by - (rule test_consumed [where s = s and p = Idle], auto)
next
  case (clear t s)
  then have "t = c" by (simp add: consumes_def)
  with clear show ?case by - (rule test_consumed [where s = s and p = Idle], use list_update_id [of "q_pc s" c] in auto)
next
  case (try_fault t s)
  then show ?case by (simp add: test_holds_def)
qed (auto simp: test_holds_def consumes_def nth_list_update split: if_splits)

lemma test_run: "queue_run (\<lambda>t. t = c) s0 s \<Longrightarrow> test_holds c s0 \<Longrightarrow> test_holds c s"
proof (induction rule: queue_run.induct)
  case (run_step s t op s')
  then show ?case using test_step [OF run_step(2), of c] by simp
qed

subsection \<open>Semaphore\<close>

record sema =
  se_count :: nat
  se_pc :: "pc list"
  se_notified :: nat    \<comment> \<open>history: calls of \<open>notify\<close>\<close>
  se_acquired :: nat    \<comment> \<open>history: successful waits\<close>

definition sema_init :: "nat \<Rightarrow> nat \<Rightarrow> sema" where
  "sema_init n count = \<lparr>se_count = count, se_pc = replicate n Idle, se_notified = 0, se_acquired = 0\<rparr>"

text \<open>
  \<open>notify\<close> signals inside its critical section. \<open>timeout\<close> is \<open>wait_for\<close> and \<open>wait_until\<close> returning false: the predicate is
  evaluated once more when the time is over.
\<close>

inductive sema_step :: "sema \<Rightarrow> sema \<Rightarrow> bool" where
  sem_notify_none: "t < length (se_pc s) \<Longrightarrow> se_pc s ! t = Idle \<Longrightarrow> Blocked \<notin> set (se_pc s) \<Longrightarrow>
    sema_step s (s\<lparr>se_count := Suc (se_count s), se_notified := Suc (se_notified s)\<rparr>)"
| sem_notify_one: "t < length (se_pc s) \<Longrightarrow> se_pc s ! t = Idle \<Longrightarrow> u < length (se_pc s) \<Longrightarrow> se_pc s ! u = Blocked \<Longrightarrow>
    sema_step s (s\<lparr>se_count := Suc (se_count s), se_notified := Suc (se_notified s), se_pc := (se_pc s)[u := Woken]\<rparr>)"
| sem_take: "t < length (se_pc s) \<Longrightarrow> se_pc s ! t \<in> {Idle, Woken} \<Longrightarrow> 0 < se_count s \<Longrightarrow>
    sema_step s (s\<lparr>se_count := se_count s - 1, se_acquired := Suc (se_acquired s), se_pc := (se_pc s)[t := Idle]\<rparr>)"
| sem_wait: "t < length (se_pc s) \<Longrightarrow> se_pc s ! t \<in> {Idle, Woken} \<Longrightarrow> se_count s = 0 \<Longrightarrow>
    sema_step s (s\<lparr>se_pc := (se_pc s)[t := Blocked]\<rparr>)"
| sem_spurious: "t < length (se_pc s) \<Longrightarrow> se_pc s ! t = Blocked \<Longrightarrow> sema_step s (s\<lparr>se_pc := (se_pc s)[t := Woken]\<rparr>)"
| sem_timeout: "t < length (se_pc s) \<Longrightarrow> se_pc s ! t \<in> {Idle, Woken} \<Longrightarrow> se_count s = 0 \<Longrightarrow>
    sema_step s (s\<lparr>se_pc := (se_pc s)[t := Idle]\<rparr>)"

inductive_cases sema_stepE: "sema_step s s'"

definition sema_view :: "sema \<Rightarrow> monitor" where
  "sema_view s = \<lparr>mo_avail = se_count s, mo_blocked = count_list (se_pc s) Blocked,
     mo_woken = count_list (se_pc s) Woken, mo_pending = 0\<rparr>"

lemma sema_view_step: "sema_step s s' \<Longrightarrow> monitor_step\<^sup>*\<^sup>* (sema_view s) (sema_view s')"
proof (induction rule: sema_step.induct)
  case (sem_notify_none t s)
  then have z: "count_list (se_pc s) Blocked = 0" by (simp add: count_list_0_iff)
  with sem_notify_none show ?case
    using monitor_step.offer [of "se_count s" 0 "count_list (se_pc s) Woken" 0]
      monitor_step.signal_none [of "Suc (se_count s)" "count_list (se_pc s) Woken" 0]
    by (auto simp: sema_view_def intro: converse_rtranclp_into_rtranclp)
next
  case (sem_notify_one t s u)
  then have "0 < count_list (se_pc s) Blocked" by (auto simp: count_list_pos)
  with sem_notify_one show ?case
    using monitor_step.offer [of "se_count s" "count_list (se_pc s) Blocked" "count_list (se_pc s) Woken" 0]
      monitor_step.signal [of "Suc (se_count s)" "count_list (se_pc s) Blocked - 1" "count_list (se_pc s) Woken" 0]
    by (auto simp: sema_view_def count_list_change intro: converse_rtranclp_into_rtranclp)
next
  case (sem_take t s)
  show ?case
  proof (cases "se_pc s ! t = Woken")
    case True
    with sem_take have "0 < count_list (se_pc s) Woken" by (auto simp: count_list_pos)
    with True sem_take show ?thesis
      using monitor_step.take_woken [of "se_count s - 1" "count_list (se_pc s) Blocked" "count_list (se_pc s) Woken - 1" 0]
      by (auto simp: sema_view_def count_list_change)
  next
    case False
    with sem_take show ?thesis
      using monitor_step.take_direct [of "se_count s - 1" "count_list (se_pc s) Blocked" "count_list (se_pc s) Woken" 0]
      by (auto simp: sema_view_def count_list_change)
  qed
next
  case (sem_wait t s)
  show ?case
  proof (cases "se_pc s ! t = Woken")
    case True
    with sem_wait have "0 < count_list (se_pc s) Woken" by (auto simp: count_list_pos)
    with True sem_wait show ?thesis
      using monitor_step.give_up [of "count_list (se_pc s) Blocked" "count_list (se_pc s) Woken - 1" 0]
        monitor_step.sleep [of "count_list (se_pc s) Blocked" "count_list (se_pc s) Woken - 1" 0]
      by (auto simp: sema_view_def count_list_change intro: converse_rtranclp_into_rtranclp)
  next
    case False
    with sem_wait show ?thesis by (auto simp: sema_view_def count_list_change intro!: r_into_rtranclp monitor_step.sleep)
  qed
next
  case (sem_spurious t s)
  then have "0 < count_list (se_pc s) Blocked" by (auto simp: count_list_pos)
  with sem_spurious show ?case
    using monitor_step.wake [of "se_count s" "count_list (se_pc s) Blocked - 1" "count_list (se_pc s) Woken" 0]
    by (auto simp: sema_view_def count_list_change)
next
  case (sem_timeout t s)
  show ?case
  proof (cases "se_pc s ! t = Woken")
    case True
    with sem_timeout have "0 < count_list (se_pc s) Woken" by (auto simp: count_list_pos)
    with True sem_timeout show ?thesis
      using monitor_step.give_up [of "count_list (se_pc s) Blocked" "count_list (se_pc s) Woken - 1" 0]
      by (auto simp: sema_view_def count_list_change)
  next
    case False
    with sem_timeout show ?thesis by (auto simp: sema_view_def count_list_change)
  qed
qed

interpretation sema: monitor_client sema_view sema_step "\<lambda>s. \<exists>n c. s = sema_init n c"
proof unfold_locales
  show "\<exists>n c. s = sema_init n c \<Longrightarrow> mo_blocked (sema_view s) = 0" for s
    by (auto simp: sema_view_def sema_init_def count_list_0_iff)
qed (rule sema_view_step)

lemma sema_permits_step: "sema_step s s' \<Longrightarrow> se_count s' + se_acquired s' + se_notified s = se_count s + se_acquired s + se_notified s'"
  by (induction rule: sema_step.induct) auto

lemma sema_permits: "sema_step\<^sup>*\<^sup>* (sema_init n c) s \<Longrightarrow> se_count s + se_acquired s = c + se_notified s"
proof (induction rule: rtranclp_induct)
  case (step y z)
  then show ?case using sema_permits_step [OF step(2)] by simp
qed (simp add: sema_init_def)

end
