(* ===== verification/Barrier.thy ===== *)
theory Barrier
  imports Monitors
begin

text \<open>
  \<open>basic_barrier\<close> of \<open>thread/Barrier.h\<close>: a barrier reused round after round, whose rounds are told apart by the counter
  \<open>done_\<close>. The counters \<open>ba_arrived\<close> and \<open>ba_passed\<close> of each thread and the number of rounds are history.
\<close>

datatype barrier_pc = Outside | Asleep nat | Awake nat   \<comment> \<open>with the value of \<open>done_\<close> captured by the predicate\<close>

record barrier =
  ba_reset :: nat
  ba_count :: nat
  ba_done :: nat
  ba_pc :: "barrier_pc list"
  ba_rounds :: nat
  ba_arrived :: "nat list"
  ba_passed :: "nat list"

definition barrier_init :: "nat \<Rightarrow> nat \<Rightarrow> barrier" where
  "barrier_init n count = \<lparr>ba_reset = count, ba_count = count, ba_done = 0, ba_pc = replicate n Outside, ba_rounds = 0,
     ba_arrived = replicate n 0, ba_passed = replicate n 0\<rparr>"

fun wake_up :: "barrier_pc \<Rightarrow> barrier_pc" where
  "wake_up (Asleep g) = Awake g" | "wake_up p = p"

inductive barrier_step :: "barrier \<Rightarrow> nat \<Rightarrow> barrier \<Rightarrow> bool" where
  arrive_last: "t < length (ba_pc s) \<Longrightarrow> ba_pc s ! t = Outside \<Longrightarrow> sub64 (ba_count s) 1 = 0 \<Longrightarrow>
    barrier_step s t (s\<lparr>ba_done := add64 (ba_done s) 1, ba_count := ba_reset s, ba_pc := List.map wake_up (ba_pc s),
      ba_rounds := Suc (ba_rounds s), ba_arrived := (ba_arrived s)[t := Suc (ba_arrived s ! t)],
      ba_passed := (ba_passed s)[t := Suc (ba_passed s ! t)]\<rparr>)"
| arrive_wait: "t < length (ba_pc s) \<Longrightarrow> ba_pc s ! t = Outside \<Longrightarrow> sub64 (ba_count s) 1 \<noteq> 0 \<Longrightarrow>
    barrier_step s t (s\<lparr>ba_count := sub64 (ba_count s) 1, ba_pc := (ba_pc s)[t := Asleep (ba_done s)],
      ba_arrived := (ba_arrived s)[t := Suc (ba_arrived s ! t)]\<rparr>)"
| leave: "t < length (ba_pc s) \<Longrightarrow> ba_pc s ! t = Awake g \<Longrightarrow> ba_done s \<noteq> g \<Longrightarrow>
    barrier_step s t (s\<lparr>ba_pc := (ba_pc s)[t := Outside], ba_passed := (ba_passed s)[t := Suc (ba_passed s ! t)]\<rparr>)"
| sleep_again: "t < length (ba_pc s) \<Longrightarrow> ba_pc s ! t = Awake g \<Longrightarrow> ba_done s = g \<Longrightarrow>
    barrier_step s t (s\<lparr>ba_pc := (ba_pc s)[t := Asleep g]\<rparr>)"
| spurious_wake: "t < length (ba_pc s) \<Longrightarrow> ba_pc s ! t = Asleep g \<Longrightarrow> barrier_step s t (s\<lparr>ba_pc := (ba_pc s)[t := Awake g]\<rparr>)"

inductive barrier_reach :: "nat \<Rightarrow> barrier \<Rightarrow> bool" for n :: nat where
  reach_init: "barrier_reach n (barrier_init n n)"
| reach_step: "barrier_reach n s \<Longrightarrow> barrier_step s t s' \<Longrightarrow> barrier_reach n s'"

text \<open>A thread is outside between two rounds, waits for the current one, or is released from the previous one.\<close>

definition thread_ok :: "barrier \<Rightarrow> nat \<Rightarrow> bool" where
  "thread_ok s t \<longleftrightarrow>
     (let R = ba_rounds s; a = ba_arrived s ! t; p = ba_passed s ! t in
      (case ba_pc s ! t of
         Outside \<Rightarrow> a = R \<and> p = R
       | Asleep g \<Rightarrow> a = Suc R \<and> p = R \<and> g = ba_done s
       | Awake g \<Rightarrow> (a = Suc R \<and> p = R \<and> g = ba_done s) \<or> (0 < R \<and> a = R \<and> Suc p = R \<and> g \<noteq> ba_done s)))"

lemma thread_ok_frame:
  "thread_ok s u \<Longrightarrow> ba_rounds s' = ba_rounds s \<Longrightarrow> ba_done s' = ba_done s \<Longrightarrow> ba_pc s' ! u = ba_pc s ! u \<Longrightarrow>
   ba_arrived s' ! u = ba_arrived s ! u \<Longrightarrow> ba_passed s' ! u = ba_passed s ! u \<Longrightarrow> thread_ok s' u"
  unfolding thread_ok_def by (simp only:)

definition waiting_count :: "barrier \<Rightarrow> nat" where
  "waiting_count s = count_list (ba_arrived s) (Suc (ba_rounds s))"

definition barrier_ok :: "nat \<Rightarrow> barrier \<Rightarrow> bool" where
  "barrier_ok n s \<longleftrightarrow>
     length (ba_pc s) = n \<and> length (ba_arrived s) = n \<and> length (ba_passed s) = n \<and> ba_reset s = n \<and> ba_done s < 2 ^ 64 \<and>
     (\<forall>t < n. thread_ok s t) \<and> ba_count s + waiting_count s = n \<and> 0 < ba_count s"

lemma add64_one_neq: "d < 2 ^ 64 \<Longrightarrow> add64 d 1 \<noteq> d"
proof -
  assume d: "d < 2 ^ 64"
  show ?thesis
  proof (cases "d + 1 < 2 ^ 64")
    case True
    then show ?thesis by (simp add: add64_def)
  next
    case False
    with d have "d + 1 = 2 ^ 64" by linarith
    then have "add64 d 1 = 0" by (simp add: add64_def)
    with False show ?thesis by auto
  qed
qed

lemma waiting_all_but:
  assumes "count_list xs y = length xs - 1" "t < length xs" "xs ! t \<noteq> y"
  shows "\<forall>u < length xs. u \<noteq> t \<longrightarrow> xs ! u = y"
proof (intro allI impI)
  fix u assume u: "u < length xs" "u \<noteq> t"
  show "xs ! u = y"
  proof (rule ccontr)
    assume a: "xs ! u \<noteq> y"
    have "count_list (xs[t := y, u := y]) y = Suc (Suc (count_list xs y))"
      using assms a u by (simp add: count_list_change)
    moreover have "count_list (xs[t := y, u := y]) y \<le> length (xs[t := y, u := y])" by (rule count_le_length)
    moreover have "2 \<le> length xs" using u assms(2) by linarith
    ultimately show False using assms(1) by simp
  qed
qed

lemma barrier_ok_init: "0 < n \<Longrightarrow> barrier_ok n (barrier_init n n)"
  by (auto simp: barrier_ok_def barrier_init_def thread_ok_def waiting_count_def Let_def count_list_0_iff)

lemma barrier_ok_step:
  assumes n: "n < 2 ^ 64"
  shows "barrier_step s t s' \<Longrightarrow> barrier_ok n s \<Longrightarrow> barrier_ok n s'"
proof (induction rule: barrier_step.induct)
  case (arrive_last t s)
  then have k: "length (ba_pc s) = n" "length (ba_arrived s) = n" "length (ba_passed s) = n" "ba_reset s = n" "ba_done s < 2 ^ 64"
    "ba_count s + waiting_count s = n" "0 < ba_count s" and th: "\<And>t. t < n \<Longrightarrow> thread_ok s t"
    by (auto simp: barrier_ok_def)
  have c: "ba_count s = 1" using arrive_last(3) k n sub64_exact [of 1 "ba_count s"] by simp
  have t: "t < n" "ba_arrived s ! t = ba_rounds s" "ba_passed s ! t = ba_rounds s"
    using arrive_last th [of t] k by (auto simp: thread_ok_def Let_def)
  have all: "\<forall>u < n. u \<noteq> t \<longrightarrow> ba_arrived s ! u = Suc (ba_rounds s)"
    using waiting_all_but [of "ba_arrived s" "Suc (ba_rounds s)" t] c k t by (simp add: waiting_count_def)
  let ?s' = "s\<lparr>ba_done := add64 (ba_done s) 1, ba_count := ba_reset s, ba_pc := List.map wake_up (ba_pc s),
      ba_rounds := Suc (ba_rounds s), ba_arrived := (ba_arrived s)[t := Suc (ba_arrived s ! t)],
      ba_passed := (ba_passed s)[t := Suc (ba_passed s ! t)]\<rparr>"
  have "thread_ok ?s' u" if u: "u < n" for u
  proof (cases "u = t")
    case True
    with t k arrive_last(2) show ?thesis by (simp add: thread_ok_def Let_def)
  next
    case False
    with th [OF u] all u k add64_one_neq [OF k(5)] show ?thesis
      by (cases "ba_pc s ! u") (auto simp: thread_ok_def Let_def)
  qed
  moreover have "waiting_count ?s' = 0"
    using all t k by (auto simp: waiting_count_def count_list_0_iff in_set_conv_nth nth_list_update)
  ultimately show ?case using k n arrive_last(1) add64_bound [of "ba_done s" 1] by (simp add: barrier_ok_def)
next
  case (arrive_wait t s)
  then have k: "length (ba_pc s) = n" "length (ba_arrived s) = n" "length (ba_passed s) = n"
    "ba_count s + waiting_count s = n" "0 < ba_count s" and th: "\<And>t. t < n \<Longrightarrow> thread_ok s t"
    by (auto simp: barrier_ok_def)
  have c: "sub64 (ba_count s) 1 = ba_count s - 1" using k n by (intro sub64_exact) auto
  have t: "t < n" "ba_arrived s ! t = ba_rounds s" "ba_passed s ! t = ba_rounds s"
    using arrive_wait th [of t] k by (auto simp: thread_ok_def Let_def)
  let ?s' = "s\<lparr>ba_count := sub64 (ba_count s) 1, ba_pc := (ba_pc s)[t := Asleep (ba_done s)],
      ba_arrived := (ba_arrived s)[t := Suc (ba_arrived s ! t)]\<rparr>"
  have "thread_ok ?s' u" if u: "u < n" for u
    using t k u by (cases "u = t") (simp add: thread_ok_def Let_def, rule thread_ok_frame [OF th [OF u]], simp_all)
  moreover have "waiting_count ?s' = Suc (waiting_count s)"
    using t k by (simp add: waiting_count_def count_list_change)
  ultimately show ?case using k c arrive_wait(3,4) by (simp add: barrier_ok_def)
next
  case (leave t s g)
  then have th: "\<And>t. t < n \<Longrightarrow> thread_ok s t" and k: "length (ba_pc s) = n" "length (ba_passed s) = n"
    by (auto simp: barrier_ok_def)
  have t: "ba_arrived s ! t = ba_rounds s" "Suc (ba_passed s ! t) = ba_rounds s"
    using th [of t] leave k by (auto simp: thread_ok_def Let_def)
  let ?s' = "s\<lparr>ba_pc := (ba_pc s)[t := Outside], ba_passed := (ba_passed s)[t := Suc (ba_passed s ! t)]\<rparr>"
  have "thread_ok ?s' u" if u: "u < n" for u
    using t k u by (cases "u = t") (simp add: thread_ok_def Let_def, rule thread_ok_frame [OF th [OF u]], simp_all)
  with leave show ?case by (simp add: barrier_ok_def waiting_count_def)
next
  case (sleep_again t s g)
  then have th: "\<And>t. t < n \<Longrightarrow> thread_ok s t" and k: "length (ba_pc s) = n"
    by (auto simp: barrier_ok_def)
  have "thread_ok (s\<lparr>ba_pc := (ba_pc s)[t := Asleep g]\<rparr>) u" if u: "u < n" for u
  proof (cases "u = t")
    case True
    with th [OF u] k u sleep_again(2-) show ?thesis by (auto simp: thread_ok_def Let_def)
  qed (rule thread_ok_frame [OF th [OF u]], simp_all)
  with sleep_again show ?case by (simp add: barrier_ok_def waiting_count_def)
next
  case (spurious_wake t s g)
  then have th: "\<And>t. t < n \<Longrightarrow> thread_ok s t" and k: "length (ba_pc s) = n"
    by (auto simp: barrier_ok_def)
  have "thread_ok (s\<lparr>ba_pc := (ba_pc s)[t := Awake g]\<rparr>) u" if u: "u < n" for u
  proof (cases "u = t")
    case True
    with th [OF u] k u spurious_wake(2-) show ?thesis by (auto simp: thread_ok_def Let_def)
  qed (rule thread_ok_frame [OF th [OF u]], simp_all)
  with spurious_wake show ?case by (simp add: barrier_ok_def waiting_count_def)
qed

lemma barrier_reach_ok: "barrier_reach n s \<Longrightarrow> 0 < n \<Longrightarrow> n < 2 ^ 64 \<Longrightarrow> barrier_ok n s"
  by (induction rule: barrier_reach.induct) (auto intro: barrier_ok_init barrier_ok_step)

text \<open>Nobody passes a round before everybody has arrived.\<close>

lemma barrier_ok_safe:
  assumes "barrier_ok n s" "t < n" "u < n"
  shows "ba_passed s ! t \<le> ba_arrived s ! u"
proof -
  have th: "thread_ok s t" "thread_ok s u" using assms by (auto simp: barrier_ok_def)
  have "ba_passed s ! t \<le> ba_rounds s" using th(1) by (auto simp: thread_ok_def Let_def split: barrier_pc.splits)
  also have "\<dots> \<le> ba_arrived s ! u" using th(2) by (auto simp: thread_ok_def Let_def split: barrier_pc.splits)
  finally show ?thesis .
qed

text \<open>When every thread has called \<open>wait\<close>, one of them can leave.\<close>

lemma barrier_ok_progress:
  assumes "barrier_ok n s" "0 < n" "\<forall>t < n. ba_pc s ! t \<noteq> Outside"
  shows "\<exists>t < n. \<exists>g. ba_pc s ! t = Awake g \<and> g \<noteq> ba_done s"
proof (rule ccontr)
  assume none: "\<not> ?thesis"
  have "ba_arrived s ! t = Suc (ba_rounds s)" if t: "t < n" for t
  proof -
    have "thread_ok s t" "ba_pc s ! t \<noteq> Outside" using assms t by (auto simp: barrier_ok_def)
    with none t show ?thesis by (cases "ba_pc s ! t") (auto simp: thread_ok_def Let_def)
  qed
  then have "ba_arrived s = replicate n (Suc (ba_rounds s))" using assms(1) by (auto simp: barrier_ok_def intro: nth_equalityI)
  then have "waiting_count s = count_list (replicate n (Suc (ba_rounds s))) (Suc (ba_rounds s))" by (simp add: waiting_count_def)
  moreover have "count_list (replicate k x) x = k" for k :: nat and x :: nat by (induction k) auto
  ultimately show False using assms(1) by (auto simp: barrier_ok_def)
qed

end
