(* ===== verification/IndexedQueue.thy ===== *)
theory IndexedQueue
  imports Prelude "HOL-Library.Multiset"
begin

text \<open>
  \<open>thread/IndexedQueue.h\<close>: a store of messages retrieved by index, whose free slots are reused. The mutex makes each
  operation one step. The locale \<open>message_store\<close> is what the communicator relies on; the interpretation at the end
  shows that the indexed queue provides it.
\<close>

record 'a indexed_queue =
  iq_free :: "nat list"     \<comment> \<open>\<open>freeIndexQueue_\<close>\<close>
  iq_slots :: "'a list"     \<comment> \<open>\<open>queue_\<close>; a slot whose message was moved out keeps a value nobody reads\<close>

definition iq_empty :: "'a indexed_queue" where
  "iq_empty = \<lparr>iq_free = [], iq_slots = []\<rparr>"

definition getFreeIndex :: "'a indexed_queue \<Rightarrow> nat \<times> 'a indexed_queue" where
  "getFreeIndex q =
     (if iq_free q \<noteq> [] then (hd (iq_free q), q\<lparr>iq_free := tl (iq_free q)\<rparr>) else (size_max, q))"

definition iq_push :: "'a \<Rightarrow> 'a indexed_queue \<Rightarrow> (nat \<times> 'a indexed_queue) result" where
  "iq_push v q =
     (let (index, q1) = getFreeIndex q
      in if index = size_max then Inr (length (iq_slots q1 @ [v]) - 1, q1\<lparr>iq_slots := iq_slots q1 @ [v]\<rparr>)
         else bindE (set_at (iq_slots q1) index v) (\<lambda>slots. Inr (index, q1\<lparr>iq_slots := slots\<rparr>)))"

definition iq_pop :: "nat \<Rightarrow> 'a indexed_queue \<Rightarrow> ('a \<times> 'a indexed_queue) result" where
  "iq_pop ix q = bindE (at (iq_slots q) ix) (\<lambda>v. Inr (v, q\<lparr>iq_free := iq_free q @ [ix]\<rparr>))"

subsection \<open>What a client relies on\<close>

locale message_store =
  fixes push :: "'m \<Rightarrow> 's \<Rightarrow> (nat \<times> 's) result" and pop :: "nat \<Rightarrow> 's \<Rightarrow> ('m \<times> 's) result"
    and content :: "'s \<Rightarrow> nat \<Rightarrow> 'm option" and inv :: "'s \<Rightarrow> bool" and room :: "'s \<Rightarrow> bool"
  assumes push_law: "inv s \<Longrightarrow> room s \<Longrightarrow> \<exists>ix s'. push m s = Inr (ix, s') \<and> inv s' \<and> content s ix = None \<and> content s' = (content s)(ix \<mapsto> m)"
    and pop_law: "inv s \<Longrightarrow> content s ix = Some m \<Longrightarrow> \<exists>s'. pop ix s = Inr (m, s') \<and> inv s' \<and> content s' = (content s)(ix := None)"
    and finite_law: "inv s \<Longrightarrow> finite (dom (content s))"
begin

text \<open>The indices in circulation, whoever carries them: exactly those that hold a message, each once.\<close>

definition circulation :: "'s \<Rightarrow> nat multiset" where
  "circulation s = mset_set (dom (content s))"

lemma circulation_push:
  assumes "inv s" "room s"
  shows "\<exists>ix s'. push m s = Inr (ix, s') \<and> inv s' \<and> circulation s' = add_mset ix (circulation s) \<and> ix \<notin># circulation s \<and>
     content s' = (content s)(ix \<mapsto> m)"
proof -
  from push_law [OF assms, of m] obtain ix s' where p: "push m s = Inr (ix, s')" "inv s'" "content s ix = None"
      "content s' = (content s)(ix \<mapsto> m)" by blast
  have "finite (dom (content s))" "ix \<notin> dom (content s)" using finite_law [OF assms(1)] p(3) by (simp_all add: domIff)
  with p show ?thesis by (intro exI [of _ ix] exI [of _ s']) (simp add: circulation_def)
qed

lemma circulation_pop:
  assumes "inv s" "ix \<in># circulation s"
  shows "\<exists>m s'. content s ix = Some m \<and> pop ix s = Inr (m, s') \<and> inv s' \<and> circulation s = add_mset ix (circulation s') \<and>
     ix \<notin># circulation s' \<and> content s' = (content s)(ix := None)"
proof -
  have f: "finite (dom (content s))" by (rule finite_law [OF assms(1)])
  with assms(2) obtain m where m: "content s ix = Some m" by (auto simp: circulation_def)
  from pop_law [OF assms(1) m] obtain s' where p: "pop ix s = Inr (m, s')" "inv s'" "content s' = (content s)(ix := None)" by blast
  have "dom (content s) = insert ix (dom (content s) - {ix})" using m by auto
  with f have "mset_set (dom (content s)) = add_mset ix (mset_set (dom (content s) - {ix}))" by (metis Diff_iff finite_Diff insertI1 mset_set.insert)
  with p m f show ?thesis by (intro exI [of _ m] exI [of _ s']) (simp add: circulation_def)
qed

end

subsection \<open>The indexed queue is a message store\<close>

definition iq_content :: "'a indexed_queue \<Rightarrow> nat \<Rightarrow> 'a option" where
  "iq_content q ix = (if ix < length (iq_slots q) \<and> ix \<notin> set (iq_free q) then Some (iq_slots q ! ix) else None)"

definition iq_inv :: "'a indexed_queue \<Rightarrow> bool" where
  "iq_inv q \<longleftrightarrow> distinct (iq_free q) \<and> (\<forall>ix \<in> set (iq_free q). ix < length (iq_slots q)) \<and> length (iq_slots q) \<le> size_max"

definition iq_room :: "'a indexed_queue \<Rightarrow> bool" where
  "iq_room q \<longleftrightarrow> iq_free q \<noteq> [] \<or> length (iq_slots q) < size_max"

interpretation iq: message_store iq_push iq_pop iq_content iq_inv iq_room
proof unfold_locales
  fix s :: "'a indexed_queue" and m assume i: "iq_inv s" and r: "iq_room s"
  show "\<exists>ix s'. iq_push m s = Inr (ix, s') \<and> iq_inv s' \<and> iq_content s ix = None \<and> iq_content s' = (iq_content s)(ix \<mapsto> m)"
  proof (cases "iq_free s")
    case Nil
    with r have "Suc (length (iq_slots s)) \<le> size_max" unfolding iq_room_def by linarith
    with Nil i show ?thesis
      by (intro exI [of _ "length (iq_slots s)"] exI [of _ "s\<lparr>iq_slots := iq_slots s @ [m]\<rparr>"])
         (auto simp: iq_push_def getFreeIndex_def iq_inv_def iq_content_def nth_append fun_eq_iff)
  next
    case (Cons ix free)
    with i have "ix < length (iq_slots s)" "ix \<noteq> size_max" by (auto simp: iq_inv_def)
    with Cons i show ?thesis
      by (intro exI [of _ ix] exI [of _ "s\<lparr>iq_free := free, iq_slots := (iq_slots s)[ix := m]\<rparr>"])
         (auto simp: iq_push_def getFreeIndex_def iq_inv_def iq_content_def fun_eq_iff nth_list_update)
  qed
next
  fix s :: "'a indexed_queue" and ix m assume i: "iq_inv s" "iq_content s ix = Some m"
  then have "ix < length (iq_slots s)" "ix \<notin> set (iq_free s)" "iq_slots s ! ix = m"
    by (auto simp: iq_content_def split: if_splits)
  with i(1) show "\<exists>s'. iq_pop ix s = Inr (m, s') \<and> iq_inv s' \<and> iq_content s' = (iq_content s)(ix := None)"
    by (intro exI [of _ "s\<lparr>iq_free := iq_free s @ [ix]\<rparr>"]) (auto simp: iq_pop_def iq_inv_def iq_content_def fun_eq_iff)
next
  fix s :: "'a indexed_queue"
  have "dom (iq_content s) \<subseteq> {..<length (iq_slots s)}" by (auto simp: iq_content_def split: if_splits)
  then show "finite (dom (iq_content s))" by (rule finite_subset) simp
qed

lemma iq_empty_ok: "iq_inv iq_empty" "iq.circulation iq_empty = {#}"
  by (simp_all add: iq_inv_def iq_empty_def iq.circulation_def iq_content_def dom_def)

end
