(* ===== verification/Communicator.thy ===== *)
theory Communicator
  imports IndexedQueue
begin

text \<open>
  \<open>ThreadRTCommunicator\<close>: one notification queue per local runtime, and indexed queues for the messages that the
  notifications announce. The protocol of \<open>TaskLauncher\<close> and \<open>RTRunner\<close> (store the message, announce its index, hear the
  announcement, fetch the message) is a transition system in which every thread may be interrupted between two operations.
\<close>

subsection \<open>Notifications\<close>

datatype notification_type =
    LRT_END_ITERATION | LRT_START_ITERATION | LRT_REPEAT_ITERATION_EN | LRT_REPEAT_ITERATION_DIS | LRT_FINISHED_ITERATION
  | LRT_RST_ITERATION | LRT_CLEAR_ITERATION | LRT_STOP | LRT_PAUSE | LRT_RESUME
  | TRACE_ENABLE | TRACE_DISABLE | TRACE_TASK | TRACE_SCHEDULE | TRACE_TRANSFO | TRACE_PARAM | TRACE_MEMORY
  | JOB_ADD | JOB_CLEAR_QUEUE | JOB_SENT_PARAM | JOB_BROADCAST_JOBSTAMP | JOB_DELAY_BROADCAST_JOBSTAMP | JOB_UPDATE_JOBSTAMP
  | MEM_UPDATE_COUNT | UNDEFINED

record notification =
  nt_sender :: nat
  nt_ix :: nat
  nt_type :: notification_type

definition notification_default :: notification where
  "notification_default = \<lparr>nt_sender = size_max, nt_ix = size_max, nt_type = UNDEFINED\<rparr>"

definition notification_new :: "notification_type \<Rightarrow> nat \<Rightarrow> nat \<Rightarrow> notification" where
  "notification_new type sender ix = \<lparr>nt_sender = sender, nt_ix = ix, nt_type = type\<rparr>"

subsection \<open>The communicator\<close>

record ('j, 'p, 't) comm =
  cm_notifications :: "notification list option list"    \<comment> \<open>an array of pointers to queues\<close>
  cm_params :: "notification list"
  cm_traces :: "notification list"
  cm_jobMessages :: "'j indexed_queue"
  cm_paramMessages :: "'p indexed_queue"
  cm_traceMessages :: "'t indexed_queue"

definition comm_new :: "nat \<Rightarrow> nat \<Rightarrow> ('j, 'p, 't) comm result" where
  "comm_new lrtCount platformLRTs =
     (if platformLRTs > lrtCount then Inl Undefined_Behaviour
      else Inr \<lparr>cm_notifications = replicate platformLRTs (Some []) @ replicate (lrtCount - platformLRTs) None, cm_params = [], cm_traces = [],
         cm_jobMessages = iq_empty, cm_paramMessages = iq_empty, cm_traceMessages = iq_empty\<rparr>)"

text \<open>The critical sections of \<open>Queue\<close>; \<open>None\<close> is a call that blocks, or a \<open>try_pop\<close> that returns false.\<close>

fun queue_take :: "'a list \<Rightarrow> ('a \<times> 'a list) option" where
  "queue_take [] = None" | "queue_take (x # xs) = Some (x, xs)"

definition notification_queue :: "('j, 'p, 't) comm \<Rightarrow> nat \<Rightarrow> notification list result" where
  "notification_queue c receiver =
     bindE (get_at (cm_notifications c) receiver) (\<lambda>q. case q of None \<Rightarrow> Inl Null_Deref | Some ns \<Rightarrow> Inr ns)"

definition push_notification :: "('j, 'p, 't) comm \<Rightarrow> notification \<Rightarrow> nat \<Rightarrow> ('j, 'p, 't) comm result" where
  "push_notification c n receiver =
     bindE (notification_queue c receiver) (\<lambda>ns. Inr (c\<lparr>cm_notifications := (cm_notifications c)[receiver := Some (ns @ [n])]\<rparr>))"

definition pop_notification :: "('j, 'p, 't) comm \<Rightarrow> nat \<Rightarrow> (notification \<times> ('j, 'p, 't) comm) option result" where
  "pop_notification c receiver =
     bindE (notification_queue c receiver) (\<lambda>ns.
       Inr (map_option (\<lambda>(n, rest). (n, c\<lparr>cm_notifications := (cm_notifications c)[receiver := Some rest]\<rparr>)) (queue_take ns)))"

definition try_pop_notification :: "('j, 'p, 't) comm \<Rightarrow> nat \<Rightarrow> (notification \<times> ('j, 'p, 't) comm) option result" where
  "try_pop_notification c receiver = pop_notification c receiver"

definition pushParamNotification :: "('j, 'p, 't) comm \<Rightarrow> nat \<Rightarrow> nat \<Rightarrow> ('j, 'p, 't) comm" where
  "pushParamNotification c sender messageIndex =
     c\<lparr>cm_params := cm_params c @ [notification_new JOB_SENT_PARAM sender messageIndex]\<rparr>"

definition popParamNotification :: "('j, 'p, 't) comm \<Rightarrow> (notification \<times> ('j, 'p, 't) comm) option" where
  "popParamNotification c = map_option (\<lambda>(n, rest). (n, c\<lparr>cm_params := rest\<rparr>)) (queue_take (cm_params c))"

definition pushTraceNotification :: "('j, 'p, 't) comm \<Rightarrow> notification \<Rightarrow> ('j, 'p, 't) comm" where
  "pushTraceNotification c n = c\<lparr>cm_traces := cm_traces c @ [n]\<rparr>"

definition popTraceNotification :: "('j, 'p, 't) comm \<Rightarrow> (notification \<times> ('j, 'p, 't) comm) option" where
  "popTraceNotification c = map_option (\<lambda>(n, rest). (n, c\<lparr>cm_traces := rest\<rparr>)) (queue_take (cm_traces c))"

definition push_job :: "('j, 'p, 't) comm \<Rightarrow> 'j \<Rightarrow> (nat \<times> ('j, 'p, 't) comm) result" where
  "push_job c m = bindE (iq_push m (cm_jobMessages c)) (\<lambda>(ix, q). Inr (ix, c\<lparr>cm_jobMessages := q\<rparr>))"

definition pop_job :: "('j, 'p, 't) comm \<Rightarrow> nat \<Rightarrow> ('j \<times> ('j, 'p, 't) comm) result" where
  "pop_job c ix = bindE (iq_pop ix (cm_jobMessages c)) (\<lambda>(m, q). Inr (m, c\<lparr>cm_jobMessages := q\<rparr>))"

definition push_paramMessage :: "('j, 'p, 't) comm \<Rightarrow> 'p \<Rightarrow> (nat \<times> ('j, 'p, 't) comm) result" where
  "push_paramMessage c m = bindE (iq_push m (cm_paramMessages c)) (\<lambda>(ix, q). Inr (ix, c\<lparr>cm_paramMessages := q\<rparr>))"

definition pop_paramMessage :: "('j, 'p, 't) comm \<Rightarrow> nat \<Rightarrow> ('p \<times> ('j, 'p, 't) comm) result" where
  "pop_paramMessage c ix = bindE (iq_pop ix (cm_paramMessages c)) (\<lambda>(m, q). Inr (m, c\<lparr>cm_paramMessages := q\<rparr>))"

definition push_traceMessage :: "('j, 'p, 't) comm \<Rightarrow> 't \<Rightarrow> (nat \<times> ('j, 'p, 't) comm) result" where
  "push_traceMessage c m = bindE (iq_push m (cm_traceMessages c)) (\<lambda>(ix, q). Inr (ix, c\<lparr>cm_traceMessages := q\<rparr>))"

definition pop_traceMessage :: "('j, 'p, 't) comm \<Rightarrow> nat \<Rightarrow> ('t \<times> ('j, 'p, 't) comm) result" where
  "pop_traceMessage c ix = bindE (iq_pop ix (cm_traceMessages c)) (\<lambda>(m, q). Inr (m, c\<lparr>cm_traceMessages := q\<rparr>))"

subsection \<open>The protocol of the job messages\<close>

record 'j world =
  w_comm :: "('j, unit, unit) comm"
  w_hand :: "(nat \<times> nat \<times> 'j) list"      \<comment> \<open>receiver, index and message between the two operations of a sender\<close>
  w_fetch :: "nat \<Rightarrow> nat option"          \<comment> \<open>index between the two operations of a receiver\<close>
  w_sent :: "nat \<Rightarrow> 'j list"               \<comment> \<open>history: messages announced to a receiver\<close>
  w_got :: "nat \<Rightarrow> 'j list"                \<comment> \<open>history: messages it has fetched\<close>

inductive world_step :: "nat \<Rightarrow> 'j world \<Rightarrow> 'j world \<Rightarrow> bool" for grt :: nat where
  store: "iq_room (cm_jobMessages (w_comm w)) \<Longrightarrow> push_job (w_comm w) m = Inr (ix, c) \<Longrightarrow>
    world_step grt w (w\<lparr>w_comm := c, w_hand := w_hand w @ [(r, ix, m)]\<rparr>)"
| announce: "w_hand w = h1 @ (r, ix, m) # h2 \<Longrightarrow> push_notification (w_comm w) (notification_new JOB_ADD grt ix) r = Inr c \<Longrightarrow>
    world_step grt w (w\<lparr>w_comm := c, w_hand := h1 @ h2, w_sent := (w_sent w)(r := w_sent w r @ [m])\<rparr>)"
| hear: "w_fetch w r = None \<Longrightarrow> pop_notification (w_comm w) r = Inr (Some (n, c)) \<Longrightarrow> nt_type n = JOB_ADD \<Longrightarrow>
    world_step grt w (w\<lparr>w_comm := c, w_fetch := (w_fetch w)(r := Some (nt_ix n))\<rparr>)"
| fetch: "w_fetch w r = Some ix \<Longrightarrow> pop_job (w_comm w) ix = Inr (m, c) \<Longrightarrow>
    world_step grt w (w\<lparr>w_comm := c, w_fetch := (w_fetch w)(r := None), w_got := (w_got w)(r := w_got w r @ [m])\<rparr>)"

inductive_cases world_stepE: "world_step grt w w'"

definition world_init :: "('j, unit, unit) comm \<Rightarrow> 'j world" where
  "world_init c = \<lparr>w_comm = c, w_hand = [], w_fetch = (\<lambda>_. None), w_sent = (\<lambda>_. []), w_got = (\<lambda>_. [])\<rparr>"

text \<open>The indices a receiver still has to fetch, in order.\<close>

definition queue_of :: "('j, 'p, 't) comm \<Rightarrow> nat \<Rightarrow> notification list" where
  "queue_of c r = (if r < length (cm_notifications c) then case cm_notifications c ! r of None \<Rightarrow> [] | Some ns \<Rightarrow> ns else [])"

definition due :: "'j world \<Rightarrow> nat \<Rightarrow> nat list" where
  "due w r = (case w_fetch w r of None \<Rightarrow> [] | Some ix \<Rightarrow> [ix]) @ List.map nt_ix (queue_of (w_comm w) r)"

definition world_indices :: "'j world \<Rightarrow> nat multiset" where
  "world_indices w = mset (List.map (fst \<circ> snd) (w_hand w)) + (\<Sum>r < length (cm_notifications (w_comm w)). mset (due w r))"

definition world_ok :: "'j world \<Rightarrow> bool" where
  "world_ok w \<longleftrightarrow>
     (let q = cm_jobMessages (w_comm w) in
      iq_inv q \<and> world_indices w = iq.circulation q \<and>
      (\<forall>(r, ix, m) \<in> set (w_hand w). iq_content q ix = Some m) \<and>
      (\<forall>r. List.map Some (w_sent w r) = List.map Some (w_got w r) @ List.map (iq_content q) (due w r)) \<and>
      (\<forall>r. length (cm_notifications (w_comm w)) \<le> r \<longrightarrow> w_fetch w r = None) \<and>
      (\<forall>r. \<forall>n \<in> set (queue_of (w_comm w) r). nt_type n = JOB_ADD))"

lemma sum_change:
  fixes f g :: "nat \<Rightarrow> 'a multiset"
  assumes "r < n" "\<And>i. i \<noteq> r \<Longrightarrow> g i = f i"
  shows "(\<Sum>i < n. g i) + f r = (\<Sum>i < n. f i) + g r"
proof -
  have "(\<Sum>i < n. h i) = h r + (\<Sum>i \<in> {..<n} - {r}. h i)" for h :: "nat \<Rightarrow> 'a multiset"
    using assms(1) by (simp add: sum.remove)
  moreover have "(\<Sum>i \<in> {..<n} - {r}. g i) = (\<Sum>i \<in> {..<n} - {r}. f i)" using assms(2) by (intro sum.cong) auto
  ultimately show ?thesis by simp
qed

lemma due_in_indices: "r < length (cm_notifications (w_comm w)) \<Longrightarrow> mset (due w r) \<subseteq># world_indices w"
  by (simp add: world_indices_def sum.remove)

lemma due_outside: "length (cm_notifications (w_comm w)) \<le> r \<Longrightarrow> w_fetch w r = None \<Longrightarrow> due w r = []"
  by (simp add: due_def queue_of_def)

lemma world_okD:
  assumes "world_ok w"
  shows "iq_inv (cm_jobMessages (w_comm w))" "world_indices w = iq.circulation (cm_jobMessages (w_comm w))"
    "\<And>r ix m. (r, ix, m) \<in> set (w_hand w) \<Longrightarrow> iq_content (cm_jobMessages (w_comm w)) ix = Some m"
    "\<And>r. List.map Some (w_sent w r) = List.map Some (w_got w r) @ List.map (iq_content (cm_jobMessages (w_comm w))) (due w r)"
    "\<And>r. length (cm_notifications (w_comm w)) \<le> r \<Longrightarrow> w_fetch w r = None"
    "\<And>r n. n \<in> set (queue_of (w_comm w) r) \<Longrightarrow> nt_type n = JOB_ADD"
  using assms unfolding world_ok_def Let_def by fastforce+

lemma due_circulates:
  assumes "world_ok w" "i \<in> set (due w r)"
  shows "i \<in># iq.circulation (cm_jobMessages (w_comm w))"
proof -
  have "r < length (cm_notifications (w_comm w))"
    using assms due_outside [of w r] world_okD(5) [OF assms(1), of r] by (cases "r < length (cm_notifications (w_comm w))") auto
  from due_in_indices [OF this] assms(2) show ?thesis
    unfolding world_okD(2) [OF assms(1), symmetric] by (auto dest: mset_subset_eqD)
qed

lemma hand_circulates:
  assumes "world_ok w" "(r, i, m) \<in> set (w_hand w)"
  shows "i \<in># iq.circulation (cm_jobMessages (w_comm w))"
  unfolding world_okD(2) [OF assms(1), symmetric] world_indices_def using assms(2) by (force simp: image_iff)

lemma notification_queue_Inr:
  assumes "notification_queue c r = Inr ns"
  shows "r < length (cm_notifications c)" "cm_notifications c ! r = Some ns" "queue_of c r = ns"
  using assms by (auto simp: notification_queue_def queue_of_def split: option.splits)

lemma world_store:
  assumes ok: "world_ok w" and room: "iq_room (cm_jobMessages (w_comm w))" and p: "push_job (w_comm w) m = Inr (ix, c)"
  shows "world_ok (w\<lparr>w_comm := c, w_hand := w_hand w @ [(r, ix, m)]\<rparr>)"
proof -
  let ?q = "cm_jobMessages (w_comm w)" let ?w' = "w\<lparr>w_comm := c, w_hand := w_hand w @ [(r, ix, m)]\<rparr>"
  from p obtain q' where q': "iq_push m ?q = Inr (ix, q')" "c = (w_comm w)\<lparr>cm_jobMessages := q'\<rparr>"
    by (auto simp: push_job_def)
  have cq: "cm_jobMessages c = q'" "cm_notifications c = cm_notifications (w_comm w)" by (simp_all add: q'(2))
  have qs: "queue_of c r' = queue_of (w_comm w) r'" for r' by (simp add: queue_of_def cq)
  from iq.circulation_push [OF world_okD(1) [OF ok] room, of m] q'(1)
  have c: "iq_inv q'" "iq.circulation q' = add_mset ix (iq.circulation ?q)" "ix \<notin># iq.circulation ?q"
    "iq_content q' = (iq_content ?q)(ix \<mapsto> m)" by auto
  have due: "due ?w' r' = due w r'" for r' by (simp add: due_def qs)
  have same: "List.map (iq_content q') (due w r') = List.map (iq_content ?q) (due w r')" for r'
    using due_circulates [OF ok] c(3) by (auto simp: c(4))
  have "world_indices ?w' = iq.circulation q'"
    using world_okD(2) [OF ok] by (simp add: world_indices_def due c(2) cq)
  moreover have "iq_content q' i = Some m'" if "(r', i, m') \<in> set (w_hand ?w')" for r' i m'
    using that world_okD(3) [OF ok, of r' i m'] hand_circulates [OF ok, of r' i m'] c(3) by (auto simp: c(4))
  ultimately show ?thesis
    using c(1) same world_okD(4-6) [OF ok] unfolding world_ok_def Let_def due by (auto simp: cq qs)
qed

lemma world_announce:
  assumes ok: "world_ok w" and h: "w_hand w = h1 @ (r, ix, m) # h2"
    and p: "push_notification (w_comm w) (notification_new JOB_ADD g ix) r = Inr c"
  shows "world_ok (w\<lparr>w_comm := c, w_hand := h1 @ h2, w_sent := (w_sent w)(r := w_sent w r @ [m])\<rparr>)"
proof -
  let ?q = "cm_jobMessages (w_comm w)"
  let ?w' = "w\<lparr>w_comm := c, w_hand := h1 @ h2, w_sent := (w_sent w)(r := w_sent w r @ [m])\<rparr>"
  from p obtain ns where ns: "notification_queue (w_comm w) r = Inr ns"
      "c = (w_comm w)\<lparr>cm_notifications := (cm_notifications (w_comm w))[r := Some (ns @ [notification_new JOB_ADD g ix])]\<rparr>"
    by (auto simp: push_notification_def)
  have cq: "cm_jobMessages c = ?q" "length (cm_notifications c) = length (cm_notifications (w_comm w))" by (simp_all add: ns(2))
  note r = notification_queue_Inr [OF ns(1)]
  have qs: "queue_of c r' = (if r' = r then ns @ [notification_new JOB_ADD g ix] else queue_of (w_comm w) r')" for r'
    using r(1) by (auto simp: queue_of_def ns(2))
  have due: "due ?w' r' = (if r' = r then due w r @ [ix] else due w r')" for r'
    using r(3) by (auto simp: due_def qs notification_new_def)
  have "world_indices ?w' = world_indices w"
    using sum_change [OF r(1), of "\<lambda>r'. mset (due ?w' r')" "\<lambda>r'. mset (due w r')"]
    by (simp add: due) (simp add: world_indices_def due cq h)
  then have "world_indices ?w' = iq.circulation ?q" using world_okD(2) [OF ok] by simp
  moreover have "iq_content ?q ix = Some m" using world_okD(3) [OF ok, of r ix m] h by simp
  moreover have "nt_type k = JOB_ADD" if "k \<in> set (queue_of c r')" for r' k
    using that world_okD(6) [OF ok, of k r'] r(3) by (auto simp: qs notification_new_def split: if_splits)
  moreover have "\<forall>(r', i, m') \<in> set (h1 @ h2). iq_content ?q i = Some m'"
    using world_okD(3) [OF ok] h by fastforce
  ultimately show ?thesis
    using world_okD(1,4,5) [OF ok] unfolding world_ok_def Let_def due by (simp add: h cq)
qed

lemma world_hear:
  assumes ok: "world_ok w" and f: "w_fetch w r = None" and p: "pop_notification (w_comm w) r = Inr (Some (n, c))"
  shows "world_ok (w\<lparr>w_comm := c, w_fetch := (w_fetch w)(r := Some (nt_ix n))\<rparr>)"
proof -
  let ?q = "cm_jobMessages (w_comm w)" let ?w' = "w\<lparr>w_comm := c, w_fetch := (w_fetch w)(r := Some (nt_ix n))\<rparr>"
  from p obtain ns where ns: "notification_queue (w_comm w) r = Inr (n # ns)"
      "c = (w_comm w)\<lparr>cm_notifications := (cm_notifications (w_comm w))[r := Some ns]\<rparr>"
    by (auto simp: pop_notification_def elim!: queue_take.elims)
  have cq: "cm_jobMessages c = ?q" "length (cm_notifications c) = length (cm_notifications (w_comm w))" by (simp_all add: ns(2))
  note r = notification_queue_Inr [OF ns(1)]
  have qs: "queue_of c r' = (if r' = r then ns else queue_of (w_comm w) r')" for r'
    using r(1) by (auto simp: queue_of_def ns(2))
  have due: "due ?w' r' = due w r'" for r' using r(3) f by (auto simp: due_def qs)
  have "world_indices ?w' = iq.circulation ?q"
    using world_okD(2) [OF ok] by (simp add: world_indices_def due cq)
  moreover have "nt_type k = JOB_ADD" if "k \<in> set (queue_of c r')" for r' k
    using that world_okD(6) [OF ok, of k r'] r(3) by (auto simp: qs split: if_splits)
  ultimately show ?thesis
    using world_okD(1,3-5) [OF ok] r(1) unfolding world_ok_def Let_def due by (auto simp: cq)
qed

lemma world_fetch:
  assumes ok: "world_ok w" and f: "w_fetch w r = Some ix"
  shows "\<exists>m c. pop_job (w_comm w) ix = Inr (m, c) \<and>
    world_ok (w\<lparr>w_comm := c, w_fetch := (w_fetch w)(r := None), w_got := (w_got w)(r := w_got w r @ [m])\<rparr>)"
proof -
  let ?q = "cm_jobMessages (w_comm w)"
  have dr: "due w r = ix # List.map nt_ix (queue_of (w_comm w) r)" by (simp add: due_def f)
  have lt: "r < length (cm_notifications (w_comm w))" using world_okD(5) [OF ok, of r] f by (cases "r < length (cm_notifications (w_comm w))") auto
  have "ix \<in># iq.circulation ?q" using due_circulates [OF ok, of ix r] dr by simp
  from iq.circulation_pop [OF world_okD(1) [OF ok] this] obtain m q' where
    q': "iq_content ?q ix = Some m" "iq_pop ix ?q = Inr (m, q')" "iq_inv q'" "iq.circulation ?q = add_mset ix (iq.circulation q')"
      "ix \<notin># iq.circulation q'" "iq_content q' = (iq_content ?q)(ix := None)" by blast
  let ?c = "(w_comm w)\<lparr>cm_jobMessages := q'\<rparr>"
  let ?w' = "w\<lparr>w_comm := ?c, w_fetch := (w_fetch w)(r := None), w_got := (w_got w)(r := w_got w r @ [m])\<rparr>"
  have qs: "queue_of ?c r' = queue_of (w_comm w) r'" for r' by (simp add: queue_of_def)
  have due: "due ?w' r' = (if r' = r then List.map nt_ix (queue_of (w_comm w) r) else due w r')" for r'
    by (simp add: due_def qs)
  have "add_mset ix (world_indices ?w') = world_indices w"
    using sum_change [OF lt, of "\<lambda>r'. mset (due ?w' r')" "\<lambda>r'. mset (due w r')"]
    by (simp add: due) (simp add: world_indices_def due dr)
  then have circ: "world_indices ?w' = iq.circulation q'" using world_okD(2) [OF ok] q'(4) by simp
  have fresh: "ix \<notin> set (due ?w' r')" for r'
  proof
    assume a: "ix \<in> set (due ?w' r')"
    have "r' < length (cm_notifications (w_comm ?w'))"
      using a due_outside [of ?w' r'] world_okD(5) [OF ok, of r'] by (cases "r' < length (cm_notifications (w_comm ?w'))") auto
    from mset_subset_eqD [OF due_in_indices [OF this]] a have "ix \<in># world_indices ?w'" by simp
    with circ q'(5) show False by simp
  qed
  have same: "List.map (iq_content q') (due ?w' r') = List.map (iq_content ?q) (due ?w' r')" for r'
    using fresh [of r'] by (auto simp: q'(6))
  have hand: "i \<noteq> ix" if "(r', i, m') \<in> set (w_hand w)" for r' i m'
  proof
    assume "i = ix"
    with that have "ix \<in># world_indices ?w'" by (force simp: world_indices_def image_iff)
    with circ q'(5) show False by simp
  qed
  have split: "List.map Some (w_sent w r) = List.map Some (w_got w r) @ Some m # List.map (iq_content ?q) (due ?w' r)"
    using world_okD(4) [OF ok, of r] q'(1) by (simp add: dr due)
  have "List.map Some (w_sent ?w' r') = List.map Some (w_got ?w' r') @ List.map (iq_content q') (due ?w' r')" for r'
    using world_okD(4) [OF ok, of r'] split by (cases "r' = r") (simp_all only: same, simp_all add: due)
  then have "world_ok ?w'"
    using circ q'(3) world_okD(3,5,6) [OF ok] hand unfolding world_ok_def Let_def by (auto simp: qs q'(6))
  moreover have "pop_job (w_comm w) ix = Inr (m, ?c)" using q'(2) by (simp add: pop_job_def)
  ultimately show ?thesis by blast
qed

lemma world_ok_step: "world_step g w w' \<Longrightarrow> world_ok w \<Longrightarrow> world_ok w'"
proof (induction rule: world_step.induct)
  case (fetch w r ix m c)
  from world_fetch [OF fetch(3,1)] fetch(2) show ?case by auto
qed (auto intro: world_store world_announce world_hear)

lemma world_ok_init:
  assumes "comm_new n k = Inr c"
  shows "world_ok (world_init c)"
proof -
  have c: "cm_jobMessages c = iq_empty" "\<And>r. queue_of c r = []"
    using assms by (auto simp: comm_new_def queue_of_def nth_append split: if_splits)
  then have "due (world_init c) r = []" for r by (simp add: due_def world_init_def)
  then show ?thesis
    using iq_empty_ok c by (simp add: world_ok_def Let_def world_indices_def world_init_def)
qed

lemma world_ok_reach:
  assumes "comm_new n k = Inr c" "(world_step g)\<^sup>*\<^sup>* (world_init c) w"
  shows "world_ok w"
  using assms(2) world_ok_init [OF assms(1)] by (induction rule: rtranclp_induct) (auto intro: world_ok_step)

end
