(* ===== verification/ThreadsProps.thy ===== *)
theory ThreadsProps
  imports Barrier Communicator
begin

text \<open>The properties of the thread-safe containers, of the barrier and of the communicator.\<close>

lemma two_steps: "R a b \<Longrightarrow> R b c \<Longrightarrow> R\<^sup>*\<^sup>* a c"
  by (rule rtranclp.rtrancl_into_rtrancl [OF r_into_rtranclp])

lemma three_steps: "R a b \<Longrightarrow> R b c \<Longrightarrow> R c d \<Longrightarrow> R\<^sup>*\<^sup>* a d"
  by (rule rtranclp.rtrancl_into_rtrancl [OF two_steps])

lemma queue_init_ok: "fifo_ok (queue_init n)" "test_holds c (queue_init n)"
  by (auto simp: fifo_ok_def test_holds_def queue_init_def)

text \<open>
  C30. \<open>Queue\<close> never loses a wakeup and serves in order: in every reachable state with an item and a thread blocked in \<open>pop\<close>,
  whatever the interleaving of pushes, pops, clears and spurious wakeups was, a thread that waits takes the oldest item, at
  once or after a signal that is already due. No further call by any thread is needed.
\<close>

theorem queue_waiting_is_served:
  assumes "queue_next\<^sup>*\<^sup>* (queue_init n) s" "\<not> q_fault s" "q_items s = x # xs" "Blocked \<in> set (q_pc s)"
  shows "\<exists>s'. ((\<exists>u. q_pc s ! u = Woken \<and> queue_step s (u, Qpop) s') \<or>
       (\<exists>t u s1. q_pc s ! t = Notifying \<and> q_pc s ! u = Blocked \<and> queue_step s (t, Qnotify) s1 \<and> queue_step s1 (u, Qpop) s')) \<and>
     q_out s' = q_out s @ [x] \<and> q_items s' = xs"
proof -
  obtain u where u: "u < length (q_pc s)" "q_pc s ! u = Blocked" using assms(4) by (auto simp: in_set_conv_nth)
  then have "0 < mo_blocked (queue_view s)" by (auto simp: queue_view_def count_list_pos)
  then consider (woken) "0 < count_list (q_pc s) Woken" | (due) "0 < count_list (q_pc s) Notifying"
    using queue.waiting_is_served [of "queue_init n" s, OF exI [of _ n] assms(1)] assms(3) by (auto simp: queue_view_def)
  then show ?thesis
  proof cases
    case woken
    then obtain v where "v < length (q_pc s)" "q_pc s ! v = Woken" by (auto simp: count_list_pos)
    with queue_step.pop_take [of v s x xs] assms(2,3) show ?thesis by fastforce
  next
    case due
    then obtain t where t: "t < length (q_pc s)" "q_pc s ! t = Notifying" by (auto simp: count_list_pos)
    let ?s1 = "s\<lparr>q_pc := (q_pc s)[t := Idle, u := Woken]\<rparr>"
    have "queue_step s (t, Qnotify) ?s1" using t u assms(2) by (intro queue_step.notify_one)
    moreover have "queue_step ?s1 (u, Qpop) (?s1\<lparr>q_items := xs, q_out := q_out ?s1 @ [x], q_pc := (q_pc ?s1)[u := Idle]\<rparr>)"
      using u assms(2,3) by (intro queue_step.pop_take) auto
    ultimately show ?thesis using t u by fastforce
  qed
qed

text \<open>The witness: thread 0 blocks in \<open>pop\<close>, thread 1 pushes and has not yet notified.\<close>

lemma queue_demo:
  "\<exists>s. queue_next\<^sup>*\<^sup>* (queue_init 2) s \<and> \<not> q_fault s \<and> q_items s = [5 :: nat] \<and> Blocked \<in> set (q_pc s)"
proof -
  let ?s1 = "(queue_init 2 :: nat queue)\<lparr>q_pc := [Blocked, Idle]\<rparr>"
  let ?s2 = "?s1\<lparr>q_items := [5], q_sent := [5], q_pc := [Blocked, Notifying]\<rparr>"
  have i: "q_pc (queue_init 2 :: nat queue) = [Idle, Idle]" "q_items (queue_init 2 :: nat queue) = []" "\<not> q_fault (queue_init 2 :: nat queue)"
    "q_sent (queue_init 2 :: nat queue) = []" by (simp_all add: queue_init_def numeral_2_eq_2)
  have "queue_next (queue_init 2) ?s1"
    using queue_step.pop_wait [of 0 "queue_init 2 :: nat queue"] i by (auto simp: queue_next_def)
  moreover have "queue_next ?s1 ?s2"
    using queue_step.push [of 1 ?s1 5] i by (auto simp: queue_next_def)
  ultimately have "queue_next\<^sup>*\<^sup>* (queue_init 2) ?s2" by (rule two_steps)
  with i show ?thesis by (intro exI [of _ ?s2]) simp
qed

lemma queue_waiting_is_served_witness:
  "\<exists>(s :: nat queue) (s' :: nat queue). queue_next\<^sup>*\<^sup>* (queue_init 2) s \<and> q_items s = [5] \<and> Blocked \<in> set (q_pc s) \<and> q_out s' = q_out s @ [5]"
proof -
  from queue_demo obtain s :: "nat queue" where
    s: "queue_next\<^sup>*\<^sup>* (queue_init 2) s" "\<not> q_fault s" "q_items s = [5]" "Blocked \<in> set (q_pc s)" by blast
  from queue_waiting_is_served [OF this] obtain s' :: "nat queue" where "q_out s' = q_out s @ [5]" by blast
  with s show ?thesis by blast
qed

text \<open>
  C31. A \<open>Queue\<close> with any number of producers and one consumer is safe: \<open>front()\<close> is never called on an empty queue, although
  \<open>try_pop\<close> tests it without the lock, and what has been taken out followed by what is inside is exactly what was pushed, in
  order. This is how the communicator uses its queues: each has one reader.
\<close>

theorem queue_single_consumer_safe:
  assumes "queue_run (\<lambda>t. t = c) (queue_init n) s"
  shows "\<not> q_fault s \<and> q_out s @ q_items s = q_sent s"
  using test_run [OF assms queue_init_ok(2)] fifo_run [OF assms queue_init_ok(1)] by (simp add: test_holds_def fifo_ok_def)

lemma queue_single_consumer_safe_witness:
  "\<exists>s :: nat queue. queue_run (\<lambda>t. t = 0) (queue_init 2) s \<and> q_pc s ! 0 = Checked \<and> \<not> q_fault s \<and> q_out s @ q_items s = [5]"
proof -
  let ?s1 = "(queue_init 2 :: nat queue)\<lparr>q_items := [5], q_sent := [5], q_pc := [Idle, Notifying]\<rparr>"
  let ?s2 = "?s1\<lparr>q_pc := [Checked, Notifying]\<rparr>"
  have i: "q_pc (queue_init 2 :: nat queue) = [Idle, Idle]" "q_items (queue_init 2 :: nat queue) = []" "\<not> q_fault (queue_init 2 :: nat queue)"
    "q_sent (queue_init 2 :: nat queue) = []" by (simp_all add: queue_init_def numeral_2_eq_2)
  have "queue_step (queue_init 2) (1, Qpush) ?s1" using queue_step.push [of 1 "queue_init 2 :: nat queue" 5] i by simp
  then have "queue_run (\<lambda>t. t = 0) (queue_init 2) ?s1" by (rule run_step [OF run_start]) (simp add: consumes_def)
  moreover have "queue_step ?s1 (0, Qtry) ?s2" using queue_step.try_check [of 0 ?s1] i by simp
  ultimately have r: "queue_run (\<lambda>t. t = 0) (queue_init 2) ?s2" by (rule run_step) simp
  from queue_single_consumer_safe [OF r] r i show ?thesis by auto
qed

text \<open>
  With two threads calling \<open>try_pop\<close> the unprotected test is a race: both can see the last item, and the second one then
  calls \<open>front()\<close> on an empty queue.
\<close>

theorem queue_try_pop_race:
  "\<exists>s. queue_run (\<lambda>t. t = 0 \<or> t = 1) (queue_init 3) s \<and> q_sent s = [5 :: nat] \<and> q_fault s"
proof -
  let ?i = "queue_init 3 :: nat queue"
  let ?s1 = "?i\<lparr>q_items := [5], q_sent := [5], q_pc := [Idle, Idle, Notifying]\<rparr>"
  let ?s2 = "?s1\<lparr>q_pc := [Checked, Idle, Notifying]\<rparr>"
  let ?s3 = "?s1\<lparr>q_pc := [Checked, Checked, Notifying]\<rparr>"
  let ?s4 = "?s3\<lparr>q_items := [], q_out := [5], q_pc := [Idle, Checked, Notifying]\<rparr>"
  have i: "q_pc ?i = [Idle, Idle, Idle]" "q_items ?i = []" "\<not> q_fault ?i" "q_sent ?i = []" "q_out ?i = []"
    by (simp_all add: queue_init_def numeral_3_eq_3)
  have "queue_step ?i (2, Qpush) ?s1" using queue_step.push [of 2 ?i 5] i by simp
  then have "queue_run (\<lambda>t. t = 0 \<or> t = 1) ?i ?s1" by (rule run_step [OF run_start]) (simp add: consumes_def)
  moreover have "queue_step ?s1 (0, Qtry) ?s2" using queue_step.try_check [of 0 ?s1] i by simp
  ultimately have "queue_run (\<lambda>t. t = 0 \<or> t = 1) ?i ?s2" by (rule run_step) simp
  moreover have "queue_step ?s2 (1, Qtry) ?s3" using queue_step.try_check [of 1 ?s2] i by simp
  ultimately have "queue_run (\<lambda>t. t = 0 \<or> t = 1) ?i ?s3" by (rule run_step) simp
  moreover have "queue_step ?s3 (0, Qtry) ?s4" using queue_step.try_take [of 0 ?s3 5 "[]"] i by simp
  ultimately have "queue_run (\<lambda>t. t = 0 \<or> t = 1) ?i ?s4" by (rule run_step) simp
  moreover have "queue_step ?s4 (1, Qtry) (?s4\<lparr>q_fault := True\<rparr>)" using queue_step.try_fault [of 1 ?s4] i by simp
  ultimately have "queue_run (\<lambda>t. t = 0 \<or> t = 1) ?i (?s4\<lparr>q_fault := True\<rparr>)" by (rule run_step) simp
  then show ?thesis by (rule exI [of _ "?s4\<lparr>q_fault := True\<rparr>", OF conjI]) simp
qed

text \<open>
  The semaphore built on a mutex and a condition variable counts permits exactly and loses no signal: the permits left
  and taken are the initial ones and those notified, and when a thread sleeps every permit at hand already has an awakened
  thread to take it.
\<close>

theorem semaphore_correct:
  assumes "sema_step\<^sup>*\<^sup>* (sema_init n c) s"
  shows "se_count s + se_acquired s = c + se_notified s \<and>
    (Blocked \<in> set (se_pc s) \<longrightarrow> se_count s \<le> count_list (se_pc s) Woken)"
proof
  show "se_count s + se_acquired s = c + se_notified s" by (rule sema_permits [OF assms])
  show "Blocked \<in> set (se_pc s) \<longrightarrow> se_count s \<le> count_list (se_pc s) Woken"
    using sema.no_lost_wakeup [of "sema_init n c" s] assms
    by (auto simp: no_lost_signal_def sema_view_def count_list_pos in_set_conv_nth)
qed

lemma semaphore_correct_witness:
  "\<exists>s. sema_step\<^sup>*\<^sup>* (sema_init 3 0) s \<and> se_pc s = [Woken, Blocked, Idle] \<and> se_count s = 1 \<and> se_acquired s = 0"
proof -
  let ?i = "sema_init 3 0"
  let ?s1 = "?i\<lparr>se_pc := [Blocked, Idle, Idle]\<rparr>" let ?s2 = "?i\<lparr>se_pc := [Blocked, Blocked, Idle]\<rparr>"
  let ?s3 = "?s2\<lparr>se_count := 1, se_notified := 1, se_pc := [Woken, Blocked, Idle]\<rparr>"
  have i: "se_pc ?i = [Idle, Idle, Idle]" "se_count ?i = 0" "se_notified ?i = 0" by (simp_all add: sema_init_def numeral_3_eq_3)
  have "sema_step ?i ?s1" using sema_step.sem_wait [of 0 ?i] i by simp
  moreover have "sema_step ?s1 ?s2" using sema_step.sem_wait [of 1 ?s1] i by simp
  moreover have "sema_step ?s2 ?s3" using sema_step.sem_notify_one [of 2 ?s2 0] i by simp
  ultimately have r: "sema_step\<^sup>*\<^sup>* ?i ?s3" by (rule three_steps)
  have "se_count ?s3 + se_acquired ?s3 = 0 + se_notified ?s3" using semaphore_correct [OF r] by blast
  then have "se_acquired ?s3 = 0" by simp
  with r show ?thesis by (intro exI [of _ ?s3]) simp
qed

text \<open>
  C20. The barrier synchronises: with as many threads as its count, in every reachable state, through any number of rounds and
  spurious wakeups, a thread has never passed more rounds than every other thread has arrived at.
\<close>

theorem barrier_synchronises:
  assumes "barrier_reach n s" "0 < n" "n < 2 ^ 64" "t < n" "u < n"
  shows "ba_passed s ! t \<le> ba_arrived s ! u"
  by (rule barrier_ok_safe [OF barrier_reach_ok [OF assms(1-3)] assms(4,5)])

text \<open>The witness: of two threads, one has passed the first round while the other one, awake, has not left it yet.\<close>

lemma barrier_demo:
  "\<exists>s. barrier_reach 2 s \<and> ba_passed s = [1, 0] \<and> ba_arrived s = [1, 1] \<and> ba_pc s = [Outside, Awake 0] \<and> ba_done s = 1"
proof -
  let ?i = "barrier_init 2 2"
  have i: "ba_pc ?i = [Outside, Outside]" "ba_count ?i = 2" "ba_done ?i = 0" "ba_reset ?i = 2" "ba_rounds ?i = 0"
    "ba_arrived ?i = [0, 0]" "ba_passed ?i = [0, 0]" by (simp_all add: barrier_init_def numeral_2_eq_2)
  have s: "sub64 2 1 = 1" "sub64 1 1 = 0" "add64 0 1 = 1" by (simp_all add: sub64_def add64_def)
  let ?s1 = "?i\<lparr>ba_count := 1, ba_pc := [Outside, Asleep 0], ba_arrived := [0, 1]\<rparr>"
  let ?s2 = "?s1\<lparr>ba_done := 1, ba_count := 2, ba_pc := [Outside, Awake 0], ba_rounds := 1, ba_arrived := [1, 1], ba_passed := [1, 0]\<rparr>"
  have "barrier_step ?i 1 ?s1" using barrier_step.arrive_wait [of 1 ?i] by (simp add: i s del: One_nat_def) (simp add: i)
  moreover have "barrier_step ?s1 0 ?s2" using barrier_step.arrive_last [of 0 ?s1] by (simp add: i s del: One_nat_def) (simp add: i)
  ultimately have "barrier_reach 2 ?s2" by (meson barrier_reach.intros)
  then show ?thesis by (rule exI [of _ ?s2, OF conjI]) simp
qed

lemma barrier_synchronises_witness:
  "\<exists>s. barrier_reach 2 s \<and> ba_passed s ! 0 = 1 \<and> ba_passed s ! 1 = 0 \<and> ba_passed s ! 0 \<le> ba_arrived s ! 1"
proof -
  from barrier_demo obtain s where s: "barrier_reach 2 s" "ba_passed s = [1, 0]" by blast
  have "ba_passed s ! 0 \<le> ba_arrived s ! 1" by (rule barrier_synchronises [OF s(1)]) simp_all
  with s show ?thesis by auto
qed

text \<open>
  The barrier opens: in every reachable state where all the threads have called \<open>wait\<close>, one of them is awake with its
  predicate true, so it leaves; no state of the barrier is a deadlock.
\<close>

theorem barrier_opens:
  assumes "barrier_reach n s" "0 < n" "n < 2 ^ 64" "\<forall>t < n. ba_pc s ! t \<noteq> Outside"
  shows "\<exists>t < n. \<exists>s'. barrier_step s t s' \<and> ba_pc s' ! t = Outside \<and> ba_passed s' ! t = Suc (ba_passed s ! t)"
proof -
  note ok = barrier_reach_ok [OF assms(1-3)]
  obtain t g where t: "t < n" "ba_pc s ! t = Awake g" "g \<noteq> ba_done s" using barrier_ok_progress [OF ok assms(2,4)] by blast
  have l: "length (ba_pc s) = n" "length (ba_passed s) = n" using ok by (simp_all add: barrier_ok_def)
  then have "barrier_step s t (s\<lparr>ba_pc := (ba_pc s)[t := Outside], ba_passed := (ba_passed s)[t := Suc (ba_passed s ! t)]\<rparr>)"
    using t by (intro barrier_step.leave) auto
  with t(1) l show ?thesis by fastforce
qed

text \<open>The witness: the thread that passed first calls \<open>wait\<close> again before the other one has left.\<close>

lemma barrier_opens_witness:
  "\<exists>s. barrier_reach 2 s \<and> ba_pc s = [Asleep 1, Awake 0] \<and> (\<exists>t < 2. \<exists>s'. barrier_step s t s' \<and> ba_pc s' ! t = Outside)"
proof -
  from barrier_demo obtain s where s: "barrier_reach 2 s" "ba_pc s = [Outside, Awake 0]" "ba_done s = 1" "ba_arrived s = [1, 1]" "ba_passed s = [1, 0]"
    by blast
  have "ba_count s = 2"
  proof -
    have "barrier_ok 2 s" by (rule barrier_reach_ok [OF s(1)]) simp_all
    moreover from this have "thread_ok s 0" by (simp add: barrier_ok_def)
    with s have "ba_rounds s = 1" by (simp add: thread_ok_def Let_def)
    ultimately show ?thesis using s by (simp add: barrier_ok_def waiting_count_def)
  qed
  then have c: "sub64 (ba_count s) 1 = 1" by (simp add: sub64_def)
  let ?s' = "s\<lparr>ba_count := sub64 (ba_count s) 1, ba_pc := (ba_pc s)[0 := Asleep (ba_done s)],
      ba_arrived := (ba_arrived s)[0 := Suc (ba_arrived s ! 0)]\<rparr>"
  have "barrier_step s 0 ?s'" using s c by (intro barrier_step.arrive_wait) auto
  with s(1) have r: "barrier_reach 2 ?s'" by (rule reach_step)
  have "\<forall>t < 2. ba_pc ?s' ! t \<noteq> Outside" using s by (simp add: less_2_cases_iff)
  from barrier_opens [OF r _ _ this] r s show ?thesis by (intro exI [of _ ?s']) auto
qed

text \<open>
  C19. The exchange of job messages through the communicator, end to end: senders store a message and announce its index,
  receivers hear the announcement and fetch the message, in any interleaving, the slots being reused all along. In every
  reachable state the messages a receiver has fetched are a prefix of those announced to it; when nothing is due they are all
  of them, in order; and an index a receiver holds always yields the message it stands for.
\<close>

theorem job_messages_delivered:
  assumes "comm_new n k = Inr c" "(world_step g)\<^sup>*\<^sup>* (world_init c) w"
  shows "(\<exists>rest. w_sent w r = w_got w r @ rest \<and> length rest = length (due w r)) \<and>
    (case w_fetch w r of None \<Rightarrow> due w r = [] \<longrightarrow> w_got w r = w_sent w r
     | Some ix \<Rightarrow> \<exists>m c'. pop_job (w_comm w) ix = Inr (m, c') \<and> (\<exists>rest. w_sent w r = w_got w r @ m # rest))"
proof -
  note ok = world_ok_reach [OF assms]
  have e: "List.map Some (w_sent w r) = List.map Some (w_got w r) @ List.map (iq_content (cm_jobMessages (w_comm w))) (due w r)"
    by (rule world_okD(4) [OF ok])
  then obtain rest where rest: "w_sent w r = w_got w r @ rest" "List.map Some rest = List.map (iq_content (cm_jobMessages (w_comm w))) (due w r)"
    by (auto simp: map_eq_append_conv)
  from rest(2) have l: "length rest = length (due w r)" by (metis length_map)
  show ?thesis
  proof (cases "w_fetch w r")
    case None
    with rest(1) l show ?thesis by auto
  next
    case (Some ix)
    obtain m c' where m: "pop_job (w_comm w) ix = Inr (m, c')"
        "world_ok (w\<lparr>w_comm := c', w_fetch := (w_fetch w)(r := None), w_got := (w_got w)(r := w_got w r @ [m])\<rparr>)"
      using world_fetch [OF ok Some] by blast
    from world_okD(4) [OF m(2), of r] have "\<exists>rest. w_sent w r = w_got w r @ m # rest"
      by (auto simp: map_eq_append_conv map_eq_Cons_conv)
    with Some rest(1) l m(1) show ?thesis by auto
  qed
qed

lemma job_messages_delivered_witness:
  "\<exists>c w :: nat world. comm_new 1 1 = Inr c \<and> (world_step 0)\<^sup>*\<^sup>* (world_init c) w \<and> w_sent w 0 = [7] \<and> w_got w 0 = [] \<and>
     (\<exists>rest. w_sent w 0 = w_got w 0 @ rest \<and> length rest = length (due w 0))"
proof -
  let ?c = "\<lparr>cm_notifications = [Some []], cm_params = [], cm_traces = [], cm_jobMessages = iq_empty, cm_paramMessages = iq_empty,
     cm_traceMessages = iq_empty\<rparr> :: (nat, unit, unit) comm"
  have c: "comm_new 1 1 = Inr ?c" by (simp add: comm_new_def)
  let ?c1 = "?c\<lparr>cm_jobMessages := \<lparr>iq_free = [], iq_slots = [7]\<rparr>\<rparr>"
  let ?c2 = "?c1\<lparr>cm_notifications := [Some [notification_new JOB_ADD 0 0]]\<rparr>"
  let ?w1 = "(world_init ?c)\<lparr>w_comm := ?c1, w_hand := [(0, 0, 7)]\<rparr>"
  let ?w2 = "?w1\<lparr>w_comm := ?c2, w_hand := [], w_sent := (\<lambda>_. [])(0 := [7])\<rparr>"
  have "push_job ?c 7 = Inr (0, ?c1)" by (simp add: push_job_def iq_push_def getFreeIndex_def iq_empty_def)
  then have "world_step 0 (world_init ?c) ?w1"
    using world_step.store [of "world_init ?c" 7 0 ?c1 0 0] by (simp add: world_init_def iq_room_def iq_empty_def)
  moreover have "push_notification ?c1 (notification_new JOB_ADD 0 0) 0 = Inr ?c2" by (simp add: push_notification_def notification_queue_def)
  then have "world_step 0 ?w1 ?w2"
    using world_step.announce [of ?w1 "[]" 0 0 7 "[]" 0 ?c2] by (simp add: world_init_def)
  ultimately have r: "(world_step 0)\<^sup>*\<^sup>* (world_init ?c) ?w2" by (rule two_steps)
  have "w_sent ?w2 0 = [7]" "w_got ?w2 0 = []" by (simp_all add: world_init_def)
  with c r job_messages_delivered [OF c r, of 0] show ?thesis by blast
qed

text \<open>An index popped twice is given out twice: the second message overwrites the first.\<close>

lemma double_pop_loses_message:
  assumes "iq_free q = []" "ix < length (iq_slots q)" "length (iq_slots q) \<le> size_max"
  shows "\<exists>q1 q2 q3 q4. iq_pop ix q = Inr (iq_slots q ! ix, q1) \<and> iq_pop ix q1 = Inr (iq_slots q ! ix, q2) \<and>
    iq_push a q2 = Inr (ix, q3) \<and> iq_push b q3 = Inr (ix, q4) \<and> iq_slots q4 ! ix = b"
  using assms by (auto simp: iq_pop_def iq_push_def getFreeIndex_def)

end
