(* ===== verification/KernelsProps.thy ===== *)
theory KernelsProps
  imports Kernels
begin

text \<open>The data the special kernels move: slices, concatenations and repetitions of the input bytes.\<close>

subsection \<open>Copies\<close>

lemma param_Cons [simp]: "param (p # ps) 0 = Inr p" "param (p # ps) (Suc i) = param ps i"
  by (simp_all add: param_def get_at_def)

lemma memcpyE_ok:
  "block dst n \<inter> block src n = {} \<Longrightarrow> memcpyE h dst src n = Inr (memcpy h dst src n)"
  by (cases "n = 0") (auto simp: memcpyE_def block_disjoint_iff)

lemma load_frame: "(\<And>x. x \<in> block a n \<Longrightarrow> h x = h' x) \<Longrightarrow> load h a n = load h' a n"
  by (rule load_cong) (simp add: block_def)

lemma memcpy_outside: "x \<notin> block dst n \<Longrightarrow> memcpy h dst src n x = h x"
  by (auto simp: memcpy_def block_def)

lemma load_memcpy_block: "block dst n \<inter> block src n = {} \<Longrightarrow> load (memcpy h dst src n) dst n = load h src n"
  by (auto simp: load_def memcpy_def block_def)

lemma foldE_upt_invariant:
  assumes "P 0 s" "\<And>k s. k < n \<Longrightarrow> P k s \<Longrightarrow> \<exists>s'. f s k = Inr s' \<and> P (Suc k) s'"
  shows "\<exists>s'. foldE f s [0..<n] = Inr s' \<and> P n s'"
proof -
  have "\<exists>s'. foldE f s [0..<k] = Inr s' \<and> P k s'" if "k \<le> n" for k
    using that
  proof (induction k)
    case 0
    with assms(1) show ?case by simp
  next
    case (Suc k)
    then obtain s1 where "foldE f s [0..<k] = Inr s1" "P k s1" by auto
    with assms(2) [of k s1] Suc.prems show ?case by (auto simp: foldE_append)
  qed
  then show ?thesis by blast
qed

text \<open>Sizes and offsets of a list of rates.\<close>

definition sizes_ok :: "int list \<Rightarrow> bool" where
  "sizes_ok rs \<longleftrightarrow> (\<forall>r \<in> set rs. 0 \<le> r \<and> in_i64 r)"

definition size_at :: "int list \<Rightarrow> nat \<Rightarrow> nat" where "size_at rs i = nat (rs ! i)"
definition offset_at :: "int list \<Rightarrow> nat \<Rightarrow> nat" where "offset_at rs i = sum_list (List.map nat (take i rs))"

lemma offset_0 [simp]: "offset_at rs 0 = 0" by (simp add: offset_at_def)

lemma offset_Suc: "i < length rs \<Longrightarrow> offset_at rs (Suc i) = offset_at rs i + size_at rs i"
  by (simp add: offset_at_def size_at_def take_Suc_conv_app_nth)

lemma offset_mono: "i \<le> j \<Longrightarrow> offset_at rs i \<le> offset_at rs j"
proof -
  assume "i \<le> j"
  then have "take j rs = take i rs @ take (j - i) (drop i rs)" by (metis add_diff_inverse_nat not_less take_add)
  then show ?thesis by (simp add: offset_at_def)
qed

lemma offset_le: "i < length rs \<Longrightarrow> offset_at rs i + size_at rs i \<le> offset_at rs (length rs)"
  using offset_mono [of "Suc i" "length rs" rs] by (simp add: offset_Suc)

lemma offset_all: "offset_at rs (length rs) = sum_list (List.map nat rs)"
  by (simp add: offset_at_def)

lemma to_u64_size: "sizes_ok rs \<Longrightarrow> i < length rs \<Longrightarrow> to_u64 (rs ! i) = size_at rs i"
  by (simp add: sizes_ok_def size_at_def to_u64_nonneg)

lemma slice_block: "i < length rs \<Longrightarrow> block (a + offset_at rs i) (size_at rs i) \<subseteq> block a (offset_at rs (length rs))"
  using offset_le [of i rs] by (auto simp: block_def)

subsection \<open>fork\<close>

text \<open>An output either is its slice of the input, in place, or lies apart from the input.\<close>

definition fork_buffers :: "int list \<Rightarrow> nat \<Rightarrow> nat list \<Rightarrow> bool" where
  "fork_buffers rs a outs \<longleftrightarrow> length outs = length rs \<and> a + offset_at rs (length rs) < 2 ^ 64 \<and>
     (\<forall>i < length rs. outs ! i = a + offset_at rs i \<or> block (outs ! i) (size_at rs i) \<inter> block a (offset_at rs (length rs)) = {}) \<and>
     (\<forall>i < length rs. \<forall>j < length rs. i \<noteq> j \<longrightarrow> block (outs ! i) (size_at rs i) \<inter> block (outs ! j) (size_at rs j) = {})"

definition fork_state :: "int list \<Rightarrow> nat \<Rightarrow> nat list \<Rightarrow> heap \<Rightarrow> nat \<Rightarrow> heap \<times> nat \<Rightarrow> bool" where
  "fork_state rs a outs h k st \<longleftrightarrow> snd st = offset_at rs k \<and>
     (\<forall>i < k. load (fst st) (outs ! i) (size_at rs i) = load h (a + offset_at rs i) (size_at rs i)) \<and>
     (\<forall>x. x \<in> block a (offset_at rs (length rs)) \<or> (\<forall>i < length rs. x \<notin> block (outs ! i) (size_at rs i)) \<longrightarrow> fst st x = h x)"

lemma fork_stateI:
  assumes "load h1 (outs ! k) (size_at rs k) = load h (a + offset_at rs k) (size_at rs k)"
    and "\<And>i. i < k \<Longrightarrow> load h1 (outs ! i) (size_at rs i) = load h (a + offset_at rs i) (size_at rs i)"
    and "\<And>x. x \<in> block a (offset_at rs (length rs)) \<or> (\<forall>i < length rs. x \<notin> block (outs ! i) (size_at rs i)) \<Longrightarrow> h1 x = h x"
  shows "fork_state rs a outs h (Suc k) (h1, offset_at rs (Suc k))"
  unfolding fork_state_def fst_conv snd_conv less_Suc_eq using assms by blast

lemma fork_step_ok:
  assumes b: "fork_buffers rs a outs" "sizes_ok rs" and k: "k < length rs" and st: "fork_state rs a outs h k (h1, off)"
  shows "\<exists>st'. fork_step (r # n # rs) [a] outs (h1, off) k = Inr st' \<and> fork_state rs a outs h (Suc k) st'"
proof -
  let ?n = "size_at rs k" let ?src = "a + offset_at rs k" let ?dst = "outs ! k"
  have off: "off = offset_at rs k" and copied: "\<And>i. i < k \<Longrightarrow> load h1 (outs ! i) (size_at rs i) = load h (a + offset_at rs i) (size_at rs i)"
    and same: "\<And>x. x \<in> block a (offset_at rs (length rs)) \<Longrightarrow> h1 x = h x"
      "\<And>x. \<forall>i < length rs. x \<notin> block (outs ! i) (size_at rs i) \<Longrightarrow> h1 x = h x"
    using st by (auto simp: fork_state_def)
  have sum: "add64 off ?n = offset_at rs (Suc k)" "add64 a off = ?src"
    using b(1) offset_le [OF k] k off by (auto simp: fork_buffers_def offset_Suc intro!: add64_exact)
  have l: "k < length outs" and pp: "param (r # n # rs) (k + 2) = Inr (rs ! k)" using b(1) k by (auto simp: fork_buffers_def param_def)
  have src: "load h1 ?src ?n = load h ?src ?n" using slice_block [OF k, of a] same(1) by (intro load_frame) blast
  show ?thesis
  proof (cases "?n = 0 \<or> ?src = ?dst")
    case True
    then have "fork_step (r # n # rs) [a] outs (h1, off) k = Inr (h1, offset_at rs (Suc k))"
      using l pp sum to_u64_size [OF b(2) k] by (auto simp: fork_step_def Let_def)
    moreover have "load h1 ?dst ?n = load h ?src ?n" using True src by (auto simp: load_def)
    with copied same have "fork_state rs a outs h (Suc k) (h1, offset_at rs (Suc k))" by (intro fork_stateI) blast+
    ultimately show ?thesis by blast
  next
    case False
    then have d: "block ?dst ?n \<inter> block a (offset_at rs (length rs)) = {}" using b(1) k by (auto simp: fork_buffers_def)
    have ds: "block ?dst ?n \<inter> block ?src ?n = {}" using d slice_block [OF k, of a] by blast
    let ?h2 = "memcpy h1 ?dst ?src ?n"
    have run: "fork_step (r # n # rs) [a] outs (h1, off) k = Inr (?h2, offset_at rs (Suc k))"
      using l pp sum to_u64_size [OF b(2) k] False memcpyE_ok [OF ds, of h1] by (auto simp: fork_step_def Let_def)
    have "load ?h2 ?dst ?n = load h ?src ?n" using load_memcpy_block [OF ds, of h1] src by simp
    moreover have "load ?h2 (outs ! i) (size_at rs i) = load h (a + offset_at rs i) (size_at rs i)" if "i < k" for i
    proof -
      have "block (outs ! i) (size_at rs i) \<inter> block ?dst ?n = {}" using b(1) k that by (auto simp: fork_buffers_def)
      then have "load ?h2 (outs ! i) (size_at rs i) = load h1 (outs ! i) (size_at rs i)"
        by (intro load_frame memcpy_outside) blast
      with copied [OF that] show ?thesis by simp
    qed
    moreover have "?h2 x = h x" if "x \<in> block a (offset_at rs (length rs)) \<or> (\<forall>i < length rs. x \<notin> block (outs ! i) (size_at rs i))" for x
    proof -
      have "x \<notin> block ?dst ?n" using that d k by blast
      then have "?h2 x = h1 x" by (rule memcpy_outside)
      also have "h1 x = h x" using that same(1) [of x] same(2) [of x] by blast
      finally show ?thesis .
    qed
    ultimately have "fork_state rs a outs h (Suc k) (?h2, offset_at rs (Suc k))" by (rule fork_stateI)
    with run show ?thesis by blast
  qed
qed

lemma rt_fork_ok:
  assumes b: "fork_buffers rs a outs" "sizes_ok rs" "in_i64 r" "0 \<le> r"
  shows "if nat r = sum_list (List.map nat rs)
    then \<exists>h'. rt_fork (r # int (length rs) # rs) [a] outs h = Inr h' \<and>
      (\<forall>i < length rs. load h' (outs ! i) (size_at rs i) = load h (a + offset_at rs i) (size_at rs i)) \<and>
      (\<forall>x. x \<in> block a (nat r) \<or> (\<forall>i < length rs. x \<notin> block (outs ! i) (size_at rs i)) \<longrightarrow> h' x = h x)
    else rt_fork (r # int (length rs) # rs) [a] outs h = Inl Spider_Exception"
proof -
  have "fork_state rs a outs h 0 (h, 0)" by (simp add: fork_state_def)
  moreover have "\<exists>s'. fork_step (r # int (length rs) # rs) [a] outs s k = Inr s' \<and> fork_state rs a outs h (Suc k) s'"
    if "k < length rs" "fork_state rs a outs h k s" for k s
    using fork_step_ok [OF b(1,2) that(1), of h "fst s" "snd s"] that(2) by simp
  ultimately obtain s where s: "foldE (fork_step (r # int (length rs) # rs) [a] outs) (h, 0) [0..<length rs] = Inr s"
      "fork_state rs a outs h (length rs) s"
    using foldE_upt_invariant [of "fork_state rs a outs h" "(h, 0)" "length rs"] by blast
  obtain h' off where st: "s = (h', off)" by (cases s)
  have "off = sum_list (List.map nat rs)" using s(2) st by (simp add: fork_state_def offset_all)
  with s st b(3,4) show ?thesis by (auto simp: rt_fork_def to_u64_nonneg fork_state_def offset_all)
qed

subsection \<open>join\<close>

definition join_buffers :: "int list \<Rightarrow> nat \<Rightarrow> nat list \<Rightarrow> bool" where
  "join_buffers rs b ins \<longleftrightarrow> length ins = length rs \<and> b + offset_at rs (length rs) < 2 ^ 64 \<and>
     (\<forall>i < length rs. ins ! i = b + offset_at rs i \<or> block (ins ! i) (size_at rs i) \<inter> block b (offset_at rs (length rs)) = {})"

definition join_state :: "int list \<Rightarrow> nat \<Rightarrow> nat list \<Rightarrow> heap \<Rightarrow> nat \<Rightarrow> heap \<times> nat \<Rightarrow> bool" where
  "join_state rs b ins h k st \<longleftrightarrow> snd st = offset_at rs k \<and>
     (\<forall>i < k. load (fst st) (b + offset_at rs i) (size_at rs i) = load h (ins ! i) (size_at rs i)) \<and>
     (\<forall>x. x \<notin> block b (offset_at rs k) \<longrightarrow> fst st x = h x)"

lemma slices_disjoint:
  "i < j \<Longrightarrow> j < length rs \<Longrightarrow> block (b + offset_at rs i) (size_at rs i) \<inter> block (b + offset_at rs j) (size_at rs j) = {}"
  using offset_mono [of "Suc i" j rs] by (auto simp: block_def offset_Suc)

lemma join_step_ok:
  assumes b: "join_buffers rs b ins" "sizes_ok rs" and k: "k < length rs" and st: "join_state rs b ins h k (h1, off)"
  shows "\<exists>st'. join_step (r # n # rs) ins [b] (h1, off) k = Inr st' \<and> join_state rs b ins h (Suc k) st'"
proof -
  let ?n = "size_at rs k" let ?dst = "b + offset_at rs k" let ?src = "ins ! k"
  have off: "off = offset_at rs k" and copied: "\<And>i. i < k \<Longrightarrow> load h1 (b + offset_at rs i) (size_at rs i) = load h (ins ! i) (size_at rs i)"
    and same: "\<And>x. x \<notin> block b (offset_at rs k) \<Longrightarrow> h1 x = h x"
    using st by (auto simp: join_state_def)
  have sum: "add64 off ?n = offset_at rs (Suc k)" "add64 b off = ?dst"
    using b(1) offset_le [OF k] k off by (auto simp: join_buffers_def offset_Suc intro!: add64_exact)
  have l: "k < length ins" and pp: "param (r # n # rs) (k + 2) = Inr (rs ! k)" using b(1) k by (auto simp: join_buffers_def param_def)
  have apart: "?src = ?dst \<or> block ?src ?n \<inter> block b (offset_at rs (length rs)) = {}" using b(1) k by (auto simp: join_buffers_def)
  have own: "block ?dst ?n \<inter> block b (offset_at rs k) = {}" by (auto simp: block_def)
  have pre: "block b (offset_at rs k) \<subseteq> block b (offset_at rs (length rs))" using offset_mono [of k "length rs" rs] k by (auto simp: block_def)
  have src: "load h1 ?src ?n = load h ?src ?n"
  proof (rule load_frame, rule same)
    fix x assume "x \<in> block ?src ?n"
    then show "x \<notin> block b (offset_at rs k)" using apart own pre by auto
  qed
  have grow: "x \<notin> block b (offset_at rs (Suc k)) \<Longrightarrow> x \<notin> block ?dst ?n \<and> x \<notin> block b (offset_at rs k)" for x
    using k by (auto simp: block_def offset_Suc)
  have stateI: "join_state rs b ins h (Suc k) (h2, offset_at rs (Suc k))"
    if "load h2 ?dst ?n = load h ?src ?n" "\<And>x. x \<notin> block ?dst ?n \<Longrightarrow> h2 x = h1 x" for h2
  proof -
    have "load h2 (b + offset_at rs i) (size_at rs i) = load h (ins ! i) (size_at rs i)" if "i < k" for i
    proof -
      have "load h2 (b + offset_at rs i) (size_at rs i) = load h1 (b + offset_at rs i) (size_at rs i)"
        using slices_disjoint [OF that k, of b] by (intro load_frame \<open>\<And>x. x \<notin> block ?dst ?n \<Longrightarrow> h2 x = h1 x\<close>) blast
      with copied [OF that] show ?thesis by simp
    qed
    moreover have "h2 x = h x" if "x \<notin> block b (offset_at rs (Suc k))" for x
      using grow [OF that] \<open>\<And>x. x \<notin> block ?dst ?n \<Longrightarrow> h2 x = h1 x\<close> [of x] same [of x] by simp
    ultimately show ?thesis using \<open>load h2 ?dst ?n = load h ?src ?n\<close>
      unfolding join_state_def fst_conv snd_conv less_Suc_eq by blast
  qed
  show ?thesis
  proof (cases "?dst = ?src")
    case True
    then have "join_step (r # n # rs) ins [b] (h1, off) k = Inr (h1, offset_at rs (Suc k))"
      using l pp sum to_u64_size [OF b(2) k] by (simp add: join_step_def Let_def)
    with stateI [of h1] src True show ?thesis by auto
  next
    case False
    have "block ?dst ?n \<subseteq> block b (offset_at rs (length rs))" by (rule slice_block [OF k])
    moreover have "block ?src ?n \<inter> block b (offset_at rs (length rs)) = {}" using apart False by auto
    ultimately have d: "block ?dst ?n \<inter> block ?src ?n = {}" by blast
    have "join_step (r # n # rs) ins [b] (h1, off) k = Inr (memcpy h1 ?dst ?src ?n, offset_at rs (Suc k))"
      using l pp sum to_u64_size [OF b(2) k] False memcpyE_ok [OF d, of h1] by (simp add: join_step_def Let_def)
    moreover have "join_state rs b ins h (Suc k) (memcpy h1 ?dst ?src ?n, offset_at rs (Suc k))"
      using load_memcpy_block [OF d, of h1] src by (intro stateI memcpy_outside) simp_all
    ultimately show ?thesis by blast
  qed
qed

lemma load_slices:
  "k \<le> length rs \<Longrightarrow> load h b (offset_at rs k) = concat (List.map (\<lambda>i. load h (b + offset_at rs i) (size_at rs i)) [0..<k])"
proof (induction k)
  case (Suc k)
  then show ?case by (simp add: offset_Suc load_append)
qed (simp add: load_def)

lemma rt_join_ok:
  assumes b: "join_buffers rs b ins" "sizes_ok rs" "in_i64 r" "0 \<le> r"
  shows "if nat r = sum_list (List.map nat rs)
    then \<exists>h'. rt_join (r # int (length rs) # rs) ins [b] h = Inr h' \<and>
      load h' b (nat r) = concat (List.map (\<lambda>i. load h (ins ! i) (size_at rs i)) [0..<length rs]) \<and> (\<forall>x. x \<notin> block b (nat r) \<longrightarrow> h' x = h x)
    else rt_join (r # int (length rs) # rs) ins [b] h = Inl Spider_Exception"
proof -
  have "join_state rs b ins h 0 (h, 0)" by (simp add: join_state_def)
  moreover have "\<exists>s'. join_step (r # int (length rs) # rs) ins [b] s k = Inr s' \<and> join_state rs b ins h (Suc k) s'"
    if "k < length rs" "join_state rs b ins h k s" for k s
    using join_step_ok [OF b(1,2) that(1), of h "fst s" "snd s"] that(2) by simp
  ultimately obtain s where s: "foldE (join_step (r # int (length rs) # rs) ins [b]) (h, 0) [0..<length rs] = Inr s"
      "join_state rs b ins h (length rs) s"
    using foldE_upt_invariant [of "join_state rs b ins h" "(h, 0)" "length rs"] by blast
  obtain h' off where st: "s = (h', off)" by (cases s)
  have off: "off = sum_list (List.map nat rs)" using s(2) st by (simp add: join_state_def offset_all)
  have "load h' b (offset_at rs (length rs)) = concat (List.map (\<lambda>i. load h (ins ! i) (size_at rs i)) [0..<length rs])"
    unfolding load_slices [OF order_refl] using s(2) st by (auto simp: join_state_def intro!: arg_cong [of _ _ concat])
  with s st off b(3,4) show ?thesis by (auto simp: rt_join_def to_u64_nonneg join_state_def offset_all)
qed

text \<open>What \<open>fork\<close> cuts, \<open>join\<close> puts together again.\<close>

lemma fork_join:
  assumes f: "fork_buffers rs a outs" and j: "join_buffers rs b outs" and r: "sizes_ok rs" "in_i64 r" "0 \<le> r" "nat r = sum_list (List.map nat rs)"
  shows "\<exists>h1 h2. rt_fork (r # int (length rs) # rs) [a] outs h = Inr h1 \<and> rt_join (r # int (length rs) # rs) outs [b] h1 = Inr h2 \<and>
    load h2 b (nat r) = load h a (nat r)"
proof -
  from rt_fork_ok [OF f r(1-3), of h, unfolded if_P [OF r(4)]] obtain h1 where h1: "rt_fork (r # int (length rs) # rs) [a] outs h = Inr h1"
      "\<forall>i < length rs. load h1 (outs ! i) (size_at rs i) = load h (a + offset_at rs i) (size_at rs i)" by blast
  from rt_join_ok [OF j r(1-3), of h1, unfolded if_P [OF r(4)]] obtain h2 where h2: "rt_join (r # int (length rs) # rs) outs [b] h1 = Inr h2"
      "load h2 b (nat r) = concat (List.map (\<lambda>i. load h1 (outs ! i) (size_at rs i)) [0..<length rs])" by blast
  have "load h a (nat r) = concat (List.map (\<lambda>i. load h (a + offset_at rs i) (size_at rs i)) [0..<length rs])"
    using load_slices [of "length rs" rs h a] r(4) by (simp add: offset_all)
  also have "\<dots> = load h2 b (nat r)" unfolding h2(2) using h1(2) by (intro arg_cong [of _ _ concat]) simp
  finally show ?thesis using h1 h2 by metis
qed

subsection \<open>repeat\<close>

definition repeat_state :: "nat \<Rightarrow> nat \<Rightarrow> nat \<Rightarrow> heap \<Rightarrow> nat \<Rightarrow> heap \<Rightarrow> bool" where
  "repeat_state out0 in0 n h m h1 \<longleftrightarrow>
     (\<forall>x < m. h1 (out0 + x) = h (in0 + x mod n)) \<and> (\<forall>x. x \<notin> block out0 m \<longrightarrow> h1 x = h x)"

lemma repeat_extend:
  assumes st: "repeat_state out0 in0 n h (k * n) h1" and j: "j \<le> n" and d: "block out0 (k * n + j) \<inter> block in0 n = {}"
  shows "memcpyE h1 (out0 + k * n) in0 j = Inr (memcpy h1 (out0 + k * n) in0 j) \<and>
    repeat_state out0 in0 n h (k * n + j) (memcpy h1 (out0 + k * n) in0 j)"
proof
  have "block (out0 + k * n) j \<subseteq> block out0 (k * n + j)" "block in0 j \<subseteq> block in0 n" using j by (auto simp: block_def)
  with d have "block (out0 + k * n) j \<inter> block in0 j = {}" by blast
  then show "memcpyE h1 (out0 + k * n) in0 j = Inr (memcpy h1 (out0 + k * n) in0 j)" by (rule memcpyE_ok)
  show "repeat_state out0 in0 n h (k * n + j) (memcpy h1 (out0 + k * n) in0 j)"
    unfolding repeat_state_def
  proof (intro conjI allI impI)
    fix x assume x: "x < k * n + j"
    show "memcpy h1 (out0 + k * n) in0 j (out0 + x) = h (in0 + x mod n)"
    proof (cases "x < k * n")
      case True
      with st show ?thesis by (simp add: memcpy_def repeat_state_def)
    next
      case False
      then obtain y where y: "x = k * n + y" "y < j" using x by (metis add_diff_inverse_nat nat_add_left_cancel_less)
      have "in0 + y \<notin> block out0 (k * n)" using d y j by (auto simp: block_def)
      then have "h1 (in0 + y) = h (in0 + y)" using st by (simp add: repeat_state_def)
      with y j show ?thesis by (simp add: memcpy_def)
    qed
  next
    fix x assume "x \<notin> block out0 (k * n + j)"
    then have "x \<notin> block (out0 + k * n) j" "x \<notin> block out0 (k * n)" by (auto simp: block_def)
    with st show "memcpy h1 (out0 + k * n) in0 j x = h x" by (simp add: memcpy_outside repeat_state_def)
  qed
qed

lemma rt_repeat_ok:
  assumes n: "0 < i" "0 \<le> r" "in_i64 i" "in_i64 r" and d: "block out0 (nat r) \<inter> block in0 (nat i) = {}" "out0 + nat r < 2 ^ 64" "out0 \<noteq> in0"
  shows "\<exists>h'. rt_repeat [i, r] [in0] [out0] h = Inr h' \<and>
    load h' out0 (nat r) = List.map (\<lambda>x. h (in0 + x mod nat i)) [0..<nat r] \<and> (\<forall>x. x \<notin> block out0 (nat r) \<longrightarrow> h' x = h x)"
proof -
  let ?n = "nat i" let ?m = "nat r"
  have u: "to_u64 i = ?n" "to_u64 r = ?m" using n by (simp_all add: to_u64_nonneg)
  have start: "repeat_state out0 in0 ?n h 0 h" by (simp add: repeat_state_def block_def)
  have finish: "load h' out0 ?m = List.map (\<lambda>x. h (in0 + x mod ?n)) [0..<?m] \<and> (\<forall>x. x \<notin> block out0 ?m \<longrightarrow> h' x = h x)"
    if "repeat_state out0 in0 ?n h ?m h'" for h' using that by (simp add: repeat_state_def load_def)
  show ?thesis
  proof (cases "?m \<le> ?n")
    case True
    with repeat_extend [of out0 in0 ?n h 0 h ?m] start d finish [of "memcpy h out0 in0 ?m"] u show ?thesis
      by (auto simp: rt_repeat_def)
  next
    case False
    let ?q = "?m div ?n"
    have q: "?q * ?n \<le> ?m" by simp
    have "\<exists>s'. repeat_step out0 in0 ?n s k = Inr s' \<and> repeat_state out0 in0 ?n h (Suc k * ?n) s'"
      if "k < ?q" "repeat_state out0 in0 ?n h (k * ?n) s" for k s
    proof -
      have "Suc k * ?n \<le> ?q * ?n" using that(1) by (intro mult_le_mono1) simp
      with q have "Suc k * ?n \<le> ?m" by (rule order_trans [rotated])
      then have le: "k * ?n + ?n \<le> ?m" by simp
      then have "block out0 (k * ?n + ?n) \<subseteq> block out0 ?m" by (auto simp: block_def)
      with d(1) have dis: "block out0 (k * ?n + ?n) \<inter> block in0 ?n = {}" by blast
      have "mul64 k ?n = k * ?n" "add64 out0 (k * ?n) = out0 + k * ?n"
        using le d(2) by (auto intro!: mul64_exact add64_exact)
      with repeat_extend [OF that(2) order_refl dis] show ?thesis by (simp add: repeat_step_def add.commute)
    qed
    moreover have "repeat_state out0 in0 ?n h (0 * ?n) h" using start by simp
    ultimately obtain s where s: "foldE (repeat_step out0 in0 ?n) h [0..<?q] = Inr s" "repeat_state out0 in0 ?n h (?q * ?n) s"
      using foldE_upt_invariant [of "\<lambda>k. repeat_state out0 in0 ?n h (k * ?n)" h ?q "repeat_step out0 in0 ?n"] by blast
    have a: "mul64 ?n ?q = ?q * ?n" "add64 out0 (?q * ?n) = out0 + ?q * ?n"
    proof -
      have lt: "?q * ?n < 2 ^ 64" "out0 + ?q * ?n < 2 ^ 64" using q d(2) by linarith+
      from lt(1) show "mul64 ?n ?q = ?q * ?n" using mul64_exact [of ?n ?q] by (simp add: mult.commute)
      from lt(2) show "add64 out0 (?q * ?n) = out0 + ?q * ?n" by (rule add64_exact)
    qed
    have e: "?q * ?n + ?m mod ?n = ?m" by (rule div_mult_mod_eq)
    have "?m mod ?n \<le> ?n" using n(1) by (intro less_imp_le mod_less_divisor) simp
    from repeat_extend [OF s(2) this] d(1) have x: "memcpyE s (out0 + ?q * ?n) in0 (?m mod ?n) = Inr (memcpy s (out0 + ?q * ?n) in0 (?m mod ?n))"
      "repeat_state out0 in0 ?n h ?m (memcpy s (out0 + ?q * ?n) in0 (?m mod ?n))" unfolding e by auto
    show ?thesis
    proof (cases "?m mod ?n = 0")
      case True
      with e have "?q * ?n = ?m" by linarith
      with s(2) have "repeat_state out0 in0 ?n h ?m s" by simp
      moreover have "rt_repeat [i, r] [in0] [out0] h = Inr s"
        using u False n d(3) s(1) True by (simp add: rt_repeat_def Let_def)
      ultimately show ?thesis using finish by blast
    next
      case m: False
      have "rt_repeat [i, r] [in0] [out0] h = Inr (memcpy s (out0 + ?q * ?n) in0 (?m mod ?n))"
        using u False n d(3) s(1) m x(1) a by (simp add: rt_repeat_def Let_def)
      with finish [OF x(2)] show ?thesis by blast
    qed
  qed
qed

subsection \<open>duplicate\<close>

lemma rt_duplicate_ok:
  assumes n: "0 \<le> r" "in_i64 r" "c = int (length outs)" and d: "\<forall>i < length outs. block (outs ! i) (nat r) \<inter> block a (nat r) = {} \<or> outs ! i = a"
    and p: "\<forall>i < length outs. \<forall>j < length outs. i \<noteq> j \<longrightarrow> block (outs ! i) (nat r) \<inter> block (outs ! j) (nat r) = {}"
  shows "\<exists>h'. rt_duplicate [c, r] [a] outs h = Inr h' \<and> (\<forall>i < length outs. load h' (outs ! i) (nat r) = load h a (nat r))"
proof -
  let ?n = "nat r"
  let ?P = "\<lambda>k h1. (\<forall>i < k. load h1 (outs ! i) ?n = load h a ?n) \<and> load h1 a ?n = load h a ?n"
  have "\<exists>s'. duplicate_step a outs ?n s k = Inr s' \<and> ?P (Suc k) s'" if k: "k < length outs" and P: "?P k s" for k s
  proof (cases "a = outs ! k")
    case True
    with k P show ?thesis by (auto simp: duplicate_step_def less_Suc_eq)
  next
    case False
    then have dk: "block (outs ! k) ?n \<inter> block a ?n = {}" using d k by auto
    let ?s = "memcpy s (outs ! k) a ?n"
    have "load ?s (outs ! i) ?n = load s (outs ! i) ?n" if "i < k" for i
      using p k that by (intro load_frame memcpy_outside) (metis disjoint_iff less_trans nat_neq_iff)
    moreover have "load ?s (outs ! k) ?n = load s a ?n" by (rule load_memcpy_block [OF dk])
    moreover have "load ?s a ?n = load s a ?n" using dk by (intro load_frame memcpy_outside) blast
    ultimately have "?P (Suc k) ?s" using P by (auto simp: less_Suc_eq)
    moreover have "duplicate_step a outs ?n s k = Inr ?s" using k False memcpyE_ok [OF dk] by (simp add: duplicate_step_def)
    ultimately show ?thesis by blast
  qed
  moreover have "?P 0 h" by simp
  ultimately obtain h' where "foldE (duplicate_step a outs ?n) h [0..<length outs] = Inr h'" "?P (length outs) h'"
    using foldE_upt_invariant [of ?P h "length outs" "duplicate_step a outs ?n"] by blast
  with n show ?thesis by (intro exI [of _ h']) (simp add: rt_duplicate_def to_u64_nonneg)
qed

subsection \<open>head and tail\<close>

lemma inputs_needed_mono: "n \<le> snd (inputs_needed xs q n)"
proof (induction xs arbitrary: q n)
  case (Cons x xs)
  show ?case using Cons [of "Suc n" "q - x"] by simp
qed simp

lemma head_two_inputs:
  assumes "buildHeadParameters \<lparr>tr_in = r0 # r1 # rs, tr_out = [rate], tr_params = ps, tr_delay = dl, tr_extern = ex\<rparr> = Inr params" "r0 < rate"
  shows "rt_head params ins [dst] h = Inl Undefined_Behaviour"
proof -
  define n where "n = snd (inputs_needed (r0 # r1 # rs) rate 1)"
  have "2 \<le> n" using assms(2) inputs_needed_mono [of 2 "r1 # rs" "rate - r0"] by (simp add: n_def numeral_2_eq_2)
  then obtain m where m: "n = Suc (Suc m)" by (metis add_2_eq_Suc le_Suc_ex)
  from assms(1) obtain sizes where p: "params = int n # sizes" by (auto simp: buildHeadParameters_def Let_def n_def)
  have u: "[0..<n] = 0 # 1 # [2..<n]" unfolding m by (simp add: upt_conv_Cons numeral_2_eq_2)
  have "foldE (head_step params ins [dst]) (h, 0) (0 # 1 # [2..<n]) = Inl Undefined_Behaviour"
    by (auto simp: head_step_def Let_def param_def get_at_def memcpyE_def bindE_def split: sum.splits if_splits)
  then show ?thesis unfolding p by (simp add: rt_head_def u del: upt_Suc)
qed

lemma tail_two_inputs:
  assumes "2 \<le> length (tr_in t)"
  shows "buildTailParameters t = Inl Undefined_Behaviour"
proof -
  have gt: "length (tr_in t) + n - 1 > n" for n using assms by linarith
  have "tr_in t \<noteq> []" using assms by auto
  with gt show ?thesis
    by (simp add: buildTailParameters_def Let_def get_at_def bindE_def split: prod.split)
qed

subsection \<open>The properties\<close>

text \<open>
  C32. \<open>fork\<close> followed by \<open>join\<close>, with the parameters the scheduler builds for them, is the identity on the data: for
  non-negative rates that add up, whether the intermediate buffers are views of the input and of the output or separate
  buffers, \<open>fork\<close> succeeds, \<open>join\<close> succeeds, and the output holds the bytes of the input. If the rates do not add up,
  \<open>fork\<close> throws.
\<close>

theorem fork_join_roundtrip:
  assumes "fork_buffers rs a outs" "join_buffers rs b outs" "sizes_ok rs" "in_i64 r" "0 \<le> r"
    and "buildForkParameters \<lparr>tr_in = [r], tr_out = rs, tr_params = [], tr_delay = None, tr_extern = 0\<rparr> = Inr fork_params"
    and "buildJoinParameters \<lparr>tr_in = rs, tr_out = [r], tr_params = [], tr_delay = None, tr_extern = 0\<rparr> = Inr join_params"
  shows "if nat r = sum_list (List.map nat rs)
    then \<exists>h1 h2. rt_fork fork_params [a] outs h = Inr h1 \<and> rt_join join_params outs [b] h1 = Inr h2 \<and> load h2 b (nat r) = load h a (nat r)
    else rt_fork fork_params [a] outs h = Inl Spider_Exception"
proof -
  have p: "fork_params = r # int (length rs) # rs" "join_params = r # int (length rs) # rs"
    using assms(6,7) by (auto simp: buildForkParameters_def buildJoinParameters_def)
  show ?thesis
  proof (cases "nat r = sum_list (List.map nat rs)")
    case True
    from fork_join [OF assms(1-5) True, of h] show ?thesis unfolding if_P [OF True] p .
  next
    case False
    from rt_fork_ok [OF assms(1,3-5), of h] show ?thesis unfolding if_not_P [OF False] p .
  qed
qed

lemma fork_join_roundtrip_witness:
  "\<forall>h. \<exists>h1 h2. rt_fork [5, 2, 2, 3] [100] [200, 102] h = Inr h1 \<and> rt_join [5, 2, 2, 3] [200, 102] [300] h1 = Inr h2 \<and>
     load h2 300 5 = load h 100 5"
proof
  fix h
  have f: "fork_buffers [2, 3] 100 [200, 102]"
    by (simp add: fork_buffers_def offset_at_def size_at_def All_less_Suc block_disjoint_iff)
  have j: "join_buffers [2, 3] 300 [200, 102]"
    by (simp add: join_buffers_def offset_at_def size_at_def All_less_Suc block_disjoint_iff)
  have s: "sizes_ok [2, 3]" "in_i64 5" "(0::int) \<le> 5" by (simp_all add: sizes_ok_def in_i64_def)
  have b: "buildForkParameters \<lparr>tr_in = [5], tr_out = [2, 3], tr_params = [], tr_delay = None, tr_extern = 0\<rparr> = Inr [5, 2, 2, 3]"
    "buildJoinParameters \<lparr>tr_in = [2, 3], tr_out = [5], tr_params = [], tr_delay = None, tr_extern = 0\<rparr> = Inr [5, 2, 2, 3]"
    by (simp_all add: buildForkParameters_def buildJoinParameters_def)
  from fork_join_roundtrip [OF f j s b, of h] show "\<exists>h1 h2. rt_fork [5, 2, 2, 3] [100] [200, 102] h = Inr h1 \<and> rt_join [5, 2, 2, 3] [200, 102] [300] h1 = Inr h2 \<and>
     load h2 300 5 = load h 100 5" by simp
qed

text \<open>
  \<open>repeat\<close> fills its output with the input, over and over, up to the output rate, whether it is a multiple of the input
  rate or not, and writes nothing else; the input is not changed.
\<close>

theorem repeat_is_cyclic:
  assumes "0 < i" "0 \<le> r" "in_i64 i" "in_i64 r" "block out0 (nat r) \<inter> block in0 (nat i) = {}" "out0 + nat r < 2 ^ 64" "out0 \<noteq> in0"
    and "buildRepeatParameters \<lparr>tr_in = [i], tr_out = [r], tr_params = [], tr_delay = None, tr_extern = 0\<rparr> = Inr params"
  shows "\<exists>h'. rt_repeat params [in0] [out0] h = Inr h' \<and>
    load h' out0 (nat r) = List.map (\<lambda>x. h (in0 + x mod nat i)) [0..<nat r] \<and> (\<forall>x. x \<notin> block out0 (nat r) \<longrightarrow> h' x = h x)"
proof -
  have "params = [i, r]" using assms(8) by (simp add: buildRepeatParameters_def)
  with rt_repeat_ok [OF assms(1-7)] show ?thesis by simp
qed

lemma repeat_is_cyclic_witness:
  "\<exists>h'. rt_repeat [2, 5] [100] [200] (\<lambda>x. x) = Inr h' \<and> load h' 200 5 = [100, 101, 100, 101, 100]"
proof -
  have "(0::int) < 2" "(0::int) \<le> 5" "in_i64 2" "in_i64 5" "block 200 (nat 5) \<inter> block 100 (nat 2) = {}" "200 + nat 5 < (2::nat) ^ 64"
    "(200::nat) \<noteq> 100" "buildRepeatParameters \<lparr>tr_in = [2], tr_out = [5], tr_params = [], tr_delay = None, tr_extern = 0\<rparr> = Inr [2, 5]"
    by (auto simp: in_i64_def block_def buildRepeatParameters_def)
  from repeat_is_cyclic [OF this, of "\<lambda>x. x"] obtain h' where
    h': "rt_repeat [2, 5] [100] [200] (\<lambda>x. x) = Inr h'" "load h' 200 (nat 5) = List.map (\<lambda>x. 100 + x mod nat 2) [0..<nat 5]" by blast
  have "List.map (\<lambda>x. 100 + x mod nat 2) [0..<nat 5] = [100, 101, 100, 101, 100]" by (simp add: upt_rec)
  with h' show ?thesis by auto
qed

text \<open>
  \<open>head\<close> and \<open>tail\<close> work on one input only. As soon as the output of a \<open>head\<close> needs a second input, the kernel addresses
  the second output buffer, and there is none; as soon as a \<open>tail\<close> has two inputs, the array of its parameters is overrun.
\<close>

theorem head_tail_need_one_input:
  "(r0 < rate \<longrightarrow>
     buildHeadParameters \<lparr>tr_in = r0 # r1 # rs, tr_out = [rate], tr_params = ps, tr_delay = dl, tr_extern = ex\<rparr> = Inr params \<longrightarrow>
     rt_head params ins [dst] h = Inl Undefined_Behaviour) \<and>
   (2 \<le> length (tr_in t) \<longrightarrow> buildTailParameters t = Inl Undefined_Behaviour)"
  using head_two_inputs tail_two_inputs by blast

lemma head_tail_need_one_input_witness:
  "rt_head [2, 2, 1] [100, 200] [300] h = Inl Undefined_Behaviour \<and>
   buildTailParameters \<lparr>tr_in = [4, 4], tr_out = [3], tr_params = [], tr_delay = None, tr_extern = 0\<rparr> = Inl Undefined_Behaviour"
proof -
  have "buildHeadParameters \<lparr>tr_in = [2, 2], tr_out = [3], tr_params = [], tr_delay = None, tr_extern = 0\<rparr> = Inr [2, 2, 1]"
    by (simp add: buildHeadParameters_def Let_def numeral_2_eq_2)
  moreover have "(2::int) < 3" "2 \<le> length (tr_in \<lparr>tr_in = [4, 4], tr_out = [3], tr_params = [], tr_delay = None, tr_extern = 0\<rparr>)" by simp_all
  ultimately show ?thesis using head_tail_need_one_input by blast
qed

end
