(* ===== verification/RuntimeFifoProps.thy ===== *)
theory RuntimeFifoProps
  imports RuntimeFifo KernelsProps
begin

text \<open>The reference counting of the memory interface, and the buffers that the descriptors of FIFOs become.\<close>

subsection \<open>Every reader consumes descriptors\<close>

definition consumes_front :: "reader \<Rightarrow> bool" where
  "consumes_front rd \<longleftrightarrow> (\<forall>fs e p rest e'. rd fs e = Inr (p, rest, e') \<longrightarrow> (\<exists>pre. pre \<noteq> [] \<and> fs = pre @ rest))"

lemma consumes_frontD: "consumes_front rd \<Longrightarrow> rd fs e = Inr (p, rest, e') \<Longrightarrow> \<exists>pre. pre \<noteq> [] \<and> fs = pre @ rest"
  unfolding consumes_front_def by blast

lemma readers_consume: "consumes_front readDummy" "consumes_front (readExternBuffer c)" "consumes_front (readBuffer c)"
  by (auto simp: consumes_front_def readDummy_def readExternBuffer_def readBuffer_def split: list.splits if_splits)

lemma merge_loop_consumes:
  assumes "consumes_front rd" "merge_loop k rd todo dst fs e = Inr (rest, e')"
  shows "\<exists>pre. fs = pre @ rest"
  using assms(2)
proof (induction k arbitrary: todo dst fs e)
  case (Suc k)
  show ?case
  proof (cases "todo = 0")
    case False
    with Suc.prems obtain f gs where fs: "fs = f # gs" by (auto split: list.splits)
    with Suc.prems False obtain buffer r1 e1 e2 where r: "rd fs e = Inr (buffer, r1, e1)"
        "merge_loop k rd (todo - int (length fs - length r1)) (add64 dst (ff_size f)) r1 e2 = Inr (rest, e')"
      by auto
    from consumes_frontD [OF assms(1) r(1)] Suc.IH [OF r(2)] show ?thesis by auto
  qed (use Suc.prems in auto)
qed simp

lemma read_fifo_consumes: "consumes_front (read_fifo k c)"
proof (induction k)
  case 0
  then show ?case by (simp add: consumes_front_def)
next
  case (Suc k)
  show ?case
    unfolding consumes_front_def
  proof (intro allI impI)
    fix fs e p rest e' assume r: "read_fifo (Suc k) c fs e = Inr (p, rest, e')"
    then obtain f gs where fs: "fs = f # gs" by (auto split: list.splits)
    note basic = readers_consume(1) [THEN consumes_frontD, where fs = fs and e = e and p = p and rest = rest and e' = e']
      readers_consume(2,3) [where c = c, THEN consumes_frontD, where fs = fs and e = e and p = p and rest = rest and e' = e']
    show "\<exists>pre. pre \<noteq> [] \<and> fs = pre @ rest"
    proof (cases "ff_attribute f")
      case R_MERGE
      with r fs obtain m e1 where "merge_loop k (read_fifo k c) (int (ff_offset f)) m gs e1 = Inr (rest, e')"
        by (auto split: if_splits)
      from merge_loop_consumes [OF Suc this] fs show ?thesis by auto
    next
      case R_REPEAT
      with r fs obtain x e1 e2 where "read_fifo k c gs e1 = Inr (x, rest, e2)"
        by (auto split: if_splits list.splits)
      from consumes_frontD [OF Suc this] fs show ?thesis by auto
    qed (use r fs basic in auto)
  qed
qed

lemma merge_loop_fuel:
  assumes "consumes_front rd" "\<And>gs e. length gs \<le> length fs \<Longrightarrow> rd gs e \<noteq> Inl Diverges" "length fs < k"
  shows "merge_loop k rd todo dst fs e \<noteq> Inl Diverges"
  using assms(2,3)
proof (induction k arbitrary: todo dst fs e)
  case (Suc k)
  show ?case
  proof
    assume d: "merge_loop (Suc k) rd todo dst fs e = Inl Diverges"
    then obtain f gs where fs: "fs = f # gs" "todo \<noteq> 0" by (auto split: if_splits list.splits)
    from d fs Suc.prems(1) [of fs e] obtain buffer r1 e1 where r: "rd fs e = Inr (buffer, r1, e1)"
      by (cases "rd fs e") auto
    have c: "copy dst buffer (ff_size f) e1 \<noteq> Inl Diverges"
      by (auto simp: copy_def memcpyE_def)
    from d fs r c obtain e2 where "merge_loop k rd (todo - int (length fs - length r1)) (add64 dst (ff_size f)) r1 e2 = Inl Diverges"
      by (cases "copy dst buffer (ff_size f) e1") auto
    moreover have "length r1 < length fs" using consumes_frontD [OF assms(1) r] by auto
    ultimately show False using Suc.IH [of r1] Suc.prems by auto
  qed
qed simp

lemma basic_readers_end:
  "readDummy fs e \<noteq> Inl Diverges"
  "(\<And>a. fc_extern c a \<noteq> Inl Diverges) \<Longrightarrow> readExternBuffer c fs e \<noteq> Inl Diverges"
  "readBuffer c fs e \<noteq> Inl Diverges" "fifo_allocate f e \<noteq> Inl Diverges"
  by (auto simp: readDummy_def readExternBuffer_def readBuffer_def fifo_allocate_def bindE_eq_Inl mi_read_def mi_allocate_def
      retrieveBuffer_def i32_def Let_def split: list.splits if_splits option.splits)

lemma foldE_not_Diverges: "(\<And>s x. f s x \<noteq> Inl Diverges) \<Longrightarrow> foldE f s xs \<noteq> Inl Diverges"
proof (induction xs arbitrary: s)
  case (Cons x xs)
  then show ?case by (cases "f s x") auto
qed simp

lemma copy_not_Diverges: "copy dst src n e \<noteq> Inl Diverges"
  by (auto simp: copy_def memcpyE_def)

lemma read_fifo_fuel:
  assumes x: "\<And>a. fc_extern c a \<noteq> Inl Diverges"
  shows "length fs < k \<Longrightarrow> read_fifo k c fs e \<noteq> Inl Diverges"
proof (induction k arbitrary: fs e)
  case (Suc k)
  show ?case
  proof (cases fs)
    case (Cons f gs)
    with Suc.prems have lt: "length gs < k" by simp
    note basic = basic_readers_end(1,3) basic_readers_end(2) [OF x]
    show ?thesis
    proof (cases "ff_attribute f")
      case R_MERGE
      have "merge_loop k (read_fifo k c) n m gs e1 \<noteq> Inl Diverges" for n m e1
        using Suc.IH lt by (intro merge_loop_fuel read_fifo_consumes) auto
      with R_MERGE Cons basic_readers_end(4) [of f e] show ?thesis
        by (auto simp: bindE_eq_Inl)
    next
      case R_REPEAT
      have r: "read_fifo k c gs e1 \<noteq> Inl Diverges" for e1 using Suc.IH lt by auto
      have l: "foldE (\<lambda>e i. copy (add64 a (mul64 i m)) p m e) e1 xs \<noteq> Inl Diverges" for a m p e1 xs
        by (intro foldE_not_Diverges copy_not_Diverges)
      from R_REPEAT Cons basic_readers_end(4) [of f e] r l copy_not_Diverges show ?thesis
        by (auto simp: bindE_eq_Inl split: list.splits if_splits)
    qed (use Cons basic in auto)
  qed simp
qed simp

subsection \<open>Merging\<close>

text \<open>A descriptor of a plain buffer, as the allocators build it for an input.\<close>

definition plain_fifo :: "memory_interface \<Rightarrow> fifo \<Rightarrow> bool" where
  "plain_fifo mi f \<longleftrightarrow> ff_attribute f \<in> {RW_ONLY, RW_OWN, RW_AUTO} \<and> 0 < ff_size f \<and> ff_count f = 0 \<and>
     (case map_of (mi_map mi) (ff_address f) of None \<Rightarrow> False
      | Some b \<Rightarrow> in_i32 (bf_count b) \<and> bf_ptr b \<noteq> 0 \<and> bf_ptr b + ff_offset f + ff_size f < 2 ^ 64)"

definition fifo_start :: "memory_interface \<Rightarrow> fifo \<Rightarrow> nat" where
  "fifo_start mi f = (case map_of (mi_map mi) (ff_address f) of None \<Rightarrow> 0 | Some b \<Rightarrow> bf_ptr b + ff_offset f)"

definition fifo_bytes :: "heap \<Rightarrow> memory_interface \<Rightarrow> fifo \<Rightarrow> nat list" where
  "fifo_bytes h mi f = load h (fifo_start mi f) (ff_size f)"

lemma read_plain:
  assumes "plain_fifo (fe_mi e) f"
  shows "read_fifo (Suc k) c (f # rest) e = Inr (fifo_start (fe_mi e) f, rest, e)"
proof -
  from assms obtain b where b: "map_of (mi_map (fe_mi e)) (ff_address f) = Some b" "in_i32 (bf_count b)" "bf_ptr b \<noteq> 0"
      "bf_ptr b + ff_offset f + ff_size f < 2 ^ 64" "0 < ff_size f" "ff_count f = 0"
    by (auto simp: plain_fifo_def split: option.splits)
  have "registerPhysicalAddress (fe_mi e) (ff_address f) b = fe_mi e"
    using b(1) by (simp add: registerPhysicalAddress_def update_triv)
  then have "readBuffer c (f # rest) e = Inr (fifo_start (fe_mi e) f, rest, e)"
    using b by (simp add: readBuffer_def mi_read_def retrieveBuffer_def i32_def fifo_start_def add64_exact)
  with assms show ?thesis by (auto simp: plain_fifo_def)
qed

lemma merge_plain:
  assumes "\<forall>f \<in> set gs. plain_fifo mi f \<and> block (fifo_start mi f) (ff_size f) \<inter> block dst (sum_list (List.map ff_size gs)) = {}"
    and "dst \<noteq> 0" "dst + sum_list (List.map ff_size gs) < 2 ^ 64" "fe_mi e = mi" "length gs < k" "0 < j"
  shows "\<exists>e'. merge_loop k (read_fifo j c) (int (length gs)) dst (gs @ rest) e = Inr (rest, e') \<and> fe_mi e' = mi \<and> fe_phys e' = fe_phys e \<and>
    load (fe_heap e') dst (sum_list (List.map ff_size gs)) = concat (List.map (fifo_bytes (fe_heap e) mi) gs) \<and>
    (\<forall>x. x \<notin> block dst (sum_list (List.map ff_size gs)) \<longrightarrow> fe_heap e' x = fe_heap e x)"
  using assms(1,2,3,4,5)
proof (induction gs arbitrary: k dst e)
  case Nil
  then obtain k' where "k = Suc k'" by (cases k) auto
  with Nil show ?case by (auto simp: load_def)
next
  case (Cons f gs)
  let ?n = "ff_size f" let ?m = "sum_list (List.map ff_size gs)" let ?src = "fifo_start mi f"
  from Cons.prems(5) obtain k' where k: "k = Suc k'" "length gs < k'" by (cases k) auto
  from assms(6) obtain j' where j: "j = Suc j'" by (cases j) auto
  have pl: "plain_fifo mi f" and dis: "block ?src ?n \<inter> block dst (?n + ?m) = {}" using Cons.prems(1) by auto
  have s0: "?src \<noteq> 0" using pl by (auto simp: fifo_start_def plain_fifo_def split: option.splits)
  have sub: "block dst ?n \<subseteq> block dst (?n + ?m)" "block (dst + ?n) ?m \<subseteq> block dst (?n + ?m)" by (auto simp: block_def)
  have d1: "block dst ?n \<inter> block ?src ?n = {}" using dis sub by blast
  let ?h = "memcpy (fe_heap e) dst ?src ?n" let ?e1 = "e\<lparr>fe_heap := ?h\<rparr>"
  have cp: "copy dst ?src ?n e = Inr ?e1" using Cons.prems(2) s0 memcpyE_ok [OF d1] by (simp add: copy_def)
  have add: "add64 dst ?n = dst + ?n" using Cons.prems(3) by (intro add64_exact) simp
  have "\<forall>g \<in> set gs. plain_fifo mi g \<and> block (fifo_start mi g) (ff_size g) \<inter> block (dst + ?n) ?m = {}"
    using Cons.prems(1) sub(2) by auto
  from Cons.IH [OF this _ _ _ k(2), of ?e1] Cons.prems obtain e' where
    e': "merge_loop k' (read_fifo j c) (int (length gs)) (dst + ?n) (gs @ rest) ?e1 = Inr (rest, e')" "fe_mi e' = mi" "fe_phys e' = fe_phys e"
      "load (fe_heap e') (dst + ?n) ?m = concat (List.map (fifo_bytes ?h mi) gs)" "\<forall>x. x \<notin> block (dst + ?n) ?m \<longrightarrow> fe_heap e' x = ?h x"
    by (auto simp: add.assoc)
  have run: "merge_loop k (read_fifo j c) (int (length (f # gs))) dst ((f # gs) @ rest) e = Inr (rest, e')"
    using read_plain [of e f j' c "gs @ rest"] pl Cons.prems(4) cp add e'(1) by (simp add: k(1) j)
  have "load (fe_heap e') dst ?n = load ?h dst ?n"
    by (intro load_frame e'(5) [rule_format]) (auto simp: block_def)
  also have "\<dots> = fifo_bytes (fe_heap e) mi f" using load_memcpy_block [OF d1] by (simp add: fifo_bytes_def)
  finally have first: "load (fe_heap e') dst ?n = fifo_bytes (fe_heap e) mi f" .
  have "fifo_bytes ?h mi g = fifo_bytes (fe_heap e) mi g" if "g \<in> set gs" for g
    unfolding fifo_bytes_def using Cons.prems(1) that sub(1) by (intro load_frame memcpy_outside) auto
  then have "List.map (fifo_bytes ?h mi) gs = List.map (fifo_bytes (fe_heap e) mi) gs" by (rule map_cong [OF refl])
  with e'(4) have "load (fe_heap e') (dst + ?n) ?m = concat (List.map (fifo_bytes (fe_heap e) mi) gs)" by (simp only:)
  then have "load (fe_heap e') dst (sum_list (List.map ff_size (f # gs))) = concat (List.map (fifo_bytes (fe_heap e) mi) (f # gs))"
    using first by (simp add: load_append)
  moreover have "fe_heap e' x = fe_heap e x" if "x \<notin> block dst (sum_list (List.map ff_size (f # gs)))" for x
  proof -
    have "x \<notin> block (dst + ?n) ?m" "x \<notin> block dst ?n" using that sub by auto
    with e'(5) show ?thesis by (simp add: memcpy_outside)
  qed
  ultimately show ?case using run e'(2,3) by blast
qed

subsection \<open>The properties\<close>

lemma count_buffers_fuel: "length fs < k \<Longrightarrow> count_buffers k fs n \<noteq> Inl Diverges"
proof (induction k arbitrary: fs n)
  case (Suc k)
  then show ?case by (cases fs) (auto simp: Let_def)
qed simp

lemma fill_inputs_fuel:
  assumes "\<And>a. fc_extern c a \<noteq> Inl Diverges"
  shows "length fs < k \<Longrightarrow> fill_inputs k c n fs e \<noteq> Inl Diverges"
proof (induction k arbitrary: n fs e)
  case (Suc k)
  show ?case
  proof (cases n)
    case (Suc m)
    show ?thesis
    proof (cases fs)
      case (Cons f gs)
      show ?thesis
      proof (cases "ff_attribute f = DUMMY")
        case True
        with Suc.IH [of gs n e] Suc.prems Cons \<open>n = Suc m\<close> show ?thesis by simp
      next
        case False
        have r: "read_fifo (Suc (length fs)) c fs e \<noteq> Inl Diverges" by (rule read_fifo_fuel [OF assms]) simp
        have "fill_inputs k c m rest e1 \<noteq> Inl Diverges" if "read_fifo (Suc (length fs)) c fs e = Inr (p, rest, e1)" for p rest e1
        proof (rule Suc.IH)
          have "length rest < length fs" using consumes_frontD [OF read_fifo_consumes that] by auto
          with Suc.prems show "length rest < k" by simp
        qed
        with r False Cons \<open>n = Suc m\<close> show ?thesis by (auto simp: bindE_eq_Inl simp del: read_fifo.simps)
      qed
    qed (simp add: Suc)
  qed simp
qed simp

text \<open>The fuel is always enough, nested merges and repetitions included.\<close>

lemma input_buffers_end:
  assumes "\<And>a. fc_extern c a \<noteq> Inl Diverges"
  shows "getInputBuffers c fs e \<noteq> Inl Diverges"
  using count_buffers_fuel [of fs "Suc (length fs)" 0] fill_inputs_fuel [OF assms, of fs "Suc (length fs)"]
  by (auto simp: getInputBuffers_def bindE_eq_Inl simp del: count_buffers.simps fill_inputs.simps)

lemma merged_fifo:
  assumes f: "ff_attribute f = R_MERGE" "ff_offset f = length gs" "ff_size f = sum_list (List.map ff_size gs)" "0 < ff_count f" "0 < ff_size f"
    and mi: "mi_ok (fe_mi e)" "ff_size f \<le> mi_size (fe_mi e) - mi_used (fe_mi e)" "map_of (mi_map (fe_mi e)) (ff_address f) = None"
    and p: "fe_phys e = p # ps" "p \<noteq> 0" "p + ff_size f < 2 ^ 64"
    and g: "\<forall>g \<in> set gs. plain_fifo (fe_mi e) g \<and> block (fifo_start (fe_mi e) g) (ff_size g) \<inter> block p (ff_size f) = {}"
    and k: "length gs < k"
  shows "\<exists>e'. read_fifo (Suc k) c (f # gs @ rest) e = Inr (p, rest, e') \<and>
    load (fe_heap e') p (ff_size f) = concat (List.map (fifo_bytes (fe_heap e) (fe_mi e)) gs) \<and>
    (\<forall>x. x \<notin> block p (ff_size f) \<longrightarrow> fe_heap e' x = fe_heap e x) \<and>
    mi_used (fe_mi e') = mi_used (fe_mi e) + ff_size f \<and> mi_size (fe_mi e') = mi_size (fe_mi e) \<and> mi_ok (fe_mi e') \<and> fe_phys e' = ps \<and>
    map_of (mi_map (fe_mi e')) = (map_of (mi_map (fe_mi e)))(ff_address f \<mapsto> \<lparr>bf_ptr = p, bf_size = ff_size f, bf_count = ff_count f\<rparr>)"
proof -
  let ?n = "ff_size f"
  have "?n < u64_max" using p(2,3) by simp
  with mi_allocate_ok [OF mi(1) f(5) _ f(4) p(2), of "ff_address f"] mi(2,3) obtain mi' where
    mi': "mi_allocate (fe_mi e) (ff_address f) ?n (ff_count f) p = Inr (p, mi')" "mi_used mi' = mi_used (fe_mi e) + ?n"
      "map_of (mi_map mi') = (map_of (mi_map (fe_mi e)))(ff_address f \<mapsto> \<lparr>bf_ptr = p, bf_size = ?n, bf_count = ff_count f\<rparr>)"
      "mi_size mi' = mi_size (fe_mi e)" "mi_ok mi'" by auto
  let ?e1 = "e\<lparr>fe_mi := mi', fe_phys := ps\<rparr>"
  have al: "fifo_allocate f e = Inr (p, ?e1)" using mi'(1) p f(5) by (simp add: fifo_allocate_def)
  have same: "plain_fifo mi' x \<and> fifo_start mi' x = fifo_start (fe_mi e) x" if "x \<in> set gs" for x
  proof -
    have "plain_fifo (fe_mi e) x" using g that by simp
    moreover from this have "ff_address x \<noteq> ff_address f" using mi(3) by (auto simp: plain_fifo_def)
    ultimately show ?thesis by (simp add: plain_fifo_def fifo_start_def mi'(3))
  qed
  have pl: "\<forall>x \<in> set gs. plain_fifo mi' x \<and> block (fifo_start mi' x) (ff_size x) \<inter> block p (sum_list (List.map ff_size gs)) = {}"
    using g same f(3) by auto
  have "0 < k" using k by simp
  from merge_plain [OF pl p(2) _ _ k this, of ?e1 c rest] p(3) f(3) obtain e' where
    e': "merge_loop k (read_fifo k c) (int (length gs)) p (gs @ rest) ?e1 = Inr (rest, e')" "fe_mi e' = mi'" "fe_phys e' = ps"
      "load (fe_heap e') p ?n = concat (List.map (fifo_bytes (fe_heap e) mi') gs)" "\<forall>x. x \<notin> block p ?n \<longrightarrow> fe_heap e' x = fe_heap e x"
    by auto
  have "fifo_bytes (fe_heap e) mi' x = fifo_bytes (fe_heap e) (fe_mi e) x" if "x \<in> set gs" for x
    using same [OF that] by (simp add: fifo_bytes_def)
  then have "List.map (fifo_bytes (fe_heap e) mi') gs = List.map (fifo_bytes (fe_heap e) (fe_mi e)) gs" by (rule map_cong [OF refl])
  with e'(4) have "load (fe_heap e') p ?n = concat (List.map (fifo_bytes (fe_heap e) (fe_mi e)) gs)" by (simp only:)
  moreover have "read_fifo (Suc k) c (f # gs @ rest) e = Inr (p, rest, e')" using f(1,2) al p(2) e'(1) by simp
  ultimately show ?thesis using e'(2,3,5) mi' by blast
qed

text \<open>
  C26. A merged FIFO holds the tokens of its parts in order: for a \<open>R_MERGE\<close> descriptor followed by the descriptors of plain
  buffers whose sizes add up to its own, the reader allocates one buffer, fills it with the concatenation of the parts,
  touches no other byte, and leaves the iterator after the parts.
\<close>

theorem merged_fifo_concatenates:
  assumes f: "ff_attribute f = R_MERGE" "ff_offset f = length gs" "ff_size f = sum_list (List.map ff_size gs)" "0 < ff_count f" "0 < ff_size f"
    and mi: "mi_ok (fe_mi e)" "ff_size f \<le> mi_size (fe_mi e) - mi_used (fe_mi e)" "map_of (mi_map (fe_mi e)) (ff_address f) = None"
    and p: "fe_phys e = p # ps" "p \<noteq> 0" "p + ff_size f < 2 ^ 64"
    and g: "\<forall>g \<in> set gs. plain_fifo (fe_mi e) g \<and> block (fifo_start (fe_mi e) g) (ff_size g) \<inter> block p (ff_size f) = {}"
    and k: "length gs < k"
  shows "\<exists>e'. read_fifo (Suc k) c (f # gs @ rest) e = Inr (p, rest, e') \<and>
    load (fe_heap e') p (ff_size f) = concat (List.map (fifo_bytes (fe_heap e) (fe_mi e)) gs) \<and>
    (\<forall>x. x \<notin> block p (ff_size f) \<longrightarrow> fe_heap e' x = fe_heap e x) \<and> mi_used (fe_mi e') = mi_used (fe_mi e) + ff_size f"
  using merged_fifo [OF assms, of c rest] by blast

definition demo_fifo_env :: fifo_env where
  "demo_fifo_env = \<lparr>fe_mi = \<lparr>mi_map = [(0, \<lparr>bf_ptr = 100, bf_size = 4, bf_count = 1\<rparr>), (4, \<lparr>bf_ptr = 200, bf_size = 2, bf_count = 1\<rparr>)],
     mi_size = 100, mi_used = 6\<rparr>, fe_heap = (\<lambda>x. x), fe_phys = [300]\<rparr>"

definition demo_fifo :: "nat \<Rightarrow> nat \<Rightarrow> nat \<Rightarrow> int \<Rightarrow> fifo_attribute \<Rightarrow> fifo" where
  "demo_fifo a n off count t = \<lparr>ff_address = a, ff_size = n, ff_offset = off, ff_count = count, ff_attribute = t\<rparr>"

lemma merged_fifo_concatenates_witness:
  "\<forall>c. \<exists>e'. read_fifo 4 c [demo_fifo 6 5 2 1 R_MERGE, demo_fifo 0 3 1 0 RW_OWN, demo_fifo 4 2 0 0 RW_OWN] demo_fifo_env = Inr (300, [], e') \<and>
     load (fe_heap e') 300 5 = [101, 102, 103, 200, 201]"
proof
  fix c
  let ?f = "demo_fifo 6 5 2 1 R_MERGE" let ?gs = "[demo_fifo 0 3 1 0 RW_OWN, demo_fifo 4 2 0 0 RW_OWN]"
  have a: "ff_attribute ?f = R_MERGE" "ff_offset ?f = length ?gs" "ff_size ?f = sum_list (List.map ff_size ?gs)" "0 < ff_count ?f" "0 < ff_size ?f"
    "mi_ok (fe_mi demo_fifo_env)" "ff_size ?f \<le> mi_size (fe_mi demo_fifo_env) - mi_used (fe_mi demo_fifo_env)"
    "map_of (mi_map (fe_mi demo_fifo_env)) (ff_address ?f) = None" "fe_phys demo_fifo_env = 300 # []" "(300::nat) \<noteq> 0"
    "300 + ff_size ?f < 2 ^ 64" "length ?gs < 3"
    by (simp_all add: demo_fifo_def demo_fifo_env_def mi_ok_def live_bytes_def)
  have g: "\<forall>g \<in> set ?gs. plain_fifo (fe_mi demo_fifo_env) g \<and> block (fifo_start (fe_mi demo_fifo_env) g) (ff_size g) \<inter> block 300 (ff_size ?f) = {}"
    by (simp add: demo_fifo_def demo_fifo_env_def plain_fifo_def fifo_start_def in_i32_def block_disjoint_iff)
  from merged_fifo_concatenates [OF a(1-11) g a(12), of c "[]"] obtain e' where
    e': "read_fifo (Suc 3) c (?f # ?gs @ []) demo_fifo_env = Inr (300, [], e')"
      "load (fe_heap e') 300 (ff_size ?f) = concat (List.map (fifo_bytes (fe_heap demo_fifo_env) (fe_mi demo_fifo_env)) ?gs)" by blast
  have four: "Suc 3 = (4::nat)" by simp
  have five: "ff_size ?f = 5" and bytes: "concat (List.map (fifo_bytes (fe_heap demo_fifo_env) (fe_mi demo_fifo_env)) ?gs) = [101, 102, 103, 200, 201]"
    by (simp_all add: demo_fifo_def demo_fifo_env_def fifo_bytes_def fifo_start_def load_def upt_rec)
  from e'(2) have "load (fe_heap e') 300 5 = [101, 102, 103, 200, 201]" unfolding five bytes .
  with e'(1) show "\<exists>e'. read_fifo 4 c [demo_fifo 6 5 2 1 R_MERGE, demo_fifo 0 3 1 0 RW_OWN, demo_fifo 4 2 0 0 RW_OWN] demo_fifo_env = Inr (300, [], e') \<and>
     load (fe_heap e') 300 5 = [101, 102, 103, 200, 201]" unfolding four append_Nil2 by blast
qed

subsection \<open>All inputs of a job\<close>

text \<open>The descriptors of the inputs of a job, as the allocators build them: one descriptor, or a merge with the descriptors of its parts. A
  merge is listed with the address that the allocation of its buffer returns.\<close>

datatype input = One fifo | Merged fifo "fifo list" nat

fun descriptors :: "input \<Rightarrow> fifo list" where
  "descriptors (One f) = [f]"
| "descriptors (Merged f gs p) = f # gs"

definition all_descriptors :: "input list \<Rightarrow> fifo list" where
  "all_descriptors ins = concat (List.map descriptors ins)"

text \<open>The address that an input has for the job; a dummy has none, the empty FIFOs and the sinks have the null address.\<close>

fun input_address :: "fifo_ctx \<Rightarrow> memory_interface \<Rightarrow> input \<Rightarrow> nat list" where
  "input_address c mi (One f) =
     (if ff_attribute f = DUMMY then []
      else if ff_attribute f = W_SINK \<or> ff_size f = 0 then [0]
      else if ff_attribute f = RW_EXT then [add64 (projr (fc_extern c (ff_address f))) (ff_offset f)]
      else [fifo_start mi f])"
| "input_address c mi (Merged f gs p) = [p]"

text \<open>The plain buffers that an input reads, the bytes that it writes, the address that its allocation returns, and the size.\<close>

fun input_reads :: "input \<Rightarrow> fifo list" where
  "input_reads (One f) = []"
| "input_reads (Merged f gs p) = gs"

fun input_area :: "input \<Rightarrow> nat set" where
  "input_area (One f) = {}"
| "input_area (Merged f gs p) = block p (ff_size f)"

fun input_phys :: "input \<Rightarrow> nat list" where
  "input_phys (One f) = []"
| "input_phys (Merged f gs p) = [p]"

fun input_key :: "input \<Rightarrow> nat list" where
  "input_key (One f) = []"
| "input_key (Merged f gs p) = [ff_address f]"

fun merged_size :: "input \<Rightarrow> nat" where
  "merged_size (One f) = 0"
| "merged_size (Merged f gs p) = ff_size f"

fun input_ok :: "fifo_ctx \<Rightarrow> memory_interface \<Rightarrow> input \<Rightarrow> bool" where
  "input_ok c mi (One f) \<longleftrightarrow>
     (case ff_attribute f of R_MERGE \<Rightarrow> False | R_REPEAT \<Rightarrow> False | W_SINK \<Rightarrow> True | DUMMY \<Rightarrow> True
      | RW_EXT \<Rightarrow> ff_size f = 0 \<or> \<not> isl (fc_extern c (ff_address f))
      | _ \<Rightarrow> ff_size f = 0 \<or> plain_fifo mi f)"
| "input_ok c mi (Merged f gs p) \<longleftrightarrow>
     ff_attribute f = R_MERGE \<and> ff_offset f = length gs \<and> ff_size f = sum_list (List.map ff_size gs) \<and> 0 < ff_count f \<and> 0 < ff_size f \<and>
     map_of (mi_map mi) (ff_address f) = None \<and> p \<noteq> 0 \<and> p + ff_size f < 2 ^ 64 \<and> (\<forall>g \<in> set gs. plain_fifo mi g)"

text \<open>The memory before: room for the merged buffers, new addresses for them, apart from each other and from all that is read.\<close>

definition inputs_ok :: "fifo_ctx \<Rightarrow> fifo_env \<Rightarrow> input list \<Rightarrow> bool" where
  "inputs_ok c e ins \<longleftrightarrow> mi_ok (fe_mi e) \<and> (\<forall>i \<in> set ins. input_ok c (fe_mi e) i) \<and>
     sum_list (List.map merged_size ins) \<le> mi_size (fe_mi e) - mi_used (fe_mi e) \<and>
     (\<exists>ps. fe_phys e = concat (List.map input_phys ins) @ ps) \<and> distinct (concat (List.map input_key ins)) \<and>
     sorted_wrt (\<lambda>i j. input_area i \<inter> input_area j = {}) ins \<and>
     (\<forall>i \<in> set ins. \<forall>j \<in> set ins. \<forall>g \<in> set (input_reads i). block (fifo_start (fe_mi e) g) (ff_size g) \<inter> input_area j = {})"

text \<open>The contents of the merged buffers are the bytes that their parts had before.\<close>

fun input_filled :: "fifo_env \<Rightarrow> fifo_env \<Rightarrow> input \<Rightarrow> bool" where
  "input_filled e e' (One f) \<longleftrightarrow> True"
| "input_filled e e' (Merged f gs p) \<longleftrightarrow> load (fe_heap e') p (ff_size f) = concat (List.map (fifo_bytes (fe_heap e) (fe_mi e)) gs)"

definition counted :: "input \<Rightarrow> bool" where
  "counted i \<longleftrightarrow> (case i of One f \<Rightarrow> ff_attribute f \<noteq> DUMMY | Merged _ _ _ \<Rightarrow> True)"

lemma count_inputs:
  "(\<forall>i \<in> set ins. input_ok c mi i) \<Longrightarrow> length (all_descriptors ins) < k \<Longrightarrow>
     count_buffers k (all_descriptors ins) n = Inr (n + length (filter counted ins))"
proof (induction ins arbitrary: k n)
  case Nil
  then obtain k' where "k = Suc k'" by (cases k) auto
  then show ?case by (simp add: all_descriptors_def)
next
  case (Cons i ins)
  then obtain k' where k: "k = Suc k'" by (cases k) auto
  show ?case
  proof (cases i)
    case (One f)
    then have d: "all_descriptors (i # ins) = f # all_descriptors ins" by (simp add: all_descriptors_def)
    have "ff_attribute f \<noteq> R_MERGE" using Cons.prems(1) One by auto
    with Cons.IH [of k'] Cons.prems d One k show ?thesis by (simp add: counted_def)
  next
    case (Merged f gs p)
    then have d: "all_descriptors (i # ins) = f # gs @ all_descriptors ins" by (simp add: all_descriptors_def)
    have "ff_attribute f = R_MERGE" "ff_offset f = length gs" using Cons.prems(1) Merged by auto
    with Cons.IH [of k'] Cons.prems d Merged k show ?thesis by (simp add: counted_def)
  qed
qed

lemma read_one:
  assumes "input_ok c (fe_mi e) (One f)" and "ff_attribute f \<noteq> DUMMY"
  shows "read_fifo (Suc k) c (f # rest) e = Inr (List.hd (input_address c (fe_mi e) (One f)), rest, e)"
proof (cases "plain_fifo (fe_mi e) f")
  case True
  then have "0 < ff_size f" "ff_attribute f \<in> {RW_ONLY, RW_OWN, RW_AUTO}" by (auto simp: plain_fifo_def)
  with read_plain [OF True] show ?thesis by auto
next
  case False
  with assms show ?thesis
    by (cases "ff_attribute f"; cases "fc_extern c (ff_address f)") (auto simp: readBuffer_def readExternBuffer_def readDummy_def)
qed

lemma plain_update:
  assumes "map_of (mi_map mi') = (map_of (mi_map mi))(a \<mapsto> b)" and "map_of (mi_map mi) a = None" and "plain_fifo mi f"
  shows "plain_fifo mi' f \<and> fifo_start mi' f = fifo_start mi f"
proof -
  from assms(2,3) have "ff_address f \<noteq> a" by (auto simp: plain_fifo_def)
  with assms(1,3) show ?thesis by (simp add: plain_fifo_def fifo_start_def)
qed

lemma input_update:
  assumes m: "map_of (mi_map mi') = (map_of (mi_map mi))(a \<mapsto> b)" "map_of (mi_map mi) a = None"
    and i: "input_ok c mi i" "a \<notin> set (input_key i)"
  shows "input_ok c mi' i \<and> input_address c mi' i = input_address c mi i"
proof (cases i)
  case (One f)
  with i plain_update [OF m, of f] show ?thesis by (cases "ff_attribute f") auto
next
  case (Merged f gs p)
  with i m plain_update [OF m] show ?thesis by auto
qed

text \<open>After the first input has been merged, the others are as they were.\<close>

lemma inputs_ok_merged:
  assumes ok: "inputs_ok c e (Merged f gs p # ins)"
    and e1: "\<forall>x. x \<notin> block p (ff_size f) \<longrightarrow> fe_heap e1 x = fe_heap e x"
      "mi_used (fe_mi e1) = mi_used (fe_mi e) + ff_size f" "mi_size (fe_mi e1) = mi_size (fe_mi e)" "mi_ok (fe_mi e1)"
      "fe_phys e = p # fe_phys e1"
      "map_of (mi_map (fe_mi e1)) = (map_of (mi_map (fe_mi e)))(ff_address f \<mapsto> b)"
  shows "inputs_ok c e1 ins" and "i \<in> set ins \<Longrightarrow> input_address c (fe_mi e1) i = input_address c (fe_mi e) i"
    and "i \<in> set ins \<Longrightarrow> g \<in> set (input_reads i) \<Longrightarrow> fifo_bytes (fe_heap e1) (fe_mi e1) g = fifo_bytes (fe_heap e) (fe_mi e) g"
proof -
  let ?mi = "fe_mi e" and ?mi1 = "fe_mi e1"
  from ok have new: "map_of (mi_map ?mi) (ff_address f) = None" by (simp add: inputs_ok_def)
  have i: "input_ok c ?mi1 i \<and> input_address c ?mi1 i = input_address c ?mi i" if "i \<in> set ins" for i
    using ok that by (intro input_update [OF e1(6) new]) (auto simp: inputs_ok_def)
  then show "i \<in> set ins \<Longrightarrow> input_address c ?mi1 i = input_address c ?mi i" by simp
  have g: "fifo_start ?mi1 g = fifo_start ?mi g" if "i \<in> set ins" "g \<in> set (input_reads i)" for i g
  proof -
    from ok that have "plain_fifo ?mi g" by (cases i) (auto simp: inputs_ok_def)
    from plain_update [OF e1(6) new this] show ?thesis by simp
  qed
  have "distinct (concat (List.map input_key ins))" "sorted_wrt (\<lambda>i j. input_area i \<inter> input_area j = {}) ins"
    "\<exists>ps. fe_phys e1 = concat (List.map input_phys ins) @ ps"
    "sum_list (List.map merged_size ins) \<le> mi_size ?mi1 - mi_used ?mi1"
    using ok e1 by (auto simp: inputs_ok_def)
  moreover have "\<forall>i \<in> set ins. \<forall>j \<in> set ins. \<forall>g \<in> set (input_reads i). block (fifo_start ?mi1 g) (ff_size g) \<inter> input_area j = {}"
    using ok g by (simp add: inputs_ok_def)
  ultimately show "inputs_ok c e1 ins" using i e1(4) by (simp add: inputs_ok_def)
  assume a: "i \<in> set ins" "g \<in> set (input_reads i)"
  have "\<forall>i \<in> set (Merged f gs p # ins). \<forall>j \<in> set (Merged f gs p # ins). \<forall>g \<in> set (input_reads i).
      block (fifo_start ?mi g) (ff_size g) \<inter> input_area j = {}" using ok unfolding inputs_ok_def by (elim conjE)
  from this [rule_format, of i "Merged f gs p" g] a have "block (fifo_start ?mi g) (ff_size g) \<inter> block p (ff_size f) = {}" by simp
  then have "load (fe_heap e1) (fifo_start ?mi g) (ff_size g) = load (fe_heap e) (fifo_start ?mi g) (ff_size g)"
    by (intro load_frame e1(1) [rule_format]) auto
  with g [OF a] show "fifo_bytes (fe_heap e1) ?mi1 g = fifo_bytes (fe_heap e) ?mi g" by (simp add: fifo_bytes_def)
qed

lemma inputs_ok_One: "inputs_ok c e (One f # ins) \<Longrightarrow> inputs_ok c e ins"
  by (simp add: inputs_ok_def)

lemma fill_inputs_all:
  assumes "inputs_ok c e ins" and "length (all_descriptors ins) < k"
  shows "\<exists>e'. fill_inputs k c (length (filter counted ins)) (all_descriptors ins) e = Inr (concat (List.map (input_address c (fe_mi e)) ins), e') \<and>
    (\<forall>i \<in> set ins. input_filled e e' i) \<and> (\<forall>x. x \<notin> \<Union> (input_area ` set ins) \<longrightarrow> fe_heap e' x = fe_heap e x) \<and>
    mi_used (fe_mi e') = mi_used (fe_mi e) + sum_list (List.map merged_size ins)"
  using assms
proof (induction ins arbitrary: k e)
  case Nil
  then show ?case by (simp add: all_descriptors_def)
next
  case (Cons i ins)
  from Cons.prems(2) obtain k' where k: "k = Suc k'" by (cases k) auto
  show ?case
  proof (cases i)
    case (One f)
    have d: "all_descriptors (i # ins) = f # all_descriptors ins" by (simp add: all_descriptors_def One)
    with Cons.prems(2) k have k': "length (all_descriptors ins) < k'" by simp
    from Cons.IH [OF inputs_ok_One [OF Cons.prems(1) [unfolded One]] k'] obtain e' where
      e': "fill_inputs k' c (length (filter counted ins)) (all_descriptors ins) e = Inr (concat (List.map (input_address c (fe_mi e)) ins), e')"
      and rest: "\<forall>i \<in> set ins. input_filled e e' i" "\<forall>x. x \<notin> \<Union> (input_area ` set ins) \<longrightarrow> fe_heap e' x = fe_heap e x"
        "mi_used (fe_mi e') = mi_used (fe_mi e) + sum_list (List.map merged_size ins)" by blast
    have "fill_inputs k c (length (filter counted (i # ins))) (all_descriptors (i # ins)) e =
        Inr (concat (List.map (input_address c (fe_mi e)) (i # ins)), e')"
    proof (cases "ff_attribute f = DUMMY")
      case True
      show ?thesis
      proof (cases "filter counted ins")
        case Nil
        with e' True One show ?thesis by (cases k') (auto simp: counted_def)
      next
        case (Cons j js)
        with e' True One d k show ?thesis by (simp add: counted_def)
      qed
    next
      case False
      have "input_ok c (fe_mi e) (One f)" using Cons.prems(1) One by (simp add: inputs_ok_def)
      from read_one [OF this False] e' False One d k show ?thesis
        by (auto simp add: counted_def simp del: read_fifo.simps)
    qed
    with rest show ?thesis using One by auto
  next
    case (Merged f gs p)
    have d: "all_descriptors (i # ins) = f # gs @ all_descriptors ins" by (simp add: all_descriptors_def Merged)
    let ?ds = "f # gs @ all_descriptors ins"
    from Cons.prems(1) Merged obtain ps where h: "input_ok c (fe_mi e) i" "mi_ok (fe_mi e)" "fe_phys e = p # ps"
      "ff_size f \<le> mi_size (fe_mi e) - mi_used (fe_mi e)"
      "\<forall>g \<in> set gs. block (fifo_start (fe_mi e) g) (ff_size g) \<inter> block p (ff_size f) = {}"
      by (auto simp: inputs_ok_def)
    note ok = h(1) [unfolded Merged, simplified]
    have "\<exists>e1. read_fifo (Suc (length ?ds)) c ?ds e = Inr (p, all_descriptors ins, e1) \<and>
      load (fe_heap e1) p (ff_size f) = concat (List.map (fifo_bytes (fe_heap e) (fe_mi e)) gs) \<and>
      (\<forall>x. x \<notin> block p (ff_size f) \<longrightarrow> fe_heap e1 x = fe_heap e x) \<and>
      mi_used (fe_mi e1) = mi_used (fe_mi e) + ff_size f \<and> mi_size (fe_mi e1) = mi_size (fe_mi e) \<and> mi_ok (fe_mi e1) \<and> fe_phys e1 = ps \<and>
      map_of (mi_map (fe_mi e1)) = (map_of (mi_map (fe_mi e)))(ff_address f \<mapsto> \<lparr>bf_ptr = p, bf_size = ff_size f, bf_count = ff_count f\<rparr>)"
      using ok h by (intro merged_fifo) auto
    then obtain e1 where r: "read_fifo (Suc (length ?ds)) c ?ds e = Inr (p, all_descriptors ins, e1)" and
      e1: "load (fe_heap e1) p (ff_size f) = concat (List.map (fifo_bytes (fe_heap e) (fe_mi e)) gs)"
        "\<forall>x. x \<notin> block p (ff_size f) \<longrightarrow> fe_heap e1 x = fe_heap e x"
        "mi_used (fe_mi e1) = mi_used (fe_mi e) + ff_size f" "mi_size (fe_mi e1) = mi_size (fe_mi e)" "mi_ok (fe_mi e1)" "fe_phys e1 = ps"
        "map_of (mi_map (fe_mi e1)) = (map_of (mi_map (fe_mi e)))(ff_address f \<mapsto> \<lparr>bf_ptr = p, bf_size = ff_size f, bf_count = ff_count f\<rparr>)"
      by blast
    from h(3) e1(6) have ph: "fe_phys e = p # fe_phys e1" by simp
    note later = inputs_ok_merged [OF Cons.prems(1) [unfolded Merged] e1(2-5) ph e1(7)]
    from Cons.prems(2) k have "length (all_descriptors ins) < k'" by (simp add: d)
    from Cons.IH [OF later(1) this] obtain e' where
      e': "fill_inputs k' c (length (filter counted ins)) (all_descriptors ins) e1 = Inr (concat (List.map (input_address c (fe_mi e1)) ins), e')"
        "\<forall>i \<in> set ins. input_filled e1 e' i" "\<forall>x. x \<notin> \<Union> (input_area ` set ins) \<longrightarrow> fe_heap e' x = fe_heap e1 x"
        "mi_used (fe_mi e') = mi_used (fe_mi e1) + sum_list (List.map merged_size ins)" by blast
    have adr: "List.map (input_address c (fe_mi e1)) ins = List.map (input_address c (fe_mi e)) ins" using later(2) by simp
    have run: "fill_inputs k c (length (filter counted (i # ins))) (all_descriptors (i # ins)) e =
        Inr (concat (List.map (input_address c (fe_mi e)) (i # ins)), e')"
      using r e'(1) ok by (simp add: k d [unfolded Merged] Merged counted_def adr del: read_fifo.simps)
    have "sorted_wrt (\<lambda>i j. input_area i \<inter> input_area j = {}) (i # ins)" using Cons.prems(1) unfolding inputs_ok_def by (elim conjE)
    then have "\<forall>j \<in> set ins. block p (ff_size f) \<inter> input_area j = {}" by (simp add: Merged)
    then have "\<Union> (input_area ` set ins) \<inter> block p (ff_size f) = {}" by blast
    then have "load (fe_heap e') p (ff_size f) = load (fe_heap e1) p (ff_size f)"
      by (intro load_frame e'(3) [rule_format]) auto
    with e1(1) have first: "input_filled e e' i" by (simp add: Merged)
    have "input_filled e e' j" if j: "j \<in> set ins" for j
    proof (cases j)
      case (Merged f' gs' p')
      have "List.map (fifo_bytes (fe_heap e1) (fe_mi e1)) gs' = List.map (fifo_bytes (fe_heap e) (fe_mi e)) gs'"
        using later(3) [OF j] Merged by simp
      moreover have "input_filled e1 e' j" using e'(2) j by blast
      ultimately show ?thesis unfolding Merged input_filled.simps by (simp only:)
    qed simp
    moreover have "fe_heap e' x = fe_heap e x" if "x \<notin> \<Union> (input_area ` set (i # ins))" for x
      using that e'(3) e1(2) Merged by simp
    ultimately show ?thesis using run first e'(4) e1(3) Merged by (intro exI [of _ e']) simp
  qed
qed

text \<open>
  C39. The input buffers of a job, for descriptors as the allocators build them (plain, external, sink and dummy FIFOs and merges of
  plain parts; no repetition): if the merged buffers fit in the free memory, at new addresses apart from each other and from the parts,
  \<open>getInputBuffers\<close> succeeds with exactly one buffer per input that ins no dummy, in order: the buffer of a plain FIFO at its offset, the
  external buffer, null for a sink or an empty FIFO, and for a merge a new buffer that holds the concatenation of its parts. No byte
  outside the merged buffers changes, and the memory interface accounts for them exactly.
\<close>

theorem input_buffers_one_per_fifo:
  assumes "inputs_ok c e ins"
  shows "\<exists>bs e'. getInputBuffers c (all_descriptors ins) e = Inr (bs, e') \<and> length bs = length (filter counted ins) \<and>
    bs = concat (List.map (input_address c (fe_mi e)) ins) \<and> (\<forall>i \<in> set ins. input_filled e e' i) \<and>
    (\<forall>x. x \<notin> \<Union> (input_area ` set ins) \<longrightarrow> fe_heap e' x = fe_heap e x) \<and>
    mi_used (fe_mi e') = mi_used (fe_mi e) + sum_list (List.map merged_size ins)"
proof -
  have ok: "\<forall>i \<in> set ins. input_ok c (fe_mi e) i" using assms by (simp add: inputs_ok_def)
  have c: "count_buffers (Suc (length (all_descriptors ins))) (all_descriptors ins) 0 = Inr (0 + length (filter counted ins))"
    by (rule count_inputs [OF ok]) simp
  have "length (concat (List.map (input_address c (fe_mi e)) ins)) = length (filter counted ins)"
    by (induction ins) (auto simp: counted_def split: input.split)
  with fill_inputs_all [OF assms lessI] c show ?thesis
    by (auto simp: getInputBuffers_def simp del: count_buffers.simps fill_inputs.simps)
qed

definition demo_inputs :: "input list" where
  "demo_inputs = [One (demo_fifo 0 2 0 0 RW_OWN), One (demo_fifo 0 0 0 0 DUMMY),
     Merged (demo_fifo 6 5 2 1 R_MERGE) [demo_fifo 0 3 1 0 RW_OWN, demo_fifo 4 2 0 0 RW_OWN] 300, One (demo_fifo 9 0 0 0 W_SINK)]"

lemma demo_inputs_ok: "inputs_ok c demo_fifo_env demo_inputs"
proof -
  have "mi_ok (fe_mi demo_fifo_env)" by (simp add: demo_fifo_env_def mi_ok_def live_bytes_def)
  then show ?thesis
    by (simp add: inputs_ok_def demo_inputs_def demo_fifo_def)
      (simp add: demo_fifo_env_def plain_fifo_def fifo_start_def in_i32_def block_disjoint_iff)
qed

lemma input_buffers_one_per_fifo_witness:
  "\<exists>e'. getInputBuffers \<lparr>fc_debug = True, fc_extern = (\<lambda>a. Inl Spider_Exception)\<rparr> (all_descriptors demo_inputs) demo_fifo_env =
     Inr ([100, 300, 0], e') \<and> load (fe_heap e') 300 5 = [101, 102, 103, 200, 201] \<and> mi_used (fe_mi e') = 11"
proof -
  let ?c = "\<lparr>fc_debug = True, fc_extern = (\<lambda>a. Inl Spider_Exception)\<rparr> :: fifo_ctx"
  let ?m = "Merged (demo_fifo 6 5 2 1 R_MERGE) [demo_fifo 0 3 1 0 RW_OWN, demo_fifo 4 2 0 0 RW_OWN] 300"
  from input_buffers_one_per_fifo [OF demo_inputs_ok, of ?c] obtain e' where
    e': "getInputBuffers ?c (all_descriptors demo_inputs) demo_fifo_env = Inr (concat (List.map (input_address ?c (fe_mi demo_fifo_env)) demo_inputs), e')"
      "\<forall>i \<in> set demo_inputs. input_filled demo_fifo_env e' i"
      "mi_used (fe_mi e') = mi_used (fe_mi demo_fifo_env) + sum_list (List.map merged_size demo_inputs)" by blast
  have adr: "concat (List.map (input_address ?c (fe_mi demo_fifo_env)) demo_inputs) = [100, 300, 0]"
    by (simp add: demo_inputs_def demo_fifo_def demo_fifo_env_def fifo_start_def)
  have used: "mi_used (fe_mi demo_fifo_env) + sum_list (List.map merged_size demo_inputs) = 11"
    by (simp add: demo_inputs_def demo_fifo_def demo_fifo_env_def)
  have bytes: "concat (List.map (fifo_bytes (fe_heap demo_fifo_env) (fe_mi demo_fifo_env)) [demo_fifo 0 3 1 0 RW_OWN, demo_fifo 4 2 0 0 RW_OWN]) =
      [101, 102, 103, 200, 201]" and size: "ff_size (demo_fifo 6 5 2 1 R_MERGE) = 5"
    by (simp_all add: demo_fifo_def demo_fifo_env_def fifo_bytes_def fifo_start_def load_def upt_rec)
  have "?m \<in> set demo_inputs" by (simp add: demo_inputs_def)
  with e'(2) have "input_filled demo_fifo_env e' ?m" by blast
  then have "load (fe_heap e') 300 5 = [101, 102, 103, 200, 201]" unfolding input_filled.simps bytes size .
  with e' show ?thesis unfolding adr used by blast
qed

text \<open>
  A repetition is counted with its input as two buffers, while its reader takes both descriptors: the reading of the second buffer starts
  behind the last descriptor. No run of the code on such descriptors returns.
\<close>

theorem repetition_never_returns:
  assumes "ff_attribute f = R_REPEAT" and "ff_attribute g \<noteq> R_MERGE" and "ff_attribute g \<noteq> DUMMY"
  shows "getInputBuffers c [f, g] e \<noteq> Inr r"
proof
  assume "getInputBuffers c [f, g] e = Inr r"
  with assms obtain p rest e1 r2 where r: "read_fifo (Suc (Suc (Suc 0))) c [f, g] e = Inr (p, rest, e1)"
    and f: "fill_inputs (Suc (Suc 0)) c (Suc 0) rest e1 = Inr r2"
    by (auto simp: getInputBuffers_def Let_def simp del: read_fifo.simps)
  from r assms(1) obtain x e2 e3 where "read_fifo (Suc (Suc 0)) c [g] e2 = Inr (x, rest, e3)"
    by (subst (asm) read_fifo.simps(2)) (auto simp del: read_fifo.simps split: if_splits)
  from consumes_frontD [OF read_fifo_consumes this] have "rest = []" by (auto simp: Cons_eq_append_conv)
  with f show False by simp
qed

lemma repetition_never_returns_witness:
  "getInputBuffers \<lparr>fc_debug = True, fc_extern = (\<lambda>a. Inl Spider_Exception)\<rparr>
     [demo_fifo 6 4 0 1 R_REPEAT, demo_fifo 0 2 0 0 RW_OWN] demo_fifo_env \<noteq> Inr r"
  by (rule repetition_never_returns) (simp_all add: demo_fifo_def)

lemma mi_deallocate_many:
  assumes "mi_ok mi" "map_of (mi_map mi) a = Some b" "in_i32 (bf_count b)" "0 < n" "int k \<le> bf_count b" "0 < bf_count b"
  shows "\<exists>mi'. foldE (\<lambda>mi _. mi_deallocate debug mi a n) mi [0..<k] = Inr mi' \<and> mi_ok mi' \<and> mi_size mi' = mi_size mi \<and>
    mi_used mi' = mi_used mi - (if int k = bf_count b then bf_size b else 0) \<and>
    map_of (mi_map mi') = (map_of (mi_map mi))(a \<mapsto> b\<lparr>bf_count := bf_count b - int k\<rparr>)"
  using assms(5)
proof (induction k)
  case 0
  with assms show ?case by (auto simp: fun_upd_idem_iff)
next
  case (Suc k)
  then obtain m1 where m1: "foldE (\<lambda>mi _. mi_deallocate debug mi a n) mi [0..<k] = Inr m1" "mi_ok m1" "mi_size m1 = mi_size mi"
      "mi_used m1 = mi_used mi - (if int k = bf_count b then bf_size b else 0)"
      "map_of (mi_map m1) = (map_of (mi_map mi))(a \<mapsto> b\<lparr>bf_count := bf_count b - int k\<rparr>)" by fastforce
  have u: "mi_used m1 = mi_used mi" using m1(4) Suc.prems by simp
  let ?b = "b\<lparr>bf_count := bf_count b - int k\<rparr>"
  have b: "map_of (mi_map m1) a = Some ?b" "0 < bf_count ?b" "in_i32 (bf_count ?b)"
    using m1(5) Suc.prems assms(3) by (simp_all add: in_i32_def)
  from mi_deallocate_ok [OF m1(2) b assms(4), of debug] obtain m2 where
    m2: "mi_deallocate debug m1 a n = Inr m2" "mi_ok m2" "mi_size m2 = mi_size m1"
      "mi_used m2 = mi_used m1 - (if bf_count ?b = 1 then bf_size ?b else 0)"
      "map_of (mi_map m2) = (map_of (mi_map m1))(a \<mapsto> ?b\<lparr>bf_count := bf_count ?b - 1\<rparr>)" by blast
  have e: "bf_count b - int k = 1 \<longleftrightarrow> int (Suc k) = bf_count b" by auto
  have "?b\<lparr>bf_count := bf_count ?b - 1\<rparr> = b\<lparr>bf_count := bf_count b - int (Suc k)\<rparr>" by simp
  with m1 m2 e u show ?case by (intro exI [of _ m2]) (simp add: foldE_append diff_diff_eq add.commute)
qed

text \<open>
  Reference counting of a buffer: an allocation with a positive count succeeds exactly when the room is there, and then
  the accounting charges the buffer until it has been deallocated as many times as its count, neither earlier nor later; the
  accounted bytes always equal the bytes of the buffers still counted on.
\<close>

theorem memory_interface_refcount:
  assumes "mi_ok mi" "0 < n" "n < u64_max" "0 < count" "in_i32 count" "phys \<noteq> 0"
    and "\<forall>b. map_of (mi_map mi) a = Some b \<longrightarrow> bf_count b = 0" "int k \<le> count"
  shows "if n \<le> mi_size mi - mi_used mi
    then \<exists>mi1 mi2. mi_allocate mi a n count phys = Inr (phys, mi1) \<and> mi_used mi1 = mi_used mi + n \<and>
      foldE (\<lambda>mi _. mi_deallocate debug mi a n) mi1 [0..<k] = Inr mi2 \<and>
      mi_used mi2 = (if int k = count then mi_used mi else mi_used mi + n) \<and> mi_ok mi1 \<and> mi_ok mi2
    else mi_allocate mi a n count phys = Inl Spider_Exception"
proof (cases "n \<le> mi_size mi - mi_used mi")
  case True
  with mi_allocate_ok [OF assms(1-4,6,7)] obtain mi1 where
    m1: "mi_allocate mi a n count phys = Inr (phys, mi1)" "mi_ok mi1" "mi_used mi1 = mi_used mi + n"
      "map_of (mi_map mi1) = (map_of (mi_map mi))(a \<mapsto> \<lparr>bf_ptr = phys, bf_size = n, bf_count = count\<rparr>)" by auto
  then have b: "map_of (mi_map mi1) a = Some \<lparr>bf_ptr = phys, bf_size = n, bf_count = count\<rparr>" by simp
  from mi_deallocate_many [OF m1(2) b, of n k debug] assms obtain mi2 where
    "foldE (\<lambda>mi _. mi_deallocate debug mi a n) mi1 [0..<k] = Inr mi2" "mi_ok mi2"
      "mi_used mi2 = mi_used mi1 - (if int k = count then n else 0)" by auto
  with m1 True show ?thesis by auto
next
  case False
  with mi_allocate_ok [OF assms(1-4,6,7)] show ?thesis by simp
qed

lemma memory_interface_refcount_witness:
  "\<exists>mi1 mi2. mi_allocate (memory_interface_new 10) 0 8 2 64 = Inr (64, mi1) \<and>
     foldE (\<lambda>mi _. mi_deallocate True mi 0 8) mi1 [0..<2] = Inr mi2 \<and> mi_used mi1 = 8 \<and> mi_used mi2 = 0"
proof -
  have "mi_ok (memory_interface_new 10)" "(0::nat) < 8" "8 < u64_max" "(0::int) < 2" "in_i32 2" "(64::nat) \<noteq> 0"
    "\<forall>b. map_of (mi_map (memory_interface_new 10)) 0 = Some b \<longrightarrow> bf_count b = 0" "int 2 \<le> 2"
    by (simp_all add: memory_interface_new_def mi_ok_def live_bytes_def in_i32_def)
  from memory_interface_refcount [OF this, of True] show ?thesis
    by (auto simp: memory_interface_new_def)
qed

end
