(* ===== verification/Runner.thy ===== *)
theory Runner
  imports FifoAlloc Communicator Archi
begin

text \<open>
  The run-time side: \<open>RTRunner\<close>, \<open>JITMSRTRunner\<close> and \<open>RTPlatform\<close>. A runner executes the jobs of one local runtime in the order
  in which it receives them; before a job it waits for the jobs of the other runners that the job depends on, whose
  progress it learns by notifications. The loop of \<open>run\<close> is cut where the thread takes from its notification queue, so
  that the threads of several runners can be interleaved: \<open>runner_pc\<close> is the place in the loop, and \<open>None\<close> is a thread that
  blocks. What is traced is not modelled, the flag that enables traces is.
\<close>

subsection \<open>Messages\<close>

record sync_info =
  sy_lrt :: nat
  sy_job :: nat

record job_message =
  jm_constraints :: "sync_info list"
  jm_fifos :: job_fifos
  jm_params :: "int list"
  jm_flags :: "bool list option"
  jm_kernelIx :: nat
  jm_execIx :: nat
  jm_taskIx :: nat
  jm_nParamsOut :: nat

text \<open>A kernel is code of the application: it reads its parameters and buffers, writes its output parameters and the memory.\<close>

type_synonym rt_kernel = "int list \<Rightarrow> int list \<Rightarrow> nat list \<Rightarrow> nat list \<Rightarrow> heap \<Rightarrow> (int list \<times> heap) result"

type_synonym rt_comm = "(job_message, nat \<times> int list, unit) comm"

text \<open>What the runners share: the communicator, the memory and the array of the runners that have finished.\<close>

record rt_env =
  re_comm :: rt_comm
  re_mi :: "memory_interface list"
  re_heap :: heap
  re_phys :: "nat list"
  re_finished :: "bool list"

text \<open>What does not change: \<open>LRTCount()\<close>, the index of the local runtime of the GRT, the kernels.\<close>

record rt_config =
  rt_lrtCount :: nat
  rt_grtIx :: nat
  rt_kernels :: "rt_kernel option list"
  rt_fifo :: fifo_ctx

record runner =
  rn_ix :: nat
  rn_isGRT :: bool              \<comment> \<open>\<open>attachedPE_ == spiderGRTPE()\<close>\<close>
  rn_peIx :: nat                \<comment> \<open>\<open>attachedPE_->virtualIx()\<close>\<close>
  rn_lrtIx :: nat               \<comment> \<open>\<open>attachedPE_->attachedLRT()->virtualIx()\<close>\<close>
  rn_mi :: nat                  \<comment> \<open>the memory interface of its cluster\<close>
  rn_queue :: "job_message list"
  rn_stamps :: "nat list"
  rn_pos :: nat
  rn_jobCount :: nat
  rn_last :: nat
  rn_start :: bool
  rn_end :: bool                \<comment> \<open>\<open>receivedEnd_\<close>\<close>
  rn_finished :: bool
  rn_stop :: bool
  rn_pause :: bool
  rn_trace :: bool
  rn_repeat :: bool
  rn_broadcast :: bool

definition runner_new :: "nat \<Rightarrow> bool \<Rightarrow> nat \<Rightarrow> nat \<Rightarrow> nat \<Rightarrow> bool \<Rightarrow> nat \<Rightarrow> runner" where
  "runner_new lrtCount isGRT pe lrt mi traced ix =
     \<lparr>rn_ix = ix, rn_isGRT = isGRT, rn_peIx = pe, rn_lrtIx = lrt, rn_mi = mi, rn_queue = [],
      rn_stamps = replicate lrtCount size_max, rn_pos = 0, rn_jobCount = 0, rn_last = 0, rn_start = False, rn_end = False,
      rn_finished = True, rn_stop = False, rn_pause = False, rn_trace = traced, rn_repeat = False, rn_broadcast = False\<rparr>"

subsection \<open>The platform\<close>

definition rt_getKernel :: "rt_config \<Rightarrow> nat \<Rightarrow> rt_kernel option" where
  "rt_getKernel c ix = (if ix \<ge> length (rt_kernels c) then None else rt_kernels c ! ix)"

definition registerFinishedRunner :: "nat \<Rightarrow> rt_env \<Rightarrow> rt_env result" where
  "registerFinishedRunner ix e =
     (if ix < length (re_finished e) then Inr (e\<lparr>re_finished := (re_finished e)[ix := True]\<rparr>) else Inl Out_Of_Range)"

definition rt_push :: "notification \<Rightarrow> nat \<Rightarrow> rt_env \<Rightarrow> rt_env result" where
  "rt_push n receiver e = bindE (push_notification (re_comm e) n receiver) (\<lambda>c. Inr (e\<lparr>re_comm := c\<rparr>))"

definition push_to_all :: "rt_config \<Rightarrow> notification \<Rightarrow> rt_env \<Rightarrow> rt_env result" where
  "push_to_all c n e = foldE (\<lambda>e i. rt_push n i e) e [0..<rt_lrtCount c]"

definition sendStartIteration :: "rt_config \<Rightarrow> rt_env \<Rightarrow> rt_env result" where
  "sendStartIteration c = push_to_all c (notification_new LRT_START_ITERATION (rt_grtIx c) size_max)"
definition sendEndIteration :: "rt_config \<Rightarrow> rt_env \<Rightarrow> rt_env result" where
  "sendEndIteration c = push_to_all c (notification_new LRT_END_ITERATION (rt_grtIx c) size_max)"
definition sendDelayedBroadCastToRunners :: "rt_config \<Rightarrow> rt_env \<Rightarrow> rt_env result" where
  "sendDelayedBroadCastToRunners c = push_to_all c (notification_new JOB_DELAY_BROADCAST_JOBSTAMP (rt_grtIx c) size_max)"
definition sendClearToRunners :: "rt_config \<Rightarrow> rt_env \<Rightarrow> rt_env result" where
  "sendClearToRunners c = push_to_all c (notification_new LRT_CLEAR_ITERATION (rt_grtIx c) size_max)"
definition sendResetToRunners :: "rt_config \<Rightarrow> rt_env \<Rightarrow> rt_env result" where
  "sendResetToRunners c = push_to_all c (notification_new LRT_RST_ITERATION (rt_grtIx c) size_max)"
definition sendRepeatToRunners :: "rt_config \<Rightarrow> bool \<Rightarrow> rt_env \<Rightarrow> rt_env result" where
  "sendRepeatToRunners c b =
     push_to_all c (notification_new (if b then LRT_REPEAT_ITERATION_EN else LRT_REPEAT_ITERATION_DIS) (rt_grtIx c) size_max)"
definition sendTraceToRunners :: "rt_config \<Rightarrow> bool \<Rightarrow> rt_env \<Rightarrow> rt_env result" where
  "sendTraceToRunners c b = push_to_all c (notification_new (if b then TRACE_ENABLE else TRACE_DISABLE) (rt_grtIx c) size_max)"

text \<open>
  \<open>waitForRunnersToFinish\<close>, with the notifications that are in the queue of the GRT: it takes them until every runner is registered,
  and pushes those of another type back at the end. \<open>None\<close>: it blocks.
\<close>

fun take_finished :: "bool list \<Rightarrow> notification list \<Rightarrow> notification list \<Rightarrow> nat list \<Rightarrow>
    (bool list \<times> notification list \<times> notification list) option result" where
  "take_finished fin ns kept [] = Inr (Some (fin, ns, kept))"
| "take_finished fin ns kept (i # is) =
     (if i \<ge> length fin then Inl Out_Of_Range
      else if fin ! i then take_finished fin ns kept is
      else case ns of [] \<Rightarrow> Inr None
        | n # rest \<Rightarrow> if nt_type n = LRT_FINISHED_ITERATION then take_finished (fin[i := True]) rest kept is
            else take_finished fin rest (kept @ [n]) (i # is))"

definition waitForRunnersToFinish :: "rt_config \<Rightarrow> rt_env \<Rightarrow> rt_env option result" where
  "waitForRunnersToFinish c e =
     bindE (notification_queue (re_comm e) (rt_grtIx c)) (\<lambda>ns.
     bindE (take_finished (re_finished e) ns [] [0..<rt_lrtCount c]) (\<lambda>r. case r of None \<Rightarrow> Inr None
       | Some (fin, rest, kept) \<Rightarrow>
           Inr (Some (e\<lparr>re_comm := (re_comm e)\<lparr>cm_notifications := (cm_notifications (re_comm e))[rt_grtIx c := Some (rest @ kept)]\<rparr>,
                        re_finished := replicate (length fin) False\<rparr>))))"

subsection \<open>The operations of a runner\<close>

definition clearLocalJobStamps :: "runner \<Rightarrow> runner" where
  "clearLocalJobStamps r = r\<lparr>rn_stamps := replicate (length (rn_stamps r)) size_max\<rparr>"
definition clearJobQueue :: "runner \<Rightarrow> runner" where
  "clearJobQueue r = r\<lparr>rn_pos := 0, rn_queue := []\<rparr>"
definition rtrunner_reset :: "runner \<Rightarrow> runner" where
  "rtrunner_reset r = (clearLocalJobStamps r)\<lparr>rn_pos := 0\<rparr>"
definition runner_reset :: "runner \<Rightarrow> runner" where
  "runner_reset r = (rtrunner_reset r)\<lparr>rn_jobCount := 0, rn_last := size_max, rn_broadcast := False, rn_start := False, rn_end := False,
     rn_finished := True\<rparr>"
definition runner_clear :: "runner \<Rightarrow> runner" where
  "runner_clear r = (clearJobQueue (clearLocalJobStamps r))\<lparr>rn_jobCount := 0, rn_last := size_max, rn_broadcast := False,
     rn_start := False, rn_end := False, rn_finished := True\<rparr>"

definition updateJobStamp :: "nat \<Rightarrow> nat \<Rightarrow> runner \<Rightarrow> runner result" where
  "updateJobStamp lrt stamp r =
     bindE (Prelude.at (rn_stamps r) lrt) (\<lambda>s. Inr (if s = size_max \<or> s < stamp then r\<lparr>rn_stamps := (rn_stamps r)[lrt := stamp]\<rparr> else r))"

text \<open>A constraint on the runner itself that does not hold is an error: the job would wait for a later one.\<close>

fun runnable :: "runner \<Rightarrow> sync_info list \<Rightarrow> bool result" where
  "runnable r [] = Inr True"
| "runnable r (y # ys) =
     bindE (get_at (rn_stamps r) (sy_lrt y)) (\<lambda>s.
       if s = size_max \<or> s < sy_job y then (if sy_lrt y = rn_ix r then Inl Spider_Exception else Inr False)
       else runnable r ys)"

definition isJobRunnable :: "runner \<Rightarrow> job_message \<Rightarrow> bool result" where
  "isJobRunnable r j = runnable r (jm_constraints j)"

definition broadcastCurrentJobStamp :: "rt_config \<Rightarrow> runner \<Rightarrow> rt_env \<Rightarrow> rt_env result" where
  "broadcastCurrentJobStamp c r e =
     (if rn_last r = size_max then Inr e
      else foldE (\<lambda>e i. if i \<noteq> rn_ix r then rt_push (notification_new JOB_UPDATE_JOBSTAMP (rn_ix r) (rn_last r)) i e else Inr e)
        e [0..<rt_lrtCount c])"

definition sendFinishedNotification :: "rt_config \<Rightarrow> runner \<Rightarrow> rt_env \<Rightarrow> rt_env result" where
  "sendFinishedNotification c r e =
     (if rn_isGRT r then registerFinishedRunner (rn_lrtIx r) e
      else rt_push (notification_new LRT_FINISHED_ITERATION (rn_ix r) size_max) (rt_grtIx c) e)"

definition sendJobStampNotification :: "rt_config \<Rightarrow> runner \<Rightarrow> bool list option \<Rightarrow> nat \<Rightarrow> rt_env \<Rightarrow> rt_env result" where
  "sendJobStampNotification c r flags jobIx e =
     (case flags of None \<Rightarrow> Inr e
      | Some fs \<Rightarrow> if jobIx = size_max then Inr e
          else foldE (\<lambda>e i. bindE (get_at fs i) (\<lambda>b.
                 if b \<and> i \<noteq> rn_ix r then rt_push (notification_new JOB_UPDATE_JOBSTAMP (rn_ix r) jobIx) i e else Inr e))
               e [0..<rt_lrtCount c])"

definition sendParameters :: "runner \<Rightarrow> nat \<Rightarrow> int list \<Rightarrow> rt_env \<Rightarrow> rt_env result" where
  "sendParameters r vertexIx ps e =
     (if ps = [] then Inr e
      else bindE (push_paramMessage (re_comm e) (vertexIx, ps)) (\<lambda>(ix, c).
        Inr (e\<lparr>re_comm := pushParamNotification c (rn_peIx r) ix\<rparr>)))"

text \<open>
  What a job does to the memory: its buffers are looked up or allocated, the kernel runs, the buffers it owns are released
  (all descriptors are visited, those merged into another one included).
\<close>

definition release_fifos :: "bool \<Rightarrow> (fifo_attribute \<Rightarrow> bool) \<Rightarrow> fifo list \<Rightarrow> memory_interface \<Rightarrow> memory_interface result" where
  "release_fifos debug owns fs mi =
     foldE (\<lambda>mi f. if owns (ff_attribute f) then mi_deallocate debug mi (ff_address f) (ff_size f) else Inr mi) mi fs"

definition written :: "fifo option list \<Rightarrow> fifo list result" where
  "written fs = mapE (\<lambda>f. case f of None \<Rightarrow> Inl Undefined_Behaviour | Some f \<Rightarrow> Inr f) fs"

definition job_effect :: "rt_config \<Rightarrow> job_message \<Rightarrow> fifo_env \<Rightarrow> (int list \<times> fifo_env) result" where
  "job_effect c j m =
     bindE (written (jf_inputs (jm_fifos j))) (\<lambda>ins. bindE (written (jf_outputs (jm_fifos j))) (\<lambda>outs.
     bindE (getInputBuffers (rt_fifo c) ins m) (\<lambda>(inBuffers, m1).
     bindE (getOutputBuffers (rt_fifo c) outs m1) (\<lambda>(outBuffers, m2).
     let outputParams = replicate (jm_nParamsOut j) 0 in
     bindE (case rt_getKernel c (jm_kernelIx j) of None \<Rightarrow> Inr (outputParams, fe_heap m2)
            | Some k \<Rightarrow> k (jm_params j) outputParams inBuffers outBuffers (fe_heap m2)) (\<lambda>(ps, h).
     bindE (release_fifos (fc_debug (rt_fifo c)) (\<lambda>a. a = RW_OWN \<or> a = R_MERGE) ins (fe_mi m2)) (\<lambda>mi1.
     bindE (release_fifos (fc_debug (rt_fifo c)) (\<lambda>a. a = W_SINK) outs mi1) (\<lambda>mi2.
       Inr (ps, m2\<lparr>fe_mi := mi2, fe_heap := h\<rparr>))))))))"

definition runJob :: "rt_config \<Rightarrow> runner \<Rightarrow> job_message \<Rightarrow> rt_env \<Rightarrow> (runner \<times> rt_env) result" where
  "runJob c r j e =
     bindE (get_at (re_mi e) (rn_mi r)) (\<lambda>mi.
     bindE (job_effect c j \<lparr>fe_mi = mi, fe_heap = re_heap e, fe_phys = re_phys e\<rparr>) (\<lambda>(ps, m).
     let e1 = e\<lparr>re_mi := (re_mi e)[rn_mi r := fe_mi m], re_heap := fe_heap m, re_phys := fe_phys m\<rparr> in
     bindE (updateJobStamp (rn_ix r) (jm_execIx j) r) (\<lambda>r1.
     bindE (sendJobStampNotification c r1 (jm_flags j) (jm_execIx j) e1) (\<lambda>e2.
     bindE (sendParameters r1 (jm_taskIx j) ps e2) (\<lambda>e3. Inr (r1, e3))))))"

subsection \<open>Notifications\<close>

text \<open>
  \<open>MEM_UPDATE_COUNT\<close> comes in two parts: the second one is taken from further in the queue, and what is before it goes to the end.
  \<open>None\<close>: it is not there yet. The code pops and pushes the notifications in between one by one; they are moved here in one step, as if
  nothing arrived meanwhile. A thread that waits for the second part of a nonempty queue spins, turning the queue round and round; here it
  waits and the queue stays as it is.
\<close>

fun take_second :: "notification list \<Rightarrow> notification list \<Rightarrow> (notification \<times> notification list) option" where
  "take_second passed [] = None"
| "take_second passed (n # ns) = (if nt_type n = MEM_UPDATE_COUNT then Some (n, ns @ passed) else take_second (passed @ [n]) ns)"

definition set_queue :: "nat \<Rightarrow> notification list \<Rightarrow> rt_env \<Rightarrow> rt_env" where
  "set_queue i ns e = e\<lparr>re_comm := (re_comm e)\<lparr>cm_notifications := (cm_notifications (re_comm e))[i := Some ns]\<rparr>\<rparr>"

definition handle_memory :: "rt_config \<Rightarrow> notification \<Rightarrow> runner \<Rightarrow> rt_env \<Rightarrow> rt_env option result" where
  "handle_memory c n r e =
     bindE (notification_queue (re_comm e) (rn_ix r)) (\<lambda>ns. case take_second [] ns of None \<Rightarrow> Inr None
       | Some (n2, rest) \<Rightarrow>
           let e1 = set_queue (rn_ix r) rest e; k = nt_ix n2 mod 2 ^ 32; count = (if k < 2 ^ 31 then int k else int k - 2 ^ 32) in
           bindE (get_at (re_mi e1) (rn_mi r)) (\<lambda>mi. bindE (mi_update (fc_debug (rt_fifo c)) mi (nt_ix n) count) (\<lambda>mi'.
             Inr (Some (e1\<lparr>re_mi := (re_mi e1)[rn_mi r := mi']\<rparr>)))))"

text \<open>The switch of \<open>readNotification\<close>; the boolean is what it returns.\<close>

definition handle :: "rt_config \<Rightarrow> notification \<Rightarrow> runner \<Rightarrow> rt_env \<Rightarrow> (bool \<times> runner \<times> rt_env) option result" where
  "handle c n r e =
     (case nt_type n of
        LRT_START_ITERATION \<Rightarrow>
          if rn_finished r then Inr (Some (True, r\<lparr>rn_start := True, rn_finished := False, rn_jobCount := 0, rn_pos := 0\<rparr>, e))
          else bindE (rt_push n (rn_ix r) e) (\<lambda>e1. Inr (Some (False, r, e1)))
      | LRT_END_ITERATION \<Rightarrow>
          if \<not> rn_start r then Inl Spider_Exception
          else Inr (Some (True, r\<lparr>rn_end := True, rn_jobCount := length (rn_queue r)\<rparr>, e))
      | LRT_CLEAR_ITERATION \<Rightarrow>
          bindE (get_at (re_mi e) (rn_mi r)) (\<lambda>mi. Inr (Some (True, runner_clear r, e\<lparr>re_mi := (re_mi e)[rn_mi r := mi_collect mi]\<rparr>)))
      | LRT_RST_ITERATION \<Rightarrow> Inr (Some (True, runner_reset r, e))
      | LRT_FINISHED_ITERATION \<Rightarrow>
          if \<not> rn_isGRT r then Inl Spider_Exception
          else bindE (registerFinishedRunner (nt_sender n) e) (\<lambda>e1. Inr (Some (True, r, e1)))
      | LRT_REPEAT_ITERATION_EN \<Rightarrow> Inr (Some (True, r\<lparr>rn_repeat := True\<rparr>, e))
      | LRT_REPEAT_ITERATION_DIS \<Rightarrow> Inr (Some (True, r\<lparr>rn_repeat := False\<rparr>, e))
      | LRT_STOP \<Rightarrow> Inr (Some (True, r\<lparr>rn_stop := True\<rparr>, e))
      | LRT_PAUSE \<Rightarrow> Inr (Some (True, r\<lparr>rn_pause := True\<rparr>, e))
      | LRT_RESUME \<Rightarrow> Inr (Some (True, r\<lparr>rn_pause := False\<rparr>, e))
      | TRACE_ENABLE \<Rightarrow> Inr (Some (True, r\<lparr>rn_trace := True\<rparr>, e))
      | TRACE_DISABLE \<Rightarrow> Inr (Some (True, r\<lparr>rn_trace := False\<rparr>, e))
      | JOB_ADD \<Rightarrow>
          bindE (pop_job (re_comm e) (nt_ix n)) (\<lambda>(j, c1).
            Inr (Some (True, if rn_start r then r\<lparr>rn_queue := rn_queue r @ [j]\<rparr> else r, e\<lparr>re_comm := c1\<rparr>)))
      | JOB_CLEAR_QUEUE \<Rightarrow> Inr (Some (True, (clearJobQueue r)\<lparr>rn_jobCount := 0\<rparr>, e))
      | JOB_BROADCAST_JOBSTAMP \<Rightarrow> bindE (broadcastCurrentJobStamp c r e) (\<lambda>e1. Inr (Some (True, r, e1)))
      | JOB_DELAY_BROADCAST_JOBSTAMP \<Rightarrow> Inr (Some (True, r\<lparr>rn_broadcast := True\<rparr>, e))
      | JOB_UPDATE_JOBSTAMP \<Rightarrow>
          if nt_sender n = size_max then Inl Spider_Exception
          else bindE (updateJobStamp (nt_sender n) (nt_ix n) r) (\<lambda>r1. Inr (Some (True, r1, e)))
      | MEM_UPDATE_COUNT \<Rightarrow> bindE (handle_memory c n r e) (\<lambda>e1. Inr (map_option (\<lambda>e1. (True, r, e1)) e1))
      | _ \<Rightarrow> Inr (Some (True, r, e)))"

definition readNotification :: "rt_config \<Rightarrow> bool \<Rightarrow> runner \<Rightarrow> rt_env \<Rightarrow> (bool \<times> runner \<times> rt_env) option result" where
  "readNotification c blocking r e =
     bindE (if blocking then pop_notification (re_comm e) (rn_ix r) else try_pop_notification (re_comm e) (rn_ix r)) (\<lambda>p.
       case p of None \<Rightarrow> if blocking then Inr None else Inr (Some (False, r, e))
         | Some (n, c1) \<Rightarrow> handle c n r (e\<lparr>re_comm := c1\<rparr>))"

subsection \<open>The loop of a runner\<close>

text \<open>
  \<open>Loop w\<close>: before the test of the outer loop, with \<open>waitForJob = w\<close>; \<open>Reading b w\<close>: before the test of the inner loop, with
  \<open>blockingPop = b\<close>; \<open>Acting w\<close>: after it; \<open>Returned\<close>.
\<close>

datatype runner_pc = Loop bool | Reading bool bool | Acting bool | Returned

definition finish_iteration :: "rt_config \<Rightarrow> runner \<Rightarrow> rt_env \<Rightarrow> (runner \<times> rt_env) result" where
  "finish_iteration c r e =
     bindE (if rn_broadcast r then broadcastCurrentJobStamp c (r\<lparr>rn_broadcast := False\<rparr>) e else Inr e) (\<lambda>e1.
     let r1 = (if rn_repeat r then r else clearJobQueue r)\<lparr>rn_broadcast := False, rn_finished := True, rn_start := False, rn_end := False\<rparr> in
     bindE (sendFinishedNotification c r1 e1) (\<lambda>e2. Inr (r1, e2)))"

text \<open>The rest of the body: at most one job, then the test of the end of the iteration.\<close>

definition act_job :: "rt_config \<Rightarrow> bool \<Rightarrow> runner \<Rightarrow> rt_env \<Rightarrow> (bool \<times> runner \<times> rt_env) result" where
  "act_job c w r e =
     (if rn_start r \<and> rn_pos r \<noteq> length (rn_queue r)
      then bindE (get_at (rn_queue r) (rn_pos r)) (\<lambda>j. bindE (isJobRunnable r j) (\<lambda>ok.
        if \<not> ok then Inr (True, r, e)
        else bindE (runJob c r j e) (\<lambda>(r1, e1). Inr (False, r1\<lparr>rn_last := jm_execIx j, rn_pos := rn_pos r1 + 1\<rparr>, e1))))
      else Inr (w, r, e))"

definition act :: "rt_config \<Rightarrow> bool \<Rightarrow> bool \<Rightarrow> runner \<Rightarrow> rt_env \<Rightarrow> (runner_pc \<times> runner \<times> rt_env) result" where
  "act c infLoop w r e =
     bindE (act_job c w r e) (\<lambda>(w1, r1, e1).
       if (rn_end r1 \<and> rn_pos r1 = rn_jobCount r1) \<or> (\<not> infLoop \<and> rn_queue r1 = [])
       then bindE (finish_iteration c r1 e1) (\<lambda>(r2, e2). Inr (if infLoop then Loop w1 else Returned, r2, e2))
       else Inr (Loop w1, r1, e1))"

fun runner_step :: "rt_config \<Rightarrow> bool \<Rightarrow> runner_pc \<Rightarrow> runner \<Rightarrow> rt_env \<Rightarrow> (runner_pc \<times> runner \<times> rt_env) option result" where
  "runner_step c infLoop (Loop w) r e =
     Inr (Some (if rn_stop r then Returned else Reading ((infLoop \<and> rn_finished r) \<or> w) w, r, e))"
| "runner_step c infLoop (Reading b w) r e =
     (if rn_stop r then Inr (Some (Returned, r, e))
      else bindE (readNotification c b r e) (\<lambda>x. Inr (map_option (\<lambda>(more, r1, e1).
        (if more then Reading (rn_pause r1) w else if rn_stop r1 then Returned else Acting w, r1, e1)) x)))"
| "runner_step c infLoop (Acting w) r e = bindE (act c infLoop w r e) (\<lambda>x. Inr (Some x))"
| "runner_step c infLoop Returned r e = Inr None"

end
