(* ===== verification/RunnerSystem.thy ===== *)
theory RunnerSystem
  imports Runner
begin

text \<open>
  The runners of a platform at work on one iteration: every thread is a runner in its loop, the GRT posts the start, the jobs and
  the end of the iteration and then runs its own loop. Any interleaving of their steps is allowed. The invariant ties, for every
  runner, the notifications and postings still to come, its state and the jobs executed so far; \<open>s_log\<close> is the history of the
  executions.
\<close>

subsection \<open>The transition system\<close>

datatype post = Post_Start | Post_Job job_message | Post_End

definition do_post :: "rt_config \<Rightarrow> nat \<times> post \<Rightarrow> rt_env \<Rightarrow> rt_env result" where
  "do_post c x e =
     (case x of (i, Post_Start) \<Rightarrow> rt_push (notification_new LRT_START_ITERATION (rt_grtIx c) size_max) i e
      | (i, Post_End) \<Rightarrow> rt_push (notification_new LRT_END_ITERATION (rt_grtIx c) size_max) i e
      | (i, Post_Job j) \<Rightarrow> bindE (push_job (re_comm e) j) (\<lambda>(ix, c1). rt_push (notification_new JOB_ADD (rt_grtIx c) ix) i (e\<lparr>re_comm := c1\<rparr>)))"

record system =
  s_pc :: "nat \<Rightarrow> runner_pc"
  s_runner :: "nat \<Rightarrow> runner"
  s_env :: rt_env
  s_script :: "(nat \<times> post) list"
  s_log :: "(nat \<times> nat) list"      \<comment> \<open>runner and index of every job executed\<close>

definition executes :: "runner_pc \<Rightarrow> runner \<Rightarrow> nat list" where
  "executes pc r =
     (case pc of Acting w \<Rightarrow>
        if rn_start r \<and> rn_pos r < length (rn_queue r) \<and> isJobRunnable r (rn_queue r ! rn_pos r) = Inr True
        then [jm_execIx (rn_queue r ! rn_pos r)] else []
      | _ \<Rightarrow> [])"

definition loops :: "rt_config \<Rightarrow> nat \<Rightarrow> bool" where "loops c i \<longleftrightarrow> i \<noteq> rt_grtIx c"

inductive sys_step :: "rt_config \<Rightarrow> system \<Rightarrow> system \<Rightarrow> bool" for c where
  post: "s_script s = x # rest \<Longrightarrow> do_post c x (s_env s) = Inr e \<Longrightarrow> sys_step c s (s\<lparr>s_env := e, s_script := rest\<rparr>)"
| run: "i < rt_lrtCount c \<Longrightarrow> loops c i \<or> s_script s = [] \<Longrightarrow>
    runner_step c (loops c i) (s_pc s i) (s_runner s i) (s_env s) = Inr (Some (pc, r, e)) \<Longrightarrow>
    sys_step c s (s\<lparr>s_pc := (s_pc s)(i := pc), s_runner := (s_runner s)(i := r), s_env := e,
      s_log := s_log s @ List.map (Pair i) (executes (s_pc s i) (s_runner s i))\<rparr>)"

inductive_cases sys_stepE: "sys_step c s s'"

abbreviation sys_steps :: "rt_config \<Rightarrow> system \<Rightarrow> system \<Rightarrow> bool" where "sys_steps c \<equiv> (sys_step c)\<^sup>*\<^sup>*"

definition env_new :: "nat \<Rightarrow> memory_interface list \<Rightarrow> heap \<Rightarrow> nat list \<Rightarrow> rt_env" where
  "env_new n mis h phys = \<lparr>re_comm = \<lparr>cm_notifications = replicate n (Some []), cm_params = [], cm_traces = [],
     cm_jobMessages = iq_empty, cm_paramMessages = iq_empty, cm_traceMessages = iq_empty\<rparr>,
     re_mi = mis, re_heap = h, re_phys = phys, re_finished = replicate n False\<rparr>"

text \<open>Runner \<open>i\<close> is attached to local runtime \<open>i\<close>: \<open>pe\<close> and \<open>mi\<close> give its element and its memory interface.\<close>

definition sys_init :: "rt_config \<Rightarrow> (nat \<Rightarrow> nat) \<Rightarrow> (nat \<Rightarrow> nat) \<Rightarrow> rt_env \<Rightarrow> (nat \<times> post) list \<Rightarrow> system" where
  "sys_init c pe mi e script = \<lparr>s_pc = (\<lambda>i. Loop False), s_runner = (\<lambda>i. runner_new (rt_lrtCount c) (i = rt_grtIx c) (pe i) i (mi i) False i),
     s_env = e, s_script = script, s_log = []\<rparr>"

subsection \<open>Plans\<close>

definition flagged :: "job_message \<Rightarrow> nat \<Rightarrow> bool" where
  "flagged j i \<longleftrightarrow> (case jm_flags j of None \<Rightarrow> False | Some fs \<Rightarrow> fs ! i)"

text \<open>
  What the launcher must give: the execution indices of the jobs of a runner are their positions, the constraints are acyclic (they
  go down in some \<open>rank\<close> that grows along every runner) and refer to jobs that notify the waiting runner.
\<close>

definition good_job :: "rt_config \<Rightarrow> (nat \<Rightarrow> job_message list) \<Rightarrow> (nat \<Rightarrow> nat \<Rightarrow> nat) \<Rightarrow> nat \<Rightarrow> nat \<Rightarrow> bool" where
  "good_job c plan rank i k \<longleftrightarrow>
     (let j = plan i ! k in jm_execIx j = k \<and> (case jm_flags j of None \<Rightarrow> True | Some fs \<Rightarrow> length fs = rt_lrtCount c) \<and>
      (\<forall>y \<in> set (jm_constraints j). sy_lrt y < rt_lrtCount c \<and> sy_job y < length (plan (sy_lrt y)) \<and>
         rank (sy_lrt y) (sy_job y) < rank i k \<and> (sy_lrt y = i \<or> flagged (plan (sy_lrt y) ! sy_job y) i)))"

definition good_plan :: "rt_config \<Rightarrow> (nat \<Rightarrow> job_message list) \<Rightarrow> (nat \<Rightarrow> nat \<Rightarrow> nat) \<Rightarrow> bool" where
  "good_plan c plan rank \<longleftrightarrow> rt_grtIx c < rt_lrtCount c \<and> rt_lrtCount c < size_max \<and>
     (\<forall>i < rt_lrtCount c. \<forall>k < length (plan i). good_job c plan rank i k \<and> (\<forall>k' < k. rank i k' < rank i k)) \<and>
     (\<Sum>i < rt_lrtCount c. length (plan i)) < size_max"

definition postings :: "nat \<Rightarrow> (nat \<times> post) list \<Rightarrow> post list" where
  "postings i script = List.map snd (filter (\<lambda>x. fst x = i) script)"

definition good_script :: "rt_config \<Rightarrow> (nat \<Rightarrow> job_message list) \<Rightarrow> (nat \<times> post) list \<Rightarrow> bool" where
  "good_script c plan script \<longleftrightarrow> (\<forall>x \<in> set script. fst x < rt_lrtCount c) \<and>
     (\<forall>i < rt_lrtCount c. postings i script = Post_Start # List.map Post_Job (plan i) @ [Post_End])"

definition started :: "rt_config \<Rightarrow> (nat \<Rightarrow> job_message list) \<Rightarrow> system \<Rightarrow> bool" where
  "started c plan s \<longleftrightarrow> (\<exists>pe mi mis h phys script. good_script c plan script \<and> (\<forall>i < rt_lrtCount c. mi i < length mis) \<and>
     s = sys_init c pe mi (env_new (rt_lrtCount c) mis h phys) script)"

subsection \<open>The history\<close>

definition done_by :: "(nat \<times> nat) list \<Rightarrow> nat \<Rightarrow> nat" where
  "done_by hs i = length (filter (\<lambda>x. fst x = i) hs)"

definition in_order :: "(nat \<Rightarrow> job_message list) \<Rightarrow> (nat \<times> nat) list \<Rightarrow> nat \<times> nat \<Rightarrow> bool" where
  "in_order plan hs x = (case x of (i, k) \<Rightarrow> k = done_by hs i \<and> k < length (plan i) \<and>
     (\<forall>y \<in> set (jm_constraints (plan i ! k)). (sy_lrt y, sy_job y) \<in> set hs))"

definition log_ok :: "nat \<Rightarrow> (nat \<Rightarrow> job_message list) \<Rightarrow> (nat \<times> nat) list \<Rightarrow> bool" where
  "log_ok n plan hs \<longleftrightarrow> (\<forall>p < length hs. fst (hs ! p) < n \<and> in_order plan (take p hs) (hs ! p))"

lemma done_by_simps [simp]: "done_by [] i = 0" "done_by (hs @ [(j, k)]) i = done_by hs i + (if i = j then 1 else 0)"
  by (auto simp: done_by_def)

lemma log_ok_Nil [simp]: "log_ok n plan []" by (simp add: log_ok_def)

lemma log_ok_snoc: "log_ok n plan (hs @ [x]) \<longleftrightarrow> log_ok n plan hs \<and> fst x < n \<and> in_order plan hs x"
  by (auto simp: log_ok_def nth_append less_Suc_eq)

lemma in_log_iff: "log_ok n plan hs \<Longrightarrow> (i, k) \<in> set hs \<longleftrightarrow> k < done_by hs i"
proof (induction hs rule: rev_induct)
  case (snoc x hs)
  then show ?case by (cases x) (auto simp: log_ok_snoc in_order_def less_Suc_eq)
qed simp

lemma done_by_le: "log_ok n plan hs \<Longrightarrow> done_by hs i \<le> length (plan i)"
proof (induction hs rule: rev_induct)
  case (snoc x hs)
  then show ?case by (cases x) (auto simp: log_ok_snoc in_order_def)
qed simp

lemma length_log: "log_ok n plan hs \<Longrightarrow> length hs = (\<Sum>i < n. done_by hs i)"
proof (induction hs rule: rev_induct)
  case (snoc x hs)
  then show ?case by (cases x) (auto simp: log_ok_snoc sum.distrib)
qed simp

subsection \<open>The invariant\<close>

abbreviation env_queue :: "rt_env \<Rightarrow> nat \<Rightarrow> notification list" where "env_queue e i \<equiv> queue_of (re_comm e) i"
abbreviation env_jobs :: "rt_env \<Rightarrow> job_message indexed_queue" where "env_jobs e \<equiv> cm_jobMessages (re_comm e)"

text \<open>What a notification announces.\<close>

definition item :: "(nat \<Rightarrow> job_message option) \<Rightarrow> notification \<Rightarrow> post option list" where
  "item content n = (case nt_type n of LRT_START_ITERATION \<Rightarrow> [Some Post_Start] | LRT_END_ITERATION \<Rightarrow> [Some Post_End]
     | JOB_ADD \<Rightarrow> [map_option Post_Job (content (nt_ix n))] | _ \<Rightarrow> [])"

definition pending :: "rt_env \<Rightarrow> (nat \<times> post) list \<Rightarrow> nat \<Rightarrow> post option list" where
  "pending e script i = List.concat (List.map (item (iq_content (env_jobs e))) (env_queue e i)) @ List.map Some (postings i script)"

definition rest_of :: "job_message list \<Rightarrow> nat \<Rightarrow> post option list" where
  "rest_of js m = List.map (\<lambda>j. Some (Post_Job j)) (drop m js) @ [Some Post_End]"

text \<open>The phase of a runner with jobs \<open>js\<close> that has executed \<open>x\<close> of them: before the start or after the end, between, after
  the announcement of the end.\<close>

definition idle :: "job_message list \<Rightarrow> runner \<Rightarrow> post option list \<Rightarrow> nat \<Rightarrow> bool" where
  "idle js r pd x \<longleftrightarrow> rn_finished r \<and> \<not> rn_start r \<and> \<not> rn_end r \<and> rn_queue r = [] \<and> rn_pos r = 0 \<and>
     ((x = 0 \<and> pd = Some Post_Start # rest_of js 0) \<or> (x = length js \<and> pd = []))"

definition working :: "job_message list \<Rightarrow> runner \<Rightarrow> post option list \<Rightarrow> nat \<Rightarrow> bool" where
  "working js r pd x \<longleftrightarrow> \<not> rn_finished r \<and> rn_start r \<and> rn_pos r = x \<and> x \<le> length (rn_queue r) \<and>
     (if rn_end r then rn_queue r = js \<and> rn_jobCount r = length js \<and> pd = []
      else \<exists>m \<le> length js. rn_queue r = take m js \<and> pd = rest_of js m)"

definition at_hand :: "runner \<Rightarrow> bool" where
  "at_hand r \<longleftrightarrow> rn_start r \<and> rn_pos r < length (rn_queue r)"

definition waiting :: "runner \<Rightarrow> bool" where
  "waiting r \<longleftrightarrow> at_hand r \<and> isJobRunnable r (rn_queue r ! rn_pos r) = Inr False"

definition pc_ok :: "bool \<Rightarrow> runner_pc \<Rightarrow> runner \<Rightarrow> post option list \<Rightarrow> bool" where
  "pc_ok lp pc r pd \<longleftrightarrow>
     (case pc of Loop w \<Rightarrow> w \<longrightarrow> waiting r
      | Reading b w \<Rightarrow> (b \<longrightarrow> lp \<and> rn_finished r \<or> waiting r) \<and> (w \<longrightarrow> at_hand r)
      | Acting w \<Rightarrow> (w \<longrightarrow> at_hand r) \<and> (\<not> lp \<longrightarrow> pd = [])
      | Returned \<Rightarrow> \<not> lp \<and> rn_finished r \<and> pd = []) \<and>
     (\<not> lp \<and> rn_finished r \<and> pd = [] \<longrightarrow> pc = Returned)"

definition note_ok :: "rt_config \<Rightarrow> (nat \<Rightarrow> nat) \<Rightarrow> nat \<Rightarrow> notification \<Rightarrow> bool" where
  "note_ok c x i n \<longleftrightarrow> nt_type n \<in> {LRT_START_ITERATION, LRT_END_ITERATION, JOB_ADD} \<or>
     (nt_type n = JOB_UPDATE_JOBSTAMP \<and> nt_sender n < rt_lrtCount c \<and> nt_sender n \<noteq> i \<and> nt_ix n < x (nt_sender n)) \<or>
     (nt_type n = LRT_FINISHED_ITERATION \<and> i = rt_grtIx c \<and> nt_sender n < rt_lrtCount c)"

definition stamps_ok :: "rt_config \<Rightarrow> (nat \<Rightarrow> nat) \<Rightarrow> nat \<Rightarrow> nat list \<Rightarrow> bool" where
  "stamps_ok c x i st \<longleftrightarrow> length st = rt_lrtCount c \<and> (\<forall>l < rt_lrtCount c. st ! l = size_max \<or> st ! l < x l) \<and>
     st ! i = (if x i = 0 then size_max else x i - 1)"

text \<open>Every execution that notifies the runner is in its stamps or announced to it.\<close>

definition covered :: "rt_config \<Rightarrow> (nat \<Rightarrow> job_message list) \<Rightarrow> (nat \<Rightarrow> nat) \<Rightarrow> nat \<Rightarrow> nat list \<Rightarrow> notification list \<Rightarrow> bool" where
  "covered c plan x i st ns \<longleftrightarrow> (\<forall>l < rt_lrtCount c. l \<noteq> i \<longrightarrow> (\<forall>k < x l. flagged (plan l ! k) i \<longrightarrow>
     (st ! l \<noteq> size_max \<and> k \<le> st ! l) \<or> (\<exists>n \<in> set ns. nt_type n = JOB_UPDATE_JOBSTAMP \<and> nt_sender n = l \<and> nt_ix n = k)))"

definition fixed_ok :: "rt_config \<Rightarrow> nat \<Rightarrow> nat \<Rightarrow> runner \<Rightarrow> bool" where
  "fixed_ok c mis i r \<longleftrightarrow> rn_ix r = i \<and> (rn_isGRT r \<longleftrightarrow> i = rt_grtIx c) \<and> rn_lrtIx r = i \<and> rn_mi r < mis \<and>
     \<not> rn_stop r \<and> \<not> rn_pause r \<and> \<not> rn_repeat r \<and> \<not> rn_broadcast r"

definition runner_ok :: "rt_config \<Rightarrow> (nat \<Rightarrow> job_message list) \<Rightarrow> (nat \<Rightarrow> nat) \<Rightarrow> nat \<Rightarrow> runner_pc \<Rightarrow> runner \<Rightarrow> rt_env \<Rightarrow> (nat \<times> post) list \<Rightarrow> bool" where
  "runner_ok c plan x i pc r e script \<longleftrightarrow>
     fixed_ok c (length (re_mi e)) i r \<and>
     (idle (plan i) r (pending e script i) (x i) \<or> working (plan i) r (pending e script i) (x i)) \<and>
     pc_ok (loops c i) pc r (pending e script i) \<and>
     (\<forall>n \<in> set (env_queue e i). note_ok c x i n) \<and>
     stamps_ok c x i (rn_stamps r) \<and> covered c plan x i (rn_stamps r) (env_queue e i)"

definition announced :: "notification list \<Rightarrow> nat multiset" where
  "announced ns = mset (List.map nt_ix (filter (\<lambda>n. nt_type n = JOB_ADD) ns))"

definition jobs_left :: "(nat \<times> post) list \<Rightarrow> nat" where
  "jobs_left script = length (filter (\<lambda>x. case snd x of Post_Job j \<Rightarrow> True | _ \<Rightarrow> False) script)"

definition shape_ok :: "rt_config \<Rightarrow> rt_env \<Rightarrow> bool" where
  "shape_ok c e \<longleftrightarrow> rt_lrtCount c < size_max \<and> length (cm_notifications (re_comm e)) = rt_lrtCount c \<and> None \<notin> set (cm_notifications (re_comm e)) \<and>
     length (re_finished e) = rt_lrtCount c \<and> iq_inv (env_jobs e) \<and> iq_inv (cm_paramMessages (re_comm e))"

definition env_ok :: "rt_config \<Rightarrow> rt_env \<Rightarrow> bool" where
  "env_ok c e \<longleftrightarrow> shape_ok c e \<and> iq.circulation (env_jobs e) = (\<Sum>i < rt_lrtCount c. announced (env_queue e i))"

definition sys_inv :: "rt_config \<Rightarrow> (nat \<Rightarrow> job_message list) \<Rightarrow> system \<Rightarrow> bool" where
  "sys_inv c plan s \<longleftrightarrow> env_ok c (s_env s) \<and> log_ok (rt_lrtCount c) plan (s_log s) \<and>
     (\<forall>x \<in> set (s_script s). fst x < rt_lrtCount c) \<and>
     length (iq_slots (env_jobs (s_env s))) + jobs_left (s_script s) \<le> (\<Sum>i < rt_lrtCount c. length (plan i)) \<and>
     length (iq_slots (cm_paramMessages (re_comm (s_env s)))) \<le> length (s_log s) \<and>
     (\<forall>i < rt_lrtCount c. runner_ok c plan (done_by (s_log s)) i (s_pc s i) (s_runner s i) (s_env s) (s_script s))"

subsection \<open>Queues\<close>

lemma shape_queue: "shape_ok c e \<Longrightarrow> i < rt_lrtCount c \<Longrightarrow> cm_notifications (re_comm e) ! i = Some (env_queue e i)"
  by (cases "cm_notifications (re_comm e) ! i") (auto simp: shape_ok_def queue_of_def in_set_conv_nth)

lemma notification_queue_eq: "shape_ok c e \<Longrightarrow> i < rt_lrtCount c \<Longrightarrow> notification_queue (re_comm e) i = Inr (env_queue e i)"
  using shape_queue [of c e i] by (simp add: notification_queue_def shape_ok_def)

lemma rt_push_eq: "shape_ok c e \<Longrightarrow> i < rt_lrtCount c \<Longrightarrow> rt_push n i e = Inr (set_queue i (env_queue e i @ [n]) e)"
  by (simp add: rt_push_def push_notification_def notification_queue_eq set_queue_def)

lemma pop_eq:
  "shape_ok c e \<Longrightarrow> i < rt_lrtCount c \<Longrightarrow> pop_notification (re_comm e) i =
     Inr (case env_queue e i of [] \<Rightarrow> None | n # rest \<Rightarrow> Some (n, re_comm (set_queue i rest e)))"
  by (simp add: pop_notification_def notification_queue_eq set_queue_def split: list.splits)

lemma set_queue_simps [simp]:
  "shape_ok c e \<Longrightarrow> i < rt_lrtCount c \<Longrightarrow> env_queue (set_queue i ns e) j = (if i = j then ns else env_queue e j)"
  "env_jobs (set_queue i ns e) = env_jobs e" "cm_paramMessages (re_comm (set_queue i ns e)) = cm_paramMessages (re_comm e)"
  "re_mi (set_queue i ns e) = re_mi e" "re_heap (set_queue i ns e) = re_heap e" "re_phys (set_queue i ns e) = re_phys e"
  "re_finished (set_queue i ns e) = re_finished e"
  by (auto simp: set_queue_def queue_of_def shape_ok_def nth_list_update)

lemma shape_set_queue [simp]: "shape_ok c e \<Longrightarrow> shape_ok c (set_queue i ns e)"
  by (auto simp: shape_ok_def set_queue_def dest!: set_update_subset_insert [THEN subsetD])

lemma announced_simps [simp]: "announced [] = {#}"
  "announced (n # ns) = (if nt_type n = JOB_ADD then {#nt_ix n#} else {#}) + announced ns"
  "announced (ns @ ms) = announced ns + announced ms"
  by (auto simp: announced_def)

text \<open>One queue grows by notifications, the other parts are as they were.\<close>

definition only_queues :: "rt_env \<Rightarrow> rt_env \<Rightarrow> bool" where
  "only_queues e e' \<longleftrightarrow> env_jobs e' = env_jobs e \<and> cm_paramMessages (re_comm e') = cm_paramMessages (re_comm e) \<and>
     re_mi e' = re_mi e \<and> re_heap e' = re_heap e \<and> re_phys e' = re_phys e \<and> re_finished e' = re_finished e"

lemma push_loop:
  assumes "shape_ok c e" "distinct is" "set is \<subseteq> {..<rt_lrtCount c}"
    and f: "\<And>e i. i \<in> set is \<Longrightarrow> f e i = (if P i then rt_push n i e else Inr e)"
  shows "\<exists>e'. foldE f e is = Inr e' \<and> shape_ok c e' \<and> only_queues e e' \<and>
    (\<forall>j. env_queue e' j = env_queue e j @ (if j \<in> set is \<and> P j then [n] else []))"
  using assms
proof (induction "is" arbitrary: e)
  case Nil
  then show ?case by (auto simp: only_queues_def)
next
  case (Cons i "is")
  let ?e = "if P i then set_queue i (env_queue e i @ [n]) e else e"
  have i: "i < rt_lrtCount c" using Cons.prems(3) by simp
  have st: "f e i = Inr ?e" using Cons.prems(4) [of i e] rt_push_eq [OF Cons.prems(1) i] by simp
  have "shape_ok c ?e" using Cons.prems(1) by simp
  from Cons.IH [OF this] Cons.prems(2-4) obtain e' where e': "foldE f ?e is = Inr e'" "shape_ok c e'" "only_queues ?e e'"
    "\<forall>j. env_queue e' j = env_queue ?e j @ (if j \<in> set is \<and> P j then [n] else [])" by auto
  have "only_queues e e'" using e'(3) by (auto simp: only_queues_def split: if_splits)
  moreover have "env_queue e' j = env_queue e j @ (if j \<in> set (i # is) \<and> P j then [n] else [])" for j
    using e'(4) Cons.prems(1,2) i by auto
  ultimately show ?case using e'(1,2) st by auto
qed

lemma jobStamp_ok:
  assumes "shape_ok c e" "case flags of None \<Rightarrow> True | Some fs \<Rightarrow> length fs = rt_lrtCount c" "k < size_max"
  shows "\<exists>e'. sendJobStampNotification c r flags k e = Inr e' \<and> shape_ok c e' \<and> only_queues e e' \<and>
    (\<forall>j. env_queue e' j = env_queue e j @
       (if j < rt_lrtCount c \<and> j \<noteq> rn_ix r \<and> (case flags of None \<Rightarrow> False | Some fs \<Rightarrow> fs ! j)
        then [notification_new JOB_UPDATE_JOBSTAMP (rn_ix r) k] else []))"
proof (cases flags)
  case None
  then show ?thesis using assms(1) by (auto simp: sendJobStampNotification_def only_queues_def)
next
  case (Some fs)
  let ?n = "notification_new JOB_UPDATE_JOBSTAMP (rn_ix r) k"
  let ?f = "\<lambda>e i. bindE (get_at fs i) (\<lambda>b. if b \<and> i \<noteq> rn_ix r then rt_push ?n i e else Inr e)"
  have "\<exists>e'. foldE ?f e [0..<rt_lrtCount c] = Inr e' \<and> shape_ok c e' \<and> only_queues e e' \<and>
    (\<forall>j. env_queue e' j = env_queue e j @ (if j \<in> set [0..<rt_lrtCount c] \<and> (fs ! j \<and> j \<noteq> rn_ix r) then [?n] else []))"
    by (rule push_loop [OF assms(1)]) (use assms(2) Some in auto)
  then show ?thesis using Some assms(3) by (auto simp: sendJobStampNotification_def)
qed

subsection \<open>The other runners\<close>

lemma note_ok_mono: "note_ok c x i n \<Longrightarrow> (\<And>l. x l \<le> y l) \<Longrightarrow> note_ok c y i n"
  by (auto simp: note_ok_def intro: less_le_trans)

lemma pending_append:
  assumes q: "env_queue e' j = env_queue e j @ ns" and silent: "\<And>n. n \<in> set ns \<Longrightarrow> nt_type n \<notin> {LRT_START_ITERATION, LRT_END_ITERATION, JOB_ADD}"
    and content: "\<And>n. n \<in> set (env_queue e j) \<Longrightarrow> nt_type n = JOB_ADD \<Longrightarrow> iq_content (env_jobs e') (nt_ix n) = iq_content (env_jobs e) (nt_ix n)"
    and script: "postings j script' = postings j script"
  shows "pending e' script' j = pending e script j"
proof -
  have "item (iq_content (env_jobs e')) n = []" if "n \<in> set ns" for n
    using silent [OF that] by (simp add: item_def split: notification_type.splits)
  then have "List.concat (List.map (item (iq_content (env_jobs e'))) ns) = []" by simp
  moreover have m: "List.map (item (iq_content (env_jobs e'))) (env_queue e j) = List.map (item (iq_content (env_jobs e))) (env_queue e j)"
    using content by (intro map_cong refl) (simp add: item_def split: notification_type.splits)
  ultimately show ?thesis by (simp only: pending_def q script map_append concat_append m append_Nil2)
qed

lemma runner_ok_other:
  assumes ok: "runner_ok c plan x j pc r e script" and mi: "length (re_mi e') = length (re_mi e)"
    and q: "env_queue e' j = env_queue e j @ ns" and silent: "\<And>n. n \<in> set ns \<Longrightarrow> nt_type n \<notin> {LRT_START_ITERATION, LRT_END_ITERATION, JOB_ADD}"
    and content: "\<And>n. n \<in> set (env_queue e j) \<Longrightarrow> nt_type n = JOB_ADD \<Longrightarrow> iq_content (env_jobs e') (nt_ix n) = iq_content (env_jobs e) (nt_ix n)"
    and script: "postings j script' = postings j script"
    and x: "\<And>l. x l \<le> y l" "y j = x j" and ns: "\<And>n. n \<in> set ns \<Longrightarrow> note_ok c y j n"
    and cov: "\<And>l k. l < rt_lrtCount c \<Longrightarrow> l \<noteq> j \<Longrightarrow> x l \<le> k \<Longrightarrow> k < y l \<Longrightarrow> flagged (plan l ! k) j \<Longrightarrow>
       \<exists>n \<in> set ns. nt_type n = JOB_UPDATE_JOBSTAMP \<and> nt_sender n = l \<and> nt_ix n = k"
  shows "runner_ok c plan y j pc r e' script'"
proof -
  note p = pending_append [OF q silent content script]
  have "stamps_ok c y j (rn_stamps r)"
    using ok x by (auto simp: runner_ok_def stamps_ok_def intro: less_le_trans)
  moreover have "covered c plan y j (rn_stamps r) (env_queue e' j)"
    unfolding covered_def q
  proof (intro allI impI)
    fix l k assume l: "l < rt_lrtCount c" "l \<noteq> j" "k < y l" "flagged (plan l ! k) j"
    show "rn_stamps r ! l \<noteq> size_max \<and> k \<le> rn_stamps r ! l \<or>
       (\<exists>n \<in> set (env_queue e j @ ns). nt_type n = JOB_UPDATE_JOBSTAMP \<and> nt_sender n = l \<and> nt_ix n = k)"
    proof (cases "k < x l")
      case True
      then show ?thesis using ok l unfolding runner_ok_def covered_def by fastforce
    next
      case False
      then show ?thesis using cov [of l k] l by auto
    qed
  qed
  moreover have "\<forall>n \<in> set (env_queue e' j). note_ok c y j n"
    using ok ns note_ok_mono [OF _ x(1)] by (auto simp: runner_ok_def q)
  ultimately show ?thesis using ok x(2) by (simp add: runner_ok_def p mi)
qed

subsection \<open>Reading a notification\<close>

lemma announced_unique:
  assumes "env_ok c e" "i < rt_lrtCount c" "env_queue e i = n # ns" "nt_type n = JOB_ADD"
  shows "nt_ix n \<notin># announced ns" "j < rt_lrtCount c \<Longrightarrow> j \<noteq> i \<Longrightarrow> nt_ix n \<notin># announced (env_queue e j)"
    "nt_ix n \<in># iq.circulation (env_jobs e)"
proof -
  let ?A = "\<lambda>j. announced (env_queue e j)" and ?N = "rt_lrtCount c"
  have C: "iq.circulation (env_jobs e) = ?A i + (\<Sum>j \<in> {..<?N} - {i}. ?A j)"
    using assms(1,2) by (simp add: env_ok_def sum.remove)
  have one: "count (iq.circulation (env_jobs e)) (nt_ix n) \<le> 1" by (simp add: iq.circulation_def count_mset_set')
  have Ai: "?A i = add_mset (nt_ix n) (announced ns)" using assms(3,4) by simp
  show "nt_ix n \<notin># announced ns" using one unfolding C Ai by (auto simp: count_eq_zero_iff [symmetric])
  show "nt_ix n \<in># iq.circulation (env_jobs e)" unfolding C Ai by simp
  show "nt_ix n \<notin># ?A j" if "j < ?N" "j \<noteq> i"
  proof
    assume "nt_ix n \<in># ?A j"
    then have "0 < count (?A j) (nt_ix n)" by simp
    moreover have "(\<Sum>k \<in> {..<?N} - {i}. ?A k) = ?A j + (\<Sum>k \<in> {..<?N} - {i} - {j}. ?A k)" by (rule sum.remove) (use that in auto)
    ultimately show False using one unfolding C Ai by (auto simp: count_eq_zero_iff)
  qed
qed

lemma in_announced: "n \<in> set ns \<Longrightarrow> nt_type n = JOB_ADD \<Longrightarrow> nt_ix n \<in># announced ns"
  by (auto simp: announced_def)

lemma pending_Cons:
  "shape_ok c e \<Longrightarrow> i < rt_lrtCount c \<Longrightarrow> env_queue e i = n # ns \<Longrightarrow>
     pending e script i = item (iq_content (env_jobs e)) n @ pending (set_queue i ns e) script i"
  by (simp add: pending_def)

text \<open>A notification that announces something tells the phase.\<close>

lemma rest_of_step:
  "rest_of js m = Some (Post_Job j) # pd \<Longrightarrow> m < length js \<and> j = js ! m \<and> pd = rest_of js (Suc m)"
  "rest_of js m = Some Post_End # pd \<Longrightarrow> length js \<le> m \<and> pd = []"
  "rest_of js m \<noteq> Some Post_Start # pd" "rest_of js m \<noteq> None # pd"
proof -
  have D: "m < length js \<Longrightarrow> drop m js = js ! m # drop (Suc m) js" by (simp add: Cons_nth_drop_Suc)
  show "rest_of js m = Some (Post_Job j) # pd \<Longrightarrow> m < length js \<and> j = js ! m \<and> pd = rest_of js (Suc m)"
    by (cases "m < length js") (auto simp: rest_of_def D)
  show "rest_of js m = Some Post_End # pd \<Longrightarrow> length js \<le> m \<and> pd = []"
    by (cases "m < length js") (auto simp: rest_of_def D)
  show "rest_of js m \<noteq> Some Post_Start # pd" "rest_of js m \<noteq> None # pd"
    by (cases "m < length js"; simp add: rest_of_def D)+
qed

lemma updateJobStamp_eq:
  "lrt < length (rn_stamps r) \<Longrightarrow> updateJobStamp lrt k r =
     Inr (if rn_stamps r ! lrt = size_max \<or> rn_stamps r ! lrt < k then r\<lparr>rn_stamps := (rn_stamps r)[lrt := k]\<rparr> else r)"
  by (simp add: updateJobStamp_def)

text \<open>What the reading of a notification leaves: \<open>e'\<close> is the environment, \<open>r'\<close> the runner.\<close>

definition read_to :: "rt_config \<Rightarrow> (nat \<Rightarrow> job_message list) \<Rightarrow> (nat \<Rightarrow> nat) \<Rightarrow> nat \<Rightarrow> bool \<Rightarrow> (nat \<times> post) list \<Rightarrow> notification \<Rightarrow> rt_env \<Rightarrow> runner \<Rightarrow> rt_env \<Rightarrow> bool" where
  "read_to c plan x i w script n e r' e' \<longleftrightarrow>
     runner_ok c plan x i (Reading False w) r' e' script \<and> env_ok c e' \<and> (\<forall>j. j \<noteq> i \<longrightarrow> env_queue e' j = env_queue e j) \<and>
     (\<forall>ix. nt_type n \<noteq> JOB_ADD \<or> ix \<noteq> nt_ix n \<longrightarrow> iq_content (env_jobs e') ix = iq_content (env_jobs e) ix) \<and>
     length (re_mi e') = length (re_mi e) \<and> cm_paramMessages (re_comm e') = cm_paramMessages (re_comm e) \<and>
     length (iq_slots (env_jobs e')) = length (iq_slots (env_jobs e)) \<and> env_queue e' i = tl (env_queue e i)"

lemma runner_okD:
  assumes "runner_ok c plan x i pc r e script"
  shows "fixed_ok c (length (re_mi e)) i r" "idle (plan i) r (pending e script i) (x i) \<or> working (plan i) r (pending e script i) (x i)"
    "pc_ok (loops c i) pc r (pending e script i)" "n \<in> set (env_queue e i) \<Longrightarrow> note_ok c x i n"
    "stamps_ok c x i (rn_stamps r)" "covered c plan x i (rn_stamps r) (env_queue e i)"
  using assms by (simp_all add: runner_ok_def)

lemma covered_tl: "covered c plan x i st (n # ns) \<Longrightarrow> nt_type n \<noteq> JOB_UPDATE_JOBSTAMP \<Longrightarrow> covered c plan x i st ns"
  by (auto simp: covered_def)

lemma not_waiting_idle: "idle js r pd x \<Longrightarrow> \<not> at_hand r" by (simp add: idle_def at_hand_def)

lemma env_ok_set_queue:
  assumes "env_ok c e" "i < rt_lrtCount c" "announced ns = announced (env_queue e i)"
  shows "env_ok c (set_queue i ns e)"
proof -
  have sh: "shape_ok c e" using assms(1) by (simp add: env_ok_def)
  have "announced (env_queue (set_queue i ns e) j) = announced (env_queue e j)" for j using assms(2,3) sh by simp
  with assms(1) show ?thesis by (simp add: env_ok_def)
qed

lemma rest_of_not: "Some Post_Start # pd \<noteq> rest_of js m" "None # pd \<noteq> rest_of js m"
  using rest_of_step(3,4) by metis+

lemma read_start:
  assumes ok: "runner_ok c plan x i (Reading b w) r e script" and env: "env_ok c e" and i: "i < rt_lrtCount c"
    and q: "env_queue e i = n # ns" and t: "nt_type n = LRT_START_ITERATION"
  shows "\<exists>r' e'. handle c n r (set_queue i ns e) = Inr (Some (True, r', e')) \<and> read_to c plan x i w script n e r' e'"
proof -
  note k = runner_okD [OF ok] have sh: "shape_ok c e" using env by (simp add: env_ok_def)
  have pd: "pending e script i = Some Post_Start # pending (set_queue i ns e) script i" using pending_Cons [OF sh i q] t by (simp add: item_def)
  have id: "idle (plan i) r (pending e script i) (x i)" using k(2) unfolding pd working_def by (auto simp: rest_of_not split: if_splits)
  then have x0: "x i = 0" "pending (set_queue i ns e) script i = rest_of (plan i) 0" using pd by (auto simp: idle_def)
  let ?r = "r\<lparr>rn_start := True, rn_finished := False, rn_jobCount := 0, rn_pos := 0\<rparr>"
  have h: "handle c n r (set_queue i ns e) = Inr (Some (True, ?r, set_queue i ns e))" using t id by (simp add: handle_def idle_def)
  have "working (plan i) ?r (rest_of (plan i) 0) (x i)" using id x0(1) by (auto simp: working_def idle_def)
  moreover have "\<not> w" using k(3) not_waiting_idle [OF id] by (simp add: pc_ok_def)
  ultimately have "runner_ok c plan x i (Reading False w) ?r (set_queue i ns e) script"
    using k sh i q t covered_tl [of c plan x i "rn_stamps r" n ns] by (simp add: runner_ok_def x0(2) fixed_ok_def pc_ok_def)
  with env_ok_set_queue [OF env i, of ns] t q sh i h show ?thesis by (auto simp: read_to_def)
qed

lemma read_end:
  assumes ok: "runner_ok c plan x i (Reading b w) r e script" and env: "env_ok c e" and i: "i < rt_lrtCount c"
    and q: "env_queue e i = n # ns" and t: "nt_type n = LRT_END_ITERATION"
  shows "\<exists>r' e'. handle c n r (set_queue i ns e) = Inr (Some (True, r', e')) \<and> read_to c plan x i w script n e r' e'"
proof -
  note k = runner_okD [OF ok] have sh: "shape_ok c e" using env by (simp add: env_ok_def)
  have pd: "pending e script i = Some Post_End # pending (set_queue i ns e) script i" using pending_Cons [OF sh i q] t by (simp add: item_def)
  have wk: "working (plan i) r (pending e script i) (x i)" "\<not> rn_end r" using k(2) unfolding pd by (auto simp: idle_def working_def)
  then obtain m where m: "m \<le> length (plan i)" "rn_queue r = take m (plan i)" "pending e script i = rest_of (plan i) m"
    by (auto simp: working_def)
  from rest_of_step(2) [OF m(3) [symmetric, unfolded pd]] m(1,2)
  have e: "m = length (plan i)" "pending (set_queue i ns e) script i = []" "rn_queue r = plan i" by auto
  let ?r = "r\<lparr>rn_end := True, rn_jobCount := length (rn_queue r)\<rparr>"
  have h: "handle c n r (set_queue i ns e) = Inr (Some (True, ?r, set_queue i ns e))" using t wk by (simp add: handle_def working_def)
  have "working (plan i) ?r [] (x i)" using wk e by (auto simp: working_def)
  moreover have "w \<longrightarrow> at_hand ?r" "\<not> rn_finished r" using k(3) wk by (auto simp: pc_ok_def at_hand_def working_def)
  ultimately have "runner_ok c plan x i (Reading False w) ?r (set_queue i ns e) script"
    using k sh i q t covered_tl [of c plan x i "rn_stamps r" n ns] by (simp add: runner_ok_def e(2) fixed_ok_def pc_ok_def)
  with env_ok_set_queue [OF env i, of ns] t q sh i h show ?thesis by (auto simp: read_to_def)
qed

lemma read_job:
  assumes ok: "runner_ok c plan x i (Reading b w) r e script" and env: "env_ok c e" and i: "i < rt_lrtCount c"
    and q: "env_queue e i = n # ns" and t: "nt_type n = JOB_ADD"
  shows "\<exists>r' e'. handle c n r (set_queue i ns e) = Inr (Some (True, r', e')) \<and> read_to c plan x i w script n e r' e'"
proof -
  note k = runner_okD [OF ok] have sh: "shape_ok c e" using env by (simp add: env_ok_def)
  note u = announced_unique [OF env i q t]
  have inv: "iq_inv (env_jobs e)" using sh by (simp add: shape_ok_def)
  from iq.circulation_pop [OF inv u(3)] obtain j jq where j: "iq_content (env_jobs e) (nt_ix n) = Some j"
    "iq_pop (nt_ix n) (env_jobs e) = Inr (j, jq)" "iq_inv jq" "iq.circulation (env_jobs e) = add_mset (nt_ix n) (iq.circulation jq)"
    "iq_content jq = (iq_content (env_jobs e))(nt_ix n := None)" by metis
  let ?e = "(set_queue i ns e)\<lparr>re_comm := (re_comm (set_queue i ns e))\<lparr>cm_jobMessages := jq\<rparr>\<rparr>"
  have pd: "pending e script i = Some (Post_Job j) # pending (set_queue i ns e) script i"
    using pending_Cons [OF sh i q] t j(1) by (simp add: item_def)
  have wk: "working (plan i) r (pending e script i) (x i)" "\<not> rn_end r" using k(2) unfolding pd by (auto simp: idle_def working_def)
  then obtain m where m: "m \<le> length (plan i)" "rn_queue r = take m (plan i)" "pending e script i = rest_of (plan i) m"
    by (auto simp: working_def)
  from rest_of_step(1) [OF m(3) [symmetric, unfolded pd]] m(1,2)
  have e: "m < length (plan i)" "pending (set_queue i ns e) script i = rest_of (plan i) (Suc m)" "rn_queue r @ [j] = take (Suc m) (plan i)"
    by (auto simp: take_Suc_conv_app_nth)
  have que: "env_queue ?e l = env_queue (set_queue i ns e) l" for l by (simp add: queue_of_def)
  have jobs: "env_jobs ?e = jq" by simp
  have other: "nt_ix na \<noteq> nt_ix n" if "na \<in> set ns" "nt_type na = JOB_ADD" for na
    using in_announced [OF that] u(1) by metis
  have "env_queue (set_queue i ns e) i = ns" using sh i by simp
  then have "pending ?e script i = pending (set_queue i ns e) script i"
    using other que by (intro pending_append [where ns = "[]"]) (simp_all add: j(5))
  with e(2) have pd': "pending ?e script i = rest_of (plan i) (Suc m)" by simp
  let ?r = "r\<lparr>rn_queue := rn_queue r @ [j]\<rparr>"
  have h: "handle c n r (set_queue i ns e) = Inr (Some (True, ?r, ?e))"
    using t wk j(2) by (simp add: handle_def working_def pop_job_def)
  have "working (plan i) ?r (rest_of (plan i) (Suc m)) (x i)"
    using wk e m(2) by (auto simp: working_def intro: exI [of _ "Suc m"])
  moreover have "w \<longrightarrow> at_hand ?r" "\<not> rn_finished r" using k(3) wk by (auto simp: pc_ok_def at_hand_def working_def)
  ultimately have rok: "runner_ok c plan x i (Reading False w) ?r ?e script"
    using k sh i q t covered_tl [of c plan x i "rn_stamps r" n ns] que unfolding runner_ok_def pd'
    by (simp add: fixed_ok_def pc_ok_def)
  have "shape_ok c ?e" using sh j(3) by (auto simp: shape_ok_def set_queue_def dest!: set_update_subset_insert [THEN subsetD])
  moreover have "iq.circulation jq = (\<Sum>l < rt_lrtCount c. announced (env_queue ?e l))"
  proof -
    have "add_mset (nt_ix n) (iq.circulation jq) = announced (env_queue e i) + (\<Sum>l \<in> {..<rt_lrtCount c} - {i}. announced (env_queue e l))"
      using env i j(4) by (simp add: env_ok_def sum.remove)
    moreover have "(\<Sum>l < rt_lrtCount c. announced (env_queue ?e l)) = announced ns + (\<Sum>l \<in> {..<rt_lrtCount c} - {i}. announced (env_queue e l))"
      using i sh que by (subst sum.remove [of _ i]) (auto intro!: sum.cong)
    ultimately show ?thesis using q t by simp
  qed
  ultimately have "env_ok c ?e" by (simp only: env_ok_def jobs)
  moreover have "length (iq_slots jq) = length (iq_slots (env_jobs e))" using j(2) by (auto simp: iq_pop_def bindE_eq_Inr)
  ultimately have "read_to c plan x i w script n e ?r ?e"
    unfolding read_to_def using rok que sh i q t j(5) by simp
  with h show ?thesis by blast
qed

lemma read_stamp:
  assumes ok: "runner_ok c plan x i (Reading b w) r e script" and env: "env_ok c e" and i: "i < rt_lrtCount c"
    and q: "env_queue e i = n # ns" and t: "nt_type n = JOB_UPDATE_JOBSTAMP"
    and xb: "\<And>l. l < rt_lrtCount c \<Longrightarrow> x l \<le> size_max"
  shows "\<exists>r' e'. handle c n r (set_queue i ns e) = Inr (Some (True, r', e')) \<and> read_to c plan x i w script n e r' e'"
proof -
  note k = runner_okD [OF ok] have sh: "shape_ok c e" using env by (simp add: env_ok_def)
  have nt: "nt_sender n < rt_lrtCount c" "nt_sender n \<noteq> i" "nt_ix n < x (nt_sender n)" using k(4) [of n] q t by (auto simp: note_ok_def)
  have len: "length (rn_stamps r) = rt_lrtCount c" using k(5) by (simp add: stamps_ok_def)
  have pd: "pending (set_queue i ns e) script i = pending e script i" using pending_Cons [OF sh i q] t by (simp add: item_def)
  let ?l = "nt_sender n" let ?st = "rn_stamps r" let ?up = "?st ! ?l = size_max \<or> ?st ! ?l < nt_ix n"
  let ?r = "if ?up then r\<lparr>rn_stamps := ?st[?l := nt_ix n]\<rparr> else r"
  have st: "rn_stamps ?r ! l = (if l = ?l \<and> ?up then nt_ix n else ?st ! l)" if "l < rt_lrtCount c" for l using that len nt(1) by simp
  have small: "nt_ix n < size_max" using nt xb by (meson less_le_trans)
  have h: "handle c n r (set_queue i ns e) = Inr (Some (True, ?r, set_queue i ns e))"
    using t nt(1) len sh by (simp add: handle_def updateJobStamp_eq shape_ok_def)
  have "stamps_ok c x i (rn_stamps ?r)" using k(5) nt len by (auto simp: stamps_ok_def nth_list_update)
  moreover have "covered c plan x i (rn_stamps ?r) ns"
    unfolding covered_def
  proof (intro allI impI)
    fix l m assume l: "l < rt_lrtCount c" "l \<noteq> i" "m < x l" "flagged (plan l ! m) i"
    then have "(?st ! l \<noteq> size_max \<and> m \<le> ?st ! l) \<or> (?l = l \<and> nt_ix n = m) \<or>
        (\<exists>n \<in> set ns. nt_type n = JOB_UPDATE_JOBSTAMP \<and> nt_sender n = l \<and> nt_ix n = m)"
      using k(6) t unfolding covered_def q by auto
    then show "rn_stamps ?r ! l \<noteq> size_max \<and> m \<le> rn_stamps ?r ! l \<or>
        (\<exists>n \<in> set ns. nt_type n = JOB_UPDATE_JOBSTAMP \<and> nt_sender n = l \<and> nt_ix n = m)"
      using small st [OF l(1)] by auto
  qed
  moreover have "idle (plan i) ?r pd y = idle (plan i) r pd y" "working (plan i) ?r pd y = working (plan i) r pd y" for pd y
    by (simp_all add: idle_def working_def)
  moreover have "rn_finished ?r = rn_finished r" "at_hand ?r = at_hand r" by (simp_all add: at_hand_def)
  moreover have "fixed_ok c m i ?r = fixed_ok c m i r" for m by (simp add: fixed_ok_def)
  ultimately have "runner_ok c plan x i (Reading False w) ?r (set_queue i ns e) script"
    using k sh i q unfolding runner_ok_def pd by (simp add: pc_ok_def)
  with env_ok_set_queue [OF env i, of ns] t q sh i h show ?thesis by (auto simp: read_to_def)
qed

lemma read_finished:
  assumes ok: "runner_ok c plan x i (Reading b w) r e script" and env: "env_ok c e" and i: "i < rt_lrtCount c"
    and q: "env_queue e i = n # ns" and t: "nt_type n = LRT_FINISHED_ITERATION"
  shows "\<exists>r' e'. handle c n r (set_queue i ns e) = Inr (Some (True, r', e')) \<and> read_to c plan x i w script n e r' e'"
proof -
  note k = runner_okD [OF ok] have sh: "shape_ok c e" using env by (simp add: env_ok_def)
  have nt: "nt_sender n < rt_lrtCount c" "rn_isGRT r" using k(1) k(4) [of n] q t by (auto simp: note_ok_def fixed_ok_def)
  let ?e = "(set_queue i ns e)\<lparr>re_finished := (re_finished e)[nt_sender n := True]\<rparr>"
  have h: "handle c n r (set_queue i ns e) = Inr (Some (True, r, ?e))"
    using t nt sh by (simp add: handle_def registerFinishedRunner_def shape_ok_def)
  have que: "env_queue ?e l = env_queue (set_queue i ns e) l" for l by (simp add: queue_of_def)
  have "pending ?e script i = pending (set_queue i ns e) script i" by (simp add: pending_def que)
  also have "\<dots> = pending e script i" using pending_Cons [OF sh i q] t by (simp add: item_def)
  finally have pd: "pending ?e script i = pending e script i" .
  have "runner_ok c plan x i (Reading False w) r ?e script"
    using k sh i q t covered_tl [of c plan x i "rn_stamps r" n ns] que unfolding runner_ok_def pd by (simp add: pc_ok_def)
  moreover have "env_ok c ?e"
    using env_ok_set_queue [OF env i, of ns] t q sh by (simp add: env_ok_def que shape_ok_def)
  ultimately have "read_to c plan x i w script n e r ?e" unfolding read_to_def using que sh i q by simp
  with h show ?thesis by blast
qed

lemma read_note:
  assumes ok: "runner_ok c plan x i (Reading b w) r e script" and env: "env_ok c e" and i: "i < rt_lrtCount c"
    and q: "env_queue e i = n # ns" and xb: "\<And>l. l < rt_lrtCount c \<Longrightarrow> x l \<le> size_max"
  shows "\<exists>r' e'. readNotification c b r e = Inr (Some (True, r', e')) \<and> read_to c plan x i w script n e r' e'"
proof -
  have sh: "shape_ok c e" using env by (simp add: env_ok_def)
  have "rn_ix r = i" using runner_okD(1) [OF ok] by (simp add: fixed_ok_def)
  then have "readNotification c b r e = handle c n r (e\<lparr>re_comm := re_comm (set_queue i ns e)\<rparr>)"
    by (simp add: readNotification_def try_pop_notification_def pop_eq [OF sh i] q)
  also have "e\<lparr>re_comm := re_comm (set_queue i ns e)\<rparr> = set_queue i ns e" by (simp add: set_queue_def)
  finally have h: "readNotification c b r e = handle c n r (set_queue i ns e)" .
  have "note_ok c x i n" using runner_okD(4) [OF ok] q by simp
  then have "nt_type n \<in> {LRT_START_ITERATION, LRT_END_ITERATION, JOB_ADD, JOB_UPDATE_JOBSTAMP, LRT_FINISHED_ITERATION}"
    by (auto simp: note_ok_def)
  then show ?thesis
    unfolding h using read_start [OF ok env i q] read_end [OF ok env i q] read_job [OF ok env i q]
      read_stamp [OF ok env i q _ xb] read_finished [OF ok env i q] by blast
qed

lemma read_nothing:
  assumes "shape_ok c e" "i < rt_lrtCount c" "env_queue e i = []" "rn_ix r = i"
  shows "readNotification c b r e = Inr (if b then None else Some (False, r, e))"
  using assms(3,4) by (simp add: readNotification_def try_pop_notification_def pop_eq [OF assms(1,2)])

end
