(* ===== verification/RunnerAct.thy ===== *)
theory RunnerAct
  imports RunnerSystem
begin

text \<open>
  The other half of an iteration of a runner's loop: a job is executed if all it waits for is done, the end is reported. Together
  with \<open>RunnerSystem\<close>, every step of the runners and of the GRT keeps the invariant.
\<close>

subsection \<open>Is the job runnable?\<close>

definition reached :: "runner \<Rightarrow> sync_info \<Rightarrow> bool" where
  "reached r y \<longleftrightarrow> rn_stamps r ! sy_lrt y \<noteq> size_max \<and> sy_job y \<le> rn_stamps r ! sy_lrt y"

lemma runnable_eq:
  "(\<And>y. y \<in> set ys \<Longrightarrow> sy_lrt y < length (rn_stamps r)) \<Longrightarrow> (\<And>y. y \<in> set ys \<Longrightarrow> sy_lrt y = rn_ix r \<Longrightarrow> reached r y) \<Longrightarrow>
     runnable r ys = Inr (\<forall>y \<in> set ys. reached r y)"
  by (induction ys) (auto simp: reached_def not_less)

lemma at_hand_job:
  assumes "working js r pd x \<or> idle js r pd x" "at_hand r"
  shows "working js r pd x" "x < length js" "rn_pos r = x" "rn_queue r ! rn_pos r = js ! x"
  using assms by (auto simp: working_def at_hand_def idle_def split: if_splits)

lemma good_planD:
  assumes "good_plan c plan rank" "i < rt_lrtCount c" "k < length (plan i)"
  shows "jm_execIx (plan i ! k) = k" "case jm_flags (plan i ! k) of None \<Rightarrow> True | Some fs \<Rightarrow> length fs = rt_lrtCount c"
    "y \<in> set (jm_constraints (plan i ! k)) \<Longrightarrow> sy_lrt y < rt_lrtCount c \<and> sy_job y < length (plan (sy_lrt y)) \<and>
         rank (sy_lrt y) (sy_job y) < rank i k \<and> (sy_lrt y = i \<or> flagged (plan (sy_lrt y) ! sy_job y) i)"
    "k < size_max" "y \<in> set (jm_constraints (plan i ! k)) \<Longrightarrow> sy_lrt y = i \<Longrightarrow> sy_job y < k"
proof -
  from assms have g: "good_job c plan rank i k" "\<forall>k' < k. rank i k' < rank i k" by (auto simp: good_plan_def)
  show "jm_execIx (plan i ! k) = k" "case jm_flags (plan i ! k) of None \<Rightarrow> True | Some fs \<Rightarrow> length fs = rt_lrtCount c"
    using g(1) by (simp_all add: good_job_def Let_def)
  show c: "sy_lrt y < rt_lrtCount c \<and> sy_job y < length (plan (sy_lrt y)) \<and>
         rank (sy_lrt y) (sy_job y) < rank i k \<and> (sy_lrt y = i \<or> flagged (plan (sy_lrt y) ! sy_job y) i)"
    if "y \<in> set (jm_constraints (plan i ! k))" for y using g(1) that by (simp add: good_job_def Let_def)
  have "length (plan i) \<le> (\<Sum>i < rt_lrtCount c. length (plan i))" using assms(2) by (intro member_le_sum) auto
  with assms(1,3) show "k < size_max" unfolding good_plan_def by linarith
  show "sy_job y < k" if "y \<in> set (jm_constraints (plan i ! k))" "sy_lrt y = i" for y
  proof (rule ccontr)
    assume "\<not> sy_job y < k"
    moreover have "rank i (sy_job y) < rank i k" "sy_job y < length (plan i)" using c [OF that(1)] that(2) by auto
    moreover have "sy_job y > k \<Longrightarrow> rank i k < rank i (sy_job y)"
      using assms(1,2) \<open>sy_job y < length (plan i)\<close> by (auto simp: good_plan_def)
    ultimately show False by (metis less_asym less_irrefl linorder_neqE_nat)
  qed
qed

text \<open>The runner finds out: it never waits for itself, and what its stamps tell has been executed.\<close>

lemma isJobRunnable_eq:
  assumes gp: "good_plan c plan rank" and i: "i < rt_lrtCount c" and k: "x i < length (plan i)"
    and st: "stamps_ok c x i (rn_stamps r)" and ix: "rn_ix r = i"
  shows "isJobRunnable r (plan i ! x i) = Inr (\<forall>y \<in> set (jm_constraints (plan i ! x i)). reached r y)"
    "isJobRunnable r (plan i ! x i) = Inr True \<Longrightarrow> y \<in> set (jm_constraints (plan i ! x i)) \<Longrightarrow> sy_job y < x (sy_lrt y)"
proof -
  note g = good_planD [OF gp i k]
  have len: "length (rn_stamps r) = rt_lrtCount c" using st by (simp add: stamps_ok_def)
  have "reached r y" if "y \<in> set (jm_constraints (plan i ! x i))" "sy_lrt y = i" for y
  proof -
    have "sy_job y < x i" using g(5) that by blast
    then show ?thesis using st that(2) g(4) by (auto simp: stamps_ok_def reached_def)
  qed
  then show e: "isJobRunnable r (plan i ! x i) = Inr (\<forall>y \<in> set (jm_constraints (plan i ! x i)). reached r y)"
    unfolding isJobRunnable_def using g(3) len ix by (intro runnable_eq) auto
  show "sy_job y < x (sy_lrt y)" if "isJobRunnable r (plan i ! x i) = Inr True" "y \<in> set (jm_constraints (plan i ! x i))"
  proof -
    have "reached r y" "sy_lrt y < rt_lrtCount c" using that e g(3) by auto
    then show ?thesis using st by (auto simp: stamps_ok_def reached_def)
  qed
qed

subsection \<open>The execution of a job\<close>

lemma sendParameters_ok:
  assumes "shape_ok c e" "length (iq_slots (cm_paramMessages (re_comm e))) < size_max"
  shows "\<exists>e'. sendParameters r v ps e = Inr e' \<and> shape_ok c e' \<and> env_jobs e' = env_jobs e \<and> re_mi e' = re_mi e \<and>
     (\<forall>j. env_queue e' j = env_queue e j) \<and>
     length (iq_slots (cm_paramMessages (re_comm e'))) \<le> Suc (length (iq_slots (cm_paramMessages (re_comm e))))"
proof (cases "ps = []")
  case True
  then show ?thesis using assms(1) by (simp add: sendParameters_def)
next
  case False
  let ?q = "cm_paramMessages (re_comm e)"
  have "iq_inv ?q" "iq_room ?q" using assms by (simp_all add: shape_ok_def iq_room_def)
  from iq.push_law [OF this, of "(v, ps)"] obtain ix q where q: "iq_push (v, ps) ?q = Inr (ix, q)" "iq_inv q" by blast
  then have "length (iq_slots q) \<le> Suc (length (iq_slots ?q))"
    by (auto simp: iq_push_def getFreeIndex_def Let_def bindE_eq_Inr set_at_def split: prod.splits if_splits)
  then show ?thesis
    using False q assms(1) by (simp add: sendParameters_def push_paramMessage_def pushParamNotification_def shape_ok_def queue_of_def)
qed

definition ran :: "rt_config \<Rightarrow> nat \<Rightarrow> job_message \<Rightarrow> rt_env \<Rightarrow> rt_env \<Rightarrow> bool" where
  "ran c i j e e' \<longleftrightarrow> shape_ok c e' \<and> env_jobs e' = env_jobs e \<and> length (re_mi e') = length (re_mi e) \<and>
     length (iq_slots (cm_paramMessages (re_comm e'))) \<le> Suc (length (iq_slots (cm_paramMessages (re_comm e)))) \<and>
     (\<forall>l. env_queue e' l = env_queue e l @
       (if l < rt_lrtCount c \<and> l \<noteq> i \<and> flagged j l then [notification_new JOB_UPDATE_JOBSTAMP i (jm_execIx j)] else []))"

text \<open>The job fails as the accesses to the memory or its kernel fail; otherwise the others are told.\<close>

definition job_fault :: "rt_config \<Rightarrow> runner \<Rightarrow> job_message \<Rightarrow> rt_env \<Rightarrow> bool" where
  "job_fault c r j e \<longleftrightarrow> (\<exists>f. job_effect c j \<lparr>fe_mi = re_mi e ! rn_mi r, fe_heap = re_heap e, fe_phys = re_phys e\<rparr> = Inl f)"

lemma runJob_ok:
  assumes sh: "shape_ok c e" and fx: "fixed_ok c (length (re_mi e)) i r" and i: "i < rt_lrtCount c"
    and len: "length (rn_stamps r) = rt_lrtCount c" and old: "rn_stamps r ! i = size_max \<or> rn_stamps r ! i < jm_execIx j"
    and fl: "case jm_flags j of None \<Rightarrow> True | Some fs \<Rightarrow> length fs = rt_lrtCount c" and k: "jm_execIx j < size_max"
    and room: "length (iq_slots (cm_paramMessages (re_comm e))) < size_max" and nf: "\<not> job_fault c r j e"
  shows "\<exists>e'. runJob c r j e = Inr (r\<lparr>rn_stamps := (rn_stamps r)[i := jm_execIx j]\<rparr>, e') \<and> ran c i j e e'"
proof -
  from fx have f: "rn_mi r < length (re_mi e)" "rn_ix r = i" by (simp_all add: fixed_ok_def)
  from nf obtain ps m where m: "job_effect c j \<lparr>fe_mi = re_mi e ! rn_mi r, fe_heap = re_heap e, fe_phys = re_phys e\<rparr> = Inr (ps, m)"
    by (cases "job_effect c j \<lparr>fe_mi = re_mi e ! rn_mi r, fe_heap = re_heap e, fe_phys = re_phys e\<rparr>") (auto simp: job_fault_def)
  let ?e = "e\<lparr>re_mi := (re_mi e)[rn_mi r := fe_mi m], re_heap := fe_heap m, re_phys := fe_phys m\<rparr>"
  let ?r = "r\<lparr>rn_stamps := (rn_stamps r)[i := jm_execIx j]\<rparr>"
  have sh1: "shape_ok c ?e" using sh by (simp add: shape_ok_def)
  from jobStamp_ok [OF sh1 fl k, of ?r] obtain e2 where e2: "sendJobStampNotification c ?r (jm_flags j) (jm_execIx j) ?e = Inr e2"
    "shape_ok c e2" "only_queues ?e e2"
    "\<And>l. env_queue e2 l = env_queue ?e l @ (if l < rt_lrtCount c \<and> l \<noteq> rn_ix ?r \<and> (case jm_flags j of None \<Rightarrow> False | Some fs \<Rightarrow> fs ! l)
        then [notification_new JOB_UPDATE_JOBSTAMP (rn_ix ?r) (jm_execIx j)] else [])" by blast
  have "length (iq_slots (cm_paramMessages (re_comm e2))) < size_max" using e2(3) room by (simp add: only_queues_def)
  from sendParameters_ok [OF e2(2) this, of ?r "jm_taskIx j" ps] obtain e3 where e3: "sendParameters ?r (jm_taskIx j) ps e2 = Inr e3"
    "shape_ok c e3" "env_jobs e3 = env_jobs e2" "re_mi e3 = re_mi e2" "\<And>l. env_queue e3 l = env_queue e2 l"
    "length (iq_slots (cm_paramMessages (re_comm e3))) \<le> Suc (length (iq_slots (cm_paramMessages (re_comm e2))))" by blast
  have u: "updateJobStamp i (jm_execIx j) r = Inr ?r" using old i len by (simp add: updateJobStamp_eq)
  have "runJob c r j e = Inr (?r, e3)" using f m u e2(1) e3(1) by (simp add: runJob_def Let_def)
  moreover have "ran c i j e e3"
    using e2(3,4) e3(2-6) f(2) by (simp add: ran_def only_queues_def flagged_def queue_of_def)
  ultimately show ?thesis by blast
qed

subsection \<open>One pass of the body\<close>

text \<open>\<open>e'\<close> is \<open>e\<close> after runner \<open>i\<close> has brought the counts of executed jobs from \<open>x\<close> to \<open>y\<close>, as the other runners see it.\<close>

definition seen :: "rt_config \<Rightarrow> (nat \<Rightarrow> job_message list) \<Rightarrow> (nat \<Rightarrow> nat) \<Rightarrow> (nat \<Rightarrow> nat) \<Rightarrow> nat \<Rightarrow> rt_env \<Rightarrow> rt_env \<Rightarrow> bool" where
  "seen c plan x y i e e' \<longleftrightarrow> shape_ok c e' \<and> env_jobs e' = env_jobs e \<and> length (re_mi e') = length (re_mi e) \<and> env_queue e' i = env_queue e i \<and>
     (\<forall>j < rt_lrtCount c. j \<noteq> i \<longrightarrow> (\<exists>ns. env_queue e' j = env_queue e j @ ns \<and>
       (\<forall>n \<in> set ns. nt_type n \<notin> {LRT_START_ITERATION, LRT_END_ITERATION, JOB_ADD} \<and> note_ok c y j n) \<and>
       (\<forall>k. x i \<le> k \<longrightarrow> k < y i \<longrightarrow> flagged (plan i ! k) j \<longrightarrow>
          (\<exists>n \<in> set ns. nt_type n = JOB_UPDATE_JOBSTAMP \<and> nt_sender n = i \<and> nt_ix n = k))))"

lemma seen_refl: "shape_ok c e \<Longrightarrow> seen c plan x x i e e" by (auto simp: seen_def)

lemma seen_trans:
  assumes "seen c plan x y i e1 e2" "seen c plan y y i e2 e3"
  shows "seen c plan x y i e1 e3"
  unfolding seen_def
proof (intro conjI allI impI)
  fix j assume j: "j < rt_lrtCount c" "j \<noteq> i"
  from assms j obtain ns ms where n: "env_queue e2 j = env_queue e1 j @ ns" "env_queue e3 j = env_queue e2 j @ ms"
    "\<forall>n \<in> set ns \<union> set ms. nt_type n \<notin> {LRT_START_ITERATION, LRT_END_ITERATION, JOB_ADD} \<and> note_ok c y j n"
    "\<forall>k. x i \<le> k \<longrightarrow> k < y i \<longrightarrow> flagged (plan i ! k) j \<longrightarrow> (\<exists>n \<in> set ns. nt_type n = JOB_UPDATE_JOBSTAMP \<and> nt_sender n = i \<and> nt_ix n = k)"
    unfolding seen_def by (metis Un_iff)
  show "\<exists>ns. env_queue e3 j = env_queue e1 j @ ns \<and>
       (\<forall>n \<in> set ns. nt_type n \<notin> {LRT_START_ITERATION, LRT_END_ITERATION, JOB_ADD} \<and> note_ok c y j n) \<and>
       (\<forall>k. x i \<le> k \<longrightarrow> k < y i \<longrightarrow> flagged (plan i ! k) j \<longrightarrow> (\<exists>n \<in> set ns. nt_type n = JOB_UPDATE_JOBSTAMP \<and> nt_sender n = i \<and> nt_ix n = k))"
    by (rule exI [of _ "ns @ ms"]) (use n in auto)
qed (use assms in \<open>auto simp: seen_def\<close>)

lemma seen_announced: "seen c plan x y i e e' \<Longrightarrow> env_ok c e \<Longrightarrow> env_ok c e'"
proof -
  assume s: "seen c plan x y i e e'" and env: "env_ok c e"
  have "announced (env_queue e' j) = announced (env_queue e j)" if j: "j < rt_lrtCount c" for j
  proof (cases "j = i")
    case False
    with s j obtain ns where n: "env_queue e' j = env_queue e j @ ns" "\<forall>n \<in> set ns. nt_type n \<noteq> JOB_ADD" by (auto simp: seen_def)
    then have "announced ns = {#}" by (auto simp: announced_def filter_empty_conv)
    with n(1) show ?thesis by simp
  qed (use s in \<open>simp add: seen_def\<close>)
  then show "env_ok c e'" using s env by (simp add: env_ok_def seen_def)
qed

lemma seen_pending: "seen c plan x y i e e' \<Longrightarrow> pending e' script i = pending e script i"
  by (simp add: pending_def seen_def)

lemma seen_others_pending:
  assumes s: "seen c plan x y i e e'" and j: "j < rt_lrtCount c"
  shows "pending e' script j = pending e script j"
proof (cases "j = i")
  case False
  with s j obtain ns where n: "env_queue e' j = env_queue e j @ ns"
    "\<forall>n \<in> set ns. nt_type n \<notin> {LRT_START_ITERATION, LRT_END_ITERATION, JOB_ADD}" by (auto simp: seen_def)
  show ?thesis by (rule pending_append [OF n(1)]) (use n(2) s in \<open>auto simp: seen_def\<close>)
qed (simp add: seen_pending [OF s])

lemma seen_other:
  assumes s: "seen c plan x y i e e'" and j: "j < rt_lrtCount c" "j \<noteq> i" and ok: "runner_ok c plan x j pc r e script"
    and y: "\<And>l. l \<noteq> i \<Longrightarrow> y l = x l" "x i \<le> y i"
  shows "runner_ok c plan y j pc r e' script"
proof -
  from s j obtain ns where n: "env_queue e' j = env_queue e j @ ns"
    "\<forall>n \<in> set ns. nt_type n \<notin> {LRT_START_ITERATION, LRT_END_ITERATION, JOB_ADD} \<and> note_ok c y j n"
    "\<forall>k. x i \<le> k \<longrightarrow> k < y i \<longrightarrow> flagged (plan i ! k) j \<longrightarrow> (\<exists>n \<in> set ns. nt_type n = JOB_UPDATE_JOBSTAMP \<and> nt_sender n = i \<and> nt_ix n = k)"
    by (auto simp: seen_def)
  show ?thesis
  proof (rule runner_ok_other [OF ok _ n(1)])
    show "length (re_mi e') = length (re_mi e)" using s by (simp add: seen_def)
    show "iq_content (env_jobs e') (nt_ix n) = iq_content (env_jobs e) (nt_ix n)" for n using s by (simp add: seen_def)
    show "x l \<le> y l" for l using y by (cases "l = i") auto
    show "\<exists>n \<in> set ns. nt_type n = JOB_UPDATE_JOBSTAMP \<and> nt_sender n = l \<and> nt_ix n = k"
      if "l < rt_lrtCount c" "l \<noteq> j" "x l \<le> k" "k < y l" "flagged (plan l ! k) j" for l k
      using that y n(3) by (cases "l = i") auto
  qed (use n(2) y j in auto)
qed

text \<open>The state between the job and the test of the end.\<close>

definition mid_ok :: "rt_config \<Rightarrow> (nat \<Rightarrow> job_message list) \<Rightarrow> (nat \<Rightarrow> nat) \<Rightarrow> nat \<Rightarrow> bool \<Rightarrow> runner \<Rightarrow> rt_env \<Rightarrow> (nat \<times> post) list \<Rightarrow> bool" where
  "mid_ok c plan x i w r e script \<longleftrightarrow> runner_ok c plan x i (Reading False False) r e script \<and> (w \<longrightarrow> waiting r) \<and>
     (\<not> loops c i \<longrightarrow> pending e script i = [])"

lemma act_waits:
  assumes ok: "runner_ok c plan x i (Acting w) r e script" and gp: "good_plan c plan rank" and i: "i < rt_lrtCount c"
    and ex: "executes (Acting w) r = []"
  shows "\<exists>w'. act_job c w r e = Inr (w', r, e) \<and> mid_ok c plan x i w' r e script"
proof -
  note k = runner_okD [OF ok]
  have pc: "runner_ok c plan x i (Reading False False) r e script" "\<not> loops c i \<longrightarrow> pending e script i = []"
    using ok by (auto simp: runner_ok_def pc_ok_def)
  have start: "rn_start r \<and> rn_pos r \<noteq> length (rn_queue r) \<longleftrightarrow> at_hand r"
    using k(2) by (auto simp: at_hand_def working_def idle_def)
  show ?thesis
  proof (cases "at_hand r")
    case False
    with k(3) have "\<not> w" by (auto simp: pc_ok_def)
    with False show ?thesis using pc unfolding act_job_def start by (auto simp: mid_ok_def)
  next
    case True
    note h = at_hand_job [OF k(2) [THEN disj_comms(1) [THEN iffD1]] True]
    have ix: "rn_ix r = i" using k(1) by (simp add: fixed_ok_def)
    have "isJobRunnable r (plan i ! x i) = Inr False"
      using isJobRunnable_eq(1) [OF gp i h(2) k(5) ix] ex True h(3,4) by (auto simp: executes_def at_hand_def split: if_splits)
    then have run: "isJobRunnable r (rn_queue r ! rn_pos r) = Inr False" using h(4) by simp
    with True have "waiting r" by (simp add: waiting_def)
    moreover have "act_job c w r e = Inr (True, r, e)"
      using True run unfolding act_job_def start by (simp add: at_hand_def)
    ultimately show ?thesis using pc by (auto simp: mid_ok_def)
  qed
qed

lemma act_runs:
  assumes ok: "runner_ok c plan x i (Acting w) r e script" and gp: "good_plan c plan rank" and i: "i < rt_lrtCount c"
    and sh: "shape_ok c e" and room: "length (iq_slots (cm_paramMessages (re_comm e))) < size_max"
    and ex: "executes (Acting w) r = [k]"
  defines "j \<equiv> plan i ! x i" and "y \<equiv> x(i := Suc (x i))"
  shows "k = x i" "k < length (plan i)" "\<And>z. z \<in> set (jm_constraints j) \<Longrightarrow> sy_job z < x (sy_lrt z)" "rn_queue r ! rn_pos r = j"
    "act_job c w r e = Inr (w', r', e') \<Longrightarrow> \<not> job_fault c r j e"
    "\<not> job_fault c r j e \<Longrightarrow> \<exists>r' e'. act_job c w r e = Inr (False, r', e') \<and> mid_ok c plan y i False r' e' script \<and> seen c plan x y i e e' \<and>
       length (iq_slots (cm_paramMessages (re_comm e'))) \<le> Suc (length (iq_slots (cm_paramMessages (re_comm e))))"
proof -
  note o = runner_okD [OF ok]
  have ix: "rn_ix r = i" "rn_mi r < length (re_mi e)" using o(1) by (simp_all add: fixed_ok_def)
  have hand: "at_hand r" using ex by (auto simp: executes_def at_hand_def split: if_splits)
  note h = at_hand_job [OF o(2) [THEN disj_comms(1) [THEN iffD1]] hand]
  show job: "rn_queue r ! rn_pos r = j" using h(4) by (simp add: j_def)
  note g = good_planD [OF gp i h(2)]
  have run: "isJobRunnable r j = Inr True" and kx: "k = jm_execIx j" using ex job by (auto simp: executes_def split: if_splits)
  show k: "k = x i" "k < length (plan i)" using kx g(1) h(2) by (simp_all add: j_def)
  show "sy_job z < x (sy_lrt z)" if "z \<in> set (jm_constraints j)" for z
    using isJobRunnable_eq(2) [OF gp i h(2) o(5) ix(1)] run that by (simp add: j_def)
  have act: "act_job c w r e = bindE (runJob c r j e) (\<lambda>(r1, e1). Inr (False, r1\<lparr>rn_last := jm_execIx j, rn_pos := rn_pos r1 + 1\<rparr>, e1))"
    using hand job run by (simp add: act_job_def at_hand_def)
  show "\<not> job_fault c r j e" if "act_job c w r e = Inr (w', r', e')"
    using that ix(2) by (auto simp: act runJob_def job_fault_def bindE_eq_Inr)
  assume nf: "\<not> job_fault c r j e"
  have st: "rn_stamps r ! i = (if x i = 0 then size_max else x i - 1)" "length (rn_stamps r) = rt_lrtCount c"
    "\<forall>l < rt_lrtCount c. rn_stamps r ! l = size_max \<or> rn_stamps r ! l < x l"
    using o(5) by (simp_all add: stamps_ok_def)
  have old: "rn_stamps r ! i = size_max \<or> rn_stamps r ! i < jm_execIx j" using st(1) kx k(1) by auto
  from runJob_ok [OF sh o(1) i st(2) old _ _ room nf] g(1,2,4) obtain e' where
    e': "runJob c r j e = Inr (r\<lparr>rn_stamps := (rn_stamps r)[i := x i]\<rparr>, e')" "ran c i j e e'" by (auto simp: j_def)
  let ?r = "r\<lparr>rn_stamps := (rn_stamps r)[i := x i], rn_last := x i, rn_pos := Suc (x i)\<rparr>"
  let ?n = "notification_new JOB_UPDATE_JOBSTAMP i (x i)"
  have queues: "env_queue e' l = env_queue e l @ (if l < rt_lrtCount c \<and> l \<noteq> i \<and> flagged j l then [?n] else [])" for l
    using e'(2) kx k(1) by (simp add: ran_def)
  have n: "nt_type ?n = JOB_UPDATE_JOBSTAMP" "nt_sender ?n = i" "nt_ix ?n = x i" by (simp_all add: notification_new_def)
  have seen: "seen c plan x y i e e'"
    unfolding seen_def
  proof (intro conjI allI impI)
    fix l assume l: "l < rt_lrtCount c" "l \<noteq> i"
    let ?ns = "if flagged j l then [?n] else []"
    have "env_queue e' l = env_queue e l @ ?ns" using queues [of l] l by simp
    moreover have "\<forall>n \<in> set ?ns. nt_type n \<notin> {LRT_START_ITERATION, LRT_END_ITERATION, JOB_ADD} \<and> note_ok c y l n"
      using i l n by (simp add: note_ok_def y_def)
    moreover have "\<forall>m. x i \<le> m \<longrightarrow> m < y i \<longrightarrow> flagged (plan i ! m) l \<longrightarrow>
        (\<exists>n \<in> set ?ns. nt_type n = JOB_UPDATE_JOBSTAMP \<and> nt_sender n = i \<and> nt_ix n = m)"
      using n by (auto simp: y_def j_def less_Suc_eq_le dest!: le_antisym)
    ultimately show "\<exists>ns. env_queue e' l = env_queue e l @ ns \<and>
       (\<forall>n \<in> set ns. nt_type n \<notin> {LRT_START_ITERATION, LRT_END_ITERATION, JOB_ADD} \<and> note_ok c y l n) \<and>
       (\<forall>m. x i \<le> m \<longrightarrow> m < y i \<longrightarrow> flagged (plan i ! m) l \<longrightarrow>
          (\<exists>n \<in> set ns. nt_type n = JOB_UPDATE_JOBSTAMP \<and> nt_sender n = i \<and> nt_ix n = m))" by blast
  qed (use e'(2) queues [of i] in \<open>simp_all add: ran_def\<close>)
  have "act_job c w r e = Inr (False, ?r, e')" using e'(1) g(1) h(3) by (simp add: act j_def)
  moreover have "mid_ok c plan y i False ?r e' script"
  proof -
    have pd: "pending e' script i = pending e script i" by (rule seen_pending [OF seen])
    have "working (plan i) ?r (pending e script i) (y i)" using h(1,2,3) hand by (auto simp: working_def y_def at_hand_def)
    moreover have "stamps_ok c y i (rn_stamps ?r)"
      using st i by (auto simp: stamps_ok_def y_def nth_list_update less_Suc_eq)
    moreover have "covered c plan y i (rn_stamps ?r) (env_queue e' i)"
      using o(6) queues [of i] by (auto simp: covered_def y_def)
    moreover have "\<forall>n \<in> set (env_queue e' i). note_ok c y i n"
      using o(4) queues [of i] note_ok_mono [of c x i _ y] by (auto simp: y_def)
    moreover have "\<not> rn_finished r" using h(1) by (simp add: working_def)
    ultimately show ?thesis
      using o(1,3) e'(2) by (simp add: mid_ok_def runner_ok_def pd pc_ok_def fixed_ok_def ran_def)
  qed
  ultimately show "\<exists>r' e'. act_job c w r e = Inr (False, r', e') \<and> mid_ok c plan y i False r' e' script \<and> seen c plan x y i e e' \<and>
       length (iq_slots (cm_paramMessages (re_comm e'))) \<le> Suc (length (iq_slots (cm_paramMessages (re_comm e))))"
    using seen e'(2) by (auto simp: ran_def)
qed

text \<open>The end of the iteration: the runner rests, and the GRT knows.\<close>

definition rested :: "rt_config \<Rightarrow> runner \<Rightarrow> bool" where
  "rested c r \<longleftrightarrow> (rn_end r \<and> rn_pos r = rn_jobCount r) \<or> (\<not> loops c (rn_ix r) \<and> rn_queue r = [])"

lemma finish_ok:
  assumes mid: "mid_ok c plan x i w r e script" and sh: "shape_ok c e" and i: "i < rt_lrtCount c" "rt_grtIx c < rt_lrtCount c"
    and fin: "rested c r"
  shows "\<exists>r' e'. finish_iteration c r e = Inr (r', e') \<and>
     runner_ok c plan x i (if loops c i then Loop w else Returned) r' e' script \<and> seen c plan x x i e e' \<and>
     cm_paramMessages (re_comm e') = cm_paramMessages (re_comm e) \<and> rn_finished r'"
proof -
  have ok: "runner_ok c plan x i (Reading False False) r e script" using mid by (simp add: mid_ok_def)
  note o = runner_okD [OF ok]
  have fx: "\<not> rn_broadcast r" "\<not> rn_repeat r" "rn_ix r = i" "rn_isGRT r \<longleftrightarrow> i = rt_grtIx c" "rn_lrtIx r = i" using o(1) by (simp_all add: fixed_ok_def)
  let ?r = "(clearJobQueue r)\<lparr>rn_broadcast := False, rn_finished := True, rn_start := False, rn_end := False\<rparr>"
  have all: "x i = length (plan i) \<and> pending e script i = [] \<and> \<not> waiting r"
  proof (cases "rn_end r")
    case True
    with o(2) have wk: "working (plan i) r (pending e script i) (x i)" by (auto simp: idle_def)
    have "rn_jobCount r = rn_pos r" using fin True wk by (auto simp: rested_def working_def)
    with wk True show ?thesis by (auto simp: working_def waiting_def at_hand_def)
  next
    case False
    with fin fx(3) have f: "\<not> loops c i" "rn_queue r = []" by (auto simp: rested_def)
    then have "pending e script i = []" using mid by (simp add: mid_ok_def)
    then show ?thesis using o(2) False f(2) by (auto simp: working_def idle_def rest_of_def waiting_def at_hand_def)
  qed
  have w: "\<not> w" using mid all by (simp add: mid_ok_def)
  have idle: "idle (plan i) ?r (pending e script i) (x i)" using all by (simp add: idle_def clearJobQueue_def)
  have rok: "runner_ok c plan x i (if loops c i then Loop w else Returned) ?r e' script"
    if "length (re_mi e') = length (re_mi e)" "env_queue e' i = env_queue e i" "pending e' script i = pending e script i" for e'
    using o that idle w all by (simp add: runner_ok_def fixed_ok_def clearJobQueue_def pc_ok_def)
  let ?n = "notification_new LRT_FINISHED_ITERATION i size_max"
  define e' where "e' = (if i = rt_grtIx c then e\<lparr>re_finished := (re_finished e)[i := True]\<rparr>
     else set_queue (rt_grtIx c) (env_queue e (rt_grtIx c) @ [?n]) e)"
  have "sendFinishedNotification c ?r e = Inr e'"
    using fx sh i rt_push_eq [OF sh i(2)]
    by (simp add: sendFinishedNotification_def registerFinishedRunner_def shape_ok_def e'_def clearJobQueue_def)
  then have f: "finish_iteration c r e = Inr (?r, e')" using fx by (simp add: finish_iteration_def Let_def)
  have q: "env_queue e' j = (if i \<noteq> rt_grtIx c \<and> j = rt_grtIx c then env_queue e j @ [?n] else env_queue e j)" for j
  proof (cases "i = rt_grtIx c")
    case True
    then have "re_comm e' = re_comm e" by (simp add: e'_def)
    with True show ?thesis by simp
  next
    case False
    then have "env_queue e' j = env_queue (set_queue (rt_grtIx c) (env_queue e (rt_grtIx c) @ [?n]) e) j" by (simp add: e'_def)
    with False sh i(2) show ?thesis by auto
  qed
  have "shape_ok c e'" using sh by (auto simp: e'_def) (simp add: shape_ok_def)
  moreover have "note_ok c x (rt_grtIx c) ?n" "nt_type ?n = LRT_FINISHED_ITERATION" using i by (simp_all add: note_ok_def notification_new_def)
  moreover have same: "env_jobs e' = env_jobs e" "re_mi e' = re_mi e" "cm_paramMessages (re_comm e') = cm_paramMessages (re_comm e)"
    by (simp_all add: e'_def)
  ultimately have seen: "seen c plan x x i e e'" using q by (auto simp: seen_def)
  have "runner_ok c plan x i (if loops c i then Loop w else Returned) ?r e' script"
    using rok [of e'] same seen_pending [OF seen] seen by (simp add: seen_def)
  moreover have "rn_finished ?r" by simp
  ultimately show ?thesis using f same(3) seen by blast
qed

lemma not_rested:
  assumes mid: "mid_ok c plan x i w r e script" and fin: "\<not> rested c r"
  shows "runner_ok c plan x i (Loop w) r e script"
proof -
  have ok: "runner_ok c plan x i (Reading False False) r e script" using mid by (simp add: mid_ok_def)
  note o = runner_okD [OF ok]
  have "rn_ix r = i" using o(1) by (simp add: fixed_ok_def)
  then have "\<not> (\<not> loops c i \<and> rn_finished r)" using o(2) fin by (auto simp: rested_def idle_def working_def)
  then show ?thesis using o mid by (simp add: runner_ok_def pc_ok_def mid_ok_def)
qed

text \<open>The pass: nothing, or the job at hand, and maybe the end.\<close>

lemma act_ok:
  assumes ok: "runner_ok c plan x i (Acting w) r e script" and gp: "good_plan c plan rank" and i: "i < rt_lrtCount c"
    and sh: "shape_ok c e" and room: "length (iq_slots (cm_paramMessages (re_comm e))) < size_max"
  defines "m \<equiv> length (executes (Acting w) r)" and "y \<equiv> x(i := x i + length (executes (Acting w) r))"
  shows "(\<exists>f. act c (loops c i) w r e = Inl f) \<and> executes (Acting w) r \<noteq> [] \<and> job_fault c r (rn_queue r ! rn_pos r) e \<or>
    (\<exists>pc r' e'. act c (loops c i) w r e = Inr (pc, r', e') \<and> runner_ok c plan y i pc r' e' script \<and> seen c plan x y i e e' \<and>
       length (iq_slots (cm_paramMessages (re_comm e'))) \<le> length (iq_slots (cm_paramMessages (re_comm e))) + m \<and>
       (m = 0 \<and> rested c r \<longrightarrow> rn_finished r'))"
proof -
  have grt: "rt_grtIx c < rt_lrtCount c" using gp by (simp add: good_plan_def)
  have tail: "\<exists>pc r' e'. act c (loops c i) w r e = Inr (pc, r', e') \<and> runner_ok c plan y i pc r' e' script \<and> seen c plan x y i e e' \<and>
       length (iq_slots (cm_paramMessages (re_comm e'))) \<le> length (iq_slots (cm_paramMessages (re_comm e))) + m \<and>
       (m = 0 \<and> rested c r \<longrightarrow> rn_finished r')"
    if a: "act_job c w r e = Inr (w1, r1, e1)" "mid_ok c plan y i w1 r1 e1 script" "seen c plan x y i e e1"
      "length (iq_slots (cm_paramMessages (re_comm e1))) \<le> length (iq_slots (cm_paramMessages (re_comm e))) + m"
      "m = 0 \<Longrightarrow> r1 = r" for w1 r1 e1
  proof -
    have ix: "rn_ix r1 = i" using a(2) by (simp add: mid_ok_def runner_ok_def fixed_ok_def)
    have b: "act c (loops c i) w r e =
       (if rested c r1 then bindE (finish_iteration c r1 e1) (\<lambda>(r2, e2). Inr (if loops c i then Loop w1 else Returned, r2, e2)) else Inr (Loop w1, r1, e1))"
      unfolding act_def rested_def ix by (simp add: a(1))
    have sh1: "shape_ok c e1" using a(3) by (simp add: seen_def)
    show ?thesis
    proof (cases "rested c r1")
      case True
      from finish_ok [OF a(2) sh1 i grt True] obtain r2 e2 where f: "finish_iteration c r1 e1 = Inr (r2, e2)"
        "runner_ok c plan y i (if loops c i then Loop w1 else Returned) r2 e2 script" "seen c plan y y i e1 e2"
        "cm_paramMessages (re_comm e2) = cm_paramMessages (re_comm e1)" "rn_finished r2" by blast
      have "act c (loops c i) w r e = Inr (if loops c i then Loop w1 else Returned, r2, e2)" using b True f(1) by simp
      moreover have "seen c plan x y i e e2" by (rule seen_trans [OF a(3) f(3)])
      moreover have "length (iq_slots (cm_paramMessages (re_comm e2))) \<le> length (iq_slots (cm_paramMessages (re_comm e))) + m"
        using a(4) f(4) by simp
      ultimately show ?thesis using f(2,5) by blast
    next
      case False
      then have "act c (loops c i) w r e = Inr (Loop w1, r1, e1)" using b by simp
      then show ?thesis using not_rested [OF a(2) False] a(3,4,5) False by blast
    qed
  qed
  show ?thesis
  proof (cases "executes (Acting w) r")
    case Nil
    then have y: "y = x" "m = 0" by (simp_all add: y_def m_def)
    from act_waits [OF ok gp i Nil] obtain w' where "act_job c w r e = Inr (w', r, e)" "mid_ok c plan x i w' r e script" by blast
    with tail [of w' r e] seen_refl [OF sh, of plan x i] show ?thesis unfolding y by simp
  next
    case (Cons k ks)
    then have k: "executes (Acting w) r = [k]" by (auto simp: executes_def split: if_splits)
    note a = act_runs [OF ok gp i sh room k]
    have y: "y = x(i := Suc (x i))" "m = 1" by (simp_all add: y_def m_def k)
    show ?thesis
    proof (cases "job_fault c r (plan i ! x i) e")
      case True
      then obtain f where "act_job c w r e = Inl f" using a(5) by (cases "act_job c w r e") auto
      then have "act c (loops c i) w r e = Inl f" by (simp add: act_def)
      with True k a(4) show ?thesis by simp
    next
      case False
      from a(6) [OF False] obtain r1 e1 where "act_job c w r e = Inr (False, r1, e1)" "mid_ok c plan y i False r1 e1 script"
        "seen c plan x y i e e1" "length (iq_slots (cm_paramMessages (re_comm e1))) \<le> Suc (length (iq_slots (cm_paramMessages (re_comm e))))"
        unfolding y by blast
      with tail [of False r1 e1] y(2) show ?thesis by simp
    qed
  qed
qed

end
