(* ===== verification/RunnerInv.thy ===== *)
theory RunnerInv
  imports RunnerAct
begin

text \<open>The invariant holds when the runners are started and is kept by every step; a step is only missing where a runner waits.\<close>

subsection \<open>Postings\<close>

lemma postings_simps [simp]: "postings j [] = []" "postings j ((i, p) # script) = (if i = j then [p] else []) @ postings j script"
  by (simp_all add: postings_def)

lemma jobs_left_simps [simp]: "jobs_left [] = 0" "jobs_left ((i, p) # script) = (case p of Post_Job j \<Rightarrow> 1 | _ \<Rightarrow> 0) + jobs_left script"
  by (simp_all add: jobs_left_def split: post.splits)



lemma post_runner:
  assumes ok: "runner_ok c plan x j pc r e ((i, p) # script)" and mi: "length (re_mi e') = length (re_mi e)"
    and q: "env_queue e' j = env_queue e j @ (if i = j then [n] else [])" and t: "nt_type n \<in> {LRT_START_ITERATION, LRT_END_ITERATION, JOB_ADD}"
    and item: "item (iq_content (env_jobs e')) n = [Some p]"
    and content: "\<And>n. n \<in> set (env_queue e j) \<Longrightarrow> nt_type n = JOB_ADD \<Longrightarrow> iq_content (env_jobs e') (nt_ix n) = iq_content (env_jobs e) (nt_ix n)"
  shows "runner_ok c plan x j pc r e' script"
proof -
  have m: "List.map (item (iq_content (env_jobs e'))) (env_queue e j) = List.map (item (iq_content (env_jobs e))) (env_queue e j)"
    using content by (intro map_cong refl) (simp add: item_def split: notification_type.splits)
  have pd: "pending e' script j = pending e ((i, p) # script) j"
    using item by (auto simp: pending_def q m)
  have "covered c plan x j (rn_stamps r) (env_queue e' j)" using runner_okD(6) [OF ok] unfolding covered_def q by auto
  moreover have "\<forall>n \<in> set (env_queue e' j). note_ok c x j n" using runner_okD(4) [OF ok] t by (auto simp: q note_ok_def)
  ultimately show ?thesis using ok by (simp add: runner_ok_def pd mi)
qed

lemma announced_content:
  assumes env: "env_ok c e" and j: "j < rt_lrtCount c" and n: "n \<in> set (env_queue e j)" "nt_type n = JOB_ADD"
  shows "nt_ix n \<in># iq.circulation (env_jobs e)"
proof -
  have "nt_ix n \<in># announced (env_queue e j)" by (rule in_announced [OF n])
  moreover have "(\<Sum>i < rt_lrtCount c. announced (env_queue e i)) =
     announced (env_queue e j) + (\<Sum>i \<in> {..<rt_lrtCount c} - {j}. announced (env_queue e i))" using j by (simp add: sum.remove)
  ultimately show ?thesis using env by (simp add: env_ok_def)
qed

lemma sum_bound: "log_ok n plan hs \<Longrightarrow> length hs \<le> (\<Sum>i < n. length (plan i))"
  by (simp add: length_log done_by_le sum_mono)

lemma post_ok:
  assumes inv: "sys_inv c plan s" and gp: "good_plan c plan rank" and s: "s_script s = (i, p) # script"
  shows "\<exists>e. do_post c (i, p) (s_env s) = Inr e \<and> sys_inv c plan (s\<lparr>s_env := e, s_script := script\<rparr>)"
proof -
  let ?e = "s_env s" let ?N = "rt_lrtCount c"
  have env: "env_ok c ?e" and i: "i < ?N" using inv s by (simp_all add: sys_inv_def)
  then have sh: "shape_ok c ?e" by (simp add: env_ok_def)
  have left: "length (iq_slots (env_jobs ?e)) + jobs_left ((i, p) # script) \<le> (\<Sum>i < ?N. length (plan i))"
    and small: "(\<Sum>i < ?N. length (plan i)) < size_max" using inv s gp by (simp_all add: sys_inv_def good_plan_def)
  have result: "\<exists>e. do_post c (i, p) ?e = Inr e \<and> sys_inv c plan (s\<lparr>s_env := e, s_script := script\<rparr>)"
    if d: "do_post c (i, p) ?e = Inr e'" and sh': "shape_ok c e'"
      and mi: "length (re_mi e') = length (re_mi ?e)" and pm: "cm_paramMessages (re_comm e') = cm_paramMessages (re_comm ?e)"
      and q: "\<And>j. env_queue e' j = env_queue ?e j @ (if i = j then [n] else [])"
      and t: "nt_type n \<in> {LRT_START_ITERATION, LRT_END_ITERATION, JOB_ADD}"
      and item: "item (iq_content (env_jobs e')) n = [Some p]"
      and content: "\<And>ix. ix \<in># iq.circulation (env_jobs ?e) \<Longrightarrow> iq_content (env_jobs e') ix = iq_content (env_jobs ?e) ix"
      and circ: "iq.circulation (env_jobs e') = iq.circulation (env_jobs ?e) + announced [n]"
      and slots: "length (iq_slots (env_jobs e')) \<le> length (iq_slots (env_jobs ?e)) + (case p of Post_Job j \<Rightarrow> 1 | _ \<Rightarrow> 0)" for e' n
  proof -
    have "runner_ok c plan (done_by (s_log s)) j (s_pc s j) (s_runner s j) e' script" if j: "j < ?N" for j
      by (rule post_runner [OF _ mi q t item])
        (use inv s j content announced_content [OF env j] in \<open>auto simp: sys_inv_def\<close>)
    moreover have "(\<Sum>j < ?N. announced (env_queue e' j)) = announced [n] + (\<Sum>j < ?N. announced (env_queue ?e j))"
      using i by (simp add: q sum.remove [of _ i] ac_simps cong: if_cong)
    then have "env_ok c e'" using sh' env circ by (simp add: env_ok_def ac_simps)
    ultimately have "sys_inv c plan (s\<lparr>s_env := e', s_script := script\<rparr>)"
      using inv s left slots by (simp add: sys_inv_def pm)
    then show ?thesis using d by blast
  qed
  show ?thesis
  proof (cases p)
    case (Post_Job j)
    have "iq_inv (env_jobs ?e)" "iq_room (env_jobs ?e)" using sh left small Post_Job by (simp_all add: shape_ok_def iq_room_def)
    from iq.circulation_push [OF this, of j] obtain ix jq where jq: "iq_push j (env_jobs ?e) = Inr (ix, jq)" "iq_inv jq"
      "iq.circulation jq = add_mset ix (iq.circulation (env_jobs ?e))" "ix \<notin># iq.circulation (env_jobs ?e)"
      "iq_content jq = (iq_content (env_jobs ?e))(ix \<mapsto> j)" by blast
    let ?n = "notification_new JOB_ADD (rt_grtIx c) ix"
    let ?e1 = "?e\<lparr>re_comm := (re_comm ?e)\<lparr>cm_jobMessages := jq\<rparr>\<rparr>"
    have sh1: "shape_ok c ?e1" using sh jq(2) by (simp add: shape_ok_def)
    have q1: "env_queue ?e1 l = env_queue ?e l" for l by (simp add: queue_of_def)
    let ?e2 = "set_queue i (env_queue ?e i @ [?n]) ?e1"
    have d: "do_post c (i, p) ?e = Inr ?e2"
      using rt_push_eq [OF sh1 i, of ?n] jq(1) q1 by (simp add: do_post_def Post_Job push_job_def)
    have n: "nt_type ?n = JOB_ADD" "nt_ix ?n = ix" by (simp_all add: notification_new_def)
    show ?thesis
    proof (rule result [OF d])
      show "env_queue ?e2 l = env_queue ?e l @ (if i = l then [?n] else [])" for l
        using set_queue_simps(1) [OF sh1 i, of "env_queue ?e i @ [?n]" l] q1 by simp
      show "length (iq_slots (env_jobs ?e2)) \<le> length (iq_slots (env_jobs ?e)) + (case p of Post_Job j \<Rightarrow> 1 | _ \<Rightarrow> 0)"
        using jq(1) by (auto simp: Post_Job iq_push_def getFreeIndex_def Let_def bindE_eq_Inr set_at_def split: prod.splits if_splits)
    qed (use sh1 n jq in \<open>auto simp: item_def Post_Job\<close>)
  next
    case Post_Start
    let ?n = "notification_new LRT_START_ITERATION (rt_grtIx c) size_max"
    have n: "nt_type ?n = LRT_START_ITERATION" by (simp add: notification_new_def)
    have d: "do_post c (i, p) ?e = Inr (set_queue i (env_queue ?e i @ [?n]) ?e)"
      by (simp add: do_post_def Post_Start rt_push_eq [OF sh i])
    show ?thesis by (rule result [OF d]) (use sh i n in \<open>auto simp: item_def Post_Start\<close>)
  next
    case Post_End
    let ?n = "notification_new LRT_END_ITERATION (rt_grtIx c) size_max"
    have n: "nt_type ?n = LRT_END_ITERATION" by (simp add: notification_new_def)
    have d: "do_post c (i, p) ?e = Inr (set_queue i (env_queue ?e i @ [?n]) ?e)"
      by (simp add: do_post_def Post_End rt_push_eq [OF sh i])
    show ?thesis by (rule result [OF d]) (use sh i n in \<open>auto simp: item_def Post_End\<close>)
  qed
qed

subsection \<open>Steps of a runner\<close>

lemma done_by_app: "done_by (hs @ List.map (Pair i) ks) = (done_by hs)(i := done_by hs i + length ks)"
  by (auto simp: done_by_def filter_map o_def fun_eq_iff)

lemma executes_cases: "executes pc r = [] \<or> (\<exists>w k. pc = Acting w \<and> executes pc r = [k])"
  by (auto simp: executes_def split: runner_pc.splits)

lemma sys_invD:
  assumes "sys_inv c plan s" "i < rt_lrtCount c"
  shows "env_ok c (s_env s)" "shape_ok c (s_env s)" "log_ok (rt_lrtCount c) plan (s_log s)"
    "runner_ok c plan (done_by (s_log s)) i (s_pc s i) (s_runner s i) (s_env s) (s_script s)"
    "rn_ix (s_runner s i) = i" "\<not> rn_stop (s_runner s i)" "\<not> rn_pause (s_runner s i)"
  using assms by (auto simp: sys_inv_def env_ok_def runner_ok_def fixed_ok_def)

definition after :: "system \<Rightarrow> nat \<Rightarrow> runner_pc \<times> runner \<times> rt_env \<Rightarrow> system" where
  "after s i x = (case x of (pc, r, e) \<Rightarrow> s\<lparr>s_pc := (s_pc s)(i := pc), s_runner := (s_runner s)(i := r), s_env := e,
      s_log := s_log s @ List.map (Pair i) (executes (s_pc s i) (s_runner s i))\<rparr>)"

definition moved :: "rt_config \<Rightarrow> (nat \<Rightarrow> job_message list) \<Rightarrow> system \<Rightarrow> nat \<Rightarrow> runner_pc \<times> runner \<times> rt_env \<Rightarrow> bool" where
  "moved c plan s i x \<longleftrightarrow> sys_inv c plan (after s i x) \<and>
     (\<forall>j < rt_lrtCount c. j \<noteq> i \<longrightarrow> pending (snd (snd x)) (s_script s) j = pending (s_env s) (s_script s) j)"

lemma after_quiet:
  assumes inv: "sys_inv c plan s" and i: "i < rt_lrtCount c" and ex: "executes (s_pc s i) (s_runner s i) = []"
    and env: "env_ok c e" and mi: "length (re_mi e) = length (re_mi (s_env s))"
    and jobs: "length (iq_slots (env_jobs e)) = length (iq_slots (env_jobs (s_env s)))"
    and params: "cm_paramMessages (re_comm e) = cm_paramMessages (re_comm (s_env s))"
    and q: "\<And>j. j \<noteq> i \<Longrightarrow> env_queue e j = env_queue (s_env s) j"
    and content: "\<And>j n. j < rt_lrtCount c \<Longrightarrow> j \<noteq> i \<Longrightarrow> n \<in> set (env_queue (s_env s) j) \<Longrightarrow> nt_type n = JOB_ADD \<Longrightarrow>
       iq_content (env_jobs e) (nt_ix n) = iq_content (env_jobs (s_env s)) (nt_ix n)"
    and ok: "runner_ok c plan (done_by (s_log s)) i pc r e (s_script s)"
  shows "moved c plan s i (pc, r, e)"
proof -
  have "pending e (s_script s) j = pending (s_env s) (s_script s) j" if j: "j < rt_lrtCount c" "j \<noteq> i" for j
    by (rule pending_append [where ns = "[]"]) (use q content j in auto)
  moreover
  have "runner_ok c plan (done_by (s_log s)) j (s_pc s j) (s_runner s j) e (s_script s)" if j: "j < rt_lrtCount c" "j \<noteq> i" for j
    by (rule runner_ok_other [OF sys_invD(4) [OF inv j(1)] mi, where ns = "[]"]) (use q content j in auto)
  ultimately show ?thesis using inv env jobs params ok ex by (auto simp: moved_def sys_inv_def after_def)
qed

lemma step_loop:
  assumes inv: "sys_inv c plan s" and i: "i < rt_lrtCount c" and pc: "s_pc s i = Loop w"
  shows "\<exists>x. runner_step c (loops c i) (s_pc s i) (s_runner s i) (s_env s) = Inr (Some x) \<and> moved c plan s i x"
proof -
  note o = sys_invD [OF inv i]
  let ?b = "(loops c i \<and> rn_finished (s_runner s i)) \<or> w"
  have "runner_ok c plan (done_by (s_log s)) i (Reading ?b w) (s_runner s i) (s_env s) (s_script s)"
    using o(4) pc by (auto simp: runner_ok_def pc_ok_def waiting_def)
  from after_quiet [OF inv i _ o(1) _ _ _ _ _ this] have "moved c plan s i (Reading ?b w, s_runner s i, s_env s)"
    by (simp add: pc executes_def)
  then show ?thesis using o(6) by (simp add: pc)
qed

lemma done_bound: "good_plan c plan rank \<Longrightarrow> log_ok (rt_lrtCount c) plan hs \<Longrightarrow> l < rt_lrtCount c \<Longrightarrow> done_by hs l \<le> size_max"
proof -
  assume a: "good_plan c plan rank" "log_ok (rt_lrtCount c) plan hs" "l < rt_lrtCount c"
  have "length (plan l) \<le> (\<Sum>i < rt_lrtCount c. length (plan i))" using a(3) by (intro member_le_sum) auto
  with a(1) done_by_le [OF a(2), of l] show ?thesis unfolding good_plan_def by linarith
qed

lemma step_reading:
  assumes inv: "sys_inv c plan s" and gp: "good_plan c plan rank" and i: "i < rt_lrtCount c" and pc: "s_pc s i = Reading b w"
    and ready: "env_queue (s_env s) i \<noteq> [] \<or> \<not> b \<and> (\<not> loops c i \<longrightarrow> s_script s = [])"
  shows "\<exists>x. runner_step c (loops c i) (s_pc s i) (s_runner s i) (s_env s) = Inr (Some x) \<and> moved c plan s i x \<and>
     env_queue (snd (snd x)) i = tl (env_queue (s_env s) i) \<and>
     fst x = (if env_queue (s_env s) i = [] then Acting w else Reading False w)"
proof (cases "env_queue (s_env s) i")
  case (Cons n ns)
  note o = sys_invD [OF inv i]
  from read_note [OF o(4) [unfolded pc] o(1) i Cons done_bound [OF gp o(3)]] obtain r' e' where
    r: "readNotification c b (s_runner s i) (s_env s) = Inr (Some (True, r', e'))"
       "read_to c plan (done_by (s_log s)) i w (s_script s) n (s_env s) r' e'" by blast
  then have ok: "runner_ok c plan (done_by (s_log s)) i (Reading False w) r' e' (s_script s)" by (simp add: read_to_def)
  have pause: "\<not> rn_pause r'" using runner_okD(1) [OF ok] by (simp add: fixed_ok_def)
  have "moved c plan s i (Reading False w, r', e')"
  proof (rule after_quiet [OF inv i _ _ _ _ _ _ _ ok])
    fix j na assume j: "j < rt_lrtCount c" "j \<noteq> i" "na \<in> set (env_queue (s_env s) j)" "nt_type na = JOB_ADD"
    have "nt_type n = JOB_ADD \<Longrightarrow> nt_ix na \<noteq> nt_ix n"
      using announced_unique(2) [OF o(1) i Cons _ j(1,2)] in_announced [OF j(3,4)] by metis
    then show "iq_content (env_jobs e') (nt_ix na) = iq_content (env_jobs (s_env s)) (nt_ix na)"
      using r(2) unfolding read_to_def by blast
  qed (use r(2) pc in \<open>auto simp: read_to_def executes_def\<close>)
  then show ?thesis using r o(6) pause by (simp add: pc read_to_def Cons)
next
  case Nil
  note o = sys_invD [OF inv i]
  have b: "\<not> b" "\<not> loops c i \<longrightarrow> s_script s = []" using ready Nil by auto
  have "\<not> loops c i \<longrightarrow> pending (s_env s) (s_script s) i = []" using b Nil by (simp add: pending_def)
  then have "runner_ok c plan (done_by (s_log s)) i (Acting w) (s_runner s i) (s_env s) (s_script s)"
    using o(4) unfolding pc by (auto simp: runner_ok_def pc_ok_def)
  from after_quiet [OF inv i _ o(1) _ _ _ _ _ this] have "moved c plan s i (Acting w, s_runner s i, s_env s)"
    by (simp add: pc executes_def)
  then show ?thesis using o(6) b(1) Nil read_nothing [OF o(2) i Nil o(5)] by (simp add: pc)
qed

lemma step_acting:
  assumes inv: "sys_inv c plan s" and gp: "good_plan c plan rank" and i: "i < rt_lrtCount c" and pc: "s_pc s i = Acting w"
  shows "executes (s_pc s i) (s_runner s i) \<noteq> [] \<and> (\<exists>f. runner_step c (loops c i) (s_pc s i) (s_runner s i) (s_env s) = Inl f) \<and>
       job_fault c (s_runner s i) (rn_queue (s_runner s i) ! rn_pos (s_runner s i)) (s_env s) \<or>
    (\<exists>x. runner_step c (loops c i) (s_pc s i) (s_runner s i) (s_env s) = Inr (Some x) \<and> moved c plan s i x \<and>
       env_queue (snd (snd x)) i = env_queue (s_env s) i \<and>
       (executes (s_pc s i) (s_runner s i) = [] \<and> rested c (s_runner s i) \<longrightarrow> rn_finished (fst (snd x))))"
proof -
  note o = sys_invD [OF inv i]
  let ?x = "done_by (s_log s)" let ?r = "s_runner s i" let ?e = "s_env s"
  let ?ks = "executes (s_pc s i) ?r"
  let ?y = "?x(i := ?x i + length ?ks)"
  have ok: "runner_ok c plan ?x i (Acting w) ?r ?e (s_script s)" using o(4) pc by simp
  have "length (s_log s) < size_max" using sum_bound [OF o(3)] gp unfolding good_plan_def by linarith
  then have room: "length (iq_slots (cm_paramMessages (re_comm ?e))) < size_max" using inv unfolding sys_inv_def by linarith
  from act_ok [OF ok gp i o(2) room] consider
    (fault) f where "act c (loops c i) w ?r ?e = Inl f" "?ks \<noteq> []" "job_fault c ?r (rn_queue ?r ! rn_pos ?r) ?e"
  | (ok) pc' r' e' where "act c (loops c i) w ?r ?e = Inr (pc', r', e')" "runner_ok c plan ?y i pc' r' e' (s_script s)"
      "seen c plan ?x ?y i ?e e'"
      "length (iq_slots (cm_paramMessages (re_comm e'))) \<le> length (iq_slots (cm_paramMessages (re_comm ?e))) + length ?ks"
      "?ks = [] \<and> rested c ?r \<longrightarrow> rn_finished r'"
    unfolding pc by blast
  then show ?thesis
  proof cases
    case fault
    then show ?thesis by (simp add: pc)
  next
    case ok
    have log: "log_ok (rt_lrtCount c) plan (s_log s @ List.map (Pair i) ?ks)"
    proof (cases "?ks = []")
      case False
      with executes_cases [of "s_pc s i" ?r] obtain k where k: "?ks = [k]" by auto
      note a = act_runs(1,2,3) [OF o(4) [unfolded pc] gp i o(2) room k [unfolded pc]]
      have "(sy_lrt y, sy_job y) \<in> set (s_log s)" if "y \<in> set (jm_constraints (plan i ! k))" for y
        using a(3) that a(1) in_log_iff [OF o(3)] by simp
      then show ?thesis using o(3) i a(1,2) by (simp add: k log_ok_snoc in_order_def)
    qed (simp add: o(3))
    have others: "runner_ok c plan ?y j (s_pc s j) (s_runner s j) e' (s_script s)" if j: "j < rt_lrtCount c" "j \<noteq> i" for j
      by (rule seen_other [OF ok(3) j sys_invD(4) [OF inv j(1)]]) auto
    have "sys_inv c plan (after s i (pc', r', e'))"
      using inv log others ok seen_announced [OF ok(3) o(1)] ok(3)
      by (auto simp: sys_inv_def after_def done_by_app seen_def)
    then have "moved c plan s i (pc', r', e')" using seen_others_pending [OF ok(3)] by (simp add: moved_def)
    then show ?thesis using ok by (simp add: pc seen_def)
  qed
qed

end
