(* ===== verification/RunnerLive.thy ===== *)
theory RunnerLive
  imports RunnerInv
begin

text \<open>The start of an iteration satisfies the invariant, every step keeps it, and from every state that does an iteration can complete.\<close>

subsection \<open>The start\<close>

lemma jobs_left_postings:
  "(\<And>x. x \<in> set script \<Longrightarrow> fst x < n) \<Longrightarrow>
     jobs_left script = (\<Sum>i < n. length (filter (\<lambda>p. case p of Post_Job j \<Rightarrow> True | _ \<Rightarrow> False) (postings i script)))"
proof (induction script)
  case (Cons x script)
  obtain i p where x: "x = (i, p)" by (cases x)
  let ?J = "\<lambda>p. case p of Post_Job j \<Rightarrow> True | _ \<Rightarrow> False"
  have i: "i < n" using Cons.prems [of x] x by simp
  have "(\<Sum>l < n. length (filter ?J (postings l (x # script)))) =
     (\<Sum>l < n. (if i = l then (if ?J p then 1 else 0) else 0) + length (filter ?J (postings l script)))"
    by (intro sum.cong) (auto simp: x)
  also have "\<dots> = (if ?J p then 1 else 0) + (\<Sum>l < n. length (filter ?J (postings l script)))"
    using i by (simp add: sum.distrib)
  also have "(\<Sum>l < n. length (filter ?J (postings l script))) = jobs_left script" using Cons by simp
  finally show ?case by (simp add: x split: post.splits)
qed simp

lemma started_inv:
  assumes st: "started c plan s" and gp: "good_plan c plan rank"
  shows "sys_inv c plan s"
proof -
  let ?N = "rt_lrtCount c"
  from st obtain pe mi mis h phys script where sc: "good_script c plan script" and mi: "\<And>i. i < ?N \<Longrightarrow> mi i < length mis"
    and s: "s = sys_init c pe mi (env_new ?N mis h phys) script" unfolding started_def by blast
  let ?e = "env_new ?N mis h phys"
  have q: "env_queue ?e i = []" for i by (simp add: queue_of_def env_new_def)
  have post: "postings i script = Post_Start # List.map Post_Job (plan i) @ [Post_End]" if "i < ?N" for i
    using sc that by (simp add: good_script_def)
  have pd: "pending ?e script i = Some Post_Start # rest_of (plan i) 0" if "i < ?N" for i
    using post [OF that] q by (simp add: pending_def rest_of_def o_def)
  have "length (filter (\<lambda>p. case p of Post_Job j \<Rightarrow> True | _ \<Rightarrow> False) (postings i script)) = length (plan i)" if "i < ?N" for i
    using post [OF that] by (simp add: filter_map o_def)
  then have left: "jobs_left script = (\<Sum>i < ?N. length (plan i))"
    using sc jobs_left_postings [of script ?N] by (simp add: good_script_def)
  have "shape_ok c ?e" using gp by (simp add: shape_ok_def good_plan_def env_new_def iq_empty_ok)
  then have env: "env_ok c ?e" using iq_empty_ok(2) by (simp add: env_ok_def q) (simp add: env_new_def)
  have "runner_ok c plan (done_by []) i (Loop False) (runner_new ?N (i = rt_grtIx c) (pe i) i (mi i) False i) ?e script" if i: "i < ?N" for i
    using i mi [OF i] unfolding runner_ok_def pd [OF i] q
    by (simp add: fixed_ok_def runner_new_def idle_def pc_ok_def stamps_ok_def covered_def) (simp add: env_new_def)
  then show ?thesis using env left sc
    by (simp add: sys_inv_def s sys_init_def good_script_def) (simp add: env_new_def iq_empty_def)
qed

lemma step_inv:
  assumes step: "sys_step c s s'" and inv: "sys_inv c plan s" and gp: "good_plan c plan rank"
  shows "sys_inv c plan s'"
  using step
proof cases
  case (post x rest e)
  obtain i p where "x = (i, p)" by (cases x)
  with post post_ok [OF inv gp, of i p rest] show ?thesis by auto
next
  case (run i pc r e)
  have s': "s' = after s i (pc, r, e)" using run(1) by (simp add: after_def)
  note o = sys_invD [OF inv run(2)]
  show ?thesis
  proof (cases "s_pc s i")
    case (Loop w)
    from step_loop [OF inv run(2) Loop] run(4) s' show ?thesis by (auto simp: moved_def)
  next
    case (Reading b w)
    have "env_queue (s_env s) i \<noteq> [] \<or> \<not> b \<and> (\<not> loops c i \<longrightarrow> s_script s = [])"
      using run(3,4) o(6) read_nothing [OF o(2) run(2) _ o(5), of b] by (cases b) (auto simp: Reading)
    from step_reading [OF inv gp run(2) Reading this] run(4) s' show ?thesis by (auto simp: moved_def)
  next
    case (Acting w)
    from step_acting [OF inv gp run(2) Acting] run(4) s' show ?thesis by (auto simp: moved_def)
  next
    case Returned
    with run(4) show ?thesis by simp
  qed
qed

lemma steps_inv: "sys_steps c s s' \<Longrightarrow> sys_inv c plan s \<Longrightarrow> good_plan c plan rank \<Longrightarrow> sys_inv c plan s'"
  by (induction rule: rtranclp_induct) (auto intro: step_inv)

subsection \<open>Completion\<close>

definition resting :: "system \<Rightarrow> nat \<Rightarrow> bool" where
  "resting s i \<longleftrightarrow> rn_finished (s_runner s i) \<and> pending (s_env s) (s_script s) i = []"

text \<open>A job is at hand that fails in the memory or in its kernel.\<close>

definition stuck_job :: "rt_config \<Rightarrow> system \<Rightarrow> bool" where
  "stuck_job c s \<longleftrightarrow> (\<exists>i < rt_lrtCount c. executes (s_pc s i) (s_runner s i) \<noteq> [] \<and>
     job_fault c (s_runner s i) (rn_queue (s_runner s i) ! rn_pos (s_runner s i)) (s_env s))"

definition unblocked :: "(nat \<Rightarrow> job_message list) \<Rightarrow> (nat \<times> nat) list \<Rightarrow> nat \<Rightarrow> bool" where
  "unblocked plan hs i \<longleftrightarrow> (done_by hs i < length (plan i) \<longrightarrow>
     (\<forall>y \<in> set (jm_constraints (plan i ! done_by hs i)). sy_job y < done_by hs (sy_lrt y)))"

definition distance :: "system \<Rightarrow> nat \<Rightarrow> nat" where
  "distance s i = 4 * length (env_queue (s_env s) i) + (case s_pc s i of Loop w \<Rightarrow> 2 | Reading b w \<Rightarrow> 1
     | Acting w \<Rightarrow> if env_queue (s_env s) i = [] then 0 else 3 | Returned \<Rightarrow> 0)"

text \<open>A runner that read all its notifications knows that its next job can run.\<close>

lemma knows:
  assumes inv: "sys_inv c plan s" and gp: "good_plan c plan rank" and i: "i < rt_lrtCount c" and u: "unblocked plan (s_log s) i"
    and q: "env_queue (s_env s) i = []" and hand: "at_hand (s_runner s i)"
  shows "isJobRunnable (s_runner s i) (rn_queue (s_runner s i) ! rn_pos (s_runner s i)) = Inr True"
proof -
  let ?r = "s_runner s i" let ?x = "done_by (s_log s)"
  note o = sys_invD [OF inv i] note k = runner_okD [OF o(4)]
  note h = at_hand_job [OF k(2) [THEN disj_comms(1) [THEN iffD1]] hand]
  note g = good_planD [OF gp i h(2)]
  have "reached ?r y" if y: "y \<in> set (jm_constraints (plan i ! ?x i))" for y
  proof -
    have d: "sy_job y < ?x (sy_lrt y)" using u h(2) y by (simp add: unblocked_def)
    have l: "sy_lrt y < rt_lrtCount c" "sy_lrt y = i \<or> flagged (plan (sy_lrt y) ! sy_job y) i" using g(3) [OF y] by auto
    show ?thesis
    proof (cases "sy_lrt y = i")
      case True
      have "rn_stamps ?r ! i = ?x i - 1" using k(5) d True by (simp add: stamps_ok_def)
      moreover have "sy_job y \<le> ?x i - 1" "?x i - 1 < size_max" using d g(4) True by auto
      ultimately show ?thesis using True by (simp add: reached_def)
    next
      case False
      then show ?thesis using k(6) l d unfolding covered_def q reached_def by simp
    qed
  qed
  then show ?thesis using isJobRunnable_eq(1) [OF gp i h(2) k(5) o(5)] h(4) by simp
qed

text \<open>One step of the runner brings it nearer to its next execution or to its rest.\<close>

lemma near:
  assumes inv: "sys_inv c plan s" and gp: "good_plan c plan rank" and i: "i < rt_lrtCount c" and u: "unblocked plan (s_log s) i"
    and script: "s_script s = []" and busy: "\<not> resting s i"
  shows "stuck_job c s \<or> (\<exists>x. runner_step c (loops c i) (s_pc s i) (s_runner s i) (s_env s) = Inr (Some x) \<and> moved c plan s i x \<and>
     (executes (s_pc s i) (s_runner s i) \<noteq> [] \<or> resting (after s i x) i \<or> distance (after s i x) i < distance s i))"
proof -
  let ?r = "s_runner s i" let ?e = "s_env s"
  note o = sys_invD [OF inv i] note k = runner_okD [OF o(4)]
  have pd: "env_queue ?e i = [] \<Longrightarrow> pending ?e (s_script s) i = []" by (simp add: pending_def script)
  have work: "working (plan i) ?r [] (done_by (s_log s) i)" if "env_queue ?e i = []"
    using k(2) pd [OF that] busy by (auto simp: idle_def resting_def)
  have end_: "rn_end ?r" "rn_queue ?r = plan i" if "env_queue ?e i = []"
    using work [OF that] by (auto simp: working_def rest_of_def split: if_splits)
  show ?thesis
  proof (cases "s_pc s i")
    case (Loop w)
    from step_loop [OF inv i Loop] show ?thesis by (fastforce simp: distance_def after_def Loop o(6))
  next
    case (Reading b w)
    have "env_queue ?e i \<noteq> [] \<or> \<not> b"
    proof (rule ccontr)
      assume a: "\<not> ?thesis"
      then have q: "env_queue ?e i = []" by simp
      have "\<not> rn_finished ?r" using work [OF q] by (simp add: working_def)
      then have "waiting ?r" using k(3) a Reading by (simp add: pc_ok_def)
      then show False using knows [OF inv gp i u q] by (simp add: waiting_def)
    qed
    then have ready: "env_queue ?e i \<noteq> [] \<or> \<not> b \<and> (\<not> loops c i \<longrightarrow> s_script s = [])" using script by simp
    from step_reading [OF inv gp i Reading ready] obtain x where x:
      "runner_step c (loops c i) (s_pc s i) ?r ?e = Inr (Some x)" "moved c plan s i x"
      "env_queue (snd (snd x)) i = tl (env_queue ?e i)" "fst x = (if env_queue ?e i = [] then Acting w else Reading False w)" by blast
    obtain pc r e where p: "x = (pc, r, e)" by (cases x)
    have "distance (after s i x) i < distance s i"
      using x(3,4) by (cases "env_queue ?e i") (simp_all add: distance_def after_def p Reading)
    with x show ?thesis by blast
  next
    case (Acting w)
    from step_acting [OF inv gp i Acting] show ?thesis
    proof (elim disjE conjE exE)
      assume "executes (s_pc s i) ?r \<noteq> []" "job_fault c ?r (rn_queue ?r ! rn_pos ?r) ?e"
      then show ?thesis using i by (auto simp: stuck_job_def)
    next
      fix x assume x: "runner_step c (loops c i) (s_pc s i) ?r ?e = Inr (Some x)" "moved c plan s i x"
        "env_queue (snd (snd x)) i = env_queue ?e i" "executes (s_pc s i) ?r = [] \<and> rested c ?r \<longrightarrow> rn_finished (fst (snd x))"
      obtain pc r e where p: "x = (pc, r, e)" by (cases x)
      show ?thesis
      proof (cases "env_queue ?e i = []")
        case False
        have "distance (after s i x) i < distance s i"
          using x(1,3) False unfolding p
          by (auto simp: distance_def after_def Acting act_def bindE_eq_Inr Let_def split: prod.splits if_splits)
        with x show ?thesis by blast
      next
        case q: True
        show ?thesis
        proof (cases "executes (s_pc s i) ?r = []")
          case True
          have "\<not> at_hand ?r" using knows [OF inv gp i u q] True by (auto simp: Acting executes_def at_hand_def split: if_splits)
          then have "rested c ?r" using work [OF q] end_ [OF q] by (auto simp: rested_def working_def at_hand_def)
          then have "rn_finished r" "env_queue e i = []" using x(3,4) True q by (simp_all add: p)
          then have "resting (after s i x) i" by (simp add: resting_def after_def p pending_def script)
          with x show ?thesis by blast
        qed (use x in blast)
      qed
    qed
  next
    case Returned
    then show ?thesis using k(3) busy by (simp add: pc_ok_def resting_def)
  qed
qed

definition part :: "(nat \<Rightarrow> job_message list) \<Rightarrow> system \<Rightarrow> nat \<Rightarrow> nat" where
  "part plan s i = length (plan i) - done_by (s_log s) i + (if resting s i then 0 else 1)"

definition work_left :: "rt_config \<Rightarrow> (nat \<Rightarrow> job_message list) \<Rightarrow> system \<Rightarrow> nat" where
  "work_left c plan s = (\<Sum>i < rt_lrtCount c. part plan s i)"

lemma work_after:
  assumes inv: "sys_inv c plan s" and i: "i < rt_lrtCount c" and busy: "\<not> resting s i" and m: "moved c plan s i x"
  shows "work_left c plan (after s i x) \<le> work_left c plan s"
    "executes (s_pc s i) (s_runner s i) \<noteq> [] \<or> resting (after s i x) i \<Longrightarrow> work_left c plan (after s i x) < work_left c plan s"
proof -
  let ?s = "after s i x" and ?ks = "executes (s_pc s i) (s_runner s i)"
  obtain pc r e where p: "x = (pc, r, e)" by (cases x)
  have "part plan ?s j = part plan s j" if "j < rt_lrtCount c" "j \<noteq> i" for j
    using m that by (simp add: part_def resting_def moved_def after_def p done_by_app)
  then have others: "(\<Sum>j \<in> {..<rt_lrtCount c} - {i}. part plan ?s j) = (\<Sum>j \<in> {..<rt_lrtCount c} - {i}. part plan s j)"
    by (intro sum.cong) auto
  have sums: "work_left c plan t = part plan t i + (\<Sum>j \<in> {..<rt_lrtCount c} - {i}. part plan t j)" for t
    unfolding work_left_def using i by (simp add: sum.remove)
  have log: "done_by (s_log ?s) i = done_by (s_log s) i + length ?ks" by (simp add: after_def p done_by_app)
  have le: "done_by (s_log ?s) i \<le> length (plan i)" using m done_by_le [of "rt_lrtCount c" plan "s_log ?s" i] by (simp add: moved_def sys_inv_def)
  show "work_left c plan ?s \<le> work_left c plan s" unfolding sums others using busy log by (auto simp: part_def)
  show "work_left c plan ?s < work_left c plan s" if "?ks \<noteq> [] \<or> resting ?s i"
  proof -
    define a m where "a = done_by (s_log s) i" and "m = length ?ks"
    have "0 < m \<or> resting ?s i" "a + m \<le> length (plan i)" using that log le by (auto simp: a_def m_def)
    then have "length (plan i) - (a + m) + (if resting ?s i then 0 else 1) < length (plan i) - a + 1" by (cases "resting ?s i") auto
    then have "part plan ?s i < part plan s i" using busy log by (simp add: part_def a_def m_def)
    then show ?thesis unfolding sums others by simp
  qed
qed

lemma run_step:
  "i < rt_lrtCount c \<Longrightarrow> s_script s = [] \<Longrightarrow> runner_step c (loops c i) (s_pc s i) (s_runner s i) (s_env s) = Inr (Some x) \<Longrightarrow>
     sys_step c s (after s i x)"
  by (cases x) (auto simp: after_def intro: sys_step.run)

lemma runner_goes:
  assumes gp: "good_plan c plan rank" and i: "i < rt_lrtCount c"
  shows "sys_inv c plan s \<Longrightarrow> unblocked plan (s_log s) i \<Longrightarrow> s_script s = [] \<Longrightarrow> \<not> resting s i \<Longrightarrow>
    \<exists>s'. sys_steps c s s' \<and> sys_inv c plan s' \<and> s_script s' = [] \<and> (stuck_job c s' \<or> work_left c plan s' < work_left c plan s)"
proof (induction "distance s i" arbitrary: s rule: less_induct)
  case less
  from near [OF less.prems(1) gp i less.prems(2-4)] show ?case
  proof (elim disjE exE conjE)
    assume "stuck_job c s"
    then show ?thesis using less.prems by blast
  next
    fix x assume x: "runner_step c (loops c i) (s_pc s i) (s_runner s i) (s_env s) = Inr (Some x)" "moved c plan s i x"
      "executes (s_pc s i) (s_runner s i) \<noteq> []"
    have "work_left c plan (after s i x) < work_left c plan s" by (rule work_after(2) [OF less.prems(1) i less.prems(4) x(2)]) (use x in simp)
    moreover have "sys_steps c s (after s i x)" using run_step [OF i less.prems(3) x(1)] by blast
    moreover have "s_script (after s i x) = []" using less.prems(3) by (cases x) (simp add: after_def)
    ultimately show ?thesis using x(2) by (auto simp: moved_def)
  next
    fix x assume x: "runner_step c (loops c i) (s_pc s i) (s_runner s i) (s_env s) = Inr (Some x)" "moved c plan s i x"
      "resting (after s i x) i"
    have "work_left c plan (after s i x) < work_left c plan s" by (rule work_after(2) [OF less.prems(1) i less.prems(4) x(2)]) (use x in simp)
    moreover have "sys_steps c s (after s i x)" using run_step [OF i less.prems(3) x(1)] by blast
    moreover have "s_script (after s i x) = []" using less.prems(3) by (cases x) (simp add: after_def)
    ultimately show ?thesis using x(2) by (auto simp: moved_def)
  next
    fix x assume x: "runner_step c (loops c i) (s_pc s i) (s_runner s i) (s_env s) = Inr (Some x)" "moved c plan s i x"
      "distance (after s i x) i < distance s i"
    let ?s = "after s i x"
    have st: "sys_steps c s ?s" using run_step [OF i less.prems(3) x(1)] by blast
    have sc: "s_script ?s = []" using less.prems(3) by (cases x) (simp add: after_def)
    have inv: "sys_inv c plan ?s" using x(2) by (simp add: moved_def)
    show ?thesis
    proof (cases "executes (s_pc s i) (s_runner s i) \<noteq> [] \<or> resting ?s i")
      case True
      then have "work_left c plan ?s < work_left c plan s" by (rule work_after(2) [OF less.prems(1) i less.prems(4) x(2)])
      then show ?thesis using st sc inv by blast
    next
      case False
      then have "s_log ?s = s_log s" by (cases x) (simp add: after_def)
      then have "unblocked plan (s_log ?s) i" using less.prems(2) by simp
      from less.hyps [OF x(3) inv this sc] False obtain s' where "sys_steps c ?s s'" "sys_inv c plan s'" "s_script s' = []"
        "stuck_job c s' \<or> work_left c plan s' < work_left c plan ?s" by blast
      moreover have "work_left c plan ?s \<le> work_left c plan s" by (rule work_after(1) [OF less.prems(1) i less.prems(4) x(2)])
      ultimately show ?thesis using st by (meson less_le_trans rtranclp_trans)
    qed
  qed
qed

text \<open>The runner whose next job is the least in the rank does not wait for anybody.\<close>

lemma resting_done:
  assumes "sys_inv c plan s" "i < rt_lrtCount c" "resting s i"
  shows "done_by (s_log s) i = length (plan i)"
  using runner_okD(2) [OF sys_invD(4) [OF assms(1,2)]] assms(3) by (auto simp: resting_def idle_def working_def)

lemma someone_unblocked:
  assumes inv: "sys_inv c plan s" and gp: "good_plan c plan rank" and busy: "j < rt_lrtCount c" "\<not> resting s j"
  shows "\<exists>i < rt_lrtCount c. \<not> resting s i \<and> unblocked plan (s_log s) i"
proof (cases "\<exists>i < rt_lrtCount c. done_by (s_log s) i < length (plan i)")
  case False
  then have "unblocked plan (s_log s) j" using busy(1) by (simp add: unblocked_def)
  with busy show ?thesis by blast
next
  case True
  let ?x = "done_by (s_log s)"
  let ?U = "\<lambda>i. i < rt_lrtCount c \<and> ?x i < length (plan i)"
  from True obtain i where i: "?U i" and least: "\<And>l. ?U l \<Longrightarrow> rank i (?x i) \<le> rank l (?x l)"
    using ex_has_least_nat [of ?U _ "\<lambda>i. rank i (?x i)"] by blast
  have "\<not> resting s i" using resting_done [OF inv, of i] i by auto
  moreover have "sy_job y < ?x (sy_lrt y)" if y: "y \<in> set (jm_constraints (plan i ! ?x i))" for y
  proof (rule ccontr)
    assume a: "\<not> ?thesis"
    have c: "sy_lrt y < rt_lrtCount c" "sy_job y < length (plan (sy_lrt y))" "rank (sy_lrt y) (sy_job y) < rank i (?x i)"
      using good_planD(3) [OF gp _ _ y] i by auto
    then have "?U (sy_lrt y)" using a by simp
    moreover have "rank (sy_lrt y) (?x (sy_lrt y)) \<le> rank (sy_lrt y) (sy_job y)"
      using a c gp unfolding good_plan_def by (cases "?x (sy_lrt y) = sy_job y") (auto intro: less_imp_le)
    ultimately show False using least c(3) by fastforce
  qed
  ultimately show ?thesis using i by (auto simp: unblocked_def)
qed

lemma script_drains:
  assumes gp: "good_plan c plan rank"
  shows "sys_inv c plan s \<Longrightarrow> \<exists>s'. sys_steps c s s' \<and> sys_inv c plan s' \<and> s_script s' = []"
proof (induction "s_script s" arbitrary: s)
  case (Cons x script)
  obtain i p where x: "x = (i, p)" by (cases x)
  have s: "s_script s = (i, p) # script" using Cons.hyps(2) x by simp
  from post_ok [OF Cons.prems gp s] obtain e where e: "do_post c (i, p) (s_env s) = Inr e" "sys_inv c plan (s\<lparr>s_env := e, s_script := script\<rparr>)" by blast
  have "sys_step c s (s\<lparr>s_env := e, s_script := script\<rparr>)" by (rule sys_step.post [OF s e(1)])
  with Cons.hyps(1) [of "s\<lparr>s_env := e, s_script := script\<rparr>"] e(2) show ?case by (auto intro: converse_rtranclp_into_rtranclp)
qed auto

lemma all_rest:
  assumes gp: "good_plan c plan rank"
  shows "sys_inv c plan s \<Longrightarrow> s_script s = [] \<Longrightarrow>
    \<exists>s'. sys_steps c s s' \<and> sys_inv c plan s' \<and> (stuck_job c s' \<or> (\<forall>i < rt_lrtCount c. resting s' i))"
proof (induction "work_left c plan s" arbitrary: s rule: less_induct)
  case less
  show ?case
  proof (cases "\<forall>i < rt_lrtCount c. resting s i")
    case False
    then obtain i where i: "i < rt_lrtCount c" "\<not> resting s i" "unblocked plan (s_log s) i" using someone_unblocked [OF less.prems(1) gp] by blast
    from runner_goes [OF gp i(1) less.prems(1) i(3) less.prems(2) i(2)] obtain s1 where s1: "sys_steps c s s1" "sys_inv c plan s1"
      "s_script s1 = []" "stuck_job c s1 \<or> work_left c plan s1 < work_left c plan s" by blast
    then show ?thesis using less.hyps [of s1] by (meson rtranclp_trans)
  qed (use less.prems in blast)
qed

end
