(* ===== verification/RunnerProps.thy ===== *)
theory RunnerProps
  imports RunnerLive
begin

text \<open>What the protocol of the runners guarantees for a plan in which the constraints are acyclic and notified.\<close>

subsection \<open>A platform with two runners\<close>

definition demo_job :: "sync_info list \<Rightarrow> bool list option \<Rightarrow> job_message" where
  "demo_job ys fs = \<lparr>jm_constraints = ys, jm_fifos = job_fifos_new 0 0, jm_params = [], jm_flags = fs, jm_kernelIx = size_max,
     jm_execIx = 0, jm_taskIx = 0, jm_nParamsOut = 0\<rparr>"

definition demo_config :: rt_config where
  "demo_config = \<lparr>rt_lrtCount = 2, rt_grtIx = 0, rt_kernels = [], rt_fifo = \<lparr>fc_debug = False, fc_extern = (\<lambda>ix. Inl Null_Deref)\<rparr>\<rparr>"

definition demo_plan :: "nat \<Rightarrow> job_message list" where
  "demo_plan i = (if i = 0 then [demo_job [] (Some [False, True])] else [demo_job [\<lparr>sy_lrt = 0, sy_job = 0\<rparr>] None])"

definition demo_start :: system where
  "demo_start = sys_init demo_config id (\<lambda>i. 0) (env_new 2 [memory_interface_new 1024] (\<lambda>a. 0) [])
     [(1, Post_Start), (0, Post_Start), (1, Post_Job (demo_plan 1 ! 0)), (0, Post_Job (demo_plan 0 ! 0)), (0, Post_End), (1, Post_End)]"

lemma demo_good: "good_plan demo_config demo_plan (\<lambda>i k. i + 2 * k)"
proof -
  have "(\<Sum>i < 2. f i) = f 0 + f 1" for f :: "nat \<Rightarrow> nat" by (simp add: lessThan_Suc numeral_2_eq_2)
  then show ?thesis by (auto simp: good_plan_def good_job_def demo_config_def demo_plan_def demo_job_def flagged_def Let_def less_2_cases_iff)
qed

lemma demo_started: "started demo_config demo_plan demo_start"
  unfolding started_def demo_start_def
  by (intro exI [of _ id] exI [of _ "\<lambda>i. 0"] exI [of _ "[memory_interface_new 1024]"] exI [of _ "\<lambda>a. 0"] exI [of _ "[]"]
      exI [of _ "[(1, Post_Start), (0, Post_Start), (1, Post_Job (demo_plan 1 ! 0)), (0, Post_Job (demo_plan 0 ! 0)), (0, Post_End), (1, Post_End)]"])
    (simp add: good_script_def demo_config_def demo_plan_def less_2_cases_iff)

lemma demo_reached: "sys_steps demo_config demo_start s \<Longrightarrow> sys_inv demo_config demo_plan s"
  by (rule steps_inv [OF _ started_inv [OF demo_started demo_good] demo_good])

lemma demo_effect: "job_effect demo_config (demo_job ys fs) m = Inr ([], m)"
  by (simp add: job_effect_def demo_job_def demo_config_def job_fifos_new_def written_def rt_getKernel_def Let_def
      getInputBuffers_def getOutputBuffers_def release_fifos_def)

lemma demo_no_fault:
  assumes "sys_steps demo_config demo_start s"
  shows "\<not> stuck_job demo_config s"
proof
  assume "stuck_job demo_config s"
  then obtain i where i: "i < rt_lrtCount demo_config" "executes (s_pc s i) (s_runner s i) \<noteq> []"
    "job_fault demo_config (s_runner s i) (rn_queue (s_runner s i) ! rn_pos (s_runner s i)) (s_env s)" by (auto simp: stuck_job_def)
  note k = runner_okD(2) [OF sys_invD(4) [OF demo_reached [OF assms] i(1)]]
  have "at_hand (s_runner s i)" using i(2) by (auto simp: executes_def at_hand_def split: runner_pc.splits if_splits)
  note h = at_hand_job [OF k [THEN disj_comms(1) [THEN iffD1]] this]
  have "\<exists>ys fs. demo_plan i ! done_by (s_log s) i = demo_job ys fs" using h(2) by (auto simp: demo_plan_def split: if_splits)
  then show False using i(3) h(4) by (auto simp: job_fault_def demo_effect)
qed

subsection \<open>Properties\<close>

text \<open>
  C2. Whatever the interleaving of the runners and of the GRT that posts the jobs, a runner executes its jobs in the order of its plan,
  each once, and a job only after every job that its constraints name has been executed by the runner they name.
\<close>

theorem jobs_start_after_dependencies:
  assumes gp: "good_plan c plan rank" and st: "started c plan s0" and run: "sys_steps c s0 s"
    and p: "p < length (s_log s)" "s_log s ! p = (i, k)"
  shows "i < rt_lrtCount c \<and> k < length (plan i) \<and> k = length (filter (\<lambda>x. fst x = i) (take p (s_log s))) \<and>
    (\<forall>y \<in> set (jm_constraints (plan i ! k)). (sy_lrt y, sy_job y) \<in> set (take p (s_log s)))"
proof -
  have "log_ok (rt_lrtCount c) plan (s_log s)" using steps_inv [OF run started_inv [OF st gp] gp] by (simp add: sys_inv_def)
  then have "fst (i, k) < rt_lrtCount c \<and> in_order plan (take p (s_log s)) (i, k)" using p unfolding log_ok_def by metis
  then show ?thesis by (simp add: in_order_def done_by_def)
qed

lemma jobs_start_after_dependencies_witness:
  "\<exists>s p. sys_steps demo_config demo_start s \<and> p < length (s_log s) \<and> s_log s ! p = (1, 0) \<and> (0, 0) \<in> set (take p (s_log s))"
proof -
  have "sys_inv demo_config demo_plan demo_start" by (rule started_inv [OF demo_started demo_good])
  from script_drains [OF demo_good this] obtain s1 where s1: "sys_steps demo_config demo_start s1" "sys_inv demo_config demo_plan s1" "s_script s1 = []"
    by blast
  from all_rest [OF demo_good s1(2,3)] obtain s where s: "sys_steps demo_config s1 s" "sys_inv demo_config demo_plan s"
    "stuck_job demo_config s \<or> (\<forall>i < rt_lrtCount demo_config. resting s i)" by blast
  have run: "sys_steps demo_config demo_start s" using s1(1) s(1) by (rule rtranclp_trans)
  have two: "1 < rt_lrtCount demo_config" by (simp add: demo_config_def)
  then have "resting s 1" using demo_no_fault [OF run] s(3) by blast
  then have "done_by (s_log s) 1 = 1" using resting_done [OF s(2) two] by (simp add: demo_plan_def)
  then have "(1, 0) \<in> set (s_log s)" using in_log_iff [of "rt_lrtCount demo_config" demo_plan "s_log s" 1 0] s(2) by (simp add: sys_inv_def)
  then obtain p where p: "p < length (s_log s)" "s_log s ! p = (1, 0)" by (auto simp: in_set_conv_nth)
  from jobs_start_after_dependencies [OF demo_good demo_started run p] have "(0, 0) \<in> set (take p (s_log s))"
    by (simp add: demo_plan_def demo_job_def)
  with run p show ?thesis by blast
qed

text \<open>
  C11. Every iteration can complete: from every state that the runners reach, whatever they have done, a state can be reached in which every
  runner has executed its whole plan and reported the end of the iteration, with nothing announced to it that it has not taken. The only
  thing that prevents it is a job that fails in the memory interface or in its kernel.
\<close>

theorem iteration_completes:
  assumes gp: "good_plan c plan rank" and st: "started c plan s0" and run: "sys_steps c s0 s"
  shows "\<exists>s'. sys_steps c s s' \<and> (stuck_job c s' \<or>
    (\<forall>i < rt_lrtCount c. done_by (s_log s') i = length (plan i) \<and> rn_finished (s_runner s' i) \<and> pending (s_env s') (s_script s') i = []))"
proof -
  have inv: "sys_inv c plan s" by (rule steps_inv [OF run started_inv [OF st gp] gp])
  from script_drains [OF gp inv] obtain s1 where s1: "sys_steps c s s1" "sys_inv c plan s1" "s_script s1 = []" by blast
  from all_rest [OF gp s1(2,3)] obtain s2 where s2: "sys_steps c s1 s2" "sys_inv c plan s2"
    "stuck_job c s2 \<or> (\<forall>i < rt_lrtCount c. resting s2 i)" by blast
  have "sys_steps c s s2" using s1(1) s2(1) by (rule rtranclp_trans)
  with s2(3) resting_done [OF s2(2)] show ?thesis unfolding resting_def by blast
qed

lemma iteration_completes_witness:
  "\<exists>s. sys_steps demo_config demo_start s \<and> done_by (s_log s) 0 = 1 \<and> done_by (s_log s) 1 = 1"
proof -
  from iteration_completes [OF demo_good demo_started rtranclp.rtrancl_refl] obtain s where s: "sys_steps demo_config demo_start s"
    "stuck_job demo_config s \<or> (\<forall>i < rt_lrtCount demo_config. done_by (s_log s) i = length (demo_plan i) \<and> rn_finished (s_runner s i) \<and>
        pending (s_env s) (s_script s) i = [])" by blast
  then have "\<forall>i < 2. done_by (s_log s) i = length (demo_plan i)" using demo_no_fault [OF s(1)] by (simp add: demo_config_def)
  then have "done_by (s_log s) 0 = 1" "done_by (s_log s) 1 = 1" by (simp_all add: demo_plan_def)
  with s(1) show ?thesis by blast
qed

text \<open>
  C23. The errors that the runners test for - the end before the start, a runner that waits for itself, a notification from no runner, one
  for the GRT that another runner gets, an index out of range - do not occur: a step of a runner fails only in a job, in the memory interface
  or in the kernel.
\<close>

theorem runners_fail_only_in_jobs:
  assumes gp: "good_plan c plan rank" and st: "started c plan s0" and run: "sys_steps c s0 s" and i: "i < rt_lrtCount c"
    and ok: "\<not> stuck_job c s"
  shows "\<exists>x. runner_step c (loops c i) (s_pc s i) (s_runner s i) (s_env s) = Inr x"
proof -
  have inv: "sys_inv c plan s" by (rule steps_inv [OF run started_inv [OF st gp] gp])
  note o = sys_invD [OF inv i]
  show ?thesis
  proof (cases "s_pc s i")
    case (Loop w)
    then show ?thesis using step_loop [OF inv i Loop] by blast
  next
    case (Reading b w)
    show ?thesis
    proof (cases "env_queue (s_env s) i = []")
      case True
      then show ?thesis using read_nothing [OF o(2) i True o(5)] by (simp add: Reading)
    next
      case False
      then show ?thesis using step_reading [OF inv gp i Reading] by blast
    qed
  next
    case (Acting w)
    from step_acting [OF inv gp i Acting] show ?thesis using ok i by (auto simp: stuck_job_def)
  qed simp
qed

lemma runners_fail_only_in_jobs_witness:
  "\<exists>x. runner_step demo_config True (Loop False) (runner_new 2 False 1 1 0 False 1) (env_new 2 [memory_interface_new 1024] (\<lambda>a. 0) []) = Inr x"
  using runners_fail_only_in_jobs [OF demo_good demo_started rtranclp.rtrancl_refl, of 1]
    demo_no_fault [OF rtranclp.rtrancl_refl]
  by (simp add: demo_config_def demo_start_def sys_init_def loops_def)

end
