(* ===== verification/RTPlatform.thy ===== *)
theory RTPlatform
  imports Runner
begin

text \<open>
  The tables of \<open>RTPlatform\<close> and \<open>ThreadRTPlatform\<close>: the runners with their threads and the communicator. The table of the kernels is
  the \<open>registry\<close> of \<open>Archi\<close>; what its operations promise is stated here.
\<close>

record rt_platform =
  rp_runners :: "runner option list"
  rp_finished :: "bool list"
  rp_threads :: "bool list"
  rp_communicator :: "nat option"

definition rt_platform_new :: "nat \<Rightarrow> rt_platform" where
  "rt_platform_new n = \<lparr>rp_runners = replicate n None, rp_finished = replicate n False,
     rp_threads = replicate n False, rp_communicator = None\<rparr>"

text \<open>The runner of the GRT has no thread: \<open>begin\<close> only sets its affinity. A second thread for a runner is refused with a warning.\<close>

definition createRunnerRessource :: "runner \<Rightarrow> rt_platform \<Rightarrow> rt_platform result" where
  "createRunnerRessource r p =
     bindE (Prelude.at (rp_threads p) (rn_ix r)) (\<lambda>t.
       if t \<or> rn_isGRT r then Inr p else Inr (p\<lparr>rp_threads := (rp_threads p)[rn_ix r := True]\<rparr>))"

definition addRunner :: "runner option \<Rightarrow> rt_platform \<Rightarrow> rt_platform result" where
  "addRunner r p =
     (case r of None \<Rightarrow> Inr p
      | Some r \<Rightarrow> bindE (Prelude.at (rp_runners p) (rn_ix r)) (\<lambda>_.
          createRunnerRessource r (p\<lparr>rp_runners := (rp_runners p)[rn_ix r := Some r]\<rparr>)))"

definition rt_runner :: "rt_platform \<Rightarrow> nat \<Rightarrow> runner option result" where
  "rt_runner p ix = Prelude.at (rp_runners p) ix"

definition setCommunicator :: "nat option \<Rightarrow> rt_platform \<Rightarrow> rt_platform result" where
  "setCommunicator c p =
     (case c of None \<Rightarrow> Inr p | Some c \<Rightarrow> if rp_communicator p \<noteq> None then Inl Spider_Exception else Inr (p\<lparr>rp_communicator := Some c\<rparr>))"

text \<open>The notifications of the destructor of \<open>ThreadRTPlatform\<close>: every runner is told to stop.\<close>

definition stop_runners :: "nat \<Rightarrow> rt_platform \<Rightarrow> rt_env \<Rightarrow> rt_env result" where
  "stop_runners grtPE p e =
     foldE (\<lambda>e r. case r of None \<Rightarrow> Inl Null_Deref | Some r \<Rightarrow> rt_push (notification_new LRT_STOP grtPE size_max) (rn_ix r) e) e (rp_runners p)"

subsection \<open>The index of a kernel\<close>

text \<open>Every kernel in the table is stored at the index that it carries.\<close>

definition registry_ok :: "registry \<Rightarrow> bool" where
  "registry_ok r \<longleftrightarrow> distinct (reg_vector r) \<and>
     (\<forall>i < length (reg_vector r). reg_vector r ! i < length (reg_kernels r) \<and> snd (reg_kernels r ! (reg_vector r ! i)) = i)"

lemma registry_ok_new: "registry_ok registry_new" by (simp add: registry_ok_def registry_new_def)

lemma addKernel_ok:
  assumes r: "registry_ok r" and k: "k < length (reg_kernels r)"
  shows "\<exists>ix r'. addKernel (Some k) r = Inr (ix, r') \<and> registry_ok r' \<and> getKernel r' ix = Some k \<and>
     (\<forall>i < length (reg_vector r). getKernel r' i = getKernel r i)"
proof (cases "k \<in> set (reg_vector r)")
  case True
  then obtain i where "i < length (reg_vector r)" "reg_vector r ! i = k" by (auto simp: in_set_conv_nth)
  then show ?thesis using r k True by (auto simp: addKernel_def registry_ok_def getKernel_def)
next
  case False
  let ?n = "length (reg_vector r)"
  let ?r = "r\<lparr>reg_kernels := (reg_kernels r)[k := (fst (reg_kernels r ! k), ?n)], reg_vector := reg_vector r @ [k]\<rparr>"
  have "addKernel (Some k) r = Inr (?n, ?r)" using False k by (simp add: addKernel_def Let_def)
  moreover have "registry_ok ?r"
    using r k False by (auto simp: registry_ok_def nth_append nth_list_update less_Suc_eq in_set_conv_nth)
  moreover have "getKernel ?r ?n = Some k" "\<forall>i < ?n. getKernel ?r i = getKernel r i" by (simp_all add: getKernel_def nth_append)
  ultimately show ?thesis by blast
qed

end
