(* ===== verification/GraphAlloc.thy ===== *)
theory GraphAlloc
  imports Mapper
begin

text \<open>
  \<open>GraphAlloc\<close> and the part of \<open>GraphFiring\<close> that stores the results of scheduling: the task of every vertex, the indices of its
  firings in the schedule (\<open>ts_taskIx\<close> of the task store), the virtual address of every edge and the number of firings that every firing
  depends on. The arrays of all graph firings are kept together, indexed by the graph firing; \<open>None\<close> is a null pointer.
\<close>

record pisdf_alloc =
  pa_task :: "nat \<Rightarrow> nat \<Rightarrow> nat option"
  pa_edge :: "nat \<Rightarrow> nat \<Rightarrow> (nat \<times> nat) list option"   \<comment> \<open>address and offset, per firing for a fork or a duplicate\<close>
  pa_deps :: "nat \<Rightarrow> nat \<Rightarrow> nat list option"            \<comment> \<open>\<open>depsCountArray_\<close>\<close>

definition deps_result :: "deps \<Rightarrow> (int \<times> dep_info list) result" where
  "deps_result d = (case d of None \<Rightarrow> Inl Diverges | Some r \<Rightarrow> r)"

definition null_check :: "'a option \<Rightarrow> 'a result" where
  "null_check x = (case x of None \<Rightarrow> Inl Null_Deref | Some y \<Rightarrow> Inr y)"

definition vertex_of :: "world \<Rightarrow> nat \<Rightarrow> nat \<Rightarrow> pi_vertex result" where
  "vertex_of W h v = bindE (graph_of W h) (\<lambda>g. get_at (g_vertices g) v)"

definition in_edges :: "world \<Rightarrow> nat \<Rightarrow> nat \<Rightarrow> nat list result" where
  "in_edges W h v = bindE (vertex_of W h v) (\<lambda>x. mapE null_check (v_in x))"

definition out_edges :: "world \<Rightarrow> nat \<Rightarrow> nat \<Rightarrow> nat list result" where
  "out_edges W h v = bindE (vertex_of W h v) (\<lambda>x. mapE null_check (v_out x))"

definition shares_input :: "vertex_type \<Rightarrow> bool" where
  "shares_input t \<longleftrightarrow> t = FORK \<or> t = DUPLICATE"

definition source_shares :: "world \<Rightarrow> nat \<Rightarrow> nat \<Rightarrow> bool result" where
  "source_shares W h e = bindE (edge_of W h e) (\<lambda>ed. bindE (subtype_of W h (e_source ed)) (\<lambda>t. Inr (shares_input t)))"

subsection \<open>The arrays of a graph firing\<close>

definition graph_alloc_new :: "nat \<Rightarrow> pisdf_alloc \<Rightarrow> pisdf_alloc" where
  "graph_alloc_new h pa = pa\<lparr>pa_task := (pa_task pa)(h := (\<lambda>_. None)), pa_edge := (pa_edge pa)(h := (\<lambda>_. None))\<rparr>"

definition ga_clear :: "dep_graph \<Rightarrow> nat \<Rightarrow> pisdf_alloc \<Rightarrow> pisdf_alloc" where
  "ga_clear g h pa =
     pa\<lparr>pa_task := (pa_task pa)(h := (\<lambda>v. if v < length (g_vertices g) then None else pa_task pa h v)),
        pa_edge := (pa_edge pa)(h := (\<lambda>e. if e < length (g_edges g) then None else pa_edge pa h e))\<rparr>"

definition ga_edge_alloc :: "pisdf_alloc \<Rightarrow> nat \<Rightarrow> nat \<Rightarrow> nat \<Rightarrow> (nat \<times> nat) result" where
  "ga_edge_alloc pa h e k = bindE (null_check (pa_edge pa h e)) (\<lambda>xs. get_at xs k)"

definition ga_getEdgeAddress :: "pisdf_alloc \<Rightarrow> nat \<Rightarrow> nat \<Rightarrow> nat \<Rightarrow> nat result" where
  "ga_getEdgeAddress pa h e k = bindE (ga_edge_alloc pa h e k) (\<lambda>x. Inr (fst x))"

definition ga_getEdgeOffset :: "pisdf_alloc \<Rightarrow> nat \<Rightarrow> nat \<Rightarrow> nat \<Rightarrow> nat result" where
  "ga_getEdgeOffset pa h e k = bindE (ga_edge_alloc pa h e k) (\<lambda>x. Inr (snd x))"

definition ga_update :: "((nat \<times> nat) \<Rightarrow> (nat \<times> nat)) \<Rightarrow> nat \<Rightarrow> nat \<Rightarrow> nat \<Rightarrow> pisdf_alloc \<Rightarrow> pisdf_alloc result" where
  "ga_update f h e k pa =
     bindE (null_check (pa_edge pa h e)) (\<lambda>xs. bindE (get_at xs k) (\<lambda>x.
       Inr (pa\<lparr>pa_edge := (pa_edge pa)(h := (pa_edge pa h)(e := Some (xs[k := f x])))\<rparr>)))"

definition ga_setEdgeAddress :: "nat \<Rightarrow> nat \<Rightarrow> nat \<Rightarrow> nat \<Rightarrow> pisdf_alloc \<Rightarrow> pisdf_alloc result" where
  "ga_setEdgeAddress a = ga_update (\<lambda>x. (a, snd x))"

definition ga_setEdgeOffset :: "nat \<Rightarrow> nat \<Rightarrow> nat \<Rightarrow> nat \<Rightarrow> pisdf_alloc \<Rightarrow> pisdf_alloc result" where
  "ga_setEdgeOffset off = ga_update (\<lambda>x. (fst x, off))"

definition ga_getTaskIx :: "task_store \<Rightarrow> nat \<Rightarrow> nat \<Rightarrow> nat \<Rightarrow> nat result" where
  "ga_getTaskIx s h v k = get_at (ts_taskIx s h v) k"

definition ga_setTaskIx :: "nat \<Rightarrow> nat \<Rightarrow> nat \<Rightarrow> nat \<Rightarrow> task_store \<Rightarrow> task_store result" where
  "ga_setTaskIx h v k i s = bindE (set_at (ts_taskIx s h v) k i) (\<lambda>is. Inr (s\<lparr>ts_taskIx := (ts_taskIx s)(h := (ts_taskIx s h)(v := is))\<rparr>))"

text \<open>A hierarchical vertex and a delay have no task.\<close>

definition has_no_task :: "vertex_type \<Rightarrow> bool" where
  "has_no_task t \<longleftrightarrow> t = GRAPH \<or> t = DELAY"

definition ga_reset_vertex :: "sched_env \<Rightarrow> nat \<Rightarrow> nat \<Rightarrow> nat \<Rightarrow> task_store \<times> pisdf_alloc \<Rightarrow> (task_store \<times> pisdf_alloc) result" where
  "ga_reset_vertex env h v rv = (\<lambda>(s, pa).
     bindE (vertex_of (se_world env) h v) (\<lambda>x.
     if has_no_task (v_type x) \<or> rv = u32_max then Inr (s, pa)
     else
       bindE (null_check (pa_task pa h v)) (\<lambda>t. bindE (task_update t (task_reset env) s) (\<lambda>s1.
       if rv > length (ts_taskIx s1 h v) then Inl Undefined_Behaviour
       else
         let s2 = s1\<lparr>ts_taskIx := (ts_taskIx s1)(h := (ts_taskIx s1 h)(v := replicate rv u32_max @ drop rv (ts_taskIx s1 h v)))\<rparr> in
         bindE (out_edges (se_world env) h v) (\<lambda>es.
         bindE (foldE (\<lambda>pa e. foldE (\<lambda>pa k. bindE (ga_setEdgeAddress size_max h e k pa) (ga_setEdgeOffset 0 h e k)) pa
           [0..<(if shares_input (v_type x) then rv else 1)]) pa es) (\<lambda>pa1. Inr (s2, pa1)))))))"

definition ga_reset :: "sched_env \<Rightarrow> nat \<Rightarrow> nat list \<Rightarrow> task_store \<times> pisdf_alloc \<Rightarrow> (task_store \<times> pisdf_alloc) result" where
  "ga_reset env h brv s =
     bindE (graph_of (se_world env) h) (\<lambda>g.
       foldE (\<lambda>s v. bindE (get_at brv v) (\<lambda>rv. ga_reset_vertex env h v rv s)) s [0..<length (g_vertices g)])"

text \<open>The task of a vertex that fires more than once keeps its firings in arrays.\<close>

definition ga_initialize :: "sched_env \<Rightarrow> nat \<Rightarrow> nat \<Rightarrow> nat \<Rightarrow> task_store \<times> pisdf_alloc \<Rightarrow> (task_store \<times> pisdf_alloc) result" where
  "ga_initialize env h v rv = (\<lambda>(s, pa).
     bindE (vertex_of (se_world env) h v) (\<lambda>x.
     if has_no_task (v_type x) then Inr (s, pa)
     else
       bindE (if rv > 1 then vect_task_new env h (Some v) else uni_task_new env h (Some v)) (\<lambda>t.
       let s1 = s\<lparr>ts_tasks := ts_tasks s @ [t], ts_taskIx := (ts_taskIx s)(h := (ts_taskIx s h)(v := replicate rv u32_max))\<rparr>;
           pa1 = pa\<lparr>pa_task := (pa_task pa)(h := (pa_task pa h)(v := Some (length (ts_tasks s))))\<rparr> in
       bindE (out_edges (se_world env) h v) (\<lambda>es.
         let size = (if shares_input (v_type x) then rv else 1) in
         Inr (s1, foldl (\<lambda>pa e. pa\<lparr>pa_edge := (pa_edge pa)(h := (pa_edge pa h)(e := Some (replicate size (size_max, 0))))\<rparr>) pa1 es)))))"

subsection \<open>The view of a graph firing\<close>

text \<open>Only a fork and a duplicate have an address per firing; elsewhere the firings write one region one after the other.\<close>

definition gf_getEdgeAddress :: "world \<Rightarrow> pisdf_alloc \<Rightarrow> nat \<Rightarrow> nat \<Rightarrow> nat \<Rightarrow> nat result" where
  "gf_getEdgeAddress W pa h e k =
     bindE (source_shares W h e) (\<lambda>sh.
       if sh then ga_getEdgeAddress pa h e k
       else bindE (ga_getEdgeAddress pa h e 0) (\<lambda>a. bindE (getSrcRate W h e) (\<lambda>r. Inr (add64 a (to_u64 (r * int k))))))"

definition gf_getEdgeOffset :: "world \<Rightarrow> pisdf_alloc \<Rightarrow> nat \<Rightarrow> nat \<Rightarrow> nat \<Rightarrow> nat result" where
  "gf_getEdgeOffset W pa h e k = bindE (source_shares W h e) (\<lambda>sh. ga_getEdgeOffset pa h e (if sh then k else 0))"

definition gf_setEdgeAddress :: "world \<Rightarrow> nat \<Rightarrow> nat \<Rightarrow> nat \<Rightarrow> nat \<Rightarrow> pisdf_alloc \<Rightarrow> pisdf_alloc result" where
  "gf_setEdgeAddress W h a e k pa =
     bindE (source_shares W h e) (\<lambda>sh.
       if sh then ga_setEdgeAddress a h e k pa
       else bindE (ga_getEdgeAddress pa h e 0) (\<lambda>old. if old = size_max then ga_setEdgeAddress a h e 0 pa else Inr pa))"

definition gf_setEdgeOffset :: "world \<Rightarrow> nat \<Rightarrow> nat \<Rightarrow> nat \<Rightarrow> nat \<Rightarrow> pisdf_alloc \<Rightarrow> pisdf_alloc result" where
  "gf_setEdgeOffset W h off e k pa = bindE (source_shares W h e) (\<lambda>sh. ga_setEdgeOffset off h e (if sh then k else 0) pa)"

definition dep_count_pos :: "world \<Rightarrow> nat \<Rightarrow> nat \<Rightarrow> nat \<Rightarrow> nat \<Rightarrow> nat result" where
  "dep_count_pos W h v e k =
     bindE (vertex_of W h v) (\<lambda>x. bindE (edge_of W h e) (\<lambda>ed. Inr (k * length (v_in x) + e_sink_port ed)))"

definition gf_getEdgeDepCount :: "world \<Rightarrow> pisdf_alloc \<Rightarrow> nat \<Rightarrow> nat \<Rightarrow> nat \<Rightarrow> nat \<Rightarrow> nat result" where
  "gf_getEdgeDepCount W pa h v e k =
     bindE (dep_count_pos W h v e k) (\<lambda>p. bindE (null_check (pa_deps pa h v)) (\<lambda>xs. get_at xs p))"

definition gf_setEdgeDepCount :: "world \<Rightarrow> nat \<Rightarrow> nat \<Rightarrow> nat \<Rightarrow> nat \<Rightarrow> nat \<Rightarrow> pisdf_alloc \<Rightarrow> pisdf_alloc result" where
  "gf_setEdgeDepCount W h v e k n pa =
     bindE (dep_count_pos W h v e k) (\<lambda>p. bindE (vertex_of W h v) (\<lambda>x. bindE (null_check (pa_deps pa h v)) (\<lambda>xs.
     bindE (set_at xs p (if v_type x = EXTERN_OUT then 1 else n)) (\<lambda>ys.
       Inr (pa\<lparr>pa_deps := (pa_deps pa)(h := (pa_deps pa h)(v := Some ys))\<rparr>)))))"

definition gf_getTask :: "world \<Rightarrow> pisdf_alloc \<Rightarrow> nat \<Rightarrow> nat \<Rightarrow> nat option result" where
  "gf_getTask W pa h v = bindE (graph_of W h) (\<lambda>g. if v < length (g_vertices g) then Inr (pa_task pa h v) else Inl Undefined_Behaviour)"

end
