(* ===== verification/PisdfFifo.thy ===== *)
theory PisdfFifo
  imports Runner GraphAlloc
begin

text \<open>
  \<open>PiSDFFifoAllocator\<close>: the descriptors of the FIFOs of a firing of the PiSDF graph. An input that comes from several firings is a merged
  FIFO, a head followed by one descriptor per firing; an output whose consumers are not all known yet is remembered, and its count is
  sent to the runner of the producer once they are.
\<close>

record pisdf_fifo_state =
  pf_alloc :: fifo_alloc
  pf_dynamic :: "(nat \<times> nat \<times> nat) list"   \<comment> \<open>\<open>dynamicBuffers_\<close>: task, port of the edge, firing\<close>
  pf_graphs :: pisdf_alloc

definition pf_clear :: "pisdf_fifo_state \<Rightarrow> pisdf_fifo_state" where
  "pf_clear st = st\<lparr>pf_alloc := fa_clear (pf_alloc st), pf_dynamic := []\<rparr>"

text \<open>\<open>handler()\<close>, \<open>vertex()\<close> and \<open>firing()\<close> of a \<open>PiSDFTask\<close>.\<close>

definition pisdf_task_of :: "task_store \<Rightarrow> nat \<Rightarrow> (nat \<times> nat \<times> nat) result" where
  "pisdf_task_of s x =
     bindE (task_at s x) (\<lambda>t. case tk_kind t of Uni_Task h v \<Rightarrow> Inr (h, v, tk_firing t) | Vect_Task h v \<Rightarrow> Inr (h, v, tk_firing t)
       | _ \<Rightarrow> Inl Undefined_Behaviour)"

subsection \<open>Descriptors\<close>

definition is_extern :: "Dependencies.world \<Rightarrow> nat \<Rightarrow> nat \<Rightarrow> bool result" where
  "is_extern W h e =
     bindE (edge_of W h e) (\<lambda>ed. bindE (subtype_of W h (e_source ed)) (\<lambda>t. bindE (subtype_of W h (e_sink ed)) (\<lambda>u.
       Inr (t = EXTERN_IN \<or> u = EXTERN_OUT))))"

definition pisdf_buildInputFifo :: "Dependencies.world \<Rightarrow> pisdf_alloc \<Rightarrow> nat \<Rightarrow> nat \<Rightarrow> nat \<Rightarrow> nat \<Rightarrow> nat \<Rightarrow> fifo result" where
  "pisdf_buildInputFifo W pa e sz off k h =
     bindE (gf_getEdgeAddress W pa h e k) (\<lambda>a. bindE (gf_getEdgeOffset W pa h e k) (\<lambda>o1. bindE (is_extern W h e) (\<lambda>x.
       Inr \<lparr>ff_address = a, ff_size = sz, ff_offset = add32 o1 off, ff_count = 0, ff_attribute = (if x then RW_EXT else RW_OWN)\<rparr>)))"

text \<open>\<open>dep.vertex_->outputEdge(dep.edgeIx_)\<close>; an input interface has one output edge.\<close>

definition dep_srcEdge :: "Dependencies.world \<Rightarrow> nat \<Rightarrow> vref \<Rightarrow> nat \<Rightarrow> nat result" where
  "dep_srcEdge W h v p =
     (case v of Actor i \<Rightarrow> bindE (vertex_of W h i) (\<lambda>x. port_edge (v_out x) p)
      | In_If i \<Rightarrow> bindE (graph_of W h) (\<lambda>g. port_edge (g_in_ifs g) i)
      | Out_If i \<Rightarrow> Inl Undefined_Behaviour)"

definition single_size :: "dep_info \<Rightarrow> nat" where
  "single_size d = add32 (dep_memoryEnd d + (2 ^ 32 - dep_memoryStart d)) 1"

definition buildSingleFifo :: "nat \<Rightarrow> Dependencies.world \<Rightarrow> pisdf_alloc \<Rightarrow> nat \<Rightarrow> nat \<Rightarrow> nat \<Rightarrow> nat \<Rightarrow> fifo option list \<Rightarrow> fifo option list result" where
  "buildSingleFifo fuel W pa h e k pos fs =
     bindE (deps_result (computeExecDependency fuel W h e k)) (\<lambda>(_, ds).
     foldE (\<lambda>fs d.
       bindE (case dep_vertex d of None \<Rightarrow> Inr fifo_default
         | Some v \<Rightarrow> bindE (null_check (dep_handler d)) (\<lambda>g. bindE (dep_srcEdge W g v (dep_edgeIx d)) (\<lambda>se.
             pisdf_buildInputFifo W pa se (single_size d) (dep_memoryStart d) (dep_firingStart d) g))) (\<lambda>f.
       set_at fs pos (Some f))) fs ds)"

text \<open>The part of a producer firing that a dependency covers.\<close>

definition part_start :: "dep_info \<Rightarrow> nat \<Rightarrow> nat" where
  "part_start d j = (if j = dep_firingStart d then dep_memoryStart d else 0)"

definition part_size :: "dep_info \<Rightarrow> nat \<Rightarrow> nat" where
  "part_size d j =
     (let memEnd = (if j = dep_firingEnd d then dep_memoryEnd d else to_u32 (dep_rate d - 1))
      in add32 (memEnd + (2 ^ 32 - part_start d j)) 1)"

definition merge_parts :: "Dependencies.world \<Rightarrow> pisdf_alloc \<Rightarrow> fifo option list \<times> nat \<Rightarrow> dep_info \<Rightarrow> (fifo option list \<times> nat) result" where
  "merge_parts W pa = (\<lambda>(fs, pos) d.
     (case (dep_vertex d, dep_handler d) of
        (Some v, Some g) \<Rightarrow> bindE (firings_of d) (\<lambda>js.
          foldE (\<lambda>(fs, pos) j.
            bindE (dep_srcEdge W g v (dep_edgeIx d)) (\<lambda>se.
            bindE (pisdf_buildInputFifo W pa se (part_size d j) (part_start d j) j g) (\<lambda>f.
            bindE (set_at fs pos (Some f)) (\<lambda>fs1. Inr (fs1, pos + 1))))) (fs, pos) js)
      | _ \<Rightarrow> Inr (fs, pos)))"

definition buildMergeFifo ::
  "nat \<Rightarrow> Dependencies.world \<Rightarrow> pisdf_alloc \<Rightarrow> nat \<Rightarrow> nat \<Rightarrow> nat \<Rightarrow> nat \<Rightarrow> fifo option list \<times> fifo_alloc \<Rightarrow> (fifo option list \<times> fifo_alloc) result" where
  "buildMergeFifo fuel W pa h e k pos = (\<lambda>(fs, a).
     bindE (getSnkRate W h e) (\<lambda>snkRate.
     bindE (deps_result (computeExecDependency fuel W h e k)) (\<lambda>(_, ds).
     bindE (foldE (merge_parts W pa) (fs, pos + 1) ds) (\<lambda>(fs1, next).
     let (address, a1) = fa_allocate (to_u64 snkRate) a in
     bindE (set_at fs1 pos (Some \<lparr>ff_address = address, ff_size = to_u32 snkRate, ff_offset = next - pos - 1, ff_count = 1,
       ff_attribute = R_MERGE\<rparr>)) (\<lambda>fs2. Inr (fs2, a1))))))"

subsection \<open>Allocation of the outputs\<close>

text \<open>\<open>ext\<close> gives the buffer index of the external interface that a vertex of a graph firing is.\<close>

definition share_offset :: "fifo \<Rightarrow> nat" where
  "share_offset f = (if ff_attribute f = R_MERGE then 0 else ff_offset f)"

definition share_step :: "Dependencies.world \<Rightarrow> nat \<Rightarrow> bool \<Rightarrow> nat \<Rightarrow> nat \<Rightarrow> pisdf_alloc \<times> nat \<Rightarrow> nat \<Rightarrow> (pisdf_alloc \<times> nat) result" where
  "share_step W h slices k address = (\<lambda>(pa, off) e.
     bindE (gf_setEdgeAddress W h address e k pa) (\<lambda>pa1. bindE (gf_setEdgeOffset W h off e k pa1) (\<lambda>pa2.
     bindE (getSrcRate W h e) (\<lambda>r. Inr (pa2, if slices then add32 off (to_u32 r) else off)))))"

definition own_step :: "(nat \<Rightarrow> nat \<Rightarrow> nat) \<Rightarrow> Dependencies.world \<Rightarrow> nat \<Rightarrow> nat \<Rightarrow> nat \<Rightarrow> fifo_alloc \<times> pisdf_alloc \<Rightarrow> nat \<Rightarrow> (fifo_alloc \<times> pisdf_alloc) result" where
  "own_step ext W h v k = (\<lambda>(a, pa) e.
     bindE (edge_of W h e) (\<lambda>ed. bindE (subtype_of W h (e_sink ed)) (\<lambda>t.
     if t = EXTERN_OUT then bindE (gf_setEdgeAddress W h (ext h (vref_ix (e_sink ed))) e 0 pa) (\<lambda>pa1. Inr (a, pa1))
     else bindE (getSrcRate W h e) (\<lambda>r. bindE (getRV W h (Actor v)) (\<lambda>rv.
       let (address, a1) = fa_allocate (mul64 (to_u64 r) rv) a in
       bindE (gf_setEdgeAddress W h address e k pa) (\<lambda>pa1. Inr (a1, pa1)))))))"

definition pisdf_allocate ::
  "(nat \<Rightarrow> nat \<Rightarrow> nat) \<Rightarrow> Dependencies.world \<Rightarrow> nat \<Rightarrow> nat \<Rightarrow> nat \<Rightarrow> job_fifos \<Rightarrow> fifo_alloc \<times> pisdf_alloc \<Rightarrow> (fifo_alloc \<times> pisdf_alloc) result" where
  "pisdf_allocate ext W h v k jf = (\<lambda>(a, pa).
     bindE (vertex_of W h v) (\<lambda>x. bindE (out_edges W h v) (\<lambda>es.
     if shares_input (v_type x) then
       bindE (inputFifo True jf 0) (\<lambda>f.
       bindE (foldE (share_step W h (v_type x = FORK) k (ff_address f)) (pa, share_offset f) es) (\<lambda>(pa1, _). Inr (a, pa1)))
     else if v_type x = EXTERN_IN then
       bindE (get_at es 0) (\<lambda>e. bindE (gf_getEdgeAddress W pa h e k) (\<lambda>old.
         if old = size_max then bindE (gf_setEdgeAddress W h (ext h v) e k pa) (\<lambda>pa1. Inr (a, pa1)) else Inr (a, pa)))
     else foldE (own_step ext W h v k) (a, pa) es)))"

text \<open>An output FIFO: its count, set by the launcher, says how many jobs read it; 0 is not known yet, negative is nobody.\<close>

definition pisdf_buildOutputFifo :: "Dependencies.world \<Rightarrow> nat \<Rightarrow> nat \<Rightarrow> nat \<Rightarrow> nat \<Rightarrow> pisdf_alloc \<Rightarrow> fifo \<Rightarrow> (nat \<times> nat \<times> nat) list \<Rightarrow> (fifo \<times> (nat \<times> nat \<times> nat) list) result" where
  "pisdf_buildOutputFifo W x h e k pa f dyn =
     bindE (gf_getEdgeAddress W pa h e k) (\<lambda>a. bindE (gf_getEdgeOffset W pa h e k) (\<lambda>off. bindE (getSrcRate W h e) (\<lambda>r.
     bindE (edge_of W h e) (\<lambda>ed. bindE (subtype_of W h (e_source ed)) (\<lambda>t. bindE (subtype_of W h (e_sink ed)) (\<lambda>u.
     let g = f\<lparr>ff_address := a, ff_offset := off, ff_size := to_u32 r, ff_attribute := RW_OWN\<rparr>;
         (g1, dyn1) = (if ff_count g = 0 then (g\<lparr>ff_count := 1\<rparr>, dyn @ [(x, e_source_port ed mod 2 ^ 32, k)])
           else if ff_count g < 0 then (g\<lparr>ff_count := 1, ff_attribute := W_SINK\<rparr>, dyn) else (g, dyn)) in
     if t = EXTERN_IN \<or> u = EXTERN_OUT
     then bindE (gf_getEdgeAddress W pa h e 0) (\<lambda>buffer.
       Inr (g1\<lparr>ff_offset := sub64 a buffer mod 2 ^ 32, ff_address := buffer, ff_attribute := RW_EXT\<rparr>, dyn1))
     else Inr (if shares_input t then g1\<lparr>ff_attribute := RW_ONLY\<rparr> else g1, dyn1)))))))"

text \<open>\<open>buildJobFifos\<close>: the inputs, then the addresses of the outputs, then the outputs. The launcher has made room for the descriptors.\<close>

definition build_input :: "nat \<Rightarrow> Dependencies.world \<Rightarrow> nat \<Rightarrow> nat \<Rightarrow> nat \<Rightarrow> pisdf_alloc \<Rightarrow> fifo option list \<times> fifo_alloc \<times> nat \<Rightarrow> nat \<Rightarrow> (fifo option list \<times> fifo_alloc \<times> nat) result" where
  "build_input fuel W h v k pa = (\<lambda>(fs, a, pos) e.
     bindE (gf_getEdgeDepCount W pa h v e k) (\<lambda>n.
     if n > 1 then bindE (buildMergeFifo fuel W pa h e k pos (fs, a)) (\<lambda>(fs1, a1). Inr (fs1, a1, pos + n + 1))
     else bindE (buildSingleFifo fuel W pa h e k pos fs) (\<lambda>fs1. Inr (fs1, a, pos + 1))))"

definition build_output :: "Dependencies.world \<Rightarrow> nat \<Rightarrow> nat \<Rightarrow> nat \<Rightarrow> pisdf_alloc \<Rightarrow> fifo option list \<times> (nat \<times> nat \<times> nat) list \<times> nat \<Rightarrow> nat \<Rightarrow>
    (fifo option list \<times> (nat \<times> nat \<times> nat) list \<times> nat) result" where
  "build_output W x h k pa = (\<lambda>(fs, dyn, i) e.
     bindE (get_at fs i) (\<lambda>f. bindE (case f of None \<Rightarrow> Inl Undefined_Behaviour | Some f \<Rightarrow> Inr f) (\<lambda>f.
     bindE (pisdf_buildOutputFifo W x h e k pa f dyn) (\<lambda>(g, dyn1). Inr (fs[i := Some g], dyn1, i + 1)))))"

definition pisdf_buildJobFifos ::
  "(nat \<Rightarrow> nat \<Rightarrow> nat) \<Rightarrow> sched_env \<Rightarrow> task_store \<Rightarrow> nat \<Rightarrow> job_fifos \<Rightarrow> pisdf_fifo_state \<Rightarrow> (job_fifos \<times> pisdf_fifo_state) result" where
  "pisdf_buildJobFifos ext env s x jf st =
     (let W = se_world env; pa = pf_graphs st in
     bindE (pisdf_task_of s x) (\<lambda>(h, v, k).
     bindE (in_edges W h v) (\<lambda>ins.
     bindE (foldE (build_input (se_fuel env) W h v k pa) (jf_inputs jf, pf_alloc st, 0) ins) (\<lambda>(fs, a1, _).
     let jf1 = jf\<lparr>jf_inputs := fs\<rparr> in
     bindE (pisdf_allocate ext W h v k jf1 (a1, pa)) (\<lambda>(a2, pa2).
     bindE (out_edges W h v) (\<lambda>outs.
     bindE (foldE (build_output W x h k pa2) (jf_outputs jf1, pf_dynamic st, 0) outs) (\<lambda>(gs, dyn, _).
       Inr (jf1\<lparr>jf_outputs := gs\<rparr>, st\<lparr>pf_alloc := a2, pf_dynamic := dyn, pf_graphs := pa2\<rparr>))))))))"

subsection \<open>Buffers whose consumers were not known\<close>

text \<open>
  \<open>updateDynamicBuffersCount\<close>: one pass over the remembered buffers; those whose consumers are known are taken out, the last one takes
  their place, and the count goes to the runner of the producer in two notifications. The fuel is the number of buffers.
\<close>

definition send_count :: "nat \<Rightarrow> nat \<Rightarrow> nat \<Rightarrow> nat \<Rightarrow> rt_env \<Rightarrow> rt_env result" where
  "send_count grtPE address uses lrt e =
     bindE (rt_push (notification_new MEM_UPDATE_COUNT grtPE address) lrt e) (\<lambda>e1.
       rt_push (notification_new MEM_UPDATE_COUNT grtPE uses) lrt e1)"

fun update_dynamic :: "nat \<Rightarrow> nat \<Rightarrow> sched_env \<Rightarrow> task_store \<Rightarrow> pisdf_alloc \<Rightarrow> nat \<Rightarrow> (nat \<times> nat \<times> nat) list \<times> rt_env \<Rightarrow>
    ((nat \<times> nat \<times> nat) list \<times> rt_env) result" where
  "update_dynamic 0 grtPE env s pa i (dyn, e) = Inr (dyn, e)"
| "update_dynamic (Suc n) grtPE env s pa i (dyn, e) =
     (if i \<ge> length dyn then Inr (dyn, e)
      else case dyn ! i of (x, p, k) \<Rightarrow>
        bindE (pisdf_task_of s x) (\<lambda>(h, v, _). bindE (vertex_of (se_world env) h v) (\<lambda>vx. bindE (port_edge (v_out vx) p) (\<lambda>edge.
        bindE (deps_result (computeConsDependency (se_fuel env) (se_world env) h edge k)) (\<lambda>(uses, _).
        if uses > 0 then
          bindE (task_mappedLRT env s x) (\<lambda>lrt. bindE (gf_getEdgeAddress (se_world env) pa h edge k) (\<lambda>a.
          bindE (send_count grtPE a (to_u64 (uses - 1)) (virtualIx (pe_at (se_archi env) lrt)) e) (\<lambda>e1.
            update_dynamic n grtPE env s pa i (out_of_order_erase dyn i, e1))))
        else update_dynamic n grtPE env s pa (i + 1) (dyn, e))))))"

definition updateDynamicBuffersCount :: "nat \<Rightarrow> sched_env \<Rightarrow> task_store \<Rightarrow> pisdf_fifo_state \<times> rt_env \<Rightarrow> (pisdf_fifo_state \<times> rt_env) result" where
  "updateDynamicBuffersCount grtPE env s = (\<lambda>(st, e).
     bindE (update_dynamic (length (pf_dynamic st)) grtPE env s (pf_graphs st) 0 (pf_dynamic st, e)) (\<lambda>(dyn, e1).
       Inr (st\<lparr>pf_dynamic := dyn\<rparr>, e1)))"

end
