(* ===== verification/PisdfFifoProps.thy ===== *)
theory PisdfFifoProps
  imports PisdfFifo DependenciesProps
begin

text \<open>
  What a firing reads: on an edge between two actors, the descriptors of a consumer firing cover, in order and without a gap, the bytes of
  its tokens in the region that the firings of the producer fill one after the other.
\<close>

subsection \<open>Adjacent descriptors\<close>

fun covers :: "fifo list \<Rightarrow> nat \<Rightarrow> nat \<Rightarrow> bool" where
  "covers [] a n \<longleftrightarrow> n = 0"
| "covers (f # fs) a n \<longleftrightarrow> ff_address f + ff_offset f = a \<and> 0 < ff_size f \<and> ff_size f \<le> n \<and> covers fs (a + ff_size f) (n - ff_size f)"

lemma add32_span: "s \<le> t \<Longrightarrow> t < 2 ^ 32 - 1 \<Longrightarrow> add32 (t + (2 ^ 32 - s)) 1 = t - s + 1"
proof -
  assume a: "s \<le> t" "t < 2 ^ 32 - 1"
  then have "t + (2 ^ 32 - s) + 1 = (t - s + 1) + 2 ^ 32" by linarith
  then have "add32 (t + (2 ^ 32 - s)) 1 = (t - s + 1 + 2 ^ 32) mod 2 ^ 32" by (simp only: add32_def)
  also have "\<dots> = (t - s + 1) mod 2 ^ 32" by (rule mod_add_self2)
  also have "\<dots> = t - s + 1" using a by (intro mod_less) linarith
  finally show ?thesis .
qed

text \<open>The tokens of a range that one firing of rate \<open>p\<close> gives.\<close>

lemma firing_tokens:
  fixes p a b :: int
  assumes p: "0 < p" "p < 2 ^ 32 - 1" and ab: "0 \<le> a" "a \<le> b" and j: "a div p \<le> int j" "int j \<le> b div p"
    and d: "d = range_dep v h q p a b"
  shows "int (part_start d j) = max a (p * int j) - p * int j"
    "int (part_size d j) = min b (p * int j + p - 1) - max a (p * int j) + 1"
    "max a (p * int j) \<le> min b (p * int j + p - 1)"
proof -
  have A: "a = p * (a div p) + a mod p" "0 \<le> a mod p" "a mod p < p" and B: "b = p * (b div p) + b mod p" "0 \<le> b mod p" "b mod p < p"
    using p by (simp_all add: pos_mod_sign pos_mod_bound)
  have dp: "0 \<le> a div p" "0 \<le> b div p" using p ab by (auto simp: pos_imp_zdiv_nonneg_iff)
  have lo: "p * (a div p) \<le> p * int j" "p * int j \<le> p * (b div p)" using p j by (auto intro: mult_left_mono)
  have start: "part_start d j = nat (max a (p * int j) - p * int j)"
  proof (cases "int j = a div p")
    case True
    then have "p * int j = p * (a div p)" by simp
    then have "max a (p * int j) - p * int j = a mod p" using A by linarith
    then show ?thesis using True by (simp add: part_start_def d range_dep_def)
  next
    case False
    then have "p * (a div p + 1) \<le> p * int j" using p j(1) by (intro mult_left_mono) auto
    then have "p * (a div p) + p \<le> p * int j" by (simp add: distrib_left)
    then have "a \<le> p * int j" using A by linarith
    then have "max a (p * int j) - p * int j = 0" by simp
    moreover have "j \<noteq> nat (a div p)" using False dp by auto
    ultimately show ?thesis by (simp add: part_start_def d range_dep_def)
  qed
  then show s: "int (part_start d j) = max a (p * int j) - p * int j" by simp
  let ?t = "if j = nat (b div p) then nat (b mod p) else to_u32 (p - 1)"
  have t: "int ?t = min b (p * int j + p - 1) - p * int j"
  proof (cases "int j = b div p")
    case True
    then have e: "p * int j = p * (b div p)" "j = nat (b div p)" by simp_all
    then have "int (if j = nat (b div p) then nat (b mod p) else to_u32 (p - 1)) = b mod p" using B(2) by simp
    moreover have "min b (p * int j + p - 1) - p * int j = b mod p" using B e(1) by linarith
    ultimately show ?thesis by simp
  next
    case False
    then have "p * (int j + 1) \<le> p * (b div p)" using p j(2) by (intro mult_left_mono) auto
    then have "p * int j + p \<le> p * (b div p)" by (simp add: distrib_left)
    then have "p * int j + p - 1 \<le> b" using B by linarith
    moreover have "j \<noteq> nat (b div p)" using False dp by auto
    ultimately show ?thesis using p to_u32_small [of "p - 1"] by simp
  qed
  show le: "max a (p * int j) \<le> min b (p * int j + p - 1)" using A B lo ab p(1) by linarith
  have "int (part_start d j) \<le> int ?t" "int ?t < p" using s t le by linarith+
  moreover have "int u32_max = 2 ^ 32 - 1" by simp
  ultimately have "part_start d j \<le> ?t" "?t < u32_max" using p(2) by linarith+
  moreover have "part_size d j = add32 (?t + (2 ^ 32 - part_start d j)) 1" by (simp only: part_size_def Let_def d range_dep_def dep_info.simps)
  ultimately have "part_size d j = ?t - part_start d j + 1" "part_start d j \<le> ?t" using add32_span [of "part_start d j" ?t] by metis+
  then show "int (part_size d j) = min b (p * int j + p - 1) - max a (p * int j) + 1" using s t by linarith
qed

lemma covers_parts:
  fixes p a b :: int
  assumes p: "0 < p" "p < 2 ^ 32 - 1" and ab: "0 \<le> a" "a \<le> b" and d: "d = range_dep v h q p a b"
    and j: "a div p \<le> int j" "int j \<le> b div p"
    and F: "\<And>j. a div p \<le> int j \<Longrightarrow> int j \<le> b div p \<Longrightarrow> ff_address (F j) = base + nat p * j \<and> ff_offset (F j) = part_start d j \<and> ff_size (F j) = part_size d j"
  shows "covers (List.map F [j..<Suc (nat (b div p))]) (base + nat (max a (p * int j))) (nat (b + 1 - max a (p * int j)))"
  using j
proof (induction "nat (b div p) - j" arbitrary: j)
  case (0 j)
  note t = firing_tokens [OF p ab 0(2,3) d]
  have q: "0 \<le> b div p" using p ab by (simp add: pos_imp_zdiv_nonneg_iff)
  have jb: "j = nat (b div p)" using 0 by linarith
  have "b < p * (b div p) + p" using mult_div_mod_eq [of p b] pos_mod_bound [OF p(1), of b] by linarith
  moreover have "p * int j = p * (b div p)" using jb q by simp
  ultimately have m: "min b (p * int j + p - 1) = b" by linarith
  have P: "int (nat p * j) = p * int j" using p by simp
  have "ff_address (F j) + ff_offset (F j) = base + nat (max a (p * int j))"
    using F [OF 0(2,3)] t(1) P by linarith
  moreover have "ff_size (F j) = nat (b + 1 - max a (p * int j))" "0 < ff_size (F j)" using F [OF 0(2,3)] t(2,3) m by linarith+
  ultimately show ?case using jb by simp
next
  case (Suc n j)
  note t = firing_tokens [OF p ab Suc(3,4) d]
  have jb: "Suc j \<le> nat (b div p)" using Suc(2) by linarith
  then have jb': "int (Suc j) \<le> b div p" by linarith
  have "p * (int j + 1) \<le> p * (b div p)" using p jb' by (intro mult_left_mono) auto
  then have "p * int j + p \<le> p * (b div p)" by (simp add: distrib_left)
  then have m: "min b (p * int j + p - 1) = p * int j + p - 1" "p * int j + p \<le> b"
    using mult_div_mod_eq [of p b] pos_mod_sign [OF p(1), of b] by linarith+
  have "a < p * (a div p) + p" using mult_div_mod_eq [of p a] pos_mod_bound [OF p(1), of a] by linarith
  moreover have "p * (a div p) \<le> p * int j" using p Suc(3) by (intro mult_left_mono) auto
  ultimately have nx: "max a (p * int (Suc j)) = p * int j + p" by (simp add: distrib_left)
  have P: "int (nat p * j) = p * int j" using p by simp
  have f: "ff_address (F j) + ff_offset (F j) = base + nat (max a (p * int j))" using F [OF Suc(3,4)] t(1) P by linarith
  have z: "int (ff_size (F j)) = p * int j + p - max a (p * int j)" using F [OF Suc(3,4)] t(2) m(1) by linarith
  have "0 \<le> max a (p * int j)" using ab by simp
  then have next_: "base + nat (max a (p * int j)) + ff_size (F j) = base + nat (max a (p * int (Suc j)))"
    "nat (b + 1 - max a (p * int j)) - ff_size (F j) = nat (b + 1 - max a (p * int (Suc j)))"
    using z m(2) unfolding nx by linarith+
  have "covers (List.map F [Suc j..<Suc (nat (b div p))]) (base + nat (max a (p * int (Suc j)))) (nat (b + 1 - max a (p * int (Suc j))))"
    using Suc(2,3) jb' by (intro Suc(1)) auto
  moreover have "[j..<Suc (nat (b div p))] = j # [Suc j..<Suc (nat (b div p))]" using jb by (simp add: upt_conv_Cons)
  moreover have "0 < ff_size (F j)" "ff_size (F j) \<le> nat (b + 1 - max a (p * int j))" using t(3) m z by linarith+
  ultimately show ?case using f next_ by (simp only: list.map covers.simps)
qed

subsection \<open>The region of an edge\<close>

text \<open>The edge has the virtual address \<open>base\<close>, where the firings of its producer write one after the other.\<close>

definition stored_at :: "Dependencies.world \<Rightarrow> pisdf_alloc \<Rightarrow> nat \<Rightarrow> nat \<Rightarrow> nat \<Rightarrow> bool" where
  "stored_at W pa h e base \<longleftrightarrow> source_shares W h e = Inr False \<and> is_extern W h e = Inr False \<and> (\<exists>rest. pa_edge pa h e = Some ((base, 0) # rest))"

lemma stored_address:
  assumes st: "stored_at W pa h e base" and r: "getSrcRate W h e = Inr p" "0 \<le> p" and b: "int base + p * int j < 2 ^ 64"
  shows "gf_getEdgeAddress W pa h e j = Inr (base + nat p * j)" "gf_getEdgeOffset W pa h e j = Inr 0"
proof -
  have "0 \<le> p * int j" "p * int j < 2 ^ 64" using r(2) b by auto
  then have u: "to_u64 (p * int j) = nat p * j" using r(2) by (simp add: to_u64_def nat_mult_distrib)
  have "int (base + nat p * j) < int (2 ^ 64)" using b r(2) by simp
  then have "base + nat p * j < 2 ^ 64" unfolding of_nat_less_iff .
  then have add: "add64 base (nat p * j) = base + nat p * j" by (rule add64_exact)
  show "gf_getEdgeAddress W pa h e j = Inr (base + nat p * j)" "gf_getEdgeOffset W pa h e j = Inr 0"
    using st r(1) u add
    by (auto simp: stored_at_def gf_getEdgeAddress_def gf_getEdgeOffset_def ga_getEdgeAddress_def ga_getEdgeOffset_def ga_edge_alloc_def null_check_def)
qed

lemma stored_input:
  assumes st: "stored_at W pa h e base" and r: "getSrcRate W h e = Inr p" "0 \<le> p" and b: "int base + p * int j < 2 ^ 64" and off: "off < 2 ^ 32"
  shows "pisdf_buildInputFifo W pa e sz off j h =
    Inr \<lparr>ff_address = base + nat p * j, ff_size = sz, ff_offset = off, ff_count = 0, ff_attribute = RW_OWN\<rparr>"
  using stored_address [OF st r b] st off by (simp add: pisdf_buildInputFifo_def stored_at_def add32_def)

lemma pisdf_fill_fold:
  "(\<And>j. j \<in> set js \<Longrightarrow> X j = Inr (F j)) \<Longrightarrow> pos + length js \<le> length fs \<Longrightarrow>
    foldE (\<lambda>(fs, pos) j. bindE (X j) (\<lambda>f. bindE (set_at fs pos (Some f)) (\<lambda>fs1. Inr (fs1, pos + 1)))) (fs, pos) js =
    Inr (take pos fs @ List.map (\<lambda>j. Some (F j)) js @ drop (pos + length js) fs, pos + length js)"
proof (induction js arbitrary: fs pos)
  case (Cons j js)
  have p: "pos < length fs" using Cons.prems(2) by simp
  let ?fs = "fs[pos := Some (F j)]"
  have "foldE (\<lambda>(fs, pos) j. bindE (X j) (\<lambda>f. bindE (set_at fs pos (Some f)) (\<lambda>fs1. Inr (fs1, pos + 1)))) (?fs, pos + 1) js =
    Inr (take (pos + 1) ?fs @ List.map (\<lambda>j. Some (F j)) js @ drop (pos + 1 + length js) ?fs, pos + 1 + length js)"
    using Cons.prems by (intro Cons.IH) auto
  moreover have "take (pos + 1) ?fs = take pos fs @ [Some (F j)]" using p by (simp add: take_Suc_conv_app_nth)
  ultimately show ?case using Cons.prems(1) [of j] p by simp
qed simp

lemma firing_count_range:
  assumes "0 < p" "0 \<le> a" "a \<le> b" "b < 2 ^ 31 - 1"
  shows "firing_count (range_dep v h q p a b) = int (nat (b div p) - nat (a div p)) + 1"
proof -
  have "b div p \<le> b" using assms by (intro div_le_self_int) auto
  moreover have d: "0 \<le> a div p" "a div p \<le> b div p" using assms by (auto simp: pos_imp_zdiv_nonneg_iff zdiv_mono1)
  ultimately have "b div p < 2 ^ 31 - 1" using assms(4) by linarith
  then have "nat (b div p) < 2 ^ 31 - 1" using d by (simp add: nat_less_iff)
  then have l: "nat (a div p) \<le> nat (b div p)" "nat (b div p) + 1 < 2 ^ 31" using d by linarith+
  let ?n = "nat (b div p) - nat (a div p) + 1"
  have two: "(2 :: nat) ^ 31 \<le> 2 ^ 32" by simp
  have "nat (b div p) + (2 ^ 32 - nat (a div p)) + 1 = ?n + 2 ^ 32" using l two by linarith
  then have "(nat (b div p) + (2 ^ 32 - nat (a div p)) + 1) mod 2 ^ 32 = ?n mod 2 ^ 32" by (metis mod_add_self2)
  also have "\<dots> = ?n" using l two by (intro mod_less) linarith
  finally have m: "(nat (b div p) + (2 ^ 32 - nat (a div p)) + 1) mod 2 ^ 32 = ?n" .
  have "?n < 2 ^ 31" using l by linarith
  with m show ?thesis by (simp only: firing_count_def Let_def range_dep_def dep_info.simps if_True)
qed

subsection \<open>Properties\<close>

text \<open>What a consumer firing is told to read: one descriptor, or the head of a merged FIFO and the descriptors of its parts.\<close>

definition reads :: "fifo option list \<Rightarrow> nat \<Rightarrow> nat \<Rightarrow> bool" where
  "reads fs a n \<longleftrightarrow> (\<exists>f. fs = [Some f] \<and> covers [f] a n) \<or>
     (\<exists>m parts. fs = Some m # List.map Some parts \<and> ff_attribute m = R_MERGE \<and> ff_size m = n \<and> ff_offset m = length parts \<and> covers parts a n)"

lemma window:
  assumes src: "plain_source W h e edge p" and nodelay: "delay_of W h e = Inr None" and cons: "getSnkRate W h e = Inr c" "0 < c"
    and st: "stored_at W pa h e base" and own: "dep_srcEdge W h (e_source edge) (e_source_port edge mod 2 ^ 32) = Inr e"
    and small: "p < 2 ^ 31" "c * (int k + 1) < 2 ^ 31" "int base + c * (int k + 1) < 2 ^ 64"
    and stored: "gf_getEdgeDepCount W pa h v e k = Inr n" "computeExecDependency (Suc fuel) W h e k = ret_deps (int n) ds"
    and room: "pos + n + 1 \<le> length fs"
  shows "\<exists>ins a'. reads ins (base + nat c * k) (nat c) \<and>
      build_input (Suc fuel) W h v k pa (fs, a, pos) e = Inr (take pos fs @ ins @ drop (pos + length ins) fs, a', pos + length ins)"
    "int base + p * int j < 2 ^ 64 \<Longrightarrow> \<exists>g dyn'. pisdf_buildOutputFifo W x h e j pa f dyn = Inr (g, dyn') \<and>
      ff_address g + ff_offset g = base + nat p * j \<and> int (ff_size g) = p"
proof -
  have r: "getSrcRate W h e = Inr p" "0 < p" "edge_of W h e = Inr edge" using src by (auto simp: plain_source_def)
  let ?a = "c * int k" and ?b = "c * (int k + 1) - 1"
  let ?d = "range_dep (e_source edge) h (e_source_port edge) p ?a ?b"
  have ab: "0 \<le> ?a" "?a \<le> ?b" "?b + 1 - ?a = c" using cons(2) by (auto simp: distrib_left)
  have "int k + 1 \<le> c * (int k + 1)" using cons(2) by simp
  moreover have "(2 :: int) ^ 31 \<le> 2 ^ 32" by simp
  ultimately have "int k + 1 < 2 ^ 32" using small(2) by linarith
  then have add: "int (add32 k 1) = int k + 1" by (auto simp: add32_def)
  have exec: "computeExecDependency (Suc fuel) W h e k = ret_deps (firing_count ?d) [?d]"
    using execDep_source [OF src nodelay, of ?a ?b fuel] ab small(2) cons(1)
    by (simp add: computeExecDependency_def add Let_def delayValue_def del: execDep.simps One_nat_def)
  let ?s = "nat (?a div p)" and ?t = "nat (?b div p)"
  have cnt: "firing_count ?d = int (?t - ?s) + 1" using firing_count_range [OF r(2) ab(1,2)] small(2) by simp
  have n: "n = ?t - ?s + 1" "ds = [?d]" using stored(2) exec cnt by (auto simp: ret_deps_def)
  have dp: "0 \<le> ?a div p" "?a div p \<le> ?b div p" using r(2) ab by (auto simp: pos_imp_zdiv_nonneg_iff zdiv_mono1)
  then have st_le: "?s \<le> ?t" by linarith
  have p: "p < 2 ^ 32 - 1" using small(1) by simp
  have in_range: "int base + p * int j < 2 ^ 64" if "int j \<le> ?b div p" for j
  proof -
    have "p * int j \<le> p * (?b div p)" using that r(2) by (intro mult_left_mono) auto
    also have "\<dots> \<le> ?b" using mult_div_mod_eq [of p ?b] pos_mod_sign [OF r(2), of ?b] by linarith
    finally show ?thesis using small(3) by linarith
  qed
  let ?F = "\<lambda>j. \<lparr>ff_address = base + nat p * j, ff_size = part_size ?d j, ff_offset = part_start ?d j, ff_count = 0, ff_attribute = RW_OWN\<rparr>"
  have start: "part_start ?d j < 2 ^ 32" if "?a div p \<le> int j" "int j \<le> ?b div p" for j
  proof -
    have "int (part_start ?d j) < p" using firing_tokens(1,3) [OF r(2) p ab(1,2) that, where d = ?d, OF refl] by linarith
    then have "int (part_start ?d j) < int (2 ^ 32)" using p by simp
    then show ?thesis unfolding of_nat_less_iff .
  qed
  have part: "pisdf_buildInputFifo W pa e (part_size ?d j) (part_start ?d j) j h = Inr (?F j)" if "?s \<le> j" "j \<le> ?t" for j
  proof -
    have j: "?a div p \<le> int j" "int j \<le> ?b div p" using that dp by linarith+
    show ?thesis by (rule stored_input [OF st r(1) _ in_range [OF j(2)] start [OF j]]) (use r(2) in simp)
  qed
  have win: "nat (max ?a (p * int ?s)) = nat c * k" "nat (?b + 1 - max ?a (p * int ?s)) = nat c"
  proof -
    have "p * int ?s = p * (?a div p)" using dp by simp
    then have "p * int ?s \<le> ?a" using mult_div_mod_eq [of p ?a] pos_mod_sign [OF r(2), of ?a] by linarith
    then have m: "max ?a (p * int ?s) = ?a" by simp
    then show "nat (max ?a (p * int ?s)) = nat c * k" using cons(2) by (simp add: nat_mult_distrib)
    show "nat (?b + 1 - max ?a (p * int ?s)) = nat c" unfolding m using ab(3) by simp
  qed
  have cov: "covers (List.map ?F [?s..<Suc ?t]) (base + nat c * k) (nat c)"
    using covers_parts [OF r(2) p ab(1,2) refl, of ?s ?F base] dp unfolding win by simp
  have firings: "firings_of ?d = Inr [?s..<Suc ?t]"
  proof -
    have "?b div p \<le> ?b" using r(2) ab by (intro div_le_self_int) auto
    then have "?b div p < 2 ^ 31" using small(2) by linarith
    then have "?t < 2 ^ 31" using dp by (simp add: nat_less_iff)
    then have "?t \<noteq> u32_max" by simp
    then show ?thesis by (simp add: firings_of_def range_dep_def)
  qed
  show "\<exists>ins a'. reads ins (base + nat c * k) (nat c) \<and>
      build_input (Suc fuel) W h v k pa (fs, a, pos) e = Inr (take pos fs @ ins @ drop (pos + length ins) fs, a', pos + length ins)"
  proof (cases "n > 1")
    case False
    then have one: "?t = ?s" using n st_le by linarith
    then have sz: "single_size ?d = part_size ?d ?s" "dep_memoryStart ?d = part_start ?d ?s" "dep_firingStart ?d = ?s"
      by (simp_all add: single_size_def part_size_def part_start_def range_dep_def Let_def)
    have se: "dep_srcEdge W h (e_source edge) (dep_edgeIx ?d) = Inr e" "dep_vertex ?d = Some (e_source edge)" "dep_handler ?d = Some h"
      using own by (simp_all add: range_dep_def)
    have "buildSingleFifo (Suc fuel) W pa h e k pos fs = Inr (fs[pos := Some (?F ?s)])"
      using room part [OF _ st_le] unfolding buildSingleFifo_def exec
      by (simp add: deps_result_def ret_deps_def se sz null_check_def del: execDep.simps)
    moreover have "fs[pos := Some (?F ?s)] = take pos fs @ [Some (?F ?s)] @ drop (pos + 1) fs" using room by (simp add: upd_conv_take_nth_drop)
    moreover have "reads [Some (?F ?s)] (base + nat c * k) (nat c)" using cov one by (simp add: reads_def)
    ultimately show ?thesis using False stored(1) by (intro exI [of _ "[Some (?F ?s)]"] exI [of _ a]) (simp add: build_input_def)
  next
    case True
    let ?fs1 = "take (pos + 1) fs @ List.map (\<lambda>j. Some (?F j)) [?s..<Suc ?t] @ drop (pos + 1 + length [?s..<Suc ?t]) fs"
    have len: "length [?s..<Suc ?t] = n" using n st_le by simp
    have "merge_parts W pa (fs, pos + 1) ?d = Inr (?fs1, pos + 1 + n)"
    proof -
      have "merge_parts W pa (fs, pos + 1) ?d =
         foldE (\<lambda>(fs, pos) j. bindE (pisdf_buildInputFifo W pa e (part_size ?d j) (part_start ?d j) j h)
            (\<lambda>f. bindE (set_at fs pos (Some f)) (\<lambda>fs1. Inr (fs1, pos + 1)))) (fs, pos + 1) [?s..<Suc ?t]"
        using own firings by (simp add: merge_parts_def range_dep_def del: upt_Suc)
      also have "\<dots> = Inr (?fs1, pos + 1 + length [?s..<Suc ?t])"
        by (rule pisdf_fill_fold) (use part room len in \<open>auto simp del: upt_Suc\<close>)
      finally show ?thesis by (simp only: len)
    qed
    then have parts: "foldE (merge_parts W pa) (fs, pos + 1) ds = Inr (?fs1, pos + 1 + n)" by (simp add: n(2))
    let ?m = "\<lambda>address. \<lparr>ff_address = address, ff_size = to_u32 c, ff_offset = n, ff_count = 1, ff_attribute = R_MERGE\<rparr>"
    obtain address a1 where al: "fa_allocate (to_u64 c) a = (address, a1)" by (cases "fa_allocate (to_u64 c) a")
    let ?ins = "Some (?m address) # List.map Some (List.map ?F [?s..<Suc ?t])"
    have upd: "?fs1[pos := Some (?m address)] = take pos fs @ ?ins @ drop (pos + length ?ins) fs"
    proof -
      have "take (pos + 1) fs = take pos fs @ [fs ! pos]" using room by (simp add: take_Suc_conv_app_nth)
      then show ?thesis using room len by (simp add: list_update_append del: upt_Suc)
    qed
    have plen: "pos < length ?fs1" using room by simp
    have merge: "buildMergeFifo (Suc fuel) W pa h e k pos (fs, a) = Inr (?fs1[pos := Some (?m address)], a1)"
      unfolding buildMergeFifo_def exec n(2) [symmetric] using cons(1) parts al plen
      by (simp add: deps_result_def ret_deps_def del: execDep.simps upt_Suc)
    have "c < 2 ^ 31"
    proof -
      have "c * 1 \<le> c * (int k + 1)" using cons(2) by (intro mult_left_mono) auto
      then show ?thesis using small(2) by linarith
    qed
    then have "to_u32 c = nat c" using cons(2) by (intro to_u32_nat) auto
    then have reads: "reads ?ins (base + nat c * k) (nat c)" using cov len by (auto simp: reads_def simp del: upt_Suc)
    have "length ?ins = n + 1" using len by (simp del: upt_Suc)
    then have next_: "pos + n + 1 = pos + length ?ins" by (simp only:)
    have "build_input (Suc fuel) W h v k pa (fs, a, pos) e = Inr (take pos fs @ ?ins @ drop (pos + length ?ins) fs, a1, pos + length ?ins)"
      unfolding build_input_def prod.case stored(1) bindE_Inr if_P [OF True] merge upd next_ ..
    with reads show ?thesis by blast
  qed
  show "\<exists>g dyn'. pisdf_buildOutputFifo W x h e j pa f dyn = Inr (g, dyn') \<and> ff_address g + ff_offset g = base + nat p * j \<and> int (ff_size g) = p"
    if b: "int base + p * int j < 2 ^ 64"
  proof -
    from st obtain t u where tu: "subtype_of W h (e_source edge) = Inr t" "subtype_of W h (e_sink edge) = Inr u" "\<not> shares_input t"
      "t \<noteq> EXTERN_IN" "u \<noteq> EXTERN_OUT" using r(3)
      by (cases "subtype_of W h (e_source edge)"; cases "subtype_of W h (e_sink edge)") (simp_all add: stored_at_def source_shares_def is_extern_def)
    have "int (to_u32 p) = p" using r(2) small(1) by (intro to_u32_small) auto
    then show ?thesis
      using stored_address [OF st r(1) _ b] r tu by (auto simp: pisdf_buildOutputFifo_def Let_def)
  qed
qed

text \<open>
  C13. On an edge without a delay between two actors, the FIFO descriptors of firing \<open>k\<close> of the consumer read the bytes of its tokens, \<open>c * k\<close> up to
  \<open>c * (k + 1)\<close>, of the region of the edge, in order and without a gap, whatever number of producer firings they come from; firing \<open>j\<close> of
  the producer is told to write the bytes \<open>p * j\<close> up to \<open>p * (j + 1)\<close> of the same region. The sizes stay below \<open>2 ^ 31\<close> and the region
  inside the address space.
\<close>

theorem pisdf_input_window:
  assumes "plain_source W h e edge p" and "delay_of W h e = Inr None" and "getSnkRate W h e = Inr c" "0 < c"
    and "stored_at W pa h e base" and "dep_srcEdge W h (e_source edge) (e_source_port edge mod 2 ^ 32) = Inr e"
    and "p < 2 ^ 31" "c * (int k + 1) < 2 ^ 31" "int base + c * (int k + 1) < 2 ^ 64"
    and "gf_getEdgeDepCount W pa h v e k = Inr n" "computeExecDependency (Suc fuel) W h e k = ret_deps (int n) ds"
    and "pos + n + 1 \<le> length fs"
  shows "(\<exists>ins a'. reads ins (base + nat c * k) (nat c) \<and>
      build_input (Suc fuel) W h v k pa (fs, a, pos) e = Inr (take pos fs @ ins @ drop (pos + length ins) fs, a', pos + length ins)) \<and>
    (\<forall>j x f dyn. int base + p * int j < 2 ^ 64 \<longrightarrow> (\<exists>g dyn'. pisdf_buildOutputFifo W x h e j pa f dyn = Inr (g, dyn') \<and>
      ff_address g + ff_offset g = base + nat p * j \<and> int (ff_size g) = p))"
  using window(1) [OF assms] window(2) [OF assms] by blast

text \<open>Firing 1 of the consumer of the sample world without its delay: rates 2 and 3, the tokens 3 to 5 of the producer's firings 1 and 2.\<close>

definition window_world :: Dependencies.world where
  "window_world = dep_world\<lparr>w_graphs := List.map (\<lambda>g. g\<lparr>g_delays := [None, None]\<rparr>) (w_graphs dep_world)\<rparr>"

definition window_alloc :: pisdf_alloc where
  "window_alloc = \<lparr>pa_task = (\<lambda>_ _. None), pa_edge = (\<lambda>_ _. Some [(64, 0)]), pa_deps = (\<lambda>_ _. Some [2, 2])\<rparr>"

lemmas window_simps = window_world_def window_alloc_def dep_world_simps

lemma pisdf_input_window_witness:
  "\<exists>ins a'. reads ins 67 3 \<and>
     build_input 1 window_world 0 1 1 window_alloc ([None, None, None], fifo_alloc_new, 0) 0 = Inr (ins @ drop (length ins) [None, None, None], a', length ins)"
proof -
  let ?e = "\<lparr>e_source = Actor 0, e_source_port = 0, e_sink = Actor 1, e_sink_port = 0\<rparr>"
  have src: "plain_source window_world 0 0 ?e 2" by (simp add: plain_source_def window_simps)
  have nd: "delay_of window_world 0 0 = Inr None" by (simp add: window_simps)
  have c: "getSnkRate window_world 0 0 = Inr 3" by (simp add: window_simps)
  have st: "stored_at window_world window_alloc 0 0 64"
    by (simp add: stored_at_def source_shares_def is_extern_def window_simps shares_input_def)
  have own: "dep_srcEdge window_world 0 (e_source ?e) (e_source_port ?e mod 2 ^ 32) = Inr 0"
    by (simp add: dep_srcEdge_def vertex_of_def window_simps)
  have n: "gf_getEdgeDepCount window_world window_alloc 0 1 0 1 = Inr 2"
    by (simp add: gf_getEdgeDepCount_def dep_count_pos_def vertex_of_def null_check_def window_simps)
  have "firing_count (range_dep (Actor 0) 0 0 2 3 5) = 2" using firing_count_range [of 2 3 5 "Actor 0" 0 0] by simp
  then have "execDep (Suc 0) window_world 0 3 5 0 = ret_deps 2 [range_dep (Actor 0) 0 0 2 3 5]"
    using execDep_source [OF src nd, of 3 5 0] by (simp add: delayValue_def Let_def del: execDep.simps)
  then have dep: "computeExecDependency (Suc 0) window_world 0 0 1 = ret_deps (int 2) [range_dep (Actor 0) 0 0 2 3 5]"
    by (simp add: computeExecDependency_def c add32_def del: execDep.simps)
  from pisdf_input_window [OF src nd c _ st own _ _ _ n dep, where pos = 0 and fs = "[None, None, None]" and a = fifo_alloc_new]
  show ?thesis by simp
qed

end
