(* ===== verification/PisdfParams.thy ===== *)
theory PisdfParams
  imports GraphAlloc Kernels
begin

text \<open>
  The builders of \<open>pisdf-helper.cpp\<close>: the parameters that the kernel of a firing gets, read from the rates of the graph firing. They are
  those of the single-rate graph, but for \<open>HEAD\<close>. What a vertex holds besides its ports is an argument: the values of its refinement
  parameters, the delay next to an \<open>INIT\<close> or \<open>END\<close> vertex, the buffer index of an external interface.
\<close>

record pisdf_vertex_info =
  pv_params :: "int list"
  pv_delay :: "(bool \<times> int \<times> nat) option"
  pv_extern :: nat

definition in_rates :: "world \<Rightarrow> nat \<Rightarrow> nat \<Rightarrow> int list result" where
  "in_rates W h v = bindE (in_edges W h v) (mapE (getSnkRate W h))"

definition out_rates :: "world \<Rightarrow> nat \<Rightarrow> nat \<Rightarrow> int list result" where
  "out_rates W h v = bindE (out_edges W h v) (mapE (getSrcRate W h))"

definition in_rate :: "world \<Rightarrow> nat \<Rightarrow> nat \<Rightarrow> nat \<Rightarrow> int result" where
  "in_rate W h v i = bindE (in_edges W h v) (\<lambda>es. bindE (get_at es i) (getSnkRate W h))"

definition out_rate :: "world \<Rightarrow> nat \<Rightarrow> nat \<Rightarrow> nat \<Rightarrow> int result" where
  "out_rate W h v i = bindE (out_edges W h v) (\<lambda>es. bindE (get_at es i) (getSrcRate W h))"

definition pisdf_buildFork :: "world \<Rightarrow> nat \<Rightarrow> nat \<Rightarrow> int list result" where
  "pisdf_buildFork W h v = bindE (in_rate W h v 0) (\<lambda>r. bindE (out_rates W h v) (\<lambda>rs. Inr (r # int (length rs) # rs)))"

definition pisdf_buildJoin :: "world \<Rightarrow> nat \<Rightarrow> nat \<Rightarrow> int list result" where
  "pisdf_buildJoin W h v = bindE (out_rate W h v 0) (\<lambda>r. bindE (in_rates W h v) (\<lambda>rs. Inr (r # int (length rs) # rs)))"

text \<open>The copy loop runs down to the position \<open>- inputCount\<close> of the array of inputs, excluded.\<close>

definition pisdf_buildTail :: "world \<Rightarrow> nat \<Rightarrow> nat \<Rightarrow> int list result" where
  "pisdf_buildTail W h v =
     bindE (out_rate W h v 0) (\<lambda>rate0. bindE (in_rates W h v) (\<lambda>ins.
     let (rate, n) = inputs_needed (rev ins) rate0 1 in
     if ins = [] then Inl Undefined_Behaviour
     else bindE (get_at ins (sub64 (length ins) n)) (\<lambda>first.
       let steps = length ins + n - 1 in
       if steps > n \<or> steps > length ins then Inl Undefined_Behaviour
       else Inr (int (length ins) # int (length ins - n) # (first - rate) # rate # take steps (rev ins)))))"

text \<open>The number of inputs is counted with the source rate of the output edge, their sizes are cut with its sink rate.\<close>

definition pisdf_buildHead :: "world \<Rightarrow> nat \<Rightarrow> nat \<Rightarrow> int list result" where
  "pisdf_buildHead W h v =
     bindE (out_rate W h v 0) (\<lambda>rate. bindE (in_rates W h v) (\<lambda>ins.
     let n = snd (inputs_needed ins rate 1) in
     bindE (out_edges W h v) (\<lambda>es. bindE (get_at es 0) (\<lambda>e. bindE (getSnkRate W h e) (\<lambda>snkRate.
     bindE (head_sizes ins snkRate n) (\<lambda>sizes. Inr (int n # sizes)))))))"

definition pisdf_buildRepeat :: "world \<Rightarrow> nat \<Rightarrow> nat \<Rightarrow> int list result" where
  "pisdf_buildRepeat W h v = bindE (in_rate W h v 0) (\<lambda>a. bindE (out_rate W h v 0) (\<lambda>b. Inr [a, b]))"

definition pisdf_buildDuplicate :: "world \<Rightarrow> nat \<Rightarrow> nat \<Rightarrow> int list result" where
  "pisdf_buildDuplicate W h v = bindE (out_edges W h v) (\<lambda>es. bindE (in_rate W h v 0) (\<lambda>a. Inr [int (length es), a]))"

text \<open>The builders for \<open>INIT\<close> and \<open>END\<close>.\<close>

definition pisdf_buildDelay :: "pisdf_vertex_info \<Rightarrow> int list" where
  "pisdf_buildDelay i = (case pv_delay i of None \<Rightarrow> [0, 0, 0] | Some (persistent, n, address) \<Rightarrow> [of_bool persistent, n, of_u64 address])"

definition pisdf_buildExternOut :: "world \<Rightarrow> nat \<Rightarrow> nat \<Rightarrow> pisdf_vertex_info \<Rightarrow> int list result" where
  "pisdf_buildExternOut W h v i = bindE (in_rate W h v 0) (\<lambda>r. Inr [of_u64 (pv_extern i), r])"

definition pisdf_buildDefault :: "pisdf_vertex_info \<Rightarrow> int list" where
  "pisdf_buildDefault i = pv_params i"

definition pisdf_buildVertexRuntimeInputParameters :: "world \<Rightarrow> nat \<Rightarrow> nat \<Rightarrow> pisdf_vertex_info \<Rightarrow> int list result" where
  "pisdf_buildVertexRuntimeInputParameters W h v i =
     bindE (vertex_of W h v) (\<lambda>x. case v_type x of
        FORK \<Rightarrow> pisdf_buildFork W h v
      | JOIN \<Rightarrow> pisdf_buildJoin W h v
      | TAIL \<Rightarrow> pisdf_buildTail W h v
      | HEAD \<Rightarrow> pisdf_buildHead W h v
      | REPEAT \<Rightarrow> pisdf_buildRepeat W h v
      | DUPLICATE \<Rightarrow> pisdf_buildDuplicate W h v
      | INIT \<Rightarrow> Inr (pisdf_buildDelay i)
      | END_VERTEX \<Rightarrow> Inr (pisdf_buildDelay i)
      | EXTERN_OUT \<Rightarrow> pisdf_buildExternOut W h v i
      | _ \<Rightarrow> Inr (pisdf_buildDefault i))"

subsection \<open>Agreement with the single-rate builders\<close>

definition rates_of :: "pisdf_vertex_info \<Rightarrow> int list \<Rightarrow> int list \<Rightarrow> task_rates" where
  "rates_of i ins rout = \<lparr>tr_in = ins, tr_out = rout, tr_params = pv_params i, tr_delay = pv_delay i, tr_extern = pv_extern i\<rparr>"

lemma mapE_get: "mapE f xs = Inr ys \<Longrightarrow> bindE (get_at xs i) f = get_at ys i"
  by (auto simp: mapE_Inr_iff get_at_def list_all2_conv_all_nth)

lemma rates_eval: "in_rates W h v = Inr ins \<Longrightarrow> in_rate W h v k = get_at ins k" "out_rates W h v = Inr rout \<Longrightarrow> out_rate W h v k = get_at rout k"
  by (auto simp: in_rates_def in_rate_def out_rates_def out_rate_def mapE_get)

lemma out_edges_count: "out_rates W h v = Inr rout \<Longrightarrow> \<exists>es. out_edges W h v = Inr es \<and> length es = length rout"
  by (auto simp: out_rates_def mapE_Inr_iff list_all2_lengthD)

text \<open>On rates that can be read, every builder but that of \<open>HEAD\<close> gives what the single-rate one gives on the same rates.\<close>

lemma pisdf_parameters_agree:
  assumes "vertex_of W h v = Inr x" and "in_rates W h v = Inr ins" and "out_rates W h v = Inr rout" and "v_type x \<noteq> HEAD"
  shows "pisdf_buildVertexRuntimeInputParameters W h v i = buildVertexRuntimeInputParameters (v_type x) (rates_of i ins rout)"
proof -
  obtain es where "out_edges W h v = Inr es" "length es = length rout" using out_edges_count [OF assms(3)] by blast
  with assms show ?thesis
    by (cases "v_type x") (auto simp: pisdf_buildVertexRuntimeInputParameters_def buildVertexRuntimeInputParameters_def rates_eval rates_of_def
      pisdf_buildFork_def buildForkParameters_def pisdf_buildJoin_def buildJoinParameters_def pisdf_buildTail_def buildTailParameters_def
      pisdf_buildRepeat_def buildRepeatParameters_def pisdf_buildDuplicate_def buildDuplicateParameters_def pisdf_buildDelay_def
      buildDelayParameters_def pisdf_buildExternOut_def buildExternOutParameters_def pisdf_buildDefault_def buildDefaultParameters_def)
qed

text \<open>\<open>HEAD\<close> agrees when the rates of its output edge are equal at both ends.\<close>

lemma pisdf_head_agrees:
  assumes "in_rates W h v = Inr ins" and "out_rates W h v = Inr (r # rout)" and "out_edges W h v = Inr (e # es)" and "getSnkRate W h e = Inr r"
  shows "pisdf_buildHead W h v = buildHeadParameters (rates_of i ins (r # rout))"
  using assms by (simp add: pisdf_buildHead_def rates_eval buildHeadParameters_def rates_of_def Let_def)

text \<open>A head of 4 tokens out of inputs of 2 and 3, on an edge whose sink takes 1 at a time: the kernel is told to copy 1 token of the first
  input and a negative number of the second.\<close>

lemma head_wrong_sizes:
  assumes "in_rates W h v = Inr [2, 3]" and "out_rates W h v = Inr [4]" and "out_edges W h v = Inr [e]" and "getSnkRate W h e = Inr 1"
  shows "pisdf_buildHead W h v = Inr [2, 1, - 1]" and "buildHeadParameters (rates_of i [2, 3] [4]) = Inr [2, 2, 2]"
  using assms by (simp_all add: pisdf_buildHead_def rates_eval buildHeadParameters_def rates_of_def eval_nat_numeral)

end
