(* ===== verification/TaskLauncher.thy ===== *)
theory TaskLauncher
  imports ResourcesAllocator RTPlatform PisdfFifo PisdfParams
begin

text \<open>
  \<open>scheduling/launcher/TaskLauncher.cpp\<close>: a mapped task becomes a job message - its kernel, its FIFOs, its parameters, the jobs it waits for
  and the runners it notifies - and is posted to the runner of its local runtime. The communication tasks are kept until the task they feed is
  launched. \<open>launch_ctx\<close> is what a launch reads and does not change, \<open>launcher\<close> what it changes besides the schedule.
\<close>

record launch_ctx =
  lx_env :: sched_env
  lx_srRates :: "nat \<Rightarrow> task_rates"        \<comment> \<open>of a single-rate vertex\<close>
  lx_srParamsOut :: "nat \<Rightarrow> nat"
  lx_info :: "nat \<Rightarrow> nat \<Rightarrow> pisdf_vertex_info"
  lx_paramsOut :: "nat \<Rightarrow> nat \<Rightarrow> nat"
  lx_srExtern :: "nat \<Rightarrow> nat"
  lx_extern :: "nat \<Rightarrow> nat \<Rightarrow> nat"

record launcher =
  la_rt :: rt_env
  la_fifo :: "fifo_alloc \<times> srdag"
  la_pisdf :: pisdf_fifo_state
  la_buses :: "bus list"
  la_registry :: "registry option"
  la_defered :: "(nat \<times> nat) list"

definition lrt_ix :: "sched_env \<Rightarrow> task_store \<Rightarrow> nat \<Rightarrow> nat result" where
  "lrt_ix env s x = bindE (task_mappedLRT env s x) (\<lambda>l. Inr (virtualIx (pe_at (se_archi env) l)))"

subsection \<open>The jobs to wait for\<close>

text \<open>The array has an entry for every local runtime with an index, and is not initialised: an index that no task of the schedule has
  leaves an entry of it unwritten.\<close>

definition exec_constraint_step :: "sched_env \<Rightarrow> nat \<Rightarrow> nat \<Rightarrow> schedule \<times> sync_info list \<Rightarrow> nat \<Rightarrow> (schedule \<times> sync_info list) result" where
  "exec_constraint_step env x n = (\<lambda>(sc, acc) i.
     if length acc = n then Inr (sc, acc)
     else bindE (task_syncExecIxOnLRT env (sc_store sc) x i) (\<lambda>ix. bindE (schedule_task env ix sc) (\<lambda>(src, sc1).
       case src of None \<Rightarrow> Inr (sc1, acc)
       | Some y \<Rightarrow> bindE (task_jobExecIx (sc_store sc1) y) (\<lambda>j. Inr (sc1, acc @ [\<lparr>sy_lrt = i, sy_job = j\<rparr>])))))"

definition buildExecConstraints :: "sched_env \<Rightarrow> nat \<Rightarrow> schedule \<Rightarrow> (sync_info list \<times> schedule) result" where
  "buildExecConstraints env x sc =
     bindE (mapE (task_syncExecIxOnLRT env (sc_store sc) x) [0..<LRT_count env]) (\<lambda>ixs.
     let n = length (filter (\<lambda>i. i \<noteq> u32_max) ixs) in
     bindE (foldE (exec_constraint_step env x n) (sc, []) [0..<LRT_count env]) (\<lambda>(sc1, acc).
       if length acc = n then Inr (acc, sc1) else Inl Undefined_Behaviour))"

subsection \<open>The runners to notify\<close>

text \<open>A sink that is not mapped yet may end up anywhere: everybody is notified, and the search stops.\<close>

definition setFlagsFromSink :: "sched_env \<Rightarrow> task_store \<Rightarrow> nat \<Rightarrow> nat \<Rightarrow> nat option \<Rightarrow> bool list \<Rightarrow> (bool \<times> bool list) result" where
  "setFlagsFromSink env s taskIx mapped sink flags =
     (case sink of None \<Rightarrow> Inr (True, replicate (LRT_count env) True)
      | Some y \<Rightarrow>
          bindE (task_getState s y) (\<lambda>state.
          if state \<noteq> READY \<and> state \<noteq> SKIPPED then Inr (True, replicate (LRT_count env) True)
          else bindE (lrt_ix env s y) (\<lambda>m. bindE (get_at flags m) (\<lambda>f.
            if \<not> f \<and> m \<noteq> mapped
            then bindE (task_syncExecIxOnLRT env s y mapped) (\<lambda>i. Inr (False, flags[m := i = u32_max \<or> taskIx \<ge> i]))
            else Inr (False, flags)))))"

text \<open>\<open>nextTask(i, schedule)\<close>.\<close>

definition nextTask :: "sched_env \<Rightarrow> nat \<Rightarrow> nat \<Rightarrow> schedule \<Rightarrow> (nat option \<times> schedule) result" where
  "nextTask env x i sc =
     bindE (task_at (sc_store sc) x) (\<lambda>t. case tk_kind t of
       SRDAG_Task v \<Rightarrow> bindE (get_at (se_srdag env) v) (\<lambda>info. bindE (get_at (si_outputs info) i) (\<lambda>w.
         bindE (get_at (ts_vertexIx (sc_store sc)) w) (\<lambda>ix. schedule_task env ix sc)))
     | Sync_Task _ _ \<Rightarrow> Inr (tk_successor t, sc)
     | _ \<Rightarrow> Inl Undefined_Behaviour)"

definition successorCount :: "sched_env \<Rightarrow> task \<Rightarrow> nat result" where
  "successorCount env t =
     (case tk_kind t of SRDAG_Task v \<Rightarrow> bindE (get_at (se_srdag env) v) (\<lambda>info. Inr (length (si_outputs info)))
      | Sync_Task _ _ \<Rightarrow> Inr 1 | _ \<Rightarrow> Inl Undefined_Behaviour)"

fun flag_successors :: "sched_env \<Rightarrow> nat \<Rightarrow> nat \<Rightarrow> nat \<Rightarrow> nat list \<Rightarrow> bool list \<times> schedule \<Rightarrow> (bool list \<times> schedule) result" where
  "flag_successors env x taskIx mapped [] st = Inr st"
| "flag_successors env x taskIx mapped (i # is) (flags, sc) =
     bindE (nextTask env x i sc) (\<lambda>(sink, sc1).
     bindE (setFlagsFromSink env (sc_store sc1) taskIx mapped sink flags) (\<lambda>(stop, flags1).
       if stop then Inr (flags1, sc1) else flag_successors env x taskIx mapped is (flags1, sc1)))"

definition updateNotificationFlags :: "sched_env \<Rightarrow> nat \<Rightarrow> bool list \<times> schedule \<Rightarrow> (bool list \<times> schedule) result" where
  "updateNotificationFlags env x = (\<lambda>(flags, sc).
     bindE (task_getIx (sc_store sc) x) (\<lambda>taskIx. bindE (lrt_ix env (sc_store sc) x) (\<lambda>mapped.
     bindE (task_at (sc_store sc) x) (\<lambda>t. bindE (successorCount env t) (\<lambda>n.
       flag_successors env x taskIx mapped [0..<n] (flags, sc))))))"

definition some_flags :: "bool list \<Rightarrow> bool list option" where
  "some_flags flags = (if True \<in> set flags then Some flags else None)"

definition buildJobNotificationFlags :: "sched_env \<Rightarrow> nat \<Rightarrow> schedule \<Rightarrow> (bool list option \<times> schedule) result" where
  "buildJobNotificationFlags env x sc =
     bindE (updateNotificationFlags env x (replicate (LRT_count env) False, sc)) (\<lambda>(flags, sc1). Inr (some_flags flags, sc1))"

text \<open>The firings of the consumers of a PiSDF firing; the count of every output FIFO is the number of these firings.\<close>

fun flag_firings :: "sched_env \<Rightarrow> nat \<Rightarrow> nat \<Rightarrow> nat \<Rightarrow> vref \<Rightarrow> nat list \<Rightarrow> bool list \<times> schedule \<Rightarrow> (bool \<times> bool list \<times> schedule) result" where
  "flag_firings env taskIx mapped h v [] st = Inr (False, st)"
| "flag_firings env taskIx mapped h v (k # ks) (flags, sc) =
     bindE (get_at (ts_taskIx (sc_store sc) h (vref_ix v)) k) (\<lambda>ix. bindE (schedule_task env ix sc) (\<lambda>(sink, sc1).
     bindE (setFlagsFromSink env (sc_store sc1) taskIx mapped sink flags) (\<lambda>(stop, flags1).
       if stop then Inr (True, flags1, sc1) else flag_firings env taskIx mapped h v ks (flags1, sc1))))"

definition flag_dep :: "sched_env \<Rightarrow> nat \<Rightarrow> nat \<Rightarrow> bool list \<times> schedule \<Rightarrow> dep_info \<Rightarrow> (bool list \<times> schedule) result" where
  "flag_dep env taskIx mapped = (\<lambda>(flags, sc) d.
     if dep_firingEnd d < dep_firingStart d then Inr (flags, sc)
     else case dep_vertex d of
       None \<Rightarrow> Inr (replicate (LRT_count env) True, sc)
     | Some v \<Rightarrow> bindE (null_check (dep_handler d)) (\<lambda>h.
         bindE (flag_firings env taskIx mapped h v [dep_firingStart d..<Suc (dep_firingEnd d)] (flags, sc)) (\<lambda>(stop, st).
           if \<not> stop \<and> dep_firingEnd d = u32_max then Inl Diverges else Inr st)))"

definition flag_edge :: "sched_env \<Rightarrow> nat \<Rightarrow> nat \<Rightarrow> nat \<Rightarrow> nat \<Rightarrow> (bool list \<times> schedule) \<times> fifo option list \<Rightarrow> nat \<Rightarrow>
    ((bool list \<times> schedule) \<times> fifo option list) result" where
  "flag_edge env taskIx mapped h k = (\<lambda>(st, outs) e.
     bindE (deps_result (computeConsDependency (se_fuel env) (se_world env) h e k)) (\<lambda>(n, ds).
     bindE (foldE (flag_dep env taskIx mapped) st ds) (\<lambda>st1.
     bindE (edge_of (se_world env) h e) (\<lambda>ed.
     bindE (set_at outs (e_source_port ed) (Some (fifo_default\<lparr>ff_count := n\<rparr>))) (\<lambda>outs1. Inr (st1, outs1))))))"

definition pisdf_buildJobNotificationFlags :: "sched_env \<Rightarrow> nat \<Rightarrow> schedule \<times> fifo option list \<Rightarrow> (bool list option \<times> schedule \<times> fifo option list) result" where
  "pisdf_buildJobNotificationFlags env x = (\<lambda>(sc, outs).
     bindE (pisdf_task_of (sc_store sc) x) (\<lambda>(h, v, k).
     bindE (task_getIx (sc_store sc) x) (\<lambda>taskIx. bindE (lrt_ix env (sc_store sc) x) (\<lambda>mapped.
     bindE (out_edges (se_world env) h v) (\<lambda>es.
     bindE (foldE (flag_edge env taskIx mapped h k) ((replicate (LRT_count env) False, sc), outs) es) (\<lambda>((flags, sc1), outs1).
     bindE (Schedule.on_store (task_setOnFiring env k x) sc1) (\<lambda>sc2. Inr (some_flags flags, sc2, outs1))))))))"

subsection \<open>Posting a job\<close>

text \<open>The job message goes into the shared queue, its index to the runner of the local runtime, and the task is running.\<close>

definition post_job :: "launch_ctx \<Rightarrow> nat \<Rightarrow> job_message \<Rightarrow> schedule \<times> launcher \<Rightarrow> (schedule \<times> launcher) result" where
  "post_job cx x m = (\<lambda>(sc, la).
     bindE (lrt_ix (lx_env cx) (sc_store sc) x) (\<lambda>lrt.
     bindE (push_job (re_comm (la_rt la)) m) (\<lambda>(ix, c).
     bindE (rt_push (notification_new JOB_ADD (getGRTIx (se_archi (lx_env cx)) (se_platform (lx_env cx))) ix) lrt ((la_rt la)\<lparr>re_comm := c\<rparr>)) (\<lambda>e.
     bindE (Schedule.on_store (task_setState RUNNING x) sc) (\<lambda>sc1. Inr (sc1, la\<lparr>la_rt := e\<rparr>))))))"

definition cluster_ix_of :: "sched_env \<Rightarrow> task_store \<Rightarrow> nat \<Rightarrow> nat result" where
  "cluster_ix_of env s x =
     bindE (task_mappedLRT env s x) (\<lambda>l. Inr (cl_ix (cluster_at (se_archi env) (pe_cluster (pe_at (se_archi env) l)))))"

text \<open>\<open>getMemoryBus()->sendKernel()->ix()\<close>, or that of the receive kernel.\<close>

definition sync_kernel :: "sync_type \<Rightarrow> nat option \<Rightarrow> launcher \<Rightarrow> (nat \<times> launcher) result" where
  "sync_kernel type bus la =
     bindE (null_check bus) (\<lambda>b. bindE (get_at (la_buses la) b) (\<lambda>mb.
     bindE (if type = SEND then sendKernel mb (la_registry la) else receiveKernel mb (la_registry la)) (\<lambda>(k, mb1, reg).
     bindE (null_check k) (\<lambda>k. bindE (null_check reg) (\<lambda>r. bindE (get_at (reg_kernels r) k) (\<lambda>(_, ix).
       Inr (ix mod 2 ^ 32, la\<lparr>la_buses := (la_buses la)[b := mb1], la_registry := reg\<rparr>)))))))"

text \<open>The parameters are an array of 4: a send task writes at position 4 of it.\<close>

definition sync_params :: "sched_env \<Rightarrow> task_store \<Rightarrow> sync_type \<Rightarrow> nat \<Rightarrow> task \<Rightarrow> fifo \<Rightarrow> int list result" where
  "sync_params env s type x t f =
     (case type of
        SEND \<Rightarrow> bindE (cluster_ix_of env s x) (\<lambda>_. bindE (null_check (tk_successor t)) (\<lambda>y. bindE (cluster_ix_of env s y) (\<lambda>_.
          Inl Undefined_Behaviour)))
      | RECEIVE \<Rightarrow> bindE (null_check (tk_dependency t)) (\<lambda>y. bindE (cluster_ix_of env s y) (\<lambda>a. bindE (cluster_ix_of env s x) (\<lambda>b.
          Inr [of_u64 a, of_u64 b, int (ff_size f), of_u64 (ff_address f)]))))"

definition sync_fifos :: "sync_type \<Rightarrow> fifo \<Rightarrow> job_fifos" where
  "sync_fifos type f =
     (let g = f\<lparr>ff_count := 0, ff_attribute := RW_ONLY\<rparr> in
      setOutputFifo 0 (if type = RECEIVE then g\<lparr>ff_count := 1, ff_attribute := RW_OWN\<rparr> else g) (setInputFifo 0 g (job_fifos_new 1 1)))"

definition sendSyncTask :: "launch_ctx \<Rightarrow> nat \<Rightarrow> job_message \<Rightarrow> schedule \<times> launcher \<Rightarrow> (schedule \<times> launcher) result" where
  "sendSyncTask cx x m = (\<lambda>(sc, la).
     let env = lx_env cx in
     bindE (task_at (sc_store sc) x) (\<lambda>t. case tk_kind t of
       Sync_Task type bus \<Rightarrow>
         bindE (buildJobNotificationFlags env x sc) (\<lambda>(flags, sc1).
         bindE (buildExecConstraints env x sc1) (\<lambda>(cs, sc2).
         bindE (inputFifo True (jm_fifos m) (tk_depIx t)) (\<lambda>f.
         bindE (sync_kernel type bus la) (\<lambda>(k, la1).
         bindE (task_getIx (sc_store sc2) x) (\<lambda>ix. bindE (task_jobExecIx (sc_store sc2) x) (\<lambda>j.
         bindE (sync_params env (sc_store sc2) type x t f) (\<lambda>ps.
           post_job cx x \<lparr>jm_constraints = cs, jm_fifos = sync_fifos type f, jm_params = ps, jm_flags = flags, jm_kernelIx = k,
             jm_execIx = j, jm_taskIx = ix, jm_nParamsOut = 0\<rparr> (sc2, la1))))))))
     | _ \<Rightarrow> Inl Undefined_Behaviour))"

text \<open>The deferred communication tasks: \<open>deferedSyncTasks_[i - 1]\<close> is the send task of the receive task at \<open>i\<close>. They stay in the list.\<close>

definition send_defered :: "launch_ctx \<Rightarrow> job_message \<Rightarrow> schedule \<times> launcher \<Rightarrow> nat \<Rightarrow> (schedule \<times> launcher) result" where
  "send_defered cx m = (\<lambda>(sc, la) i.
     let (r, ix) = la_defered la ! i in
     if ix \<noteq> jm_taskIx m then Inr (sc, la)
     else if i = 0 then Inl Undefined_Behaviour
     else bindE (sendSyncTask cx (fst (la_defered la ! (i - 1))) m (sc, la)) (sendSyncTask cx r m))"

definition sendTask :: "launch_ctx \<Rightarrow> nat \<Rightarrow> job_message \<Rightarrow> schedule \<times> launcher \<Rightarrow> (schedule \<times> launcher) result" where
  "sendTask cx x m0 = (\<lambda>(sc, la).
     bindE (task_getIx (sc_store sc) x) (\<lambda>ix. bindE (task_jobExecIx (sc_store sc) x) (\<lambda>j.
     bindE (buildExecConstraints (lx_env cx) x sc) (\<lambda>(cs, sc1).
     let m = m0\<lparr>jm_taskIx := ix, jm_execIx := j, jm_constraints := cs\<rparr> in
     bindE (foldE (send_defered cx m) (sc1, la) [0..<length (la_defered la)]) (post_job cx x m)))))"

subsection \<open>Launching a task\<close>

text \<open>What a message holds before \<open>sendTask\<close> completes it.\<close>

definition message_new :: "job_fifos \<Rightarrow> int list \<Rightarrow> bool list option \<Rightarrow> nat \<Rightarrow> nat \<Rightarrow> job_message" where
  "message_new jf ps flags k n = \<lparr>jm_constraints = [], jm_fifos = jf, jm_params = ps, jm_flags = flags, jm_kernelIx = k mod 2 ^ 32,
     jm_execIx = u32_max, jm_taskIx = u32_max, jm_nParamsOut = n mod 2 ^ 32\<rparr>"

definition visit_srdag :: "launch_ctx \<Rightarrow> nat \<Rightarrow> nat \<Rightarrow> schedule \<times> launcher \<Rightarrow> (schedule \<times> launcher) result" where
  "visit_srdag cx x v = (\<lambda>(sc, la).
     let env = lx_env cx in
     bindE (get_at (se_srdag env) v) (\<lambda>info.
     bindE (buildJobNotificationFlags env x sc) (\<lambda>(flags, sc1).
     bindE (srdag_buildJobFifos (lx_srExtern cx) v (la_fifo la)) (\<lambda>(jf, a, G).
     bindE (sr_type G v) (\<lambda>type. bindE (buildVertexRuntimeInputParameters type (lx_srRates cx v)) (\<lambda>ps.
       sendTask cx x (message_new jf ps flags (kernelIx (si_rtinfo info)) (lx_srParamsOut cx v)) (sc1, la\<lparr>la_fifo := (a, G)\<rparr>)))))))"

definition visit_sync :: "nat \<Rightarrow> schedule \<times> launcher \<Rightarrow> (schedule \<times> launcher) result" where
  "visit_sync x = (\<lambda>(sc, la).
     bindE (task_at (sc_store sc) x) (\<lambda>t. bindE (null_check (tk_successor t)) (\<lambda>y. bindE (task_getIx (sc_store sc) y) (\<lambda>ix.
       Inr (sc, la\<lparr>la_defered := la_defered la @ [(x, ix)]\<rparr>)))))"

definition totalFifoCount :: "sched_env \<Rightarrow> pisdf_alloc \<Rightarrow> nat \<Rightarrow> nat \<Rightarrow> nat \<Rightarrow> nat result" where
  "totalFifoCount env pa h v k =
     bindE (in_edges (se_world env) h v) (\<lambda>es.
       foldE (\<lambda>n e. bindE (gf_getEdgeDepCount (se_world env) pa h v e k) (\<lambda>c. Inr (add32 n (add32 c (if c > 1 then 1 else 0))))) 0 es)"

definition visit_pisdf :: "launch_ctx \<Rightarrow> nat \<Rightarrow> nat \<Rightarrow> nat \<Rightarrow> nat \<Rightarrow> schedule \<times> launcher \<Rightarrow> (schedule \<times> launcher) result" where
  "visit_pisdf cx x h v k = (\<lambda>(sc, la).
     let env = lx_env cx; W = se_world env in
     bindE (totalFifoCount env (pf_graphs (la_pisdf la)) h v k) (\<lambda>n.
     bindE (out_edges W h v) (\<lambda>outs.
     let jf = job_fifos_new n (length outs) in
     bindE (pisdf_buildJobNotificationFlags env x (sc, jf_outputs jf)) (\<lambda>(flags, sc1, counted).
     bindE (pisdf_buildJobFifos (lx_extern cx) env (sc_store sc1) x (jf\<lparr>jf_outputs := counted\<rparr>) (la_pisdf la)) (\<lambda>(jf1, st).
     bindE (pisdf_buildVertexRuntimeInputParameters W h v (lx_info cx h v)) (\<lambda>ps.
       sendTask cx x (message_new jf1 ps flags (kernelIx (se_pisdf env h v)) (lx_paramsOut cx h v)) (sc1, la\<lparr>la_pisdf := st\<rparr>)))))))"

definition visit :: "launch_ctx \<Rightarrow> nat \<Rightarrow> schedule \<times> launcher \<Rightarrow> (schedule \<times> launcher) result" where
  "visit cx x = (\<lambda>(sc, la).
     bindE (task_at (sc_store sc) x) (\<lambda>t. bindE (task_slot t) (\<lambda>sl.
     if sl_state sl \<noteq> READY then Inr (sc, la)
     else case tk_kind t of
       SRDAG_Task v \<Rightarrow> visit_srdag cx x v (sc, la)
     | Sync_Task _ _ \<Rightarrow> visit_sync x (sc, la)
     | Uni_Task h v \<Rightarrow> visit_pisdf cx x h v (tk_firing t) (sc, la)
     | Vect_Task h v \<Rightarrow> visit_pisdf cx x h v (tk_firing t) (sc, la))))"

end
