(* ===== verification/LauncherProps.thy ===== *)
theory LauncherProps
  imports TaskLauncher RunnerSystem FifoProps
begin

text \<open>
  What the launcher promises on single-rate tasks: which runners a job notifies, which jobs it waits for, and that a launch posts the job
  to its runner and to nobody else.
\<close>

subsection \<open>The runners to notify\<close>

text \<open>The tasks of a single-rate schedule have one firing, so that reading the schedule does not change it.\<close>

definition plain_kind :: "task_kind \<Rightarrow> bool" where
  "plain_kind k = (case k of SRDAG_Task _ \<Rightarrow> True | Sync_Task _ _ \<Rightarrow> True | _ \<Rightarrow> False)"

definition plain_tasks :: "schedule \<Rightarrow> bool" where
  "plain_tasks sc = list_all (\<lambda>t. plain_kind (tk_kind t)) (ts_tasks (sc_store sc))"

definition scheduled :: "schedule \<Rightarrow> nat \<Rightarrow> nat option" where
  "scheduled sc q = (if q \<ge> length (sc_tasks sc) then None else Some (fst (sc_tasks sc ! q)))"

lemma plain_setOnFiring:
  assumes "plain_tasks sc" and "Schedule.on_store (task_setOnFiring env k x) sc = Inr sc'"
  shows "sc' = sc"
proof -
  from assms(2) obtain t s where t: "task_at (sc_store sc) x = Inr t" and s: "task_setOnFiring env k x (sc_store sc) = Inr s" "sc' = sc\<lparr>sc_store := s\<rparr>"
    by (auto simp: Schedule.on_store_def task_setOnFiring_def task_update_def)
  then have x: "x < length (ts_tasks (sc_store sc))" "t = ts_tasks (sc_store sc) ! x" by (auto simp: task_at_def get_at_def split: if_splits)
  with assms(1) have "plain_kind (tk_kind t)" by (auto simp: plain_tasks_def list_all_length)
  then have "s = task_put x t (sc_store sc)" using s(1) t
    by (auto simp: plain_kind_def task_setOnFiring_def task_update_def split: task_kind.splits)
  with x s(2) show ?thesis by (simp add: task_put_def)
qed

lemma plain_schedule_task:
  "plain_tasks sc \<Longrightarrow> schedule_task env q sc = Inr (r, sc') \<Longrightarrow> r = scheduled sc q \<and> sc' = sc"
  by (auto simp: schedule_task_def scheduled_def Let_def split: if_splits prod.splits dest!: plain_setOnFiring)

definition sink_unmapped :: "task_store \<Rightarrow> nat option \<Rightarrow> bool" where
  "sink_unmapped s sink = (case sink of None \<Rightarrow> True | Some y \<Rightarrow> task_getState s y \<notin> {Inr READY, Inr SKIPPED})"

text \<open>The sink runs for the runner \<open>m\<close>, not the one of the task, and the last job that it needs of the latter is not a later one.\<close>

definition sink_waits :: "sched_env \<Rightarrow> task_store \<Rightarrow> nat \<Rightarrow> nat \<Rightarrow> nat \<Rightarrow> nat option \<Rightarrow> bool" where
  "sink_waits env s taskIx mapped m sink =
     (case sink of None \<Rightarrow> False
      | Some y \<Rightarrow> lrt_ix env s y = Inr m \<and> m \<noteq> mapped \<and>
          (case task_syncExecIxOnLRT env s y mapped of Inl _ \<Rightarrow> False | Inr q \<Rightarrow> q = u32_max \<or> q \<le> taskIx))"

definition flags_after :: "nat \<Rightarrow> (nat \<Rightarrow> bool) \<Rightarrow> bool \<Rightarrow> bool list" where
  "flags_after n f everybody = (if everybody then replicate n True else map f [0..<n])"

lemma setFlagsFromSink_spec:
  assumes "setFlagsFromSink env s taskIx mapped sink flags = Inr (stop, flags')" and "length flags = LRT_count env"
  shows "stop = sink_unmapped s sink"
    and "flags' = flags_after (LRT_count env) (\<lambda>m. flags ! m \<or> sink_waits env s taskIx mapped m sink) (sink_unmapped s sink)"
proof -
  have "stop = sink_unmapped s sink \<and>
    flags' = flags_after (LRT_count env) (\<lambda>m. flags ! m \<or> sink_waits env s taskIx mapped m sink) (sink_unmapped s sink)"
  proof (cases sink)
    case None
    with assms show ?thesis by (auto simp: setFlagsFromSink_def sink_unmapped_def flags_after_def)
  next
    case (Some y)
    show ?thesis
    proof (cases "sink_unmapped s sink")
      case True
      with assms Some show ?thesis by (auto simp: setFlagsFromSink_def sink_unmapped_def flags_after_def split: if_splits)
    next
      case False
      with assms(1) Some obtain m where m: "lrt_ix env s y = Inr m" "m < length flags" and f:
        "(if \<not> flags ! m \<and> m \<noteq> mapped then bindE (task_syncExecIxOnLRT env s y mapped) (\<lambda>i. Inr (False, flags[m := i = u32_max \<or> taskIx \<ge> i]))
          else Inr (False, flags)) = Inr (stop, flags')"
        by (auto simp: setFlagsFromSink_def sink_unmapped_def get_at_def split: if_splits)
      have "length flags' = LRT_count env" using f assms(2) by (auto split: if_splits)
      moreover have "flags' ! i = (flags ! i \<or> sink_waits env s taskIx mapped i sink)" if "i < LRT_count env" for i
        using f m that assms(2) Some by (auto simp: sink_waits_def nth_list_update split: if_splits sum.splits)
      ultimately have "flags' = map (\<lambda>m. flags ! m \<or> sink_waits env s taskIx mapped m sink) [0..<LRT_count env]"
        by (auto intro: nth_equalityI)
      with f False show ?thesis by (auto simp: flags_after_def split: if_splits)
    qed
  qed
  then show "stop = sink_unmapped s sink"
    "flags' = flags_after (LRT_count env) (\<lambda>m. flags ! m \<or> sink_waits env s taskIx mapped m sink) (sink_unmapped s sink)" by blast+
qed

definition sink_of :: "sched_env \<Rightarrow> schedule \<Rightarrow> nat \<Rightarrow> nat \<Rightarrow> nat option" where
  "sink_of env sc v i = scheduled sc (ts_vertexIx (sc_store sc) ! (si_outputs (se_srdag env ! v) ! i))"

lemma nextTask_srdag:
  assumes "plain_tasks sc" and "task_at (sc_store sc) x = Inr t" and "tk_kind t = SRDAG_Task v" and "nextTask env x i sc = Inr (sink, sc')"
  shows "sink = sink_of env sc v i" and "sc' = sc"
  using assms plain_schedule_task [OF assms(1)]
  by (auto simp: nextTask_def sink_of_def get_at_def split: if_splits)

lemma flag_successors_spec:
  assumes "plain_tasks sc" and "task_at (sc_store sc) x = Inr t" and "tk_kind t = SRDAG_Task v"
  shows "flag_successors env x taskIx mapped is (flags, sc) = Inr (fs, sc') \<Longrightarrow> length flags = LRT_count env \<Longrightarrow>
    sc' = sc \<and> fs = flags_after (LRT_count env)
      (\<lambda>m. flags ! m \<or> (\<exists>i \<in> set is. sink_waits env (sc_store sc) taskIx mapped m (sink_of env sc v i)))
      (\<exists>i \<in> set is. sink_unmapped (sc_store sc) (sink_of env sc v i))"
proof (induction "is" arbitrary: flags)
  case Nil
  then show ?case by (auto simp: flags_after_def intro: nth_equalityI)
next
  case (Cons i "is")
  from Cons.prems(1) obtain sink sc1 stop flags1 where n: "nextTask env x i sc = Inr (sink, sc1)"
    and f: "setFlagsFromSink env (sc_store sc1) taskIx mapped sink flags = Inr (stop, flags1)"
    and r: "(if stop then Inr (flags1, sc1) else flag_successors env x taskIx mapped is (flags1, sc1)) = Inr (fs, sc')" by auto
  note nx = nextTask_srdag [OF assms n]
  note sp = setFlagsFromSink_spec [OF f [unfolded nx] Cons.prems(2)]
  show ?case
  proof (cases stop)
    case True
    with r sp nx show ?thesis by (auto simp: flags_after_def)
  next
    case False
    with sp have l: "length flags1 = LRT_count env" by (simp add: flags_after_def)
    from r False nx(2) have "flag_successors env x taskIx mapped is (flags1, sc) = Inr (fs, sc')" by simp
    from Cons.IH [OF this l] False sp show ?thesis by (auto simp: flags_after_def intro!: map_cong)
  qed
qed

lemma buildJobNotificationFlags_spec:
  assumes "plain_tasks sc" and "task_at (sc_store sc) x = Inr t" and "tk_kind t = SRDAG_Task v"
    and "task_getIx (sc_store sc) x = Inr taskIx" and "lrt_ix env (sc_store sc) x = Inr mapped"
    and "buildJobNotificationFlags env x sc = Inr (flags, sc')"
  shows "sc' = sc \<and> flags = some_flags (flags_after (LRT_count env)
      (\<lambda>m. \<exists>i < length (si_outputs (se_srdag env ! v)). sink_waits env (sc_store sc) taskIx mapped m (sink_of env sc v i))
      (\<exists>i < length (si_outputs (se_srdag env ! v)). sink_unmapped (sc_store sc) (sink_of env sc v i)))"
proof -
  from assms(3,6) assms(2,4,5) obtain fs where f: "flags = some_flags fs" and
    s: "flag_successors env x taskIx mapped [0..<length (si_outputs (se_srdag env ! v))] (replicate (LRT_count env) False, sc) = Inr (fs, sc')"
    by (auto simp: buildJobNotificationFlags_def updateNotificationFlags_def successorCount_def get_at_def split: if_splits)
  from flag_successors_spec [OF assms(1-3) s] f show ?thesis by (auto simp: flags_after_def intro!: arg_cong [of _ _ some_flags] map_cong)
qed

subsection \<open>The jobs to wait for\<close>

definition awaited :: "sched_env \<Rightarrow> schedule \<Rightarrow> nat \<Rightarrow> nat \<Rightarrow> sync_info option" where
  "awaited env sc x i =
     (case task_syncExecIxOnLRT env (sc_store sc) x i of Inl _ \<Rightarrow> None | Inr q \<Rightarrow>
       (case scheduled sc q of None \<Rightarrow> None | Some y \<Rightarrow>
         (case task_jobExecIx (sc_store sc) y of Inl _ \<Rightarrow> None | Inr j \<Rightarrow> Some \<lparr>sy_lrt = i, sy_job = j\<rparr>)))"

lemma constraint_steps:
  assumes "plain_tasks sc"
  shows "foldE (exec_constraint_step env x n) (sc, acc) is = Inr (sc', cs) \<Longrightarrow> length acc \<le> n \<Longrightarrow>
    sc' = sc \<and> cs = take n (acc @ List.map_filter (awaited env sc x) is)"
proof (induction "is" arbitrary: acc)
  case Nil
  then show ?case by (simp add: map_filter_simps)
next
  case (Cons i "is")
  show ?case
  proof (cases "length acc = n")
    case True
    with Cons.prems(1) have "foldE (exec_constraint_step env x n) (sc, acc) is = Inr (sc', cs)" by (simp add: exec_constraint_step_def)
    from Cons.IH [OF this] True show ?thesis by simp
  next
    case False
    with Cons.prems(1) obtain st q r sc1 where st: "task_syncExecIxOnLRT env (sc_store sc) x i = Inr q" "schedule_task env q sc = Inr (r, sc1)"
      "(case r of None \<Rightarrow> Inr (sc1, acc) | Some y \<Rightarrow> bindE (task_jobExecIx (sc_store sc1) y) (\<lambda>j. Inr (sc1, acc @ [\<lparr>sy_lrt = i, sy_job = j\<rparr>]))) = Inr st"
      "foldE (exec_constraint_step env x n) st is = Inr (sc', cs)" by (auto simp: exec_constraint_step_def)
    note p = plain_schedule_task [OF assms st(2)]
    show ?thesis
    proof (cases r)
      case None
      with st p have "foldE (exec_constraint_step env x n) (sc, acc) is = Inr (sc', cs)" by auto
      from Cons.IH [OF this Cons.prems(2)] None st(1) p show ?thesis by (simp add: map_filter_simps awaited_def)
    next
      case (Some y)
      from st(3) Some conjunct2 [OF p] obtain j where j: "task_jobExecIx (sc_store sc) y = Inr j" "st = (sc, acc @ [\<lparr>sy_lrt = i, sy_job = j\<rparr>])" by auto
      with st(4) have "foldE (exec_constraint_step env x n) (sc, acc @ [\<lparr>sy_lrt = i, sy_job = j\<rparr>]) is = Inr (sc', cs)" by simp
      from Cons.IH [OF this] False Cons.prems(2) Some st(1) p j show ?thesis by (simp add: map_filter_simps awaited_def)
    qed
  qed
qed

lemma map_filter_count:
  "(\<And>i. i \<in> set is \<Longrightarrow> f i \<noteq> None \<Longrightarrow> P i) \<Longrightarrow> length (List.map_filter f is) \<le> length (filter P is)"
  by (induction "is") (auto simp: map_filter_simps split: option.splits)

lemma filter_results:
  "mapE f xs = Inr ys \<Longrightarrow> length (filter (\<lambda>x. case f x of Inl _ \<Rightarrow> False | Inr y \<Rightarrow> P y) xs) = length (filter P ys)"
  by (induction xs arbitrary: ys) auto

lemma buildExecConstraints_spec:
  assumes "plain_tasks sc" and "length (sc_tasks sc) \<le> u32_max" and "buildExecConstraints env x sc = Inr (cs, sc')"
  shows "sc' = sc \<and> cs = List.map_filter (awaited env sc x) [0..<LRT_count env]"
proof -
  from assms(3) obtain ixs acc where ixs: "mapE (task_syncExecIxOnLRT env (sc_store sc) x) [0..<LRT_count env] = Inr ixs"
    and f: "foldE (exec_constraint_step env x (length (filter (\<lambda>i. i \<noteq> u32_max) ixs))) (sc, []) [0..<LRT_count env] = Inr (sc', cs)"
    by (auto simp: buildExecConstraints_def Let_def split: if_splits)
  let ?P = "\<lambda>i. case task_syncExecIxOnLRT env (sc_store sc) x i of Inl _ \<Rightarrow> False | Inr q \<Rightarrow> q \<noteq> u32_max"
  have "length (List.map_filter (awaited env sc x) [0..<LRT_count env]) \<le> length (filter ?P [0..<LRT_count env])"
    using assms(2) by (intro map_filter_count) (auto simp: awaited_def scheduled_def split: sum.splits option.splits if_splits)
  also have "\<dots> = length (filter (\<lambda>i. i \<noteq> u32_max) ixs)" by (rule filter_results [OF ixs])
  finally show ?thesis using constraint_steps [OF assms(1) f] by simp
qed

subsection \<open>Communication tasks\<close>

text \<open>Launching a send task writes behind the end of its array of parameters, so no task that receives data from another cluster can be
  launched after the communication was mapped.\<close>

lemma sendSyncTask_send:
  "task_at (sc_store sc) x = Inr t \<Longrightarrow> tk_kind t = Sync_Task SEND b \<Longrightarrow> \<exists>e. sendSyncTask cx x m (sc, la) = Inl e"
  by (cases "sendSyncTask cx x m (sc, la)") (auto simp: sendSyncTask_def sync_params_def Let_def)

lemma defered_send_fails:
  assumes "0 < i" and "i < length (la_defered la)" and "snd (la_defered la ! i) = jm_taskIx m"
    and "task_at (sc_store sc) (fst (la_defered la ! (i - 1))) = Inr t" and "tk_kind t = Sync_Task SEND b"
  shows "\<exists>e. send_defered cx m (sc, la) i = Inl e"
proof -
  from sendSyncTask_send [OF assms(4,5)] obtain e where "sendSyncTask cx (fst (la_defered la ! (i - 1))) m (sc, la) = Inl e" by blast
  with assms(1-3) show ?thesis by (auto simp: send_defered_def Let_def split: prod.splits)
qed

lemma foldE_same: "(\<And>i. i \<in> set is \<Longrightarrow> f s i = Inr s) \<Longrightarrow> foldE f s is = Inr s"
  by (induction "is") auto

lemma no_defered:
  assumes "\<forall>d \<in> set (la_defered la). snd d \<noteq> jm_taskIx m"
  shows "foldE (send_defered cx m) (sc, la) [0..<length (la_defered la)] = Inr (sc, la)"
proof (rule foldE_same)
  fix i assume "i \<in> set [0..<length (la_defered la)]"
  then have "la_defered la ! i \<in> set (la_defered la)" by simp
  with assms show "send_defered cx m (sc, la) i = Inr (sc, la)" by (auto simp: send_defered_def Let_def split: prod.splits)
qed

subsection \<open>Launching\<close>

lemma sendTask_posts:
  assumes "plain_tasks sc" and "length (sc_tasks sc) \<le> u32_max" and "task_getIx (sc_store sc) x = Inr ix"
    and "\<forall>d \<in> set (la_defered la). snd d \<noteq> ix" and "sendTask cx x m0 (sc, la) = Inr r"
  obtains j where "task_jobExecIx (sc_store sc) x = Inr j" and
    "post_job cx x (m0\<lparr>jm_taskIx := ix, jm_execIx := j,
      jm_constraints := List.map_filter (awaited (lx_env cx) sc x) [0..<LRT_count (lx_env cx)]\<rparr>) (sc, la) = Inr r"
proof -
  from assms(3,5) obtain j cs sc1 s where j: "task_jobExecIx (sc_store sc) x = Inr j" and
    c: "buildExecConstraints (lx_env cx) x sc = Inr (cs, sc1)" and
    f: "foldE (send_defered cx (m0\<lparr>jm_taskIx := ix, jm_execIx := j, jm_constraints := cs\<rparr>)) (sc1, la) [0..<length (la_defered la)] = Inr s"
      "post_job cx x (m0\<lparr>jm_taskIx := ix, jm_execIx := j, jm_constraints := cs\<rparr>) s = Inr r"
    by (auto simp: sendTask_def Let_def)
  from buildExecConstraints_spec [OF assms(1,2) c] have c': "sc1 = sc" "cs = List.map_filter (awaited (lx_env cx) sc x) [0..<LRT_count (lx_env cx)]"
    by simp_all
  with f(1) assms(4) no_defered [of la "m0\<lparr>jm_taskIx := ix, jm_execIx := j, jm_constraints := cs\<rparr>" cx sc] have "s = (sc, la)" by simp
  with f(2) c' j that show ?thesis by simp
qed

lemma awaited_member:
  "y \<in> set (List.map_filter (awaited env sc x) [0..<n]) \<longleftrightarrow> sy_lrt y < n \<and> awaited env sc x (sy_lrt y) = Some y"
proof -
  have a: "awaited env sc x i = Some z \<Longrightarrow> sy_lrt z = i" for i z by (auto simp: awaited_def split: sum.splits option.splits)
  have m: "set (List.map_filter f is) = {y. \<exists>i \<in> set is. f i = Some y}" for f :: "nat \<Rightarrow> sync_info option" and "is"
    by (induction "is") (auto simp: map_filter_simps split: option.splits)
  show ?thesis unfolding m mem_Collect_eq
  proof
    assume "\<exists>i \<in> set [0..<n]. awaited env sc x i = Some y"
    then obtain i where i: "i < n" "awaited env sc x i = Some y" by auto
    with a [OF i(2)] show "sy_lrt y < n \<and> awaited env sc x (sy_lrt y) = Some y" by simp
  next
    assume "sy_lrt y < n \<and> awaited env sc x (sy_lrt y) = Some y"
    then show "\<exists>i \<in> set [0..<n]. awaited env sc x i = Some y" by (intro bexI [of _ "sy_lrt y"]) simp_all
  qed
qed

lemma some_flags_at: "l < length fs \<Longrightarrow> (case some_flags fs of None \<Rightarrow> False | Some fs \<Rightarrow> fs ! l) \<longleftrightarrow> fs ! l"
  by (cases "True \<in> set fs") (auto simp: some_flags_def in_set_conv_nth)

lemma flagged_after:
  "l < n \<Longrightarrow> (case some_flags (flags_after n f e) of None \<Rightarrow> False | Some fs \<Rightarrow> fs ! l) \<longleftrightarrow> e \<or> f l"
  by (subst some_flags_at) (auto simp: flags_after_def)

lemma visit_srdag_posts:
  assumes "plain_tasks sc" and "length (sc_tasks sc) \<le> u32_max" and "task_at (sc_store sc) x = Inr t" and "tk_kind t = SRDAG_Task v"
    and "task_getIx (sc_store sc) x = Inr ix" and "lrt_ix (lx_env cx) (sc_store sc) x = Inr mapped"
    and "\<forall>d \<in> set (la_defered la). snd d \<noteq> ix" and "visit_srdag cx x v (sc, la) = Inr (sc', la')"
  obtains m j g where "task_jobExecIx (sc_store sc) x = Inr j" and "post_job cx x m (sc, la\<lparr>la_fifo := g\<rparr>) = Inr (sc', la')"
    and "jm_taskIx m = ix" and "jm_execIx m = j"
    and "jm_constraints m = List.map_filter (awaited (lx_env cx) sc x) [0..<LRT_count (lx_env cx)]"
    and "jm_flags m = some_flags (flags_after (LRT_count (lx_env cx))
      (\<lambda>l. \<exists>i < length (si_outputs (se_srdag (lx_env cx) ! v)). sink_waits (lx_env cx) (sc_store sc) ix mapped l (sink_of (lx_env cx) sc v i))
      (\<exists>i < length (si_outputs (se_srdag (lx_env cx) ! v)). sink_unmapped (sc_store sc) (sink_of (lx_env cx) sc v i)))"
proof -
  from assms(8) obtain flags sc1 jf a G k ps n where f: "buildJobNotificationFlags (lx_env cx) x sc = Inr (flags, sc1)"
    and s: "sendTask cx x (message_new jf ps flags k n) (sc1, la\<lparr>la_fifo := (a, G)\<rparr>) = Inr (sc', la')"
    unfolding visit_srdag_def by (auto simp: Let_def)
  note fl = buildJobNotificationFlags_spec [OF assms(1,3-6) f]
  from fl s have "sendTask cx x (message_new jf ps flags k n) (sc, la\<lparr>la_fifo := (a, G)\<rparr>) = Inr (sc', la')" by simp
  from sendTask_posts [OF assms(1,2,5) _ this] assms(7) obtain j where "task_jobExecIx (sc_store sc) x = Inr j"
    "post_job cx x ((message_new jf ps flags k n)\<lparr>jm_taskIx := ix, jm_execIx := j,
      jm_constraints := List.map_filter (awaited (lx_env cx) sc x) [0..<LRT_count (lx_env cx)]\<rparr>) (sc, la\<lparr>la_fifo := (a, G)\<rparr>) = Inr (sc', la')"
    by auto
  from that [OF this] fl show ?thesis by (simp add: message_new_def)
qed

text \<open>
  C5. Launching a single-rate task that is ready and for which no communication is pending posts one job to the runner it is mapped on, with
  one notification, and sets the task running. The job carries the indices of the task; it waits, on each runner, for the job of the task that
  the mapper synchronised it on; and it notifies everybody when a task that reads its data is not mapped yet, and otherwise exactly those runners,
  other than its own, of the tasks that read its data and whose last needed job there is not a later one.
\<close>

theorem launched_job:
  assumes "plain_tasks sc" and "length (sc_tasks sc) \<le> u32_max" and "task_at (sc_store sc) x = Inr t" and "tk_kind t = SRDAG_Task v"
    and "task_getState (sc_store sc) x = Inr READY"
    and "task_getIx (sc_store sc) x = Inr ix" and "lrt_ix (lx_env cx) (sc_store sc) x = Inr mapped"
    and "\<forall>d \<in> set (la_defered la). snd d \<noteq> ix" and "visit cx x (sc, la) = Inr (sc', la')"
  shows "\<exists>m slot c. task_jobExecIx (sc_store sc) x = Inr (jm_execIx m) \<and> jm_taskIx m = ix \<and>
    push_job (re_comm (la_rt la)) m = Inr (slot, c) \<and>
    rt_push (notification_new JOB_ADD (getGRTIx (se_archi (lx_env cx)) (se_platform (lx_env cx))) slot) mapped ((la_rt la)\<lparr>re_comm := c\<rparr>) = Inr (la_rt la') \<and>
    Schedule.on_store (task_setState RUNNING x) sc = Inr sc' \<and>
    (\<forall>y. y \<in> set (jm_constraints m) \<longleftrightarrow> sy_lrt y < LRT_count (lx_env cx) \<and> awaited (lx_env cx) sc x (sy_lrt y) = Some y) \<and>
    (\<forall>l < LRT_count (lx_env cx). flagged m l \<longleftrightarrow> (\<exists>i < length (si_outputs (se_srdag (lx_env cx) ! v)).
       sink_unmapped (sc_store sc) (sink_of (lx_env cx) sc v i) \<or>
       sink_waits (lx_env cx) (sc_store sc) ix mapped l (sink_of (lx_env cx) sc v i)))"
proof -
  from assms(3,4,5,9) have "visit_srdag cx x v (sc, la) = Inr (sc', la')" by (auto simp: visit_def task_getState_def)
  from visit_srdag_posts [OF assms(1-4,6-8) this] obtain m j g where m: "task_jobExecIx (sc_store sc) x = Inr j"
    "post_job cx x m (sc, la\<lparr>la_fifo := g\<rparr>) = Inr (sc', la')" "jm_taskIx m = ix" "jm_execIx m = j"
    "jm_constraints m = List.map_filter (awaited (lx_env cx) sc x) [0..<LRT_count (lx_env cx)]"
    "jm_flags m = some_flags (flags_after (LRT_count (lx_env cx))
      (\<lambda>l. \<exists>i < length (si_outputs (se_srdag (lx_env cx) ! v)). sink_waits (lx_env cx) (sc_store sc) ix mapped l (sink_of (lx_env cx) sc v i))
      (\<exists>i < length (si_outputs (se_srdag (lx_env cx) ! v)). sink_unmapped (sc_store sc) (sink_of (lx_env cx) sc v i)))" .
  from m(2) assms(7) obtain slot c e where p: "push_job (re_comm (la_rt la)) m = Inr (slot, c)"
    "rt_push (notification_new JOB_ADD (getGRTIx (se_archi (lx_env cx)) (se_platform (lx_env cx))) slot) mapped ((la_rt la)\<lparr>re_comm := c\<rparr>) = Inr e" "la_rt la' = e"
    "Schedule.on_store (task_setState RUNNING x) sc = Inr sc'"
    by (auto simp: post_job_def)
  have "flagged m l \<longleftrightarrow> (\<exists>i < length (si_outputs (se_srdag (lx_env cx) ! v)).
       sink_unmapped (sc_store sc) (sink_of (lx_env cx) sc v i) \<or>
       sink_waits (lx_env cx) (sc_store sc) ix mapped l (sink_of (lx_env cx) sc v i))" if "l < LRT_count (lx_env cx)" for l
    unfolding flagged_def m(6) flagged_after [OF that] by blast
  then show ?thesis using m p awaited_member by (intro exI [of _ m] exI [of _ slot] exI [of _ c]) simp
qed

subsection \<open>A launch\<close>

text \<open>Two local runtimes; vertex 0 is mapped on the first, vertex 1, which reads what it writes, on the second.\<close>

definition launch_pe :: "nat \<Rightarrow> pe" where
  "launch_pe i = \<lparr>hardwareType = 0, hardwareIx = i, affinity = 0, virtualIx = i, pe_name = [], spiderPEType = LRT, pe_cluster = 0,
     attachedLRT = i, pe_enabled = True\<rparr>"

definition launch_platform :: platform where
  "launch_platform = \<lparr>clusterArray = [Some 0], peArray = [Some 0, Some 1], interClusterMemoryBusArray = [], preComputedClusterIx = [0],
     lrtVector = [0, 1], externBuffersVector = [], clusterCount = 1, peCount = 2, hwTypeCount = 1, grt = Some 0\<rparr>"

definition launch_env :: sched_env where
  "launch_env = \<lparr>se_archi = \<lparr>ar_pes = [launch_pe 0, launch_pe 1],
       ar_clusters = [\<lparr>cl_array = [Some 0, Some 1], cl_memory = 0, LRTCount = 2, PECount = 2, cl_ix = 0\<rparr>],
       ar_buses = [], ar_inters = [], ar_platform = Some launch_platform\<rparr>,
     se_platform = launch_platform,
     se_srdag = [\<lparr>si_inputs = [], si_outputs = [1], si_rtinfo = \<lparr>peMappableArray = [True, True], clusterMappableArray = [True],
         timingArray = [Inr 5], kernelIx = 0\<rparr>\<rparr>,
       \<lparr>si_inputs = [(0, 4)], si_outputs = [], si_rtinfo = \<lparr>peMappableArray = [True, True], clusterMappableArray = [True],
         timingArray = [Inr 5], kernelIx = 1\<rparr>\<rparr>],
     se_world = \<lparr>w_graphs = [], w_firings = []\<rparr>, se_fuel = 0,
     se_pisdf = (\<lambda>_ _. \<lparr>peMappableArray = [], clusterMappableArray = [], timingArray = [], kernelIx = 0\<rparr>)\<rparr>"

definition launch_task :: "nat \<Rightarrow> nat \<Rightarrow> nat list \<Rightarrow> task" where
  "launch_task v pe sync = task_new (SRDAG_Task v)
     [\<lparr>sl_startTime = 0, sl_endTime = 5, sl_mappedPE = pe, sl_jobExecIx = 0, sl_state = READY\<rparr>] sync"

definition launch_schedule :: schedule where
  "launch_schedule = \<lparr>sc_store = \<lparr>ts_tasks = [launch_task 0 0 [u32_max, u32_max], launch_task 1 1 [0, u32_max]], ts_vertexIx = [0, 1],
       ts_taskIx = (\<lambda>_ _. [])\<rparr>,
     sc_tasks = [(0, 0), (1, 0)], sc_stats = stats_new launch_platform\<rparr>"

definition launch_graph :: srdag where
  "launch_graph = \<lparr>sg_store = \<lparr>st_vertices = [sample_vertex NORMAL [] [Some 0] 0, sample_vertex NORMAL [Some 0] [] 1],
       st_edges = [sample_edge 0 0 1 0 0],
       st_graphs = [\<lparr>gr_vertices = [0, 1], gr_edges = [0], gr_configs = [], gr_subgraphs = [], gr_params = [],
          gr_inputs = [], gr_outputs = [], gr_vertex = 0, gr_subIx = 0\<rparr>], st_params = [], st_delays = []\<rparr>,
     sg_vs = replicate 2 \<lparr>sv_reference = Application 0, sv_type = NORMAL, sv_instance = 0, sv_executable = True, sv_inParams = [],
        sv_refParams = [], sv_outParams = [], sv_taskIx = 0\<rparr>,
     sg_es = [\<lparr>se_rate = 4, se_address = 0, se_offset = 0\<rparr>], sg_specials = []\<rparr>"

definition launch_start :: launcher where
  "launch_start = \<lparr>la_rt = env_new 2 [] (\<lambda>_. 0) [], la_fifo = (fifo_alloc_new, launch_graph),
     la_pisdf = \<lparr>pf_alloc = fifo_alloc_new, pf_dynamic = [], pf_graphs = \<lparr>pa_task = (\<lambda>_ _. None), pa_edge = (\<lambda>_ _. None), pa_deps = (\<lambda>_ _. None)\<rparr>\<rparr>,
     la_buses = [], la_registry = None, la_defered = []\<rparr>"

definition launch_cx :: launch_ctx where
  "launch_cx = \<lparr>lx_env = launch_env,
     lx_srRates = (\<lambda>_. \<lparr>tr_in = [], tr_out = [4], tr_params = [7], tr_delay = None, tr_extern = 0\<rparr>), lx_srParamsOut = (\<lambda>_. 0),
     lx_info = (\<lambda>_ _. \<lparr>pv_params = [], pv_delay = None, pv_extern = 0\<rparr>), lx_paramsOut = (\<lambda>_ _. 0), lx_srExtern = (\<lambda>_. 0), lx_extern = (\<lambda>_ _. 0)\<rparr>"

lemmas launch_sample = launch_pe_def launch_platform_def launch_env_def launch_task_def launch_schedule_def launch_graph_def launch_start_def
  launch_cx_def task_new_def env_new_def

lemma launch_plain: "plain_tasks launch_schedule" by (simp add: plain_tasks_def plain_kind_def launch_sample)

lemma launch_task_sel: "tk_kind (launch_task v pe sync) = SRDAG_Task v" "tk_sync (launch_task v pe sync) = sync"
  "tk_slots (launch_task v pe sync) = [\<lparr>sl_startTime = 0, sl_endTime = 5, sl_mappedPE = pe, sl_jobExecIx = 0, sl_state = READY\<rparr>]"
  by (simp_all add: launch_task_def task_new_def)

lemma launch_store: "ts_tasks (sc_store launch_schedule) = [launch_task 0 0 [u32_max, u32_max], launch_task 1 1 [0, u32_max]]"
  "ts_vertexIx (sc_store launch_schedule) = [0, 1]" "sc_tasks launch_schedule = [(0, 0), (1, 0)]"
  by (simp_all add: launch_schedule_def)

lemma launch_env_sel: "LRT_count launch_env = 2" "peArray (se_platform launch_env) = [Some 0, Some 1]"
  "pe_at (se_archi launch_env) 0 = launch_pe 0" "pe_at (se_archi launch_env) (Suc 0) = launch_pe 1"
  "virtualIx (launch_pe i) = i" "attachedLRT (launch_pe i) = i"
  by (simp_all add: launch_env_def launch_platform_def launch_pe_def)

lemmas launch_evals = launch_task_sel launch_store launch_env_sel task_at_def task_slot_def slot_ix_def

lemma launch_reads: "task_getIx (sc_store launch_schedule) 0 = Inr 0" "lrt_ix launch_env (sc_store launch_schedule) 0 = Inr 0"
  "lrt_ix launch_env (sc_store launch_schedule) (Suc 0) = Inr 1" "task_getState (sc_store launch_schedule) 0 = Inr READY"
  "task_getState (sc_store launch_schedule) (Suc 0) = Inr READY" "task_jobExecIx (sc_store launch_schedule) 0 = Inr 0"
  "task_syncExecIxOnLRT launch_env (sc_store launch_schedule) (Suc 0) 0 = Inr 0"
  "i < 2 \<Longrightarrow> task_syncExecIxOnLRT launch_env (sc_store launch_schedule) 0 i = Inr u32_max"
  by (auto simp: launch_evals task_getIx_def task_getState_def task_jobExecIx_def task_syncExecIxOnLRT_def lrt_ix_def task_mappedLRT_def
    task_mappedPe_def sync_pos_def processingElement_def less_Suc_eq numeral_2_eq_2)

lemma launch_put: "task_at (sc_store launch_schedule) x = Inr t \<Longrightarrow> task_put x t (sc_store launch_schedule) = sc_store launch_schedule"
  by (auto simp: task_at_def get_at_def task_put_def split: if_splits)

lemma launch_schedule_task: "schedule_task launch_env (Suc 0) launch_schedule = Inr (Some (Suc 0), launch_schedule)"
  using launch_put [of "Suc 0" "launch_task 1 1 [0, u32_max]"]
  by (simp add: schedule_task_def launch_evals Schedule.on_store_def task_setOnFiring_def task_update_def)

lemma launch_srdag: "get_at (se_srdag launch_env) 0 = Inr \<lparr>si_inputs = [], si_outputs = [1],
    si_rtinfo = \<lparr>peMappableArray = [True, True], clusterMappableArray = [True], timingArray = [Inr 5], kernelIx = 0\<rparr>\<rparr>"
  by (simp add: launch_env_def)

lemma launch_flags: "buildJobNotificationFlags launch_env 0 launch_schedule = Inr (Some [False, True], launch_schedule)"
  by (simp add: buildJobNotificationFlags_def updateNotificationFlags_def launch_reads launch_evals successorCount_def launch_srdag
    nextTask_def launch_schedule_task setFlagsFromSink_def some_flags_def numeral_2_eq_2)

lemma launch_constraints: "buildExecConstraints launch_env 0 launch_schedule = Inr ([], launch_schedule)"
proof -
  have "[0..<2] = [0, Suc 0]" by (simp add: upt_rec)
  then show ?thesis by (simp add: buildExecConstraints_def launch_evals launch_reads exec_constraint_step_def)
qed

lemma launch_fifos:
  obtains jf a G where "srdag_buildJobFifos (\<lambda>_. 0) 0 (fifo_alloc_new, launch_graph) = Inr (jf, a, G)" "sr_type G 0 = Inr NORMAL"
proof -
  let ?r = "bindE (srdag_buildJobFifos (\<lambda>_. 0) 0 (fifo_alloc_new, launch_graph)) (\<lambda>(jf, a, G). if sr_type G 0 = Inr NORMAL then Inr (jf, a, G) else Inl Diverges)"
  have "\<not> isl ?r"
    by (simp add: launch_graph_def fifo_alloc_new_def srdag_buildJobFifos_def sr_edge_count_def vertex_at_def
      sr_port_edges_def edge_port_def edge_at_def job_fifos_new_def srdag_buildInputFifo_def srdag_buildOutputFifo_def edge_fifo_def
      sr_edge_data_def sr_end_def sr_type_def srdag_fifo_allocate_def fifo_default_step_def fifo_fork_step_def fa_allocate_def sr_place_def
      sr_setAddress_def sr_setOffset_def sr_update_edge_def first_edge_def sr_edge_at_def cong: bindE_weak foldE_weak)
  then obtain jf a G where "?r = Inr (jf, a, G)" by (cases ?r) auto
  then show thesis using that by (auto split: if_splits)
qed

lemma launch_runs: obtains sc' la' where "visit launch_cx 0 (launch_schedule, launch_start) = Inr (sc', la')"
proof -
  from launch_fifos obtain jf a G where f: "srdag_buildJobFifos (\<lambda>_. 0) 0 (fifo_alloc_new, launch_graph) = Inr (jf, a, G)" "sr_type G 0 = Inr NORMAL" .
  have c: "lx_env launch_cx = launch_env" "lx_srExtern launch_cx = (\<lambda>_. 0)" "la_fifo launch_start = (fifo_alloc_new, launch_graph)"
    "la_defered launch_start = []" "lx_srRates launch_cx 0 = \<lparr>tr_in = [], tr_out = [4], tr_params = [7], tr_delay = None, tr_extern = 0\<rparr>"
    "la_rt launch_start = env_new 2 [] (\<lambda>_. 0) []" by (simp_all add: launch_cx_def launch_start_def)
  have p: "\<exists>r. push_job (re_comm (env_new 2 [] h [])) m = Inr r \<and> cm_notifications (snd r) = replicate 2 (Some [])" for m h
    by (simp add: push_job_def env_new_def iq_push_def getFreeIndex_def iq_empty_def)
  have "\<exists>r. post_job launch_cx 0 m (launch_schedule, launch_start\<lparr>la_fifo := g\<rparr>) = Inr r" for m g
    using p [of "\<lambda>_. 0" m] by (auto simp: post_job_def c launch_reads rt_push_def push_notification_def notification_queue_def
      Schedule.on_store_def task_setState_def task_update_def launch_evals task_set_slot_def numeral_2_eq_2)
  then have "\<exists>r. visit launch_cx 0 (launch_schedule, launch_start) = Inr r"
    by (simp add: visit_def launch_evals visit_srdag_def c launch_srdag launch_flags f buildVertexRuntimeInputParameters_def sendTask_def
      launch_reads launch_constraints)
  with that show thesis by auto
qed

theorem launched_job_witness:
  "\<exists>sc' la' m slot c. visit launch_cx 0 (launch_schedule, launch_start) = Inr (sc', la') \<and>
     push_job (re_comm (la_rt launch_start)) m = Inr (slot, c) \<and> flagged m 1 \<and> \<not> flagged m 0 \<and> jm_execIx m = 0"
proof -
  obtain sc' la' where v: "visit launch_cx 0 (launch_schedule, launch_start) = Inr (sc', la')" by (rule launch_runs)
  have c: "lx_env launch_cx = launch_env" "la_defered launch_start = []" by (simp_all add: launch_cx_def launch_start_def)
  have s: "sink_of launch_env launch_schedule 0 0 = Some 1" by (simp add: sink_of_def launch_env_def scheduled_def launch_store)
  have o1: "length (si_outputs (se_srdag launch_env ! 0)) = 1" by (simp add: launch_env_def)
  have "\<exists>m slot c. push_job (re_comm (la_rt launch_start)) m = Inr (slot, c) \<and> jm_execIx m = 0 \<and>
    (\<forall>l < 2. flagged m l \<longleftrightarrow> sink_unmapped (sc_store launch_schedule) (Some 1) \<or> sink_waits launch_env (sc_store launch_schedule) 0 0 l (Some 1))"
    using launched_job [OF launch_plain _ _ _ _ _ _ _ v, of "launch_task 0 0 [u32_max, u32_max]" 0 0 0]
    by (simp add: c launch_evals launch_reads s o1) blast
  then obtain m slot c where m: "push_job (re_comm (la_rt launch_start)) m = Inr (slot, c)" "jm_execIx m = 0"
    "\<forall>l < 2. flagged m l \<longleftrightarrow> sink_unmapped (sc_store launch_schedule) (Some 1) \<or> sink_waits launch_env (sc_store launch_schedule) 0 0 l (Some 1)"
    by blast
  have "flagged m 1" "\<not> flagged m 0" using m(3) by (simp_all add: sink_unmapped_def sink_waits_def launch_reads)
  with m(1,2) v show ?thesis by blast
qed

end
