(* ===== verification/GraphHandler.thy ===== *)
theory GraphHandler
  imports SRJob GraphAlloc
begin

text \<open>
  \<open>GraphHandler\<close> and \<open>GraphFiring\<close>: the firings of a graph with their parameters, and their resolution: the repetition vector and the rates
  on the parameters of the firing, the tasks and addresses of the vertices, and the handlers of the subgraphs. Handlers and firings are
  indices into lists of objects; a handler that is replaced stays in its list, its memory is released in the code. \<open>world_of\<close> is the
  \<open>world\<close> that the dependencies are computed in. An expression keeps its last value: \<open>step\<close> is the expression after an evaluation.
\<close>

record fire =
  fr_parent :: nat
  fr_params :: "nat list"
  fr_brv :: "nat list"
  fr_rates :: "(int \<times> int) list"
  fr_firing :: nat
  fr_dynamicCount :: nat       \<comment> \<open>\<open>dynamicParamCount_\<close>\<close>
  fr_resolvedCount :: nat      \<comment> \<open>\<open>paramResolvedCount_\<close>\<close>
  fr_resolved :: bool
  fr_subs :: "nat option list"  \<comment> \<open>\<open>subgraphHandlers_\<close>\<close>

record handler =
  hd_base :: "nat option"
  hd_graph :: nat
  hd_count :: nat
  hd_static :: bool
  hd_firings :: "nat list"

text \<open>\<open>fi_rvs\<close>: the repetition values stored in the vertices of each graph.\<close>

record 'e fires =
  fi_params :: "'e params"
  fi_rvs :: "nat list list"
  fi_handlers :: "handler list"
  fi_fires :: "fire list"
  fi_store :: task_store
  fi_alloc :: pisdf_alloc

text \<open>What does not change: the graphs, the expressions, the platform (of \<open>sched_env\<close>, whose world is replaced).\<close>

record 'e fire_ctx =
  fx_graphs :: "'e sr_graph list"
  fx_expr :: "'e expressions"
  fx_step :: "'e \<Rightarrow> (string \<times> int result) list \<Rightarrow> 'e"
  fx_env :: sched_env

subsection \<open>The world of the firings\<close>

definition sub_index :: "nat list \<Rightarrow> nat \<Rightarrow> nat option" where
  "sub_index vs v = (case filter (\<lambda>i. vs ! i = v) [0..<length vs] of [] \<Rightarrow> None | i # _ \<Rightarrow> Some i)"

definition sub_firing :: "'e fire_ctx \<Rightarrow> 'e fires \<Rightarrow> nat \<Rightarrow> fire \<Rightarrow> nat \<Rightarrow> nat \<Rightarrow> nat option" where
  "sub_firing cx st g f v k =
     (case sub_index (rg_subgraphs (fx_graphs cx ! g)) v of None \<Rightarrow> None
      | Some i \<Rightarrow> (case (if i < length (fr_subs f) then fr_subs f ! i else None) of None \<Rightarrow> None
          | Some hn \<Rightarrow> (let fs = hd_firings (fi_handlers st ! hn) in if k < length fs then Some (fs ! k) else None)))"

definition world_firing :: "'e fire_ctx \<Rightarrow> 'e fires \<Rightarrow> fire \<Rightarrow> graph_firing" where
  "world_firing cx st f =
     (let hn = fi_handlers st ! fr_parent f in
      \<lparr>gf_graph = hd_graph hn, gf_srcRates = List.map fst (fr_rates f), gf_snkRates = List.map snd (fr_rates f), gf_brv = fr_brv f,
       gf_firing = fr_firing f, gf_base = (case hd_base hn of None \<Rightarrow> length (fi_fires st) | Some b \<Rightarrow> b), gf_resolved = fr_resolved f,
       gf_subs = sub_firing cx st (hd_graph hn) f\<rparr>)"

definition world_of :: "'e fire_ctx \<Rightarrow> 'e fires \<Rightarrow> world" where
  "world_of cx st = \<lparr>w_graphs = List.map dep_graph.truncate (fx_graphs cx), w_firings = List.map (world_firing cx st) (fi_fires st)\<rparr>"

definition env_at :: "'e fire_ctx \<Rightarrow> 'e fires \<Rightarrow> sched_env" where
  "env_at cx st = (fx_env cx)\<lparr>se_world := world_of cx st\<rparr>"

definition fire_at :: "'e fires \<Rightarrow> nat \<Rightarrow> fire result" where "fire_at st f = get_at (fi_fires st) f"
definition handler_at :: "'e fires \<Rightarrow> nat \<Rightarrow> handler result" where "handler_at st hn = get_at (fi_handlers st) hn"

definition fire_update :: "nat \<Rightarrow> (fire \<Rightarrow> fire) \<Rightarrow> 'e fires \<Rightarrow> 'e fires" where
  "fire_update f u st = st\<lparr>fi_fires := (fi_fires st)[f := u (fi_fires st ! f)]\<rparr>"

text \<open>\<open>parent_\<close> and \<open>parent_->graph()\<close> of a firing.\<close>

definition parent_of :: "'e fires \<Rightarrow> nat \<Rightarrow> handler result" where
  "parent_of st f = bindE (fire_at st f) (\<lambda>x. handler_at st (fr_parent x))"

definition fire_graph :: "'e fire_ctx \<Rightarrow> 'e fires \<Rightarrow> nat \<Rightarrow> 'e sr_graph result" where
  "fire_graph cx st f = bindE (parent_of st f) (\<lambda>hn. get_at (fx_graphs cx) (hd_graph hn))"

subsection \<open>The parameters of a firing\<close>

text \<open>The parameter of a firing above that an inherited parameter stands for: the search climbs while it finds an inherited one. Every base
  is an older firing, so that their number is enough fuel.\<close>

fun inherited_from :: "nat \<Rightarrow> 'e fires \<Rightarrow> nat option \<Rightarrow> nat \<Rightarrow> nat result" where
  "inherited_from 0 st base a = Inl Diverges"
| "inherited_from (Suc n) st base a =
     bindE (null_check base) (\<lambda>b. bindE (param_parent (fi_params st) a) (\<lambda>parent. case parent of None \<Rightarrow> Inl Spider_Exception
       | Some q \<Rightarrow> bindE (get_at (fi_params st) q) (\<lambda>qp. bindE (fire_at st b) (\<lambda>fb. bindE (get_at (fr_params fb) (pa_ix qp)) (\<lambda>c.
           bindE (get_at (fi_params st) c) (\<lambda>cp.
           if pa_type cp = INHERITED then bindE (parent_of st b) (\<lambda>hn. inherited_from n st (hd_base hn) c) else Inr c))))))"

definition fire_copyParameter :: "'e fires \<Rightarrow> nat option \<Rightarrow> nat \<Rightarrow> ('e fires \<times> nat) result" where
  "fire_copyParameter st base a =
     bindE (get_at (fi_params st) a) (\<lambda>p.
     if pa_type p = DYNAMIC \<or> pa_type p = DYNAMIC_DEPENDANT then
       bindE (param_copy (fi_params st) a) (\<lambda>(h, c). Inr (st\<lparr>fi_params := h\<rparr>, c))
     else if pa_type p = INHERITED then
       bindE (inherited_from (Suc (length (fi_fires st))) st base a) (\<lambda>q.
       bindE (param_new_inherited (fi_params st) (pa_name p) (Some q)) (\<lambda>(h, c).
       bindE (param_setIx h c (pa_ix p)) (\<lambda>h1. Inr (st\<lparr>fi_params := h1\<rparr>, c))))
     else Inr (st, a))"

text \<open>\<open>resolveDynamicDependentParams\<close>: every dependent parameter is evaluated, which its expression remembers.\<close>

definition resolve_param :: "'e fire_ctx \<Rightarrow> nat list \<Rightarrow> 'e params \<Rightarrow> nat \<Rightarrow> 'e params result" where
  "resolve_param cx ps h a =
     bindE (get_at h a) (\<lambda>p. if pa_type p \<noteq> DYNAMIC_DEPENDANT then Inr h
     else bindE (param_value_with (fx_expr cx) h ps a) (\<lambda>_.
       Inr (case pa_internal p of Expr e \<Rightarrow> h[a := p\<lparr>pa_internal := Expr (fx_step cx e (param_table (fx_expr cx) h ps))\<rparr>] | _ \<Rightarrow> h)))"

definition resolveDynamicDependentParams :: "'e fire_ctx \<Rightarrow> nat \<Rightarrow> 'e fires \<Rightarrow> 'e fires result" where
  "resolveDynamicDependentParams cx f st =
     bindE (fire_at st f) (\<lambda>x. bindE (foldE (resolve_param cx (fr_params x)) (fi_params st) (fr_params x)) (\<lambda>h. Inr (st\<lparr>fi_params := h\<rparr>)))"

subsection \<open>Construction\<close>

definition firing_new :: "'e fire_ctx \<Rightarrow> nat \<Rightarrow> nat list \<Rightarrow> nat \<Rightarrow> 'e fires \<Rightarrow> ('e fires \<times> nat) result" where
  "firing_new cx hn params k st =
     bindE (handler_at st hn) (\<lambda>h. bindE (get_at (fx_graphs cx) (hd_graph h)) (\<lambda>g.
     bindE (foldE (\<lambda>(st, ps, n) a. bindE (get_at (fi_params st) a) (\<lambda>p. bindE (fire_copyParameter st (hd_base h) a) (\<lambda>(st1, c).
         Inr (st1, ps @ [c], n + (if pa_type p = DYNAMIC then 1 else 0))))) (st, [], 0) params) (\<lambda>(st1, ps, n).
     let f = length (fi_fires st1);
         x = \<lparr>fr_parent = hn, fr_params = ps, fr_brv = replicate (length (g_vertices g)) u32_max, fr_rates = replicate (length (g_edges g)) (0, 0),
              fr_firing = k, fr_dynamicCount = n mod 2 ^ 32, fr_resolvedCount = 0, fr_resolved = False,
              fr_subs = replicate (length (rg_subgraphs g)) None\<rparr>;
         pa = graph_alloc_new f (fi_alloc st1) in
     Inr (st1\<lparr>fi_fires := fi_fires st1 @ [x], fi_alloc := pa\<lparr>pa_deps := (pa_deps pa)(f := (\<lambda>_. None))\<rparr>\<rparr>, f))))"

text \<open>A call of \<open>resolveBRV\<close> is the argument \<open>res\<close> of the functions that make it.\<close>

definition resolveFirings_with :: "(nat \<Rightarrow> 'e fires \<Rightarrow> 'e fires result) \<Rightarrow> nat \<Rightarrow> 'e fires \<Rightarrow> 'e fires result" where
  "resolveFirings_with res hn st =
     bindE (handler_at st hn) (\<lambda>h.
     if hd_count h \<noteq> 0 \<and> hd_static h then bindE (get_at (hd_firings h) 0) (\<lambda>f. res f st)
     else foldE (\<lambda>st f. res f st) st (hd_firings h))"

text \<open>The graph that contains the graph of a handler is that of the firing the handler is made for.\<close>

definition upper_configs :: "'e fire_ctx \<Rightarrow> 'e fires \<Rightarrow> nat option \<Rightarrow> nat result" where
  "upper_configs cx st base =
     (case base of None \<Rightarrow> Inr 0 | Some b \<Rightarrow> bindE (fire_graph cx st b) (\<lambda>g. Inr (length (rg_configs g))))"

definition handler_new_with ::
  "(nat \<Rightarrow> 'e fires \<Rightarrow> 'e fires result) \<Rightarrow> 'e fire_ctx \<Rightarrow> nat \<Rightarrow> nat list \<Rightarrow> nat \<Rightarrow> nat option \<Rightarrow> 'e fires \<Rightarrow> ('e fires \<times> nat) result" where
  "handler_new_with res cx graph params rv base st =
     bindE (upper_configs cx st base) (\<lambda>n.
     let hn = length (fi_handlers st);
         st1 = st\<lparr>fi_handlers := fi_handlers st @ [\<lparr>hd_base = base, hd_graph = graph, hd_count = rv, hd_static = (n = 0), hd_firings = []\<rparr>]\<rparr> in
     bindE (foldE (\<lambda>st k. bindE (firing_new cx hn params k st) (\<lambda>(st', f).
         Inr (st'\<lparr>fi_handlers := (fi_handlers st')[hn := (fi_handlers st' ! hn)\<lparr>hd_firings := hd_firings (fi_handlers st' ! hn) @ [f]\<rparr>]\<rparr>)))
       st1 [0..<rv]) (\<lambda>st2.
     bindE (if n = 0 then resolveFirings_with res hn st2 else Inr st2) (\<lambda>st3. Inr (st3, hn))))"

subsection \<open>Resolution\<close>

definition on_alloc :: "(task_store \<times> pisdf_alloc \<Rightarrow> (task_store \<times> pisdf_alloc) result) \<Rightarrow> 'e fires \<Rightarrow> 'e fires result" where
  "on_alloc u st = bindE (u (fi_store st, fi_alloc st)) (\<lambda>(s, pa). Inr (st\<lparr>fi_store := s, fi_alloc := pa\<rparr>))"

text \<open>One firing gets new tasks and counts for a vertex, or has them reset.\<close>

definition renew_vertex :: "'e fire_ctx \<Rightarrow> nat \<Rightarrow> nat \<Rightarrow> nat \<Rightarrow> 'e fires \<Rightarrow> nat \<Rightarrow> 'e fires result" where
  "renew_vertex cx v rv n st f =
     bindE (on_alloc (ga_initialize (env_at cx st) f v rv) st) (\<lambda>st1. let pa = fi_alloc st1 in
       Inr (st1\<lparr>fi_alloc := pa\<lparr>pa_deps := (pa_deps pa)(f := (pa_deps pa f)(v := Some (replicate n 0)))\<rparr>\<rparr>))"

definition clear_deps :: "nat \<Rightarrow> nat \<Rightarrow> nat \<Rightarrow> pisdf_alloc \<Rightarrow> pisdf_alloc result" where
  "clear_deps f v n pa =
     (if n = 0 then Inr pa
      else bindE (null_check (pa_deps pa f v)) (\<lambda>xs. if length xs < n then Inl Undefined_Behaviour
        else Inr (pa\<lparr>pa_deps := (pa_deps pa)(f := (pa_deps pa f)(v := Some (replicate n 0 @ drop n xs)))\<rparr>)))"

definition reset_vertex :: "'e fire_ctx \<Rightarrow> nat \<Rightarrow> nat \<Rightarrow> nat \<Rightarrow> 'e fires \<Rightarrow> nat \<Rightarrow> 'e fires result" where
  "reset_vertex cx v rv n st f =
     bindE (clear_deps f v n (fi_alloc st)) (\<lambda>pa. on_alloc (ga_reset_vertex (env_at cx st) f v rv) (st\<lparr>fi_alloc := pa\<rparr>))"

text \<open>The other firings of a static handler follow the first one.\<close>

definition followers :: "handler \<Rightarrow> nat list" where
  "followers h = (if hd_static h then drop 1 (hd_firings h) else [])"

definition updateFromRV :: "'e fire_ctx \<Rightarrow> nat \<Rightarrow> nat \<Rightarrow> nat \<Rightarrow> 'e fires \<Rightarrow> 'e fires result" where
  "updateFromRV cx f v rv st =
     bindE (fire_at st f) (\<lambda>x. bindE (parent_of st f) (\<lambda>h. bindE (fire_graph cx st f) (\<lambda>g. bindE (get_at (g_vertices g) v) (\<lambda>vx.
     bindE (get_at (fr_brv x) v) (\<lambda>old.
     let n = mul32 rv (length (v_in vx)) in
     if old \<noteq> rv then
       foldE (renew_vertex cx v rv n) (fire_update f (\<lambda>x. x\<lparr>fr_brv := (fr_brv x)[v := rv]\<rparr>) st) (f # followers h)
     else foldE (reset_vertex cx v rv n) st (f # followers h))))))"

definition createOrUpdate_with :: "(nat \<Rightarrow> 'e fires \<Rightarrow> 'e fires result) \<Rightarrow> 'e fire_ctx \<Rightarrow> nat \<Rightarrow> 'e fires \<Rightarrow> 'e fires result" where
  "createOrUpdate_with res cx f st =
     bindE (fire_graph cx st f) (\<lambda>g.
     foldE (\<lambda>st i.
       bindE (fire_at st f) (\<lambda>x. bindE (get_at (rg_subgraphs g) i) (\<lambda>v. bindE (get_at (fr_brv x) v) (\<lambda>rv. bindE (get_at (fr_subs x) i) (\<lambda>cur.
       bindE (case cur of None \<Rightarrow> Inr False | Some hn \<Rightarrow> bindE (handler_at st hn) (\<lambda>h. Inr (hd_count h = rv))) (\<lambda>keep.
       if keep then resolveFirings_with res (the cur) st
       else bindE (get_at (g_subgraph g) v) (\<lambda>sub. bindE (get_at (fx_graphs cx) sub) (\<lambda>sg.
         bindE (handler_new_with res cx sub (rg_params sg) rv (Some f) st) (\<lambda>(st1, hn).
           Inr (fire_update f (\<lambda>x. x\<lparr>fr_subs := (fr_subs x)[i := Some hn]\<rparr>) st1))))))))))
       st [0..<length (rg_subgraphs g)])"

text \<open>A follower gets the repetition vector and the rates of the first firing, and its own parameters and subgraphs.\<close>

definition follow_with :: "(nat \<Rightarrow> 'e fires \<Rightarrow> 'e fires result) \<Rightarrow> 'e fire_ctx \<Rightarrow> nat \<Rightarrow> 'e fires \<Rightarrow> nat \<Rightarrow> 'e fires result" where
  "follow_with res cx f st k =
     bindE (fire_at st f) (\<lambda>x. bindE (fire_at st k) (\<lambda>_.
     bindE (resolveDynamicDependentParams cx k (fire_update k (\<lambda>y. y\<lparr>fr_brv := fr_brv x, fr_rates := fr_rates x\<rparr>) st)) (\<lambda>st1.
     bindE (createOrUpdate_with res cx k st1) (\<lambda>st2. Inr (fire_update k (\<lambda>y. y\<lparr>fr_resolved := True\<rparr>) st2)))))"

definition resolveBRV_with :: "(nat \<Rightarrow> 'e fires \<Rightarrow> 'e fires result) \<Rightarrow> 'e fire_ctx \<Rightarrow> nat \<Rightarrow> 'e fires \<Rightarrow> 'e fires result" where
  "resolveBRV_with res cx f st =
     bindE (fire_at st f) (\<lambda>x. bindE (parent_of st f) (\<lambda>h.
     if fr_resolved x \<or> (hd_static h \<and> fr_firing x \<noteq> 0) then Inr st
     else
       bindE (fire_graph cx st f) (\<lambda>g.
       bindE (resolveDynamicDependentParams cx f st) (\<lambda>st1.
       bindE (edge_rates (fx_expr cx) g (fi_params st1) (fr_params x)) (\<lambda>rates.
       bindE (get_at (fi_rvs st1) (hd_graph h)) (\<lambda>rv0. bindE (brv_compute (pi_graph.truncate g) rates rv0) (\<lambda>rv.
       bindE (foldE (\<lambda>st v. bindE (get_at rv v) (\<lambda>n. updateFromRV cx f v n st)) (st1\<lparr>fi_rvs := (fi_rvs st1)[hd_graph h := rv]\<rparr>)
         [0..<length (g_vertices g)]) (\<lambda>st2.
       bindE (createOrUpdate_with res cx f st2) (\<lambda>st3.
       foldE (follow_with res cx f) (fire_update f (\<lambda>y. y\<lparr>fr_rates := rates, fr_resolved := True\<rparr>) st3) (followers h))))))))))"

text \<open>The fuel is the depth of the hierarchy below the firing, and one.\<close>

fun resolveBRV :: "nat \<Rightarrow> 'e fire_ctx \<Rightarrow> nat \<Rightarrow> 'e fires \<Rightarrow> 'e fires result" where
  "resolveBRV 0 cx f st = Inl Diverges"
| "resolveBRV (Suc n) cx f st = resolveBRV_with (resolveBRV n cx) cx f st"

definition resolveFirings :: "nat \<Rightarrow> 'e fire_ctx \<Rightarrow> nat \<Rightarrow> 'e fires \<Rightarrow> 'e fires result" where
  "resolveFirings n cx = resolveFirings_with (resolveBRV n cx)"

definition handler_new :: "nat \<Rightarrow> 'e fire_ctx \<Rightarrow> nat \<Rightarrow> nat list \<Rightarrow> nat \<Rightarrow> nat option \<Rightarrow> 'e fires \<Rightarrow> ('e fires \<times> nat) result" where
  "handler_new n cx = handler_new_with (resolveBRV n cx) cx"

subsection \<open>Values received at run time, and the next iteration\<close>

definition setParamValue :: "nat \<Rightarrow> 'e fire_ctx \<Rightarrow> nat \<Rightarrow> nat \<Rightarrow> int \<Rightarrow> 'e fires \<Rightarrow> 'e fires result" where
  "setParamValue n cx f ix v st =
     bindE (fire_at st f) (\<lambda>x. bindE (Prelude.at (fr_params x) ix) (\<lambda>a. bindE (param_setValue (fi_params st) a v) (\<lambda>h.
     let st1 = fire_update f (\<lambda>y. y\<lparr>fr_resolvedCount := add32 (fr_resolvedCount y) 1\<rparr>) (st\<lparr>fi_params := h\<rparr>) in
     if add32 (fr_resolvedCount x) 1 \<noteq> fr_dynamicCount x then Inr st1
     else bindE (resolveDynamicDependentParams cx f st1) (\<lambda>st2.
       foldE (\<lambda>st s. bindE (null_check s) (\<lambda>hn. resolveFirings n cx hn st)) st2 (fr_subs x)))))"

definition clear_firing_with :: "(nat \<Rightarrow> 'e fires \<Rightarrow> 'e fires result) \<Rightarrow> 'e fire_ctx \<Rightarrow> nat \<Rightarrow> 'e fires \<Rightarrow> 'e fires result" where
  "clear_firing_with clr cx f st =
     bindE (fire_at st f) (\<lambda>x. bindE (parent_of st f) (\<lambda>h.
     bindE (on_alloc (ga_reset (env_at cx st) f (fr_brv x)) st) (\<lambda>st1.
     bindE (foldE (\<lambda>st s. case s of None \<Rightarrow> Inr st | Some hn \<Rightarrow> clr hn st) st1 (fr_subs x)) (\<lambda>st2.
       Inr (fire_update f (\<lambda>y. y\<lparr>fr_resolvedCount := 0, fr_resolved := hd_static h\<rparr>) st2)))))"

fun handler_clear :: "nat \<Rightarrow> 'e fire_ctx \<Rightarrow> nat \<Rightarrow> 'e fires \<Rightarrow> 'e fires result" where
  "handler_clear 0 cx hn st = Inl Diverges"
| "handler_clear (Suc n) cx hn st =
     bindE (handler_at st hn) (\<lambda>h. foldE (\<lambda>st f. clear_firing_with (handler_clear n cx) cx f st) st (hd_firings h))"

end
