(* ===== verification/SRSchedulers.thy ===== *)
theory SRSchedulers
  imports FifoAlloc MapperProps
begin

text \<open>
  The schedulers of the single-rate graph, \<open>scheduling/scheduler/srdag-based\<close>: both append the tasks of the vertices that can run to the
  schedule, after those they read from. \<open>scheduleTaskIx()\<close> of a vertex is in \<open>ts_vertexIx\<close> of the task store, \<open>SIZE_MAX\<close> when it has none.
\<close>

record sr_ctx =
  sx_env :: sched_env
  sx_graph :: srdag
  sx_task :: "nat \<Rightarrow> nat"   \<comment> \<open>\<open>scheduleTask()\<close> of a vertex\<close>

definition sr_source :: "srdag \<Rightarrow> nat \<Rightarrow> nat option result" where
  "sr_source G e = bindE (edge_at (sg_store G) e) (\<lambda>x. Inr (ed_src x))"

definition sr_executable :: "srdag \<Rightarrow> nat \<Rightarrow> bool result" where
  "sr_executable G v = bindE (sr_at G v) (\<lambda>x. Inr (sv_executable x))"

definition vertex_ix :: "schedule \<Rightarrow> nat \<Rightarrow> nat result" where
  "vertex_ix sc v = get_at (ts_vertexIx (sc_store sc)) v"

definition set_vertex_ix :: "nat \<Rightarrow> nat \<Rightarrow> schedule \<Rightarrow> schedule result" where
  "set_vertex_ix v i sc =
     bindE (set_at (ts_vertexIx (sc_store sc)) v i) (\<lambda>xs. Inr (sc\<lparr>sc_store := (sc_store sc)\<lparr>ts_vertexIx := xs\<rparr>\<rparr>))"

text \<open>\<open>Scheduler::addTask\<close>.\<close>

definition sr_addTask :: "sr_ctx \<Rightarrow> nat \<Rightarrow> schedule \<Rightarrow> schedule result" where
  "sr_addTask cx v = addTask (sx_env cx) (Some (sx_task cx v)) 0"

subsection \<open>The greedy scheduler\<close>

text \<open>The inputs of a vertex, from left to right: one without a source that can run ends the search, the others are all evaluated.\<close>

fun greedy_inputs :: "(nat \<Rightarrow> schedule \<Rightarrow> (bool \<times> schedule) result) \<Rightarrow> srdag \<Rightarrow> bool \<times> schedule \<Rightarrow> nat list \<Rightarrow> (bool \<times> schedule) result" where
  "greedy_inputs eval G (ok, sc) [] = Inr (ok, sc)"
| "greedy_inputs eval G (ok, sc) (e # es) =
     bindE (sr_edge_data G e) (\<lambda>d.
     if se_rate d = 0 then greedy_inputs eval G (ok, sc) es
     else bindE (sr_source G e) (\<lambda>src. case src of None \<Rightarrow> Inr (False, sc)
       | Some w \<Rightarrow> bindE (sr_executable G w) (\<lambda>x. if \<not> x then Inr (False, sc)
           else bindE (eval w sc) (\<lambda>(b, sc1). greedy_inputs eval G (ok \<and> b, sc1) es))))"

text \<open>The recursion follows the edges backwards; on an acyclic graph the number of vertices, and one, is enough fuel.\<close>

fun greedy_evaluate :: "nat \<Rightarrow> sr_ctx \<Rightarrow> nat \<Rightarrow> schedule \<Rightarrow> (bool \<times> schedule) result" where
  "greedy_evaluate 0 cx v sc = Inl Diverges"
| "greedy_evaluate (Suc n) cx v sc =
     bindE (vertex_ix sc v) (\<lambda>ix.
     if ix \<noteq> size_max then Inr (True, sc)
     else bindE (sr_port_edges Sink (sx_graph cx) v) (\<lambda>es.
       bindE (greedy_inputs (greedy_evaluate n cx) (sx_graph cx) (True, sc) es) (\<lambda>(ok, sc1).
         if ok then bindE (sr_addTask cx v sc1) (\<lambda>sc2. Inr (True, sc2)) else Inr (False, sc1))))"

definition greedy_schedule :: "nat \<Rightarrow> sr_ctx \<Rightarrow> schedule \<Rightarrow> schedule result" where
  "greedy_schedule n cx sc =
     foldE (\<lambda>sc v. bindE (sr_executable (sx_graph cx) v) (\<lambda>x.
       if x then bindE (greedy_evaluate n cx v sc) (\<lambda>(_, sc1). Inr sc1) else Inr sc)) sc (sr_vertices (sx_graph cx))"

subsection \<open>The list scheduler\<close>

type_synonym list_task = "nat \<times> int"   \<comment> \<open>vertex and level\<close>

definition NON_SCHEDULABLE_LEVEL :: int where "NON_SCHEDULABLE_LEVEL = 314159265"

definition resetUnScheduledTasks :: "schedule \<Rightarrow> list_task list \<Rightarrow> schedule result" where
  "resetUnScheduledTasks sc ts = foldE (\<lambda>sc k. set_vertex_ix (fst (ts ! k)) k sc) sc [0..<length ts]"

definition createListTask :: "srdag \<Rightarrow> schedule \<times> list_task list \<Rightarrow> nat \<Rightarrow> (schedule \<times> list_task list) result" where
  "createListTask G = (\<lambda>(sc, ts) v.
     bindE (vertex_ix sc v) (\<lambda>ix. if ix \<noteq> size_max then Inr (sc, ts)
     else bindE (sr_executable G v) (\<lambda>x. bindE (set_vertex_ix v (length ts) sc) (\<lambda>sc1.
       Inr (sc1, ts @ [(v, if x then -1 else NON_SCHEDULABLE_LEVEL)])))))"

text \<open>All that reads the data of a vertex that cannot run is taken out; every call marks a task that was not marked.\<close>

fun recursiveSetNonSchedulable :: "nat \<Rightarrow> srdag \<Rightarrow> schedule \<Rightarrow> nat \<Rightarrow> list_task list \<Rightarrow> list_task list result" where
  "recursiveSetNonSchedulable 0 G sc v ts = Inl Diverges"
| "recursiveSetNonSchedulable (Suc n) G sc v ts =
     bindE (sr_port_edges Source G v) (\<lambda>es.
     foldE (\<lambda>ts e. bindE (sr_edge_data G e) (\<lambda>d. if se_rate d = 0 then Inr ts
       else bindE (sr_end Sink G e) (\<lambda>w. bindE (vertex_ix sc w) (\<lambda>ix. bindE (get_at ts ix) (\<lambda>(u, level).
         if level = NON_SCHEDULABLE_LEVEL then Inr ts
         else recursiveSetNonSchedulable n G sc u (ts[ix := (u, NON_SCHEDULABLE_LEVEL)])))))) ts es)"

definition i32_cast :: "int \<Rightarrow> int" where
  "i32_cast x = (let k = x mod 2 ^ 32 in if k < 2 ^ 31 then k else k - 2 ^ 32)"

text \<open>The shortest time of a vertex on the clusters that its constraints allow; \<open>INT64_MAX\<close> without any.\<close>

definition min_on_cluster :: "archi \<Rightarrow> int result rtinfo \<Rightarrow> int \<Rightarrow> nat option \<Rightarrow> int result" where
  "min_on_cluster a info m c =
     bindE (isClusterMappable a info c) (\<lambda>ok. case c of Some x \<Rightarrow>
       if \<not> ok then Inr m
       else foldE (\<lambda>m pe. bindE (timingOnPE id a info pe) (\<lambda>t. if t = 0 then Inl Spider_Exception else Inr (min m t))) m (cl_peArray (cluster_at a x))
       | None \<Rightarrow> Inr m)"

definition minExecutionTime :: "sched_env \<Rightarrow> int result rtinfo \<Rightarrow> int result" where
  "minExecutionTime env info = foldE (min_on_cluster (se_archi env) info) (2 ^ 63 - 1) (clusterArray (se_platform env))"

text \<open>\<open>level\<close> is the recursive call.\<close>

definition level_input :: "(nat \<Rightarrow> list_task list \<Rightarrow> (int \<times> list_task list) result) \<Rightarrow> sr_ctx \<Rightarrow> schedule \<Rightarrow> int \<times> list_task list \<Rightarrow> nat \<Rightarrow>
    (int \<times> list_task list) result" where
  "level_input rec cx sc = (\<lambda>(level, ts) e.
     bindE (sr_source (sx_graph cx) e) (\<lambda>src. case src of None \<Rightarrow> Inr (level, ts)
     | Some w \<Rightarrow> bindE (sr_executable (sx_graph cx) w) (\<lambda>x. if \<not> x then Inr (level, ts)
       else bindE (get_at (se_srdag (sx_env cx)) w) (\<lambda>info. bindE (minExecutionTime (sx_env cx) (si_rtinfo info)) (\<lambda>time.
         bindE (vertex_ix sc w) (\<lambda>ix.
         if ix < length ts \<and> fst (ts ! ix) = w
         then bindE (rec ix ts) (\<lambda>(sourceLevel, ts1).
           Inr (if sourceLevel \<noteq> NON_SCHEDULABLE_LEVEL then max level (sourceLevel + i32_cast time) else level, ts1))
         else Inr (level, ts)))))))"

fun computeScheduleLevel :: "nat \<Rightarrow> sr_ctx \<Rightarrow> schedule \<Rightarrow> nat \<Rightarrow> list_task list \<Rightarrow> (int \<times> list_task list) result" where
  "computeScheduleLevel 0 cx sc k ts = Inl Diverges"
| "computeScheduleLevel (Suc n) cx sc k ts =
     bindE (get_at ts k) (\<lambda>(v, level).
     if level = NON_SCHEDULABLE_LEVEL then
       bindE (recursiveSetNonSchedulable (Suc (length ts)) (sx_graph cx) sc v ts) (\<lambda>ts1. Inr (snd (ts1 ! k), ts1))
     else if level < 0 then
       bindE (sr_port_edges Sink (sx_graph cx) v) (\<lambda>es.
       bindE (foldE (level_input (computeScheduleLevel n cx sc) cx sc) (0, ts) es) (\<lambda>(l, ts1). Inr (l, ts1[k := (v, l)])))
     else Inr (level, ts))"

text \<open>The comparison of \<open>sortVertices\<close>.\<close>

definition list_before :: "srdag \<Rightarrow> list_task \<Rightarrow> list_task \<Rightarrow> bool" where
  "list_before G = (\<lambda>(a, la) (b, lb).
     if la \<noteq> lb then la < lb
     else let x = sg_vs G ! a; y = sg_vs G ! b; tx = vx_type (st_vertices (sg_store G) ! a); ty = vx_type (st_vertices (sg_store G) ! b) in
       if sv_reference y = sv_reference x then sv_instance x < sv_instance y
       else tx \<noteq> ty \<and> (tx = INIT \<or> ty = END_VERTEX))"

text \<open>The tasks that cannot run are at the end, those of vertices that are not executable are removed by a swap with the last one. The test
  of the loop reads the level before it compares with the end. What is written behind the end of the vector is lost.\<close>

fun countNonSchedulableTasks :: "srdag \<Rightarrow> nat \<Rightarrow> schedule \<times> list_task list \<Rightarrow> (nat \<times> schedule \<times> list_task list) result" where
  "countNonSchedulableTasks G 0 s = Inl Undefined_Behaviour"
| "countNonSchedulableTasks G (Suc i) (sc, ts) =
     bindE (get_at ts i) (\<lambda>(v, level).
     if level \<noteq> NON_SCHEDULABLE_LEVEL then Inr (length ts - Suc i, sc, ts)
     else bindE (sr_executable G v) (\<lambda>x.
       bindE (if x then Inr (sc, ts)
              else bindE (set_vertex_ix v size_max sc) (\<lambda>sc1. Inr (sc1, butlast (ts[i := last ts])))) (\<lambda>(sc2, ts2).
       countNonSchedulableTasks G i (sc2, if i < length ts2 then ts2[i := (fst (ts2 ! i), -1)] else ts2))))"

text \<open>The tasks with their levels.\<close>

definition list_levels :: "nat \<Rightarrow> sr_ctx \<Rightarrow> schedule \<times> list_task list \<Rightarrow> (schedule \<times> list_task list) result" where
  "list_levels n cx = (\<lambda>(sc, ts).
     bindE (resetUnScheduledTasks sc ts) (\<lambda>sc1.
     bindE (foldE (createListTask (sx_graph cx)) (sc1, ts) (sr_vertices (sx_graph cx))) (\<lambda>(sc2, ts2).
     bindE (foldE (\<lambda>ts k. bindE (computeScheduleLevel n cx sc2 k ts) (\<lambda>(_, ts'). Inr ts')) ts2 [0..<length ts2]) (\<lambda>ts3. Inr (sc2, ts3)))))"

text \<open>\<open>srt\<close> is \<open>std::sort\<close>. The tasks that are left, which are at the end, are moved to the front, then the vector is cut: it keeps them
  in order.\<close>

definition list_schedule :: "((list_task \<Rightarrow> list_task \<Rightarrow> bool) \<Rightarrow> list_task list \<Rightarrow> list_task list) \<Rightarrow> nat \<Rightarrow> sr_ctx \<Rightarrow> schedule \<times> list_task list \<Rightarrow>
    (schedule \<times> list_task list) result" where
  "list_schedule srt n cx s =
     bindE (list_levels n cx s) (\<lambda>(sc2, ts3).
     let ts4 = srt (list_before (sx_graph cx)) ts3 in
     bindE (countNonSchedulableTasks (sx_graph cx) (length ts4) (sc2, ts4)) (\<lambda>(count, sc3, ts5).
     let m = length ts5 - count in
     bindE (foldE (\<lambda>sc t. sr_addTask cx (fst t) sc) sc3 (take m ts5)) (\<lambda>sc4. Inr (sc4, drop m ts5))))"

end
