(* ===== verification/GreedyProps.thy ===== *)
theory GreedyProps
  imports SRSchedulers LauncherProps
begin

text \<open>
  The greedy scheduler: on an acyclic graph it appends every vertex that can run, once, after all that it reads from.
\<close>

subsection \<open>The graph\<close>

abbreviation sr_exec :: "srdag \<Rightarrow> nat \<Rightarrow> bool" where "sr_exec G v \<equiv> sv_executable (sg_vs G ! v)"

definition in_edges_of :: "srdag \<Rightarrow> nat \<Rightarrow> nat list" where
  "in_edges_of G v = (case sr_port_edges Sink G v of Inl _ \<Rightarrow> [] | Inr es \<Rightarrow> es)"

definition source_of :: "srdag \<Rightarrow> nat \<Rightarrow> nat" where
  "source_of G e = (case sr_source G e of Inr (Some w) \<Rightarrow> w | _ \<Rightarrow> 0)"

text \<open>All edges at the ports of the vertices can be read.\<close>

definition edge_readable :: "srdag \<Rightarrow> nat \<Rightarrow> bool" where
  "edge_readable G e \<longleftrightarrow> e < length (sg_es G) \<and> sr_source G e = Inr (Some (source_of G e)) \<and> source_of G e \<in> set (sr_vertices G)"

definition readable :: "srdag \<Rightarrow> bool" where
  "readable G \<longleftrightarrow> (\<forall>v \<in> set (sr_vertices G). v < length (sg_vs G) \<and> sr_port_edges Sink G v = Inr (in_edges_of G v) \<and>
     (\<forall>e \<in> set (in_edges_of G v). edge_readable G e))"

text \<open>\<open>v\<close> reads data of \<open>w\<close>.\<close>

definition reads :: "srdag \<Rightarrow> nat \<Rightarrow> nat \<Rightarrow> bool" where
  "reads G v w \<longleftrightarrow> (\<exists>e \<in> set (in_edges_of G v). se_rate (sg_es G ! e) \<noteq> 0 \<and> source_of G e = w)"

definition ranked :: "srdag \<Rightarrow> (nat \<Rightarrow> nat) \<Rightarrow> bool" where
  "ranked G r \<longleftrightarrow> (\<forall>v \<in> set (sr_vertices G). \<forall>w. reads G v w \<longrightarrow> r w < r v)"

text \<open>A vertex can run when it is has_ix, or when all that it reads from is executable and can run.\<close>

inductive can_run :: "srdag \<Rightarrow> (nat \<Rightarrow> bool) \<Rightarrow> nat \<Rightarrow> bool" for G P where
  can_placed: "P v \<Longrightarrow> can_run G P v"
| can_after: "(\<And>w. reads G v w \<Longrightarrow> sr_exec G w \<and> can_run G P w) \<Longrightarrow> can_run G P v"

inductive_simps can_run_iff: "can_run G P v"

lemma reads_vertex: "readable G \<Longrightarrow> v \<in> set (sr_vertices G) \<Longrightarrow> reads G v w \<Longrightarrow> w \<in> set (sr_vertices G)"
  by (auto simp: readable_def reads_def edge_readable_def)

subsection \<open>The schedule\<close>

definition has_ix :: "schedule \<Rightarrow> nat \<Rightarrow> bool" where
  "has_ix sc v \<longleftrightarrow> ts_vertexIx (sc_store sc) ! v \<noteq> size_max"

definition sr_tasks_ok :: "sr_ctx \<Rightarrow> schedule \<Rightarrow> bool" where
  "sr_tasks_ok cx sc \<longleftrightarrow> (\<forall>v \<in> set (sr_vertices (sx_graph cx)). v < length (ts_vertexIx (sc_store sc)) \<and>
     sx_task cx v < length (ts_tasks (sc_store sc)) \<and> tk_kind (ts_tasks (sc_store sc) ! sx_task cx v) = SRDAG_Task v)"

definition with_task :: "sr_ctx \<Rightarrow> schedule \<Rightarrow> nat \<Rightarrow> schedule" where
  "with_task cx sc v = sc\<lparr>sc_store := (sc_store sc)\<lparr>ts_vertexIx := (ts_vertexIx (sc_store sc))[v := length (sc_tasks sc) mod 2 ^ 32]\<rparr>,
     sc_tasks := sc_tasks sc @ [(sx_task cx v, 0)]\<rparr>"

lemma sr_addTask_eq:
  assumes "sr_tasks_ok cx sc" and "v \<in> set (sr_vertices (sx_graph cx))"
  shows "sr_addTask cx v sc = Inr (with_task cx sc v)"
proof -
  let ?x = "sx_task cx v" and ?s = "sc_store sc"
  have t: "task_at ?s ?x = Inr (ts_tasks ?s ! ?x)" "tk_kind (ts_tasks ?s ! ?x) = SRDAG_Task v" and v: "v < length (ts_vertexIx ?s)"
    using assms by (auto simp: sr_tasks_ok_def task_at_def)
  have "task_setOnFiring (sx_env cx) 0 ?x ?s = Inr ?s"
    using t by (simp add: task_setOnFiring_def task_update_def task_put_def)
  moreover have "task_setIx i ?x ?s = Inr (?s\<lparr>ts_vertexIx := (ts_vertexIx ?s)[v := i]\<rparr>)" for i
    using t v by (simp add: task_setIx_def)
  ultimately show ?thesis by (simp add: sr_addTask_def addTask_def Schedule.on_store_def with_task_def)
qed

lemma with_task_ok: "sr_tasks_ok cx sc \<Longrightarrow> sr_tasks_ok cx (with_task cx sc v)"
  by (simp add: sr_tasks_ok_def with_task_def)

text \<open>The vertices of \<open>vs\<close> were appended to the schedule \<open>sc0\<close>, in this order.\<close>

definition appended :: "sr_ctx \<Rightarrow> schedule \<Rightarrow> nat list \<Rightarrow> schedule" where
  "appended cx sc0 vs = foldl (with_task cx) sc0 vs"

lemma appended_snoc [simp]: "appended cx sc0 (vs @ [v]) = with_task cx (appended cx sc0 vs) v" by (simp add: appended_def)
lemma appended_Nil [simp]: "appended cx sc0 [] = sc0" by (simp add: appended_def)

lemma appended_tasks: "sc_tasks (appended cx sc0 vs) = sc_tasks sc0 @ map (\<lambda>v. (sx_task cx v, 0)) vs"
  by (induction vs rule: rev_induct) (simp_all add: with_task_def)

lemma appended_ok: "sr_tasks_ok cx sc0 \<Longrightarrow> sr_tasks_ok cx (appended cx sc0 vs)"
  by (induction vs rule: rev_induct) (simp_all add: with_task_ok)

lemma appended_frame: "ts_tasks (sc_store (appended cx sc0 vs)) = ts_tasks (sc_store sc0)"
  "length (ts_vertexIx (sc_store (appended cx sc0 vs))) = length (ts_vertexIx (sc_store sc0))" "sc_stats (appended cx sc0 vs) = sc_stats sc0"
  by (induction vs rule: rev_induct) (simp_all add: with_task_def)

lemma has_ix_with_task:
  assumes "v < length (ts_vertexIx (sc_store sc))"
  shows "has_ix (with_task cx sc v) u \<longleftrightarrow> has_ix sc u \<or> u = v"
proof -
  have "length (sc_tasks sc) mod 2 ^ 32 \<noteq> size_max" using mod_less_divisor [of "2 ^ 32" "length (sc_tasks sc)"] by simp
  then show ?thesis using assms by (auto simp: has_ix_def with_task_def nth_list_update)
qed

lemma appended_has_ix:
  assumes "sr_tasks_ok cx sc0"
  shows "set vs \<subseteq> set (sr_vertices (sx_graph cx)) \<Longrightarrow> has_ix (appended cx sc0 vs) u \<longleftrightarrow> has_ix sc0 u \<or> u \<in> set vs"
proof (induction vs rule: rev_induct)
  case (snoc v vs)
  have "v < length (ts_vertexIx (sc_store (appended cx sc0 vs)))"
    using snoc.prems assms by (simp add: appended_frame sr_tasks_ok_def)
  with snoc show ?case by (auto simp: has_ix_with_task)
qed simp

subsection \<open>The search\<close>

text \<open>Appended vertices are new, executable, and behind what they read from.\<close>

definition in_order :: "srdag \<Rightarrow> schedule \<Rightarrow> nat list \<Rightarrow> bool" where
  "in_order G sc0 vs \<longleftrightarrow> set vs \<subseteq> set (sr_vertices G) \<and> distinct vs \<and>
     (\<forall>i < length vs. sr_exec G (vs ! i) \<and> \<not> has_ix sc0 (vs ! i) \<and> can_run G (has_ix sc0) (vs ! i) \<and>
       (\<forall>w. reads G (vs ! i) w \<longrightarrow> has_ix sc0 w \<or> w \<in> set (take i vs)))"

lemma in_order_snoc:
  assumes "in_order G sc0 vs" and "v \<in> set (sr_vertices G)" and "v \<notin> set vs" and "sr_exec G v" and "\<not> has_ix sc0 v"
    and "can_run G (has_ix sc0) v" and "\<And>w. reads G v w \<Longrightarrow> has_ix sc0 w \<or> w \<in> set vs"
  shows "in_order G sc0 (vs @ [v])"
  using assms by (auto simp: in_order_def nth_append less_Suc_eq)

text \<open>What one evaluation does, from the vertices appended so far.\<close>

definition evaluates :: "sr_ctx \<Rightarrow> schedule \<Rightarrow> (nat \<Rightarrow> nat) \<Rightarrow> nat \<Rightarrow> (nat \<Rightarrow> schedule \<Rightarrow> (bool \<times> schedule) result) \<Rightarrow> bool" where
  "evaluates cx sc0 r k eval \<longleftrightarrow> (\<forall>v vs. v \<in> set (sr_vertices (sx_graph cx)) \<longrightarrow> sr_exec (sx_graph cx) v \<longrightarrow> r v < k \<longrightarrow>
     in_order (sx_graph cx) sc0 vs \<longrightarrow>
     (\<exists>us. eval v (appended cx sc0 vs) = Inr (can_run (sx_graph cx) (has_ix sc0) v, appended cx sc0 (vs @ us)) \<and>
        in_order (sx_graph cx) sc0 (vs @ us) \<and> (\<forall>u \<in> set us. r u \<le> r v) \<and>
        (can_run (sx_graph cx) (has_ix sc0) v \<longrightarrow> has_ix sc0 v \<or> v \<in> set (vs @ us))))"

lemma evaluatesD:
  assumes "evaluates cx sc0 r k eval" and "v \<in> set (sr_vertices (sx_graph cx))" and "sr_exec (sx_graph cx) v" and "r v < k"
    and "in_order (sx_graph cx) sc0 vs"
  obtains us where "eval v (appended cx sc0 vs) = Inr (can_run (sx_graph cx) (has_ix sc0) v, appended cx sc0 (vs @ us))"
    and "in_order (sx_graph cx) sc0 (vs @ us)" and "\<forall>u \<in> set us. r u \<le> r v"
    and "can_run (sx_graph cx) (has_ix sc0) v \<longrightarrow> has_ix sc0 v \<or> v \<in> set (vs @ us)"
  using assms unfolding evaluates_def by metis

definition ready :: "srdag \<Rightarrow> (nat \<Rightarrow> bool) \<Rightarrow> nat \<Rightarrow> bool" where
  "ready G P e \<longleftrightarrow> se_rate (sg_es G ! e) = 0 \<or> (sr_exec G (source_of G e) \<and> can_run G P (source_of G e))"

lemma greedy_inputs_correct:
  assumes ev: "evaluates cx sc0 r k eval" and V: "\<And>v. v \<in> set (sr_vertices (sx_graph cx)) \<Longrightarrow> v < length (sg_vs (sx_graph cx))"
  shows "(\<forall>e \<in> set es. edge_readable (sx_graph cx) e \<and> (se_rate (sg_es (sx_graph cx) ! e) \<noteq> 0 \<longrightarrow> r (source_of (sx_graph cx) e) < k)) \<Longrightarrow>
    in_order (sx_graph cx) sc0 vs \<Longrightarrow>
    \<exists>us. greedy_inputs eval (sx_graph cx) (ok, appended cx sc0 vs) es =
        Inr (ok \<and> (\<forall>e \<in> set es. ready (sx_graph cx) (has_ix sc0) e), appended cx sc0 (vs @ us)) \<and>
      in_order (sx_graph cx) sc0 (vs @ us) \<and> (\<forall>u \<in> set us. r u < k) \<and>
      ((\<forall>e \<in> set es. ready (sx_graph cx) (has_ix sc0) e) \<longrightarrow>
        (\<forall>e \<in> set es. se_rate (sg_es (sx_graph cx) ! e) \<noteq> 0 \<longrightarrow> has_ix sc0 (source_of (sx_graph cx) e) \<or> source_of (sx_graph cx) e \<in> set (vs @ us)))"
proof (induction es arbitrary: ok vs)
  case Nil
  then show ?case by (intro exI [of _ "[]"]) simp
next
  case (Cons e es)
  let ?G = "sx_graph cx" and ?w = "source_of (sx_graph cx) e"
  from Cons.prems(1) have e: "sr_edge_data ?G e = Inr (sg_es ?G ! e)" "sr_source ?G e = Inr (Some ?w)" "?w \<in> set (sr_vertices ?G)"
    by (auto simp: edge_readable_def sr_edge_data_def)
  with V have x: "sr_executable ?G ?w = Inr (sr_exec ?G ?w)" by (simp add: sr_executable_def sr_at_def)
  show ?case
  proof (cases "se_rate (sg_es ?G ! e) = 0")
    case True
    with Cons.IH [of vs ok] Cons.prems e show ?thesis by (auto simp: ready_def)
  next
    case False
    show ?thesis
    proof (cases "sr_exec ?G ?w")
      case False
      with \<open>se_rate (sg_es ?G ! e) \<noteq> 0\<close> e x Cons.prems(2) show ?thesis by (intro exI [of _ "[]"]) (simp add: ready_def)
    next
      case True
      with Cons.prems False have "r ?w < k" by simp
      from evaluatesD [OF ev e(3) True this Cons.prems(2)] obtain us where
        us: "eval ?w (appended cx sc0 vs) = Inr (can_run ?G (has_ix sc0) ?w, appended cx sc0 (vs @ us))" "in_order ?G sc0 (vs @ us)"
          "\<forall>u \<in> set us. r u \<le> r ?w" "can_run ?G (has_ix sc0) ?w \<longrightarrow> has_ix sc0 ?w \<or> ?w \<in> set (vs @ us)" .
      from Cons.prems(1) have es: "\<forall>e \<in> set es. edge_readable ?G e \<and> (se_rate (sg_es ?G ! e) \<noteq> 0 \<longrightarrow> r (source_of ?G e) < k)" by simp
      from Cons.IH [OF this us(2), of "ok \<and> can_run ?G (has_ix sc0) ?w"] obtain us' where
        r': "greedy_inputs eval ?G (ok \<and> can_run ?G (has_ix sc0) ?w, appended cx sc0 (vs @ us)) es =
          Inr ((ok \<and> can_run ?G (has_ix sc0) ?w) \<and> (\<forall>e \<in> set es. ready ?G (has_ix sc0) e), appended cx sc0 ((vs @ us) @ us'))"
        "in_order ?G sc0 ((vs @ us) @ us')" "\<forall>u \<in> set us'. r u < k"
        "(\<forall>e \<in> set es. ready ?G (has_ix sc0) e) \<longrightarrow> (\<forall>e \<in> set es. se_rate (sg_es ?G ! e) \<noteq> 0 \<longrightarrow>
           has_ix sc0 (source_of ?G e) \<or> source_of ?G e \<in> set ((vs @ us) @ us'))" by blast
      have "\<forall>u \<in> set (us @ us'). r u < k" using us(3) r'(3) \<open>r ?w < k\<close> by fastforce
      then show ?thesis
        using r' us e x True False by (intro exI [of _ "us @ us'"]) (auto simp: ready_def)
    qed
  qed
qed

lemma ready_all:
  assumes "\<not> has_ix sc0 v"
  shows "(\<forall>e \<in> set (in_edges_of G v). ready G (has_ix sc0) e) \<longleftrightarrow> can_run G (has_ix sc0) v"
proof -
  have "can_run G (has_ix sc0) v \<longleftrightarrow> (\<forall>w. reads G v w \<longrightarrow> sr_exec G w \<and> can_run G (has_ix sc0) w)"
    using assms by (subst can_run_iff) auto
  then show ?thesis by (auto simp: ready_def reads_def)
qed

lemma evaluates_mono: "evaluates cx sc0 r k eval \<Longrightarrow> k' \<le> k \<Longrightarrow> evaluates cx sc0 r k' eval"
  by (auto simp: evaluates_def)

lemma in_orderD: "in_order G sc0 vs \<Longrightarrow> v \<in> set vs \<Longrightarrow> can_run G (has_ix sc0) v"
  by (auto simp: in_order_def in_set_conv_nth)

lemma greedy_evaluate_correct:
  assumes G: "readable (sx_graph cx)" and r: "ranked (sx_graph cx) r" and t: "sr_tasks_ok cx sc0"
  shows "evaluates cx sc0 r n (greedy_evaluate n cx)"
proof (induction n)
  case 0
  then show ?case by (simp add: evaluates_def)
next
  case (Suc n)
  let ?G = "sx_graph cx"
  have V: "v < length (sg_vs ?G)" if "v \<in> set (sr_vertices ?G)" for v using G that by (simp add: readable_def)
  show ?case unfolding evaluates_def
  proof (intro allI impI)
    fix v vs assume v: "v \<in> set (sr_vertices ?G)" "sr_exec ?G v" "r v < Suc n" and o: "in_order ?G sc0 vs"
    let ?sc = "appended cx sc0 vs" and ?es = "in_edges_of ?G v"
    have p: "has_ix ?sc v \<longleftrightarrow> has_ix sc0 v \<or> v \<in> set vs" using appended_has_ix [OF t] o by (simp add: in_order_def)
    have ix: "vertex_ix ?sc v = Inr (ts_vertexIx (sc_store ?sc) ! v)" "sr_tasks_ok cx (appended cx sc0 us)" for us
      using t v(1) by (simp_all add: vertex_ix_def sr_tasks_ok_def appended_frame)
    show "\<exists>us. greedy_evaluate (Suc n) cx v ?sc = Inr (can_run ?G (has_ix sc0) v, appended cx sc0 (vs @ us)) \<and> in_order ?G sc0 (vs @ us) \<and>
        (\<forall>u \<in> set us. r u \<le> r v) \<and> (can_run ?G (has_ix sc0) v \<longrightarrow> has_ix sc0 v \<or> v \<in> set (vs @ us))"
    proof (cases "has_ix ?sc v")
      case True
      then have "can_run ?G (has_ix sc0) v" using p in_orderD [OF o] by (auto intro: can_placed)
      with True p ix o show ?thesis by (intro exI [of _ "[]"]) (auto simp: has_ix_def)
    next
      case False
      from G v(1) have e: "sr_port_edges Sink ?G v = Inr ?es" "\<forall>e \<in> set ?es. edge_readable ?G e" by (auto simp: readable_def)
      have "\<forall>e \<in> set ?es. edge_readable ?G e \<and> (se_rate (sg_es ?G ! e) \<noteq> 0 \<longrightarrow> r (source_of ?G e) < r v)"
        using e(2) r v(1) by (auto simp: ranked_def reads_def)
      from greedy_inputs_correct [OF evaluates_mono [OF Suc.IH] V this o, of True] v(3) ready_all [of sc0 v ?G] False p obtain us where
        us: "greedy_inputs (greedy_evaluate n cx) ?G (True, ?sc) ?es = Inr (can_run ?G (has_ix sc0) v, appended cx sc0 (vs @ us))"
          "in_order ?G sc0 (vs @ us)" "\<forall>u \<in> set us. r u < r v"
          "can_run ?G (has_ix sc0) v \<longrightarrow> (\<forall>e \<in> set ?es. se_rate (sg_es ?G ! e) \<noteq> 0 \<longrightarrow>
             has_ix sc0 (source_of ?G e) \<or> source_of ?G e \<in> set (vs @ us))" by auto
      show ?thesis
      proof (cases "can_run ?G (has_ix sc0) v")
        case True
        have "v \<notin> set (vs @ us)" using False p us(3) by auto
        moreover have "has_ix sc0 w \<or> w \<in> set (vs @ us)" if "reads ?G v w" for w using us(4) True that by (auto simp: reads_def)
        ultimately have "in_order ?G sc0 ((vs @ us) @ [v])" using in_order_snoc [OF us(2) v(1) _ v(2) _ True] False p by blast
        moreover have "greedy_evaluate (Suc n) cx v ?sc = Inr (True, appended cx sc0 ((vs @ us) @ [v]))"
          using False ix us(1) e(1) True sr_addTask_eq [OF ix(2) v(1)] by (simp add: has_ix_def del: append_assoc)
        ultimately show ?thesis using True us(3) by (intro exI [of _ "us @ [v]"]) auto
      next
        case c: False
        from us c False ix e(1) show ?thesis by (intro exI [of _ us]) (auto simp: has_ix_def)
      qed
    qed
  qed
qed

lemma greedy_loop:
  assumes ev: "evaluates cx sc0 r n (greedy_evaluate n cx)" and G: "readable (sx_graph cx)"
    and n: "\<forall>v \<in> set (sr_vertices (sx_graph cx)). r v < n"
  shows "set xs \<subseteq> set (sr_vertices (sx_graph cx)) \<Longrightarrow> in_order (sx_graph cx) sc0 vs \<Longrightarrow>
    \<exists>us. foldE (\<lambda>sc v. bindE (sr_executable (sx_graph cx) v) (\<lambda>x.
       if x then bindE (greedy_evaluate n cx v sc) (\<lambda>(_, sc1). Inr sc1) else Inr sc)) (appended cx sc0 vs) xs = Inr (appended cx sc0 (vs @ us)) \<and>
      in_order (sx_graph cx) sc0 (vs @ us) \<and>
      (\<forall>v \<in> set xs. sr_exec (sx_graph cx) v \<longrightarrow> can_run (sx_graph cx) (has_ix sc0) v \<longrightarrow> has_ix sc0 v \<or> v \<in> set (vs @ us))"
proof (induction xs arbitrary: vs)
  case Nil
  then show ?case by (intro exI [of _ "[]"]) simp
next
  case (Cons v xs)
  let ?G = "sx_graph cx"
  from Cons.prems G have v: "v \<in> set (sr_vertices ?G)" "sr_executable ?G v = Inr (sr_exec ?G v)" "set xs \<subseteq> set (sr_vertices ?G)"
    by (auto simp: readable_def sr_executable_def sr_at_def)
  show ?case
  proof (cases "sr_exec ?G v")
    case False
    with Cons.IH [OF v(3) Cons.prems(2)] v(2) show ?thesis by auto
  next
    case True
    have "r v < n" using n v(1) by simp
    from evaluatesD [OF ev v(1) True this Cons.prems(2)] obtain us where
      us: "greedy_evaluate n cx v (appended cx sc0 vs) = Inr (can_run ?G (has_ix sc0) v, appended cx sc0 (vs @ us))"
        "in_order ?G sc0 (vs @ us)" "\<forall>u \<in> set us. r u \<le> r v" "can_run ?G (has_ix sc0) v \<longrightarrow> has_ix sc0 v \<or> v \<in> set (vs @ us)" .
    from Cons.IH [OF v(3) us(2)] obtain us' where "foldE (\<lambda>sc v. bindE (sr_executable ?G v) (\<lambda>x.
       if x then bindE (greedy_evaluate n cx v sc) (\<lambda>(_, sc1). Inr sc1) else Inr sc)) (appended cx sc0 (vs @ us)) xs = Inr (appended cx sc0 ((vs @ us) @ us'))"
      "in_order ?G sc0 ((vs @ us) @ us')"
      "\<forall>v \<in> set xs. sr_exec ?G v \<longrightarrow> can_run ?G (has_ix sc0) v \<longrightarrow> has_ix sc0 v \<or> v \<in> set ((vs @ us) @ us')" by blast
    with us v(2) True show ?thesis by (intro exI [of _ "us @ us'"]) auto
  qed
qed

text \<open>
  C7. On an acyclic graph (\<open>r\<close> decreases from a vertex to those it reads from, and is below the fuel) the greedy scheduler returns. It appends,
  once each, exactly the executable vertices that had no index and can run: all that such a vertex reads from is executable and is placed before
  it, in an earlier call or earlier in this one. The task of the vertex at position \<open>i\<close> is at position \<open>i\<close> behind the old tasks.
\<close>

theorem greedy_schedule_correct:
  assumes "readable (sx_graph cx)" and "ranked (sx_graph cx) r" and "\<forall>v \<in> set (sr_vertices (sx_graph cx)). r v < n" and "sr_tasks_ok cx sc"
  shows "\<exists>sc' vs. greedy_schedule n cx sc = Inr sc' \<and> sc_tasks sc' = sc_tasks sc @ map (\<lambda>v. (sx_task cx v, 0)) vs \<and> distinct vs \<and>
    (\<forall>v. v \<in> set vs \<longleftrightarrow> v \<in> set (sr_vertices (sx_graph cx)) \<and> sr_exec (sx_graph cx) v \<and> \<not> has_ix sc v \<and> can_run (sx_graph cx) (has_ix sc) v) \<and>
    (\<forall>i < length vs. \<forall>w. reads (sx_graph cx) (vs ! i) w \<longrightarrow> sr_exec (sx_graph cx) w \<and> (has_ix sc w \<or> w \<in> set (take i vs))) \<and>
    (\<forall>v \<in> set vs. has_ix sc' v)"
proof -
  let ?G = "sx_graph cx"
  have "in_order ?G sc []" by (simp add: in_order_def)
  from greedy_loop [OF greedy_evaluate_correct [OF assms(1,2,4)] assms(1,3) order_refl this] obtain vs where
    vs: "greedy_schedule n cx sc = Inr (appended cx sc vs)" "in_order ?G sc vs"
      "\<forall>v \<in> set (sr_vertices ?G). sr_exec ?G v \<longrightarrow> can_run ?G (has_ix sc) v \<longrightarrow> has_ix sc v \<or> v \<in> set vs"
    by (auto simp: greedy_schedule_def)
  have in_vs: "v \<in> set (sr_vertices ?G) \<and> sr_exec ?G v \<and> \<not> has_ix sc v \<and> can_run ?G (has_ix sc) v" if "v \<in> set vs" for v
    using vs(2) that unfolding in_order_def by (metis in_set_conv_nth subsetD)
  moreover have "sr_exec ?G w" if "i < length vs" "reads ?G (vs ! i) w" for i w
  proof -
    have "can_run ?G (has_ix sc) (vs ! i)" "\<not> has_ix sc (vs ! i)" using in_vs [of "vs ! i"] that(1) by auto
    with that(2) show ?thesis by (subst (asm) can_run_iff) auto
  qed
  moreover have "has_ix (appended cx sc vs) v" if "v \<in> set vs" for v
    using appended_has_ix [OF assms(4)] vs(2) that by (simp add: in_order_def)
  ultimately show ?thesis
    using vs by (intro exI [of _ "appended cx sc vs"] exI [of _ vs]) (auto simp: appended_tasks in_order_def)
qed

text \<open>The two vertices of the launch, the reader first in the list of the graph.\<close>

definition pair_graph :: srdag where
  "pair_graph = launch_graph\<lparr>sg_store := (sg_store launch_graph)\<lparr>st_graphs := [\<lparr>gr_vertices = [1, 0], gr_edges = [0], gr_configs = [],
     gr_subgraphs = [], gr_params = [], gr_inputs = [], gr_outputs = [], gr_vertex = 0, gr_subIx = 0\<rparr>]\<rparr>\<rparr>"

definition pair_ctx :: sr_ctx where
  "pair_ctx = \<lparr>sx_env = launch_env, sx_graph = pair_graph, sx_task = id\<rparr>"

definition pair_schedule :: schedule where
  "pair_schedule = \<lparr>sc_store = \<lparr>ts_tasks = [launch_task 0 0 [u32_max, u32_max], launch_task 1 1 [u32_max, u32_max]],
     ts_vertexIx = [size_max, size_max], ts_taskIx = (\<lambda>_ _. [])\<rparr>, sc_tasks = [], sc_stats = stats_new launch_platform\<rparr>"

lemma pair_sel: "sx_graph pair_ctx = pair_graph" "sr_vertices pair_graph = [1, 0]" "sx_task pair_ctx v = v" "sc_tasks pair_schedule = []"
  "sr_port_edges Sink pair_graph 0 = Inr []" "sr_port_edges Sink pair_graph (Suc 0) = Inr [0]" "sr_source pair_graph 0 = Inr (Some 0)"
  "sg_es pair_graph = [\<lparr>se_rate = 4, se_address = 0, se_offset = 0\<rparr>]" "length (sg_vs pair_graph) = 2"
  "v < 2 \<Longrightarrow> sr_exec pair_graph v" "v < 2 \<Longrightarrow> \<not> has_ix pair_schedule v"
  by (auto simp: pair_ctx_def pair_graph_def launch_graph_def sr_vertices_def pair_schedule_def sr_port_edges_def vertex_at_def sr_source_def
    edge_at_def sample_vertex_def sample_edge_def has_ix_def less_2_cases_iff)

lemma pair_reads: "reads pair_graph v w \<longleftrightarrow> v = 1 \<and> w = 0" if "v \<in> {0, 1}"
  using that by (auto simp: reads_def in_edges_of_def pair_sel source_of_def)

lemma pair_hyps: "readable pair_graph" "ranked pair_graph id" "sr_tasks_ok pair_ctx pair_schedule"
  using pair_reads
  by (auto simp: readable_def in_edges_of_def pair_sel edge_readable_def source_of_def ranked_def sr_tasks_ok_def)
    (simp_all add: pair_schedule_def launch_task_sel)

theorem greedy_schedule_correct_witness:
  "\<exists>sc'. greedy_schedule 2 pair_ctx pair_schedule = Inr sc' \<and> sc_tasks sc' = [(0, 0), (1, 0)]"
proof -
  have "\<forall>v \<in> set (sr_vertices pair_graph). id v < 2" by (simp add: pair_sel)
  from greedy_schedule_correct [of pair_ctx id 2 pair_schedule, unfolded pair_sel(1), OF pair_hyps(1,2) this pair_hyps(3)] obtain sc' vs where
    g: "greedy_schedule 2 pair_ctx pair_schedule = Inr sc'" "sc_tasks sc' = sc_tasks pair_schedule @ map (\<lambda>v. (sx_task pair_ctx v, 0)) vs"
      "distinct vs" "\<forall>v. v \<in> set vs \<longleftrightarrow> v \<in> set (sr_vertices pair_graph) \<and> sr_exec pair_graph v \<and> \<not> has_ix pair_schedule v \<and>
        can_run pair_graph (has_ix pair_schedule) v"
      "\<forall>i < length vs. \<forall>w. reads pair_graph (vs ! i) w \<longrightarrow> sr_exec pair_graph w \<and> (has_ix pair_schedule w \<or> w \<in> set (take i vs))"
    by (elim exE conjE)
  have t: "sc_tasks sc' = map (\<lambda>v. (v, 0)) vs" using g(2) by (simp add: pair_sel)
  have c0: "can_run pair_graph (has_ix pair_schedule) 0" by (rule can_after) (simp add: pair_reads)
  have c1: "can_run pair_graph (has_ix pair_schedule) 1" by (rule can_after) (simp add: pair_reads c0 pair_sel)
  have "0 \<in> set vs" unfolding g(4) [rule_format] pair_sel(2) by (intro conjI c0 pair_sel(10,11)) simp_all
  moreover have "1 \<in> set vs" unfolding g(4) [rule_format] pair_sel(2) by (intro conjI c1 pair_sel(10,11)) simp_all
  moreover have "set vs \<subseteq> {1, 0}" using g(4) unfolding pair_sel(2) by auto
  ultimately have s: "set vs = {0, 1}" by blast
  have "length vs = card (set vs)" using distinct_card [OF g(3)] by simp
  then have "length vs = 2" using s by simp
  then obtain a b where ab: "vs = [a, b]" by (metis (no_types, opaque_lifting) Suc_length_conv length_0_conv numeral_2_eq_2)
  have "\<not> reads pair_graph a 0" using g(5) [rule_format, of 0 0] pair_sel(11) [of 0] ab by (auto simp del: One_nat_def)
  then have "a \<noteq> 1" using pair_reads [of 1 0] by auto
  moreover have "a \<in> {0, 1}" "b \<in> {0, 1}" "a \<noteq> b" using s ab g(3) by auto
  ultimately have "vs = [0, 1]" using ab by auto
  with g(1) t show ?thesis by simp
qed

end
