(* ===== verification/ListMarks.thy ===== *)
theory ListMarks
  imports GreedyProps
begin

text \<open>
  The list scheduler: the levels of the tasks grow along the edges, so that the tasks in the order of their levels come after what they read
  from; what depends on a vertex that cannot run is taken out.
\<close>

subsection \<open>Times and levels\<close>

definition out_edges_of :: "srdag \<Rightarrow> nat \<Rightarrow> nat list" where
  "out_edges_of G v = (case sr_port_edges Source G v of Inl _ \<Rightarrow> [] | Inr es \<Rightarrow> es)"

definition sink_of_edge :: "srdag \<Rightarrow> nat \<Rightarrow> nat" where
  "sink_of_edge G e = (case sr_end Sink G e of Inr w \<Rightarrow> w | _ \<Rightarrow> 0)"

text \<open>Both ends of an edge agree on it.\<close>

definition linked :: "srdag \<Rightarrow> bool" where
  "linked G \<longleftrightarrow> (\<forall>v \<in> set (sr_vertices G). sr_port_edges Source G v = Inr (out_edges_of G v) \<and>
     (\<forall>e \<in> set (out_edges_of G v). e < length (sg_es G) \<and> sr_end Sink G e = Inr (sink_of_edge G e) \<and>
        sink_of_edge G e \<in> set (sr_vertices G) \<and> source_of G e = v \<and> e \<in> set (in_edges_of G (sink_of_edge G e))) \<and>
     (\<forall>e \<in> set (in_edges_of G v). sink_of_edge G e = v \<and> e \<in> set (out_edges_of G (source_of G e))))"

definition exec_time :: "sr_ctx \<Rightarrow> nat \<Rightarrow> int result" where
  "exec_time cx w = bindE (get_at (se_srdag (sx_env cx)) w) (\<lambda>info. minExecutionTime (sx_env cx) (si_rtinfo info))"

definition time_of :: "sr_ctx \<Rightarrow> nat \<Rightarrow> int" where
  "time_of cx w = (case exec_time cx w of Inl _ \<Rightarrow> 0 | Inr t \<Rightarrow> i32_cast t)"

text \<open>The time of every executable vertex is known and positive.\<close>

definition timed :: "sr_ctx \<Rightarrow> bool" where
  "timed cx \<longleftrightarrow> (\<forall>w \<in> set (sr_vertices (sx_graph cx)). sr_exec (sx_graph cx) w \<longrightarrow> \<not> isl (exec_time cx w) \<and> 0 < time_of cx w)"

text \<open>\<open>B\<close> bounds the length of the paths to a vertex, below the level that stands for a task that cannot run.\<close>

definition path_bound :: "sr_ctx \<Rightarrow> (nat \<Rightarrow> int) \<Rightarrow> bool" where
  "path_bound cx B \<longleftrightarrow> (\<forall>v \<in> set (sr_vertices (sx_graph cx)). 0 \<le> B v \<and> B v < NON_SCHEDULABLE_LEVEL \<and>
     (\<forall>e \<in> set (in_edges_of (sx_graph cx) v). sr_exec (sx_graph cx) (source_of (sx_graph cx) e) \<longrightarrow>
        B (source_of (sx_graph cx) e) + time_of cx (source_of (sx_graph cx) e) \<le> B v))"

text \<open>The vertices \<open>vs\<close> of the tasks, at the positions that their indices say; with a vertex, all that read from it.\<close>

definition listed :: "srdag \<Rightarrow> schedule \<Rightarrow> nat list \<Rightarrow> bool" where
  "listed G sc vs \<longleftrightarrow> set vs \<subseteq> set (sr_vertices G) \<and> (\<forall>v \<in> set (sr_vertices G). v < length (ts_vertexIx (sc_store sc))) \<and>
     (\<forall>k < length vs. ts_vertexIx (sc_store sc) ! (vs ! k) = k) \<and>
     (\<forall>v \<in> set vs. \<forall>u \<in> set (sr_vertices G). reads G u v \<longrightarrow> u \<in> set vs)"

definition pos :: "schedule \<Rightarrow> nat \<Rightarrow> nat" where "pos sc v = ts_vertexIx (sc_store sc) ! v"

definition lv :: "schedule \<Rightarrow> list_task list \<Rightarrow> nat \<Rightarrow> int" where "lv sc ts v = snd (ts ! pos sc v)"

lemma listed_pos: "listed G sc vs \<Longrightarrow> v \<in> set vs \<Longrightarrow> pos sc v < length vs \<and> vs ! pos sc v = v"
  by (auto simp: listed_def pos_def in_set_conv_nth)

lemma listed_ix: "listed G sc vs \<Longrightarrow> v \<in> set (sr_vertices G) \<Longrightarrow> vertex_ix sc v = Inr (pos sc v)"
  by (simp add: listed_def vertex_ix_def pos_def)

definition set_level :: "schedule \<Rightarrow> list_task list \<Rightarrow> nat \<Rightarrow> int \<Rightarrow> list_task list" where
  "set_level sc ts v l = ts[pos sc v := (v, l)]"

lemma set_level_fst: "map fst ts = vs \<Longrightarrow> listed G sc vs \<Longrightarrow> v \<in> set vs \<Longrightarrow> map fst (set_level sc ts v l) = vs"
  using listed_pos [of G sc vs v] by (simp add: set_level_def map_update) (metis list_update_id)

lemma lv_set_level:
  assumes "map fst ts = vs" and "listed G sc vs" and "v \<in> set vs" and "u \<in> set vs"
  shows "lv sc (set_level sc ts v l) u = (if u = v then l else lv sc ts u)"
proof -
  have "length ts = length vs" using assms(1) by auto
  moreover have "pos sc u = pos sc v \<longleftrightarrow> u = v" using listed_pos [OF assms(2)] assms(3,4) by metis
  ultimately show ?thesis using listed_pos [OF assms(2,3)] by (auto simp: lv_def set_level_def)
qed

subsection \<open>The invariant of the levels\<close>

abbreviation NSL :: int where "NSL \<equiv> NON_SCHEDULABLE_LEVEL"

text \<open>A vertex that is not listed was placed by an earlier call.\<close>

abbreviation able :: "srdag \<Rightarrow> nat list \<Rightarrow> nat \<Rightarrow> bool" where
  "able G vs v \<equiv> sr_exec G v \<and> can_run G (\<lambda>u. u \<notin> set vs) v"

definition level_ok :: "sr_ctx \<Rightarrow> (nat \<Rightarrow> int) \<Rightarrow> nat list \<Rightarrow> (nat \<Rightarrow> int) \<Rightarrow> nat \<Rightarrow> bool" where
  "level_ok cx B vs f v \<longleftrightarrow> (f v = -1 \<or> f v = NSL \<or> 0 \<le> f v \<and> f v \<le> B v) \<and>
     (0 \<le> f v \<longrightarrow> f v \<noteq> NSL \<longrightarrow> (\<forall>e \<in> set (in_edges_of (sx_graph cx) v). let w = source_of (sx_graph cx) e in
        sr_exec (sx_graph cx) w \<longrightarrow> w \<in> set vs \<longrightarrow> f w = NSL \<or> 0 \<le> f w \<and> f w + time_of cx w \<le> f v)) \<and>
     (\<not> sr_exec (sx_graph cx) v \<longrightarrow> f v = NSL) \<and> (f v = NSL \<longrightarrow> \<not> able (sx_graph cx) vs v)"

text \<open>\<open>P\<close>: the marked vertices whose readers are not all marked yet.\<close>

definition levels_ok :: "sr_ctx \<Rightarrow> (nat \<Rightarrow> int) \<Rightarrow> schedule \<Rightarrow> nat list \<Rightarrow> nat set \<Rightarrow> list_task list \<Rightarrow> bool" where
  "levels_ok cx B sc vs P ts \<longleftrightarrow> map fst ts = vs \<and> (\<forall>v \<in> set vs. level_ok cx B vs (lv sc ts) v) \<and>
     (\<forall>v \<in> set vs. lv sc ts v = NSL \<longrightarrow> v \<notin> P \<longrightarrow> (\<forall>u \<in> set vs. reads (sx_graph cx) u v \<longrightarrow> lv sc ts u = NSL))"

lemma levels_ok_mono: "levels_ok cx B sc vs P ts \<Longrightarrow> P \<subseteq> Q \<Longrightarrow> levels_ok cx B sc vs Q ts"
  by (auto simp: levels_ok_def)

text \<open>Marking a reader of a vertex that is not able to run.\<close>

lemma level_ok_marked:
  assumes "level_ok cx B vs f v" and "g v = f v" and "\<And>x. x \<in> set vs \<Longrightarrow> g x = f x \<or> g x = NSL"
  shows "level_ok cx B vs g v"
  unfolding level_ok_def Let_def
proof (intro conjI ballI impI)
  fix e assume e: "0 \<le> g v" "g v \<noteq> NSL" "e \<in> set (in_edges_of (sx_graph cx) v)" "sr_exec (sx_graph cx) (source_of (sx_graph cx) e)"
    "source_of (sx_graph cx) e \<in> set vs"
  then have "f (source_of (sx_graph cx) e) = NSL \<or> 0 \<le> f (source_of (sx_graph cx) e) \<and>
    f (source_of (sx_graph cx) e) + time_of cx (source_of (sx_graph cx) e) \<le> f v"
    using assms(1,2) by (simp add: level_ok_def Let_def)
  with assms(2) assms(3) [OF e(5)]
  show "g (source_of (sx_graph cx) e) = NSL \<or> 0 \<le> g (source_of (sx_graph cx) e) \<and>
    g (source_of (sx_graph cx) e) + time_of cx (source_of (sx_graph cx) e) \<le> g v" by auto
qed (use assms(1,2) in \<open>simp_all add: level_ok_def\<close>)

lemma mark_ok:
  assumes "levels_ok cx B sc vs P ts" and "listed (sx_graph cx) sc vs" and u: "u \<in> set vs" and "lv sc ts u \<noteq> NSL"
    and "reads (sx_graph cx) u v" and "\<not> able (sx_graph cx) vs v"
  shows "levels_ok cx B sc vs (insert u P) (set_level sc ts u NSL)"
proof -
  let ?ts = "set_level sc ts u NSL"
  have f: "map fst ts = vs" using assms(1) by (simp add: levels_ok_def)
  note l = lv_set_level [OF f assms(2) u]
  have na: "\<not> able (sx_graph cx) vs u" using assms(5,6) u by (subst can_run_iff) auto
  have lo: "level_ok cx B vs (lv sc ?ts) w" if w: "w \<in> set vs" for w
  proof -
    have ok: "level_ok cx B vs (lv sc ts) w" using assms(1) w by (simp add: levels_ok_def)
    show ?thesis
    proof (cases "w = u")
      case True
      then show ?thesis using l [OF u] na by (simp add: level_ok_def)
    next
      case False
      show ?thesis by (rule level_ok_marked [OF ok]) (use l w False in \<open>simp_all\<close>)
    qed
  qed
  have cl: "lv sc ?ts w = NSL" if "x \<in> set vs" "lv sc ?ts x = NSL" "x \<notin> insert u P" "w \<in> set vs" "reads (sx_graph cx) w x" for x w
  proof -
    have "lv sc ts x = NSL" "x \<notin> P" using l [OF that(1)] that(2,3) by (simp_all split: if_splits)
    with assms(1) that(1,4,5) have "lv sc ts w = NSL" unfolding levels_ok_def by blast
    with l [OF that(4)] show ?thesis by simp
  qed
  show ?thesis unfolding levels_ok_def
  proof (intro conjI ballI impI)
    show "map fst ?ts = vs" by (rule set_level_fst [OF f assms(2) u])
    show "level_ok cx B vs (lv sc ?ts) w" if "w \<in> set vs" for w by (rule lo [OF that])
    show "lv sc ?ts w = NSL" if "x \<in> set vs" "lv sc ?ts x = NSL" "x \<notin> insert u P" "w \<in> set vs" "reads (sx_graph cx) w x" for x w
      by (rule cl [OF that])
  qed
qed

subsection \<open>Marking\<close>

definition marks :: "schedule \<Rightarrow> nat list \<Rightarrow> list_task list \<Rightarrow> list_task list \<Rightarrow> bool" where
  "marks sc vs ts ts' \<longleftrightarrow> (\<forall>u \<in> set vs. lv sc ts' u = lv sc ts u \<or> lv sc ts' u = NSL)"

lemma marks_refl: "marks sc vs ts ts" by (simp add: marks_def)
lemma marks_trans: "marks sc vs a b \<Longrightarrow> marks sc vs b c \<Longrightarrow> marks sc vs a c" unfolding marks_def by metis

definition unmarked :: "schedule \<Rightarrow> nat list \<Rightarrow> list_task list \<Rightarrow> nat" where
  "unmarked sc vs ts = card {v \<in> set vs. lv sc ts v \<noteq> NSL}"

lemma marks_unmarked: "marks sc vs ts ts' \<Longrightarrow> unmarked sc vs ts' \<le> unmarked sc vs ts"
  unfolding unmarked_def marks_def by (intro card_mono) auto

lemma mark_unmarked:
  assumes "map fst ts = vs" and "listed G sc vs" and "u \<in> set vs" and "lv sc ts u \<noteq> NSL"
  shows "unmarked sc vs (set_level sc ts u NSL) < unmarked sc vs ts"
proof -
  have "{v \<in> set vs. lv sc (set_level sc ts u NSL) v \<noteq> NSL} \<subseteq> {v \<in> set vs. lv sc ts v \<noteq> NSL} - {u}"
  proof
    fix x assume x: "x \<in> {v \<in> set vs. lv sc (set_level sc ts u NSL) v \<noteq> NSL}"
    then have "x \<in> set vs" by simp
    from x lv_set_level [OF assms(1-3) this, of NSL] show "x \<in> {v \<in> set vs. lv sc ts v \<noteq> NSL} - {u}" by (simp split: if_splits)
  qed
  then have "unmarked sc vs (set_level sc ts u NSL) \<le> card ({v \<in> set vs. lv sc ts v \<noteq> NSL} - {u})"
    unfolding unmarked_def by (intro card_mono) auto
  also have "\<dots> < unmarked sc vs ts" unfolding unmarked_def using assms(3,4) by (intro card_Diff1_less) auto
  finally show ?thesis .
qed

text \<open>The readers of a marked vertex are marked, and theirs.\<close>

definition marks_readers :: "sr_ctx \<Rightarrow> (nat \<Rightarrow> int) \<Rightarrow> schedule \<Rightarrow> nat list \<Rightarrow> nat \<Rightarrow> (nat \<Rightarrow> list_task list \<Rightarrow> list_task list result) \<Rightarrow> bool" where
  "marks_readers cx B sc vs n mark \<longleftrightarrow> (\<forall>v P ts. v \<in> set vs \<longrightarrow> levels_ok cx B sc vs P ts \<longrightarrow> lv sc ts v = NSL \<longrightarrow> \<not> able (sx_graph cx) vs v \<longrightarrow>
     unmarked sc vs ts < n \<longrightarrow> (\<exists>ts'. mark v ts = Inr ts' \<and> levels_ok cx B sc vs (P - {v}) ts' \<and> marks sc vs ts ts'))"

lemma lv_at:
  assumes "map fst ts = vs" and "listed G sc vs" and "v \<in> set vs"
  shows "get_at ts (pos sc v) = Inr (v, lv sc ts v)"
proof -
  have l: "pos sc v < length ts" "vs ! pos sc v = v" using listed_pos [OF assms(2,3)] assms(1) by auto
  then have "fst (ts ! pos sc v) = v" using assms(1) by (metis nth_map)
  with l show ?thesis by (simp add: get_at_def lv_def prod_eq_iff)
qed

lemma mark_edges:
  assumes li: "listed (sx_graph cx) sc vs" and lk: "linked (sx_graph cx)" and v: "v \<in> set vs" "\<not> able (sx_graph cx) vs v"
    and m: "marks_readers cx B sc vs n mark"
  shows "set es \<subseteq> set (out_edges_of (sx_graph cx) v) \<Longrightarrow> levels_ok cx B sc vs P ts \<Longrightarrow> unmarked sc vs ts \<le> n \<Longrightarrow>
    \<exists>ts'. foldE (\<lambda>ts e. bindE (sr_edge_data (sx_graph cx) e) (\<lambda>d. if se_rate d = 0 then Inr ts
       else bindE (sr_end Sink (sx_graph cx) e) (\<lambda>w. bindE (vertex_ix sc w) (\<lambda>ix. bindE (get_at ts ix) (\<lambda>(u, level).
         if level = NSL then Inr ts else mark u (ts[ix := (u, NSL)])))))) ts es = Inr ts' \<and>
      levels_ok cx B sc vs P ts' \<and> marks sc vs ts ts' \<and>
      (\<forall>e \<in> set es. se_rate (sg_es (sx_graph cx) ! e) \<noteq> 0 \<longrightarrow> lv sc ts' (sink_of_edge (sx_graph cx) e) = NSL)"
proof (induction es arbitrary: ts)
  case Nil
  then show ?case by (simp add: marks_refl)
next
  case (Cons e es)
  let ?G = "sx_graph cx" and ?u = "sink_of_edge (sx_graph cx) e"
  let ?f = "\<lambda>ts e. bindE (sr_edge_data ?G e) (\<lambda>d. if se_rate d = 0 then Inr ts
       else bindE (sr_end Sink ?G e) (\<lambda>w. bindE (vertex_ix sc w) (\<lambda>ix. bindE (get_at ts ix) (\<lambda>(u, level).
         if level = NSL then Inr ts else mark u (ts[ix := (u, NSL)])))))"
  from Cons.prems(1) have e: "e \<in> set (out_edges_of ?G v)" "set es \<subseteq> set (out_edges_of ?G v)" by auto
  have vV: "v \<in> set (sr_vertices ?G)" using li v(1) by (auto simp: listed_def)
  with lk e(1) have d: "sr_edge_data ?G e = Inr (sg_es ?G ! e)" "sr_end Sink ?G e = Inr ?u" "?u \<in> set (sr_vertices ?G)" "source_of ?G e = v"
    "e \<in> set (in_edges_of ?G ?u)" by (auto simp: linked_def sr_edge_data_def)
  show ?case
  proof (cases "se_rate (sg_es ?G ! e) = 0")
    case True
    with Cons.IH [OF e(2) Cons.prems(2,3)] d(1) show ?thesis by auto
  next
    case False
    then have rd: "reads ?G ?u v" using d(4,5) by (auto simp: reads_def)
    with li v(1) d(3) have u: "?u \<in> set vs" by (auto simp: listed_def)
    have f: "map fst ts = vs" using Cons.prems(2) by (simp add: levels_ok_def)
    note at = lv_at [OF f li u] listed_ix [OF li d(3)]
    show ?thesis
    proof (cases "lv sc ts ?u = NSL")
      case True
      from Cons.IH [OF e(2) Cons.prems(2,3)] obtain ts' where ts': "foldE ?f ts es = Inr ts'"
        "levels_ok cx B sc vs P ts'" "marks sc vs ts ts'"
        "\<forall>e \<in> set es. se_rate (sg_es ?G ! e) \<noteq> 0 \<longrightarrow> lv sc ts' (sink_of_edge ?G e) = NSL" by blast
      moreover have "lv sc ts' ?u = NSL" using ts'(3) u True by (auto simp: marks_def)
      moreover have "?f ts e = Inr ts" by (simp add: d(1,2) False at True)
      ultimately show ?thesis by (intro exI [of _ ts']) simp
    next
      case ul: False
      let ?ts = "set_level sc ts ?u NSL"
      have na: "\<not> able ?G vs ?u" using rd v(2) u by (subst can_run_iff) auto
      have lvu: "lv sc ?ts ?u = NSL" using lv_set_level [OF f li u u] by simp
      have um: "unmarked sc vs ?ts < n" using mark_unmarked [OF f li u ul] Cons.prems(3) by simp
      from m [unfolded marks_readers_def, rule_format, OF u mark_ok [OF Cons.prems(2) li u ul rd v(2)] lvu na um] obtain ts1 where
        ts1: "mark ?u ?ts = Inr ts1" "levels_ok cx B sc vs (insert ?u P - {?u}) ts1" "marks sc vs ?ts ts1" by blast
      have ok1: "levels_ok cx B sc vs P ts1" by (rule levels_ok_mono [OF ts1(2)]) auto
      have m0: "marks sc vs ts ?ts" using lv_set_level [OF f li u] by (simp add: marks_def)
      have un1: "unmarked sc vs ts1 \<le> n" using marks_unmarked [OF ts1(3)] um by simp
      from Cons.IH [OF e(2) ok1 un1] obtain ts' where ts': "foldE ?f ts1 es = Inr ts'"
        "levels_ok cx B sc vs P ts'" "marks sc vs ts1 ts'"
        "\<forall>e \<in> set es. se_rate (sg_es ?G ! e) \<noteq> 0 \<longrightarrow> lv sc ts' (sink_of_edge ?G e) = NSL" by blast
      have "marks sc vs ts ts'" using marks_trans [OF marks_trans [OF m0 ts1(3)] ts'(3)] .
      moreover have "lv sc ts' ?u = NSL" using marks_trans [OF ts1(3) ts'(3)] u lvu by (auto simp: marks_def)
      moreover have "?f ts e = Inr ts1" using ts1(1) by (simp add: d(1,2) False at ul set_level_def)
      ultimately show ?thesis using ts' by (intro exI [of _ ts']) simp
    qed
  qed
qed

lemma recursiveSetNonSchedulable_marks:
  assumes li: "listed (sx_graph cx) sc vs" and lk: "linked (sx_graph cx)"
  shows "marks_readers cx B sc vs n (recursiveSetNonSchedulable n (sx_graph cx) sc)"
proof (induction n)
  case 0
  then show ?case by (simp add: marks_readers_def)
next
  case (Suc n)
  let ?G = "sx_graph cx"
  show ?case unfolding marks_readers_def
  proof (intro allI impI)
    fix v P ts
    assume v: "v \<in> set vs" and ok: "levels_ok cx B sc vs P ts" and l: "lv sc ts v = NSL" and na: "\<not> able ?G vs v" and n: "unmarked sc vs ts < Suc n"
    have vV: "v \<in> set (sr_vertices ?G)" using li v by (auto simp: listed_def)
    with lk have es: "sr_port_edges Source ?G v = Inr (out_edges_of ?G v)" by (auto simp: linked_def)
    from n have "unmarked sc vs ts \<le> n" by simp
    from mark_edges [OF li lk v na Suc.IH order_refl ok this] obtain ts' where
      ts': "recursiveSetNonSchedulable (Suc n) ?G sc v ts = Inr ts'" "levels_ok cx B sc vs P ts'" "marks sc vs ts ts'"
        "\<forall>e \<in> set (out_edges_of ?G v). se_rate (sg_es ?G ! e) \<noteq> 0 \<longrightarrow> lv sc ts' (sink_of_edge ?G e) = NSL"
      using es by auto
    have "lv sc ts' u = NSL" if u: "u \<in> set vs" "reads ?G u v" for u
    proof -
      from u(2) obtain e where e: "e \<in> set (in_edges_of ?G u)" "se_rate (sg_es ?G ! e) \<noteq> 0" "source_of ?G e = v" by (auto simp: reads_def)
      moreover have "u \<in> set (sr_vertices ?G)" using li u(1) by (auto simp: listed_def)
      ultimately have "sink_of_edge ?G e = u" "e \<in> set (out_edges_of ?G v)" using lk by (auto simp: linked_def)
      with ts'(4) e(2) show ?thesis by auto
    qed
    with ts'(2) have "levels_ok cx B sc vs (P - {v}) ts'" unfolding levels_ok_def by blast
    with ts' show "\<exists>ts'. recursiveSetNonSchedulable (Suc n) ?G sc v ts = Inr ts' \<and> levels_ok cx B sc vs (P - {v}) ts' \<and> marks sc vs ts ts'" by blast
  qed
qed

end
