(* ===== verification/ListLevels.thy ===== *)
theory ListLevels
  imports ListMarks
begin

text \<open>The levels that \<open>computeScheduleLevel\<close> gives.\<close>

lemma levelsD:
  assumes "levels_ok cx B sc vs P ts"
  shows "map fst ts = vs" and "v \<in> set vs \<Longrightarrow> level_ok cx B vs (lv sc ts) v" and "length ts = length vs"
  using assms by (auto simp: levels_ok_def)

lemma timedD:
  assumes "timed cx" and "w \<in> set (sr_vertices (sx_graph cx))" and "sr_exec (sx_graph cx) w"
  obtains t where "exec_time cx w = Inr t" and "i32_cast t = time_of cx w" and "0 < time_of cx w"
proof -
  from assms have "\<not> isl (exec_time cx w)" "0 < time_of cx w" by (auto simp: timed_def)
  then show ?thesis using that by (cases "exec_time cx w") (auto simp: time_of_def)
qed

text \<open>A vertex whose readers are marked already.\<close>

lemma mark_again:
  assumes ok: "levels_ok cx B sc vs P ts" and li: "listed (sx_graph cx) sc vs" and lk: "linked (sx_graph cx)"
    and v: "v \<in> set vs" "v \<notin> P" "lv sc ts v = NSL"
  shows "recursiveSetNonSchedulable (Suc n) (sx_graph cx) sc v ts = Inr ts"
proof -
  let ?G = "sx_graph cx"
  note f = levelsD(1) [OF ok]
  have vV: "v \<in> set (sr_vertices ?G)" using li v(1) by (auto simp: listed_def)
  have "(if se_rate d = 0 then Inr ts else bindE (sr_end Sink ?G e) (\<lambda>w. bindE (vertex_ix sc w) (\<lambda>ix. bindE (get_at ts ix) (\<lambda>(u, level).
      if level = NSL then Inr ts else recursiveSetNonSchedulable n ?G sc u (ts[ix := (u, NSL)]))))) = Inr ts"
    if e: "e \<in> set (out_edges_of ?G v)" "sr_edge_data ?G e = Inr d" for e d
  proof (cases "se_rate d = 0")
    case False
    let ?u = "sink_of_edge ?G e"
    from lk vV e have d: "sr_end Sink ?G e = Inr ?u" "?u \<in> set (sr_vertices ?G)" "source_of ?G e = v" "e \<in> set (in_edges_of ?G ?u)" "d = sg_es ?G ! e"
      by (auto simp: linked_def sr_edge_data_def get_at_def split: if_splits)
    with False have rd: "reads ?G ?u v" by (auto simp: reads_def)
    with li v(1) d(2) have u: "?u \<in> set vs" by (auto simp: listed_def)
    with rd v ok have "lv sc ts ?u = NSL" unfolding levels_ok_def by blast
    with False d show ?thesis by (simp add: listed_ix [OF li d(2)] lv_at [OF f li u])
  qed simp
  moreover have "sr_edge_data ?G e = Inr (sg_es ?G ! e)" if "e \<in> set (out_edges_of ?G v)" for e
    using lk vV that by (auto simp: linked_def sr_edge_data_def)
  ultimately have "foldE (\<lambda>ts e. bindE (sr_edge_data ?G e) (\<lambda>d. if se_rate d = 0 then Inr ts
       else bindE (sr_end Sink ?G e) (\<lambda>w. bindE (vertex_ix sc w) (\<lambda>ix. bindE (get_at ts ix) (\<lambda>(u, level).
         if level = NSL then Inr ts else recursiveSetNonSchedulable n ?G sc u (ts[ix := (u, NSL)])))))) ts (out_edges_of ?G v) = Inr ts"
    by (intro foldE_same) (simp only: bindE_Inr)
  moreover have "sr_port_edges Source ?G v = Inr (out_edges_of ?G v)" using lk vV by (simp add: linked_def)
  ultimately show ?thesis by simp
qed

text \<open>Levels are only added, for vertices whose bound is at most \<open>b\<close>.\<close>

definition grows :: "(nat \<Rightarrow> int) \<Rightarrow> schedule \<Rightarrow> nat list \<Rightarrow> int \<Rightarrow> list_task list \<Rightarrow> list_task list \<Rightarrow> bool" where
  "grows B sc vs b ts ts' \<longleftrightarrow> (\<forall>u \<in> set vs. lv sc ts' u = lv sc ts u \<or>
     (lv sc ts u = -1 \<and> 0 \<le> lv sc ts' u \<and> lv sc ts' u \<noteq> NSL \<and> B u \<le> b))"

lemma levels_grow_refl: "grows B sc vs b ts ts" by (simp add: grows_def)

lemma levels_grow_trans: "grows B sc vs b x y \<Longrightarrow> grows B sc vs b' y z \<Longrightarrow> b \<le> c \<Longrightarrow> b' \<le> c \<Longrightarrow> grows B sc vs c x z"
  unfolding grows_def by (smt (verit))

lemma grows_keeps: "grows B sc vs b ts ts' \<Longrightarrow> u \<in> set vs \<Longrightarrow> 0 \<le> lv sc ts u \<Longrightarrow> lv sc ts' u = lv sc ts u"
  unfolding grows_def by fastforce

definition computes :: "sr_ctx \<Rightarrow> (nat \<Rightarrow> int) \<Rightarrow> schedule \<Rightarrow> nat list \<Rightarrow> nat \<Rightarrow> (nat \<Rightarrow> list_task list \<Rightarrow> (int \<times> list_task list) result) \<Rightarrow> bool" where
  "computes cx B sc vs n rec \<longleftrightarrow> (\<forall>v P ts. v \<in> set vs \<longrightarrow> sr_exec (sx_graph cx) v \<longrightarrow> B v < int n \<longrightarrow> levels_ok cx B sc vs P ts \<longrightarrow>
     (\<forall>p \<in> P. \<not> sr_exec (sx_graph cx) p) \<longrightarrow>
     (\<exists>ts'. rec (pos sc v) ts = Inr (lv sc ts' v, ts') \<and> levels_ok cx B sc vs P ts' \<and> grows B sc vs (B v) ts ts' \<and> 0 \<le> lv sc ts' v))"

text \<open>What the level of a reader must be at least, for the inputs \<open>es\<close>.\<close>

definition above :: "sr_ctx \<Rightarrow> schedule \<Rightarrow> nat list \<Rightarrow> list_task list \<Rightarrow> int \<Rightarrow> nat list \<Rightarrow> bool" where
  "above cx sc vs ts l es \<longleftrightarrow> (\<forall>e \<in> set es. let w = source_of (sx_graph cx) e in sr_exec (sx_graph cx) w \<longrightarrow> w \<in> set vs \<longrightarrow>
     lv sc ts w = NSL \<or> 0 \<le> lv sc ts w \<and> lv sc ts w + time_of cx w \<le> l)"

lemma level_inputs:
  assumes li: "listed (sx_graph cx) sc vs" and rG: "readable (sx_graph cx)" and tm: "timed cx" and B: "path_bound cx B"
    and v: "v \<in> set vs" "B v < int (Suc n)" and cs: "computes cx B sc vs n rec" and P: "\<forall>p \<in> P. \<not> sr_exec (sx_graph cx) p"
  shows "set es \<subseteq> set (in_edges_of (sx_graph cx) v) \<Longrightarrow> levels_ok cx B sc vs P ts \<Longrightarrow> 0 \<le> l \<Longrightarrow> l \<le> B v \<Longrightarrow>
    \<exists>l' ts'. foldE (level_input rec cx sc) (l, ts) es = Inr (l', ts') \<and> levels_ok cx B sc vs P ts' \<and> grows B sc vs (B v - 1) ts ts' \<and>
      l \<le> l' \<and> l' \<le> B v \<and> above cx sc vs ts' l' es"
proof (induction es arbitrary: l ts)
  case Nil
  then show ?case by (auto simp: levels_grow_refl above_def)
next
  case (Cons e es)
  let ?G = "sx_graph cx" and ?w = "source_of (sx_graph cx) e"
  from Cons.prems(1) have e: "e \<in> set (in_edges_of ?G v)" "set es \<subseteq> set (in_edges_of ?G v)" by auto
  have vV: "v \<in> set (sr_vertices ?G)" using li v(1) by (auto simp: listed_def)
  with rG e(1) have s: "sr_source ?G e = Inr (Some ?w)" "?w \<in> set (sr_vertices ?G)" by (auto simp: readable_def edge_readable_def)
  then have x: "sr_executable ?G ?w = Inr (sr_exec ?G ?w)" using rG by (simp add: readable_def sr_executable_def sr_at_def)
  note f = levelsD(1) [OF Cons.prems(2)] and ix = listed_ix [OF li s(2)]
  show ?case
  proof (cases "sr_exec ?G ?w \<and> ?w \<in> set vs")
    case False
    have "level_input rec cx sc (l, ts) e = Inr (l, ts)"
    proof (cases "sr_exec ?G ?w")
      case True
      with False have nw: "?w \<notin> set vs" by blast
      from timedD [OF tm s(2) True] obtain t where "exec_time cx ?w = Inr t" by blast
      moreover have "\<not> (pos sc ?w < length ts \<and> fst (ts ! pos sc ?w) = ?w)"
      proof
        assume a: "pos sc ?w < length ts \<and> fst (ts ! pos sc ?w) = ?w"
        then have "map fst ts ! pos sc ?w = ?w" "pos sc ?w < length (map fst ts)" by simp_all
        with f nw show False by (metis nth_mem)
      qed
      ultimately show ?thesis
        using True by (auto simp: level_input_def s(1) x ix exec_time_def)
    qed (simp add: level_input_def s(1) x)
    moreover from Cons.IH [OF e(2) Cons.prems(2-4)] obtain l' ts' where "foldE (level_input rec cx sc) (l, ts) es = Inr (l', ts')"
      "levels_ok cx B sc vs P ts'" "grows B sc vs (B v - 1) ts ts'" "l \<le> l'" "l' \<le> B v" "above cx sc vs ts' l' es" by blast
    ultimately show ?thesis using False by (intro exI [of _ l'] exI [of _ ts']) (auto simp: above_def Let_def)
  next
    case True
    then have w: "sr_exec ?G ?w" "?w \<in> set vs" by auto
    from timedD [OF tm s(2) w(1)] obtain t where t: "exec_time cx ?w = Inr t" "i32_cast t = time_of cx ?w" "0 < time_of cx ?w" .
    have bw: "B ?w + time_of cx ?w \<le> B v" "B ?w < NSL" using B vV e(1) w(1) s(2) by (auto simp: path_bound_def)
    with t(3) v(2) have "B ?w < int n" by simp
    with cs w Cons.prems(2) P obtain ts1 where ts1: "rec (pos sc ?w) ts = Inr (lv sc ts1 ?w, ts1)" "levels_ok cx B sc vs P ts1"
      "grows B sc vs (B ?w) ts ts1" "0 \<le> lv sc ts1 ?w" unfolding computes_def by blast
    let ?l = "if lv sc ts1 ?w \<noteq> NSL then max l (lv sc ts1 ?w + time_of cx ?w) else l"
    have "pos sc ?w < length ts \<and> fst (ts ! pos sc ?w) = ?w"
      using listed_pos [OF li w(2)] f by (metis length_map nth_map)
    then have step: "level_input rec cx sc (l, ts) e = Inr (?l, ts1)"
      using t w(1) ts1(1) by (auto simp: level_input_def s(1) x ix exec_time_def)
    have "lv sc ts1 ?w \<noteq> NSL \<Longrightarrow> lv sc ts1 ?w \<le> B ?w"
      using levelsD(2) [OF ts1(2) w(2)] ts1(4) by (auto simp: level_ok_def)
    with bw(1) Cons.prems(3,4) have l: "0 \<le> ?l" "?l \<le> B v" "l \<le> ?l" by auto
    from Cons.IH [OF e(2) ts1(2) l(1,2)] obtain l' ts' where r: "foldE (level_input rec cx sc) (?l, ts1) es = Inr (l', ts')"
      "levels_ok cx B sc vs P ts'" "grows B sc vs (B v - 1) ts1 ts'" "?l \<le> l'" "l' \<le> B v" "above cx sc vs ts' l' es" by blast
    have "grows B sc vs (B v - 1) ts ts'" by (rule levels_grow_trans [OF ts1(3) r(3)]) (use bw(1) t(3) in simp_all)
    moreover have "lv sc ts' ?w = lv sc ts1 ?w" by (rule grows_keeps [OF r(3) w(2) ts1(4)])
    then have "above cx sc vs ts' l' (e # es)" using r(4,6) ts1(4) by (auto simp: above_def Let_def split: if_splits)
    ultimately show ?thesis using step r l(3) by (intro exI [of _ l'] exI [of _ ts']) simp
  qed
qed


text \<open>The level of a vertex without a level, above its inputs.\<close>

lemma level_set_ok:
  assumes ok: "levels_ok cx B sc vs P ts" and li: "listed (sx_graph cx) sc vs" and v: "v \<in> set vs" "lv sc ts v = -1"
    and x: "sr_exec (sx_graph cx) v" and l: "0 \<le> l" "l \<le> B v" "B v < NSL" and a: "above cx sc vs ts l (in_edges_of (sx_graph cx) v)"
  shows "levels_ok cx B sc vs P (set_level sc ts v l)"
proof -
  let ?ts = "set_level sc ts v l"
  note f = levelsD(1) [OF ok] and g = lv_set_level [OF levelsD(1) [OF ok] li v(1)]
  have "level_ok cx B vs (lv sc ?ts) u" if u: "u \<in> set vs" for u
  proof -
    have in_ok: "lv sc ?ts w = NSL \<or> 0 \<le> lv sc ?ts w \<and> lv sc ?ts w + time_of cx w \<le> m"
      if "lv sc ts w = NSL \<or> 0 \<le> lv sc ts w \<and> lv sc ts w + time_of cx w \<le> m" "w \<in> set vs" for w m
    proof -
      have "w \<noteq> v" using that(1) v(2) by (auto simp: NON_SCHEDULABLE_LEVEL_def)
      with that g show ?thesis by simp
    qed
    show ?thesis
    proof (cases "u = v")
      case True
      with a in_ok g l x v(1) show ?thesis by (simp add: level_ok_def above_def Let_def)
    next
      case False
      with levelsD(2) [OF ok u] in_ok g [OF u] show ?thesis by (simp add: level_ok_def Let_def)
    qed
  qed
  moreover have "lv sc ?ts w = NSL" if "u \<in> set vs" "lv sc ?ts u = NSL" "u \<notin> P" "w \<in> set vs" "reads (sx_graph cx) w u" for u w
  proof -
    have "u \<noteq> v" using that(1,2) g l by auto
    with that g have "lv sc ts w = NSL" using ok unfolding levels_ok_def by metis
    with v(2) g [OF that(4)] show ?thesis by (auto simp: NON_SCHEDULABLE_LEVEL_def)
  qed
  ultimately show ?thesis using set_level_fst [OF f li v(1)] unfolding levels_ok_def by blast
qed

lemma computeScheduleLevel_computes:
  assumes li: "listed (sx_graph cx) sc vs" and rG: "readable (sx_graph cx)" and lk: "linked (sx_graph cx)" and tm: "timed cx" and B: "path_bound cx B"
  shows "computes cx B sc vs n (computeScheduleLevel n cx sc)"
proof (induction n)
  case 0
  have "0 \<le> B v" if "v \<in> set vs" for v using B li that by (auto simp: path_bound_def listed_def)
  then show ?case unfolding computes_def by fastforce
next
  case (Suc n)
  let ?G = "sx_graph cx"
  show ?case unfolding computes_def
  proof (intro allI impI)
    fix v P ts
    assume v: "v \<in> set vs" and x: "sr_exec ?G v" and n: "B v < int (Suc n)" and ok: "levels_ok cx B sc vs P ts" and P: "\<forall>p \<in> P. \<not> sr_exec ?G p"
    have vV: "v \<in> set (sr_vertices ?G)" using li v by (auto simp: listed_def)
    note f = levelsD(1) [OF ok] and at = lv_at [OF levelsD(1) [OF ok] li v]
    from B vV have b: "0 \<le> B v" "B v < NSL" by (auto simp: path_bound_def)
    show "\<exists>ts'. computeScheduleLevel (Suc n) cx sc (pos sc v) ts = Inr (lv sc ts' v, ts') \<and> levels_ok cx B sc vs P ts' \<and>
        grows B sc vs (B v) ts ts' \<and> 0 \<le> lv sc ts' v"
    proof (cases "lv sc ts v = NSL")
      case True
      have "v \<notin> P" using P x by blast
      from mark_again [OF ok li lk v this True] show ?thesis
        using True ok by (intro exI [of _ ts]) (simp add: at levels_grow_refl lv_def [symmetric] del: recursiveSetNonSchedulable.simps, simp add: NON_SCHEDULABLE_LEVEL_def)
    next
      case ns: False
      show ?thesis
      proof (cases "lv sc ts v < 0")
        case False
        with ns ok show ?thesis by (intro exI [of _ ts]) (simp add: at levels_grow_refl)
      next
        case True
        with levelsD(2) [OF ok v] ns have m: "lv sc ts v = -1" by (auto simp: level_ok_def)
        from level_inputs [OF li rG tm B v n Suc.IH P order_refl ok order_refl b(1)] obtain l ts' where
          r: "foldE (level_input (computeScheduleLevel n cx sc) cx sc) (0, ts) (in_edges_of ?G v) = Inr (l, ts')" "levels_ok cx B sc vs P ts'"
            "grows B sc vs (B v - 1) ts ts'" "0 \<le> l" "l \<le> B v" "above cx sc vs ts' l (in_edges_of ?G v)" by blast
        have m': "lv sc ts' v = -1" using r(3) v m by (auto simp: grows_def)
        note g = lv_set_level [OF levelsD(1) [OF r(2)] li v]
        have ln: "l \<noteq> NSL" using r(5) b(2) by simp
        have "grows B sc vs (B v) ts' (set_level sc ts' v l)" using g m' r(4) ln by (simp add: grows_def)
        from levels_grow_trans [OF r(3) this] have "grows B sc vs (B v) ts (set_level sc ts' v l)" by simp
        moreover have "computeScheduleLevel (Suc n) cx sc (pos sc v) ts = Inr (l, set_level sc ts' v l)"
          using rG vV r(1) ns True by (simp add: at readable_def set_level_def)
        moreover have "levels_ok cx B sc vs P (set_level sc ts' v l)" by (rule level_set_ok [OF r(2) li v m' x r(4,5) b(2) r(6)])
        ultimately show ?thesis using g [OF v] r(4) by (intro exI [of _ "set_level sc ts' v l"]) simp
      qed
    qed
  qed
qed


text \<open>All levels.\<close>

lemma level_step:
  assumes li: "listed (sx_graph cx) sc vs" and rG: "readable (sx_graph cx)" and lk: "linked (sx_graph cx)" and tm: "timed cx" and B: "path_bound cx B"
    and v: "v \<in> set vs" "B v < int n" and ok: "levels_ok cx B sc vs P ts" and P: "\<forall>p \<in> P. \<not> sr_exec (sx_graph cx) p"
  shows "\<exists>l ts'. computeScheduleLevel n cx sc (pos sc v) ts = Inr (l, ts') \<and> levels_ok cx B sc vs (P - {v}) ts' \<and> 0 \<le> lv sc ts' v \<and>
    (\<forall>u \<in> set vs. 0 \<le> lv sc ts u \<longrightarrow> 0 \<le> lv sc ts' u)"
proof (cases "sr_exec (sx_graph cx) v")
  case True
  with P have "P - {v} = P" by auto
  moreover from computeScheduleLevel_computes [OF li rG lk tm B, of n] v True ok P obtain ts' where
    "computeScheduleLevel n cx sc (pos sc v) ts = Inr (lv sc ts' v, ts')" "levels_ok cx B sc vs P ts'" "grows B sc vs (B v) ts ts'" "0 \<le> lv sc ts' v"
    unfolding computes_def by blast
  ultimately show ?thesis using grows_keeps by metis
next
  case False
  let ?G = "sx_graph cx"
  have "0 \<le> B v" using B li v(1) by (auto simp: path_bound_def listed_def)
  with v(2) obtain m where n: "n = Suc m" by (cases n) auto
  have l: "lv sc ts v = NSL" using levelsD(2) [OF ok v(1)] False by (simp add: level_ok_def)
  have "unmarked sc vs ts \<le> card (set vs)" unfolding unmarked_def by (intro card_mono) auto
  also have "\<dots> \<le> length ts" using card_length [of vs] levelsD(3) [OF ok] by simp
  finally have "unmarked sc vs ts < Suc (length ts)" by simp
  with recursiveSetNonSchedulable_marks [OF li lk, of B "Suc (length ts)"] v(1) ok l False obtain ts' where
    r: "recursiveSetNonSchedulable (Suc (length ts)) ?G sc v ts = Inr ts'" "levels_ok cx B sc vs (P - {v}) ts'" "marks sc vs ts ts'"
    unfolding marks_readers_def by blast
  have nn: "0 \<le> lv sc ts' u" if "u \<in> set vs" "0 \<le> lv sc ts u" for u
    using r(3) that by (auto simp: marks_def NON_SCHEDULABLE_LEVEL_def)
  have "0 \<le> lv sc ts' v" by (rule nn [OF v(1)]) (simp add: l NON_SCHEDULABLE_LEVEL_def)
  moreover have "computeScheduleLevel n cx sc (pos sc v) ts = Inr (snd (ts' ! pos sc v), ts')"
    using r(1) by (simp add: n lv_at [OF levelsD(1) [OF ok] li v(1)] l del: recursiveSetNonSchedulable.simps)
  ultimately show ?thesis using r(2) nn by blast
qed

abbreviation level_all :: "nat \<Rightarrow> sr_ctx \<Rightarrow> schedule \<Rightarrow> list_task list \<Rightarrow> nat list \<Rightarrow> list_task list result" where
  "level_all n cx sc \<equiv> foldE (\<lambda>ts k. bindE (computeScheduleLevel n cx sc k ts) (\<lambda>(_, ts'). Inr ts'))"

lemma level_loop:
  assumes li: "listed (sx_graph cx) sc vs" and rG: "readable (sx_graph cx)" and lk: "linked (sx_graph cx)" and tm: "timed cx" and B: "path_bound cx B"
    and n: "\<forall>v \<in> set vs. B v < int n"
  shows "set us \<subseteq> set vs \<Longrightarrow> levels_ok cx B sc vs P ts \<Longrightarrow> \<forall>p \<in> P. \<not> sr_exec (sx_graph cx) p \<Longrightarrow>
    \<exists>ts'. level_all n cx sc ts (map (pos sc) us) = Inr ts' \<and> levels_ok cx B sc vs (P - set us) ts' \<and> (\<forall>v \<in> set us. 0 \<le> lv sc ts' v) \<and>
      (\<forall>u \<in> set vs. 0 \<le> lv sc ts u \<longrightarrow> 0 \<le> lv sc ts' u)"
proof (induction us arbitrary: P ts)
  case Nil
  then show ?case by simp
next
  case (Cons v us)
  from Cons.prems(1) have v: "v \<in> set vs" "set us \<subseteq> set vs" by auto
  with n have "B v < int n" by blast
  from level_step [OF li rG lk tm B v(1) this Cons.prems(2,3)] obtain l ts1 where
    a: "computeScheduleLevel n cx sc (pos sc v) ts = Inr (l, ts1)" "levels_ok cx B sc vs (P - {v}) ts1" "0 \<le> lv sc ts1 v"
      "\<forall>u \<in> set vs. 0 \<le> lv sc ts u \<longrightarrow> 0 \<le> lv sc ts1 u" by blast
  have "\<forall>p \<in> P - {v}. \<not> sr_exec (sx_graph cx) p" using Cons.prems(3) by blast
  from Cons.IH [OF v(2) a(2) this] obtain ts' where
    b: "level_all n cx sc ts1 (map (pos sc) us) = Inr ts'" "levels_ok cx B sc vs (P - {v} - set us) ts'" "\<forall>v \<in> set us. 0 \<le> lv sc ts' v"
      "\<forall>u \<in> set vs. 0 \<le> lv sc ts1 u \<longrightarrow> 0 \<le> lv sc ts' u" by blast
  have "P - {v} - set us = P - set (v # us)" by auto
  with b(2) have c: "levels_ok cx B sc vs (P - set (v # us)) ts'" by simp
  have d: "\<forall>u \<in> set (v # us). 0 \<le> lv sc ts' u" using b(3,4) a(3) v(1) by simp
  have e: "\<forall>u \<in> set vs. 0 \<le> lv sc ts u \<longrightarrow> 0 \<le> lv sc ts' u" using a(4) b(4) by blast
  have "level_all n cx sc ts (map (pos sc) (v # us)) = Inr ts'" using a(1) b(1) by simp
  with c d e show ?case by blast
qed

text \<open>At the end: a task that can run is above what it reads from; exactly the others are marked.\<close>

lemma levels_final:
  assumes li: "listed (sx_graph cx) sc vs" and rG: "readable (sx_graph cx)" and tm: "timed cx" and ok: "levels_ok cx B sc vs {} ts"
    and nn: "\<forall>v \<in> set vs. 0 \<le> lv sc ts v" and pl: "\<forall>v \<in> set (sr_vertices (sx_graph cx)). v \<notin> set vs \<longrightarrow> sr_exec (sx_graph cx) v" and v: "v \<in> set vs"
  shows "lv sc ts v \<noteq> NSL \<Longrightarrow> reads (sx_graph cx) v w \<Longrightarrow> w \<in> set vs \<Longrightarrow> lv sc ts w \<noteq> NSL \<and> lv sc ts w + time_of cx w \<le> lv sc ts v \<and> 0 < time_of cx w"
    and "lv sc ts v = NSL \<longleftrightarrow> \<not> able (sx_graph cx) vs v"
proof -
  let ?G = "sx_graph cx"
  have V: "v \<in> set (sr_vertices ?G)" if "v \<in> set vs" for v using li that by (auto simp: listed_def)
  have ex: "sr_exec ?G v" if "v \<in> set vs" "lv sc ts v \<noteq> NSL" for v
    using levelsD(2) [OF ok that(1)] that(2) by (auto simp: level_ok_def)
  have low: "lv sc ts w \<noteq> NSL \<and> lv sc ts w + time_of cx w \<le> lv sc ts v \<and> 0 < time_of cx w"
    if "v \<in> set vs" "lv sc ts v \<noteq> NSL" "reads ?G v w" "w \<in> set vs" for v w
  proof -
    have nw: "lv sc ts w \<noteq> NSL" using ok that unfolding levels_ok_def by blast
    from that(3) obtain e where e: "e \<in> set (in_edges_of ?G v)" "source_of ?G e = w" by (auto simp: reads_def)
    with levelsD(2) [OF ok that(1)] nn that nw ex have "lv sc ts w + time_of cx w \<le> lv sc ts v" by (auto simp: level_ok_def Let_def)
    moreover have "0 < time_of cx w" using tm ex [OF that(4) nw] V [OF that(4)] by (simp add: timed_def)
    ultimately show ?thesis using nw by simp
  qed
  show "lv sc ts v \<noteq> NSL \<Longrightarrow> reads ?G v w \<Longrightarrow> w \<in> set vs \<Longrightarrow> lv sc ts w \<noteq> NSL \<and> lv sc ts w + time_of cx w \<le> lv sc ts v \<and> 0 < time_of cx w"
    by (rule low [OF v])
  have "lv sc ts v \<noteq> NSL \<longrightarrow> can_run ?G (\<lambda>u. u \<notin> set vs) v" using v
  proof (induction "nat (lv sc ts v)" arbitrary: v rule: less_induct)
    case less
    show ?case
    proof (rule impI, rule can_after)
      fix w assume l: "lv sc ts v \<noteq> NSL" and r: "reads ?G v w"
      show "sr_exec ?G w \<and> can_run ?G (\<lambda>u. u \<notin> set vs) w"
      proof (cases "w \<in> set vs")
        case False
        with pl reads_vertex [OF rG V [OF less.prems] r] show ?thesis by (simp add: can_placed)
      next
        case True
        from low [OF less.prems l r True] nn less.prems True have "lv sc ts w \<noteq> NSL" "nat (lv sc ts w) < nat (lv sc ts v)" by fastforce+
        with less.hyps [OF _ True] ex [OF True] show ?thesis by blast
      qed
    qed
  qed
  then show "lv sc ts v = NSL \<longleftrightarrow> \<not> able ?G vs v"
    using ex [OF v] levelsD(2) [OF ok v] by (auto simp: level_ok_def)
qed

end
