(* ===== verification/ListProps.thy ===== *)
theory ListProps
  imports ListLevels
begin

text \<open>
  The phases of the list scheduler: the indices of the tasks, the levels, the sort, the tasks that are left, and what is appended to the schedule.
\<close>

subsection \<open>The indices\<close>

definition with_ixs :: "schedule \<Rightarrow> nat list \<Rightarrow> schedule" where
  "with_ixs sc xs = sc\<lparr>sc_store := (sc_store sc)\<lparr>ts_vertexIx := xs\<rparr>\<rparr>"

lemma with_ixs_sel [simp]: "ts_vertexIx (sc_store (with_ixs sc xs)) = xs" "ts_tasks (sc_store (with_ixs sc xs)) = ts_tasks (sc_store sc)"
  "sc_tasks (with_ixs sc xs) = sc_tasks sc" "with_ixs (with_ixs sc xs) ys = with_ixs sc ys" "sc_stats (with_ixs sc xs) = sc_stats sc"
  by (simp_all add: with_ixs_def)

lemma with_ixs_self: "with_ixs sc (ts_vertexIx (sc_store sc)) = sc" by (simp add: with_ixs_def)

lemma set_vertex_ix_eq: "v < length xs \<Longrightarrow> set_vertex_ix v i (with_ixs sc xs) = Inr (with_ixs sc (xs[v := i]))"
  by (simp add: set_vertex_ix_def set_at_def with_ixs_def)

lemma reset_loop:
  assumes "distinct (map fst ts)" and "\<forall>t \<in> set ts. fst t < length xs"
  shows "m \<le> length ts \<Longrightarrow> \<exists>ys. foldE (\<lambda>sc k. set_vertex_ix (fst (ts ! k)) k sc) (with_ixs sc xs) [0..<m] = Inr (with_ixs sc ys) \<and> length ys = length xs \<and>
    (\<forall>k < m. ys ! (fst (ts ! k)) = k) \<and> (\<forall>v. v \<notin> fst ` set (take m ts) \<longrightarrow> ys ! v = xs ! v)"
proof (induction m)
  case 0
  then show ?case by auto
next
  case (Suc m)
  then obtain ys where ys: "foldE (\<lambda>sc k. set_vertex_ix (fst (ts ! k)) k sc) (with_ixs sc xs) [0..<m] = Inr (with_ixs sc ys)"
    "length ys = length xs" "\<forall>k < m. ys ! (fst (ts ! k)) = k" "\<forall>v. v \<notin> fst ` set (take m ts) \<longrightarrow> ys ! v = xs ! v" by auto
  let ?v = "fst (ts ! m)"
  have v: "?v < length ys" using assms(2) Suc.prems ys(2) by simp
  have "?v \<noteq> fst (ts ! k)" if "k < m" for k
    using assms(1) that Suc.prems by (auto simp: distinct_conv_nth)
  then have "\<forall>k < Suc m. ys[?v := m] ! (fst (ts ! k)) = k" using ys(3) v by (auto simp: less_Suc_eq)
  moreover have "\<forall>u. u \<notin> fst ` set (take (Suc m) ts) \<longrightarrow> ys[?v := m] ! u = xs ! u"
    using ys(4) Suc.prems by (auto simp: take_Suc_conv_app_nth nth_list_update)
  ultimately show ?case using ys(1,2) set_vertex_ix_eq [OF v]
    by (intro exI [of _ "ys[?v := m]"]) (simp add: foldE_append)
qed

definition new_task :: "srdag \<Rightarrow> nat \<Rightarrow> list_task" where
  "new_task G v = (v, if sr_exec G v then -1 else NSL)"

lemma create_loop:
  "distinct us \<Longrightarrow> \<forall>v \<in> set us. v < length xs \<and> v < length (sg_vs G) \<Longrightarrow> length ts + length us \<le> size_max \<Longrightarrow>
    \<forall>k < length ts. xs ! (fst (ts ! k)) = k \<Longrightarrow>
    \<exists>ys. foldE (createListTask G) (with_ixs sc xs, ts) us = Inr (with_ixs sc ys, ts @ map (new_task G) [v \<leftarrow> us. xs ! v = size_max]) \<and>
      length ys = length xs \<and> (\<forall>u. xs ! u \<noteq> size_max \<longrightarrow> ys ! u = xs ! u) \<and> (\<forall>k < length (ts @ map (new_task G) [v \<leftarrow> us. xs ! v = size_max]). ys ! fst ((ts @ map (new_task G) [v \<leftarrow> us. xs ! v = size_max]) ! k) = k)"
proof (induction us arbitrary: xs ts)
  case Nil
  then show ?case by auto
next
  case (Cons v us)
  from Cons.prems(2) have v: "vertex_ix (with_ixs sc xs) v = Inr (xs ! v)" "sr_executable G v = Inr (sr_exec G v)" "v < length xs"
    by (simp_all add: vertex_ix_def sr_executable_def sr_at_def)
  show ?case
  proof (cases "xs ! v = size_max")
    case False
    with Cons.IH [of xs ts] Cons.prems v show ?thesis by (simp add: createListTask_def)
  next
    case True
    let ?ys = "xs[v := length ts]" and ?ts = "ts @ [new_task G v]"
    have "v \<noteq> fst (ts ! k)" if "k < length ts" for k using Cons.prems(3,4) that True by force
    then have "\<forall>k < length ?ts. ?ys ! (fst (?ts ! k)) = k"
      using Cons.prems(4) v(3) by (auto simp: nth_append new_task_def less_Suc_eq)
    moreover have "[u \<leftarrow> us. ?ys ! u = size_max] = [u \<leftarrow> us. xs ! u = size_max]"
    proof (intro filter_cong refl)
      fix u assume "u \<in> set us"
      then have "v \<noteq> u" using Cons.prems(1) by auto
      then show "(?ys ! u = size_max) = (xs ! u = size_max)" by simp
    qed
    moreover have "createListTask G (with_ixs sc xs, ts) v = Inr (with_ixs sc ?ys, ?ts)"
      using v True by (simp add: createListTask_def set_vertex_ix_eq new_task_def)
    moreover have "?ys ! u = xs ! u" if "xs ! u \<noteq> size_max" for u using that True by (metis nth_list_update_neq)
    moreover from this have "?ys ! u \<noteq> size_max" if "xs ! u \<noteq> size_max" for u using that by simp
    ultimately show ?thesis using Cons.IH [of ?ys ?ts] Cons.prems True
      by simp (elim exE conjE, rule exI, intro conjI, assumption+, simp_all)
  qed
qed


subsection \<open>The tasks and their levels\<close>

text \<open>The vertices without a place in the schedule: the tasks that an earlier call left, and the vertices without an index.\<close>

definition unplaced :: "srdag \<Rightarrow> schedule \<Rightarrow> list_task list \<Rightarrow> nat list" where
  "unplaced G sc ts = map fst ts @ [v \<leftarrow> sr_vertices G. v \<notin> fst ` set ts \<and> \<not> has_ix sc v]"

text \<open>What holds between the calls: the tasks that were left are those of executable vertices, what was placed reads only what was placed.\<close>

definition list_ready :: "srdag \<Rightarrow> schedule \<Rightarrow> list_task list \<Rightarrow> bool" where
  "list_ready G sc ts \<longleftrightarrow> distinct (sr_vertices G) \<and> distinct (map fst ts) \<and> 2 * length (sr_vertices G) \<le> size_max \<and>
     (\<forall>t \<in> set ts. fst t \<in> set (sr_vertices G) \<and> sr_exec G (fst t) \<and> snd t = -1) \<and>
     (\<forall>v \<in> set (sr_vertices G). v < length (ts_vertexIx (sc_store sc)) \<and>
        (v \<notin> set (unplaced G sc ts) \<longrightarrow> sr_exec G v \<and> (\<forall>w. reads G v w \<longrightarrow> w \<notin> set (unplaced G sc ts))))"

definition new_tasks :: "srdag \<Rightarrow> nat list \<Rightarrow> list_task list" where "new_tasks G vs = map (new_task G) vs"

lemma list_tasks_created:
  assumes r: "list_ready G sc ts" and G: "readable G"
  obtains xs where "resetUnScheduledTasks sc ts = Inr (with_ixs sc (fst xs))"
    and "foldE (createListTask G) (with_ixs sc (fst xs), ts) (sr_vertices G) = Inr (with_ixs sc (snd xs), new_tasks G (unplaced G sc ts))"
    and "listed G (with_ixs sc (snd xs)) (unplaced G sc ts)"
    and "length (snd xs) = length (ts_vertexIx (sc_store sc))"
    and "\<And>v. v \<in> set (sr_vertices G) \<Longrightarrow> v \<notin> set (unplaced G sc ts) \<Longrightarrow> snd xs ! v = ts_vertexIx (sc_store sc) ! v"
proof -
  let ?X = "ts_vertexIx (sc_store sc)" and ?V = "sr_vertices G" and ?vs = "unplaced G sc ts"
  from r have t: "distinct (map fst ts)" "\<forall>t \<in> set ts. fst t < length ?X" "\<forall>v \<in> set ?V. v < length ?X" "distinct ?V"
    "2 * length ?V \<le> size_max" "\<forall>t \<in> set ts. new_task G (fst t) = t" "fst ` set ts \<subseteq> set ?V" by (auto simp: list_ready_def new_task_def)
  have "card (fst ` set ts) \<le> card (set ?V)" by (rule card_mono) (use t(7) in simp_all)
  then have "length ts \<le> length ?V" using t(1,4) by (metis distinct_card length_map set_map)
  with t(5) have t5: "length ts + length ?V \<le> size_max" by simp
  from reset_loop [OF t(1,2) order_refl, of sc] obtain ys where
    y: "resetUnScheduledTasks sc ts = Inr (with_ixs sc ys)" "length ys = length ?X" "\<forall>k < length ts. ys ! (fst (ts ! k)) = k"
      "\<forall>v. v \<notin> fst ` set ts \<longrightarrow> ys ! v = ?X ! v" by (auto simp: resetUnScheduledTasks_def with_ixs_self)
  have "ys ! v \<noteq> size_max" if "v \<in> fst ` set ts" for v
  proof -
    from that obtain k where "k < length ts" "fst (ts ! k) = v" by (auto simp: in_set_conv_nth)
    moreover from this(1) t5 have "k < size_max" by linarith
    ultimately show ?thesis using y(3) by auto
  qed
  then have "ys ! v = size_max \<longleftrightarrow> v \<notin> fst ` set ts \<and> \<not> has_ix sc v" for v
    using y(4) by (cases "v \<in> fst ` set ts") (simp_all add: has_ix_def)
  then have n: "[v \<leftarrow> ?V. ys ! v = size_max] = [v \<leftarrow> ?V. v \<notin> fst ` set ts \<and> \<not> has_ix sc v]"
    by simp
  have m: "map (new_task G) (map fst ts) = ts" using t(6) by (simp add: map_idI)
  have "\<forall>v \<in> set ?V. v < length ys \<and> v < length (sg_vs G)" using t(3) y(2) G by (simp add: readable_def)
  note c = create_loop [OF t(4) this t5 y(3), of sc, unfolded n]
  have e: "ts @ map (new_task G) [v \<leftarrow> ?V. v \<notin> fst ` set ts \<and> \<not> has_ix sc v] = new_tasks G ?vs"
    by (simp only: new_tasks_def unplaced_def map_append m)
  from c obtain zs where z: "foldE (createListTask G) (with_ixs sc ys, ts) ?V = Inr (with_ixs sc zs, new_tasks G ?vs)" "length zs = length ys"
      "\<forall>u. ys ! u \<noteq> size_max \<longrightarrow> zs ! u = ys ! u" "\<forall>k < length (new_tasks G ?vs). zs ! (fst (new_tasks G ?vs ! k)) = k" unfolding e by blast
  then have z3: "\<forall>k < length ?vs. zs ! (?vs ! k) = k" by (simp add: new_tasks_def new_task_def)
  have "\<forall>t \<in> set ts. fst t \<in> set ?V" using r unfolding list_ready_def by blast
  then have "set ?vs \<subseteq> set ?V" by (auto simp: unplaced_def)
  moreover have "u \<in> set ?vs" if "v \<in> set ?vs" "u \<in> set ?V" "reads G u v" for u v
    using r that unfolding list_ready_def by blast
  ultimately have "listed G (with_ixs sc zs) ?vs"
    using z(2) z3 y(2) t(3) unfolding listed_def by simp
  moreover have "zs ! v = ?X ! v" if "v \<in> set ?V" "v \<notin> set ?vs" for v
  proof -
    from that have "v \<notin> fst ` set ts" "?X ! v \<noteq> size_max" by (auto simp: unplaced_def has_ix_def)
    with y(4) z(3) show ?thesis by simp
  qed
  ultimately show ?thesis using that [of "(ys, zs)"] y(1,2) z(1,2) by simp
qed

text \<open>The levels: the tasks that cannot run are marked, the others have a level above that of what they read from, by its time.\<close>

definition leveled :: "sr_ctx \<Rightarrow> (nat \<Rightarrow> int) \<Rightarrow> list_task list \<Rightarrow> bool" where
  "leveled cx B ts \<longleftrightarrow>
     (\<forall>(v, l) \<in> set ts. l = NSL \<longleftrightarrow> \<not> able (sx_graph cx) (map fst ts) v) \<and>
     (\<forall>(v, l) \<in> set ts. l \<noteq> NSL \<longrightarrow> 0 \<le> l \<and> l \<le> B v) \<and>
     (\<forall>(v, l) \<in> set ts. \<forall>(w, k) \<in> set ts. l \<noteq> NSL \<longrightarrow> reads (sx_graph cx) v w \<longrightarrow> k + time_of cx w \<le> l \<and> k < l)"

lemma leveledI:
  assumes "\<And>v l. (v, l) \<in> set ts \<Longrightarrow> l = NSL \<longleftrightarrow> \<not> able (sx_graph cx) (map fst ts) v"
    and "\<And>v l. (v, l) \<in> set ts \<Longrightarrow> l \<noteq> NSL \<Longrightarrow> 0 \<le> l \<and> l \<le> B v"
    and "\<And>v l w k. (v, l) \<in> set ts \<Longrightarrow> (w, k) \<in> set ts \<Longrightarrow> l \<noteq> NSL \<Longrightarrow> reads (sx_graph cx) v w \<Longrightarrow> k + time_of cx w \<le> l \<and> k < l"
  shows "leveled cx B ts"
  unfolding leveled_def
proof (intro conjI ballI, goal_cases)
  case (1 t) then show ?case using assms(1) [of "fst t" "snd t"] by (simp only: split_beta prod.collapse)
next
  case (2 t) then show ?case using assms(2) [of "fst t" "snd t"] by (simp add: split_beta)
next
  case (3 t)
  have "snd u + time_of cx (fst u) \<le> snd t \<and> snd u < snd t" if "u \<in> set ts" "snd t \<noteq> NSL" "reads (sx_graph cx) (fst t) (fst u)" for u
    using assms(3) [of "fst t" "snd t" "fst u" "snd u"] 3 that by simp
  then show ?case by (simp add: split_beta)
qed

lemma list_levels_run:
  assumes "list_ready (sx_graph cx) sc ts" and "readable (sx_graph cx)" and "linked (sx_graph cx)" and "timed cx" and "path_bound cx B"
    and "\<forall>v \<in> set (sr_vertices (sx_graph cx)). B v < int n"
  obtains xs ts' where "list_levels n cx (sc, ts) = Inr (with_ixs sc xs, ts')" and "map fst ts' = unplaced (sx_graph cx) sc ts"
    and "leveled cx B ts'"
    and "length xs = length (ts_vertexIx (sc_store sc))" and "distinct (map fst ts')"
    and "\<And>v. v \<in> set (sr_vertices (sx_graph cx)) \<Longrightarrow> v \<notin> set (unplaced (sx_graph cx) sc ts) \<Longrightarrow> xs ! v = ts_vertexIx (sc_store sc) ! v"
proof -
  let ?G = "sx_graph cx" and ?vs = "unplaced (sx_graph cx) sc ts"
  from list_tasks_created [OF assms(1,2)] obtain xs where
    xs: "resetUnScheduledTasks sc ts = Inr (with_ixs sc (fst xs))"
      "foldE (createListTask ?G) (with_ixs sc (fst xs), ts) (sr_vertices ?G) = Inr (with_ixs sc (snd xs), new_tasks ?G ?vs)"
      "listed ?G (with_ixs sc (snd xs)) ?vs" "length (snd xs) = length (ts_vertexIx (sc_store sc))"
      "\<And>v. v \<in> set (sr_vertices ?G) \<Longrightarrow> v \<notin> set ?vs \<Longrightarrow> snd xs ! v = ts_vertexIx (sc_store sc) ! v" by blast
  let ?sc = "with_ixs sc (snd xs)" and ?P = "{v. \<not> sr_exec ?G v}"
  have f: "map fst (new_tasks ?G ?vs) = ?vs" by (simp add: new_tasks_def new_task_def comp_def)
  have lv0: "lv ?sc (new_tasks ?G ?vs) v = (if sr_exec ?G v then -1 else NSL)" if "v \<in> set ?vs" for v
    using listed_pos [OF xs(3) that] by (simp add: lv_def new_tasks_def new_task_def)
  have ok: "levels_ok cx B ?sc ?vs ?P (new_tasks ?G ?vs)"
    unfolding levels_ok_def using f lv0 by (auto simp: level_ok_def NON_SCHEDULABLE_LEVEL_def)
  have V: "v \<in> set (sr_vertices ?G)" if "v \<in> set ?vs" for v using xs(3) that by (auto simp: listed_def)
  then have n: "\<forall>v \<in> set ?vs. B v < int n" using assms(6) by blast
  have ps: "map (pos ?sc) ?vs = [0..<length (new_tasks ?G ?vs)]"
    using xs(3) by (intro nth_equalityI) (simp_all add: new_tasks_def listed_def pos_def)
  from level_loop [OF xs(3) assms(2-5) n order_refl ok] obtain ts' where
    t: "level_all n cx ?sc (new_tasks ?G ?vs) [0..<length (new_tasks ?G ?vs)] = Inr ts'" "levels_ok cx B ?sc ?vs (?P - set ?vs) ts'"
      "\<forall>v \<in> set ?vs. 0 \<le> lv ?sc ts' v" unfolding ps by blast
  have ok': "levels_ok cx B ?sc ?vs {} ts'" using t(2) unfolding levels_ok_def by blast
  have pl: "\<forall>v \<in> set (sr_vertices ?G). v \<notin> set ?vs \<longrightarrow> sr_exec ?G v" using assms(1) unfolding list_ready_def by blast
  have lv: "v \<in> set ?vs \<and> l = lv ?sc ts' v" if "(v, l) \<in> set ts'" for v l
  proof -
    from that obtain k where k: "k < length ts'" "ts' ! k = (v, l)" by (auto simp: in_set_conv_nth)
    then have "?vs ! k = v" "k < length ?vs" using levelsD(1,3) [OF ok'] by (metis fst_conv nth_map) (use k(1) levelsD(3) [OF ok'] in simp)
    moreover from this have "pos ?sc v = k" using xs(3) by (auto simp: listed_def pos_def)
    ultimately show ?thesis using k by (auto simp: lv_def)
  qed
  note fin = levels_final [OF xs(3) assms(2,4) ok' t(3) pl]
  have a: "l = NSL \<longleftrightarrow> \<not> able ?G (map fst ts') v" if "(v, l) \<in> set ts'" for v l
  proof -
    from lv [OF that] have h: "v \<in> set ?vs" "l = lv ?sc ts' v" by simp_all
    show ?thesis unfolding h(2) levelsD(1) [OF ok'] by (rule fin(2) [OF h(1)])
  qed
  have b: "0 \<le> l \<and> l \<le> B v" if "(v, l) \<in> set ts'" "l \<noteq> NSL" for v l
    using levelsD(2) [OF ok', of v] lv [OF that(1)] t(3) that(2) by (auto simp: level_ok_def)
  have c: "k + time_of cx w \<le> l \<and> k < l" if "(v, l) \<in> set ts'" "(w, k) \<in> set ts'" "l \<noteq> NSL" "reads ?G v w" for v l w k
    using fin(1) [of v w] lv [OF that(1)] lv [OF that(2)] that(3,4) by simp
  have ll: "list_levels n cx (sc, ts) = Inr (?sc, ts')" using xs(1,2) t(1) by (simp add: list_levels_def)
  have d: "distinct (map fst ts')" unfolding levelsD(1) [OF ok'] distinct_conv_nth using xs(3) by (metis listed_def)
  show ?thesis by (rule that [OF ll levelsD(1) [OF ok'] leveledI [OF a b c] xs(4) d xs(5)])
qed

text \<open>
  C9. The levels of the list scheduler. When every executable vertex has a positive time and \<open>B\<close> bounds the paths of the graph below the
  level that stands for a task that cannot run, the search of the levels returns, and there is one task for each vertex without a place.
  Those that are marked are exactly the ones that cannot run, and no other task has a level below the level of what it reads from and the time
  of that, so what a vertex reads from has a lower level. The schedule is changed in the indices of its vertices only.
\<close>

theorem list_levels_correct:
  assumes "list_ready (sx_graph cx) sc ts" and "readable (sx_graph cx)" and "linked (sx_graph cx)" and "timed cx" and "path_bound cx B"
    and "\<forall>v \<in> set (sr_vertices (sx_graph cx)). B v < int n"
  shows "\<exists>xs ts'. list_levels n cx (sc, ts) = Inr (with_ixs sc xs, ts') \<and> map fst ts' = unplaced (sx_graph cx) sc ts \<and>
    distinct (map fst ts') \<and> leveled cx B ts'"
  by (rule list_levels_run [OF assms]) blast

text \<open>The levels of the two vertices of the launch, which take five units each.\<close>

lemma pair_ends: "sr_port_edges Source pair_graph 0 = Inr [0]" "sr_port_edges Source pair_graph (Suc 0) = Inr []" "sr_end Sink pair_graph 0 = Inr 1"
  by (simp_all add: pair_graph_def launch_graph_def sr_port_edges_def vertex_at_def sr_end_def edge_at_def sample_vertex_def sample_edge_def)

lemma pair_linked: "linked pair_graph"
  by (simp add: linked_def pair_sel pair_ends out_edges_of_def sink_of_edge_def in_edges_of_def source_of_def)

lemma pair_time: "v < 2 \<Longrightarrow> exec_time pair_ctx v = Inr 5"
  by (auto simp: exec_time_def pair_ctx_def launch_env_def minExecutionTime_def launch_platform_def min_on_cluster_def isClusterMappable_def
    cl_peArray_def timingOnPE_def launch_pe_def less_2_cases_iff)

lemma pair_unplaced: "unplaced pair_graph pair_schedule [] = [1, 0]"
  by (simp add: unplaced_def pair_sel)

abbreviation pair_bound :: "nat \<Rightarrow> int" where "pair_bound \<equiv> \<lambda>v. 5 * int v"

lemma pair_list_hyps: "list_ready pair_graph pair_schedule []" "timed pair_ctx" "path_bound pair_ctx pair_bound"
proof -
  show "list_ready pair_graph pair_schedule []"
    unfolding list_ready_def pair_unplaced by (simp add: pair_sel) (simp add: pair_schedule_def)
  have t: "time_of pair_ctx v = 5" if "v < 2" for v using pair_time [OF that] by (simp add: time_of_def i32_cast_def)
  show "timed pair_ctx" using pair_time t by (auto simp: timed_def pair_sel)
  show "path_bound pair_ctx pair_bound" using t by (auto simp: path_bound_def pair_sel in_edges_of_def source_of_def NON_SCHEDULABLE_LEVEL_def)
qed

lemma pair_able: "able pair_graph vs 0" "able pair_graph vs 1"
proof -
  have c0: "can_run pair_graph (\<lambda>u. u \<notin> set vs) 0" by (rule can_after) (simp add: pair_reads)
  have c1: "can_run pair_graph (\<lambda>u. u \<notin> set vs) 1" by (rule can_after) (simp add: pair_reads c0 pair_sel)
  show "able pair_graph vs 0" "able pair_graph vs 1" using c0 c1 by (simp_all add: pair_sel)
qed

lemma pair_leveled:
  assumes "map fst ts = [1, 0]" and l: "leveled pair_ctx pair_bound ts"
  shows "ts = [(1, 5), (0, 0)]"
proof -
  from assms(1) obtain a b where ts: "ts = [(1, a), (0, b)]" by (auto simp: map_eq_Cons_conv)
  have t: "time_of pair_ctx 0 = 5" using pair_time [of 0] by (simp add: time_of_def i32_cast_def)
  have n: "a \<noteq> NSL" "b \<noteq> NSL" using l pair_able [of "[1, 0]"] by (simp_all add: leveled_def ts pair_sel(1))
  have "b = 0" "a \<le> 5" using l n by (simp_all add: leveled_def ts)
  moreover have "reads pair_graph 1 0" by (simp add: pair_reads)
  then have "b + 5 \<le> a" using l n t by (simp add: leveled_def ts pair_sel(1))
  ultimately show ?thesis using ts by auto
qed

lemma pair_below: "\<forall>v \<in> set (sr_vertices pair_graph). pair_bound v < int 6" by (simp add: pair_sel)

theorem list_levels_correct_witness:
  "\<exists>xs. list_levels 6 pair_ctx (pair_schedule, []) = Inr (with_ixs pair_schedule xs, [(1, 5), (0, 0)])"
proof -
  from list_levels_correct [of pair_ctx pair_schedule "[]" pair_bound 6, unfolded pair_sel(1) pair_unplaced, OF pair_list_hyps(1) pair_hyps(1) pair_linked
      pair_list_hyps(2,3) pair_below] obtain xs ts' where
    r: "list_levels 6 pair_ctx (pair_schedule, []) = Inr (with_ixs pair_schedule xs, ts')" "map fst ts' = [1, 0]" "leveled pair_ctx pair_bound ts'"
    by (elim exE conjE)
  from r(1) show ?thesis unfolding pair_leveled [OF r(2,3)] by (rule exI)
qed

end
