(* ===== verification/ListOrder.thy ===== *)
theory ListOrder
  imports ListProps
begin

text \<open>
  The sorted tasks of the list scheduler: the ones that cannot run are split off, the others are appended to the schedule.
\<close>

subsection \<open>The tasks that are left\<close>

definition left_tasks :: "srdag \<Rightarrow> list_task list \<Rightarrow> list_task list" where
  "left_tasks G zs = map (\<lambda>t. (fst t, -1)) (filter (\<lambda>t. sr_exec G (fst t)) zs)"

lemma count_step:
  assumes "get_at ts i = Inr (v, NSL)" and "sr_executable G v = Inr False" and "v < length is"
    and "ts' = butlast (ts[i := last ts])"
  shows "countNonSchedulableTasks G (Suc i) (with_ixs sc is, ts) =
    countNonSchedulableTasks G i (with_ixs sc (is[v := size_max]), if i < length ts' then ts'[i := (fst (ts' ! i), -1)] else ts')"
  by (simp add: assms set_vertex_ix_eq)

lemma count_loop:
  assumes "xs \<noteq> []" and "snd (last xs) \<noteq> NSL"
  shows "\<forall>t \<in> set zs. snd t = NSL \<and> fst t < length is \<and> fst t < length (sg_vs G) \<Longrightarrow> distinct (map fst zs) \<Longrightarrow> \<forall>t \<in> set ys. snd t = -1 \<Longrightarrow>
    \<exists>left js. countNonSchedulableTasks G (length (xs @ zs)) (with_ixs sc is, xs @ zs @ ys) = Inr (length left, with_ixs sc js, xs @ left) \<and>
      mset left = mset ys + mset (left_tasks G zs) \<and> length js = length is \<and>
      (\<forall>u. js ! u = (if u \<in> fst ` set zs \<and> \<not> sr_exec G u then size_max else is ! u))"
proof (induction zs arbitrary: ys "is" rule: rev_induct)
  case Nil
  from assms obtain as a where xs: "xs = as @ [a]" "snd a \<noteq> NSL" by (cases xs rule: rev_cases) auto
  then have "countNonSchedulableTasks G (length xs) (with_ixs sc is, xs @ ys) = Inr (length ys, with_ixs sc is, xs @ ys)"
    by (cases a) (simp add: get_at_def nth_append)
  then show ?case by (intro exI [of _ ys] exI [of _ "is"]) (simp add: left_tasks_def)
next
  case (snoc z zs)
  let ?i = "length xs + length zs"
  obtain v where z: "z = (v, NSL)" "v < length is" "v < length (sg_vs G)" using snoc.prems(1) by (cases z) auto
  have at: "get_at (xs @ (zs @ [z]) @ ys) ?i = Inr (v, NSL)" by (simp add: get_at_def nth_append z(1))
  have x: "sr_executable G v = Inr (sr_exec G v)" using z(3) by (simp add: sr_executable_def sr_at_def)
  show ?case
  proof (cases "sr_exec G v")
    case True
    have "(xs @ (zs @ [z]) @ ys)[?i := (v, -1)] = xs @ zs @ (v, -1) # ys" by (simp add: list_update_append)
    then have c: "countNonSchedulableTasks G (length (xs @ zs @ [z])) (with_ixs sc is, xs @ (zs @ [z]) @ ys) =
        countNonSchedulableTasks G (length (xs @ zs)) (with_ixs sc is, xs @ zs @ (v, -1) # ys)"
      using at x True by (simp add: nth_append z(1))
    from snoc.prems have "\<forall>t \<in> set zs. snd t = NSL \<and> fst t < length is \<and> fst t < length (sg_vs G)" "distinct (map fst zs)"
      "\<forall>t \<in> set ((v, -1) # ys). snd t = -1" by auto
    from snoc.IH [OF this] obtain left js where l:
      "countNonSchedulableTasks G (length (xs @ zs)) (with_ixs sc is, xs @ zs @ (v, -1) # ys) = Inr (length left, with_ixs sc js, xs @ left)"
      "mset left = mset ((v, -1) # ys) + mset (left_tasks G zs)" "length js = length is"
      "\<forall>u. js ! u = (if u \<in> fst ` set zs \<and> \<not> sr_exec G u then size_max else is ! u)" by blast
    moreover have "left_tasks G (zs @ [z]) = left_tasks G zs @ [(v, -1)]" using True z(1) by (simp add: left_tasks_def)
    moreover have "js ! u = (if u \<in> fst ` set (zs @ [z]) \<and> \<not> sr_exec G u then size_max else is ! u)" for u
      using l(4) z(1) True by auto
    ultimately show ?thesis using c by (intro exI [of _ left] exI [of _ js]) simp
  next
    case False
    let ?js = "is[v := size_max]"
    let ?ts = "butlast ((xs @ (zs @ [z]) @ ys)[?i := last (xs @ (zs @ [z]) @ ys)])"
    obtain ys' where ys': "(if ?i < length ?ts then ?ts[?i := (fst (?ts ! ?i), -1)] else ?ts) = xs @ zs @ ys'" "mset ys' = mset ys"
    proof (cases ys rule: rev_cases)
      case Nil
      then have "?ts = xs @ zs" by (simp add: butlast_append list_update_append)
      then show ?thesis using that [of "[]"] Nil by simp
    next
      case (snoc as a)
      then have "?ts = xs @ zs @ a # as" by (simp add: butlast_append list_update_append)
      moreover have "(fst a, -1) = a" using snoc \<open>\<forall>t \<in> set ys. snd t = -1\<close> by (cases a) auto
      ultimately show ?thesis using that [of "a # as"] snoc by (simp add: list_update_append nth_append)
    qed
    then have c: "countNonSchedulableTasks G (length (xs @ zs @ [z])) (with_ixs sc is, xs @ (zs @ [z]) @ ys) =
        countNonSchedulableTasks G (length (xs @ zs)) (with_ixs sc ?js, xs @ zs @ ys')"
      using count_step [OF at x [unfolded False [THEN eq_False [THEN iffD2]]] z(2) refl, unfolded ys'(1)] by simp
    have p: "\<forall>t \<in> set zs. snd t = NSL \<and> fst t < length ?js \<and> fst t < length (sg_vs G)" "distinct (map fst zs)"
      using snoc.prems(1,2) by auto
    have "set ys' = set ys" using ys'(2) by (metis set_mset_mset)
    then have "\<forall>t \<in> set ys'. snd t = -1" using snoc.prems(3) by simp
    from snoc.IH [OF p this] obtain left js where l:
      "countNonSchedulableTasks G (length (xs @ zs)) (with_ixs sc ?js, xs @ zs @ ys') = Inr (length left, with_ixs sc js, xs @ left)"
      "mset left = mset ys' + mset (left_tasks G zs)" "length js = length ?js"
      "\<forall>u. js ! u = (if u \<in> fst ` set zs \<and> \<not> sr_exec G u then size_max else ?js ! u)" by blast
    have "left_tasks G (zs @ [z]) = left_tasks G zs" using False z(1) by (simp add: left_tasks_def)
    moreover have "js ! u = (if u \<in> fst ` set (zs @ [z]) \<and> \<not> sr_exec G u then size_max else is ! u)" for u
      using l(4) z(1,2) False by (auto simp: nth_list_update)
    ultimately show ?thesis using c l ys'(2) by (intro exI [of _ left] exI [of _ js]) simp
  qed
qed

subsection \<open>The order\<close>

text \<open>What \<open>std::sort\<close> requires of the comparison, and what it then does.\<close>

definition strict_weak :: "('a \<Rightarrow> 'a \<Rightarrow> bool) \<Rightarrow> 'a list \<Rightarrow> bool" where
  "strict_weak before xs \<longleftrightarrow> (\<forall>x \<in> set xs. \<not> before x x) \<and>
     (\<forall>x \<in> set xs. \<forall>y \<in> set xs. \<forall>z \<in> set xs. (before x y \<longrightarrow> before y z \<longrightarrow> before x z) \<and>
        (\<not> before x y \<longrightarrow> \<not> before y x \<longrightarrow> \<not> before y z \<longrightarrow> \<not> before z y \<longrightarrow> \<not> before x z \<and> \<not> before z x))"

definition sorts :: "(('a \<Rightarrow> 'a \<Rightarrow> bool) \<Rightarrow> 'a list \<Rightarrow> 'a list) \<Rightarrow> bool" where
  "sorts srt \<longleftrightarrow> (\<forall>before xs. strict_weak before xs \<longrightarrow>
     mset (srt before xs) = mset xs \<and> sorted_wrt (\<lambda>x y. \<not> before y x) (srt before xs))"

lemma list_before_levels: "\<not> list_before G y x \<Longrightarrow> snd x \<le> snd y"
  by (cases x; cases y) (auto simp: list_before_def Let_def split: if_splits)

text \<open>The sorted tasks: those with a level, in an order in which every task follows what it reads from, then the marked ones.\<close>

lemma sorted_split:
  assumes s: "sorts srt" "strict_weak (list_before G) ts" and l: "\<forall>(v, l) \<in> set ts. l \<noteq> NSL \<longrightarrow> l < NSL"
  obtains xs zs where "srt (list_before G) ts = xs @ zs" and "mset (xs @ zs) = mset ts" and "\<forall>t \<in> set xs. snd t \<noteq> NSL" and "\<forall>t \<in> set zs. snd t = NSL"
    and "\<forall>i j. i < j \<longrightarrow> j < length xs \<longrightarrow> snd (xs ! i) \<le> snd (xs ! j)"
proof -
  let ?s = "srt (list_before G) ts"
  let ?xs = "takeWhile (\<lambda>t. snd t \<noteq> NSL) ?s" and ?zs = "dropWhile (\<lambda>t. snd t \<noteq> NSL) ?s"
  from s have m: "mset ?s = mset ts" and o: "sorted_wrt (\<lambda>x y. \<not> list_before G y x) ?s" by (auto simp: sorts_def)
  have o': "sorted_wrt (\<lambda>x y. snd x \<le> snd y) ?s" by (rule sorted_wrt_mono_rel [OF _ o]) (rule list_before_levels)
  have o2: "sorted_wrt (\<lambda>x y. snd x \<le> snd y) (?xs @ ?zs)" using o' by simp
  have st: "set ?s = set ts" using m by (metis set_mset_mset)
  have a: "\<forall>t \<in> set ?zs. snd t = NSL"
  proof (cases ?zs)
    case (Cons z zs)
    then have z: "snd z = NSL" using hd_dropWhile [of "\<lambda>t. snd t \<noteq> NSL" ?s] by simp
    have "\<forall>t \<in> set zs. NSL \<le> snd t" using o2 z Cons unfolding sorted_wrt_append by simp
    moreover have "snd t \<noteq> NSL \<longrightarrow> snd t < NSL" if "t \<in> set zs" for t
    proof -
      have "t \<in> set ?s" using Cons that by (metis list.set_intros(2) set_dropWhileD)
      with l st show ?thesis by (cases t) auto
    qed
    ultimately show ?thesis using Cons z by fastforce
  next
    case Nil
    show ?thesis by (simp only: Nil) simp
  qed
  have b: "\<forall>t \<in> set ?xs. snd t \<noteq> NSL" by (auto dest: set_takeWhileD)
  have "sorted_wrt (\<lambda>x y. snd x \<le> snd y) ?xs" using o2 unfolding sorted_wrt_append by blast
  then have c: "\<forall>i j. i < j \<longrightarrow> j < length ?xs \<longrightarrow> snd (?xs ! i) \<le> snd (?xs ! j)" by (simp add: sorted_wrt_iff_nth_less)
  show ?thesis by (rule that [OF _ _ b a c]) (use m in \<open>simp_all only: takeWhile_dropWhile_id\<close>)
qed


subsection \<open>The schedule\<close>

lemma append_loop:
  assumes "sr_tasks_ok cx sc"
  shows "fst ` set xs \<subseteq> set (sr_vertices (sx_graph cx)) \<Longrightarrow> foldE (\<lambda>sc t. sr_addTask cx (fst t) sc) sc xs = Inr (appended cx sc (map fst xs))"
proof (induction xs rule: rev_induct)
  case (snoc t xs)
  then show ?case using sr_addTask_eq [OF appended_ok [OF assms], of "fst t"] by (simp add: foldE_append)
qed simp

text \<open>The tasks without a place after a call: those that could not run.\<close>

lemma unplaced_after:
  assumes r: "list_ready G sc ts" and left: "mset left = mset (left_tasks G zs)" and vs: "set us \<union> fst ` set zs = set (unplaced G sc ts)"
    and d: "set us \<inter> fst ` set zs = {}" and ix: "\<And>v. v \<in> set (sr_vertices G) \<Longrightarrow> \<not> (v \<in> fst ` set zs \<and> sr_exec G v) \<Longrightarrow>
      has_ix sc' v \<longleftrightarrow> v \<in> set us \<or> v \<notin> set (unplaced G sc ts)"
  shows "set (unplaced G sc' left) = set (unplaced G sc ts) - set us"
    and "fst ` set left = {v \<in> fst ` set zs. sr_exec G v}"
proof -
  have "set left = set (left_tasks G zs)" using left by (metis set_mset_mset)
  then show l: "fst ` set left = {v \<in> fst ` set zs. sr_exec G v}" by (force simp: left_tasks_def)
  have V: "set (unplaced G sc ts) \<subseteq> set (sr_vertices G)"
  proof -
    have "\<forall>t \<in> set ts. fst t \<in> set (sr_vertices G)" using r unfolding list_ready_def by blast
    then show ?thesis by (auto simp: unplaced_def)
  qed
  have "set (unplaced G sc' left) = fst ` set left \<union> {v \<in> set (sr_vertices G). v \<notin> fst ` set left \<and> \<not> has_ix sc' v}"
    by (auto simp: unplaced_def)
  also have "\<dots> = {v \<in> set (sr_vertices G). v \<in> fst ` set zs}"
    unfolding l using ix d vs V by blast
  also have "\<dots> = set (unplaced G sc ts) - set us" using vs d V by blast
  finally show "set (unplaced G sc' left) = set (unplaced G sc ts) - set us" .
qed

lemma ready_after:
  assumes r: "list_ready G sc ts" and left: "mset left = mset (left_tasks G zs)" and z: "distinct (map fst zs)" "fst ` set zs \<subseteq> set (sr_vertices G)"
    and u: "set (unplaced G sc' left) = set (unplaced G sc ts) - set us" and l: "length (ts_vertexIx (sc_store sc')) = length (ts_vertexIx (sc_store sc))"
    and us: "\<And>v w. v \<in> set us \<Longrightarrow> sr_exec G v \<and> (reads G v w \<longrightarrow> w \<in> set (unplaced G sc ts) \<longrightarrow> w \<in> set us)"
  shows "list_ready G sc' left"
proof -
  have st: "set left = set (left_tasks G zs)" using left by (metis set_mset_mset)
  have "mset (map fst left) = mset (map fst (left_tasks G zs))" using left by simp
  moreover have "map fst (left_tasks G zs) = filter (sr_exec G) (map fst zs)" by (simp add: left_tasks_def filter_map comp_def)
  then have "distinct (map fst (left_tasks G zs))" using z(1) by simp
  ultimately have "distinct (map fst left)" using mset_eq_imp_distinct_iff by blast
  moreover have "\<forall>t \<in> set left. fst t \<in> set (sr_vertices G) \<and> sr_exec G (fst t) \<and> snd t = -1"
    unfolding st using z(2) by (auto simp: left_tasks_def)
  moreover have "sr_exec G v \<and> (\<forall>w. reads G v w \<longrightarrow> w \<notin> set (unplaced G sc' left))" if v: "v \<in> set (sr_vertices G)" "v \<notin> set (unplaced G sc' left)" for v
  proof (cases "v \<in> set us")
    case True
    with us [of v] u show ?thesis by blast
  next
    case False
    with v(2) u have "v \<notin> set (unplaced G sc ts)" by blast
    with r v(1) u show ?thesis unfolding list_ready_def by blast
  qed
  ultimately show ?thesis using r l unfolding list_ready_def by simp
qed

text \<open>
  The sorted vector is a part that can be executed, in an order that respects the edges, followed by the vertices marked as not schedulable.
\<close>

lemma sorted_levels:
  assumes "list_ready (sx_graph cx) sc ts" and "path_bound cx B" and "map fst ts3 = unplaced (sx_graph cx) sc ts" and "leveled cx B ts3"
    and "distinct (map fst ts3)" and "sorts srt" and "strict_weak (list_before (sx_graph cx)) ts3"
  obtains X Z where "srt (list_before (sx_graph cx)) ts3 = X @ Z" and "\<forall>t \<in> set X. snd t \<noteq> NSL" and "\<forall>t \<in> set Z. snd t = NSL"
    and "distinct (map fst X @ map fst Z)" and "set (map fst X) \<union> fst ` set Z = set (unplaced (sx_graph cx) sc ts)" and "set (map fst X) \<inter> fst ` set Z = {}"
    and "set (unplaced (sx_graph cx) sc ts) \<subseteq> set (sr_vertices (sx_graph cx))"
    and "\<And>v. v \<in> set (map fst X) \<longleftrightarrow> v \<in> set (unplaced (sx_graph cx) sc ts) \<and> able (sx_graph cx) (unplaced (sx_graph cx) sc ts) v"
    and "\<And>i w. i < length (map fst X) \<Longrightarrow> reads (sx_graph cx) (map fst X ! i) w \<Longrightarrow> w \<in> set (unplaced (sx_graph cx) sc ts) \<Longrightarrow> w \<in> set (take i (map fst X))"
proof -
  let ?G = "sx_graph cx" and ?vs = "unplaced (sx_graph cx) sc ts" and ?V = "set (sr_vertices (sx_graph cx))"
  have V: "set ?vs \<subseteq> ?V"
  proof -
    have "\<forall>t \<in> set ts. fst t \<in> ?V" using assms(1) unfolding list_ready_def by blast
    then show ?thesis by (auto simp: unplaced_def)
  qed
  have lt: "v \<in> set ?vs \<and> (l = NSL \<longleftrightarrow> \<not> able ?G ?vs v) \<and> (l \<noteq> NSL \<longrightarrow> l < NSL)" if t: "(v, l) \<in> set ts3" for v l
  proof -
    have v: "v \<in> set ?vs" using t assms(3) by (metis fst_conv image_eqI list.set_map)
    with V assms(2) have "B v < NSL" by (auto simp: path_bound_def)
    with v assms(4) t show ?thesis unfolding leveled_def assms(3) by fastforce
  qed
  then have "\<forall>(v, l) \<in> set ts3. l \<noteq> NSL \<longrightarrow> l < NSL" by blast
  from sorted_split [OF assms(6,7) this] obtain X Z where
    s: "srt (list_before ?G) ts3 = X @ Z" "mset (X @ Z) = mset ts3" "\<forall>t \<in> set X. snd t \<noteq> NSL" "\<forall>t \<in> set Z. snd t = NSL"
      "\<forall>i j. i < j \<longrightarrow> j < length X \<longrightarrow> snd (X ! i) \<le> snd (X ! j)" .
  let ?us = "map fst X"
  have st: "set X \<union> set Z = set ts3" using s(2) by (metis set_append set_mset_mset)
  have dd: "distinct (map fst X @ map fst Z)" using s(2) assms(5) by (metis map_append mset_eq_imp_distinct_iff mset_map)
  have fs: "fst ` set ts3 = set ?vs" using assms(3) by (metis list.set_map)
  then have uZ: "set ?us \<union> fst ` set Z = set ?vs" "set ?us \<inter> fst ` set Z = {}" using st dd by (simp_all add: image_Un [symmetric])
  have us: "v \<in> set ?us \<longleftrightarrow> v \<in> set ?vs \<and> able ?G ?vs v" for v
  proof
    assume "v \<in> set ?us"
    then obtain l where X: "(v, l) \<in> set X" by auto
    then have "l \<noteq> NSL" "(v, l) \<in> set ts3" using s(3) st by force+
    with lt [OF this(2), THEN conjunct2, THEN conjunct1] lt [OF this(2), THEN conjunct1] show "v \<in> set ?vs \<and> able ?G ?vs v" by simp
  next
    assume v: "v \<in> set ?vs \<and> able ?G ?vs v"
    then have "v \<in> fst ` set ts3" unfolding fs by simp
    then obtain l where l: "(v, l) \<in> set ts3" by auto
    have "l \<noteq> NSL"
    proof
      assume "l = NSL"
      then have "\<not> able ?G ?vs v" by (rule lt [OF l, THEN conjunct2, THEN conjunct1, THEN iffD1])
      with v show False by blast
    qed
    with l st s(4) have "(v, l) \<in> set X" by fastforce
    then show "v \<in> set ?us" by force
  qed
  have rb: "w \<in> set (take i ?us)" if i: "i < length ?us" "reads ?G (?us ! i) w" and wv: "w \<in> set ?vs" for i w
  proof -
    have "w \<in> fst ` set ts3" unfolding fs by (rule wv)
    then obtain k where w: "(w, k) \<in> set ts3" by auto
    have Xi: "X ! i \<in> set X" "X ! i \<in> set ts3" "snd (X ! i) \<noteq> NSL" "?us ! i = fst (X ! i)" using i(1) st s(3) by auto
    with assms(4) w i(2) have k: "k < snd (X ! i)" unfolding leveled_def by (fastforce simp: split_beta)
    moreover have "snd (X ! i) < NSL" using lt [of "fst (X ! i)" "snd (X ! i)"] Xi by simp
    ultimately have "(w, k) \<in> set X" using w st s(4) by fastforce
    then obtain j where j: "j < length X" "X ! j = (w, k)" by (auto simp: in_set_conv_nth)
    have "\<not> i \<le> j" using s(5) [rule_format, of i j] j k by (cases "i = j") auto
    then show "w \<in> set (take i ?us)" using j by (auto simp: in_set_conv_nth intro!: exI [of _ j])
  qed
  show thesis by (rule that [OF s(1,3,4) dd uZ V us rb])
qed

text \<open>
  C8. The list scheduler, under the hypotheses of its levels, with what \<open>std::sort\<close> promises when the comparison is a strict weak order on the
  tasks, and when at least one vertex can run. It returns, and appends, once each, exactly the vertices without a place that can run, each
  after all that it reads from. What could not run keeps no place: a later call finds it, and finds the schedule in the state it needs.
\<close>

theorem list_schedule_correct:
  assumes "list_ready (sx_graph cx) sc ts" and "readable (sx_graph cx)" and "linked (sx_graph cx)" and "timed cx" and "path_bound cx B"
    and "\<forall>v \<in> set (sr_vertices (sx_graph cx)). B v < int n" and "sr_tasks_ok cx sc" and "sorts srt"
    and "\<forall>s ts'. list_levels n cx (sc, ts) = Inr (s, ts') \<longrightarrow> strict_weak (list_before (sx_graph cx)) ts'"
    and "\<exists>v \<in> set (unplaced (sx_graph cx) sc ts). able (sx_graph cx) (unplaced (sx_graph cx) sc ts) v"
  shows "\<exists>sc' ts' us. list_schedule srt n cx (sc, ts) = Inr (sc', ts') \<and> sc_tasks sc' = sc_tasks sc @ map (\<lambda>v. (sx_task cx v, 0)) us \<and>
    distinct us \<and> (\<forall>v. v \<in> set us \<longleftrightarrow> v \<in> set (unplaced (sx_graph cx) sc ts) \<and> able (sx_graph cx) (unplaced (sx_graph cx) sc ts) v) \<and>
    (\<forall>i < length us. \<forall>w. reads (sx_graph cx) (us ! i) w \<longrightarrow> w \<notin> set (unplaced (sx_graph cx) sc ts) \<or> w \<in> set (take i us)) \<and>
    set (unplaced (sx_graph cx) sc' ts') = set (unplaced (sx_graph cx) sc ts) - set us \<and> list_ready (sx_graph cx) sc' ts'"
proof -
  let ?G = "sx_graph cx" and ?vs = "unplaced (sx_graph cx) sc ts" and ?V = "set (sr_vertices (sx_graph cx))"
  obtain xs ts3 where lr: "list_levels n cx (sc, ts) = Inr (with_ixs sc xs, ts3)"
    "map fst ts3 = ?vs" "leveled cx B ts3" "length xs = length (ts_vertexIx (sc_store sc))" "distinct (map fst ts3)"
    "\<forall>v. v \<in> ?V \<longrightarrow> v \<notin> set ?vs \<longrightarrow> xs ! v = ts_vertexIx (sc_store sc) ! v"
    by (rule list_levels_run [OF assms(1-6)]) blast
  obtain X Z where s: "srt (list_before ?G) ts3 = X @ Z" "\<forall>t \<in> set X. snd t \<noteq> NSL" "\<forall>t \<in> set Z. snd t = NSL"
    and dd: "distinct (map fst X @ map fst Z)" and uZ: "set (map fst X) \<union> fst ` set Z = set ?vs" "set (map fst X) \<inter> fst ` set Z = {}"
    and V: "set ?vs \<subseteq> ?V" and us: "\<And>v. v \<in> set (map fst X) \<longleftrightarrow> v \<in> set ?vs \<and> able ?G ?vs v"
    and rb: "\<And>i w. i < length (map fst X) \<Longrightarrow> reads ?G (map fst X ! i) w \<Longrightarrow> w \<in> set ?vs \<Longrightarrow> w \<in> set (take i (map fst X))"
    by (rule sorted_levels [OF assms(1,5) lr(2,3,5) assms(8) assms(9) [rule_format, OF lr(1)]]) blast
  let ?us = "map fst X"
  have "X \<noteq> []" using us assms(10) by auto
  moreover from this s(2) have "snd (last X) \<noteq> NSL" by simp
  moreover have "\<forall>t \<in> set Z. snd t = NSL \<and> fst t < length xs \<and> fst t < length (sg_vs ?G)"
  proof
    fix t assume t: "t \<in> set Z"
    then have "fst t \<in> ?V" using uZ(1) V by blast
    with t s(3) assms(1,2) lr(4) show "snd t = NSL \<and> fst t < length xs \<and> fst t < length (sg_vs ?G)" by (simp add: readable_def list_ready_def)
  qed
  moreover have "distinct (map fst Z)" using dd by simp
  ultimately obtain left js where c: "countNonSchedulableTasks ?G (length (X @ Z)) (with_ixs sc xs, X @ Z) = Inr (length left, with_ixs sc js, X @ left)"
    "mset left = mset (left_tasks ?G Z)" "length js = length xs"
    "\<forall>u. js ! u = (if u \<in> fst ` set Z \<and> \<not> sr_exec ?G u then size_max else xs ! u)"
    using count_loop [of X Z xs ?G "[]" sc] by auto
  let ?sc = "with_ixs sc js"
  have ok: "sr_tasks_ok cx ?sc" using assms(7) c(3) lr(4) by (simp add: sr_tasks_ok_def)
  have uV: "fst ` set X \<subseteq> ?V" using uZ(1) V by auto
  have run: "list_schedule srt n cx (sc, ts) = Inr (appended cx ?sc ?us, left)"
    using lr(1) s(1) c(1) append_loop [OF ok uV] by (simp add: list_schedule_def)
  have ix: "has_ix (appended cx ?sc ?us) v \<longleftrightarrow> v \<in> set ?us \<or> v \<notin> set ?vs" if v: "v \<in> ?V" "\<not> (v \<in> fst ` set Z \<and> sr_exec ?G v)" for v
  proof -
    have "has_ix (appended cx ?sc ?us) v \<longleftrightarrow> has_ix ?sc v \<or> v \<in> set ?us" by (rule appended_has_ix [OF ok]) (use uV in simp)
    moreover have "has_ix ?sc v" if n: "v \<notin> set ?vs"
    proof -
      have "v \<notin> fst ` set Z" using n uZ(1) by blast
      then have "js ! v = ts_vertexIx (sc_store sc) ! v" using c(4) lr(6) [rule_format, OF v(1) n] by simp
      moreover have "has_ix sc v" using n v(1) by (auto simp: unplaced_def)
      ultimately show ?thesis by (simp add: has_ix_def)
    qed
    moreover have "\<not> has_ix ?sc v" if "v \<in> fst ` set Z" using that v(2) c(4) by (simp add: has_ix_def)
    ultimately show ?thesis using uZ by blast
  qed
  have after: "set (unplaced ?G (appended cx ?sc ?us) left) = set ?vs - set ?us" by (rule unplaced_after [OF assms(1) c(2) uZ ix])
  have "list_ready ?G (appended cx ?sc ?us) left"
  proof (rule ready_after [OF assms(1) c(2) _ _ after])
    show "distinct (map fst Z)" using dd by simp
    show "fst ` set Z \<subseteq> ?V" using uZ(1) V by blast
    show "length (ts_vertexIx (sc_store (appended cx ?sc ?us))) = length (ts_vertexIx (sc_store sc))" using c(3) lr(4) by (simp add: appended_frame)
    fix v w assume v: "v \<in> set ?us"
    then obtain i where i: "i < length ?us" "?us ! i = v" by (auto simp: in_set_conv_nth)
    show "sr_exec ?G v \<and> (reads ?G v w \<longrightarrow> w \<in> set ?vs \<longrightarrow> w \<in> set ?us)"
      using us [of v] v rb [OF i(1), of w] i(2) in_set_takeD [of w i ?us] by blast
  qed
  moreover have "sc_tasks (appended cx ?sc ?us) = sc_tasks sc @ map (\<lambda>v. (sx_task cx v, 0)) ?us" by (simp add: appended_tasks)
  moreover have "distinct ?us" using dd by simp
  ultimately show ?thesis using run us rb after by blast
qed


text \<open>Insertion sort is a sort, which the witness takes for \<open>std::sort\<close>.\<close>

fun insert_by :: "('a \<Rightarrow> 'a \<Rightarrow> bool) \<Rightarrow> 'a \<Rightarrow> 'a list \<Rightarrow> 'a list" where
  "insert_by before x [] = [x]"
| "insert_by before x (y # ys) = (if before y x then y # insert_by before x ys else x # y # ys)"

definition sort_by :: "('a \<Rightarrow> 'a \<Rightarrow> bool) \<Rightarrow> 'a list \<Rightarrow> 'a list" where "sort_by before xs = foldr (insert_by before) xs []"

lemma insert_by_mset [simp]: "mset (insert_by before x ys) = add_mset x (mset ys)"
  by (induction ys) auto

lemma insert_by_set: "set (insert_by before x ys) = insert x (set ys)"
  by (induction ys) auto

lemma strict_weakD:
  assumes "strict_weak before xs" and "x \<in> set xs" and "y \<in> set xs" and "z \<in> set xs"
  shows "before x y \<Longrightarrow> before y z \<Longrightarrow> before x z"
    and "\<not> before x y \<Longrightarrow> \<not> before y x \<Longrightarrow> \<not> before y z \<Longrightarrow> \<not> before z y \<Longrightarrow> \<not> before x z"
    and "\<not> before x x"
  using assms(1) [unfolded strict_weak_def] assms(2-4) by blast+

lemma not_before_trans:
  assumes s: "strict_weak before zs" and m: "x \<in> set zs" "y \<in> set zs" "z \<in> set zs" and n: "\<not> before z y" "\<not> before y x"
  shows "\<not> before z x"
proof
  assume b: "before z x"
  show False
  proof (cases "before x y \<or> before y z")
    case True
    with b n show False using strict_weakD(1) [OF s m(3,1,2)] strict_weakD(1) [OF s m(2,3,1)] by blast
  next
    case False
    with n b show False using strict_weakD(2) [OF s m(3,2,1)] by blast
  qed
qed

lemma strict_weak_subset: "strict_weak before xs \<Longrightarrow> set ys \<subseteq> set xs \<Longrightarrow> strict_weak before ys"
  unfolding strict_weak_def by (intro conjI ballI impI) (blast dest: subsetD)+

lemma insert_by_sorted:
  "strict_weak before (x # ys) \<Longrightarrow> sorted_wrt (\<lambda>a b. \<not> before b a) ys \<Longrightarrow> sorted_wrt (\<lambda>a b. \<not> before b a) (insert_by before x ys)"
proof (induction ys)
  case (Cons y ys)
  have m: "x \<in> set (x # y # ys)" "y \<in> set (x # y # ys)" by simp_all
  show ?case
  proof (cases "before y x")
    case True
    have "\<not> before x y" using strict_weakD(1,3) [OF Cons.prems(1) m(1,2,1)] True by blast
    moreover have "strict_weak before (x # ys)" by (rule strict_weak_subset [OF Cons.prems(1)]) auto
    with Cons have "sorted_wrt (\<lambda>a b. \<not> before b a) (insert_by before x ys)" by simp
    ultimately show ?thesis using Cons.prems(2) True by (simp add: insert_by_set)
  next
    case False
    have "\<not> before z x" if z: "z \<in> set ys" for z
      by (rule not_before_trans [OF Cons.prems(1) m(1,2), of z]) (use z False Cons.prems(2) in simp_all)
    with Cons.prems(2) False show ?thesis by simp
  qed
qed simp

lemma sort_by_mset: "mset (sort_by before xs) = mset xs"
  by (induction xs) (simp_all add: sort_by_def)

lemma sorts_sort_by: "sorts sort_by"
  unfolding sorts_def
proof (intro allI impI conjI)
  fix before and xs :: "'a list" assume "strict_weak before xs"
  then show "sorted_wrt (\<lambda>x y. \<not> before y x) (sort_by before xs)"
  proof (induction xs)
    case (Cons x xs)
    have "set (sort_by before xs) = set xs" by (metis set_mset_mset sort_by_mset)
    then have "strict_weak before (x # sort_by before xs)" by (intro strict_weak_subset [OF Cons.prems]) auto
    moreover have "strict_weak before xs" by (rule strict_weak_subset [OF Cons.prems]) auto
    then have "sorted_wrt (\<lambda>x y. \<not> before y x) (sort_by before xs)" by (rule Cons.IH)
    ultimately have "sorted_wrt (\<lambda>x y. \<not> before y x) (insert_by before x (sort_by before xs))" by (rule insert_by_sorted)
    then show ?case by (simp add: sort_by_def)
  qed (simp add: sort_by_def)
qed (rule sort_by_mset)

lemma pair_order:
  assumes "distinct us" and "set us = {0, 1}" and "\<And>i. i < length us \<Longrightarrow> reads pair_graph (us ! i) 0 \<Longrightarrow> 0 \<in> set (take i us)"
  shows "us = [0, 1]"
proof -
  have "length us = 2" using distinct_card [OF assms(1)] assms(2) by simp
  then obtain a b where ab: "us = [a, b]" by (cases us; cases "tl us") auto
  have "\<not> reads pair_graph a 0" using assms(3) [of 0] ab by auto
  then have "a \<noteq> 1" using pair_reads [of 1 0] by auto
  moreover have "a \<in> {0, 1}" "b \<in> {0, 1}" "a \<noteq> b" using assms(1,2) ab by auto
  ultimately show ?thesis using ab by auto
qed

theorem list_schedule_correct_witness:
  "\<exists>sc' ts'. list_schedule sort_by 6 pair_ctx (pair_schedule, []) = Inr (sc', ts') \<and> sc_tasks sc' = [(0, 0), (1, 0)]"
proof -
  have lv: "ts' = [(1, 5), (0, 0)]" if "list_levels 6 pair_ctx (pair_schedule, []) = Inr (s, ts')" for s ts'
  proof -
    obtain xs ts3 where "list_levels 6 pair_ctx (pair_schedule, []) = Inr (with_ixs pair_schedule xs, ts3)" "map fst ts3 = [1, 0]"
      "leveled pair_ctx pair_bound ts3" "length xs = length (ts_vertexIx (sc_store pair_schedule))" "distinct (map fst ts3)"
      by (rule list_levels_run [of pair_ctx pair_schedule "[]" pair_bound 6, unfolded pair_sel(1) pair_unplaced, OF pair_list_hyps(1) pair_hyps(1)
        pair_linked pair_list_hyps(2,3) pair_below])
    with that pair_leveled show ?thesis by simp
  qed
  have sw: "\<forall>s ts'. list_levels 6 pair_ctx (pair_schedule, []) = Inr (s, ts') \<longrightarrow> strict_weak (list_before pair_graph) ts'"
    using lv by (auto simp: strict_weak_def list_before_def)
  have "\<exists>v \<in> set [1, 0]. able pair_graph [1, 0] v" using pair_able(1) [of "[1, 0]"] by simp
  from list_schedule_correct [of pair_ctx pair_schedule "[]" pair_bound 6 sort_by, unfolded pair_sel(1) pair_unplaced, OF pair_list_hyps(1) pair_hyps(1)
      pair_linked pair_list_hyps(2,3) pair_below pair_hyps(3) sorts_sort_by sw this] obtain sc' ts' us where
    r: "list_schedule sort_by 6 pair_ctx (pair_schedule, []) = Inr (sc', ts')" "sc_tasks sc' = sc_tasks pair_schedule @ map (\<lambda>v. (sx_task pair_ctx v, 0)) us"
      "distinct us" "\<forall>v. v \<in> set us \<longleftrightarrow> v \<in> set [1, 0] \<and> able pair_graph [1, 0] v"
      "\<forall>i < length us. \<forall>w. reads pair_graph (us ! i) w \<longrightarrow> w \<notin> set [1, 0] \<or> w \<in> set (take i us)" by (elim exE conjE)
  have s: "set us = {0, 1}" using r(4) pair_able [of "[1, 0]"] by auto
  have "0 \<in> set (take i us)" if "i < length us" "reads pair_graph (us ! i) 0" for i using r(5) that by auto
  from pair_order [OF r(3) s this] have "us = [0, 1]" .
  with r(1,2) show ?thesis by (simp add: pair_sel)
qed

end
