(* ===== verification/Optims.thy ===== *)
theory Optims
  imports SRLinkage FifoAlloc GraphAlloc CMath
begin

text \<open>
  \<open>graphs-tools/transformation/optims\<close>: the rewriting of the single-rate graph after the transformation. Objects that are destroyed stay in
  the store. Names and logs are not modelled. Whether the reference of an END actor is fed by a persistent delay is the argument \<open>persistent\<close>.
\<close>

fun flip :: "side \<Rightarrow> side" where "flip Source = Sink" | "flip Sink = Source"

text \<open>\<open>inputEdge(0)->source()\<close> (side \<open>Sink\<close>) or \<open>outputEdge(0)->sink()\<close> (side \<open>Source\<close>).\<close>

definition across :: "side \<Rightarrow> srdag \<Rightarrow> nat \<Rightarrow> nat result" where
  "across sd G v = bindE (first_edge sd G v) (\<lambda>e. sr_end (flip sd) G e)"

definition edge_rate :: "srdag \<Rightarrow> nat \<Rightarrow> int result" where
  "edge_rate G e = bindE (sr_edge_data G e) (\<lambda>d. Inr (se_rate d))"

definition candidate :: "srdag \<Rightarrow> vertex_type \<Rightarrow> nat \<Rightarrow> bool result" where
  "candidate G t v = bindE (sr_type G v) (\<lambda>s. bindE (sr_at G v) (\<lambda>x. Inr (s = t \<and> sv_taskIx x = size_max)))"

text \<open>The unscheduled vertices of a type with a property.\<close>

definition collect :: "srdag \<Rightarrow> vertex_type \<Rightarrow> (nat \<Rightarrow> bool result) \<Rightarrow> nat list result" where
  "collect G t p =
     foldE (\<lambda>vs v. bindE (candidate G t v) (\<lambda>b. if \<not> b then Inr vs else bindE (p v) (\<lambda>k. Inr (if k then vs @ [v] else vs)))) [] (sr_vertices G)"

definition faces :: "side \<Rightarrow> srdag \<Rightarrow> vertex_type \<Rightarrow> nat \<Rightarrow> bool result" where
  "faces sd G t v = bindE (across sd G v) (candidate G t)"

subsection \<open>Unitary vertices\<close>

definition removeUnitary :: "srdag \<Rightarrow> nat \<Rightarrow> (srdag \<times> bool) result" where
  "removeUnitary G v =
     bindE (first_edge Sink G v) (\<lambda>i. bindE (first_edge Source G v) (\<lambda>out.
     bindE (edge_rate G i) (\<lambda>ri. bindE (edge_rate G out) (\<lambda>ro.
     if ri \<noteq> ro then Inr (G, False)
     else bindE (edge_at (sg_store G) out) (\<lambda>x.
       bindE (sr_setEnd Sink G i (ed_snk x) (ed_snkPort x)) (\<lambda>G1.
       bindE (sr_removeEdge G1 out) (\<lambda>G2. bindE (sr_removeVertex G2 (Some v)) (\<lambda>G3. Inr (G3, True)))))))))"

definition optimizeUnitaryVertex :: "srdag \<Rightarrow> nat \<Rightarrow> (srdag \<times> bool) result" where
  "optimizeUnitaryVertex G v =
     bindE (sr_type G v) (\<lambda>t.
     if t = DUPLICATE \<or> t = FORK then bindE (sr_edge_count Source G v) (\<lambda>n. if n = 1 then removeUnitary G v else Inr (G, False))
     else if t = JOIN \<or> t = TAIL \<or> t = HEAD then bindE (sr_edge_count Sink G v) (\<lambda>n. if n = 1 then removeUnitary G v else Inr (G, False))
     else if t = REPEAT then removeUnitary G v
     else Inr (G, False))"

text \<open>A vertex that is removed is replaced by the last one, at the same position: every round brings the position and the end closer.\<close>

fun unitary_loop :: "nat \<Rightarrow> nat \<Rightarrow> srdag \<times> bool \<Rightarrow> (srdag \<times> bool) result" where
  "unitary_loop 0 i s = Inl Diverges"
| "unitary_loop (Suc n) i (G, optimized) =
     (if i \<ge> length (sr_vertices G) then Inr (G, optimized)
      else bindE (optimizeUnitaryVertex G (sr_vertices G ! i)) (\<lambda>(G1, r). unitary_loop n (if r then i else Suc i) (G1, optimized \<or> r)))"

definition reduceUnitaryRateActors :: "srdag \<Rightarrow> (srdag \<times> bool) result" where
  "reduceUnitaryRateActors G = unitary_loop (Suc (length (sr_vertices G))) 0 (G, False)"

subsection \<open>Partial single-rate transformation\<close>

record edge_linker =
  el_vertex :: "nat option"
  el_rate :: int
  el_portIx :: nat

definition linker_none :: edge_linker where "linker_none = \<lparr>el_vertex = None, el_rate = 0, el_portIx = 0\<rparr>"

fun computeNEdge :: "int \<Rightarrow> int \<Rightarrow> edge_linker list \<Rightarrow> nat result" where
  "computeNEdge rate totalRate [] = (if rate > totalRate then Inl Undefined_Behaviour else Inr 0)"
| "computeNEdge rate totalRate (x # xs) =
     (if rate > totalRate then bindE (i64 (totalRate + el_rate x)) (\<lambda>t. bindE (computeNEdge rate t xs) (\<lambda>n. Inr (Suc n))) else Inr 0)"

text \<open>The rounds of the inner loops: one of the ends is the fork or the join, and the other rate is what is left to link.\<close>

definition partial_step :: "(srdag \<Rightarrow> nat \<Rightarrow> edge_linker \<Rightarrow> srdag result) \<Rightarrow>
    srdag \<times> int \<times> edge_linker list \<Rightarrow> nat \<Rightarrow> (srdag \<times> int \<times> edge_linker list) result" where
  "partial_step connect = (\<lambda>(G, rate, working) i. case working of [] \<Rightarrow> Inl Undefined_Behaviour
     | x # rest \<Rightarrow> bindE (connect G i x) (\<lambda>G'. bindE (i64 (rate - el_rate x)) (\<lambda>rate'. Inr (G', rate', rest))))"

definition fork_edge :: "nat \<Rightarrow> srdag \<Rightarrow> nat \<Rightarrow> edge_linker \<Rightarrow> srdag result" where
  "fork_edge fork G i x = bindE (sr_createEdge G (Some fork) i (el_vertex x) (el_portIx x) (el_rate x)) (\<lambda>r. Inr (fst r))"

definition join_edge :: "nat \<Rightarrow> srdag \<Rightarrow> nat \<Rightarrow> edge_linker \<Rightarrow> srdag result" where
  "join_edge join G i x = bindE (sr_createEdge G (el_vertex x) (el_portIx x) (Some join) i (el_rate x)) (\<lambda>r. Inr (fst r))"

type_synonym partial_linkage = "srdag \<times> edge_linker list \<times> edge_linker list"

definition partial_fork :: "srdag \<Rightarrow> edge_linker \<Rightarrow> edge_linker list \<Rightarrow> edge_linker list \<Rightarrow> partial_linkage result" where
  "partial_fork G x ss snks =
     bindE (null_check (el_vertex x)) (\<lambda>_. bindE (computeNEdge (el_rate x) 0 snks) (\<lambda>n.
     if n = 0 then Inl Undefined_Behaviour else
     bindE (createForkVertex G n) (\<lambda>(G1, fork).
     bindE (sr_createEdge G1 (el_vertex x) (el_portIx x) (Some fork) 0 (el_rate x)) (\<lambda>(G2, _).
     bindE (foldE (partial_step (fork_edge fork)) (G2, el_rate x, snks) [0..<n - 1]) (\<lambda>(G3, rate, snks').
       Inr (G3, \<lparr>el_vertex = Some fork, el_rate = rate, el_portIx = n - 1\<rparr> # ss, snks'))))))"

definition partial_join :: "srdag \<Rightarrow> edge_linker \<Rightarrow> edge_linker list \<Rightarrow> edge_linker list \<Rightarrow> partial_linkage result" where
  "partial_join G k ks srcs =
     bindE (null_check (el_vertex k)) (\<lambda>_. bindE (computeNEdge (el_rate k) 0 srcs) (\<lambda>n.
     if n = 0 then Inl Undefined_Behaviour else
     bindE (createJoinVertex G n) (\<lambda>(G1, join).
     bindE (sr_createEdge G1 (Some join) 0 (el_vertex k) (el_portIx k) (el_rate k)) (\<lambda>(G2, _).
     bindE (foldE (partial_step (join_edge join)) (G2, el_rate k, srcs) [0..<n - 1]) (\<lambda>(G3, rate, srcs').
       Inr (G3, srcs', \<lparr>el_vertex = Some join, el_rate = rate, el_portIx = n - 1\<rparr> # ks))))))"

definition partial_link :: "srdag \<Rightarrow> edge_linker list \<Rightarrow> edge_linker list \<Rightarrow> partial_linkage result" where
  "partial_link G srcs snks =
     (case (srcs, snks) of
        (x # ss, k # ks) \<Rightarrow>
          if el_rate k = el_rate x then
            bindE (sr_createEdge G (el_vertex x) (el_portIx x) (el_vertex k) (el_portIx k) (el_rate k)) (\<lambda>(G1, _). Inr (G1, ss, ks))
          else if el_rate x > el_rate k then partial_fork G x ss snks
          else partial_join G k ks srcs
      | _ \<Rightarrow> Inl Undefined_Behaviour)"

lemma computeNEdge_two:
  assumes "el_rate k < r" and "computeNEdge r 0 (k # ks) = Inr n" and "n \<noteq> 0"
  shows "2 \<le> n"
proof (cases "0 < r")
  case True
  with assms obtain t m where m: "i64 (el_rate k) = Inr t" "computeNEdge r t ks = Inr m" "n = Suc m" by (auto split: if_splits)
  then have "t = el_rate k" by (auto simp: i64_eq_Inr)
  with m(2) assms(1) have "m \<noteq> 0" by (cases ks) (auto split: if_splits)
  with m(3) show ?thesis by simp
qed (use assms in simp)

lemma partial_steps_length:
  "foldE (partial_step f) (G, r, ws) xs = Inr (G', r', ws') \<Longrightarrow> length ws = length ws' + length xs"
proof (induction xs arbitrary: G r ws)
  case (Cons y ys)
  then show ?case by (fastforce simp: partial_step_def split: list.splits)
qed simp

lemma partial_link_less:
  assumes "partial_link G srcs snks = Inr (G', srcs', snks')"
  shows "length srcs' + length snks' < length srcs + length snks"
proof -
  from assms obtain x ss k ks where l: "srcs = x # ss" "snks = k # ks" by (auto simp: partial_link_def split: list.splits)
  show ?thesis
  proof (cases "el_rate k = el_rate x")
    case True
    with assms show ?thesis by (auto simp: l partial_link_def)
  next
    case False
    show ?thesis
    proof (cases "el_rate x > el_rate k")
      case True
      with assms False have "partial_fork G x ss snks = Inr (G', srcs', snks')" by (simp add: l partial_link_def)
      then show ?thesis
        using computeNEdge_two [OF True, of ks] by (auto simp: l partial_fork_def split: if_splits dest!: partial_steps_length)
    next
      case le: False
      with False have "el_rate x < el_rate k" by simp
      moreover from assms le False have "partial_join G k ks srcs = Inr (G', srcs', snks')" by (simp add: l partial_link_def)
      ultimately show ?thesis
        using computeNEdge_two [of x "el_rate k" ss] by (auto simp: l partial_join_def split: if_splits dest!: partial_steps_length)
    qed
  qed
qed

function partial_loop :: "srdag \<Rightarrow> edge_linker list \<Rightarrow> edge_linker list \<Rightarrow> partial_linkage result" where
  "partial_loop G srcs snks =
     (if snks = [] then Inr (G, srcs, snks)
      else bindE (partial_link G srcs snks) (\<lambda>(G', srcs', snks'). partial_loop G' srcs' snks'))"
  by auto
termination
  by (relation "measure (\<lambda>(G, srcs, snks). length srcs + length snks)") (auto dest: partial_link_less)

declare partial_loop.simps [simp del]

text \<open>Sources that are left are forgotten.\<close>

definition partialSingleRateTransformation :: "srdag \<Rightarrow> edge_linker list \<Rightarrow> edge_linker list \<Rightarrow> srdag result" where
  "partialSingleRateTransformation G srcs snks = bindE (partial_loop G srcs snks) (\<lambda>(G', _). Inr G')"

subsection \<open>Linkers of the edges of a vertex\<close>

text \<open>Every edge at the ports of \<open>v\<close> is noted, by its port, and removed.\<close>

definition unlink_edge :: "side \<Rightarrow> nat \<Rightarrow> srdag \<times> edge_linker list \<Rightarrow> nat \<Rightarrow> (srdag \<times> edge_linker list) result" where
  "unlink_edge sd v = (\<lambda>(G, linkers) i.
     bindE (sr_edge_at sd G v i) (\<lambda>slot. bindE (null_check slot) (\<lambda>e. bindE (edge_at (sg_store G) e) (\<lambda>x. bindE (edge_rate G e) (\<lambda>r.
     bindE (set_at linkers (port_of sd x) \<lparr>el_vertex = end_of (flip sd) x, el_rate = r, el_portIx = port_of (flip sd) x\<rparr>) (\<lambda>linkers'.
     bindE (sr_removeEdge G e) (\<lambda>G'. Inr (G', linkers'))))))))"

definition unlink_edges :: "side \<Rightarrow> srdag \<Rightarrow> nat \<Rightarrow> (srdag \<times> edge_linker list) result" where
  "unlink_edges sd G v =
     bindE (vertex_at (sg_store G) v) (\<lambda>x. bindE (sr_edge_count sd G v) (\<lambda>n.
       foldE (unlink_edge sd v) (G, replicate n linker_none) [0..<length (ports sd x)]))"

subsection \<open>Repeat and fork\<close>

definition repeat_fork :: "srdag \<Rightarrow> nat \<Rightarrow> bool result" where
  "repeat_fork G v =
     bindE (first_edge Sink G v) (\<lambda>i. bindE (edge_rate G i) (\<lambda>inputRate.
     bindE (first_edge Source G v) (\<lambda>out. bindE (edge_rate G out) (\<lambda>outputRate.
     if inputRate \<noteq> 0 \<and> outputRate smod inputRate = 0 then faces Source G FORK v else Inr False))))"

definition replace_repeat :: "srdag \<Rightarrow> nat \<Rightarrow> srdag result" where
  "replace_repeat G repeat =
     bindE (first_edge Source G repeat) (\<lambda>outEdge. bindE (first_edge Sink G repeat) (\<lambda>inEdge.
     bindE (edge_rate G inEdge) (\<lambda>inRate. bindE (edge_rate G outEdge) (\<lambda>outRate.
     let nEdges = to_u64 (outRate sdiv inRate) in
     bindE (createDuplicateVertex G nEdges) (\<lambda>(G1, duplicate).
     bindE (sr_setEnd Sink G1 inEdge (Some duplicate) 0) (\<lambda>G2.
     bindE (sr_end Sink G2 outEdge) (\<lambda>fork.
     bindE (unlink_edges Source G2 fork) (\<lambda>(G3, sinks).
     bindE (partialSingleRateTransformation G3 (List.map (\<lambda>i. \<lparr>el_vertex = Some duplicate, el_rate = inRate, el_portIx = i\<rparr>) [0..<nEdges]) sinks) (\<lambda>G4.
     bindE (sr_removeVertex G4 (Some repeat)) (\<lambda>G5. bindE (sr_removeVertex G5 (Some fork)) (\<lambda>G6. sr_removeEdge G6 outEdge)))))))))))"

definition reduceRepeatFork :: "srdag \<Rightarrow> (srdag \<times> bool) result" where
  "reduceRepeatFork G =
     bindE (collect G REPEAT (repeat_fork G)) (\<lambda>vs. bindE (foldE replace_repeat G vs) (\<lambda>G'. Inr (G', vs = [])))"

subsection \<open>Forks of forks, joins of joins, duplicates of duplicates\<close>

text \<open>
  \<open>reduceFFJJWorker\<close> with its callbacks: \<open>sd\<close> is the side of the many edges, the outputs of a fork or a duplicate and the inputs of a join.
  \<open>a\<close> is the second fork or the first join, \<open>b\<close> the other one.
\<close>

definition getNextVertex :: "side \<Rightarrow> srdag \<Rightarrow> nat \<Rightarrow> nat result" where "getNextVertex sd = across (flip sd)"

definition countNonNullEdges :: "side \<Rightarrow> srdag \<Rightarrow> nat \<Rightarrow> nat result" where
  "countNonNullEdges sd G v =
     bindE (vertex_at (sg_store G) v) (\<lambda>x. foldE (\<lambda>n slot. case slot of None \<Rightarrow> Inr n
       | Some e \<Rightarrow> bindE (edge_rate G e) (\<lambda>r. Inr (if r \<noteq> 0 then add32 n 1 else n))) 0 (ports sd x))"

definition makeNewVertex :: "vertex_type \<Rightarrow> side \<Rightarrow> srdag \<Rightarrow> nat \<Rightarrow> nat \<Rightarrow> (srdag \<times> nat) result" where
  "makeNewVertex t sd G a b =
     bindE (countNonNullEdges sd G b) (\<lambda>nb. bindE (countNonNullEdges sd G a) (\<lambda>na. let n = (nb + na + (2 ^ 32 - 1)) mod 2 ^ 32 in
     bindE (if t = FORK then createForkVertex G n else if t = DUPLICATE then createDuplicateVertex G n else createJoinVertex G n) (\<lambda>(G1, v).
     bindE (first_edge (flip sd) G1 b) (\<lambda>e. bindE (sr_setEnd (flip sd) G1 e (Some v) 0) (\<lambda>G2. Inr (G2, v))))))"

definition remove_link :: "side \<Rightarrow> srdag \<Rightarrow> nat \<Rightarrow> nat \<Rightarrow> (srdag \<times> nat) result" where
  "remove_link sd G a b =
     bindE (first_edge (flip sd) G a) (\<lambda>e. bindE (edge_at (sg_store G) e) (\<lambda>x. let offset = port_of sd x in
     bindE (sr_edge_at sd G b offset) (\<lambda>slot.
     bindE (case slot of None \<Rightarrow> Inr G | Some e' \<Rightarrow> sr_removeEdge G e') (\<lambda>G'. Inr (G', offset)))))"

definition reconnectEdge :: "side \<Rightarrow> srdag \<Rightarrow> nat \<Rightarrow> nat \<Rightarrow> nat \<Rightarrow> nat \<Rightarrow> srdag result" where
  "reconnectEdge sd G v i new k =
     bindE (sr_edge_at sd G v i) (\<lambda>slot. case slot of None \<Rightarrow> Inr G
     | Some e \<Rightarrow> bindE (edge_rate G e) (\<lambda>r.
         bindE (if r \<noteq> 0 then Inr None
                else bindE (sr_end (flip sd) G e) (\<lambda>w. bindE (sr_at G w) (\<lambda>x. Inr (if sv_executable x then None else Some w)))) (\<lambda>void. case void of
           Some w \<Rightarrow> bindE (sr_removeVertex G (Some w)) (\<lambda>G1. sr_removeEdge G1 e)
         | None \<Rightarrow> sr_setEnd sd G e (Some new) k)))"

definition edge_count :: "srdag \<Rightarrow> nat \<Rightarrow> nat result" where
  "edge_count G v = bindE (sr_edge_count Sink G v) (\<lambda>i. bindE (sr_edge_count Source G v) (\<lambda>out. Inr (max i out)))"

definition merge_pair :: "vertex_type \<Rightarrow> side \<Rightarrow> srdag \<Rightarrow> nat \<Rightarrow> (srdag \<times> nat \<times> nat) result" where
  "merge_pair t sd G a =
     bindE (getNextVertex sd G a) (\<lambda>b.
     bindE (makeNewVertex t sd G a b) (\<lambda>(G1, new).
     bindE (edge_count G1 a) (\<lambda>na. bindE (edge_count G1 b) (\<lambda>nb.
     bindE (remove_link sd G1 a b) (\<lambda>(G2, offset).
     bindE (countNonNullEdges sd G2 a) (\<lambda>n.
     bindE (foldE (\<lambda>G i. reconnectEdge sd G b i new i) G2 [0..<offset]) (\<lambda>G3.
     bindE (foldE (\<lambda>G i. reconnectEdge sd G b i new (offset + n + (i - (offset + 1)))) G3 [offset + 1..<nb]) (\<lambda>G4.
     bindE (foldE (\<lambda>G i. reconnectEdge sd G a i new (offset + i)) G4 [0..<na]) (\<lambda>G5. Inr (G5, b, new))))))))))"

fun merge_all :: "vertex_type \<Rightarrow> side \<Rightarrow> srdag \<Rightarrow> nat list \<Rightarrow> srdag result" where
  "merge_all t sd G [] = Inr G"
| "merge_all t sd G (a # vs) =
     bindE (merge_pair t sd G a) (\<lambda>(G1, b, new).
     bindE (sr_removeVertex G1 (Some b)) (\<lambda>G2. bindE (sr_removeVertex G2 (Some a)) (\<lambda>G3.
     merge_all t sd G3 (List.map (\<lambda>v. if v = a \<or> v = b then new else v) vs))))"

definition reduceFFJJWorker :: "vertex_type \<Rightarrow> side \<Rightarrow> srdag \<Rightarrow> (srdag \<times> bool) result" where
  "reduceFFJJWorker t sd G =
     bindE (collect G t (\<lambda>v. bindE (getNextVertex sd G v) (candidate G t))) (\<lambda>vs. bindE (merge_all t sd G vs) (\<lambda>G'. Inr (G', vs = [])))"

definition reduceForkFork :: "srdag \<Rightarrow> (srdag \<times> bool) result" where "reduceForkFork = reduceFFJJWorker FORK Source"
definition reduceDupDup :: "srdag \<Rightarrow> (srdag \<times> bool) result" where "reduceDupDup = reduceFFJJWorker DUPLICATE Source"
definition reduceJoinJoin :: "srdag \<Rightarrow> (srdag \<times> bool) result" where "reduceJoinJoin = reduceFFJJWorker JOIN Sink"

subsection \<open>Join and fork\<close>

definition replace_join_fork :: "srdag \<Rightarrow> nat \<Rightarrow> srdag result" where
  "replace_join_fork G join =
     bindE (across Source G join) (\<lambda>fork.
     bindE (unlink_edges Sink G join) (\<lambda>(G1, srcs).
     bindE (sr_edge_at Source G1 join 0) (\<lambda>slot. bindE (case slot of None \<Rightarrow> Inr G1 | Some e \<Rightarrow> sr_removeEdge G1 e) (\<lambda>G2.
     bindE (unlink_edges Source G2 fork) (\<lambda>(G3, snks).
     bindE (sr_removeVertex G3 (Some join)) (\<lambda>G4. bindE (sr_removeVertex G4 (Some fork)) (\<lambda>G5.
     partialSingleRateTransformation G5 srcs snks)))))))"

definition reduceJoinFork :: "srdag \<Rightarrow> (srdag \<times> bool) result" where
  "reduceJoinFork G =
     bindE (collect G JOIN (faces Source G FORK)) (\<lambda>vs. bindE (foldE replace_join_fork G vs) (\<lambda>G'. Inr (G', vs = [])))"

subsection \<open>Ends\<close>

text \<open>Every input of the join gets an END of its own, unless the END of the join keeps a persistent delay.\<close>

definition end_input :: "nat \<Rightarrow> srdag \<Rightarrow> nat \<Rightarrow> srdag result" where
  "end_input join G i =
     bindE (sr_edge_at Sink G join i) (\<lambda>slot. bindE (null_check slot) (\<lambda>e. bindE (sr_end Source G e) (\<lambda>_.
     bindE (createEndVertex G) (\<lambda>(G1, v). sr_setEnd Sink G1 e (Some v) 0))))"

definition split_join_end :: "(sr_ref \<Rightarrow> bool) \<Rightarrow> srdag \<Rightarrow> nat \<Rightarrow> srdag result" where
  "split_join_end persistent G join =
     bindE (first_edge Source G join) (\<lambda>e. bindE (sr_end Sink G e) (\<lambda>v. bindE (sr_at G v) (\<lambda>x.
     if persistent (sv_reference x) then Inr G
     else bindE (sr_removeEdge G e) (\<lambda>G1. bindE (vertex_at (sg_store G1) join) (\<lambda>vx.
       bindE (foldE (end_input join) G1 [0..<length (vx_in vx)]) (\<lambda>G2.
       bindE (sr_removeVertex G2 (Some join)) (\<lambda>G3. sr_removeVertex G3 (Some v))))))))"

definition reduceJoinEnd :: "(sr_ref \<Rightarrow> bool) \<Rightarrow> srdag \<Rightarrow> (srdag \<times> bool) result" where
  "reduceJoinEnd persistent G =
     bindE (collect G JOIN (faces Source G END_VERTEX)) (\<lambda>vs. bindE (foldE (split_join_end persistent) G vs) (\<lambda>G'. Inr (G', vs = [])))"

definition remove_init_end :: "srdag \<Rightarrow> nat \<Rightarrow> srdag result" where
  "remove_init_end G ini =
     bindE (first_edge Source G ini) (\<lambda>e. bindE (sr_end Sink G e) (\<lambda>v.
     bindE (sr_removeEdge G e) (\<lambda>G1. bindE (sr_removeVertex G1 (Some ini)) (\<lambda>G2. sr_removeVertex G2 (Some v)))))"

definition reduceInitEnd :: "srdag \<Rightarrow> (srdag \<times> bool) result" where
  "reduceInitEnd G =
     bindE (collect G INIT (faces Source G END_VERTEX)) (\<lambda>vs. bindE (foldE remove_init_end G vs) (\<lambda>G'. Inr (G', vs = [])))"

subsection \<open>All of them\<close>

text \<open>The three patterns until none of them is found; the fuel bounds the rounds.\<close>

fun reduce_patterns :: "nat \<Rightarrow> srdag \<Rightarrow> srdag result" where
  "reduce_patterns 0 G = Inl Diverges"
| "reduce_patterns (Suc n) G =
     bindE (reduceForkFork G) (\<lambda>(G1, a). bindE (reduceJoinJoin G1) (\<lambda>(G2, b). bindE (reduceJoinFork G2) (\<lambda>(G3, c).
       if a \<and> b \<and> c then Inr G3 else reduce_patterns n G3)))"

definition optimize :: "nat \<Rightarrow> (sr_ref \<Rightarrow> bool) \<Rightarrow> srdag \<Rightarrow> srdag result" where
  "optimize n persistent G =
     bindE (reduceUnitaryRateActors G) (\<lambda>(G1, _). bindE (reduce_patterns n G1) (\<lambda>G2. bindE (reduceRepeatFork G2) (\<lambda>(G3, _).
     bindE (reduceDupDup G3) (\<lambda>(G4, _). bindE (reduceJoinEnd persistent G4) (\<lambda>(G5, _). bindE (reduceInitEnd G5) (\<lambda>(G6, _). Inr G6))))))"

end
