(* ===== verification/OptimsProps.thy ===== *)
theory OptimsProps
  imports Optims SRLinkProps
begin

text \<open>
  The partial single-rate transformation builds the network of the full one: its rounds, which compare rates and count edges, take the
  decisions of \<open>singleRateLinkage\<close>, which compares dependencies. The flow of tokens through the network follows.
\<close>

definition as_linker :: "transfo_vertex \<Rightarrow> edge_linker" where
  "as_linker x = \<lparr>el_vertex = tv_vertex x, el_rate = tv_rate x, el_portIx = tv_portIx x\<rparr>"

lemma as_linker_sel [simp]: "el_vertex (as_linker x) = tv_vertex x" "el_rate (as_linker x) = tv_rate x" "el_portIx (as_linker x) = tv_portIx x"
  by (simp_all add: as_linker_def)

subsection \<open>The rounds\<close>

lemma computeNEdge_split:
  "positive js \<Longrightarrow> 0 < tv_rate k \<Longrightarrow> acc + tokens js < r \<Longrightarrow> r \<le> acc + tokens js + tv_rate k \<Longrightarrow> 0 \<le> acc \<Longrightarrow>
   acc + tokens js + tv_rate k < 2 ^ 63 \<Longrightarrow> computeNEdge r acc (List.map as_linker (js @ k # ks)) = Inr (Suc (length js))"
proof (induction js arbitrary: acc)
  case Nil
  then have "i64 (acc + tv_rate k) = Inr (acc + tv_rate k)" by (intro i64_ok) (auto simp: in_i64_def)
  with Nil show ?case by (cases ks) simp_all
next
  case (Cons j js)
  have p: "0 < tv_rate j" "positive js" "0 \<le> tokens js" using Cons.prems(1) tokens_nonneg [of js] by simp_all
  have "i64 (acc + tv_rate j) = Inr (acc + tv_rate j)" using p Cons.prems by (intro i64_ok) (auto simp: in_i64_def)
  with Cons.IH [of "acc + tv_rate j"] Cons.prems p show ?case by (simp add: algebra_simps)
qed

lemma fork_steps:
  "foldE (connect_step (fork_connector w)) (G, r, xs) is = Inr (G', r', ys) \<Longrightarrow>
   foldE (partial_step (fork_edge w)) (G, r, List.map as_linker xs) is = Inr (G', r', List.map as_linker ys)"
proof (induction "is" arbitrary: G r xs)
  case (Cons i "is")
  then show ?case by (cases xs) (auto simp: connect_step_def partial_step_def fork_connector_def fork_edge_def)
qed simp

lemma join_steps:
  "foldE (connect_step (join_connector w)) (G, r, xs) is = Inr (G', r', ys) \<Longrightarrow>
   foldE (partial_step (join_edge w)) (G, r, List.map as_linker xs) is = Inr (G', r', List.map as_linker ys)"
proof (induction "is" arbitrary: G r xs)
  case (Cons i "is")
  then show ?case by (cases xs) (auto simp: connect_step_def partial_step_def join_connector_def join_edge_def split: if_splits)
qed simp

text \<open>The number of ports of a fork and a join that were just made and linked on their single side.\<close>

lemma fork_count:
  assumes ok: "sr_ok G" and x: "free_port Source G x" and n: "n < 2 ^ 32" "0 < n"
    and run: "createForkVertex G n = Inr (G1, w)" "sr_createEdge G1 (tv_vertex x) (tv_portIx x) (Some w) 0 (tv_rate x) = Inr (G2, e)"
  shows "sr_edge_count Sink G2 w = Inr 1" and "sr_edge_count Source G2 w = Inr n"
proof -
  have w: "w = nV G" "sr_ok G1" "sr_extends G G1" "nV G1 = Suc w" "fills G G1 {} {}" "nP Sink G1 w = 1" "nP Source G1 w = n" "prt Sink G1 w 0 = None"
    using createForkVertex_extends [OF ok, of n] run(1) by (metis Inr_inject prod.inject)+
  have f: "free_port Source G1 x" by (rule free_port_fills [OF x w(3,5)]) simp
  then have xv: "fst (key x) < nV G1" "snd (key x) < nP Source G1 (fst (key x))" "prt Source G1 (fst (key x)) (snd (key x)) = None"
    "tv_vertex x = Some (fst (key x))" "snd (key x) = tv_portIx x" by (auto simp: free_port_def key_def)
  have w1: "w < nV G1" "0 < nP Sink G1 w" using w by simp_all
  obtain G' where G': "sr_createEdge G1 (Some (fst (key x))) (snd (key x)) (Some w) 0 (tv_rate x) = Inr (G', nE G1)" "sr_extends G1 G'" "nV G' = nV G1"
    using createEdge_extends [OF w(2) xv(1-3) w1 w(8), of "tv_rate x"] by metis
  with run(2) xv have "G' = G2" by simp
  with G' have e: "sr_extends G1 G2" "w < nV G2" using w1 by simp_all
  have "nP Sink G2 w = 1" "nP Source G2 w = n" using extendsD(4) [OF e(1) w1(1)] w(6,7) by simp_all
  with e(2) n show "sr_edge_count Sink G2 w = Inr 1" "sr_edge_count Source G2 w = Inr n" by (simp_all add: sr_edge_count_eq)
qed

lemma join_count:
  assumes ok: "sr_ok G" and k: "free_port Sink G k" and n: "n < 2 ^ 32" "0 < n"
    and run: "createJoinVertex G n = Inr (G1, w)" "sr_createEdge G1 (Some w) 0 (tv_vertex k) (tv_portIx k) (tv_rate k) = Inr (G2, e)"
  shows "sr_edge_count Sink G2 w = Inr n" and "sr_edge_count Source G2 w = Inr 1"
proof -
  have w: "w = nV G" "sr_ok G1" "sr_extends G G1" "nV G1 = Suc w" "fills G G1 {} {}" "nP Sink G1 w = n" "nP Source G1 w = 1" "prt Source G1 w 0 = None"
    using createJoinVertex_extends [OF ok, of n] run(1) by (metis Inr_inject prod.inject)+
  have f: "free_port Sink G1 k" by (rule free_port_fills [OF k w(3,5)]) simp
  then have kv: "fst (key k) < nV G1" "snd (key k) < nP Sink G1 (fst (key k))" "prt Sink G1 (fst (key k)) (snd (key k)) = None"
    "tv_vertex k = Some (fst (key k))" "snd (key k) = tv_portIx k" by (auto simp: free_port_def key_def)
  have w1: "w < nV G1" "0 < nP Source G1 w" using w by simp_all
  obtain G' where G': "sr_createEdge G1 (Some w) 0 (Some (fst (key k))) (snd (key k)) (tv_rate k) = Inr (G', nE G1)" "sr_extends G1 G'" "nV G' = nV G1"
    using createEdge_extends [OF w(2) w1 w(8) kv(1-3), of "tv_rate k"] by metis
  with run(2) kv have "G' = G2" by simp
  with G' have e: "sr_extends G1 G2" "w < nV G2" using w1 by simp_all
  have "nP Sink G2 w = n" "nP Source G2 w = 1" using extendsD(4) [OF e(1) w1(1)] w(6,7) by simp_all
  with e(2) n show "sr_edge_count Sink G2 w = Inr n" "sr_edge_count Source G2 w = Inr 1" by (simp_all add: sr_edge_count_eq)
qed

lemma new_linker: "p < 2 ^ 32 \<Longrightarrow> as_linker (transfo_vertex_new r p (Some w) \<lparr>tv_lowerDep := 0, tv_upperDep := 0\<rparr>) =
   \<lparr>el_vertex = Some w, el_rate = r, el_portIx = p\<rparr>"
  by (simp add: as_linker_def transfo_vertex_new_def)

lemma partial_link_simulates:
  assumes inv: "link_inv G f b (x # ss) (k # ks)" and run: "link_step G (x # ss) (k # ks) = Inr (G', srcs', snks')"
  shows "partial_link G (List.map as_linker (x # ss)) (List.map as_linker (k # ks)) = Inr (G', List.map as_linker srcs', List.map as_linker snks')"
proof -
  note i = inv [unfolded link_inv_def]
  have p: "positive (x # ss)" "positive (k # ks)" "tokens (x # ss) = tokens (k # ks)" "tokens (x # ss) < 2 ^ 63"
    "sinks_ok b (x # ss) (k # ks)" "sources_ok b (x # ss) (k # ks)" and ok: "sr_ok G" using i by simp_all
  have fx: "free_port Source G x" and fk: "free_port Sink G k" using i by (simp_all add: free_ports_Cons)
  show ?thesis
  proof (cases "tv_lowerDep k = tv_upperDep k")
    case True
    show ?thesis
    proof (cases "tv_lowerDep x = tv_upperDep x")
      case eq: True
      have "tv_rate x = tv_rate k" using forward_state [OF p(1-3,5,6) True eq] by blast
      with run True eq show ?thesis by (auto simp: link_step_def partial_link_def)
    next
      case False
      obtain js l ls where s: "k # ks = js @ l # ls" "js \<noteq> []" "dep_count x = Suc (length js)" "tokens js < tv_rate x" "tv_rate x \<le> tokens js + tv_rate l"
        using fork_state [OF p(1-3,5,6) False] by blast
      have pj: "positive js" "0 < tv_rate l" "positive ls" using p(2) unfolding s(1) by auto
      have lt: "tv_rate k < tv_rate x"
      proof -
        obtain js' where "js = k # js'" using s(1,2) by (cases js) auto
        with s(4) pj(1) tokens_nonneg [of js'] show ?thesis by simp
      qed
      let ?n = "Suc (length js)"
      have n: "?n < 2 ^ 32" using dep_count_bound [of x] s(3) by simp
      have "tokens js + tv_rate l < 2 ^ 63" using p(3,4) tokens_nonneg [OF pj(3)] unfolding s(1) by simp
      then have c: "computeNEdge (tv_rate x) 0 (List.map as_linker (k # ks)) = Inr ?n"
        using computeNEdge_split [of js l 0 "tv_rate x" ls] pj s(1,4,5) by simp
      from run True False obtain G1 w G2 e nIn nOut rate where r: "tv_vertex x \<noteq> None" "createForkVertex G ?n = Inr (G1, w)"
        "sr_createEdge G1 (tv_vertex x) (tv_portIx x) (Some w) 0 (tv_rate x) = Inr (G2, e)"
        "sr_edge_count Sink G2 w = Inr nIn" "sr_edge_count Source G2 w = Inr nOut"
        "foldE (connect_step (fork_connector w)) (G2, tv_rate x, k # ks) [0..<max nIn nOut - 1] = Inr (G', rate, snks')"
        "srcs' = transfo_vertex_new rate (max nIn nOut - 1) (Some w) \<lparr>tv_lowerDep := 0, tv_upperDep := 0\<rparr> # ss"
        by (auto simp: link_step_def addForkVertex_def connectForkOrJoin_def Let_def s(3) split: if_splits)
      have "nIn = 1" "nOut = ?n" using fork_count [OF ok fx n _ r(2,3)] r(4,5) by simp_all
      then have m: "max nIn nOut - 1 = length js" by simp
      have "length js < 2 ^ 32" using n by simp
      then show ?thesis using r(1,2,3) c lt fork_steps [OF r(6) [unfolded m]] unfolding r(7) m
        by (auto simp: partial_link_def partial_fork_def null_check_def new_linker)
    qed
  next
    case False
    obtain js l ls where s: "x # ss = js @ l # ls" "js \<noteq> []" "dep_count k = Suc (length js)" "tokens js < tv_rate k" "tv_rate k \<le> tokens js + tv_rate l"
      using join_state [OF p(1-3,5,6) False] by blast
    have pj: "positive js" "0 < tv_rate l" "positive ls" using p(1) unfolding s(1) by auto
    have lt: "tv_rate x < tv_rate k"
    proof -
      obtain js' where "js = x # js'" using s(1,2) by (cases js) auto
      with s(4) pj(1) tokens_nonneg [of js'] show ?thesis by simp
    qed
    let ?n = "Suc (length js)"
    have n: "?n < 2 ^ 32" using dep_count_bound [of k] s(3) by simp
    have "tokens js + tv_rate l < 2 ^ 63" using p(4) tokens_nonneg [OF pj(3)] unfolding s(1) by simp
    then have c: "computeNEdge (tv_rate k) 0 (List.map as_linker (x # ss)) = Inr ?n"
      using computeNEdge_split [of js l 0 "tv_rate k" ls] pj s(1,4,5) by simp
    from run False obtain G1 w G2 e nIn nOut rate where r: "tv_vertex k \<noteq> None" "createJoinVertex G ?n = Inr (G1, w)"
      "sr_createEdge G1 (Some w) 0 (tv_vertex k) (tv_portIx k) (tv_rate k) = Inr (G2, e)"
      "sr_edge_count Sink G2 w = Inr nIn" "sr_edge_count Source G2 w = Inr nOut"
      "foldE (connect_step (join_connector w)) (G2, tv_rate k, x # ss) [0..<max nIn nOut - 1] = Inr (G', rate, srcs')"
      "snks' = transfo_vertex_new rate (max nIn nOut - 1) (Some w) \<lparr>tv_lowerDep := 0, tv_upperDep := 0\<rparr> # ks"
      by (auto simp: link_step_def addJoinVertex_def connectForkOrJoin_def Let_def s(3) split: if_splits)
    have "nIn = ?n" "nOut = 1" using join_count [OF ok fk n _ r(2,3)] r(4,5) by simp_all
    then have m: "max nIn nOut - 1 = length js" by simp
    have "length js < 2 ^ 32" using n by simp
    then show ?thesis using r(1,2,3) c lt join_steps [OF r(6) [unfolded m]] unfolding r(7) m
      by (auto simp: partial_link_def partial_join_def null_check_def new_linker)
  qed
qed

end
