(* ===== verification/OptimsFlow.thy ===== *)
theory OptimsFlow
  imports OptimsProps
begin

lemma partial_loop_ok:
  assumes "link_inv G f b srcs snks"
  shows "\<exists>G'. partial_loop G (List.map as_linker srcs) (List.map as_linker snks) = Inr (G', [], []) \<and> sr_ok G' \<and> sr_extends G G' \<and>
    link_goal G' f b srcs snks"
  using assms
proof (induction "link_weight srcs + link_weight snks" arbitrary: G b srcs snks rule: less_induct)
  case less
  note i = less.prems [unfolded link_inv_def]
  show ?case
  proof (cases snks)
    case Nil
    with i have "srcs = []" using tokens_pos [of srcs] by auto
    with Nil i show ?thesis by (intro exI [of _ G]) (simp add: partial_loop.simps [of G "[]" "[]"] link_goal_def)
  next
    case (Cons k ks)
    with i have "tokens srcs > 0" using tokens_pos [of snks] by simp
    then obtain x ss where x: "srcs = x # ss" by (cases srcs) auto
    obtain G1 b1 srcs1 snks1 where r: "link_step G srcs snks = Inr (G1, srcs1, snks1)" "round_ok G f b srcs snks G1 b1 srcs1 snks1"
      using round_exists [OF less.prems [unfolded x Cons]] unfolding x Cons by auto
    have o: "link_inv G1 f b1 srcs1 snks1" "sr_extends G G1"
      "\<And>H. sr_ok H \<Longrightarrow> sr_extends G1 H \<Longrightarrow> link_goal H f b1 srcs1 snks1 \<Longrightarrow> link_goal H f b srcs snks"
      using r(2) by (simp_all add: round_ok_def)
    have p: "partial_link G (List.map as_linker srcs) (List.map as_linker snks) = Inr (G1, List.map as_linker srcs1, List.map as_linker snks1)"
      using partial_link_simulates [OF less.prems [unfolded x Cons] r(1) [unfolded x Cons]] unfolding x Cons .
    obtain G' where G': "partial_loop G1 (List.map as_linker srcs1) (List.map as_linker snks1) = Inr (G', [], [])" "sr_ok G'" "sr_extends G1 G'"
      "link_goal G' f b1 srcs1 snks1"
      using less.hyps [OF link_step_less [OF r(1)] o(1)] by blast
    have "List.map as_linker snks \<noteq> []" using Cons by simp
    then have "partial_loop G (List.map as_linker srcs) (List.map as_linker snks) = Inr (G', [], [])"
      by (subst partial_loop.simps) (simp add: p G'(1) del: list.map map_is_Nil_conv)
    with o(3) [OF G'(2,3,4)] sr_extends_trans [OF o(2) G'(3)] G'(2) show ?thesis by blast
  qed
qed

subsection \<open>Linkers with their dependencies\<close>

fun dress :: "(int \<times> int) list \<Rightarrow> int \<Rightarrow> transfo_vertex list \<Rightarrow> transfo_vertex list" where
  "dress L b [] = []"
| "dress L b (x # xs) = with_deps x 0 (met b (b + tv_rate x) L - 1) # dress L (b + tv_rate x) xs"

lemma dress_nth: "length (dress L b xs) = length xs" "i < length xs \<Longrightarrow> \<exists>l u. dress L b xs ! i = with_deps (xs ! i) l u"
proof -
  show l: "length (dress L b xs) = length xs" by (induction xs arbitrary: b) simp_all
  show "i < length xs \<Longrightarrow> \<exists>l u. dress L b xs ! i = with_deps (xs ! i) l u"
  proof (induction xs arbitrary: b i)
    case (Cons x xs)
    then show ?case by (cases i) auto
  qed simp
qed

lemma dress_facts:
  "List.map tv_rate (dress L b xs) = List.map tv_rate xs" "List.map key (dress L b xs) = List.map key xs"
  "free_ports sd G (dress L b xs) = free_ports sd G xs" "(\<forall>y \<in> set (dress L b xs). 0 < tv_rate y) = positive xs"
  "(\<forall>y \<in> set (dress L b xs). drained G y) = (\<forall>x \<in> set xs. drained G x)"
proof -
  note w = with_deps_list [OF dress_nth(1) [of L b xs] dress_nth(2) [of _ xs L b]]
  show "List.map tv_rate (dress L b xs) = List.map tv_rate xs" "List.map key (dress L b xs) = List.map key xs"
    "free_ports sd G (dress L b xs) = free_ports sd G xs" "(\<forall>y \<in> set (dress L b xs). 0 < tv_rate y) = positive xs"
    "(\<forall>y \<in> set (dress L b xs). drained G y) = (\<forall>x \<in> set xs. drained G x)"
    using w(1,2,3) w(4) [of "\<lambda>x. 0 < tv_rate x"] w(4) [of "drained G"] by (simp_all add: drained_def)
qed

lemma met_pos: "positive xs \<Longrightarrow> b \<le> c \<Longrightarrow> c < d \<Longrightarrow> c < b + tokens xs \<Longrightarrow> 0 < met c d (ivs b xs)"
proof (induction xs arbitrary: b)
  case (Cons x xs)
  show ?case
  proof (cases "c < b + tv_rate x")
    case False
    with Cons.IH [of "b + tv_rate x"] Cons.prems show ?thesis by (auto simp: algebra_simps)
  qed (use Cons.prems in auto)
qed simp

lemma met_le: "met c d L \<le> length L"
  by (simp add: met_def)

lemma ivs_length: "length (ivs b xs) = length xs"
  by (induction xs arbitrary: b) simp_all

lemma dep_ok_counted: "0 < n \<Longrightarrow> n < 2 ^ 32 \<Longrightarrow> dep_ok (with_deps x 0 (n - 1)) n"
  by (auto simp: dep_ok_def dep_count_def with_deps_def)

lemma dress_ok:
  assumes "\<And>c d. b \<le> c \<Longrightarrow> c < d \<Longrightarrow> d \<le> b + tokens xs \<Longrightarrow> 0 < met c d L \<and> met c d L < 2 ^ 32"
  shows "positive xs \<Longrightarrow> each (\<lambda>x c d. dep_ok x (met c d L)) b (dress L b xs)"
  using assms
proof (induction xs arbitrary: b)
  case (Cons x xs)
  have p: "0 < tv_rate x" "positive xs" "0 \<le> tokens xs" using Cons.prems(1) tokens_nonneg [of xs] by simp_all
  have "0 < met b (b + tv_rate x) L \<and> met b (b + tv_rate x) L < 2 ^ 32" using p by (intro Cons.prems(2)) simp_all
  then have "dep_ok (with_deps x 0 (met b (b + tv_rate x) L - 1)) (met b (b + tv_rate x) L)" using dep_ok_counted by blast
  moreover have "each (\<lambda>x c d. dep_ok x (met c d L)) (b + tv_rate x) (dress L (b + tv_rate x) xs)"
    using p by (intro Cons.IH Cons.prems(2)) (simp_all add: algebra_simps)
  ultimately show ?case by simp
qed simp

lemma dress_link:
  assumes "positive xs" "positive ys" "tokens xs = tokens ys" "length ys < 2 ^ 32"
  shows "each (\<lambda>x c d. dep_ok x (met c d (ivs b ys))) b (dress (ivs b ys) b xs)"
proof (rule dress_ok [OF _ assms(1)])
  fix c d assume "b \<le> c" "c < d" "d \<le> b + tokens xs"
  with assms met_pos [OF assms(2), of b c d] met_le [of c d "ivs b ys"] ivs_length [of b ys]
  show "0 < met c d (ivs b ys) \<and> met c d (ivs b ys) < 2 ^ 32" by simp
qed

lemma link_inv_dress:
  assumes "sr_ok G" "positive srcs" "positive snks" "tokens srcs = tokens snks" "tokens srcs < 2 ^ 63" "length srcs < 2 ^ 32" "length snks < 2 ^ 32"
    and "free_ports Source G srcs" "free_ports Sink G snks" "each (supplied G f) 0 srcs"
  shows "link_inv G f 0 (dress (ivs 0 snks) 0 srcs) (dress (ivs 0 srcs) 0 snks)"
proof -
  let ?S = "dress (ivs 0 snks) 0 srcs" let ?K = "dress (ivs 0 srcs) 0 snks"
  have r: "List.map tv_rate ?S = List.map tv_rate srcs" "List.map tv_rate ?K = List.map tv_rate snks" by (simp_all add: dress_facts(1))
  have iv: "ivs 0 ?S = ivs 0 srcs" "ivs 0 ?K = ivs 0 snks" using ivs_rates r by blast+
  have tk: "tokens ?S = tokens srcs" "tokens ?K = tokens snks" using r by (simp_all add: tokens_def)
  have pos: "positive ?S" "positive ?K" using assms(2,3) by (simp_all only: dress_facts(4))
  have "sinks_ok 0 ?S ?K" unfolding sinks_ok_def iv by (rule dress_link [OF assms(3,2) assms(4) [symmetric] assms(6)])
  moreover have "sources_ok 0 ?S ?K" unfolding sources_ok_def iv
    by (rule each_mono [OF _ pos(1) dress_link [OF assms(2,3,4,7)]]) blast
  moreover have "each (supplied G f) 0 ?S" using each_supplied_key [OF dress_facts(2,1)] assms(10) by blast
  moreover have "free_ports Source G ?S" "free_ports Sink G ?K" using assms(8,9) dress_facts(3) by blast+
  ultimately show ?thesis unfolding link_inv_def tk using assms(1,4,5) pos by blast
qed

lemma dress_linkers: "List.map as_linker (dress L b xs) = List.map as_linker xs"
  by (induction xs arbitrary: b) (simp_all add: as_linker_def)

text \<open>
  C3. The transformation that the pattern optimisations use, which compares rates instead of dependencies, computes the same streams.
  When the rates are positive and balance, the ports exist and are free, and the sources deliver the stream \<open>f\<close>, then
  \<open>partialSingleRateTransformation\<close> ends without error in a well-formed graph that extends \<open>G\<close>: the sink \<open>x\<close> gets an edge of its own rate
  and, followed back through the forks and the joins put in, exactly its slice of \<open>f\<close>; every source port is connected with its rate.
\<close>

theorem partial_linkage_flow:
  assumes "sr_ok G" "positive srcs" "positive snks" "tokens srcs = tokens snks" "tokens srcs < 2 ^ 63" "length srcs < 2 ^ 32" "length snks < 2 ^ 32"
    and "free_ports Source G srcs" "free_ports Sink G snks" "each (supplied G f) 0 srcs"
  shows "\<exists>G'. partialSingleRateTransformation G (List.map as_linker srcs) (List.map as_linker snks) = Inr G' \<and> sr_ok G' \<and> sr_extends G G' \<and>
    each (fed G' f) 0 snks \<and> (\<forall>x \<in> set srcs. drained G' x)"
proof -
  let ?S = "dress (ivs 0 snks) 0 srcs" let ?K = "dress (ivs 0 srcs) 0 snks"
  obtain G' where G': "partial_loop G (List.map as_linker ?S) (List.map as_linker ?K) = Inr (G', [], [])" "sr_ok G'" "sr_extends G G'"
    "link_goal G' f 0 ?S ?K" using partial_loop_ok [OF link_inv_dress [OF assms]] by blast
  have "each (fed G' f) 0 snks" using G'(4) each_key [OF dress_facts(2,1)] by (simp add: link_goal_def)
  moreover have "\<forall>x \<in> set srcs. drained G' x" using G'(4) by (simp add: link_goal_def dress_facts(5))
  moreover have "partialSingleRateTransformation G (List.map as_linker srcs) (List.map as_linker snks) = Inr G'"
    using G'(1) by (simp add: partialSingleRateTransformation_def dress_linkers)
  ultimately show ?thesis using G'(2,3) by blast
qed

text \<open>A source of rate 2 and two sinks of rate 1: the second sink gets the second token of the source.\<close>

lemma partial_linkage_flow_witness:
  "\<exists>G G' e u q. partialSingleRateTransformation G [\<lparr>el_vertex = Some 0, el_rate = 2, el_portIx = 0\<rparr>]
       [\<lparr>el_vertex = Some 1, el_rate = 1, el_portIx = 0\<rparr>, \<lparr>el_vertex = Some 2, el_rate = 1, el_portIx = 0\<rparr>] = Inr G' \<and>
     sr_ok G' \<and> prt Sink G' 2 0 = Some e \<and> tgt Source G' e = Some (u, q) \<and> trace G' u q 0 (0, 0, 1)"
proof -
  obtain G where G: "sr_ok G" "nV G = 3" "\<And>v sd. v < 3 \<Longrightarrow> nP sd G v = 1 \<and> prt sd G v 0 = None \<and> \<not> forks G v \<and> \<not> joins G v"
    using vertices_exist [of 3] by blast
  let ?l = "\<lambda>v r. transfo_vertex_new r 0 (Some v)"
  have k: "key (?l v r) = (v, 0)" "tv_rate (?l v r) = r" "tv_vertex (?l v r) = Some v"
    "as_linker (?l v r) = \<lparr>el_vertex = Some v, el_rate = r, el_portIx = 0\<rparr>" for v r
    by (simp_all add: transfo_vertex_new_def key_def as_linker_def)
  have fs: "free_ports Source G [?l 0 2]" using G by (simp add: free_ports_def free_port_def k)
  have fk: "free_ports Sink G [?l 1 1, ?l 2 1]" using G by (simp add: free_ports_def free_port_def k)
  have sup: "each (supplied G (\<lambda>t. (0, 0, t))) 0 [?l 0 2]" using G by (auto simp: supplied_def k intro!: trace.actor)
  obtain G' where G': "partialSingleRateTransformation G (List.map as_linker [?l 0 2]) (List.map as_linker [?l 1 1, ?l 2 1]) = Inr G'" "sr_ok G'"
    "each (fed G' (\<lambda>t. (0, 0, t))) 0 [?l 1 1, ?l 2 1]"
    using partial_linkage_flow [of G "[?l 0 2]" "[?l 1 1, ?l 2 1]" "\<lambda>t. (0, 0, t)"] fs fk sup G by (auto simp: k)
  from G'(3) have "fed G' (\<lambda>t. (0, 0, t)) (?l 2 1) 1 2" by (simp add: k)
  then obtain e u q where "prt Sink G' 2 0 = Some e" "tgt Source G' e = Some (u, q)"
    "\<And>t. 1 \<le> t \<Longrightarrow> t < 2 \<Longrightarrow> trace G' u q (t - 1) (0, 0, t)" by (auto simp: fed_def k)
  then have "prt Sink G' 2 0 = Some e \<and> tgt Source G' e = Some (u, q) \<and> trace G' u q 0 (0, 0, 1)" by force
  with G'(1,2) show ?thesis by (simp add: k) blast
qed

end
