(* ===== verification/PisdfSchedulers.thy ===== *)
theory PisdfSchedulers
  imports GraphHandler SRSchedulers
begin

text \<open>
  The schedulers of the graph firings, \<open>scheduling/scheduler/pisdf-based\<close>: they work on the firings of the vertices of every resolved
  graph firing, without a single-rate graph. A firing is a graph firing, a vertex and an index. The dependencies are those of
  \<open>computeExecDependency\<close>, whose functor is applied to the list of dependencies: the computation does not read what the functor changes.
  The schedule and the arrays of the graph firings are the state.
\<close>

type_synonym ps_state = "schedule \<times> pisdf_alloc"

definition ps_addTask :: "sched_env \<Rightarrow> nat \<Rightarrow> nat \<Rightarrow> nat \<Rightarrow> ps_state \<Rightarrow> ps_state result" where
  "ps_addTask env h v k = (\<lambda>(sc, pa).
     bindE (gf_getTask (se_world env) pa h v) (\<lambda>t. bindE (addTask env t k sc) (\<lambda>sc1. Inr (sc1, pa))))"

text \<open>\<open>executable()\<close>: subgraphs and interfaces are not.\<close>

definition pi_executable :: "pi_vertex \<Rightarrow> bool" where
  "pi_executable x \<longleftrightarrow> v_type x \<noteq> GRAPH \<and> v_type x \<noteq> INPUT \<and> v_type x \<noteq> OUTPUT"

text \<open>What is stored as the number of firings an edge depends on.\<close>

definition stored_count :: "int \<Rightarrow> nat" where
  "stored_count n = (if n > 0 then nat (n mod 2 ^ 32) else 1)"

text \<open>\<open>for (k = firingStart; k <= firingEnd; ++k)\<close> on \<open>u32\<close>.\<close>

definition ps_firings :: "dep_info \<Rightarrow> nat list result" where
  "ps_firings d =
     (if dep_firingEnd d = u32_max \<and> dep_firingStart d \<le> u32_max then Inl Diverges else Inr [dep_firingStart d..<Suc (dep_firingEnd d)])"

definition dep_actor :: "dep_info \<Rightarrow> (nat \<times> nat) result" where
  "dep_actor d = bindE (null_check (dep_handler d)) (\<lambda>h. case dep_vertex d of Some (Actor v) \<Rightarrow> Inr (h, v) | _ \<Rightarrow> Inl Undefined_Behaviour)"

subsection \<open>The greedy scheduler\<close>

text \<open>\<open>eval\<close>: the recursion is the argument.\<close>

definition ps_eval :: "(nat \<Rightarrow> nat \<Rightarrow> nat \<Rightarrow> ps_state \<Rightarrow> (bool \<times> ps_state) result) \<Rightarrow> bool \<times> ps_state \<Rightarrow> dep_info \<Rightarrow> (bool \<times> ps_state) result" where
  "ps_eval evaluate = (\<lambda>(schedulable, s) d.
     if dep_rate d = 0 then Inr (schedulable, s)
     else if dep_vertex d = None \<or> dep_rate d < 0 then Inr (False, s)
     else bindE (ps_firings d) (\<lambda>ks. bindE (dep_actor d) (\<lambda>(h, v).
       foldE (\<lambda>(schedulable, s) k. bindE (evaluate h v k s) (\<lambda>(b, s1). Inr (schedulable \<and> b, s1))) (schedulable, s) ks)))"

fun ps_inputs :: "(nat \<Rightarrow> nat \<Rightarrow> nat \<Rightarrow> ps_state \<Rightarrow> (bool \<times> ps_state) result) \<Rightarrow> sched_env \<Rightarrow> nat \<Rightarrow> nat \<Rightarrow> nat \<Rightarrow> ps_state \<Rightarrow> nat option list \<Rightarrow>
    (bool \<times> ps_state) result" where
  "ps_inputs evaluate env h v k s [] = Inr (True, s)"
| "ps_inputs evaluate env h v k s (slot # slots) =
     bindE (null_check slot) (\<lambda>e.
     bindE (deps_result (computeExecDependency (se_fuel env) (se_world env) h e k)) (\<lambda>(n, ds).
     bindE (foldE (ps_eval evaluate) (True, s) ds) (\<lambda>(schedulable, sc, pa).
     bindE (gf_setEdgeDepCount (se_world env) h v e k (stored_count n) pa) (\<lambda>pa1.
     if schedulable then ps_inputs evaluate env h v k (sc, pa1) slots else Inr (False, sc, pa1)))))"

fun ps_evaluate :: "nat \<Rightarrow> sched_env \<Rightarrow> nat \<Rightarrow> nat \<Rightarrow> nat \<Rightarrow> ps_state \<Rightarrow> (bool \<times> ps_state) result" where
  "ps_evaluate 0 env h v k s = Inl Diverges"
| "ps_evaluate (Suc n) env h v k s =
     bindE (ga_getTaskIx (sc_store (fst s)) h v k) (\<lambda>ix.
     if ix \<noteq> u32_max then Inr (True, s)
     else bindE (vertex_of (se_world env) h v) (\<lambda>x.
       bindE (ps_inputs (ps_evaluate n env) env h v k s (v_in x)) (\<lambda>(schedulable, s1).
         if schedulable then bindE (ps_addTask env h v k s1) (\<lambda>s2. Inr (True, s2)) else Inr (False, s1))))"

definition greedy_vertex :: "nat \<Rightarrow> sched_env \<Rightarrow> nat \<Rightarrow> ps_state \<Rightarrow> nat \<Rightarrow> ps_state result" where
  "greedy_vertex n env h s v =
     bindE (vertex_of (se_world env) h v) (\<lambda>x.
     if v_type x = DELAY \<or> \<not> pi_executable x then Inr s
     else bindE (getRV (se_world env) h (Actor v)) (\<lambda>rv.
       foldE (\<lambda>s k. bindE (ps_evaluate n env h v k s) (\<lambda>(_, s1). Inr s1)) s [0..<rv]))"

text \<open>The traversal of a graph handler; the fuel \<open>m\<close> is the depth of the hierarchy below it, and one.\<close>

fun ps_greedy_schedule :: "nat \<Rightarrow> nat \<Rightarrow> 'e fire_ctx \<Rightarrow> 'e fires \<Rightarrow> nat \<Rightarrow> ps_state \<Rightarrow> ps_state result" where
  "ps_greedy_schedule 0 n cx st hn s = Inl Diverges"
| "ps_greedy_schedule (Suc m) n cx st hn s =
     bindE (handler_at st hn) (\<lambda>x. bindE (get_at (fx_graphs cx) (hd_graph x)) (\<lambda>g.
     foldE (\<lambda>s h. bindE (fire_at st h) (\<lambda>f.
       if \<not> fr_resolved f then Inr s
       else bindE (foldE (greedy_vertex n (env_at cx st) h) s [0..<length (g_vertices g)]) (\<lambda>s1.
         foldE (\<lambda>s sub. bindE (null_check sub) (\<lambda>hn'. ps_greedy_schedule m n cx st hn' s)) s1 (fr_subs f)))) s (hd_firings x)))"

subsection \<open>The list scheduler\<close>

record ps_task =
  lt_vertex :: nat
  lt_handler :: nat
  lt_level :: int
  lt_firing :: nat

type_synonym ls_state = "schedule \<times> pisdf_alloc \<times> ps_task list"

definition on_sc :: "(task_store \<Rightarrow> task_store result) \<Rightarrow> schedule \<Rightarrow> schedule result" where
  "on_sc u sc = bindE (u (sc_store sc)) (\<lambda>t. Inr (sc\<lparr>sc_store := t\<rparr>))"

definition set_list_ix :: "ps_task \<Rightarrow> nat \<Rightarrow> schedule \<Rightarrow> schedule result" where
  "set_list_ix t i = on_sc (ga_setTaskIx (lt_handler t) (lt_vertex t) (lt_firing t) i)"

definition ps_resetUnScheduledTasks :: "schedule \<Rightarrow> ps_task list \<Rightarrow> schedule result" where
  "ps_resetUnScheduledTasks sc ts = foldE (\<lambda>sc i. set_list_ix (ts ! i) (i mod 2 ^ 32) sc) sc [0..<length ts]"

definition ps_createListTask :: "sched_env \<Rightarrow> nat \<Rightarrow> nat \<Rightarrow> ls_state \<Rightarrow> nat \<Rightarrow> ls_state result" where
  "ps_createListTask env h v = (\<lambda>(sc, pa, ts) k.
     bindE (vertex_of (se_world env) h v) (\<lambda>x.
     if \<not> pi_executable x then Inr (sc, pa, ts)
     else bindE (ga_getTaskIx (sc_store sc) h v k) (\<lambda>ix.
       if ix \<noteq> u32_max then Inr (sc, pa, ts)
       else let t = \<lparr>lt_vertex = v, lt_handler = h, lt_level = -1, lt_firing = k\<rparr> in
         bindE (set_list_ix t (length ts mod 2 ^ 32) sc) (\<lambda>sc1. Inr (sc1, pa, ts @ [t])))))"

text \<open>All that reads the data of a firing that cannot run is taken out; the tasks are found by their index in the list.\<close>

fun ps_recursiveSetNonSchedulable :: "nat \<Rightarrow> sched_env \<Rightarrow> schedule \<Rightarrow> nat option \<Rightarrow> nat \<Rightarrow> nat \<Rightarrow> ps_task list \<Rightarrow> ps_task list result" where
  "ps_recursiveSetNonSchedulable 0 env sc handler v k ts = Inl Diverges"
| "ps_recursiveSetNonSchedulable (Suc n) env sc handler v k ts =
     bindE (null_check handler) (\<lambda>h. bindE (vertex_of (se_world env) h v) (\<lambda>x.
     foldE (\<lambda>ts slot. bindE (null_check slot) (\<lambda>e.
       bindE (deps_result (computeConsDependency (se_fuel env) (se_world env) h e k)) (\<lambda>(_, ds).
       foldE (\<lambda>ts d.
         if dep_vertex d = None \<or> dep_rate d \<le> 0 then Inr ts
         else bindE (ps_firings d) (\<lambda>js. bindE (dep_actor d) (\<lambda>(h', w).
           foldE (\<lambda>ts j. bindE (ga_getTaskIx (sc_store sc) h' w j) (\<lambda>i. bindE (get_at ts i) (\<lambda>t.
             ps_recursiveSetNonSchedulable n env sc (Some h') w j (ts[i := t\<lparr>lt_level := NON_SCHEDULABLE_LEVEL\<rparr>])))) ts js))) ts ds))) ts (v_out x)))"

text \<open>Firings of a graph that is not resolved: what reads its outputs cannot run. The vertex is the graph itself, in the firing above it.\<close>

fun ps_recursiveAddVertices :: "nat \<Rightarrow> nat \<Rightarrow> 'e fire_ctx \<Rightarrow> 'e fires \<Rightarrow> nat \<Rightarrow> ls_state \<Rightarrow> ls_state result" where
  "ps_recursiveAddVertices 0 n cx st hn s = Inl Diverges"
| "ps_recursiveAddVertices (Suc m) n cx st hn s =
     bindE (handler_at st hn) (\<lambda>x. bindE (get_at (fx_graphs cx) (hd_graph x)) (\<lambda>g.
     foldE (\<lambda>(sc, pa, ts) h. bindE (fire_at st h) (\<lambda>f.
       if fr_resolved f then
         bindE (foldE (\<lambda>s v. bindE (vertex_of (se_world (env_at cx st)) h v) (\<lambda>y.
             if v_type y = DELAY then Inr s
             else bindE (getRV (se_world (env_at cx st)) h (Actor v)) (\<lambda>rv. foldE (ps_createListTask (env_at cx st) h v) s [0..<rv])))
           (sc, pa, ts) [0..<length (g_vertices g)]) (\<lambda>s1.
         foldE (\<lambda>s sub. bindE (null_check sub) (\<lambda>hn'. ps_recursiveAddVertices m n cx st hn' s)) s1 (fr_subs f))
       else if hd_base x = None then Inr (sc, pa, ts)
       else bindE (ps_recursiveSetNonSchedulable n (env_at cx st) sc (hd_base x) (g_self g) (fr_firing f) ts) (\<lambda>ts1. Inr (sc, pa, ts1))))
       s (hd_firings x)))"

text \<open>\<open>same_vertex\<close>: the two graph firings are of one graph, and the vertices have one index.\<close>

definition same_vertex :: "world \<Rightarrow> nat \<Rightarrow> nat \<Rightarrow> nat \<Rightarrow> nat \<Rightarrow> bool result" where
  "same_vertex W h v h' w =
     bindE (firing_of W h) (\<lambda>f. bindE (firing_of W h') (\<lambda>f'. Inr (gf_graph f = gf_graph f' \<and> v = w)))"

definition ps_computeLevelForDep :: "(nat \<Rightarrow> pisdf_alloc \<times> ps_task list \<Rightarrow> (int \<times> pisdf_alloc \<times> ps_task list) result) \<Rightarrow> sched_env \<Rightarrow> schedule \<Rightarrow>
    int \<times> pisdf_alloc \<times> ps_task list \<Rightarrow> dep_info \<Rightarrow> (int \<times> pisdf_alloc \<times> ps_task list) result" where
  "ps_computeLevelForDep level_of env sc = (\<lambda>(level, pa, ts) d.
     if dep_vertex d = None \<or> dep_rate d \<le> 0 then Inr (level, pa, ts)
     else bindE (ps_firings d) (\<lambda>ks. bindE (dep_actor d) (\<lambda>(h, v).
       foldE (\<lambda>(level, pa, ts) k.
         bindE (minExecutionTime env (se_pisdf env h v)) (\<lambda>time.
         bindE (ga_getTaskIx (sc_store sc) h v k) (\<lambda>i.
         if i \<ge> length ts then Inr (level, pa, ts)
         else bindE (same_vertex (se_world env) (lt_handler (ts ! i)) (lt_vertex (ts ! i)) h v) (\<lambda>same.
           if \<not> (same \<and> lt_firing (ts ! i) = k) then Inr (level, pa, ts)
           else bindE (level_of i (pa, ts)) (\<lambda>(sourceLevel, pa1, ts1).
             Inr (if sourceLevel \<noteq> NON_SCHEDULABLE_LEVEL then max level (sourceLevel + i32_cast time) else level, pa1, ts1)))))) (level, pa, ts) ks)))"

fun ps_computeScheduleLevel :: "nat \<Rightarrow> sched_env \<Rightarrow> schedule \<Rightarrow> nat \<Rightarrow> pisdf_alloc \<times> ps_task list \<Rightarrow> (int \<times> pisdf_alloc \<times> ps_task list) result" where
  "ps_computeScheduleLevel 0 env sc i s = Inl Diverges"
| "ps_computeScheduleLevel (Suc n) env sc i (pa, ts) =
     bindE (get_at ts i) (\<lambda>t. let h = lt_handler t; v = lt_vertex t; k = lt_firing t in
     if lt_level t = NON_SCHEDULABLE_LEVEL then
       bindE (ps_recursiveSetNonSchedulable n env sc (Some h) v k ts) (\<lambda>ts1. Inr (lt_level (ts1 ! i), pa, ts1))
     else if lt_level t < 0 then
       bindE (vertex_of (se_world env) h v) (\<lambda>x.
       bindE (foldE (\<lambda>s slot. bindE (null_check slot) (\<lambda>e.
           bindE (deps_result (computeExecDependency (se_fuel env) (se_world env) h e k)) (\<lambda>(c, ds).
           bindE (foldE (ps_computeLevelForDep (ps_computeScheduleLevel n env sc) env sc) s ds) (\<lambda>(level, pa, ts).
           bindE (gf_setEdgeDepCount (se_world env) h v e k (stored_count c) pa) (\<lambda>pa1. Inr (level, pa1, ts)))))) (0, pa, ts) (v_in x)) (\<lambda>(level, pa1, ts1).
         Inr (level, pa1, ts1[i := (ts1 ! i)\<lparr>lt_level := level\<rparr>])))
     else Inr (lt_level t, pa, ts))"

text \<open>The comparison of \<open>sortVertices\<close>: two firings of one vertex are compared by their firings, or by those of the graphs that contain them,
  from the inside to the outside.\<close>

fun firing_before :: "nat \<Rightarrow> 'e fires \<Rightarrow> nat option \<Rightarrow> nat option \<Rightarrow> nat \<Rightarrow> nat \<Rightarrow> bool" where
  "firing_before 0 st a b i j = (i < j)"
| "firing_before (Suc n) st a b i j =
     (case (a, b) of (Some ha, Some hb) \<Rightarrow>
        if i \<noteq> j then i < j
        else firing_before n st (hd_base (fi_handlers st ! fr_parent (fi_fires st ! ha))) (hd_base (fi_handlers st ! fr_parent (fi_fires st ! hb)))
          (fr_firing (fi_fires st ! ha)) (fr_firing (fi_fires st ! hb))
      | _ \<Rightarrow> i < j)"

definition task_graph :: "'e fires \<Rightarrow> ps_task \<Rightarrow> nat" where
  "task_graph st t = hd_graph (fi_handlers st ! fr_parent (fi_fires st ! lt_handler t))"

definition ps_list_before :: "'e fire_ctx \<Rightarrow> 'e fires \<Rightarrow> ps_task \<Rightarrow> ps_task \<Rightarrow> bool" where
  "ps_list_before cx st a b =
     (if lt_level a \<noteq> lt_level b then lt_level a < lt_level b
      else if task_graph st a = task_graph st b \<and> lt_vertex a = lt_vertex b
      then firing_before (Suc (length (fi_fires st))) st (Some (lt_handler a)) (Some (lt_handler b)) (lt_firing a) (lt_firing b)
      else let ty = (\<lambda>t. v_type (g_vertices (fx_graphs cx ! task_graph st t) ! lt_vertex t)) in ty a \<noteq> ty b \<and> (ty a = INIT \<or> ty b = END_VERTEX))"

text \<open>The tasks that cannot run, from the end; the test of the loop reads the level before it compares with the end.\<close>

fun ps_countNonSchedulableTasks :: "nat \<Rightarrow> schedule \<times> ps_task list \<Rightarrow> (nat \<times> schedule \<times> ps_task list) result" where
  "ps_countNonSchedulableTasks 0 s = Inl Undefined_Behaviour"
| "ps_countNonSchedulableTasks (Suc i) (sc, ts) =
     (if lt_level (ts ! i) \<noteq> NON_SCHEDULABLE_LEVEL then Inr (length ts - Suc i, sc, ts)
      else bindE (set_list_ix (ts ! i) u32_max sc) (\<lambda>sc1. ps_countNonSchedulableTasks i (sc1, ts[i := (ts ! i)\<lparr>lt_level := -1\<rparr>])))"

text \<open>\<open>srt\<close> is \<open>std::sort\<close>; the tasks that are left are moved to the front, in order.\<close>

definition ps_list_schedule :: "((ps_task \<Rightarrow> ps_task \<Rightarrow> bool) \<Rightarrow> ps_task list \<Rightarrow> ps_task list) \<Rightarrow> nat \<Rightarrow> nat \<Rightarrow> 'e fire_ctx \<Rightarrow> 'e fires \<Rightarrow> nat \<Rightarrow>
    ls_state \<Rightarrow> ls_state result" where
  "ps_list_schedule srt m n cx st hn = (\<lambda>(sc, pa, ts). let env = env_at cx st in
     bindE (ps_resetUnScheduledTasks sc ts) (\<lambda>sc1.
     bindE (ps_recursiveAddVertices m n cx st hn (sc1, pa, ts)) (\<lambda>(sc2, pa2, ts2).
     bindE (foldE (\<lambda>s i. bindE (ps_computeScheduleLevel n env sc2 i s) (\<lambda>(_, s1). Inr s1)) (pa2, ts2) [0..<length ts2]) (\<lambda>(pa3, ts3).
     let ts4 = srt (ps_list_before cx st) ts3 in
     bindE (ps_countNonSchedulableTasks (length ts4) (sc2, ts4)) (\<lambda>(count, sc3, ts5).
     let lastSchedulable = length ts5 - count in
     bindE (foldE (\<lambda>sc t. set_list_ix t u32_max sc) sc3 (take lastSchedulable ts5)) (\<lambda>sc4.
     bindE (foldE (\<lambda>s t. ps_addTask env (lt_handler t) (lt_vertex t) (lt_firing t) s) (sc4, pa3) (take lastSchedulable ts5)) (\<lambda>(sc5, pa5).
     Inr (sc5, pa5, drop lastSchedulable ts5))))))))"

end
