(* ===== verification/PisdfSchedProps.thy ===== *)
theory PisdfSchedProps
  imports PisdfSchedulers SchedProps
begin

text \<open>
  The greedy scheduler of the graph firings: when it returns, the schedule holds exactly the firings that can run, each one after all the
  firings it depends on.
\<close>

subsection \<open>Dependencies between firings\<close>

type_synonym node = "nat \<times> nat \<times> nat"   \<comment> \<open>graph firing, vertex, firing\<close>

definition depends :: "sched_env \<Rightarrow> node \<Rightarrow> dep_info \<Rightarrow> bool" where
  "depends env a d \<longleftrightarrow> (case a of (h, v, k) \<Rightarrow> \<exists>x e n ds. vertex_of (se_world env) h v = Inr x \<and> Some e \<in> set (v_in x) \<and>
     deps_result (computeExecDependency (se_fuel env) (se_world env) h e k) = Inr (n, ds) \<and> d \<in> set ds \<and> dep_rate d \<noteq> 0)"

definition unresolved :: "dep_info \<Rightarrow> bool" where
  "unresolved d \<longleftrightarrow> dep_vertex d = None \<or> dep_rate d < 0"

definition fired_by :: "dep_info \<Rightarrow> node \<Rightarrow> bool" where
  "fired_by d b \<longleftrightarrow> (case b of (h, v, k) \<Rightarrow> \<exists>ks. \<not> unresolved d \<and> ps_firings d = Inr ks \<and> dep_actor d = Inr (h, v) \<and> k \<in> set ks)"

text \<open>A firing cannot run if a dependency is not resolved, or is on a firing that cannot run.\<close>

inductive stuck :: "sched_env \<Rightarrow> node \<Rightarrow> bool" for env where
  stuck_here: "depends env a d \<Longrightarrow> unresolved d \<Longrightarrow> stuck env a"
| stuck_source: "depends env a d \<Longrightarrow> fired_by d b \<Longrightarrow> stuck env b \<Longrightarrow> stuck env a"

subsection \<open>The schedule\<close>

definition task_of :: "task_store \<Rightarrow> nat \<Rightarrow> nat \<Rightarrow> nat \<Rightarrow> bool" where
  "task_of s y h v \<longleftrightarrow> y < length (ts_tasks s) \<and> (tk_kind (ts_tasks s ! y) = Uni_Task h v \<or> tk_kind (ts_tasks s ! y) = Vect_Task h v)"

definition entry_of :: "schedule \<Rightarrow> nat \<Rightarrow> node \<Rightarrow> bool" where
  "entry_of sc i b \<longleftrightarrow> (case b of (h, v, k) \<Rightarrow> i < length (sc_tasks sc) \<and> (\<exists>y. sc_tasks sc ! i = (y, k) \<and> task_of (sc_store sc) y h v))"

definition no_task :: "sched_env \<Rightarrow> pisdf_alloc \<Rightarrow> node \<Rightarrow> bool" where
  "no_task env pa b \<longleftrightarrow> gf_getTask (se_world env) pa (fst b) (fst (snd b)) = Inr None"

text \<open>What holds between two calls: the tasks of the vertices are the ones of the arrays, the indices stored are those of entries of firings
  that can run, and every entry comes after those it depends on.\<close>

definition ps_ok :: "sched_env \<Rightarrow> ps_state \<Rightarrow> bool" where
  "ps_ok env s \<longleftrightarrow> (case s of (sc, pa) \<Rightarrow>
     (\<forall>h v y. gf_getTask (se_world env) pa h v = Inr (Some y) \<longrightarrow> task_of (sc_store sc) y h v) \<and>
     (\<forall>h v k i. ga_getTaskIx (sc_store sc) h v k = Inr i \<longrightarrow> i \<noteq> u32_max \<longrightarrow> entry_of sc i (h, v, k)) \<and>
     (\<forall>i a. entry_of sc i a \<longrightarrow> \<not> stuck env a) \<and>
     (\<forall>i a d b. entry_of sc i a \<longrightarrow> depends env a d \<longrightarrow> fired_by d b \<longrightarrow> no_task env pa b \<or> (\<exists>j < i. entry_of sc j b)))"

definition grows :: "ps_state \<Rightarrow> ps_state \<Rightarrow> bool" where
  "grows s s' \<longleftrightarrow> (\<exists>xs. sc_tasks (fst s') = sc_tasks (fst s) @ xs) \<and>
     List.map tk_kind (ts_tasks (sc_store (fst s'))) = List.map tk_kind (ts_tasks (sc_store (fst s))) \<and> pa_task (snd s') = pa_task (snd s)"

lemma sched_grows_refl [simp]: "grows s s"
  by (simp add: grows_def)

lemma sched_grows_trans: "grows s t \<Longrightarrow> grows t u \<Longrightarrow> grows s u"
  by (auto simp: grows_def)

lemma grows_length: "grows s s' \<Longrightarrow> length (sc_tasks (fst s)) \<le> length (sc_tasks (fst s'))"
  by (auto simp: grows_def)

lemma task_of_kinds: "List.map tk_kind (ts_tasks s') = List.map tk_kind (ts_tasks s) \<Longrightarrow> task_of s' y h v = task_of s y h v"
  unfolding task_of_def by (metis length_map nth_map)

lemma entry_grows: "grows s s' \<Longrightarrow> entry_of (fst s) i b \<Longrightarrow> entry_of (fst s') i b"
  using task_of_kinds [of "sc_store (fst s')" "sc_store (fst s)"]
  by (cases b) (auto simp: grows_def entry_of_def nth_append)

lemma getTask_same: "pa_task pa' = pa_task pa \<Longrightarrow> gf_getTask W pa' = gf_getTask W pa"
  by (rule ext, rule ext) (simp only: gf_getTask_def)

lemma no_task_grows: "grows s s' \<Longrightarrow> no_task env (snd s') b = no_task env (snd s) b"
  using getTask_same [of "snd s'" "snd s"] by (simp add: grows_def no_task_def)

subsection \<open>One task\<close>

text \<open>The numbers of dependencies change nothing else.\<close>

lemma set_count_ok:
  assumes "gf_setEdgeDepCount W h v e k n pa = Inr pa'"
  shows "pa_task pa' = pa_task pa"
  using assms by (auto simp: gf_setEdgeDepCount_def)

lemma ps_ok_pa: "pa_task pa' = pa_task pa \<Longrightarrow> ps_ok env (sc, pa') = ps_ok env (sc, pa)"
  using getTask_same [of pa' pa] by (simp add: ps_ok_def no_task_def)

lemma setOnFiring_kinds:
  "task_setOnFiring env k x s = Inr s' \<Longrightarrow> List.map tk_kind (ts_tasks s') = List.map tk_kind (ts_tasks s) \<and> ts_taskIx s' = ts_taskIx s"
  using setOnFiring_slots [of env k x s s'] setOnFiring_quiet [of env k x s s'] by (auto simp: same_slots_def intro!: nth_equalityI)

lemma setOnFiring_firing:
  assumes "task_setOnFiring env k x s = Inr s'" and "task_of s x h v"
  shows "\<exists>t. task_at s' x = Inr t \<and> tk_firing t = k \<and> (tk_kind t = Uni_Task h v \<or> tk_kind t = Vect_Task h v)"
  using assms unfolding task_setOnFiring_def task_update_def
  by (auto simp: task_of_def task_at_def task_put_def split: if_splits)

lemma addTask_grows:
  assumes "addTask env t k sc = Inr sc'" and "\<forall>x. t = Some x \<longrightarrow> task_of (sc_store sc) x h v"
  shows "grows (sc, pa) (sc', pa) \<and> (case t of None \<Rightarrow> sc' = sc
    | Some x \<Rightarrow> sc_tasks sc' = sc_tasks sc @ [(x, k)] \<and> k < length (ts_taskIx (sc_store sc) h v) \<and>
        ts_taskIx (sc_store sc') = (ts_taskIx (sc_store sc))(h := (ts_taskIx (sc_store sc) h)(v :=
          (ts_taskIx (sc_store sc) h v)[k := length (sc_tasks sc) mod 2 ^ 32])))"
proof (cases t)
  case None
  with assms show ?thesis by (simp add: addTask_def)
next
  case (Some x)
  with assms obtain c c' where 1: "on_store (task_setOnFiring env k x) sc = Inr c" and
    2: "on_store (task_setIx (length (sc_tasks c) mod 2 ^ 32) x) c = Inr c'" and 3: "sc' = c'\<lparr>sc_tasks := sc_tasks c' @ [(x, k)]\<rparr>"
    by (auto simp: addTask_def)
  from 1 have f: "task_setOnFiring env k x (sc_store sc) = Inr (sc_store c)" and c: "sc_tasks c = sc_tasks sc"
    by (auto simp: on_store_def)
  from setOnFiring_kinds [OF f] have k: "List.map tk_kind (ts_tasks (sc_store c)) = List.map tk_kind (ts_tasks (sc_store sc))"
    "ts_taskIx (sc_store c) = ts_taskIx (sc_store sc)" by auto
  from setOnFiring_firing [OF f] assms(2) Some obtain tk where
    tk: "task_at (sc_store c) x = Inr tk" "tk_firing tk = k" "tk_kind tk = Uni_Task h v \<or> tk_kind tk = Vect_Task h v" by blast
  from 2 have s: "task_setIx (length (sc_tasks c) mod 2 ^ 32) x (sc_store c) = Inr (sc_store c')" "sc_tasks c' = sc_tasks c"
    by (auto simp: on_store_def)
  from s(1) tk have "k < length (ts_taskIx (sc_store c) h v) \<and> sc_store c' = (sc_store c)\<lparr>ts_taskIx := (ts_taskIx (sc_store c))(h :=
      (ts_taskIx (sc_store c) h)(v := (ts_taskIx (sc_store c) h v)[k := length (sc_tasks c) mod 2 ^ 32]))\<rparr>"
    by (auto simp: task_setIx_def set_at_def split: if_splits)
  with k s(2) c 3 Some show ?thesis by (auto simp: grows_def)
qed

text \<open>A firing is dealt with: it has a place, or its vertex has no task.\<close>

definition served :: "sched_env \<Rightarrow> ps_state \<Rightarrow> node \<Rightarrow> bool" where
  "served env s b \<longleftrightarrow> no_task env (snd s) b \<or> (\<exists>i. entry_of (fst s) i b)"

lemma served_grows: "grows s s' \<Longrightarrow> served env s b \<Longrightarrow> served env s' b"
  unfolding served_def using entry_grows [of s s' _ b] no_task_grows [of s s' env b] by blast

lemma ps_addTask_grows:
  assumes "ps_addTask env h v k s = Inr s'" and "ps_ok env s"
  shows "grows s s'"
proof -
  obtain sc pa where s: "s = (sc, pa)" by (cases s)
  with assms obtain t sc' where t: "gf_getTask (se_world env) pa h v = Inr t" "addTask env t k sc = Inr sc'" "s' = (sc', pa)"
    by (auto simp: ps_addTask_def)
  with assms(2) s have "\<forall>x. t = Some x \<longrightarrow> task_of (sc_store sc) x h v" by (auto simp: ps_ok_def)
  with addTask_grows [OF t(2) this, of pa] s t(3) show ?thesis by simp
qed

lemma ps_addTask_ok:
  assumes add: "ps_addTask env h v k s = Inr s'" and ok: "ps_ok env s" and free: "\<not> stuck env (h, v, k)"
    and src: "\<And>d b. depends env (h, v, k) d \<Longrightarrow> fired_by d b \<Longrightarrow> served env s b"
    and len: "length (sc_tasks (fst s')) \<le> u32_max"
  shows "ps_ok env s' \<and> served env s' (h, v, k)"
proof -
  obtain sc pa where s: "s = (sc, pa)" by (cases s)
  with add obtain t sc' where t: "gf_getTask (se_world env) pa h v = Inr t" "addTask env t k sc = Inr sc'" "s' = (sc', pa)"
    by (auto simp: ps_addTask_def)
  show ?thesis
  proof (cases t)
    case None
    with t s ok show ?thesis by (simp add: addTask_def served_def no_task_def)
  next
    case (Some x)
    from ok s t(1) Some have x: "task_of (sc_store sc) x h v" by (auto simp: ps_ok_def)
    from addTask_grows [OF t(2), of h v pa] Some x have g: "grows s s'" and tasks: "sc_tasks sc' = sc_tasks sc @ [(x, k)]"
      and ix: "k < length (ts_taskIx (sc_store sc) h v)"
        "ts_taskIx (sc_store sc') = (ts_taskIx (sc_store sc))(h := (ts_taskIx (sc_store sc) h)(v :=
          (ts_taskIx (sc_store sc) h v)[k := length (sc_tasks sc) mod 2 ^ 32]))"
      using s t(3) by auto
    have kinds: "task_of (sc_store sc') y h' v' = task_of (sc_store sc) y h' v'" for y h' v'
      by (rule task_of_kinds) (use g s t(3) in \<open>simp add: grows_def\<close>)
    have n: "length (sc_tasks sc) mod 2 ^ 32 = length (sc_tasks sc)" using len tasks t(3) by simp
    have new: "entry_of sc' (length (sc_tasks sc)) (h, v, k)" using tasks x kinds by (simp add: entry_of_def)
    have old: "entry_of sc i a \<Longrightarrow> entry_of sc' i a" for i a using entry_grows [OF g] s t(3) by simp
    have cases: "entry_of sc i a \<or> i = length (sc_tasks sc) \<and> a = (h, v, k)" if e: "entry_of sc' i a" for i a
    proof -
      obtain h' v' k' where a: "a = (h', v', k')" by (cases a) auto
      show ?thesis
      proof (cases "i < length (sc_tasks sc)")
        case True
        with e a tasks kinds show ?thesis by (auto simp: entry_of_def nth_append)
      next
        case False
        with e a tasks have "i = length (sc_tasks sc)" "k' = k" "task_of (sc_store sc') x h' v'" by (auto simp: entry_of_def nth_append)
        with a x kinds show ?thesis by (auto simp: task_of_def)
      qed
    qed
    have "gf_getTask (se_world env) pa h' v' = Inr (Some y) \<longrightarrow> task_of (sc_store sc') y h' v'" for h' v' y
      using ok s kinds by (auto simp: ps_ok_def)
    moreover have "entry_of sc' i (h', v', k')" if "ga_getTaskIx (sc_store sc') h' v' k' = Inr i" "i \<noteq> u32_max" for h' v' k' i
    proof (cases "h' = h \<and> v' = v \<and> k' = k")
      case True
      with that ix n new show ?thesis by (simp add: ga_getTaskIx_def)
    next
      case False
      with that ix have "ga_getTaskIx (sc_store sc) h' v' k' = Inr i"
        by (auto simp: ga_getTaskIx_def nth_list_update split: if_splits)
      with ok s that(2) have "entry_of sc i (h', v', k')" by (auto simp: ps_ok_def)
      with old show ?thesis .
    qed
    moreover have "\<not> stuck env a" if "entry_of sc' i a" for i a
      using cases [OF that]
    proof
      assume "entry_of sc i a"
      with ok s show ?thesis unfolding ps_ok_def by blast
    qed (use free in simp)
    moreover have "no_task env pa b \<or> (\<exists>j < i. entry_of sc' j b)" if e: "entry_of sc' i a" "depends env a d" "fired_by d b" for i a d b
      using cases [OF e(1)]
    proof
      assume "entry_of sc i a"
      with ok s e(2,3) old show ?thesis unfolding ps_ok_def by blast
    next
      assume a: "i = length (sc_tasks sc) \<and> a = (h, v, k)"
      with src e(2,3) have "served env s b" by blast
      then consider "no_task env pa b" | j where "entry_of sc j b" using s by (auto simp: served_def)
      then show ?thesis
      proof cases
        case (2 j)
        then have "j < i" using a by (auto simp: entry_of_def split: prod.splits)
        with old [OF 2] show ?thesis by blast
      qed simp
    qed
    ultimately have "ps_ok env s'" unfolding ps_ok_def t(3) by blast
    moreover have "served env s' (h, v, k)" using new t(3) by (auto simp: served_def)
    ultimately show ?thesis by simp
  qed
qed

subsection \<open>The evaluation of a firing\<close>

abbreviation size_of :: "ps_state \<Rightarrow> nat" where
  "size_of s \<equiv> length (sc_tasks (fst s))"

lemma foldE_mono:
  assumes "foldE f s xs = Inr s'" and "\<And>s x t. f s x = Inr t \<Longrightarrow> m s \<le> (m t :: nat)"
  shows "m s \<le> m s'"
  using assms(1) by (rule foldE_invariant) (auto dest: assms(2))

type_synonym evaluator = "nat \<Rightarrow> nat \<Rightarrow> nat \<Rightarrow> ps_state \<Rightarrow> (bool \<times> ps_state) result"

definition lengthens :: "evaluator \<Rightarrow> bool" where
  "lengthens ev \<longleftrightarrow> (\<forall>h v k s b s'. ev h v k s = Inr (b, s') \<longrightarrow> size_of s \<le> size_of s')"

lemma lengthensD: "lengthens ev \<Longrightarrow> ev h v k s = Inr (b, s') \<Longrightarrow> size_of s \<le> size_of s'"
  unfolding lengthens_def by blast

lemma eval_length:
  assumes "lengthens ev" and "ps_eval ev (b0, s) d = Inr (b, s')"
  shows "size_of s \<le> size_of s'"
proof (cases "dep_rate d = 0 \<or> dep_vertex d = None \<or> dep_rate d < 0")
  case True
  with assms(2) show ?thesis by (auto simp: ps_eval_def split: if_splits)
next
  case False
  with assms(2) obtain h v ks where
    "foldE (\<lambda>(schedulable, s) k. bindE (ev h v k s) (\<lambda>(b, s1). Inr (schedulable \<and> b, s1))) (b0, s) ks = Inr (b, s')"
    by (auto simp: ps_eval_def)
  then have "size_of (snd (b0, s)) \<le> size_of (snd (b, s'))"
    by (rule foldE_mono) (auto dest: lengthensD [OF assms(1)])
  then show ?thesis by simp
qed

lemma inputs_length:
  assumes "lengthens ev" and "ps_inputs ev env h v k s slots = Inr (b, s')"
  shows "size_of s \<le> size_of s'"
  using assms(2)
proof (induction slots arbitrary: s)
  case (Cons slot slots)
  then obtain ds b1 sc pa pa1 where d: "foldE (ps_eval ev) (True, s) ds = Inr (b1, sc, pa)" and
    r: "(if b1 then ps_inputs ev env h v k (sc, pa1) slots else Inr (False, sc, pa1)) = Inr (b, s')"
    by (auto split: prod.splits)
  from d have "size_of (snd (True, s)) \<le> size_of (snd (b1, sc, pa))"
    by (rule foldE_mono) (use eval_length [OF assms(1)] in \<open>auto split: prod.splits\<close>)
  moreover have "length (sc_tasks sc) \<le> size_of s'"
    using r Cons.IH [of "(sc, pa1)"] by (cases b1) auto
  ultimately show ?case by simp
qed simp

lemma addTask_length: "ps_addTask env h v k s = Inr s' \<Longrightarrow> size_of s \<le> size_of s'"
  by (auto simp: ps_addTask_def addTask_def on_store_def split: option.splits prod.splits)

lemma evaluate_length: "lengthens (ps_evaluate n env)"
proof (induction n)
  case (Suc n)
  show ?case
    unfolding lengthens_def
  proof (intro allI impI)
    fix h v k s b s'
    assume e: "ps_evaluate (Suc n) env h v k s = Inr (b, s')"
    then obtain ix where ix: "ga_getTaskIx (sc_store (fst s)) h v k = Inr ix" by auto
    show "size_of s \<le> size_of s'"
    proof (cases "ix = u32_max")
      case False
      with e ix show ?thesis by simp
    next
      case True
      with e ix obtain slots b1 s1 where "ps_inputs (ps_evaluate n env) env h v k s slots = Inr (b1, s1)"
        and r: "(if b1 then bindE (ps_addTask env h v k s1) (\<lambda>s2. Inr (True, s2)) else Inr (False, s1)) = Inr (b, s')" by auto
      from inputs_length [OF Suc this(1)] have "size_of s \<le> size_of s1" .
      moreover have "size_of s1 \<le> size_of s'" using r addTask_length [of env h v k s1 s'] by (cases b1) auto
      ultimately show ?thesis by simp
    qed
  qed
qed (simp add: lengthens_def)

text \<open>What an evaluation does, as long as the indices of the schedule fit in 32 bits.\<close>

definition evaluates :: "sched_env \<Rightarrow> evaluator \<Rightarrow> bool" where
  "evaluates env ev \<longleftrightarrow> (\<forall>h v k s b s'. ev h v k s = Inr (b, s') \<longrightarrow> ps_ok env s \<longrightarrow> size_of s' \<le> u32_max \<longrightarrow>
     grows s s' \<and> ps_ok env s' \<and> b = (\<not> stuck env (h, v, k)) \<and> (b \<longrightarrow> served env s' (h, v, k)))"

definition clear :: "sched_env \<Rightarrow> dep_info \<Rightarrow> bool" where
  "clear env d \<longleftrightarrow> dep_rate d = 0 \<or> \<not> unresolved d \<and> (\<forall>b. fired_by d b \<longrightarrow> \<not> stuck env b)"

definition all_served :: "sched_env \<Rightarrow> ps_state \<Rightarrow> dep_info \<Rightarrow> bool" where
  "all_served env s d \<longleftrightarrow> dep_rate d = 0 \<or> (\<forall>b. fired_by d b \<longrightarrow> served env s b)"

lemma all_served_grows: "grows s s' \<Longrightarrow> all_served env s d \<Longrightarrow> all_served env s' d"
  unfolding all_served_def using served_grows [of s s' env] by blast

lemma eval_ok:
  assumes ev: "evaluates env ev" "lengthens ev" and e: "ps_eval ev (b0, s) d = Inr (b, s')" and ok: "ps_ok env s" and len: "size_of s' \<le> u32_max"
  shows "grows s s' \<and> ps_ok env s' \<and> b = (b0 \<and> clear env d) \<and> (b \<longrightarrow> all_served env s' d)"
proof (cases "dep_rate d = 0 \<or> unresolved d")
  case True
  with e ok show ?thesis by (auto simp: ps_eval_def clear_def all_served_def unresolved_def split: if_splits)
next
  case False
  with e obtain h v ks where ks: "ps_firings d = Inr ks" "dep_actor d = Inr (h, v)" and
    f: "foldE (\<lambda>(schedulable, s) k. bindE (ev h v k s) (\<lambda>(b, s1). Inr (schedulable \<and> b, s1))) (b0, s) ks = Inr (b, s')"
    by (auto simp: ps_eval_def unresolved_def)
  let ?P = "\<lambda>ys (b, t). size_of t \<le> u32_max \<longrightarrow> grows s t \<and> ps_ok env t \<and> b = (b0 \<and> (\<forall>k \<in> set ys. \<not> stuck env (h, v, k))) \<and>
    (b \<longrightarrow> (\<forall>k \<in> set ys. served env t (h, v, k)))"
  have "?P ks (b, s')"
    using f
  proof (rule foldE_prefix [where P = ?P])
    show "?P [] (b0, s)" using ok by simp
    fix ys k st st'
    assume P: "?P ys st" and step: "(\<lambda>(schedulable, s) k. bindE (ev h v k s) (\<lambda>(b, s1). Inr (schedulable \<and> b, s1))) st k = Inr st'"
    obtain b1 s1 where st: "st = (b1, s1)" by (cases st)
    from step st obtain b2 s2 where e2: "ev h v k s1 = Inr (b2, s2)" and st': "st' = (b1 \<and> b2, s2)" by auto
    show "?P (ys @ [k]) st'"
      unfolding st' prod.case
    proof
      assume l: "size_of s2 \<le> u32_max"
      with lengthensD [OF ev(2) e2] have "size_of s1 \<le> u32_max" by (rule order_trans)
      with P st have p: "grows s s1" "ps_ok env s1" "b1 = (b0 \<and> (\<forall>k \<in> set ys. \<not> stuck env (h, v, k)))"
        "b1 \<longrightarrow> (\<forall>k \<in> set ys. served env s1 (h, v, k))" by auto
      from ev(1) e2 p(2) l have q: "grows s1 s2" "ps_ok env s2" "b2 = (\<not> stuck env (h, v, k))" "b2 \<longrightarrow> served env s2 (h, v, k)"
        unfolding evaluates_def by blast+
      from p q served_grows [OF q(1)] show "grows s s2 \<and> ps_ok env s2 \<and>
          (b1 \<and> b2) = (b0 \<and> (\<forall>k \<in> set (ys @ [k]). \<not> stuck env (h, v, k))) \<and> (b1 \<and> b2 \<longrightarrow> (\<forall>k \<in> set (ys @ [k]). served env s2 (h, v, k)))"
        by (auto intro: sched_grows_trans)
    qed
  qed
  moreover have "fired_by d c \<longleftrightarrow> (\<exists>k \<in> set ks. c = (h, v, k))" for c using ks False by (cases c) (auto simp: fired_by_def)
  ultimately show ?thesis using len False by (auto simp: clear_def all_served_def)
qed

lemma evals_ok:
  assumes ev: "evaluates env ev" "lengthens ev" and f: "foldE (ps_eval ev) (True, s) ds = Inr (b, s')" and ok: "ps_ok env s"
    and len: "size_of s' \<le> u32_max"
  shows "grows s s' \<and> ps_ok env s' \<and> b = (\<forall>d \<in> set ds. clear env d) \<and> (b \<longrightarrow> (\<forall>d \<in> set ds. all_served env s' d))"
proof -
  let ?P = "\<lambda>ys (b, t). size_of t \<le> u32_max \<longrightarrow> grows s t \<and> ps_ok env t \<and> b = (\<forall>d \<in> set ys. clear env d) \<and>
    (b \<longrightarrow> (\<forall>d \<in> set ys. all_served env t d))"
  have "?P ds (b, s')"
    using f
  proof (rule foldE_prefix [where P = ?P])
    show "?P [] (True, s)" using ok by simp
    fix ys d st st'
    assume P: "?P ys st" and step: "ps_eval ev st d = Inr st'"
    obtain b1 s1 where st: "st = (b1, s1)" by (cases st)
    obtain b2 s2 where st': "st' = (b2, s2)" by (cases st')
    note e = step [unfolded st st']
    show "?P (ys @ [d]) st'"
      unfolding st' prod.case
    proof
      assume l: "size_of s2 \<le> u32_max"
      with eval_length [OF ev(2) e] have "size_of s1 \<le> u32_max" by simp
      with P st have p: "grows s s1" "ps_ok env s1" "b1 = (\<forall>d \<in> set ys. clear env d)" "b1 \<longrightarrow> (\<forall>d \<in> set ys. all_served env s1 d)" by auto
      from eval_ok [OF ev e p(2) l] have q: "grows s1 s2" "ps_ok env s2" "b2 = (b1 \<and> clear env d)" "b2 \<longrightarrow> all_served env s2 d" by auto
      from p q all_served_grows [OF q(1)] show "grows s s2 \<and> ps_ok env s2 \<and> b2 = (\<forall>d \<in> set (ys @ [d]). clear env d) \<and>
          (b2 \<longrightarrow> (\<forall>d \<in> set (ys @ [d]). all_served env s2 d))"
        by (auto intro: sched_grows_trans)
    qed
  qed
  with len show ?thesis by simp
qed

definition slot_dep :: "sched_env \<Rightarrow> nat \<Rightarrow> nat \<Rightarrow> nat option list \<Rightarrow> dep_info \<Rightarrow> bool" where
  "slot_dep env h k slots d \<longleftrightarrow> (\<exists>e n ds. Some e \<in> set slots \<and>
     deps_result (computeExecDependency (se_fuel env) (se_world env) h e k) = Inr (n, ds) \<and> d \<in> set ds)"

lemma inputs_ok:
  assumes ev: "evaluates env ev" "lengthens ev" and i: "ps_inputs ev env h v k s slots = Inr (b, s')" and ok: "ps_ok env s"
    and len: "size_of s' \<le> u32_max"
  shows "grows s s' \<and> ps_ok env s' \<and> b = (\<forall>d. slot_dep env h k slots d \<longrightarrow> clear env d) \<and>
    (b \<longrightarrow> (\<forall>d. slot_dep env h k slots d \<longrightarrow> all_served env s' d))"
  using i ok
proof (induction slots arbitrary: s)
  case Nil
  then show ?case by (simp add: slot_dep_def)
next
  case (Cons slot slots)
  from Cons.prems(1) obtain e n ds b1 sc pa pa1 where slot: "slot = Some e" and
    ds: "deps_result (computeExecDependency (se_fuel env) (se_world env) h e k) = Inr (n, ds)" and
    f: "foldE (ps_eval ev) (True, s) ds = Inr (b1, sc, pa)" and c: "gf_setEdgeDepCount (se_world env) h v e k (stored_count n) pa = Inr pa1" and
    r: "(if b1 then ps_inputs ev env h v k (sc, pa1) slots else Inr (False, sc, pa1)) = Inr (b, s')"
    by (auto simp: null_check_def split: prod.splits option.splits)
  have dep: "slot_dep env h k (slot # slots) d \<longleftrightarrow> d \<in> set ds \<or> slot_dep env h k slots d" for d
    using ds slot by (auto simp: slot_dep_def)
  have "length (sc_tasks sc) \<le> size_of s'" using r inputs_length [OF ev(2), of env h v k "(sc, pa1)"] by (cases b1) auto
  with evals_ok [OF ev f Cons.prems(2)] len have p: "grows s (sc, pa)" "ps_ok env (sc, pa)" "b1 = (\<forall>d \<in> set ds. clear env d)"
    "b1 \<longrightarrow> (\<forall>d \<in> set ds. all_served env (sc, pa) d)" by auto
  note same = set_count_ok [OF c]
  from p(1) same have g: "grows s (sc, pa1)" by (simp add: grows_def)
  from p(2) ps_ok_pa [OF same] have ok1: "ps_ok env (sc, pa1)" by simp
  have g1: "grows (sc, pa) (sc, pa1)" using same by (simp add: grows_def)
  show ?case
  proof (cases b1)
    case False
    with r have "b = False" "s' = (sc, pa1)" by simp_all
    moreover from False p(3) have "\<not> (\<forall>d. slot_dep env h k (slot # slots) d \<longrightarrow> clear env d)" unfolding dep by blast
    ultimately show ?thesis using g ok1 by simp
  next
    case True
    with r have "ps_inputs ev env h v k (sc, pa1) slots = Inr (b, s')" by simp
    from Cons.IH [OF this ok1] have q: "grows (sc, pa1) s'" "ps_ok env s'" "b = (\<forall>d. slot_dep env h k slots d \<longrightarrow> clear env d)"
      "b \<longrightarrow> (\<forall>d. slot_dep env h k slots d \<longrightarrow> all_served env s' d)" by auto
    have "all_served env s' d" if "d \<in> set ds" for d
      using all_served_grows [OF sched_grows_trans [OF g1 q(1)]] p(4) True that by blast
    then have "b \<longrightarrow> (\<forall>d. slot_dep env h k (slot # slots) d \<longrightarrow> all_served env s' d)" using q(4) unfolding dep by blast
    moreover have "b = (\<forall>d. slot_dep env h k (slot # slots) d \<longrightarrow> clear env d)" using q(3) p(3) True unfolding dep by blast
    ultimately show ?thesis using q(2) sched_grows_trans [OF g q(1)] by blast
  qed
qed

lemma stuck_iff:
  assumes "vertex_of (se_world env) h v = Inr x"
  shows "stuck env (h, v, k) \<longleftrightarrow> \<not> (\<forall>d. slot_dep env h k (v_in x) d \<longrightarrow> clear env d)"
proof -
  have "depends env (h, v, k) d \<longleftrightarrow> slot_dep env h k (v_in x) d \<and> dep_rate d \<noteq> 0" for d
    using assms by (auto simp: depends_def slot_dep_def)
  moreover have "stuck env (h, v, k) \<longleftrightarrow> (\<exists>d. depends env (h, v, k) d \<and> (unresolved d \<or> (\<exists>b. fired_by d b \<and> stuck env b)))"
    by (subst stuck.simps) blast
  ultimately show ?thesis unfolding clear_def by blast
qed

lemma evaluate_ok: "evaluates env (ps_evaluate n env)"
proof (induction n)
  case (Suc n)
  show ?case
    unfolding evaluates_def
  proof (intro allI impI)
    fix h v k s b s'
    assume e: "ps_evaluate (Suc n) env h v k s = Inr (b, s')" and ok: "ps_ok env s" and len: "size_of s' \<le> u32_max"
    from e obtain ix where ix: "ga_getTaskIx (sc_store (fst s)) h v k = Inr ix" by auto
    show "grows s s' \<and> ps_ok env s' \<and> b = (\<not> stuck env (h, v, k)) \<and> (b \<longrightarrow> served env s' (h, v, k))"
    proof (cases "ix = u32_max")
      case False
      obtain sc pa where s: "s = (sc, pa)" by (cases s)
      with ok ix False have "entry_of sc ix (h, v, k)" by (simp add: ps_ok_def)
      moreover from this ok s have "\<not> stuck env (h, v, k)" unfolding ps_ok_def by blast
      moreover from e ix False have "b" "s' = s" by simp_all
      ultimately show ?thesis using ok s by (auto simp: served_def)
    next
      case True
      with e ix obtain x b1 s1 where x: "vertex_of (se_world env) h v = Inr x" and
        i: "ps_inputs (ps_evaluate n env) env h v k s (v_in x) = Inr (b1, s1)" and
        r: "(if b1 then bindE (ps_addTask env h v k s1) (\<lambda>s2. Inr (True, s2)) else Inr (False, s1)) = Inr (b, s')" by auto
      have "size_of s1 \<le> size_of s'" using r addTask_length [of env h v k s1 s'] by (cases b1) auto
      with inputs_ok [OF Suc evaluate_length i ok] len have p: "grows s s1" "ps_ok env s1" "b1 = (\<not> stuck env (h, v, k))"
        "b1 \<longrightarrow> (\<forall>d. slot_dep env h k (v_in x) d \<longrightarrow> all_served env s1 d)" using stuck_iff [OF x, of k] by auto
      show ?thesis
      proof (cases b1)
        case False
        with r p show ?thesis by simp
      next
        case b1: True
        with r have a: "ps_addTask env h v k s1 = Inr s'" and b: "b" by auto
        have src: "served env s1 c" if "depends env (h, v, k) d" "fired_by d c" for d c
        proof -
          from that(1) x have "slot_dep env h k (v_in x) d" "dep_rate d \<noteq> 0" by (auto simp: depends_def slot_dep_def)
          with p(4) b1 that(2) show ?thesis unfolding all_served_def by blast
        qed
        from p(3) b1 have "\<not> stuck env (h, v, k)" by simp
        from ps_addTask_ok [OF a p(2) this src len] ps_addTask_grows [OF a p(2)] p(1,3) b1 b show ?thesis
          by (auto intro: sched_grows_trans)
      qed
    qed
  qed
qed (simp add: evaluates_def)

subsection \<open>The traversal of the hierarchy\<close>

text \<open>A part of the traversal: it serves the firings \<open>D\<close> that can run.\<close>

definition runs :: "sched_env \<Rightarrow> (ps_state \<Rightarrow> ps_state result) \<Rightarrow> (node \<Rightarrow> bool) \<Rightarrow> bool" where
  "runs env f D \<longleftrightarrow> (\<forall>s t. f s = Inr t \<longrightarrow> size_of s \<le> size_of t \<and> (ps_ok env s \<longrightarrow> size_of t \<le> u32_max \<longrightarrow>
     grows s t \<and> ps_ok env t \<and> (\<forall>c. D c \<longrightarrow> served env t c)))"

lemma runsD:
  assumes "runs env f D" and "f s = Inr t"
  shows "size_of s \<le> size_of t"
    and "ps_ok env s \<Longrightarrow> size_of t \<le> u32_max \<Longrightarrow> grows s t \<and> ps_ok env t \<and> (\<forall>c. D c \<longrightarrow> served env t c)"
  using assms unfolding runs_def by blast+

lemma runs_skip: "runs env Inr (\<lambda>_. False)"
  by (simp add: runs_def)

lemma runs_weaken: "runs env f D \<Longrightarrow> (\<And>c. E c \<Longrightarrow> D c) \<Longrightarrow> runs env f E"
  unfolding runs_def by blast

lemma runs_guard: "(\<And>y. x = Inr y \<Longrightarrow> runs env (f y) D) \<Longrightarrow> runs env (\<lambda>s. bindE x (\<lambda>y. f y s)) D"
  by (cases x) (auto simp: runs_def)

lemma runs_seq:
  assumes "runs env f D" and "runs env g E"
  shows "runs env (\<lambda>s. bindE (f s) g) (\<lambda>c. D c \<or> E c)"
  unfolding runs_def
proof (intro allI impI)
  fix s t
  assume "bindE (f s) g = Inr t"
  then obtain u where u: "f s = Inr u" "g u = Inr t" by auto
  note f = runsD [OF assms(1) u(1)] and g = runsD [OF assms(2) u(2)]
  show "size_of s \<le> size_of t \<and> (ps_ok env s \<longrightarrow> size_of t \<le> u32_max \<longrightarrow> grows s t \<and> ps_ok env t \<and> (\<forall>c. D c \<or> E c \<longrightarrow> served env t c))"
  proof (intro conjI impI)
    show "size_of s \<le> size_of t" using f(1) g(1) by simp
    assume ok: "ps_ok env s" and l: "size_of t \<le> u32_max"
    with f g(1) have p: "grows s u" "ps_ok env u" "\<forall>c. D c \<longrightarrow> served env u c" by auto
    with g(2) l have q: "grows u t" "ps_ok env t" "\<forall>c. E c \<longrightarrow> served env t c" by auto
    show "grows s t" using sched_grows_trans [OF p(1) q(1)] .
    show "ps_ok env t" by (rule q(2))
    show "\<forall>c. D c \<or> E c \<longrightarrow> served env t c" using p(3) q(3) served_grows [OF q(1)] by blast
  qed
qed

lemma runs_fold: "(\<And>x. x \<in> set xs \<Longrightarrow> runs env (\<lambda>s. f s x) (D x)) \<Longrightarrow> runs env (\<lambda>s. foldE f s xs) (\<lambda>c. \<exists>x \<in> set xs. D x c)"
proof (induction xs)
  case (Cons x xs)
  then have "runs env (\<lambda>s. bindE (f s x) (\<lambda>s. foldE f s xs)) (\<lambda>c. D x c \<or> (\<exists>y \<in> set xs. D y c))"
    by (intro runs_seq) simp_all
  then show ?case by simp
qed (simp add: runs_skip)

lemma runs_evaluate:
  "runs env (\<lambda>s. bindE (ps_evaluate n env h v k s) (\<lambda>(_, s1). Inr s1)) (\<lambda>c. c = (h, v, k) \<and> \<not> stuck env c)"
  unfolding runs_def
proof (intro allI impI)
  fix s t
  assume "bindE (ps_evaluate n env h v k s) (\<lambda>(_, s1). Inr s1) = Inr t"
  then obtain b where b: "ps_evaluate n env h v k s = Inr (b, t)" by auto
  from lengthensD [OF evaluate_length b] evaluate_ok [of env n] b
  show "size_of s \<le> size_of t \<and> (ps_ok env s \<longrightarrow> size_of t \<le> u32_max \<longrightarrow>
      grows s t \<and> ps_ok env t \<and> (\<forall>c. c = (h, v, k) \<and> \<not> stuck env c \<longrightarrow> served env t c))"
    unfolding evaluates_def by blast
qed

text \<open>A firing of an executable vertex.\<close>

definition fires :: "sched_env \<Rightarrow> nat \<Rightarrow> nat \<Rightarrow> nat \<Rightarrow> bool" where
  "fires env h v k \<longleftrightarrow> (\<exists>x rv. vertex_of (se_world env) h v = Inr x \<and> v_type x \<noteq> DELAY \<and> pi_executable x \<and>
     getRV (se_world env) h (Actor v) = Inr rv \<and> k < rv)"

lemma runs_vertex: "runs env (\<lambda>s. greedy_vertex n env h s v) (\<lambda>c. \<exists>k. c = (h, v, k) \<and> fires env h v k \<and> \<not> stuck env c)"
proof -
  have "runs env (\<lambda>s. bindE (vertex_of (se_world env) h v) (\<lambda>x. if v_type x = DELAY \<or> \<not> pi_executable x then Inr s
     else bindE (getRV (se_world env) h (Actor v)) (\<lambda>rv.
       foldE (\<lambda>s k. bindE (ps_evaluate n env h v k s) (\<lambda>(_, s1). Inr s1)) s [0..<rv])))
     (\<lambda>c. \<exists>k. c = (h, v, k) \<and> fires env h v k \<and> \<not> stuck env c)"
  proof (rule runs_guard)
    fix x
    assume x: "vertex_of (se_world env) h v = Inr x"
    show "runs env (\<lambda>s. if v_type x = DELAY \<or> \<not> pi_executable x then Inr s
     else bindE (getRV (se_world env) h (Actor v)) (\<lambda>rv.
       foldE (\<lambda>s k. bindE (ps_evaluate n env h v k s) (\<lambda>(_, s1). Inr s1)) s [0..<rv]))
     (\<lambda>c. \<exists>k. c = (h, v, k) \<and> fires env h v k \<and> \<not> stuck env c)"
    proof (cases "v_type x = DELAY \<or> \<not> pi_executable x")
      case True
      with runs_weaken [OF runs_skip] x show ?thesis by (auto simp: fires_def)
    next
      case False
      have "runs env (\<lambda>s. bindE (getRV (se_world env) h (Actor v)) (\<lambda>rv.
         foldE (\<lambda>s k. bindE (ps_evaluate n env h v k s) (\<lambda>(_, s1). Inr s1)) s [0..<rv]))
         (\<lambda>c. \<exists>k. c = (h, v, k) \<and> fires env h v k \<and> \<not> stuck env c)"
      proof (rule runs_guard)
        fix rv
        assume "getRV (se_world env) h (Actor v) = Inr rv"
        then show "runs env (\<lambda>s. foldE (\<lambda>s k. bindE (ps_evaluate n env h v k s) (\<lambda>(_, s1). Inr s1)) s [0..<rv])
            (\<lambda>c. \<exists>k. c = (h, v, k) \<and> fires env h v k \<and> \<not> stuck env c)"
          by (intro runs_weaken [OF runs_fold [OF runs_evaluate]]) (auto simp: fires_def)
      qed
      with False show ?thesis by (simp cong: if_cong)
    qed
  qed
  then show ?thesis by (simp add: greedy_vertex_def)
qed

text \<open>The resolved firings below a handler, with their graphs.\<close>

inductive under :: "'e GraphHandler.fires \<Rightarrow> nat \<Rightarrow> nat \<Rightarrow> nat \<Rightarrow> bool" for st where
  here: "handler_at st hn = Inr x \<Longrightarrow> h \<in> set (hd_firings x) \<Longrightarrow> fire_at st h = Inr f \<Longrightarrow> fr_resolved f \<Longrightarrow> under st hn (hd_graph x) h"
| below: "handler_at st hn = Inr x \<Longrightarrow> h \<in> set (hd_firings x) \<Longrightarrow> fire_at st h = Inr f \<Longrightarrow> fr_resolved f \<Longrightarrow> Some hn' \<in> set (fr_subs f) \<Longrightarrow>
    under st hn' g h' \<Longrightarrow> under st hn g h'"

definition to_serve :: "'e fire_ctx \<Rightarrow> 'e GraphHandler.fires \<Rightarrow> nat \<Rightarrow> node \<Rightarrow> bool" where
  "to_serve cx st hn c \<longleftrightarrow> (case c of (h, v, k) \<Rightarrow> \<exists>g gr. under st hn g h \<and> get_at (fx_graphs cx) g = Inr gr \<and> v < length (g_vertices gr) \<and>
     fires (env_at cx st) h v k \<and> \<not> stuck (env_at cx st) c)"

lemma runs_schedule: "runs (env_at cx st) (ps_greedy_schedule m n cx st hn) (to_serve cx st hn)"
proof (induction m arbitrary: hn)
  case 0
  then show ?case by (simp add: runs_def)
next
  case (Suc m)
  let ?env = "env_at cx st"
  let ?subs = "\<lambda>s subs. foldE (\<lambda>s sub. bindE (null_check sub) (\<lambda>hn'. ps_greedy_schedule m n cx st hn' s)) s subs"
  have subs: "runs ?env (\<lambda>s. ?subs s subs) (\<lambda>c. \<exists>sub \<in> set subs. \<exists>hn'. sub = Some hn' \<and> to_serve cx st hn' c)" for subs
  proof (rule runs_fold)
    fix sub
    show "runs ?env (\<lambda>s. bindE (null_check sub) (\<lambda>hn'. ps_greedy_schedule m n cx st hn' s)) (\<lambda>c. \<exists>hn'. sub = Some hn' \<and> to_serve cx st hn' c)"
      using Suc by (intro runs_guard) (auto simp: null_check_def split: option.splits)
  qed
  have "runs ?env (\<lambda>s. bindE (handler_at st hn) (\<lambda>x. bindE (get_at (fx_graphs cx) (hd_graph x)) (\<lambda>g.
     foldE (\<lambda>s h. bindE (fire_at st h) (\<lambda>f.
       if \<not> fr_resolved f then Inr s
       else bindE (foldE (greedy_vertex n ?env h) s [0..<length (g_vertices g)]) (\<lambda>s1. ?subs s1 (fr_subs f)))) s (hd_firings x)))) (to_serve cx st hn)"
  proof (intro runs_guard)
    fix x gr
    assume x: "handler_at st hn = Inr x" and gr: "get_at (fx_graphs cx) (hd_graph x) = Inr gr"
    let ?V = "\<lambda>h c. \<exists>v \<in> set [0..<length (g_vertices gr)]. \<exists>k. c = (h, v, k) \<and> fires ?env h v k \<and> \<not> stuck ?env c"
    let ?D = "\<lambda>h c. \<exists>f. fire_at st h = Inr f \<and> fr_resolved f \<and>
      (?V h c \<or> (\<exists>sub \<in> set (fr_subs f). \<exists>hn'. sub = Some hn' \<and> to_serve cx st hn' c))"
    have firing: "runs ?env (\<lambda>s. bindE (fire_at st h) (\<lambda>f. if \<not> fr_resolved f then Inr s
        else bindE (foldE (greedy_vertex n ?env h) s [0..<length (g_vertices gr)]) (\<lambda>s1. ?subs s1 (fr_subs f)))) (?D h)" for h
    proof (rule runs_guard)
      fix f
      assume f: "fire_at st h = Inr f"
      show "runs ?env (\<lambda>s. if \<not> fr_resolved f then Inr s
        else bindE (foldE (greedy_vertex n ?env h) s [0..<length (g_vertices gr)]) (\<lambda>s1. ?subs s1 (fr_subs f))) (?D h)"
      proof (cases "fr_resolved f")
        case True
        have "runs ?env (\<lambda>s. bindE (foldE (greedy_vertex n ?env h) s [0..<length (g_vertices gr)]) (\<lambda>s1. ?subs s1 (fr_subs f))) (?D h)"
          by (rule runs_weaken [OF runs_seq [OF runs_fold [OF runs_vertex] subs]]) (use f in auto)
        with True show ?thesis by simp
      next
        case False
        with runs_weaken [OF runs_skip] f show ?thesis by simp
      qed
    qed
    show "runs ?env (\<lambda>s. foldE (\<lambda>s h. bindE (fire_at st h) (\<lambda>f. if \<not> fr_resolved f then Inr s
       else bindE (foldE (greedy_vertex n ?env h) s [0..<length (g_vertices gr)]) (\<lambda>s1. ?subs s1 (fr_subs f)))) s (hd_firings x)) (to_serve cx st hn)"
    proof (rule runs_weaken [OF runs_fold [OF firing]])
      fix c
      assume c: "to_serve cx st hn c"
      obtain h v k where hvk: "c = (h, v, k)" by (cases c) auto
      from c hvk obtain g gr' where u: "under st hn g h" and g: "get_at (fx_graphs cx) g = Inr gr'" "v < length (g_vertices gr')"
        "fires ?env h v k" "\<not> stuck ?env c" by (auto simp: to_serve_def)
      from u show "\<exists>h \<in> set (hd_firings x). ?D h c"
      proof cases
        case (here y f)
        with x g gr hvk show ?thesis by auto
      next
        case (below y h1 f hn')
        with g hvk have ts: "to_serve cx st hn' c" unfolding to_serve_def by auto
        from below x have "h1 \<in> set (hd_firings x)" by simp
        moreover have "?D h1 c" by (rule exI [of _ f]) (use below ts in blast)
        ultimately show ?thesis by blast
      qed
    qed
  qed
  then show ?case by simp
qed

text \<open>
  When the greedy scheduler returns, the schedule has only grown, every entry that stands for a firing comes after entries of all firings it
  depends on (of vertices that have a task), no entry stands for a firing that cannot run, and every firing of an executable vertex of a
  resolved graph firing below the handler that can run has an entry.
\<close>

lemma ps_greedy_schedule_correct:
  assumes "ps_greedy_schedule m n cx st hn (sc, pa) = Inr (sc', pa')" and "ps_ok (env_at cx st) (sc, pa)" and "length (sc_tasks sc') \<le> u32_max"
  shows "(\<exists>xs. sc_tasks sc' = sc_tasks sc @ xs) \<and> ps_ok (env_at cx st) (sc', pa') \<and>
    (\<forall>i a d b. entry_of sc' i a \<longrightarrow> depends (env_at cx st) a d \<longrightarrow> fired_by d b \<longrightarrow> no_task (env_at cx st) pa' b \<or> (\<exists>j < i. entry_of sc' j b)) \<and>
    (\<forall>i a. entry_of sc' i a \<longrightarrow> \<not> stuck (env_at cx st) a) \<and>
    (\<forall>c. to_serve cx st hn c \<longrightarrow> no_task (env_at cx st) pa' c \<or> (\<exists>i. entry_of sc' i c))"
  using runsD(2) [OF runs_schedule assms(1,2)] assms(3) by (auto simp: grows_def served_def ps_ok_def)

end
