(* ===== verification/Spec2Isabelle.thy ===== *)
theory Spec2Isabelle
  imports SRLinkProps FifoProps ResourcesAllocator MathProps MemoryProps BRVProps DependenciesProps ExpressionProps PisdfStoreProps ThreadsProps RuntimeFifoProps RunnerProps RTPlatform PisdfFifoProps LauncherProps GraphHandler ListOrder OptimsFlow PisdfSchedProps
begin

text \<open>
  Spider 2.0 is a dataflow runtime. An application is a hierarchical dataflow graph (PiSDF) whose rates are expressions of parameters.
  At run time the library resolves the parameters, computes how often every actor fires, transforms the graph into one vertex per firing
  (single-rate graph) or keeps the firings in arrays (graph firings), schedules and maps the firings on the processing elements, allocates
  the FIFOs between them, and sends the jobs to the runners, threads that execute them in an order fixed by notifications. This
  development models the library, src/libspider (paths below are relative to it).

  \<^bold>\<open>Conventions\<close> (\<open>Prelude\<close>). An operation that can stop returns \<open>fault + 'a\<close>: exceptions of the project and of the standard
  library, null dereferences and undefined behaviour are values, \<open>bindE\<close> sequences, \<open>foldE\<close> is a loop that may stop. 64-bit signed
  arithmetic is \<open>int\<close> with the overflow as undefined behaviour (\<open>i64\<close>), unsigned arithmetic is \<open>nat\<close> with the wrap-around written out
  (\<open>add64\<close>, \<open>sub64\<close>, \<open>add32\<close>). Objects that are shared through pointers live in stores, a pointer is an index; memory that is
  addressed by bytes is a function (\<open>MemHeap\<close>). Loops whose end is a property are fuelled or partial functions; \<open>Diverges\<close> is the
  value of a loop that runs out of fuel, so a statement that a result is returned includes termination.

  \<^bold>\<open>Numbers and expressions.\<close> \<open>CMath\<close>, \<open>RationalNum\<close>, \<open>MathProps\<close>: common/Math.h and Rational.h, what they compute over the integers
  and when they overflow. \<open>RPN\<close>, \<open>Expression\<close>, \<open>ExpressionProps\<close>: graphs-tools/expression-parser, from the text to postfix elements
  (tokeniser, shunting-yard) and to a compiled expression with folded constants; it evaluates to the value of every expression tree that
  the text can render, blanks and case do not matter. The JIT back end is not modelled. \<open>Params\<close>: graphs/pisdf/Param.h, parameters as
  shared objects with parents.

  \<^bold>\<open>Memory.\<close> \<open>MemHeap\<close>, \<open>AllocPolicy\<close>, \<open>FreeList\<close>, \<open>FreeListInv\<close>, \<open>FreeListRelease\<close>, \<open>MemoryProps\<close>: memory/, the generic, linear
  static and free-list policies and the stacks. The free list is kept as nodes in the byte heap; its invariant \<open>fl_inv\<close> ties it to an abstract
  list of free blocks and a map of live pointers, for any number of buffers and alignments from 8 on. Its hypothesis \<open>clean_cut\<close>, that no
  left-over is shorter than a node, is needed: \<open>free_list_small_leftover_corrupts\<close> shows what happens else. \<open>MemoryInterface\<close>:
  archi/MemoryInterface.cpp, reference counted buffers.

  \<^bold>\<open>Graphs.\<close> \<open>PisdfStore\<close>, \<open>PisdfLinks\<close>, \<open>PisdfStoreProps\<close>: the mutable PiSDF graph (graphs/pisdf: Vertex, Edge, Interface, Graph, Delay).
  The ports and the ends of the edges are inverse to each other; connecting, moving an end and removing a vertex keep it and change
  nothing else. \<open>PiGraph\<close> is the same graph as the numerical tools read it. \<open>BRV\<close>, \<open>BRVSound\<close>, \<open>BRVComplete\<close>, \<open>BRVProps\<close>: the
  repetition vector (graphs-tools/numerical/brv.cpp), balanced and minimal. \<open>Dependencies\<close>, \<open>DependenciesProps\<close>: which firings a firing
  reads from and which read from it, as sets of tokens, through delays and interfaces; the recursion through the hierarchy is fuelled by
  its depth.

  \<^bold>\<open>Single-rate graph.\<close> \<open>SRGraph\<close> (graphs/srdag), \<open>SRTransform\<close>, \<open>SRJob\<close> (graphs-tools/transformation/srdag). \<open>SRFlow\<close> gives the graph its
  meaning: a token of an output port is followed through forks and joins (\<open>trace\<close>). \<open>SRLinkage\<close>, \<open>SRDeps\<close>, \<open>SRLinkProps\<close>: the linkage
  of an edge computes the streams of the edge. \<open>Optims\<close>, \<open>OptimsProps\<close>, \<open>OptimsFlow\<close>: the rewriting patterns
  (graphs-tools/transformation/optims) and the linkage they use.

  \<^bold>\<open>Graph firings.\<close> \<open>GraphAlloc\<close>, \<open>GraphHandler\<close> (graphs-tools/transformation/pisdf): the firings of the graphs, their parameters, repetition
  vectors and rates, and the arrays in which the scheduling results are stored. \<open>PisdfParams\<close>: the parameters of special kernels.

  \<^bold>\<open>Platform.\<close> \<open>Archi\<close>, \<open>ArchiProps\<close> (archi): elements, clusters, buses, and the numbering the rest relies on. \<open>RTInfo\<close>: constraints and
  timings of a vertex (runtime/common/RTInfo.h).

  \<^bold>\<open>Scheduling.\<close> \<open>Tasks\<close>, \<open>Schedule\<close> (scheduling/task, scheduling/schedule). \<open>SRSchedulers\<close>, \<open>PisdfSchedulers\<close> (scheduling/scheduler): greedy
  and list schedulers of both kinds of graphs. \<open>GreedyProps\<close>, \<open>ListMarks\<close>, \<open>ListLevels\<close>, \<open>ListProps\<close>, \<open>ListOrder\<close>: on the single-rate graph both
  append exactly what can run, each vertex after what it reads from; the fuel needed is a bound of the paths of the graph. \<open>PisdfSchedProps\<close>: the
  greedy schedule of the graph firings, when it returns, holds exactly the firings that can run, each after those it depends on. \<open>Mapper\<close>,
  \<open>SchedProps\<close>, \<open>MapperProps\<close>, \<open>ResourcesAllocator\<close> (scheduling/mapper, ResourcesAllocator.cpp): mapping with communications; the interface
  \<open>pe_finder\<close> is what the mapping needs of a search, both searches provide it. \<open>FifoAlloc\<close>, \<open>FifoProps\<close>, \<open>PisdfFifo\<close>, \<open>PisdfFifoProps\<close>
  (scheduling/memory): the FIFO descriptors of the jobs. \<open>TaskLauncher\<close>, \<open>LauncherProps\<close> (scheduling/launcher): the job messages.

  \<^bold>\<open>Run time.\<close> \<open>Monitors\<close>, \<open>IndexedQueue\<close>, \<open>Barrier\<close>, \<open>Communicator\<close>, \<open>ThreadsProps\<close> (thread, runtime/communicator): every step of a thread between
  two points where it can be interrupted is a step of a transition relation, the properties hold in every reachable state. \<open>Runner\<close>,
  \<open>RTPlatform\<close> (runtime/runner, runtime/platform), \<open>RunnerSystem\<close>, \<open>RunnerInv\<close>, \<open>RunnerAct\<close>, \<open>RunnerLive\<close>, \<open>RunnerProps\<close>: the runners at
  work on one iteration, all interleavings; jobs start after what they wait for, an iteration can always complete. \<open>Kernels\<close>,
  \<open>KernelsProps\<close>, \<open>RuntimeFifo\<close>, \<open>RuntimeFifoProps\<close> (runtime/special-kernels, runtime/common/Fifo.cpp): the data that moves.

  \<^bold>\<open>How the parts meet.\<close> The rates of the repetition vector are those of \<open>Expression\<close> and \<open>Params\<close>, given as values to the numerical
  tools; the single-rate linkage and the PiSDF allocators use the dependencies of \<open>Dependencies\<close>; schedulers fill the schedule that the
  mapper and the launcher read; the launcher fills the jobs whose stamps the runners compare; the descriptors of the allocators are those
  that \<open>RuntimeFifo\<close> turns into buffers.

  \<^bold>\<open>Parameters of the model.\<close> \<open>std::sort\<close> (an ordering function that sorts whenever the comparison allows it), user kernels, the memory
  that allocation routines return, the order in which threads run. \<^bold>\<open>Fuel\<close>: the depth of a hierarchy or of a path, or the number of elements
  still to visit; the theorems state the bound they need. \<^bold>\<open>Levels\<close> of the list schedulers are unbounded integers; the theorems bound the
  paths so that 32 bits are enough. \<^bold>\<open>Not modelled\<close>: the drivers under runtime/algorithm, the public interface (api), exporters,
  containers, logging, tracing and the glue of the memory library; they call what is modelled or write text.
\<close>

end
